(* ===== verification/Spec_Prelude.thy ===== *)
theory Spec_Prelude
  imports Main "HOL-Library.Word" "HOL-Library.Monad_Syntax"
begin

text \<open>
  Prelude of the development: the integer widths of \<open>os_type.h\<close> and \<open>cpu.h\<close>, the
  collections of simplification rules the components share, and the generic lemmas on
  options, lists and words that more than one component uses.

  Every operation of the kernel that follows a pointer is a function into \<open>option\<close>:
  \<open>None\<close> is undefined behaviour of the C code (a null pointer is dereferenced, an array is
  indexed out of range) or a loop that does not return; \<open>Some\<close> is a regular return. The
  do-notation is that of \<open>HOL-Library.Monad_Syntax\<close> for \<open>option\<close>.
\<close>

type_synonym u8 = "8 word"
type_synonym u16 = "16 word"
type_synonym u32 = "32 word"

named_theorems kdefs \<open>definitions of the accessors of the kernel state\<close>
named_theorems kops \<open>definitions of the operations of the kernel\<close>
named_theorems opts \<open>values of the option bits\<close>

text \<open>The head of a list as a nullable pointer.\<close>

definition hdo :: "'a list \<Rightarrow> 'a option" where
  "hdo xs = (case xs of [] \<Rightarrow> None | x # _ \<Rightarrow> Some x)"

lemma hdo_simps [simp]:
  "hdo [] = None"
  "hdo (x # xs) = Some x"
  by (simp_all add: hdo_def)

lemma hdo_append: "hdo (xs @ ys) = (if xs = [] then hdo ys else hdo xs)"
  by (cases xs) simp_all

lemma hdo_None_iff [simp]: "hdo xs = None \<longleftrightarrow> xs = []" "None = hdo xs \<longleftrightarrow> xs = []"
  by (cases xs; simp)+

lemma hdo_Some_iff: "hdo xs = Some x \<longleftrightarrow> (\<exists>ys. xs = x # ys)"
  by (cases xs) auto

lemma hdo_in_set: "hdo xs = Some x \<Longrightarrow> x \<in> set xs"
  by (cases xs) auto

lemma distinct_rev_append_Cons:
  "distinct (as @ x # bs) \<Longrightarrow> x \<notin> set as \<and> x \<notin> set bs \<and> set as \<inter> set bs = {}"
  by auto

text \<open>A bind of an option that is known to return.\<close>

lemma bind_eq_Some_iff:
  "Option.bind m f = Some y \<longleftrightarrow> (\<exists>x. m = Some x \<and> f x = Some y)"
  by (cases m) auto

text \<open>Stepping a counter that is not at its bound.\<close>

lemma unat_pred: "unat (w :: 'a::len word) = Suc n \<Longrightarrow> unat (w - 1) = n"
  using unat_minus_one [of w] by fastforce

lemma unat_succ: "(w :: 'a::len word) \<noteq> -1 \<Longrightarrow> unat (w + 1) = Suc (unat w)"
proof -
  assume w: "w \<noteq> -1"
  have "unat w < 2 ^ LENGTH('a)" by simp
  moreover have "unat w \<noteq> 2 ^ LENGTH('a) - 1" using w by (simp add: word_unat_eq_iff unsigned_minus_1_eq_mask mask_eq_exp_minus_1)
  ultimately have "unat w + 1 < 2 ^ LENGTH('a)" by linarith
  then show ?thesis by (simp add: unat_word_ariths)
qed

end
