(* ===== verification/Kernel_Types.thy ===== *)
theory Kernel_Types
  imports Spec_Prelude
begin

text \<open>
  The data of the uC/OS-III kernel (\<open>os.h\<close>, \<open>os_type.h\<close>) for the configuration of
  \<open>os_cfg.h\<close>: error codes, task states, the structures and the globals of the kernel.

  Pointers are \<open>nat option\<close>: \<open>None\<close> is the null pointer, \<open>Some a\<close> the address of a
  statically allocated object. Each C structure type has a store from addresses to records.
  A kernel object (\<open>OS_SEM\<close>, \<open>OS_MUTEX\<close>, \<open>OS_Q\<close>, \<open>OS_FLAG_GRP\<close>) starts with the common
  fields of \<open>OS_PEND_OBJ\<close>; the kernel casts between the two, so the common part of the
  object at an address is in the store \<open>OSObjs\<close> and its own part in the store of its type,
  under the same address, and the cast is the identity on addresses.
  Time stamps read from the cycle counter of the CPU are arguments of the operations.
\<close>

section \<open>Enumerations\<close>

text \<open>The error codes the modelled operations return, with the values of \<open>enum os_err\<close>.\<close>

datatype OS_ERR = Os_Err nat

abbreviation OS_ERR_NONE :: OS_ERR where "OS_ERR_NONE \<equiv> Os_Err 0"
abbreviation OS_ERR_CREATE_ISR :: OS_ERR where "OS_ERR_CREATE_ISR \<equiv> Os_Err 12001"
abbreviation OS_ERR_DEL_ISR :: OS_ERR where "OS_ERR_DEL_ISR \<equiv> Os_Err 13001"
abbreviation OS_ERR_FATAL_RETURN :: OS_ERR where "OS_ERR_FATAL_RETURN \<equiv> Os_Err 15001"
abbreviation OS_ERR_FLAG_NOT_RDY :: OS_ERR where "OS_ERR_FLAG_NOT_RDY \<equiv> Os_Err 15102"
abbreviation OS_ERR_FLAG_PEND_OPT :: OS_ERR where "OS_ERR_FLAG_PEND_OPT \<equiv> Os_Err 15103"
abbreviation OS_ERR_FLUSH_ISR :: OS_ERR where "OS_ERR_FLUSH_ISR \<equiv> Os_Err 15104"
abbreviation OS_ERR_LOCK_NESTING_OVF :: OS_ERR where "OS_ERR_LOCK_NESTING_OVF \<equiv> Os_Err 21001"
abbreviation OS_ERR_MEM_CREATE_ISR :: OS_ERR where "OS_ERR_MEM_CREATE_ISR \<equiv> Os_Err 22201"
abbreviation OS_ERR_MEM_FULL :: OS_ERR where "OS_ERR_MEM_FULL \<equiv> Os_Err 22202"
abbreviation OS_ERR_MEM_INVALID_P_ADDR :: OS_ERR where "OS_ERR_MEM_INVALID_P_ADDR \<equiv> Os_Err 22203"
abbreviation OS_ERR_MEM_INVALID_BLKS :: OS_ERR where "OS_ERR_MEM_INVALID_BLKS \<equiv> Os_Err 22204"
abbreviation OS_ERR_MEM_INVALID_P_BLK :: OS_ERR where "OS_ERR_MEM_INVALID_P_BLK \<equiv> Os_Err 22206"
abbreviation OS_ERR_MEM_INVALID_P_MEM :: OS_ERR where "OS_ERR_MEM_INVALID_P_MEM \<equiv> Os_Err 22207"
abbreviation OS_ERR_MEM_INVALID_SIZE :: OS_ERR where "OS_ERR_MEM_INVALID_SIZE \<equiv> Os_Err 22209"
abbreviation OS_ERR_MEM_NO_FREE_BLKS :: OS_ERR where "OS_ERR_MEM_NO_FREE_BLKS \<equiv> Os_Err 22210"
abbreviation OS_ERR_MSG_POOL_EMPTY :: OS_ERR where "OS_ERR_MSG_POOL_EMPTY \<equiv> Os_Err 22301"
abbreviation OS_ERR_MSG_POOL_NULL_PTR :: OS_ERR where "OS_ERR_MSG_POOL_NULL_PTR \<equiv> Os_Err 22302"
abbreviation OS_ERR_MUTEX_NOT_OWNER :: OS_ERR where "OS_ERR_MUTEX_NOT_OWNER \<equiv> Os_Err 22401"
abbreviation OS_ERR_MUTEX_OWNER :: OS_ERR where "OS_ERR_MUTEX_OWNER \<equiv> Os_Err 22402"
abbreviation OS_ERR_MUTEX_NESTING :: OS_ERR where "OS_ERR_MUTEX_NESTING \<equiv> Os_Err 22403"
abbreviation OS_ERR_MUTEX_OVF :: OS_ERR where "OS_ERR_MUTEX_OVF \<equiv> Os_Err 22404"
abbreviation OS_ERR_OBJ_CREATED :: OS_ERR where "OS_ERR_OBJ_CREATED \<equiv> Os_Err 24001"
abbreviation OS_ERR_OBJ_DEL :: OS_ERR where "OS_ERR_OBJ_DEL \<equiv> Os_Err 24002"
abbreviation OS_ERR_OBJ_PTR_NULL :: OS_ERR where "OS_ERR_OBJ_PTR_NULL \<equiv> Os_Err 24003"
abbreviation OS_ERR_OBJ_TYPE :: OS_ERR where "OS_ERR_OBJ_TYPE \<equiv> Os_Err 24004"
abbreviation OS_ERR_OPT_INVALID :: OS_ERR where "OS_ERR_OPT_INVALID \<equiv> Os_Err 24101"
abbreviation OS_ERR_OS_NOT_RUNNING :: OS_ERR where "OS_ERR_OS_NOT_RUNNING \<equiv> Os_Err 24201"
abbreviation OS_ERR_OS_RUNNING :: OS_ERR where "OS_ERR_OS_RUNNING \<equiv> Os_Err 24202"
abbreviation OS_ERR_OS_NOT_INIT :: OS_ERR where "OS_ERR_OS_NOT_INIT \<equiv> Os_Err 24203"
abbreviation OS_ERR_OS_NO_APP_TASK :: OS_ERR where "OS_ERR_OS_NO_APP_TASK \<equiv> Os_Err 24204"
abbreviation OS_ERR_PEND_ABORT :: OS_ERR where "OS_ERR_PEND_ABORT \<equiv> Os_Err 25001"
abbreviation OS_ERR_PEND_ABORT_ISR :: OS_ERR where "OS_ERR_PEND_ABORT_ISR \<equiv> Os_Err 25002"
abbreviation OS_ERR_PEND_ABORT_NONE :: OS_ERR where "OS_ERR_PEND_ABORT_NONE \<equiv> Os_Err 25003"
abbreviation OS_ERR_PEND_ABORT_SELF :: OS_ERR where "OS_ERR_PEND_ABORT_SELF \<equiv> Os_Err 25004"
abbreviation OS_ERR_PEND_ISR :: OS_ERR where "OS_ERR_PEND_ISR \<equiv> Os_Err 25006"
abbreviation OS_ERR_PEND_WOULD_BLOCK :: OS_ERR where "OS_ERR_PEND_WOULD_BLOCK \<equiv> Os_Err 25008"
abbreviation OS_ERR_POST_ISR :: OS_ERR where "OS_ERR_POST_ISR \<equiv> Os_Err 25102"
abbreviation OS_ERR_PRIO_INVALID :: OS_ERR where "OS_ERR_PRIO_INVALID \<equiv> Os_Err 25203"
abbreviation OS_ERR_PTR_INVALID :: OS_ERR where "OS_ERR_PTR_INVALID \<equiv> Os_Err 25301"
abbreviation OS_ERR_Q_EMPTY :: OS_ERR where "OS_ERR_Q_EMPTY \<equiv> Os_Err 26002"
abbreviation OS_ERR_Q_MAX :: OS_ERR where "OS_ERR_Q_MAX \<equiv> Os_Err 26003"
abbreviation OS_ERR_Q_SIZE :: OS_ERR where "OS_ERR_Q_SIZE \<equiv> Os_Err 26004"
abbreviation OS_ERR_ROUND_ROBIN_1 :: OS_ERR where "OS_ERR_ROUND_ROBIN_1 \<equiv> Os_Err 27002"
abbreviation OS_ERR_ROUND_ROBIN_DISABLED :: OS_ERR where "OS_ERR_ROUND_ROBIN_DISABLED \<equiv> Os_Err 27003"
abbreviation OS_ERR_SCHED_LOCK_ISR :: OS_ERR where "OS_ERR_SCHED_LOCK_ISR \<equiv> Os_Err 28002"
abbreviation OS_ERR_SCHED_LOCKED :: OS_ERR where "OS_ERR_SCHED_LOCKED \<equiv> Os_Err 28003"
abbreviation OS_ERR_SCHED_NOT_LOCKED :: OS_ERR where "OS_ERR_SCHED_NOT_LOCKED \<equiv> Os_Err 28004"
abbreviation OS_ERR_SCHED_UNLOCK_ISR :: OS_ERR where "OS_ERR_SCHED_UNLOCK_ISR \<equiv> Os_Err 28005"
abbreviation OS_ERR_SEM_OVF :: OS_ERR where "OS_ERR_SEM_OVF \<equiv> Os_Err 28101"
abbreviation OS_ERR_SET_ISR :: OS_ERR where "OS_ERR_SET_ISR \<equiv> Os_Err 28102"
abbreviation OS_ERR_STATE_INVALID :: OS_ERR where "OS_ERR_STATE_INVALID \<equiv> Os_Err 28205"
abbreviation OS_ERR_STATUS_INVALID :: OS_ERR where "OS_ERR_STATUS_INVALID \<equiv> Os_Err 28206"
abbreviation OS_ERR_TASK_CHANGE_PRIO_ISR :: OS_ERR where "OS_ERR_TASK_CHANGE_PRIO_ISR \<equiv> Os_Err 29001"
abbreviation OS_ERR_TASK_DEL_IDLE :: OS_ERR where "OS_ERR_TASK_DEL_IDLE \<equiv> Os_Err 29004"
abbreviation OS_ERR_TASK_DEL_ISR :: OS_ERR where "OS_ERR_TASK_DEL_ISR \<equiv> Os_Err 29006"
abbreviation OS_ERR_TASK_INVALID :: OS_ERR where "OS_ERR_TASK_INVALID \<equiv> Os_Err 29007"
abbreviation OS_ERR_TASK_DEL_INVALID :: OS_ERR where "OS_ERR_TASK_DEL_INVALID \<equiv> Os_Err 29005"
abbreviation OS_ERR_TASK_NOT_EXIST :: OS_ERR where "OS_ERR_TASK_NOT_EXIST \<equiv> Os_Err 29010"
abbreviation OS_ERR_TASK_NOT_DLY :: OS_ERR where "OS_ERR_TASK_NOT_DLY \<equiv> Os_Err 29009"
abbreviation OS_ERR_TASK_NOT_SUSPENDED :: OS_ERR where "OS_ERR_TASK_NOT_SUSPENDED \<equiv> Os_Err 29011"
abbreviation OS_ERR_TASK_RESUME_ISR :: OS_ERR where "OS_ERR_TASK_RESUME_ISR \<equiv> Os_Err 29013"
abbreviation OS_ERR_TASK_RESUME_SELF :: OS_ERR where "OS_ERR_TASK_RESUME_SELF \<equiv> Os_Err 29015"
abbreviation OS_ERR_TASK_SUSPENDED :: OS_ERR where "OS_ERR_TASK_SUSPENDED \<equiv> Os_Err 29018"
abbreviation OS_ERR_TASK_SUSPEND_IDLE :: OS_ERR where "OS_ERR_TASK_SUSPEND_IDLE \<equiv> Os_Err 29019"
abbreviation OS_ERR_TASK_SUSPEND_ISR :: OS_ERR where "OS_ERR_TASK_SUSPEND_ISR \<equiv> Os_Err 29021"
abbreviation OS_ERR_TASK_WAITING :: OS_ERR where "OS_ERR_TASK_WAITING \<equiv> Os_Err 29023"
abbreviation OS_ERR_TASK_SUSPEND_CTR_OVF :: OS_ERR where "OS_ERR_TASK_SUSPEND_CTR_OVF \<equiv> Os_Err 29024"
abbreviation OS_ERR_TCB_INVALID :: OS_ERR where "OS_ERR_TCB_INVALID \<equiv> Os_Err 29101"
abbreviation OS_ERR_TIME_DLY_ISR :: OS_ERR where "OS_ERR_TIME_DLY_ISR \<equiv> Os_Err 29301"
abbreviation OS_ERR_TIME_DLY_RESUME_ISR :: OS_ERR where "OS_ERR_TIME_DLY_RESUME_ISR \<equiv> Os_Err 29302"
abbreviation OS_ERR_TIME_INVALID_HOURS :: OS_ERR where "OS_ERR_TIME_INVALID_HOURS \<equiv> Os_Err 29304"
abbreviation OS_ERR_TIME_INVALID_MINUTES :: OS_ERR where "OS_ERR_TIME_INVALID_MINUTES \<equiv> Os_Err 29305"
abbreviation OS_ERR_TIME_INVALID_SECONDS :: OS_ERR where "OS_ERR_TIME_INVALID_SECONDS \<equiv> Os_Err 29306"
abbreviation OS_ERR_TIME_INVALID_MILLISECONDS :: OS_ERR where "OS_ERR_TIME_INVALID_MILLISECONDS \<equiv> Os_Err 29307"
abbreviation OS_ERR_TIME_ZERO_DLY :: OS_ERR where "OS_ERR_TIME_ZERO_DLY \<equiv> Os_Err 29310"
abbreviation OS_ERR_TIMEOUT :: OS_ERR where "OS_ERR_TIMEOUT \<equiv> Os_Err 29401"
abbreviation OS_ERR_TMR_INACTIVE :: OS_ERR where "OS_ERR_TMR_INACTIVE \<equiv> Os_Err 29501"
abbreviation OS_ERR_TMR_INVALID_DLY :: OS_ERR where "OS_ERR_TMR_INVALID_DLY \<equiv> Os_Err 29503"
abbreviation OS_ERR_TMR_INVALID_PERIOD :: OS_ERR where "OS_ERR_TMR_INVALID_PERIOD \<equiv> Os_Err 29504"
abbreviation OS_ERR_TMR_INVALID_STATE :: OS_ERR where "OS_ERR_TMR_INVALID_STATE \<equiv> Os_Err 29505"
abbreviation OS_ERR_TMR_INVALID :: OS_ERR where "OS_ERR_TMR_INVALID \<equiv> Os_Err 29506"
abbreviation OS_ERR_TMR_ISR :: OS_ERR where "OS_ERR_TMR_ISR \<equiv> Os_Err 29507"
abbreviation OS_ERR_TMR_NO_CALLBACK :: OS_ERR where "OS_ERR_TMR_NO_CALLBACK \<equiv> Os_Err 29508"
abbreviation OS_ERR_TMR_PRIO_INVALID :: OS_ERR where "OS_ERR_TMR_PRIO_INVALID \<equiv> Os_Err 29510"
abbreviation OS_ERR_TMR_STK_INVALID :: OS_ERR where "OS_ERR_TMR_STK_INVALID \<equiv> Os_Err 29511"
abbreviation OS_ERR_TMR_STK_SIZE_INVALID :: OS_ERR where "OS_ERR_TMR_STK_SIZE_INVALID \<equiv> Os_Err 29512"
abbreviation OS_ERR_TMR_STOPPED :: OS_ERR where "OS_ERR_TMR_STOPPED \<equiv> Os_Err 29513"
abbreviation OS_ERR_TMR_INVALID_CALLBACK :: OS_ERR where "OS_ERR_TMR_INVALID_CALLBACK \<equiv> Os_Err 29514"
abbreviation OS_ERR_NO_MORE_ID_AVAIL :: OS_ERR where "OS_ERR_NO_MORE_ID_AVAIL \<equiv> Os_Err 23002"
abbreviation OS_ERR_REG_ID_INVALID :: OS_ERR where "OS_ERR_REG_ID_INVALID \<equiv> Os_Err 27001"
abbreviation OS_ERR_STK_INVALID :: OS_ERR where "OS_ERR_STK_INVALID \<equiv> Os_Err 28207"
abbreviation OS_ERR_STK_SIZE_INVALID :: OS_ERR where "OS_ERR_STK_SIZE_INVALID \<equiv> Os_Err 28208"
abbreviation OS_ERR_STK_LIMIT_INVALID :: OS_ERR where "OS_ERR_STK_LIMIT_INVALID \<equiv> Os_Err 28209"
abbreviation OS_ERR_STK_OVF :: OS_ERR where "OS_ERR_STK_OVF \<equiv> Os_Err 28210"
abbreviation OS_ERR_TASK_CREATE_ISR :: OS_ERR where "OS_ERR_TASK_CREATE_ISR \<equiv> Os_Err 29002"
abbreviation OS_ERR_TASK_STK_CHK_ISR :: OS_ERR where "OS_ERR_TASK_STK_CHK_ISR \<equiv> Os_Err 29017"
abbreviation OS_ERR_TASK_OPT :: OS_ERR where "OS_ERR_TASK_OPT \<equiv> Os_Err 29012"
abbreviation OS_ERR_YIELD_ISR :: OS_ERR where "OS_ERR_YIELD_ISR \<equiv> Os_Err 34001"

datatype os_running = OS_STATE_OS_STOPPED | OS_STATE_OS_RUNNING

text \<open>\<open>OS_TASK_STATE_xxx\<close>: the eight combinations of the DLY, PEND and SUSPENDED bits, and DEL.\<close>

datatype task_state =
    OS_TASK_STATE_RDY | OS_TASK_STATE_DLY | OS_TASK_STATE_PEND | OS_TASK_STATE_PEND_TIMEOUT
  | OS_TASK_STATE_SUSPENDED | OS_TASK_STATE_DLY_SUSPENDED | OS_TASK_STATE_PEND_SUSPENDED
  | OS_TASK_STATE_PEND_TIMEOUT_SUSPENDED | OS_TASK_STATE_DEL

datatype pend_on =
    OS_TASK_PEND_ON_NOTHING | OS_TASK_PEND_ON_FLAG | OS_TASK_PEND_ON_TASK_Q
  | OS_TASK_PEND_ON_COND | OS_TASK_PEND_ON_MUTEX | OS_TASK_PEND_ON_Q | OS_TASK_PEND_ON_SEM
  | OS_TASK_PEND_ON_TASK_SEM

datatype pend_status =
    OS_STATUS_PEND_OK | OS_STATUS_PEND_ABORT | OS_STATUS_PEND_DEL | OS_STATUS_PEND_TIMEOUT

datatype obj_type =
    OS_OBJ_TYPE_NONE | OS_OBJ_TYPE_FLAG | OS_OBJ_TYPE_MEM | OS_OBJ_TYPE_MUTEX
  | OS_OBJ_TYPE_COND | OS_OBJ_TYPE_Q | OS_OBJ_TYPE_SEM | OS_OBJ_TYPE_TMR

datatype tmr_state =
    OS_TMR_STATE_UNUSED | OS_TMR_STATE_STOPPED | OS_TMR_STATE_RUNNING | OS_TMR_STATE_COMPLETED
  | OS_TMR_STATE_TIMEOUT

section \<open>Option bits (\<open>OS_OPT_xxx\<close>)\<close>

type_synonym OS_OPT = u16

definition OS_OPT_DEL_NO_PEND :: OS_OPT where [opts]: "OS_OPT_DEL_NO_PEND = 0x0000"
definition OS_OPT_DEL_ALWAYS :: OS_OPT where [opts]: "OS_OPT_DEL_ALWAYS = 0x0001"
definition OS_OPT_PEND_BLOCKING :: OS_OPT where [opts]: "OS_OPT_PEND_BLOCKING = 0x0000"
definition OS_OPT_PEND_NON_BLOCKING :: OS_OPT where [opts]: "OS_OPT_PEND_NON_BLOCKING = 0x8000"
definition OS_OPT_PEND_FLAG_MASK :: OS_OPT where [opts]: "OS_OPT_PEND_FLAG_MASK = 0x000F"
definition OS_OPT_PEND_FLAG_CLR_ALL :: OS_OPT where [opts]: "OS_OPT_PEND_FLAG_CLR_ALL = 0x0001"
definition OS_OPT_PEND_FLAG_CLR_ANY :: OS_OPT where [opts]: "OS_OPT_PEND_FLAG_CLR_ANY = 0x0002"
definition OS_OPT_PEND_FLAG_SET_ALL :: OS_OPT where [opts]: "OS_OPT_PEND_FLAG_SET_ALL = 0x0004"
definition OS_OPT_PEND_FLAG_SET_ANY :: OS_OPT where [opts]: "OS_OPT_PEND_FLAG_SET_ANY = 0x0008"
definition OS_OPT_PEND_FLAG_CONSUME :: OS_OPT where [opts]: "OS_OPT_PEND_FLAG_CONSUME = 0x0100"
definition OS_OPT_POST_FLAG_SET :: OS_OPT where [opts]: "OS_OPT_POST_FLAG_SET = 0x0000"
definition OS_OPT_POST_FLAG_CLR :: OS_OPT where [opts]: "OS_OPT_POST_FLAG_CLR = 0x0001"
definition OS_OPT_PEND_ABORT_1 :: OS_OPT where [opts]: "OS_OPT_PEND_ABORT_1 = 0x0000"
definition OS_OPT_PEND_ABORT_ALL :: OS_OPT where [opts]: "OS_OPT_PEND_ABORT_ALL = 0x0100"
definition OS_OPT_POST_NONE :: OS_OPT where [opts]: "OS_OPT_POST_NONE = 0x0000"
definition OS_OPT_POST_FIFO :: OS_OPT where [opts]: "OS_OPT_POST_FIFO = 0x0000"
definition OS_OPT_POST_LIFO :: OS_OPT where [opts]: "OS_OPT_POST_LIFO = 0x0010"
definition OS_OPT_POST_1 :: OS_OPT where [opts]: "OS_OPT_POST_1 = 0x0000"
definition OS_OPT_POST_ALL :: OS_OPT where [opts]: "OS_OPT_POST_ALL = 0x0200"
definition OS_OPT_POST_NO_SCHED :: OS_OPT where [opts]: "OS_OPT_POST_NO_SCHED = 0x8000"
definition OS_OPT_TASK_STK_CHK :: OS_OPT where [opts]: "OS_OPT_TASK_STK_CHK = 0x0001"
definition OS_OPT_TASK_STK_CLR :: OS_OPT where [opts]: "OS_OPT_TASK_STK_CLR = 0x0002"
definition OS_OPT_TIME_MASK :: OS_OPT where [opts]: "OS_OPT_TIME_MASK = 0x0E"
definition OS_OPT_TIME_OPTS_MASK :: OS_OPT where [opts]: "OS_OPT_TIME_OPTS_MASK = 0x1E"
definition OS_OPT_TIME_DLY :: OS_OPT where [opts]: "OS_OPT_TIME_DLY = 0x00"
definition OS_OPT_TIME_TIMEOUT :: OS_OPT where [opts]: "OS_OPT_TIME_TIMEOUT = 0x02"
definition OS_OPT_TIME_MATCH :: OS_OPT where [opts]: "OS_OPT_TIME_MATCH = 0x04"
definition OS_OPT_TIME_PERIODIC :: OS_OPT where [opts]: "OS_OPT_TIME_PERIODIC = 0x08"
definition OS_OPT_TIME_HMSM_NON_STRICT :: OS_OPT where [opts]: "OS_OPT_TIME_HMSM_NON_STRICT = 0x10"
definition OS_OPT_TMR_NONE :: OS_OPT where [opts]: "OS_OPT_TMR_NONE = 0"
definition OS_OPT_TMR_ONE_SHOT :: OS_OPT where [opts]: "OS_OPT_TMR_ONE_SHOT = 1"
definition OS_OPT_TMR_PERIODIC :: OS_OPT where [opts]: "OS_OPT_TMR_PERIODIC = 2"
definition OS_OPT_TMR_CALLBACK :: OS_OPT where [opts]: "OS_OPT_TMR_CALLBACK = 3"
definition OS_OPT_TMR_CALLBACK_ARG :: OS_OPT where [opts]: "OS_OPT_TMR_CALLBACK_ARG = 4"

section \<open>Configuration constants\<close>

text \<open>\<open>OS_CFG_PRIO_MAX\<close> of \<open>os_cfg.h\<close>; \<open>CPU_CFG_DATA_SIZE * 8\<close> is 32 on the Cortex-M.\<close>

definition OS_CFG_PRIO_MAX :: nat where "OS_CFG_PRIO_MAX = 32"
definition OS_PRIO_INIT :: u8 where "OS_PRIO_INIT = 32"
definition OSCfg_TickRate_Hz :: u32 where "OSCfg_TickRate_Hz = 1000"

section \<open>Structures\<close>

type_synonym ptr = "nat option"

record OS_MSG =
  Msg_NextPtr :: ptr
  Msg_MsgPtr :: ptr
  Msg_MsgSize :: u16
  Msg_MsgTS :: u32

record OS_MSG_Q =
  MQ_InPtr :: ptr
  MQ_OutPtr :: ptr
  MQ_NbrEntriesSize :: u16
  MQ_NbrEntries :: u16
  MQ_NbrEntriesMax :: u16

record OS_MSG_POOL =
  MP_NextPtr :: ptr
  MP_NbrFree :: u16
  MP_NbrUsed :: u16
  MP_NbrUsedMax :: u16

record OS_RDY_LIST =
  RL_HeadPtr :: ptr
  RL_TailPtr :: ptr
  RL_NbrEntries :: u16

record OS_PEND_LIST =
  PL_HeadPtr :: ptr
  PL_TailPtr :: ptr
  PL_NbrEntries :: u16

record OS_TICK_LIST =
  TL_TCB_Ptr :: ptr
  TL_NbrEntries :: u16
  TL_NbrUpdated :: u16

text \<open>The task control block. The fields of the run-time statistics (\<open>CPUUsage\<close>, \<open>CyclesTotal\<close>,
  \<open>SemPendTime\<close> and the like), which no modelled operation reads, are left out.\<close>

record OS_TCB =
  StkPtr :: u32
  StkLimitPtr :: u32
  StkBasePtr :: u32
  StkSize :: u32
  TaskEntryAddr :: u32
  TaskEntryArg :: u32
  ExtPtr :: ptr
  Tcb_Opt :: OS_OPT
  RegTbl :: "u32 list"
  NamePtr :: string
  NextPtr :: ptr
  PrevPtr :: ptr
  TickNextPtr :: ptr
  TickPrevPtr :: ptr
  PendNextPtr :: ptr
  PendPrevPtr :: ptr
  PendObjPtr :: ptr
  PendOn :: pend_on
  PendStatus :: pend_status
  TaskState :: task_state
  Prio :: u8
  BasePrio :: u8
  MutexGrpHeadPtr :: ptr
  Tcb_TS :: u32
  SemCtr :: u32
  TickRemain :: u32
  TickCtrPrev :: u32
  TimeQuanta :: u32
  TimeQuantaCtr :: u32
  MsgPtr :: ptr
  MsgSize :: u16
  MsgQ :: OS_MSG_Q
  FlagsPend :: u32
  FlagsRdy :: u32
  FlagsOpt :: OS_OPT
  SuspendCtr :: u8
  CtxSwCtr :: u32
  Tcb_DbgPrevPtr :: ptr
  Tcb_DbgNextPtr :: ptr
  Tcb_DbgNamePtr :: string

text \<open>The common part of the kernel objects a task can wait for.\<close>

record OS_PEND_OBJ =
  Type :: obj_type
  Obj_NamePtr :: string
  PendList :: OS_PEND_LIST
  Obj_DbgPrevPtr :: ptr
  Obj_DbgNextPtr :: ptr
  Obj_DbgNamePtr :: string

record OS_SEM =
  Ctr :: u32
  Sem_TS :: u32

record OS_MUTEX =
  MutexGrpNextPtr :: ptr
  OwnerTCBPtr :: ptr
  OwnerNestingCtr :: u8
  Mutex_TS :: u32

record OS_FLAG_GRP =
  Flags :: u32
  Flag_TS :: u32

text \<open>Blocks of a memory partition and callback functions are addresses (words, zero is the null
  pointer).\<close>

record OS_MEM =
  Mem_Type :: obj_type
  Mem_NamePtr :: string
  AddrPtr :: u32
  FreeListPtr :: u32
  BlkSize :: u16
  NbrMax :: u16
  NbrFree :: u16
  Mem_DbgPrevPtr :: ptr
  Mem_DbgNextPtr :: ptr

record OS_TMR =
  Tmr_Type :: obj_type
  Tmr_NamePtr :: string
  CallbackPtr :: u32
  CallbackPtrArg :: ptr
  Tmr_NextPtr :: ptr
  Tmr_PrevPtr :: ptr
  Remain :: u32
  Dly :: u32
  Period :: u32
  Opt :: OS_OPT
  State :: tmr_state
  Tmr_DbgPrevPtr :: ptr
  Tmr_DbgNextPtr :: ptr

section \<open>The globals of the kernel (\<open>os.h\<close>, OS_EXT variables)\<close>

record kernel =
  OSTCBs :: "nat \<Rightarrow> OS_TCB"
  OSObjs :: "nat \<Rightarrow> OS_PEND_OBJ"
  OSSems :: "nat \<Rightarrow> OS_SEM"
  OSMutexes :: "nat \<Rightarrow> OS_MUTEX"
  OSQs :: "nat \<Rightarrow> OS_MSG_Q"
  OSFlagGrps :: "nat \<Rightarrow> OS_FLAG_GRP"
  OSMsgs :: "nat \<Rightarrow> OS_MSG"
  OSMsgPool :: OS_MSG_POOL
  OSPrioTbl :: "u32 list"
  OSRdyList :: "u8 \<Rightarrow> OS_RDY_LIST"
  OSTickList :: OS_TICK_LIST
  OSTickCtr :: u32
  OSTCBCurPtr :: ptr
  OSTCBHighRdyPtr :: ptr
  OSPrioCur :: u8
  OSPrioHighRdy :: u8
  OSRunning :: os_running
  OSInitialized :: bool
  OSIntNestingCtr :: u8
  OSSchedLockNestingCtr :: u8
  OSSchedLockTimeBegin :: u32
  OSSchedLockTimeMax :: u32
  OSSchedLockTimeMaxCur :: u32
  OSSchedRoundRobinEn :: bool
  OSSchedRoundRobinDfltTimeQuanta :: u32
  OSTaskQty :: u16
  OSTaskCtxSwCtr :: u32
  OSTaskRegNextAvailID :: u8
  OSStkMem :: "u32 \<Rightarrow> u32"
  OSSemQty :: u16
  OSMutexQty :: u16
  OSQQty :: u16
  OSFlagQty :: u16
  OSTaskDbgListPtr :: ptr
  OSSemDbgListPtr :: ptr
  OSMutexDbgListPtr :: ptr
  OSQDbgListPtr :: ptr
  OSFlagDbgListPtr :: ptr
  OSMems :: "nat \<Rightarrow> OS_MEM"
  OSMemQty :: u16
  OSMemDbgListPtr :: ptr
  OSTmrs :: "nat \<Rightarrow> OS_TMR"
  OSTmrQty :: u16
  OSTmrDbgListPtr :: ptr
  OSTmrListPtr :: ptr
  OSTmrListEntries :: u16
  OSTmrTaskTickBase :: u32
  OSTmrToTicksMult :: u32

text \<open>\<open>OSStkMem\<close> is the memory of the task stacks and of the memory partitions: the word at each
  address.\<close>

text \<open>The address of the TCB of the idle task, \<open>&OSIdleTaskTCB\<close>.\<close>

definition OSIdleTaskTCB :: nat where "OSIdleTaskTCB = 0"

section \<open>Loads and stores\<close>

text \<open>A load through a null pointer is undefined behaviour: \<open>None\<close>. A store goes to the
  address the preceding load of the same pointer has shown to be valid.\<close>

definition tcb :: "kernel \<Rightarrow> ptr \<Rightarrow> OS_TCB option" where
  [kdefs]: "tcb s p = map_option (OSTCBs s) p"

definition set_tcb :: "ptr \<Rightarrow> (OS_TCB \<Rightarrow> OS_TCB) \<Rightarrow> kernel \<Rightarrow> kernel option" where
  [kdefs]: "set_tcb p f s =
     map_option (\<lambda>a. s\<lparr>OSTCBs := (OSTCBs s)(a := f (OSTCBs s a))\<rparr>) p"

definition obj :: "kernel \<Rightarrow> ptr \<Rightarrow> OS_PEND_OBJ option" where
  [kdefs]: "obj s p = map_option (OSObjs s) p"

definition set_obj :: "ptr \<Rightarrow> (OS_PEND_OBJ \<Rightarrow> OS_PEND_OBJ) \<Rightarrow> kernel \<Rightarrow> kernel option" where
  [kdefs]: "set_obj p f s =
     map_option (\<lambda>a. s\<lparr>OSObjs := (OSObjs s)(a := f (OSObjs s a))\<rparr>) p"

definition pend_list :: "kernel \<Rightarrow> ptr \<Rightarrow> OS_PEND_LIST option" where
  [kdefs]: "pend_list s p = map_option (\<lambda>a. PendList (OSObjs s a)) p"

definition set_pend_list :: "ptr \<Rightarrow> (OS_PEND_LIST \<Rightarrow> OS_PEND_LIST) \<Rightarrow> kernel \<Rightarrow> kernel option" where
  [kdefs]: "set_pend_list p f s =
     set_obj p (\<lambda>b. b\<lparr>PendList := f (PendList b)\<rparr>) s"

definition sem :: "kernel \<Rightarrow> ptr \<Rightarrow> OS_SEM option" where
  [kdefs]: "sem s p = map_option (OSSems s) p"

definition set_sem :: "ptr \<Rightarrow> (OS_SEM \<Rightarrow> OS_SEM) \<Rightarrow> kernel \<Rightarrow> kernel option" where
  [kdefs]: "set_sem p f s =
     map_option (\<lambda>a. s\<lparr>OSSems := (OSSems s)(a := f (OSSems s a))\<rparr>) p"

definition mutex :: "kernel \<Rightarrow> ptr \<Rightarrow> OS_MUTEX option" where
  [kdefs]: "mutex s p = map_option (OSMutexes s) p"

definition set_mutex :: "ptr \<Rightarrow> (OS_MUTEX \<Rightarrow> OS_MUTEX) \<Rightarrow> kernel \<Rightarrow> kernel option" where
  [kdefs]: "set_mutex p f s =
     map_option (\<lambda>a. s\<lparr>OSMutexes := (OSMutexes s)(a := f (OSMutexes s a))\<rparr>) p"

definition msg_q :: "kernel \<Rightarrow> ptr \<Rightarrow> OS_MSG_Q option" where
  [kdefs]: "msg_q s p = map_option (OSQs s) p"

definition set_msg_q :: "ptr \<Rightarrow> (OS_MSG_Q \<Rightarrow> OS_MSG_Q) \<Rightarrow> kernel \<Rightarrow> kernel option" where
  [kdefs]: "set_msg_q p f s =
     map_option (\<lambda>a. s\<lparr>OSQs := (OSQs s)(a := f (OSQs s a))\<rparr>) p"

definition flag_grp :: "kernel \<Rightarrow> ptr \<Rightarrow> OS_FLAG_GRP option" where
  [kdefs]: "flag_grp s p = map_option (OSFlagGrps s) p"

definition set_flag_grp :: "ptr \<Rightarrow> (OS_FLAG_GRP \<Rightarrow> OS_FLAG_GRP) \<Rightarrow> kernel \<Rightarrow> kernel option" where
  [kdefs]: "set_flag_grp p f s =
     map_option (\<lambda>a. s\<lparr>OSFlagGrps := (OSFlagGrps s)(a := f (OSFlagGrps s a))\<rparr>) p"

definition msg :: "kernel \<Rightarrow> ptr \<Rightarrow> OS_MSG option" where
  [kdefs]: "msg s p = map_option (OSMsgs s) p"

definition set_msg :: "ptr \<Rightarrow> (OS_MSG \<Rightarrow> OS_MSG) \<Rightarrow> kernel \<Rightarrow> kernel option" where
  [kdefs]: "set_msg p f s =
     map_option (\<lambda>a. s\<lparr>OSMsgs := (OSMsgs s)(a := f (OSMsgs s a))\<rparr>) p"

text \<open>\<open>OSRdyList\<close> is an array of \<open>OS_CFG_PRIO_MAX\<close> entries.\<close>

definition rdy_list :: "kernel \<Rightarrow> u8 \<Rightarrow> OS_RDY_LIST option" where
  [kdefs]: "rdy_list s prio =
     (if unat prio < OS_CFG_PRIO_MAX then Some (OSRdyList s prio) else None)"

definition set_rdy_list :: "u8 \<Rightarrow> (OS_RDY_LIST \<Rightarrow> OS_RDY_LIST) \<Rightarrow> kernel \<Rightarrow> kernel option" where
  [kdefs]: "set_rdy_list prio f s =
     (if unat prio < OS_CFG_PRIO_MAX
      then Some (s\<lparr>OSRdyList := (OSRdyList s)(prio := f (OSRdyList s prio))\<rparr>) else None)"

lemma load_Some [simp]:
  "obj s (Some b) = Some (OSObjs s b)" "pend_list s (Some b) = Some (PendList (OSObjs s b))"
  "sem s (Some b) = Some (OSSems s b)" "mutex s (Some b) = Some (OSMutexes s b)"
  "msg_q s (Some b) = Some (OSQs s b)" "flag_grp s (Some b) = Some (OSFlagGrps s b)"
  by (simp_all add: kdefs)

lemma tcb_Some [simp]: "tcb s (Some a) = Some (OSTCBs s a)"
  by (simp add: tcb_def)

lemma set_tcb_Some: "set_tcb (Some a) f s = Some (s\<lparr>OSTCBs := (OSTCBs s)(a := f (OSTCBs s a))\<rparr>)"
  by (simp add: set_tcb_def)

end
