(* ===== verification/Os_Prio.thy ===== *)
theory Os_Prio
  imports Kernel_Types
begin

text \<open>
  The priority table (\<open>os_prio.c\<close>): a bitmap of the priorities that have a ready task, most
  significant bit first, searched with the count-leading-zeros instruction. The C fallback of
  that instruction with its lookup table (\<open>cpu_core.c\<close>) is modelled too and shown equal to it.
  The table refines a finite set of priorities; \<open>OS_PrioGetHighest\<close> is its minimum.
\<close>

unbundle bit_operations_syntax

section \<open>Counting leading zeros\<close>

text \<open>\<open>clz_bits k w\<close> counts the zero bits of \<open>w\<close> below position \<open>k\<close> down to the first one.
  The assembly function \<open>CPU_CntLeadZeros\<close> is the CLZ instruction of the CPU.\<close>

primrec clz_bits :: "nat \<Rightarrow> 'a::len word \<Rightarrow> nat" where
  "clz_bits 0 w = 0"
| "clz_bits (Suc k) w = (if bit w k then 0 else Suc (clz_bits k w))"

definition CPU_CntLeadZeros :: "u32 \<Rightarrow> u32" where
  "CPU_CntLeadZeros val = of_nat (clz_bits 32 val)"

definition CPU_CntLeadZerosTbl :: "u8 list" where
  "CPU_CntLeadZerosTbl =
    [8, 7, 6, 6, 5, 5, 5, 5, 4, 4, 4, 4, 4, 4, 4, 4,
     3, 3, 3, 3, 3, 3, 3, 3, 3, 3, 3, 3, 3, 3, 3, 3,
     2, 2, 2, 2, 2, 2, 2, 2, 2, 2, 2, 2, 2, 2, 2, 2,
     2, 2, 2, 2, 2, 2, 2, 2, 2, 2, 2, 2, 2, 2, 2, 2,
     1, 1, 1, 1, 1, 1, 1, 1, 1, 1, 1, 1, 1, 1, 1, 1,
     1, 1, 1, 1, 1, 1, 1, 1, 1, 1, 1, 1, 1, 1, 1, 1,
     1, 1, 1, 1, 1, 1, 1, 1, 1, 1, 1, 1, 1, 1, 1, 1,
     1, 1, 1, 1, 1, 1, 1, 1, 1, 1, 1, 1, 1, 1, 1, 1,
     0, 0, 0, 0, 0, 0, 0, 0, 0, 0, 0, 0, 0, 0, 0, 0,
     0, 0, 0, 0, 0, 0, 0, 0, 0, 0, 0, 0, 0, 0, 0, 0,
     0, 0, 0, 0, 0, 0, 0, 0, 0, 0, 0, 0, 0, 0, 0, 0,
     0, 0, 0, 0, 0, 0, 0, 0, 0, 0, 0, 0, 0, 0, 0, 0,
     0, 0, 0, 0, 0, 0, 0, 0, 0, 0, 0, 0, 0, 0, 0, 0,
     0, 0, 0, 0, 0, 0, 0, 0, 0, 0, 0, 0, 0, 0, 0, 0,
     0, 0, 0, 0, 0, 0, 0, 0, 0, 0, 0, 0, 0, 0, 0, 0,
     0, 0, 0, 0, 0, 0, 0, 0, 0, 0, 0, 0, 0, 0, 0, 0]"

definition CPU_CntLeadZeros32 :: "u32 \<Rightarrow> u32" where
  "CPU_CntLeadZeros32 val =
     (if val > 0x0000FFFF then
        if val > 0x00FFFFFF then
          (let ix = drop_bit 24 val in ucast (CPU_CntLeadZerosTbl ! unat ix))
        else
          (let ix = drop_bit 16 val in ucast (CPU_CntLeadZerosTbl ! unat ix) + 8)
      else
        if val > 0x000000FF then
          (let ix = drop_bit 8 val in ucast (CPU_CntLeadZerosTbl ! unat ix) + 16)
        else
          (let ix = val in ucast (CPU_CntLeadZerosTbl ! unat ix) + 24))"

lemma clz_bits_le: "clz_bits k w \<le> k"
  by (induction k) auto

lemma clz_bits_zero: "(\<And>i. i < k \<Longrightarrow> \<not> bit w i) \<Longrightarrow> clz_bits k w = k"
  by (induction k) auto

lemma clz_bits_bit:
  assumes "i < k" and "bit w i"
  shows "clz_bits k w < k \<and> bit w (k - 1 - clz_bits k w)"
  using assms by (induction k) (auto simp: less_Suc_eq)

lemma clz_bits_above: "k - 1 - clz_bits k w < i \<Longrightarrow> i < k \<Longrightarrow> \<not> bit w i"
proof (induction k)
  case (Suc k)
  then show ?case
    by (cases "i = k") (auto split: if_splits)
qed simp

text \<open>Leading zeros of a value, split at a position: if the part above position \<open>m\<close> is zero,
  they are counted in the lower part, otherwise in the upper one.\<close>

lemma clz_bits_upper_zero:
  "(\<And>i. m \<le> i \<Longrightarrow> i < m + k \<Longrightarrow> \<not> bit w i) \<Longrightarrow> clz_bits (m + k) w = k + clz_bits m w"
  by (induction k) auto

lemma clz_bits_upper:
  assumes "m \<le> j" and "j < m + k" and "bit w j"
  shows "clz_bits (m + k) w = clz_bits k (drop_bit m w)"
  using assms by (induction k) (auto simp: bit_drop_bit_eq less_Suc_eq add.commute)

lemma CPU_CntLeadZerosTbl_blocks:
  "CPU_CntLeadZerosTbl = [8, 7] @ replicate 2 6 @ replicate 4 5 @ replicate 8 4 @
     replicate 16 3 @ replicate 32 2 @ replicate 64 1 @ replicate 128 0"
  unfolding CPU_CntLeadZerosTbl_def by (simp add: numeral_eq_Suc)

lemma word_low_bits:
  assumes "unat (w :: 'a::len word) < 2 ^ m" and "m \<le> i"
  shows "\<not> bit w i"
proof -
  have "unat w < 2 ^ i"
    using assms by (meson one_le_numeral order_less_le_trans power_increasing)
  then have "unat w div 2 ^ i = 0" by simp
  then have "\<not> bit (unat w) i" by (simp add: bit_iff_odd)
  then show ?thesis by (auto simp: bit_unsigned_iff dest: bit_imp_le_length)
qed

lemma unat_drop_bit: "unat (drop_bit m (w :: 'a::len word)) = unat w div 2 ^ m"
proof -
  have "unat (drop_bit m w) = drop_bit m (take_bit LENGTH('a) (unat w))"
    by (rule unsigned_drop_bit_eq)
  also have "take_bit LENGTH('a) (unat w) = unat w"
    by (rule take_bit_nat_eq_self) (rule unsigned_less)
  finally show ?thesis by (simp only: drop_bit_eq_div)
qed

lemma word_high_bit:
  assumes "2 ^ m \<le> unat (w :: 'a::len word)"
  shows "\<exists>j. m \<le> j \<and> j < LENGTH('a) \<and> bit w j"
proof -
  from assms have "unat (drop_bit m w) \<noteq> 0"
    by (simp only: unat_drop_bit) (simp add: div_eq_0_iff)
  then have "drop_bit m w \<noteq> 0" by auto
  then obtain j where "bit (drop_bit m w) j"
    by (auto simp: bit_eq_iff)
  then have "bit w (m + j)" by (simp add: bit_drop_bit_eq)
  then show ?thesis using bit_imp_le_length le_add1 by blast
qed

text \<open>A value between two powers of two has its first one at the lower of them.\<close>

lemma clz_bits_range:
  assumes "2 ^ k \<le> unat w" and "unat w < 2 ^ Suc k" and "k < m"
  shows "clz_bits m w = m - 1 - k"
proof -
  from word_high_bit [OF assms(1)] obtain j where "k \<le> j" "bit w j" by blast
  moreover from \<open>bit w j\<close> have "j < Suc k"
    using word_low_bits [OF assms(2), of j] by (meson not_le)
  ultimately have b: "bit w k" by (simp add: le_less_Suc_eq)
  have "clz_bits (Suc k + (m - Suc k)) w = (m - Suc k) + clz_bits (Suc k) w"
    by (rule clz_bits_upper_zero) (rule word_low_bits [OF assms(2)])
  with b assms(3) show ?thesis by simp
qed

lemma CPU_CntLeadZerosTbl_range:
  assumes "k < 8" and "2 ^ k \<le> n" and "n < 2 ^ Suc k"
  shows "CPU_CntLeadZerosTbl ! n = of_nat (7 - k)"
proof (cases "k = 0")
  case True
  with assms show ?thesis by (simp add: CPU_CntLeadZerosTbl_blocks nth_append)
next
  case False
  with assms(1) have "k = 1 \<or> k = 2 \<or> k = 3 \<or> k = 4 \<or> k = 5 \<or> k = 6 \<or> k = 7" by linarith
  then show ?thesis using assms(2,3)
    by (elim disjE; simp add: CPU_CntLeadZerosTbl_blocks nth_append; intro conjI impI; arith)
qed

lemma CPU_CntLeadZerosTbl_nth:
  assumes "unat (w :: u32) < 256"
  shows "unat (CPU_CntLeadZerosTbl ! unat w) = clz_bits 8 w"
proof -
  have z: "clz_bits 8 w = 8" if "unat w = 0"
    using that word_low_bits [of w 0] by (intro clz_bits_zero) simp
  have "unat w = 0 \<or> (\<exists>k<8. 2 ^ k \<le> unat w \<and> unat w < 2 ^ Suc k)"
  proof (cases "unat w = 0")
    case False
    then obtain k where k: "2 ^ k \<le> unat w" "unat w < 2 ^ Suc k"
      using ex_power_ivl1 [of 2 "unat w"] by auto
    have "(2::nat) ^ k < 2 ^ 8" using k(1) assms by simp
    then have "k < 8" using power_less_imp_less_exp [of 2 k 8] by simp
    with k show ?thesis by blast
  qed simp
  then show ?thesis
  proof (elim disjE exE conjE)
    assume "unat w = 0"
    then show ?thesis by (simp add: z CPU_CntLeadZerosTbl_blocks)
  next
    fix k :: nat
    assume k: "k < 8" "2 ^ k \<le> unat w" "unat w < 2 ^ Suc k"
    have "clz_bits 8 w = 7 - k" using clz_bits_range [OF k(2,3) k(1)] by simp
    moreover have "unat (of_nat (7 - k) :: u8) = 7 - k" by (simp add: unat_of_nat)
    ultimately show ?thesis using CPU_CntLeadZerosTbl_range [OF k] by simp
  qed
qed

lemma ucast_tbl:
  assumes "unat (w :: u32) < 256"
  shows "(ucast (CPU_CntLeadZerosTbl ! unat w) :: u32) = of_nat (clz_bits 8 w)"
proof -
  have "(ucast (CPU_CntLeadZerosTbl ! unat w) :: u32) = of_nat (unat (CPU_CntLeadZerosTbl ! unat w))"
    by simp
  then show ?thesis by (simp only: CPU_CntLeadZerosTbl_nth [OF assms])
qed

theorem CPU_CntLeadZeros32_eq: "CPU_CntLeadZeros32 val = CPU_CntLeadZeros val"
proof -
  have shift: "clz_bits 32 val = 24 - m + clz_bits 8 (drop_bit m val)"
    if "unat val < 2 ^ (m + 8)" and "m = 0 \<or> 2 ^ m \<le> unat val" and "m \<le> 24" for m
  proof -
    have "clz_bits (m + 8 + (24 - m)) val = (24 - m) + clz_bits (m + 8) val"
      by (rule clz_bits_upper_zero) (rule word_low_bits [OF that(1)])
    moreover have "clz_bits (m + 8) val = clz_bits 8 (drop_bit m val)"
    proof (cases "m = 0")
      case False
      with that(2) obtain j where "m \<le> j" "bit val j" using word_high_bit by blast
      moreover have "j < m + 8"
        using word_low_bits [OF that(1), of j] \<open>bit val j\<close> by (meson not_le)
      ultimately show ?thesis by (intro clz_bits_upper)
    qed simp
    ultimately show ?thesis using that(3) by simp
  qed
  have small: "unat (drop_bit m val) < 256" if "unat val < 2 ^ (m + 8)" for m
    using that by (simp only: unat_drop_bit) (simp add: power_add less_mult_imp_div_less mult.commute)
  have bound: "unat val < 2 ^ 32"
    using unsigned_less [of val] by simp
  consider "unat val < 2 ^ 8" | "2 ^ 8 \<le> unat val" "unat val < 2 ^ 16"
    | "2 ^ 16 \<le> unat val" "unat val < 2 ^ 24" | "2 ^ 24 \<le> unat val"
    by linarith
  then show ?thesis
  proof cases
    case 1
    then show ?thesis
      using shift [of 0] small [of 0] ucast_tbl [of val]
      by (simp add: CPU_CntLeadZeros32_def CPU_CntLeadZeros_def word_less_nat_alt)
  next
    case 2
    then show ?thesis
      using shift [of 8] small [of 8] ucast_tbl [of "drop_bit 8 val"]
      by (simp add: CPU_CntLeadZeros32_def CPU_CntLeadZeros_def word_less_nat_alt)
  next
    case 3
    then show ?thesis
      using shift [of 16] small [of 16] ucast_tbl [of "drop_bit 16 val"]
      by (simp add: CPU_CntLeadZeros32_def CPU_CntLeadZeros_def word_less_nat_alt)
  next
    case 4
    then show ?thesis
      using shift [of 24] small [of 24] ucast_tbl [of "drop_bit 24 val"] bound
      by (simp add: CPU_CntLeadZeros32_def CPU_CntLeadZeros_def word_less_nat_alt)
  qed
qed

section \<open>The priority table\<close>

text \<open>\<open>OS_PRIO_TBL_SIZE\<close> is \<open>((OS_CFG_PRIO_MAX - 1) / 32) + 1\<close>.\<close>

definition OS_PRIO_TBL_SIZE :: nat where
  "OS_PRIO_TBL_SIZE = (OS_CFG_PRIO_MAX - 1) div 32 + 1"

definition OS_PrioInit :: "kernel \<Rightarrow> kernel" where
  "OS_PrioInit s = s\<lparr>OSPrioTbl := map (\<lambda>_. 0) [0..<OS_PRIO_TBL_SIZE]\<rparr>"

text \<open>With up to 32 priorities the branch of \<open>OS_PrioGetHighest\<close> for one word is compiled. It counts the leading
  zeros of the word, so that it returns 32 when no task is ready.\<close>

definition OS_PrioGetHighest :: "kernel \<Rightarrow> u8 option" where
  "OS_PrioGetHighest s =
     (if 0 < length (OSPrioTbl s) then Some (ucast (CPU_CntLeadZeros (OSPrioTbl s ! 0))) else None)"

definition OS_PrioInsert :: "u8 \<Rightarrow> kernel \<Rightarrow> kernel option" where
  "OS_PrioInsert prio s =
     (let ix = unat (prio div 32);
          bit_nbr = prio AND (32 - 1) in
      if ix < length (OSPrioTbl s) then
        Some (s\<lparr>OSPrioTbl := (OSPrioTbl s)
          [ix := OSPrioTbl s ! ix OR push_bit (unat ((32 - 1) - bit_nbr)) 1]\<rparr>)
      else None)"

definition OS_PrioRemove :: "u8 \<Rightarrow> kernel \<Rightarrow> kernel option" where
  "OS_PrioRemove prio s =
     (let ix = unat (prio div 32);
          bit_nbr = prio AND (32 - 1) in
      if ix < length (OSPrioTbl s) then
        Some (s\<lparr>OSPrioTbl := (OSPrioTbl s)
          [ix := OSPrioTbl s ! ix AND NOT (push_bit (unat ((32 - 1) - bit_nbr)) 1)]\<rparr>)
      else None)"

text \<open>The set of priorities a table stands for.\<close>

definition prio_mem :: "u32 list \<Rightarrow> nat \<Rightarrow> bool" where
  "prio_mem tbl p \<longleftrightarrow> p div 32 < length tbl \<and> bit (tbl ! (p div 32)) (31 - p mod 32)"

definition prio_set :: "u32 list \<Rightarrow> nat set" where
  "prio_set tbl = {p. prio_mem tbl p}"

lemma prio_mem_Nil [simp]: "\<not> prio_mem [] p"
  by (simp add: prio_mem_def)

lemma prio_mem_Cons:
  "prio_mem (w # ws) p \<longleftrightarrow> (if p < 32 then bit w (31 - p) else prio_mem ws (p - 32))"
proof (cases "p < 32")
  case False
  then have "p div 32 = Suc ((p - 32) div 32)" and "p mod 32 = (p - 32) mod 32"
    by (simp_all add: le_div_geq le_mod_geq)
  with False show ?thesis by (simp add: prio_mem_def)
qed (simp add: prio_mem_def)

lemma prio_mem_bound: "prio_mem tbl p \<Longrightarrow> p < 32 * length tbl"
  by (auto simp: prio_mem_def)

lemma finite_prio_set [simp]: "finite (prio_set tbl)"
proof (rule finite_subset)
  show "prio_set tbl \<subseteq> {..<32 * length tbl}"
    by (auto simp: prio_set_def dest: prio_mem_bound)
qed simp

lemma word_zero_bits: "(w :: 'a::len word) = 0 \<longleftrightarrow> (\<forall>i < LENGTH('a). \<not> bit w i)"
  by (auto simp: bit_eq_iff)

lemma clz32_least:
  assumes "(w :: u32) \<noteq> 0"
  shows "clz_bits 32 w < 32" "bit w (31 - clz_bits 32 w)"
    and "q < clz_bits 32 w \<Longrightarrow> \<not> bit w (31 - q)"
proof -
  from assms obtain i where "i < 32" "bit w i" by (auto simp: word_zero_bits)
  from clz_bits_bit [OF this]
  show *: "clz_bits 32 w < 32" "bit w (31 - clz_bits 32 w)" by simp_all
  show "\<not> bit w (31 - q)" if "q < clz_bits 32 w"
    using that * by (intro clz_bits_above [of 32]) simp_all
qed

text \<open>The leading zeros of a word other than zero are its least priority.\<close>

lemma prio_set_word:
  assumes "w \<noteq> 0"
  shows "prio_set [w] \<noteq> {}" "ucast (CPU_CntLeadZeros w) = (of_nat (Min (prio_set [w])) :: u8)"
proof -
  note c = clz32_least [OF assms]
  have q: "prio_mem [w] (clz_bits 32 w)" "\<forall>r < clz_bits 32 w. \<not> prio_mem [w] r"
    using c by (auto simp: prio_mem_Cons)
  then show "prio_set [w] \<noteq> {}" by (auto simp: prio_set_def)
  have "Min (prio_set [w]) = clz_bits 32 w"
    using q finite_prio_set [of "[w]"]
    by (intro Min_eqI) (auto simp: prio_set_def not_less [symmetric])
  then show "ucast (CPU_CntLeadZeros w) = (of_nat (Min (prio_set [w])) :: u8)"
    by (simp add: CPU_CntLeadZeros_def unsigned_of_nat take_bit_nat_eq_self c(1) order_less_trans [OF c(1)])
qed

lemma prio_set_zero: "prio_set [0] = {}"
  by (auto simp: prio_set_def prio_mem_def)

text \<open>Setting and clearing one bit adds and removes one member.\<close>

lemma and31: "unat (prio AND 31 :: u8) = unat prio mod 32"
proof -
  have "prio AND 31 = take_bit 5 prio"
    by (simp add: take_bit_eq_mask mask_eq_exp_minus_1)
  then have "prio AND 31 = prio mod 32" by (simp add: take_bit_eq_mod)
  then show ?thesis by (simp add: unat_mod)
qed

lemma prio_bit_nbr: "unat (31 - (prio AND 31) :: u8) = 31 - unat prio mod 32"
proof -
  have "(prio AND 31) \<le> 31" by (simp add: word_le_nat_alt and31)
  then show ?thesis by (simp add: unat_sub and31)
qed

lemma bit_pos_inj: "31 - p mod 32 = 31 - q mod (32::nat) \<longleftrightarrow> p mod 32 = q mod 32"
  using mod_less_divisor [of 32 p] mod_less_divisor [of 32 q] by linarith

lemma same_div_mod: "p div 32 = q div 32 \<Longrightarrow> p mod 32 = q mod (32::nat) \<longleftrightarrow> p = q"
  by (metis div_mult_mod_eq)

lemma prio_mem_set:
  assumes "unat prio div 32 < length tbl"
  shows "prio_mem (tbl[unat prio div 32 :=
      tbl ! (unat prio div 32) OR push_bit (31 - unat prio mod 32) 1]) q \<longleftrightarrow>
    q = unat prio \<or> prio_mem tbl q"
  using assms
  by (auto simp: prio_mem_def nth_list_update bit_simps bit_pos_inj same_div_mod
      dest: same_div_mod)

lemma prio_mem_clear:
  assumes "unat prio div 32 < length tbl"
  shows "prio_mem (tbl[unat prio div 32 :=
      tbl ! (unat prio div 32) AND NOT (push_bit (31 - unat prio mod 32) 1)]) q \<longleftrightarrow>
    q \<noteq> unat prio \<and> prio_mem tbl q"
  using assms
  by (auto simp: prio_mem_def nth_list_update bit_simps bit_pos_inj same_div_mod
      dest: same_div_mod)

section \<open>The operations on the table\<close>

definition prio_tbl_ok :: "kernel \<Rightarrow> bool" where
  "prio_tbl_ok s \<longleftrightarrow> length (OSPrioTbl s) = OS_PRIO_TBL_SIZE"

definition ready_prios :: "kernel \<Rightarrow> nat set" where
  "ready_prios s = prio_set (OSPrioTbl s)"

lemma tbl_size [simp]: "OS_PRIO_TBL_SIZE = 1"
  by (simp add: OS_PRIO_TBL_SIZE_def OS_CFG_PRIO_MAX_def)

lemma OS_PrioInit_spec: "prio_tbl_ok (OS_PrioInit s) \<and> ready_prios (OS_PrioInit s) = {}"
  by (auto simp: prio_tbl_ok_def ready_prios_def OS_PrioInit_def prio_set_def prio_mem_def)

lemma OS_PrioInsert_spec:
  assumes "prio_tbl_ok s" and "unat prio < OS_CFG_PRIO_MAX"
  shows "\<exists>t. OS_PrioInsert prio s = Some (s\<lparr>OSPrioTbl := t\<rparr>) \<and>
    prio_tbl_ok (s\<lparr>OSPrioTbl := t\<rparr>) \<and> prio_set t = insert (unat prio) (prio_set (OSPrioTbl s))"
proof -
  have ix: "unat prio div 32 < length (OSPrioTbl s)"
    using assms by (simp add: prio_tbl_ok_def OS_CFG_PRIO_MAX_def)
  with prio_mem_set [OF ix] assms(1) show ?thesis
    by (auto simp: OS_PrioInsert_def unat_div prio_bit_nbr prio_tbl_ok_def prio_set_def)
qed

lemma OS_PrioRemove_spec:
  assumes "prio_tbl_ok s" and "unat prio < OS_CFG_PRIO_MAX"
  shows "\<exists>t. OS_PrioRemove prio s = Some (s\<lparr>OSPrioTbl := t\<rparr>) \<and>
    prio_tbl_ok (s\<lparr>OSPrioTbl := t\<rparr>) \<and> prio_set t = prio_set (OSPrioTbl s) - {unat prio}"
proof -
  have ix: "unat prio div 32 < length (OSPrioTbl s)"
    using assms by (simp add: prio_tbl_ok_def OS_CFG_PRIO_MAX_def)
  with prio_mem_clear [OF ix] assms(1) show ?thesis
    by (auto simp: OS_PrioRemove_def unat_div prio_bit_nbr prio_tbl_ok_def prio_set_def)
qed

lemma OS_PrioGetHighest_Min:
  assumes "prio_tbl_ok s" and "ready_prios s \<noteq> {}"
  shows "OS_PrioGetHighest s = Some (of_nat (Min (ready_prios s)))"
proof -
  obtain w where w: "OSPrioTbl s = [w]" using assms(1) by (auto simp: prio_tbl_ok_def length_Suc_conv)
  then have "w \<noteq> 0" using assms(2) by (auto simp: ready_prios_def prio_set_zero)
  then show ?thesis by (simp add: OS_PrioGetHighest_def ready_prios_def w prio_set_word(2))
qed

lemma OS_PrioGetHighest_empty:
  assumes "prio_tbl_ok s" and "ready_prios s = {}"
  shows "OS_PrioGetHighest s = Some 32"
proof -
  obtain w where w: "OSPrioTbl s = [w]" using assms(1) by (auto simp: prio_tbl_ok_def length_Suc_conv)
  then have "w = 0" using assms(2) prio_set_word(1) by (auto simp: ready_prios_def)
  moreover have "ucast (CPU_CntLeadZeros 0) = (32 :: u8)" by code_simp
  ultimately show ?thesis by (simp add: OS_PrioGetHighest_def w)
qed

lemma ready_prios_bound: "prio_tbl_ok s \<Longrightarrow> p \<in> ready_prios s \<Longrightarrow> p < OS_CFG_PRIO_MAX"
  by (auto simp: prio_tbl_ok_def ready_prios_def prio_set_def OS_CFG_PRIO_MAX_def
      dest: prio_mem_bound)

section \<open>The interface the ready list relies on\<close>

text \<open>What the clients of the table need: an abstract finite set of priorities below a limit,
  operations that insert and remove one priority, and a query for the least one.\<close>

locale prio_table =
  fixes ins rem :: "u8 \<Rightarrow> 's \<Rightarrow> 's option"
    and highest :: "'s \<Rightarrow> u8 option"
    and prios :: "'s \<Rightarrow> nat set"
    and ok :: "'s \<Rightarrow> bool"
    and lim :: nat
  assumes lim: "lim \<le> 256"
    and bound: "ok s \<Longrightarrow> n \<in> prios s \<Longrightarrow> n < lim"
    and ins: "ok s \<Longrightarrow> unat p < lim \<Longrightarrow>
      \<exists>s'. ins p s = Some s' \<and> ok s' \<and> prios s' = insert (unat p) (prios s)"
    and rem: "ok s \<Longrightarrow> unat p < lim \<Longrightarrow>
      \<exists>s'. rem p s = Some s' \<and> ok s' \<and> prios s' = prios s - {unat p}"
    and highest: "ok s \<Longrightarrow> prios s \<noteq> {} \<Longrightarrow> highest s = Some (of_nat (Min (prios s)))"
begin

lemma finite_prios: "ok s \<Longrightarrow> finite (prios s)"
  by (rule finite_subset [of _ "{..<lim}"]) (auto dest: bound)

text \<open>The query returns a member, and no member is less, when there is one.\<close>

lemma highest_least:
  assumes "ok s" and "highest s = Some h" and ne: "prios s \<noteq> {}"
  shows "unat h \<in> prios s" and "n \<in> prios s \<Longrightarrow> unat h \<le> n"
proof -
  from assms have h: "h = of_nat (Min (prios s))" by (simp add: highest)
  from ne finite_prios [OF assms(1)] have mem: "Min (prios s) \<in> prios s" by simp
  have "Min (prios s) < 256" using bound [OF assms(1) mem] lim by simp
  then have *: "unat h = Min (prios s)" by (simp add: h unat_of_nat)
  with mem show "unat h \<in> prios s" by simp
  show "unat h \<le> n" if "n \<in> prios s"
    using that finite_prios [OF assms(1)] by (simp add: *)
qed

lemma highest_ex: "ok s \<Longrightarrow> prios s \<noteq> {} \<Longrightarrow> \<exists>h. highest s = Some h"
  by (simp add: highest)

lemma highest_eqI:
  assumes "ok s" and "unat h \<in> prios s" and "\<And>n. n \<in> prios s \<Longrightarrow> unat h \<le> n"
  shows "highest s = Some h"
proof -
  from assms(2) have ne: "prios s \<noteq> {}" by blast
  from highest_ex [OF assms(1) this] obtain g where g: "highest s = Some g" by blast
  have "unat g = unat h"
    using highest_least [OF assms(1) g ne] assms(2,3) by (simp add: order_antisym)
  with g show ?thesis by (simp add: word_unat_eq_iff)
qed

text \<open>Making a priority ready makes it the highest one exactly if it beats the old one.\<close>

lemma highest_insert:
  assumes "ok s" and "unat p < lim" and "ins p s = Some s'" and "highest s = Some h"
    and "prios s \<noteq> {}"
  shows "highest s' = Some (min p h)"
proof -
  from ins [OF assms(1,2)] assms(3) have s': "ok s'" "prios s' = insert (unat p) (prios s)"
    by auto
  note h = highest_least [OF assms(1,4,5)]
  from s' h show ?thesis
    by (intro highest_eqI) (auto simp: min_def word_le_nat_alt dest: h(2))
qed

end

interpretation prio: prio_table OS_PrioInsert OS_PrioRemove OS_PrioGetHighest ready_prios
  prio_tbl_ok OS_CFG_PRIO_MAX
proof unfold_locales
  show "OS_CFG_PRIO_MAX \<le> 256" by (simp add: OS_CFG_PRIO_MAX_def)
next
  fix s p assume "prio_tbl_ok s" "p \<in> ready_prios s"
  then show "p < OS_CFG_PRIO_MAX" by (rule ready_prios_bound)
next
  fix s :: kernel and p :: u8 assume "prio_tbl_ok s" "unat p < OS_CFG_PRIO_MAX"
  from OS_PrioInsert_spec [OF this]
  show "\<exists>s'. OS_PrioInsert p s = Some s' \<and> prio_tbl_ok s' \<and>
      ready_prios s' = insert (unat p) (ready_prios s)"
    by (auto simp: ready_prios_def)
next
  fix s :: kernel and p :: u8 assume "prio_tbl_ok s" "unat p < OS_CFG_PRIO_MAX"
  from OS_PrioRemove_spec [OF this]
  show "\<exists>s'. OS_PrioRemove p s = Some s' \<and> prio_tbl_ok s' \<and>
      ready_prios s' = ready_prios s - {unat p}"
    by (auto simp: ready_prios_def)
next
  fix s :: kernel assume "prio_tbl_ok s" "ready_prios s \<noteq> {}"
  then show "OS_PrioGetHighest s = Some (word_of_nat (Min (ready_prios s)))"
    by (rule OS_PrioGetHighest_Min)
qed

end
