(* ===== verification/Dll.thy ===== *)
theory Dll
  imports Spec_Prelude
begin

text \<open>
  Linked lists in the stores of the kernel. The kernel threads its TCBs through several
  intrusive lists (ready, pend, tick and debug lists) with a next and a previous pointer per
  list. \<open>lnk n xs e\<close> says that the next pointers \<open>n\<close> of the nodes \<open>xs\<close> lead through \<open>xs\<close> and
  leave it at \<open>e\<close>; a doubly linked list is such a chain in both directions, the backward
  one being the forward chain of the reversed list.
\<close>

primrec lnk :: "('a \<Rightarrow> 'a option) \<Rightarrow> 'a list \<Rightarrow> 'a option \<Rightarrow> bool" where
  "lnk n [] e \<longleftrightarrow> True"
| "lnk n (x # xs) e \<longleftrightarrow> n x = (if xs = [] then e else hdo xs) \<and> lnk n xs e"

lemma lnk_append [simp]:
  "lnk n (xs @ ys) e \<longleftrightarrow> lnk n xs (if ys = [] then e else hdo ys) \<and> lnk n ys e"
  by (induction xs) (auto simp: hdo_append)

lemma lnk_upd [simp]: "x \<notin> set xs \<Longrightarrow> lnk (n(x := v)) xs e = lnk n xs e"
  by (induction xs) auto

lemma lnk_cong: "(\<And>x. x \<in> set xs \<Longrightarrow> n x = m x) \<Longrightarrow> lnk n xs e = lnk m xs e"
  by (induction xs) auto

lemma lnk_snoc_exit:
  "y \<notin> set xs \<Longrightarrow> lnk (n(y := e')) (xs @ [y]) e \<longleftrightarrow> lnk n xs (Some y) \<and> e' = e"
  by auto

text \<open>The chain is determined by its start: two null-terminated chains from the same pointer
  are equal.\<close>

lemma lnk_unique:
  "lnk n xs None \<Longrightarrow> lnk n ys None \<Longrightarrow> hdo xs = hdo ys \<Longrightarrow> xs = ys"
proof (induction xs arbitrary: ys)
  case Nil
  then show ?case by simp
next
  case (Cons x xs)
  from Cons.prems(3) obtain ys' where ys: "ys = x # ys'"
    by (cases ys) simp_all
  from Cons.prems(1) have "n x = hdo xs" by simp
  moreover from Cons.prems(2) ys have "n x = hdo ys'" by simp
  ultimately have "hdo xs = hdo ys'" by simp
  with Cons.prems(1,2) ys have "xs = ys'" by (intro Cons.IH) simp_all
  with ys show ?case by simp
qed

definition sll :: "('a \<Rightarrow> 'a option) \<Rightarrow> 'a option \<Rightarrow> 'a list \<Rightarrow> bool" where
  "sll n h xs \<longleftrightarrow> distinct xs \<and> h = hdo xs \<and> lnk n xs None"

lemma sll_Nil [simp]: "sll n h [] \<longleftrightarrow> h = None"
  by (auto simp: sll_def)

lemma sll_Cons: "sll n h (x # xs) \<longleftrightarrow> h = Some x \<and> x \<notin> set xs \<and> sll n (n x) xs"
  by (auto simp: sll_def)

lemma sll_unique: "sll n h xs \<Longrightarrow> sll n h ys \<Longrightarrow> xs = ys"
  by (auto simp: sll_def intro: lnk_unique)

lemma sll_cong: "(\<And>x. x \<in> set xs \<Longrightarrow> n x = m x) \<Longrightarrow> sll n h xs = sll m h xs"
  by (auto simp: sll_def cong: lnk_cong)

lemma sll_upd_other: "x \<notin> set xs \<Longrightarrow> sll (n(x := v)) h xs = sll n h xs"
  by (simp add: sll_def)

definition dll ::
  "('a \<Rightarrow> 'a option) \<Rightarrow> ('a \<Rightarrow> 'a option) \<Rightarrow> 'a option \<Rightarrow> 'a option \<Rightarrow> 'a list \<Rightarrow> bool" where
  "dll n p h t xs \<longleftrightarrow>
     distinct xs \<and> h = hdo xs \<and> t = hdo (rev xs) \<and> lnk n xs None \<and> lnk p (rev xs) None"

lemma dll_Nil [simp]: "dll n p h t [] \<longleftrightarrow> h = None \<and> t = None"
  by (auto simp: dll_def)

lemma dll_sll: "dll n p h t xs \<Longrightarrow> sll n h xs"
  by (simp add: dll_def sll_def)

lemma dll_distinct: "dll n p h t xs \<Longrightarrow> distinct xs"
  by (simp add: dll_def)

lemma dll_unique: "dll n p h t xs \<Longrightarrow> dll n p h t' ys \<Longrightarrow> xs = ys"
  by (meson dll_sll sll_unique)

lemma dll_head_null: "dll n p h t xs \<Longrightarrow> h = None \<longleftrightarrow> xs = []"
  by (simp add: dll_def)

lemma dll_tail_null: "dll n p h t xs \<Longrightarrow> t = None \<longleftrightarrow> xs = []"
  by (simp add: dll_def)

lemma dll_cong:
  "(\<And>x. x \<in> set xs \<Longrightarrow> n x = n' x) \<Longrightarrow> (\<And>x. x \<in> set xs \<Longrightarrow> p x = p' x) \<Longrightarrow>
   dll n p h t xs = dll n' p' h t xs"
  using lnk_cong [of xs n n'] lnk_cong [of "rev xs" p p'] by (simp add: dll_def)

lemma dll_upd_other:
  "x \<notin> set xs \<Longrightarrow> dll (n(x := v)) (p(x := w)) h t xs = dll n p h t xs"
  by (simp add: dll_def)

text \<open>The neighbours of a node in the middle of a list.\<close>

lemma dll_split:
  assumes "dll n p h t (as @ x # bs)"
  shows "n x = hdo bs" "p x = hdo (rev as)"
    and "as = [] \<Longrightarrow> h = Some x" "bs = [] \<Longrightarrow> t = Some x"
  using assms by (auto simp: dll_def hdo_append split: if_splits)

lemma dll_singleton: "dll n p h t [x] \<longleftrightarrow> h = Some x \<and> t = Some x \<and> n x = None \<and> p x = None"
  by (auto simp: dll_def)

lemma dll_head_eq_tail:
  assumes "dll n p h t xs" and "xs \<noteq> []"
  shows "h = t \<longleftrightarrow> length xs = 1"
proof -
  obtain x ys where xs: "xs = x # ys" using assms(2) by (cases xs) auto
  show ?thesis
  proof (cases ys rule: rev_cases)
    case Nil
    with xs assms(1) show ?thesis by (simp add: dll_def)
  next
    case (snoc zs y)
    with xs assms(1) show ?thesis by (auto simp: dll_def)
  qed
qed

text \<open>Insertion of a fresh node: into an empty list, at the head, at the tail, between two
  nodes.\<close>

lemma dll_insert_empty:
  "dll (n(x := None)) (p(x := None)) (Some x) (Some x) [x]"
  by (simp add: dll_def)

lemma dll_insert_head:
  assumes "dll n p (Some y) t (y # ys)" and "x \<notin> set (y # ys)"
  shows "dll (n(x := Some y)) (p(x := None, y := Some x)) (Some x) t (x # y # ys)"
  using assms by (auto simp: dll_def hdo_append)

lemma dll_insert_tail:
  assumes "dll n p h (Some y) (ys @ [y])" and "x \<notin> set (ys @ [y])"
  shows "dll (n(x := None, y := Some x)) (p(x := Some y)) h (Some x) (ys @ [y, x])"
  using assms by (auto simp: dll_def hdo_append)

lemma dll_insert_between:
  assumes "dll n p h t (as @ a # b # bs)" and "x \<notin> set (as @ a # b # bs)"
  shows "dll (n(x := Some b, a := Some x)) (p(x := Some a, b := Some x)) h t (as @ a # x # b # bs)"
  using assms by (auto simp: dll_def hdo_append)

text \<open>Removal: the only node, the head, the tail, a node between two others. The links of the
  removed node itself do not matter.\<close>

lemma dll_remove_head:
  assumes "dll n p h t (x # y # ys)"
  shows "dll (n(x := v)) (p(y := None, x := w)) (Some y) t (y # ys)"
  using assms by (auto simp: dll_def hdo_append)

lemma dll_remove_tail:
  assumes "dll n p h t (ys @ [y, x])"
  shows "dll (n(y := None, x := v)) (p(x := w)) h (Some y) (ys @ [y])"
  using assms by (auto simp: dll_def hdo_append)

lemma dll_remove_between:
  assumes "dll n p h t (as @ a # x # b # bs)"
  shows "dll (n(a := Some b, x := v)) (p(b := Some a, x := w)) h t (as @ a # b # bs)"
  using assms by (auto simp: dll_def hdo_append)

text \<open>Moving the head of a list of at least two nodes to its tail.\<close>

lemma dll_rotate:
  assumes "dll n p h t (x # y # ys @ [z])"
  shows "dll (n(x := None, z := Some x)) (p(y := None, x := Some z)) (Some y) (Some x)
    (y # ys @ [z, x])"
  using assms by (auto simp: dll_def hdo_append)

lemma dll_rotate2:
  assumes "dll n p h t [x, y]"
  shows "dll (n(x := None, y := Some x)) (p(x := Some y, y := None)) (Some y) (Some x) [y, x]"
  using assms by (auto simp: dll_def)

end
