(* ===== verification/Os_Rdy.thy ===== *)
theory Os_Rdy
  imports Os_Prio Dll
begin

text \<open>
  The ready list (\<open>os_core.c\<close>): one doubly linked list of TCBs per priority, threaded through
  \<open>NextPtr\<close> and \<open>PrevPtr\<close>, and the priority table that says which lists are not empty. The
  operations are the pointer manipulations of the source; \<open>rdy_rel\<close> relates the state to a
  list of task addresses per priority, and every operation is shown to act on these lists
  as its name says (insert at an end, remove, rotate).
\<close>

section \<open>Operations\<close>

definition OS_RdyListInit :: "kernel \<Rightarrow> kernel" where
  "OS_RdyListInit s = s\<lparr>OSRdyList := (\<lambda>i. if unat i < OS_CFG_PRIO_MAX
     then (OSRdyList s i)\<lparr>RL_NbrEntries := 0, RL_HeadPtr := None, RL_TailPtr := None\<rparr>
     else OSRdyList s i)\<rparr>"

definition OS_RdyListInsertHead :: "ptr \<Rightarrow> kernel \<Rightarrow> kernel option" where
  [kops]: "OS_RdyListInsertHead p_tcb s = do {
     t \<leftarrow> tcb s p_tcb;
     let prio = Prio t;
     l \<leftarrow> rdy_list s prio;
     if RL_HeadPtr l = None then do {
       s \<leftarrow> set_rdy_list prio (\<lambda>l. l\<lparr>RL_NbrEntries := 1\<rparr>) s;
       s \<leftarrow> set_tcb p_tcb (\<lambda>t. t\<lparr>NextPtr := None\<rparr>) s;
       s \<leftarrow> set_tcb p_tcb (\<lambda>t. t\<lparr>PrevPtr := None\<rparr>) s;
       s \<leftarrow> set_rdy_list prio (\<lambda>l. l\<lparr>RL_HeadPtr := p_tcb\<rparr>) s;
       set_rdy_list prio (\<lambda>l. l\<lparr>RL_TailPtr := p_tcb\<rparr>) s
     } else do {
       s \<leftarrow> set_rdy_list prio (\<lambda>l. l\<lparr>RL_NbrEntries := RL_NbrEntries l + 1\<rparr>) s;
       s \<leftarrow> set_tcb p_tcb (\<lambda>t. t\<lparr>NextPtr := RL_HeadPtr l\<rparr>) s;
       s \<leftarrow> set_tcb p_tcb (\<lambda>t. t\<lparr>PrevPtr := None\<rparr>) s;
       let p_tcb2 = RL_HeadPtr l;
       s \<leftarrow> set_tcb p_tcb2 (\<lambda>t. t\<lparr>PrevPtr := p_tcb\<rparr>) s;
       set_rdy_list prio (\<lambda>l. l\<lparr>RL_HeadPtr := p_tcb\<rparr>) s
     }
   }"

definition OS_RdyListInsertTail :: "ptr \<Rightarrow> kernel \<Rightarrow> kernel option" where
  [kops]: "OS_RdyListInsertTail p_tcb s = do {
     t \<leftarrow> tcb s p_tcb;
     let prio = Prio t;
     l \<leftarrow> rdy_list s prio;
     if RL_HeadPtr l = None then do {
       s \<leftarrow> set_rdy_list prio (\<lambda>l. l\<lparr>RL_NbrEntries := 1\<rparr>) s;
       s \<leftarrow> set_tcb p_tcb (\<lambda>t. t\<lparr>NextPtr := None\<rparr>) s;
       s \<leftarrow> set_tcb p_tcb (\<lambda>t. t\<lparr>PrevPtr := None\<rparr>) s;
       s \<leftarrow> set_rdy_list prio (\<lambda>l. l\<lparr>RL_HeadPtr := p_tcb\<rparr>) s;
       set_rdy_list prio (\<lambda>l. l\<lparr>RL_TailPtr := p_tcb\<rparr>) s
     } else do {
       s \<leftarrow> set_rdy_list prio (\<lambda>l. l\<lparr>RL_NbrEntries := RL_NbrEntries l + 1\<rparr>) s;
       s \<leftarrow> set_tcb p_tcb (\<lambda>t. t\<lparr>NextPtr := None\<rparr>) s;
       let p_tcb2 = RL_TailPtr l;
       s \<leftarrow> set_tcb p_tcb (\<lambda>t. t\<lparr>PrevPtr := p_tcb2\<rparr>) s;
       s \<leftarrow> set_tcb p_tcb2 (\<lambda>t. t\<lparr>NextPtr := p_tcb\<rparr>) s;
       set_rdy_list prio (\<lambda>l. l\<lparr>RL_TailPtr := p_tcb\<rparr>) s
     }
   }"

definition OS_RdyListInsert :: "ptr \<Rightarrow> kernel \<Rightarrow> kernel option" where
  [kops]: "OS_RdyListInsert p_tcb s = do {
     t \<leftarrow> tcb s p_tcb;
     s \<leftarrow> OS_PrioInsert (Prio t) s;
     if Prio t = OSPrioCur s then OS_RdyListInsertTail p_tcb s
     else OS_RdyListInsertHead p_tcb s
   }"

text \<open>The argument \<open>p_rdy_list\<close> is the address of an entry of \<open>OSRdyList\<close>: its index.\<close>

definition OS_RdyListMoveHeadToTail :: "u8 \<Rightarrow> kernel \<Rightarrow> kernel option" where
  [kops]: "OS_RdyListMoveHeadToTail prio s = do {
     l \<leftarrow> rdy_list s prio;
     if RL_HeadPtr l \<noteq> RL_TailPtr l then do {
       h \<leftarrow> tcb s (RL_HeadPtr l);
       if NextPtr h = RL_TailPtr l then do {
         let p_tcb1 = RL_HeadPtr l;
         let p_tcb2 = RL_TailPtr l;
         s \<leftarrow> set_tcb p_tcb1 (\<lambda>t. t\<lparr>PrevPtr := p_tcb2\<rparr>) s;
         s \<leftarrow> set_tcb p_tcb1 (\<lambda>t. t\<lparr>NextPtr := None\<rparr>) s;
         s \<leftarrow> set_tcb p_tcb2 (\<lambda>t. t\<lparr>PrevPtr := None\<rparr>) s;
         s \<leftarrow> set_tcb p_tcb2 (\<lambda>t. t\<lparr>NextPtr := p_tcb1\<rparr>) s;
         s \<leftarrow> set_rdy_list prio (\<lambda>l. l\<lparr>RL_HeadPtr := p_tcb2\<rparr>) s;
         set_rdy_list prio (\<lambda>l. l\<lparr>RL_TailPtr := p_tcb1\<rparr>) s
       } else do {
         let p_tcb1 = RL_HeadPtr l;
         let p_tcb2 = RL_TailPtr l;
         let p_tcb3 = NextPtr h;
         s \<leftarrow> set_tcb p_tcb3 (\<lambda>t. t\<lparr>PrevPtr := None\<rparr>) s;
         s \<leftarrow> set_tcb p_tcb1 (\<lambda>t. t\<lparr>NextPtr := None\<rparr>) s;
         s \<leftarrow> set_tcb p_tcb1 (\<lambda>t. t\<lparr>PrevPtr := p_tcb2\<rparr>) s;
         s \<leftarrow> set_tcb p_tcb2 (\<lambda>t. t\<lparr>NextPtr := p_tcb1\<rparr>) s;
         s \<leftarrow> set_rdy_list prio (\<lambda>l. l\<lparr>RL_HeadPtr := p_tcb3\<rparr>) s;
         set_rdy_list prio (\<lambda>l. l\<lparr>RL_TailPtr := p_tcb1\<rparr>) s
       }
     } else Some s
   }"

definition OS_RdyListRemove :: "ptr \<Rightarrow> kernel \<Rightarrow> kernel option" where
  [kops]: "OS_RdyListRemove p_tcb s = do {
     t \<leftarrow> tcb s p_tcb;
     let prio = Prio t;
     l \<leftarrow> rdy_list s prio;
     let p_tcb1 = PrevPtr t;
     let p_tcb2 = NextPtr t;
     s \<leftarrow>
       (if p_tcb1 = None then
          if p_tcb2 = None then do {
            s \<leftarrow> set_rdy_list prio (\<lambda>l. l\<lparr>RL_NbrEntries := 0\<rparr>) s;
            s \<leftarrow> set_rdy_list prio (\<lambda>l. l\<lparr>RL_HeadPtr := None\<rparr>) s;
            s \<leftarrow> set_rdy_list prio (\<lambda>l. l\<lparr>RL_TailPtr := None\<rparr>) s;
            OS_PrioRemove prio s
          } else do {
            s \<leftarrow> set_rdy_list prio (\<lambda>l. l\<lparr>RL_NbrEntries := RL_NbrEntries l - 1\<rparr>) s;
            s \<leftarrow> set_tcb p_tcb2 (\<lambda>t. t\<lparr>PrevPtr := None\<rparr>) s;
            set_rdy_list prio (\<lambda>l. l\<lparr>RL_HeadPtr := p_tcb2\<rparr>) s
          }
        else do {
          s \<leftarrow> set_rdy_list prio (\<lambda>l. l\<lparr>RL_NbrEntries := RL_NbrEntries l - 1\<rparr>) s;
          s \<leftarrow> set_tcb p_tcb1 (\<lambda>t. t\<lparr>NextPtr := p_tcb2\<rparr>) s;
          if p_tcb2 = None then set_rdy_list prio (\<lambda>l. l\<lparr>RL_TailPtr := p_tcb1\<rparr>) s
          else set_tcb p_tcb2 (\<lambda>t. t\<lparr>PrevPtr := p_tcb1\<rparr>) s
        });
     s \<leftarrow> set_tcb p_tcb (\<lambda>t. t\<lparr>PrevPtr := None\<rparr>) s;
     set_tcb p_tcb (\<lambda>t. t\<lparr>NextPtr := None\<rparr>) s
   }"

text \<open>The time quantum of the task at the head of a list is reloaded in two places with the
  same lines.\<close>

definition reload_quantum :: "ptr \<Rightarrow> kernel \<Rightarrow> kernel option" where
  [kops]: "reload_quantum p_tcb s = do {
     t \<leftarrow> tcb s p_tcb;
     if TimeQuanta t = 0
     then set_tcb p_tcb (\<lambda>t. t\<lparr>TimeQuantaCtr := OSSchedRoundRobinDfltTimeQuanta s\<rparr>) s
     else set_tcb p_tcb (\<lambda>t. t\<lparr>TimeQuantaCtr := TimeQuanta t\<rparr>) s
   }"

definition OS_SchedRoundRobin :: "u8 \<Rightarrow> kernel \<Rightarrow> kernel option" where
  [kops]: "OS_SchedRoundRobin prio s =
     (if \<not> OSSchedRoundRobinEn s then Some s
      else do {
        l \<leftarrow> rdy_list s prio;
        let p_tcb = RL_HeadPtr l;
        if p_tcb = None then Some s
        else if p_tcb = Some OSIdleTaskTCB then Some s
        else do {
          t \<leftarrow> tcb s p_tcb;
          s \<leftarrow> (if TimeQuantaCtr t > 0
               then set_tcb p_tcb (\<lambda>t. t\<lparr>TimeQuantaCtr := TimeQuantaCtr t - 1\<rparr>) s
               else Some s);
          t \<leftarrow> tcb s p_tcb;
          if TimeQuantaCtr t > 0 then Some s
          else if RL_HeadPtr l = RL_TailPtr l then Some s
          else if OSSchedLockNestingCtr s > 0 then Some s
          else do {
            s \<leftarrow> OS_RdyListMoveHeadToTail prio s;
            l \<leftarrow> rdy_list s prio;
            reload_quantum (RL_HeadPtr l) s
          }
        }
      })"

section \<open>Lists in the state\<close>

definition nxt :: "kernel \<Rightarrow> nat \<Rightarrow> ptr" where "nxt s = (\<lambda>a. NextPtr (OSTCBs s a))"
definition prv :: "kernel \<Rightarrow> nat \<Rightarrow> ptr" where "prv s = (\<lambda>a. PrevPtr (OSTCBs s a))"

lemma nxt_fold: "NextPtr (OSTCBs s a) = nxt s a" and prv_fold: "PrevPtr (OSTCBs s a) = prv s a"
  by (simp_all add: nxt_def prv_def)

text \<open>The part of the state the ready list operations write: the two links of the TCBs, the
  list headers and the priority table. Everything else is kept by construction.\<close>

definition upd_rdy ::
  "(nat \<Rightarrow> ptr) \<Rightarrow> (nat \<Rightarrow> ptr) \<Rightarrow> (u8 \<Rightarrow> OS_RDY_LIST) \<Rightarrow> u32 list \<Rightarrow> kernel \<Rightarrow> kernel" where
  "upd_rdy n p rl tbl s = s\<lparr>OSTCBs := (\<lambda>a. (OSTCBs s a)\<lparr>NextPtr := n a, PrevPtr := p a\<rparr>),
     OSRdyList := rl, OSPrioTbl := tbl\<rparr>"

lemma upd_rdy_sel [simp]:
  "OSTCBs (upd_rdy n p rl tbl s) a = (OSTCBs s a)\<lparr>NextPtr := n a, PrevPtr := p a\<rparr>"
  "OSRdyList (upd_rdy n p rl tbl s) = rl"
  "OSPrioTbl (upd_rdy n p rl tbl s) = tbl"
  "OSObjs (upd_rdy n p rl tbl s) = OSObjs s"
  "OSSems (upd_rdy n p rl tbl s) = OSSems s"
  "OSMutexes (upd_rdy n p rl tbl s) = OSMutexes s"
  "OSQs (upd_rdy n p rl tbl s) = OSQs s"
  "OSFlagGrps (upd_rdy n p rl tbl s) = OSFlagGrps s"
  "OSMsgs (upd_rdy n p rl tbl s) = OSMsgs s"
  "OSMsgPool (upd_rdy n p rl tbl s) = OSMsgPool s"
  "OSTickList (upd_rdy n p rl tbl s) = OSTickList s"
  "OSTickCtr (upd_rdy n p rl tbl s) = OSTickCtr s"
  "OSTCBCurPtr (upd_rdy n p rl tbl s) = OSTCBCurPtr s"
  "OSTCBHighRdyPtr (upd_rdy n p rl tbl s) = OSTCBHighRdyPtr s"
  "OSPrioCur (upd_rdy n p rl tbl s) = OSPrioCur s"
  "OSPrioHighRdy (upd_rdy n p rl tbl s) = OSPrioHighRdy s"
  "OSRunning (upd_rdy n p rl tbl s) = OSRunning s"
  "OSInitialized (upd_rdy n p rl tbl s) = OSInitialized s"
  "OSIntNestingCtr (upd_rdy n p rl tbl s) = OSIntNestingCtr s"
  "OSSchedLockNestingCtr (upd_rdy n p rl tbl s) = OSSchedLockNestingCtr s"
  "OSSchedRoundRobinEn (upd_rdy n p rl tbl s) = OSSchedRoundRobinEn s"
  "OSSchedRoundRobinDfltTimeQuanta (upd_rdy n p rl tbl s) = OSSchedRoundRobinDfltTimeQuanta s"
  "nxt (upd_rdy n p rl tbl s) = n"
  "prv (upd_rdy n p rl tbl s) = p"
  by (simp_all add: upd_rdy_def nxt_def prv_def)

lemma upd_rdy_upd_rdy [simp]:
  "upd_rdy n p rl tbl (upd_rdy n' p' rl' tbl' s) = upd_rdy n p rl tbl s"
  by (simp add: upd_rdy_def)

lemma upd_rdy_id [simp]: "upd_rdy (nxt s) (prv s) (OSRdyList s) (OSPrioTbl s) s = s"
  by (simp add: upd_rdy_def nxt_def prv_def)

text \<open>Each store of these operations as such an update.\<close>

lemma set_NextPtr: "set_tcb (Some x) (NextPtr_update (\<lambda>_. v)) s =
    Some (upd_rdy ((nxt s)(x := v)) (prv s) (OSRdyList s) (OSPrioTbl s) s)"
  by (auto simp: set_tcb_def upd_rdy_def nxt_def prv_def fun_eq_iff)

lemma set_PrevPtr: "set_tcb (Some x) (PrevPtr_update (\<lambda>_. v)) s =
    Some (upd_rdy (nxt s) ((prv s)(x := v)) (OSRdyList s) (OSPrioTbl s) s)"
  by (auto simp: set_tcb_def upd_rdy_def nxt_def prv_def fun_eq_iff)

lemma set_rdy: "unat prio < OS_CFG_PRIO_MAX \<Longrightarrow> set_rdy_list prio f s =
    Some (upd_rdy (nxt s) (prv s) ((OSRdyList s)(prio := f (OSRdyList s prio))) (OSPrioTbl s) s)"
  by (auto simp: set_rdy_list_def upd_rdy_def nxt_def prv_def fun_eq_iff)

lemma set_prio_tbl: "s\<lparr>OSPrioTbl := t\<rparr> = upd_rdy (nxt s) (prv s) (OSRdyList s) t s"
  by (simp add: upd_rdy_def nxt_def prv_def)

lemmas rdy_upds = nxt_fold prv_fold set_NextPtr set_PrevPtr set_rdy

section \<open>The ready lists of a state\<close>

definition rdy_lists :: "kernel \<Rightarrow> (u8 \<Rightarrow> nat list) \<Rightarrow> bool" where
  "rdy_lists s R \<longleftrightarrow> (\<forall>p. unat p < OS_CFG_PRIO_MAX \<longrightarrow>
     dll (nxt s) (prv s) (RL_HeadPtr (OSRdyList s p)) (RL_TailPtr (OSRdyList s p)) (R p) \<and>
     RL_NbrEntries (OSRdyList s p) = of_nat (length (R p)) \<and>
     (\<forall>a\<in>set (R p). Prio (OSTCBs s a) = p)) \<and>
   (\<forall>p. \<not> unat p < OS_CFG_PRIO_MAX \<longrightarrow> R p = [])"

definition rdy_rel :: "kernel \<Rightarrow> (u8 \<Rightarrow> nat list) \<Rightarrow> bool" where
  "rdy_rel s R \<longleftrightarrow> rdy_lists s R \<and> prio_tbl_ok s \<and>
     ready_prios s = {n. \<exists>p. n = unat p \<and> R p \<noteq> []}"

lemma rdy_listsD:
  assumes "rdy_lists s R" and "unat p < OS_CFG_PRIO_MAX"
  shows "dll (nxt s) (prv s) (RL_HeadPtr (OSRdyList s p)) (RL_TailPtr (OSRdyList s p)) (R p)"
    and "RL_NbrEntries (OSRdyList s p) = of_nat (length (R p))"
    and "\<And>a. a \<in> set (R p) \<Longrightarrow> Prio (OSTCBs s a) = p"
  using assms by (auto simp: rdy_lists_def)

lemma rdy_lists_bound: "rdy_lists s R \<Longrightarrow> a \<in> set (R p) \<Longrightarrow> unat p < OS_CFG_PRIO_MAX"
  by (auto simp: rdy_lists_def)

lemma rdy_lists_prio: "rdy_lists s R \<Longrightarrow> a \<in> set (R p) \<Longrightarrow> Prio (OSTCBs s a) = p"
  using rdy_lists_bound rdy_listsD(3) by blast

lemma rdy_lists_disjoint: "rdy_lists s R \<Longrightarrow> a \<in> set (R p) \<Longrightarrow> a \<in> set (R q) \<Longrightarrow> p = q"
  using rdy_lists_prio by blast

text \<open>An update of one list: the links of the nodes outside the two versions of the list are
  kept, hence the other lists are.\<close>

lemma rdy_lists_upd:
  assumes R: "rdy_lists s R" and q: "unat q < OS_CFG_PRIO_MAX"
    and d: "dll n p (RL_HeadPtr l) (RL_TailPtr l) xs"
    and len: "RL_NbrEntries l = of_nat (length xs)"
    and pr: "\<And>a. a \<in> set xs \<Longrightarrow> Prio (OSTCBs s a) = q"
    and frame: "\<And>a. Prio (OSTCBs s a) \<noteq> q \<Longrightarrow> n a = nxt s a \<and> p a = prv s a"
  shows "rdy_lists (upd_rdy n p ((OSRdyList s)(q := l)) tbl s) (R(q := xs))"
proof -
  have "dll n p (RL_HeadPtr (OSRdyList s r)) (RL_TailPtr (OSRdyList s r)) (R r)"
    if "unat r < OS_CFG_PRIO_MAX" "r \<noteq> q" for r
  proof -
    have "dll n p (RL_HeadPtr (OSRdyList s r)) (RL_TailPtr (OSRdyList s r)) (R r) =
      dll (nxt s) (prv s) (RL_HeadPtr (OSRdyList s r)) (RL_TailPtr (OSRdyList s r)) (R r)"
      using rdy_listsD(3) [OF R that(1)] that(2) frame by (intro dll_cong) blast+
    then show ?thesis using rdy_listsD(1) [OF R that(1)] by simp
  qed
  with assms show ?thesis by (auto simp: rdy_lists_def)
qed

section \<open>What the operations do\<close>

text \<open>The shape of every specification below: the operation returns, writes only what
  \<open>upd_rdy\<close> writes, and leaves the lists that are named.\<close>

definition rdy_step ::
  "kernel option \<Rightarrow> kernel \<Rightarrow> u32 list \<Rightarrow> (u8 \<Rightarrow> nat list) \<Rightarrow> bool" where
  "rdy_step r s tbl R' \<longleftrightarrow>
     (\<exists>n p rl. r = Some (upd_rdy n p rl tbl s) \<and> rdy_lists (upd_rdy n p rl tbl s) R')"

lemma rdy_stepE:
  assumes "rdy_step r s tbl R'"
  obtains n p rl where "r = Some (upd_rdy n p rl tbl s)" "rdy_lists (upd_rdy n p rl tbl s) R'"
  using assms by (auto simp: rdy_step_def)

lemma rdy_stepI:
  assumes "r = Some (upd_rdy n p ((OSRdyList s)(q := l)) tbl s)"
    and "rdy_lists s R" and "unat q < OS_CFG_PRIO_MAX"
    and "dll n p (RL_HeadPtr l) (RL_TailPtr l) xs"
    and "RL_NbrEntries l = of_nat (length xs)"
    and "\<And>a. a \<in> set xs \<Longrightarrow> Prio (OSTCBs s a) = q"
    and "\<And>a. Prio (OSTCBs s a) \<noteq> q \<Longrightarrow> n a = nxt s a \<and> p a = prv s a"
  shows "rdy_step r s tbl (R(q := xs))"
  using rdy_lists_upd [OF assms(2-7)] assms(1) unfolding rdy_step_def by blast

lemma rdy_list_Some: "unat p < OS_CFG_PRIO_MAX \<Longrightarrow> rdy_list s p = Some (OSRdyList s p)"
  by (simp add: rdy_list_def)

lemma OS_RdyListInsertHead_spec:
  assumes R: "rdy_lists s R" and q: "Prio (OSTCBs s x) = q" "unat q < OS_CFG_PRIO_MAX"
    and x: "x \<notin> set (R q)"
  shows "rdy_step (OS_RdyListInsertHead (Some x) s) s (OSPrioTbl s) (R(q := x # R q))"
proof (cases "R q")
  case Nil
  from rdy_listsD(1) [OF R q(2)] Nil have h: "RL_HeadPtr (OSRdyList s q) = None" by simp
  show ?thesis
    by (rule rdy_stepI [where n = "(nxt s)(x := None)" and p = "(prv s)(x := None)"
          and l = "(OSRdyList s q)\<lparr>RL_NbrEntries := 1, RL_HeadPtr := Some x, RL_TailPtr := Some x\<rparr>",
          OF _ R q(2)])
      (use q in \<open>auto simp: OS_RdyListInsertHead_def rdy_list_Some h rdy_upds Nil dll_insert_empty\<close>)
next
  case (Cons y ys)
  note D = rdy_listsD [OF R q(2)]
  from D(1) Cons have h: "RL_HeadPtr (OSRdyList s q) = Some y" by (simp add: dll_def)
  from D(1) Cons x have d: "dll ((nxt s)(x := Some y)) ((prv s)(x := None, y := Some x)) (Some x)
      (RL_TailPtr (OSRdyList s q)) (x # y # ys)"
    by (intro dll_insert_head) (simp_all add: h)
  show ?thesis
    by (rule rdy_stepI [where n = "(nxt s)(x := Some y)" and p = "(prv s)(x := None, y := Some x)"
          and l = "(OSRdyList s q)\<lparr>RL_NbrEntries := RL_NbrEntries (OSRdyList s q) + 1,
             RL_HeadPtr := Some x\<rparr>", OF _ R q(2)])
      (use q D d Cons in \<open>auto simp: OS_RdyListInsertHead_def rdy_list_Some h rdy_upds\<close>)
qed

lemma OS_RdyListInsertTail_spec:
  assumes R: "rdy_lists s R" and q: "Prio (OSTCBs s x) = q" "unat q < OS_CFG_PRIO_MAX"
    and x: "x \<notin> set (R q)"
  shows "rdy_step (OS_RdyListInsertTail (Some x) s) s (OSPrioTbl s) (R(q := R q @ [x]))"
proof (cases "R q" rule: rev_cases)
  case Nil
  from rdy_listsD(1) [OF R q(2)] Nil have h: "RL_HeadPtr (OSRdyList s q) = None" by simp
  show ?thesis
    by (rule rdy_stepI [where n = "(nxt s)(x := None)" and p = "(prv s)(x := None)"
          and l = "(OSRdyList s q)\<lparr>RL_NbrEntries := 1, RL_HeadPtr := Some x, RL_TailPtr := Some x\<rparr>",
          OF _ R q(2)])
      (use q in \<open>auto simp: OS_RdyListInsertTail_def rdy_list_Some h rdy_upds Nil dll_insert_empty\<close>)
next
  case (snoc ys y)
  note D = rdy_listsD [OF R q(2)]
  from D(1) snoc have t: "RL_TailPtr (OSRdyList s q) = Some y"
    and h: "RL_HeadPtr (OSRdyList s q) \<noteq> None" by (auto simp: dll_def)
  from D(1) snoc x have d: "dll ((nxt s)(x := None, y := Some x)) ((prv s)(x := Some y))
      (RL_HeadPtr (OSRdyList s q)) (Some x) (ys @ [y, x])"
    by (intro dll_insert_tail) (simp_all add: t)
  show ?thesis
    by (rule rdy_stepI [where n = "(nxt s)(x := None, y := Some x)" and p = "(prv s)(x := Some y)"
          and l = "(OSRdyList s q)\<lparr>RL_NbrEntries := RL_NbrEntries (OSRdyList s q) + 1,
             RL_TailPtr := Some x\<rparr>", OF _ R q(2)])
      (use q D d snoc h in \<open>auto simp: OS_RdyListInsertTail_def rdy_list_Some t rdy_upds\<close>)
qed

lemma rdy_step_id: "rdy_lists s R \<Longrightarrow> rdy_step (Some s) s (OSPrioTbl s) R"
  unfolding rdy_step_def by (metis upd_rdy_id)

lemma OSPrioTbl_inject: "s\<lparr>OSPrioTbl := t\<rparr> = s\<lparr>OSPrioTbl := t'\<rparr> \<longleftrightarrow> t = t'"
proof
  assume "s\<lparr>OSPrioTbl := t\<rparr> = s\<lparr>OSPrioTbl := t'\<rparr>"
  then have "OSPrioTbl (s\<lparr>OSPrioTbl := t\<rparr>) = OSPrioTbl (s\<lparr>OSPrioTbl := t'\<rparr>)" by simp
  then show "t = t'" by simp
qed simp

lemma OS_PrioRemove_upd:
  "OS_PrioRemove q s = Some (s\<lparr>OSPrioTbl := t\<rparr>) \<Longrightarrow>
   OS_PrioRemove q (upd_rdy n p rl (OSPrioTbl s) s') = Some (upd_rdy n p rl t s')"
  by (auto simp: OS_PrioRemove_def upd_rdy_def OSPrioTbl_inject Let_def split: if_splits)

lemma OS_RdyListMoveHeadToTail_spec:
  assumes R: "rdy_lists s R" and q: "unat q < OS_CFG_PRIO_MAX"
  shows "rdy_step (OS_RdyListMoveHeadToTail q s) s (OSPrioTbl s)
    (R(q := (case R q of [] \<Rightarrow> [] | x # xs \<Rightarrow> xs @ [x])))"
proof -
  note D = rdy_listsD [OF R q]
  let ?l = "OSRdyList s q"
  consider (short) "length (R q) \<le> 1" | (two) x y where "R q = [x, y]"
    | (more) x y ys z where "R q = x # y # ys @ [z]"
    by (cases "R q" rule: remdups_adj.cases)
      (auto, metis append_butlast_last_id)
  then show ?thesis
  proof cases
    case short
    then have "RL_HeadPtr ?l = RL_TailPtr ?l"
      using D(1) dll_head_eq_tail [OF D(1)] by (cases "R q") auto
    moreover from short have "(case R q of [] \<Rightarrow> [] | x # xs \<Rightarrow> xs @ [x]) = R q"
      by (cases "R q") auto
    ultimately show ?thesis using R
      by (simp add: rdy_step_id OS_RdyListMoveHeadToTail_def rdy_list_Some q)
  next
    case two
    then have d: "dll (nxt s) (prv s) (RL_HeadPtr ?l) (RL_TailPtr ?l) [x, y]" using D(1) by simp
    then have h: "RL_HeadPtr ?l = Some x" "RL_TailPtr ?l = Some y" "nxt s x = Some y" "x \<noteq> y"
      by (auto simp: dll_def)
    from dll_rotate2 [OF d] have d': "dll ((nxt s)(x := None, y := Some x))
        ((prv s)(x := Some y, y := None)) (Some y) (Some x) [y, x]" .
    show ?thesis unfolding two list.case append.simps
      by (rule rdy_stepI [where n = "(nxt s)(x := None, y := Some x)"
            and p = "(prv s)(x := Some y, y := None)"
            and l = "?l\<lparr>RL_HeadPtr := Some y, RL_TailPtr := Some x\<rparr>", OF _ R q])
        (use D(2,3) d' two h q in \<open>auto simp: OS_RdyListMoveHeadToTail_def Let_def rdy_list_Some rdy_upds\<close>)
  next
    case more
    then have d: "dll (nxt s) (prv s) (RL_HeadPtr ?l) (RL_TailPtr ?l) (x # y # ys @ [z])"
      using D(1) by simp
    then have h: "RL_HeadPtr ?l = Some x" "RL_TailPtr ?l = Some z" "nxt s x = Some y"
        "x \<noteq> y" "x \<noteq> z" "y \<noteq> z"
      by (auto simp: dll_def)
    from dll_rotate [OF d] have d': "dll ((nxt s)(x := None, z := Some x))
        ((prv s)(y := None, x := Some z)) (Some y) (Some x) (y # ys @ [z, x])" .
    show ?thesis unfolding more list.case append_assoc append.simps
      by (rule rdy_stepI [where n = "(nxt s)(x := None, z := Some x)"
            and p = "(prv s)(y := None, x := Some z)"
            and l = "?l\<lparr>RL_HeadPtr := Some y, RL_TailPtr := Some x\<rparr>", OF _ R q])
        (use D(2,3) d' more h q in \<open>auto simp: OS_RdyListMoveHeadToTail_def Let_def rdy_list_Some rdy_upds\<close>)
  qed
qed

text \<open>Removal keeps the table in step: the bit is cleared exactly when the list becomes empty.\<close>

lemma OS_RdyListRemove_lists:
  assumes R: "rdy_lists s R" and tbl: "prio_tbl_ok s" and xs: "R q = as @ x # bs"
  shows "\<exists>tbl. rdy_step (OS_RdyListRemove (Some x) s) s tbl (R(q := as @ bs)) \<and>
    length tbl = length (OSPrioTbl s) \<and>
    prio_set tbl = prio_set (OSPrioTbl s) - (if as @ bs = [] then {unat q} else {})"
proof -
  from xs have x: "x \<in> set (R q)" by simp
  have q: "unat q < OS_CFG_PRIO_MAX" using rdy_lists_bound [OF R x] .
  note D = rdy_listsD [OF R q]
  have pq: "Prio (OSTCBs s x) = q" using D(3) x by simp
  let ?l = "OSRdyList s q"
  have d: "dll (nxt s) (prv s) (RL_HeadPtr ?l) (RL_TailPtr ?l) (as @ x # bs)"
    using D(1) xs by simp
  note nb = dll_split(1,2) [OF d]
  consider (only) "as = []" "bs = []" | (head) b bs' where "as = []" "bs = b # bs'"
    | (tail) a as' where "as = as' @ [a]" "bs = []"
    | (between) a as' b bs' where "as = as' @ [a]" "bs = b # bs'"
    by (cases as rule: rev_cases; cases bs) auto
  then show ?thesis
  proof cases
    case only
    obtain t where t: "OS_PrioRemove q s = Some (s\<lparr>OSPrioTbl := t\<rparr>)"
        "length t = length (OSPrioTbl s)" "prio_set t = prio_set (OSPrioTbl s) - {unat q}"
      using OS_PrioRemove_spec [OF tbl q] tbl by (auto simp: prio_tbl_ok_def)
    note t' = OS_PrioRemove_upd [OF t(1)]
    from only have n: "nxt s x = None" "prv s x = None" using nb by simp_all
    have "rdy_step (OS_RdyListRemove (Some x) s) s t (R(q := as @ bs))"
      by (rule rdy_stepI [where n = "(nxt s)(x := None)" and p = "(prv s)(x := None)"
            and l = "?l\<lparr>RL_NbrEntries := 0, RL_HeadPtr := None, RL_TailPtr := None\<rparr>",
            OF _ R q])
        (use q pq n t' only in \<open>auto simp: OS_RdyListRemove_def Let_def rdy_list_Some rdy_upds\<close>)
    with t only show ?thesis by auto
  next
    case head
    from head have n: "prv s x = None" "nxt s x = Some b" "b \<noteq> x"
      using nb dll_distinct [OF d] by auto
    have d': "dll ((nxt s)(x := None)) ((prv s)(b := None, x := None)) (Some b)
        (RL_TailPtr ?l) (b # bs')"
      by (rule dll_remove_head) (use d head in simp)
    have "rdy_step (OS_RdyListRemove (Some x) s) s (OSPrioTbl s) (R(q := as @ bs))"
      by (rule rdy_stepI [where n = "(nxt s)(x := None)" and p = "(prv s)(b := None, x := None)"
            and l = "?l\<lparr>RL_NbrEntries := RL_NbrEntries ?l - 1, RL_HeadPtr := Some b\<rparr>", OF _ R q])
        (use q pq n d' D(2,3) xs head in \<open>auto simp: OS_RdyListRemove_def Let_def rdy_list_Some rdy_upds\<close>)
    with head show ?thesis by (auto intro: exI [of _ "OSPrioTbl s"])
  next
    case tail
    from tail have n: "prv s x = Some a" "nxt s x = None" "a \<noteq> x"
      using nb dll_distinct [OF d] by auto
    have d': "dll ((nxt s)(a := None, x := None)) ((prv s)(x := None)) (RL_HeadPtr ?l)
        (Some a) (as' @ [a])"
      by (rule dll_remove_tail) (use d tail in simp)
    have "rdy_step (OS_RdyListRemove (Some x) s) s (OSPrioTbl s) (R(q := as @ bs))"
      by (rule rdy_stepI [where n = "(nxt s)(a := None, x := None)" and p = "(prv s)(x := None)"
            and l = "?l\<lparr>RL_NbrEntries := RL_NbrEntries ?l - 1, RL_TailPtr := Some a\<rparr>", OF _ R q])
        (use q pq n d' D(2,3) xs tail in \<open>auto simp: OS_RdyListRemove_def Let_def rdy_list_Some rdy_upds\<close>)
    with tail show ?thesis by (auto intro: exI [of _ "OSPrioTbl s"])
  next
    case between
    from between have n: "prv s x = Some a" "nxt s x = Some b" "a \<noteq> x" "b \<noteq> x"
      using nb dll_distinct [OF d] by auto
    have d': "dll ((nxt s)(a := Some b, x := None)) ((prv s)(b := Some a, x := None))
        (RL_HeadPtr ?l) (RL_TailPtr ?l) (as' @ a # b # bs')"
      by (rule dll_remove_between) (use d between in simp)
    have "rdy_step (OS_RdyListRemove (Some x) s) s (OSPrioTbl s) (R(q := as @ bs))"
      by (rule rdy_stepI [where n = "(nxt s)(a := Some b, x := None)"
            and p = "(prv s)(b := Some a, x := None)"
            and l = "?l\<lparr>RL_NbrEntries := RL_NbrEntries ?l - 1\<rparr>", OF _ R q])
        (use q pq n d' D(2,3) xs between in \<open>auto simp: OS_RdyListRemove_def Let_def rdy_list_Some rdy_upds\<close>)
    with between show ?thesis by (auto intro: exI [of _ "OSPrioTbl s"])
  qed
qed

text \<open>The operations that keep lists and table in step, on states related to lists.\<close>

definition rdy_ok :: "kernel option \<Rightarrow> kernel \<Rightarrow> (u8 \<Rightarrow> nat list) \<Rightarrow> bool" where
  "rdy_ok r s R' \<longleftrightarrow>
     (\<exists>n p rl tbl. r = Some (upd_rdy n p rl tbl s) \<and> rdy_rel (upd_rdy n p rl tbl s) R')"

lemma rdy_okE:
  assumes "rdy_ok r s R'"
  obtains n p rl tbl where "r = Some (upd_rdy n p rl tbl s)" "rdy_rel (upd_rdy n p rl tbl s) R'"
  using assms by (auto simp: rdy_ok_def)

lemma rdy_relD:
  assumes "rdy_rel s R"
  shows "rdy_lists s R" "prio_tbl_ok s" "ready_prios s = {n. \<exists>p. n = unat p \<and> R p \<noteq> []}"
  using assms by (auto simp: rdy_rel_def)

lemma rdy_okI:
  assumes "rdy_step r s tbl R'" and "length tbl = OS_PRIO_TBL_SIZE"
    and "prio_set tbl = {n. \<exists>p. n = unat p \<and> R' p \<noteq> []}"
  shows "rdy_ok r s R'"
  using assms(1) unfolding rdy_step_def rdy_ok_def rdy_rel_def
  using assms(2,3) by (auto simp: prio_tbl_ok_def ready_prios_def)

lemma rdy_rel_bound: "rdy_rel s R \<Longrightarrow> a \<in> set (R p) \<Longrightarrow> unat p < OS_CFG_PRIO_MAX"
  using rdy_lists_bound rdy_relD(1) by blast

lemma rdy_rel_prio: "rdy_rel s R \<Longrightarrow> a \<in> set (R p) \<Longrightarrow> Prio (OSTCBs s a) = p"
  using rdy_lists_prio rdy_relD(1) by blast

lemma rdy_rel_distinct: "rdy_rel s R \<Longrightarrow> distinct (R p)"
  using rdy_listsD(1) dll_distinct rdy_relD(1) rdy_lists_def by (metis distinct.simps(1))

lemma rdy_rel_head:
  "rdy_rel s R \<Longrightarrow> unat p < OS_CFG_PRIO_MAX \<Longrightarrow> RL_HeadPtr (OSRdyList s p) = hdo (R p)"
  using rdy_listsD(1) rdy_relD(1) by (metis dll_def)

lemma prio_set_upd:
  "prio_set t = insert (unat q) (prio_set (OSPrioTbl s)) \<Longrightarrow> rdy_rel s R \<Longrightarrow> xs \<noteq> [] \<Longrightarrow>
   prio_set t = {n. \<exists>p. n = unat p \<and> (R(q := xs)) p \<noteq> []}"
  using rdy_relD(3) [of s R] by (auto simp: ready_prios_def)

text \<open>The relation and the list operations do not see the table.\<close>

lemma rdy_lists_tbl [simp]: "rdy_lists (upd_rdy (nxt s) (prv s) (OSRdyList s) t s) R = rdy_lists s R"
  by (simp add: rdy_lists_def)

lemma rdy_step_tbl:
  "rdy_step r (upd_rdy (nxt s) (prv s) (OSRdyList s) t s) t' R' \<Longrightarrow> rdy_step r s t' R'"
  by (auto simp: rdy_step_def)

text \<open>Setting the bit of a priority and linking the task at either end of its list.\<close>

lemma rdy_link_ok:
  assumes R: "rdy_rel s R" and q: "Prio (OSTCBs s x) = q" "unat q < OS_CFG_PRIO_MAX"
    and x: "x \<notin> set (R q)"
  shows "rdy_ok (Option.bind (OS_PrioInsert q s) (OS_RdyListInsertTail (Some x))) s (R(q := R q @ [x]))"
    and "rdy_ok (Option.bind (OS_PrioInsert q s) (OS_RdyListInsertHead (Some x))) s (R(q := x # R q))"
proof -
  note D = rdy_relD [OF R]
  obtain t where t: "OS_PrioInsert q s = Some (s\<lparr>OSPrioTbl := t\<rparr>)"
      "length t = OS_PRIO_TBL_SIZE" "prio_set t = insert (unat q) (prio_set (OSPrioTbl s))"
    using OS_PrioInsert_spec [OF D(2) q(2)] by (auto simp: prio_tbl_ok_def)
  let ?s = "upd_rdy (nxt s) (prv s) (OSRdyList s) t s"
  have s: "s\<lparr>OSPrioTbl := t\<rparr> = ?s" by (rule set_prio_tbl)
  have "rdy_step (OS_RdyListInsertTail (Some x) ?s) s t (R(q := R q @ [x]))"
    using OS_RdyListInsertTail_spec [of ?s R x q] D(1) q x by (auto intro: rdy_step_tbl)
  then show "rdy_ok (Option.bind (OS_PrioInsert q s) (OS_RdyListInsertTail (Some x))) s (R(q := R q @ [x]))"
    using t prio_set_upd [OF t(3) R] s by (intro rdy_okI [where tbl = t]) auto
  have "rdy_step (OS_RdyListInsertHead (Some x) ?s) s t (R(q := x # R q))"
    using OS_RdyListInsertHead_spec [of ?s R x q] D(1) q x by (auto intro: rdy_step_tbl)
  then show "rdy_ok (Option.bind (OS_PrioInsert q s) (OS_RdyListInsertHead (Some x))) s (R(q := x # R q))"
    using t prio_set_upd [OF t(3) R] s by (intro rdy_okI [where tbl = t]) auto
qed

lemma OS_RdyListInsert_spec:
  assumes R: "rdy_rel s R" and q: "Prio (OSTCBs s x) = q" "unat q < OS_CFG_PRIO_MAX"
    and x: "x \<notin> set (R q)"
  shows "rdy_ok (OS_RdyListInsert (Some x) s) s
    (R(q := (if q = OSPrioCur s then R q @ [x] else x # R q)))"
proof -
  obtain t where t: "OS_PrioInsert q s = Some (s\<lparr>OSPrioTbl := t\<rparr>)"
    using OS_PrioInsert_spec [OF rdy_relD(2) [OF R] q(2)] by blast
  have "OS_RdyListInsert (Some x) s = Option.bind (OS_PrioInsert q s)
      (if q = OSPrioCur s then OS_RdyListInsertTail (Some x) else OS_RdyListInsertHead (Some x))"
    using q(1) t by (simp add: OS_RdyListInsert_def)
  with rdy_link_ok [OF assms] show ?thesis by (cases "q = OSPrioCur s") simp_all
qed

lemma OS_RdyListRemove_spec:
  assumes R: "rdy_rel s R" and xs: "R q = as @ x # bs"
  shows "rdy_ok (OS_RdyListRemove (Some x) s) s (R(q := as @ bs))"
proof -
  note D = rdy_relD [OF R]
  obtain t where t: "rdy_step (OS_RdyListRemove (Some x) s) s t (R(q := as @ bs))"
      "length t = length (OSPrioTbl s)"
      "prio_set t = prio_set (OSPrioTbl s) - (if as @ bs = [] then {unat q} else {})"
    using OS_RdyListRemove_lists [OF D(1,2), of q as x bs] xs by blast
  have "prio_set t = {n. \<exists>p. n = unat p \<and> (R(q := as @ bs)) p \<noteq> []}"
    using D(3) xs t(3)
    by (auto simp: ready_prios_def word_unat_eq_iff split: if_splits)
  with t D(2) show ?thesis by (intro rdy_okI) (auto simp: prio_tbl_ok_def)
qed

lemma OS_RdyListMoveHeadToTail_rel:
  assumes R: "rdy_rel s R" and q: "unat q < OS_CFG_PRIO_MAX"
  shows "rdy_ok (OS_RdyListMoveHeadToTail q s) s
    (R(q := (case R q of [] \<Rightarrow> [] | x # xs \<Rightarrow> xs @ [x])))"
  using OS_RdyListMoveHeadToTail_spec [OF rdy_relD(1) [OF R] q] rdy_relD [OF R]
  by (elim rdy_okI)
    (auto simp: prio_tbl_ok_def ready_prios_def split: list.splits if_splits)

section \<open>Choosing the task to run\<close>

text \<open>The three lines every scheduling point of the source has: the highest priority with a
  ready task and the head of its list.\<close>

definition sched_select :: "kernel \<Rightarrow> (u8 \<times> ptr) option" where
  "sched_select s = do {
     prio \<leftarrow> OS_PrioGetHighest s;
     l \<leftarrow> rdy_list s prio;
     Some (prio, RL_HeadPtr l)
   }"

lemma sched_select_spec:
  assumes R: "rdy_rel s R" and ne: "R q \<noteq> []"
  obtains p x xs where "sched_select s = Some (p, Some x)" "R p = x # xs"
    "\<And>q. R q \<noteq> [] \<Longrightarrow> p \<le> q"
proof -
  note D = rdy_relD [OF R]
  have r: "ready_prios s \<noteq> {}" using D(3) ne by blast
  then obtain p where p: "OS_PrioGetHighest s = Some p"
    using prio.highest_ex [OF D(2)] by blast
  note L = prio.highest_least [OF D(2) p r]
  from L(1) D(3) obtain p' where "unat p = unat p'" "R p' \<noteq> []" by auto
  moreover from this have "p = p'" by (simp only: word_unat_eq_iff)
  ultimately have Rp: "R p \<noteq> []" by simp
  then obtain x xs where x: "R p = x # xs" by (cases "R p") auto
  with R have b: "unat p < OS_CFG_PRIO_MAX" by (auto intro: rdy_rel_bound)
  have least: "p \<le> q" if "R q \<noteq> []" for q
    using L(2) [of "unat q"] D(3) that by (auto simp: word_le_nat_alt)
  show thesis
    by (rule that [OF _ x least])
      (simp_all add: sched_select_def p rdy_list_Some b rdy_rel_head [OF R b] x)
qed

text \<open>The round-robin step at a tick: while the quantum of the head lasts it is counted down;
  when it is used up the list is rotated and the new head gets a fresh quantum.\<close>

definition quantum_left :: "OS_TCB \<Rightarrow> u32" where
  "quantum_left t = (if TimeQuantaCtr t > 0 then TimeQuantaCtr t - 1 else TimeQuantaCtr t)"

text \<open>The relation depends on the links, the priorities and the headers only.\<close>

lemma rdy_rel_cong:
  assumes "\<And>a. NextPtr (OSTCBs s' a) = NextPtr (OSTCBs s a)"
    and "\<And>a. PrevPtr (OSTCBs s' a) = PrevPtr (OSTCBs s a)"
    and "\<And>a. Prio (OSTCBs s' a) = Prio (OSTCBs s a)"
    and "OSRdyList s' = OSRdyList s" and "OSPrioTbl s' = OSPrioTbl s"
  shows "rdy_rel s' R \<longleftrightarrow> rdy_rel s R"
proof -
  have "nxt s' = nxt s" "prv s' = prv s" using assms by (simp_all add: nxt_def prv_def)
  then show ?thesis using assms
    by (simp add: rdy_rel_def rdy_lists_def prio_tbl_ok_def ready_prios_def)
qed

lemma OS_SchedRoundRobin_spec:
  assumes R: "rdy_rel s R" and q: "unat q < OS_CFG_PRIO_MAX"
    and en: "OSSchedRoundRobinEn s"
    and xs: "R q = x # xs" and idle: "x \<noteq> OSIdleTaskTCB"
  shows "\<exists>s'. OS_SchedRoundRobin q s = Some s' \<and>
    (if quantum_left (OSTCBs s x) > 0 \<or> xs = [] \<or> OSSchedLockNestingCtr s > 0
     then rdy_rel s' R \<and> TimeQuantaCtr (OSTCBs s' x) = quantum_left (OSTCBs s x)
     else rdy_rel s' (R(q := xs @ [x])) \<and>
       TimeQuantaCtr (OSTCBs s' (hd xs)) =
         (if TimeQuanta (OSTCBs s (hd xs)) = 0 then OSSchedRoundRobinDfltTimeQuanta s
          else TimeQuanta (OSTCBs s (hd xs))))"
proof -
  let ?c = "quantum_left (OSTCBs s x)"
  let ?s = "s\<lparr>OSTCBs := (OSTCBs s)(x := (OSTCBs s x)\<lparr>TimeQuantaCtr := ?c\<rparr>)\<rparr>"
  have R': "rdy_rel ?s R" using R by (subst rdy_rel_cong [of _ s]) auto
  have h: "RL_HeadPtr (OSRdyList s q) = Some x" using rdy_rel_head [OF R q] xs by simp
  have s: "(if TimeQuantaCtr (OSTCBs s x) > 0
      then set_tcb (Some x) (\<lambda>t. t\<lparr>TimeQuantaCtr := TimeQuantaCtr t - 1\<rparr>) s else Some s) = Some ?s"
    by (auto simp: set_tcb_Some quantum_left_def)
  have ht: "RL_HeadPtr (OSRdyList s q) = RL_TailPtr (OSRdyList s q) \<longleftrightarrow> xs = []"
    using dll_head_eq_tail [OF rdy_listsD(1) [OF rdy_relD(1) [OF R] q]] xs by simp
  show ?thesis
  proof (cases "?c > 0 \<or> xs = [] \<or> OSSchedLockNestingCtr s > 0")
    case True
    then have "OS_SchedRoundRobin q s = Some ?s"
      using s h ht en idle by (auto simp: OS_SchedRoundRobin_def rdy_list_Some q)
    with True R' show ?thesis by simp
  next
    case False
    then obtain y ys where y: "xs = y # ys" by (cases xs) auto
    from OS_RdyListMoveHeadToTail_rel [OF R' q] xs
    obtain n p rl tbl where m: "OS_RdyListMoveHeadToTail q ?s = Some (upd_rdy n p rl tbl ?s)"
        "rdy_rel (upd_rdy n p rl tbl ?s) (R(q := xs @ [x]))"
      by (auto elim: rdy_okE)
    let ?s2 = "upd_rdy n p rl tbl ?s"
    have h2: "RL_HeadPtr (rl q) = Some y" using rdy_rel_head [OF m(2) q] y by simp
    have xy: "y \<noteq> x" using rdy_rel_distinct [OF R, of q] xs y by auto
    have run: "OS_SchedRoundRobin q s = reload_quantum (Some y) ?s2"
      using s h ht en idle False m(1) h2 y by (simp add: OS_SchedRoundRobin_def rdy_list_Some q)
    let ?v = "if TimeQuanta (OSTCBs s y) = 0 then OSSchedRoundRobinDfltTimeQuanta s
      else TimeQuanta (OSTCBs s y)"
    let ?s3 = "?s2\<lparr>OSTCBs := (OSTCBs ?s2)(y := (OSTCBs ?s2 y)\<lparr>TimeQuantaCtr := ?v\<rparr>)\<rparr>"
    have "reload_quantum (Some y) ?s2 = Some ?s3"
      using xy by (auto simp: reload_quantum_def set_tcb_Some)
    moreover have "rdy_rel ?s3 (R(q := xs @ [x]))"
      using m(2) by (subst rdy_rel_cong [of _ ?s2]) auto
    ultimately show ?thesis using False y run by auto
  qed
qed

section \<open>The interface of the ready list\<close>

text \<open>What the scheduler and the operations that ready or block a task rely on.\<close>

locale ready_queue =
  fixes ins rem :: "nat \<Rightarrow> 's \<Rightarrow> 's option"
    and select :: "'s \<Rightarrow> (u8 \<times> ptr) option"
    and rel :: "'s \<Rightarrow> (u8 \<Rightarrow> nat list) \<Rightarrow> bool"
    and prio_of :: "'s \<Rightarrow> nat \<Rightarrow> u8"
    and lim :: nat
  assumes ins: "rel s R \<Longrightarrow> unat (prio_of s x) < lim \<Longrightarrow> x \<notin> set (R (prio_of s x)) \<Longrightarrow>
      \<exists>s' xs. ins x s = Some s' \<and> rel s' (R(prio_of s x := xs)) \<and> prio_of s' = prio_of s \<and>
        (xs = x # R (prio_of s x) \<or> xs = R (prio_of s x) @ [x])"
    and rem: "rel s R \<Longrightarrow> R q = as @ x # bs \<Longrightarrow>
      \<exists>s'. rem x s = Some s' \<and> rel s' (R(q := as @ bs)) \<and> prio_of s' = prio_of s"
    and select: "rel s R \<Longrightarrow> R q \<noteq> [] \<Longrightarrow>
      \<exists>p x xs. select s = Some (p, Some x) \<and> R p = x # xs \<and> (\<forall>r. R r \<noteq> [] \<longrightarrow> p \<le> r)"
    and prio: "rel s R \<Longrightarrow> x \<in> set (R p) \<Longrightarrow> prio_of s x = p"
begin

text \<open>The selected task is ready, and no ready task has a higher priority.\<close>

lemma select_best:
  assumes "rel s R" and "select s = Some (p, Some x)" and "y \<in> set (R q)"
  shows "x \<in> set (R p) \<and> prio_of s x \<le> prio_of s y"
proof -
  from assms(3) have "R q \<noteq> []" by auto
  with select [OF assms(1) this] assms(2)
  have *: "x \<in> set (R p)" "p \<le> q" by auto
  then show ?thesis using prio [OF assms(1)] assms(3) by auto
qed

text \<open>A task that becomes ready above all others is selected next.\<close>

lemma ins_preempts:
  assumes "rel s R" and "unat (prio_of s x) < lim" and "\<And>q. R q \<noteq> [] \<Longrightarrow> prio_of s x < q"
    and "ins x s = Some s'"
  shows "select s' = Some (prio_of s x, Some x)"
proof -
  from assms(3) have e: "R (prio_of s x) = []" by fastforce
  with ins [OF assms(1,2)] assms(4) have r: "rel s' (R(prio_of s x := [x]))" by auto
  from select [OF r, of "prio_of s x"] obtain p y ys where
    p: "select s' = Some (p, Some y)" "(R(prio_of s x := [x])) p = y # ys"
      "\<forall>q. (R(prio_of s x := [x])) q \<noteq> [] \<longrightarrow> p \<le> q" by auto
  from p(3) have "p \<le> prio_of s x" by (metis fun_upd_same list.distinct(1))
  with p(2) assms(3) have "p = prio_of s x" by (metis fun_upd_other leD list.distinct(1))
  with p show ?thesis by simp
qed

text \<open>Blocking a task that has just been readied gives the lists back.\<close>

lemma ins_rem:
  assumes "rel s R" and "unat (prio_of s x) < lim" and "x \<notin> set (R (prio_of s x))"
    and "ins x s = Some s'"
  shows "\<exists>s''. rem x s' = Some s'' \<and> rel s'' R"
proof -
  let ?p = "prio_of s x"
  from ins [OF assms(1-3)] assms(4) obtain xs where
    xs: "rel s' (R(?p := xs))" "xs = x # R ?p \<or> xs = R ?p @ [x]" by auto
  then obtain as bs where ab: "xs = as @ x # bs" "as @ bs = R ?p"
    by (metis append_Nil append_Nil2)
  from rem [OF xs(1), of ?p as x bs] ab show ?thesis by auto
qed

end

interpretation rdyq: ready_queue "\<lambda>x. OS_RdyListInsert (Some x)" "\<lambda>x. OS_RdyListRemove (Some x)"
  sched_select rdy_rel "\<lambda>s x. Prio (OSTCBs s x)" OS_CFG_PRIO_MAX
proof unfold_locales
  fix s R x
  assume "rdy_rel s R" "unat (Prio (OSTCBs s x)) < OS_CFG_PRIO_MAX"
    "x \<notin> set (R (Prio (OSTCBs s x)))"
  from OS_RdyListInsert_spec [OF this(1) refl this(2,3)]
  show "\<exists>s' xs. OS_RdyListInsert (Some x) s = Some s' \<and> rdy_rel s' (R(Prio (OSTCBs s x) := xs)) \<and>
      (\<lambda>x. Prio (OSTCBs s' x)) = (\<lambda>x. Prio (OSTCBs s x)) \<and>
      (xs = x # R (Prio (OSTCBs s x)) \<or> xs = R (Prio (OSTCBs s x)) @ [x])"
    by (elim rdy_okE) (auto split: if_splits)
next
  fix s and R :: "u8 \<Rightarrow> nat list" and q as x bs
  assume "rdy_rel s R" "R q = as @ x # bs"
  from OS_RdyListRemove_spec [OF this]
  show "\<exists>s'. OS_RdyListRemove (Some x) s = Some s' \<and> rdy_rel s' (R(q := as @ bs)) \<and>
      (\<lambda>x. Prio (OSTCBs s' x)) = (\<lambda>x. Prio (OSTCBs s x))"
    by (elim rdy_okE) auto
next
  fix s and R :: "u8 \<Rightarrow> nat list" and q
  assume "rdy_rel s R" "R q \<noteq> []"
  from sched_select_spec [OF this]
  show "\<exists>p x xs. sched_select s = Some (p, Some x) \<and> R p = x # xs \<and> (\<forall>r. R r \<noteq> [] \<longrightarrow> p \<le> r)"
    by metis
next
  fix s R x p assume "rdy_rel s R" "x \<in> set (R p)"
  then show "Prio (OSTCBs s x) = p" by (rule rdy_rel_prio)
qed

end
