(* ===== verification/Os_PendList.thy ===== *)
theory Os_PendList
  imports Kernel_Types Dll
begin

text \<open>
  The pend lists (\<open>os_core.c\<close>): every kernel object has a doubly linked list of the tasks that
  wait for it, threaded through \<open>PendNextPtr\<close> and \<open>PendPrevPtr\<close>, most urgent task first and
  in order of arrival among equal priorities. A pointer to a pend list is the address of the
  object it is a field of. \<open>pend_lists\<close> relates the state to a list of tasks per object.
\<close>

section \<open>Operations\<close>

definition OS_PendListInit :: "ptr \<Rightarrow> kernel \<Rightarrow> kernel option" where
  [kops]: "OS_PendListInit p_pend_list s = do {
     s \<leftarrow> set_pend_list p_pend_list (\<lambda>l. l\<lparr>PL_HeadPtr := None\<rparr>) s;
     s \<leftarrow> set_pend_list p_pend_list (\<lambda>l. l\<lparr>PL_TailPtr := None\<rparr>) s;
     set_pend_list p_pend_list (\<lambda>l. l\<lparr>PL_NbrEntries := 0\<rparr>) s
   }"

text \<open>The loop of \<open>OS_PendListInsertPrio\<close>: the first task from \<open>p\<close> on with a lower priority
  (a greater number) than \<open>prio\<close>, or null.\<close>

partial_function (option) pend_scan :: "u8 \<Rightarrow> ptr \<Rightarrow> kernel \<Rightarrow> ptr option" where
  "pend_scan prio p_tcb_next s =
     (case p_tcb_next of
        None \<Rightarrow> Some None
      | Some a \<Rightarrow> if prio < Prio (OSTCBs s a) then Some p_tcb_next
                 else pend_scan prio (PendNextPtr (OSTCBs s a)) s)"

definition OS_PendListInsertPrio :: "ptr \<Rightarrow> ptr \<Rightarrow> kernel \<Rightarrow> kernel option" where
  [kops]: "OS_PendListInsertPrio p_pend_list p_tcb s = do {
     t \<leftarrow> tcb s p_tcb;
     let prio = Prio t;
     l \<leftarrow> pend_list s p_pend_list;
     if PL_HeadPtr l = None then do {
       s \<leftarrow> set_pend_list p_pend_list (\<lambda>l. l\<lparr>PL_NbrEntries := 1\<rparr>) s;
       s \<leftarrow> set_tcb p_tcb (\<lambda>t. t\<lparr>PendNextPtr := None\<rparr>) s;
       s \<leftarrow> set_tcb p_tcb (\<lambda>t. t\<lparr>PendPrevPtr := None\<rparr>) s;
       s \<leftarrow> set_pend_list p_pend_list (\<lambda>l. l\<lparr>PL_HeadPtr := p_tcb\<rparr>) s;
       set_pend_list p_pend_list (\<lambda>l. l\<lparr>PL_TailPtr := p_tcb\<rparr>) s
     } else do {
       s \<leftarrow> set_pend_list p_pend_list (\<lambda>l. l\<lparr>PL_NbrEntries := PL_NbrEntries l + 1\<rparr>) s;
       p_tcb_next \<leftarrow> pend_scan prio (PL_HeadPtr l) s;
       if p_tcb_next = None then do {
         s \<leftarrow> set_tcb p_tcb (\<lambda>t. t\<lparr>PendNextPtr := None\<rparr>) s;
         s \<leftarrow> set_tcb p_tcb (\<lambda>t. t\<lparr>PendPrevPtr := PL_TailPtr l\<rparr>) s;
         s \<leftarrow> set_tcb (PL_TailPtr l) (\<lambda>t. t\<lparr>PendNextPtr := p_tcb\<rparr>) s;
         set_pend_list p_pend_list (\<lambda>l. l\<lparr>PL_TailPtr := p_tcb\<rparr>) s
       } else do {
         t_next \<leftarrow> tcb s p_tcb_next;
         if PendPrevPtr t_next = None then do {
           s \<leftarrow> set_tcb p_tcb (\<lambda>t. t\<lparr>PendNextPtr := p_tcb_next\<rparr>) s;
           s \<leftarrow> set_tcb p_tcb (\<lambda>t. t\<lparr>PendPrevPtr := None\<rparr>) s;
           s \<leftarrow> set_tcb p_tcb_next (\<lambda>t. t\<lparr>PendPrevPtr := p_tcb\<rparr>) s;
           set_pend_list p_pend_list (\<lambda>l. l\<lparr>PL_HeadPtr := p_tcb\<rparr>) s
         } else do {
           s \<leftarrow> set_tcb p_tcb (\<lambda>t. t\<lparr>PendNextPtr := p_tcb_next\<rparr>) s;
           s \<leftarrow> set_tcb p_tcb (\<lambda>t. t\<lparr>PendPrevPtr := PendPrevPtr t_next\<rparr>) s;
           s \<leftarrow> set_tcb (PendPrevPtr t_next) (\<lambda>t. t\<lparr>PendNextPtr := p_tcb\<rparr>) s;
           set_tcb p_tcb_next (\<lambda>t. t\<lparr>PendPrevPtr := p_tcb\<rparr>) s
         }
       }
     }
   }"

definition OS_PendListRemove :: "ptr \<Rightarrow> kernel \<Rightarrow> kernel option" where
  [kops]: "OS_PendListRemove p_tcb s = do {
     t \<leftarrow> tcb s p_tcb;
     if PendObjPtr t \<noteq> None then do {
       let p_pend_list = PendObjPtr t;
       l \<leftarrow> pend_list s p_pend_list;
       h \<leftarrow> tcb s (PL_HeadPtr l);
       s \<leftarrow>
         (if PendNextPtr h = None then do {
            s \<leftarrow> set_pend_list p_pend_list (\<lambda>l. l\<lparr>PL_HeadPtr := None\<rparr>) s;
            set_pend_list p_pend_list (\<lambda>l. l\<lparr>PL_TailPtr := None\<rparr>) s
          } else if PendPrevPtr t = None then do {
            let p_next = PendNextPtr t;
            s \<leftarrow> set_tcb p_next (\<lambda>t. t\<lparr>PendPrevPtr := None\<rparr>) s;
            set_pend_list p_pend_list (\<lambda>l. l\<lparr>PL_HeadPtr := p_next\<rparr>) s
          } else if PendNextPtr t = None then do {
            let p_prev = PendPrevPtr t;
            s \<leftarrow> set_tcb p_prev (\<lambda>t. t\<lparr>PendNextPtr := None\<rparr>) s;
            set_pend_list p_pend_list (\<lambda>l. l\<lparr>PL_TailPtr := p_prev\<rparr>) s
          } else do {
            let p_prev = PendPrevPtr t;
            let p_next = PendNextPtr t;
            s \<leftarrow> set_tcb p_prev (\<lambda>t. t\<lparr>PendNextPtr := p_next\<rparr>) s;
            set_tcb p_next (\<lambda>t. t\<lparr>PendPrevPtr := p_prev\<rparr>) s
          });
       s \<leftarrow> set_pend_list p_pend_list (\<lambda>l. l\<lparr>PL_NbrEntries := PL_NbrEntries l - 1\<rparr>) s;
       s \<leftarrow> set_tcb p_tcb (\<lambda>t. t\<lparr>PendNextPtr := None\<rparr>) s;
       s \<leftarrow> set_tcb p_tcb (\<lambda>t. t\<lparr>PendPrevPtr := None\<rparr>) s;
       set_tcb p_tcb (\<lambda>t. t\<lparr>PendObjPtr := None\<rparr>) s
     } else Some s
   }"

definition OS_PendListChangePrio :: "ptr \<Rightarrow> kernel \<Rightarrow> kernel option" where
  [kops]: "OS_PendListChangePrio p_tcb s = do {
     t \<leftarrow> tcb s p_tcb;
     let p_obj = PendObjPtr t;
     l \<leftarrow> pend_list s p_obj;
     h \<leftarrow> tcb s (PL_HeadPtr l);
     if PendNextPtr h \<noteq> None then do {
       s \<leftarrow> OS_PendListRemove p_tcb s;
       s \<leftarrow> set_tcb p_tcb (\<lambda>t. t\<lparr>PendObjPtr := p_obj\<rparr>) s;
       OS_PendListInsertPrio p_obj p_tcb s
     } else Some s
   }"

section \<open>Lists in the state\<close>

definition pnxt :: "kernel \<Rightarrow> nat \<Rightarrow> ptr" where "pnxt s = (\<lambda>a. PendNextPtr (OSTCBs s a))"
definition pprv :: "kernel \<Rightarrow> nat \<Rightarrow> ptr" where "pprv s = (\<lambda>a. PendPrevPtr (OSTCBs s a))"
definition pobj :: "kernel \<Rightarrow> nat \<Rightarrow> ptr" where "pobj s = (\<lambda>a. PendObjPtr (OSTCBs s a))"
definition plist :: "kernel \<Rightarrow> nat \<Rightarrow> OS_PEND_LIST" where "plist s = (\<lambda>b. PendList (OSObjs s b))"

lemma pend_folds:
  "PendNextPtr (OSTCBs s a) = pnxt s a" "PendPrevPtr (OSTCBs s a) = pprv s a"
  "PendObjPtr (OSTCBs s a) = pobj s a" "PendList (OSObjs s b) = plist s b"
  by (simp_all add: pnxt_def pprv_def pobj_def plist_def)

text \<open>The part of the state the pend list operations write.\<close>

definition upd_pend :: "(nat \<Rightarrow> ptr) \<Rightarrow> (nat \<Rightarrow> ptr) \<Rightarrow> (nat \<Rightarrow> ptr) \<Rightarrow> (nat \<Rightarrow> OS_PEND_LIST) \<Rightarrow>
    kernel \<Rightarrow> kernel" where
  "upd_pend n p po pl s = s\<lparr>
     OSTCBs := (\<lambda>a. (OSTCBs s a)\<lparr>PendNextPtr := n a, PendPrevPtr := p a, PendObjPtr := po a\<rparr>),
     OSObjs := (\<lambda>b. (OSObjs s b)\<lparr>PendList := pl b\<rparr>)\<rparr>"

lemma upd_pend_sel [simp]:
  "OSTCBs (upd_pend n p po pl s) a =
     (OSTCBs s a)\<lparr>PendNextPtr := n a, PendPrevPtr := p a, PendObjPtr := po a\<rparr>"
  "OSObjs (upd_pend n p po pl s) b = (OSObjs s b)\<lparr>PendList := pl b\<rparr>"
  "OSRdyList (upd_pend n p po pl s) = OSRdyList s"
  "OSPrioTbl (upd_pend n p po pl s) = OSPrioTbl s"
  "OSSems (upd_pend n p po pl s) = OSSems s"
  "OSMutexes (upd_pend n p po pl s) = OSMutexes s"
  "OSQs (upd_pend n p po pl s) = OSQs s"
  "OSFlagGrps (upd_pend n p po pl s) = OSFlagGrps s"
  "OSMsgs (upd_pend n p po pl s) = OSMsgs s"
  "OSMsgPool (upd_pend n p po pl s) = OSMsgPool s"
  "OSTickList (upd_pend n p po pl s) = OSTickList s"
  "OSTickCtr (upd_pend n p po pl s) = OSTickCtr s"
  "OSTCBCurPtr (upd_pend n p po pl s) = OSTCBCurPtr s"
  "OSTCBHighRdyPtr (upd_pend n p po pl s) = OSTCBHighRdyPtr s"
  "OSPrioCur (upd_pend n p po pl s) = OSPrioCur s"
  "OSPrioHighRdy (upd_pend n p po pl s) = OSPrioHighRdy s"
  "OSRunning (upd_pend n p po pl s) = OSRunning s"
  "OSInitialized (upd_pend n p po pl s) = OSInitialized s"
  "OSIntNestingCtr (upd_pend n p po pl s) = OSIntNestingCtr s"
  "OSSchedLockNestingCtr (upd_pend n p po pl s) = OSSchedLockNestingCtr s"
  "OSSchedRoundRobinEn (upd_pend n p po pl s) = OSSchedRoundRobinEn s"
  "pnxt (upd_pend n p po pl s) = n" "pprv (upd_pend n p po pl s) = p"
  "pobj (upd_pend n p po pl s) = po" "plist (upd_pend n p po pl s) = pl"
  by (simp_all add: upd_pend_def pnxt_def pprv_def pobj_def plist_def)

lemma upd_pend_upd_pend [simp]:
  "upd_pend n p po pl (upd_pend n' p' po' pl' s) = upd_pend n p po pl s"
  by (simp add: upd_pend_def)

lemma upd_pend_id [simp]: "upd_pend (pnxt s) (pprv s) (pobj s) (plist s) s = s"
  by (simp add: upd_pend_def pnxt_def pprv_def pobj_def plist_def)

lemma set_PendNextPtr: "set_tcb (Some x) (PendNextPtr_update (\<lambda>_. v)) s =
    Some (upd_pend ((pnxt s)(x := v)) (pprv s) (pobj s) (plist s) s)"
  by (auto simp: set_tcb_def upd_pend_def pnxt_def pprv_def pobj_def plist_def fun_eq_iff)

lemma set_PendPrevPtr: "set_tcb (Some x) (PendPrevPtr_update (\<lambda>_. v)) s =
    Some (upd_pend (pnxt s) ((pprv s)(x := v)) (pobj s) (plist s) s)"
  by (auto simp: set_tcb_def upd_pend_def pnxt_def pprv_def pobj_def plist_def fun_eq_iff)

lemma set_PendObjPtr: "set_tcb (Some x) (PendObjPtr_update (\<lambda>_. v)) s =
    Some (upd_pend (pnxt s) (pprv s) ((pobj s)(x := v)) (plist s) s)"
  by (auto simp: set_tcb_def upd_pend_def pnxt_def pprv_def pobj_def plist_def fun_eq_iff)

lemma set_plist: "set_pend_list (Some b) f s =
    Some (upd_pend (pnxt s) (pprv s) (pobj s) ((plist s)(b := f (plist s b))) s)"
  by (auto simp: set_pend_list_def set_obj_def upd_pend_def pnxt_def pprv_def pobj_def plist_def
      fun_eq_iff)

lemma pend_list_Some: "pend_list s (Some b) = Some (plist s b)"
  by (simp add: pend_list_def plist_def)

lemmas pend_upds = pend_folds pend_list_Some set_PendNextPtr set_PendPrevPtr set_PendObjPtr set_plist

section \<open>The pend lists of a state\<close>

definition pend_lists :: "kernel \<Rightarrow> (nat \<Rightarrow> nat list) \<Rightarrow> bool" where
  "pend_lists s W \<longleftrightarrow> (\<forall>b.
     dll (pnxt s) (pprv s) (PL_HeadPtr (plist s b)) (PL_TailPtr (plist s b)) (W b) \<and>
     PL_NbrEntries (plist s b) = of_nat (length (W b)) \<and>
     (\<forall>a\<in>set (W b). pobj s a = Some b))"

abbreviation prios :: "kernel \<Rightarrow> nat \<Rightarrow> u8" where "prios s \<equiv> \<lambda>a. Prio (OSTCBs s a)"

definition pend_sorted :: "kernel \<Rightarrow> (nat \<Rightarrow> nat list) \<Rightarrow> bool" where
  "pend_sorted s W \<longleftrightarrow> (\<forall>b. sorted (map (prios s) (W b)))"

text \<open>A task joins a pend list behind the tasks of its own and of higher priorities.\<close>

definition pend_ins :: "(nat \<Rightarrow> u8) \<Rightarrow> nat \<Rightarrow> nat list \<Rightarrow> nat list" where
  "pend_ins pr x ys = takeWhile (\<lambda>y. pr y \<le> pr x) ys @ x # dropWhile (\<lambda>y. pr y \<le> pr x) ys"

lemma set_pend_ins [simp]: "set (pend_ins pr x ys) = insert x (set ys)"
  unfolding pend_ins_def using takeWhile_dropWhile_id [of _ ys]
  by (metis Un_insert_right list.simps(15) set_append)

lemma length_pend_ins [simp]: "length (pend_ins pr x ys) = Suc (length ys)"
proof -
  have "length ys = length (takeWhile (\<lambda>y. pr y \<le> pr x) ys @ dropWhile (\<lambda>y. pr y \<le> pr x) ys)"
    by (simp only: takeWhile_dropWhile_id)
  then show ?thesis by (simp only: pend_ins_def length_append list.size)
qed

lemma sorted_pend_ins:
  assumes "sorted (map pr ys)"
  shows "sorted (map pr (pend_ins pr x ys))"
  using assms
proof (induction ys)
  case (Cons y ys)
  then show ?case by (auto simp: pend_ins_def dest: set_takeWhileD set_dropWhileD)
qed (simp add: pend_ins_def)

lemma pend_listsD:
  assumes "pend_lists s W"
  shows "dll (pnxt s) (pprv s) (PL_HeadPtr (plist s b)) (PL_TailPtr (plist s b)) (W b)"
    and "PL_NbrEntries (plist s b) = of_nat (length (W b))"
    and "\<And>a. a \<in> set (W b) \<Longrightarrow> pobj s a = Some b"
  using assms by (auto simp: pend_lists_def)

lemma pend_lists_head: "pend_lists s W \<Longrightarrow> PL_HeadPtr (plist s b) = hdo (W b)"
  using pend_listsD(1) by (metis dll_def)

lemma pend_lists_upd:
  assumes W: "pend_lists s W"
    and d: "dll n p (PL_HeadPtr l) (PL_TailPtr l) xs"
    and len: "PL_NbrEntries l = of_nat (length xs)"
    and po: "\<And>a. a \<in> set xs \<Longrightarrow> po a = Some b"
    and x: "pobj s x = Some b"
    and frame: "\<And>a. a \<noteq> x \<Longrightarrow> a \<notin> set (W b) \<Longrightarrow> n a = pnxt s a \<and> p a = pprv s a \<and> po a = pobj s a"
  shows "pend_lists (upd_pend n p po ((plist s)(b := l)) s) (W(b := xs))"
proof -
  note own = pend_listsD(3) [OF W]
  have fr: "n a = pnxt s a" "p a = pprv s a" "po a = pobj s a" if "a \<in> set (W c)" "c \<noteq> b" for a c
    using own [OF that(1)] own [of a b] x frame [of a] that(2) by (cases "a \<in> set (W b)"; force)+
  have "dll n p (PL_HeadPtr (plist s c)) (PL_TailPtr (plist s c)) (W c)" if "c \<noteq> b" for c
  proof -
    have "dll n p (PL_HeadPtr (plist s c)) (PL_TailPtr (plist s c)) (W c) =
      dll (pnxt s) (pprv s) (PL_HeadPtr (plist s c)) (PL_TailPtr (plist s c)) (W c)"
      by (intro dll_cong) (simp_all add: fr that)
    then show ?thesis using pend_listsD(1) [OF W] by simp
  qed
  moreover have "po a = Some c" if "a \<in> set (W c)" "c \<noteq> b" for a c
    using own [OF that(1)] fr [OF that] by simp
  ultimately show ?thesis using pend_listsD(2) [OF W] d len po by (auto simp: pend_lists_def)
qed

definition pend_ok :: "kernel option \<Rightarrow> kernel \<Rightarrow> (nat \<Rightarrow> ptr) \<Rightarrow> (nat \<Rightarrow> nat list) \<Rightarrow> bool" where
  "pend_ok r s po W' \<longleftrightarrow>
     (\<exists>n p pl. r = Some (upd_pend n p po pl s) \<and> pend_lists (upd_pend n p po pl s) W')"

lemma pend_okE:
  assumes "pend_ok r s po W'"
  obtains n p pl where "r = Some (upd_pend n p po pl s)" "pend_lists (upd_pend n p po pl s) W'"
  using assms by (auto simp: pend_ok_def)

lemma pend_okI:
  assumes "r = Some (upd_pend n p po ((plist s)(b := l)) s)" and "pend_lists s W"
    and "dll n p (PL_HeadPtr l) (PL_TailPtr l) xs"
    and "PL_NbrEntries l = of_nat (length xs)"
    and "\<And>a. a \<in> set xs \<Longrightarrow> po a = Some b"
    and "pobj s x = Some b"
    and "\<And>a. a \<noteq> x \<Longrightarrow> a \<notin> set (W b) \<Longrightarrow> n a = pnxt s a \<and> p a = pprv s a \<and> po a = pobj s a"
  shows "pend_ok r s po (W(b := xs))"
  using pend_lists_upd [OF assms(2-7)] assms(1) unfolding pend_ok_def by blast

text \<open>The loop ends on every well-linked list, at the first task of lower priority.\<close>

lemma pend_scan_spec:
  "lnk (pnxt s) ys None \<Longrightarrow>
   pend_scan prio (hdo ys) s = Some (hdo (dropWhile (\<lambda>y. prios s y \<le> prio) ys))"
proof (induction ys)
  case Nil
  then show ?case by (simp add: pend_scan.simps)
next
  case (Cons y ys)
  from Cons.prems have "pnxt s y = hdo ys" "lnk (pnxt s) ys None" by (auto split: if_splits)
  with Cons.IH show ?case
    by (auto simp: pend_scan.simps [of prio "Some y"] pend_folds not_less)
qed

lemma dropWhile_prefix_le: "y \<in> set (takeWhile P ys) \<Longrightarrow> P y"
  by (rule set_takeWhileD [THEN conjunct2])

lemma OS_PendListInsertPrio_spec:
  assumes W: "pend_lists s W" and b: "pobj s x = Some b" and x: "x \<notin> set (W b)"
  shows "pend_ok (OS_PendListInsertPrio (Some b) (Some x) s) s (pobj s)
    (W(b := pend_ins (prios s) x (W b)))"
proof -
  note D = pend_listsD [OF W]
  let ?l = "plist s b"
  let ?P = "\<lambda>y. prios s y \<le> prios s x"
  obtain as bs where ab: "as = takeWhile ?P (W b)" "bs = dropWhile ?P (W b)" by blast
  then have Wb: "W b = as @ bs" and ins: "pend_ins (prios s) x (W b) = as @ x # bs"
    by (simp_all add: pend_ins_def)
  have d: "dll (pnxt s) (pprv s) (PL_HeadPtr ?l) (PL_TailPtr ?l) (as @ bs)"
    using D(1) [of b] Wb by simp
  have h: "PL_HeadPtr ?l = hdo (as @ bs)" and t: "PL_TailPtr ?l = hdo (rev (as @ bs))"
    using d by (simp_all add: dll_def)
  have scan: "pend_scan (prios s x) (hdo (as @ bs)) s' = Some (hdo bs)"
    if "pnxt s' = pnxt s" "\<forall>a. prios s' a = prios s a" for s'
  proof -
    have "dropWhile ?P (as @ bs) = bs" unfolding Wb [symmetric] by (rule ab(2) [symmetric])
    moreover have "lnk (pnxt s') (as @ bs) None" using d that(1) by (simp add: dll_def)
    ultimately show ?thesis using pend_scan_spec [of s' "as @ bs" "prios s x"] that(2) by simp
  qed
  have po: "pobj s a = Some b" if "a \<in> set (as @ x # bs)" for a
    using that D(3) [of _ b] b Wb by auto
  have len: "PL_NbrEntries ?l = of_nat (length (as @ bs))" using D(2) Wb by simp
  consider (nil) "as = []" "bs = []" | (tail) a as' where "as = as' @ [a]" "bs = []"
    | (head) c bs' where "as = []" "bs = c # bs'"
    | (mid) a as' c bs' where "as = as' @ [a]" "bs = c # bs'"
    by (cases as rule: rev_cases; cases bs) auto
  then show ?thesis unfolding ins
  proof cases
    case nil
    show "pend_ok (OS_PendListInsertPrio (Some b) (Some x) s) s (pobj s) (W(b := as @ x # bs))"
      by (rule pend_okI [where n = "(pnxt s)(x := None)" and p = "(pprv s)(x := None)"
            and l = "?l\<lparr>PL_NbrEntries := 1, PL_HeadPtr := Some x, PL_TailPtr := Some x\<rparr>", OF _ W _ _ _ b])
        (use nil h b in \<open>auto simp: OS_PendListInsertPrio_def Let_def pend_upds dll_insert_empty\<close>)
  next
    case tail
    then have ht: "PL_HeadPtr ?l \<noteq> None" "PL_TailPtr ?l = Some a" using h t by auto
    have d': "dll ((pnxt s)(x := None, a := Some x)) ((pprv s)(x := Some a)) (PL_HeadPtr ?l)
        (Some x) (as' @ [a, x])"
      by (rule dll_insert_tail) (use d tail x Wb ht in auto)
    show "pend_ok (OS_PendListInsertPrio (Some b) (Some x) s) s (pobj s) (W(b := as @ x # bs))"
      by (rule pend_okI [where n = "(pnxt s)(x := None, a := Some x)" and p = "(pprv s)(x := Some a)"
            and l = "?l\<lparr>PL_NbrEntries := PL_NbrEntries ?l + 1, PL_TailPtr := Some x\<rparr>", OF _ W _ _ _ b])
        (use tail h ht po d' len scan Wb in \<open>auto simp: OS_PendListInsertPrio_def Let_def pend_upds\<close>)
  next
    case head
    then have ht: "PL_HeadPtr ?l = Some c" "pprv s c = None"
      using h dll_split(2) [of _ _ _ _ "[]" c bs'] d by auto
    have cx: "c \<noteq> x" using head x Wb by auto
    have d': "dll ((pnxt s)(x := Some c)) ((pprv s)(x := None, c := Some x)) (Some x)
        (PL_TailPtr ?l) (x # c # bs')"
      by (rule dll_insert_head) (use d head x Wb ht in auto)
    show "pend_ok (OS_PendListInsertPrio (Some b) (Some x) s) s (pobj s) (W(b := as @ x # bs))"
      by (rule pend_okI [where n = "(pnxt s)(x := Some c)" and p = "(pprv s)(x := None, c := Some x)"
            and l = "?l\<lparr>PL_NbrEntries := PL_NbrEntries ?l + 1, PL_HeadPtr := Some x\<rparr>", OF _ W _ _ _ b])
        (use head h ht cx po d' len scan Wb in \<open>auto simp: OS_PendListInsertPrio_def Let_def pend_upds\<close>)
  next
    case mid
    then have ht: "PL_HeadPtr ?l \<noteq> None" "pprv s c = Some a"
      using h dll_split(2) [of _ _ _ _ "as' @ [a]" c bs'] d by auto
    have cx: "c \<noteq> x" "a \<noteq> x" "a \<noteq> c" using mid x Wb dll_distinct [OF d] by auto
    have d': "dll ((pnxt s)(x := Some c, a := Some x)) ((pprv s)(x := Some a, c := Some x))
        (PL_HeadPtr ?l) (PL_TailPtr ?l) (as' @ a # x # c # bs')"
      by (rule dll_insert_between) (use d mid x Wb in auto)
    show "pend_ok (OS_PendListInsertPrio (Some b) (Some x) s) s (pobj s) (W(b := as @ x # bs))"
      by (rule pend_okI [where n = "(pnxt s)(x := Some c, a := Some x)"
            and p = "(pprv s)(x := Some a, c := Some x)"
            and l = "?l\<lparr>PL_NbrEntries := PL_NbrEntries ?l + 1\<rparr>", OF _ W _ _ _ b])
        (use mid h ht cx po d' len scan Wb in \<open>auto simp: OS_PendListInsertPrio_def Let_def pend_upds\<close>)
  qed
qed

lemma dll_head_next:
  assumes "dll n p h t xs" and "2 \<le> length xs"
  obtains hd where "h = Some hd" "n hd \<noteq> None"
proof -
  obtain x y ys where "xs = x # y # ys"
    using assms(2) by (cases xs rule: remdups_adj.cases) auto
  with assms(1) show thesis by (intro that [of x]) (auto simp: dll_def)
qed

lemma OS_PendListInit_eq: "OS_PendListInit (Some b) s =
    Some (upd_pend (pnxt s) (pprv s) (pobj s)
      ((plist s)(b := \<lparr>PL_HeadPtr = None, PL_TailPtr = None, PL_NbrEntries = 0\<rparr>)) s)"
  by (cases "plist s b") (simp add: OS_PendListInit_def set_plist)

lemma OS_PendListInit_spec:
  assumes "pend_lists s W"
  shows "\<exists>s'. OS_PendListInit (Some b) s = Some s' \<and> pend_lists s' (W(b := []))"
  using assms by (simp add: OS_PendListInit_eq pend_lists_def)

lemma OS_PendListRemove_none: "pobj s x = None \<Longrightarrow> OS_PendListRemove (Some x) s = Some s"
  by (simp add: OS_PendListRemove_def pend_folds)

lemma OS_PendListRemove_spec:
  assumes W: "pend_lists s W" and Wb: "W b = as @ x # bs"
  shows "pend_ok (OS_PendListRemove (Some x) s) s ((pobj s)(x := None)) (W(b := as @ bs))"
proof -
  note D = pend_listsD [OF W]
  have b: "pobj s x = Some b" using D(3) Wb by simp
  let ?l = "plist s b"
  have d: "dll (pnxt s) (pprv s) (PL_HeadPtr ?l) (PL_TailPtr ?l) (as @ x # bs)"
    using D(1) [of b] Wb by simp
  have h: "PL_HeadPtr ?l = hdo (as @ x # bs)" using d by (simp add: dll_def)
  note nb = dll_split(1,2) [OF d]
  have len: "PL_NbrEntries ?l = of_nat (length (as @ bs)) + 1" using D(2) Wb by simp
  have po: "((pobj s)(x := None)) a = Some b" if "a \<in> set (as @ bs)" for a
    using that D(3) [of _ b] Wb dll_distinct [OF d] by auto
  consider (only) "as = []" "bs = []" | (head) c bs' where "as = []" "bs = c # bs'"
    | (tail) a as' where "as = as' @ [a]" "bs = []"
    | (mid) a as' c bs' where "as = as' @ [a]" "bs = c # bs'"
    by (cases as rule: rev_cases; cases bs) auto
  then show ?thesis
  proof cases
    case only
    then have n: "pnxt s x = None" using nb by simp
    show ?thesis
      by (rule pend_okI [where n = "(pnxt s)(x := None)" and p = "(pprv s)(x := None)"
            and l = "?l\<lparr>PL_HeadPtr := None, PL_TailPtr := None, PL_NbrEntries := 0\<rparr>",
            OF _ W _ _ _ b])
        (use only h b n len in \<open>auto simp: OS_PendListRemove_def Let_def pend_upds\<close>)
  next
    case head
    then have n: "pnxt s x = Some c" "pprv s x = None" "c \<noteq> x"
      using nb dll_distinct [OF d] by auto
    have d': "dll ((pnxt s)(x := None)) ((pprv s)(c := None, x := None)) (Some c)
        (PL_TailPtr ?l) (c # bs')"
      by (rule dll_remove_head) (use d head in simp)
    show ?thesis
      by (rule pend_okI [where n = "(pnxt s)(x := None)" and p = "(pprv s)(c := None, x := None)"
            and l = "?l\<lparr>PL_HeadPtr := Some c, PL_NbrEntries := PL_NbrEntries ?l - 1\<rparr>",
            OF _ W _ _ _ b])
        (use head h b n len d' po Wb in \<open>auto simp: OS_PendListRemove_def Let_def pend_upds\<close>)
  next
    case tail
    then have n: "pnxt s x = None" "pprv s x = Some a" "a \<noteq> x"
      using nb dll_distinct [OF d] by auto
    obtain hd where hd: "PL_HeadPtr ?l = Some hd" "pnxt s hd \<noteq> None"
      by (rule dll_head_next [OF d]) (use tail in simp)
    have d': "dll ((pnxt s)(a := None, x := None)) ((pprv s)(x := None)) (PL_HeadPtr ?l)
        (Some a) (as' @ [a])"
      by (rule dll_remove_tail) (use d tail in simp)
    show ?thesis
      by (rule pend_okI [where n = "(pnxt s)(a := None, x := None)" and p = "(pprv s)(x := None)"
            and l = "?l\<lparr>PL_TailPtr := Some a, PL_NbrEntries := PL_NbrEntries ?l - 1\<rparr>",
            OF _ W _ _ _ b])
        (use tail hd b n len d' po Wb in \<open>auto simp: OS_PendListRemove_def Let_def pend_upds\<close>)
  next
    case mid
    then have n: "pnxt s x = Some c" "pprv s x = Some a" "a \<noteq> x" "c \<noteq> x" "a \<noteq> c"
      using nb dll_distinct [OF d] by auto
    obtain hd where hd: "PL_HeadPtr ?l = Some hd" "pnxt s hd \<noteq> None"
      by (rule dll_head_next [OF d]) (use mid in simp)
    have d': "dll ((pnxt s)(a := Some c, x := None)) ((pprv s)(c := Some a, x := None))
        (PL_HeadPtr ?l) (PL_TailPtr ?l) (as' @ a # c # bs')"
      by (rule dll_remove_between) (use d mid in simp)
    show ?thesis
      by (rule pend_okI [where n = "(pnxt s)(a := Some c, x := None)"
            and p = "(pprv s)(c := Some a, x := None)"
            and l = "?l\<lparr>PL_NbrEntries := PL_NbrEntries ?l - 1\<rparr>", OF _ W _ _ _ b])
        (use mid hd b n len d' po Wb in \<open>auto simp: OS_PendListRemove_def Let_def pend_upds\<close>)
  qed
qed

lemma remove1_middle: "distinct (as @ x # bs) \<Longrightarrow> remove1 x (as @ x # bs) = as @ bs"
  by (simp add: remove1_append)

text \<open>After a change of the priority of a waiting task its list is in order again.\<close>

lemma OS_PendListChangePrio_spec:
  assumes W: "pend_lists s W" and x: "x \<in> set (W b)"
  shows "pend_ok (OS_PendListChangePrio (Some x) s) s (pobj s)
    (W(b := pend_ins (prios s) x (remove1 x (W b))))"
proof -
  note D = pend_listsD [OF W]
  have b: "pobj s x = Some b" using D(3) x by simp
  obtain as bs where Wb: "W b = as @ x # bs" using x by (meson split_list)
  have dist: "distinct (as @ x # bs)" using dll_distinct D(1) Wb by metis
  have rm: "remove1 x (W b) = as @ bs" using dist Wb by (simp add: remove1_middle)
  have hd: "PL_HeadPtr (plist s b) = hdo (W b)" using pend_lists_head [OF W] .
  obtain h ys where hy: "W b = h # ys" using x by (cases "W b") simp_all
  with hd have h: "PL_HeadPtr (plist s b) = Some h" "W b = h # ys" by simp_all
  have nh: "pnxt s h = hdo ys" using D(1) [of b] h by (auto simp: dll_def)
  show ?thesis
  proof (cases ys)
    case Nil
    with h Wb have "W b = [x]" by (cases as) auto
    then have "W(b := pend_ins (prios s) x (remove1 x (W b))) = W" by (auto simp: pend_ins_def)
    moreover have "OS_PendListChangePrio (Some x) s = Some s"
      using h nh Nil b by (simp add: OS_PendListChangePrio_def pend_upds)
    ultimately show ?thesis using W unfolding pend_ok_def by (metis upd_pend_id)
  next
    case (Cons y ys')
    from OS_PendListRemove_spec [OF W Wb] obtain n p pl where
      r: "OS_PendListRemove (Some x) s = Some (upd_pend n p ((pobj s)(x := None)) pl s)"
      "pend_lists (upd_pend n p ((pobj s)(x := None)) pl s) (W(b := as @ bs))"
      by (elim pend_okE)
    let ?s = "upd_pend n p (pobj s) pl s"
    have po: "(pobj s)(x := Some b) = pobj s" using b by auto
    have s: "set_tcb (Some x) (PendObjPtr_update (\<lambda>_. Some b))
        (upd_pend n p ((pobj s)(x := None)) pl s) = Some ?s"
      by (simp add: set_PendObjPtr po)
    have nx: "a \<noteq> x" if "a \<in> set ((W(b := as @ bs)) c)" for a c
      using pend_listsD(3) [OF r(2) that] by auto
    have W': "pend_lists ?s (W(b := as @ bs))"
      unfolding pend_lists_def
    proof (intro allI conjI ballI)
      fix c a
      show "dll (pnxt ?s) (pprv ?s) (PL_HeadPtr (plist ?s c)) (PL_TailPtr (plist ?s c))
          ((W(b := as @ bs)) c)"
        using pend_listsD(1) [OF r(2), of c] by simp
      show "PL_NbrEntries (plist ?s c) = of_nat (length ((W(b := as @ bs)) c))"
        using pend_listsD(2) [OF r(2), of c] by simp
      assume "a \<in> set ((W(b := as @ bs)) c)"
      then show "pobj ?s a = Some c" using pend_listsD(3) [OF r(2), of a c] nx by simp
    qed
    from OS_PendListInsertPrio_spec [OF W', of x b] b dist
    have "pend_ok (OS_PendListInsertPrio (Some b) (Some x) ?s) ?s (pobj s)
        (W(b := pend_ins (prios s) x (as @ bs)))" by simp
    moreover have "OS_PendListChangePrio (Some x) s = OS_PendListInsertPrio (Some b) (Some x) ?s"
      using h nh Cons b r(1) s by (simp add: OS_PendListChangePrio_def pend_upds)
    ultimately show ?thesis unfolding pend_ok_def rm by simp
  qed
qed

section \<open>The interface of the pend lists\<close>

text \<open>What the kernel services rely on: a priority queue per object that keeps the order of
  arrival among equals, with removal of any member.\<close>

locale wait_queue =
  fixes join :: "nat \<Rightarrow> nat \<Rightarrow> 's \<Rightarrow> 's option"
    and leave :: "nat \<Rightarrow> 's \<Rightarrow> 's option"
    and rel :: "'s \<Rightarrow> (nat \<Rightarrow> nat list) \<Rightarrow> bool"
    and prio_of :: "'s \<Rightarrow> nat \<Rightarrow> u8"
    and waits_on :: "'s \<Rightarrow> nat \<Rightarrow> ptr"
  assumes join: "rel s W \<Longrightarrow> waits_on s x = Some b \<Longrightarrow> x \<notin> set (W b) \<Longrightarrow>
      \<exists>s'. join b x s = Some s' \<and> rel s' (W(b := pend_ins (prio_of s) x (W b))) \<and>
        prio_of s' = prio_of s"
    and leave: "rel s W \<Longrightarrow> W b = as @ x # bs \<Longrightarrow>
      \<exists>s'. leave x s = Some s' \<and> rel s' (W(b := as @ bs)) \<and> prio_of s' = prio_of s"
begin

text \<open>A list in order of priority stays so, and the joining task is served after every
  waiting task of its own priority.\<close>

lemma join_sorted:
  assumes "rel s W" and "waits_on s x = Some b" and "x \<notin> set (W b)"
    and "sorted (map (prio_of s) (W b))" and "join b x s = Some s'"
  shows "\<exists>W'. rel s' W' \<and> sorted (map (prio_of s') (W' b)) \<and> set (W' b) = insert x (set (W b))"
  using join [OF assms(1-3)] assms(4,5) sorted_pend_ins [of "prio_of s" "W b" x]
  by (intro exI [of _ "W(b := pend_ins (prio_of s) x (W b))"]) auto

lemma join_after_equals:
  assumes "rel s W" and "waits_on s x = Some b" and "x \<notin> set (W b)" and "join b x s = Some s'"
  shows "\<exists>W' as bs. rel s' W' \<and> W' b = as @ x # bs \<and> W b = as @ bs \<and>
    (\<forall>y\<in>set as. prio_of s y \<le> prio_of s x) \<and> (bs \<noteq> [] \<longrightarrow> prio_of s x < prio_of s (hd bs))"
proof -
  let ?P = "\<lambda>y. prio_of s y \<le> prio_of s x"
  have "bs \<noteq> [] \<longrightarrow> prio_of s x < prio_of s (hd bs)" if "bs = dropWhile ?P (W b)" for bs
    using hd_dropWhile [of ?P "W b"] that by (auto simp: not_le)
  then show ?thesis using join [OF assms(1-3)] assms(4)
    by (intro exI [of _ "W(b := pend_ins (prio_of s) x (W b))"] exI [of _ "takeWhile ?P (W b)"]
        exI [of _ "dropWhile ?P (W b)"])
      (auto simp: pend_ins_def dest: set_takeWhileD)
qed

lemma serve_head:
  assumes "rel s W" and "W b = x # xs" and "sorted (map (prio_of s) (W b))"
  shows "\<exists>s'. leave x s = Some s' \<and> rel s' (W(b := xs)) \<and>
    (\<forall>y\<in>set xs. prio_of s' x \<le> prio_of s' y) \<and> sorted (map (prio_of s') xs)"
  using leave [OF assms(1), of b "[]" x xs] assms(2,3) by auto

end

interpretation pendq: wait_queue "\<lambda>b x. OS_PendListInsertPrio (Some b) (Some x)"
  "\<lambda>x. OS_PendListRemove (Some x)" pend_lists prios pobj
proof unfold_locales
  fix s W x b assume "pend_lists s W" "pobj s x = Some b" "x \<notin> set (W b)"
  from OS_PendListInsertPrio_spec [OF this]
  show "\<exists>s'. OS_PendListInsertPrio (Some b) (Some x) s = Some s' \<and>
      pend_lists s' (W(b := pend_ins (prios s) x (W b))) \<and> prios s' = prios s"
    by (elim pend_okE) auto
next
  fix s and W :: "nat \<Rightarrow> nat list" and b as x bs
  assume "pend_lists s W" "W b = as @ x # bs"
  from OS_PendListRemove_spec [OF this]
  show "\<exists>s'. OS_PendListRemove (Some x) s = Some s' \<and> pend_lists s' (W(b := as @ bs)) \<and>
      prios s' = prios s"
    by (elim pend_okE) auto
qed

end
