(* ===== verification/Os_Tick.thy ===== *)
theory Os_Tick
  imports Os_Rdy Os_PendList
begin

text \<open>
  The tick list (\<open>os_tick.c\<close>): the tasks that wait for a time, in order of expiry, threaded
  through \<open>TickNextPtr\<close> and \<open>TickPrevPtr\<close>. Each node stores in \<open>TickRemain\<close> the ticks between
  its expiry and that of the node before it (a delta list). \<open>due\<close> reads the time to expiry of
  a task off the list; the operations are specified by what they do to these times.
\<close>

section \<open>Operations\<close>

definition OS_TickInit :: "kernel \<Rightarrow> kernel" where
  "OS_TickInit s = s\<lparr>OSTickCtr := 0, OSTickList := (OSTickList s)\<lparr>TL_TCB_Ptr := None,
     TL_NbrEntries := 0, TL_NbrUpdated := 0\<rparr>\<rparr>"

definition set_tick_list :: "(OS_TICK_LIST \<Rightarrow> OS_TICK_LIST) \<Rightarrow> kernel \<Rightarrow> kernel" where
  "set_tick_list f s = s\<lparr>OSTickList := f (OSTickList s)\<rparr>"

text \<open>The loop of \<open>OS_TickListInsert\<close>: the ticks left, the last node passed and the node in
  front of which the loop stops.\<close>

partial_function (option) tick_scan ::
  "u32 \<Rightarrow> ptr \<Rightarrow> ptr \<Rightarrow> kernel \<Rightarrow> (u32 \<times> ptr \<times> ptr) option" where
  "tick_scan delta p_tcb1 p_tcb2 s =
     (case p_tcb2 of
        None \<Rightarrow> Some (delta, p_tcb1, None)
      | Some b \<Rightarrow>
          if delta \<ge> TickRemain (OSTCBs s b)
          then tick_scan (delta - TickRemain (OSTCBs s b)) p_tcb2 (TickNextPtr (OSTCBs s b)) s
          else Some (delta, p_tcb1, p_tcb2))"

definition OS_TickListInsert ::
  "ptr \<Rightarrow> u32 \<Rightarrow> u32 \<Rightarrow> u32 \<Rightarrow> kernel \<Rightarrow> (bool \<times> kernel) option" where
  "OS_TickListInsert p_tcb elapsed tick_base time s =
     (let delta = (time + tick_base) - (OSTickCtr s + elapsed) in
      if delta = 0 then do {
        s \<leftarrow> set_tcb p_tcb (\<lambda>t. t\<lparr>TickRemain := 0\<rparr>) s;
        Some (False, s)
      } else if TL_TCB_Ptr (OSTickList s) = None then do {
        s \<leftarrow> set_tcb p_tcb (\<lambda>t. t\<lparr>TickRemain := delta\<rparr>) s;
        s \<leftarrow> set_tcb p_tcb (\<lambda>t. t\<lparr>TickNextPtr := None\<rparr>) s;
        s \<leftarrow> set_tcb p_tcb (\<lambda>t. t\<lparr>TickPrevPtr := None\<rparr>) s;
        let s = set_tick_list (\<lambda>l. l\<lparr>TL_TCB_Ptr := p_tcb\<rparr>) s;
        let s = set_tick_list (\<lambda>l. l\<lparr>TL_NbrEntries := 1\<rparr>) s;
        Some (True, s)
      } else do {
        let s = set_tick_list (\<lambda>l. l\<lparr>TL_NbrEntries := TL_NbrEntries l + 1\<rparr>) s;
        let p_tcb2 = TL_TCB_Ptr (OSTickList s);
        t2 \<leftarrow> tcb s p_tcb2;
        let remain = TickRemain t2 - elapsed;
        if delta < remain \<and> TickPrevPtr t2 = None then do {
          s \<leftarrow> set_tcb p_tcb (\<lambda>t. t\<lparr>TickRemain := delta\<rparr>) s;
          s \<leftarrow> set_tcb p_tcb2 (\<lambda>t. t\<lparr>TickRemain := remain - delta\<rparr>) s;
          s \<leftarrow> set_tcb p_tcb (\<lambda>t. t\<lparr>TickPrevPtr := None\<rparr>) s;
          s \<leftarrow> set_tcb p_tcb (\<lambda>t. t\<lparr>TickNextPtr := p_tcb2\<rparr>) s;
          s \<leftarrow> set_tcb p_tcb2 (\<lambda>t. t\<lparr>TickPrevPtr := p_tcb\<rparr>) s;
          let s = set_tick_list (\<lambda>l. l\<lparr>TL_TCB_Ptr := p_tcb\<rparr>) s;
          Some (True, s)
        } else do {
          (delta, p_tcb1, p_tcb2) \<leftarrow> tick_scan (delta - remain) p_tcb2 (TickNextPtr t2) s;
          s \<leftarrow>
            (if p_tcb2 \<noteq> None then do {
               t2 \<leftarrow> tcb s p_tcb2;
               let p_tcb1 = TickPrevPtr t2;
               s \<leftarrow> set_tcb p_tcb (\<lambda>t. t\<lparr>TickRemain := delta\<rparr>) s;
               s \<leftarrow> set_tcb p_tcb (\<lambda>t. t\<lparr>TickPrevPtr := p_tcb1\<rparr>) s;
               s \<leftarrow> set_tcb p_tcb (\<lambda>t. t\<lparr>TickNextPtr := p_tcb2\<rparr>) s;
               s \<leftarrow> set_tcb p_tcb2 (\<lambda>t. t\<lparr>TickRemain := TickRemain t - delta\<rparr>) s;
               s \<leftarrow> set_tcb p_tcb2 (\<lambda>t. t\<lparr>TickPrevPtr := p_tcb\<rparr>) s;
               set_tcb p_tcb1 (\<lambda>t. t\<lparr>TickNextPtr := p_tcb\<rparr>) s
             } else do {
               s \<leftarrow> set_tcb p_tcb (\<lambda>t. t\<lparr>TickRemain := delta\<rparr>) s;
               s \<leftarrow> set_tcb p_tcb (\<lambda>t. t\<lparr>TickPrevPtr := p_tcb1\<rparr>) s;
               s \<leftarrow> set_tcb p_tcb (\<lambda>t. t\<lparr>TickNextPtr := None\<rparr>) s;
               set_tcb p_tcb1 (\<lambda>t. t\<lparr>TickNextPtr := p_tcb\<rparr>) s
             });
          Some (True, s)
        }
      })"

text \<open>The base of a periodic delay: the last multiple of the period after the previous wake-up
  that has been reached, moved on by a period when it lies in the past.\<close>

definition OS_TickListInsertDly ::
  "ptr \<Rightarrow> u32 \<Rightarrow> OS_OPT \<Rightarrow> kernel \<Rightarrow> (OS_ERR \<times> kernel) option" where
  "OS_TickListInsertDly p_tcb time opt s =
     (if opt = OS_OPT_TIME_PERIODIC \<and> time = 0 then Some (OS_ERR_TIME_ZERO_DLY, s)
      else do {
        let elapsed = 0;
        (tick_base, s) \<leftarrow>
          (if opt = OS_OPT_TIME_MATCH then Some (0, s)
           else if opt = OS_OPT_TIME_PERIODIC then do {
             t \<leftarrow> tcb s p_tcb;
             let tick_base = TickCtrPrev t;
             let base_offset = OSTickCtr s - tick_base;
             (tick_base, s) \<leftarrow>
               (if base_offset \<ge> time then do {
                  let tick_base = tick_base + time * (base_offset div time);
                  let tick_base =
                    (if base_offset mod time \<noteq> 0 then tick_base + time else tick_base);
                  s \<leftarrow> set_tcb p_tcb (\<lambda>t. t\<lparr>TickCtrPrev := tick_base\<rparr>) s;
                  Some (tick_base, s)
                } else Some (tick_base, s));
             s \<leftarrow> set_tcb p_tcb (\<lambda>t. t\<lparr>TickCtrPrev := TickCtrPrev t + time\<rparr>) s;
             Some (tick_base, s)
           } else Some (OSTickCtr s, s));
        (valid_dly, s) \<leftarrow> OS_TickListInsert p_tcb elapsed tick_base time s;
        if valid_dly then do {
          s \<leftarrow> set_tcb p_tcb (\<lambda>t. t\<lparr>TaskState := OS_TASK_STATE_DLY\<rparr>) s;
          Some (OS_ERR_NONE, s)
        } else Some (OS_ERR_TIME_ZERO_DLY, s)
      })"

definition OS_TickListRemove :: "ptr \<Rightarrow> kernel \<Rightarrow> kernel option" where
  "OS_TickListRemove p_tcb s = do {
     t \<leftarrow> tcb s p_tcb;
     let p_tcb1 = TickPrevPtr t;
     let p_tcb2 = TickNextPtr t;
     if p_tcb1 = None then
       if p_tcb2 = None then do {
         let s = set_tick_list (\<lambda>l. l\<lparr>TL_TCB_Ptr := None\<rparr>) s;
         let s = set_tick_list (\<lambda>l. l\<lparr>TL_NbrEntries := 0\<rparr>) s;
         set_tcb p_tcb (\<lambda>t. t\<lparr>TickRemain := 0\<rparr>) s
       } else do {
         s \<leftarrow> set_tcb p_tcb2 (\<lambda>t. t\<lparr>TickPrevPtr := None\<rparr>) s;
         s \<leftarrow> set_tcb p_tcb2 (\<lambda>t2. t2\<lparr>TickRemain := TickRemain t2 + TickRemain t\<rparr>) s;
         let s = set_tick_list (\<lambda>l. l\<lparr>TL_TCB_Ptr := p_tcb2\<rparr>) s;
         let s = set_tick_list (\<lambda>l. l\<lparr>TL_NbrEntries := TL_NbrEntries l - 1\<rparr>) s;
         s \<leftarrow> set_tcb p_tcb (\<lambda>t. t\<lparr>TickNextPtr := None\<rparr>) s;
         set_tcb p_tcb (\<lambda>t. t\<lparr>TickRemain := 0\<rparr>) s
       }
     else do {
       s \<leftarrow> set_tcb p_tcb1 (\<lambda>t. t\<lparr>TickNextPtr := p_tcb2\<rparr>) s;
       s \<leftarrow>
         (if p_tcb2 \<noteq> None then do {
            s \<leftarrow> set_tcb p_tcb2 (\<lambda>t. t\<lparr>TickPrevPtr := p_tcb1\<rparr>) s;
            set_tcb p_tcb2 (\<lambda>t2. t2\<lparr>TickRemain := TickRemain t2 + TickRemain t\<rparr>) s
          } else Some s);
       s \<leftarrow> set_tcb p_tcb (\<lambda>t. t\<lparr>TickPrevPtr := None\<rparr>) s;
       let s = set_tick_list (\<lambda>l. l\<lparr>TL_NbrEntries := TL_NbrEntries l - 1\<rparr>) s;
       s \<leftarrow> set_tcb p_tcb (\<lambda>t. t\<lparr>TickNextPtr := None\<rparr>) s;
       set_tcb p_tcb (\<lambda>t. t\<lparr>TickRemain := 0\<rparr>) s
     }
   }"

section \<open>Delta lists\<close>

primrec span :: "(nat \<Rightarrow> u32) \<Rightarrow> nat list \<Rightarrow> nat" where
  "span r [] = 0"
| "span r (x # xs) = unat (r x) + span r xs"

text \<open>The ticks until the expiry of a task of the list.\<close>

primrec due :: "(nat \<Rightarrow> u32) \<Rightarrow> nat list \<Rightarrow> nat \<Rightarrow> nat" where
  "due r [] a = 0"
| "due r (x # xs) a = unat (r x) + (if x = a then 0 else due r xs a)"

lemma span_append [simp]: "span r (xs @ ys) = span r xs + span r ys"
  by (induction xs) auto

lemma span_upd [simp]: "x \<notin> set xs \<Longrightarrow> span (r(x := v)) xs = span r xs"
  by (induction xs) auto

lemma due_upd [simp]: "x \<notin> set xs \<Longrightarrow> due (r(x := v)) xs a = due r xs a"
  by (induction xs) auto

lemma due_append:
  "due r (xs @ ys) a = (if a \<in> set xs then due r xs a else span r xs + due r ys a)"
  by (induction xs) auto

lemma due_le_span: "due r xs a \<le> span r xs"
  by (induction xs) auto

lemma due_ge_head: "due r (x # xs) a \<ge> unat (r x)"
  by simp

text \<open>Inserting a node: the time of the node after it is shortened by that of the new one, so
  that no expiry but the new one changes.\<close>

definition delta_ins :: "(nat \<Rightarrow> u32) \<Rightarrow> nat \<Rightarrow> u32 \<Rightarrow> nat list \<Rightarrow> (nat \<Rightarrow> u32)" where
  "delta_ins r x d bs =
     (case bs of [] \<Rightarrow> r(x := d) | b # _ \<Rightarrow> r(x := d, b := r b - d))"

lemma delta_ins_spec:
  assumes dist: "distinct (as @ bs)" and x: "x \<notin> set (as @ bs)"
    and d: "bs \<noteq> [] \<Longrightarrow> unat d < unat (r (hd bs))"
  shows "due (delta_ins r x d bs) (as @ x # bs) x = span r as + unat d"
    and "a \<in> set (as @ bs) \<Longrightarrow> due (delta_ins r x d bs) (as @ x # bs) a = due r (as @ bs) a"
    and "span (delta_ins r x d bs) (as @ x # bs) = (if bs = [] then span r as + unat d
           else span r (as @ bs))"
proof -
  have *: "due (delta_ins r x d bs) (as @ x # bs) x = span r as + unat d \<and>
    (a \<in> set (as @ bs) \<longrightarrow> due (delta_ins r x d bs) (as @ x # bs) a = due r (as @ bs) a) \<and>
    span (delta_ins r x d bs) (as @ x # bs) = (if bs = [] then span r as + unat d
           else span r (as @ bs))"
  proof (cases bs)
    case Nil
    with x show ?thesis by (auto simp: delta_ins_def due_append)
  next
    case (Cons b bs')
    with d have u: "unat (r b - d) = unat (r b) - unat d" "unat d < unat (r b)"
      by (auto simp: unat_sub word_le_nat_alt)
    from dist x Cons have "b \<noteq> x" "b \<notin> set as" "x \<notin> set as" "b \<notin> set bs'" "x \<notin> set bs'" by auto
    with u show ?thesis by (auto simp: delta_ins_def due_append Cons)
  qed
  from * show "due (delta_ins r x d bs) (as @ x # bs) x = span r as + unat d" by blast
  from * show "a \<in> set (as @ bs) \<Longrightarrow> due (delta_ins r x d bs) (as @ x # bs) a = due r (as @ bs) a"
    by blast
  from * show "span (delta_ins r x d bs) (as @ x # bs) = (if bs = [] then span r as + unat d
           else span r (as @ bs))" by blast
qed

text \<open>Removing a node gives its time to the node after it.\<close>

definition delta_rem :: "(nat \<Rightarrow> u32) \<Rightarrow> nat \<Rightarrow> nat list \<Rightarrow> (nat \<Rightarrow> u32)" where
  "delta_rem r x bs =
     (case bs of [] \<Rightarrow> r(x := 0) | b # _ \<Rightarrow> r(b := r b + r x, x := 0))"

lemma delta_rem_spec:
  assumes dist: "distinct (as @ x # bs)" and bound: "span r (as @ x # bs) < 2 ^ 32"
  shows "a \<in> set (as @ bs) \<Longrightarrow> due (delta_rem r x bs) (as @ bs) a = due r (as @ x # bs) a"
    and "span (delta_rem r x bs) (as @ bs) \<le> span r (as @ x # bs)"
proof -
  have *: "(a \<in> set (as @ bs) \<longrightarrow> due (delta_rem r x bs) (as @ bs) a = due r (as @ x # bs) a) \<and>
    span (delta_rem r x bs) (as @ bs) \<le> span r (as @ x # bs)"
  proof (cases bs)
    case Nil
    with dist show ?thesis by (auto simp: delta_rem_def due_append)
  next
    case (Cons b bs')
    from bound Cons have "unat (r b) + unat (r x) < 2 ^ LENGTH(32)" by simp
    then have u: "unat (r b + r x) = unat (r b) + unat (r x)"
      by (simp add: unat_word_ariths(1) del: len_of_numeral_defs)
    from dist Cons have "b \<noteq> x" "b \<notin> set as" "x \<notin> set as" "b \<notin> set bs'" "x \<notin> set bs'" by auto
    with u show ?thesis by (auto simp: delta_rem_def due_append Cons)
  qed
  from * show "a \<in> set (as @ bs) \<Longrightarrow> due (delta_rem r x bs) (as @ bs) a = due r (as @ x # bs) a"
    by blast
  from * show "span (delta_rem r x bs) (as @ bs) \<le> span r (as @ x # bs)" by blast
qed

section \<open>The tick list of a state\<close>

definition tnxt :: "kernel \<Rightarrow> nat \<Rightarrow> ptr" where "tnxt s = (\<lambda>a. TickNextPtr (OSTCBs s a))"
definition tprv :: "kernel \<Rightarrow> nat \<Rightarrow> ptr" where "tprv s = (\<lambda>a. TickPrevPtr (OSTCBs s a))"
definition trem :: "kernel \<Rightarrow> nat \<Rightarrow> u32" where "trem s = (\<lambda>a. TickRemain (OSTCBs s a))"

lemma tick_folds:
  "TickNextPtr (OSTCBs s a) = tnxt s a" "TickPrevPtr (OSTCBs s a) = tprv s a"
  "TickRemain (OSTCBs s a) = trem s a"
  by (simp_all add: tnxt_def tprv_def trem_def)

text \<open>The part of the state the tick list operations write.\<close>

definition upd_tick :: "(nat \<Rightarrow> ptr) \<Rightarrow> (nat \<Rightarrow> ptr) \<Rightarrow> (nat \<Rightarrow> u32) \<Rightarrow> OS_TICK_LIST \<Rightarrow>
    kernel \<Rightarrow> kernel" where
  "upd_tick n p r l s = s\<lparr>
     OSTCBs := (\<lambda>a. (OSTCBs s a)\<lparr>TickNextPtr := n a, TickPrevPtr := p a, TickRemain := r a\<rparr>),
     OSTickList := l\<rparr>"

lemma upd_tick_sel [simp]:
  "OSTCBs (upd_tick n p r l s) a =
     (OSTCBs s a)\<lparr>TickNextPtr := n a, TickPrevPtr := p a, TickRemain := r a\<rparr>"
  "OSTickList (upd_tick n p r l s) = l"
  "OSObjs (upd_tick n p r l s) = OSObjs s"
  "OSRdyList (upd_tick n p r l s) = OSRdyList s"
  "OSPrioTbl (upd_tick n p r l s) = OSPrioTbl s"
  "OSSems (upd_tick n p r l s) = OSSems s"
  "OSMutexes (upd_tick n p r l s) = OSMutexes s"
  "OSQs (upd_tick n p r l s) = OSQs s"
  "OSFlagGrps (upd_tick n p r l s) = OSFlagGrps s"
  "OSMsgs (upd_tick n p r l s) = OSMsgs s"
  "OSMsgPool (upd_tick n p r l s) = OSMsgPool s"
  "OSTickCtr (upd_tick n p r l s) = OSTickCtr s"
  "OSTCBCurPtr (upd_tick n p r l s) = OSTCBCurPtr s"
  "OSTCBHighRdyPtr (upd_tick n p r l s) = OSTCBHighRdyPtr s"
  "OSPrioCur (upd_tick n p r l s) = OSPrioCur s"
  "OSPrioHighRdy (upd_tick n p r l s) = OSPrioHighRdy s"
  "OSRunning (upd_tick n p r l s) = OSRunning s"
  "OSInitialized (upd_tick n p r l s) = OSInitialized s"
  "OSIntNestingCtr (upd_tick n p r l s) = OSIntNestingCtr s"
  "OSSchedLockNestingCtr (upd_tick n p r l s) = OSSchedLockNestingCtr s"
  "OSSchedRoundRobinEn (upd_tick n p r l s) = OSSchedRoundRobinEn s"
  "tnxt (upd_tick n p r l s) = n" "tprv (upd_tick n p r l s) = p" "trem (upd_tick n p r l s) = r"
  by (simp_all add: upd_tick_def tnxt_def tprv_def trem_def)

lemma upd_tick_upd_tick [simp]:
  "upd_tick n p r l (upd_tick n' p' r' l' s) = upd_tick n p r l s"
  by (simp add: upd_tick_def)

lemma upd_tick_id [simp]: "upd_tick (tnxt s) (tprv s) (trem s) (OSTickList s) s = s"
  by (simp add: upd_tick_def tnxt_def tprv_def trem_def)

lemma set_TickNextPtr: "set_tcb (Some x) (TickNextPtr_update (\<lambda>_. v)) s =
    Some (upd_tick ((tnxt s)(x := v)) (tprv s) (trem s) (OSTickList s) s)"
  by (auto simp: set_tcb_def upd_tick_def tnxt_def tprv_def trem_def fun_eq_iff)

lemma set_TickPrevPtr: "set_tcb (Some x) (TickPrevPtr_update (\<lambda>_. v)) s =
    Some (upd_tick (tnxt s) ((tprv s)(x := v)) (trem s) (OSTickList s) s)"
  by (auto simp: set_tcb_def upd_tick_def tnxt_def tprv_def trem_def fun_eq_iff)

lemma set_TickRemain: "set_tcb (Some x) (TickRemain_update (\<lambda>_. v)) s =
    Some (upd_tick (tnxt s) (tprv s) ((trem s)(x := v)) (OSTickList s) s)"
  by (auto simp: set_tcb_def upd_tick_def tnxt_def tprv_def trem_def fun_eq_iff)

lemma set_TickRemain': "set_tcb (Some x) (\<lambda>t. t\<lparr>TickRemain := f (TickRemain t)\<rparr>) s =
    Some (upd_tick (tnxt s) (tprv s) ((trem s)(x := f (trem s x))) (OSTickList s) s)"
  by (auto simp: set_tcb_def upd_tick_def tnxt_def tprv_def trem_def fun_eq_iff)

lemma set_tick: "set_tick_list f s = upd_tick (tnxt s) (tprv s) (trem s) (f (OSTickList s)) s"
  by (auto simp: set_tick_list_def upd_tick_def tnxt_def tprv_def trem_def)

lemmas tick_upds = tick_folds set_TickNextPtr set_TickPrevPtr set_TickRemain
  set_TickRemain' [where f = "\<lambda>v. v - d" for d] set_TickRemain' [where f = "\<lambda>v. v + d" for d] set_tick

definition tick_lists :: "kernel \<Rightarrow> nat list \<Rightarrow> bool" where
  "tick_lists s T \<longleftrightarrow>
     dll (tnxt s) (tprv s) (TL_TCB_Ptr (OSTickList s)) (hdo (rev T)) T \<and>
     TL_NbrEntries (OSTickList s) = of_nat (length T) \<and> span (trem s) T < 2 ^ 32"

lemma tick_listsD:
  assumes "tick_lists s T"
  shows "dll (tnxt s) (tprv s) (TL_TCB_Ptr (OSTickList s)) (hdo (rev T)) T"
    "TL_NbrEntries (OSTickList s) = of_nat (length T)" "span (trem s) T < 2 ^ 32"
    "TL_TCB_Ptr (OSTickList s) = hdo T" "distinct T"
  using assms by (auto simp: tick_lists_def dll_def)

text \<open>The loop ends on every well-linked list, in front of the first node that is due later.\<close>

lemma tick_scan_spec:
  "lnk (tnxt s) ys None \<Longrightarrow>
   \<exists>as bs d'. ys = as @ bs \<and> tick_scan d p (hdo ys) s =
       Some (d', (if as = [] then p else Some (last as)), hdo bs) \<and>
     unat d = span (trem s) as + unat d' \<and> (bs \<noteq> [] \<longrightarrow> unat d' < unat (trem s (hd bs)))"
proof (induction ys arbitrary: d p)
  case Nil
  then show ?case by (simp add: tick_scan.simps)
next
  case (Cons y ys)
  from Cons.prems have y: "tnxt s y = hdo ys" "lnk (tnxt s) ys None" by (auto split: if_splits)
  show ?case
  proof (cases "trem s y \<le> d")
    case True
    from Cons.IH [OF y(2), of "d - trem s y" "Some y"] obtain as bs d' where
      IH: "ys = as @ bs" "tick_scan (d - trem s y) (Some y) (hdo ys) s =
         Some (d', (if as = [] then Some y else Some (last as)), hdo bs)"
        "unat (d - trem s y) = span (trem s) as + unat d'"
        "bs \<noteq> [] \<longrightarrow> unat d' < unat (trem s (hd bs))" by blast
    have "tick_scan d p (hdo (y # ys)) s = Some (d', Some (last (y # as)), hdo bs)"
      using True IH(2) y(1)
      by (simp add: tick_scan.simps [of d p "Some y"] tick_folds)
    moreover have "unat d = unat (trem s y) + unat (d - trem s y)"
      using True by (simp add: unat_sub word_le_nat_alt)
    ultimately show ?thesis using IH(1,3,4)
      by (intro exI [of _ "y # as"] exI [of _ bs] exI [of _ d']) auto
  next
    case False
    then show ?thesis
      by (intro exI [of _ "[]"] exI [of _ "y # ys"] exI [of _ d])
        (simp add: tick_scan.simps [of d p "Some y"] tick_folds word_le_nat_alt)
  qed
qed

text \<open>What an insertion promises: the new task is due after \<open>d\<close> ticks, behind the tasks due
  not later and before those due later, and no other expiry changes.\<close>

definition tick_inserted ::
  "kernel \<Rightarrow> nat list \<Rightarrow> nat \<Rightarrow> nat \<Rightarrow> (nat \<Rightarrow> u32) \<Rightarrow> nat list \<Rightarrow> bool" where
  "tick_inserted s T x d r T' \<longleftrightarrow> (\<exists>as bs. T = as @ bs \<and> T' = as @ x # bs \<and>
     due r T' x = d \<and> (\<forall>a\<in>set T. due r T' a = due (trem s) T a) \<and>
     (\<forall>a\<in>set as. due (trem s) T a \<le> d) \<and> (\<forall>a\<in>set bs. d < due (trem s) T a))"

lemma tick_insertedI:
  assumes T: "T = as @ bs" and dist: "distinct T" and x: "x \<notin> set T"
    and d: "d = span (trem s) as + unat e" "bs \<noteq> [] \<Longrightarrow> unat e < unat (trem s (hd bs))"
  shows "tick_inserted s T x d (delta_ins (trem s) x e bs) (as @ x # bs)"
proof -
  note S = delta_ins_spec [of as bs x e "trem s"]
  have "due (trem s) T a \<le> d" if "a \<in> set as" for a
    using that due_le_span [of "trem s" as a] d(1) T by (simp add: due_append)
  moreover have "d < due (trem s) T a" if "a \<in> set bs" for a
  proof -
    from that obtain b bs' where b: "bs = b # bs'" by (cases bs) auto
    from that dist T have "a \<notin> set as" by auto
    then show ?thesis using d b T due_ge_head [of "trem s" b bs' a]
      by (simp add: due_append)
  qed
  ultimately show ?thesis unfolding tick_inserted_def
    using S T dist x d by (intro exI [of _ as] exI [of _ bs]) auto
qed

lemma OS_TickListInsert_zero:
  "time + tick_base = OSTickCtr s \<Longrightarrow> OS_TickListInsert (Some x) 0 tick_base time s =
     Some (False, upd_tick (tnxt s) (tprv s) ((trem s)(x := 0)) (OSTickList s) s)"
  by (simp add: OS_TickListInsert_def tick_upds)

lemma tick_lists_zero: "x \<notin> set T \<Longrightarrow>
   tick_lists (upd_tick (tnxt s) (tprv s) ((trem s)(x := 0)) (OSTickList s) s) T \<longleftrightarrow> tick_lists s T"
  by (simp add: tick_lists_def)

lemma OS_TickListInsert_spec:
  assumes T: "tick_lists s T" and x: "x \<notin> set T"
    and d: "d = time + tick_base - OSTickCtr s" "d \<noteq> 0"
  shows "\<exists>n p r l T'. OS_TickListInsert (Some x) 0 tick_base time s =
      Some (True, upd_tick n p r l s) \<and> tick_lists (upd_tick n p r l s) T' \<and>
      tick_inserted s T x (unat d) r T'"
proof -
  note D = tick_listsD [OF T]
  note d' = d(1) [symmetric]
  have run: ?thesis
    if "OS_TickListInsert (Some x) 0 tick_base time s = Some (True, upd_tick n p
        (delta_ins (trem s) x e bs) l s)" "T = as @ bs"
      "unat d = span (trem s) as + unat e" "bs \<noteq> [] \<Longrightarrow> unat e < unat (trem s (hd bs))"
      "dll n p (TL_TCB_Ptr l) (hdo (rev (as @ x # bs))) (as @ x # bs)"
      "TL_NbrEntries l = of_nat (length (as @ x # bs))" for n p e l as bs
  proof -
    have "tick_inserted s T x (unat d) (delta_ins (trem s) x e bs) (as @ x # bs)"
      by (rule tick_insertedI [OF that(2) D(5) x that(3,4)])
    moreover have ub: "unat d < 2 ^ LENGTH(32)" by (rule unsigned_less)
    moreover have "span (delta_ins (trem s) x e bs) (as @ x # bs) < 2 ^ 32"
      using delta_ins_spec(3) [of as bs x e "trem s"] D(3,5) x that(2,3,4) ub
      by auto
    ultimately show ?thesis using that(1,5,6)
      by (intro exI [of _ n] exI [of _ p] exI [of _ "delta_ins (trem s) x e bs"] exI [of _ l]
          exI [of _ "as @ x # bs"]) (simp add: tick_lists_def)
  qed
  show ?thesis
  proof (cases T)
    case Nil
    show ?thesis
      by (rule run [where as = "[]" and bs = "[]" and e = d
            and n = "(tnxt s)(x := None)" and p = "(tprv s)(x := None)"
            and l = "(OSTickList s)\<lparr>TL_TCB_Ptr := Some x, TL_NbrEntries := 1\<rparr>"])
        (use Nil D(4) d in \<open>auto simp: OS_TickListInsert_def Let_def d' tick_upds delta_ins_def
          dll_insert_empty\<close>)
  next
    case (Cons y ys)
    have y: "TL_TCB_Ptr (OSTickList s) = Some y" "tprv s y = None" "tnxt s y = hdo ys"
        "lnk (tnxt s) ys None" "x \<noteq> y"
      using D(1,4) x Cons by (auto simp: dll_def hdo_append split: if_splits)
    show ?thesis
    proof (cases "d < trem s y")
      case True
      have dl: "dll ((tnxt s)(x := Some y)) ((tprv s)(x := None, y := Some x)) (Some x)
          (hdo (rev T)) (x # T)"
        using dll_insert_head [of "tnxt s" "tprv s" y "hdo (rev T)" ys x] D(1) y(1) x Cons by simp
      show ?thesis
        by (rule run [where as = "[]" and bs = T and e = d
              and n = "(tnxt s)(x := Some y)" and p = "(tprv s)(x := None, y := Some x)"
              and l = "(OSTickList s)\<lparr>TL_NbrEntries := TL_NbrEntries (OSTickList s) + 1,
                TL_TCB_Ptr := Some x\<rparr>"])
          (use Cons D(2) d y True dl in \<open>auto simp: OS_TickListInsert_def Let_def d' tick_upds
            delta_ins_def hdo_append word_less_nat_alt\<close>)
    next
      case False
      let ?s = "upd_tick (tnxt s) (tprv s) (trem s)
        ((OSTickList s)\<lparr>TL_NbrEntries := TL_NbrEntries (OSTickList s) + 1\<rparr>) s"
      from y(4) have "lnk (tnxt ?s) ys None" by simp
      from tick_scan_spec [OF this, of "d - trem s y" "Some y"] obtain as bs e where
        sc: "ys = as @ bs" "tick_scan (d - trem s y) (Some y) (hdo ys) ?s =
          Some (e, if as = [] then Some y else Some (last as), hdo bs)"
        "unat (d - trem s y) = span (trem s) as + unat e"
        "bs \<noteq> [] \<longrightarrow> unat e < unat (trem s (hd bs))" by auto
      have ud: "unat d = span (trem s) (y # as) + unat e"
        using sc(3) False by (simp add: unat_sub word_le_nat_alt not_less)
      obtain as' a where as': "y # as = as' @ [a]" by (metis rev_exhaust list.distinct(1))
      then have a: "(if as = [] then Some y else Some (last as)) = Some a"
        by (cases as') (auto split: if_splits)
      have TT: "T = as' @ a # bs" using Cons sc(1) as' by (metis append_Cons append_assoc append_Nil)
      have ax: "a \<noteq> x" using x TT by auto
      show ?thesis
      proof (cases bs)
        case Nil
        have dl: "dll ((tnxt s)(x := None, a := Some x)) ((tprv s)(x := Some a))
            (TL_TCB_Ptr (OSTickList s)) (Some x) (as' @ [a, x])"
          by (rule dll_insert_tail) (use D(1) TT Nil x in auto)
        show ?thesis
          by (rule run [where as = "y # as" and bs = bs and e = e
                and n = "(tnxt s)(x := None, a := Some x)" and p = "(tprv s)(x := Some a)"
                and l = "(OSTickList s)\<lparr>TL_NbrEntries := TL_NbrEntries (OSTickList s) + 1\<rparr>"])
            (use TT as' Nil D(2) d y False dl sc a ud in \<open>simp_all add: OS_TickListInsert_def Let_def
              d' tick_upds delta_ins_def\<close>)
      next
        case (Cons b bs')
        have tT: "hdo (rev T) = hdo (rev (as' @ a # x # b # bs'))"
          using TT Cons by (simp add: hdo_append)
        have dl: "dll ((tnxt s)(x := Some b, a := Some x)) ((tprv s)(x := Some a, b := Some x))
            (TL_TCB_Ptr (OSTickList s)) (hdo (rev (as' @ a # x # b # bs'))) (as' @ a # x # b # bs')"
          unfolding tT [symmetric] by (rule dll_insert_between) (use D(1) TT Cons x in auto)
        have ba: "tprv s b = Some a" "b \<noteq> x"
          using dll_split(2) [of "tnxt s" "tprv s" _ _ "as' @ [a]" b bs'] D(1) TT Cons x by auto
        show ?thesis
          by (rule run [where as = "y # as" and bs = bs and e = e
                and n = "(tnxt s)(x := Some b, a := Some x)" and p = "(tprv s)(x := Some a, b := Some x)"
                and l = "(OSTickList s)\<lparr>TL_NbrEntries := TL_NbrEntries (OSTickList s) + 1\<rparr>"])
            (use TT as' Cons D(2) d y False dl sc a ba ud in \<open>simp_all add: OS_TickListInsert_def Let_def
              d' tick_upds delta_ins_def\<close>)
      qed
    qed
  qed
qed

lemma OS_TickListRemove_spec:
  assumes T: "tick_lists s T" and Ts: "T = as @ x # bs"
  shows "\<exists>n p r l. OS_TickListRemove (Some x) s = Some (upd_tick n p r l s) \<and>
    tick_lists (upd_tick n p r l s) (as @ bs) \<and> r x = 0 \<and>
    (\<forall>a\<in>set (as @ bs). due r (as @ bs) a = due (trem s) T a)"
proof -
  note D = tick_listsD [OF T]
  have d: "dll (tnxt s) (tprv s) (TL_TCB_Ptr (OSTickList s)) (hdo (rev T)) (as @ x # bs)"
    using D(1) Ts by simp
  note nb = dll_split(1,2) [OF d]
  have dist: "distinct (as @ x # bs)" and bnd: "span (trem s) (as @ x # bs) < 2 ^ 32"
    using D Ts by simp_all
  have run: ?thesis
    if "OS_TickListRemove (Some x) s = Some (upd_tick n p (delta_rem (trem s) x bs) l s)"
      "dll n p (TL_TCB_Ptr l) (hdo (rev (as @ bs))) (as @ bs)"
      "TL_NbrEntries l = of_nat (length (as @ bs))" for n p l
  proof -
    have "delta_rem (trem s) x bs x = 0" by (simp add: delta_rem_def split: list.splits)
    moreover note delta_rem_spec [OF dist bnd]
    ultimately show ?thesis using that bnd Ts
      by (intro exI [of _ n] exI [of _ p] exI [of _ "delta_rem (trem s) x bs"] exI [of _ l])
        (auto simp: tick_lists_def)
  qed
  have len: "TL_NbrEntries (OSTickList s) = of_nat (length (as @ bs)) + 1" using D(2) Ts by simp
  have ht: "TL_TCB_Ptr (OSTickList s) = hdo (as @ x # bs)" using D(4) Ts by simp
  let ?l = "OSTickList s"
  consider (only) "as = []" "bs = []" | (head) c bs' where "as = []" "bs = c # bs'"
    | (tail) a as' where "as = as' @ [a]" "bs = []"
    | (mid) a as' c bs' where "as = as' @ [a]" "bs = c # bs'"
    by (cases as rule: rev_cases; cases bs) auto
  then show ?thesis
  proof cases
    case only
    then have n: "tnxt s x = None" "tprv s x = None" using nb by simp_all
    show ?thesis
      by (rule run [where n = "tnxt s" and p = "tprv s"
            and l = "?l\<lparr>TL_TCB_Ptr := None, TL_NbrEntries := 0\<rparr>"])
        (use only n in \<open>simp_all add: OS_TickListRemove_def Let_def tick_upds delta_rem_def\<close>)
  next
    case head
    then have n: "tnxt s x = Some c" "tprv s x = None" "c \<noteq> x" using nb dist by auto
    have tT: "hdo (rev T) = hdo (rev (c # bs'))" using Ts head by (simp add: hdo_append)
    have d': "dll ((tnxt s)(x := None)) ((tprv s)(c := None, x := None)) (Some c)
        (hdo (rev (c # bs'))) (c # bs')"
      by (rule dll_remove_head) (use d head tT in simp)
    have px: "(tprv s)(c := None, x := None) = (tprv s)(c := None)" using n by auto
    show ?thesis
      by (rule run [where n = "(tnxt s)(x := None)" and p = "(tprv s)(c := None)"
            and l = "?l\<lparr>TL_TCB_Ptr := Some c, TL_NbrEntries := TL_NbrEntries ?l - 1\<rparr>"])
        (use head n len d' px in
          \<open>simp_all add: OS_TickListRemove_def Let_def tick_upds delta_rem_def\<close>)
  next
    case tail
    then have n: "tnxt s x = None" "tprv s x = Some a" "a \<noteq> x" using nb dist by auto
    have d': "dll ((tnxt s)(a := None, x := None)) ((tprv s)(x := None)) (TL_TCB_Ptr ?l)
        (Some a) (as' @ [a])"
      by (rule dll_remove_tail) (use d tail in simp)
    show ?thesis
      by (rule run [where n = "(tnxt s)(a := None, x := None)" and p = "(tprv s)(x := None)"
            and l = "?l\<lparr>TL_NbrEntries := TL_NbrEntries ?l - 1\<rparr>"])
        (use tail n len d' in \<open>simp_all add: OS_TickListRemove_def Let_def tick_upds delta_rem_def\<close>)
  next
    case mid
    then have n: "tnxt s x = Some c" "tprv s x = Some a" "a \<noteq> x" "c \<noteq> x" "a \<noteq> c"
      using nb dist by auto
    have tT: "hdo (rev T) = hdo (rev (as' @ a # c # bs'))" using Ts mid by (simp add: hdo_append)
    have d': "dll ((tnxt s)(a := Some c, x := None)) ((tprv s)(c := Some a, x := None))
        (TL_TCB_Ptr ?l) (hdo (rev (as' @ a # c # bs'))) (as' @ a # c # bs')"
      unfolding tT [symmetric] by (rule dll_remove_between) (use d mid in simp)
    show ?thesis
      by (rule run [where n = "(tnxt s)(a := Some c, x := None)"
            and p = "(tprv s)(c := Some a, x := None)"
            and l = "?l\<lparr>TL_NbrEntries := TL_NbrEntries ?l - 1\<rparr>"])
        (use mid n len d' in
          \<open>simp_all add: OS_TickListRemove_def Let_def tick_upds delta_rem_def\<close>)
  qed
qed

lemma tick_lists_cong:
  assumes "\<And>a. TickNextPtr (OSTCBs s' a) = TickNextPtr (OSTCBs s a)"
    and "\<And>a. TickPrevPtr (OSTCBs s' a) = TickPrevPtr (OSTCBs s a)"
    and "\<And>a. TickRemain (OSTCBs s' a) = TickRemain (OSTCBs s a)"
    and "OSTickList s' = OSTickList s"
  shows "tick_lists s' T \<longleftrightarrow> tick_lists s T"
  using assms by (simp add: tick_lists_def tnxt_def tprv_def trem_def)

lemma tick_inserted_cong:
  "trem s' = trem s \<Longrightarrow> tick_inserted s' T x d r T' \<longleftrightarrow> tick_inserted s T x d r T'"
  by (simp add: tick_inserted_def)

section \<open>Delays\<close>

text \<open>The base of the next expiry of a periodic delay, and its distance from the clock.\<close>

definition periodic_base :: "u32 \<Rightarrow> u32 \<Rightarrow> u32 \<Rightarrow> u32" where
  "periodic_base ctr prev time =
     (let off = ctr - prev in
      if off \<ge> time
      then (let b = prev + time * (off div time) in if off mod time \<noteq> 0 then b + time else b)
      else prev)"

lemma periodic_base_spec:
  assumes "time \<noteq> 0" and "unat time < 2 ^ 31"
  shows "0 < unat (periodic_base ctr prev time + time - ctr)"
    and "unat (periodic_base ctr prev time + time - ctr) < 2 * unat time \<or>
      unat (periodic_base ctr prev time + time - ctr) = unat time"
    and "\<exists>m. periodic_base ctr prev time + time = prev + of_nat m * time \<and>
      m * unat time = unat (ctr - prev) + unat (periodic_base ctr prev time + time - ctr)"
proof -
  let ?off = "ctr - prev" and ?b = "periodic_base ctr prev time"
  have t0: "0 < unat time" using assms(1) by (simp add: unat_gt_0)
  have main: "0 < unat (?b + time - ctr) \<and>
    (unat (?b + time - ctr) < 2 * unat time \<or> unat (?b + time - ctr) = unat time) \<and>
    (\<exists>m. ?b + time = prev + of_nat m * time \<and> m * unat time = unat ?off + unat (?b + time - ctr))"
  proof (cases "time \<le> ?off")
    case False
    then have d: "?b + time - ctr = time - ?off" "?b + time = prev + of_nat 1 * time"
      by (simp_all add: periodic_base_def Let_def algebra_simps)
    have "unat (?b + time - ctr) = unat time - unat ?off" "unat ?off < unat time"
      unfolding d(1) using False by (simp_all add: unat_sub word_le_nat_alt)
    then have "0 < unat (?b + time - ctr)" "unat (?b + time - ctr) < 2 * unat time"
      "1 * unat time = unat ?off + unat (?b + time - ctr)" by linarith+
    with d(2) show ?thesis by blast
  next
    case True
    let ?q = "?off div time" and ?r = "?off mod time"
    have o: "time * ?q + ?r = ?off" by (rule mult_div_mod_eq)
    have q: "of_nat (unat ?q) = ?q" by simp
    have rt: "unat ?r < unat time" using t0 by (simp add: unat_mod)
    have on: "unat ?q * unat time + unat ?r = unat ?off" by (simp add: unat_div unat_mod)
    show ?thesis
    proof (cases "?r = 0")
      case r0: True
      then have "time * ?q = ?off" using o by simp
      then have "?b = ctr" using True r0 by (simp add: periodic_base_def Let_def)
      moreover have "?b + time = prev + of_nat (unat ?q + 1) * time"
        using True r0 by (simp add: periodic_base_def Let_def algebra_simps)
      moreover from calculation(1) have "unat (?b + time - ctr) = unat time" by simp
      moreover have "(unat ?q + 1) * unat time = unat ?off + unat time" using on r0 by simp
      ultimately show ?thesis using t0 by metis
    next
      case r0: False
      have "time * ?q = ?off - ?r" using o by (simp add: algebra_simps)
      then have b: "?b + time - ctr = 2 * time - ?r"
        using True r0 by (simp add: periodic_base_def Let_def algebra_simps)
      have t2: "unat (2 * time) = 2 * unat time"
        using assms(2) by (simp add: unat_word_ariths)
      have "unat (2 * time - ?r) = 2 * unat time - unat ?r"
        using rt t2 by (simp add: unat_sub word_le_nat_alt)
      moreover have "0 < unat ?r" using r0 by (simp add: unat_gt_0)
      moreover have "?b + time = prev + of_nat (unat ?q + 2) * time"
        using True r0 by (simp add: periodic_base_def Let_def algebra_simps)
      ultimately have "0 < unat (?b + time - ctr)" "unat (?b + time - ctr) < 2 * unat time"
        unfolding b using rt by linarith+
      moreover have "(unat ?q + 2) * unat time = unat ?off + unat (?b + time - ctr)"
        unfolding b \<open>unat (2 * time - ?r) = _\<close> using on rt by (simp add: distrib_right)
      ultimately show ?thesis using \<open>?b + time = _\<close> by blast
    qed
  qed
  from main show "0 < unat (?b + time - ctr)"
    "unat (?b + time - ctr) < 2 * unat time \<or> unat (?b + time - ctr) = unat time"
    "\<exists>m. ?b + time = prev + of_nat m * time \<and> m * unat time = unat ?off + unat (?b + time - ctr)" by blast+
qed

definition set_TickCtrPrev :: "nat \<Rightarrow> u32 \<Rightarrow> kernel \<Rightarrow> kernel" where
  "set_TickCtrPrev x v s = s\<lparr>OSTCBs := (OSTCBs s)(x := (OSTCBs s x)\<lparr>TickCtrPrev := v\<rparr>)\<rparr>"

definition set_TaskState :: "nat \<Rightarrow> task_state \<Rightarrow> kernel \<Rightarrow> kernel" where
  "set_TaskState x v s = s\<lparr>OSTCBs := (OSTCBs s)(x := (OSTCBs s x)\<lparr>TaskState := v\<rparr>)\<rparr>"

lemma InsertDly_periodic:
  assumes "time \<noteq> 0"
  shows "OS_TickListInsertDly (Some x) time OS_OPT_TIME_PERIODIC s =
    (let b = periodic_base (OSTickCtr s) (TickCtrPrev (OSTCBs s x)) time;
         s1 = set_TickCtrPrev x (b + time) s in
     case OS_TickListInsert (Some x) 0 b time s1 of
       None \<Rightarrow> None
     | Some (v, s2) \<Rightarrow> if v then Some (OS_ERR_NONE, set_TaskState x OS_TASK_STATE_DLY s2)
         else Some (OS_ERR_TIME_ZERO_DLY, s2))"
  using assms
  by (auto simp: OS_TickListInsertDly_def opts set_tcb_Some set_TickCtrPrev_def set_TaskState_def
      periodic_base_def Let_def split: option.splits)

lemma InsertDly_other:
  assumes "opt \<noteq> OS_OPT_TIME_PERIODIC"
  shows "OS_TickListInsertDly (Some x) time opt s =
    (case OS_TickListInsert (Some x) 0 (if opt = OS_OPT_TIME_MATCH then 0 else OSTickCtr s) time s of
       None \<Rightarrow> None
     | Some (v, s2) \<Rightarrow> if v then Some (OS_ERR_NONE, set_TaskState x OS_TASK_STATE_DLY s2)
         else Some (OS_ERR_TIME_ZERO_DLY, s2))"
  using assms
  by (auto simp: OS_TickListInsertDly_def set_tcb_Some set_TaskState_def Let_def split: option.splits)

end
