(* ===== verification/Kernel_Inv.thy ===== *)
theory Kernel_Inv
  imports Os_Tick
begin

text \<open>
  The invariant of the kernel: the ready list, the pend lists and the tick list of a state
  represent lists of tasks, and every task is on exactly the lists its \<open>TaskState\<close> and
  \<open>PendObjPtr\<close> say. \<open>moved\<close> is the frame of the operations that move one task between the
  lists.
\<close>

section \<open>Updates of a single TCB\<close>

definition put :: "nat \<Rightarrow> (OS_TCB \<Rightarrow> OS_TCB) \<Rightarrow> kernel \<Rightarrow> kernel" where
  "put a f s = s\<lparr>OSTCBs := (OSTCBs s)(a := f (OSTCBs s a))\<rparr>"

lemma set_tcb_put: "set_tcb (Some a) f s = Some (put a f s)"
  by (simp add: put_def set_tcb_def)

lemma put_sel [simp]:
  "OSTCBs (put a f s) c = (if c = a then f (OSTCBs s a) else OSTCBs s c)"
  "OSObjs (put a f s) = OSObjs s" "OSRdyList (put a f s) = OSRdyList s"
  "OSPrioTbl (put a f s) = OSPrioTbl s" "OSTickList (put a f s) = OSTickList s"
  "OSTickCtr (put a f s) = OSTickCtr s" "OSPrioCur (put a f s) = OSPrioCur s"
  "OSTCBCurPtr (put a f s) = OSTCBCurPtr s" "OSSems (put a f s) = OSSems s"
  "OSMutexes (put a f s) = OSMutexes s" "OSQs (put a f s) = OSQs s"
  "OSMsgs (put a f s) = OSMsgs s" "OSMsgPool (put a f s) = OSMsgPool s"
  "OSFlagGrps (put a f s) = OSFlagGrps s"
  "OSSchedLockNestingCtr (put a f s) = OSSchedLockNestingCtr s"
  "OSIntNestingCtr (put a f s) = OSIntNestingCtr s" "OSRunning (put a f s) = OSRunning s"
  "plist (put a f s) = plist s"
  by (simp_all add: put_def plist_def)

text \<open>Lists do not see a change of a field that is not theirs.\<close>

lemma rdy_rel_put:
  "(\<And>t. NextPtr (f t) = NextPtr t) \<Longrightarrow> (\<And>t. PrevPtr (f t) = PrevPtr t) \<Longrightarrow>
   (\<And>t. Prio (f t) = Prio t) \<Longrightarrow> rdy_rel (put a f s) R \<longleftrightarrow> rdy_rel s R"
  by (rule rdy_rel_cong) auto

lemma pend_lists_cong:
  assumes "\<And>a. PendNextPtr (OSTCBs s' a) = PendNextPtr (OSTCBs s a)"
    and "\<And>a. PendPrevPtr (OSTCBs s' a) = PendPrevPtr (OSTCBs s a)"
    and "\<And>a. PendObjPtr (OSTCBs s' a) = PendObjPtr (OSTCBs s a)"
    and "\<And>b. PendList (OSObjs s' b) = PendList (OSObjs s b)"
  shows "pend_lists s' W \<longleftrightarrow> pend_lists s W"
  using assms by (simp add: pend_lists_def pnxt_def pprv_def pobj_def plist_def)

lemma pend_lists_put:
  "(\<And>t. PendNextPtr (f t) = PendNextPtr t) \<Longrightarrow> (\<And>t. PendPrevPtr (f t) = PendPrevPtr t) \<Longrightarrow>
   (\<And>t. PendObjPtr (f t) = PendObjPtr t) \<Longrightarrow> pend_lists (put a f s) W \<longleftrightarrow> pend_lists s W"
  by (rule pend_lists_cong) auto

lemma tick_lists_put:
  "(\<And>t. TickNextPtr (f t) = TickNextPtr t) \<Longrightarrow> (\<And>t. TickPrevPtr (f t) = TickPrevPtr t) \<Longrightarrow>
   (\<And>t. TickRemain (f t) = TickRemain t) \<Longrightarrow> tick_lists (put a f s) T \<longleftrightarrow> tick_lists s T"
  by (rule tick_lists_cong) auto

lemma rdy_rel_upds [simp]:
  "rdy_rel (upd_pend n p po pl s) R \<longleftrightarrow> rdy_rel s R"
  "rdy_rel (upd_tick n p r l s) R \<longleftrightarrow> rdy_rel s R"
  by (rule rdy_rel_cong; simp)+

lemma pend_lists_upds [simp]:
  "pend_lists (upd_rdy n p rl tbl s) W \<longleftrightarrow> pend_lists s W"
  "pend_lists (upd_tick n p r l s) W \<longleftrightarrow> pend_lists s W"
  by (rule pend_lists_cong; simp)+

lemma tick_lists_upds [simp]:
  "tick_lists (upd_rdy n p rl tbl s) T \<longleftrightarrow> tick_lists s T"
  "tick_lists (upd_pend n p po pl s) T \<longleftrightarrow> tick_lists s T"
  by (rule tick_lists_cong; simp)+

lemma pobj_upds [simp]:
  "pobj (upd_rdy n p rl tbl s) = pobj s" "pobj (upd_tick n p r l s) = pobj s"
  by (simp_all add: pobj_def)

lemma plist_upds [simp]:
  "plist (upd_rdy n p rl tbl s) = plist s" "plist (upd_tick n p r l s) = plist s"
  by (simp_all add: plist_def)

lemma trem_upds [simp]:
  "trem (upd_rdy n p rl tbl s) = trem s" "trem (upd_pend n p po pl s) = trem s"
  by (simp_all add: trem_def)

section \<open>The frame of the operations that move a task\<close>

text \<open>The fields of a TCB and of an object that are not links.\<close>

definition core :: "OS_TCB \<Rightarrow> OS_TCB" where
  "core t = t\<lparr>NextPtr := None, PrevPtr := None, TickNextPtr := None, TickPrevPtr := None,
     PendNextPtr := None, PendPrevPtr := None, TickRemain := 0\<rparr>"

definition ocore :: "OS_PEND_OBJ \<Rightarrow> OS_PEND_OBJ" where
  "ocore b = b\<lparr>PendList := \<lparr>PL_HeadPtr = None, PL_TailPtr = None, PL_NbrEntries = 0\<rparr>,
     Obj_DbgNamePtr := []\<rparr>"

text \<open>\<open>moved a s s'\<close>: only the TCB of \<open>a\<close>, links of other TCBs, and list headers differ.\<close>

definition moved :: "nat \<Rightarrow> kernel \<Rightarrow> kernel \<Rightarrow> bool" where
  "moved a s s' \<longleftrightarrow>
     (\<exists>tf ob rl tbl l. s' = s\<lparr>OSTCBs := tf, OSObjs := ob, OSRdyList := rl, OSPrioTbl := tbl,
        OSTickList := l\<rparr> \<and> (\<forall>c. c \<noteq> a \<longrightarrow> core (tf c) = core (OSTCBs s c)) \<and>
        (\<forall>b. ocore (ob b) = ocore (OSObjs s b)))"

lemma moved_refl [simp]: "moved a s s"
  unfolding moved_def
  by (rule exI [of _ "OSTCBs s"], rule exI [of _ "OSObjs s"], rule exI [of _ "OSRdyList s"],
      rule exI [of _ "OSPrioTbl s"], rule exI [of _ "OSTickList s"]) simp

lemma moved_trans: "moved a s s' \<Longrightarrow> moved a s' s'' \<Longrightarrow> moved a s s''"
  unfolding moved_def by (clarsimp) metis

lemma moved_put [simp]: "moved a s (put a f s)"
  unfolding moved_def put_def
  by (rule exI [of _ "(OSTCBs s)(a := f (OSTCBs s a))"], rule exI [of _ "OSObjs s"],
      rule exI [of _ "OSRdyList s"], rule exI [of _ "OSPrioTbl s"], rule exI [of _ "OSTickList s"])
    simp

lemma core_sel:
  "TaskState (core t) = TaskState t"
  "PendOn (core t) = PendOn t"
  "PendObjPtr (core t) = PendObjPtr t"
  "Prio (core t) = Prio t"
  "BasePrio (core t) = BasePrio t"
  "PendStatus (core t) = PendStatus t"
  "MsgPtr (core t) = MsgPtr t"
  "MsgSize (core t) = MsgSize t"
  "Tcb_TS (core t) = Tcb_TS t"
  "SemCtr (core t) = SemCtr t"
  "MsgQ (core t) = MsgQ t"
  "FlagsPend (core t) = FlagsPend t"
  "FlagsOpt (core t) = FlagsOpt t"
  "FlagsRdy (core t) = FlagsRdy t"
  "MutexGrpHeadPtr (core t) = MutexGrpHeadPtr t"
  "SuspendCtr (core t) = SuspendCtr t"
  "NamePtr (core t) = NamePtr t"
  "TickCtrPrev (core t) = TickCtrPrev t"
  "TimeQuanta (core t) = TimeQuanta t"
  "TimeQuantaCtr (core t) = TimeQuantaCtr t"
  by (simp_all add: core_def)

lemma core_eqI:
  assumes "core t = core t'"
  shows "TaskState t = TaskState t'"
    "PendOn t = PendOn t'"
    "PendObjPtr t = PendObjPtr t'"
    "Prio t = Prio t'"
    "BasePrio t = BasePrio t'"
    "PendStatus t = PendStatus t'"
    "MsgPtr t = MsgPtr t'"
    "MsgSize t = MsgSize t'"
    "Tcb_TS t = Tcb_TS t'"
    "SemCtr t = SemCtr t'"
    "MsgQ t = MsgQ t'"
    "FlagsPend t = FlagsPend t'"
    "FlagsOpt t = FlagsOpt t'"
    "FlagsRdy t = FlagsRdy t'"
    "MutexGrpHeadPtr t = MutexGrpHeadPtr t'"
    "SuspendCtr t = SuspendCtr t'"
    "NamePtr t = NamePtr t'"
    "TickCtrPrev t = TickCtrPrev t'"
    "TimeQuanta t = TimeQuanta t'"
    "TimeQuantaCtr t = TimeQuantaCtr t'"
  using assms by (metis core_sel)+

lemma movedI:
  assumes "s' = s\<lparr>OSTCBs := tf, OSObjs := ob, OSRdyList := rl, OSPrioTbl := tbl, OSTickList := l\<rparr>"
    and "\<And>c. c \<noteq> a \<Longrightarrow> core (tf c) = core (OSTCBs s c)"
    and "\<And>b. ocore (ob b) = ocore (OSObjs s b)"
  shows "moved a s s'"
  unfolding moved_def using assms by blast

lemma moved_upd_rdy [simp]: "moved a s (upd_rdy n p rl tbl s)"
  by (rule movedI [where tf = "\<lambda>a. (OSTCBs s a)\<lparr>NextPtr := n a, PrevPtr := p a\<rparr>"
        and ob = "OSObjs s" and rl = rl and tbl = tbl and l = "OSTickList s"]) (simp_all add: upd_rdy_def core_def)

lemma moved_upd_tick [simp]: "moved a s (upd_tick n p r l s)"
  by (rule movedI [where tf = "\<lambda>a. (OSTCBs s a)\<lparr>TickNextPtr := n a, TickPrevPtr := p a, TickRemain := r a\<rparr>"
        and ob = "OSObjs s" and rl = "OSRdyList s" and tbl = "OSPrioTbl s" and l = l]) (simp_all add: upd_tick_def core_def)

lemma moved_upd_pend:
  assumes "\<And>c. c \<noteq> a \<Longrightarrow> po c = pobj s c"
  shows "moved a s (upd_pend n p po pl s)"
  by (rule movedI [where
        tf = "\<lambda>a. (OSTCBs s a)\<lparr>PendNextPtr := n a, PendPrevPtr := p a, PendObjPtr := po a\<rparr>" and
        ob = "\<lambda>b. (OSObjs s b)\<lparr>PendList := pl b\<rparr>" and rl = "OSRdyList s" and
        tbl = "OSPrioTbl s" and l = "OSTickList s"])
    (use assms in \<open>auto simp: upd_pend_def core_def ocore_def pobj_def\<close>)

definition put_dbg :: "nat \<Rightarrow> string \<Rightarrow> kernel \<Rightarrow> kernel" where
  "put_dbg b nm s = s\<lparr>OSObjs := (OSObjs s)(b := (OSObjs s b)\<lparr>Obj_DbgNamePtr := nm\<rparr>)\<rparr>"

lemma set_obj_dbg: "set_obj (Some b) (Obj_DbgNamePtr_update (\<lambda>_. nm)) s = Some (put_dbg b nm s)"
  by (simp add: set_obj_def put_dbg_def)

lemma put_dbg_sel [simp]:
  "OSTCBs (put_dbg b nm s) = OSTCBs s" "plist (put_dbg b nm s) = plist s"
  "pobj (put_dbg b nm s) = pobj s" "OSPrioCur (put_dbg b nm s) = OSPrioCur s"
  by (simp_all add: put_dbg_def plist_def pobj_def fun_eq_iff)

lemma put_dbg_rels [simp]:
  "rdy_rel (put_dbg b nm s) R \<longleftrightarrow> rdy_rel s R"
  "pend_lists (put_dbg b nm s) W \<longleftrightarrow> pend_lists s W"
  "tick_lists (put_dbg b nm s) T \<longleftrightarrow> tick_lists s T"
  by (rule rdy_rel_cong pend_lists_cong tick_lists_cong; simp add: put_dbg_def)+

lemma moved_put_dbg [simp]: "moved a s (put_dbg b nm s)"
  by (rule movedI [where tf = "OSTCBs s" and
        ob = "(OSObjs s)(b := (OSObjs s b)\<lparr>Obj_DbgNamePtr := nm\<rparr>)" and
        rl = "OSRdyList s" and tbl = "OSPrioTbl s" and l = "OSTickList s"]) (auto simp: put_dbg_def ocore_def)

lemma ocore_sel: "Type (ocore b) = Type b" "Obj_NamePtr (ocore b) = Obj_NamePtr b"
  by (simp_all add: ocore_def)

lemma moved_sel:
  assumes "moved a s s'"
  shows "OSSems s' = OSSems s" "OSMutexes s' = OSMutexes s" "OSQs s' = OSQs s"
    "OSFlagGrps s' = OSFlagGrps s" "OSMsgs s' = OSMsgs s" "OSMsgPool s' = OSMsgPool s"
    "OSTickCtr s' = OSTickCtr s" "OSTCBCurPtr s' = OSTCBCurPtr s" "OSPrioCur s' = OSPrioCur s"
    "OSTCBHighRdyPtr s' = OSTCBHighRdyPtr s" "OSPrioHighRdy s' = OSPrioHighRdy s"
    "OSRunning s' = OSRunning s" "OSIntNestingCtr s' = OSIntNestingCtr s"
    "OSSchedLockNestingCtr s' = OSSchedLockNestingCtr s" "OSInitialized s' = OSInitialized s"
    "OSSchedRoundRobinEn s' = OSSchedRoundRobinEn s"
    "\<And>c. c \<noteq> a \<Longrightarrow> core (OSTCBs s' c) = core (OSTCBs s c)"
    "\<And>b. ocore (OSObjs s' b) = ocore (OSObjs s b)"
    "\<And>b. Type (OSObjs s' b) = Type (OSObjs s b)"
proof -
  from assms obtain tf ob rl tbl l where m: "s' = s\<lparr>OSTCBs := tf, OSObjs := ob, OSRdyList := rl,
      OSPrioTbl := tbl, OSTickList := l\<rparr>" "\<And>c. c \<noteq> a \<Longrightarrow> core (tf c) = core (OSTCBs s c)"
      "\<And>b. ocore (ob b) = ocore (OSObjs s b)"
    unfolding moved_def by blast
  have "Type (ob b) = Type (OSObjs s b)" for b using m(3) by (metis ocore_sel(1))
  then show "Type (OSObjs s' b) = Type (OSObjs s b)" for b by (simp add: m(1))
qed (use assms in \<open>auto simp: moved_def\<close>)

section \<open>The invariant\<close>

text \<open>\<open>A\<close> are the tasks that exist. A task is ready exactly if its state is RDY, on the tick
  list exactly if its state has a delay or a time-out, and on the pend list of exactly the
  object its \<open>PendObjPtr\<close> names; a pending task knows what it pends on.\<close>

definition timed :: "task_state \<Rightarrow> bool" where
  "timed st \<longleftrightarrow> st \<in> {OS_TASK_STATE_DLY, OS_TASK_STATE_PEND_TIMEOUT, OS_TASK_STATE_DLY_SUSPENDED,
     OS_TASK_STATE_PEND_TIMEOUT_SUSPENDED}"

definition pending :: "task_state \<Rightarrow> bool" where
  "pending st \<longleftrightarrow> st \<in> {OS_TASK_STATE_PEND, OS_TASK_STATE_PEND_TIMEOUT, OS_TASK_STATE_PEND_SUSPENDED,
     OS_TASK_STATE_PEND_TIMEOUT_SUSPENDED}"

definition on_object :: "pend_on \<Rightarrow> bool" where
  "on_object po \<longleftrightarrow> po \<in> {OS_TASK_PEND_ON_FLAG, OS_TASK_PEND_ON_MUTEX, OS_TASK_PEND_ON_Q,
     OS_TASK_PEND_ON_SEM, OS_TASK_PEND_ON_COND}"

definition task_ok ::
  "kernel \<Rightarrow> (u8 \<Rightarrow> nat list) \<Rightarrow> (nat \<Rightarrow> nat list) \<Rightarrow> nat list \<Rightarrow> nat \<Rightarrow> bool" where
  "task_ok s R W T a \<longleftrightarrow>
     unat (Prio (OSTCBs s a)) < OS_CFG_PRIO_MAX \<and>
     TaskState (OSTCBs s a) \<noteq> OS_TASK_STATE_DEL \<and>
     (a \<in> set (R (Prio (OSTCBs s a))) \<longleftrightarrow> TaskState (OSTCBs s a) = OS_TASK_STATE_RDY) \<and>
     (a \<in> set T \<longleftrightarrow> timed (TaskState (OSTCBs s a))) \<and>
     (\<forall>b. a \<in> set (W b) \<longleftrightarrow> PendObjPtr (OSTCBs s a) = Some b) \<and>
     (pending (TaskState (OSTCBs s a)) \<longleftrightarrow> PendOn (OSTCBs s a) \<noteq> OS_TASK_PEND_ON_NOTHING) \<and>
     (PendObjPtr (OSTCBs s a) \<noteq> None \<longleftrightarrow> on_object (PendOn (OSTCBs s a)))"

definition kinv ::
  "kernel \<Rightarrow> nat set \<Rightarrow> (u8 \<Rightarrow> nat list) \<Rightarrow> (nat \<Rightarrow> nat list) \<Rightarrow> nat list \<Rightarrow> bool" where
  "kinv s A R W T \<longleftrightarrow> rdy_rel s R \<and> pend_lists s W \<and> pend_sorted s W \<and> tick_lists s T \<and>
     (\<forall>a\<in>A. task_ok s R W T a) \<and>
     (\<forall>p. set (R p) \<subseteq> A) \<and> (\<forall>b. set (W b) \<subseteq> A) \<and> set T \<subseteq> A"

lemma kinvD:
  assumes "kinv s A R W T"
  shows "rdy_rel s R" "pend_lists s W" "pend_sorted s W" "tick_lists s T"
    "\<And>a. a \<in> A \<Longrightarrow> task_ok s R W T a"
    "\<And>p. set (R p) \<subseteq> A" "\<And>b. set (W b) \<subseteq> A" "set T \<subseteq> A"
  using assms by (auto simp: kinv_def)

text \<open>An operation that changes the standing of one task only.\<close>

lemma kinv_change:
  assumes K: "kinv s A R W T" and a: "a \<in> A"
    and rels: "rdy_rel s' R'" "pend_lists s' W'" "pend_sorted s' W'" "tick_lists s' T'"
    and others: "\<And>c. c \<noteq> a \<Longrightarrow> core (OSTCBs s' c) = core (OSTCBs s c)"
    and R: "\<And>p. set (R' p) - {a} = set (R p) - {a}"
    and W: "\<And>b. set (W' b) - {a} = set (W b) - {a}"
    and T: "set T' - {a} = set T - {a}"
    and ok: "task_ok s' R' W' T' a"
  shows "kinv s' A R' W' T'"
proof -
  have "task_ok s' R' W' T' c" if c: "c \<in> A" "c \<noteq> a" for c
  proof -
    have "\<And>p. c \<in> set (R' p) \<longleftrightarrow> c \<in> set (R p)" "\<And>b. c \<in> set (W' b) \<longleftrightarrow> c \<in> set (W b)"
      "c \<in> set T' \<longleftrightarrow> c \<in> set T" using R W T c(2) by blast+
    with kinvD(5) [OF K c(1)] core_eqI(1-4) [OF others [OF c(2)]] show ?thesis
      by (simp add: task_ok_def)
  qed
  with ok have 1: "\<forall>c\<in>A. task_ok s' R' W' T' c" by metis
  have 2: "\<forall>p. set (R' p) \<subseteq> A"
  proof
    fix p show "set (R' p) \<subseteq> A" using R [of p] a kinvD(6) [OF K, of p] by blast
  qed
  have 3: "\<forall>b. set (W' b) \<subseteq> A"
  proof
    fix b show "set (W' b) \<subseteq> A" using W [of b] a kinvD(7) [OF K, of b] by blast
  qed
  have "set T' \<subseteq> A" using T a kinvD(8) [OF K] by blast
  with rels 1 2 3 show ?thesis unfolding kinv_def by simp
qed

text \<open>States that agree on the links, the standing and the priorities of the tasks and on the
  list headers satisfy the same invariant.\<close>

lemma kinv_cong:
  assumes "\<And>a. TaskState (OSTCBs s' a) = TaskState (OSTCBs s a)"
    "\<And>a. PendOn (OSTCBs s' a) = PendOn (OSTCBs s a)"
    "\<And>a. PendObjPtr (OSTCBs s' a) = PendObjPtr (OSTCBs s a)"
    "\<And>a. Prio (OSTCBs s' a) = Prio (OSTCBs s a)"
    "rdy_rel s' R \<longleftrightarrow> rdy_rel s R" "pend_lists s' W \<longleftrightarrow> pend_lists s W"
    "tick_lists s' T \<longleftrightarrow> tick_lists s T"
  shows "kinv s' A R W T \<longleftrightarrow> kinv s A R W T"
  using assms by (simp add: kinv_def task_ok_def pend_sorted_def)

lemma kinv_put:
  assumes "\<And>t. TaskState (f t) = TaskState t" "\<And>t. PendOn (f t) = PendOn t"
    "\<And>t. PendObjPtr (f t) = PendObjPtr t" "\<And>t. Prio (f t) = Prio t"
    "\<And>t. NextPtr (f t) = NextPtr t" "\<And>t. PrevPtr (f t) = PrevPtr t"
    "\<And>t. PendNextPtr (f t) = PendNextPtr t" "\<And>t. PendPrevPtr (f t) = PendPrevPtr t"
    "\<And>t. TickNextPtr (f t) = TickNextPtr t" "\<And>t. TickPrevPtr (f t) = TickPrevPtr t"
    "\<And>t. TickRemain (f t) = TickRemain t"
  shows "kinv (put a f s) A R W T \<longleftrightarrow> kinv s A R W T"
  by (rule kinv_cong) (auto simp: assms rdy_rel_put pend_lists_put tick_lists_put)

section \<open>Stages of an operation on one task\<close>

text \<open>In the middle of an operation that moves the task \<open>a\<close> from the state \<open>s0\<close>: the TCB of
  \<open>a\<close> is \<open>t\<close> up to links, the lists are \<open>R\<close>, \<open>W\<close>, \<open>T\<close>, the tick counts \<open>r\<close>.\<close>

definition stage :: "nat \<Rightarrow> kernel \<Rightarrow> OS_TCB \<Rightarrow> kernel \<Rightarrow> (u8 \<Rightarrow> nat list) \<Rightarrow> (nat \<Rightarrow> nat list) \<Rightarrow>
    nat list \<Rightarrow> (nat \<Rightarrow> u32) \<Rightarrow> bool" where
  "stage a s0 t s R W T r \<longleftrightarrow> moved a s0 s \<and> core (OSTCBs s a) = core t \<and>
     rdy_rel s R \<and> pend_lists s W \<and> tick_lists s T \<and> trem s = r"

lemma stageD:
  assumes "stage a s0 t s R W T r"
  shows "moved a s0 s" "core (OSTCBs s a) = core t" "rdy_rel s R" "pend_lists s W"
    "tick_lists s T" "trem s = r"
  using assms by (simp_all add: stage_def)

lemma stage_init: "kinv s A R W T \<Longrightarrow> stage a s (OSTCBs s a) s R W T (trem s)"
  by (simp add: stage_def kinvD)

text \<open>Functions on TCBs that leave the links alone.\<close>

definition plain :: "(OS_TCB \<Rightarrow> OS_TCB) \<Rightarrow> bool" where
  "plain f \<longleftrightarrow> (\<forall>u. core (f u) = f (core u) \<and> NextPtr (f u) = NextPtr u \<and> PrevPtr (f u) = PrevPtr u \<and>
     PendNextPtr (f u) = PendNextPtr u \<and> PendPrevPtr (f u) = PendPrevPtr u \<and>
     PendObjPtr (f u) = PendObjPtr u \<and> TickNextPtr (f u) = TickNextPtr u \<and>
     TickPrevPtr (f u) = TickPrevPtr u \<and> TickRemain (f u) = TickRemain u \<and> Prio (f u) = Prio u)"

lemma plain_updates [simp]:
  "plain (MsgPtr_update (\<lambda>_. p))" "plain (MsgSize_update (\<lambda>_. z))" "plain (Tcb_TS_update (\<lambda>_. w))"
  "plain (TaskState_update (\<lambda>_. st))" "plain (PendStatus_update (\<lambda>_. ps))"
  "plain (PendOn_update (\<lambda>_. po))" "plain (Tcb_DbgNamePtr_update (\<lambda>_. nm))"
  "plain (TickCtrPrev_update (\<lambda>_. w))" "plain (SuspendCtr_update (\<lambda>_. sc))"
  "plain (SemCtr_update (\<lambda>_. w))" "plain (MutexGrpHeadPtr_update (\<lambda>_. p))"
  "plain (FlagsRdy_update (\<lambda>_. w))" "plain (FlagsPend_update (\<lambda>_. w))"
  "plain (FlagsOpt_update (\<lambda>_. opt))"
  by (simp_all add: plain_def core_def)

lemma stage_put:
  assumes S: "stage a s0 t s R W T r" and f: "plain f"
  shows "stage a s0 (f t) (put a f s) R W T r"
proof -
  have "core (f (OSTCBs s a)) = core (f t)"
    using f stageD(2) [OF S] by (metis plain_def)
  moreover have "trem (put a f s) = trem s" using f by (auto simp: trem_def plain_def)
  ultimately show ?thesis
    using S f moved_trans [OF _ moved_put]
    by (simp add: stage_def plain_def rdy_rel_put pend_lists_put tick_lists_put)
qed

lemma stage_rdy_ins:
  assumes S: "stage a s0 t s R W T r"
    and q: "Prio t = q" "unat q < OS_CFG_PRIO_MAX" and a: "a \<notin> set (R q)"
  obtains s' where "OS_RdyListInsert (Some a) s = Some s'"
    "stage a s0 t s' (R(q := (if q = OSPrioCur s0 then R q @ [a] else a # R q))) W T r"
proof -
  note D = stageD [OF S]
  have "Prio (OSTCBs s a) = q" using core_eqI(4) [OF D(2)] q(1) by simp
  from OS_RdyListInsert_spec [OF D(3) this q(2) a] obtain n p rl tbl where
    "OS_RdyListInsert (Some a) s = Some (upd_rdy n p rl tbl s)"
    "rdy_rel (upd_rdy n p rl tbl s) (R(q := (if q = OSPrioCur s then R q @ [a] else a # R q)))"
    by (elim rdy_okE)
  moreover have "core (OSTCBs (upd_rdy n p rl tbl s) a) = core t"
    using D(2) by (simp add: core_def)
  ultimately show thesis
    using D moved_trans [OF D(1) moved_upd_rdy] moved_sel(9) [OF D(1)]
    by (intro that [of "upd_rdy n p rl tbl s"]) (auto simp: stage_def)
qed

lemma stage_rdy_rem:
  assumes S: "stage a s0 t s R W T r" and a: "a \<in> set (R q)"
  obtains s' where "OS_RdyListRemove (Some a) s = Some s'"
    "stage a s0 t s' (R(q := remove1 a (R q))) W T r"
proof -
  note D = stageD [OF S]
  obtain as bs where ab: "R q = as @ a # bs" using a by (meson split_list)
  with rdy_rel_distinct [OF D(3), of q] have "remove1 a (R q) = as @ bs"
    by (simp add: remove1_middle)
  with OS_RdyListRemove_spec [OF D(3) ab] obtain n p rl tbl where
    "OS_RdyListRemove (Some a) s = Some (upd_rdy n p rl tbl s)"
    "rdy_rel (upd_rdy n p rl tbl s) (R(q := remove1 a (R q)))"
    by (auto elim: rdy_okE)
  moreover have "core (OSTCBs (upd_rdy n p rl tbl s) a) = core t"
    using D(2) by (simp add: core_def)
  ultimately show thesis
    using D moved_trans [OF D(1) moved_upd_rdy]
    by (intro that [of "upd_rdy n p rl tbl s"]) (auto simp: stage_def)
qed

lemma stage_tick_ins:
  assumes S: "stage a s0 t s R W T r" and a: "a \<notin> set T"
    and d: "d = time + tick_base - OSTickCtr s0" "d \<noteq> 0"
  obtains s' r' T' where "OS_TickListInsert (Some a) 0 tick_base time s = Some (True, s')"
    "stage a s0 t s' R W T' r'" "tick_inserted s T a (unat d) r' T'" "set T' = insert a (set T)"
proof -
  note D = stageD [OF S]
  have "d = time + tick_base - OSTickCtr s" using d(1) moved_sel(7) [OF D(1)] by simp
  from OS_TickListInsert_spec [OF D(5) a this d(2)] obtain n p r' l T' where I:
    "OS_TickListInsert (Some a) 0 tick_base time s = Some (True, upd_tick n p r' l s)"
    "tick_lists (upd_tick n p r' l s) T'" "tick_inserted s T a (unat d) r' T'" by blast
  moreover have "core (OSTCBs (upd_tick n p r' l s) a) = core t"
    using D(2) by (simp add: core_def)
  moreover have "set T' = insert a (set T)" using I(3) by (auto simp: tick_inserted_def)
  ultimately show thesis
    using D moved_trans [OF D(1) moved_upd_tick]
    by (intro that [of "upd_tick n p r' l s" T' r']) (auto simp: stage_def)
qed

lemma stage_tick_rem:
  assumes S: "stage a s0 t s R W T r" and a: "a \<in> set T"
  obtains s' r' where "OS_TickListRemove (Some a) s = Some s'"
    "stage a s0 t s' R W (remove1 a T) r'"
    "\<forall>c\<in>set (remove1 a T). due r' (remove1 a T) c = due r T c"
proof -
  note D = stageD [OF S]
  obtain as bs where ab: "T = as @ a # bs" using a by (meson split_list)
  with tick_listsD(5) [OF D(5)] have rm: "remove1 a T = as @ bs" by (simp add: remove1_middle)
  from OS_TickListRemove_spec [OF D(5) ab] obtain n p r' l where I:
    "OS_TickListRemove (Some a) s = Some (upd_tick n p r' l s)"
    "tick_lists (upd_tick n p r' l s) (as @ bs)"
    "\<forall>c\<in>set (as @ bs). due r' (as @ bs) c = due (trem s) T c" by blast
  moreover have "core (OSTCBs (upd_tick n p r' l s) a) = core t"
    using D(2) by (simp add: core_def)
  ultimately show thesis
    using D moved_trans [OF D(1) moved_upd_tick] unfolding rm [symmetric]
    by (intro that [of "upd_tick n p r' l s" r']) (auto simp: stage_def)
qed

text \<open>Leaving the pend list: \<open>W\<close> without \<open>a\<close>.\<close>

definition without :: "nat \<Rightarrow> (nat \<Rightarrow> nat list) \<Rightarrow> (nat \<Rightarrow> nat list)" where
  "without a W = (\<lambda>b. remove1 a (W b))"

lemma stage_pend_leave:
  assumes S: "stage a s0 t s R W T r" and a: "\<And>b. a \<in> set (W b) \<longleftrightarrow> PendObjPtr t = Some b"
  obtains s' where "OS_PendListRemove (Some a) s = Some s'"
    "stage a s0 (t\<lparr>PendObjPtr := None\<rparr>) s' R (without a W) T r"
proof -
  note D = stageD [OF S]
  have po: "pobj s a = PendObjPtr t" using core_eqI(3) [OF D(2)] by (simp add: pobj_def)
  have "pend_ok (OS_PendListRemove (Some a) s) s ((pobj s)(a := None)) (without a W)"
  proof (cases "PendObjPtr t")
    case None
    with a have "without a W = W" by (auto simp: without_def remove1_idem)
    moreover have "(pobj s)(a := None) = pobj s" using None po by auto
    ultimately show ?thesis using D(4) None po
      unfolding pend_ok_def by (metis OS_PendListRemove_none upd_pend_id)
  next
    case (Some b)
    with a have "a \<in> set (W b)" by simp
    then obtain as bs where ab: "W b = as @ a # bs" by (meson split_list)
    with dll_distinct [OF pend_listsD(1) [OF D(4)], of b] have "remove1 a (W b) = as @ bs"
      by (simp add: remove1_middle)
    moreover have "remove1 a (W c) = W c" if "c \<noteq> b" for c
      using a [of c] Some that by (simp add: remove1_idem)
    ultimately have "W(b := as @ bs) = without a W" by (auto simp: without_def)
    with OS_PendListRemove_spec [OF D(4) ab] show ?thesis by simp
  qed
  then obtain n p pl where I: "OS_PendListRemove (Some a) s =
      Some (upd_pend n p ((pobj s)(a := None)) pl s)"
    "pend_lists (upd_pend n p ((pobj s)(a := None)) pl s) (without a W)" by (elim pend_okE)
  have "core (OSTCBs (upd_pend n p ((pobj s)(a := None)) pl s) a) =
      (core (OSTCBs s a))\<lparr>PendObjPtr := None\<rparr>"
    by (simp add: core_def)
  also have "\<dots> = core (t\<lparr>PendObjPtr := None\<rparr>)" by (simp add: D(2)) (simp add: core_def)
  finally show thesis
    using I D moved_trans [OF D(1) moved_upd_pend [of a "(pobj s)(a := None)" s]]
    by (intro that) (auto simp: stage_def)
qed

text \<open>Joining the pend list of an object: \<open>PendObjPtr\<close> is set and the task is inserted.\<close>

lemma stage_pend_join:
  assumes S: "stage a s0 t s R W T r" and t: "PendObjPtr t = None"
    and pr: "\<And>c. prios s c = prios s0 c"
  obtains s1 s' where "set_tcb (Some a) (PendObjPtr_update (\<lambda>_. Some b)) s = Some s1"
    "OS_PendListInsertPrio (Some b) (Some a) s1 = Some s'"
    "stage a s0 (t\<lparr>PendObjPtr := Some b\<rparr>) s' R (W(b := pend_ins (prios s0) a (W b))) T r"
proof -
  note D = stageD [OF S]
  have po: "pobj s a = None" using core_eqI(3) [OF D(2)] t by (simp add: pobj_def)
  have out: "a \<notin> set (W c)" for c using pend_listsD(3) [OF D(4), of a c] po by auto
  let ?s1 = "upd_pend (pnxt s) (pprv s) ((pobj s)(a := Some b)) (plist s) s"
  have "pend_lists ?s1 W"
    unfolding pend_lists_def
  proof (intro allI conjI ballI)
    fix c d
    show "dll (pnxt ?s1) (pprv ?s1) (PL_HeadPtr (plist ?s1 c)) (PL_TailPtr (plist ?s1 c)) (W c)"
      "PL_NbrEntries (plist ?s1 c) = of_nat (length (W c))"
      using pend_listsD(1,2) [OF D(4), of c] by simp_all
    assume "d \<in> set (W c)"
    then show "pobj ?s1 d = Some c" using pend_listsD(3) [OF D(4)] out by auto
  qed
  from OS_PendListInsertPrio_spec [OF this, of a b] out
  obtain n p pl where I: "OS_PendListInsertPrio (Some b) (Some a) ?s1 =
      Some (upd_pend n p ((pobj s)(a := Some b)) pl s)"
    "pend_lists (upd_pend n p ((pobj s)(a := Some b)) pl s) (W(b := pend_ins (prios s0) a (W b)))"
    by (auto elim!: pend_okE simp: pr)
  have "core (OSTCBs (upd_pend n p ((pobj s)(a := Some b)) pl s) a) =
      (core (OSTCBs s a))\<lparr>PendObjPtr := Some b\<rparr>"
    by (simp add: core_def)
  also have "\<dots> = core (t\<lparr>PendObjPtr := Some b\<rparr>)" by (simp add: D(2)) (simp add: core_def)
  finally show thesis
    using I D moved_trans [OF D(1) moved_upd_pend [of a "(pobj s)(a := Some b)" s]]
    by (intro that [OF set_PendObjPtr]) (auto simp: stage_def)
qed

lemma stage_dbg:
  assumes "stage a s0 t s R W T r"
  shows "stage a s0 t (put_dbg b nm s) R W T r"
  using assms moved_trans [OF _ moved_put_dbg] by (simp add: stage_def trem_def)

text \<open>The end of the operation: the invariant is re-established if the task stands where its new
  TCB says.\<close>

definition becomes :: "nat \<Rightarrow> OS_TCB \<Rightarrow> kernel \<Rightarrow> kernel \<Rightarrow> nat set \<Rightarrow> (u8 \<Rightarrow> nat list) \<Rightarrow>
    (nat \<Rightarrow> nat list) \<Rightarrow> nat list \<Rightarrow> bool" where
  "becomes a t s s' A R' W' T' \<longleftrightarrow>
     moved a s s' \<and> core (OSTCBs s' a) = core t \<and> kinv s' A R' W' T'"

lemma becomesD:
  assumes "becomes a t s s' A R' W' T'"
  shows "moved a s s'" "core (OSTCBs s' a) = core t" "kinv s' A R' W' T'"
  using assms by (simp_all add: becomes_def)

lemma sorted_without: "pend_sorted s W \<Longrightarrow> pend_sorted s (without a W)"
  by (simp add: pend_sorted_def without_def sorted_map_remove1)

lemma pend_sorted_prios:
  assumes "\<And>c. prios s' c = prios s c" shows "pend_sorted s' W \<longleftrightarrow> pend_sorted s W"
  using assms by (simp add: pend_sorted_def)

lemma stage_prios:
  assumes "stage a s0 t s R W T r" and "Prio t = Prio (OSTCBs s0 a)"
  shows "prios s c = prios s0 c"
  using assms(2) core_eqI(4) [OF stageD(2) [OF assms(1)]]
    core_eqI(4) [OF moved_sel(17) [OF stageD(1) [OF assms(1)]]]
  by (cases "c = a") simp_all

lemma stage_becomes:
  assumes K: "kinv s0 A R W T" and a: "a \<in> A" and S: "stage a s0 t s R' W' T' r"
    and srt: "pend_sorted s0 W'" and pr: "Prio t = Prio (OSTCBs s0 a)"
    and R: "\<And>p. set (R' p) - {a} = set (R p) - {a}"
    and W: "\<And>b. set (W' b) - {a} = set (W b) - {a}"
    and T: "set T' - {a} = set T - {a}"
    and ok: "TaskState t \<noteq> OS_TASK_STATE_DEL"
      "a \<in> set (R' (Prio t)) \<longleftrightarrow> TaskState t = OS_TASK_STATE_RDY" "a \<in> set T' \<longleftrightarrow> timed (TaskState t)"
      "\<And>b. a \<in> set (W' b) \<longleftrightarrow> PendObjPtr t = Some b"
      "pending (TaskState t) \<longleftrightarrow> PendOn t \<noteq> OS_TASK_PEND_ON_NOTHING"
      "PendObjPtr t \<noteq> None \<longleftrightarrow> on_object (PendOn t)"
  shows "becomes a t s0 s A R' W' T'"
proof -
  note D = stageD [OF S]
  have "unat (Prio t) < OS_CFG_PRIO_MAX" using kinvD(5) [OF K a] pr by (simp add: task_ok_def)
  then have ok': "task_ok s R' W' T' a"
    using ok core_eqI(1-4) [OF D(2)] by (simp add: task_ok_def)
  have "pend_sorted s W'" using srt pend_sorted_prios [OF stage_prios [OF S pr]] by simp
  with D have "kinv s A R' W' T'"
    by (intro kinv_change [OF K a D(3,4) _ D(5) moved_sel(17) [OF D(1)] R W T ok'])
  with D show ?thesis by (simp add: becomes_def)
qed

text \<open>A suspension or resumption of a waiting task changes its state only.\<close>

lemma kinv_state:
  assumes K: "kinv s A R W T" and "timed st = timed (TaskState (OSTCBs s a))"
    and "pending st = pending (TaskState (OSTCBs s a))" and "st \<noteq> OS_TASK_STATE_DEL"
    and "st = OS_TASK_STATE_RDY \<longleftrightarrow> TaskState (OSTCBs s a) = OS_TASK_STATE_RDY"
  shows "kinv (put a (TaskState_update (\<lambda>_. st)) s) A R W T"
proof -
  have "rdy_rel (put a (TaskState_update (\<lambda>_. st)) s) R \<longleftrightarrow> rdy_rel s R"
    "pend_lists (put a (TaskState_update (\<lambda>_. st)) s) W \<longleftrightarrow> pend_lists s W"
    "tick_lists (put a (TaskState_update (\<lambda>_. st)) s) T \<longleftrightarrow> tick_lists s T"
    by (rule rdy_rel_put pend_lists_put tick_lists_put; simp)+
  moreover have "prios (put a (TaskState_update (\<lambda>_. st)) s) = prios s" by (simp add: fun_eq_iff)
  ultimately show ?thesis using assms
    unfolding kinv_def pend_sorted_def by (auto simp: task_ok_def)
qed

end
