(* ===== verification/Os_Block.thy ===== *)
theory Os_Block
  imports Kernel_Inv
begin

text \<open>
  Blocking and readying a task: the functions of \<open>os_core.c\<close>, \<open>os_mutex.c\<close>, \<open>os_task.c\<close> and
  \<open>os_tick.c\<close> that move a task between the ready list, the pend lists and the tick list, and
  the priority inheritance they trigger. All kernel services are built from them.
\<close>

section \<open>Blocking\<close>

definition OS_TaskBlock :: "ptr \<Rightarrow> u32 \<Rightarrow> kernel \<Rightarrow> kernel option" where
  "OS_TaskBlock p_tcb timeout s = do {
     s \<leftarrow>
       (if timeout > 0 then do {
          (_, s) \<leftarrow> OS_TickListInsert p_tcb 0 (OSTickCtr s) timeout s;
          set_tcb p_tcb (\<lambda>t. t\<lparr>TaskState := OS_TASK_STATE_PEND_TIMEOUT\<rparr>) s
        } else set_tcb p_tcb (\<lambda>t. t\<lparr>TaskState := OS_TASK_STATE_PEND\<rparr>) s);
     OS_RdyListRemove p_tcb s
   }"

definition OS_PendDbgNameAdd :: "ptr \<Rightarrow> ptr \<Rightarrow> kernel \<Rightarrow> kernel option" where
  "OS_PendDbgNameAdd p_obj p_tcb s =
     (if p_obj \<noteq> None then do {
        b \<leftarrow> obj s p_obj;
        s \<leftarrow> set_tcb p_tcb (\<lambda>t. t\<lparr>Tcb_DbgNamePtr := Obj_NamePtr b\<rparr>) s;
        let p_tcb1 = PL_HeadPtr (PendList b);
        t1 \<leftarrow> tcb s p_tcb1;
        set_obj p_obj (\<lambda>b. b\<lparr>Obj_DbgNamePtr := NamePtr t1\<rparr>) s
      } else do {
        t \<leftarrow> tcb s p_tcb;
        (case PendOn t of
           OS_TASK_PEND_ON_TASK_Q \<Rightarrow> set_tcb p_tcb (\<lambda>t. t\<lparr>Tcb_DbgNamePtr := ''Task Q''\<rparr>) s
         | OS_TASK_PEND_ON_TASK_SEM \<Rightarrow> set_tcb p_tcb (\<lambda>t. t\<lparr>Tcb_DbgNamePtr := ''Task Sem''\<rparr>) s
         | _ \<Rightarrow> set_tcb p_tcb (\<lambda>t. t\<lparr>Tcb_DbgNamePtr := '' ''\<rparr>) s)
      })"

definition OS_PendDbgNameRemove :: "ptr \<Rightarrow> ptr \<Rightarrow> kernel \<Rightarrow> kernel option" where
  "OS_PendDbgNameRemove p_obj p_tcb s = do {
     s \<leftarrow> set_tcb p_tcb (\<lambda>t. t\<lparr>Tcb_DbgNamePtr := '' ''\<rparr>) s;
     if p_obj \<noteq> None then do {
       b \<leftarrow> obj s p_obj;
       let p_tcb1 = PL_HeadPtr (PendList b);
       if p_tcb1 \<noteq> None then do {
         t1 \<leftarrow> tcb s p_tcb1;
         set_obj p_obj (\<lambda>b. b\<lparr>Obj_DbgNamePtr := NamePtr t1\<rparr>) s
       } else set_obj p_obj (\<lambda>b. b\<lparr>Obj_DbgNamePtr := '' ''\<rparr>) s
     } else Some s
   }"

definition OS_Pend :: "ptr \<Rightarrow> ptr \<Rightarrow> pend_on \<Rightarrow> u32 \<Rightarrow> kernel \<Rightarrow> kernel option" where
  "OS_Pend p_obj p_tcb pending_on timeout s = do {
     s \<leftarrow> set_tcb p_tcb (\<lambda>t. t\<lparr>PendOn := pending_on\<rparr>) s;
     s \<leftarrow> set_tcb p_tcb (\<lambda>t. t\<lparr>PendStatus := OS_STATUS_PEND_OK\<rparr>) s;
     s \<leftarrow> OS_TaskBlock p_tcb timeout s;
     s \<leftarrow>
       (if p_obj \<noteq> None then do {
          s \<leftarrow> set_tcb p_tcb (\<lambda>t. t\<lparr>PendObjPtr := p_obj\<rparr>) s;
          OS_PendListInsertPrio p_obj p_tcb s
        } else set_tcb p_tcb (\<lambda>t. t\<lparr>PendObjPtr := None\<rparr>) s);
     OS_PendDbgNameAdd p_obj p_tcb s
   }"

section \<open>Readying\<close>

definition OS_Post :: "ptr \<Rightarrow> ptr \<Rightarrow> ptr \<Rightarrow> u16 \<Rightarrow> u32 \<Rightarrow> kernel \<Rightarrow> kernel option" where
  "OS_Post p_obj p_tcb p_void msg_size ts s = do {
     t \<leftarrow> tcb s p_tcb;
     if TaskState t \<in> {OS_TASK_STATE_RDY, OS_TASK_STATE_DLY, OS_TASK_STATE_SUSPENDED,
         OS_TASK_STATE_DLY_SUSPENDED} then Some s
     else if TaskState t \<in> {OS_TASK_STATE_PEND, OS_TASK_STATE_PEND_TIMEOUT} then do {
       s \<leftarrow> set_tcb p_tcb (\<lambda>t. t\<lparr>MsgPtr := p_void\<rparr>) s;
       s \<leftarrow> set_tcb p_tcb (\<lambda>t. t\<lparr>MsgSize := msg_size\<rparr>) s;
       s \<leftarrow> set_tcb p_tcb (\<lambda>t. t\<lparr>Tcb_TS := ts\<rparr>) s;
       s \<leftarrow> (if p_obj \<noteq> None then OS_PendListRemove p_tcb s else Some s);
       s \<leftarrow> OS_PendDbgNameRemove p_obj p_tcb s;
       s \<leftarrow> (if TaskState t = OS_TASK_STATE_PEND_TIMEOUT then OS_TickListRemove p_tcb s
            else Some s);
       s \<leftarrow> OS_RdyListInsert p_tcb s;
       s \<leftarrow> set_tcb p_tcb (\<lambda>t. t\<lparr>TaskState := OS_TASK_STATE_RDY\<rparr>) s;
       s \<leftarrow> set_tcb p_tcb (\<lambda>t. t\<lparr>PendStatus := OS_STATUS_PEND_OK\<rparr>) s;
       set_tcb p_tcb (\<lambda>t. t\<lparr>PendOn := OS_TASK_PEND_ON_NOTHING\<rparr>) s
     } else if TaskState t \<in> {OS_TASK_STATE_PEND_SUSPENDED, OS_TASK_STATE_PEND_TIMEOUT_SUSPENDED}
     then do {
       s \<leftarrow> set_tcb p_tcb (\<lambda>t. t\<lparr>MsgPtr := p_void\<rparr>) s;
       s \<leftarrow> set_tcb p_tcb (\<lambda>t. t\<lparr>MsgSize := msg_size\<rparr>) s;
       s \<leftarrow> set_tcb p_tcb (\<lambda>t. t\<lparr>Tcb_TS := ts\<rparr>) s;
       s \<leftarrow> (if p_obj \<noteq> None then OS_PendListRemove p_tcb s else Some s);
       s \<leftarrow> OS_PendDbgNameRemove p_obj p_tcb s;
       s \<leftarrow> (if TaskState t = OS_TASK_STATE_PEND_TIMEOUT_SUSPENDED then OS_TickListRemove p_tcb s
            else Some s);
       s \<leftarrow> set_tcb p_tcb (\<lambda>t. t\<lparr>TaskState := OS_TASK_STATE_SUSPENDED\<rparr>) s;
       s \<leftarrow> set_tcb p_tcb (\<lambda>t. t\<lparr>PendStatus := OS_STATUS_PEND_OK\<rparr>) s;
       set_tcb p_tcb (\<lambda>t. t\<lparr>PendOn := OS_TASK_PEND_ON_NOTHING\<rparr>) s
     } else Some s
   }"

definition OS_PendAbort :: "ptr \<Rightarrow> u32 \<Rightarrow> pend_status \<Rightarrow> kernel \<Rightarrow> kernel option" where
  "OS_PendAbort p_tcb ts reason s = do {
     t \<leftarrow> tcb s p_tcb;
     if TaskState t \<in> {OS_TASK_STATE_PEND, OS_TASK_STATE_PEND_TIMEOUT} then do {
       s \<leftarrow> set_tcb p_tcb (\<lambda>t. t\<lparr>MsgPtr := None\<rparr>) s;
       s \<leftarrow> set_tcb p_tcb (\<lambda>t. t\<lparr>MsgSize := 0\<rparr>) s;
       s \<leftarrow> set_tcb p_tcb (\<lambda>t. t\<lparr>Tcb_TS := ts\<rparr>) s;
       s \<leftarrow> OS_PendListRemove p_tcb s;
       s \<leftarrow> (if TaskState t = OS_TASK_STATE_PEND_TIMEOUT then OS_TickListRemove p_tcb s
            else Some s);
       s \<leftarrow> OS_RdyListInsert p_tcb s;
       s \<leftarrow> set_tcb p_tcb (\<lambda>t. t\<lparr>TaskState := OS_TASK_STATE_RDY\<rparr>) s;
       s \<leftarrow> set_tcb p_tcb (\<lambda>t. t\<lparr>PendStatus := reason\<rparr>) s;
       set_tcb p_tcb (\<lambda>t. t\<lparr>PendOn := OS_TASK_PEND_ON_NOTHING\<rparr>) s
     } else if TaskState t \<in> {OS_TASK_STATE_PEND_SUSPENDED, OS_TASK_STATE_PEND_TIMEOUT_SUSPENDED}
     then do {
       s \<leftarrow> set_tcb p_tcb (\<lambda>t. t\<lparr>MsgPtr := None\<rparr>) s;
       s \<leftarrow> set_tcb p_tcb (\<lambda>t. t\<lparr>MsgSize := 0\<rparr>) s;
       s \<leftarrow> set_tcb p_tcb (\<lambda>t. t\<lparr>Tcb_TS := ts\<rparr>) s;
       s \<leftarrow> OS_PendListRemove p_tcb s;
       s \<leftarrow> (if TaskState t = OS_TASK_STATE_PEND_TIMEOUT_SUSPENDED then OS_TickListRemove p_tcb s
            else Some s);
       s \<leftarrow> set_tcb p_tcb (\<lambda>t. t\<lparr>TaskState := OS_TASK_STATE_SUSPENDED\<rparr>) s;
       s \<leftarrow> set_tcb p_tcb (\<lambda>t. t\<lparr>PendStatus := reason\<rparr>) s;
       set_tcb p_tcb (\<lambda>t. t\<lparr>PendOn := OS_TASK_PEND_ON_NOTHING\<rparr>) s
     } else Some s
   }"

section \<open>Mutex groups and priority inheritance\<close>

text \<open>The mutexes a task owns are chained from \<open>MutexGrpHeadPtr\<close> through \<open>MutexGrpNextPtr\<close>.\<close>

definition OS_MutexGrpAdd :: "ptr \<Rightarrow> ptr \<Rightarrow> kernel \<Rightarrow> kernel option" where
  "OS_MutexGrpAdd p_tcb p_mutex s = do {
     t \<leftarrow> tcb s p_tcb;
     s \<leftarrow> set_mutex p_mutex (\<lambda>m. m\<lparr>MutexGrpNextPtr := MutexGrpHeadPtr t\<rparr>) s;
     set_tcb p_tcb (\<lambda>t. t\<lparr>MutexGrpHeadPtr := p_mutex\<rparr>) s
   }"

text \<open>The loop of \<open>OS_MutexGrpRemove\<close> walks with a pointer to the pointer that leads to the
  current mutex; \<open>prev\<close> names it: null is the head pointer in the TCB, a mutex its
  \<open>MutexGrpNextPtr\<close>.\<close>

partial_function (option) grp_find :: "ptr \<Rightarrow> ptr \<Rightarrow> ptr \<Rightarrow> kernel \<Rightarrow> ptr option" where
  "grp_find p_mutex prev cur s =
     (if cur = p_mutex then Some prev
      else do { m \<leftarrow> mutex s cur; grp_find p_mutex cur (MutexGrpNextPtr m) s })"

definition OS_MutexGrpRemove :: "ptr \<Rightarrow> ptr \<Rightarrow> kernel \<Rightarrow> kernel option" where
  "OS_MutexGrpRemove p_tcb p_mutex s = do {
     t \<leftarrow> tcb s p_tcb;
     prev \<leftarrow> grp_find p_mutex None (MutexGrpHeadPtr t) s;
     m \<leftarrow> mutex s p_mutex;
     (if prev = None then set_tcb p_tcb (\<lambda>t. t\<lparr>MutexGrpHeadPtr := MutexGrpNextPtr m\<rparr>) s
      else set_mutex prev (\<lambda>m'. m'\<lparr>MutexGrpNextPtr := MutexGrpNextPtr m\<rparr>) s)
   }"

partial_function (option) grp_highest :: "ptr \<Rightarrow> u8 \<Rightarrow> kernel \<Rightarrow> u8 option" where
  "grp_highest cur highest_prio s =
     (case cur of
        None \<Rightarrow> Some highest_prio
      | Some m \<Rightarrow>
          grp_highest (MutexGrpNextPtr (OSMutexes s m))
            (case PL_HeadPtr (PendList (OSObjs s m)) of
               None \<Rightarrow> highest_prio
             | Some h \<Rightarrow> (let prio = Prio (OSTCBs s h) in
                 if prio < highest_prio then prio else highest_prio)) s)"

definition OS_MutexGrpPrioFindHighest :: "ptr \<Rightarrow> kernel \<Rightarrow> u8 option" where
  "OS_MutexGrpPrioFindHighest p_tcb s = do {
     t \<leftarrow> tcb s p_tcb;
     grp_highest (MutexGrpHeadPtr t) (of_nat (OS_CFG_PRIO_MAX - 1)) s
   }"

text \<open>One round of the loop of \<open>OS_TaskChangePrio\<close>: the priority of one task is changed; the
  task to go on with (null: none) and its new priority are returned.\<close>

definition change_prio_round :: "ptr \<Rightarrow> u8 \<Rightarrow> kernel \<Rightarrow> (ptr \<times> u8 \<times> kernel) option" where
  "change_prio_round p_tcb prio_new s = do {
     t \<leftarrow> tcb s p_tcb;
     let prio_cur = Prio t;
     (case TaskState t of
        OS_TASK_STATE_RDY \<Rightarrow> do {
          s \<leftarrow> OS_RdyListRemove p_tcb s;
          s \<leftarrow> set_tcb p_tcb (\<lambda>t. t\<lparr>Prio := prio_new\<rparr>) s;
          s \<leftarrow> OS_PrioInsert prio_new s;
          s \<leftarrow> (if p_tcb = OSTCBCurPtr s then OS_RdyListInsertHead p_tcb s
               else OS_RdyListInsertTail p_tcb s);
          Some (None, prio_new, s)
        }
      | OS_TASK_STATE_DEL \<Rightarrow> Some (None, prio_new, s)
      | st \<Rightarrow>
          if st \<in> {OS_TASK_STATE_DLY, OS_TASK_STATE_SUSPENDED, OS_TASK_STATE_DLY_SUSPENDED}
          then do {
            s \<leftarrow> set_tcb p_tcb (\<lambda>t. t\<lparr>Prio := prio_new\<rparr>) s;
            Some (None, prio_new, s)
          } else do {
            s \<leftarrow> set_tcb p_tcb (\<lambda>t. t\<lparr>Prio := prio_new\<rparr>) s;
            if PendOn t \<in> {OS_TASK_PEND_ON_FLAG, OS_TASK_PEND_ON_Q, OS_TASK_PEND_ON_SEM} then do {
              s \<leftarrow> OS_PendListChangePrio p_tcb s;
              Some (None, prio_new, s)
            } else if PendOn t = OS_TASK_PEND_ON_MUTEX then do {
              s \<leftarrow> OS_PendListChangePrio p_tcb s;
              t \<leftarrow> tcb s p_tcb;
              m \<leftarrow> mutex s (PendObjPtr t);
              let p_tcb_owner = OwnerTCBPtr m;
              owner \<leftarrow> tcb s p_tcb_owner;
              if prio_cur > prio_new then
                Some (if Prio owner \<le> prio_new then None else p_tcb_owner, prio_new, s)
              else if Prio owner = prio_cur then do {
                hp \<leftarrow> OS_MutexGrpPrioFindHighest p_tcb_owner s;
                let prio_new = (if hp > BasePrio owner then BasePrio owner else hp);
                Some (if prio_new = Prio owner then None else p_tcb_owner, prio_new, s)
              } else Some (p_tcb_owner, prio_new, s)
            } else Some (None, prio_new, s)
          })
   }"

text \<open>The loop may go on for ever on a cycle of owners; it does not return then (\<open>None\<close>).\<close>

partial_function (option) OS_TaskChangePrio :: "ptr \<Rightarrow> u8 \<Rightarrow> kernel \<Rightarrow> kernel option" where
  "OS_TaskChangePrio p_tcb prio_new s = do {
     (p_tcb_owner, prio_new', s') \<leftarrow> change_prio_round p_tcb prio_new s;
     if p_tcb_owner = None then Some s' else OS_TaskChangePrio p_tcb_owner prio_new' s'
   }"

text \<open>\<open>ts n\<close> is the time stamp read in round \<open>n\<close> of the loop of \<open>OS_MutexGrpPostAll\<close>.\<close>

partial_function (option) grp_post_all ::
  "ptr \<Rightarrow> ptr \<Rightarrow> (nat \<Rightarrow> u32) \<Rightarrow> nat \<Rightarrow> kernel \<Rightarrow> kernel option" where
  "grp_post_all p_tcb p_mutex ts n s =
     (if p_mutex = None then Some s
      else do {
        m \<leftarrow> mutex s p_mutex;
        let p_mutex_next = MutexGrpNextPtr m;
        s \<leftarrow> set_mutex p_mutex (\<lambda>m. m\<lparr>Mutex_TS := ts n\<rparr>) s;
        s \<leftarrow> OS_MutexGrpRemove p_tcb p_mutex s;
        l \<leftarrow> pend_list s p_mutex;
        s \<leftarrow>
          (if PL_HeadPtr l = None then do {
             s \<leftarrow> set_mutex p_mutex (\<lambda>m. m\<lparr>OwnerNestingCtr := 0\<rparr>) s;
             set_mutex p_mutex (\<lambda>m. m\<lparr>OwnerTCBPtr := None\<rparr>) s
           } else do {
             let p_tcb_new = PL_HeadPtr l;
             s \<leftarrow> set_mutex p_mutex (\<lambda>m. m\<lparr>OwnerTCBPtr := p_tcb\<rparr>) s;
             s \<leftarrow> set_mutex p_mutex (\<lambda>m. m\<lparr>OwnerNestingCtr := 1\<rparr>) s;
             s \<leftarrow> OS_MutexGrpAdd p_tcb_new p_mutex s;
             OS_Post p_mutex p_tcb_new None 0 (ts n) s
           });
        grp_post_all p_tcb p_mutex_next ts (Suc n) s
      })"

definition OS_MutexGrpPostAll :: "ptr \<Rightarrow> (nat \<Rightarrow> u32) \<Rightarrow> kernel \<Rightarrow> kernel option" where
  "OS_MutexGrpPostAll p_tcb ts s = do {
     t \<leftarrow> tcb s p_tcb;
     grp_post_all p_tcb (MutexGrpHeadPtr t) ts 0 s
   }"

section \<open>Expiry of delays and time-outs\<close>

text \<open>The body of the loop of \<open>OS_TickListUpdate\<close> for a task whose time is up.\<close>

definition tick_expire :: "ptr \<Rightarrow> u32 \<Rightarrow> kernel \<Rightarrow> kernel option" where
  "tick_expire p_tcb ts s = do {
     t \<leftarrow> tcb s p_tcb;
     (case TaskState t of
        OS_TASK_STATE_DLY \<Rightarrow> do {
          s \<leftarrow> set_tcb p_tcb (\<lambda>t. t\<lparr>TaskState := OS_TASK_STATE_RDY\<rparr>) s;
          OS_RdyListInsert p_tcb s
        }
      | OS_TASK_STATE_DLY_SUSPENDED \<Rightarrow>
          set_tcb p_tcb (\<lambda>t. t\<lparr>TaskState := OS_TASK_STATE_SUSPENDED\<rparr>) s
      | _ \<Rightarrow> do {
          p_tcb_owner \<leftarrow>
            (if PendOn t = OS_TASK_PEND_ON_MUTEX
             then map_option OwnerTCBPtr (mutex s (PendObjPtr t)) else Some None);
          s \<leftarrow> set_tcb p_tcb (\<lambda>t. t\<lparr>MsgPtr := None\<rparr>) s;
          s \<leftarrow> set_tcb p_tcb (\<lambda>t. t\<lparr>MsgSize := 0\<rparr>) s;
          s \<leftarrow> set_tcb p_tcb (\<lambda>t. t\<lparr>Tcb_TS := ts\<rparr>) s;
          s \<leftarrow> OS_PendListRemove p_tcb s;
          s \<leftarrow> (case TaskState t of
                 OS_TASK_STATE_PEND_TIMEOUT \<Rightarrow> do {
                   s \<leftarrow> OS_RdyListInsert p_tcb s;
                   set_tcb p_tcb (\<lambda>t. t\<lparr>TaskState := OS_TASK_STATE_RDY\<rparr>) s
                 }
               | OS_TASK_STATE_PEND_TIMEOUT_SUSPENDED \<Rightarrow>
                   set_tcb p_tcb (\<lambda>t. t\<lparr>TaskState := OS_TASK_STATE_SUSPENDED\<rparr>) s
               | _ \<Rightarrow> Some s);
          s \<leftarrow> set_tcb p_tcb (\<lambda>t. t\<lparr>PendStatus := OS_STATUS_PEND_TIMEOUT\<rparr>) s;
          s \<leftarrow> set_tcb p_tcb (\<lambda>t. t\<lparr>PendOn := OS_TASK_PEND_ON_NOTHING\<rparr>) s;
          if p_tcb_owner \<noteq> None then do {
            owner \<leftarrow> tcb s p_tcb_owner;
            t \<leftarrow> tcb s p_tcb;
            if Prio owner \<noteq> BasePrio owner \<and> Prio owner = Prio t then do {
              hp \<leftarrow> OS_MutexGrpPrioFindHighest p_tcb_owner s;
              let prio_new = (if hp > BasePrio owner then BasePrio owner else hp);
              if prio_new \<noteq> Prio owner then OS_TaskChangePrio p_tcb_owner prio_new s else Some s
            } else Some s
          } else Some s
        })
   }"

text \<open>The ticks that reach a node are taken off it; the rest goes on to the next node.\<close>

definition tick_consume :: "ptr \<Rightarrow> u32 \<Rightarrow> kernel \<Rightarrow> (u32 \<times> kernel) option" where
  "tick_consume p_tcb ticks s = do {
     t \<leftarrow> tcb s p_tcb;
     if TickRemain t \<le> ticks then do {
       s \<leftarrow> set_tcb p_tcb (\<lambda>t. t\<lparr>TickRemain := 0\<rparr>) s;
       Some (ticks - TickRemain t, s)
     } else do {
       s \<leftarrow> set_tcb p_tcb (\<lambda>t. t\<lparr>TickRemain := TickRemain t - ticks\<rparr>) s;
       Some (ticks, s)
     }
   }"

partial_function (option) tick_loop ::
  "ptr \<Rightarrow> u32 \<Rightarrow> u16 \<Rightarrow> (nat \<Rightarrow> u32) \<Rightarrow> nat \<Rightarrow> kernel \<Rightarrow> (u16 \<times> kernel) option" where
  "tick_loop p_tcb ticks nbr_updated ts n s = do {
     t \<leftarrow> tcb s p_tcb;
     if TickRemain t = 0 then do {
       s \<leftarrow> tick_expire p_tcb (ts n) s;
       t \<leftarrow> tcb s p_tcb;
       let s = set_tick_list (\<lambda>l. l\<lparr>TL_TCB_Ptr := TickNextPtr t\<rparr>) s;
       let p_tcb' = TickNextPtr t;
       if p_tcb' = None then
         Some (nbr_updated + 1, set_tick_list (\<lambda>l. l\<lparr>TL_NbrEntries := 0\<rparr>) s)
       else do {
         let s = set_tick_list (\<lambda>l. l\<lparr>TL_NbrEntries := TL_NbrEntries l - 1\<rparr>) s;
         s \<leftarrow> set_tcb p_tcb' (\<lambda>t. t\<lparr>TickPrevPtr := None\<rparr>) s;
         (ticks', s) \<leftarrow> tick_consume p_tcb' ticks s;
         tick_loop p_tcb' ticks' (nbr_updated + 1) ts (Suc n) s
       }
     } else Some (nbr_updated, s)
   }"

definition OS_TickListUpdate :: "u32 \<Rightarrow> (nat \<Rightarrow> u32) \<Rightarrow> kernel \<Rightarrow> kernel option" where
  "OS_TickListUpdate ticks ts s = do {
     let p_tcb = TL_TCB_Ptr (OSTickList s);
     (nbr_updated, s) \<leftarrow>
       (if p_tcb \<noteq> None then do {
          (ticks, s) \<leftarrow> tick_consume p_tcb ticks s;
          tick_loop p_tcb ticks 0 ts 0 s
        } else Some (0, s));
     Some (set_tick_list (\<lambda>l. l\<lparr>TL_NbrUpdated := nbr_updated\<rparr>) s)
   }"

text \<open>The measurement of the running time of the update (\<open>OSTickTime\<close>) is left out.\<close>

definition OS_TickUpdate :: "u32 \<Rightarrow> (nat \<Rightarrow> u32) \<Rightarrow> kernel \<Rightarrow> kernel option" where
  "OS_TickUpdate ticks ts s =
     OS_TickListUpdate ticks ts (s\<lparr>OSTickCtr := OSTickCtr s + ticks\<rparr>)"

section \<open>What the operations do to the lists\<close>

lemma task_okD:
  assumes "kinv s A R W T" and "a \<in> A"
  shows "unat (Prio (OSTCBs s a)) < OS_CFG_PRIO_MAX"
    "a \<in> set (R (Prio (OSTCBs s a))) \<longleftrightarrow> TaskState (OSTCBs s a) = OS_TASK_STATE_RDY"
    "a \<in> set T \<longleftrightarrow> timed (TaskState (OSTCBs s a))"
    "\<And>b. a \<in> set (W b) \<longleftrightarrow> PendObjPtr (OSTCBs s a) = Some b"
    "pending (TaskState (OSTCBs s a)) \<longleftrightarrow> PendOn (OSTCBs s a) \<noteq> OS_TASK_PEND_ON_NOTHING"
    "PendObjPtr (OSTCBs s a) \<noteq> None \<longleftrightarrow> on_object (PendOn (OSTCBs s a))"
  using kinvD(5) [OF assms] by (simp_all add: task_ok_def)

lemma not_ready_anywhere:
  assumes K: "kinv s A R W T" and a: "a \<in> A" and n: "TaskState (OSTCBs s a) \<noteq> OS_TASK_STATE_RDY"
  shows "a \<notin> set (R p)"
  using task_okD(2) [OF K a] n rdy_rel_prio [OF kinvD(1) [OF K]] by metis

text \<open>The list of a priority with a task that becomes ready: at the tail for the priority of the
  running task, at the head for the others.\<close>

definition rdy_ins :: "kernel \<Rightarrow> nat \<Rightarrow> (u8 \<Rightarrow> nat list) \<Rightarrow> (u8 \<Rightarrow> nat list)" where
  "rdy_ins s a R = (let q = Prio (OSTCBs s a) in
     R(q := (if q = OSPrioCur s then R q @ [a] else a # R q)))"

definition rdy_del :: "kernel \<Rightarrow> nat \<Rightarrow> (u8 \<Rightarrow> nat list) \<Rightarrow> (u8 \<Rightarrow> nat list)" where
  "rdy_del s a R = (let q = Prio (OSTCBs s a) in R(q := remove1 a (R q)))"

lemma set_rdy_ins: "set (rdy_ins s a R p) - {a} = set (R p) - {a}"
  by (auto simp: rdy_ins_def Let_def)

lemma in_rdy_ins: "a \<in> set (rdy_ins s a R (Prio (OSTCBs s a)))"
  by (auto simp: rdy_ins_def Let_def)

lemma set_remove1_minus: "set (remove1 a xs) - {a} = set xs - {a}"
  by (induction xs) auto

lemma set_without: "set (without a W b) - {a} = set (W b) - {a}"
  by (simp add: without_def set_remove1_minus)

lemma kinv_distinct:
  assumes "kinv s A R W T"
  shows "distinct (R p)" "distinct (W b)" "distinct T"
  using rdy_rel_distinct kinvD(1) [OF assms] dll_distinct [OF pend_listsD(1) [OF kinvD(2) [OF assms]]]
    tick_listsD(5) [OF kinvD(4) [OF assms]] by blast+

lemma not_in_without: "kinv s A R W T \<Longrightarrow> a \<notin> set (without a W b)"
  using kinv_distinct(2) by (simp add: without_def)

lemma OS_PendDbgNameRemove_stage:
  assumes "stage a s0 t s R W T r"
  obtains s' where "OS_PendDbgNameRemove p_obj (Some a) s = Some s'"
    "stage a s0 (t\<lparr>Tcb_DbgNamePtr := '' ''\<rparr>) s' R W T r"
proof -
  let ?s1 = "put a (Tcb_DbgNamePtr_update (\<lambda>_. '' '')) s"
  have S1: "stage a s0 (t\<lparr>Tcb_DbgNamePtr := '' ''\<rparr>) ?s1 R W T r"
    using stage_put [OF assms, of "Tcb_DbgNamePtr_update (\<lambda>_. '' '')"] by simp
  have "\<exists>s'. OS_PendDbgNameRemove p_obj (Some a) s = Some s' \<and>
      stage a s0 (t\<lparr>Tcb_DbgNamePtr := '' ''\<rparr>) s' R W T r"
    using S1 stage_dbg [OF S1]
    by (cases p_obj)
      (auto simp: OS_PendDbgNameRemove_def set_tcb_put obj_def set_obj_dbg tcb_def Let_def
        split: option.splits)
  then show thesis using that by blast
qed

text \<open>A pending task leaves the lists and becomes ready, or stays suspended.\<close>

definition runs :: "task_state \<Rightarrow> bool" where
  "runs st \<longleftrightarrow> st \<in> {OS_TASK_STATE_PEND, OS_TASK_STATE_PEND_TIMEOUT}"

definition unpend_state :: "task_state \<Rightarrow> task_state" where
  "unpend_state st = (if runs st then OS_TASK_STATE_RDY else OS_TASK_STATE_SUSPENDED)"

lemma stage_tick_leave:
  assumes "stage a s0 t s R W T r" and "a \<in> set T \<longleftrightarrow> b"
  obtains s' r' where "(if b then OS_TickListRemove (Some a) s else Some s) = Some s'"
    "stage a s0 t s' R W (remove1 a T) r'"
proof (cases b)
  case True
  with assms(2) have "a \<in> set T" by simp
  from stage_tick_rem [OF assms(1) this] obtain s' r' where
    "OS_TickListRemove (Some a) s = Some s'" "stage a s0 t s' R W (remove1 a T) r'" by metis
  with True show thesis by (intro that [of s' r']) simp_all
next
  case False
  with assms show thesis by (intro that [of s r]) (simp_all add: remove1_idem)
qed

lemma stage_make_ready:
  assumes K: "kinv s0 A R' W' T'" and a: "a \<in> A" and S: "stage a s0 t s R W T r"
    and pr: "Prio t = Prio (OSTCBs s0 a)" and nR: "\<And>p. a \<notin> set (R p)"
  obtains s' where "(if b then OS_RdyListInsert (Some a) s else Some s) = Some s'"
    "stage a s0 t s' (if b then rdy_ins s0 a R else R) W T r"
proof (cases b)
  case True
  show thesis
    by (rule stage_rdy_ins [OF S pr task_okD(1) [OF K a] nR])
      (use True that in \<open>simp add: rdy_ins_def Let_def\<close>)
next
  case False
  with S show thesis by (intro that [of s]) simp_all
qed

lemma stage_unpended:
  assumes K: "kinv s A R W T" and a: "a \<in> A" and pd: "pending (TaskState (OSTCBs s a))"
    and S: "stage a s t s' (if runs (TaskState (OSTCBs s a)) then rdy_ins s a R else R)
      (without a W) (remove1 a T) r"
    and t: "Prio t = Prio (OSTCBs s a)" "TaskState t = unpend_state (TaskState (OSTCBs s a))"
      "PendObjPtr t = None" "PendOn t = OS_TASK_PEND_ON_NOTHING"
  shows "becomes a t s s' A (if runs (TaskState (OSTCBs s a)) then rdy_ins s a R else R)
      (without a W) (remove1 a T)"
proof -
  have nR: "a \<notin> set (R p)" for p
    using not_ready_anywhere [OF K a] pd by (auto simp: pending_def)
  show ?thesis
    by (rule stage_becomes [OF K a S])
      (use kinvD(3) [OF K] nR not_in_without [OF K] kinv_distinct(3) [OF K] in_rdy_ins [of a s R] t
       in \<open>auto simp: sorted_without set_rdy_ins set_without set_remove1_minus
        timed_def pending_def on_object_def unpend_state_def\<close>)
qed

lemma pending_cases:
  "pending st \<longleftrightarrow> st = OS_TASK_STATE_PEND \<or> st = OS_TASK_STATE_PEND_TIMEOUT \<or>
     st = OS_TASK_STATE_PEND_SUSPENDED \<or> st = OS_TASK_STATE_PEND_TIMEOUT_SUSPENDED"
  by (auto simp: pending_def)

lemma stage_msg:
  assumes "stage a s0 t s R W T r"
  shows "stage a s0 (t\<lparr>MsgPtr := p, MsgSize := z, Tcb_TS := w\<rparr>)
    (put a (Tcb_TS_update (\<lambda>_. w)) (put a (MsgSize_update (\<lambda>_. z)) (put a (MsgPtr_update (\<lambda>_. p)) s)))
    R W T r"
  using stage_put [OF stage_put [OF stage_put [OF assms, of "MsgPtr_update (\<lambda>_. p)"],
    of "MsgSize_update (\<lambda>_. z)"], of "Tcb_TS_update (\<lambda>_. w)"] by simp

lemma stage_status:
  assumes "stage a s0 t s R W T r"
  shows "stage a s0 (t\<lparr>TaskState := st, PendStatus := ps, PendOn := po\<rparr>)
    (put a (PendOn_update (\<lambda>_. po)) (put a (PendStatus_update (\<lambda>_. ps))
      (put a (TaskState_update (\<lambda>_. st)) s))) R W T r"
  using stage_put [OF stage_put [OF stage_put [OF assms, of "TaskState_update (\<lambda>_. st)"],
    of "PendStatus_update (\<lambda>_. ps)"], of "PendOn_update (\<lambda>_. po)"] by simp

text \<open>\<open>OS_Post\<close> hands the message over and ends the wait of a pending task; other tasks are left
  alone.\<close>

definition posted_tcb :: "ptr \<Rightarrow> u16 \<Rightarrow> u32 \<Rightarrow> OS_TCB \<Rightarrow> OS_TCB" where
  "posted_tcb p_void msg_size ts t = t\<lparr>MsgPtr := p_void, MsgSize := msg_size, Tcb_TS := ts,
     PendObjPtr := None, Tcb_DbgNamePtr := '' '', TaskState := unpend_state (TaskState t),
     PendStatus := OS_STATUS_PEND_OK, PendOn := OS_TASK_PEND_ON_NOTHING\<rparr>"

lemma OS_Post_other:
  "\<not> pending (TaskState (OSTCBs s a)) \<Longrightarrow> OS_Post p_obj (Some a) p_void msg_size ts s = Some s"
  by (cases "TaskState (OSTCBs s a)") (simp_all add: OS_Post_def pending_def)

lemma OS_Post_spec:
  assumes K: "kinv s A R W T" and a: "a \<in> A" and pd: "pending (TaskState (OSTCBs s a))"
    and po: "PendObjPtr (OSTCBs s a) = p_obj"
  shows "\<exists>s'. OS_Post p_obj (Some a) p_void msg_size ts s = Some s' \<and>
    becomes a (posted_tcb p_void msg_size ts (OSTCBs s a)) s s' A
      (if runs (TaskState (OSTCBs s a)) then rdy_ins s a R else R) (without a W) (remove1 a T)"
proof -
  let ?t = "OSTCBs s a"
  note ok = task_okD [OF K a]
  have nR: "a \<notin> set (R p)" for p
    using not_ready_anywhere [OF K a] pd by (auto simp: pending_def)
  note S1 = stage_msg [OF stage_init [OF K, of a], where p = p_void and z = msg_size and w = ts]
  obtain s2 where s2: "OS_PendListRemove (Some a) (put a (Tcb_TS_update (\<lambda>_. ts))
      (put a (MsgSize_update (\<lambda>_. msg_size)) (put a (MsgPtr_update (\<lambda>_. p_void)) s))) = Some s2"
    and S2: "stage a s (?t\<lparr>MsgPtr := p_void, MsgSize := msg_size, Tcb_TS := ts, PendObjPtr := None\<rparr>)
      s2 R (without a W) T (trem s)"
    by (rule stage_pend_leave [OF S1]) (use ok(4) in auto)
  obtain s3 where s3: "OS_PendDbgNameRemove p_obj (Some a) s2 = Some s3"
    and S3: "stage a s (?t\<lparr>MsgPtr := p_void, MsgSize := msg_size, Tcb_TS := ts, PendObjPtr := None,
      Tcb_DbgNamePtr := '' ''\<rparr>) s3 R (without a W) T (trem s)"
    by (rule OS_PendDbgNameRemove_stage [OF S2]) auto
  obtain s4 r where s4: "(if timed (TaskState ?t) then OS_TickListRemove (Some a) s3 else Some s3) =
      Some s4" and S4: "stage a s (?t\<lparr>MsgPtr := p_void, MsgSize := msg_size, Tcb_TS := ts,
      PendObjPtr := None, Tcb_DbgNamePtr := '' ''\<rparr>) s4 R (without a W) (remove1 a T) r"
    by (rule stage_tick_leave [OF S3 ok(3)])
  obtain s5 where s5: "(if runs (TaskState ?t) then OS_RdyListInsert (Some a) s4 else Some s4) = Some s5"
    and S5: "stage a s (?t\<lparr>MsgPtr := p_void, MsgSize := msg_size, Tcb_TS := ts,
      PendObjPtr := None, Tcb_DbgNamePtr := '' ''\<rparr>) s5
      (if runs (TaskState ?t) then rdy_ins s a R else R) (without a W) (remove1 a T) r"
    by (rule stage_make_ready [OF K a S4]) (simp_all add: nR)
  have p: "OS_PendListRemove (Some a) s1 = Some s1" if "p_obj = None" "pobj s1 a = PendObjPtr ?t" for s1
    using that po by (simp add: OS_PendListRemove_none)
  have "OS_Post p_obj (Some a) p_void msg_size ts s = Some (put a (PendOn_update (\<lambda>_. OS_TASK_PEND_ON_NOTHING))
      (put a (PendStatus_update (\<lambda>_. OS_STATUS_PEND_OK))
        (put a (TaskState_update (\<lambda>_. unpend_state (TaskState ?t))) s5)))"
    using pd s2 s3 s4 s5 p
    by (cases p_obj) (auto simp: OS_Post_def set_tcb_put pending_cases timed_def runs_def
        unpend_state_def pobj_def)
  with stage_unpended [OF K a pd stage_status [OF S5]] show ?thesis
    by (auto simp: posted_tcb_def)
qed

text \<open>\<open>OS_PendAbort\<close> ends the wait with a reason and no message.\<close>

definition aborted_tcb :: "pend_status \<Rightarrow> u32 \<Rightarrow> OS_TCB \<Rightarrow> OS_TCB" where
  "aborted_tcb reason ts t = t\<lparr>MsgPtr := None, MsgSize := 0, Tcb_TS := ts,
     PendObjPtr := None, TaskState := unpend_state (TaskState t),
     PendStatus := reason, PendOn := OS_TASK_PEND_ON_NOTHING\<rparr>"

lemma OS_PendAbort_other:
  "\<not> pending (TaskState (OSTCBs s a)) \<Longrightarrow> OS_PendAbort (Some a) ts reason s = Some s"
  by (cases "TaskState (OSTCBs s a)") (simp_all add: OS_PendAbort_def pending_def)

lemma OS_PendAbort_spec:
  assumes K: "kinv s A R W T" and a: "a \<in> A" and pd: "pending (TaskState (OSTCBs s a))"
  shows "\<exists>s'. OS_PendAbort (Some a) ts reason s = Some s' \<and>
    becomes a (aborted_tcb reason ts (OSTCBs s a)) s s' A
      (if runs (TaskState (OSTCBs s a)) then rdy_ins s a R else R) (without a W) (remove1 a T)"
proof -
  let ?t = "OSTCBs s a"
  note ok = task_okD [OF K a]
  have nR: "a \<notin> set (R p)" for p
    using not_ready_anywhere [OF K a] pd by (auto simp: pending_def)
  note S1 = stage_msg [OF stage_init [OF K, of a], where p = None and z = 0 and w = ts]
  obtain s2 where s2: "OS_PendListRemove (Some a) (put a (Tcb_TS_update (\<lambda>_. ts))
      (put a (MsgSize_update (\<lambda>_. 0)) (put a (MsgPtr_update (\<lambda>_. None)) s))) = Some s2"
    and S2: "stage a s (?t\<lparr>MsgPtr := None, MsgSize := 0, Tcb_TS := ts, PendObjPtr := None\<rparr>)
      s2 R (without a W) T (trem s)"
    by (rule stage_pend_leave [OF S1]) (use ok(4) in auto)
  obtain s4 r where s4: "(if timed (TaskState ?t) then OS_TickListRemove (Some a) s2 else Some s2) =
      Some s4" and S4: "stage a s (?t\<lparr>MsgPtr := None, MsgSize := 0, Tcb_TS := ts,
      PendObjPtr := None\<rparr>) s4 R (without a W) (remove1 a T) r"
    by (rule stage_tick_leave [OF S2 ok(3)])
  obtain s5 where s5: "(if runs (TaskState ?t) then OS_RdyListInsert (Some a) s4 else Some s4) = Some s5"
    and S5: "stage a s (?t\<lparr>MsgPtr := None, MsgSize := 0, Tcb_TS := ts, PendObjPtr := None\<rparr>) s5
      (if runs (TaskState ?t) then rdy_ins s a R else R) (without a W) (remove1 a T) r"
    by (rule stage_make_ready [OF K a S4]) (simp_all add: nR)
  have "OS_PendAbort (Some a) ts reason s = Some (put a (PendOn_update (\<lambda>_. OS_TASK_PEND_ON_NOTHING))
      (put a (PendStatus_update (\<lambda>_. reason))
        (put a (TaskState_update (\<lambda>_. unpend_state (TaskState ?t))) s5)))"
    using pd s2 s4 s5
    by (auto simp: OS_PendAbort_def set_tcb_put pending_cases timed_def runs_def unpend_state_def)
  with stage_unpended [OF K a pd stage_status [OF S5]] show ?thesis
    by (auto simp: aborted_tcb_def)
qed

text \<open>\<open>OS_Pend\<close> takes the task off the ready list and queues it on the object by priority; with a
  time-out it is due on the tick list after that many ticks.\<close>

definition pend_name :: "kernel \<Rightarrow> ptr \<Rightarrow> pend_on \<Rightarrow> string" where
  "pend_name s p_obj pending_on = (case p_obj of
     Some b \<Rightarrow> Obj_NamePtr (OSObjs s b)
   | None \<Rightarrow> (case pending_on of OS_TASK_PEND_ON_TASK_Q \<Rightarrow> ''Task Q''
       | OS_TASK_PEND_ON_TASK_SEM \<Rightarrow> ''Task Sem'' | _ \<Rightarrow> '' ''))"

definition pended_tcb :: "kernel \<Rightarrow> ptr \<Rightarrow> pend_on \<Rightarrow> u32 \<Rightarrow> OS_TCB \<Rightarrow> OS_TCB" where
  "pended_tcb s p_obj pending_on timeout t = t\<lparr>PendOn := pending_on,
     PendStatus := OS_STATUS_PEND_OK,
     TaskState := (if timeout > 0 then OS_TASK_STATE_PEND_TIMEOUT else OS_TASK_STATE_PEND),
     PendObjPtr := p_obj, Tcb_DbgNamePtr := pend_name s p_obj pending_on\<rparr>"

definition queued :: "kernel \<Rightarrow> ptr \<Rightarrow> nat \<Rightarrow> (nat \<Rightarrow> nat list) \<Rightarrow> (nat \<Rightarrow> nat list)" where
  "queued s p_obj a W = (case p_obj of None \<Rightarrow> W | Some b \<Rightarrow> W(b := pend_ins (prios s) a (W b)))"

lemma set_queued:
  "set (queued s p_obj a W c) = (if p_obj = Some c then insert a (set (W c)) else set (W c))"
  by (auto simp: queued_def split: option.splits)

lemma pend_sorted_queued: "pend_sorted s W \<Longrightarrow> pend_sorted s (queued s p_obj a W)"
  by (auto simp: pend_sorted_def queued_def sorted_pend_ins split: option.splits)

lemma OS_TaskBlock_stage:
  assumes S: "stage a s0 t s R W T r" and a: "a \<notin> set T" "a \<in> set (R q)"
    and r: "trem s0 = r"
  obtains s' r' T' where "OS_TaskBlock (Some a) timeout s = Some s'"
    "stage a s0 (t\<lparr>TaskState := (if timeout > 0 then OS_TASK_STATE_PEND_TIMEOUT
       else OS_TASK_STATE_PEND)\<rparr>) s' (R(q := remove1 a (R q))) W T' r'"
    "if timeout > 0 then tick_inserted s0 T a (unat timeout) r' T' else T' = T \<and> r' = r"
    "set T' = (if timeout > 0 then insert a (set T) else set T)"
proof -
  note D = stageD [OF S]
  have "\<exists>s1 r' T'. (if timeout > 0 then do {
          (_, s) \<leftarrow> OS_TickListInsert (Some a) 0 (OSTickCtr s) timeout s;
          set_tcb (Some a) (\<lambda>t. t\<lparr>TaskState := OS_TASK_STATE_PEND_TIMEOUT\<rparr>) s
        } else set_tcb (Some a) (\<lambda>t. t\<lparr>TaskState := OS_TASK_STATE_PEND\<rparr>) s) = Some s1 \<and>
      stage a s0 (t\<lparr>TaskState := (if timeout > 0 then OS_TASK_STATE_PEND_TIMEOUT
       else OS_TASK_STATE_PEND)\<rparr>) s1 R W T' r' \<and>
      (if timeout > 0 then tick_inserted s T a (unat timeout) r' T' else T' = T \<and> r' = r) \<and>
      set T' = (if timeout > 0 then insert a (set T) else set T)"
  proof (cases "timeout > 0")
    case True
    have c: "OSTickCtr s = OSTickCtr s0" using moved_sel(7) [OF D(1)] .
    have d: "timeout = timeout + OSTickCtr s0 - OSTickCtr s0" "timeout \<noteq> 0" using True by auto
    from stage_tick_ins [OF S a(1) d] obtain s1 r' T' where I:
      "OS_TickListInsert (Some a) 0 (OSTickCtr s0) timeout s = Some (True, s1)"
      "stage a s0 t s1 R W T' r'" "tick_inserted s T a (unat timeout) r' T'"
      "set T' = insert a (set T)" .
    with stage_put [OF I(2) plain_updates(4)] True show ?thesis
      by (simp add: c set_tcb_put) blast
  next
    case False
    with stage_put [OF S plain_updates(4) [of OS_TASK_STATE_PEND]] show ?thesis
      by (simp add: set_tcb_put)
  qed
  then obtain s1 r' T' where s1: "(if timeout > 0 then do {
          (_, s) \<leftarrow> OS_TickListInsert (Some a) 0 (OSTickCtr s) timeout s;
          set_tcb (Some a) (\<lambda>t. t\<lparr>TaskState := OS_TASK_STATE_PEND_TIMEOUT\<rparr>) s
        } else set_tcb (Some a) (\<lambda>t. t\<lparr>TaskState := OS_TASK_STATE_PEND\<rparr>) s) = Some s1"
    and S1: "stage a s0 (t\<lparr>TaskState := (if timeout > 0 then OS_TASK_STATE_PEND_TIMEOUT
       else OS_TASK_STATE_PEND)\<rparr>) s1 R W T' r'"
    and T': "if timeout > 0 then tick_inserted s T a (unat timeout) r' T' else T' = T \<and> r' = r"
      "set T' = (if timeout > 0 then insert a (set T) else set T)" by blast
  from stage_rdy_rem [OF S1 a(2)] obtain s' where s': "OS_RdyListRemove (Some a) s1 = Some s'"
    "stage a s0 (t\<lparr>TaskState := (if timeout > 0 then OS_TASK_STATE_PEND_TIMEOUT
       else OS_TASK_STATE_PEND)\<rparr>) s' (R(q := remove1 a (R q))) W T' r'" .
  have run: "OS_TaskBlock (Some a) timeout s = Some s'"
    unfolding OS_TaskBlock_def s1 using s'(1) by simp
  have "trem s = trem s0" using D(6) r by simp
  note cong = tick_inserted_cong [OF this, of T a "unat timeout" r' T']
  show thesis by (rule that [OF run s'(2)]) (use T' cong in auto)
qed

lemma OS_Pend_spec:
  assumes K: "kinv s A R W T" and a: "a \<in> A" and rdy: "TaskState (OSTCBs s a) = OS_TASK_STATE_RDY"
    and po: "pending_on \<noteq> OS_TASK_PEND_ON_NOTHING" "p_obj \<noteq> None \<longleftrightarrow> on_object pending_on"
  shows "\<exists>s' T'. OS_Pend p_obj (Some a) pending_on timeout s = Some s' \<and>
    becomes a (pended_tcb s p_obj pending_on timeout (OSTCBs s a)) s s' A
      (rdy_del s a R) (queued s p_obj a W) T' \<and>
    (if timeout > 0 then tick_inserted s T a (unat timeout) (trem s') T'
     else T' = T \<and> trem s' = trem s)"
proof -
  let ?t = "OSTCBs s a" and ?q = "Prio (OSTCBs s a)"
  let ?st = "if timeout > 0 then OS_TASK_STATE_PEND_TIMEOUT else OS_TASK_STATE_PEND"
  note ok = task_okD [OF K a]
  have nT: "a \<notin> set T" and inR: "a \<in> set (R ?q)" and po0: "PendObjPtr ?t = None"
    using ok rdy by (auto simp: timed_def pending_def on_object_def)
  have nW: "a \<notin> set (W b)" for b using ok(4) po0 by simp
  have S1: "stage a s (?t\<lparr>PendOn := pending_on, PendStatus := OS_STATUS_PEND_OK\<rparr>)
      (put a (PendStatus_update (\<lambda>_. OS_STATUS_PEND_OK)) (put a (PendOn_update (\<lambda>_. pending_on)) s))
      R W T (trem s)"
    using stage_put [OF stage_put [OF stage_init [OF K, of a] plain_updates(6)] plain_updates(5)]
    by simp
  obtain s2 r' T' where s2: "OS_TaskBlock (Some a) timeout (put a (PendStatus_update
      (\<lambda>_. OS_STATUS_PEND_OK)) (put a (PendOn_update (\<lambda>_. pending_on)) s)) = Some s2"
    and S2: "stage a s (?t\<lparr>PendOn := pending_on, PendStatus := OS_STATUS_PEND_OK, TaskState := ?st\<rparr>)
      s2 (R(?q := remove1 a (R ?q))) W T' r'"
    and T': "if timeout > 0 then tick_inserted s T a (unat timeout) r' T' else T' = T \<and> r' = trem s"
      "set T' = (if timeout > 0 then insert a (set T) else set T)"
    by (rule OS_TaskBlock_stage [OF S1 nT inR refl]) auto
  let ?t3 = "?t\<lparr>PendOn := pending_on, PendStatus := OS_STATUS_PEND_OK, TaskState := ?st,
    PendObjPtr := p_obj\<rparr>"
  have "\<exists>s3. (if p_obj \<noteq> None then do {
          s \<leftarrow> set_tcb (Some a) (\<lambda>t. t\<lparr>PendObjPtr := p_obj\<rparr>) s2;
          OS_PendListInsertPrio p_obj (Some a) s
        } else set_tcb (Some a) (\<lambda>t. t\<lparr>PendObjPtr := None\<rparr>) s2) = Some s3 \<and>
      stage a s ?t3 s3 (R(?q := remove1 a (R ?q))) (queued s p_obj a W) T' r'"
  proof (cases p_obj)
    case None
    have "PendObjPtr (OSTCBs s2 a) = None" using core_eqI(3) [OF stageD(2) [OF S2]] po0 by simp
    then have "put a (PendObjPtr_update (\<lambda>_. None)) s2 = s2"
      by (simp add: put_def fun_upd_idem)
    moreover have "?t\<lparr>PendOn := pending_on, PendStatus := OS_STATUS_PEND_OK, TaskState := ?st\<rparr> = ?t3"
      using None po0 by (cases ?t) simp
    ultimately show ?thesis using S2 None by (simp add: set_tcb_put queued_def)
  next
    case (Some b)
    have pr: "prios s2 c = prios s c" for c by (rule stage_prios [OF S2]) simp
    show ?thesis
      by (rule stage_pend_join [OF S2 _ pr, of b]) (use Some po0 in \<open>auto simp: queued_def\<close>)
  qed
  then obtain s3 where s3: "(if p_obj \<noteq> None then do {
          s \<leftarrow> set_tcb (Some a) (\<lambda>t. t\<lparr>PendObjPtr := p_obj\<rparr>) s2;
          OS_PendListInsertPrio p_obj (Some a) s
        } else set_tcb (Some a) (\<lambda>t. t\<lparr>PendObjPtr := None\<rparr>) s2) = Some s3"
    and S3: "stage a s ?t3 s3 (R(?q := remove1 a (R ?q))) (queued s p_obj a W) T' r'" by blast
  let ?t4 = "?t3\<lparr>Tcb_DbgNamePtr := pend_name s p_obj pending_on\<rparr>"
  note S4 = stage_put [OF S3 plain_updates(7) [of "pend_name s p_obj pending_on"]]
  have "\<exists>s4. OS_PendDbgNameAdd p_obj (Some a) s3 = Some s4 \<and>
      stage a s ?t4 s4 (R(?q := remove1 a (R ?q))) (queued s p_obj a W) T' r'"
  proof (cases p_obj)
    case None
    have "PendOn (OSTCBs s3 a) = pending_on" using core_eqI(2) [OF stageD(2) [OF S3]] by simp
    then show ?thesis using S4 None
      by (cases pending_on) (simp_all add: OS_PendDbgNameAdd_def set_tcb_put pend_name_def)
  next
    case (Some b)
    have ne: "queued s p_obj a W b \<noteq> []" using set_queued [of s p_obj a W b] Some by auto
    then have "PL_HeadPtr (plist s3 b) \<noteq> None"
      using pend_lists_head [OF stageD(4) [OF S3], of b] by simp
    then obtain h where h: "PL_HeadPtr (PendList (OSObjs s3 b)) = Some h" by (auto simp: plist_def)
    have nm: "Obj_NamePtr (OSObjs s3 b) = Obj_NamePtr (OSObjs s b)"
      using moved_sel(18) [OF stageD(1) [OF S3], of b] by (metis ocore_sel(2))
    show ?thesis using stage_dbg [OF S4, of b] Some h nm
      by (simp add: OS_PendDbgNameAdd_def set_tcb_put obj_def set_obj_dbg pend_name_def)
  qed
  then obtain s4 where s4: "OS_PendDbgNameAdd p_obj (Some a) s3 = Some s4"
    and S4: "stage a s ?t4 s4 (R(?q := remove1 a (R ?q))) (queued s p_obj a W) T' r'" by blast
  have run: "OS_Pend p_obj (Some a) pending_on timeout s = Some s4"
    using s2 s3 s4 by (simp add: OS_Pend_def set_tcb_put)
  have del: "R(?q := remove1 a (R ?q)) = rdy_del s a R" by (simp add: rdy_del_def Let_def)
  have "becomes a ?t4 s s4 A (R(?q := remove1 a (R ?q))) (queued s p_obj a W) T'"
    by (rule stage_becomes [OF K a S4])
      (use kinvD(3) [OF K] kinv_distinct(1) [OF K] nW nT po T'(2)
       in \<open>auto simp: pend_sorted_queued set_remove1_minus set_queued timed_def pending_def
         split: if_splits\<close>)
  moreover have "?t4 = pended_tcb s p_obj pending_on timeout ?t" by (simp add: pended_tcb_def)
  ultimately show ?thesis using run T'(1) stageD(6) [OF S4] del by (auto split: if_splits)
qed

section \<open>What a tick does\<close>

text \<open>A time-out of a mutex wait lowers an inherited priority of the owner; \<open>quiet\<close> excludes
  that case.\<close>

definition quiet :: "kernel \<Rightarrow> nat \<Rightarrow> bool" where
  "quiet s a \<longleftrightarrow> PendOn (OSTCBs s a) \<noteq> OS_TASK_PEND_ON_MUTEX \<or>
     (case PendObjPtr (OSTCBs s a) of None \<Rightarrow> True
      | Some b \<Rightarrow> (case OwnerTCBPtr (OSMutexes s b) of None \<Rightarrow> True
          | Some w \<Rightarrow> Prio (OSTCBs s w) = BasePrio (OSTCBs s w) \<or>
              Prio (OSTCBs s w) \<noteq> Prio (OSTCBs s a)))"

definition expired_tcb :: "u32 \<Rightarrow> OS_TCB \<Rightarrow> OS_TCB" where
  "expired_tcb ts t =
     (if TaskState t = OS_TASK_STATE_DLY then t\<lparr>TaskState := OS_TASK_STATE_RDY\<rparr>
      else if TaskState t = OS_TASK_STATE_DLY_SUSPENDED
      then t\<lparr>TaskState := OS_TASK_STATE_SUSPENDED\<rparr>
      else t\<lparr>MsgPtr := None, MsgSize := 0, Tcb_TS := ts, PendObjPtr := None,
        TaskState := (if TaskState t = OS_TASK_STATE_PEND_TIMEOUT then OS_TASK_STATE_RDY
          else OS_TASK_STATE_SUSPENDED),
        PendStatus := OS_STATUS_PEND_TIMEOUT, PendOn := OS_TASK_PEND_ON_NOTHING\<rparr>)"

definition exp_rdy :: "kernel \<Rightarrow> nat \<Rightarrow> (u8 \<Rightarrow> nat list) \<Rightarrow> (u8 \<Rightarrow> nat list)" where
  "exp_rdy s a R =
     (if TaskState (OSTCBs s a) \<in> {OS_TASK_STATE_DLY, OS_TASK_STATE_PEND_TIMEOUT}
      then rdy_ins s a R else R)"

lemma tick_expire_delay:
  assumes K: "kinv s A R W T" and a: "a \<in> A"
    and st: "TaskState (OSTCBs s a) = OS_TASK_STATE_DLY \<or>
      TaskState (OSTCBs s a) = OS_TASK_STATE_DLY_SUSPENDED"
  shows "\<exists>s'. tick_expire (Some a) ts s = Some s' \<and>
    stage a s (expired_tcb ts (OSTCBs s a)) s' (exp_rdy s a R) (without a W) T (trem s)"
proof -
  let ?t = "OSTCBs s a"
  have nR: "a \<notin> set (R p)" for p using not_ready_anywhere [OF K a] st by auto
  have "a \<notin> set (W b)" for b
    using task_okD(4-6) [OF K a] st by (auto simp: pending_def on_object_def)
  then have W: "without a W = W" by (auto simp: without_def remove1_idem)
  note S1 = stage_put [OF stage_init [OF K, of a] plain_updates(4)]
  show ?thesis
  proof (cases "TaskState ?t = OS_TASK_STATE_DLY")
    case True
    obtain s' where "OS_RdyListInsert (Some a) (put a (TaskState_update (\<lambda>_. OS_TASK_STATE_RDY)) s) = Some s'"
      "stage a s (?t\<lparr>TaskState := OS_TASK_STATE_RDY\<rparr>) s' (rdy_ins s a R) W T (trem s)"
      using stage_make_ready [OF K a S1 [of OS_TASK_STATE_RDY] _ nR, of True] by auto
    with True W show ?thesis
      by (simp add: tick_expire_def set_tcb_put expired_tcb_def exp_rdy_def)
  next
    case False
    with st W S1 [of OS_TASK_STATE_SUSPENDED] show ?thesis
      by (simp add: tick_expire_def set_tcb_put expired_tcb_def exp_rdy_def)
  qed
qed

lemma tick_expire_pend:
  assumes K: "kinv s A R W T" and a: "a \<in> A" and q: "quiet s a"
    and st: "TaskState (OSTCBs s a) = OS_TASK_STATE_PEND_TIMEOUT \<or>
      TaskState (OSTCBs s a) = OS_TASK_STATE_PEND_TIMEOUT_SUSPENDED"
  shows "\<exists>s'. tick_expire (Some a) ts s = Some s' \<and>
    stage a s (expired_tcb ts (OSTCBs s a)) s' (exp_rdy s a R) (without a W) T (trem s)"
proof -
  let ?t = "OSTCBs s a"
  let ?run = "TaskState ?t = OS_TASK_STATE_PEND_TIMEOUT"
  let ?st = "if ?run then OS_TASK_STATE_RDY else OS_TASK_STATE_SUSPENDED"
  have nR: "a \<notin> set (R p)" for p using not_ready_anywhere [OF K a] st by auto
  note S1 = stage_msg [OF stage_init [OF K, of a], where p = None and z = 0 and w = ts]
  obtain s2 where s2: "OS_PendListRemove (Some a) (put a (Tcb_TS_update (\<lambda>_. ts))
      (put a (MsgSize_update (\<lambda>_. 0)) (put a (MsgPtr_update (\<lambda>_. None)) s))) = Some s2"
    and S2: "stage a s (?t\<lparr>MsgPtr := None, MsgSize := 0, Tcb_TS := ts, PendObjPtr := None\<rparr>)
      s2 R (without a W) T (trem s)"
    by (rule stage_pend_leave [OF S1]) (use task_okD(4) [OF K a] in auto)
  obtain s3 where s3: "(if ?run then OS_RdyListInsert (Some a) s2 else Some s2) = Some s3"
    and S3: "stage a s (?t\<lparr>MsgPtr := None, MsgSize := 0, Tcb_TS := ts, PendObjPtr := None\<rparr>) s3
      (if ?run then rdy_ins s a R else R) (without a W) T (trem s)"
    by (rule stage_make_ready [OF K a S2]) (simp_all add: nR not_ready_anywhere [OF K a])
  let ?s4 = "put a (PendOn_update (\<lambda>_. OS_TASK_PEND_ON_NOTHING))
    (put a (PendStatus_update (\<lambda>_. OS_STATUS_PEND_TIMEOUT)) (put a (TaskState_update (\<lambda>_. ?st)) s3))"
  have S4: "stage a s (expired_tcb ts ?t) ?s4 (exp_rdy s a R) (without a W) T (trem s)"
    using stage_status [OF S3, where st = ?st and ps = OS_STATUS_PEND_TIMEOUT
      and po = OS_TASK_PEND_ON_NOTHING] st
    by (auto simp: expired_tcb_def exp_rdy_def split: if_splits)
  have pr: "Prio (OSTCBs ?s4 c) = Prio (OSTCBs s c)" for c
    using stage_prios [OF S4, of c] by (simp add: expired_tcb_def)
  have bp: "BasePrio (OSTCBs ?s4 c) = BasePrio (OSTCBs s c)" for c
    using core_eqI(5) [OF stageD(2) [OF S4]] core_eqI(5) [OF moved_sel(17) [OF stageD(1) [OF S4]]]
    by (cases "c = a") (simp_all add: expired_tcb_def)
  let ?owner = "if PendOn ?t = OS_TASK_PEND_ON_MUTEX
    then (case PendObjPtr ?t of None \<Rightarrow> None | Some b \<Rightarrow> OwnerTCBPtr (OSMutexes s b)) else None"
  have mx: "PendOn ?t = OS_TASK_PEND_ON_MUTEX \<Longrightarrow> PendObjPtr ?t \<noteq> None"
    using task_okD(6) [OF K a] by (simp add: on_object_def)
  have "tick_expire (Some a) ts s = (case ?owner of None \<Rightarrow> Some ?s4 | Some w \<Rightarrow>
      if Prio (OSTCBs ?s4 w) \<noteq> BasePrio (OSTCBs ?s4 w) \<and> Prio (OSTCBs ?s4 w) = Prio (OSTCBs ?s4 a)
      then do { hp \<leftarrow> OS_MutexGrpPrioFindHighest (Some w) ?s4;
           let prio_new = (if hp > BasePrio (OSTCBs ?s4 w) then BasePrio (OSTCBs ?s4 w) else hp);
           if prio_new \<noteq> Prio (OSTCBs ?s4 w) then OS_TaskChangePrio (Some w) prio_new ?s4
           else Some ?s4 }
      else Some ?s4)"
    using st s2 s3 mx
    by (elim disjE) (auto simp: tick_expire_def set_tcb_put mutex_def split: option.splits cong: if_cong)
  also have "\<dots> = Some ?s4"
    using q unfolding pr bp by (auto simp: quiet_def split: option.splits)
  finally show ?thesis using S4 by blast
qed

lemma tick_expire_spec:
  assumes "kinv s A R W T" and "a \<in> A" and "timed (TaskState (OSTCBs s a))" and "quiet s a"
  shows "\<exists>s'. tick_expire (Some a) ts s = Some s' \<and>
    stage a s (expired_tcb ts (OSTCBs s a)) s' (exp_rdy s a R) (without a W) T (trem s)"
  using assms(3) tick_expire_delay [OF assms(1,2)] tick_expire_pend [OF assms(1,2,4)]
  by (auto simp: timed_def)

text \<open>The frame of an operation that moves several tasks.\<close>

definition moved_set :: "nat set \<Rightarrow> kernel \<Rightarrow> kernel \<Rightarrow> bool" where
  "moved_set X s s' \<longleftrightarrow>
     (\<exists>tf ob rl tbl l. s' = s\<lparr>OSTCBs := tf, OSObjs := ob, OSRdyList := rl, OSPrioTbl := tbl,
        OSTickList := l\<rparr> \<and> (\<forall>c. c \<notin> X \<longrightarrow> core (tf c) = core (OSTCBs s c)) \<and>
        (\<forall>b. ocore (ob b) = ocore (OSObjs s b)))"

lemma moved_set_single: "moved a s s' \<longleftrightarrow> moved_set {a} s s'"
  by (simp add: moved_def moved_set_def)

lemma moved_set_mono: "moved_set X s s' \<Longrightarrow> X \<subseteq> Y \<Longrightarrow> moved_set Y s s'"
  unfolding moved_set_def by blast

lemma moved_set_trans: "moved_set X s s' \<Longrightarrow> moved_set X s' s'' \<Longrightarrow> moved_set X s s''"
  unfolding moved_set_def by (clarsimp) metis

lemma moved_set_sel:
  assumes "moved_set X s s'"
  shows "OSMutexes s' = OSMutexes s" "OSPrioCur s' = OSPrioCur s" "OSTickCtr s' = OSTickCtr s"
    "OSSems s' = OSSems s" "OSQs s' = OSQs s" "OSTCBCurPtr s' = OSTCBCurPtr s"
    "\<And>c. c \<notin> X \<Longrightarrow> core (OSTCBs s' c) = core (OSTCBs s c)"
  using assms by (auto simp: moved_set_def)

text \<open>The head of the tick list is dropped and the ticks left are taken off the next node.\<close>

definition tick_next :: "nat \<Rightarrow> u32 \<Rightarrow> kernel \<Rightarrow> (u32 \<times> kernel) option" where
  "tick_next x ticks s = do {
     let s = set_tick_list (\<lambda>l. l\<lparr>TL_TCB_Ptr := Some x\<rparr>) s;
     let s = set_tick_list (\<lambda>l. l\<lparr>TL_NbrEntries := TL_NbrEntries l - 1\<rparr>) s;
     s \<leftarrow> set_tcb (Some x) (\<lambda>t. t\<lparr>TickPrevPtr := None\<rparr>) s;
     tick_consume (Some x) ticks s
   }"

definition consume :: "u32 \<Rightarrow> u32 \<Rightarrow> u32 \<times> u32" where
  "consume ticks rem = (if rem \<le> ticks then (ticks - rem, 0) else (ticks, rem - ticks))"

lemma tick_consume_eq: "tick_consume (Some x) ticks s =
   Some (fst (consume ticks (trem s x)),
     upd_tick (tnxt s) (tprv s) ((trem s)(x := snd (consume ticks (trem s x)))) (OSTickList s) s)"
  by (simp add: tick_consume_def consume_def tick_upds)

lemma span_shrink: "unat v \<le> unat (r x) \<Longrightarrow> span (r(x := v)) xs \<le> span r xs"
  by (induction xs) auto

lemma consume_le: "unat (snd (consume ticks rem)) \<le> unat rem"
  by (auto simp: consume_def word_le_nat_alt unat_sub)

lemma tick_next_stage:
  assumes S: "stage a s0 t s R W (a # x # T) r"
  obtains s' where "tick_next x ticks s = Some (fst (consume ticks (r x)), s')"
    "stage a s0 t s' R W (x # T) (r(x := snd (consume ticks (r x))))"
proof -
  note D = stageD [OF S]
  let ?l = "(OSTickList s)\<lparr>TL_TCB_Ptr := Some x, TL_NbrEntries := TL_NbrEntries (OSTickList s) - 1\<rparr>"
  let ?r = "r(x := snd (consume ticks (r x)))"
  let ?s = "upd_tick (tnxt s) ((tprv s)(x := None)) ?r ?l s"
  have run: "tick_next x ticks s = Some (fst (consume ticks (r x)), ?s)"
    using D(6) by (simp add: tick_next_def set_tick set_TickPrevPtr tick_consume_eq)
  note TL = tick_listsD [OF D(5)]
  have pa: "tprv s a = None" using dll_split(2) [of _ _ _ _ "[]" a "x # T"] TL(1) by simp
  have "dll ((tnxt s)(a := tnxt s a)) ((tprv s)(x := None, a := tprv s a)) (Some x)
      (hdo (rev (a # x # T))) (x # T)"
    using TL(1) by (intro dll_remove_head) simp
  moreover have "(tprv s)(x := None, a := tprv s a) = (tprv s)(x := None)" using TL(5) by auto
  ultimately have d: "dll (tnxt s) ((tprv s)(x := None)) (Some x) (hdo (rev (x # T))) (x # T)"
    by (simp add: hdo_append split: if_splits)
  have "span ?r (x # T) \<le> span r (x # T)" by (rule span_shrink [OF consume_le])
  also have "\<dots> \<le> span r (a # x # T)" by simp
  finally have "span ?r (x # T) < 2 ^ 32" using TL(3) D(6) by simp
  with d TL(2) have "tick_lists ?s (x # T)" by (simp add: tick_lists_def)
  moreover have "core (OSTCBs ?s a) = core t" using D(2) by (simp add: core_def)
  ultimately show thesis using D moved_trans [OF D(1) moved_upd_tick]
    by (intro that [OF run]) (simp add: stage_def)
qed

lemma tick_last_stage:
  assumes S: "stage a s0 t s R W [a] r"
  shows "stage a s0 t (set_tick_list (\<lambda>l. l\<lparr>TL_NbrEntries := 0\<rparr>)
    (set_tick_list (\<lambda>l. l\<lparr>TL_TCB_Ptr := None\<rparr>) s)) R W [] r"
proof -
  note D = stageD [OF S]
  have "core (OSTCBs (upd_tick (tnxt s) (tprv s) (trem s)
      ((OSTickList s)\<lparr>TL_TCB_Ptr := None, TL_NbrEntries := 0\<rparr>) s) a) = core t"
    using D(2) by (simp add: core_def)
  then show ?thesis using D moved_trans [OF D(1) moved_upd_tick]
    by (simp add: set_tick stage_def tick_lists_def)
qed

lemma exp_rdy_simps:
  "set (exp_rdy s a R p) - {a} = set (R p) - {a}"
  "a \<notin> set (R (Prio (OSTCBs s a))) \<Longrightarrow> a \<in> set (exp_rdy s a R (Prio (OSTCBs s a))) \<longleftrightarrow>
     TaskState (OSTCBs s a) \<in> {OS_TASK_STATE_DLY, OS_TASK_STATE_PEND_TIMEOUT}"
  by (auto simp: exp_rdy_def set_rdy_ins in_rdy_ins)

lemma expired_becomes:
  assumes K: "kinv s A R W (a # T)" and a: "a \<in> A" and tm: "timed (TaskState (OSTCBs s a))"
    and S: "stage a s (expired_tcb ts (OSTCBs s a)) s' (exp_rdy s a R) (without a W) T r"
  shows "becomes a (expired_tcb ts (OSTCBs s a)) s s' A (exp_rdy s a R) (without a W) T"
proof -
  have nR: "a \<notin> set (R p)" for p
    using not_ready_anywhere [OF K a] tm by (auto simp: timed_def)
  have "TaskState (OSTCBs s a) = OS_TASK_STATE_DLY \<or>
      TaskState (OSTCBs s a) = OS_TASK_STATE_DLY_SUSPENDED \<Longrightarrow>
      PendObjPtr (OSTCBs s a) = None \<and> PendOn (OSTCBs s a) = OS_TASK_PEND_ON_NOTHING"
    using task_okD(4-6) [OF K a] by (auto simp: pending_def on_object_def)
  then show ?thesis
    using kinvD(3) [OF K] kinv_distinct(3) [OF K] not_in_without [OF K] nR
      exp_rdy_simps(2) [OF nR] tm
    by (intro stage_becomes [OF K a S])
      (auto simp: exp_rdy_simps(1) set_without sorted_without expired_tcb_def timed_def pending_def
        on_object_def)
qed

lemma tick_loop_stop: "trem s a \<noteq> 0 \<Longrightarrow> tick_loop (Some a) k nb ts n s = Some (nb, s)"
  by (subst tick_loop.simps) (simp add: tick_folds)

lemma tick_loop_last:
  assumes "trem s a = 0" and "tick_expire (Some a) (ts n) s = Some s1" and "tnxt s1 a = None"
  shows "tick_loop (Some a) k nb ts n s = Some (nb + 1, set_tick_list (\<lambda>l. l\<lparr>TL_NbrEntries := 0\<rparr>)
    (set_tick_list (\<lambda>l. l\<lparr>TL_TCB_Ptr := None\<rparr>) s1))"
  using assms by (subst tick_loop.simps) (simp add: tick_folds)

lemma tick_loop_next:
  assumes "trem s a = 0" and "tick_expire (Some a) (ts n) s = Some s1" and "tnxt s1 a = Some x"
    and "tick_next x k s1 = Some (k', s2)"
  shows "tick_loop (Some a) k nb ts n s = tick_loop (Some x) k' (nb + 1) ts (Suc n) s2"
proof -
  obtain s3 where s3: "set_tcb (Some x) (TickPrevPtr_update (\<lambda>_. None))
      (set_tick_list (\<lambda>l. l\<lparr>TL_NbrEntries := TL_NbrEntries l - 1\<rparr>)
        (set_tick_list (\<lambda>l. l\<lparr>TL_TCB_Ptr := Some x\<rparr>) s1)) = Some s3"
    "tick_consume (Some x) k s3 = Some (k', s2)"
    using assms(4) by (auto simp: tick_next_def Let_def bind_eq_Some_iff)
  show ?thesis
    using assms(1-3) s3 by (subst tick_loop.simps) (simp add: tick_folds Let_def)
qed

text \<open>What a run of the loop has done: the tasks \<open>E\<close> have expired, in order, and \<open>T'\<close> is left.\<close>

definition ticked :: "kernel \<Rightarrow> kernel \<Rightarrow> nat set \<Rightarrow> (u8 \<Rightarrow> nat list) \<Rightarrow> (nat \<Rightarrow> nat list) \<Rightarrow>
    nat list \<Rightarrow> nat list \<Rightarrow> (nat \<Rightarrow> nat) \<Rightarrow> (nat \<Rightarrow> u32) \<Rightarrow> bool" where
  "ticked s s' A R W E T' due' ts \<longleftrightarrow>
     moved_set (set E) s s' \<and> kinv s' A (fold (exp_rdy s) E R) (fold without E W) T' \<and>
     (\<forall>c\<in>set T'. due (trem s') T' c = due' c) \<and>
     (\<forall>i<length E. core (OSTCBs s' (E ! i)) = core (expired_tcb (ts i) (OSTCBs s (E ! i))))"

lemma moved_set_refl: "moved_set X s s"
  using moved_set_mono [of "{a}" s s "{a}"] moved_refl unfolding moved_set_def
  by (intro exI [of _ "OSTCBs s"] exI [of _ "OSObjs s"] exI [of _ "OSRdyList s"]
      exI [of _ "OSPrioTbl s"] exI [of _ "OSTickList s"]) simp

lemma ticked_Nil: "kinv s A R W T \<Longrightarrow> (\<And>c. c \<in> set T \<Longrightarrow> due (trem s) T c = d c) \<Longrightarrow>
    ticked s s A R W [] T d ts"
  by (simp add: ticked_def moved_set_refl)

lemma exp_rdy_frame:
  assumes "moved a s s'" and "c \<noteq> a"
  shows "exp_rdy s' c = exp_rdy s c"
  using core_eqI(1,4) [OF moved_sel(17) [OF assms]] moved_sel(9) [OF assms(1)]
  by (simp add: exp_rdy_def rdy_ins_def fun_eq_iff)

lemma core_expired: "core t = core t' \<Longrightarrow> core (expired_tcb w t) = core (expired_tcb w t')"
proof -
  have "core (expired_tcb w t) = expired_tcb w (core t)" for t
    by (auto simp: expired_tcb_def core_def)
  then show "core t = core t' \<Longrightarrow> core (expired_tcb w t) = core (expired_tcb w t')" by simp
qed

lemma ticked_Cons:
  assumes B: "becomes a (expired_tcb (ts 0) (OSTCBs s a)) s s2 A (exp_rdy s a R) (without a W) T"
    and Tk: "ticked s2 s' A (exp_rdy s a R) (without a W) E T' d (\<lambda>i. ts (Suc i))"
    and a: "a \<notin> set E"
  shows "ticked s s' A R W (a # E) T' d ts"
proof -
  note D = becomesD [OF B]
  have m: "moved_set (set E) s2 s'" using Tk by (simp add: ticked_def)
  have fr: "fold (exp_rdy s2) E Q = fold (exp_rdy s) E Q" for Q
    by (rule fold_cong) (use a in \<open>auto intro: exp_rdy_frame [OF D(1)]\<close>)
  have co: "core (OSTCBs s' ((a # E) ! i)) = core (expired_tcb (ts i) (OSTCBs s ((a # E) ! i)))"
    if "i < length (a # E)" for i
  proof (cases i)
    case 0
    have "core (OSTCBs s' a) = core (OSTCBs s2 a)" using moved_set_sel(7) [OF m a] .
    with 0 D(2) show ?thesis by simp
  next
    case (Suc j)
    with that a have j: "j < length E" "E ! j \<noteq> a" by (auto simp: in_set_conv_nth)
    have "core (OSTCBs s' (E ! j)) = core (expired_tcb (ts (Suc j)) (OSTCBs s2 (E ! j)))"
      using Tk j(1) by (simp add: ticked_def)
    also have "\<dots> = core (expired_tcb (ts (Suc j)) (OSTCBs s (E ! j)))"
      by (rule core_expired) (rule moved_sel(17) [OF D(1) j(2)])
    finally show ?thesis using Suc by simp
  qed
  have "moved_set (set (a # E)) s s'"
    using moved_set_trans [OF moved_set_mono [OF D(1) [unfolded moved_set_single]]
      moved_set_mono [OF m]] by auto
  then show ?thesis using Tk co by (auto simp: ticked_def fr)
qed

lemma quiet_frame:
  assumes B: "becomes a (expired_tcb w (OSTCBs s a)) s s' A R W T" and c: "c \<noteq> a"
  shows "quiet s' c \<longleftrightarrow> quiet s c"
proof -
  note D = becomesD [OF B]
  have 1: "Prio (OSTCBs s' x) = Prio (OSTCBs s x)" "BasePrio (OSTCBs s' x) = BasePrio (OSTCBs s x)" for x
    using core_eqI(4,5) [OF D(2)] core_eqI(4,5) [OF moved_sel(17) [OF D(1)]]
    by (cases "x = a"; simp add: expired_tcb_def)+
  have 2: "PendOn (OSTCBs s' c) = PendOn (OSTCBs s c)"
      "PendObjPtr (OSTCBs s' c) = PendObjPtr (OSTCBs s c)"
    using core_eqI(2,3) [OF moved_sel(17) [OF D(1) c]] by simp_all
  show ?thesis using 2 moved_sel(2) [OF D(1)] by (auto simp: quiet_def 1 split: option.splits)
qed

text \<open>The loop ends, and expires exactly the tasks that are due within the ticks that are left.\<close>

lemma ticked_due:
  "ticked s s' A R W E T' d ts \<Longrightarrow> (\<And>c. c \<in> set T' \<Longrightarrow> d c = d' c) \<Longrightarrow>
   ticked s s' A R W E T' d' ts"
  by (simp add: ticked_def)

lemma tick_loop_spec:
  assumes "kinv s A R W (a # T)" and "trem s a = 0" and "quiet s a"
    and "\<And>c. c \<in> set T \<Longrightarrow> due (trem s) T c \<le> unat k \<Longrightarrow> quiet s c"
  shows "\<exists>nb' s'. tick_loop (Some a) k nb ts n s = Some (nb', s') \<and>
    ticked s s' A R W (a # takeWhile (\<lambda>c. due (trem s) T c \<le> unat k) T)
      (dropWhile (\<lambda>c. due (trem s) T c \<le> unat k) T)
      (\<lambda>c. due (trem s) T c - unat k) (\<lambda>i. ts (n + i))"
  using assms
proof (induction T arbitrary: a k nb n s R W)
  case Nil
  have a: "a \<in> A" using kinvD(8) [OF Nil(1)] by simp
  have tm: "timed (TaskState (OSTCBs s a))" using task_okD(3) [OF Nil(1) a] by simp
  from tick_expire_spec [OF Nil(1) a tm Nil(3), of "ts n"] obtain s1 where
    s1: "tick_expire (Some a) (ts n) s = Some s1"
    "stage a s (expired_tcb (ts n) (OSTCBs s a)) s1 (exp_rdy s a R) (without a W) [a] (trem s)"
    by blast
  have "tnxt s1 a = None" using tick_listsD(1) [OF stageD(5) [OF s1(2)]] by (simp add: dll_def)
  from tick_loop_last [where ts = ts and n = n, OF Nil(2) s1(1) this]
    ticked_Cons [where ts = "\<lambda>i. ts (n + i)" and E = "[]",
      OF _ ticked_Nil [OF becomesD(3) [OF expired_becomes [OF Nil(1) a tm tick_last_stage [OF s1(2)]]]]]
    expired_becomes [OF Nil(1) a tm tick_last_stage [OF s1(2)]]
  show ?case by simp
next
  case (Cons x T)
  let ?r = "trem s"
  let ?P = "\<lambda>c. due ?r (x # T) c \<le> unat k"
  have a: "a \<in> A" using kinvD(8) [OF Cons.prems(1)] by simp
  have tm: "timed (TaskState (OSTCBs s a))" using task_okD(3) [OF Cons.prems(1) a] by simp
  have dist: "x \<noteq> a" "a \<notin> set T" "x \<notin> set T" using kinv_distinct(3) [OF Cons.prems(1)] by auto
  from tick_expire_spec [OF Cons.prems(1) a tm Cons.prems(3), of "ts n"] obtain s1 where
    s1: "tick_expire (Some a) (ts n) s = Some s1"
    "stage a s (expired_tcb (ts n) (OSTCBs s a)) s1 (exp_rdy s a R) (without a W) (a # x # T) ?r"
    by blast
  have nx: "tnxt s1 a = Some x" using tick_listsD(1) [OF stageD(5) [OF s1(2)]] by (simp add: dll_def)
  from tick_next_stage [OF s1(2), of k] obtain s2 where
    s2: "tick_next x k s1 = Some (fst (consume k (?r x)), s2)"
    "stage a s (expired_tcb (ts n) (OSTCBs s a)) s2 (exp_rdy s a R) (without a W) (x # T)
       (?r(x := snd (consume k (?r x))))" .
  note B = expired_becomes [OF Cons.prems(1) a tm s2(2)]
  have r2: "trem s2 = ?r(x := snd (consume k (?r x)))" by (rule stageD(6) [OF s2(2)])
  have run: "tick_loop (Some a) k nb ts n s =
      tick_loop (Some x) (fst (consume k (?r x))) (nb + 1) ts (Suc n) s2"
    by (rule tick_loop_next [where ts = ts and n = n, OF Cons.prems(2) s1(1) nx s2(1)])
  show ?case
  proof (cases "?r x \<le> k")
    case True
    let ?k = "k - ?r x" let ?P' = "\<lambda>c. due ?r T c \<le> unat (k - ?r x)"
    have uk: "unat ?k = unat k - unat (?r x)" "unat (?r x) \<le> unat k"
      using True by (simp_all add: unat_sub word_le_nat_alt)
    have P: "?P c \<longleftrightarrow> ?P' c" if "c \<in> set T" for c using that dist uk by auto
    have "x \<in> set (x # T)" "?P x" using uk by auto
    then have qx: "quiet s2 x" using quiet_frame [OF B dist(1)] Cons.prems(4) by blast
    have "quiet s2 c" if "c \<in> set T" "due (trem s2) T c \<le> unat ?k" for c
    proof -
      have "?P c" using that dist(3) r2 P by simp
      then show ?thesis using quiet_frame [OF B, of c] Cons.prems(4) [of c] that(1) dist(2) by auto
    qed
    moreover have dd: "due (trem s2) T c = due ?r T c" for c using r2 dist(3) by simp
    ultimately have q2: "\<And>c. c \<in> set T \<Longrightarrow> due (trem s2) T c \<le> unat ?k \<Longrightarrow> quiet s2 c" by blast
    have "trem s2 x = 0" using r2 True by (simp add: consume_def)
    from Cons.IH [OF becomesD(3) [OF B] this qx q2, where nb = "nb + 1" and n = "Suc n"] obtain nb' s' where
      I: "tick_loop (Some x) ?k (nb + 1) ts (Suc n) s2 = Some (nb', s')"
      "ticked s2 s' A (exp_rdy s a R) (without a W) (x # takeWhile ?P' T) (dropWhile ?P' T)
        (\<lambda>c. due ?r T c - unat ?k) (\<lambda>i. ts (Suc n + i))"
      unfolding dd by blast
    have E: "takeWhile ?P (x # T) = x # takeWhile ?P' T" "dropWhile ?P (x # T) = dropWhile ?P' T"
    proof -
      have "takeWhile ?P T = takeWhile ?P' T" by (rule takeWhile_cong [OF refl]) (rule P)
      moreover have "dropWhile ?P T = dropWhile ?P' T" by (rule dropWhile_cong [OF refl]) (rule P)
      moreover have "?P x" using uk(2) by simp
      ultimately show "takeWhile ?P (x # T) = x # takeWhile ?P' T"
        "dropWhile ?P (x # T) = dropWhile ?P' T"
        by (simp_all only: takeWhile.simps dropWhile.simps if_True)
    qed
    have d: "due ?r T c - unat ?k = due ?r (x # T) c - unat k" if "c \<in> set (dropWhile ?P' T)" for c
      using set_dropWhileD [OF that] dist(3) uk by auto
    have "a \<notin> set (x # takeWhile ?P' T)" using dist by (auto dest: set_takeWhileD)
    moreover have "ticked s2 s' A (exp_rdy s a R) (without a W) (x # takeWhile ?P' T)
        (dropWhile ?P' T) (\<lambda>c. due ?r (x # T) c - unat k) (\<lambda>i. ts (n + Suc i))"
      by (rule ticked_due [where d = "\<lambda>c. due ?r T c - unat ?k"]) (use I(2) d in simp_all)
    ultimately have "ticked s s' A R W (a # x # takeWhile ?P' T) (dropWhile ?P' T)
        (\<lambda>c. due ?r (x # T) c - unat k) (\<lambda>i. ts (n + i))"
      using B by (intro ticked_Cons [where ts = "\<lambda>i. ts (n + i)" and E = "x # takeWhile ?P' T"
          and s = s and ?s2.0 = s2 and a = a and T = "x # T"]) simp_all
    then show ?thesis unfolding E using run I(1) True by (auto simp: consume_def)
  next
    case False
    then have "trem s2 x \<noteq> 0" and k: "fst (consume k (?r x)) = k" "trem s2 = ?r(x := ?r x - k)"
      using r2 by (auto simp: consume_def)
    from tick_loop_stop [OF this(1)] run k(1) have
      "tick_loop (Some a) k nb ts n s = Some (nb + 1, s2)" by simp
    moreover have u: "unat (?r x - k) = unat (?r x) - unat k" "unat k < unat (?r x)"
      using False by (simp_all add: unat_sub word_le_nat_alt not_le word_less_nat_alt)
    then have "ticked s2 s2 A (exp_rdy s a R) (without a W) [] (x # T)
        (\<lambda>c. due ?r (x # T) c - unat k) (\<lambda>i. ts (n + Suc i))"
      using dist(3) k(2) by (intro ticked_Nil [OF becomesD(3) [OF B]]) auto
    from ticked_Cons [where ts = "\<lambda>i. ts (n + i)", OF _ this] B have
      "ticked s s2 A R W [a] (x # T) (\<lambda>c. due ?r (x # T) c - unat k) (\<lambda>i. ts (n + i))" by simp
    ultimately show ?thesis using u(2) by simp
  qed
qed

text \<open>The tasks that are due are a prefix of the list.\<close>

lemma due_prefix:
  "distinct T \<Longrightarrow> takeWhile (\<lambda>c. due r T c \<le> k) T = filter (\<lambda>c. due r T c \<le> k) T \<and>
   dropWhile (\<lambda>c. due r T c \<le> k) T = filter (\<lambda>c. k < due r T c) T"
proof (induction T arbitrary: k)
  case (Cons x T)
  have d: "c \<in> set T \<Longrightarrow> due r (x # T) c = unat (r x) + due r T c" for c using Cons.prems by auto
  show ?case
  proof (cases "unat (r x) \<le> k")
    case True
    let ?P = "\<lambda>c. due r (x # T) c \<le> k" and ?Q = "\<lambda>c. due r T c \<le> k - unat (r x)"
    have PQ: "?P c \<longleftrightarrow> ?Q c" "k < due r (x # T) c \<longleftrightarrow> k - unat (r x) < due r T c" if "c \<in> set T" for c
      using d [OF that] True by auto
    have "takeWhile ?P T = takeWhile ?Q T" by (rule takeWhile_cong [OF refl]) (rule PQ)
    moreover have "dropWhile ?P T = dropWhile ?Q T" by (rule dropWhile_cong [OF refl]) (rule PQ)
    moreover have "filter ?P T = filter ?Q T" by (rule filter_cong [OF refl]) (rule PQ)
    moreover have
      "filter (\<lambda>c. k < due r (x # T) c) T = filter (\<lambda>c. k - unat (r x) < due r T c) T"
      by (rule filter_cong [OF refl]) (rule PQ)
    moreover have "?P x" using True by simp
    moreover have "takeWhile ?Q T = filter ?Q T"
      "dropWhile ?Q T = filter (\<lambda>c. k - unat (r x) < due r T c) T"
      using Cons.IH [of "k - unat (r x)"] Cons.prems by simp_all
    ultimately show ?thesis
      by (simp only: takeWhile.simps dropWhile.simps filter.simps if_True not_le [symmetric]) simp
  next
    case False
    then have n: "k < due r (x # T) c" for c by simp
    have "filter (\<lambda>c. k < due r (x # T) c) (x # T) = x # T" by (rule filter_True) (use n in blast)
    moreover have "filter (\<lambda>c. due r (x # T) c \<le> k) (x # T) = []"
      by (rule filter_False) (use n in \<open>auto simp: not_le simp del: due.simps\<close>)
    moreover have "\<not> due r (x # T) x \<le> k" using n [of x] by linarith
    ultimately show ?thesis by (simp only: takeWhile.simps dropWhile.simps if_False)
  qed
qed simp

lemma moved_set_upd_tick: "moved_set X s (upd_tick n p r l s)"
  unfolding moved_set_def
  by (intro exI [of _ "\<lambda>a. (OSTCBs s a)\<lparr>TickNextPtr := n a, TickPrevPtr := p a, TickRemain := r a\<rparr>"]
      exI [of _ "OSObjs s"] exI [of _ "OSRdyList s"] exI [of _ "OSPrioTbl s"] exI [of _ l])
    (simp add: upd_tick_def core_def)

lemma tick_consume_stage:
  assumes K: "kinv s A R W (a # T)"
  shows "\<exists>s1. tick_consume (Some a) ticks s = Some (fst (consume ticks (trem s a)), s1) \<and>
    kinv s1 A R W (a # T) \<and> trem s1 = (trem s)(a := snd (consume ticks (trem s a))) \<and>
    moved_set {} s s1"
proof -
  let ?v = "snd (consume ticks (trem s a))"
  let ?s = "upd_tick (tnxt s) (tprv s) ((trem s)(a := ?v)) (OSTickList s) s"
  have nd: "a \<notin> set T" using kinv_distinct(3) [OF K] by simp
  have "tick_lists ?s (a # T)"
    using kinvD(4) [OF K] consume_le [of ticks "trem s a"] nd by (simp add: tick_lists_def)
  then have "kinv ?s A R W (a # T)" using K by (subst kinv_cong) (auto simp: kinvD)
  moreover have "moved_set {} s ?s" by (rule moved_set_upd_tick)
  ultimately show ?thesis by (simp add: tick_consume_eq)
qed

lemma ticked_start:
  assumes m: "moved_set {} s s1" and Tk: "ticked s1 s' A R W E T' d ts"
  shows "ticked s s' A R W E T' d ts"
proof -
  have c: "core (OSTCBs s1 c) = core (OSTCBs s c)" for c using moved_set_sel(7) [OF m] by simp
  have "exp_rdy s1 x = exp_rdy s x" for x
    using core_eqI(1,4) [OF c] moved_set_sel(2) [OF m] by (simp add: exp_rdy_def rdy_ins_def fun_eq_iff)
  then have "exp_rdy s1 = exp_rdy s" by (rule ext)
  moreover have "moved_set (set E) s s'"
    using moved_set_trans [OF moved_set_mono [OF m]] Tk by (auto simp: ticked_def)
  ultimately show ?thesis using Tk core_expired [OF c] by (simp add: ticked_def)
qed

lemma kinv_set_tick:
  "kinv (set_tick_list (TL_NbrUpdated_update f) s) A R W T \<longleftrightarrow> kinv s A R W T"
  by (rule kinv_cong)
    (simp_all add: set_tick tick_lists_def)

lemma ticked_end:
  assumes "ticked s s' A R W E T' d ts"
  shows "ticked s (set_tick_list (TL_NbrUpdated_update f) s') A R W E T' d ts"
proof -
  have "moved_set (set E) s' (set_tick_list (TL_NbrUpdated_update f) s')"
    unfolding moved_set_def
    by (intro exI [of _ "OSTCBs s'"] exI [of _ "OSObjs s'"] exI [of _ "OSRdyList s'"]
      exI [of _ "OSPrioTbl s'"] exI [of _ "TL_NbrUpdated_update f (OSTickList s')"])
      (simp add: set_tick_list_def)
  with assms show ?thesis
    using moved_set_trans by (auto simp: ticked_def kinv_set_tick)
      (simp_all add: set_tick_list_def trem_def)
qed

lemma OS_TickListUpdate_spec:
  assumes K: "kinv s A R W T"
    and q: "\<And>c. c \<in> set T \<Longrightarrow> due (trem s) T c \<le> unat ticks \<Longrightarrow> quiet s c"
  shows "\<exists>s'. OS_TickListUpdate ticks ts s = Some s' \<and>
    ticked s s' A R W (filter (\<lambda>c. due (trem s) T c \<le> unat ticks) T)
      (filter (\<lambda>c. unat ticks < due (trem s) T c) T) (\<lambda>c. due (trem s) T c - unat ticks) ts"
proof (cases T)
  case Nil
  have "OS_TickListUpdate ticks ts s = Some (set_tick_list (\<lambda>l. l\<lparr>TL_NbrUpdated := 0\<rparr>) s)"
    using tick_listsD(4) [OF kinvD(4) [OF K]] Nil by (simp add: OS_TickListUpdate_def)
  moreover have "ticked s s A R W [] [] (\<lambda>c. due (trem s) T c - unat ticks) ts"
    using K Nil by (intro ticked_Nil) auto
  ultimately show ?thesis using Nil ticked_end by fastforce
next
  case (Cons a T')
  let ?r = "trem s"
  have K': "kinv s A R W (a # T')" using K Cons by simp
  have nd: "a \<notin> set T'" using kinv_distinct(3) [OF K'] by simp
  have hd: "TL_TCB_Ptr (OSTickList s) = Some a"
    using tick_listsD(4) [OF kinvD(4) [OF K']] by simp
  from tick_consume_stage [OF K', of ticks] obtain s1 where
    s1: "tick_consume (Some a) ticks s = Some (fst (consume ticks (?r a)), s1)" "kinv s1 A R W (a # T')"
    "trem s1 = ?r(a := snd (consume ticks (?r a)))" "moved_set {} s s1" by blast
  note pre = due_prefix [OF kinv_distinct(3) [OF K], of ?r "unat ticks"]
  have qq: "quiet s1 c \<longleftrightarrow> quiet s c" for c
  proof -
    have e: "core (OSTCBs s1 x) = core (OSTCBs s x)" for x using moved_set_sel(7) [OF s1(4)] by simp
    show ?thesis using core_eqI(2-5) [OF e] moved_set_sel(1) [OF s1(4)]
      by (auto simp: quiet_def split: option.splits)
  qed
  show ?thesis
  proof (cases "?r a \<le> ticks")
    case False
    then have nz: "trem s1 a \<noteq> 0" and k: "fst (consume ticks (?r a)) = ticks"
      "trem s1 = ?r(a := ?r a - ticks)" using s1(3) by (auto simp: consume_def)
    have u: "unat (?r a - ticks) = unat (?r a) - unat ticks" "unat ticks < unat (?r a)"
      using False by (simp_all add: unat_sub word_le_nat_alt not_le word_less_nat_alt)
    have run: "OS_TickListUpdate ticks ts s = Some (set_tick_list (\<lambda>l. l\<lparr>TL_NbrUpdated := 0\<rparr>) s1)"
      using hd s1(1) k tick_loop_stop [OF nz] by (simp add: OS_TickListUpdate_def)
    have tk: "ticked s1 s1 A R W [] (a # T') (\<lambda>c. due ?r T c - unat ticks) ts"
      using nd u k(2) Cons by (intro ticked_Nil [OF s1(2)]) auto
    have "takeWhile (\<lambda>c. due ?r T c \<le> unat ticks) T = []"
      "dropWhile (\<lambda>c. due ?r T c \<le> unat ticks) T = T" using u(2) Cons by simp_all
    then have E: "filter (\<lambda>c. due ?r T c \<le> unat ticks) T = []"
      "filter (\<lambda>c. unat ticks < due ?r T c) T = a # T'" using pre Cons by (metis, metis)
    show ?thesis unfolding E
      by (intro exI conjI, rule run, rule ticked_end [OF ticked_start [OF s1(4) tk]])
  next
    case True
    let ?k = "ticks - ?r a"
    have uk: "unat ?k = unat ticks - unat (?r a)" "unat (?r a) \<le> unat ticks"
      using True by (simp_all add: unat_sub word_le_nat_alt)
    have k: "fst (consume ticks (?r a)) = ?k" "trem s1 a = 0" using s1(3) True by (auto simp: consume_def)
    have dd: "due (trem s1) T' c = due ?r T' c" for c using s1(3) nd by simp
    let ?P = "\<lambda>c. due ?r T c \<le> unat ticks" and ?Q = "\<lambda>c. due ?r T' c \<le> unat ?k"
    have PQ: "?P c \<longleftrightarrow> ?Q c" if "c \<in> set T'" for c using that nd uk Cons by auto
    have P: "?P a" using uk Cons by simp
    have "quiet s1 a" using q [of a] P Cons qq by simp
    moreover have "quiet s1 c" if "c \<in> set T'" "due (trem s1) T' c \<le> unat ?k" for c
      using q [of c] that PQ Cons qq by (auto simp: dd)
    ultimately obtain nb s' where L: "tick_loop (Some a) ?k 0 ts 0 s1 = Some (nb, s')"
      "ticked s1 s' A R W (a # takeWhile ?Q T') (dropWhile ?Q T')
        (\<lambda>c. due ?r T' c - unat ?k) (\<lambda>i. ts (0 + i))"
      using tick_loop_spec [OF s1(2) k(2), where k = ?k and nb = 0 and ts = ts and n = 0]
      unfolding dd by blast
    have "takeWhile ?P T' = takeWhile ?Q T'" by (rule takeWhile_cong [OF refl]) (rule PQ)
    moreover have "dropWhile ?P T' = dropWhile ?Q T'" by (rule dropWhile_cong [OF refl]) (rule PQ)
    ultimately have E: "filter ?P T = a # takeWhile ?Q T'"
      "filter (\<lambda>c. unat ticks < due ?r T c) T = dropWhile ?Q T'"
      using pre P Cons by (simp_all only: takeWhile.simps dropWhile.simps if_True)
    have run: "OS_TickListUpdate ticks ts s = Some (set_tick_list (\<lambda>l. l\<lparr>TL_NbrUpdated := nb\<rparr>) s')"
      using hd s1(1) k(1) L(1) by (simp add: OS_TickListUpdate_def)
    have tk: "ticked s1 s' A R W (a # takeWhile ?Q T') (dropWhile ?Q T')
        (\<lambda>c. due ?r T c - unat ticks) ts"
      by (rule ticked_due [where d = "\<lambda>c. due ?r T' c - unat ?k"])
        (use L(2) nd uk Cons in \<open>auto dest!: set_dropWhileD\<close>)
    show ?thesis unfolding E
      by (intro exI conjI, rule run, rule ticked_end [OF ticked_start [OF s1(4) tk]])
  qed
qed

end
