(* ===== verification/Os_Core.thy ===== *)
theory Os_Core
  imports Os_Block
begin

text \<open>
  The scheduler of \<open>os_core.c\<close> and the context switch of the Cortex-M port (\<open>os_cpu_a.asm\<close>).
  The port requests the switch with the PendSV exception, which is taken as soon as the
  interrupts are enabled again; the model takes it where it is requested. The contents of the
  stacks and of the CPU registers, the red-zone check of the stacks in \<open>OSIntExit\<close> and the
  hooks of the application are not modelled.
\<close>

section \<open>Context switch\<close>

definition OS_CPU_PendSVHandler :: "kernel \<Rightarrow> kernel" where
  "OS_CPU_PendSVHandler s =
     s\<lparr>OSPrioCur := OSPrioHighRdy s, OSTCBCurPtr := OSTCBHighRdyPtr s\<rparr>"

text \<open>\<open>OSPrioHighRdy\<close> and \<open>OSTCBHighRdyPtr\<close> are set from the ready list; if the task is not the
  running one, the switch is counted and made.\<close>

definition sched_switch :: "kernel \<Rightarrow> kernel option" where
  "sched_switch s = do {
     (prio, p_tcb) \<leftarrow> sched_select s;
     let s = s\<lparr>OSPrioHighRdy := prio\<rparr>;
     let s = s\<lparr>OSTCBHighRdyPtr := p_tcb\<rparr>;
     if OSTCBHighRdyPtr s = OSTCBCurPtr s then Some s
     else do {
       s \<leftarrow> set_tcb (OSTCBHighRdyPtr s) (\<lambda>t. t\<lparr>CtxSwCtr := CtxSwCtr t + 1\<rparr>) s;
       let s = s\<lparr>OSTaskCtxSwCtr := OSTaskCtxSwCtr s + 1\<rparr>;
       Some (OS_CPU_PendSVHandler s)
     }
   }"

definition OSSched :: "kernel \<Rightarrow> kernel option" where
  "OSSched s =
     (if OSRunning s \<noteq> OS_STATE_OS_RUNNING then Some s
      else if OSIntNestingCtr s > 0 then Some s
      else if OSSchedLockNestingCtr s > 0 then Some s
      else sched_switch s)"

section \<open>Interrupts\<close>

definition OSIntEnter :: "kernel \<Rightarrow> kernel" where
  "OSIntEnter s =
     (if OSRunning s \<noteq> OS_STATE_OS_RUNNING then s
      else if OSIntNestingCtr s \<ge> 250 then s
      else s\<lparr>OSIntNestingCtr := OSIntNestingCtr s + 1\<rparr>)"

definition OSIntExit :: "kernel \<Rightarrow> kernel option" where
  "OSIntExit s =
     (if OSRunning s \<noteq> OS_STATE_OS_RUNNING then Some s
      else if OSIntNestingCtr s = 0 then Some s
      else (let s = s\<lparr>OSIntNestingCtr := OSIntNestingCtr s - 1\<rparr> in
        if OSIntNestingCtr s > 0 then Some s
        else if OSSchedLockNestingCtr s > 0 then Some s
        else sched_switch s))"

section \<open>Scheduler lock\<close>

text \<open>\<open>ts\<close> is the value of \<open>OS_TS_GET()\<close>.\<close>

definition OS_SchedLockTimeMeasStart :: "u32 \<Rightarrow> kernel \<Rightarrow> kernel" where
  "OS_SchedLockTimeMeasStart ts s =
     (if OSSchedLockNestingCtr s = 1 then s\<lparr>OSSchedLockTimeBegin := ts\<rparr> else s)"

definition OS_SchedLockTimeMeasStop :: "u32 \<Rightarrow> kernel \<Rightarrow> kernel" where
  "OS_SchedLockTimeMeasStop ts s =
     (if OSSchedLockNestingCtr s = 0
      then (let delta = ts - OSSchedLockTimeBegin s;
             s = (if OSSchedLockTimeMax s < delta then s\<lparr>OSSchedLockTimeMax := delta\<rparr> else s)
        in if OSSchedLockTimeMaxCur s < delta then s\<lparr>OSSchedLockTimeMaxCur := delta\<rparr> else s)
      else s)"

definition OSSchedLock :: "u32 \<Rightarrow> kernel \<Rightarrow> OS_ERR \<times> kernel" where
  "OSSchedLock ts s =
     (if OSIntNestingCtr s > 0 then (OS_ERR_SCHED_LOCK_ISR, s)
      else if OSRunning s \<noteq> OS_STATE_OS_RUNNING then (OS_ERR_OS_NOT_RUNNING, s)
      else if OSSchedLockNestingCtr s \<ge> 250 then (OS_ERR_LOCK_NESTING_OVF, s)
      else (let s = s\<lparr>OSSchedLockNestingCtr := OSSchedLockNestingCtr s + 1\<rparr> in
        (OS_ERR_NONE, OS_SchedLockTimeMeasStart ts s)))"

definition OSSchedUnlock :: "u32 \<Rightarrow> kernel \<Rightarrow> (OS_ERR \<times> kernel) option" where
  "OSSchedUnlock ts s =
     (if OSIntNestingCtr s > 0 then Some (OS_ERR_SCHED_UNLOCK_ISR, s)
      else if OSRunning s \<noteq> OS_STATE_OS_RUNNING then Some (OS_ERR_OS_NOT_RUNNING, s)
      else if OSSchedLockNestingCtr s = 0 then Some (OS_ERR_SCHED_NOT_LOCKED, s)
      else (let s = s\<lparr>OSSchedLockNestingCtr := OSSchedLockNestingCtr s - 1\<rparr> in
        if OSSchedLockNestingCtr s > 0 then Some (OS_ERR_SCHED_LOCKED, s)
        else do {
          let s = OS_SchedLockTimeMeasStop ts s;
          s \<leftarrow> OSSched s;
          Some (OS_ERR_NONE, s)
        }))"

section \<open>Round-robin\<close>

definition OSSchedRoundRobinCfg :: "bool \<Rightarrow> u32 \<Rightarrow> kernel \<Rightarrow> OS_ERR \<times> kernel" where
  "OSSchedRoundRobinCfg en dflt_time_quanta s =
     (let s = (if \<not> en then s\<lparr>OSSchedRoundRobinEn := False\<rparr>
               else s\<lparr>OSSchedRoundRobinEn := True\<rparr>);
          s = (if dflt_time_quanta > 0
               then s\<lparr>OSSchedRoundRobinDfltTimeQuanta := dflt_time_quanta\<rparr>
               else s\<lparr>OSSchedRoundRobinDfltTimeQuanta := OSCfg_TickRate_Hz div 10\<rparr>)
      in (OS_ERR_NONE, s))"

definition OSSchedRoundRobinYield :: "kernel \<Rightarrow> (OS_ERR \<times> kernel) option" where
  "OSSchedRoundRobinYield s =
     (if OSIntNestingCtr s > 0 then Some (OS_ERR_YIELD_ISR, s)
      else if OSSchedLockNestingCtr s > 0 then Some (OS_ERR_SCHED_LOCKED, s)
      else if \<not> OSSchedRoundRobinEn s then Some (OS_ERR_ROUND_ROBIN_DISABLED, s)
      else do {
        l \<leftarrow> rdy_list s (OSPrioCur s);
        if RL_HeadPtr l = RL_TailPtr l then Some (OS_ERR_ROUND_ROBIN_1, s)
        else do {
          s \<leftarrow> OS_RdyListMoveHeadToTail (OSPrioCur s) s;
          l \<leftarrow> rdy_list s (OSPrioCur s);
          s \<leftarrow> reload_quantum (RL_HeadPtr l) s;
          s \<leftarrow> OSSched s;
          Some (OS_ERR_NONE, s)
        }
      })"

section \<open>Start\<close>

text \<open>With the configuration of the application the idle, statistics and timer tasks are the
  kernel's own tasks (\<open>OS_CFG_TASK_IDLE_EN\<close>, \<open>OS_CFG_STAT_TASK_EN\<close>, \<open>OS_CFG_TMR_EN\<close>).
  \<open>OSStartHighRdy\<close> switches to the first task and does not return; the code after the call
  reports its return as the error \<open>OS_ERR_FATAL_RETURN\<close>.\<close>

definition OSStart :: "kernel \<Rightarrow> (OS_ERR \<times> kernel) option" where
  "OSStart s =
     (if \<not> OSInitialized s then Some (OS_ERR_OS_NOT_INIT, s)
      else let kernel_task_cnt = 3 in
        if OSTaskQty s \<le> kernel_task_cnt then Some (OS_ERR_OS_NO_APP_TASK, s)
        else if OSRunning s = OS_STATE_OS_STOPPED then do {
          (prio, p_tcb) \<leftarrow> sched_select s;
          let s = s\<lparr>OSPrioHighRdy := prio\<rparr>;
          let s = s\<lparr>OSPrioCur := OSPrioHighRdy s\<rparr>;
          let s = s\<lparr>OSTCBHighRdyPtr := p_tcb\<rparr>;
          let s = s\<lparr>OSTCBCurPtr := OSTCBHighRdyPtr s\<rparr>;
          let s = s\<lparr>OSRunning := OS_STATE_OS_RUNNING\<rparr>;
          Some (OS_ERR_FATAL_RETURN, OS_CPU_PendSVHandler s)
        } else Some (OS_ERR_OS_RUNNING, s))"

section \<open>The invariant does not see the scheduling globals\<close>

lemma kinv_globals [simp]:
  "kinv (s\<lparr>OSPrioCur := p\<rparr>) A R W T \<longleftrightarrow> kinv s A R W T"
  "kinv (s\<lparr>OSPrioHighRdy := p\<rparr>) A R W T \<longleftrightarrow> kinv s A R W T"
  "kinv (s\<lparr>OSTCBCurPtr := q\<rparr>) A R W T \<longleftrightarrow> kinv s A R W T"
  "kinv (s\<lparr>OSTCBHighRdyPtr := q\<rparr>) A R W T \<longleftrightarrow> kinv s A R W T"
  "kinv (s\<lparr>OSTaskCtxSwCtr := c\<rparr>) A R W T \<longleftrightarrow> kinv s A R W T"
  "kinv (s\<lparr>OSIntNestingCtr := b\<rparr>) A R W T \<longleftrightarrow> kinv s A R W T"
  "kinv (s\<lparr>OSSchedLockNestingCtr := b\<rparr>) A R W T \<longleftrightarrow> kinv s A R W T"
  "kinv (s\<lparr>OSSchedLockTimeBegin := c\<rparr>) A R W T \<longleftrightarrow> kinv s A R W T"
  "kinv (s\<lparr>OSSchedLockTimeMax := c\<rparr>) A R W T \<longleftrightarrow> kinv s A R W T"
  "kinv (s\<lparr>OSSchedLockTimeMaxCur := c\<rparr>) A R W T \<longleftrightarrow> kinv s A R W T"
  "kinv (s\<lparr>OSTickCtr := c\<rparr>) A R W T \<longleftrightarrow> kinv s A R W T"
  "kinv (s\<lparr>OSSems := sm\<rparr>) A R W T \<longleftrightarrow> kinv s A R W T"
  "kinv (s\<lparr>OSMutexes := mx\<rparr>) A R W T \<longleftrightarrow> kinv s A R W T"
  "kinv (s\<lparr>OSQs := qs\<rparr>) A R W T \<longleftrightarrow> kinv s A R W T"
  "kinv (s\<lparr>OSFlagGrps := fg\<rparr>) A R W T \<longleftrightarrow> kinv s A R W T"
  "kinv (s\<lparr>OSMsgs := ms\<rparr>) A R W T \<longleftrightarrow> kinv s A R W T"
  "kinv (s\<lparr>OSMsgPool := mp\<rparr>) A R W T \<longleftrightarrow> kinv s A R W T"
  by ((rule kinv_cong; (rule rdy_rel_cong pend_lists_cong tick_lists_cong)?; simp)+)

lemma kinv_put_CtxSwCtr: "kinv (put a (\<lambda>t. t\<lparr>CtxSwCtr := CtxSwCtr t + 1\<rparr>) s) A R W T \<longleftrightarrow> kinv s A R W T"
  by (rule kinv_put) simp_all

section \<open>The scheduler runs the most urgent task\<close>

text \<open>\<open>c\<close> is running: it is the current task and \<open>OSPrioCur\<close> is its priority.\<close>

definition running :: "kernel \<Rightarrow> nat \<Rightarrow> bool" where
  "running s c \<longleftrightarrow> OSTCBCurPtr s = Some c \<and> OSPrioCur s = Prio (OSTCBs s c)"

text \<open>\<open>x\<close> is the task the kernel must run: the head of the list of the highest priority.\<close>

definition most_urgent :: "kernel \<Rightarrow> (u8 \<Rightarrow> nat list) \<Rightarrow> nat \<Rightarrow> bool" where
  "most_urgent s R x \<longleftrightarrow> (\<exists>xs. R (Prio (OSTCBs s x)) = x # xs) \<and>
     (\<forall>q. R q \<noteq> [] \<longrightarrow> Prio (OSTCBs s x) \<le> q)"

lemma most_urgent_unique: "most_urgent s R x \<Longrightarrow> most_urgent s R y \<Longrightarrow> x = y"
  unfolding most_urgent_def
  by (metis dual_order.antisym list.distinct(1) list.inject)

lemma sched_select_urgent:
  assumes R: "rdy_rel s R" and ne: "R q \<noteq> []"
  obtains x where "sched_select s = Some (Prio (OSTCBs s x), Some x)" "most_urgent s R x"
proof -
  from rdyq.select [OF R ne] obtain p x xs where
    p: "sched_select s = Some (p, Some x)" "R p = x # xs" "\<forall>r. R r \<noteq> [] \<longrightarrow> p \<le> r" by blast
  have "Prio (OSTCBs s x) = p" using rdyq.prio [OF R, of x p] p(2) by simp
  with p show thesis by (intro that [of x]) (auto simp: most_urgent_def)
qed

text \<open>What a switch leaves alone: everything but the scheduling globals and the switch counters.\<close>

definition switched :: "kernel \<Rightarrow> kernel \<Rightarrow> bool" where
  "switched s s' \<longleftrightarrow> (\<exists>n ph th k pc tc. s' = s\<lparr>OSTCBs := (\<lambda>c. (OSTCBs s c)\<lparr>CtxSwCtr := n c\<rparr>),
     OSPrioHighRdy := ph, OSTCBHighRdyPtr := th, OSTaskCtxSwCtr := k, OSPrioCur := pc,
     OSTCBCurPtr := tc\<rparr>)"

lemma switched_refl [simp]: "switched s s"
  unfolding switched_def
  by (intro exI [of _ "\<lambda>c. CtxSwCtr (OSTCBs s c)"] exI [of _ "OSPrioHighRdy s"]
      exI [of _ "OSTCBHighRdyPtr s"] exI [of _ "OSTaskCtxSwCtr s"] exI [of _ "OSPrioCur s"]
      exI [of _ "OSTCBCurPtr s"]) simp

lemma switched_sel:
  assumes "switched s s'"
  shows "OSSems s' = OSSems s" "OSMutexes s' = OSMutexes s" "OSQs s' = OSQs s" "OSMsgs s' = OSMsgs s"
    "OSMsgPool s' = OSMsgPool s" "OSObjs s' = OSObjs s" "OSTickCtr s' = OSTickCtr s"
    "OSFlagGrps s' = OSFlagGrps s" "OSRunning s' = OSRunning s"
    "OSIntNestingCtr s' = OSIntNestingCtr s" "OSSchedLockNestingCtr s' = OSSchedLockNestingCtr s"
    "\<exists>n. OSTCBs s' c = (OSTCBs s c)\<lparr>CtxSwCtr := n\<rparr>"
    "PendStatus (OSTCBs s' c) = PendStatus (OSTCBs s c)" "Prio (OSTCBs s' c) = Prio (OSTCBs s c)"
    "TaskState (OSTCBs s' c) = TaskState (OSTCBs s c)" "Tcb_TS (OSTCBs s' c) = Tcb_TS (OSTCBs s c)"
    "MsgPtr (OSTCBs s' c) = MsgPtr (OSTCBs s c)" "MsgSize (OSTCBs s' c) = MsgSize (OSTCBs s c)"
  using assms unfolding switched_def by fastforce+

lemma switched_kinv: "switched s s' \<Longrightarrow> kinv s' A R W T \<longleftrightarrow> kinv s A R W T"
  unfolding switched_def
  by (elim exE) (simp, rule kinv_cong; (rule rdy_rel_cong pend_lists_cong tick_lists_cong)?; simp)

text \<open>After the switch the most urgent task is the current one.\<close>

lemma sched_switch_spec:
  assumes K: "kinv s A R W T" and ne: "R q \<noteq> []"
  shows "\<exists>s' x. sched_switch s = Some s' \<and> switched s s' \<and> most_urgent s R x \<and>
    OSTCBCurPtr s' = Some x \<and> (OSTCBCurPtr s \<noteq> Some x \<or> running s x \<longrightarrow> running s' x)"
proof -
  from sched_select_urgent [OF kinvD(1) [OF K] ne] obtain x where
    x: "sched_select s = Some (Prio (OSTCBs s x), Some x)" "most_urgent s R x" .
  show ?thesis
  proof (cases "OSTCBCurPtr s = Some x")
    case True
    let ?s = "s\<lparr>OSPrioHighRdy := Prio (OSTCBs s x), OSTCBHighRdyPtr := Some x\<rparr>"
    have "switched s ?s"
      unfolding switched_def
      by (intro exI [of _ "\<lambda>c. CtxSwCtr (OSTCBs s c)"] exI [of _ "Prio (OSTCBs s x)"]
          exI [of _ "Some x"] exI [of _ "OSTaskCtxSwCtr s"] exI [of _ "OSPrioCur s"]
          exI [of _ "OSTCBCurPtr s"]) simp
    then show ?thesis using x True by (simp add: sched_switch_def running_def)
  next
    case False
    let ?f = "\<lambda>t. t\<lparr>CtxSwCtr := CtxSwCtr t + 1\<rparr>"
    let ?s = "(put x ?f s)\<lparr>OSPrioHighRdy := Prio (OSTCBs s x), OSTCBHighRdyPtr := Some x,
      OSTaskCtxSwCtr := OSTaskCtxSwCtr s + 1, OSPrioCur := Prio (OSTCBs s x), OSTCBCurPtr := Some x\<rparr>"
    have "switched s ?s"
      unfolding switched_def
      by (intro exI [of _ "(\<lambda>c. CtxSwCtr (OSTCBs s c))(x := CtxSwCtr (OSTCBs s x) + 1)"]
          exI [of _ "Prio (OSTCBs s x)"] exI [of _ "Some x"] exI [of _ "OSTaskCtxSwCtr s + 1"])
        (auto simp: put_def fun_eq_iff)
    moreover have "sched_switch s = Some ?s"
      using x False by (simp add: sched_switch_def set_tcb_def put_def OS_CPU_PendSVHandler_def)
    ultimately show ?thesis using x by (auto simp: running_def)
  qed
qed

lemma OSSched_spec:
  assumes K: "kinv s A R W T" and ne: "R q \<noteq> []"
    and en: "OSRunning s = OS_STATE_OS_RUNNING" "OSIntNestingCtr s = 0" "OSSchedLockNestingCtr s = 0"
  shows "\<exists>s' x. OSSched s = Some s' \<and> switched s s' \<and> most_urgent s R x \<and>
    OSTCBCurPtr s' = Some x \<and> (OSTCBCurPtr s \<noteq> Some x \<or> running s x \<longrightarrow> running s' x)"
  using sched_switch_spec [OF K ne] en by (simp add: OSSched_def)

lemma OSSched_disabled:
  "OSRunning s \<noteq> OS_STATE_OS_RUNNING \<or> OSIntNestingCtr s > 0 \<or> OSSchedLockNestingCtr s > 0 \<Longrightarrow>
   OSSched s = Some s"
  by (auto simp: OSSched_def)

text \<open>In every state of the kernel the scheduler returns, if some task is ready.\<close>

lemma OSSched_returns:
  assumes K: "kinv s A R W T" and ne: "R q \<noteq> []"
  shows "\<exists>s'. OSSched s = Some s' \<and> switched s s'"
  using sched_switch_spec [OF K ne] by (auto simp: OSSched_def)

section \<open>Nesting of interrupts and of the scheduler lock\<close>

text \<open>Both follow one protocol: a counter is incremented at the entry and decremented at the
  exit, and only the outermost exit calls the scheduler.\<close>

primrec leave_all :: "('x \<Rightarrow> 's \<Rightarrow> 's option) \<Rightarrow> 'x list \<Rightarrow> 's \<Rightarrow> 's option" where
  "leave_all leave [] s = Some s"
| "leave_all leave (x # xs) s = do { s \<leftarrow> leave x s; leave_all leave xs s }"

locale nested_section =
  fixes enter :: "'x \<Rightarrow> 's \<Rightarrow> 's"
    and leave :: "'x \<Rightarrow> 's \<Rightarrow> 's option"
    and resched :: "'s \<Rightarrow> 's option"
    and depth :: "'s \<Rightarrow> nat"
    and ok :: "'s \<Rightarrow> bool"
    and same :: "'s \<Rightarrow> 's \<Rightarrow> bool"
    and lim :: nat
  assumes refl: "same s s"
    and trans: "same s s' \<Longrightarrow> same s' s'' \<Longrightarrow> same s s''"
    and enter: "ok s \<Longrightarrow> depth s < lim \<Longrightarrow>
      ok (enter x s) \<and> depth (enter x s) = Suc (depth s) \<and> same s (enter x s)"
    and leave_inner: "ok s \<Longrightarrow> depth s = Suc (Suc n) \<Longrightarrow>
      \<exists>s'. leave x s = Some s' \<and> ok s' \<and> depth s' = Suc n \<and> same s s'"
    and leave_outer: "ok s \<Longrightarrow> depth s = Suc 0 \<Longrightarrow>
      \<exists>s'. leave x s = resched s' \<and> ok s' \<and> depth s' = 0 \<and> same s s'"
begin

lemma enter_all:
  "ok s \<Longrightarrow> depth s + length xs \<le> lim \<Longrightarrow>
   ok (fold enter xs s) \<and> depth (fold enter xs s) = depth s + length xs \<and> same s (fold enter xs s)"
proof (induction xs arbitrary: s)
  case Nil
  then show ?case by (simp add: refl)
next
  case (Cons x xs)
  from enter [OF Cons.prems(1), of x] Cons.prems(2)
  have e: "ok (enter x s)" "depth (enter x s) = Suc (depth s)" "same s (enter x s)" by auto
  with Cons.IH [OF e(1)] Cons.prems(2) trans [OF e(3)] show ?case by simp
qed

text \<open>The exits that match the entries bring the depth back to zero and call the scheduler
  once, at the outermost level.\<close>

lemma leave_all:
  "ok s \<Longrightarrow> depth s = length xs \<Longrightarrow> xs \<noteq> [] \<Longrightarrow>
   \<exists>s'. leave_all leave xs s = resched s' \<and> ok s' \<and> depth s' = 0 \<and> same s s'"
proof (induction xs arbitrary: s)
  case (Cons x xs)
  show ?case
  proof (cases xs)
    case Nil
    with leave_outer [OF Cons.prems(1), of x] Cons.prems(2) show ?thesis by auto
  next
    case (Cons y ys)
    with Cons.prems leave_inner [of s "length ys" x] obtain s1 where
      s1: "leave x s = Some s1" "ok s1" "depth s1 = length xs" "same s s1" by auto
    from Cons.IH [OF s1(2,3)] Cons obtain s' where
      "leave_all leave xs s1 = resched s'" "ok s'" "depth s' = 0" "same s1 s'" by auto
    with s1(1) trans [OF s1(4)] show ?thesis by auto
  qed
qed simp

lemma balanced:
  assumes "ok s" and "depth s = 0" and "length ys = length xs" and "xs \<noteq> []" and "length xs \<le> lim"
  shows "\<exists>s'. leave_all leave ys (fold enter xs s) = resched s' \<and> ok s' \<and> depth s' = 0 \<and> same s s'"
proof -
  have "depth s + length xs \<le> lim" using assms(2,5) by simp
  note E = enter_all [OF assms(1) this]
  from leave_all [of "fold enter xs s" ys] E assms(2-4) obtain s' where
    "leave_all leave ys (fold enter xs s) = resched s'" "ok s'" "depth s' = 0"
    "same (fold enter xs s) s'" by fastforce
  with E trans show ?thesis by blast
qed

end

definition same_but_nesting :: "kernel \<Rightarrow> kernel \<Rightarrow> bool" where
  "same_but_nesting s s' \<longleftrightarrow> (\<exists>i l b m c. s' = s\<lparr>OSIntNestingCtr := i, OSSchedLockNestingCtr := l,
     OSSchedLockTimeBegin := b, OSSchedLockTimeMax := m, OSSchedLockTimeMaxCur := c\<rparr>)"

lemma same_but_nesting_refl: "same_but_nesting s s"
  unfolding same_but_nesting_def
  by (intro exI [of _ "OSIntNestingCtr s"] exI [of _ "OSSchedLockNestingCtr s"]
      exI [of _ "OSSchedLockTimeBegin s"] exI [of _ "OSSchedLockTimeMax s"]
      exI [of _ "OSSchedLockTimeMaxCur s"]) simp

lemma same_but_nesting_trans:
  "same_but_nesting s s' \<Longrightarrow> same_but_nesting s' s'' \<Longrightarrow> same_but_nesting s s''"
  unfolding same_but_nesting_def by (elim exE) (simp, blast)

lemma same_but_nesting_upd:
  "same_but_nesting s (s\<lparr>OSIntNestingCtr := i\<rparr>)"
  "same_but_nesting s (s\<lparr>OSSchedLockNestingCtr := l\<rparr>)"
  "same_but_nesting s (s\<lparr>OSSchedLockTimeBegin := b\<rparr>)"
  "same_but_nesting s (s\<lparr>OSSchedLockTimeMax := m\<rparr>)"
  "same_but_nesting s (s\<lparr>OSSchedLockTimeMaxCur := c\<rparr>)"
  unfolding same_but_nesting_def
  by ((rule exI [of _ "i"] exI [of _ "OSIntNestingCtr s"]),
      (rule exI [of _ "l"] exI [of _ "OSSchedLockNestingCtr s"]),
      (rule exI [of _ "b"] exI [of _ "OSSchedLockTimeBegin s"]),
      (rule exI [of _ "m"] exI [of _ "OSSchedLockTimeMax s"]),
      (rule exI [of _ "c"] exI [of _ "OSSchedLockTimeMaxCur s"]), simp; fail)+

lemma same_but_nesting_kinv: "same_but_nesting s s' \<Longrightarrow> kinv s' A R W T \<longleftrightarrow> kinv s A R W T"
  unfolding same_but_nesting_def by (elim exE) simp

lemma unat_ctr: "unat (c :: u8) < 250 \<Longrightarrow> unat (c + 1) = Suc (unat c)"
  by (simp add: unat_word_ariths)

lemma ctr_limit: "(250 :: u8) \<le> c \<longleftrightarrow> \<not> unat c < 250" "0 < c \<longleftrightarrow> unat c \<noteq> 0"
  by (simp_all add: word_le_nat_alt not_less word_gt_0 unat_eq_0)

interpretation int_nest: nested_section "\<lambda>_ :: unit. OSIntEnter" "\<lambda>_. OSIntExit" sched_switch
  "\<lambda>s. unat (OSIntNestingCtr s)"
  "\<lambda>s. OSRunning s = OS_STATE_OS_RUNNING \<and> OSSchedLockNestingCtr s = 0" same_but_nesting 250
proof unfold_locales
  fix s :: kernel and n
  assume *: "OSRunning s = OS_STATE_OS_RUNNING \<and> OSSchedLockNestingCtr s = 0"
  { assume "unat (OSIntNestingCtr s) = Suc (Suc n)"
    from unat_pred [OF this] this * show "\<exists>s'. OSIntExit s = Some s' \<and>
        (OSRunning s' = OS_STATE_OS_RUNNING \<and> OSSchedLockNestingCtr s' = 0) \<and>
        unat (OSIntNestingCtr s') = Suc n \<and> same_but_nesting s s'"
      by (intro exI [of _ "s\<lparr>OSIntNestingCtr := OSIntNestingCtr s - 1\<rparr>"])
        (auto simp: OSIntExit_def Let_def ctr_limit same_but_nesting_upd) }
  { assume "unat (OSIntNestingCtr s) = Suc 0"
    from unat_pred [OF this] this * show "\<exists>s'. OSIntExit s = sched_switch s' \<and>
        (OSRunning s' = OS_STATE_OS_RUNNING \<and> OSSchedLockNestingCtr s' = 0) \<and>
        unat (OSIntNestingCtr s') = 0 \<and> same_but_nesting s s'"
      by (intro exI [of _ "s\<lparr>OSIntNestingCtr := OSIntNestingCtr s - 1\<rparr>"])
        (auto simp: OSIntExit_def Let_def ctr_limit same_but_nesting_upd) }
qed (auto simp: OSIntEnter_def ctr_limit unat_ctr same_but_nesting_upd
    intro: same_but_nesting_refl elim: same_but_nesting_trans)

lemma lock_times_sel [simp]:
  "OSRunning (OS_SchedLockTimeMeasStart ts s) = OSRunning s"
  "OSIntNestingCtr (OS_SchedLockTimeMeasStart ts s) = OSIntNestingCtr s"
  "OSSchedLockNestingCtr (OS_SchedLockTimeMeasStart ts s) = OSSchedLockNestingCtr s"
  "OSRunning (OS_SchedLockTimeMeasStop ts s) = OSRunning s"
  "OSIntNestingCtr (OS_SchedLockTimeMeasStop ts s) = OSIntNestingCtr s"
  "OSSchedLockNestingCtr (OS_SchedLockTimeMeasStop ts s) = OSSchedLockNestingCtr s"
  by (simp_all add: OS_SchedLockTimeMeasStart_def OS_SchedLockTimeMeasStop_def Let_def)

lemma same_lock_times:
  "same_but_nesting s (OS_SchedLockTimeMeasStart ts s)" "same_but_nesting s (OS_SchedLockTimeMeasStop ts s)"
  by (auto simp: OS_SchedLockTimeMeasStart_def OS_SchedLockTimeMeasStop_def Let_def same_but_nesting_upd
      same_but_nesting_refl
      intro: same_but_nesting_trans [OF same_but_nesting_upd(4) same_but_nesting_upd(5)])

interpretation lock_nest: nested_section "\<lambda>ts s. snd (OSSchedLock ts s)"
  "\<lambda>ts s. map_option snd (OSSchedUnlock ts s)" OSSched "\<lambda>s. unat (OSSchedLockNestingCtr s)"
  "\<lambda>s. OSRunning s = OS_STATE_OS_RUNNING \<and> OSIntNestingCtr s = 0" same_but_nesting 250
proof unfold_locales
  fix s :: kernel and n and ts :: u32
  assume *: "OSRunning s = OS_STATE_OS_RUNNING \<and> OSIntNestingCtr s = 0"
  note tr = same_but_nesting_trans [OF same_but_nesting_upd(2) same_lock_times(1)]
    same_but_nesting_trans [OF same_but_nesting_upd(2) same_lock_times(2)]
  { assume "unat (OSSchedLockNestingCtr s) < 250"
    with * show "(OSRunning (snd (OSSchedLock ts s)) = OS_STATE_OS_RUNNING \<and>
        OSIntNestingCtr (snd (OSSchedLock ts s)) = 0) \<and>
        unat (OSSchedLockNestingCtr (snd (OSSchedLock ts s))) = Suc (unat (OSSchedLockNestingCtr s)) \<and>
        same_but_nesting s (snd (OSSchedLock ts s))"
      by (auto simp: OSSchedLock_def Let_def ctr_limit unat_ctr tr) }
  { assume "unat (OSSchedLockNestingCtr s) = Suc (Suc n)"
    from unat_pred [OF this] this * show "\<exists>s'. map_option snd (OSSchedUnlock ts s) = Some s' \<and>
        (OSRunning s' = OS_STATE_OS_RUNNING \<and> OSIntNestingCtr s' = 0) \<and>
        unat (OSSchedLockNestingCtr s') = Suc n \<and> same_but_nesting s s'"
      by (intro exI [of _ "s\<lparr>OSSchedLockNestingCtr := OSSchedLockNestingCtr s - 1\<rparr>"])
        (auto simp: OSSchedUnlock_def Let_def ctr_limit same_but_nesting_upd) }
  { let ?s = "OS_SchedLockTimeMeasStop ts (s\<lparr>OSSchedLockNestingCtr := OSSchedLockNestingCtr s - 1\<rparr>)"
    assume "unat (OSSchedLockNestingCtr s) = Suc 0"
    from unat_pred [OF this] this * show "\<exists>s'. map_option snd (OSSchedUnlock ts s) = OSSched s' \<and>
        (OSRunning s' = OS_STATE_OS_RUNNING \<and> OSIntNestingCtr s' = 0) \<and>
        unat (OSSchedLockNestingCtr s') = 0 \<and> same_but_nesting s s'"
      by (intro exI [of _ ?s], cases "OSSched ?s")
        (auto simp: OSSchedUnlock_def Let_def ctr_limit tr) }
qed (auto intro: same_but_nesting_refl elim: same_but_nesting_trans)

lemma switched_trem: "switched s s' \<Longrightarrow> trem s' = trem s"
  by (auto simp: switched_def trem_def)

lemma switched_PendOn: "switched s s' \<Longrightarrow> PendOn (OSTCBs s' a) = PendOn (OSTCBs s a)"
  by (auto simp: switched_def)

end
