(* ===== verification/Os_Obj.thy ===== *)
theory Os_Obj
  imports Os_Core
begin

text \<open>
  What the kernel objects (semaphores, mutexes, queues, event flag groups) share: the result of a
  pend call, the debug lists, and the loops that abort or post to the waiting tasks of an object.

  A pend call that has to wait is modelled in two parts. The first ends with the call of
  \<open>OSSched\<close>, which hands the CPU to another task; its outcome is \<open>Blocked\<close>. The second, named
  \<open>..._resume\<close>, runs when the task is the current one again and reads why its wait has ended.
  Out-parameters are results; the value written to \<open>*p_ts\<close> is an option, where \<open>None\<close> says that
  nothing is written.
\<close>

datatype 'a pend_outcome = Done 'a | Blocked

text \<open>The error for a pend status, the same in every pend call. (The \<open>default\<close> branch of the
  code is for values that are not in the enumeration.)\<close>

definition pend_err :: "pend_status \<Rightarrow> OS_ERR" where
  "pend_err st = (case st of
     OS_STATUS_PEND_OK \<Rightarrow> OS_ERR_NONE
   | OS_STATUS_PEND_ABORT \<Rightarrow> OS_ERR_PEND_ABORT
   | OS_STATUS_PEND_TIMEOUT \<Rightarrow> OS_ERR_TIMEOUT
   | OS_STATUS_PEND_DEL \<Rightarrow> OS_ERR_OBJ_DEL)"

section \<open>Debug lists\<close>

text \<open>\<open>get_head\<close> and \<open>set_head\<close> read and write the head of the list of the object type.\<close>

definition dbg_list_add ::
  "(kernel \<Rightarrow> ptr) \<Rightarrow> (ptr \<Rightarrow> kernel \<Rightarrow> kernel) \<Rightarrow> ptr \<Rightarrow> kernel \<Rightarrow> kernel option" where
  "dbg_list_add get_head set_head p s = do {
     s \<leftarrow> set_obj p (\<lambda>b. b\<lparr>Obj_DbgNamePtr := '' ''\<rparr>) s;
     s \<leftarrow> set_obj p (\<lambda>b. b\<lparr>Obj_DbgPrevPtr := None\<rparr>) s;
     s \<leftarrow>
       (if get_head s = None then set_obj p (\<lambda>b. b\<lparr>Obj_DbgNextPtr := None\<rparr>) s
        else do {
          s \<leftarrow> set_obj p (\<lambda>b. b\<lparr>Obj_DbgNextPtr := get_head s\<rparr>) s;
          set_obj (get_head s) (\<lambda>b. b\<lparr>Obj_DbgPrevPtr := p\<rparr>) s
        });
     Some (set_head p s)
   }"

definition dbg_list_remove ::
  "(ptr \<Rightarrow> kernel \<Rightarrow> kernel) \<Rightarrow> ptr \<Rightarrow> kernel \<Rightarrow> kernel option" where
  "dbg_list_remove set_head p s = do {
     b \<leftarrow> obj s p;
     let prev = Obj_DbgPrevPtr b;
     let nxt = Obj_DbgNextPtr b;
     if prev = None then do {
       let s = set_head nxt s;
       s \<leftarrow> (if nxt \<noteq> None then set_obj nxt (\<lambda>b. b\<lparr>Obj_DbgPrevPtr := None\<rparr>) s else Some s);
       set_obj p (\<lambda>b. b\<lparr>Obj_DbgNextPtr := None\<rparr>) s
     } else if nxt = None then do {
       s \<leftarrow> set_obj prev (\<lambda>b. b\<lparr>Obj_DbgNextPtr := None\<rparr>) s;
       set_obj p (\<lambda>b. b\<lparr>Obj_DbgPrevPtr := None\<rparr>) s
     } else do {
       s \<leftarrow> set_obj prev (\<lambda>b. b\<lparr>Obj_DbgNextPtr := nxt\<rparr>) s;
       s \<leftarrow> set_obj nxt (\<lambda>b. b\<lparr>Obj_DbgPrevPtr := prev\<rparr>) s;
       s \<leftarrow> set_obj p (\<lambda>b. b\<lparr>Obj_DbgNextPtr := None\<rparr>) s;
       set_obj p (\<lambda>b. b\<lparr>Obj_DbgPrevPtr := None\<rparr>) s
     }
   }"

section \<open>Loops over the waiting tasks\<close>

text \<open>The loop of the \<open>OS_OPT_DEL_ALWAYS\<close> branches: all waiting tasks are released.\<close>

partial_function (option) del_loop ::
  "ptr \<Rightarrow> u32 \<Rightarrow> u16 \<Rightarrow> kernel \<Rightarrow> (u16 \<times> kernel) option" where
  "del_loop p ts nbr_tasks s = do {
     l \<leftarrow> pend_list s p;
     if PL_HeadPtr l \<noteq> None then do {
       s \<leftarrow> OS_PendAbort (PL_HeadPtr l) ts OS_STATUS_PEND_DEL s;
       del_loop p ts (nbr_tasks + 1) s
     } else Some (nbr_tasks, s)
   }"

text \<open>The loop of the \<open>PendAbort\<close> calls of semaphores, queues and flag groups.\<close>

partial_function (option) abort_loop ::
  "ptr \<Rightarrow> OS_OPT \<Rightarrow> u32 \<Rightarrow> u16 \<Rightarrow> kernel \<Rightarrow> (u16 \<times> kernel) option" where
  "abort_loop p opt ts nbr_tasks s = do {
     l \<leftarrow> pend_list s p;
     if PL_HeadPtr l \<noteq> None then do {
       s \<leftarrow> OS_PendAbort (PL_HeadPtr l) ts OS_STATUS_PEND_ABORT s;
       let nbr_tasks = nbr_tasks + 1;
       if opt \<noteq> OS_OPT_PEND_ABORT_ALL then Some (nbr_tasks, s)
       else abort_loop p opt ts nbr_tasks s
     } else Some (nbr_tasks, s)
   }"

text \<open>The loop of the post calls of semaphores and queues.\<close>

partial_function (option) post_loop ::
  "ptr \<Rightarrow> ptr \<Rightarrow> ptr \<Rightarrow> u16 \<Rightarrow> OS_OPT \<Rightarrow> u32 \<Rightarrow> kernel \<Rightarrow> kernel option" where
  "post_loop p p_tcb p_void msg_size opt ts s =
     (if p_tcb \<noteq> None then do {
        t \<leftarrow> tcb s p_tcb;
        let p_tcb_next = PendNextPtr t;
        s \<leftarrow> OS_Post p p_tcb p_void msg_size ts s;
        if opt AND OS_OPT_POST_ALL = 0 then Some s
        else post_loop p p_tcb_next p_void msg_size opt ts s
      } else Some s)"

section \<open>What the loops do\<close>

definition readied :: "kernel \<Rightarrow> nat \<Rightarrow> (u8 \<Rightarrow> nat list) \<Rightarrow> (u8 \<Rightarrow> nat list)" where
  "readied s a R = (if runs (TaskState (OSTCBs s a)) then rdy_ins s a R else R)"

text \<open>The tasks \<open>E\<close> have been released, in order: each has become \<open>f\<close> of what it was.\<close>

definition released :: "(OS_TCB \<Rightarrow> OS_TCB) \<Rightarrow> kernel \<Rightarrow> kernel \<Rightarrow> nat set \<Rightarrow> (u8 \<Rightarrow> nat list) \<Rightarrow>
    (nat \<Rightarrow> nat list) \<Rightarrow> nat list \<Rightarrow> nat list \<Rightarrow> bool" where
  "released f s s' A R W T E \<longleftrightarrow> moved_set (set E) s s' \<and>
     kinv s' A (fold (readied s) E R) (fold without E W) (fold remove1 E T) \<and>
     (\<forall>a\<in>set E. core (OSTCBs s' a) = core (f (OSTCBs s a)))"

lemma releasedD:
  assumes "released f s s' A R W T E"
  shows "moved_set (set E) s s'" "kinv s' A (fold (readied s) E R) (fold without E W) (fold remove1 E T)"
    "\<And>a. a \<in> set E \<Longrightarrow> core (OSTCBs s' a) = core (f (OSTCBs s a))"
  using assms by (auto simp: released_def)

lemma released_Nil: "kinv s A R W T \<Longrightarrow> released f s s A R W T []"
  by (simp add: released_def moved_set_refl)

lemma readied_frame: "moved a s s' \<Longrightarrow> c \<noteq> a \<Longrightarrow> readied s' c = readied s c"
  using core_eqI(1,4) [OF moved_sel(17)] moved_sel(9)
  by (simp add: readied_def rdy_ins_def fun_eq_iff)

lemma released_Cons:
  assumes B: "becomes a (f (OSTCBs s a)) s s2 A (readied s a R) (without a W) (remove1 a T)"
    and Rl: "released f s2 s' A (readied s a R) (without a W) (remove1 a T) E"
    and a: "a \<notin> set E" and f: "\<And>t t'. core t = core t' \<Longrightarrow> core (f t) = core (f t')"
  shows "released f s s' A R W T (a # E)"
proof -
  note D = becomesD [OF B] and L = releasedD [OF Rl]
  have fr: "fold (readied s2) E Q = fold (readied s) E Q" for Q
    by (rule fold_cong) (use a in \<open>auto intro: readied_frame [OF D(1)]\<close>)
  have "core (OSTCBs s' c) = core (f (OSTCBs s c))" if "c \<in> set (a # E)" for c
  proof (cases "c = a")
    case True
    then show ?thesis using moved_set_sel(7) [OF L(1) a] D(2) by simp
  next
    case False
    then show ?thesis using that L(3) [of c] f [OF moved_sel(17) [OF D(1) False]] by simp
  qed
  moreover have "moved_set (set (a # E)) s s'"
    using moved_set_trans [OF moved_set_mono [OF D(1) [unfolded moved_set_single]]
      moved_set_mono [OF L(1)]] by auto
  ultimately show ?thesis using L(2) by (simp add: released_def fr)
qed

lemma released_one:
  assumes "becomes a (f (OSTCBs s a)) s s' A (readied s a R) (without a W) (remove1 a T)"
  shows "released f s s' A R W T [a]"
  using becomesD [OF assms] by (simp add: released_def moved_set_single)

lemma core_aborted: "core t = core t' \<Longrightarrow> core (aborted_tcb r ts t) = core (aborted_tcb r ts t')"
proof -
  have "core (aborted_tcb r ts t) = aborted_tcb r ts (core t)" for t
    by (simp add: aborted_tcb_def core_def)
  then show "core t = core t' \<Longrightarrow> core (aborted_tcb r ts t) = core (aborted_tcb r ts t')" by simp
qed

lemma core_posted: "core t = core t' \<Longrightarrow> core (posted_tcb p z ts t) = core (posted_tcb p z ts t')"
proof -
  have "core (posted_tcb p z ts t) = posted_tcb p z ts (core t)" for t
    by (simp add: posted_tcb_def core_def)
  then show "core t = core t' \<Longrightarrow> core (posted_tcb p z ts t) = core (posted_tcb p z ts t')" by simp
qed

text \<open>A waiting task of an object.\<close>

lemma waiterD:
  assumes "kinv s A R W T" and "a \<in> set (W b)"
  shows "a \<in> A" "pending (TaskState (OSTCBs s a))" "PendObjPtr (OSTCBs s a) = Some b"
proof -
  show a: "a \<in> A" using kinvD(7) [OF assms(1)] assms(2) by blast
  note ok = task_okD [OF assms(1) a]
  show po: "PendObjPtr (OSTCBs s a) = Some b" using ok(4) assms(2) by blast
  then show "pending (TaskState (OSTCBs s a))" using ok(5,6) by (auto simp: on_object_def)
qed

lemma pend_head: "kinv s A R W T \<Longrightarrow> PL_HeadPtr (PendList (OSObjs s b)) = hdo (W b)"
  using pend_lists_head [OF kinvD(2), of s A R W T b] by (simp add: plist_def)

lemma abort_waiter:
  assumes K: "kinv s A R W T" and W: "W b = a # xs"
  shows "\<exists>s'. OS_PendAbort (Some a) ts reason s = Some s' \<and>
    becomes a (aborted_tcb reason ts (OSTCBs s a)) s s' A (readied s a R) (without a W) (remove1 a T) \<and>
    without a W b = xs \<and> a \<notin> set xs"
proof -
  have a: "a \<in> set (W b)" using W by simp
  have "a \<notin> set xs" using kinv_distinct(2) [OF K, of b] W by simp
  then have "without a W b = xs" using W by (simp add: without_def)
  with \<open>a \<notin> set xs\<close> OS_PendAbort_spec [OF K waiterD(1,2) [OF K a], of ts reason] show ?thesis
    by (simp add: readied_def)
qed

lemma post_waiter:
  assumes K: "kinv s A R W T" and W: "W b = a # xs"
  shows "\<exists>s'. OS_Post (Some b) (Some a) p z ts s = Some s' \<and>
    becomes a (posted_tcb p z ts (OSTCBs s a)) s s' A (readied s a R) (without a W) (remove1 a T) \<and>
    without a W b = xs \<and> a \<notin> set xs"
proof -
  have a: "a \<in> set (W b)" using W by simp
  have "a \<notin> set xs" using kinv_distinct(2) [OF K, of b] W by simp
  then have "without a W b = xs" using W by (simp add: without_def)
  with \<open>a \<notin> set xs\<close> OS_Post_spec [OF K waiterD [OF K a], of p z ts] show ?thesis
    by (simp add: readied_def)
qed

lemma del_loop_spec:
  "kinv s A R W T \<Longrightarrow> W b = E \<Longrightarrow>
   \<exists>s'. del_loop (Some b) ts n s = Some (n + of_nat (length E), s') \<and>
     released (aborted_tcb OS_STATUS_PEND_DEL ts) s s' A R W T E"
proof (induction E arbitrary: s R W T n)
  case Nil
  then show ?case using pend_head [OF Nil(1), of b]
    by (subst del_loop.simps) (simp add: released_Nil)
next
  case (Cons a E)
  from abort_waiter [OF Cons.prems] obtain s2 where
    s2: "OS_PendAbort (Some a) ts OS_STATUS_PEND_DEL s = Some s2"
    "becomes a (aborted_tcb OS_STATUS_PEND_DEL ts (OSTCBs s a)) s s2 A (readied s a R) (without a W) (remove1 a T)"
    "without a W b = E" "a \<notin> set E" by blast
  from Cons.IH [OF becomesD(3) [OF s2(2)] s2(3), of "n + 1"] obtain s' where
    s': "del_loop (Some b) ts (n + 1) s2 = Some (n + 1 + of_nat (length E), s')"
    "released (aborted_tcb OS_STATUS_PEND_DEL ts) s2 s' A (readied s a R) (without a W) (remove1 a T) E"
    by blast
  have "del_loop (Some b) ts n s = Some (n + of_nat (length (a # E)), s')"
    using pend_head [OF Cons.prems(1), of b] Cons.prems(2) s2(1) s'(1)
    by (subst del_loop.simps) (simp add: add.assoc)
  with released_Cons [OF s2(2) s'(2) s2(4) core_aborted] show ?case by blast
qed

text \<open>Only the option \<open>OS_OPT_PEND_ABORT_ALL\<close> alone makes the loop go on.\<close>

lemma abort_loop_one:
  assumes K: "kinv s A R W T" and W: "W b = a # E" and opt: "opt \<noteq> OS_OPT_PEND_ABORT_ALL"
  shows "\<exists>s'. abort_loop (Some b) opt ts n s = Some (n + 1, s') \<and>
    released (aborted_tcb OS_STATUS_PEND_ABORT ts) s s' A R W T [a]"
proof -
  from abort_waiter [OF K W] obtain s2 where
    s2: "OS_PendAbort (Some a) ts OS_STATUS_PEND_ABORT s = Some s2"
    "becomes a (aborted_tcb OS_STATUS_PEND_ABORT ts (OSTCBs s a)) s s2 A (readied s a R) (without a W) (remove1 a T)"
    by blast
  have "abort_loop (Some b) opt ts n s = Some (n + 1, s2)"
    using pend_head [OF K, of b] W s2(1) opt by (subst abort_loop.simps) simp
  with released_one [where f = "aborted_tcb OS_STATUS_PEND_ABORT ts", OF s2(2)] show ?thesis by blast
qed

lemma abort_loop_all:
  "kinv s A R W T \<Longrightarrow> W b = E \<Longrightarrow>
   \<exists>s'. abort_loop (Some b) OS_OPT_PEND_ABORT_ALL ts n s = Some (n + of_nat (length E), s') \<and>
     released (aborted_tcb OS_STATUS_PEND_ABORT ts) s s' A R W T E"
proof (induction E arbitrary: s R W T n)
  case Nil
  then show ?case using pend_head [OF Nil(1), of b]
    by (subst abort_loop.simps) (simp add: released_Nil)
next
  case (Cons a E)
  from abort_waiter [OF Cons.prems] obtain s2 where
    s2: "OS_PendAbort (Some a) ts OS_STATUS_PEND_ABORT s = Some s2"
    "becomes a (aborted_tcb OS_STATUS_PEND_ABORT ts (OSTCBs s a)) s s2 A (readied s a R) (without a W) (remove1 a T)"
    "without a W b = E" "a \<notin> set E" by blast
  from Cons.IH [OF becomesD(3) [OF s2(2)] s2(3), of "n + 1"] obtain s' where
    s': "abort_loop (Some b) OS_OPT_PEND_ABORT_ALL ts (n + 1) s2 = Some (n + 1 + of_nat (length E), s')"
    "released (aborted_tcb OS_STATUS_PEND_ABORT ts) s2 s' A (readied s a R) (without a W) (remove1 a T) E"
    by blast
  have "abort_loop (Some b) OS_OPT_PEND_ABORT_ALL ts n s = Some (n + of_nat (length (a # E)), s')"
    using pend_head [OF Cons.prems(1), of b] Cons.prems(2) s2(1) s'(1)
    by (subst abort_loop.simps) (simp add: add.assoc)
  with released_Cons [OF s2(2) s'(2) s2(4) core_aborted] show ?case by blast
qed

lemma pend_next:
  assumes "kinv s A R W T" and "W b = a # E"
  shows "PendNextPtr (OSTCBs s a) = hdo E"
  using pend_listsD(1) [OF kinvD(2) [OF assms(1)], of b] assms(2)
    dll_split(1) [of "pnxt s" "pprv s" _ _ "[]" a E] by (simp add: pnxt_def)

text \<open>Posting releases the first waiting task, or all of them with \<open>OS_OPT_POST_ALL\<close>.\<close>

lemma post_loop_one:
  assumes K: "kinv s A R W T" and W: "W b = a # E" and opt: "opt AND OS_OPT_POST_ALL = 0"
  shows "\<exists>s'. post_loop (Some b) (Some a) p z opt ts s = Some s' \<and>
    released (posted_tcb p z ts) s s' A R W T [a]"
proof -
  from post_waiter [OF K W] obtain s2 where
    s2: "OS_Post (Some b) (Some a) p z ts s = Some s2"
    "becomes a (posted_tcb p z ts (OSTCBs s a)) s s2 A (readied s a R) (without a W) (remove1 a T)"
    by blast
  have "post_loop (Some b) (Some a) p z opt ts s = Some s2"
    using s2(1) opt by (subst post_loop.simps) simp
  with released_one [where f = "posted_tcb p z ts", OF s2(2)] show ?thesis by blast
qed

lemma post_loop_all:
  "kinv s A R W T \<Longrightarrow> W b = E \<Longrightarrow> opt AND OS_OPT_POST_ALL \<noteq> 0 \<Longrightarrow>
   \<exists>s'. post_loop (Some b) (hdo E) p z opt ts s = Some s' \<and>
     released (posted_tcb p z ts) s s' A R W T E"
proof (induction E arbitrary: s R W T)
  case Nil
  then show ?case by (subst post_loop.simps) (simp add: released_Nil)
next
  case (Cons a E)
  from post_waiter [OF Cons.prems(1,2)] obtain s2 where
    s2: "OS_Post (Some b) (Some a) p z ts s = Some s2"
    "becomes a (posted_tcb p z ts (OSTCBs s a)) s s2 A (readied s a R) (without a W) (remove1 a T)"
    "without a W b = E" "a \<notin> set E" by blast
  from Cons.IH [OF becomesD(3) [OF s2(2)] s2(3) Cons.prems(3)] obtain s' where
    s': "post_loop (Some b) (hdo E) p z opt ts s2 = Some s'"
    "released (posted_tcb p z ts) s2 s' A (readied s a R) (without a W) (remove1 a T) E" by blast
  have "post_loop (Some b) (hdo (a # E)) p z opt ts s = Some s'"
    using pend_next [OF Cons.prems(1,2)] s2(1) s'(1) Cons.prems(3)
    by (subst post_loop.simps) simp
  with released_Cons [OF s2(2) s'(2) s2(4) core_posted] show ?case by blast
qed

text \<open>When all waiting tasks of an object are released its pend list is empty.\<close>

lemma fold_without: "fold without E W = (\<lambda>c. fold remove1 E (W c))"
  by (induction E arbitrary: W) (simp_all add: without_def)

lemma fold_remove1_all: "fold remove1 xs xs = []"
  by (induction xs) simp_all

lemma fold_remove1_disjoint: "set xs \<inter> set ys = {} \<Longrightarrow> fold remove1 xs ys = ys"
  by (induction xs) (simp_all add: remove1_idem)

lemma fold_without_all:
  assumes K: "kinv s A R W T"
  shows "fold without (W b) W = W(b := [])"
proof
  fix c
  show "fold without (W b) W c = (W(b := [])) c"
  proof (cases "c = b")
    case False
    have "set (W b) \<inter> set (W c) = {}"
      using waiterD(3) [OF K, of _ b] waiterD(3) [OF K, of _ c] False by fastforce
    then show ?thesis using False by (simp add: fold_without fold_remove1_disjoint)
  qed (simp add: fold_without fold_remove1_all)
qed

section \<open>Changes of an object that do not concern its pend list\<close>

definition put_obj :: "nat \<Rightarrow> (OS_PEND_OBJ \<Rightarrow> OS_PEND_OBJ) \<Rightarrow> kernel \<Rightarrow> kernel" where
  "put_obj b f s = s\<lparr>OSObjs := (OSObjs s)(b := f (OSObjs s b))\<rparr>"

lemma set_obj_put [simp]: "set_obj (Some b) f s = Some (put_obj b f s)"
  by (simp add: set_obj_def put_obj_def)

lemma put_obj_sel [simp]:
  "OSObjs (put_obj b f s) c = (if c = b then f (OSObjs s b) else OSObjs s c)"
  "OSTCBs (put_obj b f s) = OSTCBs s" "OSSems (put_obj b f s) = OSSems s"
  "OSMutexes (put_obj b f s) = OSMutexes s" "OSQs (put_obj b f s) = OSQs s"
  "OSFlagGrps (put_obj b f s) = OSFlagGrps s" "OSMsgs (put_obj b f s) = OSMsgs s"
  "OSMsgPool (put_obj b f s) = OSMsgPool s" "OSRunning (put_obj b f s) = OSRunning s"
  "OSIntNestingCtr (put_obj b f s) = OSIntNestingCtr s"
  "OSSchedLockNestingCtr (put_obj b f s) = OSSchedLockNestingCtr s"
  "OSTCBCurPtr (put_obj b f s) = OSTCBCurPtr s"
  by (simp_all add: put_obj_def)

lemma kinv_put_obj:
  "(\<And>b. PendList (f b) = PendList b) \<Longrightarrow> kinv (put_obj b f s) A R W T \<longleftrightarrow> kinv s A R W T"
  by (rule kinv_cong; (rule rdy_rel_cong pend_lists_cong tick_lists_cong)?; simp add: put_obj_def)

text \<open>The fields of an object without its debug fields.\<close>

definition obj_body :: "OS_PEND_OBJ \<Rightarrow> OS_PEND_OBJ" where
  "obj_body b = b\<lparr>Obj_DbgPrevPtr := None, Obj_DbgNextPtr := None, Obj_DbgNamePtr := []\<rparr>"

lemma obj_body_sel:
  "Type (obj_body b) = Type b" "Obj_NamePtr (obj_body b) = Obj_NamePtr b"
  "PendList (obj_body b) = PendList b"
  by (simp_all add: obj_body_def)

definition dnxt :: "kernel \<Rightarrow> nat \<Rightarrow> ptr" where "dnxt s = (\<lambda>b. Obj_DbgNextPtr (OSObjs s b))"
definition dprv :: "kernel \<Rightarrow> nat \<Rightarrow> ptr" where "dprv s = (\<lambda>b. Obj_DbgPrevPtr (OSObjs s b))"

lemma dbg_puts [simp]:
  "dnxt (put_obj b (Obj_DbgNextPtr_update (\<lambda>_. v)) s) = (dnxt s)(b := v)"
  "dprv (put_obj b (Obj_DbgNextPtr_update (\<lambda>_. v)) s) = dprv s"
  "dprv (put_obj b (Obj_DbgPrevPtr_update (\<lambda>_. v)) s) = (dprv s)(b := v)"
  "dnxt (put_obj b (Obj_DbgPrevPtr_update (\<lambda>_. v)) s) = dnxt s"
  "dnxt (put_obj b (Obj_DbgNamePtr_update (\<lambda>_. nm)) s) = dnxt s"
  "dprv (put_obj b (Obj_DbgNamePtr_update (\<lambda>_. nm)) s) = dprv s"
  by (auto simp: dnxt_def dprv_def)

text \<open>The head of a debug list is a global of its own; the kernel keeps one list per object
  type with the same code.\<close>

locale dbg_list =
  fixes get_head :: "kernel \<Rightarrow> ptr"
    and set_head :: "ptr \<Rightarrow> kernel \<Rightarrow> kernel"
  assumes get_set [simp]: "get_head (set_head p s) = p"
    and get_put [simp]: "get_head (put_obj b f s) = get_head s"
    and set_set [simp]: "set_head p (set_head p' s) = set_head p s"
    and set_get [simp]: "set_head (get_head s) s = s"
    and put_set: "put_obj b f (set_head p s) = set_head p (put_obj b f s)"
    and objs [simp]: "OSObjs (set_head p s) = OSObjs s"
    and kinv [simp]: "kinv (set_head p s) A R W T \<longleftrightarrow> kinv s A R W T"
begin

definition touched :: "kernel \<Rightarrow> kernel \<Rightarrow> bool" where
  "touched s s' \<longleftrightarrow> (\<exists>p ob. s' = set_head p (s\<lparr>OSObjs := ob\<rparr>) \<and>
     (\<forall>b. obj_body (ob b) = obj_body (OSObjs s b)))"

lemma touched_set: "touched s s' \<Longrightarrow> touched s (set_head p s')"
  unfolding touched_def by (elim exE conjE) (intro exI conjI, simp_all)

lemma touched_put:
  assumes "touched s s'" and f: "\<And>b. obj_body (f b) = obj_body b"
  shows "touched s (put_obj c f s')"
proof -
  from assms(1) obtain p ob where s': "s' = set_head p (s\<lparr>OSObjs := ob\<rparr>)"
    "\<forall>b. obj_body (ob b) = obj_body (OSObjs s b)" by (auto simp: touched_def)
  have "put_obj c f s' = set_head p (s\<lparr>OSObjs := ob(c := f (ob c))\<rparr>)"
    using s'(1) by (simp add: put_set) (simp add: put_obj_def)
  with s'(2) f show ?thesis unfolding touched_def by (intro exI [of _ p]) auto
qed

lemma touched_refl: "touched s s"
  unfolding touched_def by (rule exI [of _ "get_head s"], rule exI [of _ "OSObjs s"]) simp

lemma touched_kinv: "touched s s' \<Longrightarrow> kinv s' A R W T \<longleftrightarrow> kinv s A R W T"
  unfolding touched_def
proof (elim exE conjE)
  fix p ob assume s': "s' = set_head p (s\<lparr>OSObjs := ob\<rparr>)" and b: "\<forall>b. obj_body (ob b) = obj_body (OSObjs s b)"
  have "PendList (ob c) = PendList (OSObjs s c)" for c using b by (metis obj_body_sel(3))
  then have "kinv (s\<lparr>OSObjs := ob\<rparr>) A R W T \<longleftrightarrow> kinv s A R W T"
    by (intro kinv_cong rdy_rel_cong pend_lists_cong tick_lists_cong) simp_all
  with s' show ?thesis by simp
qed

definition listed :: "kernel \<Rightarrow> nat list \<Rightarrow> bool" where
  "listed s xs \<longleftrightarrow> dll (dnxt s) (dprv s) (get_head s) (hdo (rev xs)) xs"

lemma listed_set: "dnxt (set_head p s) = dnxt s" "dprv (set_head p s) = dprv s"
  by (simp_all add: dnxt_def dprv_def)

text \<open>Both operations return in every state and change nothing but the debug list.\<close>

lemma add_touched: "\<exists>s'. dbg_list_add get_head set_head (Some b) s = Some s' \<and> touched s s'"
  by (cases "get_head s")
    (auto simp: dbg_list_add_def obj_body_def intro!: touched_set touched_put touched_refl)

lemma remove_touched: "\<exists>s'. dbg_list_remove set_head (Some b) s = Some s' \<and> touched s s'"
  by (cases "Obj_DbgPrevPtr (OSObjs s b)"; cases "Obj_DbgNextPtr (OSObjs s b)")
    (auto simp: dbg_list_remove_def obj_body_def intro!: touched_set touched_put touched_refl)

lemma add_listed:
  assumes "listed s xs" and "b \<notin> set xs" and "dbg_list_add get_head set_head (Some b) s = Some s'"
  shows "listed s' (b # xs)"
proof (cases xs)
  case Nil
  with assms show ?thesis by (auto simp: listed_def dbg_list_add_def listed_set dll_def)
next
  case (Cons y ys)
  with assms(1) have h: "get_head s = Some y" by (simp add: listed_def dll_def)
  have "dll (dnxt s) (dprv s) (Some y) (hdo (rev xs)) (y # ys)" using assms(1) Cons h by (simp add: listed_def)
  from dll_insert_head [OF this] assms(2,3) Cons h show ?thesis
    by (auto simp: listed_def dbg_list_add_def listed_set hdo_append)
qed

lemma remove_listed:
  assumes L: "listed s (as @ b # bs)" and r: "dbg_list_remove set_head (Some b) s = Some s'"
  shows "listed s' (as @ bs)"
proof -
  have d: "dll (dnxt s) (dprv s) (get_head s) (hdo (rev (as @ b # bs))) (as @ b # bs)"
    using L by (simp add: listed_def)
  note sp = dll_split(1,2) [OF d]
  have n: "Obj_DbgNextPtr (OSObjs s b) = hdo bs" "Obj_DbgPrevPtr (OSObjs s b) = hdo (rev as)"
    using sp by (simp_all add: dnxt_def dprv_def)
  show ?thesis
  proof (cases as rule: rev_cases)
    case Nil
    then show ?thesis
    proof (cases bs)
      case Nil
      with \<open>as = []\<close> n r show ?thesis by (auto simp: dbg_list_remove_def listed_def listed_set)
    next
      case (Cons c cs)
      from d have "dll (dnxt s) (dprv s) (get_head s) (hdo (rev (b # c # cs))) (b # c # cs)"
        using Cons \<open>as = []\<close> by simp
      note dr = dll_remove_head [OF this, of None "dprv s b"]
      have "b \<noteq> c" using d Cons by (auto simp: dll_def)
      then have "((dprv s)(c := None, b := dprv s b)) = (dprv s)(c := None)" by auto
      with dr Cons \<open>as = []\<close> n r show ?thesis
        by (auto simp: dbg_list_remove_def listed_def listed_set hdo_append)
    qed
  next
    case (snoc as' a)
    have ab: "a \<noteq> b" using d snoc by (auto simp: dll_def)
    show ?thesis
    proof (cases bs)
      case Nil
      from d have "dll (dnxt s) (dprv s) (get_head s) (hdo (rev (as' @ [a, b]))) (as' @ [a, b])"
        using Nil snoc by simp
      note dr = dll_remove_tail [OF this, of "dnxt s b" None]
      have "((dnxt s)(a := None, b := dnxt s b)) = (dnxt s)(a := None)" using ab by auto
      with dr Nil snoc n r show ?thesis
        by (auto simp: dbg_list_remove_def listed_def)
    next
      case (Cons c cs)
      have bc: "b \<noteq> c" "a \<noteq> c" using d Cons snoc by (auto simp: dll_def)
      from d have "dll (dnxt s) (dprv s) (get_head s) (hdo (rev (as @ b # bs))) (as' @ a # b # c # cs)"
        using Cons snoc by simp
      from dll_remove_between [OF this, of None None] Cons snoc n r ab bc show ?thesis
        by (auto simp: dbg_list_remove_def listed_def hdo_append)
    qed
  qed
qed

end

section \<open>Blocking and releasing with a call of the scheduler\<close>

lemma moved_set_globals:
  assumes "moved_set X s s'"
  shows "OSRunning s' = OSRunning s" "OSIntNestingCtr s' = OSIntNestingCtr s"
    "OSSchedLockNestingCtr s' = OSSchedLockNestingCtr s" "OSFlagGrps s' = OSFlagGrps s"
    "OSMsgs s' = OSMsgs s" "OSMsgPool s' = OSMsgPool s" "Type (OSObjs s' b) = Type (OSObjs s b)"
proof -
  from assms obtain tf ob rl tbl l where m: "s' = s\<lparr>OSTCBs := tf, OSObjs := ob, OSRdyList := rl,
      OSPrioTbl := tbl, OSTickList := l\<rparr>" "\<forall>b. ocore (ob b) = ocore (OSObjs s b)"
    unfolding moved_set_def by blast
  have "Type (ob b) = Type (OSObjs s b)" using m(2) by (metis ocore_sel(1))
  then show "Type (OSObjs s' b) = Type (OSObjs s b)" by (simp add: m(1))
qed (use assms in \<open>auto simp: moved_set_def\<close>)

text \<open>The kernel serves a task: it runs, the calling task \<open>c\<close> is the current one and ready, and
  scheduling is not disabled. \<open>Others\<close>: some other task is ready, as the idle task always is.\<close>

definition task_level :: "kernel \<Rightarrow> nat \<Rightarrow> bool" where
  "task_level s c \<longleftrightarrow> OSRunning s = OS_STATE_OS_RUNNING \<and> OSIntNestingCtr s = 0 \<and>
     OSSchedLockNestingCtr s = 0 \<and> OSTCBCurPtr s = Some c \<and> TaskState (OSTCBs s c) = OS_TASK_STATE_RDY"

lemma block_spec:
  assumes K: "kinv s A R W T" and c: "c \<in> A" and l: "task_level s c" and po: "on_object po"
    and ne: "rdy_del s c R q \<noteq> []"
  shows "\<exists>s1 s' x T'. OS_Pend (Some b) (OSTCBCurPtr s) po timeout s = Some s1 \<and> OSSched s1 = Some s' \<and>
    becomes c (pended_tcb s (Some b) po timeout (OSTCBs s c)) s s1 A (rdy_del s c R)
      (W(b := pend_ins (prios s) c (W b))) T' \<and>
    (if timeout > 0 then tick_inserted s T c (unat timeout) (trem s1) T' else T' = T) \<and>
    switched s1 s' \<and> OSTCBCurPtr s' = Some x \<and> most_urgent s (rdy_del s c R) x \<and> x \<noteq> c \<and> running s' x"
proof -
  have cur: "OSTCBCurPtr s = Some c" and rdy: "TaskState (OSTCBs s c) = OS_TASK_STATE_RDY"
    using l by (simp_all add: task_level_def)
  have po': "po \<noteq> OS_TASK_PEND_ON_NOTHING" "Some b \<noteq> None \<longleftrightarrow> on_object po"
    using po by (auto simp: on_object_def)
  from OS_Pend_spec [OF K c rdy po'] obtain s1 T' where
    p: "OS_Pend (Some b) (Some c) po timeout s = Some s1"
    "becomes c (pended_tcb s (Some b) po timeout (OSTCBs s c)) s s1 A (rdy_del s c R)
      (queued s (Some b) c W) T'"
    "if timeout > 0 then tick_inserted s T c (unat timeout) (trem s1) T' else T' = T \<and> trem s1 = trem s"
    by blast
  note B = becomesD [OF p(2)]
  have pr: "Prio (OSTCBs s1 a) = Prio (OSTCBs s a)" for a
    using core_eqI(4) [OF B(2)] core_eqI(4) [OF moved_sel(17) [OF B(1), of a]]
    by (cases "a = c") (simp_all add: pended_tcb_def)
  have g: "OSRunning s1 = OS_STATE_OS_RUNNING" "OSIntNestingCtr s1 = 0" "OSSchedLockNestingCtr s1 = 0"
    "OSTCBCurPtr s1 = Some c" using moved_sel(8,12-14) [OF B(1)] l by (simp_all add: task_level_def)
  from OSSched_spec [OF B(3) ne g(1-3)] obtain s' x where
    x: "OSSched s1 = Some s'" "switched s1 s'" "most_urgent s1 (rdy_del s c R) x"
    "OSTCBCurPtr s' = Some x" "OSTCBCurPtr s1 \<noteq> Some x \<or> running s1 x \<longrightarrow> running s' x" by blast
  have mu: "most_urgent s (rdy_del s c R) x" using x(3) by (simp add: most_urgent_def pr)
  have nc: "c \<notin> set (rdy_del s c R p)" for p
  proof -
    have "c \<notin> set (R p)" if "p \<noteq> Prio (OSTCBs s c)"
      using rdyq.prio [OF kinvD(1) [OF K], of c p] that by auto
    then show ?thesis using kinv_distinct(1) [OF K, of p] by (auto simp: rdy_del_def Let_def)
  qed
  have "x \<noteq> c" using mu nc by (auto simp: most_urgent_def) (metis list.set_intros(1))
  with x g(4) have "running s' x" by simp
  with p x mu \<open>x \<noteq> c\<close> show ?thesis
    by (intro exI [of _ s1] exI [of _ s'] exI [of _ x] exI [of _ T']) (auto simp: cur queued_def)
qed

text \<open>After a release the scheduler is called, unless the caller asks not to.\<close>

lemma release_sched:
  assumes Rl: "released f s s1 A R W T E" and ne: "fold (readied s) E R q \<noteq> []"
    and f: "\<And>t. Prio (f t) = Prio t"
  shows "\<exists>s'. OSSched s1 = Some s' \<and> switched s1 s' \<and>
    (OSRunning s = OS_STATE_OS_RUNNING \<and> OSIntNestingCtr s = 0 \<and> OSSchedLockNestingCtr s = 0 \<longrightarrow>
     (\<exists>x. OSTCBCurPtr s' = Some x \<and> most_urgent s (fold (readied s) E R) x))"
proof -
  note L = releasedD [OF Rl] and G = moved_set_globals [OF releasedD(1) [OF Rl]]
  have pr: "Prio (OSTCBs s1 a) = Prio (OSTCBs s a)" for a
    using core_eqI(4) [OF L(3), of a] core_eqI(4) [OF moved_set_sel(7) [OF L(1)], of a] f by metis
  show ?thesis
  proof (cases "OSRunning s = OS_STATE_OS_RUNNING \<and> OSIntNestingCtr s = 0 \<and> OSSchedLockNestingCtr s = 0")
    case True
    with OSSched_spec [OF L(2) ne] G obtain s' x where
      "OSSched s1 = Some s'" "switched s1 s'" "most_urgent s1 (fold (readied s) E R) x"
      "OSTCBCurPtr s' = Some x" by auto
    then show ?thesis by (auto simp: most_urgent_def pr)
  qed (use OSSched_returns [OF L(2) ne] in auto)
qed

lemma readied_mono: "R q \<noteq> [] \<Longrightarrow> readied s a R q \<noteq> []"
  by (auto simp: readied_def rdy_ins_def Let_def)

lemma fold_readied_mono: "R q \<noteq> [] \<Longrightarrow> fold (readied s) E R q \<noteq> []"
  by (induction E arbitrary: R) (simp_all add: readied_mono)

lemma posted_prio [simp]: "Prio (posted_tcb p z ts t) = Prio t"
  and aborted_prio [simp]: "Prio (aborted_tcb r ts t) = Prio t"
  by (simp_all add: posted_tcb_def aborted_tcb_def)

text \<open>What a task that has been released sees when it runs again.\<close>

lemma released_sel:
  assumes Rl: "released f s s1 A R W T E" and sw: "switched s1 s'" and a: "a \<in> set E"
  shows "PendStatus (OSTCBs s' a) = PendStatus (f (OSTCBs s a))" "Tcb_TS (OSTCBs s' a) = Tcb_TS (f (OSTCBs s a))"
    "MsgPtr (OSTCBs s' a) = MsgPtr (f (OSTCBs s a))" "MsgSize (OSTCBs s' a) = MsgSize (f (OSTCBs s a))"
    "TaskState (OSTCBs s' a) = TaskState (f (OSTCBs s a))"
  using core_eqI(1,6-9) [OF releasedD(3) [OF Rl a]] switched_sel(13,15-18) [OF sw] by simp_all

text \<open>A waiter above all ready tasks is the one the scheduler selects when it is released.\<close>

lemma readied_urgent:
  assumes K: "kinv s A R W T" and a: "a \<in> set (W b)" and rn: "runs (TaskState (OSTCBs s a))"
    and top: "\<And>q. R q \<noteq> [] \<Longrightarrow> Prio (OSTCBs s a) < q"
  shows "most_urgent s (readied s a R) a"
proof -
  have "R (Prio (OSTCBs s a)) = []" using top by fastforce
  then show ?thesis using rn top
    by (auto simp: most_urgent_def readied_def rdy_ins_def Let_def dest!: top split: if_splits intro: less_imp_le)
qed

lemma post_opts [simp]:
  "OS_OPT_POST_1 AND OS_OPT_POST_ALL = 0"
  "(OS_OPT_POST_1 OR OS_OPT_POST_NO_SCHED) AND OS_OPT_POST_ALL = 0"
  "OS_OPT_POST_ALL AND OS_OPT_POST_ALL \<noteq> 0"
  "(OS_OPT_POST_ALL OR OS_OPT_POST_NO_SCHED) AND OS_OPT_POST_ALL \<noteq> 0"
  "OS_OPT_POST_1 AND OS_OPT_POST_NO_SCHED = 0" "OS_OPT_POST_ALL AND OS_OPT_POST_NO_SCHED = 0"
  "OS_OPT_PEND_BLOCKING AND OS_OPT_PEND_NON_BLOCKING = 0"
  "OS_OPT_PEND_NON_BLOCKING AND OS_OPT_PEND_NON_BLOCKING = OS_OPT_PEND_NON_BLOCKING"
  "OS_OPT_PEND_NON_BLOCKING \<noteq> 0" "OS_OPT_PEND_NON_BLOCKING \<noteq> OS_OPT_PEND_BLOCKING"
  by (simp_all add: opts)

text \<open>A released task is off every list but the ready list.\<close>

definition sched_unless :: "OS_OPT \<Rightarrow> kernel \<Rightarrow> kernel option" where
  "sched_unless opt s = (if opt AND OS_OPT_POST_NO_SCHED = 0 then OSSched s else Some s)"

lemma sched_unless_spec:
  assumes "released f s s1 A R W T E" and "R q \<noteq> []" and "\<And>t. Prio (f t) = Prio t"
  shows "\<exists>s'. sched_unless opt s1 = Some s' \<and> switched s1 s'"
  using release_sched [OF assms(1) fold_readied_mono [where R = R, OF assms(2)] assms(3)]
  by (auto simp: sched_unless_def)

lemma released_objs:
  assumes "released f s s1 A R W T E" and "switched s1 s'"
  shows "OSSems s' = OSSems s" "OSQs s' = OSQs s" "OSMutexes s' = OSMutexes s"
    "OSFlagGrps s' = OSFlagGrps s" "OSMsgs s' = OSMsgs s" "OSMsgPool s' = OSMsgPool s"
    "Type (OSObjs s' b) = Type (OSObjs s b)"
    "kinv s' A (fold (readied s) E R) (fold without E W) (fold remove1 E T)"
  using moved_set_sel(1,4,5) [OF releasedD(1) [OF assms(1)]]
    moved_set_globals(4-7) [OF releasedD(1) [OF assms(1)]] switched_sel(1-6,8) [OF assms(2)]
    switched_kinv [OF assms(2)] releasedD(2) [OF assms(1)] by simp_all

lemma without_other:
  assumes K: "kinv s A R W T" and W: "W b = a # E"
  shows "without a W = W(b := E)"
proof
  fix c
  show "without a W c = (W(b := E)) c"
  proof (cases "c = b")
    case True
    then show ?thesis using abort_waiter [OF K W] by auto
  next
    case False
    have "a \<in> set (W b)" using W by simp
    then have "a \<notin> set (W c)" using waiterD(3) [OF K, of a b] waiterD(3) [OF K, of a c] False by auto
    then show ?thesis using False by (simp add: without_def remove1_idem)
  qed
qed

text \<open>Initialising the pend list of an object on which no task waits.\<close>

lemma OS_PendListInit_kinv:
  assumes K: "kinv s A R W T" and W: "W b = []"
  obtains s' where "OS_PendListInit (Some b) s = Some s'" "kinv s' A R W T" "OSTCBs s' = OSTCBs s"
    "\<And>c. Type (OSObjs s' c) = Type (OSObjs s c)" "OSSems s' = OSSems s" "OSMutexes s' = OSMutexes s"
    "OSQs s' = OSQs s" "OSFlagGrps s' = OSFlagGrps s" "OSRunning s' = OSRunning s"
    "OSMsgs s' = OSMsgs s" "OSMsgPool s' = OSMsgPool s" "OSTCBCurPtr s' = OSTCBCurPtr s"
proof -
  let ?l = "\<lparr>PL_HeadPtr = None, PL_TailPtr = None, PL_NbrEntries = 0\<rparr>"
  have l: "PendList (OSObjs s b) = ?l"
    using pend_listsD(1,2) [OF kinvD(2) [OF K], of b] W by (simp add: plist_def)
  have e: "PendList_update (\<lambda>_. ?l) (OSObjs s b) = OSObjs s b" by (simp add: l [symmetric])
  let ?s = "put_obj b (PendList_update (\<lambda>_. ?l)) s"
  have "OS_PendListInit (Some b) s = Some ?s"
    by (simp add: OS_PendListInit_def set_pend_list_def) (simp add: put_obj_def l)
  moreover have "?s = s" using e by (simp add: put_obj_def)
  ultimately show thesis using K by (intro that) simp_all
qed

end
