(* ===== verification/Os_Msg.thy ===== *)
theory Os_Msg
  imports Os_Prio Dll
begin

text \<open>
  Message queues and the pool of messages (\<open>os_msg.c\<close>): all queues, those of the \<open>OS_Q\<close>
  objects and those inside the TCBs, take their nodes from one free list and give them back to
  it. A queue structure is passed and returned as a value, since it is a field of the object or
  of the TCB; the nodes live in the store \<open>OSMsgs\<close>, the pool in \<open>OSMsgPool\<close>.
\<close>

section \<open>Operations\<close>

text \<open>The pool is an array of \<open>OSCfg_MsgPoolSize\<close> messages at \<open>OSCfg_MsgPoolBasePtr\<close>; the address of
  the next element of the array is the successor.\<close>

fun msg_pool_loop :: "nat \<Rightarrow> nat \<Rightarrow> kernel \<Rightarrow> nat \<times> kernel" where
  "msg_pool_loop 0 p_msg1 s = (p_msg1, s)"
| "msg_pool_loop (Suc loops) p_msg1 s =
     (let p_msg2 = p_msg1 + 1 in
      msg_pool_loop loops (p_msg1 + 1) (s\<lparr>OSMsgs := (OSMsgs s)(p_msg1 :=
        \<lparr>Msg_NextPtr = Some p_msg2, Msg_MsgPtr = None, Msg_MsgSize = 0, Msg_MsgTS = 0\<rparr>)\<rparr>))"

definition OS_MsgPoolInit :: "ptr \<Rightarrow> u16 \<Rightarrow> kernel \<Rightarrow> OS_ERR \<times> kernel" where
  "OS_MsgPoolInit OSCfg_MsgPoolBasePtr OSCfg_MsgPoolSize s =
     (case OSCfg_MsgPoolBasePtr of
        None \<Rightarrow> (OS_ERR_MSG_POOL_NULL_PTR, s)
      | Some base \<Rightarrow>
          if OSCfg_MsgPoolSize = 0 then (OS_ERR_MSG_POOL_EMPTY, s)
          else (let loops = OSCfg_MsgPoolSize - 1;
                    (p_msg1, s) = msg_pool_loop (unat loops) base s;
                    s = s\<lparr>OSMsgs := (OSMsgs s)(p_msg1 := \<lparr>Msg_NextPtr = None,
                      Msg_MsgPtr = None, Msg_MsgSize = 0, Msg_MsgTS = 0\<rparr>)\<rparr>
            in (OS_ERR_NONE, s\<lparr>OSMsgPool := \<lparr>MP_NextPtr = Some base, MP_NbrFree = OSCfg_MsgPoolSize,
                  MP_NbrUsed = 0, MP_NbrUsedMax = 0\<rparr>\<rparr>)))"

definition set_pool :: "(OS_MSG_POOL \<Rightarrow> OS_MSG_POOL) \<Rightarrow> kernel \<Rightarrow> kernel" where
  "set_pool f s = s\<lparr>OSMsgPool := f (OSMsgPool s)\<rparr>"

definition OS_MsgQFreeAll :: "OS_MSG_Q \<Rightarrow> kernel \<Rightarrow> (u16 \<times> OS_MSG_Q \<times> kernel) option" where
  "OS_MsgQFreeAll q s =
     (let qty = MQ_NbrEntries q in
      if MQ_NbrEntries q > 0 then do {
        s \<leftarrow> set_msg (MQ_InPtr q) (\<lambda>m. m\<lparr>Msg_NextPtr := MP_NextPtr (OSMsgPool s)\<rparr>) s;
        let s = set_pool (\<lambda>p. p\<lparr>MP_NextPtr := MQ_OutPtr q\<rparr>) s;
        let s = set_pool (\<lambda>p. p\<lparr>MP_NbrUsed := MP_NbrUsed p - MQ_NbrEntries q\<rparr>) s;
        let s = set_pool (\<lambda>p. p\<lparr>MP_NbrFree := MP_NbrFree p + MQ_NbrEntries q\<rparr>) s;
        Some (qty, q\<lparr>MQ_NbrEntries := 0, MQ_NbrEntriesMax := 0, MQ_InPtr := None,
          MQ_OutPtr := None\<rparr>, s)
      } else Some (qty, q, s))"

definition OS_MsgQInit :: "u16 \<Rightarrow> OS_MSG_Q \<Rightarrow> OS_MSG_Q" where
  "OS_MsgQInit qsize q = q\<lparr>MQ_NbrEntriesSize := qsize, MQ_NbrEntries := 0, MQ_NbrEntriesMax := 0,
     MQ_InPtr := None, MQ_OutPtr := None\<rparr>"

text \<open>The message taken: its pointer, its size and its time stamp.\<close>

type_synonym message = "ptr \<times> u16 \<times> u32"

definition OS_MsgQGet ::
  "OS_MSG_Q \<Rightarrow> kernel \<Rightarrow> (OS_ERR \<times> message \<times> OS_MSG_Q \<times> kernel) option" where
  "OS_MsgQGet q s =
     (if MQ_NbrEntries q = 0 then Some (OS_ERR_Q_EMPTY, (None, 0, 0), q, s)
      else do {
        let p_msg = MQ_OutPtr q;
        m \<leftarrow> msg s p_msg;
        let q = q\<lparr>MQ_OutPtr := Msg_NextPtr m\<rparr>;
        let q = (if MQ_OutPtr q = None then q\<lparr>MQ_InPtr := None, MQ_NbrEntries := 0\<rparr>
                 else q\<lparr>MQ_NbrEntries := MQ_NbrEntries q - 1\<rparr>);
        s \<leftarrow> set_msg p_msg (\<lambda>m. m\<lparr>Msg_NextPtr := MP_NextPtr (OSMsgPool s)\<rparr>) s;
        let s = set_pool (\<lambda>p. p\<lparr>MP_NextPtr := p_msg\<rparr>) s;
        let s = set_pool (\<lambda>p. p\<lparr>MP_NbrFree := MP_NbrFree p + 1\<rparr>) s;
        let s = set_pool (\<lambda>p. p\<lparr>MP_NbrUsed := MP_NbrUsed p - 1\<rparr>) s;
        Some (OS_ERR_NONE, (Msg_MsgPtr m, Msg_MsgSize m, Msg_MsgTS m), q, s)
      })"

definition OS_MsgQPut ::
  "OS_MSG_Q \<Rightarrow> ptr \<Rightarrow> u16 \<Rightarrow> OS_OPT \<Rightarrow> u32 \<Rightarrow> kernel \<Rightarrow> (OS_ERR \<times> OS_MSG_Q \<times> kernel) option" where
  "OS_MsgQPut q p_void msg_size opt ts s =
     (if MQ_NbrEntries q \<ge> MQ_NbrEntriesSize q then Some (OS_ERR_Q_MAX, q, s)
      else if MP_NbrFree (OSMsgPool s) = 0 then Some (OS_ERR_MSG_POOL_EMPTY, q, s)
      else do {
        let p_msg = MP_NextPtr (OSMsgPool s);
        m \<leftarrow> msg s p_msg;
        let s = set_pool (\<lambda>p. p\<lparr>MP_NextPtr := Msg_NextPtr m\<rparr>) s;
        let s = set_pool (\<lambda>p. p\<lparr>MP_NbrFree := MP_NbrFree p - 1\<rparr>) s;
        let s = set_pool (\<lambda>p. p\<lparr>MP_NbrUsed := MP_NbrUsed p + 1\<rparr>) s;
        let s = set_pool (\<lambda>p. if MP_NbrUsedMax p < MP_NbrUsed p
                               then p\<lparr>MP_NbrUsedMax := MP_NbrUsed p\<rparr> else p) s;
        (q, s) \<leftarrow>
          (if MQ_NbrEntries q = 0 then do {
             let q = q\<lparr>MQ_InPtr := p_msg, MQ_OutPtr := p_msg, MQ_NbrEntries := 1\<rparr>;
             s \<leftarrow> set_msg p_msg (\<lambda>m. m\<lparr>Msg_NextPtr := None\<rparr>) s;
             Some (q, s)
           } else do {
             (q, s) \<leftarrow>
               (if opt AND OS_OPT_POST_LIFO = OS_OPT_POST_FIFO then do {
                  let p_msg_in = MQ_InPtr q;
                  s \<leftarrow> set_msg p_msg_in (\<lambda>m. m\<lparr>Msg_NextPtr := p_msg\<rparr>) s;
                  let q = q\<lparr>MQ_InPtr := p_msg\<rparr>;
                  s \<leftarrow> set_msg p_msg (\<lambda>m. m\<lparr>Msg_NextPtr := None\<rparr>) s;
                  Some (q, s)
                } else do {
                  s \<leftarrow> set_msg p_msg (\<lambda>m. m\<lparr>Msg_NextPtr := MQ_OutPtr q\<rparr>) s;
                  Some (q\<lparr>MQ_OutPtr := p_msg\<rparr>, s)
                });
             Some (q\<lparr>MQ_NbrEntries := MQ_NbrEntries q + 1\<rparr>, s)
           });
        let q = (if MQ_NbrEntriesMax q < MQ_NbrEntries q
                 then q\<lparr>MQ_NbrEntriesMax := MQ_NbrEntries q\<rparr> else q);
        s \<leftarrow> set_msg p_msg (\<lambda>m. m\<lparr>Msg_MsgPtr := p_void, Msg_MsgSize := msg_size, Msg_MsgTS := ts\<rparr>) s;
        Some (OS_ERR_NONE, q, s)
      })"

section \<open>Queues and the pool as lists\<close>

definition mnext :: "kernel \<Rightarrow> nat \<Rightarrow> ptr" where "mnext s = (\<lambda>a. Msg_NextPtr (OSMsgs s a))"

definition payload :: "kernel \<Rightarrow> nat \<Rightarrow> message" where
  "payload s a = (Msg_MsgPtr (OSMsgs s a), Msg_MsgSize (OSMsgs s a), Msg_MsgTS (OSMsgs s a))"

definition pool_list :: "kernel \<Rightarrow> nat list \<Rightarrow> bool" where
  "pool_list s fs \<longleftrightarrow> sll (mnext s) (MP_NextPtr (OSMsgPool s)) fs \<and>
     unat (MP_NbrFree (OSMsgPool s)) = length fs"

definition msgq_list :: "kernel \<Rightarrow> OS_MSG_Q \<Rightarrow> nat list \<Rightarrow> bool" where
  "msgq_list s q xs \<longleftrightarrow> sll (mnext s) (MQ_OutPtr q) xs \<and> MQ_InPtr q = hdo (rev xs) \<and>
     unat (MQ_NbrEntries q) = length xs \<and> length xs \<le> unat (MQ_NbrEntriesSize q)"

text \<open>The queue holds the messages \<open>ms\<close>, oldest first, and the pool has \<open>k\<close> free nodes.\<close>

definition mq_rel :: "OS_MSG_Q \<times> kernel \<Rightarrow> message list \<Rightarrow> nat \<Rightarrow> bool" where
  "mq_rel qs ms k \<longleftrightarrow> (case qs of (q, s) \<Rightarrow> \<exists>xs fs. msgq_list s q xs \<and> pool_list s fs \<and>
     set xs \<inter> set fs = {} \<and> length xs + length fs < 2 ^ 16 \<and>
     ms = map (payload s) xs \<and> k = length fs)"

text \<open>The frame: only the pool and the nodes \<open>X\<close> change.\<close>

definition msg_frame :: "nat set \<Rightarrow> kernel \<Rightarrow> kernel \<Rightarrow> bool" where
  "msg_frame X s s' \<longleftrightarrow> (\<exists>mm mp. s' = s\<lparr>OSMsgs := mm, OSMsgPool := mp\<rparr> \<and>
     (\<forall>a. a \<notin> X \<longrightarrow> mm a = OSMsgs s a))"

lemma msg_frame_refl [simp]: "msg_frame X s s"
  unfolding msg_frame_def
  by (intro exI [of _ "OSMsgs s"] exI [of _ "OSMsgPool s"]) simp

lemma msg_frameI: "s' = s\<lparr>OSMsgs := mm, OSMsgPool := mp\<rparr> \<Longrightarrow>
    (\<And>a. a \<notin> X \<Longrightarrow> mm a = OSMsgs s a) \<Longrightarrow> msg_frame X s s'"
  unfolding msg_frame_def by blast

text \<open>A queue whose nodes are not touched keeps its messages.\<close>

lemma msg_frame_other:
  assumes "msg_frame X s s'" and "set ys \<inter> X = {}"
  shows "msgq_list s' q ys \<longleftrightarrow> msgq_list s q ys" and "map (payload s') ys = map (payload s) ys"
proof -
  from assms(1) obtain mm mp where s': "s' = s\<lparr>OSMsgs := mm, OSMsgPool := mp\<rparr>"
    and mm: "\<And>a. a \<notin> X \<Longrightarrow> mm a = OSMsgs s a" unfolding msg_frame_def by blast
  have "a \<in> set ys \<Longrightarrow> mm a = OSMsgs s a" for a using mm assms(2) by blast
  then show "msgq_list s' q ys \<longleftrightarrow> msgq_list s q ys" "map (payload s') ys = map (payload s) ys"
    unfolding s' msgq_list_def
    by (auto simp: mnext_def payload_def cong: sll_cong)
qed

lemma sll_snoc:
  assumes "sll n h (ys @ [y])" and "x \<notin> set (ys @ [y])"
  shows "sll (n(y := Some x, x := None)) h (ys @ [y, x])"
  using assms by (auto simp: sll_def hdo_append)

lemma sll_tl: "sll n (Some f) (f # fs) \<Longrightarrow> sll n (n f) fs"
  by (auto simp: sll_def split: if_splits)

lemma word_len_pos: "unat (w :: u16) = length xs \<Longrightarrow> w = 0 \<longleftrightarrow> xs = []"
  by (metis length_0_conv unat_0 unat_eq_0)

lemma unat_inc: "unat (w :: u16) < unat (v :: u16) \<Longrightarrow> unat (w + 1) = unat w + 1"
proof -
  assume "unat w < unat v"
  moreover have "unat v < 2 ^ LENGTH(16)" by (rule unsigned_less)
  ultimately have "unat w + 1 < 2 ^ LENGTH(16)" by linarith
  then show ?thesis by (simp add: unat_word_ariths)
qed

section \<open>What the operations do\<close>

lemma OS_MsgQPut_full:
  "MQ_NbrEntriesSize q \<le> MQ_NbrEntries q \<Longrightarrow> OS_MsgQPut q p z opt ts s = Some (OS_ERR_Q_MAX, q, s)"
  by (simp add: OS_MsgQPut_def)

lemma OS_MsgQPut_empty_pool:
  "\<not> MQ_NbrEntriesSize q \<le> MQ_NbrEntries q \<Longrightarrow> MP_NbrFree (OSMsgPool s) = 0 \<Longrightarrow>
   OS_MsgQPut q p z opt ts s = Some (OS_ERR_MSG_POOL_EMPTY, q, s)"
  by (simp add: OS_MsgQPut_def)

definition put_pool :: "ptr \<Rightarrow> OS_MSG_POOL \<Rightarrow> OS_MSG_POOL" where
  "put_pool nx p = (let p = p\<lparr>MP_NextPtr := nx, MP_NbrFree := MP_NbrFree p - 1,
     MP_NbrUsed := MP_NbrUsed p + 1\<rparr> in
     if MP_NbrUsedMax p < MP_NbrUsed p then p\<lparr>MP_NbrUsedMax := MP_NbrUsed p\<rparr> else p)"

lemma put_pool_sel [simp]: "MP_NextPtr (put_pool nx p) = nx"
  "MP_NbrFree (put_pool nx p) = MP_NbrFree p - 1"
  by (simp_all add: put_pool_def Let_def)

lemma OS_MsgQPut_spec:
  assumes q: "msgq_list s q xs" and p: "pool_list s (f # fs)" and dj: "set xs \<inter> set (f # fs) = {}"
    and room: "length xs < unat (MQ_NbrEntriesSize q)"
  shows "\<exists>q' s'. OS_MsgQPut q p_void z opt ts s = Some (OS_ERR_NONE, q', s') \<and>
    msgq_list s' q' (if opt AND OS_OPT_POST_LIFO = OS_OPT_POST_FIFO then xs @ [f] else f # xs) \<and>
    pool_list s' fs \<and> payload s' = (payload s)(f := (p_void, z, ts)) \<and>
    msg_frame (insert f (set xs)) s s' \<and> MQ_NbrEntriesSize q' = MQ_NbrEntriesSize q"
proof -
  have hd: "MP_NextPtr (OSMsgPool s) = Some f" and fs: "sll (mnext s) (mnext s f) fs" "f \<notin> set fs"
    "unat (MP_NbrFree (OSMsgPool s)) = Suc (length fs)"
    using p by (auto simp: pool_list_def sll_Cons)
  have fx: "f \<notin> set xs" using dj by auto
  have g: "\<not> MQ_NbrEntriesSize q \<le> MQ_NbrEntries q" "MP_NbrFree (OSMsgPool s) \<noteq> 0"
    using q room fs(3) by (auto simp: msgq_list_def word_le_nat_alt)
  have u1: "unat (MQ_NbrEntries q + 1) = length xs + 1"
    using q room unat_inc [of "MQ_NbrEntries q" "MQ_NbrEntriesSize q"] by (simp add: msgq_list_def)
  have u2: "unat (MP_NbrFree (OSMsgPool s) - 1) = length fs" using unat_pred [OF fs(3)] .
  let ?m = "\<lambda>nx. \<lparr>Msg_NextPtr = nx, Msg_MsgPtr = p_void, Msg_MsgSize = z, Msg_MsgTS = ts\<rparr>"
  let ?pl = "put_pool (mnext s f) (OSMsgPool s)"
  let ?mx = "\<lambda>q. if MQ_NbrEntriesMax q < MQ_NbrEntries q
    then q\<lparr>MQ_NbrEntriesMax := MQ_NbrEntries q\<rparr> else q"
  show ?thesis
  proof (cases xs rule: rev_cases)
    case Nil
    then have z0: "MQ_NbrEntries q = 0" using q by (simp add: msgq_list_def word_len_pos)
    let ?q = "?mx (q\<lparr>MQ_InPtr := Some f, MQ_OutPtr := Some f, MQ_NbrEntries := 1\<rparr>)"
    let ?s = "s\<lparr>OSMsgs := (OSMsgs s)(f := ?m None), OSMsgPool := ?pl\<rparr>"
    have "OS_MsgQPut q p_void z opt ts s = Some (OS_ERR_NONE, ?q, ?s)"
      using g hd z0 by (cases "OSMsgs s f")
        (simp add: OS_MsgQPut_def Let_def msg_def set_msg_def set_pool_def put_pool_def mnext_def)
    moreover have "msg_frame (insert f (set xs)) s ?s" by (rule msg_frameI [OF refl]) auto
    moreover have "sll (mnext ?s) (mnext s f) fs"
      using fs(1,2) by (subst sll_cong [of _ _ "mnext s"]) (auto simp: mnext_def)
    ultimately show ?thesis using Nil u2 room
      by (auto simp: msgq_list_def pool_list_def sll_Cons mnext_def payload_def fun_eq_iff)
  next
    case (snoc ys y)
    then have nz: "MQ_NbrEntries q \<noteq> 0"
      using q word_len_pos [of "MQ_NbrEntries q" xs] by (simp add: msgq_list_def)
    have y: "y \<noteq> f" "y \<notin> set fs" "MQ_InPtr q = Some y" "sll (mnext s) (MQ_OutPtr q) (ys @ [y])"
      using q snoc dj by (auto simp: msgq_list_def)
    show ?thesis
    proof (cases "opt AND OS_OPT_POST_LIFO = OS_OPT_POST_FIFO")
      case True
      let ?q = "?mx (q\<lparr>MQ_InPtr := Some f, MQ_NbrEntries := MQ_NbrEntries q + 1\<rparr>)"
      let ?s = "s\<lparr>OSMsgs := (OSMsgs s)(y := (OSMsgs s y)\<lparr>Msg_NextPtr := Some f\<rparr>, f := ?m None),
        OSMsgPool := ?pl\<rparr>"
      have "OS_MsgQPut q p_void z opt ts s = Some (OS_ERR_NONE, ?q, ?s)"
        using g hd nz y(1,3) True by (cases "OSMsgs s f")
          (simp add: OS_MsgQPut_def Let_def msg_def set_msg_def set_pool_def put_pool_def mnext_def)
      moreover have "msg_frame (insert f (set xs)) s ?s" by (rule msg_frameI [OF refl]) (auto simp: snoc)
      moreover have "payload ?s = (payload s)(f := (p_void, z, ts))"
        by (auto simp: payload_def fun_eq_iff)
      moreover have "mnext ?s = (mnext s)(y := Some f, f := None)" by (auto simp: mnext_def)
      moreover have "sll ((mnext s)(y := Some f, f := None)) (mnext s f) fs"
        using fs(1,2) y(2) by (simp add: sll_upd_other)
      moreover have "sll ((mnext s)(y := Some f, f := None)) (MQ_OutPtr q) (ys @ [y, f])"
        by (rule sll_snoc [OF y(4)]) (use fx snoc in simp)
      ultimately show ?thesis using snoc u1 u2 room True
        by (intro exI [of _ ?q] exI [of _ ?s])
          (auto simp: msgq_list_def pool_list_def)
    next
      case False
      let ?q = "?mx (q\<lparr>MQ_OutPtr := Some f, MQ_NbrEntries := MQ_NbrEntries q + 1\<rparr>)"
      let ?s = "s\<lparr>OSMsgs := (OSMsgs s)(f := ?m (MQ_OutPtr q)), OSMsgPool := ?pl\<rparr>"
      have "OS_MsgQPut q p_void z opt ts s = Some (OS_ERR_NONE, ?q, ?s)"
        using g hd nz False by (cases "OSMsgs s f")
          (simp add: OS_MsgQPut_def Let_def msg_def set_msg_def set_pool_def put_pool_def mnext_def)
      moreover have "msg_frame (insert f (set xs)) s ?s" by (rule msg_frameI [OF refl]) auto
      moreover have "payload ?s = (payload s)(f := (p_void, z, ts))"
        by (auto simp: payload_def fun_eq_iff)
      moreover have "mnext ?s = (mnext s)(f := MQ_OutPtr q)" by (auto simp: mnext_def)
      moreover have "sll ((mnext s)(f := MQ_OutPtr q)) (mnext s f) fs"
        using fs(1,2) by (simp add: sll_upd_other)
      moreover have "sll ((mnext s)(f := MQ_OutPtr q)) (Some f) (f # xs)"
        using y(4) fx snoc by (simp add: sll_Cons sll_upd_other)
      ultimately show ?thesis using snoc u1 u2 room False q
        by (intro exI [of _ ?q] exI [of _ ?s])
          (auto simp: msgq_list_def pool_list_def)
    qed
  qed
qed

lemma OS_MsgQGet_empty:
  "msgq_list s q [] \<Longrightarrow> OS_MsgQGet q s = Some (OS_ERR_Q_EMPTY, (None, 0, 0), q, s)"
  by (simp add: OS_MsgQGet_def msgq_list_def word_len_pos)

lemma OS_MsgQGet_spec:
  assumes q: "msgq_list s q (x # xs)" and p: "pool_list s fs" and dj: "set (x # xs) \<inter> set fs = {}"
    and cap: "length fs < 2 ^ 16 - 1"
  shows "\<exists>q' s'. OS_MsgQGet q s = Some (OS_ERR_NONE, payload s x, q', s') \<and>
    msgq_list s' q' xs \<and> pool_list s' (x # fs) \<and> payload s' = payload s \<and>
    msg_frame {x} s s' \<and> MQ_NbrEntriesSize q' = MQ_NbrEntriesSize q"
proof -
  have o: "MQ_OutPtr q = Some x" and xs: "sll (mnext s) (mnext s x) xs" "x \<notin> set xs"
    "unat (MQ_NbrEntries q) = Suc (length xs)" "Suc (length xs) \<le> unat (MQ_NbrEntriesSize q)"
    "MQ_InPtr q = hdo (rev (x # xs))"
    using q by (auto simp: msgq_list_def sll_Cons)
  have nz: "MQ_NbrEntries q \<noteq> 0" using xs(3) by auto
  have nx: "mnext s x = hdo xs" using xs(1) by (simp add: sll_def)
  have u1: "unat (MQ_NbrEntries q - 1) = length xs" using unat_pred [OF xs(3)] .
  have u2: "unat (MP_NbrFree (OSMsgPool s) + 1) = Suc (length fs)"
    using p cap unat_inc [of "MP_NbrFree (OSMsgPool s)" "0xFFFF"] by (simp add: pool_list_def)
  let ?s = "s\<lparr>OSMsgs := (OSMsgs s)(x := (OSMsgs s x)\<lparr>Msg_NextPtr := MP_NextPtr (OSMsgPool s)\<rparr>),
    OSMsgPool := (OSMsgPool s)\<lparr>MP_NextPtr := Some x, MP_NbrFree := MP_NbrFree (OSMsgPool s) + 1,
      MP_NbrUsed := MP_NbrUsed (OSMsgPool s) - 1\<rparr>\<rparr>"
  let ?q = "if mnext s x = None then q\<lparr>MQ_OutPtr := mnext s x, MQ_InPtr := None, MQ_NbrEntries := 0\<rparr>
    else q\<lparr>MQ_OutPtr := mnext s x, MQ_NbrEntries := MQ_NbrEntries q - 1\<rparr>"
  have "OS_MsgQGet q s = Some (OS_ERR_NONE, payload s x, ?q, ?s)"
    using o nz by (simp add: OS_MsgQGet_def Let_def msg_def set_msg_def set_pool_def mnext_def payload_def)
  moreover have "msg_frame {x} s ?s" by (rule msg_frameI [OF refl]) auto
  moreover have m: "mnext ?s = (mnext s)(x := MP_NextPtr (OSMsgPool s))" by (auto simp: mnext_def)
  moreover have "payload ?s = payload s" by (auto simp: payload_def fun_eq_iff)
  moreover have "sll (mnext ?s) (mnext s x) xs" using xs(1,2) m by (simp add: sll_upd_other)
  moreover have "sll (mnext ?s) (Some x) (x # fs)"
    using p dj m by (simp add: pool_list_def sll_Cons sll_upd_other)
  ultimately show ?thesis using u1 u2 nx xs(4,5)
    by (intro exI [of _ ?q] exI [of _ ?s])
      (auto simp: msgq_list_def pool_list_def hdo_append split: if_splits)
qed

lemma OS_MsgQFreeAll_spec:
  assumes q: "msgq_list s q xs" and p: "pool_list s fs" and dj: "set xs \<inter> set fs = {}"
    and cap: "length xs + length fs < 2 ^ 16"
  shows "\<exists>q' s'. OS_MsgQFreeAll q s = Some (of_nat (length xs), q', s') \<and>
    msgq_list s' q' [] \<and> pool_list s' (xs @ fs) \<and> payload s' = payload s \<and>
    msg_frame (set xs) s s' \<and> MQ_NbrEntriesSize q' = MQ_NbrEntriesSize q"
proof (cases xs rule: rev_cases)
  case Nil
  then have z: "MQ_NbrEntries q = 0" using q by (simp add: msgq_list_def word_len_pos)
  then have "OS_MsgQFreeAll q s = Some (0, q, s)" by (simp add: OS_MsgQFreeAll_def)
  with Nil q p show ?thesis by auto
next
  case (snoc ys y)
  have y: "MQ_InPtr q = Some y" "sll (mnext s) (MQ_OutPtr q) (ys @ [y])"
    "unat (MQ_NbrEntries q) = length xs" using q snoc by (auto simp: msgq_list_def)
  have nz: "MQ_NbrEntries q > 0" using y(3) snoc by (auto simp: word_gt_0 unat_eq_0)
  have n: "MQ_NbrEntries q = of_nat (length xs)" using y(3) by (metis of_nat_unat ucast_id)
  let ?s = "s\<lparr>OSMsgs := (OSMsgs s)(y := (OSMsgs s y)\<lparr>Msg_NextPtr := MP_NextPtr (OSMsgPool s)\<rparr>),
    OSMsgPool := (OSMsgPool s)\<lparr>MP_NextPtr := MQ_OutPtr q,
      MP_NbrUsed := MP_NbrUsed (OSMsgPool s) - MQ_NbrEntries q,
      MP_NbrFree := MP_NbrFree (OSMsgPool s) + MQ_NbrEntries q\<rparr>\<rparr>"
  let ?q = "q\<lparr>MQ_NbrEntries := 0, MQ_NbrEntriesMax := 0, MQ_InPtr := None, MQ_OutPtr := None\<rparr>"
  have "OS_MsgQFreeAll q s = Some (of_nat (length xs), ?q, ?s)"
    using nz y(1) n by (simp add: OS_MsgQFreeAll_def Let_def set_msg_def set_pool_def)
  moreover have "msg_frame (set xs) s ?s" by (rule msg_frameI [OF refl]) (auto simp: snoc)
  moreover have m: "mnext ?s = (mnext s)(y := MP_NextPtr (OSMsgPool s))" by (auto simp: mnext_def)
  moreover have "payload ?s = payload s" by (auto simp: payload_def fun_eq_iff)
  moreover have "sll (mnext ?s) (MQ_OutPtr q) (xs @ fs)"
    using y(2) p dj snoc unfolding m pool_list_def by (auto simp: sll_def hdo_append)
  moreover have "unat (MP_NbrFree (OSMsgPool s) + MQ_NbrEntries q) = length (xs @ fs)"
    using y(3) p cap by (simp add: pool_list_def unat_word_ariths)
  ultimately show ?thesis
    by (intro exI [of _ ?q] exI [of _ ?s]) (auto simp: msgq_list_def pool_list_def)
qed

section \<open>The interface of a message queue\<close>

text \<open>What \<open>os_q.c\<close> and \<open>os_task.c\<close> rely on: a bounded first-in first-out queue over a shared
  pool of \<open>k\<close> free nodes.\<close>

primrec put_all :: "('m \<Rightarrow> 's \<Rightarrow> 's option) \<Rightarrow> 'm list \<Rightarrow> 's \<Rightarrow> 's option" where
  "put_all put [] s = Some s"
| "put_all put (m # ms) s = do { s \<leftarrow> put m s; put_all put ms s }"

primrec get_many :: "('s \<Rightarrow> ('m \<times> 's) option) \<Rightarrow> nat \<Rightarrow> 's \<Rightarrow> ('m list \<times> 's) option" where
  "get_many get 0 s = Some ([], s)"
| "get_many get (Suc n) s = do { (m, s) \<leftarrow> get s; (ms, s) \<leftarrow> get_many get n s; Some (m # ms, s) }"

locale bounded_queue =
  fixes put :: "'m \<Rightarrow> 's \<Rightarrow> 's option"
    and get :: "'s \<Rightarrow> ('m \<times> 's) option"
    and rel :: "'s \<Rightarrow> 'm list \<Rightarrow> nat \<Rightarrow> bool"
    and cap :: "'s \<Rightarrow> nat"
  assumes put: "rel s ms k \<Longrightarrow> length ms < cap s \<Longrightarrow> 0 < k \<Longrightarrow>
      \<exists>s'. put m s = Some s' \<and> rel s' (ms @ [m]) (k - 1) \<and> cap s' = cap s"
    and put_full: "rel s ms k \<Longrightarrow> cap s \<le> length ms \<or> k = 0 \<Longrightarrow> put m s = None"
    and get: "rel s (m # ms) k \<Longrightarrow> \<exists>s'. get s = Some (m, s') \<and> rel s' ms (Suc k) \<and> cap s' = cap s"
    and get_empty: "rel s [] k \<Longrightarrow> get s = None"
begin

lemma put_all_spec:
  "rel s ms k \<Longrightarrow> length ms + length xs \<le> cap s \<Longrightarrow> length xs \<le> k \<Longrightarrow>
   \<exists>s'. put_all put xs s = Some s' \<and> rel s' (ms @ xs) (k - length xs) \<and> cap s' = cap s"
proof (induction xs arbitrary: s ms k)
  case (Cons x xs)
  from put [OF Cons.prems(1), of x] Cons.prems(2,3) obtain s1 where
    s1: "put x s = Some s1" "rel s1 (ms @ [x]) (k - 1)" "cap s1 = cap s" by auto
  have "length xs \<le> k - 1" using Cons.prems(3) by simp
  with Cons.IH [OF s1(2)] Cons.prems(2) s1(3) obtain s' where
    "put_all put xs s1 = Some s'" "rel s' ((ms @ [x]) @ xs) (k - 1 - length xs)" "cap s' = cap s1" by auto
  with s1 show ?case by simp
qed simp

lemma get_many_spec:
  "rel s (xs @ ms) k \<Longrightarrow>
   \<exists>s'. get_many get (length xs) s = Some (xs, s') \<and> rel s' ms (k + length xs) \<and> cap s' = cap s"
proof (induction xs arbitrary: s k)
  case (Cons x xs)
  from get [of s x "xs @ ms" k] Cons.prems obtain s1 where
    s1: "get s = Some (x, s1)" "rel s1 (xs @ ms) (Suc k)" "cap s1 = cap s" by auto
  from Cons.IH [OF s1(2)] obtain s' where
    "get_many get (length xs) s1 = Some (xs, s')" "rel s' ms (Suc k + length xs)" "cap s' = cap s1" by auto
  with s1 show ?case by simp
qed simp

text \<open>Whatever is put into an empty queue comes out in the same order, and the pool is whole
  again.\<close>

lemma fifo:
  assumes "rel s [] k" and "length xs \<le> cap s" and "length xs \<le> k"
  shows "\<exists>s1 s2. put_all put xs s = Some s1 \<and> get_many get (length xs) s1 = Some (xs, s2) \<and> rel s2 [] k"
proof -
  from put_all_spec [OF assms(1), of xs] assms(2,3) obtain s1 where
    s1: "put_all put xs s = Some s1" "rel s1 (xs @ []) (k - length xs)" by auto
  from get_many_spec [OF s1(2)] obtain s2 where
    "get_many get (length xs) s1 = Some (xs, s2)" "rel s2 [] (k - length xs + length xs)" by auto
  with s1 assms(3) show ?thesis by auto
qed

text \<open>The number of messages and of free nodes together does not change.\<close>

lemma put_conserves:
  assumes "rel s ms k" and "put m s = Some s'"
  shows "\<exists>ms' k'. rel s' ms' k' \<and> length ms' + k' = length ms + k"
proof -
  have "length ms < cap s \<and> 0 < k" using put_full [OF assms(1), of m] assms(2) by fastforce
  with put [OF assms(1), of m] assms(2) show ?thesis by force
qed

end

definition q_put :: "message \<Rightarrow> OS_MSG_Q \<times> kernel \<Rightarrow> (OS_MSG_Q \<times> kernel) option" where
  "q_put m qs = (case (m, qs) of ((p, z, ts), (q, s)) \<Rightarrow> do {
     (err, q, s) \<leftarrow> OS_MsgQPut q p z OS_OPT_POST_FIFO ts s;
     if err = OS_ERR_NONE then Some (q, s) else None
   })"

definition q_get :: "OS_MSG_Q \<times> kernel \<Rightarrow> (message \<times> OS_MSG_Q \<times> kernel) option" where
  "q_get qs = (case qs of (q, s) \<Rightarrow> do {
     (err, m, q, s) \<leftarrow> OS_MsgQGet q s;
     if err = OS_ERR_NONE then Some (m, q, s) else None
   })"

lemma mq_relE:
  assumes "mq_rel (q, s) ms k"
  obtains xs fs where "msgq_list s q xs" "pool_list s fs" "set xs \<inter> set fs = {}"
    "length xs + length fs < 2 ^ 16" "ms = map (payload s) xs" "k = length fs"
  using assms by (auto simp: mq_rel_def)

lemma q_put_ok:
  assumes r: "mq_rel (q, s) ms k" and room: "length ms < unat (MQ_NbrEntriesSize q)" and k: "0 < k"
  shows "\<exists>q' s'. q_put m (q, s) = Some (q', s') \<and> mq_rel (q', s') (ms @ [m]) (k - 1) \<and>
    MQ_NbrEntriesSize q' = MQ_NbrEntriesSize q"
proof -
  obtain p z ts where m: "m = (p, z, ts)" by (cases m) auto
  from r obtain xs fs0 where x: "msgq_list s q xs" "pool_list s fs0" "set xs \<inter> set fs0 = {}"
    "length xs + length fs0 < 2 ^ 16" "ms = map (payload s) xs" "k = length fs0" by (rule mq_relE)
  with k obtain f fs where f: "fs0 = f # fs" by (cases fs0) auto
  from OS_MsgQPut_spec [OF x(1), of f fs p z OS_OPT_POST_FIFO ts] x room f obtain q' s' where
    i: "OS_MsgQPut q p z OS_OPT_POST_FIFO ts s = Some (OS_ERR_NONE, q', s')"
    "msgq_list s' q' (xs @ [f])" "pool_list s' fs" "payload s' = (payload s)(f := (p, z, ts))"
    "MQ_NbrEntriesSize q' = MQ_NbrEntriesSize q" by (auto simp: opts)
  have "distinct fs0" using x(2) by (simp add: pool_list_def sll_def)
  then have "mq_rel (q', s') (ms @ [m]) (k - 1)"
    using i(2-4) x f m unfolding mq_rel_def
    by (intro case_prodI exI [of _ "xs @ [f]"] exI [of _ fs]) auto
  with i m show ?thesis by (simp add: q_put_def)
qed

lemma q_get_ok:
  assumes r: "mq_rel (q, s) (m # ms) k"
  shows "\<exists>q' s'. q_get (q, s) = Some (m, q', s') \<and> mq_rel (q', s') ms (Suc k) \<and>
    MQ_NbrEntriesSize q' = MQ_NbrEntriesSize q"
proof -
  from r obtain xs0 fs where x: "msgq_list s q xs0" "pool_list s fs" "set xs0 \<inter> set fs = {}"
    "length xs0 + length fs < 2 ^ 16" "m # ms = map (payload s) xs0" "k = length fs" by (rule mq_relE)
  from x(5) obtain a xs where a: "xs0 = a # xs" "m = payload s a" "ms = map (payload s) xs"
    by (cases xs0) auto
  from OS_MsgQGet_spec [of s q a xs fs] x a obtain q' s' where
    i: "OS_MsgQGet q s = Some (OS_ERR_NONE, m, q', s')" "msgq_list s' q' xs" "pool_list s' (a # fs)"
    "payload s' = payload s" "MQ_NbrEntriesSize q' = MQ_NbrEntriesSize q" by auto
  have "distinct xs0" using x(1) by (simp add: msgq_list_def sll_def)
  then have "mq_rel (q', s') ms (Suc k)"
    using i x a unfolding mq_rel_def by (intro case_prodI exI [of _ xs] exI [of _ "a # fs"]) auto
  with i show ?thesis by (simp add: q_get_def)
qed

interpretation mq: bounded_queue q_put q_get mq_rel "\<lambda>qs. unat (MQ_NbrEntriesSize (fst qs))"
proof unfold_locales
  fix qs ms k and m :: message
  assume "mq_rel qs ms k" "length ms < unat (MQ_NbrEntriesSize (fst qs))" "0 < k"
  then show "\<exists>s'. q_put m qs = Some s' \<and> mq_rel s' (ms @ [m]) (k - 1) \<and>
      unat (MQ_NbrEntriesSize (fst s')) = unat (MQ_NbrEntriesSize (fst qs))"
    using q_put_ok [of "fst qs" "snd qs" ms k m] by force
next
  fix qs ms k and m :: message
  assume r: "mq_rel qs ms k" and f: "unat (MQ_NbrEntriesSize (fst qs)) \<le> length ms \<or> k = 0"
  obtain q s p z ts where e: "qs = (q, s)" "m = (p, z, ts)" by (cases qs, cases m) auto
  from r [unfolded e] obtain xs fs where "msgq_list s q xs" "pool_list s fs" "length ms = length xs"
    "k = length fs" by (elim mq_relE) auto
  with f e have "MQ_NbrEntriesSize q \<le> MQ_NbrEntries q \<or> MP_NbrFree (OSMsgPool s) = 0"
    by (auto simp: msgq_list_def pool_list_def word_le_nat_alt word_len_pos)
  then show "q_put m qs = None"
    using OS_MsgQPut_full [of q p z _ ts s] OS_MsgQPut_empty_pool [of q s p z _ ts]
    by (cases "MQ_NbrEntriesSize q \<le> MQ_NbrEntries q") (simp_all add: q_put_def e)
next
  fix qs and m :: message and ms k assume "mq_rel qs (m # ms) k"
  then show "\<exists>s'. q_get qs = Some (m, s') \<and> mq_rel s' ms (Suc k) \<and>
      unat (MQ_NbrEntriesSize (fst s')) = unat (MQ_NbrEntriesSize (fst qs))"
    using q_get_ok [of "fst qs" "snd qs" m ms k] by force
next
  fix qs k assume r: "mq_rel qs [] k"
  obtain q s where e: "qs = (q, s)" by (cases qs)
  from r [unfolded e] have "msgq_list s q []" by (elim mq_relE) auto
  then show "q_get qs = None" by (simp add: q_get_def e OS_MsgQGet_empty)
qed

section \<open>The pool after initialisation\<close>

lemma msg_pool_loop_spec:
  "\<exists>mm. msg_pool_loop n b s = (b + n, s\<lparr>OSMsgs := mm\<rparr>) \<and>
     (\<forall>i<n. Msg_NextPtr (mm (b + i)) = Some (b + i + 1)) \<and> (\<forall>a. a < b \<or> b + n \<le> a \<longrightarrow> mm a = OSMsgs s a)"
proof (induction n arbitrary: b s)
  case 0
  show ?case by (intro exI [of _ "OSMsgs s"]) simp
next
  case (Suc n)
  let ?m = "\<lparr>Msg_NextPtr = Some (b + 1), Msg_MsgPtr = None, Msg_MsgSize = 0, Msg_MsgTS = 0\<rparr>"
  from Suc [of "b + 1" "s\<lparr>OSMsgs := (OSMsgs s)(b := ?m)\<rparr>"] obtain mm where
    mm: "msg_pool_loop n (b + 1) (s\<lparr>OSMsgs := (OSMsgs s)(b := ?m)\<rparr>) = (b + 1 + n, s\<lparr>OSMsgs := mm\<rparr>)"
    "\<forall>i<n. Msg_NextPtr (mm (b + 1 + i)) = Some (b + 1 + i + 1)"
    "\<forall>a. a < b + 1 \<or> b + 1 + n \<le> a \<longrightarrow> mm a = ((OSMsgs s)(b := ?m)) a" by auto
  have "Msg_NextPtr (mm (b + i)) = Some (b + i + 1)" if "i < Suc n" for i
    using that mm(2,3) by (cases i) auto
  with mm show ?case by (intro exI [of _ mm]) auto
qed

lemma sll_upt:
  "(\<And>i. i < n \<Longrightarrow> nx (b + i) = (if i + 1 < n then Some (b + i + 1) else None)) \<Longrightarrow>
   sll nx (hdo [b..<b + n]) [b..<b + n]"
proof (induction n arbitrary: b)
  case (Suc n)
  have "sll nx (hdo [b + 1..<b + 1 + n]) [b + 1..<b + 1 + n]"
  proof (rule Suc.IH)
    fix i assume "i < n"
    then show "nx (b + 1 + i) = (if i + 1 < n then Some (b + 1 + i + 1) else None)"
      using Suc.prems [of "i + 1"] by simp
  qed
  moreover have "nx b = hdo [b + 1..<b + 1 + n]"
    using Suc.prems [of 0] by (cases n) (simp_all add: upt_conv_Cons del: upt_Suc)
  ultimately show ?case by (simp add: upt_conv_Cons sll_Cons del: upt_Suc)
qed simp

lemma OS_MsgPoolInit_spec:
  assumes "n \<noteq> 0"
  shows "\<exists>s'. OS_MsgPoolInit (Some b) n s = (OS_ERR_NONE, s') \<and> pool_list s' [b..<b + unat n]"
proof -
  obtain m where "unat n = Suc m" using assms by (metis not0_implies_Suc unat_eq_0)
  with unat_pred [OF this] have u: "unat n = Suc (unat (n - 1))" by simp
  from msg_pool_loop_spec [of "unat (n - 1)" b s] obtain mm where
    mm: "msg_pool_loop (unat (n - 1)) b s = (b + unat (n - 1), s\<lparr>OSMsgs := mm\<rparr>)"
    "\<forall>i<unat (n - 1). Msg_NextPtr (mm (b + i)) = Some (b + i + 1)" by blast
  let ?mm = "mm(b + unat (n - 1) := \<lparr>Msg_NextPtr = None, Msg_MsgPtr = None, Msg_MsgSize = 0,
    Msg_MsgTS = 0\<rparr>)"
  let ?s = "s\<lparr>OSMsgs := ?mm, OSMsgPool := \<lparr>MP_NextPtr = Some b, MP_NbrFree = n,
    MP_NbrUsed = 0, MP_NbrUsedMax = 0\<rparr>\<rparr>"
  have "OS_MsgPoolInit (Some b) n s = (OS_ERR_NONE, ?s)"
    using assms mm(1) by (simp add: OS_MsgPoolInit_def)
  moreover have "sll (mnext ?s) (hdo [b..<b + unat n]) [b..<b + unat n]"
    by (rule sll_upt) (use mm(2) u in \<open>auto simp: mnext_def\<close>)
  moreover have "hdo [b..<b + unat n] = Some b" using u by (simp add: upt_conv_Cons del: upt_Suc)
  ultimately show ?thesis by (simp add: pool_list_def)
qed

end
