(* ===== verification/Demo_System.thy ===== *)
theory Demo_System
  imports Os_Obj Os_Msg
begin

text \<open>
  A concrete state of the kernel at which the theorems are applied: an idle task, two ready
  tasks of one priority of which the first runs, a delayed task, and tasks waiting for a
  semaphore (one with a time-out), a mutex, a message queue and an event flag group. The lists
  of the state are proved to satisfy the invariant of the kernel.
\<close>

definition blank_tcb :: OS_TCB where
  "blank_tcb = \<lparr>StkPtr = 0, StkLimitPtr = 0, StkBasePtr = 0, StkSize = 0, TaskEntryAddr = 0, TaskEntryArg = 0,
     ExtPtr = None, Tcb_Opt = 0, RegTbl = [0], NamePtr = ''task'', NextPtr = None, PrevPtr = None, TickNextPtr = None,
     TickPrevPtr = None, PendNextPtr = None, PendPrevPtr = None, PendObjPtr = None,
     PendOn = OS_TASK_PEND_ON_NOTHING, PendStatus = OS_STATUS_PEND_OK,
     TaskState = OS_TASK_STATE_RDY, Prio = 31, BasePrio = 31, MutexGrpHeadPtr = None, Tcb_TS = 0,
     SemCtr = 0, TickRemain = 0, TickCtrPrev = 0, TimeQuanta = 0, TimeQuantaCtr = 0, MsgPtr = None,
     MsgSize = 0, MsgQ = \<lparr>MQ_InPtr = None, MQ_OutPtr = None, MQ_NbrEntriesSize = 4,
       MQ_NbrEntries = 0, MQ_NbrEntriesMax = 0\<rparr>,
     FlagsPend = 0, FlagsRdy = 0, FlagsOpt = 0, SuspendCtr = 0, CtxSwCtr = 0,
     Tcb_DbgPrevPtr = None, Tcb_DbgNextPtr = None, Tcb_DbgNamePtr = '' ''\<rparr>"

text \<open>Task 1 runs, task 2 is ready at the same priority, tasks 3 and 4 wait for semaphore 10,
  task 5 is delayed, task 6 waits for mutex 20 (owned by task 1), task 7 for queue 30, task 8
  for flag group 40.\<close>

definition demo_tcb :: "nat \<Rightarrow> OS_TCB" where
  "demo_tcb a =
     (if a = 1 then blank_tcb\<lparr>Prio := 5, BasePrio := 5, NextPtr := Some 2, TimeQuantaCtr := 1,
        MutexGrpHeadPtr := Some 20\<rparr>
      else if a = 2 then blank_tcb\<lparr>Prio := 5, BasePrio := 5, PrevPtr := Some 1\<rparr>
      else if a = 3 then blank_tcb\<lparr>Prio := 3, BasePrio := 3,
        TaskState := OS_TASK_STATE_PEND_TIMEOUT, PendOn := OS_TASK_PEND_ON_SEM,
        PendObjPtr := Some 10, PendNextPtr := Some 4, TickRemain := 4, TickNextPtr := Some 5\<rparr>
      else if a = 4 then blank_tcb\<lparr>Prio := 7, BasePrio := 7, TaskState := OS_TASK_STATE_PEND,
        PendOn := OS_TASK_PEND_ON_SEM, PendObjPtr := Some 10, PendPrevPtr := Some 3\<rparr>
      else if a = 5 then blank_tcb\<lparr>Prio := 9, BasePrio := 9, TaskState := OS_TASK_STATE_DLY,
        TickRemain := 6, TickPrevPtr := Some 3\<rparr>
      else if a = 6 then blank_tcb\<lparr>Prio := 8, BasePrio := 8, TaskState := OS_TASK_STATE_PEND,
        PendOn := OS_TASK_PEND_ON_MUTEX, PendObjPtr := Some 20\<rparr>
      else if a = 7 then blank_tcb\<lparr>Prio := 10, BasePrio := 10, TaskState := OS_TASK_STATE_PEND,
        PendOn := OS_TASK_PEND_ON_Q, PendObjPtr := Some 30\<rparr>
      else if a = 8 then blank_tcb\<lparr>Prio := 11, BasePrio := 11, TaskState := OS_TASK_STATE_PEND,
        PendOn := OS_TASK_PEND_ON_FLAG, PendObjPtr := Some 40, FlagsPend := 3, FlagsOpt := 4\<rparr>
      else blank_tcb)"

definition demo_obj :: "nat \<Rightarrow> OS_PEND_OBJ" where
  "demo_obj b =
     (let ob = (\<lambda>ty h t n. \<lparr>Type = ty, Obj_NamePtr = ''object'', PendList =
          \<lparr>PL_HeadPtr = h, PL_TailPtr = t, PL_NbrEntries = n\<rparr>, Obj_DbgPrevPtr = None,
          Obj_DbgNextPtr = None, Obj_DbgNamePtr = '' ''\<rparr>)
      in if b = 10 then ob OS_OBJ_TYPE_SEM (Some 3) (Some 4) 2
         else if b = 11 then ob OS_OBJ_TYPE_SEM None None 0
         else if b = 20 then ob OS_OBJ_TYPE_MUTEX (Some 6) (Some 6) 1
         else if b = 21 then ob OS_OBJ_TYPE_MUTEX None None 0
         else if b = 30 then ob OS_OBJ_TYPE_Q (Some 7) (Some 7) 1
         else if b = 31 then ob OS_OBJ_TYPE_Q None None 0
         else if b = 40 then ob OS_OBJ_TYPE_FLAG (Some 8) (Some 8) 1
         else ob OS_OBJ_TYPE_NONE None None 0)"

definition demo :: kernel where
  "demo = \<lparr>OSTCBs = demo_tcb, OSObjs = demo_obj,
     OSSems = (\<lambda>b. \<lparr>Ctr = (if b = 11 then 2 else 0), Sem_TS = 0\<rparr>),
     OSMutexes = (\<lambda>b. \<lparr>MutexGrpNextPtr = None, OwnerTCBPtr = (if b = 20 then Some 1 else None),
       OwnerNestingCtr = (if b = 20 then 1 else 0), Mutex_TS = 0\<rparr>),
     OSQs = (\<lambda>b. \<lparr>MQ_InPtr = None, MQ_OutPtr = None, MQ_NbrEntriesSize = 4,
       MQ_NbrEntries = 0, MQ_NbrEntriesMax = 0\<rparr>),
     OSFlagGrps = (\<lambda>b. \<lparr>Flags = 1, Flag_TS = 0\<rparr>),
     OSMsgs = (\<lambda>a. \<lparr>Msg_NextPtr = (if a < 103 then Some (a + 1) else None), Msg_MsgPtr = None,
       Msg_MsgSize = 0, Msg_MsgTS = 0\<rparr>),
     OSMsgPool = \<lparr>MP_NextPtr = Some 100, MP_NbrFree = 4, MP_NbrUsed = 0, MP_NbrUsedMax = 0\<rparr>,
     OSPrioTbl = [0x04000001],
     OSRdyList = (\<lambda>p. if p = 5
       then \<lparr>RL_HeadPtr = Some 1, RL_TailPtr = Some 2, RL_NbrEntries = 2\<rparr>
       else if p = 31 then \<lparr>RL_HeadPtr = Some 0, RL_TailPtr = Some 0, RL_NbrEntries = 1\<rparr>
       else \<lparr>RL_HeadPtr = None, RL_TailPtr = None, RL_NbrEntries = 0\<rparr>),
     OSTickList = \<lparr>TL_TCB_Ptr = Some 3, TL_NbrEntries = 2, TL_NbrUpdated = 0\<rparr>,
     OSTickCtr = 1000, OSTCBCurPtr = Some 1, OSTCBHighRdyPtr = Some 1, OSPrioCur = 5,
     OSPrioHighRdy = 5, OSRunning = OS_STATE_OS_RUNNING, OSInitialized = True,
     OSIntNestingCtr = 0, OSSchedLockNestingCtr = 0, OSSchedLockTimeBegin = 0,
     OSSchedLockTimeMax = 0, OSSchedLockTimeMaxCur = 0, OSSchedRoundRobinEn = True,
     OSSchedRoundRobinDfltTimeQuanta = 100, OSTaskQty = 9, OSTaskCtxSwCtr = 0, OSTaskRegNextAvailID = 0,
     OSStkMem = (\<lambda>_. 0), OSSemQty = 2,
     OSMutexQty = 1, OSQQty = 1, OSFlagQty = 1, OSTaskDbgListPtr = None, OSSemDbgListPtr = None,
     OSMutexDbgListPtr = None, OSQDbgListPtr = None, OSFlagDbgListPtr = None,
     OSMems = (\<lambda>_. \<lparr>Mem_Type = OS_OBJ_TYPE_NONE, Mem_NamePtr = '''', AddrPtr = 0, FreeListPtr = 0, BlkSize = 0,
       NbrMax = 0, NbrFree = 0, Mem_DbgPrevPtr = None, Mem_DbgNextPtr = None\<rparr>),
     OSMemQty = 0, OSMemDbgListPtr = None,
     OSTmrs = (\<lambda>_. \<lparr>Tmr_Type = OS_OBJ_TYPE_NONE, Tmr_NamePtr = '''', CallbackPtr = 0, CallbackPtrArg = None,
       Tmr_NextPtr = None, Tmr_PrevPtr = None, Remain = 0, Dly = 0, Period = 0, Opt = 0,
       State = OS_TMR_STATE_UNUSED, Tmr_DbgPrevPtr = None, Tmr_DbgNextPtr = None\<rparr>),
     OSTmrQty = 0, OSTmrDbgListPtr = None, OSTmrListPtr = None, OSTmrListEntries = 0,
     OSTmrTaskTickBase = 0, OSTmrToTicksMult = 1\<rparr>"

definition demo_R :: "u8 \<Rightarrow> nat list" where
  "demo_R p = (if p = 5 then [1, 2] else if p = 31 then [0] else [])"

definition demo_W :: "nat \<Rightarrow> nat list" where
  "demo_W b = (if b = 10 then [3, 4] else if b = 20 then [6] else if b = 30 then [7]
     else if b = 40 then [8] else [])"

definition demo_T :: "nat list" where "demo_T = [3, 5]"

definition demo_A :: "nat set" where "demo_A = {0, 1, 2, 3, 4, 5, 6, 7, 8}"

lemmas demo_defs = demo_def demo_tcb_def blank_tcb_def demo_obj_def demo_R_def demo_W_def demo_T_def
  demo_A_def

lemma demo_prios: "prio_set [0x04000001] = {5, 31}"
proof -
  have "\<forall>p\<in>set [0..<32]. bit (0x04000001 :: u32) (31 - p) \<longleftrightarrow> p = 5 \<or> p = 31"
    by code_simp
  then show ?thesis by (auto simp: prio_set_def prio_mem_Cons)
qed

lemma demo_rdy: "rdy_rel demo demo_R"
  unfolding rdy_rel_def
proof (intro conjI)
  show "rdy_lists demo demo_R"
    by (auto simp: rdy_lists_def dll_def nxt_def prv_def demo_defs OS_CFG_PRIO_MAX_def)
  show "prio_tbl_ok demo" by (simp add: prio_tbl_ok_def demo_def)
  have "{n. \<exists>p. n = unat (p :: u8) \<and> demo_R p \<noteq> []} = {5, 31}"
  proof -
    have "unat (5 :: u8) = 5" "unat (31 :: u8) = 31" by simp_all
    then show ?thesis by (force simp: demo_R_def)
  qed
  then show "ready_prios demo = {n. \<exists>p. n = unat p \<and> demo_R p \<noteq> []}"
    by (simp add: ready_prios_def demo_def demo_prios)
qed

lemma demo_pend: "pend_lists demo demo_W"
  by (auto simp: pend_lists_def dll_def pnxt_def pprv_def plist_def pobj_def demo_defs Let_def)

lemma demo_tick: "tick_lists demo demo_T"
  by (simp add: tick_lists_def dll_def tnxt_def tprv_def trem_def demo_defs)

lemma demo_kinv: "kinv demo demo_A demo_R demo_W demo_T"
proof -
  have "pend_sorted demo demo_W" by (simp add: pend_sorted_def demo_defs)
  moreover have "task_ok demo demo_R demo_W demo_T a" if "a \<in> demo_A" for a
    using that
    by (auto simp: task_ok_def timed_def pending_def on_object_def OS_CFG_PRIO_MAX_def demo_defs)
  ultimately show ?thesis
    using demo_rdy demo_pend demo_tick
    by (auto simp: kinv_def demo_A_def demo_R_def demo_W_def demo_T_def)
qed

lemma demo_running: "running demo 1"
  by (simp add: running_def demo_defs)

text \<open>A queue of the state together with the message pool.\<close>

lemma demo_pool: "pool_list demo [100, 101, 102, 103]"
  by (simp add: pool_list_def sll_def mnext_def demo_def)

lemma demo_mq: "mq_rel (OSQs demo 31, demo) [] 4"
  unfolding mq_rel_def
  by (intro case_prodI exI [of _ "[]"] exI [of _ "[100, 101, 102, 103]"])
    (simp add: demo_pool, simp add: msgq_list_def demo_def)

lemma demo_level: "task_level demo 1" "1 \<in> demo_A" "rdy_del demo 1 demo_R 31 \<noteq> []"
  by (simp_all add: task_level_def rdy_del_def demo_defs Let_def)

end
