(* ===== verification/Kernel_Props.thy ===== *)
theory Kernel_Props
  imports Demo_System
begin

text \<open>
  The properties of the core of the kernel (\<open>os_prio.c\<close>, \<open>os_core.c\<close>, \<open>os_tick.c\<close>, \<open>os_msg.c\<close>),
  stated over the operations of the code and obtained from the component theories and the
  interpretations of their interfaces. Each is applied once at the state \<open>demo\<close>.
\<close>

section \<open>Scheduling\<close>

text \<open>In every state of the kernel that satisfies the invariant and has a ready task,
  \<open>OSSched\<close> called from a task with the scheduler unlocked returns, and afterwards the current
  task is the head of the ready list of the highest priority; the lists are as before.\<close>

theorem OSSched_runs_most_urgent:
  assumes "kinv s A R W T" and "R q \<noteq> []" and "OSRunning s = OS_STATE_OS_RUNNING"
    and "OSIntNestingCtr s = 0" and "OSSchedLockNestingCtr s = 0"
  shows "\<exists>s' x xs. OSSched s = Some s' \<and> OSTCBCurPtr s' = Some x \<and>
    R (Prio (OSTCBs s x)) = x # xs \<and> (\<forall>p. R p \<noteq> [] \<longrightarrow> Prio (OSTCBs s x) \<le> p) \<and>
    kinv s' A R W T \<and> (running s x \<or> OSTCBCurPtr s \<noteq> Some x \<longrightarrow> running s' x)"
proof -
  from OSSched_spec [OF assms] obtain s' x where "OSSched s = Some s'" "switched s s'"
    "most_urgent s R x" "OSTCBCurPtr s' = Some x"
    "OSTCBCurPtr s \<noteq> Some x \<or> running s x \<longrightarrow> running s' x" by blast
  with assms(1) show ?thesis
    by (auto simp: most_urgent_def switched_kinv [of s s'] intro!: exI [of _ s'])
qed

theorem OSSched_runs_most_urgent_witness:
  "\<exists>s' x xs. OSSched (demo\<lparr>OSTCBCurPtr := Some 5, OSPrioCur := 9\<rparr>) = Some s' \<and>
     OSTCBCurPtr s' = Some x \<and> demo_R (Prio (OSTCBs demo x)) = x # xs \<and>
     kinv s' demo_A demo_R demo_W demo_T"
  using OSSched_runs_most_urgent [of "demo\<lparr>OSTCBCurPtr := Some 5, OSPrioCur := 9\<rparr>"
      demo_A demo_R demo_W demo_T 5]
  by (simp add: demo_kinv) (fastforce simp: demo_R_def demo_def)

text \<open>A task that becomes ready above every ready task is the next one the scheduler
  selects.\<close>

theorem OS_RdyListInsert_preempts:
  assumes "rdy_rel s R" and "unat (Prio (OSTCBs s x)) < OS_CFG_PRIO_MAX"
    and "\<And>q. R q \<noteq> [] \<Longrightarrow> Prio (OSTCBs s x) < q" and "OS_RdyListInsert (Some x) s = Some s'"
  shows "sched_select s' = Some (Prio (OSTCBs s x), Some x)"
  by (rule rdyq.ins_preempts [OF assms])

theorem OS_RdyListInsert_preempts_witness:
  "\<exists>s'. OS_RdyListInsert (Some 3) demo = Some s' \<and> sched_select s' = Some (3, Some 3)"
proof -
  have p: "Prio (OSTCBs demo 3) = 3" by (simp add: demo_defs)
  have n: "3 \<notin> set (demo_R (Prio (OSTCBs demo 3)))" by (simp add: demo_defs)
  have l: "unat (Prio (OSTCBs demo 3)) < OS_CFG_PRIO_MAX" by (simp add: p OS_CFG_PRIO_MAX_def)
  from rdyq.ins [OF demo_rdy l n] obtain s' where s': "OS_RdyListInsert (Some 3) demo = Some s'" by blast
  have "\<And>q. demo_R q \<noteq> [] \<Longrightarrow> Prio (OSTCBs demo 3) < q" by (auto simp: p demo_R_def split: if_splits)
  from OS_RdyListInsert_preempts [OF demo_rdy l this s'] s' p show ?thesis by simp
qed

text \<open>The pointer manipulation of the ready list refines lists: a task is inserted at the
  tail of the list of its priority if that is the priority of the running task and at its head
  otherwise, the bitmap is updated, and everything else in the state stays as it is.\<close>

theorem OS_RdyListInsert_refines:
  assumes "rdy_rel s R" and "unat (Prio (OSTCBs s x)) < OS_CFG_PRIO_MAX"
    and "x \<notin> set (R (Prio (OSTCBs s x)))"
  shows "\<exists>n p rl tbl. OS_RdyListInsert (Some x) s = Some (upd_rdy n p rl tbl s) \<and>
    rdy_rel (upd_rdy n p rl tbl s) (R(Prio (OSTCBs s x) :=
      (if Prio (OSTCBs s x) = OSPrioCur s then R (Prio (OSTCBs s x)) @ [x]
       else x # R (Prio (OSTCBs s x)))))"
  using OS_RdyListInsert_spec [OF assms(1) refl assms(2,3)] by (elim rdy_okE) blast

theorem OS_RdyListInsert_refines_witness:
  "\<exists>n p rl tbl. OS_RdyListInsert (Some 4) demo = Some (upd_rdy n p rl tbl demo) \<and>
     rdy_rel (upd_rdy n p rl tbl demo) (demo_R(7 := [4]))"
proof -
  have e: "demo_R(7 := [4]) = demo_R(7 := 4 # demo_R 7)" by (simp add: demo_R_def)
  show ?thesis
    using OS_RdyListInsert_refines [OF demo_rdy, of 4] unfolding e by (simp add: demo_defs OS_CFG_PRIO_MAX_def)
qed

text \<open>\<open>OS_RdyListRemove\<close> takes a task out of the list of its priority, wherever it stands,
  and clears the bit of the bitmap exactly when the list becomes empty.\<close>

theorem OS_RdyListRemove_refines:
  assumes "rdy_rel s R" and "R q = as @ x # bs"
  shows "\<exists>n p rl tbl. OS_RdyListRemove (Some x) s = Some (upd_rdy n p rl tbl s) \<and>
    rdy_rel (upd_rdy n p rl tbl s) (R(q := as @ bs)) \<and>
    (unat q \<in> ready_prios (upd_rdy n p rl tbl s) \<longleftrightarrow> as @ bs \<noteq> [])"
proof -
  from OS_RdyListRemove_spec [OF assms] obtain n p rl tbl where
    o: "OS_RdyListRemove (Some x) s = Some (upd_rdy n p rl tbl s)"
    "rdy_rel (upd_rdy n p rl tbl s) (R(q := as @ bs))" by (elim rdy_okE)
  have "unat q \<in> ready_prios (upd_rdy n p rl tbl s) \<longleftrightarrow> as @ bs \<noteq> []"
    using rdy_relD(3) [OF o(2)] by (auto simp: word_unat_eq_iff [symmetric])
  with o show ?thesis by blast
qed

theorem OS_RdyListRemove_refines_witness:
  "\<exists>n p rl tbl. OS_RdyListRemove (Some 2) demo = Some (upd_rdy n p rl tbl demo) \<and>
     rdy_rel (upd_rdy n p rl tbl demo) (demo_R(5 := [1])) \<and>
     unat (5 :: u8) \<in> ready_prios (upd_rdy n p rl tbl demo)"
  using OS_RdyListRemove_refines [OF demo_rdy, of 5 "[1]" 2 "[]"] by (simp add: demo_R_def)

text \<open>The round-robin scheduler counts the quantum of the running task down; when it is
  used up, another task of the priority is ready and the scheduler is unlocked, the task goes
  behind the others and the next one gets its full quantum.\<close>

theorem OS_SchedRoundRobin_rotates:
  assumes "rdy_rel s R" and "unat q < OS_CFG_PRIO_MAX" and "OSSchedRoundRobinEn s"
    and "R q = x # y # ys" and "x \<noteq> OSIdleTaskTCB" and "OSSchedLockNestingCtr s = 0"
    and "quantum_left (OSTCBs s x) = 0"
  shows "\<exists>s'. OS_SchedRoundRobin q s = Some s' \<and> rdy_rel s' (R(q := y # ys @ [x])) \<and>
    TimeQuantaCtr (OSTCBs s' y) = (if TimeQuanta (OSTCBs s y) = 0
      then OSSchedRoundRobinDfltTimeQuanta s else TimeQuanta (OSTCBs s y))"
  using OS_SchedRoundRobin_spec [OF assms(1-5)] assms(6,7) by (simp cong: if_cong)

theorem OS_SchedRoundRobin_rotates_witness:
  "\<exists>s'. OS_SchedRoundRobin 5 demo = Some s' \<and> rdy_rel s' (demo_R(5 := [2, 1])) \<and>
     TimeQuantaCtr (OSTCBs s' 2) = 100"
  using OS_SchedRoundRobin_rotates [OF demo_rdy, of 5 1 2 "[]"]
  by (simp add: demo_defs OSIdleTaskTCB_def OS_CFG_PRIO_MAX_def quantum_left_def)

text \<open>\<open>OS_PrioGetHighest\<close> returns the least priority number in the bitmap.\<close>

theorem OS_PrioGetHighest_least:
  assumes "prio_tbl_ok s" and "ready_prios s \<noteq> {}"
  shows "\<exists>p. OS_PrioGetHighest s = Some p \<and> unat p \<in> ready_prios s \<and>
    (\<forall>n\<in>ready_prios s. unat p \<le> n)"
  using prio.highest_ex [OF assms] prio.highest_least [OF assms(1) _ assms(2)] by metis

theorem OS_PrioGetHighest_least_witness:
  "\<exists>p. OS_PrioGetHighest demo = Some p \<and> unat p \<in> ready_prios demo \<and>
     (\<forall>n\<in>ready_prios demo. unat p \<le> n)"
  by (rule OS_PrioGetHighest_least)
    (simp_all add: prio_tbl_ok_def ready_prios_def demo_def demo_prios)

text \<open>The table look-up of the portable \<open>CPU_CntLeadZeros32\<close> computes what the CLZ
  instruction of the port does, for all 32-bit values.\<close>

theorem CntLeadZeros32_is_CLZ: "CPU_CntLeadZeros32 val = CPU_CntLeadZeros val"
  by (rule CPU_CntLeadZeros32_eq)

section \<open>Waiting lists and time\<close>

text \<open>A task joins the pend list of an object behind the tasks of its own and of higher
  priorities and in front of those of lower priorities; a list in order of priority stays so.\<close>

theorem OS_PendListInsertPrio_fifo:
  assumes "pend_lists s W" and "pobj s x = Some b" and "x \<notin> set (W b)"
    and "sorted (map (prios s) (W b))"
  shows "\<exists>s' as bs. OS_PendListInsertPrio (Some b) (Some x) s = Some s' \<and> W b = as @ bs \<and>
    pend_lists s' (W(b := as @ x # bs)) \<and> prios s' = prios s \<and>
    (\<forall>y\<in>set as. prios s y \<le> prios s x) \<and> (\<forall>y\<in>set bs. prios s x < prios s y) \<and>
    sorted (map (prios s) (as @ x # bs))"
proof -
  let ?P = "\<lambda>y. prios s y \<le> prios s x"
  obtain as bs where ab: "as = takeWhile ?P (W b)" "bs = dropWhile ?P (W b)" by blast
  then have Wb: "W b = as @ bs" and ins: "pend_ins (prios s) x (W b) = as @ x # bs"
    by (simp_all add: pend_ins_def)
  have srt: "sorted (map (prios s) (as @ x # bs))"
    using sorted_pend_ins [OF assms(4), of x] by (simp only: ins)
  from pendq.join [OF assms(1-3)] obtain s' where s': "OS_PendListInsertPrio (Some b) (Some x) s = Some s'"
    "pend_lists s' (W(b := as @ x # bs))" "prios s' = prios s" unfolding ins by blast
  have le: "\<forall>y\<in>set as. prios s y \<le> prios s x" using ab(1) set_takeWhileD by fastforce
  have "bs \<noteq> [] \<Longrightarrow> prios s x < prios s (hd bs)"
    using hd_dropWhile [of ?P "W b"] ab(2) by (simp add: not_le)
  with srt have gt: "\<forall>y\<in>set bs. prios s x < prios s y"
    by (cases bs) (auto simp: sorted_append)
  show ?thesis
    by (rule exI [of _ s'], rule exI [of _ as], rule exI [of _ bs]) (intro conjI s' Wb le gt srt)
qed

theorem OS_PendListInsertPrio_fifo_witness:
  "\<exists>s' as bs. OS_PendListInsertPrio (Some 10) (Some 2) (put 2 (PendObjPtr_update (\<lambda>_. Some 10)) demo)
     = Some s' \<and> [3, 4] = as @ bs \<and> pend_lists s' (demo_W(10 := as @ 2 # bs)) \<and>
     (\<forall>y\<in>set as. Prio (demo_tcb y) \<le> 5) \<and> (\<forall>y\<in>set bs. 5 < Prio (demo_tcb y))"
proof -
  let ?s = "put 2 (PendObjPtr_update (\<lambda>_. Some 10)) demo"
  have 1: "pend_lists ?s demo_W"
    by (auto simp: pend_lists_def dll_def pnxt_def pprv_def plist_def pobj_def demo_defs Let_def)
  have 2: "pobj ?s 2 = Some 10" by (simp add: pobj_def)
  have 3: "2 \<notin> set (demo_W 10)" "sorted (map (prios ?s) (demo_W 10))" by (simp_all add: demo_defs)
  have 4: "prios ?s y = Prio (demo_tcb y)" "Prio (demo_tcb 2) = 5" "demo_W 10 = [3, 4]" for y
    by (simp_all add: demo_def demo_W_def demo_tcb_def blank_tcb_def)
  from OS_PendListInsertPrio_fifo [OF 1 2 3] show ?thesis unfolding 4 by blast
qed

text \<open>A time-out or delay of \<open>d\<close> ticks puts a task into the tick list so that it expires
  after exactly \<open>d\<close> ticks, behind the tasks that expire no later, and the remaining times of all
  other tasks are what they were.\<close>

theorem OS_TickListInsert_times:
  assumes "tick_lists s T" and "x \<notin> set T" and "d = time + tick_base - OSTickCtr s" and "d \<noteq> 0"
  shows "\<exists>s' as bs. OS_TickListInsert (Some x) 0 tick_base time s = Some (True, s') \<and>
    T = as @ bs \<and> tick_lists s' (as @ x # bs) \<and> due (trem s') (as @ x # bs) x = unat d \<and>
    (\<forall>a\<in>set T. due (trem s') (as @ x # bs) a = due (trem s) T a) \<and>
    (\<forall>a\<in>set as. due (trem s) T a \<le> unat d) \<and> (\<forall>a\<in>set bs. unat d < due (trem s) T a)"
proof -
  from OS_TickListInsert_spec [OF assms] obtain n p r l T' where
    "OS_TickListInsert (Some x) 0 tick_base time s = Some (True, upd_tick n p r l s)"
    "tick_lists (upd_tick n p r l s) T'" "tick_inserted s T x (unat d) r T'" by blast
  then show ?thesis unfolding tick_inserted_def by (auto intro!: exI [of _ "upd_tick n p r l s"])
qed

theorem OS_TickListInsert_times_witness:
  "\<exists>s' as bs. OS_TickListInsert (Some 1) 0 1000 7 demo = Some (True, s') \<and> [3, 5] = as @ bs \<and>
     tick_lists s' (as @ 1 # bs) \<and> due (trem s') (as @ 1 # bs) 1 = 7"
proof -
  have d: "(7 :: u32) = 7 + 1000 - OSTickCtr demo" by (simp add: demo_def)
  have n: "1 \<notin> set demo_T" by (simp add: demo_T_def)
  from OS_TickListInsert_times [OF demo_tick n d] show ?thesis by (fastforce simp: demo_T_def)
qed

text \<open>Taking a task off the tick list, wherever it stands, does not change when any of the
  other tasks expires.\<close>

theorem OS_TickListRemove_times:
  assumes "tick_lists s T" and "T = as @ x # bs"
  shows "\<exists>s'. OS_TickListRemove (Some x) s = Some s' \<and> tick_lists s' (as @ bs) \<and>
    TickRemain (OSTCBs s' x) = 0 \<and>
    (\<forall>a\<in>set (as @ bs). due (trem s') (as @ bs) a = due (trem s) T a)"
proof -
  from OS_TickListRemove_spec [OF assms] obtain n p r l where
    "OS_TickListRemove (Some x) s = Some (upd_tick n p r l s)" "r x = 0"
    "tick_lists (upd_tick n p r l s) (as @ bs)"
    "\<forall>a\<in>set (as @ bs). due r (as @ bs) a = due (trem s) T a" by blast
  then show ?thesis by (intro exI [of _ "upd_tick n p r l s"]) simp
qed

theorem OS_TickListRemove_times_witness:
  "\<exists>s'. OS_TickListRemove (Some 3) demo = Some s' \<and> tick_lists s' [5] \<and>
     due (trem s') [5] 5 = 10"
proof -
  have "demo_T = [] @ 3 # [5]" by (simp add: demo_T_def)
  from OS_TickListRemove_times [OF demo_tick this] show ?thesis
    by (auto simp: demo_T_def trem_def demo_def demo_tcb_def blank_tcb_def)
qed

text \<open>C15: The tick update makes exactly the tasks expire whose time is at most the ticks that
  have passed, in the order of the list; they leave the tick list and the pend lists and the
  ones not suspended become ready; the others have that many ticks less to go. (\<open>quiet\<close>: the
  time-out of a waiter for a mutex needs no change of the owner's inherited priority.)\<close>

theorem OS_TickUpdate_expires_due:
  assumes "kinv s A R W T"
    and "\<And>c. c \<in> set T \<Longrightarrow> due (trem s) T c \<le> unat ticks \<Longrightarrow> quiet s c"
  shows "\<exists>s' E T'. OS_TickUpdate ticks ts s = Some s' \<and> OSTickCtr s' = OSTickCtr s + ticks \<and>
    E = filter (\<lambda>c. due (trem s) T c \<le> unat ticks) T \<and>
    T' = filter (\<lambda>c. unat ticks < due (trem s) T c) T \<and>
    kinv s' A (fold (exp_rdy s) E R) (fold without E W) T' \<and>
    (\<forall>c\<in>set T'. due (trem s') T' c = due (trem s) T c - unat ticks) \<and>
    (\<forall>i<length E. core (OSTCBs s' (E ! i)) = core (expired_tcb (ts i) (OSTCBs s (E ! i))))"
proof -
  let ?s = "s\<lparr>OSTickCtr := OSTickCtr s + ticks\<rparr>"
  have e: "trem ?s = trem s" "quiet ?s = quiet s" "exp_rdy ?s = exp_rdy s"
    by (simp_all add: trem_def quiet_def exp_rdy_def rdy_ins_def fun_eq_iff cong: option.case_cong)
  from OS_TickListUpdate_spec [where s = ?s and A = A and R = R and W = W and T = T and ticks = ticks and ts = ts]
  obtain s' where s': "OS_TickListUpdate ticks ts ?s = Some s'"
    "ticked ?s s' A R W (filter (\<lambda>c. due (trem s) T c \<le> unat ticks) T)
      (filter (\<lambda>c. unat ticks < due (trem s) T c) T) (\<lambda>c. due (trem s) T c - unat ticks) ts"
    using assms unfolding e by auto
  have "OSTickCtr s' = OSTickCtr s + ticks"
    using s'(2) moved_set_sel(3) [of _ ?s s'] by (auto simp: ticked_def)
  with s' show ?thesis
    by (auto simp: ticked_def e OS_TickUpdate_def intro!: exI [of _ s'])
qed

theorem OS_TickUpdate_expires_due_witness:
  "\<exists>s'. OS_TickUpdate 5 (\<lambda>_. 77) demo = Some s' \<and> OSTickCtr s' = 1005 \<and>
     TaskState (OSTCBs s' 3) = OS_TASK_STATE_RDY \<and> due (trem s') [5] 5 = 5 \<and>
     kinv s' demo_A (demo_R(3 := [3])) (demo_W(10 := [4])) [5]"
proof -
  have q: "\<And>c. c \<in> set demo_T \<Longrightarrow> due (trem demo) demo_T c \<le> unat (5 :: u32) \<Longrightarrow> quiet demo c"
    by (simp add: quiet_def demo_T_def) (auto simp: demo_def demo_tcb_def blank_tcb_def)
  have E: "filter (\<lambda>c. due (trem demo) demo_T c \<le> unat (5 :: u32)) demo_T = [3]"
    "filter (\<lambda>c. unat (5 :: u32) < due (trem demo) demo_T c) demo_T = [5]"
    "due (trem demo) demo_T 5 = 10"
    by (simp_all add: demo_T_def trem_def demo_def demo_tcb_def blank_tcb_def)
  have l: "exp_rdy demo 3 demo_R = demo_R(3 := [3])" "without 3 demo_W = demo_W(10 := [4])"
    "OSTickCtr demo = 1000"
    by (auto simp: exp_rdy_def rdy_ins_def without_def demo_def demo_tcb_def blank_tcb_def demo_R_def
        demo_W_def Let_def fun_eq_iff)
  have t: "core t = core (expired_tcb 77 (OSTCBs demo 3)) \<Longrightarrow> TaskState t = OS_TASK_STATE_RDY" for t
    using core_eqI(1) [of t "expired_tcb 77 (OSTCBs demo 3)"]
    by (simp add: expired_tcb_def demo_def demo_tcb_def blank_tcb_def)
  from OS_TickUpdate_expires_due [where ticks = 5 and ts = "\<lambda>_. 77", OF demo_kinv q] t show ?thesis
    unfolding E l by (auto simp: l E)
qed

section \<open>Blocking and readying\<close>

text \<open>C18: A ready task that blocks on an object leaves the ready list, joins the pend list of
  the object in order of priority and, with a time-out, the tick list with exactly that time; the
  invariant of the kernel holds again and no other task changes.\<close>

theorem OS_Pend_blocks:
  assumes "kinv s A R W T" and "a \<in> A" and "TaskState (OSTCBs s a) = OS_TASK_STATE_RDY"
    and "on_object pending_on"
  shows "\<exists>s' T'. OS_Pend (Some b) (Some a) pending_on timeout s = Some s' \<and>
    kinv s' A (R(Prio (OSTCBs s a) := remove1 a (R (Prio (OSTCBs s a)))))
      (W(b := pend_ins (prios s) a (W b))) T' \<and>
    TaskState (OSTCBs s' a) =
      (if timeout > 0 then OS_TASK_STATE_PEND_TIMEOUT else OS_TASK_STATE_PEND) \<and>
    (if timeout > 0 then tick_inserted s T a (unat timeout) (trem s') T' else T' = T) \<and>
    (\<forall>c. c \<noteq> a \<longrightarrow> core (OSTCBs s' c) = core (OSTCBs s c))"
proof -
  have po: "pending_on \<noteq> OS_TASK_PEND_ON_NOTHING" "Some b \<noteq> None \<longleftrightarrow> on_object pending_on"
    using assms(4) by (auto simp: on_object_def)
  from OS_Pend_spec [OF assms(1-3) po] obtain s' T' where
    p: "OS_Pend (Some b) (Some a) pending_on timeout s = Some s'"
    "becomes a (pended_tcb s (Some b) pending_on timeout (OSTCBs s a)) s s' A
      (rdy_del s a R) (queued s (Some b) a W) T'"
    "if timeout > 0 then tick_inserted s T a (unat timeout) (trem s') T' else T' = T \<and> trem s' = trem s"
    by blast
  note B = becomesD [OF p(2)]
  show ?thesis using p(1,3) B(3) core_eqI(1) [OF B(2)] moved_sel(17) [OF B(1)]
    by (intro exI [of _ s'] exI [of _ T'])
      (auto simp: rdy_del_def queued_def pended_tcb_def Let_def)
qed

theorem OS_Pend_blocks_witness:
  "\<exists>s' T'. OS_Pend (Some 10) (Some 1) OS_TASK_PEND_ON_SEM 7 demo = Some s' \<and>
     kinv s' demo_A (demo_R(5 := [2])) (demo_W(10 := [3, 1, 4])) T' \<and>
     TaskState (OSTCBs s' 1) = OS_TASK_STATE_PEND_TIMEOUT"
proof -
  have 1: "1 \<in> demo_A" "TaskState (OSTCBs demo 1) = OS_TASK_STATE_RDY" "Prio (OSTCBs demo 1) = 5"
    "remove1 1 (demo_R 5) = [2]" "pend_ins (prios demo) 1 (demo_W 10) = [3, 1, 4]"
    by (simp_all add: demo_defs pend_ins_def)
  have 2: "on_object OS_TASK_PEND_ON_SEM" by (simp add: on_object_def)
  from OS_Pend_blocks [OF demo_kinv 1(1,2) 2, of 10 7] show ?thesis
    unfolding 1(3-) by (simp only: word_gt_0 zero_neq_numeral [symmetric]) (elim exE conjE, simp, blast)
qed

text \<open>C19: Posting an object to a waiting task hands the message over, takes the task off the
  pend list and the tick list and makes it ready, or leaves it suspended if it is suspended; the
  invariant of the kernel holds again.\<close>

theorem OS_Post_readies:
  assumes "kinv s A R W T" and "a \<in> set (W b)"
  shows "\<exists>s'. OS_Post (Some b) (Some a) p_void msg_size ts s = Some s' \<and>
    kinv s' A (if runs (TaskState (OSTCBs s a)) then rdy_ins s a R else R) (without a W) (remove1 a T) \<and>
    TaskState (OSTCBs s' a) = unpend_state (TaskState (OSTCBs s a)) \<and>
    MsgPtr (OSTCBs s' a) = p_void \<and> MsgSize (OSTCBs s' a) = msg_size \<and> Tcb_TS (OSTCBs s' a) = ts \<and>
    PendStatus (OSTCBs s' a) = OS_STATUS_PEND_OK \<and>
    (\<forall>c. c \<noteq> a \<longrightarrow> core (OSTCBs s' c) = core (OSTCBs s c))"
proof -
  have a: "a \<in> A" using kinvD(7) [OF assms(1)] assms(2) by blast
  note ok = task_okD [OF assms(1) a]
  have po: "PendObjPtr (OSTCBs s a) = Some b" using ok(4) assms(2) by blast
  then have pd: "pending (TaskState (OSTCBs s a))" using ok(5,6) by (auto simp: on_object_def)
  from OS_Post_spec [OF assms(1) a pd po] obtain s' where
    p: "OS_Post (Some b) (Some a) p_void msg_size ts s = Some s'"
    "becomes a (posted_tcb p_void msg_size ts (OSTCBs s a)) s s' A
      (if runs (TaskState (OSTCBs s a)) then rdy_ins s a R else R) (without a W) (remove1 a T)" by blast
  note B = becomesD [OF p(2)]
  show ?thesis using p(1) B(3) core_eqI(1,6-9) [OF B(2)] moved_sel(17) [OF B(1)]
    by (intro exI [of _ s']) (auto simp: posted_tcb_def)
qed

theorem OS_Post_readies_witness:
  "\<exists>s'. OS_Post (Some 10) (Some 3) (Some 99) 4 55 demo = Some s' \<and>
     kinv s' demo_A (demo_R(3 := [3])) (demo_W(10 := [4])) [5] \<and>
     TaskState (OSTCBs s' 3) = OS_TASK_STATE_RDY \<and> MsgPtr (OSTCBs s' 3) = Some 99"
proof -
  have 1: "3 \<in> set (demo_W 10)" "runs (TaskState (OSTCBs demo 3))" "remove1 3 demo_T = [5]"
    "unpend_state (TaskState (OSTCBs demo 3)) = OS_TASK_STATE_RDY"
    "rdy_ins demo 3 demo_R = demo_R(3 := [3])" "without 3 demo_W = demo_W(10 := [4])"
    by (auto simp: demo_W_def runs_def unpend_state_def demo_def demo_tcb_def blank_tcb_def rdy_ins_def
        without_def demo_R_def demo_T_def Let_def fun_eq_iff)
  from OS_Post_readies [OF demo_kinv 1(1), of "Some 99" 4 55] show ?thesis
    unfolding 1(3-) by (auto simp: 1(2))
qed

text \<open>Aborting the wait of a task (also used when the object is deleted) makes it ready or
  leaves it suspended, with the reason as its pend status and no message; the invariant of the
  kernel holds again.\<close>

theorem OS_PendAbort_readies:
  assumes "kinv s A R W T" and "a \<in> A" and "pending (TaskState (OSTCBs s a))"
  shows "\<exists>s'. OS_PendAbort (Some a) ts reason s = Some s' \<and>
    kinv s' A (if runs (TaskState (OSTCBs s a)) then rdy_ins s a R else R) (without a W) (remove1 a T) \<and>
    TaskState (OSTCBs s' a) = unpend_state (TaskState (OSTCBs s a)) \<and>
    PendStatus (OSTCBs s' a) = reason \<and> MsgPtr (OSTCBs s' a) = None \<and>
    (\<forall>c. c \<noteq> a \<longrightarrow> core (OSTCBs s' c) = core (OSTCBs s c))"
proof -
  from OS_PendAbort_spec [OF assms] obtain s' where
    p: "OS_PendAbort (Some a) ts reason s = Some s'"
    "becomes a (aborted_tcb reason ts (OSTCBs s a)) s s' A
      (if runs (TaskState (OSTCBs s a)) then rdy_ins s a R else R) (without a W) (remove1 a T)" by blast
  note B = becomesD [OF p(2)]
  show ?thesis using p(1) B(3) core_eqI(1,6-7) [OF B(2)] moved_sel(17) [OF B(1)]
    by (intro exI [of _ s']) (auto simp: aborted_tcb_def)
qed

theorem OS_PendAbort_readies_witness:
  "\<exists>s'. OS_PendAbort (Some 3) 55 OS_STATUS_PEND_DEL demo = Some s' \<and>
     TaskState (OSTCBs s' 3) = OS_TASK_STATE_RDY \<and> PendStatus (OSTCBs s' 3) = OS_STATUS_PEND_DEL"
proof -
  have 1: "3 \<in> demo_A" "pending (TaskState (OSTCBs demo 3))"
    "unpend_state (TaskState (OSTCBs demo 3)) = OS_TASK_STATE_RDY"
    by (simp_all add: demo_defs pending_def unpend_state_def runs_def)
  from OS_PendAbort_readies [OF demo_kinv 1(1,2), of 55 OS_STATUS_PEND_DEL] show ?thesis
    unfolding 1(3) by blast
qed

section \<open>Periodic delays\<close>

text \<open>C31: A periodic delay of less than 2^31 ticks does not drift: whatever the lateness of the task, which is the
  distance of the tick counter from the previous expiry as a 32-bit number, the time from the previous expiry to the
  next one is a whole number of periods (as a natural number, without wrap-around), and the next expiry lies in the
  future, by less than two periods.\<close>

theorem OS_TickListInsertDly_no_drift:
  assumes "tick_lists s T" and "x \<notin> set T" and "time \<noteq> 0" and "unat time < 2 ^ 31"
  shows "\<exists>s' T' m. OS_TickListInsertDly (Some x) time OS_OPT_TIME_PERIODIC s = Some (OS_ERR_NONE, s') \<and>
    tick_lists s' T' \<and> set T' = insert x (set T) \<and>
    TickCtrPrev (OSTCBs s' x) = TickCtrPrev (OSTCBs s x) + of_nat m * time \<and>
    m * unat time = unat (OSTickCtr s - TickCtrPrev (OSTCBs s x)) + due (trem s') T' x \<and>
    OSTickCtr s + of_nat (due (trem s') T' x) = TickCtrPrev (OSTCBs s' x) \<and>
    0 < due (trem s') T' x \<and> due (trem s') T' x < 2 * unat time \<and>
    TaskState (OSTCBs s' x) = OS_TASK_STATE_DLY"
proof -
  let ?b = "periodic_base (OSTickCtr s) (TickCtrPrev (OSTCBs s x)) time"
  let ?s = "set_TickCtrPrev x (?b + time) s"
  note P = periodic_base_spec [OF assms(3,4), of "OSTickCtr s" "TickCtrPrev (OSTCBs s x)"]
  have t: "trem ?s = trem s" "tick_lists ?s T" "OSTickCtr ?s = OSTickCtr s"
  proof -
    show tr: "trem ?s = trem s" by (auto simp: trem_def set_TickCtrPrev_def)
    show "tick_lists ?s T"
      using assms(1) by (rule tick_lists_cong [THEN iffD1, rotated -1]) (auto simp: set_TickCtrPrev_def)
    show "OSTickCtr ?s = OSTickCtr s" by (simp add: set_TickCtrPrev_def)
  qed
  have d: "?b + time - OSTickCtr s = time + ?b - OSTickCtr ?s" unfolding t(3) by (simp only: add.commute)
  have d0: "?b + time - OSTickCtr s \<noteq> 0" using P(1) by (metis less_numeral_extra(3) unat_0)
  from OS_TickListInsert_spec [OF t(2) assms(2) d d0] obtain n p r l T' where
    i: "OS_TickListInsert (Some x) 0 ?b time ?s = Some (True, upd_tick n p r l ?s)"
    "tick_lists (upd_tick n p r l ?s) T'"
    "tick_inserted ?s T x (unat (?b + time - OSTickCtr s)) r T'" by blast
  let ?s' = "set_TaskState x OS_TASK_STATE_DLY (upd_tick n p r l ?s)"
  have "OS_TickListInsertDly (Some x) time OS_OPT_TIME_PERIODIC s = Some (OS_ERR_NONE, ?s')"
    using i(1) by (simp add: InsertDly_periodic [OF assms(3)] Let_def)
  moreover have "tick_lists ?s' T'"
    using i(2) by (rule tick_lists_cong [THEN iffD1, rotated -1]) (auto simp: set_TaskState_def)
  moreover have "trem ?s' = r" by (auto simp: trem_def set_TaskState_def)
  moreover have "due r T' x = unat (?b + time - OSTickCtr s)" "set T' = insert x (set T)"
    using i(3) by (auto simp: tick_inserted_def)
  moreover have "TickCtrPrev (OSTCBs ?s' x) = ?b + time"
    by (simp add: set_TaskState_def set_TickCtrPrev_def)
  moreover have "TaskState (OSTCBs ?s' x) = OS_TASK_STATE_DLY" by (simp add: set_TaskState_def)
  moreover have "unat (?b + time - OSTickCtr s) < 2 * unat time"
    using P(2) assms(3) by (auto simp: unat_gt_0)
  ultimately show ?thesis using P(1,3) by (intro exI [of _ ?s'] exI [of _ T']) auto
qed

theorem OS_TickListInsertDly_no_drift_witness:
  "\<exists>s' T'. OS_TickListInsertDly (Some 1) 30 OS_OPT_TIME_PERIODIC demo = Some (OS_ERR_NONE, s') \<and>
     tick_lists s' T' \<and> set T' = {1, 3, 5} \<and> due (trem s') T' 1 < 60"
proof -
  have 1: "1 \<notin> set demo_T" "(30 :: u32) \<noteq> 0" "unat (30 :: u32) < 2 ^ 31" by (simp_all add: demo_T_def)
  from OS_TickListInsertDly_no_drift [OF demo_tick 1] show ?thesis by (auto simp: demo_T_def)
qed

section \<open>Nesting\<close>

lemma OSIntEnter_counts:
  assumes "OSRunning s = OS_STATE_OS_RUNNING" "m + n \<le> 250"
  shows "fold (\<lambda>_. OSIntEnter) (replicate n ()) (s\<lparr>OSIntNestingCtr := of_nat m\<rparr>) = s\<lparr>OSIntNestingCtr := of_nat (m + n)\<rparr>"
  using assms(2)
proof (induction n arbitrary: m)
  case (Suc n)
  have "unat (of_nat m :: u8) = m" using Suc.prems by (simp add: unat_of_nat)
  then have "\<not> 250 \<le> (of_nat m :: u8)" using Suc.prems by (simp add: word_le_nat_alt)
  then have "OSIntEnter (s\<lparr>OSIntNestingCtr := of_nat m\<rparr>) = s\<lparr>OSIntNestingCtr := of_nat (Suc m)\<rparr>"
    using assms(1) by (simp add: OSIntEnter_def add.commute)
  then show ?case using Suc.IH [of "Suc m"] Suc.prems by (simp del: of_nat_Suc fold_replicate)
qed simp

lemma OSIntExit_nested:
  assumes "OSRunning s = OS_STATE_OS_RUNNING" "k < n" "n \<le> 250"
  shows "leave_all (\<lambda>_. OSIntExit) (replicate k ()) (s\<lparr>OSIntNestingCtr := of_nat n\<rparr>) =
    Some (s\<lparr>OSIntNestingCtr := of_nat (n - k)\<rparr>)"
  using assms(2,3)
proof (induction k arbitrary: n)
  case (Suc k)
  obtain m where n: "n = Suc m" "k < m" using Suc.prems by (cases n) auto
  have "unat (of_nat m :: u8) = m" "unat (of_nat n :: u8) = n"
    using Suc.prems n by (simp_all add: unat_of_nat del: of_nat_Suc)
  then have "0 < (of_nat m :: u8)" "(of_nat n :: u8) \<noteq> 0" "(of_nat n - 1 :: u8) = of_nat m"
    using n by (auto simp: word_less_nat_alt)
  then have "OSIntExit (s\<lparr>OSIntNestingCtr := of_nat n\<rparr>) = Some (s\<lparr>OSIntNestingCtr := of_nat m\<rparr>)"
    using assms(1) by (simp add: OSIntExit_def Let_def)
  then show ?case using Suc.IH [of m] Suc.prems n by simp
qed simp

text \<open>C40: While the scheduler is not locked, interrupts nested up to 250 deep count their nesting and reschedule nothing as long as one of them is
  left: after \<open>n\<close> calls of \<open>OSIntEnter\<close> and any smaller number of calls of \<open>OSIntExit\<close> only the counter of the state
  has changed. The last \<open>OSIntExit\<close> makes the most urgent ready task the current one.\<close>

theorem interrupts_reschedule_at_outermost_exit:
  assumes "kinv s A R W T" and "R q \<noteq> []" and "OSRunning s = OS_STATE_OS_RUNNING"
    and "OSIntNestingCtr s = 0" and "OSSchedLockNestingCtr s = 0" and "0 < n" and "n \<le> 250"
  shows "\<exists>s' x. leave_all (\<lambda>_. OSIntExit) (replicate n ()) (fold (\<lambda>_. OSIntEnter) (replicate n ()) s)
      = Some s' \<and> OSTCBCurPtr s' = Some x \<and> most_urgent s R x \<and>
    OSIntNestingCtr s' = 0 \<and> kinv s' A R W T \<and>
    (\<forall>k<n. leave_all (\<lambda>_. OSIntExit) (replicate k ()) (fold (\<lambda>_. OSIntEnter) (replicate n ()) s)
      = Some (s\<lparr>OSIntNestingCtr := of_nat (n - k)\<rparr>))"
proof -
  from int_nest.balanced [of s "replicate n ()" "replicate n ()"] assms(3-7) obtain s1 where
    s1: "leave_all (\<lambda>_. OSIntExit) (replicate n ()) (fold (\<lambda>_. OSIntEnter) (replicate n ()) s)
      = sched_switch s1" "unat (OSIntNestingCtr s1) = 0" "same_but_nesting s s1" by auto
  have K: "kinv s1 A R W T" using assms(1) same_but_nesting_kinv [OF s1(3)] by simp
  from sched_switch_spec [OF K assms(2)] obtain s' x where
    s': "sched_switch s1 = Some s'" "switched s1 s'" "most_urgent s1 R x" "OSTCBCurPtr s' = Some x"
    by blast
  have "most_urgent s R x" using s'(3) s1(3) by (auto simp: most_urgent_def same_but_nesting_def)
  moreover have "\<forall>k<n. leave_all (\<lambda>_. OSIntExit) (replicate k ()) (fold (\<lambda>_. OSIntEnter) (replicate n ()) s)
      = Some (s\<lparr>OSIntNestingCtr := of_nat (n - k)\<rparr>)"
  proof -
    have "s\<lparr>OSIntNestingCtr := of_nat 0\<rparr> = s" using assms(4) by simp
    then have "fold (\<lambda>_. OSIntEnter) (replicate n ()) s = s\<lparr>OSIntNestingCtr := of_nat n\<rparr>"
      using OSIntEnter_counts [OF assms(3), of 0 n] assms(7) by (simp only: add_0)
    then show ?thesis using OSIntExit_nested [OF assms(3) _ assms(7)] by (simp only:) blast
  qed
  ultimately show ?thesis using s1 s' K switched_kinv [OF s'(2)] switched_sel(10) [OF s'(2)]
    by (auto simp: unat_eq_0)
qed

theorem interrupts_reschedule_at_outermost_exit_witness:
  "\<exists>s' x. leave_all (\<lambda>_. OSIntExit) (replicate 3 ()) (fold (\<lambda>_. OSIntEnter) (replicate 3 ()) demo)
     = Some s' \<and> OSTCBCurPtr s' = Some x \<and> most_urgent demo demo_R x"
  using interrupts_reschedule_at_outermost_exit [OF demo_kinv, of 5 3] by (auto simp: demo_R_def demo_def)

text \<open>Calls of \<open>OSSchedLock\<close>, nested up to 250 deep, are undone by as many calls of
  \<open>OSSchedUnlock\<close>; the last of them makes the most urgent task the current one.\<close>

theorem unlock_reschedules_at_outermost_level:
  assumes "kinv s A R W T" and "R q \<noteq> []" and "OSRunning s = OS_STATE_OS_RUNNING"
    and "OSIntNestingCtr s = 0" and "OSSchedLockNestingCtr s = 0"
    and "tss \<noteq> []" and "length tss \<le> 250" and "length uts = length tss"
  shows "\<exists>s' x. leave_all (\<lambda>ts s. map_option snd (OSSchedUnlock ts s)) uts
      (fold (\<lambda>ts s. snd (OSSchedLock ts s)) tss s) = Some s' \<and>
    OSTCBCurPtr s' = Some x \<and> most_urgent s R x \<and> OSSchedLockNestingCtr s' = 0 \<and> kinv s' A R W T"
proof -
  from lock_nest.balanced [of s uts tss] assms(3-8) obtain s1 where
    s1: "leave_all (\<lambda>ts s. map_option snd (OSSchedUnlock ts s)) uts
        (fold (\<lambda>ts s. snd (OSSchedLock ts s)) tss s) = OSSched s1"
      "OSRunning s1 = OS_STATE_OS_RUNNING" "OSIntNestingCtr s1 = 0"
      "OSSchedLockNestingCtr s1 = 0" "same_but_nesting s s1" by (auto simp: unat_eq_0)
  have K: "kinv s1 A R W T" using assms(1) same_but_nesting_kinv [OF s1(5)] by simp
  from OSSched_spec [OF K assms(2) s1(2-4)] obtain s' x where
    s': "OSSched s1 = Some s'" "switched s1 s'" "most_urgent s1 R x" "OSTCBCurPtr s' = Some x" by blast
  have "most_urgent s R x" using s'(3) s1(5) by (auto simp: most_urgent_def same_but_nesting_def)
  with s1 s' K switched_kinv [OF s'(2)] switched_sel(11) [OF s'(2)] show ?thesis by auto
qed

theorem unlock_reschedules_at_outermost_level_witness:
  "\<exists>s' x. leave_all (\<lambda>ts s. map_option snd (OSSchedUnlock ts s)) [30, 40]
      (fold (\<lambda>ts s. snd (OSSchedLock ts s)) [10, 20] demo) = Some s' \<and>
     OSTCBCurPtr s' = Some x \<and> most_urgent demo demo_R x \<and> OSSchedLockNestingCtr s' = 0"
  using unlock_reschedules_at_outermost_level [OF demo_kinv, where q = 5 and tss = "[10, 20]" and uts = "[30, 40]"]
  by (simp add: demo_R_def demo_def) blast

section \<open>Messages\<close>

text \<open>A message queue delivers first in, first out: messages put into an empty queue, as
  many as its size and the free nodes of the shared pool allow, are all accepted and come out in
  the order in which they were put, and every node is back in the pool.\<close>

theorem message_queue_fifo:
  assumes "mq_rel (q, s) [] k" and "length ms \<le> unat (MQ_NbrEntriesSize q)" and "length ms \<le> k"
  shows "\<exists>qs1 qs2. put_all q_put ms (q, s) = Some qs1 \<and>
    get_many q_get (length ms) qs1 = Some (ms, qs2) \<and> mq_rel qs2 [] k"
  using mq.fifo [OF assms(1), of ms] assms(2,3) by simp

theorem message_queue_fifo_witness:
  "\<exists>qs1 qs2. put_all q_put [(Some 1, 2, 3), (Some 4, 5, 6)] (OSQs demo 31, demo) = Some qs1 \<and>
     get_many q_get 2 qs1 = Some ([(Some 1, 2, 3), (Some 4, 5, 6)], qs2) \<and> mq_rel qs2 [] 4"
proof -
  let ?ms = "[(Some 1, 2, 3), (Some 4, 5, 6)] :: message list"
  have l: "length ?ms = 2" by simp
  have b: "2 \<le> unat (MQ_NbrEntriesSize (OSQs demo 31))" "(2 :: nat) \<le> 4" by (simp_all add: demo_def)
  from message_queue_fifo [OF demo_mq, of ?ms] show ?thesis unfolding l using b by blast
qed

text \<open>A message that does not fit is refused with the reason and changes nothing; one that
  fits uses one node of the pool.\<close>

theorem OS_MsgQPut_accepts_or_refuses:
  assumes "mq_rel (q, s) ms k"
  shows "if MQ_NbrEntriesSize q \<le> MQ_NbrEntries q
    then OS_MsgQPut q p z opt ts s = Some (OS_ERR_Q_MAX, q, s)
    else if k = 0 then OS_MsgQPut q p z opt ts s = Some (OS_ERR_MSG_POOL_EMPTY, q, s)
    else \<exists>q' s'. OS_MsgQPut q p z OS_OPT_POST_FIFO ts s = Some (OS_ERR_NONE, q', s') \<and>
      mq_rel (q', s') (ms @ [(p, z, ts)]) (k - 1)"
proof -
  from assms obtain xs fs where x: "msgq_list s q xs" "pool_list s fs" "length ms = length xs"
    "k = length fs" by (elim mq_relE) auto
  have k: "k = unat (MP_NbrFree (OSMsgPool s))" using x(2,4) by (simp add: pool_list_def)
  show ?thesis
  proof (cases "MQ_NbrEntriesSize q \<le> MQ_NbrEntries q \<or> k = 0")
    case True
    then show ?thesis using OS_MsgQPut_full [of q p z opt ts s] OS_MsgQPut_empty_pool [of q s p z opt ts] k
      by (auto simp: unat_eq_0)
  next
    case False
    then have "length ms < unat (MQ_NbrEntriesSize q)" "0 < k"
      using x by (auto simp: msgq_list_def word_le_nat_alt word_len_pos)
    from q_put_ok [OF assms this, of "(p, z, ts)"] obtain q' s' where
      "q_put (p, z, ts) (q, s) = Some (q', s')" "mq_rel (q', s') (ms @ [(p, z, ts)]) (k - 1)" by blast
    with False show ?thesis by (auto simp: q_put_def bind_eq_Some_iff split: if_splits)
  qed
qed

theorem OS_MsgQPut_accepts_or_refuses_witness:
  "\<exists>q' s'. OS_MsgQPut (OSQs demo 31) (Some 9) 1 OS_OPT_POST_FIFO 5 demo = Some (OS_ERR_NONE, q', s') \<and>
     mq_rel (q', s') [(Some 9, 1, 5)] 3"
  using OS_MsgQPut_accepts_or_refuses [OF demo_mq, of "Some 9" 1 OS_OPT_POST_FIFO 5]
  by (simp add: demo_def)

text \<open>The initialisation of the message pool links all its nodes into the free list.\<close>

theorem OS_MsgPoolInit_links_all:
  assumes "n \<noteq> 0"
  shows "\<exists>s'. OS_MsgPoolInit (Some b) n s = (OS_ERR_NONE, s') \<and> pool_list s' [b..<b + unat n]"
  by (rule OS_MsgPoolInit_spec [OF assms])

theorem OS_MsgPoolInit_links_all_witness:
  "\<exists>s'. OS_MsgPoolInit (Some 200) 32 demo = (OS_ERR_NONE, s') \<and> pool_list s' [200..<232]"
  using OS_MsgPoolInit_links_all [of 32 200 demo] by simp

end
