(* ===== verification/Os_Sem.thy ===== *)
theory Os_Sem
  imports Os_Obj
begin

text \<open>
  Counting semaphores (\<open>os_sem.c\<close>). \<open>ts\<close> is the value of \<open>OS_TS_GET()\<close>. The results are the
  returned value, the time stamp written to \<open>*p_ts\<close> and the error written to \<open>*p_err\<close>.
\<close>

definition OS_SemDbgListAdd :: "ptr \<Rightarrow> kernel \<Rightarrow> kernel option" where
  "OS_SemDbgListAdd = dbg_list_add OSSemDbgListPtr (\<lambda>p s. s\<lparr>OSSemDbgListPtr := p\<rparr>)"

definition OS_SemDbgListRemove :: "ptr \<Rightarrow> kernel \<Rightarrow> kernel option" where
  "OS_SemDbgListRemove = dbg_list_remove (\<lambda>p s. s\<lparr>OSSemDbgListPtr := p\<rparr>)"

definition OS_SemClr :: "ptr \<Rightarrow> kernel \<Rightarrow> kernel option" where
  "OS_SemClr p_sem s = do {
     s \<leftarrow> set_obj p_sem (\<lambda>b. b\<lparr>Type := OS_OBJ_TYPE_NONE\<rparr>) s;
     s \<leftarrow> set_sem p_sem (\<lambda>m. m\<lparr>Ctr := 0\<rparr>) s;
     s \<leftarrow> set_sem p_sem (\<lambda>m. m\<lparr>Sem_TS := 0\<rparr>) s;
     s \<leftarrow> set_obj p_sem (\<lambda>b. b\<lparr>Obj_NamePtr := ''?SEM''\<rparr>) s;
     OS_PendListInit p_sem s
   }"

definition OSSemCreate :: "ptr \<Rightarrow> string \<Rightarrow> u32 \<Rightarrow> kernel \<Rightarrow> (OS_ERR \<times> kernel) option" where
  "OSSemCreate p_sem p_name cnt s =
     (if OSIntNestingCtr s > 0 then Some (OS_ERR_CREATE_ISR, s)
      else if p_sem = None then Some (OS_ERR_OBJ_PTR_NULL, s)
      else do {
        b \<leftarrow> obj s p_sem;
        if Type b = OS_OBJ_TYPE_SEM then Some (OS_ERR_OBJ_CREATED, s)
        else do {
          s \<leftarrow> set_obj p_sem (\<lambda>b. b\<lparr>Type := OS_OBJ_TYPE_SEM\<rparr>) s;
          s \<leftarrow> set_sem p_sem (\<lambda>m. m\<lparr>Ctr := cnt\<rparr>) s;
          s \<leftarrow> set_sem p_sem (\<lambda>m. m\<lparr>Sem_TS := 0\<rparr>) s;
          s \<leftarrow> set_obj p_sem (\<lambda>b. b\<lparr>Obj_NamePtr := p_name\<rparr>) s;
          s \<leftarrow> OS_PendListInit p_sem s;
          s \<leftarrow> OS_SemDbgListAdd p_sem s;
          let s = s\<lparr>OSSemQty := OSSemQty s + 1\<rparr>;
          Some (OS_ERR_NONE, s)
        }
      })"

definition OSSemDel :: "ptr \<Rightarrow> OS_OPT \<Rightarrow> u32 \<Rightarrow> kernel \<Rightarrow> (u16 \<times> OS_ERR \<times> kernel) option" where
  "OSSemDel p_sem opt ts s =
     (if OSIntNestingCtr s > 0 then Some (0, OS_ERR_DEL_ISR, s)
      else if OSRunning s \<noteq> OS_STATE_OS_RUNNING then Some (0, OS_ERR_OS_NOT_RUNNING, s)
      else if p_sem = None then Some (0, OS_ERR_OBJ_PTR_NULL, s)
      else do {
        b \<leftarrow> obj s p_sem;
        if Type b \<noteq> OS_OBJ_TYPE_SEM then Some (0, OS_ERR_OBJ_TYPE, s)
        else if opt = OS_OPT_DEL_NO_PEND then
          if PL_HeadPtr (PendList b) = None then do {
            s \<leftarrow> OS_SemDbgListRemove p_sem s;
            let s = s\<lparr>OSSemQty := OSSemQty s - 1\<rparr>;
            s \<leftarrow> OS_SemClr p_sem s;
            Some (0, OS_ERR_NONE, s)
          } else Some (0, OS_ERR_TASK_WAITING, s)
        else if opt = OS_OPT_DEL_ALWAYS then do {
          (nbr_tasks, s) \<leftarrow> del_loop p_sem ts 0 s;
          s \<leftarrow> OS_SemDbgListRemove p_sem s;
          let s = s\<lparr>OSSemQty := OSSemQty s - 1\<rparr>;
          s \<leftarrow> OS_SemClr p_sem s;
          s \<leftarrow> OSSched s;
          Some (nbr_tasks, OS_ERR_NONE, s)
        } else Some (0, OS_ERR_OPT_INVALID, s)
      })"

definition OSSemPend :: "ptr \<Rightarrow> u32 \<Rightarrow> OS_OPT \<Rightarrow> kernel \<Rightarrow>
    ((u32 \<times> u32 option \<times> OS_ERR) pend_outcome \<times> kernel) option" where
  "OSSemPend p_sem timeout opt s =
     (if OSIntNestingCtr s > 0 \<and> opt AND OS_OPT_PEND_NON_BLOCKING \<noteq> OS_OPT_PEND_NON_BLOCKING
      then Some (Done (0, None, OS_ERR_PEND_ISR), s)
      else if OSRunning s \<noteq> OS_STATE_OS_RUNNING then Some (Done (0, None, OS_ERR_OS_NOT_RUNNING), s)
      else if p_sem = None then Some (Done (0, None, OS_ERR_OBJ_PTR_NULL), s)
      else if opt \<notin> {OS_OPT_PEND_BLOCKING, OS_OPT_PEND_NON_BLOCKING}
      then Some (Done (0, None, OS_ERR_OPT_INVALID), s)
      else do {
        b \<leftarrow> obj s p_sem;
        if Type b \<noteq> OS_OBJ_TYPE_SEM then Some (Done (0, None, OS_ERR_OBJ_TYPE), s)
        else do {
          m \<leftarrow> sem s p_sem;
          if Ctr m > 0 then do {
            s \<leftarrow> set_sem p_sem (\<lambda>m. m\<lparr>Ctr := Ctr m - 1\<rparr>) s;
            m \<leftarrow> sem s p_sem;
            Some (Done (Ctr m, Some (Sem_TS m), OS_ERR_NONE), s)
          } else if opt AND OS_OPT_PEND_NON_BLOCKING \<noteq> 0
          then Some (Done (Ctr m, Some 0, OS_ERR_PEND_WOULD_BLOCK), s)
          else if OSSchedLockNestingCtr s > 0
          then Some (Done (0, Some 0, OS_ERR_SCHED_LOCKED), s)
          else do {
            s \<leftarrow> OS_Pend p_sem (OSTCBCurPtr s) OS_TASK_PEND_ON_SEM timeout s;
            s \<leftarrow> OSSched s;
            Some (Blocked, s)
          }
        }
      })"

definition OSSemPend_resume :: "ptr \<Rightarrow> kernel \<Rightarrow> (u32 \<times> u32 option \<times> OS_ERR) option" where
  "OSSemPend_resume p_sem s = do {
     t \<leftarrow> tcb s (OSTCBCurPtr s);
     m \<leftarrow> sem s p_sem;
     let p_ts = (if PendStatus t = OS_STATUS_PEND_TIMEOUT then 0 else Tcb_TS t);
     Some (Ctr m, Some p_ts, pend_err (PendStatus t))
   }"

definition OSSemPendAbort :: "ptr \<Rightarrow> OS_OPT \<Rightarrow> u32 \<Rightarrow> kernel \<Rightarrow> (u16 \<times> OS_ERR \<times> kernel) option" where
  "OSSemPendAbort p_sem opt ts s =
     (if OSIntNestingCtr s > 0 then Some (0, OS_ERR_PEND_ABORT_ISR, s)
      else if OSRunning s \<noteq> OS_STATE_OS_RUNNING then Some (0, OS_ERR_OS_NOT_RUNNING, s)
      else if p_sem = None then Some (0, OS_ERR_OBJ_PTR_NULL, s)
      else if opt \<notin> {OS_OPT_PEND_ABORT_1, OS_OPT_PEND_ABORT_ALL,
          OS_OPT_PEND_ABORT_1 OR OS_OPT_POST_NO_SCHED, OS_OPT_PEND_ABORT_ALL OR OS_OPT_POST_NO_SCHED}
      then Some (0, OS_ERR_OPT_INVALID, s)
      else do {
        b \<leftarrow> obj s p_sem;
        if Type b \<noteq> OS_OBJ_TYPE_SEM then Some (0, OS_ERR_OBJ_TYPE, s)
        else if PL_HeadPtr (PendList b) = None then Some (0, OS_ERR_PEND_ABORT_NONE, s)
        else do {
          (nbr_tasks, s) \<leftarrow> abort_loop p_sem opt ts 0 s;
          s \<leftarrow> (if opt AND OS_OPT_POST_NO_SCHED = 0 then OSSched s else Some s);
          Some (nbr_tasks, OS_ERR_NONE, s)
        }
      })"

definition OSSemPost :: "ptr \<Rightarrow> OS_OPT \<Rightarrow> u32 \<Rightarrow> kernel \<Rightarrow> (u32 \<times> OS_ERR \<times> kernel) option" where
  "OSSemPost p_sem opt ts s =
     (if OSRunning s \<noteq> OS_STATE_OS_RUNNING then Some (0, OS_ERR_OS_NOT_RUNNING, s)
      else if p_sem = None then Some (0, OS_ERR_OBJ_PTR_NULL, s)
      else if opt \<notin> {OS_OPT_POST_1, OS_OPT_POST_ALL, OS_OPT_POST_1 OR OS_OPT_POST_NO_SCHED,
          OS_OPT_POST_ALL OR OS_OPT_POST_NO_SCHED}
      then Some (0, OS_ERR_OPT_INVALID, s)
      else do {
        b \<leftarrow> obj s p_sem;
        if Type b \<noteq> OS_OBJ_TYPE_SEM then Some (0, OS_ERR_OBJ_TYPE, s)
        else if PL_HeadPtr (PendList b) = None then do {
          m \<leftarrow> sem s p_sem;
          if Ctr m = -1 then Some (0, OS_ERR_SEM_OVF, s)
          else do {
            s \<leftarrow> set_sem p_sem (\<lambda>m. m\<lparr>Ctr := Ctr m + 1\<rparr>) s;
            m \<leftarrow> sem s p_sem;
            let ctr = Ctr m;
            s \<leftarrow> set_sem p_sem (\<lambda>m. m\<lparr>Sem_TS := ts\<rparr>) s;
            Some (ctr, OS_ERR_NONE, s)
          }
        } else do {
          s \<leftarrow> post_loop p_sem (PL_HeadPtr (PendList b)) None 0 opt ts s;
          s \<leftarrow> (if opt AND OS_OPT_POST_NO_SCHED = 0 then OSSched s else Some s);
          Some (0, OS_ERR_NONE, s)
        }
      })"

definition OSSemSet :: "ptr \<Rightarrow> u32 \<Rightarrow> kernel \<Rightarrow> (OS_ERR \<times> kernel) option" where
  "OSSemSet p_sem cnt s =
     (if OSIntNestingCtr s > 0 then Some (OS_ERR_SET_ISR, s)
      else if p_sem = None then Some (OS_ERR_OBJ_PTR_NULL, s)
      else do {
        b \<leftarrow> obj s p_sem;
        if Type b \<noteq> OS_OBJ_TYPE_SEM then Some (OS_ERR_OBJ_TYPE, s)
        else do {
          m \<leftarrow> sem s p_sem;
          if Ctr m > 0 then do {
            s \<leftarrow> set_sem p_sem (\<lambda>m. m\<lparr>Ctr := cnt\<rparr>) s;
            Some (OS_ERR_NONE, s)
          } else if PL_HeadPtr (PendList b) = None then do {
            s \<leftarrow> set_sem p_sem (\<lambda>m. m\<lparr>Ctr := cnt\<rparr>) s;
            Some (OS_ERR_NONE, s)
          } else Some (OS_ERR_TASK_WAITING, s)
        }
      })"

section \<open>The debug list\<close>

interpretation sem_dbg: dbg_list OSSemDbgListPtr "\<lambda>p s. s\<lparr>OSSemDbgListPtr := p\<rparr>"
proof unfold_locales
  fix p :: ptr and s :: kernel and A R W T
  show "kinv (s\<lparr>OSSemDbgListPtr := p\<rparr>) A R W T \<longleftrightarrow> kinv s A R W T"
    by (rule kinv_cong; (rule rdy_rel_cong pend_lists_cong tick_lists_cong)?; simp)
qed (simp_all add: put_obj_def)

section \<open>The contract of a counting semaphore\<close>

text \<open>The abstract semaphore: the number of tokens and the waiting tasks. A post wakes the first
  waiting task or adds a token; a pend takes a token or queues the task (\<open>ins\<close> is the order of
  the queue).\<close>

fun sem_post :: "nat \<times> nat list \<Rightarrow> nat \<times> nat list" where
  "sem_post (n, []) = (Suc n, [])"
| "sem_post (n, a # ws) = (n, ws)"

fun sem_pend :: "(nat \<Rightarrow> nat list \<Rightarrow> nat list) \<Rightarrow> nat \<Rightarrow> nat \<times> nat list \<Rightarrow> nat \<times> nat list" where
  "sem_pend ins a (0, ws) = (0, ins a ws)"
| "sem_pend ins a (Suc n, ws) = (n, ws)"

definition sem_abs :: "kernel \<Rightarrow> (nat \<Rightarrow> nat list) \<Rightarrow> nat \<Rightarrow> nat \<times> nat list" where
  "sem_abs s W b = (unat (Ctr (OSSems s b)), W b)"

text \<open>No task waits while there is a token.\<close>

definition sem_inv :: "kernel \<Rightarrow> (nat \<Rightarrow> nat list) \<Rightarrow> nat \<Rightarrow> bool" where
  "sem_inv s W b \<longleftrightarrow> Type (OSObjs s b) = OS_OBJ_TYPE_SEM \<and> (Ctr (OSSems s b) > 0 \<longrightarrow> W b = [])"

lemma OSSemPost_token:
  assumes K: "kinv s A R W T" and I: "sem_inv s W b" and r: "OSRunning s = OS_STATE_OS_RUNNING"
    and o: "opt \<in> {OS_OPT_POST_1, OS_OPT_POST_ALL, OS_OPT_POST_1 OR OS_OPT_POST_NO_SCHED,
      OS_OPT_POST_ALL OR OS_OPT_POST_NO_SCHED}" and W: "W b = []"
  shows "OSSemPost (Some b) opt ts s = (if Ctr (OSSems s b) = -1 then Some (0, OS_ERR_SEM_OVF, s)
    else Some (Ctr (OSSems s b) + 1, OS_ERR_NONE,
      s\<lparr>OSSems := (OSSems s)(b := (OSSems s b)\<lparr>Ctr := Ctr (OSSems s b) + 1, Sem_TS := ts\<rparr>)\<rparr>))"
  using pend_head [OF K, of b] I r o W
  by (simp add: OSSemPost_def sem_inv_def set_sem_def Let_def)

lemma OSSemPost_wake:
  assumes K: "kinv s A R W T" and I: "sem_inv s W b" and r: "OSRunning s = OS_STATE_OS_RUNNING"
    and o: "opt \<in> {OS_OPT_POST_1, OS_OPT_POST_ALL, OS_OPT_POST_1 OR OS_OPT_POST_NO_SCHED,
      OS_OPT_POST_ALL OR OS_OPT_POST_NO_SCHED}" and W: "W b = a # E" and ne: "R q \<noteq> []"
  shows "\<exists>s1 s'. OSSemPost (Some b) opt ts s = Some (0, OS_ERR_NONE, s') \<and>
    released (posted_tcb None 0 ts) s s1 A R W T (if opt AND OS_OPT_POST_ALL = 0 then [a] else a # E) \<and>
    sched_unless opt s1 = Some s' \<and> switched s1 s'"
proof -
  have h: "PL_HeadPtr (PendList (OSObjs s b)) = Some a" using pend_head [OF K, of b] W by simp
  have "\<exists>s1. post_loop (Some b) (Some a) None 0 opt ts s = Some s1 \<and>
      released (posted_tcb None 0 ts) s s1 A R W T (if opt AND OS_OPT_POST_ALL = 0 then [a] else a # E)"
    using post_loop_one [OF K W] post_loop_all [OF K W] by (cases "opt AND OS_OPT_POST_ALL = 0") auto
  then obtain s1 where s1: "post_loop (Some b) (Some a) None 0 opt ts s = Some s1"
    "released (posted_tcb None 0 ts) s s1 A R W T (if opt AND OS_OPT_POST_ALL = 0 then [a] else a # E)"
    by blast
  from sched_unless_spec [OF s1(2) ne] obtain s' where s': "sched_unless opt s1 = Some s'" "switched s1 s'"
    by auto
  have "OSSemPost (Some b) opt ts s = Some (0, OS_ERR_NONE, s')"
    using I r o h s1(1) s'(1)
    by (simp add: OSSemPost_def sem_inv_def sched_unless_def [symmetric])
  with s1(2) s' show ?thesis by blast
qed

lemma OSSemPend_token:
  assumes I: "sem_inv s W b" and r: "OSRunning s = OS_STATE_OS_RUNNING"
    and o: "opt = OS_OPT_PEND_NON_BLOCKING \<or> opt = OS_OPT_PEND_BLOCKING \<and> OSIntNestingCtr s = 0"
    and c: "Ctr (OSSems s b) > 0"
  shows "OSSemPend (Some b) timeout opt s = Some (Done (Ctr (OSSems s b) - 1, Some (Sem_TS (OSSems s b)),
      OS_ERR_NONE), s\<lparr>OSSems := (OSSems s)(b := (OSSems s b)\<lparr>Ctr := Ctr (OSSems s b) - 1\<rparr>)\<rparr>)"
  using I r o c by (auto simp: OSSemPend_def sem_inv_def set_sem_def)

lemma OSSemPend_block:
  assumes K: "kinv s A R W T" and I: "sem_inv s W b" and c: "c \<in> A" and l: "task_level s c"
    and ne: "rdy_del s c R q \<noteq> []" and z: "Ctr (OSSems s b) = 0"
  shows "\<exists>s1 s' x T'. OSSemPend (Some b) timeout OS_OPT_PEND_BLOCKING s = Some (Blocked, s') \<and>
    becomes c (pended_tcb s (Some b) OS_TASK_PEND_ON_SEM timeout (OSTCBs s c)) s s1 A (rdy_del s c R)
      (W(b := pend_ins (prios s) c (W b))) T' \<and>
    (if timeout > 0 then tick_inserted s T c (unat timeout) (trem s1) T' else T' = T) \<and>
    switched s1 s' \<and> OSTCBCurPtr s' = Some x \<and> most_urgent s (rdy_del s c R) x \<and> x \<noteq> c \<and> running s' x"
proof -
  have po: "on_object OS_TASK_PEND_ON_SEM" by (simp add: on_object_def)
  from block_spec [OF K c l po ne, of b timeout] obtain s1 s' x T' where
    x: "OS_Pend (Some b) (OSTCBCurPtr s) OS_TASK_PEND_ON_SEM timeout s = Some s1" "OSSched s1 = Some s'"
    "becomes c (pended_tcb s (Some b) OS_TASK_PEND_ON_SEM timeout (OSTCBs s c)) s s1 A (rdy_del s c R)
      (W(b := pend_ins (prios s) c (W b))) T'"
    "if timeout > 0 then tick_inserted s T c (unat timeout) (trem s1) T' else T' = T"
    "switched s1 s'" "OSTCBCurPtr s' = Some x" "most_urgent s (rdy_del s c R) x" "x \<noteq> c" "running s' x"
    by blast
  have "OSSemPend (Some b) timeout OS_OPT_PEND_BLOCKING s = Some (Blocked, s')"
    using x(1,2) I l z by (simp add: OSSemPend_def sem_inv_def task_level_def)
  with x(3-) show ?thesis by blast
qed

lemma kinv_OSSemQty: "kinv (s\<lparr>OSSemQty := n\<rparr>) A R W T \<longleftrightarrow> kinv s A R W T"
  by (rule kinv_cong; (rule rdy_rel_cong pend_lists_cong tick_lists_cong)?; simp)

lemma OS_SemClr_spec:
  assumes K: "kinv s A R W T" and W: "W b = []"
  shows "\<exists>s'. OS_SemClr (Some b) s = Some s' \<and> kinv s' A R W T \<and>
    Type (OSObjs s' b) = OS_OBJ_TYPE_NONE \<and> OSTCBs s' = OSTCBs s \<and> Ctr (OSSems s' b) = 0"
proof -
  let ?s = "put_obj b (Obj_NamePtr_update (\<lambda>_. ''?SEM'')) ((put_obj b (Type_update (\<lambda>_. OS_OBJ_TYPE_NONE)) s)
    \<lparr>OSSems := (OSSems s)(b := (OSSems s b)\<lparr>Ctr := 0, Sem_TS := 0\<rparr>)\<rparr>)"
  have K': "kinv ?s A R W T" using K by (simp add: kinv_put_obj)
  obtain s' where s': "OS_PendListInit (Some b) ?s = Some s'" "kinv s' A R W T" "OSTCBs s' = OSTCBs ?s"
    "\<And>c. Type (OSObjs s' c) = Type (OSObjs ?s c)" "OSSems s' = OSSems ?s"
    by (rule OS_PendListInit_kinv [OF K' W]) (rule that)
  have "OS_SemClr (Some b) s = Some s'" using s'(1) by (simp add: OS_SemClr_def set_sem_def)
  with s' show ?thesis by simp
qed

end
