(* ===== verification/Os_Time.thy ===== *)
theory Os_Time
  imports Os_Core Os_Obj
begin

text \<open>
  Delays and the system tick (\<open>os_time.c\<close>), and the tick interrupt of the port (\<open>os_cpu_c.c\<close>). The
  hook of the application (\<open>OSTimeTickHook\<close>) is left out. The dynamic tick is off, so that the
  counter of ticks is \<open>OSTickCtr\<close>.
\<close>

section \<open>Delays\<close>

definition OSTimeDly :: "u32 \<Rightarrow> OS_OPT \<Rightarrow> kernel \<Rightarrow> (OS_ERR \<times> kernel) option" where
  "OSTimeDly dly opt s =
     (if OSIntNestingCtr s > 0 then Some (OS_ERR_TIME_DLY_ISR, s)
      else if OSRunning s \<noteq> OS_STATE_OS_RUNNING then Some (OS_ERR_OS_NOT_RUNNING, s)
      else if OSSchedLockNestingCtr s > 0 then Some (OS_ERR_SCHED_LOCKED, s)
      else if opt \<notin> {OS_OPT_TIME_DLY, OS_OPT_TIME_TIMEOUT, OS_OPT_TIME_PERIODIC, OS_OPT_TIME_MATCH}
      then Some (OS_ERR_OPT_INVALID, s)
      else do {
        (err, s) \<leftarrow> OS_TickListInsertDly (OSTCBCurPtr s) dly opt s;
        if err \<noteq> OS_ERR_NONE then Some (err, s)
        else do {
          s \<leftarrow> OS_RdyListRemove (OSTCBCurPtr s) s;
          s \<leftarrow> OSSched s;
          Some (err, s)
        }
      })"

text \<open>The ticks of a delay in hours, minutes, seconds and milliseconds, computed in 32 bits and
  rounded to the next tick.\<close>

definition hmsm_ticks :: "u16 \<Rightarrow> u16 \<Rightarrow> u16 \<Rightarrow> u32 \<Rightarrow> u32" where
  "hmsm_ticks hours minutes seconds milli =
     (let tick_rate = OSCfg_TickRate_Hz in
      ((ucast hours :: u32) * 3600 + (ucast minutes :: u32) * 60 + (ucast seconds :: u32)) * tick_rate
      + (tick_rate * (milli + 500 div tick_rate)) div 1000)"

definition OSTimeDlyHMSM :: "u16 \<Rightarrow> u16 \<Rightarrow> u16 \<Rightarrow> u32 \<Rightarrow> OS_OPT \<Rightarrow> kernel \<Rightarrow> (OS_ERR \<times> kernel) option" where
  "OSTimeDlyHMSM hours minutes seconds milli opt s =
     (if OSIntNestingCtr s > 0 then Some (OS_ERR_TIME_DLY_ISR, s)
      else if OSRunning s \<noteq> OS_STATE_OS_RUNNING then Some (OS_ERR_OS_NOT_RUNNING, s)
      else if OSSchedLockNestingCtr s > 0 then Some (OS_ERR_SCHED_LOCKED, s)
      else let opt_time = opt AND OS_OPT_TIME_MASK in
      if opt_time \<notin> {OS_OPT_TIME_DLY, OS_OPT_TIME_TIMEOUT, OS_OPT_TIME_PERIODIC, OS_OPT_TIME_MATCH}
      then Some (OS_ERR_OPT_INVALID, s)
      else if opt AND NOT OS_OPT_TIME_OPTS_MASK \<noteq> 0 then Some (OS_ERR_OPT_INVALID, s)
      else if opt AND OS_OPT_TIME_HMSM_NON_STRICT = 0 \<and> milli > 999
      then Some (OS_ERR_TIME_INVALID_MILLISECONDS, s)
      else if opt AND OS_OPT_TIME_HMSM_NON_STRICT = 0 \<and> seconds > 59
      then Some (OS_ERR_TIME_INVALID_SECONDS, s)
      else if opt AND OS_OPT_TIME_HMSM_NON_STRICT = 0 \<and> minutes > 59
      then Some (OS_ERR_TIME_INVALID_MINUTES, s)
      else if opt AND OS_OPT_TIME_HMSM_NON_STRICT = 0 \<and> hours > 99
      then Some (OS_ERR_TIME_INVALID_HOURS, s)
      else if opt AND OS_OPT_TIME_HMSM_NON_STRICT \<noteq> 0 \<and> minutes > 9999
      then Some (OS_ERR_TIME_INVALID_MINUTES, s)
      else if opt AND OS_OPT_TIME_HMSM_NON_STRICT \<noteq> 0 \<and> hours > 999
      then Some (OS_ERR_TIME_INVALID_HOURS, s)
      else do {
        (err, s) \<leftarrow> OS_TickListInsertDly (OSTCBCurPtr s) (hmsm_ticks hours minutes seconds milli) opt_time s;
        if err \<noteq> OS_ERR_NONE then Some (err, s)
        else do {
          s \<leftarrow> OS_RdyListRemove (OSTCBCurPtr s) s;
          s \<leftarrow> OSSched s;
          Some (err, s)
        }
      })"

definition OSTimeDlyResume :: "ptr \<Rightarrow> kernel \<Rightarrow> (OS_ERR \<times> kernel) option" where
  "OSTimeDlyResume p_tcb s =
     (if OSIntNestingCtr s > 0 then Some (OS_ERR_TIME_DLY_RESUME_ISR, s)
      else if p_tcb = None then Some (OS_ERR_TCB_INVALID, s)
      else if OSRunning s \<noteq> OS_STATE_OS_RUNNING then Some (OS_ERR_OS_NOT_RUNNING, s)
      else do {
        t \<leftarrow> tcb s p_tcb;
        (err, s) \<leftarrow>
          (case TaskState t of
             OS_TASK_STATE_DLY \<Rightarrow> do {
               s \<leftarrow> set_tcb p_tcb (\<lambda>t. t\<lparr>TaskState := OS_TASK_STATE_RDY\<rparr>) s;
               s \<leftarrow> OS_TickListRemove p_tcb s;
               s \<leftarrow> OS_RdyListInsert p_tcb s;
               Some (OS_ERR_NONE, s)
             }
           | OS_TASK_STATE_DLY_SUSPENDED \<Rightarrow> do {
               s \<leftarrow> set_tcb p_tcb (\<lambda>t. t\<lparr>TaskState := OS_TASK_STATE_SUSPENDED\<rparr>) s;
               s \<leftarrow> OS_TickListRemove p_tcb s;
               Some (OS_ERR_TASK_SUSPENDED, s)
             }
           | OS_TASK_STATE_DEL \<Rightarrow> Some (OS_ERR_STATE_INVALID, s)
           | _ \<Rightarrow> Some (OS_ERR_TASK_NOT_DLY, s));
        s \<leftarrow> OSSched s;
        Some (err, s)
      })"

definition OSTimeGet :: "kernel \<Rightarrow> u32 \<times> OS_ERR" where
  "OSTimeGet s = (OSTickCtr s, OS_ERR_NONE)"

definition OSTimeSet :: "u32 \<Rightarrow> kernel \<Rightarrow> OS_ERR \<times> kernel" where
  "OSTimeSet ticks s = (OS_ERR_NONE, s\<lparr>OSTickCtr := ticks\<rparr>)"

section \<open>The tick interrupt\<close>

definition OSTimeTick :: "(nat \<Rightarrow> u32) \<Rightarrow> kernel \<Rightarrow> kernel option" where
  "OSTimeTick ts s =
     (if OSRunning s \<noteq> OS_STATE_OS_RUNNING then Some s
      else do {
        s \<leftarrow> OS_SchedRoundRobin (OSPrioCur s) s;
        OS_TickUpdate 1 ts s
      })"

definition OS_CPU_SysTickHandler :: "(nat \<Rightarrow> u32) \<Rightarrow> kernel \<Rightarrow> kernel option" where
  "OS_CPU_SysTickHandler ts s = do {
     let s = OSIntEnter s;
     s \<leftarrow> OSTimeTick ts s;
     OSIntExit s
   }"

text \<open>A sequence of tick interrupts, with the time stamps of each.\<close>

primrec sys_ticks :: "(nat \<Rightarrow> u32) list \<Rightarrow> kernel \<Rightarrow> kernel option" where
  "sys_ticks [] s = Some s"
| "sys_ticks (ts # tss) s = do { s \<leftarrow> OS_CPU_SysTickHandler ts s; sys_ticks tss s }"

end
