(* ===== verification/Time_Props.thy ===== *)
theory Time_Props
  imports Os_Time Demo_System
begin

text \<open>
  The properties of the delays and of the tick interrupt: when a delayed task runs again, and what
  the arguments of \<open>OSTimeDlyHMSM\<close> amount to.
\<close>

section \<open>The wait of a delayed task\<close>

definition dly_from :: "OS_OPT \<Rightarrow> u32 \<Rightarrow> kernel \<Rightarrow> nat \<Rightarrow> u32" where
  "dly_from opt dly s a =
     (if opt = OS_OPT_TIME_MATCH then 0
      else if opt = OS_OPT_TIME_PERIODIC then periodic_base (OSTickCtr s) (TickCtrPrev (OSTCBs s a)) dly
      else OSTickCtr s)"

definition dly_wait :: "OS_OPT \<Rightarrow> u32 \<Rightarrow> kernel \<Rightarrow> nat \<Rightarrow> u32" where
  "dly_wait opt dly s a = dly + dly_from opt dly s a - OSTickCtr s"

definition dlyed_tcb :: "OS_OPT \<Rightarrow> u32 \<Rightarrow> kernel \<Rightarrow> nat \<Rightarrow> OS_TCB \<Rightarrow> OS_TCB" where
  "dlyed_tcb opt dly s a t =
     (if opt = OS_OPT_TIME_PERIODIC then t\<lparr>TickCtrPrev := dly_from opt dly s a + dly\<rparr> else t)
       \<lparr>TaskState := OS_TASK_STATE_DLY\<rparr>"

lemma dly_wait_relative: "opt \<in> {OS_OPT_TIME_DLY, OS_OPT_TIME_TIMEOUT} \<Longrightarrow> dly_wait opt dly s a = dly"
  by (auto simp: dly_wait_def dly_from_def opts)

lemma InsertDly_eq:
  assumes "opt = OS_OPT_TIME_PERIODIC \<Longrightarrow> dly \<noteq> 0"
  shows "OS_TickListInsertDly (Some a) dly opt s =
    (case OS_TickListInsert (Some a) 0 (dly_from opt dly s a) dly
        (if opt = OS_OPT_TIME_PERIODIC then put a (TickCtrPrev_update (\<lambda>_. dly_from opt dly s a + dly)) s else s) of
       None \<Rightarrow> None
     | Some (v, s2) \<Rightarrow> if v then Some (OS_ERR_NONE, put a (TaskState_update (\<lambda>_. OS_TASK_STATE_DLY)) s2)
         else Some (OS_ERR_TIME_ZERO_DLY, s2))"
proof (cases "opt = OS_OPT_TIME_PERIODIC")
  case True
  have "OS_OPT_TIME_PERIODIC \<noteq> OS_OPT_TIME_MATCH" by (simp add: opts)
  then show ?thesis
    unfolding True using assms [OF True]
    by (simp add: InsertDly_periodic Let_def dly_from_def set_TickCtrPrev_def set_TaskState_def put_def
        split: option.splits)
next
  case False
  then show ?thesis
    by (auto simp: InsertDly_other dly_from_def set_TaskState_def put_def split: option.splits)
qed

lemma dly_stage:
  assumes K: "kinv s A R W T" and a: "a \<in> A" and st: "TaskState (OSTCBs s a) = OS_TASK_STATE_RDY"
    and p: "opt = OS_OPT_TIME_PERIODIC \<Longrightarrow> dly \<noteq> 0" and d: "dly_wait opt dly s a \<noteq> 0"
  shows "\<exists>s1 s2 T'. OS_TickListInsertDly (Some a) dly opt s = Some (OS_ERR_NONE, s1) \<and>
    OSTCBCurPtr s1 = OSTCBCurPtr s \<and> OS_RdyListRemove (Some a) s1 = Some s2 \<and>
    becomes a (dlyed_tcb opt dly s a (OSTCBs s a)) s s2 A (rdy_del s a R) W T' \<and>
    tick_inserted s T a (unat (dly_wait opt dly s a)) (trem s2) T'"
proof -
  let ?t = "OSTCBs s a" and ?q = "Prio (OSTCBs s a)"
  let ?f = "\<lambda>u :: OS_TCB. if opt = OS_OPT_TIME_PERIODIC then u\<lparr>TickCtrPrev := dly_from opt dly s a + dly\<rparr> else u"
  let ?s = "if opt = OS_OPT_TIME_PERIODIC then put a (TickCtrPrev_update (\<lambda>_. dly_from opt dly s a + dly)) s else s"
  note ok = task_okD [OF K a]
  have nT: "a \<notin> set T" and aR: "a \<in> set (R ?q)" using ok st by (auto simp: timed_def)
  have S0: "stage a s (?f ?t) ?s R W T (trem s)"
    using stage_init [OF K, of a] stage_put [OF stage_init [OF K, of a] plain_updates(8)] by simp
  from stage_tick_ins [OF S0 nT dly_wait_def d] obtain s1 r' T' where
    s1: "OS_TickListInsert (Some a) 0 (dly_from opt dly s a) dly ?s = Some (True, s1)"
    "stage a s (?f ?t) s1 R W T' r'" "tick_inserted ?s T a (unat (dly_wait opt dly s a)) r' T'"
    "set T' = insert a (set T)" .
  note S1 = stage_put [OF s1(2) plain_updates(4) [of OS_TASK_STATE_DLY]]
  from stage_rdy_rem [OF S1 aR] obtain s2 where
    s2: "OS_RdyListRemove (Some a) (put a (TaskState_update (\<lambda>_. OS_TASK_STATE_DLY)) s1) = Some s2"
    "stage a s ((?f ?t)\<lparr>TaskState := OS_TASK_STATE_DLY\<rparr>) s2 (R(?q := remove1 a (R ?q))) W T' r'" .
  have del: "R(?q := remove1 a (R ?q)) = rdy_del s a R" by (simp add: rdy_del_def Let_def)
  have "becomes a ((?f ?t)\<lparr>TaskState := OS_TASK_STATE_DLY\<rparr>) s s2 A (R(?q := remove1 a (R ?q))) W T'"
    by (rule stage_becomes [OF K a s2(2)])
      (use st ok kinvD(3) [OF K] kinv_distinct(1) [OF K] s1(4) in
        \<open>auto simp: set_remove1_minus timed_def pending_def\<close>)
  moreover have "trem ?s = trem s" using stageD(6) [OF S0] .
  then have "tick_inserted s T a (unat (dly_wait opt dly s a)) (trem s2) T'"
    using s1(3) stageD(6) [OF s2(2)] by (simp add: tick_inserted_def)
  moreover have "OS_TickListInsertDly (Some a) dly opt s =
      Some (OS_ERR_NONE, put a (TaskState_update (\<lambda>_. OS_TASK_STATE_DLY)) s1)"
    using s1(1) by (simp add: InsertDly_eq [OF p])
  moreover note moved_sel(8) [OF stageD(1) [OF S1]]
  ultimately show ?thesis using s2(1) unfolding dlyed_tcb_def del by blast
qed

text \<open>A delay of zero ticks changes nothing but the unused tick count of the running task.\<close>

lemma dly_zero:
  assumes "dly_wait opt dly s a = 0" and "opt \<noteq> OS_OPT_TIME_PERIODIC"
  shows "OS_TickListInsertDly (Some a) dly opt s =
    Some (OS_ERR_TIME_ZERO_DLY, upd_tick (tnxt s) (tprv s) ((trem s)(a := 0)) (OSTickList s) s)"
  using assms by (simp add: InsertDly_eq OS_TickListInsert_zero dly_wait_def)

lemma dly_zero_kinv:
  assumes K: "kinv s A R W T" and nT: "a \<notin> set T"
  shows "kinv (upd_tick (tnxt s) (tprv s) ((trem s)(a := 0)) (OSTickList s) s) A R W T"
  using K by (subst kinv_cong [where s = s]) (simp_all add: tick_lists_zero [OF nT])

section \<open>The tick interrupt keeps the invariant\<close>

text \<open>The round-robin scheduler changes links of the ready list and quantum counters only.\<close>

definition quanta_only :: "kernel \<Rightarrow> kernel \<Rightarrow> bool" where
  "quanta_only s s' \<longleftrightarrow> (\<exists>n p rl tbl q. s' = s\<lparr>OSTCBs := (\<lambda>a. (OSTCBs s a)\<lparr>NextPtr := n a, PrevPtr := p a,
     TimeQuantaCtr := q a\<rparr>), OSRdyList := rl, OSPrioTbl := tbl\<rparr>)"

lemma quanta_onlyI:
  "quanta_only s (s\<lparr>OSTCBs := (\<lambda>a. (OSTCBs s a)\<lparr>NextPtr := n a, PrevPtr := p a, TimeQuantaCtr := q a\<rparr>),
     OSRdyList := rl, OSPrioTbl := tbl\<rparr>)"
  unfolding quanta_only_def by blast

lemma quanta_only_refl: "quanta_only s s"
  using quanta_onlyI [where s = s and n = "\<lambda>a. NextPtr (OSTCBs s a)" and p = "\<lambda>a. PrevPtr (OSTCBs s a)"
    and q = "\<lambda>a. TimeQuantaCtr (OSTCBs s a)" and rl = "OSRdyList s" and tbl = "OSPrioTbl s"] by simp

lemma quanta_only_trans: "quanta_only s s1 \<Longrightarrow> quanta_only s1 s2 \<Longrightarrow> quanta_only s s2"
  unfolding quanta_only_def by fastforce

lemma quanta_only_put: "quanta_only s (put a (\<lambda>t. t\<lparr>TimeQuantaCtr := f t\<rparr>) s)"
  unfolding quanta_only_def put_def
  by (intro exI [of _ "\<lambda>a. NextPtr (OSTCBs s a)"] exI [of _ "\<lambda>a. PrevPtr (OSTCBs s a)"]
      exI [of _ "(\<lambda>a. TimeQuantaCtr (OSTCBs s a))(a := f (OSTCBs s a))"] exI [of _ "OSRdyList s"]
      exI [of _ "OSPrioTbl s"]) (auto simp: fun_eq_iff)

lemma quanta_only_upd_rdy: "quanta_only s (upd_rdy n p rl tbl s)"
  using quanta_onlyI [where s = s and n = n and p = p and q = "\<lambda>a. TimeQuantaCtr (OSTCBs s a)" and rl = rl and tbl = tbl]
  by (simp add: upd_rdy_def)

lemma quanta_only_sel:
  assumes "quanta_only s s'"
  shows "TaskState (OSTCBs s' a) = TaskState (OSTCBs s a)" "PendOn (OSTCBs s' a) = PendOn (OSTCBs s a)"
    "PendObjPtr (OSTCBs s' a) = PendObjPtr (OSTCBs s a)" "Prio (OSTCBs s' a) = Prio (OSTCBs s a)"
    "trem s' = trem s" "OSTickCtr s' = OSTickCtr s" "OSIntNestingCtr s' = OSIntNestingCtr s"
    "OSSchedLockNestingCtr s' = OSSchedLockNestingCtr s" "OSRunning s' = OSRunning s" "OSTCBCurPtr s' = OSTCBCurPtr s"
    "OSPrioCur s' = OSPrioCur s"
  using assms by (auto simp: quanta_only_def trem_def)

lemma quanta_only_kinv:
  assumes K: "kinv s A R W T" and q: "quanta_only s s'" and R: "rdy_rel s' R'"
    and sets: "\<And>p. set (R' p) = set (R p)"
  shows "kinv s' A R' W T"
proof -
  have "pend_lists s' W \<longleftrightarrow> pend_lists s W" using q by (intro pend_lists_cong) (auto simp: quanta_only_def)
  moreover have "tick_lists s' T \<longleftrightarrow> tick_lists s T" using q by (intro tick_lists_cong) (auto simp: quanta_only_def)
  moreover have "pend_sorted s' W \<longleftrightarrow> pend_sorted s W"
    by (rule pend_sorted_prios) (simp add: quanta_only_sel(4) [OF q])
  ultimately show ?thesis
    using K R by (simp add: kinv_def task_ok_def sets quanta_only_sel [OF q])
qed

lemma reload_put: "reload_quantum (Some y) s = Some (put y (\<lambda>t. t\<lparr>TimeQuantaCtr :=
    if TimeQuanta (OSTCBs s y) = 0 then OSSchedRoundRobinDfltTimeQuanta s else TimeQuanta t\<rparr>) s)"
  by (simp add: reload_quantum_def set_tcb_put)

lemma OS_SchedRoundRobin_kinv:
  assumes R: "rdy_rel s R" and q: "unat q < OS_CFG_PRIO_MAX"
  shows "\<exists>s' R'. OS_SchedRoundRobin q s = Some s' \<and> quanta_only s s' \<and> rdy_rel s' R' \<and> (\<forall>p. set (R' p) = set (R p))"
proof (cases "R q")
  case Nil
  then have "OS_SchedRoundRobin q s = Some s"
    using rdy_rel_head [OF R q] q by (simp add: OS_SchedRoundRobin_def rdy_list_Some)
  then show ?thesis using R quanta_only_refl by blast
next
  case (Cons x xs)
  have h: "RL_HeadPtr (OSRdyList s q) = Some x" using rdy_rel_head [OF R q] Cons by simp
  let ?s = "put x (\<lambda>t. t\<lparr>TimeQuantaCtr := quantum_left t\<rparr>) s"
  have R': "rdy_rel ?s R" using R by (simp add: rdy_rel_put)
  have s: "(if TimeQuantaCtr (OSTCBs s x) > 0
      then set_tcb (Some x) (\<lambda>t. t\<lparr>TimeQuantaCtr := TimeQuantaCtr t - 1\<rparr>) s else Some s) = Some ?s"
    by (auto simp: set_tcb_put put_def quantum_left_def fun_upd_idem)
  note qs = quanta_only_put [of s x quantum_left]
  consider "\<not> OSSchedRoundRobinEn s \<or> x = OSIdleTaskTCB"
    | "OSSchedRoundRobinEn s" "x \<noteq> OSIdleTaskTCB" "quantum_left (OSTCBs s x) > 0 \<or>
        RL_HeadPtr (OSRdyList s q) = RL_TailPtr (OSRdyList s q) \<or> OSSchedLockNestingCtr s > 0"
    | "OSSchedRoundRobinEn s" "x \<noteq> OSIdleTaskTCB" "\<not> (quantum_left (OSTCBs s x) > 0 \<or>
        RL_HeadPtr (OSRdyList s q) = RL_TailPtr (OSRdyList s q) \<or> OSSchedLockNestingCtr s > 0)" by blast
  then show ?thesis
  proof cases
    case 1
    then have "OS_SchedRoundRobin q s = Some s" using h q by (auto simp: OS_SchedRoundRobin_def rdy_list_Some)
    then show ?thesis using R quanta_only_refl by blast
  next
    case 2
    then have "OS_SchedRoundRobin q s = Some ?s"
      using s h by (auto simp: OS_SchedRoundRobin_def rdy_list_Some q)
    then show ?thesis using R' qs by blast
  next
    case 3
    from OS_RdyListMoveHeadToTail_rel [OF R' q] Cons
    obtain n p rl tbl where m: "OS_RdyListMoveHeadToTail q ?s = Some (upd_rdy n p rl tbl ?s)"
        "rdy_rel (upd_rdy n p rl tbl ?s) (R(q := xs @ [x]))"
      by (auto elim: rdy_okE)
    let ?s2 = "upd_rdy n p rl tbl ?s"
    obtain y where h2: "RL_HeadPtr (rl q) = Some y" using rdy_rel_head [OF m(2) q] by (cases xs) simp_all
    have run: "OS_SchedRoundRobin q s = reload_quantum (Some y) ?s2"
      using s h 3 m(1) h2 by (simp add: OS_SchedRoundRobin_def rdy_list_Some q)
    obtain f where f: "reload_quantum (Some y) ?s2 = Some (put y (\<lambda>t. t\<lparr>TimeQuantaCtr := f t\<rparr>) ?s2)"
      by (rule that, rule reload_put)
    have "rdy_rel (put y (\<lambda>t. t\<lparr>TimeQuantaCtr := f t\<rparr>) ?s2) (R(q := xs @ [x]))" using m(2) by (simp add: rdy_rel_put)
    moreover have "quanta_only s (put y (\<lambda>t. t\<lparr>TimeQuantaCtr := f t\<rparr>) ?s2)"
      using quanta_only_trans [OF qs quanta_only_trans [OF quanta_only_upd_rdy quanta_only_put]] .
    moreover have "\<forall>p. set ((R(q := xs @ [x])) p) = set (R p)" using Cons by simp
    ultimately show ?thesis by - (intro exI conjI, rule trans [OF run f], assumption+)
  qed
qed

text \<open>The state in which a task is interrupted; no task waits for a mutex with a time-out.\<close>

definition tick_ready :: "kernel \<Rightarrow> nat set \<Rightarrow> (u8 \<Rightarrow> nat list) \<Rightarrow> (nat \<Rightarrow> nat list) \<Rightarrow> nat list \<Rightarrow> bool" where
  "tick_ready s A R W T \<longleftrightarrow> kinv s A R W T \<and> OSRunning s = OS_STATE_OS_RUNNING \<and> OSIntNestingCtr s = 0 \<and>
     (\<exists>c\<in>A. running s c) \<and> (\<exists>q. R q \<noteq> []) \<and> (\<forall>c\<in>set T. PendOn (OSTCBs s c) \<noteq> OS_TASK_PEND_ON_MUTEX)"

lemma fold_exp_rdy_nonempty: "R q \<noteq> [] \<Longrightarrow> fold (exp_rdy s) E R q \<noteq> []"
  by (induction E arbitrary: R) (auto simp: exp_rdy_def rdy_ins_def Let_def)

lemma set_fold_without: "set (fold without E W b) \<subseteq> set (W b)"
proof (induction E arbitrary: W)
  case (Cons a E)
  have "set (without a W b) \<subseteq> set (W b)" by (simp add: without_def set_remove1_subset)
  with Cons [of "without a W"] show ?case by auto
qed simp

lemma due_unit:
  assumes "kinv s A R W T" and "c \<in> set T" and "\<not> 1 < due (trem s) T c"
  shows "due (trem s) T c \<le> 1" using assms by simp

lemma OSIntExit_spec:
  assumes K: "kinv s A R W T" and ne: "R q \<noteq> []" and r: "OSRunning s = OS_STATE_OS_RUNNING" "OSIntNestingCtr s = 1"
    and run: "running s c" "c \<in> A"
  shows "\<exists>s' x. OSIntExit s = Some s' \<and> switched (s\<lparr>OSIntNestingCtr := 0\<rparr>) s' \<and> running s' x \<and> x \<in> A \<and>
    (OSSchedLockNestingCtr s = 0 \<longrightarrow> most_urgent s' R x)"
proof (cases "OSSchedLockNestingCtr s > 0")
  case True
  then show ?thesis using r run
    by (intro exI [of _ "s\<lparr>OSIntNestingCtr := 0\<rparr>"] exI [of _ c]) (auto simp: OSIntExit_def running_def)
next
  case False
  let ?s = "s\<lparr>OSIntNestingCtr := 0\<rparr>"
  have K': "kinv ?s A R W T" using K by simp
  from sched_switch_spec [OF K' ne] obtain s' x where x: "sched_switch ?s = Some s'" "switched ?s s'"
    "most_urgent ?s R x" "OSTCBCurPtr ?s \<noteq> Some x \<or> running ?s x \<longrightarrow> running s' x" by blast
  have "x \<in> A" using x(3) kinvD(6) [OF K', of "Prio (OSTCBs ?s x)"] by (auto simp: most_urgent_def)
  moreover have "running ?s c" using run by (simp add: running_def)
  then have "OSTCBCurPtr ?s \<noteq> Some x \<or> running ?s x" by (auto simp: running_def)
  moreover have "OSIntExit s = sched_switch ?s" using r False by (simp add: OSIntExit_def Let_def)
  moreover have "most_urgent s' R x" using x(3) switched_sel(14) [OF x(2)] by (simp add: most_urgent_def)
  ultimately show ?thesis using x(1,2,4) by (intro exI [of _ s'] exI [of _ x]) simp
qed

text \<open>An expired wait is over; everything else that the objects depend on is left alone.\<close>

definition waits_over :: "nat set \<Rightarrow> kernel \<Rightarrow> kernel \<Rightarrow> bool" where
  "waits_over E s s' \<longleftrightarrow> OSMutexes s' = OSMutexes s \<and> OSQs s' = OSQs s \<and> OSMsgs s' = OSMsgs s \<and>
     OSMsgPool s' = OSMsgPool s \<and> OSFlagGrps s' = OSFlagGrps s \<and>
     (\<forall>c. FlagsPend (OSTCBs s' c) = FlagsPend (OSTCBs s c) \<and> FlagsOpt (OSTCBs s' c) = FlagsOpt (OSTCBs s c) \<and>
       Prio (OSTCBs s' c) = Prio (OSTCBs s c) \<and> BasePrio (OSTCBs s' c) = BasePrio (OSTCBs s c) \<and>
       MutexGrpHeadPtr (OSTCBs s' c) = MutexGrpHeadPtr (OSTCBs s c) \<and>
       (PendOn (OSTCBs s' c) = PendOn (OSTCBs s c) \<and> PendObjPtr (OSTCBs s' c) = PendObjPtr (OSTCBs s c) \<or>
        c \<in> E \<and> PendOn (OSTCBs s' c) = OS_TASK_PEND_ON_NOTHING \<and> PendObjPtr (OSTCBs s' c) = None))"

definition wake :: "task_state \<Rightarrow> task_state" where
  "wake st = (if st \<in> {OS_TASK_STATE_DLY, OS_TASK_STATE_PEND_TIMEOUT} then OS_TASK_STATE_RDY else OS_TASK_STATE_SUSPENDED)"

lemma SysTick_round:
  assumes I: "tick_ready s A R W T"
  shows "\<exists>s' R' W'. OS_CPU_SysTickHandler ts s = Some s' \<and>
    tick_ready s' A R' W' (filter (\<lambda>c. 1 < due (trem s) T c) T) \<and>
    (\<forall>c\<in>set T. 1 < due (trem s) T c \<longrightarrow> due (trem s') (filter (\<lambda>c. 1 < due (trem s) T c) T) c = due (trem s) T c - 1) \<and>
    (\<forall>c. TaskState (OSTCBs s' c) =
      (if c \<in> set T \<and> due (trem s) T c \<le> 1 then wake (TaskState (OSTCBs s c)) else TaskState (OSTCBs s c))) \<and>
    OSSems s' = OSSems s \<and> (\<forall>b. Type (OSObjs s' b) = Type (OSObjs s b)) \<and>
    OSSchedLockNestingCtr s' = OSSchedLockNestingCtr s \<and> (\<forall>b. set (W' b) \<subseteq> set (W b)) \<and>
    (OSSchedLockNestingCtr s = 0 \<longrightarrow> (\<exists>x. running s' x \<and> most_urgent s' R' x)) \<and> waits_over (set T) s s' \<and>
    (\<forall>c. PendStatus (OSTCBs s' c) =
      (if c \<in> set T \<and> due (trem s) T c \<le> 1 \<and> TaskState (OSTCBs s c) \<notin> {OS_TASK_STATE_DLY, OS_TASK_STATE_DLY_SUSPENDED}
        then OS_STATUS_PEND_TIMEOUT else PendStatus (OSTCBs s c)))"
proof -
  let ?s0 = "s\<lparr>OSIntNestingCtr := 1\<rparr>"
  let ?E = "filter (\<lambda>c. due (trem s) T c \<le> 1) T" and ?T = "filter (\<lambda>c. 1 < due (trem s) T c) T"
  have K: "kinv s A R W T" and r: "OSRunning s = OS_STATE_OS_RUNNING" "OSIntNestingCtr s = 0"
    and mx: "\<forall>c\<in>set T. PendOn (OSTCBs s c) \<noteq> OS_TASK_PEND_ON_MUTEX" using I by (auto simp: tick_ready_def)
  from I obtain c q where c: "running s c" "c \<in> A" and q: "R q \<noteq> []" by (auto simp: tick_ready_def)
  have K0: "kinv ?s0 A R W T" using K by simp
  have pc: "unat (OSPrioCur ?s0) < OS_CFG_PRIO_MAX" using c kinvD(5) [OF K c(2)] by (simp add: running_def task_ok_def)
  from OS_SchedRoundRobin_kinv [OF kinvD(1) [OF K0] pc] obtain s1 R1 where s1:
    "OS_SchedRoundRobin (OSPrioCur ?s0) ?s0 = Some s1" "quanta_only ?s0 s1" "rdy_rel s1 R1" "\<forall>p. set (R1 p) = set (R p)"
    by blast
  have K1: "kinv s1 A R1 W T" by (rule quanta_only_kinv [OF K0 s1(2,3)]) (use s1(4) in blast)
  note q1 = quanta_only_sel [OF s1(2)]
  have ne1: "R1 q \<noteq> []" using s1(4) q by (metis set_empty)
  let ?s1 = "s1\<lparr>OSTickCtr := OSTickCtr s1 + 1\<rparr>"
  have K1': "kinv ?s1 A R1 W T" using K1 by simp
  have tr: "trem ?s1 = trem s" using q1(5) by (simp add: trem_def)
  have qu: "quiet ?s1 x" if "x \<in> set T" for x using mx that q1(2) by (simp add: quiet_def)
  from OS_TickListUpdate_spec [where ticks = 1 and ts = ts, OF K1' qu] obtain s2 where s2:
    "OS_TickListUpdate 1 ts ?s1 = Some s2"
    "ticked ?s1 s2 A R1 W ?E ?T (\<lambda>c. due (trem s) T c - 1) ts" unfolding tr by auto
  note Tk = s2(2) [unfolded ticked_def]
  have K2: "kinv s2 A (fold (exp_rdy ?s1) ?E R1) (fold without ?E W) ?T" using Tk by blast
  have m: "moved_set (set ?E) ?s1 s2" using Tk by blast
  note m2 = moved_set_sel [OF m]
  have r2: "OSRunning s2 = OS_STATE_OS_RUNNING" "OSIntNestingCtr s2 = 1"
    using m r q1 by (auto simp: moved_set_def)
  have qs: "PendStatus (OSTCBs s1 x) = PendStatus (OSTCBs s x)" for x using s1(2) by (auto simp: quanta_only_def)
  have core_s: "TaskState (OSTCBs s2 x) = (if x \<in> set ?E then wake (TaskState (OSTCBs s x)) else TaskState (OSTCBs s x))"
    "Prio (OSTCBs s2 x) = Prio (OSTCBs s x)" "x \<notin> set ?E \<Longrightarrow> PendOn (OSTCBs s2 x) = PendOn (OSTCBs s x)" for x
  proof -
    have "TaskState (OSTCBs s2 x) = wake (TaskState (OSTCBs s x)) \<and> Prio (OSTCBs s2 x) = Prio (OSTCBs s x)" if "x \<in> set ?E"
    proof -
      from that obtain i where "i < length ?E" "?E ! i = x" unfolding in_set_conv_nth by blast
      then have "core (OSTCBs s2 x) = core (expired_tcb (ts i) (OSTCBs ?s1 x))" using Tk by metis
      from core_eqI(1,4) [OF this] show ?thesis using q1 by (simp add: expired_tcb_def wake_def)
    qed
    moreover have "TaskState (OSTCBs s2 x) = TaskState (OSTCBs s x) \<and> Prio (OSTCBs s2 x) = Prio (OSTCBs s x) \<and>
        PendOn (OSTCBs s2 x) = PendOn (OSTCBs s x)" if "x \<notin> set ?E"
      using core_eqI(1,2,4) [OF m2(7) [OF that]] q1 by simp
    ultimately show "TaskState (OSTCBs s2 x) = (if x \<in> set ?E then wake (TaskState (OSTCBs s x)) else TaskState (OSTCBs s x))"
      "Prio (OSTCBs s2 x) = Prio (OSTCBs s x)" "x \<notin> set ?E \<Longrightarrow> PendOn (OSTCBs s2 x) = PendOn (OSTCBs s x)" by (cases "x \<in> set ?E"; simp)+
  qed
  have core_p: "PendStatus (OSTCBs s2 x) =
      (if x \<in> set ?E \<and> TaskState (OSTCBs s x) \<notin> {OS_TASK_STATE_DLY, OS_TASK_STATE_DLY_SUSPENDED}
       then OS_STATUS_PEND_TIMEOUT else PendStatus (OSTCBs s x))" for x
  proof (cases "x \<in> set ?E")
    case True
    then obtain i where "i < length ?E" "?E ! i = x" unfolding in_set_conv_nth by blast
    then have "core (OSTCBs s2 x) = core (expired_tcb (ts i) (OSTCBs ?s1 x))" using Tk by metis
    from core_eqI(6) [OF this] have "PendStatus (OSTCBs s2 x) = PendStatus (expired_tcb (ts i) (OSTCBs s1 x))" by simp
    also have "\<dots> = (if TaskState (OSTCBs s x) \<notin> {OS_TASK_STATE_DLY, OS_TASK_STATE_DLY_SUSPENDED}
        then OS_STATUS_PEND_TIMEOUT else PendStatus (OSTCBs s x))"
      using q1 qs [of x] by (simp add: expired_tcb_def)
    finally show ?thesis by (simp only: True simp_thms)
  next
    case False
    then show ?thesis using core_eqI(6) [OF m2(7) [OF False]] qs [of x] by (simp only: simp_thms if_False) simp
  qed
  have run2: "running s2 c" using c(1) m2(2,6) q1 core_s(2) by (simp add: running_def)
  from OSIntExit_spec [OF K2 fold_exp_rdy_nonempty [of R1 q ?s1 ?E, OF ne1] r2 run2 c(2)] obtain s' x where
    s': "OSIntExit s2 = Some s'" "switched (s2\<lparr>OSIntNestingCtr := 0\<rparr>) s'" "running s' x" "x \<in> A"
    "OSSchedLockNestingCtr s2 = 0 \<longrightarrow> most_urgent s' (fold (exp_rdy ?s1) ?E R1) x" by blast
  note sw = switched_sel [OF s'(2)]
  have e: "OSIntEnter s = ?s0" using r by (simp add: OSIntEnter_def)
  have run: "OS_CPU_SysTickHandler ts s = Some s'"
    using s1(1) s2(1) s'(1) r by (simp add: OS_CPU_SysTickHandler_def e OSTimeTick_def OS_TickUpdate_def)
  have K': "kinv s' A (fold (exp_rdy ?s1) ?E R1) (fold without ?E W) ?T"
    using switched_kinv [OF s'(2)] K2 by simp
  have "PendOn (OSTCBs s' x) \<noteq> OS_TASK_PEND_ON_MUTEX" if "x \<in> set ?T" for x
    using switched_PendOn [OF s'(2), of x] core_s(3) [of x] mx that by simp
  then have "tick_ready s' A (fold (exp_rdy ?s1) ?E R1) (fold without ?E W) ?T"
    using K' r2 sw(9,10) s'(3,4) fold_exp_rdy_nonempty [of R1 q ?s1 ?E, OF ne1] unfolding tick_ready_def by auto
  moreover have "\<forall>c\<in>set T. 1 < due (trem s) T c \<longrightarrow> due (trem s') ?T c = due (trem s) T c - 1"
    using Tk switched_trem [OF s'(2)] by (auto simp: trem_def)
  moreover have "\<forall>c. TaskState (OSTCBs s' c) =
      (if c \<in> set T \<and> due (trem s) T c \<le> 1 then wake (TaskState (OSTCBs s c)) else TaskState (OSTCBs s c))"
    using core_s(1) sw(15) by simp
  moreover have "\<forall>c. PendStatus (OSTCBs s' c) =
      (if c \<in> set T \<and> due (trem s) T c \<le> 1 \<and> TaskState (OSTCBs s c) \<notin> {OS_TASK_STATE_DLY, OS_TASK_STATE_DLY_SUSPENDED}
      then OS_STATUS_PEND_TIMEOUT else PendStatus (OSTCBs s c))"
    by (simp add: sw(13) core_p)
  moreover have lk: "OSSchedLockNestingCtr s2 = OSSchedLockNestingCtr s" using m q1(8) by (auto simp: moved_set_def)
  moreover have "OSSems s' = OSSems s" using sw(1) m2(4) s1(2) by (auto simp: quanta_only_def)
  moreover have "\<forall>b. Type (OSObjs s' b) = Type (OSObjs s b)"
    using sw(6) moved_set_globals(7) [OF m] s1(2) by (auto simp: quanta_only_def)
  moreover have "\<forall>b. set (fold without ?E W b) \<subseteq> set (W b)" by (intro allI set_fold_without)
  moreover have "OSSchedLockNestingCtr s' = OSSchedLockNestingCtr s" using sw(11) lk by simp
  moreover have "waits_over (set T) s s'"
    unfolding waits_over_def
  proof (intro conjI allI)
    show "OSMutexes s' = OSMutexes s" "OSQs s' = OSQs s" "OSMsgs s' = OSMsgs s" "OSMsgPool s' = OSMsgPool s"
      "OSFlagGrps s' = OSFlagGrps s"
      using sw(2-5,8) m2(1,5) moved_set_globals(4-6) [OF m] s1(2) by (auto simp: quanta_only_def)
    fix x
    have q: "Prio (OSTCBs ?s1 x) = Prio (OSTCBs s x)" "BasePrio (OSTCBs ?s1 x) = BasePrio (OSTCBs s x)"
      "MutexGrpHeadPtr (OSTCBs ?s1 x) = MutexGrpHeadPtr (OSTCBs s x)" "PendOn (OSTCBs ?s1 x) = PendOn (OSTCBs s x)"
      "PendObjPtr (OSTCBs ?s1 x) = PendObjPtr (OSTCBs s x)" "FlagsPend (OSTCBs ?s1 x) = FlagsPend (OSTCBs s x)"
      "FlagsOpt (OSTCBs ?s1 x) = FlagsOpt (OSTCBs s x)"
      using s1(2) by (auto simp: quanta_only_def)
    obtain n where n: "OSTCBs s' x = (OSTCBs s2 x)\<lparr>CtxSwCtr := n\<rparr>" using sw(12) [of x] by auto
    have "x \<in> set ?E \<and> (\<exists>t. core (OSTCBs s2 x) = core (expired_tcb t (OSTCBs ?s1 x))) \<or> core (OSTCBs s2 x) = core (OSTCBs ?s1 x)"
    proof (cases "x \<in> set ?E")
      case True
      then obtain i where "i < length ?E" "?E ! i = x" unfolding in_set_conv_nth by blast
      then show ?thesis using Tk True by metis
    qed (use m2(7) in simp)
    then obtain u t where u: "core (OSTCBs s2 x) = core u" "u = OSTCBs ?s1 x \<or> x \<in> set T \<and> u = expired_tcb t (OSTCBs ?s1 x)"
      by auto
    note C = core_eqI(2-5,12,13,15) [OF u(1)]
    show "FlagsPend (OSTCBs s' x) = FlagsPend (OSTCBs s x)" "FlagsOpt (OSTCBs s' x) = FlagsOpt (OSTCBs s x)"
      "Prio (OSTCBs s' x) = Prio (OSTCBs s x)" "BasePrio (OSTCBs s' x) = BasePrio (OSTCBs s x)"
      "MutexGrpHeadPtr (OSTCBs s' x) = MutexGrpHeadPtr (OSTCBs s x)"
      using C u(2) q n by (auto simp: expired_tcb_def)
    show "PendOn (OSTCBs s' x) = PendOn (OSTCBs s x) \<and> PendObjPtr (OSTCBs s' x) = PendObjPtr (OSTCBs s x) \<or>
        x \<in> set T \<and> PendOn (OSTCBs s' x) = OS_TASK_PEND_ON_NOTHING \<and> PendObjPtr (OSTCBs s' x) = None"
      using C u(2) q n by (auto simp: expired_tcb_def)
  qed
  moreover have "OSSchedLockNestingCtr s = 0 \<longrightarrow> (\<exists>x. running s' x \<and> most_urgent s' (fold (exp_rdy ?s1) ?E R1) x)"
    using s'(3,5) lk by auto
  ultimately show ?thesis using run by blast
qed

lemma sys_ticks_spec:
  assumes "tick_ready s A R W T" and "c \<in> set T \<Longrightarrow> 0 < due (trem s) T c"
  shows "\<exists>s' R' W' T'. sys_ticks tss s = Some s' \<and> tick_ready s' A R' W' T' \<and>
    TaskState (OSTCBs s' c) = (if c \<in> set T \<and> due (trem s) T c \<le> length tss
      then wake (TaskState (OSTCBs s c)) else TaskState (OSTCBs s c)) \<and>
    OSSems s' = OSSems s \<and> PendStatus (OSTCBs s' c) = (if c \<in> set T \<and> due (trem s) T c \<le> length tss \<and>
        TaskState (OSTCBs s c) \<notin> {OS_TASK_STATE_DLY, OS_TASK_STATE_DLY_SUSPENDED}
      then OS_STATUS_PEND_TIMEOUT else PendStatus (OSTCBs s c))"
  using assms
proof (induction tss arbitrary: s R W T)
  case Nil
  then show ?case by auto
next
  case (Cons ts tss)
  let ?T = "filter (\<lambda>c. 1 < due (trem s) T c) T"
  from SysTick_round [OF Cons.prems(1), of ts] obtain s1 R1 W1 where
    s1: "OS_CPU_SysTickHandler ts s = Some s1" "tick_ready s1 A R1 W1 ?T"
    "\<forall>c\<in>set T. 1 < due (trem s) T c \<longrightarrow> due (trem s1) ?T c = due (trem s) T c - 1"
    "\<forall>c. TaskState (OSTCBs s1 c) =
      (if c \<in> set T \<and> due (trem s) T c \<le> 1 then wake (TaskState (OSTCBs s c)) else TaskState (OSTCBs s c))"
    "OSSems s1 = OSSems s" "\<forall>c. PendStatus (OSTCBs s1 c) =
      (if c \<in> set T \<and> due (trem s) T c \<le> 1 \<and> TaskState (OSTCBs s c) \<notin> {OS_TASK_STATE_DLY, OS_TASK_STATE_DLY_SUSPENDED}
      then OS_STATUS_PEND_TIMEOUT else PendStatus (OSTCBs s c))"
    by blast
  have "c \<in> set ?T \<Longrightarrow> 0 < due (trem s1) ?T c" using s1(3) by auto
  from Cons.IH [OF s1(2) this] obtain s' R' W' T' where
    s': "sys_ticks tss s1 = Some s'" "tick_ready s' A R' W' T'"
    "TaskState (OSTCBs s' c) = (if c \<in> set ?T \<and> due (trem s1) ?T c \<le> length tss
      then wake (TaskState (OSTCBs s1 c)) else TaskState (OSTCBs s1 c))" "OSSems s' = OSSems s1"
    "PendStatus (OSTCBs s' c) = (if c \<in> set ?T \<and> due (trem s1) ?T c \<le> length tss \<and>
        TaskState (OSTCBs s1 c) \<notin> {OS_TASK_STATE_DLY, OS_TASK_STATE_DLY_SUSPENDED}
      then OS_STATUS_PEND_TIMEOUT else PendStatus (OSTCBs s1 c))" by blast
  have "TaskState (OSTCBs s' c) = (if c \<in> set T \<and> due (trem s) T c \<le> length (ts # tss)
      then wake (TaskState (OSTCBs s c)) else TaskState (OSTCBs s c))"
    using s'(3) s1(3,4) Cons.prems(2) by (cases "c \<in> set T"; cases "1 < due (trem s) T c") auto
  moreover have "PendStatus (OSTCBs s' c) = (if c \<in> set T \<and> due (trem s) T c \<le> length (ts # tss) \<and>
        TaskState (OSTCBs s c) \<notin> {OS_TASK_STATE_DLY, OS_TASK_STATE_DLY_SUSPENDED}
      then OS_STATUS_PEND_TIMEOUT else PendStatus (OSTCBs s c))"
    using s'(5) s1(3,4,6) Cons.prems(2) by (cases "c \<in> set T"; cases "1 < due (trem s) T c") auto
  moreover have "OSSems s' = OSSems s" using s'(4) s1(5) by simp
  ultimately show ?case using s1(1) s'(1,2) by auto
qed

section \<open>Properties\<close>

lemma OSTimeDly_path:
  assumes K: "kinv s A R W T" and a: "a \<in> A" and l: "task_level s a" and ne: "rdy_del s a R q \<noteq> []"
    and o: "opt \<in> {OS_OPT_TIME_DLY, OS_OPT_TIME_TIMEOUT, OS_OPT_TIME_PERIODIC, OS_OPT_TIME_MATCH}"
    and p: "opt = OS_OPT_TIME_PERIODIC \<Longrightarrow> dly \<noteq> 0" and d: "dly_wait opt dly s a \<noteq> 0"
  shows "\<exists>s1 s2 x T'. becomes a (dlyed_tcb opt dly s a (OSTCBs s a)) s s1 A (rdy_del s a R) W T' \<and>
    tick_inserted s T a (unat (dly_wait opt dly s a)) (trem s1) T' \<and>
    OSTimeDly dly opt s = Some (OS_ERR_NONE, s2) \<and> switched s1 s2 \<and> running s2 x \<and> x \<in> A \<and> x \<noteq> a \<and>
    most_urgent s1 (rdy_del s a R) x"
proof -
  have st: "TaskState (OSTCBs s a) = OS_TASK_STATE_RDY" using l by (simp add: task_level_def)
  from dly_stage [OF K a st p d] obtain s0 s1 T' where s1: "OS_TickListInsertDly (Some a) dly opt s = Some (OS_ERR_NONE, s0)"
    "OSTCBCurPtr s0 = OSTCBCurPtr s" "OS_RdyListRemove (Some a) s0 = Some s1"
    "becomes a (dlyed_tcb opt dly s a (OSTCBs s a)) s s1 A (rdy_del s a R) W T'"
    "tick_inserted s T a (unat (dly_wait opt dly s a)) (trem s1) T'" by blast
  note B = becomesD [OF s1(4)] and M = moved_sel [OF becomesD(1) [OF s1(4)]]
  have l1: "OSRunning s1 = OS_STATE_OS_RUNNING" "OSIntNestingCtr s1 = 0" "OSSchedLockNestingCtr s1 = 0"
    "OSTCBCurPtr s1 = Some a" using l M(8,12-14) by (simp_all add: task_level_def)
  from OSSched_spec [OF B(3) ne l1(1-3)] obtain s2 x where
    s2: "OSSched s1 = Some s2" "switched s1 s2" "most_urgent s1 (rdy_del s a R) x"
    "OSTCBCurPtr s1 \<noteq> Some x \<or> running s1 x \<longrightarrow> running s2 x" by blast
  have "TaskState (OSTCBs s1 a) \<noteq> OS_TASK_STATE_RDY" using core_eqI(1) [OF B(2)] by (simp add: dlyed_tcb_def)
  from not_ready_anywhere [OF B(3) a this] have "x \<noteq> a" using s2(3) by (auto simp: most_urgent_def) (metis list.set_intros(1))+
  moreover have "x \<in> A" using s2(3) kinvD(6) [OF B(3), of "Prio (OSTCBs s1 x)"] by (auto simp: most_urgent_def)
  moreover have "OSTimeDly dly opt s = Some (OS_ERR_NONE, s2)"
    using s1(1-3) s2(1) l o by (simp add: OSTimeDly_def task_level_def)
  moreover have "running s2 x" using s2(4) l1(4) calculation(1) by auto
  ultimately show ?thesis using s1(4,5) s2(2,3) by blast
qed

text \<open>A delay blocks the running task and nothing else: the task leaves the ready list, joins the
  tick list with the expiry its option asks for (relative to now, to the previous period, or to the
  counter), all other expiries stay as they are, and another task runs.\<close>

theorem OSTimeDly_refines:
  assumes K: "kinv s A R W T" and a: "a \<in> A" and l: "task_level s a" and ne: "rdy_del s a R q \<noteq> []"
    and o: "opt \<in> {OS_OPT_TIME_DLY, OS_OPT_TIME_TIMEOUT, OS_OPT_TIME_PERIODIC, OS_OPT_TIME_MATCH}"
    and p: "opt = OS_OPT_TIME_PERIODIC \<Longrightarrow> dly \<noteq> 0" and d: "dly_wait opt dly s a \<noteq> 0"
  shows "\<exists>s' T'. OSTimeDly dly opt s = Some (OS_ERR_NONE, s') \<and> kinv s' A (rdy_del s a R) W T' \<and>
    set T' = insert a (set T) \<and> due (trem s') T' a = unat (dly_wait opt dly s a) \<and>
    (\<forall>c\<in>set T. due (trem s') T' c = due (trem s) T c) \<and>
    TaskState (OSTCBs s' a) = OS_TASK_STATE_DLY \<and> OSTCBCurPtr s' \<noteq> Some a"
proof -
  from OSTimeDly_path [OF K a l ne o p d] obtain s1 s2 x T' where
    s: "becomes a (dlyed_tcb opt dly s a (OSTCBs s a)) s s1 A (rdy_del s a R) W T'"
    "tick_inserted s T a (unat (dly_wait opt dly s a)) (trem s1) T'"
    "OSTimeDly dly opt s = Some (OS_ERR_NONE, s2)" "switched s1 s2" "running s2 x" "x \<noteq> a" by blast
  note B = becomesD [OF s(1)]
  have "kinv s2 A (rdy_del s a R) W T'" using switched_kinv [OF s(4)] B(3) by simp
  moreover have "TaskState (OSTCBs s2 a) = OS_TASK_STATE_DLY"
    using core_eqI(1) [OF B(2)] switched_sel(15) [OF s(4)] by (simp add: dlyed_tcb_def)
  ultimately show ?thesis using s(2,3,5,6) switched_trem [OF s(4)]
    by (intro exI [of _ s2] exI [of _ T']) (auto simp: tick_inserted_def running_def)
qed

theorem OSTimeDly_refines_witness:
  "\<exists>s' T'. OSTimeDly 30 OS_OPT_TIME_DLY demo = Some (OS_ERR_NONE, s') \<and>
     kinv s' demo_A (rdy_del demo 1 demo_R) demo_W T' \<and> set T' = {1, 3, 5} \<and> due (trem s') T' 1 = 30"
proof -
  have o: "OS_OPT_TIME_DLY \<in> {OS_OPT_TIME_DLY, OS_OPT_TIME_TIMEOUT, OS_OPT_TIME_PERIODIC, OS_OPT_TIME_MATCH}" by simp
  have p: "OS_OPT_TIME_DLY = OS_OPT_TIME_PERIODIC \<Longrightarrow> (30 :: u32) \<noteq> 0" by simp
  have d: "dly_wait OS_OPT_TIME_DLY 30 demo 1 = 30" by (simp add: dly_wait_relative)
  then have "dly_wait OS_OPT_TIME_DLY 30 demo 1 \<noteq> 0" by simp
  from OSTimeDly_refines [OF demo_kinv demo_level(2,1,3) o p this] show ?thesis
    unfolding d by (fastforce simp: demo_T_def)
qed

text \<open>C10: A delayed task wakes up in time: when after \<open>OSTimeDly\<close> only tick interrupts happen, with the switches
  between tasks that they cause but no call to the kernel by any task, the task stays delayed during the tick
  interrupts before its expiry and is ready after the tick interrupt of its expiry and all later ones. No task waits
  for a mutex with a time-out, whose expiry could change priorities during a tick.\<close>

theorem OSTimeDly_wakes_after_ticks:
  assumes K: "kinv s A R W T" and a: "a \<in> A" and l: "task_level s a" and ne: "rdy_del s a R q \<noteq> []"
    and o: "opt \<in> {OS_OPT_TIME_DLY, OS_OPT_TIME_TIMEOUT, OS_OPT_TIME_PERIODIC, OS_OPT_TIME_MATCH}"
    and p: "opt = OS_OPT_TIME_PERIODIC \<Longrightarrow> dly \<noteq> 0" and d: "dly_wait opt dly s a \<noteq> 0"
    and mx: "\<And>c. c \<in> set T \<Longrightarrow> PendOn (OSTCBs s c) \<noteq> OS_TASK_PEND_ON_MUTEX"
  shows "\<exists>s1. OSTimeDly dly opt s = Some (OS_ERR_NONE, s1) \<and>
    (\<exists>s2. sys_ticks tss s1 = Some s2 \<and> TaskState (OSTCBs s2 a) =
      (if length tss < unat (dly_wait opt dly s a) then OS_TASK_STATE_DLY else OS_TASK_STATE_RDY))"
proof -
  from OSTimeDly_path [OF K a l ne o p d] obtain s0 s1 x T' where
    s: "becomes a (dlyed_tcb opt dly s a (OSTCBs s a)) s s0 A (rdy_del s a R) W T'"
    "tick_inserted s T a (unat (dly_wait opt dly s a)) (trem s0) T'"
    "OSTimeDly dly opt s = Some (OS_ERR_NONE, s1)" "switched s0 s1" "running s1 x" "x \<in> A" by blast
  note B = becomesD [OF s(1)] and M = moved_sel [OF becomesD(1) [OF s(1)]]
  have l0: "OSRunning s0 = OS_STATE_OS_RUNNING" "OSIntNestingCtr s0 = 0" using l M(12,13) by (simp_all add: task_level_def)
  have T': "set T' = insert a (set T)" "due (trem s1) T' a = unat (dly_wait opt dly s a)"
    using s(2) switched_trem [OF s(4)] by (auto simp: tick_inserted_def)
  have po: "PendOn (OSTCBs s a) = OS_TASK_PEND_ON_NOTHING"
    using kinvD(5) [OF K a] l by (simp add: task_ok_def task_level_def pending_def)
  have "PendOn (OSTCBs s1 c) \<noteq> OS_TASK_PEND_ON_MUTEX" if "c \<in> set T'" for c
    using mx [of c] that T'(1) core_eqI(2) [OF B(2)] core_eqI(2) [OF M(17), of c] po
      switched_PendOn [OF s(4)] by (cases "c = a") (auto simp: dlyed_tcb_def)
  then have I: "tick_ready s1 A (rdy_del s a R) W T'"
    using switched_kinv [OF s(4)] B(3) l0 switched_sel(9,10) [OF s(4)] s(5,6) ne by (auto simp: tick_ready_def)
  have pos: "0 < due (trem s1) T' a" unfolding T'(2) using d by (simp add: unat_gt_0)
  have "TaskState (OSTCBs s1 a) = OS_TASK_STATE_DLY"
    using core_eqI(1) [OF B(2)] switched_sel(15) [OF s(4)] by (simp add: dlyed_tcb_def)
  with sys_ticks_spec [OF I pos, of tss] T' s(3) show ?thesis by (auto simp: wake_def not_less)
qed

theorem OSTimeDly_wakes_after_ticks_witness:
  "\<exists>s1. OSTimeDly 30 OS_OPT_TIME_DLY demo = Some (OS_ERR_NONE, s1) \<and>
     (\<exists>s2. sys_ticks (replicate 30 (\<lambda>_. 0)) s1 = Some s2 \<and> TaskState (OSTCBs s2 1) = OS_TASK_STATE_RDY)"
proof -
  have o: "OS_OPT_TIME_DLY \<in> {OS_OPT_TIME_DLY, OS_OPT_TIME_TIMEOUT, OS_OPT_TIME_PERIODIC, OS_OPT_TIME_MATCH}" by simp
  have p: "OS_OPT_TIME_DLY = OS_OPT_TIME_PERIODIC \<Longrightarrow> (30 :: u32) \<noteq> 0" by simp
  have d: "dly_wait OS_OPT_TIME_DLY 30 demo 1 = 30" by (simp add: dly_wait_relative)
  have m: "\<And>a. a \<in> set demo_T \<Longrightarrow> PendOn (OSTCBs demo a) \<noteq> OS_TASK_PEND_ON_MUTEX"
    by (auto simp: demo_T_def demo_def demo_tcb_def blank_tcb_def)
  have "dly_wait OS_OPT_TIME_DLY 30 demo 1 \<noteq> 0" using d by simp
  from OSTimeDly_wakes_after_ticks [OF demo_kinv demo_level(2,1,3) o p this m, of "replicate 30 (\<lambda>_. 0)"]
  show ?thesis unfolding d by simp
qed

text \<open>C35: With the strict option \<open>OSTimeDlyHMSM\<close> is exact: it delays by the number of ticks in the given
  time, which does not overflow.\<close>

theorem OSTimeDlyHMSM_exact:
  assumes h: "hours \<le> 99" "minutes \<le> 59" "seconds \<le> 59" "milli \<le> 999"
    and o: "opt \<in> {OS_OPT_TIME_DLY, OS_OPT_TIME_TIMEOUT, OS_OPT_TIME_PERIODIC, OS_OPT_TIME_MATCH}"
  shows "((unat hours * 60 + unat minutes) * 60 + unat seconds) * 1000 + unat milli < 2 ^ 32 \<and>
    OSTimeDlyHMSM hours minutes seconds milli opt s =
    OSTimeDly (of_nat (((unat hours * 60 + unat minutes) * 60 + unat seconds) * 1000 + unat milli)) opt s"
proof -
  let ?n = "((unat hours * 60 + unat minutes) * 60 + unat seconds) * 1000 + unat milli"
  have u: "unat hours \<le> 99" "unat minutes \<le> 59" "unat seconds \<le> 59" "unat milli \<le> 999"
    using h by (simp_all add: word_le_nat_alt)
  then have lt: "?n < 2 ^ 32" by simp
  have "unat (1000 * milli) = 1000 * unat milli" using u(4) by (simp add: unat_word_ariths)
  then have "(1000 * milli) div 1000 = milli" by (simp add: unat_div word_unat_eq_iff)
  then have "hmsm_ticks hours minutes seconds milli =
      (ucast hours * 3600 + ucast minutes * 60 + ucast seconds) * 1000 + milli"
    by (simp add: hmsm_ticks_def OSCfg_TickRate_Hz_def Let_def)
  then have t: "hmsm_ticks hours minutes seconds milli = of_nat ?n" by (simp add: algebra_simps)
  have m: "opt AND OS_OPT_TIME_MASK = opt" "opt AND NOT OS_OPT_TIME_OPTS_MASK = 0" "opt AND OS_OPT_TIME_HMSM_NON_STRICT = 0"
    using o by (auto simp: opts)
  have "\<not> 999 < milli" "\<not> 59 < seconds" "\<not> 59 < minutes" "\<not> 99 < hours" using h by auto
  then have "OSTimeDlyHMSM hours minutes seconds milli opt s = OSTimeDly (hmsm_ticks hours minutes seconds milli) opt s"
    using o by (simp add: OSTimeDlyHMSM_def OSTimeDly_def m Let_def del: insert_iff)
  with t lt show ?thesis by simp
qed

theorem OSTimeDlyHMSM_exact_witness:
  "OSTimeDlyHMSM 99 59 59 999 OS_OPT_TIME_DLY demo = OSTimeDly 359999999 OS_OPT_TIME_DLY demo"
  using OSTimeDlyHMSM_exact [of 99 59 59 999 OS_OPT_TIME_DLY demo] by simp

text \<open>A fault of \<open>OSTimeDlyHMSM\<close>: with \<open>OS_OPT_TIME_HMSM_NON_STRICT\<close>, documented to take up to 4294967295
  milliseconds, the product of the milliseconds and the tick rate wraps around; a delay of 4294968
  milliseconds (71 minutes) is refused as a delay of zero ticks.\<close>

theorem OSTimeDlyHMSM_overflow:
  assumes l: "task_level s a"
  shows "\<exists>s'. OSTimeDlyHMSM 0 0 0 4294968 OS_OPT_TIME_HMSM_NON_STRICT s = Some (OS_ERR_TIME_ZERO_DLY, s') \<and>
    OSTCBCurPtr s' = Some a"
proof -
  have t: "hmsm_ticks 0 0 0 4294968 = 0" by (simp add: hmsm_ticks_def OSCfg_TickRate_Hz_def)
  have m: "OS_OPT_TIME_HMSM_NON_STRICT AND OS_OPT_TIME_MASK = OS_OPT_TIME_DLY"
    "OS_OPT_TIME_HMSM_NON_STRICT AND NOT OS_OPT_TIME_OPTS_MASK = 0" "OS_OPT_TIME_HMSM_NON_STRICT \<noteq> 0"
    "OS_OPT_TIME_DLY \<noteq> OS_OPT_TIME_PERIODIC" by (simp_all add: opts)
  have w: "dly_wait OS_OPT_TIME_DLY 0 s a = 0" by (simp add: dly_wait_relative)
  show ?thesis
    using l dly_zero [OF w m(4)] by (simp add: OSTimeDlyHMSM_def t m task_level_def Let_def)
qed

theorem OSTimeDlyHMSM_overflow_witness:
  "\<exists>s'. OSTimeDlyHMSM 0 0 0 4294968 OS_OPT_TIME_HMSM_NON_STRICT demo = Some (OS_ERR_TIME_ZERO_DLY, s')"
  using OSTimeDlyHMSM_overflow [OF demo_level(1)] by blast

end
