(* ===== verification/Sem_Props.thy ===== *)
theory Sem_Props
  imports Os_Sem Time_Props
begin

text \<open>
  The properties of the semaphores: the refinement of an abstract counting semaphore, the
  hand-over to a waiting task, the time-out of a wait and the deletion.
\<close>

section \<open>Refinement of a counting semaphore\<close>

text \<open>\<open>OSSemPost\<close> implements the post of an abstract counting semaphore: with no task waiting
  the number of tokens grows by one, otherwise the first waiting task leaves the queue and the
  tokens stay; the invariant of the kernel and the one of the semaphore (no task waits while
  there is a token) hold again.\<close>

theorem OSSemPost_refines:
  assumes K: "kinv s A R W T" and I: "sem_inv s W b" and r: "OSRunning s = OS_STATE_OS_RUNNING"
    and ne: "R q \<noteq> []" and o: "opt = OS_OPT_POST_1 \<or> opt = OS_OPT_POST_1 OR OS_OPT_POST_NO_SCHED"
    and nf: "Ctr (OSSems s b) \<noteq> -1"
  shows "\<exists>n s' R' W' T'. OSSemPost (Some b) opt ts s = Some (n, OS_ERR_NONE, s') \<and>
    kinv s' A R' W' T' \<and> sem_inv s' W' b \<and> sem_abs s' W' b = sem_post (sem_abs s W b) \<and>
    (\<forall>c. c \<noteq> b \<longrightarrow> W' c = W c)"
proof (cases "W b")
  case Nil
  have o': "opt \<in> {OS_OPT_POST_1, OS_OPT_POST_ALL, OS_OPT_POST_1 OR OS_OPT_POST_NO_SCHED,
      OS_OPT_POST_ALL OR OS_OPT_POST_NO_SCHED}" using o by auto
  let ?s = "s\<lparr>OSSems := (OSSems s)(b := (OSSems s b)\<lparr>Ctr := Ctr (OSSems s b) + 1, Sem_TS := ts\<rparr>)\<rparr>"
  have "unat (Ctr (OSSems s b) + 1) = Suc (unat (Ctr (OSSems s b)))"
    using nf by (rule unat_succ)
  moreover have "OSSemPost (Some b) opt ts s = Some (Ctr (OSSems s b) + 1, OS_ERR_NONE, ?s)"
    using OSSemPost_token [OF K I r o' Nil, of ts] nf by simp
  ultimately show ?thesis using K I Nil
    by (intro exI [of _ "Ctr (OSSems s b) + 1"] exI [of _ ?s] exI [of _ R] exI [of _ W] exI [of _ T])
      (simp add: sem_inv_def sem_abs_def)
next
  case (Cons a E)
  have o': "opt \<in> {OS_OPT_POST_1, OS_OPT_POST_ALL, OS_OPT_POST_1 OR OS_OPT_POST_NO_SCHED,
      OS_OPT_POST_ALL OR OS_OPT_POST_NO_SCHED}" using o by auto
  have "opt AND OS_OPT_POST_ALL = 0" using o by auto
  with OSSemPost_wake [OF K I r o' Cons ne, of ts] obtain s1 s' where
    s': "OSSemPost (Some b) opt ts s = Some (0, OS_ERR_NONE, s')"
    "released (posted_tcb None 0 ts) s s1 A R W T [a]" "switched s1 s'" by auto
  note F = released_objs [OF s'(2,3)]
  have "Ctr (OSSems s b) = 0" using I Cons by (auto simp: sem_inv_def word_gt_0)
  with s'(1) F I Cons without_other [OF K Cons] show ?thesis
    by (intro exI [of _ 0] exI [of _ s'] exI [of _ "readied s a R"] exI [of _ "W(b := E)"]
        exI [of _ "remove1 a T"]) (auto simp: sem_inv_def sem_abs_def)
qed

theorem OSSemPost_refines_witness:
  "\<exists>n s' R' W' T'. OSSemPost (Some 10) OS_OPT_POST_1 77 demo = Some (n, OS_ERR_NONE, s') \<and>
     kinv s' demo_A R' W' T' \<and> sem_abs s' W' 10 = (0, [4])"
proof -
  have I: "sem_inv demo demo_W 10" "OSRunning demo = OS_STATE_OS_RUNNING" "demo_R 5 \<noteq> []"
    "Ctr (OSSems demo 10) \<noteq> -1" "sem_post (sem_abs demo demo_W 10) = (0, [4])"
    by (simp_all add: sem_inv_def sem_abs_def demo_def demo_obj_def demo_R_def demo_W_def Let_def)
  from OSSemPost_refines [OF demo_kinv I(1-3) disjI1 [OF refl] I(4), of 77] show ?thesis
    unfolding I(5) by blast
qed

text \<open>C24: \<open>OSSemPend\<close> implements the pend of the abstract semaphore: it takes a token if there is
  one and otherwise queues the calling task in order of priority, hands the CPU to another task
  and returns later; both invariants hold again.\<close>

theorem OSSemPend_refines:
  assumes K: "kinv s A R W T" and I: "sem_inv s W b" and c: "c \<in> A" and l: "task_level s c"
    and ne: "rdy_del s c R q \<noteq> []"
  shows "\<exists>out s' R' W' T'. OSSemPend (Some b) timeout OS_OPT_PEND_BLOCKING s = Some (out, s') \<and>
    kinv s' A R' W' T' \<and> sem_inv s' W' b \<and>
    sem_abs s' W' b = sem_pend (pend_ins (prios s)) c (sem_abs s W b) \<and>
    (if Ctr (OSSems s b) > 0
     then out = Done (Ctr (OSSems s b) - 1, Some (Sem_TS (OSSems s b)), OS_ERR_NONE) \<and> OSTCBCurPtr s' = Some c
     else out = Blocked \<and> OSTCBCurPtr s' \<noteq> Some c)"
proof (cases "Ctr (OSSems s b) > 0")
  case True
  let ?s = "s\<lparr>OSSems := (OSSems s)(b := (OSSems s b)\<lparr>Ctr := Ctr (OSSems s b) - 1\<rparr>)\<rparr>"
  have "OSSemPend (Some b) timeout OS_OPT_PEND_BLOCKING s =
      Some (Done (Ctr (OSSems s b) - 1, Some (Sem_TS (OSSems s b)), OS_ERR_NONE), ?s)"
    using OSSemPend_token [OF I _ _ True, of OS_OPT_PEND_BLOCKING timeout] l by (simp add: task_level_def)
  moreover obtain n where n: "unat (Ctr (OSSems s b)) = Suc n"
    using True by (metis not0_implies_Suc unat_eq_0 word_gt_0)
  moreover from n have "unat (Ctr (OSSems s b) - 1) = n" using unat_pred [OF n] by simp
  moreover have "W b = []" using I True by (simp add: sem_inv_def)
  ultimately show ?thesis using True K I l
    by (intro exI [of _ "Done (Ctr (OSSems s b) - 1, Some (Sem_TS (OSSems s b)), OS_ERR_NONE)"]
        exI [of _ ?s] exI [of _ R] exI [of _ W] exI [of _ T])
      (simp add: sem_inv_def sem_abs_def task_level_def)
next
  case False
  then have z: "Ctr (OSSems s b) = 0" by (simp add: word_gt_0)
  from OSSemPend_block [OF K I c l ne z, of timeout] obtain s1 s' x T' where
    p: "OSSemPend (Some b) timeout OS_OPT_PEND_BLOCKING s = Some (Blocked, s')"
    "becomes c (pended_tcb s (Some b) OS_TASK_PEND_ON_SEM timeout (OSTCBs s c)) s s1 A (rdy_del s c R)
      (W(b := pend_ins (prios s) c (W b))) T'"
    "switched s1 s'" "OSTCBCurPtr s' = Some x" "x \<noteq> c" by blast
  note B = becomesD [OF p(2)]
  show ?thesis using p(1,4,5) z I switched_kinv [OF p(3)] B(3) moved_sel(1,19) [OF B(1)] switched_sel(1,6) [OF p(3)]
    by (intro exI [of _ Blocked] exI [of _ s'] exI [of _ "rdy_del s c R"]
        exI [of _ "W(b := pend_ins (prios s) c (W b))"] exI [of _ T'])
      (simp add: sem_inv_def sem_abs_def)
qed

lemma demo_sems: "sem_inv demo demo_W 10" "sem_inv demo demo_W 11" "OSRunning demo = OS_STATE_OS_RUNNING"
    "demo_R 5 \<noteq> []" "Ctr (OSSems demo 10) = 0" "Ctr (OSSems demo 11) = 2" "demo_W 10 = [3, 4]" "demo_W 11 = []"
  by (simp_all add: sem_inv_def demo_def demo_obj_def demo_R_def demo_W_def Let_def)

theorem OSSemPend_refines_witness:
  "\<exists>s' R' W' T'. OSSemPend (Some 10) 5 OS_OPT_PEND_BLOCKING demo = Some (Blocked, s') \<and>
     kinv s' demo_A R' W' T' \<and> sem_abs s' W' 10 = (0, [3, 1, 4])"
proof -
  have "sem_pend (pend_ins (prios demo)) 1 (sem_abs demo demo_W 10) = (0, [3, 1, 4])"
    by (simp add: sem_abs_def demo_defs pend_ins_def)
  with OSSemPend_refines [OF demo_kinv demo_sems(1) demo_level(2,1,3), of 5] demo_sems(5) show ?thesis
    by auto
qed

section \<open>Hand-over, time-out, deletion\<close>

text \<open>C14: A post hands the semaphore over: if the first waiting task is not suspended and above every ready task,
  it is the current task when the post returns, and its pending call returns without an error,
  with the time stamp of the post.\<close>

theorem OSSemPost_hands_over:
  assumes K: "kinv s A R W T" and I: "sem_inv s W b" and l: "task_level s c" and W: "W b = a # E"
    and rn: "runs (TaskState (OSTCBs s a))" and top: "\<And>q. R q \<noteq> [] \<Longrightarrow> Prio (OSTCBs s a) < q"
    and ne: "R q \<noteq> []"
  shows "\<exists>s'. OSSemPost (Some b) OS_OPT_POST_1 ts s = Some (0, OS_ERR_NONE, s') \<and>
    OSTCBCurPtr s' = Some a \<and> TaskState (OSTCBs s' a) = OS_TASK_STATE_RDY \<and>
    OSSemPend_resume (Some b) s' = Some (0, Some ts, OS_ERR_NONE)"
proof -
  have aW: "a \<in> set (W b)" using W by simp
  have r: "OSRunning s = OS_STATE_OS_RUNNING" using l by (simp add: task_level_def)
  have o: "OS_OPT_POST_1 \<in> {OS_OPT_POST_1, OS_OPT_POST_ALL, OS_OPT_POST_1 OR OS_OPT_POST_NO_SCHED,
      OS_OPT_POST_ALL OR OS_OPT_POST_NO_SCHED}" by simp
  from OSSemPost_wake [OF K I r o W ne, of ts] obtain s1 s' where
    s': "OSSemPost (Some b) OS_OPT_POST_1 ts s = Some (0, OS_ERR_NONE, s')"
    "released (posted_tcb None 0 ts) s s1 A R W T [a]" "OSSched s1 = Some s'" "switched s1 s'"
    by (auto simp: sched_unless_def)
  have "fold (readied s) [a] R q \<noteq> []" using fold_readied_mono [where R = R, OF ne] .
  from release_sched [OF s'(2) this] s'(3) l obtain x where
    x: "OSTCBCurPtr s' = Some x" "most_urgent s (readied s a R) x" by (auto simp: task_level_def)
  have "x = a" using most_urgent_unique [OF x(2) readied_urgent [where R = R, OF K aW rn top]] by simp
  moreover have "Ctr (OSSems s' b) = 0"
    using I W released_objs(1) [OF s'(2,4)] by (auto simp: sem_inv_def word_gt_0)
  moreover note F = released_sel [OF s'(2,4), of a]
  ultimately show ?thesis using s'(1) x(1) rn
    by (auto simp: OSSemPend_resume_def posted_tcb_def pend_err_def unpend_state_def)
qed

theorem OSSemPost_hands_over_witness:
  "\<exists>s'. OSSemPost (Some 10) OS_OPT_POST_1 77 demo = Some (0, OS_ERR_NONE, s') \<and>
     OSTCBCurPtr s' = Some 3 \<and> OSSemPend_resume (Some 10) s' = Some (0, Some 77, OS_ERR_NONE)"
proof -
  have 1: "runs (TaskState (OSTCBs demo 3))" "demo_R 5 \<noteq> []" "demo_W 10 = 3 # [4]"
    by (simp_all add: runs_def demo_defs)
  have 2: "\<And>q. demo_R q \<noteq> [] \<Longrightarrow> Prio (OSTCBs demo 3) < q"
    by (auto simp: demo_R_def split: if_splits) (simp_all add: demo_def demo_tcb_def blank_tcb_def)
  from OSSemPost_hands_over [OF demo_kinv demo_sems(1) demo_level(1) 1(3,1) 2 1(2), of 77] show ?thesis
    by blast
qed

text \<open>C16: A wait of \<open>n\<close> ticks for a semaphore that is not posted blocks the task. When only tick interrupts happen
  then, with the switches between tasks that they cause but no call to the kernel by any task, the task still waits
  after fewer than \<open>n\<close> of them; after \<open>n\<close> or more it is ready, and its \<open>OSSemPend\<close> returns the error
  \<open>OS_ERR_TIMEOUT\<close> and the time stamp 0 when it runs again. No task waits for a mutex with a time-out, whose expiry
  could change priorities during a tick.\<close>

theorem OSSemPend_times_out:
  assumes K: "kinv s A R W T" and I: "sem_inv s W b" and c: "c \<in> A" and l: "task_level s c"
    and ne: "rdy_del s c R q \<noteq> []" and z: "Ctr (OSSems s b) = 0" and n: "n > 0"
    and mx: "\<And>a. a \<in> set T \<Longrightarrow> PendOn (OSTCBs s a) \<noteq> OS_TASK_PEND_ON_MUTEX"
  shows "\<exists>s1 s2. OSSemPend (Some b) n OS_OPT_PEND_BLOCKING s = Some (Blocked, s1) \<and>
    OSTCBCurPtr s1 \<noteq> Some c \<and> sys_ticks tss s1 = Some s2 \<and>
    (if length tss < unat n then TaskState (OSTCBs s2 c) = OS_TASK_STATE_PEND_TIMEOUT
     else TaskState (OSTCBs s2 c) = OS_TASK_STATE_RDY \<and>
       OSSemPend_resume (Some b) (s2\<lparr>OSTCBCurPtr := Some c\<rparr>) = Some (0, Some 0, OS_ERR_TIMEOUT))"
proof -
  from OSSemPend_block [OF K I c l ne z, of n] n obtain s0 s1 x T' where
    p: "OSSemPend (Some b) n OS_OPT_PEND_BLOCKING s = Some (Blocked, s1)"
    "becomes c (pended_tcb s (Some b) OS_TASK_PEND_ON_SEM n (OSTCBs s c)) s s0 A (rdy_del s c R)
      (W(b := pend_ins (prios s) c (W b))) T'" "tick_inserted s T c (unat n) (trem s0) T'"
    "switched s0 s1" "OSTCBCurPtr s1 = Some x" "x \<noteq> c" "most_urgent s (rdy_del s c R) x" "running s1 x"
    by (auto split: if_splits)
  note B = becomesD [OF p(2)] and M = moved_sel [OF becomesD(1) [OF p(2)]]
  have K1: "kinv s1 A (rdy_del s c R) (W(b := pend_ins (prios s) c (W b))) T'"
    using switched_kinv [OF p(4)] B(3) by simp
  have cT: "c \<in> set T'" "due (trem s1) T' c = unat n" "set T' = insert c (set T)"
    using p(3) switched_trem [OF p(4)] by (auto simp: tick_inserted_def)
  have po: "PendOn (OSTCBs s1 a) \<noteq> OS_TASK_PEND_ON_MUTEX" if "a \<in> set T'" for a
    using mx [of a] that cT(3) core_eqI(2) [OF B(2)] core_eqI(2) [OF moved_sel(17) [OF B(1), of a]]
      switched_PendOn [OF p(4)] by (cases "a = c") (auto simp: pended_tcb_def)
  have st: "TaskState (OSTCBs s1 c) = OS_TASK_STATE_PEND_TIMEOUT"
    using core_eqI(1) [OF B(2)] switched_sel(15) [OF p(4), of c] n by (simp add: pended_tcb_def)
  have I1: "tick_ready s1 A (rdy_del s c R) (W(b := pend_ins (prios s) c (W b))) T'"
  proof -
    have "x \<in> A" using p(7) kinvD(6) [OF K1, of "Prio (OSTCBs s x)"] by (auto simp: most_urgent_def)
    moreover have "OSRunning s1 = OS_STATE_OS_RUNNING" "OSIntNestingCtr s1 = 0"
      using l M(12,13) switched_sel(9,10) [OF p(4)] by (simp_all add: task_level_def)
    ultimately show ?thesis using K1 po ne p(8) by (auto simp: tick_ready_def)
  qed
  have "0 < due (trem s1) T' c" unfolding cT(2) using n by (simp add: word_less_nat_alt)
  from sys_ticks_spec [OF I1 this, of tss] obtain s2 where s2: "sys_ticks tss s1 = Some s2"
    "TaskState (OSTCBs s2 c) = (if unat n \<le> length tss then OS_TASK_STATE_RDY else OS_TASK_STATE_PEND_TIMEOUT)"
    "OSSems s2 = OSSems s1" "unat n \<le> length tss \<longrightarrow> PendStatus (OSTCBs s2 c) = OS_STATUS_PEND_TIMEOUT"
    using cT(1) unfolding cT(2) st wake_def by auto
  have "OSSems s2 = OSSems s" using s2(3) switched_sel(1) [OF p(4)] moved_sel(1) [OF B(1)] by simp
  then have "OSSemPend_resume (Some b) (s2\<lparr>OSTCBCurPtr := Some c\<rparr>) = Some (0, Some 0, OS_ERR_TIMEOUT)"
    if "unat n \<le> length tss" using s2(4) that z by (simp add: OSSemPend_resume_def pend_err_def)
  then show ?thesis using p(1,5,6) s2(1,2) by auto
qed

theorem OSSemPend_times_out_witness:
  "\<exists>s1 s2. OSSemPend (Some 10) 25 OS_OPT_PEND_BLOCKING demo = Some (Blocked, s1) \<and>
     sys_ticks (replicate 25 (\<lambda>_. 0)) s1 = Some s2 \<and>
     OSSemPend_resume (Some 10) (s2\<lparr>OSTCBCurPtr := Some 1\<rparr>) = Some (0, Some 0, OS_ERR_TIMEOUT)"
proof -
  have m: "\<And>a. a \<in> set demo_T \<Longrightarrow> PendOn (OSTCBs demo a) \<noteq> OS_TASK_PEND_ON_MUTEX"
    by (auto simp: demo_T_def demo_def demo_tcb_def blank_tcb_def)
  have n: "(25 :: u32) > 0" by simp
  from OSSemPend_times_out [OF demo_kinv demo_sems(1) demo_level(2,1,3) demo_sems(5) n m, of "replicate 25 (\<lambda>_. 0)"]
  show ?thesis by auto
qed

text \<open>Deleting a semaphore with \<open>OS_OPT_DEL_ALWAYS\<close> releases every waiting task with the
  status PEND_DEL, returns their number, leaves no task on its list and ends its type.\<close>

theorem OSSemDel_releases_all:
  assumes K: "kinv s A R W T" and I: "sem_inv s W b" and l: "task_level s c" and ne: "R q \<noteq> []"
  shows "\<exists>s' R' T'. OSSemDel (Some b) OS_OPT_DEL_ALWAYS ts s = Some (of_nat (length (W b)), OS_ERR_NONE, s') \<and>
    kinv s' A R' (W(b := [])) T' \<and> Type (OSObjs s' b) = OS_OBJ_TYPE_NONE \<and>
    (\<forall>a\<in>set (W b). PendStatus (OSTCBs s' a) = OS_STATUS_PEND_DEL \<and>
       TaskState (OSTCBs s' a) = unpend_state (TaskState (OSTCBs s a)))"
proof -
  from del_loop_spec [OF K refl, of b ts 0] obtain s1 where
    d: "del_loop (Some b) ts 0 s = Some (of_nat (length (W b)), s1)"
    "released (aborted_tcb OS_STATUS_PEND_DEL ts) s s1 A R W T (W b)" by auto
  let ?R = "fold (readied s) (W b) R" and ?T = "fold remove1 (W b) T"
  have K1: "kinv s1 A ?R (W(b := [])) ?T" using releasedD(2) [OF d(2)] by (simp add: fold_without_all [OF K])
  from sem_dbg.remove_touched [of b s1] obtain s2 where
    s2: "OS_SemDbgListRemove (Some b) s1 = Some s2" "sem_dbg.touched s1 s2"
    by (auto simp: OS_SemDbgListRemove_def)
  have e: "OSTCBs s2 = OSTCBs s1" "OSRunning s2 = OSRunning s1" using s2(2) by (auto simp: sem_dbg.touched_def)
  have K2: "kinv (s2\<lparr>OSSemQty := OSSemQty s2 - 1\<rparr>) A ?R (W(b := [])) ?T"
    using K1 sem_dbg.touched_kinv [OF s2(2)] by (simp add: kinv_OSSemQty)
  from OS_SemClr_spec [OF K2, of b] obtain s3 where
    s3: "OS_SemClr (Some b) (s2\<lparr>OSSemQty := OSSemQty s2 - 1\<rparr>) = Some s3"
    "kinv s3 A ?R (W(b := [])) ?T" "Type (OSObjs s3 b) = OS_OBJ_TYPE_NONE" "OSTCBs s3 = OSTCBs s2" by auto
  from OSSched_returns [OF s3(2), of q] fold_readied_mono [where R = R, OF ne] obtain s' where
    s': "OSSched s3 = Some s'" "switched s3 s'" by blast
  have "PendStatus (OSTCBs s' a) = OS_STATUS_PEND_DEL \<and>
      TaskState (OSTCBs s' a) = unpend_state (TaskState (OSTCBs s a))" if "a \<in> set (W b)" for a
    using core_eqI(1,6) [OF releasedD(3) [OF d(2) that]] switched_sel(13,15) [OF s'(2)]
    by (simp add: s3(4) e aborted_tcb_def)
  moreover have "OSSemDel (Some b) OS_OPT_DEL_ALWAYS ts s = Some (of_nat (length (W b)), OS_ERR_NONE, s')"
    using I l d(1) s2(1) s3(1) s'(1)
    by (simp add: OSSemDel_def sem_inv_def task_level_def Let_def opts)
  ultimately show ?thesis using switched_kinv [OF s'(2)] s3(2,3) switched_sel(6) [OF s'(2)]
    by (intro exI [of _ s']) auto
qed

theorem OSSemDel_releases_all_witness:
  "\<exists>s' R' T'. OSSemDel (Some 10) OS_OPT_DEL_ALWAYS 9 demo = Some (2, OS_ERR_NONE, s') \<and>
     kinv s' demo_A R' (demo_W(10 := [])) T' \<and> PendStatus (OSTCBs s' 4) = OS_STATUS_PEND_DEL"
proof -
  have "of_nat (length (demo_W 10)) = (2 :: u16)" "4 \<in> set (demo_W 10)" by (simp_all add: demo_W_def)
  with OSSemDel_releases_all [OF demo_kinv demo_sems(1) demo_level(1) demo_sems(4), of 9] show ?thesis
    by (metis (no_types, lifting))
qed

text \<open>Combined with \<open>OS_OPT_POST_NO_SCHED\<close>, the option \<open>OS_OPT_PEND_ABORT_ALL\<close> aborts the wait of
  the first task only: the loop compares the whole option word with \<open>OS_OPT_PEND_ABORT_ALL\<close>.\<close>

theorem OSSemPendAbort_all_no_sched_aborts_one:
  assumes K: "kinv s A R W T" and I: "sem_inv s W b" and l: "task_level s c" and W: "W b = a # E"
  shows "\<exists>s'. OSSemPendAbort (Some b) (OS_OPT_PEND_ABORT_ALL OR OS_OPT_POST_NO_SCHED) ts s =
      Some (1, OS_ERR_NONE, s') \<and> kinv s' A (readied s a R) (W(b := E)) (remove1 a T) \<and>
    (\<forall>c\<in>set E. core (OSTCBs s' c) = core (OSTCBs s c))"
proof -
  let ?o = "OS_OPT_PEND_ABORT_ALL OR OS_OPT_POST_NO_SCHED"
  have o: "?o \<noteq> OS_OPT_PEND_ABORT_ALL" "?o AND OS_OPT_POST_NO_SCHED \<noteq> 0" by (simp_all add: opts)
  from abort_loop_one [OF K W o(1), of ts 0] obtain s' where
    s': "abort_loop (Some b) ?o ts 0 s = Some (1, s')"
    "released (aborted_tcb OS_STATUS_PEND_ABORT ts) s s' A R W T [a]" by auto
  have "OSSemPendAbort (Some b) ?o ts s = Some (1, OS_ERR_NONE, s')"
    using I l s'(1) o(2) pend_head [OF K, of b] W
    by (simp add: OSSemPendAbort_def sem_inv_def task_level_def)
  moreover have "core (OSTCBs s' c) = core (OSTCBs s c)" if "c \<in> set E" for c
    using kinv_distinct(2) [OF K, of b] W that
    by (intro moved_set_sel(7) [OF releasedD(1) [OF s'(2)]]) auto
  ultimately show ?thesis using releasedD(2) [OF s'(2)] without_other [OF K W]
    by (intro exI [of _ s']) auto
qed

theorem OSSemPendAbort_all_no_sched_aborts_one_witness:
  "\<exists>s'. OSSemPendAbort (Some 10) (OS_OPT_PEND_ABORT_ALL OR OS_OPT_POST_NO_SCHED) 9 demo =
      Some (1, OS_ERR_NONE, s') \<and> core (OSTCBs s' 4) = core (OSTCBs demo 4)"
proof -
  have W: "demo_W 10 = 3 # [4]" by (simp add: demo_W_def)
  show ?thesis
    using OSSemPendAbort_all_no_sched_aborts_one [OF demo_kinv demo_sems(1) demo_level(1) W, of 9] by auto
qed

end
