(* ===== verification/Os_Mutex.thy ===== *)
theory Os_Mutex
  imports Os_Obj
begin

text \<open>
  Mutual exclusion semaphores (\<open>os_mutex.c\<close>): recursive, with priority inheritance. The groups
  of owned mutexes and the change of priorities are in \<open>Os_Block\<close>.
\<close>

definition OS_MutexDbgListAdd :: "ptr \<Rightarrow> kernel \<Rightarrow> kernel option" where
  "OS_MutexDbgListAdd = dbg_list_add OSMutexDbgListPtr (\<lambda>p s. s\<lparr>OSMutexDbgListPtr := p\<rparr>)"

definition OS_MutexDbgListRemove :: "ptr \<Rightarrow> kernel \<Rightarrow> kernel option" where
  "OS_MutexDbgListRemove = dbg_list_remove (\<lambda>p s. s\<lparr>OSMutexDbgListPtr := p\<rparr>)"

definition OS_MutexClr :: "ptr \<Rightarrow> kernel \<Rightarrow> kernel option" where
  "OS_MutexClr p_mutex s = do {
     s \<leftarrow> set_obj p_mutex (\<lambda>b. b\<lparr>Type := OS_OBJ_TYPE_NONE\<rparr>) s;
     s \<leftarrow> set_obj p_mutex (\<lambda>b. b\<lparr>Obj_NamePtr := ''?MUTEX''\<rparr>) s;
     s \<leftarrow> set_mutex p_mutex (\<lambda>m. m\<lparr>MutexGrpNextPtr := None\<rparr>) s;
     s \<leftarrow> set_mutex p_mutex (\<lambda>m. m\<lparr>OwnerTCBPtr := None\<rparr>) s;
     s \<leftarrow> set_mutex p_mutex (\<lambda>m. m\<lparr>OwnerNestingCtr := 0\<rparr>) s;
     s \<leftarrow> set_mutex p_mutex (\<lambda>m. m\<lparr>Mutex_TS := 0\<rparr>) s;
     OS_PendListInit p_mutex s
   }"

definition OSMutexCreate :: "ptr \<Rightarrow> string \<Rightarrow> kernel \<Rightarrow> (OS_ERR \<times> kernel) option" where
  "OSMutexCreate p_mutex p_name s =
     (if OSIntNestingCtr s > 0 then Some (OS_ERR_CREATE_ISR, s)
      else if p_mutex = None then Some (OS_ERR_OBJ_PTR_NULL, s)
      else do {
        b \<leftarrow> obj s p_mutex;
        if Type b = OS_OBJ_TYPE_MUTEX then Some (OS_ERR_OBJ_CREATED, s)
        else do {
          s \<leftarrow> set_obj p_mutex (\<lambda>b. b\<lparr>Type := OS_OBJ_TYPE_MUTEX\<rparr>) s;
          s \<leftarrow> set_obj p_mutex (\<lambda>b. b\<lparr>Obj_NamePtr := p_name\<rparr>) s;
          s \<leftarrow> set_mutex p_mutex (\<lambda>m. m\<lparr>MutexGrpNextPtr := None\<rparr>) s;
          s \<leftarrow> set_mutex p_mutex (\<lambda>m. m\<lparr>OwnerTCBPtr := None\<rparr>) s;
          s \<leftarrow> set_mutex p_mutex (\<lambda>m. m\<lparr>OwnerNestingCtr := 0\<rparr>) s;
          s \<leftarrow> set_mutex p_mutex (\<lambda>m. m\<lparr>Mutex_TS := 0\<rparr>) s;
          s \<leftarrow> OS_PendListInit p_mutex s;
          s \<leftarrow> OS_MutexDbgListAdd p_mutex s;
          let s = s\<lparr>OSMutexQty := OSMutexQty s + 1\<rparr>;
          Some (OS_ERR_NONE, s)
        }
      })"

text \<open>The priority that is left to a task by the mutexes it owns.\<close>

definition inherited_prio :: "ptr \<Rightarrow> kernel \<Rightarrow> u8 option" where
  "inherited_prio p_tcb s = do {
     t \<leftarrow> tcb s p_tcb;
     prio_new \<leftarrow> OS_MutexGrpPrioFindHighest p_tcb s;
     Some (if prio_new > BasePrio t then BasePrio t else prio_new)
   }"

definition OSMutexDel :: "ptr \<Rightarrow> OS_OPT \<Rightarrow> u32 \<Rightarrow> kernel \<Rightarrow> (u16 \<times> OS_ERR \<times> kernel) option" where
  "OSMutexDel p_mutex opt ts s =
     (if OSIntNestingCtr s > 0 then Some (0, OS_ERR_DEL_ISR, s)
      else if OSRunning s \<noteq> OS_STATE_OS_RUNNING then Some (0, OS_ERR_OS_NOT_RUNNING, s)
      else if p_mutex = None then Some (0, OS_ERR_OBJ_PTR_NULL, s)
      else do {
        b \<leftarrow> obj s p_mutex;
        if Type b \<noteq> OS_OBJ_TYPE_MUTEX then Some (0, OS_ERR_OBJ_TYPE, s)
        else if opt = OS_OPT_DEL_NO_PEND then
          if PL_HeadPtr (PendList b) = None then do {
            s \<leftarrow> OS_MutexDbgListRemove p_mutex s;
            let s = s\<lparr>OSMutexQty := OSMutexQty s - 1\<rparr>;
            m \<leftarrow> mutex s p_mutex;
            s \<leftarrow> (if OwnerTCBPtr m \<noteq> None then OS_MutexGrpRemove (OwnerTCBPtr m) p_mutex s else Some s);
            s \<leftarrow> OS_MutexClr p_mutex s;
            Some (0, OS_ERR_NONE, s)
          } else Some (0, OS_ERR_TASK_WAITING, s)
        else if opt = OS_OPT_DEL_ALWAYS then do {
          (nbr_tasks, s) \<leftarrow> del_loop p_mutex ts 0 s;
          s \<leftarrow> OS_MutexDbgListRemove p_mutex s;
          let s = s\<lparr>OSMutexQty := OSMutexQty s - 1\<rparr>;
          m \<leftarrow> mutex s p_mutex;
          let p_tcb_owner = OwnerTCBPtr m;
          s \<leftarrow> (if p_tcb_owner \<noteq> None then OS_MutexGrpRemove p_tcb_owner p_mutex s else Some s);
          s \<leftarrow>
            (if p_tcb_owner \<noteq> None then do {
               t \<leftarrow> tcb s p_tcb_owner;
               if Prio t \<noteq> BasePrio t then do {
                 prio_new \<leftarrow> inherited_prio p_tcb_owner s;
                 OS_TaskChangePrio p_tcb_owner prio_new s
               } else Some s
             } else Some s);
          s \<leftarrow> OS_MutexClr p_mutex s;
          s \<leftarrow> OSSched s;
          Some (nbr_tasks, OS_ERR_NONE, s)
        } else Some (0, OS_ERR_OPT_INVALID, s)
      })"

definition OSMutexPend :: "ptr \<Rightarrow> u32 \<Rightarrow> OS_OPT \<Rightarrow> kernel \<Rightarrow>
    ((u32 option \<times> OS_ERR) pend_outcome \<times> kernel) option" where
  "OSMutexPend p_mutex timeout opt s =
     (if OSIntNestingCtr s > 0 then Some (Done (None, OS_ERR_PEND_ISR), s)
      else if OSRunning s \<noteq> OS_STATE_OS_RUNNING then Some (Done (None, OS_ERR_OS_NOT_RUNNING), s)
      else if p_mutex = None then Some (Done (None, OS_ERR_OBJ_PTR_NULL), s)
      else if opt \<notin> {OS_OPT_PEND_BLOCKING, OS_OPT_PEND_NON_BLOCKING}
      then Some (Done (None, OS_ERR_OPT_INVALID), s)
      else do {
        b \<leftarrow> obj s p_mutex;
        if Type b \<noteq> OS_OBJ_TYPE_MUTEX then Some (Done (None, OS_ERR_OBJ_TYPE), s)
        else do {
          m \<leftarrow> mutex s p_mutex;
          if OwnerNestingCtr m = 0 then do {
            s \<leftarrow> set_mutex p_mutex (\<lambda>m. m\<lparr>OwnerTCBPtr := OSTCBCurPtr s\<rparr>) s;
            s \<leftarrow> set_mutex p_mutex (\<lambda>m. m\<lparr>OwnerNestingCtr := 1\<rparr>) s;
            s \<leftarrow> OS_MutexGrpAdd (OSTCBCurPtr s) p_mutex s;
            Some (Done (Some (Mutex_TS m), OS_ERR_NONE), s)
          } else if OSTCBCurPtr s = OwnerTCBPtr m then
            if OwnerNestingCtr m = -1 then Some (Done (None, OS_ERR_MUTEX_OVF), s)
            else do {
              s \<leftarrow> set_mutex p_mutex (\<lambda>m. m\<lparr>OwnerNestingCtr := OwnerNestingCtr m + 1\<rparr>) s;
              Some (Done (Some (Mutex_TS m), OS_ERR_MUTEX_OWNER), s)
            }
          else if opt AND OS_OPT_PEND_NON_BLOCKING \<noteq> 0
          then Some (Done (Some 0, OS_ERR_PEND_WOULD_BLOCK), s)
          else if OSSchedLockNestingCtr s > 0 then Some (Done (Some 0, OS_ERR_SCHED_LOCKED), s)
          else do {
            let p_tcb = OwnerTCBPtr m;
            owner \<leftarrow> tcb s p_tcb;
            cur \<leftarrow> tcb s (OSTCBCurPtr s);
            s \<leftarrow> (if Prio owner > Prio cur then OS_TaskChangePrio p_tcb (Prio cur) s else Some s);
            s \<leftarrow> OS_Pend p_mutex (OSTCBCurPtr s) OS_TASK_PEND_ON_MUTEX timeout s;
            s \<leftarrow> OSSched s;
            Some (Blocked, s)
          }
        }
      })"

definition OSMutexPend_resume :: "kernel \<Rightarrow> (u32 option \<times> OS_ERR) option" where
  "OSMutexPend_resume s = do {
     t \<leftarrow> tcb s (OSTCBCurPtr s);
     let p_ts = (if PendStatus t = OS_STATUS_PEND_TIMEOUT then 0 else Tcb_TS t);
     Some (Some p_ts, pend_err (PendStatus t))
   }"

text \<open>The loop of \<open>OSMutexPendAbort\<close> also takes back the priority the owner has inherited from the
  task whose wait is aborted.\<close>

partial_function (option) mutex_abort_loop ::
  "ptr \<Rightarrow> OS_OPT \<Rightarrow> u32 \<Rightarrow> u16 \<Rightarrow> kernel \<Rightarrow> (u16 \<times> kernel) option" where
  "mutex_abort_loop p_mutex opt ts nbr_tasks s = do {
     l \<leftarrow> pend_list s p_mutex;
     if PL_HeadPtr l \<noteq> None then do {
       let p_tcb = PL_HeadPtr l;
       s \<leftarrow> OS_PendAbort p_tcb ts OS_STATUS_PEND_ABORT s;
       m \<leftarrow> mutex s p_mutex;
       let p_tcb_owner = OwnerTCBPtr m;
       owner \<leftarrow> tcb s p_tcb_owner;
       t \<leftarrow> tcb s p_tcb;
       prio_new \<leftarrow>
         (if Prio owner \<noteq> BasePrio owner \<and> Prio owner = Prio t then inherited_prio p_tcb_owner s
          else Some (Prio owner));
       s \<leftarrow> (if prio_new \<noteq> Prio owner then OS_TaskChangePrio p_tcb_owner prio_new s else Some s);
       let nbr_tasks = nbr_tasks + 1;
       if opt \<noteq> OS_OPT_PEND_ABORT_ALL then Some (nbr_tasks, s)
       else mutex_abort_loop p_mutex opt ts nbr_tasks s
     } else Some (nbr_tasks, s)
   }"

definition OSMutexPendAbort :: "ptr \<Rightarrow> OS_OPT \<Rightarrow> u32 \<Rightarrow> kernel \<Rightarrow> (u16 \<times> OS_ERR \<times> kernel) option" where
  "OSMutexPendAbort p_mutex opt ts s =
     (if OSIntNestingCtr s > 0 then Some (0, OS_ERR_PEND_ABORT_ISR, s)
      else if OSRunning s \<noteq> OS_STATE_OS_RUNNING then Some (0, OS_ERR_OS_NOT_RUNNING, s)
      else if p_mutex = None then Some (0, OS_ERR_OBJ_PTR_NULL, s)
      else if opt \<notin> {OS_OPT_PEND_ABORT_1, OS_OPT_PEND_ABORT_ALL,
          OS_OPT_PEND_ABORT_1 OR OS_OPT_POST_NO_SCHED, OS_OPT_PEND_ABORT_ALL OR OS_OPT_POST_NO_SCHED}
      then Some (0, OS_ERR_OPT_INVALID, s)
      else do {
        b \<leftarrow> obj s p_mutex;
        if Type b \<noteq> OS_OBJ_TYPE_MUTEX then Some (0, OS_ERR_OBJ_TYPE, s)
        else if PL_HeadPtr (PendList b) = None then Some (0, OS_ERR_PEND_ABORT_NONE, s)
        else do {
          (nbr_tasks, s) \<leftarrow> mutex_abort_loop p_mutex opt ts 0 s;
          s \<leftarrow> (if opt AND OS_OPT_POST_NO_SCHED = 0 then OSSched s else Some s);
          Some (nbr_tasks, OS_ERR_NONE, s)
        }
      })"

text \<open>The part of \<open>OSMutexPost\<close> that drops an inherited priority.\<close>

definition drop_inherited :: "kernel \<Rightarrow> kernel option" where
  "drop_inherited s = do {
     cur \<leftarrow> tcb s (OSTCBCurPtr s);
     if Prio cur \<noteq> BasePrio cur then do {
       prio_new \<leftarrow> inherited_prio (OSTCBCurPtr s) s;
       if prio_new > Prio cur then do {
         s \<leftarrow> OS_RdyListRemove (OSTCBCurPtr s) s;
         s \<leftarrow> set_tcb (OSTCBCurPtr s) (\<lambda>t. t\<lparr>Prio := prio_new\<rparr>) s;
         s \<leftarrow> OS_PrioInsert prio_new s;
         s \<leftarrow> OS_RdyListInsertTail (OSTCBCurPtr s) s;
         Some (s\<lparr>OSPrioCur := prio_new\<rparr>)
       } else Some s
     } else Some s
   }"

definition OSMutexPost :: "ptr \<Rightarrow> OS_OPT \<Rightarrow> u32 \<Rightarrow> kernel \<Rightarrow> (OS_ERR \<times> kernel) option" where
  "OSMutexPost p_mutex opt ts s =
     (if OSIntNestingCtr s > 0 then Some (OS_ERR_POST_ISR, s)
      else if OSRunning s \<noteq> OS_STATE_OS_RUNNING then Some (OS_ERR_OS_NOT_RUNNING, s)
      else if p_mutex = None then Some (OS_ERR_OBJ_PTR_NULL, s)
      else if opt \<notin> {OS_OPT_POST_NONE, OS_OPT_POST_NO_SCHED} then Some (OS_ERR_OPT_INVALID, s)
      else do {
        b \<leftarrow> obj s p_mutex;
        if Type b \<noteq> OS_OBJ_TYPE_MUTEX then Some (OS_ERR_OBJ_TYPE, s)
        else do {
          m \<leftarrow> mutex s p_mutex;
          if OSTCBCurPtr s \<noteq> OwnerTCBPtr m then Some (OS_ERR_MUTEX_NOT_OWNER, s)
          else do {
            s \<leftarrow> set_mutex p_mutex (\<lambda>m. m\<lparr>Mutex_TS := ts\<rparr>) s;
            s \<leftarrow> set_mutex p_mutex (\<lambda>m. m\<lparr>OwnerNestingCtr := OwnerNestingCtr m - 1\<rparr>) s;
            m \<leftarrow> mutex s p_mutex;
            if OwnerNestingCtr m > 0 then Some (OS_ERR_MUTEX_NESTING, s)
            else do {
              s \<leftarrow> OS_MutexGrpRemove (OSTCBCurPtr s) p_mutex s;
              l \<leftarrow> pend_list s p_mutex;
              if PL_HeadPtr l = None then do {
                s \<leftarrow> set_mutex p_mutex (\<lambda>m. m\<lparr>OwnerTCBPtr := None\<rparr>) s;
                s \<leftarrow> set_mutex p_mutex (\<lambda>m. m\<lparr>OwnerNestingCtr := 0\<rparr>) s;
                Some (OS_ERR_NONE, s)
              } else do {
                s \<leftarrow> drop_inherited s;
                l \<leftarrow> pend_list s p_mutex;
                let p_tcb = PL_HeadPtr l;
                s \<leftarrow> set_mutex p_mutex (\<lambda>m. m\<lparr>OwnerTCBPtr := p_tcb\<rparr>) s;
                s \<leftarrow> set_mutex p_mutex (\<lambda>m. m\<lparr>OwnerNestingCtr := 1\<rparr>) s;
                s \<leftarrow> OS_MutexGrpAdd p_tcb p_mutex s;
                s \<leftarrow> OS_Post p_mutex p_tcb None 0 ts s;
                s \<leftarrow> (if opt AND OS_OPT_POST_NO_SCHED = 0 then OSSched s else Some s);
                Some (OS_ERR_NONE, s)
              }
            }
          }
        }
      })"

section \<open>The debug list\<close>

interpretation mutex_dbg: dbg_list OSMutexDbgListPtr "\<lambda>p s. s\<lparr>OSMutexDbgListPtr := p\<rparr>"
proof unfold_locales
  fix p :: ptr and s :: kernel and A R W T
  show "kinv (s\<lparr>OSMutexDbgListPtr := p\<rparr>) A R W T \<longleftrightarrow> kinv s A R W T"
    by (rule kinv_cong; (rule rdy_rel_cong pend_lists_cong tick_lists_cong)?; simp)
qed (simp_all add: put_obj_def)

end
