(* ===== verification/Prio_Inherit.thy ===== *)
theory Prio_Inherit
  imports Os_Mutex
begin

text \<open>
  Changing the priority of a task (\<open>OS_TaskChangePrio\<close>) and priority inheritance. The loop
  follows the chain from a task to the owner of the mutex it waits for. When a priority is
  raised it always ends, also on a cycle of owners, and afterwards no owner of a mutex has a
  lower priority than a task that waits for it.
\<close>

section \<open>One round of the loop\<close>

text \<open>\<open>x\<close> gets priority \<open>p\<close>; no other task changes.\<close>

definition reprio :: "nat \<Rightarrow> u8 \<Rightarrow> kernel \<Rightarrow> kernel \<Rightarrow> bool" where
  "reprio x p s s' \<longleftrightarrow> moved x s s' \<and> core (OSTCBs s' x) = core ((OSTCBs s x)\<lparr>Prio := p\<rparr>)"

lemma reprio_sel:
  assumes "reprio x p s s'"
  shows "Prio (OSTCBs s' c) = (if c = x then p else Prio (OSTCBs s c))"
    "PendOn (OSTCBs s' c) = PendOn (OSTCBs s c)" "PendObjPtr (OSTCBs s' c) = PendObjPtr (OSTCBs s c)"
    "TaskState (OSTCBs s' c) = TaskState (OSTCBs s c)" "BasePrio (OSTCBs s' c) = BasePrio (OSTCBs s c)"
    "MutexGrpHeadPtr (OSTCBs s' c) = MutexGrpHeadPtr (OSTCBs s c)"
    "OSMutexes s' = OSMutexes s" "OSTCBCurPtr s' = OSTCBCurPtr s"
proof -
  have m: "moved x s s'" and e: "core (OSTCBs s' x) = core ((OSTCBs s x)\<lparr>Prio := p\<rparr>)"
    using assms by (simp_all add: reprio_def)
  have o: "c \<noteq> x \<Longrightarrow> core (OSTCBs s' c) = core (OSTCBs s c)" using moved_sel(17) [OF m] .
  show "Prio (OSTCBs s' c) = (if c = x then p else Prio (OSTCBs s c))"
    using core_eqI(4) [OF e] core_eqI(4) [OF o] by (cases "c = x") simp_all
  show "PendOn (OSTCBs s' c) = PendOn (OSTCBs s c)"
    using core_eqI(2) [OF e] core_eqI(2) [OF o] by (cases "c = x") simp_all
  show "PendObjPtr (OSTCBs s' c) = PendObjPtr (OSTCBs s c)"
    using core_eqI(3) [OF e] core_eqI(3) [OF o] by (cases "c = x") simp_all
  show "TaskState (OSTCBs s' c) = TaskState (OSTCBs s c)"
    using core_eqI(1) [OF e] core_eqI(1) [OF o] by (cases "c = x") simp_all
  show "BasePrio (OSTCBs s' c) = BasePrio (OSTCBs s c)"
    using core_eqI(5) [OF e] core_eqI(5) [OF o] by (cases "c = x") simp_all
  show "MutexGrpHeadPtr (OSTCBs s' c) = MutexGrpHeadPtr (OSTCBs s c)"
    using core_eqI(15) [OF e] core_eqI(15) [OF o] by (cases "c = x") simp_all
  show "OSMutexes s' = OSMutexes s" "OSTCBCurPtr s' = OSTCBCurPtr s" using moved_sel(2,8) [OF m] by simp_all
qed

lemma rdy_rel_put_prio:
  assumes "rdy_rel s R" and "\<And>q. x \<notin> set (R q)"
  shows "rdy_rel (put x (Prio_update (\<lambda>_. p)) s) R"
proof -
  let ?s = "put x (Prio_update (\<lambda>_. p)) s"
  have "nxt ?s = nxt s" "prv ?s = prv s" by (auto simp: nxt_def prv_def)
  then have "rdy_lists ?s R" using assms(1,2) by (auto simp: rdy_rel_def rdy_lists_def)
  then show ?thesis using assms(1) by (simp add: rdy_rel_def prio_tbl_ok_def ready_prios_def)
qed

lemma pend_sorted_same:
  "(\<And>b a. a \<in> set (W b) \<Longrightarrow> prios s' a = prios s a) \<Longrightarrow> pend_sorted s' W \<longleftrightarrow> pend_sorted s W"
  by (simp add: pend_sorted_def cong: map_cong)

lemma kinv_put_prio:
  assumes K: "kinv s A R W T" and x: "x \<in> A" and p: "unat p < OS_CFG_PRIO_MAX"
    and nR: "\<And>q. x \<notin> set (R q)" and nW: "\<And>b. x \<notin> set (W b)"
    and st: "TaskState (OSTCBs s x) \<noteq> OS_TASK_STATE_RDY"
  shows "kinv (put x (Prio_update (\<lambda>_. p)) s) A R W T"
proof -
  let ?s = "put x (Prio_update (\<lambda>_. p)) s"
  have "pend_sorted ?s W \<longleftrightarrow> pend_sorted s W" by (rule pend_sorted_same) (use nW in auto)
  then have "pend_sorted ?s W" using kinvD(3) [OF K] by blast
  moreover have "task_ok ?s R W T x"
    using kinvD(5) [OF K x] p nR st by (simp add: task_ok_def)
  ultimately show ?thesis
    using rdy_rel_put_prio [OF kinvD(1) [OF K] nR] kinvD(2,4) [OF K]
    by (intro kinv_change [OF K x]) (simp_all add: pend_lists_put tick_lists_put)
qed

text \<open>A ready task moves to the list of its new priority: to the head if it runs, to the tail
  otherwise.\<close>

definition rdy_move :: "kernel \<Rightarrow> nat \<Rightarrow> u8 \<Rightarrow> (u8 \<Rightarrow> nat list) \<Rightarrow> (u8 \<Rightarrow> nat list)" where
  "rdy_move s x p R = (let R1 = rdy_del s x R in
     R1(p := (if OSTCBCurPtr s = Some x then x # R1 p else R1 p @ [x])))"

lemma change_ready_lists:
  assumes K: "kinv s A R W T" and x: "x \<in> A" and rdy: "TaskState (OSTCBs s x) = OS_TASK_STATE_RDY"
    and p: "unat p < OS_CFG_PRIO_MAX"
  obtains s1 where "OS_RdyListRemove (Some x) s = Some s1" "OSTCBCurPtr s1 = OSTCBCurPtr s"
    "\<And>q. x \<notin> set (rdy_del s x R q)"
    "rdy_ok (Option.bind (OS_PrioInsert p (put x (Prio_update (\<lambda>_. p)) s1)) (OS_RdyListInsertTail (Some x)))
       (put x (Prio_update (\<lambda>_. p)) s1) ((rdy_del s x R)(p := rdy_del s x R p @ [x]))"
    "rdy_ok (Option.bind (OS_PrioInsert p (put x (Prio_update (\<lambda>_. p)) s1)) (OS_RdyListInsertHead (Some x)))
       (put x (Prio_update (\<lambda>_. p)) s1) ((rdy_del s x R)(p := x # rdy_del s x R p))"
    "\<exists>n pr rl tbl. s1 = upd_rdy n pr rl tbl s"
proof -
  let ?q = "Prio (OSTCBs s x)"
  have xin: "x \<in> set (R ?q)" using task_okD(2) [OF K x] rdy by simp
  then obtain as bs where ab: "R ?q = as @ x # bs" by (meson split_list)
  have d: "distinct (R ?q)" using kinv_distinct(1) [OF K] .
  have rm: "remove1 x (R ?q) = as @ bs" using d ab by (simp add: remove1_append)
  from OS_RdyListRemove_spec [OF kinvD(1) [OF K] ab] obtain n pr rl tbl where
    r: "OS_RdyListRemove (Some x) s = Some (upd_rdy n pr rl tbl s)"
    "rdy_rel (upd_rdy n pr rl tbl s) (R(?q := as @ bs))" by (elim rdy_okE)
  have eq: "rdy_del s x R = R(?q := as @ bs)" using rm by (simp add: rdy_del_def Let_def)
  have nR: "x \<notin> set (rdy_del s x R c)" for c
    using rdyq.prio [OF kinvD(1) [OF K], of x c] d ab by (auto simp: eq)
  let ?s1 = "upd_rdy n pr rl tbl s"
  have "rdy_rel (put x (Prio_update (\<lambda>_. p)) ?s1) (rdy_del s x R)"
    by (rule rdy_rel_put_prio) (use r(2) nR in \<open>simp_all add: eq\<close>)
  from rdy_link_ok [OF this, of x p] p nR that [OF r(1) _ nR] show thesis by auto
qed

lemma rdy_ok_reprio:
  assumes K: "kinv s A R W T" and x: "x \<in> A" and rdy: "TaskState (OSTCBs s x) = OS_TASK_STATE_RDY"
    and p: "unat p < OS_CFG_PRIO_MAX" and s1: "\<exists>n pr rl tbl. s1 = upd_rdy n pr rl tbl s"
    and ok: "rdy_ok r (put x (Prio_update (\<lambda>_. p)) s1) ((rdy_del s x R)(p := l))"
    and l: "set l = insert x (set (rdy_del s x R p))"
  obtains s' where "r = Some s'" "reprio x p s s'" "kinv s' A ((rdy_del s x R)(p := l)) W T"
proof -
  from s1 obtain n pr rl tbl where s1: "s1 = upd_rdy n pr rl tbl s" by blast
  from ok obtain n' pr' rl' tbl' where
    s': "r = Some (upd_rdy n' pr' rl' tbl' (put x (Prio_update (\<lambda>_. p)) s1))"
    "rdy_rel (upd_rdy n' pr' rl' tbl' (put x (Prio_update (\<lambda>_. p)) s1)) ((rdy_del s x R)(p := l))"
    by (elim rdy_okE)
  let ?s = "upd_rdy n' pr' rl' tbl' (put x (Prio_update (\<lambda>_. p)) s1)"
  have rp: "reprio x p s ?s"
    by (simp add: reprio_def s1 core_def)
      (intro moved_trans [OF _ moved_upd_rdy] moved_trans [OF _ moved_put] moved_upd_rdy)
  note ok = task_okD [OF K x]
  have nW: "x \<notin> set (W b)" for b using ok(4-6) [of] rdy by (auto simp: pending_def on_object_def)
  have R': "set (((rdy_del s x R)(p := l)) q) - {x} = set (R q) - {x}" for q
    using l by (auto simp: rdy_del_def Let_def set_remove1_minus)
  have "pend_sorted ?s W \<longleftrightarrow> pend_sorted s W" by (rule pend_sorted_same) (use nW in \<open>auto simp: s1\<close>)
  then have srt: "pend_sorted ?s W" using kinvD(3) [OF K] by blast
  have tok: "task_ok ?s ((rdy_del s x R)(p := l)) W T x"
    using kinvD(5) [OF K x] p rdy l by (simp add: task_ok_def s1)
  have rels: "pend_lists ?s W" "tick_lists ?s T"
    using kinvD(2,4) [OF K] by (simp_all add: s1 pend_lists_put tick_lists_put)
  have m: "moved x s ?s" using rp by (simp add: reprio_def)
  have "kinv ?s A ((rdy_del s x R)(p := l)) W T"
    by (rule kinv_change [OF K x s'(2) rels(1) srt rels(2) moved_sel(17) [OF m] R' refl refl tok])
  with s'(1) rp show thesis by (rule that)
qed

lemma change_prio_ready:
  assumes K: "kinv s A R W T" and x: "x \<in> A" and rdy: "TaskState (OSTCBs s x) = OS_TASK_STATE_RDY"
    and p: "unat p < OS_CFG_PRIO_MAX"
  shows "\<exists>s'. change_prio_round (Some x) p s = Some (None, p, s') \<and> reprio x p s s' \<and>
    kinv s' A (rdy_move s x p R) W T"
proof -
  obtain s1 where
    s1: "OS_RdyListRemove (Some x) s = Some s1" "OSTCBCurPtr s1 = OSTCBCurPtr s"
    and t: "rdy_ok (Option.bind (OS_PrioInsert p (put x (Prio_update (\<lambda>_. p)) s1)) (OS_RdyListInsertTail (Some x)))
       (put x (Prio_update (\<lambda>_. p)) s1) ((rdy_del s x R)(p := rdy_del s x R p @ [x]))"
    and h: "rdy_ok (Option.bind (OS_PrioInsert p (put x (Prio_update (\<lambda>_. p)) s1)) (OS_RdyListInsertHead (Some x)))
       (put x (Prio_update (\<lambda>_. p)) s1) ((rdy_del s x R)(p := x # rdy_del s x R p))"
    and u: "\<exists>n pr rl tbl. s1 = upd_rdy n pr rl tbl s"
    by (rule change_ready_lists [OF K x rdy p]) (rule that)
  have cur: "OSTCBCurPtr s2 = OSTCBCurPtr s" if "OS_PrioInsert p (put x (Prio_update (\<lambda>_. p)) s1) = Some s2" for s2
    using that s1(2) by (auto simp: OS_PrioInsert_def Let_def split: if_splits)
  show ?thesis
  proof (cases "OSTCBCurPtr s = Some x")
    case True
    obtain s' where "Option.bind (OS_PrioInsert p (put x (Prio_update (\<lambda>_. p)) s1))
        (OS_RdyListInsertHead (Some x)) = Some s'"
      and r: "reprio x p s s'" "kinv s' A ((rdy_del s x R)(p := x # rdy_del s x R p)) W T"
      by (rule rdy_ok_reprio [OF K x rdy p u h]) (simp, rule that)
    then obtain s2 where "OS_PrioInsert p (put x (Prio_update (\<lambda>_. p)) s1) = Some s2"
      "OS_RdyListInsertHead (Some x) s2 = Some s'" by (auto simp: bind_eq_Some_iff)
    with True s1(1) cur rdy r show ?thesis
      by (simp add: change_prio_round_def set_tcb_put rdy_move_def Let_def)
  next
    case False
    obtain s' where "Option.bind (OS_PrioInsert p (put x (Prio_update (\<lambda>_. p)) s1))
        (OS_RdyListInsertTail (Some x)) = Some s'"
      and r: "reprio x p s s'" "kinv s' A ((rdy_del s x R)(p := rdy_del s x R p @ [x])) W T"
      by (rule rdy_ok_reprio [OF K x rdy p u t]) (simp, rule that)
    then obtain s2 where "OS_PrioInsert p (put x (Prio_update (\<lambda>_. p)) s1) = Some s2"
      "OS_RdyListInsertTail (Some x) s2 = Some s'" by (auto simp: bind_eq_Some_iff)
    with False s1(1) cur rdy r show ?thesis
      by (simp add: change_prio_round_def set_tcb_put rdy_move_def Let_def)
  qed
qed

text \<open>A task that is neither ready nor on a pend list only gets the new number.\<close>

lemma kinv_not_ready:
  assumes K: "kinv s A R W T" and x: "x \<in> A" and st: "TaskState (OSTCBs s x) \<noteq> OS_TASK_STATE_RDY"
  shows "x \<notin> set (R q)"
  using not_ready_anywhere [OF K x st] .

lemma change_prio_plain:
  assumes K: "kinv s A R W T" and x: "x \<in> A" and st: "TaskState (OSTCBs s x) \<noteq> OS_TASK_STATE_RDY"
    and po: "PendObjPtr (OSTCBs s x) = None" and p: "unat p < OS_CFG_PRIO_MAX"
  shows "\<exists>s'. change_prio_round (Some x) p s = Some (None, p, s') \<and> reprio x p s s' \<and> kinv s' A R W T"
proof -
  note ok = task_okD [OF K x]
  let ?s = "put x (Prio_update (\<lambda>_. p)) s"
  have nO: "\<not> on_object (PendOn (OSTCBs s x))" "TaskState (OSTCBs s x) \<noteq> OS_TASK_STATE_DEL"
    using ok(6) po kinvD(5) [OF K x] by (auto simp: task_ok_def)
  have nW: "x \<notin> set (W b)" for b using ok(4) po by simp
  have "change_prio_round (Some x) p s = Some (None, p, ?s)"
    using st nO
    by (cases "TaskState (OSTCBs s x)") (auto simp: change_prio_round_def set_tcb_put on_object_def)
  moreover have "reprio x p s ?s" by (simp add: reprio_def)
  ultimately show ?thesis using kinv_put_prio [OF K x p kinv_not_ready [OF K x st] nW st] by blast
qed

text \<open>A task on a pend list is moved to the place of its new priority; if it waits for a mutex
  whose owner has a lower priority, the owner is next.\<close>

definition next_owner :: "kernel \<Rightarrow> nat \<Rightarrow> u8 \<Rightarrow> ptr" where
  "next_owner s x p =
     (if PendOn (OSTCBs s x) \<noteq> OS_TASK_PEND_ON_MUTEX then None
      else case PendObjPtr (OSTCBs s x) of None \<Rightarrow> None
        | Some b \<Rightarrow> (case OwnerTCBPtr (OSMutexes s b) of None \<Rightarrow> None
            | Some w \<Rightarrow> if w \<noteq> x \<and> p < Prio (OSTCBs s w) then Some w else None))"

text \<open>A mutex a task waits for has an owner; no task waits for a condition variable.\<close>

definition owned :: "kernel \<Rightarrow> nat set \<Rightarrow> bool" where
  "owned s A \<longleftrightarrow> (\<forall>x\<in>A. \<forall>b. PendOn (OSTCBs s x) = OS_TASK_PEND_ON_MUTEX \<and> PendObjPtr (OSTCBs s x) = Some b
     \<longrightarrow> (\<exists>w\<in>A. OwnerTCBPtr (OSMutexes s b) = Some w))"

definition no_cond :: "kernel \<Rightarrow> nat set \<Rightarrow> bool" where
  "no_cond s A \<longleftrightarrow> (\<forall>x\<in>A. PendOn (OSTCBs s x) \<noteq> OS_TASK_PEND_ON_COND)"

lemma resort_kinv:
  assumes K: "kinv s A R W T" and x: "x \<in> A" and po: "PendObjPtr (OSTCBs s x) = Some b"
    and p: "unat p < OS_CFG_PRIO_MAX"
  shows "\<exists>s'. OS_PendListChangePrio (Some x) (put x (Prio_update (\<lambda>_. p)) s) = Some s' \<and> reprio x p s s' \<and>
    kinv s' A R (W(b := pend_ins (prios s') x (remove1 x (W b)))) T"
proof -
  let ?s = "put x (Prio_update (\<lambda>_. p)) s"
  note ok = task_okD [OF K x]
  have st: "TaskState (OSTCBs s x) \<noteq> OS_TASK_STATE_RDY"
    using ok(5,6) po by (auto simp: pending_def on_object_def)
  have xW: "x \<in> set (W b)" and nW: "\<And>c. c \<noteq> b \<Longrightarrow> x \<notin> set (W c)" using ok(4) po by auto
  have "pend_lists ?s W" using kinvD(2) [OF K] by (simp add: pend_lists_put)
  from OS_PendListChangePrio_spec [OF this xW] obtain n pr pl where
    r: "OS_PendListChangePrio (Some x) ?s = Some (upd_pend n pr (pobj ?s) pl ?s)"
    "pend_lists (upd_pend n pr (pobj ?s) pl ?s) (W(b := pend_ins (prios ?s) x (remove1 x (W b))))"
    by (elim pend_okE)
  let ?s' = "upd_pend n pr (pobj ?s) pl ?s"
  have pe: "prios ?s' = prios ?s" by (simp add: fun_eq_iff)
  have rp: "reprio x p s ?s'"
    using moved_trans [OF moved_put moved_upd_pend] by (simp add: reprio_def core_def) (simp add: pobj_def)
  let ?W = "W(b := pend_ins (prios ?s') x (remove1 x (W b)))"
  have rdy: "rdy_rel ?s' R"
    using rdy_rel_put_prio [OF kinvD(1) [OF K] kinv_not_ready [OF K x st]] by simp
  have d: "distinct (W b)" using kinv_distinct(2) [OF K] .
  have "sorted (map (prios ?s') (?W c))" for c
  proof (cases "c = b")
    case True
    have e: "map (prios ?s') (remove1 x (W b)) = map (prios s) (remove1 x (W b))"
      using d by (intro map_cong) (auto simp: pe)
    have "sorted (map (prios s) (remove1 x (W b)))"
      using kinvD(3) [OF K] by (simp add: pend_sorted_def sorted_map_remove1)
    then have "sorted (map (prios ?s') (remove1 x (W b)))" unfolding e .
    then show ?thesis using True by (simp add: sorted_pend_ins)
  next
    case False
    have e: "map (prios ?s') (W c) = map (prios s) (W c)"
      using nW [OF False] by (intro map_cong) (auto simp: pe)
    have "sorted (map (prios s) (W c))" using kinvD(3) [OF K] by (simp add: pend_sorted_def)
    then have "sorted (map (prios ?s') (W c))" unfolding e .
    then show ?thesis using False by simp
  qed
  then have srt: "pend_sorted ?s' ?W" by (simp add: pend_sorted_def)
  have tick: "tick_lists ?s' T" using kinvD(4) [OF K] by (simp add: tick_lists_put)
  have tok: "task_ok ?s' R ?W T x"
    using kinvD(5) [OF K x] p st po kinv_not_ready [OF K x st] by (auto simp: task_ok_def pobj_def)
  have m: "moved x s ?s'" using rp by (simp add: reprio_def)
  have W': "set (?W c) - {x} = set (W c) - {x}" for c by (auto simp: set_remove1_minus)
  have "kinv ?s' A R ?W T"
    by (rule kinv_change [OF K x rdy _ srt tick moved_sel(17) [OF m] refl W' refl tok]) (use r(2) pe in simp)
  with r(1) rp show ?thesis by blast
qed

lemma change_prio_waiting:
  assumes K: "kinv s A R W T" and x: "x \<in> A" and po: "PendObjPtr (OSTCBs s x) = Some b"
    and p: "p < Prio (OSTCBs s x)" and ow: "owned s A" and nc: "no_cond s A"
  shows "\<exists>s'. change_prio_round (Some x) p s = Some (next_owner s x p, p, s') \<and> reprio x p s s' \<and>
    kinv s' A R (W(b := pend_ins (prios s') x (remove1 x (W b)))) T"
proof -
  note ok = task_okD [OF K x]
  have p': "unat p < OS_CFG_PRIO_MAX" using ok(1) p by (simp add: word_less_nat_alt)
  from resort_kinv [OF K x po p'] obtain s' where
    s': "OS_PendListChangePrio (Some x) (put x (Prio_update (\<lambda>_. p)) s) = Some s'" "reprio x p s s'"
    "kinv s' A R (W(b := pend_ins (prios s') x (remove1 x (W b)))) T" by blast
  note rs = reprio_sel [OF s'(2)]
  have pd: "pending (TaskState (OSTCBs s x))" "on_object (PendOn (OSTCBs s x))"
    using ok(5,6) po by (auto simp: on_object_def)
  have st: "TaskState (OSTCBs s x) \<in> {OS_TASK_STATE_PEND, OS_TASK_STATE_PEND_TIMEOUT,
      OS_TASK_STATE_PEND_SUSPENDED, OS_TASK_STATE_PEND_TIMEOUT_SUSPENDED}" using pd(1) by (simp add: pending_def)
  have "change_prio_round (Some x) p s = Some (next_owner s x p, p, s')"
  proof (cases "PendOn (OSTCBs s x) = OS_TASK_PEND_ON_MUTEX")
    case False
    then have "PendOn (OSTCBs s x) \<in> {OS_TASK_PEND_ON_FLAG, OS_TASK_PEND_ON_Q, OS_TASK_PEND_ON_SEM}"
      using pd(2) nc x by (auto simp: on_object_def no_cond_def)
    then show ?thesis using st False s'(1)
      by (elim insertE emptyE) (simp_all add: change_prio_round_def set_tcb_put next_owner_def)
  next
    case True
    then obtain w where w: "OwnerTCBPtr (OSMutexes s b) = Some w" using ow po x by (auto simp: owned_def)
    have nx: "next_owner s x p = (if Prio (OSTCBs s' w) \<le> p then None else Some w)"
      using True po w p rs(1) [of w] by (auto simp: next_owner_def not_le)
    show ?thesis unfolding nx using st True s'(1) p rs(3) [of x] rs(7) po w
      by (elim insertE emptyE) (simp_all add: change_prio_round_def set_tcb_put)
  qed
  with s'(2,3) show ?thesis by blast
qed

section \<open>Raising a priority\<close>

text \<open>No owner of a mutex has a lower priority (a greater number) than a task that waits for it.
  \<open>uninverted_but\<close> allows it for the task \<open>x\<close> that is about to get the priority \<open>p\<close>.\<close>

definition waits_for :: "kernel \<Rightarrow> nat \<Rightarrow> nat \<Rightarrow> bool" where
  "waits_for s a w \<longleftrightarrow> PendOn (OSTCBs s a) = OS_TASK_PEND_ON_MUTEX \<and>
     (\<exists>b. PendObjPtr (OSTCBs s a) = Some b \<and> OwnerTCBPtr (OSMutexes s b) = Some w)"

definition uninverted :: "kernel \<Rightarrow> nat set \<Rightarrow> bool" where
  "uninverted s A \<longleftrightarrow> (\<forall>a\<in>A. \<forall>w. waits_for s a w \<longrightarrow> Prio (OSTCBs s w) \<le> Prio (OSTCBs s a))"

definition uninverted_but :: "nat \<Rightarrow> u8 \<Rightarrow> kernel \<Rightarrow> nat set \<Rightarrow> bool" where
  "uninverted_but x p s A \<longleftrightarrow> (\<forall>a\<in>A. \<forall>w. waits_for s a w \<longrightarrow>
     Prio (OSTCBs s w) \<le> Prio (OSTCBs s a) \<or> w = x \<and> p \<le> Prio (OSTCBs s a))"

lemma uninverted_but_mono: "uninverted s A \<Longrightarrow> uninverted_but x p s A"
  by (auto simp: uninverted_def uninverted_but_def)

text \<open>The priority \<open>p\<close> has been given to some tasks with a lower one; nothing else has changed.\<close>

definition raised :: "u8 \<Rightarrow> nat set \<Rightarrow> kernel \<Rightarrow> kernel \<Rightarrow> bool" where
  "raised p A s s' \<longleftrightarrow> moved_set A s s' \<and>
     (\<forall>c. core (OSTCBs s' c) = core ((OSTCBs s c)\<lparr>Prio := Prio (OSTCBs s' c)\<rparr>) \<and>
       (Prio (OSTCBs s' c) = Prio (OSTCBs s c) \<or> p < Prio (OSTCBs s c) \<and> Prio (OSTCBs s' c) = p))"

lemma core_Prio: "core (t\<lparr>Prio := q\<rparr>) = (core t)\<lparr>Prio := q\<rparr>"
  by (simp add: core_def)

lemma raised_sel:
  assumes "raised p A s s'"
  shows "moved_set A s s'" "PendOn (OSTCBs s' c) = PendOn (OSTCBs s c)"
    "PendObjPtr (OSTCBs s' c) = PendObjPtr (OSTCBs s c)" "TaskState (OSTCBs s' c) = TaskState (OSTCBs s c)"
    "Prio (OSTCBs s' c) = Prio (OSTCBs s c) \<or> p < Prio (OSTCBs s c) \<and> Prio (OSTCBs s' c) = p"
    "OSMutexes s' = OSMutexes s" "waits_for s' = waits_for s"
proof -
  show "moved_set A s s'" using assms by (simp add: raised_def)
  then show mx: "OSMutexes s' = OSMutexes s" by (auto simp: moved_set_def)
  have e: "core (OSTCBs s' c) = core ((OSTCBs s c)\<lparr>Prio := Prio (OSTCBs s' c)\<rparr>)" for c
    using assms by (simp add: raised_def)
  have po: "PendOn (OSTCBs s' c) = PendOn (OSTCBs s c)" "PendObjPtr (OSTCBs s' c) = PendObjPtr (OSTCBs s c)" for c
    using core_eqI(2,3) [OF e [of c]] by simp_all
  show "TaskState (OSTCBs s' c) = TaskState (OSTCBs s c)" using core_eqI(1) [OF e] by simp
  show "waits_for s' = waits_for s" by (simp add: waits_for_def fun_eq_iff po mx)
  show "PendOn (OSTCBs s' c) = PendOn (OSTCBs s c)" "PendObjPtr (OSTCBs s' c) = PendObjPtr (OSTCBs s c)"
    using po by blast+
qed (use assms in \<open>simp_all add: raised_def\<close>)

lemma raised_one:
  assumes rp: "reprio x p s s'" and x: "x \<in> A" and p: "p < Prio (OSTCBs s x)"
  shows "raised p A s s'"
proof -
  have m: "moved x s s'" and e: "core (OSTCBs s' x) = core ((OSTCBs s x)\<lparr>Prio := p\<rparr>)"
    using rp by (simp_all add: reprio_def)
  have "moved_set A s s'" using m x by (simp add: moved_set_single moved_set_mono)
  moreover have "core (OSTCBs s' c) = core ((OSTCBs s c)\<lparr>Prio := Prio (OSTCBs s' c)\<rparr>)" for c
  proof (cases "c = x")
    case True
    then show ?thesis using e reprio_sel(1) [OF rp, of x] by simp
  next
    case False
    have "core (OSTCBs s' c) = core (OSTCBs s c)" using moved_sel(17) [OF m False] .
    moreover have "Prio (OSTCBs s' c) = Prio (OSTCBs s c)" using reprio_sel(1) [OF rp, of c] False by simp
    ultimately show ?thesis by (simp add: core_Prio)
  qed
  moreover have "Prio (OSTCBs s' c) = Prio (OSTCBs s c) \<or> p < Prio (OSTCBs s c) \<and> Prio (OSTCBs s' c) = p" for c
    using reprio_sel(1) [OF rp, of c] p by auto
  ultimately show ?thesis by (simp add: raised_def)
qed

lemma raised_trans:
  assumes a: "raised p A s s1" and b: "raised p A s1 s'"
  shows "raised p A s s'"
proof -
  have "core (OSTCBs s' c) = core ((OSTCBs s c)\<lparr>Prio := Prio (OSTCBs s' c)\<rparr>)" for c
  proof -
    have "core (OSTCBs s1 c) = core ((OSTCBs s c)\<lparr>Prio := Prio (OSTCBs s1 c)\<rparr>)"
      "core (OSTCBs s' c) = core ((OSTCBs s1 c)\<lparr>Prio := Prio (OSTCBs s' c)\<rparr>)"
      using a b by (simp_all add: raised_def)
    then show ?thesis by (simp add: core_Prio)
  qed
  moreover have "Prio (OSTCBs s' c) = Prio (OSTCBs s c) \<or> p < Prio (OSTCBs s c) \<and> Prio (OSTCBs s' c) = p" for c
    using raised_sel(5) [OF a, of c] raised_sel(5) [OF b, of c] by auto
  ultimately show ?thesis
    using moved_set_trans [OF raised_sel(1) [OF a] raised_sel(1) [OF b]] by (simp add: raised_def)
qed

lemma raised_conditions:
  assumes "raised p A s s'"
  shows "owned s' A \<longleftrightarrow> owned s A" "no_cond s' A \<longleftrightarrow> no_cond s A"
  using raised_sel(2,3,6) [OF assms] by (simp_all add: owned_def no_cond_def)

text \<open>One round for a priority that is raised: either nothing is inverted any more, or only the
  next owner is.\<close>

lemma raise_round:
  assumes K: "kinv s A R W T" and x: "x \<in> A" and p: "p < Prio (OSTCBs s x)"
    and ow: "owned s A" and nc: "no_cond s A" and ub: "uninverted_but x p s A"
  obtains s1 nx R1 W1 where "change_prio_round (Some x) p s = Some (nx, p, s1)" "reprio x p s s1"
    "kinv s1 A R1 W1 T"
    "case nx of None \<Rightarrow> uninverted s1 A
      | Some w \<Rightarrow> w \<in> A \<and> p < Prio (OSTCBs s1 w) \<and> uninverted_but w p s1 A \<and> waits_for s x w"
proof -
  have p': "unat p < OS_CFG_PRIO_MAX"
    using task_okD(1) [OF K x] p by (simp add: word_less_nat_alt)
  have keep: "w = x \<or> Prio (OSTCBs s1 w) \<le> Prio (OSTCBs s1 a)"
    if rp: "reprio x p s s1" and a: "a \<in> A" "a \<noteq> x" and e: "waits_for s a w" for a w s1
    using ub a e reprio_sel(1) [OF rp] by (auto simp: uninverted_but_def)
  have onx: "Prio (OSTCBs s1 x) \<le> Prio (OSTCBs s1 a)"
    if rp: "reprio x p s s1" and a: "a \<in> A" and e: "waits_for s a x" for a s1
  proof -
    have "Prio (OSTCBs s x) \<le> Prio (OSTCBs s a) \<or> p \<le> Prio (OSTCBs s a)"
      using ub a e by (auto simp: uninverted_but_def)
    then have "p \<le> Prio (OSTCBs s a)" using p by auto
    then show ?thesis using reprio_sel(1) [OF rp] by simp
  qed
  have wf: "waits_for s1 = waits_for s" if rp: "reprio x p s s1" for s1
    using reprio_sel(2,3,7) [OF rp] by (simp add: waits_for_def fun_eq_iff)
  show thesis
  proof (cases "PendObjPtr (OSTCBs s x)")
    case None
    have "\<exists>s1 R1. change_prio_round (Some x) p s = Some (None, p, s1) \<and> reprio x p s s1 \<and> kinv s1 A R1 W T"
      using change_prio_ready [OF K x _ p'] change_prio_plain [OF K x _ None p'] by blast
    then obtain s1 R1 where s1: "change_prio_round (Some x) p s = Some (None, p, s1)" "reprio x p s s1"
      "kinv s1 A R1 W T" by blast
    have "\<not> waits_for s x w" for w using None by (simp add: waits_for_def)
    then have "uninverted s1 A" unfolding uninverted_def wf [OF s1(2)]
      using keep [OF s1(2)] onx [OF s1(2)] by metis
    with s1 show thesis by (intro that [of None s1 R1 W]) simp_all
  next
    case (Some b)
    from change_prio_waiting [OF K x Some p ow nc] obtain s1 where
      s1: "change_prio_round (Some x) p s = Some (next_owner s x p, p, s1)" "reprio x p s s1"
      "kinv s1 A R (W(b := pend_ins (prios s1) x (remove1 x (W b)))) T" by blast
    have own: "w \<in> A" if "waits_for s x w" for w
      using that ow x by (fastforce simp: waits_for_def owned_def)
    show thesis
    proof (cases "next_owner s x p")
      case None
      have "Prio (OSTCBs s1 w) \<le> Prio (OSTCBs s1 x)" if "waits_for s x w" for w
        using that None reprio_sel(1) [OF s1(2)]
        by (auto simp: waits_for_def next_owner_def not_less split: if_splits)
      then have "uninverted s1 A" unfolding uninverted_def wf [OF s1(2)]
        using keep [OF s1(2)] onx [OF s1(2)] by metis
      with s1 None show thesis by (intro that [of None s1]) simp_all
    next
      case (Some w)
      then have w: "waits_for s x w" "w \<noteq> x" "p < Prio (OSTCBs s w)"
        by (auto simp: next_owner_def waits_for_def split: if_splits option.splits)
      have only: "w' = w" if "waits_for s x w'" for w' using that w(1) by (auto simp: waits_for_def)
      have px: "Prio (OSTCBs s1 x) = p" using reprio_sel(1) [OF s1(2)] by simp
      have "uninverted_but w p s1 A" unfolding uninverted_but_def wf [OF s1(2)]
        using keep [OF s1(2)] onx [OF s1(2)] only px by (metis order_refl)
      moreover have "p < Prio (OSTCBs s1 w)" using w reprio_sel(1) [OF s1(2)] by simp
      ultimately show thesis using s1 Some own [OF w(1)] w(1) by (intro that [of "Some w" s1]) simp_all
    qed
  qed
qed

text \<open>The loop ends: every round takes a task out of the tasks with a lower priority than \<open>p\<close>.\<close>

lemma change_prio_raise:
  "kinv s A R W T \<Longrightarrow> x \<in> A \<Longrightarrow> p < Prio (OSTCBs s x) \<Longrightarrow> owned s A \<Longrightarrow> no_cond s A \<Longrightarrow>
   uninverted_but x p s A \<Longrightarrow> finite A \<Longrightarrow>
   \<exists>s' R' W'. OS_TaskChangePrio (Some x) p s = Some s' \<and> kinv s' A R' W' T \<and> uninverted s' A \<and>
     raised p A s s' \<and> Prio (OSTCBs s' x) = p \<and>
     (\<forall>c. Prio (OSTCBs s' c) \<noteq> Prio (OSTCBs s c) \<longrightarrow> c = x \<or> (\<exists>a\<in>A. waits_for s a c \<and> Prio (OSTCBs s' a) = p))"
proof (induction "card {a \<in> A. p < Prio (OSTCBs s a)}" arbitrary: s x R W rule: less_induct)
  case less
  obtain s1 nx R1 W1 where r: "change_prio_round (Some x) p s = Some (nx, p, s1)" "reprio x p s s1"
    "kinv s1 A R1 W1 T"
    "case nx of None \<Rightarrow> uninverted s1 A
      | Some w \<Rightarrow> w \<in> A \<and> p < Prio (OSTCBs s1 w) \<and> uninverted_but w p s1 A \<and> waits_for s x w"
    by (rule raise_round [OF less.prems(1-6)]) (rule that)
  have rz: "raised p A s s1" by (rule raised_one [OF r(2) less.prems(2,3)])
  have px: "Prio (OSTCBs s1 x) = p" and other: "\<And>c. c \<noteq> x \<Longrightarrow> Prio (OSTCBs s1 c) = Prio (OSTCBs s c)"
    using reprio_sel(1) [OF r(2)] by simp_all
  show ?case
  proof (cases nx)
    case None
    then have "OS_TaskChangePrio (Some x) p s = Some s1"
      using r(1) by (subst OS_TaskChangePrio.simps) simp
    then show ?thesis using r(3,4) None rz px other by (intro exI [of _ s1] exI [of _ R1] exI [of _ W1]) auto
  next
    case (Some w)
    have "{a \<in> A. p < Prio (OSTCBs s1 a)} \<subset> {a \<in> A. p < Prio (OSTCBs s a)}"
      using reprio_sel(1) [OF r(2)] less.prems(2,3) by (auto split: if_splits)
    then have "card {a \<in> A. p < Prio (OSTCBs s1 a)} < card {a \<in> A. p < Prio (OSTCBs s a)}"
      using less.prems(7) by (intro psubset_card_mono) simp_all
    moreover have w: "w \<in> A" "p < Prio (OSTCBs s1 w)" "uninverted_but w p s1 A" and xw: "waits_for s x w"
      using r(4) Some by simp_all
    moreover have "owned s1 A" "no_cond s1 A" using raised_conditions [OF rz] less.prems(4,5) by simp_all
    ultimately obtain s' R' W' where s': "OS_TaskChangePrio (Some w) p s1 = Some s'"
      "kinv s' A R' W' T" "uninverted s' A" "raised p A s1 s'"
      "\<forall>c. Prio (OSTCBs s' c) \<noteq> Prio (OSTCBs s1 c) \<longrightarrow> c = w \<or> (\<exists>a\<in>A. waits_for s1 a c \<and> Prio (OSTCBs s' a) = p)"
      using less.hyps [where s = s1 and x = w and R = R1 and W = W1] r(3) less.prems(7) by blast
    have "OS_TaskChangePrio (Some x) p s = Some s'"
      using r(1) s'(1) Some by (subst OS_TaskChangePrio.simps) simp
    moreover have "raised p A s s'" by (rule raised_trans [OF rz s'(4)])
    moreover have px': "Prio (OSTCBs s' x) = p" using raised_sel(5) [OF s'(4), of x] px by auto
    moreover have "c = x \<or> (\<exists>a\<in>A. waits_for s a c \<and> Prio (OSTCBs s' a) = p)"
      if "Prio (OSTCBs s' c) \<noteq> Prio (OSTCBs s c)" for c
      using that s'(5) other xw px' less.prems(2) unfolding raised_sel(7) [OF rz] by metis
    ultimately show ?thesis using s'(2,3) by blast
  qed
qed

end
