(* ===== verification/Mutex_Grp.thy ===== *)
theory Mutex_Grp
  imports Prio_Inherit
begin

text \<open>
  The mutexes a task owns (its mutex group), the invariant of the mutexes, and what the locking
  and unlocking of \<open>os_mutex.c\<close> do to it.
\<close>

section \<open>Mutex groups\<close>

text \<open>The bookkeeping of the mutexes changes the mutexes and the heads of the groups only.\<close>

definition mx_frame :: "kernel \<Rightarrow> kernel \<Rightarrow> bool" where
  "mx_frame s s' \<longleftrightarrow> (\<exists>hd mx. s' = s\<lparr>OSTCBs := (\<lambda>c. (OSTCBs s c)\<lparr>MutexGrpHeadPtr := hd c\<rparr>), OSMutexes := mx\<rparr>)"

lemma mx_frame_put: "mx_frame s (put a (MutexGrpHeadPtr_update (\<lambda>_. h)) s)"
  unfolding mx_frame_def
  by (rule exI [of _ "\<lambda>c. if c = a then h else MutexGrpHeadPtr (OSTCBs s c)"], rule exI [of _ "OSMutexes s"])
    (simp add: put_def fun_eq_iff)

lemma mx_frame_mutexes: "mx_frame s (s\<lparr>OSMutexes := mx\<rparr>)"
  unfolding mx_frame_def
  by (rule exI [of _ "\<lambda>c. MutexGrpHeadPtr (OSTCBs s c)"], rule exI [of _ mx]) simp

lemma mx_frame_refl: "mx_frame s s"
  using mx_frame_mutexes [of s "OSMutexes s"] by simp

lemma mx_frame_trans: "mx_frame s s1 \<Longrightarrow> mx_frame s1 s' \<Longrightarrow> mx_frame s s'"
  unfolding mx_frame_def by (elim exE) (simp, blast)

lemma mx_frame_sel:
  assumes "mx_frame s s'"
  shows "Prio (OSTCBs s' c) = Prio (OSTCBs s c)" "BasePrio (OSTCBs s' c) = BasePrio (OSTCBs s c)"
    "PendOn (OSTCBs s' c) = PendOn (OSTCBs s c)" "PendObjPtr (OSTCBs s' c) = PendObjPtr (OSTCBs s c)"
    "TaskState (OSTCBs s' c) = TaskState (OSTCBs s c)" "OSObjs s' = OSObjs s"
    "OSTCBCurPtr s' = OSTCBCurPtr s" "OSRunning s' = OSRunning s"
    "OSIntNestingCtr s' = OSIntNestingCtr s" "OSSchedLockNestingCtr s' = OSSchedLockNestingCtr s"
    "OSPrioCur s' = OSPrioCur s"
  using assms by (auto simp: mx_frame_def)

lemma mx_frame_kinv: "mx_frame s s' \<Longrightarrow> kinv s' A R W T \<longleftrightarrow> kinv s A R W T"
  unfolding mx_frame_def
  by (elim exE) (simp, rule kinv_cong; (rule rdy_rel_cong pend_lists_cong tick_lists_cong)?; simp)

text \<open>What a mutex says about its owner, without its place in the group.\<close>

definition mbody :: "OS_MUTEX \<Rightarrow> ptr \<times> u8 \<times> u32" where
  "mbody m = (OwnerTCBPtr m, OwnerNestingCtr m, Mutex_TS m)"

definition mgn :: "kernel \<Rightarrow> nat \<Rightarrow> ptr" where "mgn s = (\<lambda>m. MutexGrpNextPtr (OSMutexes s m))"

text \<open>\<open>own t\<close> are the mutexes in the group of \<open>t\<close>, the one taken last first.\<close>

definition groups :: "kernel \<Rightarrow> nat set \<Rightarrow> (nat \<Rightarrow> nat list) \<Rightarrow> bool" where
  "groups s A own \<longleftrightarrow> (\<forall>t\<in>A. sll (mgn s) (MutexGrpHeadPtr (OSTCBs s t)) (own t)) \<and>
     (\<forall>t\<in>A. \<forall>u\<in>A. t \<noteq> u \<longrightarrow> set (own t) \<inter> set (own u) = {})"

lemma groupsD:
  assumes "groups s A own" and "t \<in> A"
  shows "sll (mgn s) (MutexGrpHeadPtr (OSTCBs s t)) (own t)" "distinct (own t)"
    "\<And>u. u \<in> A \<Longrightarrow> t \<noteq> u \<Longrightarrow> set (own t) \<inter> set (own u) = {}"
  using assms by (auto simp: groups_def sll_def)

lemma groups_cong:
  assumes "\<And>t. MutexGrpHeadPtr (OSTCBs s' t) = MutexGrpHeadPtr (OSTCBs s t)"
    and "\<And>m. MutexGrpNextPtr (OSMutexes s' m) = MutexGrpNextPtr (OSMutexes s m)"
  shows "groups s' A own \<longleftrightarrow> groups s A own"
  using assms by (simp add: groups_def mgn_def)

lemma set_mutex_Some [simp]:
  "set_mutex (Some b) f s = Some (s\<lparr>OSMutexes := (OSMutexes s)(b := f (OSMutexes s b))\<rparr>)"
  by (simp add: set_mutex_def)

lemma OS_MutexGrpAdd_spec:
  assumes G: "groups s A own" and t: "t \<in> A" and b: "\<And>u. u \<in> A \<Longrightarrow> b \<notin> set (own u)"
  obtains s' where "OS_MutexGrpAdd (Some t) (Some b) s = Some s'" "mx_frame s s'"
    "groups s' A (own(t := b # own t))" "\<And>m. mbody (OSMutexes s' m) = mbody (OSMutexes s m)"
proof -
  let ?h = "MutexGrpHeadPtr (OSTCBs s t)"
  let ?s1 = "s\<lparr>OSMutexes := (OSMutexes s)(b := (OSMutexes s b)\<lparr>MutexGrpNextPtr := ?h\<rparr>)\<rparr>"
  let ?s = "put t (MutexGrpHeadPtr_update (\<lambda>_. Some b)) ?s1"
  have n: "mgn ?s = (mgn s)(b := ?h)" by (auto simp: mgn_def)
  have "sll (mgn ?s) (MutexGrpHeadPtr (OSTCBs ?s u)) ((own(t := b # own t)) u)" if u: "u \<in> A" for u
    using groupsD(1) [OF G u] groupsD(1) [OF G t] b [OF u] b [OF t]
    by (simp add: n sll_Cons sll_upd_other)
  moreover have "set ((own(t := b # own t)) u) \<inter> set ((own(t := b # own t)) v) = {}"
    if "u \<in> A" "v \<in> A" "u \<noteq> v" for u v
    using groupsD(3) [OF G that] b [OF that(1)] b [OF that(2)] that(3) by (cases "u = t"; cases "v = t") auto
  ultimately have "groups ?s A (own(t := b # own t))" unfolding groups_def by blast
  moreover have "OS_MutexGrpAdd (Some t) (Some b) s = Some ?s"
    by (simp add: OS_MutexGrpAdd_def set_tcb_put)
  ultimately show thesis
    using mx_frame_trans [OF mx_frame_mutexes mx_frame_put] by (intro that [of ?s]) (simp_all add: mbody_def)
qed

lemma grp_find_spec:
  "lnk (mgn s) (as @ b # bs) None \<Longrightarrow> b \<notin> set as \<Longrightarrow> prev = hdo (rev ps) \<Longrightarrow>
   grp_find (Some b) prev (hdo (as @ b # bs)) s = Some (hdo (rev (ps @ as)))"
proof (induction as arbitrary: prev ps)
  case Nil
  then show ?case by (subst grp_find.simps) simp
next
  case (Cons a as)
  from Cons.prems(1) have n: "mgn s a = hdo (as @ b # bs)" "lnk (mgn s) (as @ b # bs) None"
    by (cases as; simp)+
  from Cons.IH [OF n(2), of "Some a" "ps @ [a]"] Cons.prems(2) n(1) show ?case
    by (subst grp_find.simps) (simp add: mgn_def)
qed

lemma OS_MutexGrpRemove_spec:
  assumes G: "groups s A own" and t: "t \<in> A" and b: "b \<in> set (own t)"
  obtains s' where "OS_MutexGrpRemove (Some t) (Some b) s = Some s'" "mx_frame s s'"
    "groups s' A (own(t := remove1 b (own t)))" "\<And>m. mbody (OSMutexes s' m) = mbody (OSMutexes s m)"
proof -
  obtain as bs where ab: "own t = as @ b # bs" using b by (meson split_list)
  note S = groupsD(1) [OF G t, unfolded ab sll_def]
  have d: "b \<notin> set as" "b \<notin> set bs" using S by auto
  have rm: "remove1 b (own t) = as @ bs" using d ab by (simp add: remove1_append)
  have f: "grp_find (Some b) None (MutexGrpHeadPtr (OSTCBs s t)) s = Some (hdo (rev as))"
    using grp_find_spec [of s as b bs None "[]"] S d by simp
  have nb: "MutexGrpNextPtr (OSMutexes s b) = hdo bs"
    using S by (auto simp: lnk_append mgn_def)
  have dis: "set ((own(t := as @ bs)) u) \<inter> set ((own(t := as @ bs)) v) = {}"
    if "u \<in> A" "v \<in> A" "u \<noteq> v" for u v
    using groupsD(3) [OF G that] that(3) ab by auto
  show thesis
  proof (cases as rule: rev_cases)
    case Nil
    let ?s = "put t (MutexGrpHeadPtr_update (\<lambda>_. hdo bs)) s"
    have "mgn ?s = mgn s" by (simp add: mgn_def)
    then have "sll (mgn ?s) (MutexGrpHeadPtr (OSTCBs ?s u)) ((own(t := as @ bs)) u)" if "u \<in> A" for u
      using groupsD(1) [OF G that] S Nil by (auto simp: sll_def)
    with dis have "groups ?s A (own(t := as @ bs))" unfolding groups_def by blast
    moreover have "OS_MutexGrpRemove (Some t) (Some b) s = Some ?s"
      using f nb Nil by (simp add: OS_MutexGrpRemove_def set_tcb_put)
    ultimately show thesis using rm by (intro that [of ?s]) (simp_all add: mx_frame_put)
  next
    case (snoc as' a)
    let ?s = "s\<lparr>OSMutexes := (OSMutexes s)(a := (OSMutexes s a)\<lparr>MutexGrpNextPtr := hdo bs\<rparr>)\<rparr>"
    have n: "mgn ?s = (mgn s)(a := hdo bs)" by (auto simp: mgn_def)
    have "sll (mgn ?s) (MutexGrpHeadPtr (OSTCBs ?s u)) ((own(t := as @ bs)) u)" if "u \<in> A" for u
    proof (cases "u = t")
      case True
      have "a \<notin> set bs" "a \<notin> set as'" using S snoc by auto
      then show ?thesis using S snoc True n by (auto simp: sll_def lnk_append hdo_append)
    next
      case False
      have "a \<in> set (own t)" using ab snoc by simp
      then have "a \<notin> set (own u)" using groupsD(3) [OF G that t] False by blast
      then show ?thesis using groupsD(1) [OF G that] False n by (simp add: sll_upd_other)
    qed
    with dis have "groups ?s A (own(t := as @ bs))" unfolding groups_def by blast
    moreover have "OS_MutexGrpRemove (Some t) (Some b) s = Some ?s"
      using f nb snoc by (simp add: OS_MutexGrpRemove_def)
    ultimately show thesis using rm by (intro that [of ?s]) (simp_all add: mx_frame_mutexes mbody_def)
  qed
qed

section \<open>The invariant of the mutexes\<close>

text \<open>\<open>M\<close> are the mutexes that exist. The group of a task holds exactly the mutexes it owns; a
  mutex without an owner is not locked and no task waits for it.\<close>

definition mutex_inv :: "kernel \<Rightarrow> nat set \<Rightarrow> nat set \<Rightarrow> (nat \<Rightarrow> nat list) \<Rightarrow> (nat \<Rightarrow> nat list) \<Rightarrow> bool" where
  "mutex_inv s A M W own \<longleftrightarrow> groups s A own \<and>
     (\<forall>t\<in>A. set (own t) = {b \<in> M. OwnerTCBPtr (OSMutexes s b) = Some t}) \<and>
     (\<forall>b\<in>M. Type (OSObjs s b) = OS_OBJ_TYPE_MUTEX \<and>
       (case OwnerTCBPtr (OSMutexes s b) of
          None \<Rightarrow> OwnerNestingCtr (OSMutexes s b) = 0 \<and> W b = []
        | Some t \<Rightarrow> OwnerNestingCtr (OSMutexes s b) \<noteq> 0 \<and> t \<in> A) \<and>
       (\<forall>a\<in>set (W b). PendOn (OSTCBs s a) = OS_TASK_PEND_ON_MUTEX)) \<and>
     (\<forall>a\<in>A. PendOn (OSTCBs s a) = OS_TASK_PEND_ON_MUTEX \<longrightarrow> (\<exists>b\<in>M. PendObjPtr (OSTCBs s a) = Some b))"

lemma mutex_invD:
  assumes "mutex_inv s A M W own"
  shows "groups s A own"
    "\<And>t. t \<in> A \<Longrightarrow> set (own t) = {b \<in> M. OwnerTCBPtr (OSMutexes s b) = Some t}"
    "\<And>b. b \<in> M \<Longrightarrow> Type (OSObjs s b) = OS_OBJ_TYPE_MUTEX"
    "\<And>b. b \<in> M \<Longrightarrow> OwnerTCBPtr (OSMutexes s b) = None \<Longrightarrow> OwnerNestingCtr (OSMutexes s b) = 0 \<and> W b = []"
    "\<And>b t. b \<in> M \<Longrightarrow> OwnerTCBPtr (OSMutexes s b) = Some t \<Longrightarrow> OwnerNestingCtr (OSMutexes s b) \<noteq> 0 \<and> t \<in> A"
    "\<And>b a. b \<in> M \<Longrightarrow> a \<in> set (W b) \<Longrightarrow> PendOn (OSTCBs s a) = OS_TASK_PEND_ON_MUTEX"
    "\<And>a. a \<in> A \<Longrightarrow> PendOn (OSTCBs s a) = OS_TASK_PEND_ON_MUTEX \<Longrightarrow> \<exists>b\<in>M. PendObjPtr (OSTCBs s a) = Some b"
  using assms by (auto simp: mutex_inv_def split: option.splits)

lemma mutex_inv_owned:
  assumes K: "kinv s A R W T" and I: "mutex_inv s A M W own"
  shows "owned s A"
  unfolding owned_def
proof (intro ballI allI impI, elim conjE)
  fix a b assume a: "a \<in> A" "PendOn (OSTCBs s a) = OS_TASK_PEND_ON_MUTEX" "PendObjPtr (OSTCBs s a) = Some b"
  then have b: "b \<in> M" using mutex_invD(7) [OF I a(1,2)] by auto
  have "a \<in> set (W b)" using task_okD(4) [OF K a(1)] a(3) by simp
  then obtain w where w: "OwnerTCBPtr (OSMutexes s b) = Some w"
    using mutex_invD(4) [OF I b] by (cases "OwnerTCBPtr (OSMutexes s b)") auto
  with mutex_invD(5) [OF I b w] show "\<exists>w\<in>A. OwnerTCBPtr (OSMutexes s b) = Some w" by blast
qed

text \<open>The tasks that wait for a task are those on the pend lists of its mutexes.\<close>

lemma waits_for_own:
  assumes K: "kinv s A R W T" and I: "mutex_inv s A M W own" and a: "a \<in> A" and t: "t \<in> A"
  shows "waits_for s a t \<longleftrightarrow> (\<exists>b\<in>set (own t). a \<in> set (W b))"
proof
  assume "waits_for s a t"
  then obtain b where b: "PendOn (OSTCBs s a) = OS_TASK_PEND_ON_MUTEX" "PendObjPtr (OSTCBs s a) = Some b"
    "OwnerTCBPtr (OSMutexes s b) = Some t" by (auto simp: waits_for_def)
  then have "b \<in> M" using mutex_invD(7) [OF I a] by auto
  with b show "\<exists>b\<in>set (own t). a \<in> set (W b)"
    using mutex_invD(2) [OF I t] task_okD(4) [OF K a] by auto
next
  assume "\<exists>b\<in>set (own t). a \<in> set (W b)"
  then obtain b where b: "b \<in> M" "OwnerTCBPtr (OSMutexes s b) = Some t" "a \<in> set (W b)"
    using mutex_invD(2) [OF I t] by auto
  then show "waits_for s a t"
    using mutex_invD(6) [OF I b(1,3)] waiterD(3) [OF K b(3)] by (simp add: waits_for_def)
qed

text \<open>The invariant is about the mutexes, the heads of the groups, and who waits for what.\<close>

lemma mutex_inv_cong:
  assumes "OSMutexes s' = OSMutexes s" "\<And>t. MutexGrpHeadPtr (OSTCBs s' t) = MutexGrpHeadPtr (OSTCBs s t)"
    "\<And>b. Type (OSObjs s' b) = Type (OSObjs s b)" "\<And>a. PendOn (OSTCBs s' a) = PendOn (OSTCBs s a)"
    "\<And>a. PendObjPtr (OSTCBs s' a) = PendObjPtr (OSTCBs s a)"
  shows "mutex_inv s' A M W own \<longleftrightarrow> mutex_inv s A M W own"
  using assms groups_cong [OF assms(2), of A own] by (simp add: mutex_inv_def cong: option.case_cong)

section \<open>The priority that the owned mutexes leave to a task\<close>

lemma grp_highest_spec:
  assumes "\<And>m. PL_HeadPtr (PendList (OSObjs s m)) = hdo (W m)"
  shows "lnk (mgn s) ms None \<Longrightarrow> \<exists>q. grp_highest (hdo ms) p s = Some q \<and> q \<le> p \<and>
    (\<forall>m\<in>set ms. \<forall>h. hdo (W m) = Some h \<longrightarrow> q \<le> Prio (OSTCBs s h)) \<and>
    (q = p \<or> (\<exists>m\<in>set ms. \<exists>h. hdo (W m) = Some h \<and> q = Prio (OSTCBs s h)))"
proof (induction ms arbitrary: p)
  case Nil
  then show ?case by (subst grp_highest.simps) simp
next
  case (Cons m ms)
  define p' where "p' = (case hdo (W m) of None \<Rightarrow> p
    | Some h \<Rightarrow> if Prio (OSTCBs s h) < p then Prio (OSTCBs s h) else p)"
  have n: "MutexGrpNextPtr (OSMutexes s m) = hdo ms" "lnk (mgn s) ms None"
    using Cons.prems by (auto simp: mgn_def)
  have p': "p' \<le> p" "\<And>h. hdo (W m) = Some h \<Longrightarrow> p' \<le> Prio (OSTCBs s h)"
    "p' = p \<or> (\<exists>h. hdo (W m) = Some h \<and> p' = Prio (OSTCBs s h))"
    by (auto simp: p'_def split: option.splits)
  from Cons.IH [OF n(2), of p'] obtain q where q: "grp_highest (hdo ms) p' s = Some q" "q \<le> p'"
    "\<forall>m\<in>set ms. \<forall>h. hdo (W m) = Some h \<longrightarrow> q \<le> Prio (OSTCBs s h)"
    "q = p' \<or> (\<exists>m\<in>set ms. \<exists>h. hdo (W m) = Some h \<and> q = Prio (OSTCBs s h))" by blast
  have "grp_highest (hdo (m # ms)) p s = grp_highest (hdo ms) p' s"
    by (subst grp_highest.simps) (simp add: assms n(1) p'_def Let_def split: option.splits)
  then show ?case using q p' by (auto intro: order_trans)
qed

lemma sorted_head_le:
  assumes "kinv s A R W T" and "a \<in> set (W b)"
  shows "\<exists>h. hdo (W b) = Some h \<and> Prio (OSTCBs s h) \<le> Prio (OSTCBs s a)"
proof -
  obtain h ws where h: "W b = h # ws" using assms(2) by (cases "W b") auto
  have "sorted (map (prios s) (W b))" using kinvD(3) [OF assms(1)] by (simp add: pend_sorted_def)
  with h assms(2) show ?thesis by auto
qed

text \<open>\<open>inherited_prio\<close> is the highest of the base priority and of the priorities of the tasks that
  wait for a mutex of the group.\<close>

lemma inherited_prio_spec:
  assumes K: "kinv s A R W T" and G: "groups s A own" and t: "t \<in> A"
    and B: "unat (BasePrio (OSTCBs s t)) < OS_CFG_PRIO_MAX"
  obtains q where "inherited_prio (Some t) s = Some q" "q \<le> BasePrio (OSTCBs s t)"
    "\<And>m a. m \<in> set (own t) \<Longrightarrow> a \<in> set (W m) \<Longrightarrow> q \<le> Prio (OSTCBs s a)"
    "q = BasePrio (OSTCBs s t) \<or> (\<exists>m\<in>set (own t). \<exists>a\<in>set (W m). q = Prio (OSTCBs s a))"
proof -
  have l: "MutexGrpHeadPtr (OSTCBs s t) = hdo (own t)" "lnk (mgn s) (own t) None"
    using groupsD(1) [OF G t] by (simp_all add: sll_def)
  from grp_highest_spec [where s = s and W = W, OF pend_head [OF K] l(2)] obtain h where
    h: "grp_highest (hdo (own t)) (of_nat (OS_CFG_PRIO_MAX - 1)) s = Some h"
      "h \<le> of_nat (OS_CFG_PRIO_MAX - 1)"
      "\<forall>m\<in>set (own t). \<forall>a. hdo (W m) = Some a \<longrightarrow> h \<le> Prio (OSTCBs s a)"
      "h = of_nat (OS_CFG_PRIO_MAX - 1) \<or> (\<exists>m\<in>set (own t). \<exists>a. hdo (W m) = Some a \<and> h = Prio (OSTCBs s a))"
    by blast
  let ?q = "if h > BasePrio (OSTCBs s t) then BasePrio (OSTCBs s t) else h"
  have top: "BasePrio (OSTCBs s t) \<le> of_nat (OS_CFG_PRIO_MAX - 1)"
    using B by (simp add: OS_CFG_PRIO_MAX_def word_le_nat_alt)
  show thesis
  proof (rule that [of ?q])
    show "inherited_prio (Some t) s = Some ?q"
      using h(1) l(1) by (simp add: inherited_prio_def OS_MutexGrpPrioFindHighest_def)
    show "?q \<le> BasePrio (OSTCBs s t)" by auto
    fix m a assume m: "m \<in> set (own t)" "a \<in> set (W m)"
    from sorted_head_le [OF K m(2)] h(3) m(1) show "?q \<le> Prio (OSTCBs s a)" by (auto intro: order_trans)
  next
    show "?q = BasePrio (OSTCBs s t) \<or> (\<exists>m\<in>set (own t). \<exists>a\<in>set (W m). ?q = Prio (OSTCBs s a))"
      using h(4)
    proof
      assume "h = of_nat (OS_CFG_PRIO_MAX - 1)"
      then show ?thesis using top by auto
    next
      assume "\<exists>m\<in>set (own t). \<exists>a. hdo (W m) = Some a \<and> h = Prio (OSTCBs s a)"
      then obtain m a where "m \<in> set (own t)" "a \<in> set (W m)" "h = Prio (OSTCBs s a)"
        by (meson hdo_in_set)
      then show ?thesis by auto
    qed
  qed
qed

section \<open>Exact priority inheritance\<close>

text \<open>Every task has the highest of its base priority and of the priorities of the tasks that
  wait for a mutex it owns.\<close>

definition inherits :: "kernel \<Rightarrow> nat set \<Rightarrow> bool" where
  "inherits s A \<longleftrightarrow> (\<forall>t\<in>A. Prio (OSTCBs s t) =
     Min (insert (BasePrio (OSTCBs s t)) {p. \<exists>a\<in>A. waits_for s a t \<and> p = Prio (OSTCBs s a)}))"

lemma inherits_iff:
  assumes "finite A"
  shows "inherits s A \<longleftrightarrow> (\<forall>t\<in>A. Prio (OSTCBs s t) \<le> BasePrio (OSTCBs s t) \<and>
     (\<forall>a\<in>A. waits_for s a t \<longrightarrow> Prio (OSTCBs s t) \<le> Prio (OSTCBs s a)) \<and>
     (Prio (OSTCBs s t) = BasePrio (OSTCBs s t) \<or>
      (\<exists>a\<in>A. waits_for s a t \<and> Prio (OSTCBs s t) = Prio (OSTCBs s a))))"
  unfolding inherits_def
proof (rule ball_cong [OF refl])
  fix t
  let ?P = "{p. \<exists>a\<in>A. waits_for s a t \<and> p = Prio (OSTCBs s a)}"
  have "?P \<subseteq> (\<lambda>a. Prio (OSTCBs s a)) ` A" by auto
  then have f: "finite (insert (BasePrio (OSTCBs s t)) ?P)"
    using finite_subset [OF _ finite_imageI [OF assms]] by simp
  show "Prio (OSTCBs s t) = Min (insert (BasePrio (OSTCBs s t)) ?P) \<longleftrightarrow>
      Prio (OSTCBs s t) \<le> BasePrio (OSTCBs s t) \<and>
      (\<forall>a\<in>A. waits_for s a t \<longrightarrow> Prio (OSTCBs s t) \<le> Prio (OSTCBs s a)) \<and>
      (Prio (OSTCBs s t) = BasePrio (OSTCBs s t) \<or>
       (\<exists>a\<in>A. waits_for s a t \<and> Prio (OSTCBs s t) = Prio (OSTCBs s a)))"
    unfolding eq_commute [of "Prio (OSTCBs s t)" "Min _"] Min_eq_iff [OF f insert_not_empty] by auto
qed

lemma inherits_uninverted:
  assumes "finite A" and "inherits s A" and "\<And>a w. a \<in> A \<Longrightarrow> waits_for s a w \<Longrightarrow> w \<in> A"
  shows "uninverted s A"
  using assms inherits_iff [OF assms(1), of s] unfolding uninverted_def by blast

lemma waits_for_A:
  assumes "owned s A" and "a \<in> A" and "waits_for s a w"
  shows "w \<in> A"
  using assms by (fastforce simp: owned_def waits_for_def)

section \<open>Dropping an inherited priority\<close>

lemma reprio_refl: "reprio x (Prio (OSTCBs s x)) s s"
  by (simp add: reprio_def)

text \<open>The running task \<open>c\<close> gets the priority \<open>p\<close> that its other mutexes leave to it.\<close>

lemma drop_inherited_spec:
  assumes K: "kinv s A R W T" and c: "c \<in> A" and rdy: "TaskState (OSTCBs s c) = OS_TASK_STATE_RDY"
    and cur: "OSTCBCurPtr s = Some c" and G: "groups s A own"
    and B: "unat (BasePrio (OSTCBs s c)) < OS_CFG_PRIO_MAX"
    and le: "Prio (OSTCBs s c) \<le> BasePrio (OSTCBs s c)"
    and un: "\<And>m a. m \<in> set (own c) \<Longrightarrow> a \<in> set (W m) \<Longrightarrow> Prio (OSTCBs s c) \<le> Prio (OSTCBs s a)"
  obtains p s1 k R' where "drop_inherited s = Some (s1\<lparr>OSPrioCur := k\<rparr>)" "reprio c p s s1"
    "kinv s1 A R' W T" "p \<le> BasePrio (OSTCBs s c)"
    "\<And>m a. m \<in> set (own c) \<Longrightarrow> a \<in> set (W m) \<Longrightarrow> p \<le> Prio (OSTCBs s a)"
    "p = BasePrio (OSTCBs s c) \<or> (\<exists>m\<in>set (own c). \<exists>a\<in>set (W m). p = Prio (OSTCBs s a))"
    "OSPrioCur s = Prio (OSTCBs s c) \<Longrightarrow> k = p"
proof -
  obtain q where q: "inherited_prio (Some c) s = Some q" "q \<le> BasePrio (OSTCBs s c)"
    "\<And>m a. m \<in> set (own c) \<Longrightarrow> a \<in> set (W m) \<Longrightarrow> q \<le> Prio (OSTCBs s a)"
    "q = BasePrio (OSTCBs s c) \<or> (\<exists>m\<in>set (own c). \<exists>a\<in>set (W m). q = Prio (OSTCBs s a))"
    by (rule inherited_prio_spec [OF K G c B]) (rule that)
  have ge: "Prio (OSTCBs s c) \<le> q" using q(4) le un by auto
  show thesis
  proof (cases "Prio (OSTCBs s c) = q")
    case True
    have "drop_inherited s = Some (s\<lparr>OSPrioCur := OSPrioCur s\<rparr>)"
      using True q(1) cur by (simp add: drop_inherited_def)
    moreover have "reprio c q s s" using reprio_refl [of c s] unfolding True .
    ultimately show thesis using K q(2-4) True by (intro that [of "OSPrioCur s" s q R]) simp_all
  next
    case False
    then have lt: "Prio (OSTCBs s c) < q" using ge by simp
    have ne: "Prio (OSTCBs s c) \<noteq> BasePrio (OSTCBs s c)" using lt q(2) by auto
    have q': "unat q < OS_CFG_PRIO_MAX" using q(2) B by (simp add: word_le_nat_alt)
    obtain s1 where s1: "OS_RdyListRemove (Some c) s = Some s1" "OSTCBCurPtr s1 = OSTCBCurPtr s"
      and t: "rdy_ok (Option.bind (OS_PrioInsert q (put c (Prio_update (\<lambda>_. q)) s1)) (OS_RdyListInsertTail (Some c)))
         (put c (Prio_update (\<lambda>_. q)) s1) ((rdy_del s c R)(q := rdy_del s c R q @ [c]))"
      and u: "\<exists>n pr rl tbl. s1 = upd_rdy n pr rl tbl s"
      by (rule change_ready_lists [OF K c rdy q']) (rule that)
    obtain s' where s': "Option.bind (OS_PrioInsert q (put c (Prio_update (\<lambda>_. q)) s1))
        (OS_RdyListInsertTail (Some c)) = Some s'"
      and r: "reprio c q s s'" "kinv s' A ((rdy_del s c R)(q := rdy_del s c R q @ [c])) W T"
      by (rule rdy_ok_reprio [OF K c rdy q' u t]) (simp, rule that)
    from s' obtain s2 where s2: "OS_PrioInsert q (put c (Prio_update (\<lambda>_. q)) s1) = Some s2"
      "OS_RdyListInsertTail (Some c) s2 = Some s'" by (auto simp: bind_eq_Some_iff)
    have c1: "OSTCBCurPtr (put c (Prio_update (\<lambda>_. q)) s1) = Some c" using s1(2) cur by simp
    then have c2: "OSTCBCurPtr s2 = Some c"
      using s2(1) by (auto simp: OS_PrioInsert_def Let_def split: if_splits)
    have "drop_inherited s = Some (s'\<lparr>OSPrioCur := q\<rparr>)"
      using ne lt q(1) cur s1 s2 c2 by (simp add: drop_inherited_def set_tcb_put)
    from this r(1,2) q(2-4) refl show thesis by (rule that)
  qed
qed

end
