(* ===== verification/Mutex_Props.thy ===== *)
theory Mutex_Props
  imports Mutex_Grp Demo_System
begin

text \<open>
  The properties of the mutexes: locking and unlocking refine an abstract recursive lock, and
  they keep the priority of every task equal to what its base priority and the tasks waiting for
  it make it.
\<close>

section \<open>Waiting for a mutex\<close>

lemma inherits_cong:
  assumes "\<And>t. Prio (OSTCBs s' t) = Prio (OSTCBs s t)" "\<And>t. BasePrio (OSTCBs s' t) = BasePrio (OSTCBs s t)"
    and "\<And>a t. a \<in> A \<Longrightarrow> t \<in> A \<Longrightarrow> waits_for s' a t \<longleftrightarrow> waits_for s a t"
  shows "inherits s' A \<longleftrightarrow> inherits s A"
proof -
  have "{p. \<exists>a\<in>A. waits_for s' a t \<and> p = Prio (OSTCBs s' a)} = {p. \<exists>a\<in>A. waits_for s a t \<and> p = Prio (OSTCBs s a)}"
    if "t \<in> A" for t using assms(1,3) that by auto
  then show ?thesis unfolding inherits_def assms(1,2) by (metis (no_types, lifting))
qed

lemma mutex_inv_waiters:
  assumes I: "mutex_inv s A M W own"
    and "OSMutexes s' = OSMutexes s" "\<And>t. MutexGrpHeadPtr (OSTCBs s' t) = MutexGrpHeadPtr (OSTCBs s t)"
    "\<And>b. Type (OSObjs s' b) = Type (OSObjs s b)"
    and "\<And>b. b \<in> M \<Longrightarrow> OwnerTCBPtr (OSMutexes s b) = None \<Longrightarrow> W' b = []"
    "\<And>b a. b \<in> M \<Longrightarrow> a \<in> set (W' b) \<Longrightarrow> PendOn (OSTCBs s' a) = OS_TASK_PEND_ON_MUTEX"
    "\<And>a. a \<in> A \<Longrightarrow> PendOn (OSTCBs s' a) = OS_TASK_PEND_ON_MUTEX \<Longrightarrow> \<exists>b\<in>M. PendObjPtr (OSTCBs s' a) = Some b"
  shows "mutex_inv s' A M W' own"
  unfolding mutex_inv_def
proof (intro conjI ballI impI)
  show "groups s' A own" using groups_cong [of s' s A own] mutex_invD(1) [OF I] assms(2,3) by simp
next
  fix b assume b: "b \<in> M"
  show "case OwnerTCBPtr (OSMutexes s' b) of None \<Rightarrow> OwnerNestingCtr (OSMutexes s' b) = 0 \<and> W' b = []
      | Some t \<Rightarrow> OwnerNestingCtr (OSMutexes s' b) \<noteq> 0 \<and> t \<in> A"
    using mutex_invD(4,5) [OF I b] assms(2) assms(5) [OF b] by (auto split: option.splits)
qed (use assms mutex_invD(2,3) [OF I] in auto)

lemma raised_group: "raised p A s s' \<Longrightarrow> MutexGrpHeadPtr (OSTCBs s' t) = MutexGrpHeadPtr (OSTCBs s t)"
    "raised p A s s' \<Longrightarrow> BasePrio (OSTCBs s' t) = BasePrio (OSTCBs s t)"
  using core_eqI(5,15) [of "OSTCBs s' t" "(OSTCBs s t)\<lparr>Prio := Prio (OSTCBs s' t)\<rparr>"]
  by (simp_all add: raised_def)

lemma kinv_waiters:
  assumes "kinv s A R W T" and "kinv s' A R' W' T'"
    and "\<And>a. PendObjPtr (OSTCBs s' a) = PendObjPtr (OSTCBs s a)"
  shows "set (W' b) = set (W b)"
proof -
  have "set (W b) = {a \<in> A. PendObjPtr (OSTCBs s a) = Some b}" "set (W' b) = {a \<in> A. PendObjPtr (OSTCBs s' a) = Some b}"
    using task_okD(4) [OF assms(1)] kinvD(7) [OF assms(1), of b] task_okD(4) [OF assms(2)] kinvD(7) [OF assms(2), of b]
    by auto
  then show ?thesis using assms(3) by simp
qed

text \<open>The owner (and the owners it waits for) get the priority of the caller.\<close>

lemma inherit_step:
  assumes K: "kinv s A R W T" and I: "mutex_inv s A M W own" and H: "inherits s A" and fin: "finite A"
    and nc: "no_cond s A" and c: "c \<in> A" and w: "w \<in> A"
  obtains s1 R1 W1 where "(if Prio (OSTCBs s w) > Prio (OSTCBs s c)
      then OS_TaskChangePrio (Some w) (Prio (OSTCBs s c)) s else Some s) = Some s1"
    "kinv s1 A R1 W1 T" "raised (Prio (OSTCBs s c)) A s s1" "uninverted s1 A"
    "Prio (OSTCBs s1 w) \<le> Prio (OSTCBs s c)"
    "\<And>t. Prio (OSTCBs s1 t) \<noteq> Prio (OSTCBs s t) \<Longrightarrow>
      t = w \<or> (\<exists>a\<in>A. waits_for s a t \<and> Prio (OSTCBs s1 a) = Prio (OSTCBs s c))"
proof -
  have ow: "owned s A" by (rule mutex_inv_owned [OF K I])
  have un: "uninverted s A" by (rule inherits_uninverted [OF fin H waits_for_A [OF ow]])
  show thesis
  proof (cases "Prio (OSTCBs s w) > Prio (OSTCBs s c)")
    case True
    from change_prio_raise [OF K w True ow nc uninverted_but_mono [OF un] fin] True that show thesis by auto
  next
    case False
    have "raised (Prio (OSTCBs s c)) A s s"
      unfolding raised_def by (simp add: moved_set_refl)
    with False K un show thesis by (intro that [of s R W]) auto
  qed
qed

lemma inherits_blocked:
  assumes fin: "finite A" and H: "inherits s A" and c: "c \<in> A" and w: "w \<in> A"
    and rz: "raised (Prio (OSTCBs s c)) A s s1" and un: "uninverted s1 A"
    and le: "Prio (OSTCBs s1 w) \<le> Prio (OSTCBs s c)"
    and ch: "\<And>t. Prio (OSTCBs s1 t) \<noteq> Prio (OSTCBs s t) \<Longrightarrow>
      t = w \<or> (\<exists>a\<in>A. waits_for s a t \<and> Prio (OSTCBs s1 a) = Prio (OSTCBs s c))"
    and pr: "\<And>t. Prio (OSTCBs s' t) = Prio (OSTCBs s1 t)" "\<And>t. BasePrio (OSTCBs s' t) = BasePrio (OSTCBs s t)"
    and wf: "\<And>a t. waits_for s' a t \<longleftrightarrow> waits_for s a t \<or> a = c \<and> t = w"
  shows "inherits s' A"
  unfolding inherits_iff [OF fin]
proof (intro ballI conjI impI)
  have cc: "Prio (OSTCBs s1 c) = Prio (OSTCBs s c)" using raised_sel(5) [OF rz, of c] by auto
  have un': "Prio (OSTCBs s1 t) \<le> Prio (OSTCBs s1 a)" if "a \<in> A" "waits_for s a t" for a t
    using un that raised_sel(7) [OF rz] by (simp add: uninverted_def)
  fix t assume t: "t \<in> A"
  have Ht: "Prio (OSTCBs s t) \<le> BasePrio (OSTCBs s t)"
    "Prio (OSTCBs s t) = BasePrio (OSTCBs s t) \<or> (\<exists>a\<in>A. waits_for s a t \<and> Prio (OSTCBs s t) = Prio (OSTCBs s a))"
    using H t unfolding inherits_iff [OF fin] by blast+
  show "Prio (OSTCBs s' t) \<le> BasePrio (OSTCBs s' t)"
    using Ht(1) raised_sel(5) [OF rz, of t] by (auto simp: pr)
  show "Prio (OSTCBs s' t) \<le> Prio (OSTCBs s' a)" if "a \<in> A" "waits_for s' a t" for a
    using that un' le cc by (auto simp: wf pr)
  show "Prio (OSTCBs s' t) = BasePrio (OSTCBs s' t) \<or>
      (\<exists>a\<in>A. waits_for s' a t \<and> Prio (OSTCBs s' t) = Prio (OSTCBs s' a))"
  proof (cases "Prio (OSTCBs s1 t) = Prio (OSTCBs s t)")
    case True
    show ?thesis
    proof (cases "Prio (OSTCBs s t) = BasePrio (OSTCBs s t)")
      case False
      then obtain a where a: "a \<in> A" "waits_for s a t" "Prio (OSTCBs s t) = Prio (OSTCBs s a)" using Ht(2) by blast
      have "Prio (OSTCBs s1 a) = Prio (OSTCBs s a)"
        using raised_sel(5) [OF rz, of a] un' [OF a(1,2)] True a(3) by auto
      then show ?thesis using a True by (auto simp: wf pr)
    qed (use True in \<open>simp add: pr\<close>)
  next
    case False
    then have p: "Prio (OSTCBs s1 t) = Prio (OSTCBs s c)" using raised_sel(5) [OF rz, of t] by auto
    from ch [OF False] show ?thesis using p cc c by (auto simp: wf pr) 
  qed
qed

lemma pended_sel:
  "Prio (pended_tcb s p po n t) = Prio t" "BasePrio (pended_tcb s p po n t) = BasePrio t"
  "MutexGrpHeadPtr (pended_tcb s p po n t) = MutexGrpHeadPtr t" "PendOn (pended_tcb s p po n t) = po"
  "PendObjPtr (pended_tcb s p po n t) = p"
  by (simp_all add: pended_tcb_def)

lemma becomes_sel:
  assumes "becomes c u s s' A R W T"
  shows "Prio (OSTCBs s' t) = Prio (if t = c then u else OSTCBs s t)"
    "BasePrio (OSTCBs s' t) = BasePrio (if t = c then u else OSTCBs s t)"
    "MutexGrpHeadPtr (OSTCBs s' t) = MutexGrpHeadPtr (if t = c then u else OSTCBs s t)"
    "PendOn (OSTCBs s' t) = PendOn (if t = c then u else OSTCBs s t)"
    "PendObjPtr (OSTCBs s' t) = PendObjPtr (if t = c then u else OSTCBs s t)"
    "TaskState (OSTCBs s' t) = TaskState (if t = c then u else OSTCBs s t)"
proof -
  have "core (OSTCBs s' t) = core (if t = c then u else OSTCBs s t)"
    using becomesD(2) [OF assms] moved_sel(17) [OF becomesD(1) [OF assms], of t] by simp
  from core_eqI(1-5,15) [OF this] show
    "Prio (OSTCBs s' t) = Prio (if t = c then u else OSTCBs s t)"
    "BasePrio (OSTCBs s' t) = BasePrio (if t = c then u else OSTCBs s t)"
    "MutexGrpHeadPtr (OSTCBs s' t) = MutexGrpHeadPtr (if t = c then u else OSTCBs s t)"
    "PendOn (OSTCBs s' t) = PendOn (if t = c then u else OSTCBs s t)"
    "PendObjPtr (OSTCBs s' t) = PendObjPtr (if t = c then u else OSTCBs s t)"
    "TaskState (OSTCBs s' t) = TaskState (if t = c then u else OSTCBs s t)" by blast+
qed

lemma switched_fields:
  assumes "switched s s'"
  shows "BasePrio (OSTCBs s' t) = BasePrio (OSTCBs s t)"
    "MutexGrpHeadPtr (OSTCBs s' t) = MutexGrpHeadPtr (OSTCBs s t)"
    "PendOn (OSTCBs s' t) = PendOn (OSTCBs s t)" "PendObjPtr (OSTCBs s' t) = PendObjPtr (OSTCBs s t)"
  using switched_sel(12) [OF assms, of t] by auto

text \<open>The abstract lock: the owner, how often it has locked it, and the waiting tasks.\<close>

type_synonym lock = "nat option \<times> nat \<times> nat set"

fun lock_take :: "nat \<Rightarrow> lock \<Rightarrow> lock" where
  "lock_take c (None, n, ws) = (Some c, 1, ws)"
| "lock_take c (Some w, n, ws) = (if w = c then (Some c, Suc n, ws) else (Some w, n, insert c ws))"

text \<open>\<open>next\<close> is the waiting task that gets the lock.\<close>

fun lock_give :: "nat option \<Rightarrow> lock \<Rightarrow> lock" where
  "lock_give nx (w, n, ws) = (if n > 1 then (w, n - 1, ws)
     else case nx of None \<Rightarrow> (None, 0, ws) | Some h \<Rightarrow> (Some h, 1, ws - {h}))"

definition mutex_abs :: "kernel \<Rightarrow> (nat \<Rightarrow> nat list) \<Rightarrow> nat \<Rightarrow> lock" where
  "mutex_abs s W b = (OwnerTCBPtr (OSMutexes s b), unat (OwnerNestingCtr (OSMutexes s b)), set (W b))"

text \<open>What the operations of the mutexes leave alone up to the call of the scheduler.\<close>

definition mx_keeps :: "kernel \<Rightarrow> kernel \<Rightarrow> bool" where
  "mx_keeps s s' \<longleftrightarrow> OSSems s' = OSSems s \<and> OSQs s' = OSQs s \<and> OSMsgs s' = OSMsgs s \<and> OSMsgPool s' = OSMsgPool s \<and>
     OSFlagGrps s' = OSFlagGrps s \<and> OSRunning s' = OSRunning s \<and> OSIntNestingCtr s' = OSIntNestingCtr s \<and>
     OSSchedLockNestingCtr s' = OSSchedLockNestingCtr s \<and> OSTCBCurPtr s' = OSTCBCurPtr s \<and>
     (\<forall>b. Type (OSObjs s' b) = Type (OSObjs s b)) \<and> (\<forall>t. BasePrio (OSTCBs s' t) = BasePrio (OSTCBs s t) \<and>
       FlagsPend (OSTCBs s' t) = FlagsPend (OSTCBs s t) \<and> FlagsOpt (OSTCBs s' t) = FlagsOpt (OSTCBs s t))"

lemma mx_keepsD:
  assumes "mx_keeps s s'"
  shows "OSSems s' = OSSems s" "OSRunning s' = OSRunning s" "OSIntNestingCtr s' = OSIntNestingCtr s"
    "OSSchedLockNestingCtr s' = OSSchedLockNestingCtr s" "OSTCBCurPtr s' = OSTCBCurPtr s"
    "Type (OSObjs s' b) = Type (OSObjs s b)" "BasePrio (OSTCBs s' t) = BasePrio (OSTCBs s t)"
    "OSQs s' = OSQs s" "OSMsgs s' = OSMsgs s" "OSMsgPool s' = OSMsgPool s" "OSFlagGrps s' = OSFlagGrps s"
    "FlagsPend (OSTCBs s' t) = FlagsPend (OSTCBs s t)" "FlagsOpt (OSTCBs s' t) = FlagsOpt (OSTCBs s t)"
  using assms by (simp_all add: mx_keeps_def)

lemma mx_keeps_trans: "mx_keeps s s1 \<Longrightarrow> mx_keeps s1 s' \<Longrightarrow> mx_keeps s s'"
  by (simp add: mx_keeps_def)

lemma mx_keeps_frame: "mx_frame s s' \<Longrightarrow> mx_keeps s s'"
  by (auto simp: mx_keeps_def mx_frame_def)

lemma raised_flags:
  assumes "raised p A s s'"
  shows "FlagsPend (OSTCBs s' t) = FlagsPend (OSTCBs s t)" "FlagsOpt (OSTCBs s' t) = FlagsOpt (OSTCBs s t)"
  using assms core_eqI(12,13) [of "OSTCBs s' t" "(OSTCBs s t)\<lparr>Prio := Prio (OSTCBs s' t)\<rparr>"]
  by (simp_all add: raised_def)

lemma mx_keeps_raised: "raised p A s s' \<Longrightarrow> mx_keeps s s'"
  using moved_set_globals [of A s s'] moved_set_sel(4-6) [of A s s'] raised_sel(1) [of p A s s'] raised_group(2) raised_flags
  by (simp add: mx_keeps_def)

lemma becomes_flags:
  assumes "becomes c u s s' A R W T"
  shows "FlagsPend (OSTCBs s' t) = FlagsPend (if t = c then u else OSTCBs s t)"
    "FlagsOpt (OSTCBs s' t) = FlagsOpt (if t = c then u else OSTCBs s t)"
proof -
  have "core (OSTCBs s' t) = core (if t = c then u else OSTCBs s t)"
    using becomesD(2) [OF assms] moved_sel(17) [OF becomesD(1) [OF assms], of t] by simp
  from core_eqI(12,13) [OF this] show "FlagsPend (OSTCBs s' t) = FlagsPend (if t = c then u else OSTCBs s t)"
    "FlagsOpt (OSTCBs s' t) = FlagsOpt (if t = c then u else OSTCBs s t)" by blast+
qed

lemma mx_keeps_becomes:
  assumes "becomes c u s s' A R W T" and "BasePrio u = BasePrio (OSTCBs s c)" "FlagsPend u = FlagsPend (OSTCBs s c)"
    "FlagsOpt u = FlagsOpt (OSTCBs s c)"
  shows "mx_keeps s s'"
  using moved_sel [OF becomesD(1) [OF assms(1)]] becomes_sel(2) [OF assms(1)] becomes_flags [OF assms(1)] assms(2-4)
  by (simp add: mx_keeps_def)

lemma reprio_flags:
  assumes "reprio x p s s'"
  shows "FlagsPend (OSTCBs s' t) = FlagsPend (OSTCBs s t)" "FlagsOpt (OSTCBs s' t) = FlagsOpt (OSTCBs s t)"
  using assms core_eqI(12,13) [of "OSTCBs s' x" "(OSTCBs s x)\<lparr>Prio := p\<rparr>"] core_eqI(12,13) [OF moved_sel(17) [of x s s' t]]
  by (cases "t = x"; simp add: reprio_def)+

lemma mx_keeps_reprio: "reprio x p s s' \<Longrightarrow> mx_keeps s s'"
  using moved_sel [of x s s'] reprio_sel(5) [of x p s s'] reprio_flags [of x p s s'] unfolding mx_keeps_def reprio_def by auto

text \<open>The caller \<open>c\<close> of \<open>OSMutexPend\<close> waits for \<open>b\<close>; the scheduler has not been called yet.\<close>

lemma OSMutexPend_stage:
  assumes K: "kinv s A R W T" and I: "mutex_inv s A M W own" and H: "inherits s A" and fin: "finite A"
    and nc: "no_cond s A" and c: "c \<in> A" and l: "task_level s c" and b: "b \<in> M"
    and w: "OwnerTCBPtr (OSMutexes s b) = Some w" "w \<noteq> c"
    and z: "z \<in> A" "z \<noteq> c" "TaskState (OSTCBs s z) = OS_TASK_STATE_RDY"
  shows "\<exists>s2 R' W' T'. OSMutexPend (Some b) timeout OS_OPT_PEND_BLOCKING s =
      Option.bind (OSSched s2) (\<lambda>s'. Some (Blocked, s')) \<and>
    kinv s2 A R' W' T' \<and> mutex_inv s2 A M W' own \<and> inherits s2 A \<and> OSMutexes s2 = OSMutexes s \<and> mx_keeps s s2 \<and>
    (\<forall>m. set (W' m) = (if m = b then insert c (set (W b)) else set (W m))) \<and> (timeout = 0 \<longrightarrow> T' = T) \<and>
    OSPrioCur s2 = OSPrioCur s \<and> Prio (OSTCBs s2 c) = Prio (OSTCBs s c) \<and>
    (\<forall>t. PendOn (OSTCBs s2 t) = (if t = c then OS_TASK_PEND_ON_MUTEX else PendOn (OSTCBs s t))) \<and>
    (\<forall>t. PendObjPtr (OSTCBs s2 t) = (if t = c then Some b else PendObjPtr (OSTCBs s t))) \<and>
    (\<forall>t. t \<noteq> c \<longrightarrow> TaskState (OSTCBs s2 t) = TaskState (OSTCBs s t)) \<and> TaskState (OSTCBs s2 c) \<noteq> OS_TASK_STATE_RDY"
proof -
  have wA: "w \<in> A" and n0: "OwnerNestingCtr (OSMutexes s b) \<noteq> 0" using mutex_invD(5) [OF I b w(1)] by simp_all
  obtain s1 R1 W1 where s1: "(if Prio (OSTCBs s w) > Prio (OSTCBs s c)
      then OS_TaskChangePrio (Some w) (Prio (OSTCBs s c)) s else Some s) = Some s1"
    "kinv s1 A R1 W1 T" "raised (Prio (OSTCBs s c)) A s s1" "uninverted s1 A"
    "Prio (OSTCBs s1 w) \<le> Prio (OSTCBs s c)"
    "\<And>t. Prio (OSTCBs s1 t) \<noteq> Prio (OSTCBs s t) \<Longrightarrow>
      t = w \<or> (\<exists>a\<in>A. waits_for s a t \<and> Prio (OSTCBs s1 a) = Prio (OSTCBs s c))"
    by (rule inherit_step [OF K I H fin nc c wA]) (rule that)
  note rz = raised_sel [OF s1(3)] and k1 = mx_keeps_raised [OF s1(3)]
  have l1: "task_level s1 c" using l rz(4) mx_keepsD(2-5) [OF k1] by (simp add: task_level_def)
  have "z \<in> set (rdy_del s1 c R1 (Prio (OSTCBs s1 z)))"
    using task_okD(2) [OF s1(2) z(1)] z(2,3) rz(4) by (auto simp: rdy_del_def Let_def)
  then have ne: "rdy_del s1 c R1 (Prio (OSTCBs s1 z)) \<noteq> []" by auto
  have po: "on_object OS_TASK_PEND_ON_MUTEX" by (simp add: on_object_def)
  from block_spec [OF s1(2) c l1 po ne, of b timeout] obtain s2 T' where
    p: "OS_Pend (Some b) (OSTCBCurPtr s1) OS_TASK_PEND_ON_MUTEX timeout s1 = Some s2"
    "becomes c (pended_tcb s1 (Some b) OS_TASK_PEND_ON_MUTEX timeout (OSTCBs s1 c)) s1 s2 A (rdy_del s1 c R1)
      (W1(b := pend_ins (prios s1) c (W1 b))) T'" "timeout = 0 \<longrightarrow> T' = T" by fastforce
  let ?W = "W1(b := pend_ins (prios s1) c (W1 b))"
  note B = becomesD [OF p(2)] and bs = becomes_sel [OF p(2)]
  have fld: "Prio (OSTCBs s2 t) = Prio (OSTCBs s1 t)" "BasePrio (OSTCBs s2 t) = BasePrio (OSTCBs s t)"
    "MutexGrpHeadPtr (OSTCBs s2 t) = MutexGrpHeadPtr (OSTCBs s t)" for t
    unfolding bs(1-3) using raised_group [OF s1(3), of t] by (auto simp: pended_sel)
  have pend': "PendOn (OSTCBs s2 t) = (if t = c then OS_TASK_PEND_ON_MUTEX else PendOn (OSTCBs s t))"
    "PendObjPtr (OSTCBs s2 t) = (if t = c then Some b else PendObjPtr (OSTCBs s t))" for t
    unfolding bs(4,5) using rz(2,3) by (auto simp: pended_sel)
  have mx: "OSMutexes s2 = OSMutexes s" using moved_sel(2) [OF B(1)] rz(6) by simp
  have ky: "mx_keeps s s2" using mx_keeps_trans [OF k1 mx_keeps_becomes [OF p(2)]] by (simp add: pended_tcb_def)
  have W1: "set (W1 m) = set (W m)" for m by (rule kinv_waiters [OF K s1(2) rz(3)])
  have Wb: "set (?W m) = (if m = b then insert c (set (W b)) else set (W m))" for m
    by (simp add: set_pend_ins W1)
  have "PendOn (OSTCBs s c) = OS_TASK_PEND_ON_NOTHING"
    using task_okD(5) [OF K c] l by (simp add: task_level_def pending_def)
  then have wf: "waits_for s2 a t \<longleftrightarrow> waits_for s a t \<or> a = c \<and> t = w" for a t
    using w(1) by (auto simp: waits_for_def pend' mx)
  have I': "mutex_inv s2 A M ?W own"
  proof (rule mutex_inv_waiters [OF I mx fld(3)])
    show "Type (OSObjs s2 m) = Type (OSObjs s m)" for m by (rule mx_keepsD(6) [OF ky])
    show "?W m = []" if "m \<in> M" "OwnerTCBPtr (OSMutexes s m) = None" for m
      using mutex_invD(4) [OF I that] that w(1) W1 [of m] by auto
    show "PendOn (OSTCBs s2 a) = OS_TASK_PEND_ON_MUTEX" if "m \<in> M" "a \<in> set (?W m)" for m a
      using mutex_invD(6) [OF I that(1), of a] mutex_invD(6) [OF I b, of a] that(2) unfolding Wb by (auto simp: pend' split: if_splits)
    show "\<exists>m\<in>M. PendObjPtr (OSTCBs s2 a) = Some m"
      if "a \<in> A" "PendOn (OSTCBs s2 a) = OS_TASK_PEND_ON_MUTEX" for a
      using that mutex_invD(7) [OF I that(1)] b by (auto simp: pend' split: if_splits)
  qed
  have H': "inherits s2 A"
    by (rule inherits_blocked [OF fin H c wA s1(3-6) fld(1,2) wf])
  have e: "OSMutexPend (Some b) timeout OS_OPT_PEND_BLOCKING s = Option.bind (OSSched s2) (\<lambda>s'. Some (Blocked, s'))"
    using l w s1(1) p(1) mx_keepsD(5) [OF k1] n0 mutex_invD(3) [OF I b]
    by (simp add: OSMutexPend_def task_level_def split: if_splits)
  have pc: "OSPrioCur s2 = OSPrioCur s" using moved_sel(9) [OF B(1)] moved_set_sel(2) [OF rz(1)] by simp
  have cc: "Prio (OSTCBs s2 c) = Prio (OSTCBs s c)" using fld(1) rz(5) [of c] by auto
  have ts: "TaskState (OSTCBs s2 t) = TaskState (OSTCBs s t)" if "t \<noteq> c" for t using that bs(6) [of t] rz(4) by simp
  have tc: "TaskState (OSTCBs s2 c) \<noteq> OS_TASK_STATE_RDY" using bs(6) [of c] by (simp add: pended_tcb_def)
  show ?thesis
    using e B(3) I' H' mx ky Wb p(3) pc cc pend' ts tc
    by (intro exI [of _ s2] exI [of _ "rdy_del s1 c R1"] exI [of _ ?W] exI [of _ T'] conjI allI impI) (assumption | blast)+
qed

text \<open>The scheduler keeps the invariants of the mutexes.\<close>

lemma switched_mutexes:
  assumes "switched s s'"
  shows "mutex_inv s' A M W own \<longleftrightarrow> mutex_inv s A M W own" "inherits s' A \<longleftrightarrow> inherits s A"
    "mutex_abs s' W b = mutex_abs s W b"
proof -
  note sw = switched_sel [OF assms] and sf = switched_fields [OF assms]
  show "mutex_inv s' A M W own \<longleftrightarrow> mutex_inv s A M W own"
    by (rule mutex_inv_cong) (simp_all add: sw(2,6) sf)
  show "inherits s' A \<longleftrightarrow> inherits s A"
    by (rule inherits_cong) (simp_all add: sw(2,14) sf waits_for_def)
  show "mutex_abs s' W b = mutex_abs s W b" by (simp add: mutex_abs_def sw(2))
qed

lemma OSMutexPend_blocks:
  assumes K: "kinv s A R W T" and I: "mutex_inv s A M W own" and H: "inherits s A" and fin: "finite A"
    and nc: "no_cond s A" and c: "c \<in> A" and l: "task_level s c" and b: "b \<in> M"
    and w: "OwnerTCBPtr (OSMutexes s b) = Some w" "w \<noteq> c"
    and z: "z \<in> A" "z \<noteq> c" "TaskState (OSTCBs s z) = OS_TASK_STATE_RDY"
  shows "\<exists>s' R' W' T'. OSMutexPend (Some b) timeout OS_OPT_PEND_BLOCKING s = Some (Blocked, s') \<and>
    kinv s' A R' W' T' \<and> mutex_inv s' A M W' own \<and> inherits s' A \<and> OSMutexes s' = OSMutexes s \<and>
    set (W' b) = insert c (set (W b)) \<and> OSTCBCurPtr s' \<noteq> Some c"
proof -
  from OSMutexPend_stage [OF assms, of timeout] obtain s2 R' W' T' where
    s2: "OSMutexPend (Some b) timeout OS_OPT_PEND_BLOCKING s = Option.bind (OSSched s2) (\<lambda>s'. Some (Blocked, s'))"
    "kinv s2 A R' W' T'" "mutex_inv s2 A M W' own" "inherits s2 A" "OSMutexes s2 = OSMutexes s" "mx_keeps s s2"
    "\<forall>m. set (W' m) = (if m = b then insert c (set (W b)) else set (W m))"
    "\<forall>t. t \<noteq> c \<longrightarrow> TaskState (OSTCBs s2 t) = TaskState (OSTCBs s t)" "TaskState (OSTCBs s2 c) \<noteq> OS_TASK_STATE_RDY" by blast
  note ky = mx_keepsD [OF s2(6)]
  have "z \<in> set (R' (Prio (OSTCBs s2 z)))" using task_okD(2) [OF s2(2) z(1)] s2(8) z by simp
  then have ne: "R' (Prio (OSTCBs s2 z)) \<noteq> []" by auto
  from OSSched_spec [OF s2(2) ne] ky(2-4) l obtain s' x where
    s': "OSSched s2 = Some s'" "switched s2 s'" "most_urgent s2 R' x" "OSTCBCurPtr s2 \<noteq> Some x \<or> running s2 x \<longrightarrow> running s' x"
    by (auto simp: task_level_def)
  have "x \<noteq> c" using s'(3) not_ready_anywhere [OF s2(2) c s2(9), of "Prio (OSTCBs s2 c)"] by (auto simp: most_urgent_def)
  then have "OSTCBCurPtr s' \<noteq> Some c" using s'(4) ky(5) l by (auto simp: task_level_def running_def)
  then show ?thesis
    using s2(1-5,7) s'(1) switched_kinv [OF s'(2)] switched_mutexes(1,2) [OF s'(2)] switched_sel(2) [OF s'(2)]
    by (intro exI [of _ s'] exI [of _ R'] exI [of _ W'] exI [of _ T']) simp
qed

section \<open>Giving a mutex back\<close>

lemma mutex_inv_hand:
  assumes I: "mutex_inv s A M W own" and b: "b \<in> M" and G: "groups s' A own'"
    and o: "\<And>m. m \<in> M \<Longrightarrow> m \<noteq> b \<Longrightarrow> OwnerTCBPtr (OSMutexes s' m) = OwnerTCBPtr (OSMutexes s m) \<and>
      OwnerNestingCtr (OSMutexes s' m) = OwnerNestingCtr (OSMutexes s m)"
    and ob: "case OwnerTCBPtr (OSMutexes s' b) of None \<Rightarrow> OwnerNestingCtr (OSMutexes s' b) = 0 \<and> W' b = []
      | Some t \<Rightarrow> OwnerNestingCtr (OSMutexes s' b) \<noteq> 0 \<and> t \<in> A"
    and own: "\<And>t. t \<in> A \<Longrightarrow> set (own' t) = set (own t) - {b} \<union> (if OwnerTCBPtr (OSMutexes s' b) = Some t then {b} else {})"
    and ty: "\<And>m. Type (OSObjs s' m) = Type (OSObjs s m)" and W: "\<And>m. m \<noteq> b \<Longrightarrow> W' m = W m"
    and po: "\<And>m a. m \<in> M \<Longrightarrow> a \<in> set (W' m) \<Longrightarrow> PendOn (OSTCBs s' a) = OS_TASK_PEND_ON_MUTEX"
    "\<And>a. a \<in> A \<Longrightarrow> PendOn (OSTCBs s' a) = OS_TASK_PEND_ON_MUTEX \<Longrightarrow> \<exists>m\<in>M. PendObjPtr (OSTCBs s' a) = Some m"
  shows "mutex_inv s' A M W' own'"
  unfolding mutex_inv_def
proof (intro conjI ballI impI)
  fix t assume t: "t \<in> A"
  show "set (own' t) = {m \<in> M. OwnerTCBPtr (OSMutexes s' m) = Some t}"
  proof (rule set_eqI)
    fix m
    show "m \<in> set (own' t) \<longleftrightarrow> m \<in> {m \<in> M. OwnerTCBPtr (OSMutexes s' m) = Some t}"
      using o [of m] b unfolding own [OF t] mutex_invD(2) [OF I t] by (cases "m = b") auto
  qed
next
  fix m assume m: "m \<in> M"
  show "case OwnerTCBPtr (OSMutexes s' m) of None \<Rightarrow> OwnerNestingCtr (OSMutexes s' m) = 0 \<and> W' m = []
      | Some t \<Rightarrow> OwnerNestingCtr (OSMutexes s' m) \<noteq> 0 \<and> t \<in> A"
  proof (cases "m = b")
    case False
    then show ?thesis using mutex_invD(4,5) [OF I m] o [OF m False] W [OF False] by (auto split: option.splits)
  next
    case True
    show ?thesis unfolding True by (rule ob)
  qed
qed (use G mutex_invD(3) [OF I] ty po in auto)

text \<open>The call of \<open>OSMutexPost\<close> by the owner up to the removal from its group.\<close>

definition unlocked :: "nat \<Rightarrow> u32 \<Rightarrow> kernel \<Rightarrow> kernel" where
  "unlocked b ts s = s\<lparr>OSMutexes := (OSMutexes s)(b := (OSMutexes s b)\<lparr>Mutex_TS := ts,
     OwnerNestingCtr := OwnerNestingCtr (OSMutexes s b) - 1\<rparr>)\<rparr>"

lemma unlocked_sel:
  "OSTCBs (unlocked b ts s) = OSTCBs s" "OSObjs (unlocked b ts s) = OSObjs s"
  "OwnerTCBPtr (OSMutexes (unlocked b ts s) m) = OwnerTCBPtr (OSMutexes s m)"
  "OwnerNestingCtr (OSMutexes (unlocked b ts s) m) =
     (if m = b then OwnerNestingCtr (OSMutexes s b) - 1 else OwnerNestingCtr (OSMutexes s m))"
  "kinv (unlocked b ts s) A R W T \<longleftrightarrow> kinv s A R W T" "mx_frame s (unlocked b ts s)"
  "OSTCBCurPtr (unlocked b ts s) = OSTCBCurPtr s"
  by (simp_all add: unlocked_def mx_frame_mutexes)

lemma unlocked_groups: "groups (unlocked b ts s) A own \<longleftrightarrow> groups s A own"
  by (rule groups_cong) (simp_all add: unlocked_def)

lemma post_nested:
  assumes K: "kinv s A R W T" and I: "mutex_inv s A M W own" and b: "b \<in> M" and l: "task_level s c" and c: "c \<in> A"
    and w: "OwnerTCBPtr (OSMutexes s b) = Some c" and n: "OwnerNestingCtr (OSMutexes s b) > 1"
    and o: "opt \<in> {OS_OPT_POST_NONE, OS_OPT_POST_NO_SCHED}"
  shows "OSMutexPost (Some b) opt ts s = Some (OS_ERR_MUTEX_NESTING, unlocked b ts s)"
    "mutex_inv (unlocked b ts s) A M W own" "inherits s A \<Longrightarrow> inherits (unlocked b ts s) A"
proof -
  have n': "OwnerNestingCtr (OSMutexes s b) - 1 > 0" using n by (simp add: word_gt_0)
  show "OSMutexPost (Some b) opt ts s = Some (OS_ERR_MUTEX_NESTING, unlocked b ts s)"
    using l w n' o mutex_invD(3) [OF I b] by (auto simp: OSMutexPost_def task_level_def unlocked_def Let_def)
  show "mutex_inv (unlocked b ts s) A M W own"
  proof (rule mutex_inv_hand [OF I b])
    show "set (own t) = set (own t) - {b} \<union> (if OwnerTCBPtr (OSMutexes (unlocked b ts s) b) = Some t then {b} else {})"
      if "t \<in> A" for t using mutex_invD(2) [OF I that] b by (auto simp: unlocked_sel)
  qed (use mutex_invD(1,6,7) [OF I] w c n' in \<open>auto simp: unlocked_groups unlocked_sel\<close>)
  have "waits_for (unlocked b ts s) = waits_for s" by (simp add: waits_for_def unlocked_sel fun_eq_iff)
  then show "inherits s A \<Longrightarrow> inherits (unlocked b ts s) A"
    using inherits_cong [of "unlocked b ts s" s A] by (simp add: unlocked_sel(1))
qed

lemma remove1_set_groups: "groups s A own \<Longrightarrow> t \<in> A \<Longrightarrow> set (remove1 b (own t)) = set (own t) - {b}"
  using groupsD(2) by simp

lemma post_free:
  assumes K: "kinv s A R W T" and I: "mutex_inv s A M W own" and b: "b \<in> M" and l: "task_level s c" and c: "c \<in> A"
    and w: "OwnerTCBPtr (OSMutexes s b) = Some c" and n: "OwnerNestingCtr (OSMutexes s b) = 1" and Wb: "W b = []"
    and H: "inherits s A" and o: "opt \<in> {OS_OPT_POST_NONE, OS_OPT_POST_NO_SCHED}"
  shows "\<exists>s'. OSMutexPost (Some b) opt ts s = Some (OS_ERR_NONE, s') \<and> kinv s' A R W T \<and>
    mutex_inv s' A M W (own(c := remove1 b (own c))) \<and> inherits s' A \<and>
    OwnerTCBPtr (OSMutexes s' b) = None \<and> OwnerNestingCtr (OSMutexes s' b) = 0 \<and> mx_frame s s'"
proof -
  let ?s1 = "unlocked b ts s" and ?own = "own(c := remove1 b (own c))"
  have G1: "groups ?s1 A own" using mutex_invD(1) [OF I] by (simp add: unlocked_groups)
  have bc: "b \<in> set (own c)" using mutex_invD(2) [OF I c] b w by simp
  obtain s2 where s2: "OS_MutexGrpRemove (Some c) (Some b) ?s1 = Some s2" "mx_frame ?s1 s2"
    "groups s2 A ?own" "\<And>m. mbody (OSMutexes s2 m) = mbody (OSMutexes ?s1 m)"
    by (rule OS_MutexGrpRemove_spec [OF G1 c bc]) (rule that)
  let ?s = "s2\<lparr>OSMutexes := (OSMutexes s2)(b := (OSMutexes s2 b)\<lparr>OwnerTCBPtr := None, OwnerNestingCtr := 0\<rparr>)\<rparr>"
  have fr: "mx_frame s ?s"
    using mx_frame_trans [OF unlocked_sel(6) mx_frame_trans [OF s2(2) mx_frame_mutexes]] .
  note F = mx_frame_sel [OF fr] and F2 = mx_frame_sel [OF mx_frame_trans [OF unlocked_sel(6) s2(2)]]
  have h: "PL_HeadPtr (PendList (OSObjs s2 b)) = None" using pend_head [OF K, of b] Wb F2(6) by simp
  have ret: "OSMutexPost (Some b) opt ts s = Some (OS_ERR_NONE, ?s)"
    using l w n o mutex_invD(3) [OF I b] s2(1) h F2(7)
    by (auto simp: OSMutexPost_def task_level_def Let_def unlocked_def)
  have mb: "OwnerTCBPtr (OSMutexes s2 m) = OwnerTCBPtr (OSMutexes s m)"
    "m \<noteq> b \<Longrightarrow> OwnerNestingCtr (OSMutexes s2 m) = OwnerNestingCtr (OSMutexes s m)" for m
    using s2(4) [of m] by (auto simp: mbody_def unlocked_sel)
  have G: "groups ?s A ?own" using groups_cong [of ?s s2 A ?own] s2(3) by simp
  have I': "mutex_inv ?s A M W ?own"
  proof (rule mutex_inv_hand [OF I b G])
    show "set (?own t) = set (own t) - {b} \<union> (if OwnerTCBPtr (OSMutexes ?s b) = Some t then {b} else {})"
      if t: "t \<in> A" for t
      using remove1_set_groups [OF mutex_invD(1) [OF I] t] mutex_invD(2) [OF I t] w by auto
  qed (use mutex_invD(6,7) [OF I] Wb in \<open>simp_all add: mb F2\<close>)
  have K': "kinv ?s A R W T" using mx_frame_kinv [OF fr] K by simp
  have "waits_for ?s a t \<longleftrightarrow> waits_for s a t" if "a \<in> A" "t \<in> A" for a t
    using that mutex_invD(2) [OF I] remove1_set_groups [OF mutex_invD(1) [OF I] c] Wb
    by (auto simp: waits_for_own [OF K' I'] waits_for_own [OF K I] split: if_splits)
  then have "inherits ?s A" using inherits_cong [of ?s s A, OF F(1,2)] H by blast
  with ret K' I' fr show ?thesis by auto
qed

text \<open>The contended case: the mutex goes to the first waiting task.\<close>

lemma inherits_handed:
  assumes fin: "finite A" and H: "inherits s A" and K: "kinv s A R W T" and I: "mutex_inv s A M W own"
    and K': "kinv s' A R' (W(b := E)) T'" and I': "mutex_inv s' A M (W(b := E)) own'"
    and Wb: "W b = h # E" and bc: "b \<in> set (own c)" "c \<in> A" "h \<in> A" "h \<noteq> c"
    and c0: "PendObjPtr (OSTCBs s c) = None"
    and own: "\<And>t. t \<in> A \<Longrightarrow> set (own' t) = set (own t) - {b} \<union> (if t = h then {b} else {})"
    and pr: "\<And>t. Prio (OSTCBs s' t) = (if t = c then p else Prio (OSTCBs s t))"
      "\<And>t. BasePrio (OSTCBs s' t) = BasePrio (OSTCBs s t)"
    and p: "p \<le> BasePrio (OSTCBs s c)"
      "\<And>m a. m \<in> set (own c) - {b} \<Longrightarrow> a \<in> set (W m) \<Longrightarrow> p \<le> Prio (OSTCBs s a)"
      "p = BasePrio (OSTCBs s c) \<or> (\<exists>m\<in>set (own c) - {b}. \<exists>a\<in>set (W m). p = Prio (OSTCBs s a))"
  shows "inherits s' A"
  unfolding inherits_iff [OF fin]
proof (intro ballI)
  have nc: "a \<noteq> c" if "a \<in> set (W m)" for a m using waiterD(3) [OF K that] c0 by auto
  have inA: "a \<in> A" if "a \<in> set (W m)" for a m using waiterD(1) [OF K that] .
  have bo: "b \<notin> set (own t)" if "t \<in> A" "t \<noteq> c" for t
    using groupsD(3) [OF mutex_invD(1) [OF I] bc(2) that(1)] that(2) bc(1) by auto
  fix t assume t: "t \<in> A"
  have edge: "waits_for s' a t \<longleftrightarrow> (\<exists>m\<in>set (own t) - {b}. a \<in> set (W m)) \<or> t = h \<and> a \<in> set E" if "a \<in> A" for a
    unfolding waits_for_own [OF K' I' that t] own [OF t] by auto
  have edge0: "waits_for s a t \<longleftrightarrow> (\<exists>m\<in>set (own t). a \<in> set (W m))" if "a \<in> A" for a
    by (rule waits_for_own [OF K I that t])
  have Ht: "Prio (OSTCBs s t) \<le> BasePrio (OSTCBs s t)"
    "\<And>a. a \<in> A \<Longrightarrow> waits_for s a t \<Longrightarrow> Prio (OSTCBs s t) \<le> Prio (OSTCBs s a)"
    "Prio (OSTCBs s t) = BasePrio (OSTCBs s t) \<or> (\<exists>a\<in>A. waits_for s a t \<and> Prio (OSTCBs s t) = Prio (OSTCBs s a))"
    using H t unfolding inherits_iff [OF fin] by blast+
  show "Prio (OSTCBs s' t) \<le> BasePrio (OSTCBs s' t) \<and>
      (\<forall>a\<in>A. waits_for s' a t \<longrightarrow> Prio (OSTCBs s' t) \<le> Prio (OSTCBs s' a)) \<and>
      (Prio (OSTCBs s' t) = BasePrio (OSTCBs s' t) \<or>
       (\<exists>a\<in>A. waits_for s' a t \<and> Prio (OSTCBs s' t) = Prio (OSTCBs s' a)))"
  proof (cases "t = c")
    case True
    have "Prio (OSTCBs s' t) \<le> Prio (OSTCBs s' a)" if a: "a \<in> A" "waits_for s' a t" for a
    proof -
      obtain m where m: "m \<in> set (own c) - {b}" "a \<in> set (W m)" using a edge [OF a(1)] True bc(4) by auto
      show ?thesis using p(2) [OF m] nc [OF m(2)] True by (simp add: pr)
    qed
    moreover have "Prio (OSTCBs s' t) = BasePrio (OSTCBs s' t) \<or>
        (\<exists>a\<in>A. waits_for s' a t \<and> Prio (OSTCBs s' t) = Prio (OSTCBs s' a))"
      using p(3)
    proof
      assume "\<exists>m\<in>set (own c) - {b}. \<exists>a\<in>set (W m). p = Prio (OSTCBs s a)"
      then obtain m a where m: "m \<in> set (own c) - {b}" "a \<in> set (W m)" "p = Prio (OSTCBs s a)" by blast
      then have "waits_for s' a t" using edge [OF inA [OF m(2)]] True by auto
      then show ?thesis using inA [OF m(2)] nc [OF m(2)] m(3) True by (auto simp: pr)
    qed (use True in \<open>simp add: pr\<close>)
    ultimately show ?thesis using p(1) True by (simp add: pr)
  next
    case False
    have sorted: "Prio (OSTCBs s h) \<le> Prio (OSTCBs s a)" if "a \<in> set E" for a
      using sorted_head_le [OF K, of a b] Wb that by auto
    have "Prio (OSTCBs s' t) \<le> Prio (OSTCBs s' a)" if a: "a \<in> A" "waits_for s' a t" for a
    proof -
      have "Prio (OSTCBs s t) \<le> Prio (OSTCBs s a)"
        using a edge [OF a(1)] edge0 [OF a(1)] Ht(2) [OF a(1)] sorted by blast
      moreover have "a \<noteq> c" using a edge [OF a(1)] nc [of a] Wb nc [of a b] by auto
      ultimately show ?thesis using False by (simp add: pr)
    qed
    moreover have "Prio (OSTCBs s' t) = BasePrio (OSTCBs s' t) \<or>
        (\<exists>a\<in>A. waits_for s' a t \<and> Prio (OSTCBs s' t) = Prio (OSTCBs s' a))"
      using Ht(3)
    proof
      assume "\<exists>a\<in>A. waits_for s a t \<and> Prio (OSTCBs s t) = Prio (OSTCBs s a)"
      then obtain a where a: "a \<in> A" "waits_for s a t" "Prio (OSTCBs s t) = Prio (OSTCBs s a)" by blast
      then have "waits_for s' a t" "a \<noteq> c"
        using edge [OF a(1)] edge0 [OF a(1)] bo [OF t False] nc by blast+
      then show ?thesis using a False by (auto simp: pr)
    qed (use False in \<open>simp add: pr\<close>)
    ultimately show ?thesis using Ht(1) False by (simp add: pr)
  qed
qed

lemma posted_sel:
  "BasePrio (posted_tcb p z ts t) = BasePrio t" "MutexGrpHeadPtr (posted_tcb p z ts t) = MutexGrpHeadPtr t"
  "PendOn (posted_tcb p z ts t) = OS_TASK_PEND_ON_NOTHING" "PendObjPtr (posted_tcb p z ts t) = None"
  by (simp_all add: posted_tcb_def)

text \<open>The state before the scheduler is called; \<open>h\<close> is ready again.\<close>

lemma post_contended_stage:
  assumes K: "kinv s A R W T" and I: "mutex_inv s A M W own" and H: "inherits s A" and fin: "finite A"
    and b: "b \<in> M" and l: "task_level s c" and c: "c \<in> A"
    and w: "OwnerTCBPtr (OSMutexes s b) = Some c" and n: "OwnerNestingCtr (OSMutexes s b) = 1" and Wb: "W b = h # E"
    and B: "unat (BasePrio (OSTCBs s c)) < OS_CFG_PRIO_MAX" and o: "opt \<in> {OS_OPT_POST_NONE, OS_OPT_POST_NO_SCHED}"
  shows "\<exists>s6 R' T' own'. OSMutexPost (Some b) opt ts s =
      Option.bind (sched_unless opt s6) (\<lambda>s6. Some (OS_ERR_NONE, s6)) \<and> kinv s6 A R' (W(b := E)) T' \<and>
    mutex_inv s6 A M (W(b := E)) own' \<and> inherits s6 A \<and> mx_keeps s s6 \<and>
    OwnerTCBPtr (OSMutexes s6 b) = Some h \<and> OwnerNestingCtr (OSMutexes s6 b) = 1 \<and> set T' \<subseteq> set T \<and> h \<in> A \<and> h \<noteq> c \<and>
    (OSPrioCur s = Prio (OSTCBs s c) \<longrightarrow> OSPrioCur s6 = Prio (OSTCBs s6 c)) \<and>
    (\<forall>t. PendOn (OSTCBs s6 t) = (if t = h then OS_TASK_PEND_ON_NOTHING else PendOn (OSTCBs s t))) \<and>
    (\<forall>t. PendObjPtr (OSTCBs s6 t) = (if t = h then None else PendObjPtr (OSTCBs s t))) \<and>
    (\<forall>t. t \<noteq> h \<longrightarrow> TaskState (OSTCBs s6 t) = TaskState (OSTCBs s t))"
proof -
  let ?s1 = "unlocked b ts s" and ?own = "own(c := remove1 b (own c))"
  have rdy: "TaskState (OSTCBs s c) = OS_TASK_STATE_RDY" and cur: "OSTCBCurPtr s = Some c"
    using l by (simp_all add: task_level_def)
  have c0: "PendOn (OSTCBs s c) = OS_TASK_PEND_ON_NOTHING" "PendObjPtr (OSTCBs s c) = None"
    using task_okD(5,6) [OF K c] rdy by (auto simp: pending_def on_object_def)
  have hW: "h \<in> set (W b)" using Wb by simp
  have hA: "h \<in> A" and hc: "h \<noteq> c" using waiterD(1,3) [OF K hW] c0(2) by auto
  have bc: "b \<in> set (own c)" using mutex_invD(2) [OF I c] b w by simp
  have G1: "groups ?s1 A own" using mutex_invD(1) [OF I] by (simp add: unlocked_groups)
  obtain s2 where s2: "OS_MutexGrpRemove (Some c) (Some b) ?s1 = Some s2" "mx_frame ?s1 s2"
    "groups s2 A ?own" "\<And>m. mbody (OSMutexes s2 m) = mbody (OSMutexes ?s1 m)"
    by (rule OS_MutexGrpRemove_spec [OF G1 c bc]) (rule that)
  have fr2: "mx_frame s s2" by (rule mx_frame_trans [OF unlocked_sel(6) s2(2)])
  note F2 = mx_frame_sel [OF fr2]
  have K2: "kinv s2 A R W T" using mx_frame_kinv [OF fr2] K by simp
  have oc: "set (own c) - {b} = set (?own c)" using remove1_set_groups [OF mutex_invD(1) [OF I] c] by simp
  have Hc: "Prio (OSTCBs s c) \<le> BasePrio (OSTCBs s c)"
    "\<And>a. a \<in> A \<Longrightarrow> waits_for s a c \<Longrightarrow> Prio (OSTCBs s c) \<le> Prio (OSTCBs s a)"
    using H c unfolding inherits_iff [OF fin] by blast+
  have un: "Prio (OSTCBs s2 c) \<le> Prio (OSTCBs s2 a)" if "m \<in> set (?own c)" "a \<in> set (W m)" for m a
    using Hc(2) [OF waiterD(1) [OF K that(2)]] waits_for_own [OF K I waiterD(1) [OF K that(2)] c] that oc
    by (auto simp: F2(1))
  obtain p s3 k R3 where s3: "drop_inherited s2 = Some (s3\<lparr>OSPrioCur := k\<rparr>)" "reprio c p s2 s3"
    "kinv s3 A R3 W T" "p \<le> BasePrio (OSTCBs s2 c)"
    "\<And>m a. m \<in> set (?own c) \<Longrightarrow> a \<in> set (W m) \<Longrightarrow> p \<le> Prio (OSTCBs s2 a)"
    "p = BasePrio (OSTCBs s2 c) \<or> (\<exists>m\<in>set (?own c). \<exists>a\<in>set (W m). p = Prio (OSTCBs s2 a))"
    "OSPrioCur s2 = Prio (OSTCBs s2 c) \<Longrightarrow> k = p"
    by (rule drop_inherited_spec [OF K2 c _ _ s2(3) _ _ un])
      (use rdy cur B Hc(1) that in \<open>simp_all add: F2\<close>)
  note F3 = reprio_sel [OF s3(2)]
  let ?s4 = "(s3\<lparr>OSPrioCur := k\<rparr>)\<lparr>OSMutexes := (OSMutexes s3)(b := (OSMutexes s3 b)
    \<lparr>OwnerTCBPtr := Some h, OwnerNestingCtr := 1\<rparr>)\<rparr>"
  have G4: "groups ?s4 A ?own" using groups_cong [of ?s4 s2 A ?own] s2(3) F3(6,7) by simp
  have nb: "b \<notin> set (?own u)" if "u \<in> A" for u
    using oc groupsD(3) [OF mutex_invD(1) [OF I] c that] bc by auto
  let ?own' = "?own(h := b # ?own h)"
  obtain s5 where s5: "OS_MutexGrpAdd (Some h) (Some b) ?s4 = Some s5" "mx_frame ?s4 s5"
    "groups s5 A ?own'" "\<And>m. mbody (OSMutexes s5 m) = mbody (OSMutexes ?s4 m)"
    by (rule OS_MutexGrpAdd_spec [OF G4 hA nb]) (assumption, rule that)
  note F5 = mx_frame_sel [OF s5(2)]
  have K5: "kinv s5 A R3 W T" using mx_frame_kinv [OF s5(2)] s3(3) by simp
  from post_waiter [OF K5 Wb, of None 0 ts] obtain s6 where
    s6: "OS_Post (Some b) (Some h) None 0 ts s5 = Some s6"
    "becomes h (posted_tcb None 0 ts (OSTCBs s5 h)) s5 s6 A (readied s5 h R3) (without h W) (remove1 h T)"
    by blast
  note bs = becomes_sel [OF s6(2)]
  have K6: "kinv s6 A (readied s5 h R3) (W(b := E)) (remove1 h T)"
    using becomesD(3) [OF s6(2)] without_other [OF K Wb] by simp
  have pr: "Prio (OSTCBs s6 t) = (if t = c then p else Prio (OSTCBs s t))"
    "BasePrio (OSTCBs s6 t) = BasePrio (OSTCBs s t)" for t
    unfolding bs(1,2) using F5(1,2) [of t] F3(1,5) [of t] F2(1,2) [of t] by (auto simp: posted_sel)
  have pend: "PendOn (OSTCBs s6 t) = (if t = h then OS_TASK_PEND_ON_NOTHING else PendOn (OSTCBs s t))"
    "PendObjPtr (OSTCBs s6 t) = (if t = h then None else PendObjPtr (OSTCBs s t))" for t
    unfolding bs(4,5) using F5(3,4) [of t] F3(2,3) [of t] F2(3,4) [of t] by (auto simp: posted_sel)
  have mx: "OSMutexes s6 = OSMutexes s5" by (rule moved_sel(2) [OF becomesD(1) [OF s6(2)]])
  have mb: "OwnerTCBPtr (OSMutexes s6 m) = (if m = b then Some h else OwnerTCBPtr (OSMutexes s m))"
    "OwnerNestingCtr (OSMutexes s6 m) = (if m = b then 1 else OwnerNestingCtr (OSMutexes s m))" for m
    using s5(4) [of m] s2(4) [of m] F3(7) unfolding mx by (auto simp: mbody_def unlocked_sel split: if_splits)
  have G': "groups s6 A ?own'"
    using groups_cong [of s6 s5 A ?own'] s5(3) unfolding mx bs(3) by (auto simp: posted_sel)
  have ky: "mx_keeps s s6"
    using mx_keeps_trans [OF mx_keeps_frame [OF fr2] mx_keeps_trans [OF mx_keeps_reprio [OF s3(2)]
        mx_keeps_trans [OF _ mx_keeps_trans [OF mx_keeps_frame [OF s5(2)] mx_keeps_becomes [OF s6(2)]]]]]
    by (simp add: posted_tcb_def) (simp add: mx_keeps_def)
  note ty = mx_keepsD(6) [OF ky]
  have ownset: "set (?own' t) = set (own t) - {b} \<union> (if t = h then {b} else {})" if "t \<in> A" for t
  proof (cases "t = c")
    case False
    have "b \<notin> set (own t)" using groupsD(3) [OF mutex_invD(1) [OF I] c that] bc False by blast
    then show ?thesis using False by simp
  qed (use oc hc in auto)
  have I': "mutex_inv s6 A M (W(b := E)) ?own'"
  proof (rule mutex_inv_hand [OF I b G'])
    show "set (?own' t) = set (own t) - {b} \<union> (if OwnerTCBPtr (OSMutexes s6 b) = Some t then {b} else {})"
      if "t \<in> A" for t unfolding ownset [OF that] mb by auto
    show "PendOn (OSTCBs s6 a) = OS_TASK_PEND_ON_MUTEX" if m: "m \<in> M" "a \<in> set ((W(b := E)) m)" for m a
    proof -
      have "a \<in> set (W m)" using m(2) Wb by (auto split: if_splits)
      moreover have "a \<noteq> h"
        using m(2) Wb kinv_distinct(2) [OF K, of b] waiterD(3) [OF K hW] waiterD(3) [OF K \<open>a \<in> set (W m)\<close>]
        by (auto split: if_splits)
      ultimately show ?thesis using mutex_invD(6) [OF I m(1)] by (simp add: pend)
    qed
    show "\<exists>m\<in>M. PendObjPtr (OSTCBs s6 a) = Some m" if "a \<in> A" "PendOn (OSTCBs s6 a) = OS_TASK_PEND_ON_MUTEX" for a
      using that mutex_invD(7) [OF I that(1)] by (auto simp: pend split: if_splits)
  qed (use hA in \<open>simp_all add: mb ty\<close>)
  have "inherits s6 A"
    by (rule inherits_handed [OF fin H K I K6 I' Wb bc c hA hc c0(2) ownset pr])
      (use s3(4-6) in \<open>simp_all add: F2(1,2) oc\<close>)
  moreover have "OSMutexPost (Some b) opt ts s = Option.bind (sched_unless opt s6) (\<lambda>s'. Some (OS_ERR_NONE, s'))"
  proof -
    have h2: "PL_HeadPtr (PendList (OSObjs s2 b)) = Some h" and h3: "PL_HeadPtr (PendList (OSObjs s3 b)) = Some h"
      using pend_head [OF K2, of b] pend_head [OF s3(3), of b] Wb by simp_all
    have e1: "s\<lparr>OSMutexes := (OSMutexes s)(b := (OSMutexes s b)\<lparr>Mutex_TS := ts, OwnerNestingCtr := 0\<rparr>)\<rparr> = ?s1"
      using n by (simp add: unlocked_def)
    show ?thesis
      using l w o mutex_invD(3) [OF I b] s2(1) h2 h3 s3(1) s5(1) s6(1) n e1
      by (auto simp: OSMutexPost_def task_level_def Let_def unlocked_sel(7) sched_unless_def [symmetric])
  qed
  moreover have "OSPrioCur s6 = Prio (OSTCBs s6 c)" if e: "OSPrioCur s = Prio (OSTCBs s c)"
  proof -
    have "k = p" by (rule s3(7)) (use e in \<open>simp add: F2\<close>)
    then show ?thesis using moved_sel(9) [OF becomesD(1) [OF s6(2)]] F5(11) pr(1) [of c] by simp
  qed
  moreover have "TaskState (OSTCBs s6 t) = TaskState (OSTCBs s t)" if "t \<noteq> h" for t
    using that bs(6) [of t] F5(5) [of t] F3(4) [of t] F2(5) [of t] by simp
  moreover have "set (remove1 h T) \<subseteq> set T" by (rule set_remove1_subset)
  ultimately show ?thesis using K6 I' ky mb [of b] pend hA hc
    by (intro exI [of _ s6] exI [of _ "readied s5 h R3"] exI [of _ "remove1 h T"] exI [of _ ?own'])
      (simp del: fun_upd_apply)
qed

lemma post_contended:
  assumes K: "kinv s A R W T" and I: "mutex_inv s A M W own" and H: "inherits s A" and fin: "finite A"
    and b: "b \<in> M" and l: "task_level s c" and c: "c \<in> A"
    and w: "OwnerTCBPtr (OSMutexes s b) = Some c" and n: "OwnerNestingCtr (OSMutexes s b) = 1" and Wb: "W b = h # E"
    and B: "unat (BasePrio (OSTCBs s c)) < OS_CFG_PRIO_MAX" and o: "opt \<in> {OS_OPT_POST_NONE, OS_OPT_POST_NO_SCHED}"
  shows "\<exists>s' R' T' own'. OSMutexPost (Some b) opt ts s = Some (OS_ERR_NONE, s') \<and> kinv s' A R' (W(b := E)) T' \<and>
    mutex_inv s' A M (W(b := E)) own' \<and> inherits s' A \<and>
    OwnerTCBPtr (OSMutexes s' b) = Some h \<and> OwnerNestingCtr (OSMutexes s' b) = 1"
proof -
  from post_contended_stage [OF assms, of ts] obtain s6 R' T' own' where
    s6: "OSMutexPost (Some b) opt ts s = Option.bind (sched_unless opt s6) (\<lambda>s'. Some (OS_ERR_NONE, s'))"
    "kinv s6 A R' (W(b := E)) T'" "mutex_inv s6 A M (W(b := E)) own'" "inherits s6 A" "mx_keeps s s6"
    "OwnerTCBPtr (OSMutexes s6 b) = Some h" "OwnerNestingCtr (OSMutexes s6 b) = 1" "h \<noteq> c"
    "\<forall>t. t \<noteq> h \<longrightarrow> TaskState (OSTCBs s6 t) = TaskState (OSTCBs s t)" by blast
  have "c \<in> set (R' (Prio (OSTCBs s6 c)))" using task_okD(2) [OF s6(2) c] s6(8,9) l by (simp add: task_level_def)
  then have ne: "R' (Prio (OSTCBs s6 c)) \<noteq> []" by auto
  have "\<exists>s'. sched_unless opt s6 = Some s' \<and> switched s6 s'"
    using OSSched_spec [OF s6(2) ne] mx_keepsD(2-4) [OF s6(5)] l by (auto simp: sched_unless_def task_level_def)
  then obtain s' where s': "sched_unless opt s6 = Some s'" "switched s6 s'" by blast
  then show ?thesis
    using s6(1-4,6,7) switched_kinv [OF s'(2)] switched_mutexes(1,2) [OF s'(2)] switched_sel(2) [OF s'(2)]
    by (intro exI [of _ s'] exI [of _ R'] exI [of _ T'] exI [of _ own']) (simp del: fun_upd_apply)
qed

section \<open>Taking a free mutex, or one's own\<close>

definition locked :: "nat \<Rightarrow> nat \<Rightarrow> u8 \<Rightarrow> kernel \<Rightarrow> kernel" where
  "locked b c n s = s\<lparr>OSMutexes := (OSMutexes s)(b := (OSMutexes s b)\<lparr>OwnerTCBPtr := Some c, OwnerNestingCtr := n\<rparr>)\<rparr>"

lemma locked_sel:
  "OSTCBs (locked b c n s) = OSTCBs s" "OSObjs (locked b c n s) = OSObjs s"
  "OwnerTCBPtr (OSMutexes (locked b c n s) m) = (if m = b then Some c else OwnerTCBPtr (OSMutexes s m))"
  "OwnerNestingCtr (OSMutexes (locked b c n s) m) = (if m = b then n else OwnerNestingCtr (OSMutexes s m))"
  "mx_frame s (locked b c n s)"
  "OSTCBCurPtr (locked b c n s) = OSTCBCurPtr s"
  by (simp_all add: locked_def mx_frame_mutexes)

lemma locked_groups: "groups (locked b c n s) A own \<longleftrightarrow> groups s A own"
  by (rule groups_cong) (simp_all add: locked_def)

lemma pend_own:
  assumes K: "kinv s A R W T" and I: "mutex_inv s A M W own" and b: "b \<in> M" and l: "task_level s c" and c: "c \<in> A"
    and w: "OwnerTCBPtr (OSMutexes s b) = Some c" and n: "OwnerNestingCtr (OSMutexes s b) \<noteq> -1"
    and o: "opt \<in> {OS_OPT_PEND_BLOCKING, OS_OPT_PEND_NON_BLOCKING}"
  shows "OSMutexPend (Some b) timeout opt s = Some (Done (Some (Mutex_TS (OSMutexes s b)), OS_ERR_MUTEX_OWNER),
      locked b c (OwnerNestingCtr (OSMutexes s b) + 1) s)"
    "mutex_inv (locked b c (OwnerNestingCtr (OSMutexes s b) + 1) s) A M W own"
    "inherits s A \<Longrightarrow> inherits (locked b c (OwnerNestingCtr (OSMutexes s b) + 1) s) A"
    "kinv (locked b c (OwnerNestingCtr (OSMutexes s b) + 1) s) A R W T"
proof -
  let ?s = "locked b c (OwnerNestingCtr (OSMutexes s b) + 1) s"
  have n0: "OwnerNestingCtr (OSMutexes s b) \<noteq> 0" using mutex_invD(5) [OF I b w] by simp
  have n1: "OwnerNestingCtr (OSMutexes s b) + 1 \<noteq> 0" using unat_succ [OF n] by (metis unat_0 Zero_not_Suc)
  have e: "(OSMutexes s b)\<lparr>OwnerTCBPtr := Some c\<rparr> = OSMutexes s b" using w by (cases "OSMutexes s b") simp
  have "?s = s\<lparr>OSMutexes := (OSMutexes s)(b := (OSMutexes s b)\<lparr>OwnerNestingCtr := OwnerNestingCtr (OSMutexes s b) + 1\<rparr>)\<rparr>"
    by (simp add: locked_def e)
  then show "OSMutexPend (Some b) timeout opt s =
      Some (Done (Some (Mutex_TS (OSMutexes s b)), OS_ERR_MUTEX_OWNER), ?s)"
    using l w n n0 o mutex_invD(3) [OF I b] by (auto simp: OSMutexPend_def task_level_def)
  show "mutex_inv ?s A M W own"
  proof (rule mutex_inv_hand [OF I b])
    show "set (own t) = set (own t) - {b} \<union> (if OwnerTCBPtr (OSMutexes ?s b) = Some t then {b} else {})"
      if "t \<in> A" for t using mutex_invD(2) [OF I that] b w by (auto simp: locked_sel)
  qed (use mutex_invD(1,6,7) [OF I] w c n1 in \<open>auto simp: locked_groups locked_sel\<close>)
  have "waits_for ?s = waits_for s" using w by (auto simp: waits_for_def locked_sel fun_eq_iff)
  then show "inherits s A \<Longrightarrow> inherits ?s A"
    using inherits_cong [of ?s s A] by (simp add: locked_sel(1))
  show "kinv ?s A R W T" using mx_frame_kinv [OF locked_sel(5)] K by simp
qed

lemma pend_free:
  assumes K: "kinv s A R W T" and I: "mutex_inv s A M W own" and b: "b \<in> M" and l: "task_level s c" and c: "c \<in> A"
    and w: "OwnerTCBPtr (OSMutexes s b) = None" and H: "inherits s A"
    and o: "opt \<in> {OS_OPT_PEND_BLOCKING, OS_OPT_PEND_NON_BLOCKING}"
  shows "\<exists>s'. OSMutexPend (Some b) timeout opt s =
      Some (Done (Some (Mutex_TS (OSMutexes s b)), OS_ERR_NONE), s') \<and> kinv s' A R W T \<and>
    mutex_inv s' A M W (own(c := b # own c)) \<and> inherits s' A \<and>
    OwnerTCBPtr (OSMutexes s' b) = Some c \<and> OwnerNestingCtr (OSMutexes s' b) = 1 \<and> W b = [] \<and> mx_frame s s'"
proof -
  let ?s1 = "locked b c 1 s" and ?own = "own(c := b # own c)"
  have n: "OwnerNestingCtr (OSMutexes s b) = 0" and Wb: "W b = []" using mutex_invD(4) [OF I b w] by simp_all
  have nb: "b \<notin> set (own u)" if "u \<in> A" for u using mutex_invD(2) [OF I that] w by simp
  have G1: "groups ?s1 A own" using mutex_invD(1) [OF I] by (simp add: locked_groups)
  obtain s' where s': "OS_MutexGrpAdd (Some c) (Some b) ?s1 = Some s'" "mx_frame ?s1 s'" "groups s' A ?own"
    "\<And>m. mbody (OSMutexes s' m) = mbody (OSMutexes ?s1 m)"
    by (rule OS_MutexGrpAdd_spec [OF G1 c nb]) (assumption, rule that)
  have fr: "mx_frame s s'" by (rule mx_frame_trans [OF locked_sel(5) s'(2)])
  note F = mx_frame_sel [OF fr]
  have K': "kinv s' A R W T" using mx_frame_kinv [OF fr] K by simp
  have mb: "OwnerTCBPtr (OSMutexes s' m) = (if m = b then Some c else OwnerTCBPtr (OSMutexes s m))"
    "OwnerNestingCtr (OSMutexes s' m) = (if m = b then 1 else OwnerNestingCtr (OSMutexes s m))" for m
    using s'(4) [of m] by (auto simp: mbody_def locked_sel)
  have I': "mutex_inv s' A M W ?own"
  proof (rule mutex_inv_hand [OF I b s'(3)])
    show "set (?own t) = set (own t) - {b} \<union> (if OwnerTCBPtr (OSMutexes s' b) = Some t then {b} else {})"
      if "t \<in> A" for t using nb [OF that] by (auto simp: mb)
  qed (use mutex_invD(6,7) [OF I] c in \<open>simp_all add: mb F\<close>)
  have "waits_for s' a t \<longleftrightarrow> waits_for s a t" if "a \<in> A" "t \<in> A" for a t
    using that Wb by (auto simp: waits_for_own [OF K' I'] waits_for_own [OF K I])
  then have "inherits s' A" using inherits_cong [of s' s A, OF F(1,2)] H by blast
  moreover have "OSMutexPend (Some b) timeout opt s = Some (Done (Some (Mutex_TS (OSMutexes s b)), OS_ERR_NONE), s')"
    using l n o mutex_invD(3) [OF I b] s'(1) locked_sel(6) [of b c 1 s]
    by (auto simp: OSMutexPend_def task_level_def locked_def)
  ultimately show ?thesis using K' I' mb [of b] Wb fr by auto
qed

section \<open>Refinement of a recursive lock\<close>

lemma pend_cases:
  assumes K: "kinv s A R W T" and I: "mutex_inv s A M W own" and H: "inherits s A" and fin: "finite A"
    and nc: "no_cond s A" and c: "c \<in> A" and l: "task_level s c" and b: "b \<in> M"
    and z: "z \<in> A" "z \<noteq> c" "TaskState (OSTCBs s z) = OS_TASK_STATE_RDY"
    and n: "OwnerNestingCtr (OSMutexes s b) \<noteq> -1"
  shows "\<exists>out s' R' W' T' own'. OSMutexPend (Some b) timeout OS_OPT_PEND_BLOCKING s = Some (out, s') \<and>
    kinv s' A R' W' T' \<and> mutex_inv s' A M W' own' \<and> inherits s' A \<and>
    mutex_abs s' W' b = lock_take c (mutex_abs s W b) \<and>
    (out = Blocked \<longleftrightarrow> OwnerTCBPtr (OSMutexes s b) \<notin> {None, Some c}) \<and>
    (out = Blocked \<longrightarrow> OSTCBCurPtr s' \<noteq> Some c)"
proof (cases "OwnerTCBPtr (OSMutexes s b)")
  case None
  have a: "mutex_abs s W b = (None, 0, {})" using mutex_invD(4) [OF I b None] None by (simp add: mutex_abs_def)
  from pend_free [OF K I b l c None H, of OS_OPT_PEND_BLOCKING timeout] obtain s' where
    s': "OSMutexPend (Some b) timeout OS_OPT_PEND_BLOCKING s =
      Some (Done (Some (Mutex_TS (OSMutexes s b)), OS_ERR_NONE), s')" "kinv s' A R W T"
    "mutex_inv s' A M W (own(c := b # own c))" "inherits s' A"
    "OwnerTCBPtr (OSMutexes s' b) = Some c" "OwnerNestingCtr (OSMutexes s' b) = 1" "W b = []" by blast
  have "mutex_abs s' W b = lock_take c (mutex_abs s W b)" using s'(5-7) a by (simp add: mutex_abs_def)
  with s'(1-4) None show ?thesis
    by (intro exI [of _ "Done (Some (Mutex_TS (OSMutexes s b)), OS_ERR_NONE)"] exI [of _ s'] exI [of _ R]
        exI [of _ W] exI [of _ T] exI [of _ "own(c := b # own c)"]) simp
next
  case (Some w)
  show ?thesis
  proof (cases "w = c")
    case True
    have o: "OS_OPT_PEND_BLOCKING \<in> {OS_OPT_PEND_BLOCKING, OS_OPT_PEND_NON_BLOCKING}" by simp
    let ?s = "locked b c (OwnerNestingCtr (OSMutexes s b) + 1) s"
    note P = pend_own [OF K I b l c Some [unfolded True] n o]
    have "mutex_abs ?s W b = lock_take c (mutex_abs s W b)"
      using Some True unat_succ [OF n] by (simp add: mutex_abs_def locked_sel)
    with P(1) [of timeout] P(2) P(3) [OF H] P(4) Some True show ?thesis
      by (intro exI [of _ "Done (Some (Mutex_TS (OSMutexes s b)), OS_ERR_MUTEX_OWNER)"] exI [of _ ?s] exI [of _ R]
          exI [of _ W] exI [of _ T] exI [of _ own]) simp
  next
    case False
    from OSMutexPend_blocks [OF K I H fin nc c l b Some False z, of timeout] obtain s' R' W' T' where
      s': "OSMutexPend (Some b) timeout OS_OPT_PEND_BLOCKING s = Some (Blocked, s')" "kinv s' A R' W' T'"
      "mutex_inv s' A M W' own" "inherits s' A" "OSMutexes s' = OSMutexes s"
      "set (W' b) = insert c (set (W b))" "OSTCBCurPtr s' \<noteq> Some c" by blast
    have "mutex_abs s' W' b = lock_take c (mutex_abs s W b)"
      using s'(5,6) Some False by (simp add: mutex_abs_def)
    with s' Some False show ?thesis
      by (intro exI [of _ Blocked] exI [of _ s'] exI [of _ R'] exI [of _ W'] exI [of _ T'] exI [of _ own]) simp
  qed
qed

lemma nesting_cases:
  assumes I: "mutex_inv s A M W own" and b: "b \<in> M" and w: "OwnerTCBPtr (OSMutexes s b) = Some c"
  shows "OwnerNestingCtr (OSMutexes s b) > 1 \<or> OwnerNestingCtr (OSMutexes s b) = 1"
proof (rule disjCI)
  assume ne: "OwnerNestingCtr (OSMutexes s b) \<noteq> 1"
  have "unat (OwnerNestingCtr (OSMutexes s b)) \<noteq> 0" using mutex_invD(5) [OF I b w] by (simp add: unat_eq_0)
  moreover have "unat (OwnerNestingCtr (OSMutexes s b)) \<noteq> unat (1 :: u8)" using ne by (metis word_unat_eq_iff)
  ultimately show "OwnerNestingCtr (OSMutexes s b) > 1" by (simp add: word_less_nat_alt)
qed

lemma post_cases:
  assumes K: "kinv s A R W T" and I: "mutex_inv s A M W own" and H: "inherits s A" and fin: "finite A"
    and b: "b \<in> M" and l: "task_level s c" and c: "c \<in> A" and w: "OwnerTCBPtr (OSMutexes s b) = Some c"
    and B: "unat (BasePrio (OSTCBs s c)) < OS_CFG_PRIO_MAX" and o: "opt \<in> {OS_OPT_POST_NONE, OS_OPT_POST_NO_SCHED}"
  shows "\<exists>err s' R' W' T' own'. OSMutexPost (Some b) opt ts s = Some (err, s') \<and>
    kinv s' A R' W' T' \<and> mutex_inv s' A M W' own' \<and> inherits s' A \<and>
    mutex_abs s' W' b = lock_give (hdo (W b)) (mutex_abs s W b) \<and>
    err = (if OwnerNestingCtr (OSMutexes s b) > 1 then OS_ERR_MUTEX_NESTING else OS_ERR_NONE)"
proof (cases "OwnerNestingCtr (OSMutexes s b) > 1")
  case True
  note P = post_nested [OF K I b l c w True o]
  have g: "1 < unat (OwnerNestingCtr (OSMutexes s b))" using True by (simp add: word_less_nat_alt)
  then obtain k where k: "unat (OwnerNestingCtr (OSMutexes s b)) = Suc k" by (cases "unat (OwnerNestingCtr (OSMutexes s b))") auto
  have "mutex_abs (unlocked b ts s) W b = lock_give (hdo (W b)) (mutex_abs s W b)"
    using g k unat_pred [OF k] by (simp add: mutex_abs_def unlocked_sel)
  then show ?thesis using P(1) [of ts] P(2) [of ts] P(3) [OF H, of ts] K True
    by (intro exI [of _ OS_ERR_MUTEX_NESTING] exI [of _ "unlocked b ts s"] exI [of _ R] exI [of _ W] exI [of _ T]
        exI [of _ own]) (simp add: unlocked_sel(5))
next
  case False
  have n: "OwnerNestingCtr (OSMutexes s b) = 1" using nesting_cases [OF I b w] False by simp
  show ?thesis
  proof (cases "W b")
    case Nil
    from post_free [OF K I b l c w n Nil H o, of ts] obtain s' where
      s': "OSMutexPost (Some b) opt ts s = Some (OS_ERR_NONE, s')" "kinv s' A R W T"
      "mutex_inv s' A M W (own(c := remove1 b (own c)))" "inherits s' A"
      "OwnerTCBPtr (OSMutexes s' b) = None" "OwnerNestingCtr (OSMutexes s' b) = 0" by blast
    have "mutex_abs s' W b = lock_give (hdo (W b)) (mutex_abs s W b)"
      using s'(5,6) n Nil by (simp add: mutex_abs_def)
    with s'(1-4) False show ?thesis
      by (intro exI [of _ OS_ERR_NONE] exI [of _ s'] exI [of _ R] exI [of _ W] exI [of _ T]
          exI [of _ "own(c := remove1 b (own c))"]) simp
  next
    case (Cons h E)
    from post_contended [OF K I H fin b l c w n Cons B o, of ts] obtain s' R' T' own' where
      s': "OSMutexPost (Some b) opt ts s = Some (OS_ERR_NONE, s')" "kinv s' A R' (W(b := E)) T'"
      "mutex_inv s' A M (W(b := E)) own'" "inherits s' A"
      "OwnerTCBPtr (OSMutexes s' b) = Some h" "OwnerNestingCtr (OSMutexes s' b) = 1" by blast
    have "h \<notin> set E" using kinv_distinct(2) [OF K, of b] Cons by simp
    then have "mutex_abs s' (W(b := E)) b = lock_give (hdo (W b)) (mutex_abs s W b)"
      using s'(5,6) n Cons by (simp add: mutex_abs_def)
    with s'(1-4) False show ?thesis
      by (intro exI [of _ OS_ERR_NONE] exI [of _ s'] exI [of _ R'] exI [of _ "W(b := E)"] exI [of _ T']
          exI [of _ own']) simp
  qed
qed

section \<open>The properties\<close>

lemma demo_mutex: "mutex_inv demo demo_A {20, 21} demo_W ((\<lambda>_. [])(1 := [20]))"
  unfolding mutex_inv_def
proof (intro conjI)
  show "groups demo demo_A ((\<lambda>_. [])(1 := [20]))"
    by (simp add: groups_def demo_defs sll_def mgn_def)
qed (auto simp: demo_defs Let_def)

lemma demo_waits: "a \<in> demo_A \<Longrightarrow> waits_for demo a t \<longleftrightarrow> a = 6 \<and> t = 1"
  by (auto simp: waits_for_def demo_defs)

lemma demo_finite: "finite demo_A"
  by (simp add: demo_A_def)

lemma demo_inherits: "inherits demo demo_A"
  unfolding inherits_iff [OF demo_finite]
proof (intro ballI)
  fix t assume "t \<in> demo_A"
  have "Prio (OSTCBs demo t) = BasePrio (OSTCBs demo t)" by (simp add: demo_defs)
  moreover have "Prio (OSTCBs demo 1) \<le> Prio (OSTCBs demo 6)" by (simp add: demo_defs)
  ultimately show "Prio (OSTCBs demo t) \<le> BasePrio (OSTCBs demo t) \<and>
      (\<forall>a\<in>demo_A. waits_for demo a t \<longrightarrow> Prio (OSTCBs demo t) \<le> Prio (OSTCBs demo a)) \<and>
      (Prio (OSTCBs demo t) = BasePrio (OSTCBs demo t) \<or>
       (\<exists>a\<in>demo_A. waits_for demo a t \<and> Prio (OSTCBs demo t) = Prio (OSTCBs demo a)))"
    by (simp add: demo_waits)
qed

lemma demo_no_cond: "no_cond demo demo_A" "owned demo demo_A"
  using mutex_inv_owned [OF demo_kinv demo_mutex] by (auto simp: no_cond_def demo_defs)

text \<open>C9: Raising the priority of a task with \<open>OS_TaskChangePrio\<close> always ends, also when the chain
  from a task to the owner of the mutex it waits for is a cycle; the task has the new priority,
  no other task gets a lower one, the lists of the kernel are consistent, and no owner of a mutex
  has a lower priority than a task that waits for it. (Before the call no owner has a lower priority than a task that
  waits for it, except that the task itself may be below the waiters whose priority is not above the new one; no task
  waits for the condition of the timers.)\<close>

theorem OS_TaskChangePrio_raise_ends:
  assumes "kinv s A R W T" and "x \<in> A" and "p < Prio (OSTCBs s x)" and "owned s A" and "no_cond s A"
    and "uninverted_but x p s A" and "finite A"
  shows "\<exists>s' R' W'. OS_TaskChangePrio (Some x) p s = Some s' \<and> kinv s' A R' W' T \<and>
    Prio (OSTCBs s' x) = p \<and> (\<forall>c. Prio (OSTCBs s' c) \<le> Prio (OSTCBs s c)) \<and>
    (\<forall>a\<in>A. \<forall>w. waits_for s' a w \<longrightarrow> Prio (OSTCBs s' w) \<le> Prio (OSTCBs s' a))"
proof -
  from change_prio_raise [OF assms] obtain s' R' W' where
    s': "OS_TaskChangePrio (Some x) p s = Some s'" "kinv s' A R' W' T" "uninverted s' A" "raised p A s s'"
    "Prio (OSTCBs s' x) = p" by blast
  have "Prio (OSTCBs s' c) \<le> Prio (OSTCBs s c)" for c using raised_sel(5) [OF s'(4), of c] by auto
  with s' show ?thesis unfolding uninverted_def by blast
qed

text \<open>Task 6 waits for the mutex of task 1, which is raised with it.\<close>

theorem OS_TaskChangePrio_raise_ends_witness:
  "\<exists>s'. OS_TaskChangePrio (Some 6) 4 demo = Some s' \<and> Prio (OSTCBs s' 6) = 4"
proof -
  have "6 \<in> demo_A" "4 < Prio (OSTCBs demo 6)" by (simp_all add: demo_defs)
  moreover have "uninverted_but 6 4 demo demo_A"
    using inherits_uninverted [OF demo_finite demo_inherits waits_for_A [OF demo_no_cond(2)]]
    by (rule uninverted_but_mono)
  ultimately show ?thesis
    using OS_TaskChangePrio_raise_ends [OF demo_kinv _ _ demo_no_cond(2,1) _ demo_finite, of 6 4] by blast
qed

text \<open>\<open>OSMutexPend\<close> implements the locking of a recursive lock: a free mutex is taken, the own
  mutex is locked once more, and for the mutex of another task the caller is queued and the CPU
  goes to another task. The lists of the kernel, the mutex groups and the owners agree with each
  other afterwards.\<close>

theorem OSMutexPend_refines:
  assumes "kinv s A R W T" and "mutex_inv s A M W own" and "inherits s A" and "finite A"
    and "no_cond s A" and "c \<in> A" and "task_level s c" and "b \<in> M"
    and "z \<in> A" and "z \<noteq> c" and "TaskState (OSTCBs s z) = OS_TASK_STATE_RDY"
    and "OwnerNestingCtr (OSMutexes s b) \<noteq> -1"
  shows "\<exists>out s' R' W' T' own'. OSMutexPend (Some b) timeout OS_OPT_PEND_BLOCKING s = Some (out, s') \<and>
    kinv s' A R' W' T' \<and> mutex_inv s' A M W' own' \<and>
    mutex_abs s' W' b = lock_take c (mutex_abs s W b) \<and>
    (out = Blocked \<longleftrightarrow> OwnerTCBPtr (OSMutexes s b) \<notin> {None, Some c}) \<and>
    (out = Blocked \<longrightarrow> OSTCBCurPtr s' \<noteq> Some c)"
  using pend_cases [OF assms, of timeout] by blast

lemma demo_mutex_facts: "1 \<in> demo_A" "task_level demo 1" "(20::nat) \<in> {20, 21}" "(21::nat) \<in> {20, 21}"
    "2 \<in> demo_A" "(2::nat) \<noteq> 1" "TaskState (OSTCBs demo 2) = OS_TASK_STATE_RDY"
    "OwnerNestingCtr (OSMutexes demo 20) \<noteq> -1" "OwnerNestingCtr (OSMutexes demo 21) \<noteq> -1"
    "OwnerTCBPtr (OSMutexes demo 20) = Some 1" "OwnerNestingCtr (OSMutexes demo 20) = 1" "demo_W 20 = [6]"
    "unat (BasePrio (OSTCBs demo 1)) < OS_CFG_PRIO_MAX" "mutex_abs demo demo_W 20 = (Some 1, 1, {6})"
    "mutex_abs demo demo_W 21 = (None, 0, {})"
  by (simp_all add: demo_defs task_level_def OS_CFG_PRIO_MAX_def mutex_abs_def)

theorem OSMutexPend_refines_witness:
  "\<exists>out s' W'. OSMutexPend (Some 21) 0 OS_OPT_PEND_BLOCKING demo = Some (out, s') \<and>
     mutex_abs s' W' 21 = (Some 1, 1, {}) \<and> out \<noteq> Blocked"
  using OSMutexPend_refines [OF demo_kinv demo_mutex demo_inherits demo_finite demo_no_cond(1)
      demo_mutex_facts(1,2,4,5,6,7,9), of 0]
  unfolding demo_mutex_facts(15) by (auto simp: demo_defs)

text \<open>C25: \<open>OSMutexPost\<close> by the owner implements the unlocking of a recursive lock: it undoes one
  locking, and at the last one the mutex is free or goes to the most urgent waiting task; the
  lists of the kernel, the mutex groups and the owners agree with each other afterwards.\<close>

theorem OSMutexPost_refines:
  assumes "kinv s A R W T" and "mutex_inv s A M W own" and "inherits s A" and "finite A"
    and "b \<in> M" and "task_level s c" and "c \<in> A" and "OwnerTCBPtr (OSMutexes s b) = Some c"
    and "unat (BasePrio (OSTCBs s c)) < OS_CFG_PRIO_MAX" and "opt \<in> {OS_OPT_POST_NONE, OS_OPT_POST_NO_SCHED}"
  shows "\<exists>err s' R' W' T' own'. OSMutexPost (Some b) opt ts s = Some (err, s') \<and>
    kinv s' A R' W' T' \<and> mutex_inv s' A M W' own' \<and>
    mutex_abs s' W' b = lock_give (hdo (W b)) (mutex_abs s W b) \<and>
    (\<forall>a\<in>set (W b). \<exists>h. hdo (W b) = Some h \<and> Prio (OSTCBs s h) \<le> Prio (OSTCBs s a)) \<and>
    err = (if OwnerNestingCtr (OSMutexes s b) > 1 then OS_ERR_MUTEX_NESTING else OS_ERR_NONE)"
  using post_cases [OF assms, of ts] sorted_head_le [OF assms(1)] by blast

theorem OSMutexPost_refines_witness:
  "\<exists>s' W'. OSMutexPost (Some 20) OS_OPT_POST_NONE 9 demo = Some (OS_ERR_NONE, s') \<and>
     mutex_abs s' W' 20 = (Some 6, 1, {})"
  using OSMutexPost_refines [OF demo_kinv demo_mutex demo_inherits demo_finite demo_mutex_facts(3,2,1,10,13)
      insertI1, of 9]
  unfolding demo_mutex_facts(14,12,11) by auto

text \<open>C2: Exact priority inheritance at the locking: if every task has the highest of its base
  priority and of the priorities of the tasks waiting for its mutexes, then this holds again
  after \<open>OSMutexPend\<close>, also when the caller has to wait and the owner of the mutex, the owner of the
  mutex that one waits for, and so on are raised to its priority. (No task waits for the condition of the timers,
  the pend list of which \<open>OS_TaskChangePrio\<close> does not sort again; another task than the caller is ready.)\<close>

theorem OSMutexPend_keeps_inheritance:
  assumes "kinv s A R W T" and "mutex_inv s A M W own" and "inherits s A" and "finite A"
    and "no_cond s A" and "c \<in> A" and "task_level s c" and "b \<in> M"
    and "z \<in> A" and "z \<noteq> c" and "TaskState (OSTCBs s z) = OS_TASK_STATE_RDY"
    and "OwnerNestingCtr (OSMutexes s b) \<noteq> -1"
  shows "\<exists>out s'. OSMutexPend (Some b) timeout OS_OPT_PEND_BLOCKING s = Some (out, s') \<and>
    (\<forall>t\<in>A. Prio (OSTCBs s' t) =
      Min (insert (BasePrio (OSTCBs s' t)) {p. \<exists>a\<in>A. waits_for s' a t \<and> p = Prio (OSTCBs s' a)}))"
  using pend_cases [OF assms, of timeout] unfolding inherits_def by blast

text \<open>Task 5 owns mutex 21 and the more urgent task 1 asks for it.\<close>

definition demo5 :: kernel where
  "demo5 = (put 5 (MutexGrpHeadPtr_update (\<lambda>_. Some 21)) demo)\<lparr>OSMutexes := (OSMutexes demo)
     (21 := \<lparr>MutexGrpNextPtr = None, OwnerTCBPtr = Some 5, OwnerNestingCtr = 1, Mutex_TS = 0\<rparr>)\<rparr>"

lemma demo5_sel: "OSMutexes demo5 = (OSMutexes demo)
     (21 := \<lparr>MutexGrpNextPtr = None, OwnerTCBPtr = Some 5, OwnerNestingCtr = 1, Mutex_TS = 0\<rparr>)"
    "OSTCBs demo5 c = (if c = 5 then (OSTCBs demo 5)\<lparr>MutexGrpHeadPtr := Some 21\<rparr> else OSTCBs demo c)"
    "OSObjs demo5 = OSObjs demo"
  by (simp_all add: demo5_def)

lemma demo5_kinv: "kinv demo5 demo_A demo_R demo_W demo_T"
  using demo_kinv by (simp add: demo5_def kinv_put)

lemma demo5_mutex: "mutex_inv demo5 demo_A {20, 21} demo_W ((\<lambda>_. [])(1 := [20], 5 := [21]))"
proof (rule mutex_inv_hand [OF demo_mutex])
  show "groups demo5 demo_A ((\<lambda>_. [])(1 := [20], 5 := [21]))"
    by (simp add: groups_def demo5_sel sll_def mgn_def) (simp add: demo_defs)
qed (auto simp: demo5_sel demo_defs Let_def)

lemma demo5_waits: "a \<in> demo_A \<Longrightarrow> waits_for demo5 a t \<longleftrightarrow> a = 6 \<and> t = 1"
  by (auto simp: waits_for_def demo5_sel demo_defs)

lemma demo5_inherits: "inherits demo5 demo_A"
  using inherits_cong [of demo5 demo demo_A] demo_inherits
  by (simp add: demo5_sel demo5_waits demo_waits)

lemma demo5_facts: "no_cond demo5 demo_A" "task_level demo5 1"
  "TaskState (OSTCBs demo5 2) = OS_TASK_STATE_RDY" "OwnerNestingCtr (OSMutexes demo5 21) \<noteq> -1"
  using demo_no_cond demo_mutex_facts(2,7)
  by (simp_all add: no_cond_def task_level_def demo5_sel) (simp_all add: demo5_def)

theorem OSMutexPend_keeps_inheritance_witness:
  "\<exists>out s'. OSMutexPend (Some 21) 0 OS_OPT_PEND_BLOCKING demo5 = Some (out, s') \<and>
    (\<forall>t\<in>demo_A. Prio (OSTCBs s' t) =
      Min (insert (BasePrio (OSTCBs s' t)) {p. \<exists>a\<in>demo_A. waits_for s' a t \<and> p = Prio (OSTCBs s' a)}))"
  by (rule OSMutexPend_keeps_inheritance [OF demo5_kinv demo5_mutex demo5_inherits demo_finite demo5_facts(1)
      demo_mutex_facts(1) demo5_facts(2) demo_mutex_facts(4,5,6) demo5_facts(3,4)])

text \<open>C8: Exact priority inheritance at the unlocking: after \<open>OSMutexPost\<close> by the owner every task
  again has the highest of its base priority and of the priorities of the tasks waiting for its
  mutexes; in particular the caller has lost what it had inherited through the mutex.\<close>

theorem OSMutexPost_keeps_inheritance:
  assumes "kinv s A R W T" and "mutex_inv s A M W own" and "inherits s A" and "finite A"
    and "b \<in> M" and "task_level s c" and "c \<in> A" and "OwnerTCBPtr (OSMutexes s b) = Some c"
    and "unat (BasePrio (OSTCBs s c)) < OS_CFG_PRIO_MAX" and "opt \<in> {OS_OPT_POST_NONE, OS_OPT_POST_NO_SCHED}"
  shows "\<exists>err s'. OSMutexPost (Some b) opt ts s = Some (err, s') \<and>
    (\<forall>t\<in>A. Prio (OSTCBs s' t) =
      Min (insert (BasePrio (OSTCBs s' t)) {p. \<exists>a\<in>A. waits_for s' a t \<and> p = Prio (OSTCBs s' a)}))"
  using post_cases [OF assms, of ts] unfolding inherits_def by blast

theorem OSMutexPost_keeps_inheritance_witness:
  "\<exists>err s'. OSMutexPost (Some 20) OS_OPT_POST_NONE 9 demo = Some (err, s') \<and>
    (\<forall>t\<in>demo_A. Prio (OSTCBs s' t) =
      Min (insert (BasePrio (OSTCBs s' t)) {p. \<exists>a\<in>demo_A. waits_for s' a t \<and> p = Prio (OSTCBs s' a)}))"
  by (rule OSMutexPost_keeps_inheritance [OF demo_kinv demo_mutex demo_inherits demo_finite
      demo_mutex_facts(3,2,1,10,13) insertI1])

text \<open>Lowering the priority of a task that waits for a mutex, while the owner of the mutex is
  more urgent than the task, gives the new low priority to the owner, although the owner owes
  its priority to nobody: the loop of \<open>OS_TaskChangePrio\<close> goes on with the owner unless it has the
  old priority of the task.\<close>

theorem OS_TaskChangePrio_lowers_owner:
  assumes K: "kinv s A R W T" and x: "x \<in> A" and w: "w \<in> A" "w \<noteq> x" "TaskState (OSTCBs s w) = OS_TASK_STATE_RDY"
    and e: "PendOn (OSTCBs s x) = OS_TASK_PEND_ON_MUTEX" "PendObjPtr (OSTCBs s x) = Some b"
    "OwnerTCBPtr (OSMutexes s b) = Some w"
    and p: "Prio (OSTCBs s w) < Prio (OSTCBs s x)" "Prio (OSTCBs s x) < p" "unat p < OS_CFG_PRIO_MAX"
  shows "\<exists>s'. OS_TaskChangePrio (Some x) p s = Some s' \<and> Prio (OSTCBs s' x) = p \<and> Prio (OSTCBs s' w) = p"
proof -
  from resort_kinv [OF K x e(2) p(3)] obtain s1 where
    s1: "OS_PendListChangePrio (Some x) (put x (Prio_update (\<lambda>_. p)) s) = Some s1" "reprio x p s s1"
    "kinv s1 A R (W(b := pend_ins (prios s1) x (remove1 x (W b)))) T" by blast
  note rs = reprio_sel [OF s1(2)]
  have st: "TaskState (OSTCBs s x) \<in> {OS_TASK_STATE_PEND, OS_TASK_STATE_PEND_TIMEOUT,
      OS_TASK_STATE_PEND_SUSPENDED, OS_TASK_STATE_PEND_TIMEOUT_SUSPENDED}"
    using task_okD(5) [OF K x] e(1) by (simp add: pending_def)
  have "\<not> p < Prio (OSTCBs s x)" "Prio (OSTCBs s1 w) \<noteq> Prio (OSTCBs s x)"
    using p rs(1) [of w] w(2) by (auto simp: not_less less_imp_le)
  then have round: "change_prio_round (Some x) p s = Some (Some w, p, s1)"
    using st e s1(1) rs(3) [of x] rs(7)
    by (elim insertE emptyE) (simp_all add: change_prio_round_def set_tcb_put)
  have "TaskState (OSTCBs s1 w) = OS_TASK_STATE_RDY" using rs(4) w(3) by simp
  from change_prio_ready [OF s1(3) w(1) this p(3)] obtain s' where
    s': "change_prio_round (Some w) p s1 = Some (None, p, s')" "reprio w p s1 s'" by blast
  have "OS_TaskChangePrio (Some w) p s1 = Some s'" using s'(1) by (subst OS_TaskChangePrio.simps) simp
  then have "OS_TaskChangePrio (Some x) p s = Some s'" using round by (subst OS_TaskChangePrio.simps) simp
  then show ?thesis using reprio_sel(1) [OF s'(2)] rs(1) [of x] w(2) by auto
qed

theorem OS_TaskChangePrio_lowers_owner_witness:
  "\<exists>s'. OS_TaskChangePrio (Some 6) 20 demo = Some s' \<and> Prio (OSTCBs s' 1) = 20 \<and> BasePrio (OSTCBs demo 1) = 5"
proof -
  have "TaskState (OSTCBs demo 1) = OS_TASK_STATE_RDY" "PendOn (OSTCBs demo 6) = OS_TASK_PEND_ON_MUTEX"
    "PendObjPtr (OSTCBs demo 6) = Some 20" "OwnerTCBPtr (OSMutexes demo 20) = Some 1" "6 \<in> demo_A" "1 \<in> demo_A"
    "Prio (OSTCBs demo 1) < Prio (OSTCBs demo 6)" "Prio (OSTCBs demo 6) < 20" "unat (20 :: u8) < OS_CFG_PRIO_MAX"
    "(1 :: nat) \<noteq> 6" "BasePrio (OSTCBs demo 1) = 5"
    by (simp_all add: demo_defs OS_CFG_PRIO_MAX_def)
  then show ?thesis using OS_TaskChangePrio_lowers_owner [OF demo_kinv, of 6 1 20 20] by blast
qed

text \<open>\<open>OS_MutexGrpPostAll\<close>, called when a task is deleted, puts each mutex of the task on which
  tasks wait into the group of the first waiting task, but leaves the deleted task as its owner;
  the task that got the mutex cannot give it back.\<close>

theorem OS_MutexGrpPostAll_keeps_dead_owner:
  assumes K: "kinv s A R W T" and G: "groups s A own" and t: "t \<in> A" and own: "own t = [b]"
    and Wb: "W b = h # E" and ht: "h \<noteq> t"
  shows "\<exists>s'. OS_MutexGrpPostAll (Some t) ts s = Some s' \<and> OwnerTCBPtr (OSMutexes s' b) = Some t \<and>
    MutexGrpHeadPtr (OSTCBs s' h) = Some b \<and> MutexGrpHeadPtr (OSTCBs s' t) = None \<and>
    PendStatus (OSTCBs s' h) = OS_STATUS_PEND_OK \<and> PendOn (OSTCBs s' h) = OS_TASK_PEND_ON_NOTHING"
proof -
  have hA: "h \<in> A" using waiterD(1) [OF K, of h b] Wb by simp
  have hd: "MutexGrpHeadPtr (OSTCBs s t) = Some b" "MutexGrpNextPtr (OSMutexes s b) = None"
    using groupsD(1) [OF G t] own by (auto simp: sll_def mgn_def)
  let ?s1 = "s\<lparr>OSMutexes := (OSMutexes s)(b := (OSMutexes s b)\<lparr>Mutex_TS := ts 0\<rparr>)\<rparr>"
  have G1: "groups ?s1 A own" using groups_cong [of ?s1 s A own] G by simp
  have bt: "b \<in> set (own t)" using own by simp
  obtain s2 where s2: "OS_MutexGrpRemove (Some t) (Some b) ?s1 = Some s2" "mx_frame ?s1 s2"
    "groups s2 A (own(t := remove1 b (own t)))" "\<And>m. mbody (OSMutexes s2 m) = mbody (OSMutexes ?s1 m)"
    by (rule OS_MutexGrpRemove_spec [OF G1 t bt]) (rule that)
  have fr2: "mx_frame s s2" by (rule mx_frame_trans [OF mx_frame_mutexes s2(2)])
  let ?s3 = "s2\<lparr>OSMutexes := (OSMutexes s2)(b := (OSMutexes s2 b)\<lparr>OwnerTCBPtr := Some t, OwnerNestingCtr := 1\<rparr>)\<rparr>"
  have G3: "groups ?s3 A (own(t := remove1 b (own t)))" using groups_cong [of ?s3 s2] s2(3) by simp
  have nb: "b \<notin> set ((own(t := remove1 b (own t))) u)" if "u \<in> A" for u
    using groupsD(3) [OF G t that] own bt by auto
  obtain s4 where s4: "OS_MutexGrpAdd (Some h) (Some b) ?s3 = Some s4" "mx_frame ?s3 s4"
    "groups s4 A ((own(t := remove1 b (own t)))(h := b # (own(t := remove1 b (own t))) h))"
    "\<And>m. mbody (OSMutexes s4 m) = mbody (OSMutexes ?s3 m)"
    by (rule OS_MutexGrpAdd_spec [OF G3 hA nb]) (assumption, rule that)
  have fr4: "mx_frame s s4" by (rule mx_frame_trans [OF mx_frame_trans [OF fr2 mx_frame_mutexes] s4(2)])
  have K4: "kinv s4 A R W T" using mx_frame_kinv [OF fr4] K by simp
  from post_waiter [OF K4 Wb, of None 0 "ts 0"] obtain s5 where
    s5: "OS_Post (Some b) (Some h) None 0 (ts 0) s4 = Some s5"
    "becomes h (posted_tcb None 0 (ts 0) (OSTCBs s4 h)) s4 s5 A (readied s4 h R) (without h W) (remove1 h T)"
    by blast
  note bs = becomes_sel [OF s5(2)]
  have h2: "PL_HeadPtr (PendList (OSObjs s2 b)) = Some h"
    using pend_head [OF K, of b] Wb mx_frame_sel(6) [OF fr2] by simp
  have "grp_post_all (Some t) (Some b) ts 0 s = Some s5"
    using hd(2) s2(1) h2 s4(1) s5(1)
    by (subst grp_post_all.simps) (simp add: Let_def, subst grp_post_all.simps, simp)
  then have "OS_MutexGrpPostAll (Some t) ts s = Some s5" using hd(1) by (simp add: OS_MutexGrpPostAll_def)
  moreover have "OwnerTCBPtr (OSMutexes s5 b) = Some t"
    using s4(4) [of b] moved_sel(2) [OF becomesD(1) [OF s5(2)]] by (simp add: mbody_def)
  moreover have "MutexGrpHeadPtr (OSTCBs s4 h) = Some b" "MutexGrpHeadPtr (OSTCBs s4 t) = None"
    using groupsD(1) [OF s4(3) hA] groupsD(1) [OF s4(3) t] own ht by (simp_all add: sll_def)
  moreover have "PendStatus (OSTCBs s5 h) = OS_STATUS_PEND_OK"
    using core_eqI(6) [OF becomesD(2) [OF s5(2)]] by (simp add: posted_tcb_def)
  ultimately show ?thesis
    unfolding bs(3,4) using ht by (intro exI [of _ s5]) (auto simp: bs(3,4) posted_sel)
qed

theorem OS_MutexGrpPostAll_keeps_dead_owner_witness:
  "\<exists>s'. OS_MutexGrpPostAll (Some 1) (\<lambda>_. 9) demo = Some s' \<and> OwnerTCBPtr (OSMutexes s' 20) = Some 1 \<and>
     MutexGrpHeadPtr (OSTCBs s' 6) = Some 20"
proof -
  have "((\<lambda>_. [])(1 := [20])) 1 = [20]" "demo_W 20 = 6 # []" "(6 :: nat) \<noteq> 1"
    by (simp_all add: demo_defs)
  from OS_MutexGrpPostAll_keeps_dead_owner [OF demo_kinv mutex_invD(1) [OF demo_mutex] demo_mutex_facts(1) this]
  show ?thesis by blast
qed

end
