(* ===== verification/Os_Q.thy ===== *)
theory Os_Q
  imports Os_Obj Os_Msg
begin

text \<open>
  Message queues (\<open>os_q.c\<close>). The \<open>MsgQ\<close> field of an \<open>OS_Q\<close> is in the store \<open>OSQs\<close>; it is read,
  passed to the operations of \<open>os_msg.c\<close> and written back. \<open>ts\<close> is the value of \<open>OS_TS_GET()\<close>.
  The result of a pend is the message pointer, the size written to \<open>*p_msg_size\<close>, the time stamp
  written to \<open>*p_ts\<close> (\<open>None\<close>: nothing is written) and the error.
\<close>

definition OS_QDbgListAdd :: "ptr \<Rightarrow> kernel \<Rightarrow> kernel option" where
  "OS_QDbgListAdd = dbg_list_add OSQDbgListPtr (\<lambda>p s. s\<lparr>OSQDbgListPtr := p\<rparr>)"

definition OS_QDbgListRemove :: "ptr \<Rightarrow> kernel \<Rightarrow> kernel option" where
  "OS_QDbgListRemove = dbg_list_remove (\<lambda>p s. s\<lparr>OSQDbgListPtr := p\<rparr>)"

definition OS_QClr :: "ptr \<Rightarrow> kernel \<Rightarrow> kernel option" where
  "OS_QClr p_q s = do {
     q \<leftarrow> msg_q s p_q;
     (_, q, s) \<leftarrow> OS_MsgQFreeAll q s;
     s \<leftarrow> set_msg_q p_q (\<lambda>_. q) s;
     s \<leftarrow> set_obj p_q (\<lambda>b. b\<lparr>Type := OS_OBJ_TYPE_NONE\<rparr>) s;
     s \<leftarrow> set_obj p_q (\<lambda>b. b\<lparr>Obj_NamePtr := ''?Q''\<rparr>) s;
     s \<leftarrow> set_msg_q p_q (OS_MsgQInit 0) s;
     OS_PendListInit p_q s
   }"

definition OSQCreate :: "ptr \<Rightarrow> string \<Rightarrow> u16 \<Rightarrow> kernel \<Rightarrow> (OS_ERR \<times> kernel) option" where
  "OSQCreate p_q p_name max_qty s =
     (if OSIntNestingCtr s > 0 then Some (OS_ERR_CREATE_ISR, s)
      else if p_q = None then Some (OS_ERR_OBJ_PTR_NULL, s)
      else if max_qty = 0 then Some (OS_ERR_Q_SIZE, s)
      else do {
        b \<leftarrow> obj s p_q;
        if Type b = OS_OBJ_TYPE_Q then Some (OS_ERR_OBJ_CREATED, s)
        else do {
          s \<leftarrow> set_obj p_q (\<lambda>b. b\<lparr>Type := OS_OBJ_TYPE_Q\<rparr>) s;
          s \<leftarrow> set_obj p_q (\<lambda>b. b\<lparr>Obj_NamePtr := p_name\<rparr>) s;
          s \<leftarrow> set_msg_q p_q (OS_MsgQInit max_qty) s;
          s \<leftarrow> OS_PendListInit p_q s;
          s \<leftarrow> OS_QDbgListAdd p_q s;
          let s = s\<lparr>OSQQty := OSQQty s + 1\<rparr>;
          Some (OS_ERR_NONE, s)
        }
      })"

definition OSQDel :: "ptr \<Rightarrow> OS_OPT \<Rightarrow> u32 \<Rightarrow> kernel \<Rightarrow> (u16 \<times> OS_ERR \<times> kernel) option" where
  "OSQDel p_q opt ts s =
     (if OSIntNestingCtr s > 0 then Some (0, OS_ERR_DEL_ISR, s)
      else if OSRunning s \<noteq> OS_STATE_OS_RUNNING then Some (0, OS_ERR_OS_NOT_RUNNING, s)
      else if p_q = None then Some (0, OS_ERR_OBJ_PTR_NULL, s)
      else do {
        b \<leftarrow> obj s p_q;
        if Type b \<noteq> OS_OBJ_TYPE_Q then Some (0, OS_ERR_OBJ_TYPE, s)
        else if opt = OS_OPT_DEL_NO_PEND then
          if PL_HeadPtr (PendList b) = None then do {
            s \<leftarrow> OS_QDbgListRemove p_q s;
            let s = s\<lparr>OSQQty := OSQQty s - 1\<rparr>;
            s \<leftarrow> OS_QClr p_q s;
            Some (0, OS_ERR_NONE, s)
          } else Some (0, OS_ERR_TASK_WAITING, s)
        else if opt = OS_OPT_DEL_ALWAYS then do {
          (nbr_tasks, s) \<leftarrow> del_loop p_q ts 0 s;
          s \<leftarrow> OS_QDbgListRemove p_q s;
          let s = s\<lparr>OSQQty := OSQQty s - 1\<rparr>;
          s \<leftarrow> OS_QClr p_q s;
          s \<leftarrow> OSSched s;
          Some (nbr_tasks, OS_ERR_NONE, s)
        } else Some (0, OS_ERR_OPT_INVALID, s)
      })"

definition OSQFlush :: "ptr \<Rightarrow> kernel \<Rightarrow> (u16 \<times> OS_ERR \<times> kernel) option" where
  "OSQFlush p_q s =
     (if OSIntNestingCtr s > 0 then Some (0, OS_ERR_FLUSH_ISR, s)
      else if OSRunning s \<noteq> OS_STATE_OS_RUNNING then Some (0, OS_ERR_OS_NOT_RUNNING, s)
      else if p_q = None then Some (0, OS_ERR_OBJ_PTR_NULL, s)
      else do {
        b \<leftarrow> obj s p_q;
        if Type b \<noteq> OS_OBJ_TYPE_Q then Some (0, OS_ERR_OBJ_TYPE, s)
        else do {
          q \<leftarrow> msg_q s p_q;
          (entries, q, s) \<leftarrow> OS_MsgQFreeAll q s;
          s \<leftarrow> set_msg_q p_q (\<lambda>_. q) s;
          Some (entries, OS_ERR_NONE, s)
        }
      })"

type_synonym q_result = "ptr \<times> u16 option \<times> u32 option \<times> OS_ERR"

definition OSQPend :: "ptr \<Rightarrow> u32 \<Rightarrow> OS_OPT \<Rightarrow> ptr \<Rightarrow> kernel \<Rightarrow> (q_result pend_outcome \<times> kernel) option" where
  "OSQPend p_q timeout opt p_msg_size s =
     (if OSIntNestingCtr s > 0 \<and> opt AND OS_OPT_PEND_NON_BLOCKING \<noteq> OS_OPT_PEND_NON_BLOCKING
      then Some (Done (None, None, None, OS_ERR_PEND_ISR), s)
      else if OSRunning s \<noteq> OS_STATE_OS_RUNNING
      then Some (Done (None, None, None, OS_ERR_OS_NOT_RUNNING), s)
      else if p_q = None then Some (Done (None, None, None, OS_ERR_OBJ_PTR_NULL), s)
      else if p_msg_size = None then Some (Done (None, None, None, OS_ERR_PTR_INVALID), s)
      else if opt \<notin> {OS_OPT_PEND_BLOCKING, OS_OPT_PEND_NON_BLOCKING}
      then Some (Done (None, None, None, OS_ERR_OPT_INVALID), s)
      else do {
        b \<leftarrow> obj s p_q;
        if Type b \<noteq> OS_OBJ_TYPE_Q then Some (Done (None, None, None, OS_ERR_OBJ_TYPE), s)
        else do {
          q \<leftarrow> msg_q s p_q;
          (err, (p_void, msg_size, p_ts), q, s) \<leftarrow> OS_MsgQGet q s;
          s \<leftarrow> set_msg_q p_q (\<lambda>_. q) s;
          if err = OS_ERR_NONE then Some (Done (p_void, Some msg_size, Some p_ts, OS_ERR_NONE), s)
          else if opt AND OS_OPT_PEND_NON_BLOCKING \<noteq> 0
          then Some (Done (None, Some msg_size, Some p_ts, OS_ERR_PEND_WOULD_BLOCK), s)
          else if OSSchedLockNestingCtr s > 0
          then Some (Done (None, Some msg_size, Some p_ts, OS_ERR_SCHED_LOCKED), s)
          else do {
            s \<leftarrow> OS_Pend p_q (OSTCBCurPtr s) OS_TASK_PEND_ON_Q timeout s;
            s \<leftarrow> OSSched s;
            Some (Blocked, s)
          }
        }
      })"

text \<open>On a time-out \<open>*p_ts\<close> keeps the zero that the first part of the call has written.\<close>

definition OSQPend_resume :: "kernel \<Rightarrow> q_result option" where
  "OSQPend_resume s = do {
     t \<leftarrow> tcb s (OSTCBCurPtr s);
     Some (case PendStatus t of
        OS_STATUS_PEND_OK \<Rightarrow> (MsgPtr t, Some (MsgSize t), Some (Tcb_TS t), OS_ERR_NONE)
      | OS_STATUS_PEND_ABORT \<Rightarrow> (None, Some 0, Some (Tcb_TS t), OS_ERR_PEND_ABORT)
      | OS_STATUS_PEND_TIMEOUT \<Rightarrow> (None, Some 0, Some 0, OS_ERR_TIMEOUT)
      | OS_STATUS_PEND_DEL \<Rightarrow> (None, Some 0, Some (Tcb_TS t), OS_ERR_OBJ_DEL))
   }"

definition OSQPendAbort :: "ptr \<Rightarrow> OS_OPT \<Rightarrow> u32 \<Rightarrow> kernel \<Rightarrow> (u16 \<times> OS_ERR \<times> kernel) option" where
  "OSQPendAbort p_q opt ts s =
     (if OSIntNestingCtr s > 0 then Some (0, OS_ERR_PEND_ABORT_ISR, s)
      else if OSRunning s \<noteq> OS_STATE_OS_RUNNING then Some (0, OS_ERR_OS_NOT_RUNNING, s)
      else if p_q = None then Some (0, OS_ERR_OBJ_PTR_NULL, s)
      else if opt \<notin> {OS_OPT_PEND_ABORT_1, OS_OPT_PEND_ABORT_ALL,
          OS_OPT_PEND_ABORT_1 OR OS_OPT_POST_NO_SCHED, OS_OPT_PEND_ABORT_ALL OR OS_OPT_POST_NO_SCHED}
      then Some (0, OS_ERR_OPT_INVALID, s)
      else do {
        b \<leftarrow> obj s p_q;
        if Type b \<noteq> OS_OBJ_TYPE_Q then Some (0, OS_ERR_OBJ_TYPE, s)
        else if PL_HeadPtr (PendList b) = None then Some (0, OS_ERR_PEND_ABORT_NONE, s)
        else do {
          (nbr_tasks, s) \<leftarrow> abort_loop p_q opt ts 0 s;
          s \<leftarrow> (if opt AND OS_OPT_POST_NO_SCHED = 0 then OSSched s else Some s);
          Some (nbr_tasks, OS_ERR_NONE, s)
        }
      })"

definition OSQPost :: "ptr \<Rightarrow> ptr \<Rightarrow> u16 \<Rightarrow> OS_OPT \<Rightarrow> u32 \<Rightarrow> kernel \<Rightarrow> (OS_ERR \<times> kernel) option" where
  "OSQPost p_q p_void msg_size opt ts s =
     (if OSRunning s \<noteq> OS_STATE_OS_RUNNING then Some (OS_ERR_OS_NOT_RUNNING, s)
      else if p_q = None then Some (OS_ERR_OBJ_PTR_NULL, s)
      else if opt \<notin> {OS_OPT_POST_FIFO, OS_OPT_POST_LIFO, OS_OPT_POST_FIFO OR OS_OPT_POST_ALL,
          OS_OPT_POST_LIFO OR OS_OPT_POST_ALL, OS_OPT_POST_FIFO OR OS_OPT_POST_NO_SCHED,
          OS_OPT_POST_LIFO OR OS_OPT_POST_NO_SCHED,
          OS_OPT_POST_FIFO OR (OS_OPT_POST_ALL OR OS_OPT_POST_NO_SCHED),
          OS_OPT_POST_LIFO OR (OS_OPT_POST_ALL OR OS_OPT_POST_NO_SCHED)}
      then Some (OS_ERR_OPT_INVALID, s)
      else do {
        b \<leftarrow> obj s p_q;
        if Type b \<noteq> OS_OBJ_TYPE_Q then Some (OS_ERR_OBJ_TYPE, s)
        else if PL_HeadPtr (PendList b) = None then do {
          let post_type = (if opt AND OS_OPT_POST_LIFO = 0 then OS_OPT_POST_FIFO else OS_OPT_POST_LIFO);
          q \<leftarrow> msg_q s p_q;
          (err, q, s) \<leftarrow> OS_MsgQPut q p_void msg_size post_type ts s;
          s \<leftarrow> set_msg_q p_q (\<lambda>_. q) s;
          Some (err, s)
        } else do {
          s \<leftarrow> post_loop p_q (PL_HeadPtr (PendList b)) p_void msg_size opt ts s;
          s \<leftarrow> (if opt AND OS_OPT_POST_NO_SCHED = 0 then OSSched s else Some s);
          Some (OS_ERR_NONE, s)
        }
      })"

section \<open>The debug list\<close>

interpretation q_dbg: dbg_list OSQDbgListPtr "\<lambda>p s. s\<lparr>OSQDbgListPtr := p\<rparr>"
proof unfold_locales
  fix p :: ptr and s :: kernel and A R W T
  show "kinv (s\<lparr>OSQDbgListPtr := p\<rparr>) A R W T \<longleftrightarrow> kinv s A R W T"
    by (rule kinv_cong; (rule rdy_rel_cong pend_lists_cong tick_lists_cong)?; simp)
qed (simp_all add: put_obj_def)

section \<open>The contract of a message queue\<close>

text \<open>The abstract queue: the messages, oldest first, and the waiting tasks. A post gives the
  message to the first waiting task or stores it at the end (at the front with
  \<open>OS_OPT_POST_LIFO\<close>); a pend takes the oldest message or queues the task.\<close>

fun q_send :: "bool \<Rightarrow> message \<Rightarrow> message list \<times> nat list \<Rightarrow> message list \<times> nat list" where
  "q_send lifo m (ms, []) = (if lifo then m # ms else ms @ [m], [])"
| "q_send lifo m (ms, a # ws) = (ms, ws)"

fun q_receive :: "(nat \<Rightarrow> nat list \<Rightarrow> nat list) \<Rightarrow> nat \<Rightarrow> message list \<times> nat list \<Rightarrow> message list \<times> nat list" where
  "q_receive ins a ([], ws) = ([], ins a ws)"
| "q_receive ins a (m # ms, ws) = (ms, ws)"

text \<open>Queue \<open>b\<close> holds the messages \<open>ms\<close>, and the pool has \<open>k\<close> free nodes; no task waits while there
  is a message.\<close>

definition q_inv :: "kernel \<Rightarrow> (nat \<Rightarrow> nat list) \<Rightarrow> nat \<Rightarrow> message list \<Rightarrow> nat \<Rightarrow> bool" where
  "q_inv s W b ms k \<longleftrightarrow> Type (OSObjs s b) = OS_OBJ_TYPE_Q \<and> mq_rel (OSQs s b, s) ms k \<and>
     (ms \<noteq> [] \<longrightarrow> W b = [])"

lemma mq_rel_cong:
  "OSMsgs s' = OSMsgs s \<Longrightarrow> OSMsgPool s' = OSMsgPool s \<Longrightarrow> mq_rel (q, s') ms k \<longleftrightarrow> mq_rel (q, s) ms k"
proof -
  assume "OSMsgs s' = OSMsgs s" "OSMsgPool s' = OSMsgPool s"
  then have "mnext s' = mnext s" "payload s' = payload s" "OSMsgPool s' = OSMsgPool s"
    by (simp_all add: mnext_def payload_def fun_eq_iff)
  then show ?thesis by (simp add: mq_rel_def msgq_list_def pool_list_def)
qed

text \<open>The operations of \<open>os_msg.c\<close> touch the nodes and the pool only.\<close>

lemma msg_frame_kinv: "msg_frame X s s' \<Longrightarrow> kinv s' A R W T \<longleftrightarrow> kinv s A R W T"
  by (auto simp: msg_frame_def)

lemma msg_frame_sel:
  assumes "msg_frame X s s'"
  shows "OSTCBs s' = OSTCBs s" "OSObjs s' = OSObjs s" "OSQs s' = OSQs s" "OSTCBCurPtr s' = OSTCBCurPtr s"
    "OSRunning s' = OSRunning s" "OSIntNestingCtr s' = OSIntNestingCtr s"
    "OSSchedLockNestingCtr s' = OSSchedLockNestingCtr s" "OSSems s' = OSSems s" "OSMutexes s' = OSMutexes s"
  using assms by (auto simp: msg_frame_def)

lemma MsgQPut_stores:
  assumes r: "mq_rel (q, s) ms k" and room: "length ms < unat (MQ_NbrEntriesSize q)" and k: "0 < k"
  obtains q' s' where
    "OS_MsgQPut q p z opt ts s = Some (OS_ERR_NONE, q', s')" "\<exists>X. msg_frame X s s'"
    "mq_rel (q', s') (if opt AND OS_OPT_POST_LIFO = OS_OPT_POST_FIFO then ms @ [(p, z, ts)] else (p, z, ts) # ms) (k - 1)"
    "MQ_NbrEntriesSize q' = MQ_NbrEntriesSize q"
proof -
  from r obtain xs fs0 where x: "msgq_list s q xs" "pool_list s fs0" "set xs \<inter> set fs0 = {}"
    "length xs + length fs0 < 2 ^ 16" "ms = map (payload s) xs" "k = length fs0" by (rule mq_relE)
  with k obtain f fs where f: "fs0 = f # fs" by (cases fs0) auto
  let ?ys = "if opt AND OS_OPT_POST_LIFO = OS_OPT_POST_FIFO then xs @ [f] else f # xs"
  from OS_MsgQPut_spec [OF x(1), of f fs p z opt ts] x room f obtain q' s' where
    i: "OS_MsgQPut q p z opt ts s = Some (OS_ERR_NONE, q', s')" "msgq_list s' q' ?ys" "pool_list s' fs"
    "payload s' = (payload s)(f := (p, z, ts))" "msg_frame (insert f (set xs)) s s'"
    "MQ_NbrEntriesSize q' = MQ_NbrEntriesSize q" by auto
  have d: "distinct fs0" using x(2) by (simp add: pool_list_def sll_def)
  have "mq_rel (q', s') (if opt AND OS_OPT_POST_LIFO = OS_OPT_POST_FIFO then ms @ [(p, z, ts)] else (p, z, ts) # ms) (k - 1)"
    using i(2-4) x f d unfolding mq_rel_def
    by (intro case_prodI exI [of _ ?ys] exI [of _ fs]) auto
  with i(1,5,6) show thesis by (intro that [of q' s']) auto
qed

lemma MsgQGet_takes:
  assumes r: "mq_rel (q, s) (m # ms) k"
  obtains q' s' where "OS_MsgQGet q s = Some (OS_ERR_NONE, m, q', s')" "\<exists>X. msg_frame X s s'"
    "mq_rel (q', s') ms (Suc k)"
proof -
  from r obtain xs0 fs where x: "msgq_list s q xs0" "pool_list s fs" "set xs0 \<inter> set fs = {}"
    "length xs0 + length fs < 2 ^ 16" "m # ms = map (payload s) xs0" "k = length fs" by (rule mq_relE)
  from x(5) obtain a xs where a: "xs0 = a # xs" "m = payload s a" "ms = map (payload s) xs"
    by (cases xs0) auto
  from OS_MsgQGet_spec [of s q a xs fs] x a obtain q' s' where
    i: "OS_MsgQGet q s = Some (OS_ERR_NONE, m, q', s')" "msgq_list s' q' xs" "pool_list s' (a # fs)"
    "payload s' = payload s" "msg_frame {a} s s'" by auto
  have "distinct xs0" using x(1) by (simp add: msgq_list_def sll_def)
  then have "mq_rel (q', s') ms (Suc k)"
    using i x a unfolding mq_rel_def by (intro case_prodI exI [of _ xs] exI [of _ "a # fs"]) auto
  with i(1,5) show thesis by (intro that [of q' s']) auto
qed

lemma MsgQGet_none:
  "mq_rel (q, s) [] k \<Longrightarrow> OS_MsgQGet q s = Some (OS_ERR_Q_EMPTY, (None, 0, 0), q, s)"
  by (elim mq_relE) (simp add: OS_MsgQGet_empty)

lemma set_msg_q_same: "set_msg_q (Some b) (\<lambda>_. OSQs s b) s = Some s"
  by (simp add: set_msg_q_def)

section \<open>The paths of a post and of a pend\<close>

definition q_post_opts :: "OS_OPT set" where
  "q_post_opts = {OS_OPT_POST_FIFO, OS_OPT_POST_LIFO, OS_OPT_POST_FIFO OR OS_OPT_POST_ALL,
     OS_OPT_POST_LIFO OR OS_OPT_POST_ALL, OS_OPT_POST_FIFO OR OS_OPT_POST_NO_SCHED,
     OS_OPT_POST_LIFO OR OS_OPT_POST_NO_SCHED,
     OS_OPT_POST_FIFO OR (OS_OPT_POST_ALL OR OS_OPT_POST_NO_SCHED),
     OS_OPT_POST_LIFO OR (OS_OPT_POST_ALL OR OS_OPT_POST_NO_SCHED)}"

lemma OSQPost_store:
  assumes K: "kinv s A R W T" and I: "q_inv s W b ms k" and r: "OSRunning s = OS_STATE_OS_RUNNING"
    and o: "opt \<in> q_post_opts" and W: "W b = []"
  shows "OSQPost (Some b) p z opt ts s = do {
     (err, q, s) \<leftarrow> OS_MsgQPut (OSQs s b) p z (if opt AND OS_OPT_POST_LIFO = 0 then OS_OPT_POST_FIFO else OS_OPT_POST_LIFO) ts s;
     Some (err, s\<lparr>OSQs := (OSQs s)(b := q)\<rparr>) }"
  using pend_head [OF K, of b] I r o W
  by (simp add: OSQPost_def q_inv_def q_post_opts_def set_msg_q_def Let_def)

lemma OSQPost_wake:
  assumes K: "kinv s A R W T" and I: "q_inv s W b ms k" and r: "OSRunning s = OS_STATE_OS_RUNNING"
    and o: "opt \<in> q_post_opts" and W: "W b = a # E" and ne: "R q \<noteq> []"
  shows "\<exists>s1 s'. OSQPost (Some b) p z opt ts s = Some (OS_ERR_NONE, s') \<and>
    released (posted_tcb p z ts) s s1 A R W T (if opt AND OS_OPT_POST_ALL = 0 then [a] else a # E) \<and>
    sched_unless opt s1 = Some s' \<and> switched s1 s'"
proof -
  have h: "PL_HeadPtr (PendList (OSObjs s b)) = Some a" using pend_head [OF K, of b] W by simp
  have "\<exists>s1. post_loop (Some b) (Some a) p z opt ts s = Some s1 \<and>
      released (posted_tcb p z ts) s s1 A R W T (if opt AND OS_OPT_POST_ALL = 0 then [a] else a # E)"
    using post_loop_one [OF K W] post_loop_all [OF K W] by (cases "opt AND OS_OPT_POST_ALL = 0") auto
  then obtain s1 where s1: "post_loop (Some b) (Some a) p z opt ts s = Some s1"
    "released (posted_tcb p z ts) s s1 A R W T (if opt AND OS_OPT_POST_ALL = 0 then [a] else a # E)"
    by blast
  from sched_unless_spec [OF s1(2) ne] obtain s' where s': "sched_unless opt s1 = Some s'" "switched s1 s'"
    by auto
  have "OSQPost (Some b) p z opt ts s = Some (OS_ERR_NONE, s')"
    using I r o h s1(1) s'(1)
    by (simp add: OSQPost_def q_inv_def q_post_opts_def sched_unless_def [symmetric])
  with s1(2) s' show ?thesis by blast
qed

lemma OSQPend_take:
  assumes I: "q_inv s W b ((p, z, ts) # ms) k" and l: "task_level s c"
  shows "\<exists>s'. OSQPend (Some b) timeout OS_OPT_PEND_BLOCKING (Some sz) s =
      Some (Done (p, Some z, Some ts, OS_ERR_NONE), s') \<and> q_inv s' W b ms (Suc k) \<and>
      OSTCBCurPtr s' = Some c \<and> (\<forall>A R W T. kinv s' A R W T \<longleftrightarrow> kinv s A R W T)"
proof -
  have r: "mq_rel (OSQs s b, s) ((p, z, ts) # ms) k" and ty: "Type (OSObjs s b) = OS_OBJ_TYPE_Q" and W: "W b = []"
    using I by (simp_all add: q_inv_def)
  obtain q' s1 where g: "OS_MsgQGet (OSQs s b) s = Some (OS_ERR_NONE, (p, z, ts), q', s1)" "\<exists>X. msg_frame X s s1"
    "mq_rel (q', s1) ms (Suc k)" by (rule MsgQGet_takes [OF r]) (rule that)
  then obtain X where fr: "msg_frame X s s1" by blast
  note F = msg_frame_sel [OF fr]
  let ?s = "s1\<lparr>OSQs := (OSQs s1)(b := q')\<rparr>"
  have "OSQPend (Some b) timeout OS_OPT_PEND_BLOCKING (Some sz) s = Some (Done (p, Some z, Some ts, OS_ERR_NONE), ?s)"
    using g(1) ty l by (simp add: OSQPend_def task_level_def set_msg_q_def)
  moreover have "mq_rel (q', ?s) ms (Suc k)" using g(3) mq_rel_cong [of ?s s1] by simp
  ultimately show ?thesis using ty W F(2,4) l msg_frame_kinv [OF fr]
    by (intro exI [of _ ?s]) (simp add: q_inv_def task_level_def)
qed

lemma OSQPend_block:
  assumes K: "kinv s A R W T" and I: "q_inv s W b [] k" and c: "c \<in> A" and l: "task_level s c"
    and ne: "rdy_del s c R q \<noteq> []"
  shows "\<exists>s1 s' x T'. OSQPend (Some b) timeout OS_OPT_PEND_BLOCKING (Some sz) s = Some (Blocked, s') \<and>
    becomes c (pended_tcb s (Some b) OS_TASK_PEND_ON_Q timeout (OSTCBs s c)) s s1 A (rdy_del s c R)
      (W(b := pend_ins (prios s) c (W b))) T' \<and>
    (if timeout > 0 then tick_inserted s T c (unat timeout) (trem s1) T' else T' = T) \<and>
    switched s1 s' \<and> OSTCBCurPtr s' = Some x \<and> x \<noteq> c \<and> running s' x \<and> most_urgent s (rdy_del s c R) x"
proof -
  have r: "mq_rel (OSQs s b, s) [] k" and ty: "Type (OSObjs s b) = OS_OBJ_TYPE_Q" using I by (simp_all add: q_inv_def)
  have po: "on_object OS_TASK_PEND_ON_Q" by (simp add: on_object_def)
  from block_spec [OF K c l po ne, of b timeout] obtain s1 s' x T' where
    x: "OS_Pend (Some b) (OSTCBCurPtr s) OS_TASK_PEND_ON_Q timeout s = Some s1" "OSSched s1 = Some s'"
    "becomes c (pended_tcb s (Some b) OS_TASK_PEND_ON_Q timeout (OSTCBs s c)) s s1 A (rdy_del s c R)
      (W(b := pend_ins (prios s) c (W b))) T'"
    "if timeout > 0 then tick_inserted s T c (unat timeout) (trem s1) T' else T' = T"
    "switched s1 s'" "OSTCBCurPtr s' = Some x" "x \<noteq> c" "running s' x" "most_urgent s (rdy_del s c R) x" by blast
  have "OSQPend (Some b) timeout OS_OPT_PEND_BLOCKING (Some sz) s = Some (Blocked, s')"
    using x(1,2) ty l MsgQGet_none [OF r] by (simp add: OSQPend_def task_level_def set_msg_q_same)
  with x(3-) show ?thesis by blast
qed

end
