(* ===== verification/Q_Props.thy ===== *)
theory Q_Props
  imports Os_Q Demo_System
begin

text \<open>
  The properties of the message queues: they refine an abstract queue whose messages are kept in
  order, and a message that is posted reaches the waiting task as it was sent.
\<close>

lemma q_opts [simp]:
  "OS_OPT_POST_FIFO AND OS_OPT_POST_LIFO = 0" "OS_OPT_POST_LIFO AND OS_OPT_POST_LIFO \<noteq> 0"
  "(OS_OPT_POST_FIFO OR OS_OPT_POST_NO_SCHED) AND OS_OPT_POST_LIFO = 0"
  "(OS_OPT_POST_LIFO OR OS_OPT_POST_NO_SCHED) AND OS_OPT_POST_LIFO \<noteq> 0"
  "OS_OPT_POST_FIFO AND OS_OPT_POST_ALL = 0" "OS_OPT_POST_LIFO AND OS_OPT_POST_ALL = 0"
  "(OS_OPT_POST_FIFO OR OS_OPT_POST_NO_SCHED) AND OS_OPT_POST_ALL = 0"
  "(OS_OPT_POST_LIFO OR OS_OPT_POST_NO_SCHED) AND OS_OPT_POST_ALL = 0"
  "OS_OPT_POST_FIFO AND OS_OPT_POST_NO_SCHED = 0" "OS_OPT_POST_LIFO AND OS_OPT_POST_NO_SCHED = 0"
  "OS_OPT_POST_LIFO \<noteq> OS_OPT_POST_FIFO" "OS_OPT_POST_FIFO AND OS_OPT_POST_LIFO = OS_OPT_POST_FIFO"
  "OS_OPT_POST_LIFO AND OS_OPT_POST_LIFO \<noteq> OS_OPT_POST_FIFO"
  by (simp_all add: opts)

definition one_post_opts :: "OS_OPT set" where
  "one_post_opts = {OS_OPT_POST_FIFO, OS_OPT_POST_LIFO, OS_OPT_POST_FIFO OR OS_OPT_POST_NO_SCHED,
     OS_OPT_POST_LIFO OR OS_OPT_POST_NO_SCHED}"

lemma one_post_opts: "opt \<in> one_post_opts \<Longrightarrow> opt \<in> q_post_opts \<and> opt AND OS_OPT_POST_ALL = 0"
  by (auto simp: one_post_opts_def q_post_opts_def)

text \<open>No task waits: the message is stored, or refused for want of room.\<close>

lemma OSQPost_stores:
  assumes K: "kinv s A R W T" and I: "q_inv s W b ms k" and r: "OSRunning s = OS_STATE_OS_RUNNING"
    and o: "opt \<in> one_post_opts" and Nil: "W b = []"
  shows "\<exists>err s' ms' k'. OSQPost (Some b) p z opt ts s = Some (err, s') \<and> kinv s' A R W T \<and> q_inv s' W b ms' k' \<and>
    (if length ms \<ge> unat (MQ_NbrEntriesSize (OSQs s b)) then err = OS_ERR_Q_MAX \<and> s' = s
     else if k = 0 then err = OS_ERR_MSG_POOL_EMPTY \<and> s' = s
     else err = OS_ERR_NONE \<and> (ms', []) = q_send (opt AND OS_OPT_POST_LIFO \<noteq> 0) (p, z, ts) (ms, []))"
proof -
  let ?o = "if opt AND OS_OPT_POST_LIFO = 0 then OS_OPT_POST_FIFO else OS_OPT_POST_LIFO"
  have o': "?o AND OS_OPT_POST_LIFO = OS_OPT_POST_FIFO \<longleftrightarrow> opt AND OS_OPT_POST_LIFO = 0"
    by (simp add: OS_OPT_POST_FIFO_def) (simp add: OS_OPT_POST_LIFO_def)
  note P = OSQPost_store [OF K I r one_post_opts [OF o, THEN conjunct1] Nil, of p z ts]
  have mq: "mq_rel (OSQs s b, s) ms k" and ty: "Type (OSObjs s b) = OS_OBJ_TYPE_Q" using I by (simp_all add: q_inv_def)
  have same: "s\<lparr>OSQs := (OSQs s)(b := OSQs s b)\<rparr> = s" by simp
  from mq obtain xs fs where x: "msgq_list s (OSQs s b) xs" "pool_list s fs" "length ms = length xs" "k = length fs"
    by (elim mq_relE) auto
  consider (full) "length ms \<ge> unat (MQ_NbrEntriesSize (OSQs s b))"
    | (pool) "\<not> length ms \<ge> unat (MQ_NbrEntriesSize (OSQs s b))" "k = 0"
    | (ok) "length ms < unat (MQ_NbrEntriesSize (OSQs s b))" "0 < k" by linarith
  then show ?thesis
  proof cases
    case full
    then have "MQ_NbrEntriesSize (OSQs s b) \<le> MQ_NbrEntries (OSQs s b)"
      using x by (simp add: msgq_list_def word_le_nat_alt)
    then have "OSQPost (Some b) p z opt ts s = Some (OS_ERR_Q_MAX, s)"
      unfolding P by (simp add: OS_MsgQPut_full same)
    with K I full show ?thesis
      by (intro exI [of _ OS_ERR_Q_MAX] exI [of _ s] exI [of _ ms] exI [of _ k]) simp
  next
    case pool
    then have "\<not> MQ_NbrEntriesSize (OSQs s b) \<le> MQ_NbrEntries (OSQs s b)" "MP_NbrFree (OSMsgPool s) = 0"
      using x by (simp_all add: msgq_list_def pool_list_def word_le_nat_alt unat_eq_0)
    then have "OSQPost (Some b) p z opt ts s = Some (OS_ERR_MSG_POOL_EMPTY, s)"
      unfolding P by (simp add: OS_MsgQPut_empty_pool same)
    with K I pool show ?thesis
      by (intro exI [of _ OS_ERR_MSG_POOL_EMPTY] exI [of _ s] exI [of _ ms] exI [of _ k]) simp
  next
    case ok
    let ?ms = "if ?o AND OS_OPT_POST_LIFO = OS_OPT_POST_FIFO then ms @ [(p, z, ts)] else (p, z, ts) # ms"
    obtain q' s1 where g: "OS_MsgQPut (OSQs s b) p z ?o ts s = Some (OS_ERR_NONE, q', s1)" "\<exists>X. msg_frame X s s1"
      "mq_rel (q', s1) ?ms (k - 1)" by (rule MsgQPut_stores [OF mq ok]) (rule that)
    then obtain X where fr: "msg_frame X s s1" by blast
    let ?s = "s1\<lparr>OSQs := (OSQs s1)(b := q')\<rparr>"
    have "OSQPost (Some b) p z opt ts s = Some (OS_ERR_NONE, ?s)" unfolding P g(1) by simp
    moreover have "mq_rel (q', ?s) ?ms (k - 1)" using g(3) mq_rel_cong [of ?s s1] by simp
    moreover have "kinv ?s A R W T" using K msg_frame_kinv [OF fr] by simp
    moreover have "(?ms, W b) = q_send (opt AND OS_OPT_POST_LIFO \<noteq> 0) (p, z, ts) (ms, W b)" using Nil o' by simp
    ultimately show ?thesis using ok ty Nil msg_frame_sel(2) [OF fr]
      by (intro exI [of _ OS_ERR_NONE] exI [of _ ?s] exI [of _ ?ms] exI [of _ "k - 1"]) (simp add: q_inv_def)
  qed
qed

text \<open>The first waiting task is released with the message.\<close>

lemma OSQPost_delivers:
  assumes K: "kinv s A R W T" and I: "q_inv s W b ms k" and r: "OSRunning s = OS_STATE_OS_RUNNING"
    and o: "opt \<in> one_post_opts" and Cons: "W b = a # E" and ne: "R q \<noteq> []"
  shows "\<exists>s' R' T'. OSQPost (Some b) p z opt ts s = Some (OS_ERR_NONE, s') \<and> ms = [] \<and>
    kinv s' A R' (W(b := E)) T' \<and> q_inv s' (W(b := E)) b ms k \<and>
    MsgPtr (OSTCBs s' a) = p \<and> MsgSize (OSTCBs s' a) = z \<and> Tcb_TS (OSTCBs s' a) = ts \<and>
    PendStatus (OSTCBs s' a) = OS_STATUS_PEND_OK \<and> TaskState (OSTCBs s' a) = unpend_state (TaskState (OSTCBs s a))"
proof -
  have ms: "ms = []" using I Cons by (auto simp: q_inv_def)
  from OSQPost_wake [OF K I r one_post_opts [OF o, THEN conjunct1] Cons ne, of p z ts]
  obtain s1 s' where s': "OSQPost (Some b) p z opt ts s = Some (OS_ERR_NONE, s')"
    "released (posted_tcb p z ts) s s1 A R W T [a]" "switched s1 s'"
    using one_post_opts [OF o] by auto
  note F = released_objs [OF s'(2,3)]
  have "mq_rel (OSQs s' b, s') ms k" using I mq_rel_cong [OF F(5,6)] F(2) by (simp add: q_inv_def)
  then have "q_inv s' (W(b := E)) b ms k" using I F(7) ms by (simp add: q_inv_def)
  moreover have "MsgPtr (OSTCBs s' a) = p \<and> MsgSize (OSTCBs s' a) = z \<and> Tcb_TS (OSTCBs s' a) = ts \<and>
      PendStatus (OSTCBs s' a) = OS_STATUS_PEND_OK \<and> TaskState (OSTCBs s' a) = unpend_state (TaskState (OSTCBs s a))"
    using released_sel [OF s'(2,3), of a] by (simp add: posted_tcb_def)
  ultimately show ?thesis using s'(1) F(8) without_other [OF K Cons] ms
    by (intro exI [of _ s'] exI [of _ "readied s a R"] exI [of _ "remove1 a T"]) simp
qed

text \<open>C26: \<open>OSQPost\<close> to one task implements the sending to an abstract queue: the first waiting task leaves with
  the message, that is, its wait ends with its message pointer, size and time stamp those of the post and the status
  of a success (it stays suspended if it was), and with no task waiting the message is stored after the others, or before them
  with \<open>OS_OPT_POST_LIFO\<close>; if the queue or the pool of messages is full the error says so and
  nothing changes. The invariants of the kernel and of the queue hold again.\<close>

theorem OSQPost_refines:
  assumes K: "kinv s A R W T" and I: "q_inv s W b ms k" and r: "OSRunning s = OS_STATE_OS_RUNNING"
    and ne: "R q \<noteq> []" and o: "opt \<in> one_post_opts"
  shows "\<exists>err s' R' W' T' ms' k'. OSQPost (Some b) p z opt ts s = Some (err, s') \<and>
    kinv s' A R' W' T' \<and> q_inv s' W' b ms' k' \<and> (\<forall>c. c \<noteq> b \<longrightarrow> W' c = W c) \<and>
    (if W b = [] \<and> length ms \<ge> unat (MQ_NbrEntriesSize (OSQs s b)) then err = OS_ERR_Q_MAX \<and> s' = s
     else if W b = [] \<and> k = 0 then err = OS_ERR_MSG_POOL_EMPTY \<and> s' = s
     else err = OS_ERR_NONE \<and> (ms', W' b) = q_send (opt AND OS_OPT_POST_LIFO \<noteq> 0) (p, z, ts) (ms, W b)) \<and>
    (case W b of [] \<Rightarrow> True
     | a # _ \<Rightarrow> MsgPtr (OSTCBs s' a) = p \<and> MsgSize (OSTCBs s' a) = z \<and> Tcb_TS (OSTCBs s' a) = ts \<and>
         PendStatus (OSTCBs s' a) = OS_STATUS_PEND_OK \<and>
         TaskState (OSTCBs s' a) = unpend_state (TaskState (OSTCBs s a)))"
proof (cases "W b")
  case Nil
  from OSQPost_stores [OF K I r o Nil, of p z ts] K obtain err s' ms' k' where
    "OSQPost (Some b) p z opt ts s = Some (err, s')" "kinv s' A R W T" "q_inv s' W b ms' k'"
    "if length ms \<ge> unat (MQ_NbrEntriesSize (OSQs s b)) then err = OS_ERR_Q_MAX \<and> s' = s
     else if k = 0 then err = OS_ERR_MSG_POOL_EMPTY \<and> s' = s
     else err = OS_ERR_NONE \<and> (ms', []) = q_send (opt AND OS_OPT_POST_LIFO \<noteq> 0) (p, z, ts) (ms, [])" by blast
  then show ?thesis using Nil
    by (intro exI [of _ err] exI [of _ s'] exI [of _ R] exI [of _ W] exI [of _ T] exI [of _ ms'] exI [of _ k'])
      (simp split: if_splits)
next
  case (Cons a E)
  from OSQPost_delivers [OF K I r o Cons ne, of p z ts] obtain s' R' T' where
    "OSQPost (Some b) p z opt ts s = Some (OS_ERR_NONE, s')" "ms = []" "kinv s' A R' (W(b := E)) T'"
    "q_inv s' (W(b := E)) b ms k" "MsgPtr (OSTCBs s' a) = p" "MsgSize (OSTCBs s' a) = z" "Tcb_TS (OSTCBs s' a) = ts"
    "PendStatus (OSTCBs s' a) = OS_STATUS_PEND_OK" "TaskState (OSTCBs s' a) = unpend_state (TaskState (OSTCBs s a))" by blast
  then show ?thesis using Cons
    by (intro exI [of _ OS_ERR_NONE] exI [of _ s'] exI [of _ R'] exI [of _ "W(b := E)"] exI [of _ T'] exI [of _ ms]
        exI [of _ k]) simp
qed

lemma demo_queues: "q_inv demo demo_W 31 [] 4" "q_inv demo demo_W 30 [] 4"
  "OSRunning demo = OS_STATE_OS_RUNNING" "demo_R 5 \<noteq> []" "OS_OPT_POST_FIFO \<in> one_post_opts"
  "demo_W 31 = []" "demo_W 30 = [7]" "unat (MQ_NbrEntriesSize (OSQs demo 31)) = 4"
proof -
  have "OSQs demo 30 = OSQs demo 31" by (simp add: demo_def)
  then show "q_inv demo demo_W 31 [] 4" "q_inv demo demo_W 30 [] 4"
    using demo_mq by (simp_all add: q_inv_def demo_def demo_obj_def Let_def)
qed (simp_all add: demo_def demo_R_def demo_W_def one_post_opts_def)

theorem OSQPost_refines_witness:
  "\<exists>s' W' ms' k'. OSQPost (Some 31) (Some 7) 3 OS_OPT_POST_FIFO 9 demo = Some (OS_ERR_NONE, s') \<and>
     q_inv s' W' 31 ms' k' \<and> ms' = [(Some 7, 3, 9)]"
  using OSQPost_refines [OF demo_kinv demo_queues(1,3,4,5), of "Some 7" 3 9] demo_queues(6,8) by auto

text \<open>\<open>OSQPend\<close> implements the receiving from the abstract queue: it returns the oldest message
  with its size and time stamp, or, if there is none, queues the calling task by priority, hands
  the CPU to another task and returns later. The invariants hold again.\<close>

theorem OSQPend_refines:
  assumes K: "kinv s A R W T" and I: "q_inv s W b ms k" and c: "c \<in> A" and l: "task_level s c"
    and ne: "rdy_del s c R q \<noteq> []"
  shows "\<exists>out s' R' W' T' ms' k'. OSQPend (Some b) timeout OS_OPT_PEND_BLOCKING (Some sz) s = Some (out, s') \<and>
    kinv s' A R' W' T' \<and> q_inv s' W' b ms' k' \<and>
    (ms', W' b) = q_receive (pend_ins (prios s)) c (ms, W b) \<and>
    (case ms of [] \<Rightarrow> out = Blocked \<and> OSTCBCurPtr s' \<noteq> Some c
     | (p, z, ts) # _ \<Rightarrow> out = Done (p, Some z, Some ts, OS_ERR_NONE) \<and> OSTCBCurPtr s' = Some c)"
proof (cases ms)
  case Nil
  from OSQPend_block [OF K I [unfolded Nil] c l ne, of timeout sz] obtain s1 s' x T' where
    p: "OSQPend (Some b) timeout OS_OPT_PEND_BLOCKING (Some sz) s = Some (Blocked, s')"
    "becomes c (pended_tcb s (Some b) OS_TASK_PEND_ON_Q timeout (OSTCBs s c)) s s1 A (rdy_del s c R)
      (W(b := pend_ins (prios s) c (W b))) T'"
    "switched s1 s'" "OSTCBCurPtr s' = Some x" "x \<noteq> c" by blast
  note B = becomesD [OF p(2)]
  have "mq_rel (OSQs s' b, s') [] k"
    using I Nil mq_rel_cong [of s' s "OSQs s' b" "[]" k] switched_sel(3-5) [OF p(3)] moved_sel(3,5,6) [OF B(1)]
    by (simp add: q_inv_def)
  with p(1,4,5) Nil I switched_kinv [OF p(3)] B(3) moved_sel(19) [OF B(1), of b] switched_sel(6) [OF p(3)]
  show ?thesis
    by (intro exI [of _ Blocked] exI [of _ s'] exI [of _ "rdy_del s c R"]
        exI [of _ "W(b := pend_ins (prios s) c (W b))"] exI [of _ T'] exI [of _ "[]"] exI [of _ k])
      (simp add: q_inv_def)
next
  case (Cons m ms')
  obtain p z ts where m: "m = (p, z, ts)" by (cases m) auto
  from OSQPend_take [OF I [unfolded Cons m] l, of timeout sz] obtain s' where
    s': "OSQPend (Some b) timeout OS_OPT_PEND_BLOCKING (Some sz) s = Some (Done (p, Some z, Some ts, OS_ERR_NONE), s')"
    "q_inv s' W b ms' (Suc k)" "OSTCBCurPtr s' = Some c" "kinv s' A R W T" using K by blast
  then show ?thesis using Cons m
    by (intro exI [of _ "Done (p, Some z, Some ts, OS_ERR_NONE)"] exI [of _ s'] exI [of _ R] exI [of _ W]
        exI [of _ T] exI [of _ ms'] exI [of _ "Suc k"]) simp
qed

theorem OSQPend_refines_witness:
  "\<exists>s' W' k'. OSQPend (Some 30) 5 OS_OPT_PEND_BLOCKING (Some 99) demo = Some (Blocked, s') \<and> W' 30 = [1, 7] \<and>
     q_inv s' W' 30 [] k'"
proof -
  have e: "pend_ins (prios demo) 1 (demo_W 30) = [1, 7]" by (simp add: demo_defs pend_ins_def)
  from OSQPend_refines [OF demo_kinv demo_queues(2) demo_level(2,1,3), of 5 99] obtain s' W' ms' k' where
    s': "OSQPend (Some 30) 5 OS_OPT_PEND_BLOCKING (Some 99) demo = Some (Blocked, s')" "q_inv s' W' 30 ms' k'"
    "(ms', W' 30) = ([], [1, 7])" by (auto simp: e [simplified])
  then show ?thesis by auto
qed

text \<open>C20: A message reaches the task that waits for it: if the first waiting task is not suspended and above every
  ready task, it is the current task when \<open>OSQPost\<close> returns, and its pending call returns exactly
  the pointer and the size that were posted, with the time stamp of the post and no error; the
  messages of the queue and the pool are untouched.\<close>

theorem OSQPost_hands_over:
  assumes K: "kinv s A R W T" and I: "q_inv s W b ms k" and l: "task_level s c" and W: "W b = a # E"
    and rn: "runs (TaskState (OSTCBs s a))" and top: "\<And>q. R q \<noteq> [] \<Longrightarrow> Prio (OSTCBs s a) < q"
    and ne: "R q \<noteq> []"
  shows "\<exists>s'. OSQPost (Some b) p z OS_OPT_POST_FIFO ts s = Some (OS_ERR_NONE, s') \<and>
    OSTCBCurPtr s' = Some a \<and> TaskState (OSTCBs s' a) = OS_TASK_STATE_RDY \<and>
    OSQPend_resume s' = Some (p, Some z, Some ts, OS_ERR_NONE) \<and>
    OSMsgs s' = OSMsgs s \<and> OSMsgPool s' = OSMsgPool s"
proof -
  have aW: "a \<in> set (W b)" using W by simp
  have r: "OSRunning s = OS_STATE_OS_RUNNING" using l by (simp add: task_level_def)
  have o: "OS_OPT_POST_FIFO \<in> q_post_opts" by (simp add: q_post_opts_def)
  from OSQPost_wake [OF K I r o W ne, of p z ts] obtain s1 s' where
    s': "OSQPost (Some b) p z OS_OPT_POST_FIFO ts s = Some (OS_ERR_NONE, s')"
    "released (posted_tcb p z ts) s s1 A R W T [a]" "OSSched s1 = Some s'" "switched s1 s'"
    by (auto simp: sched_unless_def)
  have "fold (readied s) [a] R q \<noteq> []" using fold_readied_mono [where R = R, OF ne] .
  from release_sched [OF s'(2) this] s'(3) l obtain x where
    x: "OSTCBCurPtr s' = Some x" "most_urgent s (readied s a R) x" by (auto simp: task_level_def)
  have "x = a" using most_urgent_unique [OF x(2) readied_urgent [where R = R, OF K aW rn top]] by simp
  moreover note F = released_sel [OF s'(2,4), of a] released_objs(5,6) [OF s'(2,4)]
  ultimately show ?thesis using s'(1) x(1) rn
    by (auto simp: OSQPend_resume_def posted_tcb_def unpend_state_def)
qed

text \<open>Object 10, on which the tasks 3 and 4 wait, taken as a queue.\<close>

theorem OSQPost_hands_over_witness:
  "\<exists>s'. OSQPost (Some 10) (Some 7) 3 OS_OPT_POST_FIFO 77 (put_obj 10 (Type_update (\<lambda>_. OS_OBJ_TYPE_Q)) demo) =
      Some (OS_ERR_NONE, s') \<and> OSTCBCurPtr s' = Some 3 \<and>
      OSQPend_resume s' = Some (Some 7, Some 3, Some 77, OS_ERR_NONE)"
proof -
  let ?s = "put_obj 10 (Type_update (\<lambda>_. OS_OBJ_TYPE_Q)) demo"
  have K: "kinv ?s demo_A demo_R demo_W demo_T" using demo_kinv by (simp add: kinv_put_obj)
  have "mq_rel (OSQs ?s 10, ?s) [] 4"
    using demo_mq mq_rel_cong [of ?s demo "OSQs demo 10" "[]" 4] by (simp add: demo_def)
  then have I: "q_inv ?s demo_W 10 [] 4" by (simp add: q_inv_def)
  have l: "task_level ?s 1" using demo_level(1) by (simp add: task_level_def)
  have 1: "runs (TaskState (OSTCBs ?s 3))" "demo_R 5 \<noteq> []" "demo_W 10 = 3 # [4]"
    by (simp_all add: runs_def demo_defs)
  have 2: "\<And>q. demo_R q \<noteq> [] \<Longrightarrow> Prio (OSTCBs ?s 3) < q"
    by (auto simp: demo_R_def split: if_splits) (simp_all add: demo_def demo_tcb_def blank_tcb_def)
  from OSQPost_hands_over [OF K I l 1(3,1) 2 1(2), of "Some 7" 3 77] show ?thesis by blast
qed

end
