(* ===== verification/Os_Flag.thy ===== *)
theory Os_Flag
  imports Os_Obj
begin

text \<open>
  Event flag groups (\<open>os_flag.c\<close>), with \<open>OS_CFG_FLAG_MODE_CLR_EN\<close>. \<open>ts\<close> is the value of
  \<open>OS_TS_GET()\<close>. The results of a pend are the flags, the time stamp written to \<open>*p_ts\<close> (\<open>None\<close>:
  nothing is written) and the error.
\<close>

section \<open>The condition of a wait\<close>

text \<open>The four modes: the wanted flags among \<open>cur\<close> and whether they end the wait; \<open>None\<close> is the
  default branch, an invalid mode.\<close>

definition flags_ready :: "OS_OPT \<Rightarrow> u32 \<Rightarrow> u32 \<Rightarrow> (u32 \<times> bool) option" where
  "flags_ready mode cur flags =
     (if mode = OS_OPT_PEND_FLAG_SET_ALL then
        (let flags_rdy = cur AND flags in Some (flags_rdy, flags_rdy = flags))
      else if mode = OS_OPT_PEND_FLAG_SET_ANY then
        (let flags_rdy = cur AND flags in Some (flags_rdy, flags_rdy \<noteq> 0))
      else if mode = OS_OPT_PEND_FLAG_CLR_ALL then
        (let flags_rdy = NOT cur AND flags in Some (flags_rdy, flags_rdy = flags))
      else if mode = OS_OPT_PEND_FLAG_CLR_ANY then
        (let flags_rdy = NOT cur AND flags in Some (flags_rdy, flags_rdy \<noteq> 0))
      else None)"

definition flags_consume :: "OS_OPT \<Rightarrow> u32 \<Rightarrow> u32 \<Rightarrow> u32" where
  "flags_consume mode flags_rdy cur =
     (if mode = OS_OPT_PEND_FLAG_SET_ALL \<or> mode = OS_OPT_PEND_FLAG_SET_ANY then cur AND NOT flags_rdy
      else cur OR flags_rdy)"

section \<open>Operations\<close>

definition OS_FlagDbgListAdd :: "ptr \<Rightarrow> kernel \<Rightarrow> kernel option" where
  "OS_FlagDbgListAdd = dbg_list_add OSFlagDbgListPtr (\<lambda>p s. s\<lparr>OSFlagDbgListPtr := p\<rparr>)"

definition OS_FlagDbgListRemove :: "ptr \<Rightarrow> kernel \<Rightarrow> kernel option" where
  "OS_FlagDbgListRemove = dbg_list_remove (\<lambda>p s. s\<lparr>OSFlagDbgListPtr := p\<rparr>)"

definition OS_FlagClr :: "ptr \<Rightarrow> kernel \<Rightarrow> kernel option" where
  "OS_FlagClr p_grp s = do {
     s \<leftarrow> set_obj p_grp (\<lambda>b. b\<lparr>Type := OS_OBJ_TYPE_NONE\<rparr>) s;
     s \<leftarrow> set_obj p_grp (\<lambda>b. b\<lparr>Obj_NamePtr := ''?FLAG''\<rparr>) s;
     s \<leftarrow> set_flag_grp p_grp (\<lambda>g. g\<lparr>Flags := 0\<rparr>) s;
     OS_PendListInit p_grp s
   }"

definition OSFlagCreate :: "ptr \<Rightarrow> string \<Rightarrow> u32 \<Rightarrow> kernel \<Rightarrow> (OS_ERR \<times> kernel) option" where
  "OSFlagCreate p_grp p_name flags s =
     (if OSIntNestingCtr s > 0 then Some (OS_ERR_CREATE_ISR, s)
      else if p_grp = None then Some (OS_ERR_OBJ_PTR_NULL, s)
      else do {
        b \<leftarrow> obj s p_grp;
        if Type b = OS_OBJ_TYPE_FLAG then Some (OS_ERR_OBJ_CREATED, s)
        else do {
          s \<leftarrow> set_obj p_grp (\<lambda>b. b\<lparr>Type := OS_OBJ_TYPE_FLAG\<rparr>) s;
          s \<leftarrow> set_obj p_grp (\<lambda>b. b\<lparr>Obj_NamePtr := p_name\<rparr>) s;
          s \<leftarrow> set_flag_grp p_grp (\<lambda>g. g\<lparr>Flags := flags\<rparr>) s;
          s \<leftarrow> set_flag_grp p_grp (\<lambda>g. g\<lparr>Flag_TS := 0\<rparr>) s;
          s \<leftarrow> OS_PendListInit p_grp s;
          s \<leftarrow> OS_FlagDbgListAdd p_grp s;
          let s = s\<lparr>OSFlagQty := OSFlagQty s + 1\<rparr>;
          Some (OS_ERR_NONE, s)
        }
      })"

definition OSFlagDel :: "ptr \<Rightarrow> OS_OPT \<Rightarrow> u32 \<Rightarrow> kernel \<Rightarrow> (u16 \<times> OS_ERR \<times> kernel) option" where
  "OSFlagDel p_grp opt ts s =
     (if OSIntNestingCtr s > 0 then Some (0, OS_ERR_DEL_ISR, s)
      else if OSRunning s \<noteq> OS_STATE_OS_RUNNING then Some (0, OS_ERR_OS_NOT_RUNNING, s)
      else if p_grp = None then Some (0, OS_ERR_OBJ_PTR_NULL, s)
      else do {
        b \<leftarrow> obj s p_grp;
        if Type b \<noteq> OS_OBJ_TYPE_FLAG then Some (0, OS_ERR_OBJ_TYPE, s)
        else if opt = OS_OPT_DEL_NO_PEND then
          if PL_HeadPtr (PendList b) = None then do {
            s \<leftarrow> OS_FlagDbgListRemove p_grp s;
            let s = s\<lparr>OSFlagQty := OSFlagQty s - 1\<rparr>;
            s \<leftarrow> OS_FlagClr p_grp s;
            Some (0, OS_ERR_NONE, s)
          } else Some (0, OS_ERR_TASK_WAITING, s)
        else if opt = OS_OPT_DEL_ALWAYS then do {
          (nbr_tasks, s) \<leftarrow> del_loop p_grp ts 0 s;
          s \<leftarrow> OS_FlagDbgListRemove p_grp s;
          let s = s\<lparr>OSFlagQty := OSFlagQty s - 1\<rparr>;
          s \<leftarrow> OS_FlagClr p_grp s;
          s \<leftarrow> OSSched s;
          Some (nbr_tasks, OS_ERR_NONE, s)
        } else Some (0, OS_ERR_OPT_INVALID, s)
      })"

definition OS_FlagBlock :: "ptr \<Rightarrow> u32 \<Rightarrow> OS_OPT \<Rightarrow> u32 \<Rightarrow> kernel \<Rightarrow> kernel option" where
  "OS_FlagBlock p_grp flags opt timeout s = do {
     s \<leftarrow> set_tcb (OSTCBCurPtr s) (\<lambda>t. t\<lparr>FlagsPend := flags\<rparr>) s;
     s \<leftarrow> set_tcb (OSTCBCurPtr s) (\<lambda>t. t\<lparr>FlagsOpt := opt\<rparr>) s;
     s \<leftarrow> set_tcb (OSTCBCurPtr s) (\<lambda>t. t\<lparr>FlagsRdy := 0\<rparr>) s;
     OS_Pend p_grp (OSTCBCurPtr s) OS_TASK_PEND_ON_FLAG timeout s
   }"

definition flag_modes :: "OS_OPT set" where
  "flag_modes = {OS_OPT_PEND_FLAG_CLR_ALL, OS_OPT_PEND_FLAG_CLR_ANY, OS_OPT_PEND_FLAG_SET_ALL,
     OS_OPT_PEND_FLAG_SET_ANY}"

type_synonym flag_result = "u32 \<times> u32 option \<times> OS_ERR"

definition OSFlagPend :: "ptr \<Rightarrow> u32 \<Rightarrow> u32 \<Rightarrow> OS_OPT \<Rightarrow> kernel \<Rightarrow> (flag_result pend_outcome \<times> kernel) option" where
  "OSFlagPend p_grp flags timeout opt s =
     (if OSIntNestingCtr s > 0 \<and> opt AND OS_OPT_PEND_NON_BLOCKING \<noteq> OS_OPT_PEND_NON_BLOCKING
      then Some (Done (0, None, OS_ERR_PEND_ISR), s)
      else if OSRunning s \<noteq> OS_STATE_OS_RUNNING then Some (Done (0, None, OS_ERR_OS_NOT_RUNNING), s)
      else if p_grp = None then Some (Done (0, None, OS_ERR_OBJ_PTR_NULL), s)
      else if opt \<notin> flag_modes \<union> (\<lambda>m. m OR OS_OPT_PEND_FLAG_CONSUME) ` flag_modes
          \<union> (\<lambda>m. m OR OS_OPT_PEND_NON_BLOCKING) ` flag_modes
          \<union> (\<lambda>m. m OR (OS_OPT_PEND_FLAG_CONSUME OR OS_OPT_PEND_NON_BLOCKING)) ` flag_modes
      then Some (Done (0, None, OS_ERR_OPT_INVALID), s)
      else do {
        b \<leftarrow> obj s p_grp;
        if Type b \<noteq> OS_OBJ_TYPE_FLAG then Some (Done (0, None, OS_ERR_OBJ_TYPE), s)
        else do {
          let consume = (opt AND OS_OPT_PEND_FLAG_CONSUME \<noteq> 0);
          let mode = opt AND OS_OPT_PEND_FLAG_MASK;
          g \<leftarrow> flag_grp s p_grp;
          (case flags_ready mode (Flags g) flags of
             None \<Rightarrow> Some (Done (0, Some 0, OS_ERR_OPT_INVALID), s)
           | Some (flags_rdy, ok) \<Rightarrow>
               if ok then do {
                 s \<leftarrow> (if consume then set_flag_grp p_grp (\<lambda>g. g\<lparr>Flags := flags_consume mode flags_rdy (Flags g)\<rparr>) s
                      else Some s);
                 s \<leftarrow> set_tcb (OSTCBCurPtr s) (\<lambda>t. t\<lparr>FlagsRdy := flags_rdy\<rparr>) s;
                 Some (Done (flags_rdy, Some (Flag_TS g), OS_ERR_NONE), s)
               } else if opt AND OS_OPT_PEND_NON_BLOCKING \<noteq> 0
               then Some (Done (0, Some 0, OS_ERR_PEND_WOULD_BLOCK), s)
               else if OSSchedLockNestingCtr s > 0 then Some (Done (0, Some 0, OS_ERR_SCHED_LOCKED), s)
               else do {
                 s \<leftarrow> OS_FlagBlock p_grp flags opt timeout s;
                 s \<leftarrow> OSSched s;
                 Some (Blocked, s)
               })
        }
      })"

text \<open>The flags are consumed when the task runs again, not when they are posted. The values of
  \<open>consume\<close> and \<open>mode\<close> are locals of the call and follow from \<open>opt\<close>.\<close>

definition OSFlagPend_resume :: "ptr \<Rightarrow> OS_OPT \<Rightarrow> kernel \<Rightarrow> (flag_result \<times> kernel) option" where
  "OSFlagPend_resume p_grp opt s = do {
     t \<leftarrow> tcb s (OSTCBCurPtr s);
     let p_ts = (if PendStatus t = OS_STATUS_PEND_TIMEOUT then 0 else Tcb_TS t);
     let err = pend_err (PendStatus t);
     let consume = (opt AND OS_OPT_PEND_FLAG_CONSUME \<noteq> 0);
     let mode = opt AND OS_OPT_PEND_FLAG_MASK;
     if err \<noteq> OS_ERR_NONE then Some ((0, Some p_ts, err), s)
     else do {
       let flags_rdy = FlagsRdy t;
       if consume then
         if mode \<in> flag_modes then do {
           s \<leftarrow> set_flag_grp p_grp (\<lambda>g. g\<lparr>Flags := flags_consume mode flags_rdy (Flags g)\<rparr>) s;
           Some ((flags_rdy, Some p_ts, OS_ERR_NONE), s)
         } else Some ((0, Some p_ts, OS_ERR_OPT_INVALID), s)
       else Some ((flags_rdy, Some p_ts, OS_ERR_NONE), s)
     }
   }"

definition OSFlagPendAbort :: "ptr \<Rightarrow> OS_OPT \<Rightarrow> u32 \<Rightarrow> kernel \<Rightarrow> (u16 \<times> OS_ERR \<times> kernel) option" where
  "OSFlagPendAbort p_grp opt ts s =
     (if OSIntNestingCtr s > 0 then Some (0, OS_ERR_PEND_ABORT_ISR, s)
      else if OSRunning s \<noteq> OS_STATE_OS_RUNNING then Some (0, OS_ERR_OS_NOT_RUNNING, s)
      else if p_grp = None then Some (0, OS_ERR_OBJ_PTR_NULL, s)
      else if opt \<notin> {OS_OPT_PEND_ABORT_1, OS_OPT_PEND_ABORT_ALL,
          OS_OPT_PEND_ABORT_1 OR OS_OPT_POST_NO_SCHED, OS_OPT_PEND_ABORT_ALL OR OS_OPT_POST_NO_SCHED}
      then Some (0, OS_ERR_OPT_INVALID, s)
      else do {
        b \<leftarrow> obj s p_grp;
        if Type b \<noteq> OS_OBJ_TYPE_FLAG then Some (0, OS_ERR_OBJ_TYPE, s)
        else if PL_HeadPtr (PendList b) = None then Some (0, OS_ERR_PEND_ABORT_NONE, s)
        else do {
          (nbr_tasks, s) \<leftarrow> abort_loop p_grp opt ts 0 s;
          s \<leftarrow> (if opt AND OS_OPT_POST_NO_SCHED = 0 then OSSched s else Some s);
          Some (nbr_tasks, OS_ERR_NONE, s)
        }
      })"

definition OSFlagPendGetFlagsRdy :: "kernel \<Rightarrow> (u32 \<times> OS_ERR) option" where
  "OSFlagPendGetFlagsRdy s =
     (if OSRunning s \<noteq> OS_STATE_OS_RUNNING then Some (0, OS_ERR_OS_NOT_RUNNING)
      else if OSIntNestingCtr s > 0 then Some (0, OS_ERR_PEND_ISR)
      else do { t \<leftarrow> tcb s (OSTCBCurPtr s); Some (FlagsRdy t, OS_ERR_NONE) })"

definition OS_FlagTaskRdy :: "ptr \<Rightarrow> u32 \<Rightarrow> u32 \<Rightarrow> kernel \<Rightarrow> kernel option" where
  "OS_FlagTaskRdy p_tcb flags_rdy ts s = do {
     s \<leftarrow> set_tcb p_tcb (\<lambda>t. t\<lparr>FlagsRdy := flags_rdy\<rparr>) s;
     s \<leftarrow> set_tcb p_tcb (\<lambda>t. t\<lparr>PendStatus := OS_STATUS_PEND_OK\<rparr>) s;
     s \<leftarrow> set_tcb p_tcb (\<lambda>t. t\<lparr>PendOn := OS_TASK_PEND_ON_NOTHING\<rparr>) s;
     s \<leftarrow> set_tcb p_tcb (\<lambda>t. t\<lparr>Tcb_TS := ts\<rparr>) s;
     t \<leftarrow> tcb s p_tcb;
     s \<leftarrow>
       (if TaskState t \<in> {OS_TASK_STATE_PEND, OS_TASK_STATE_PEND_TIMEOUT} then do {
          s \<leftarrow> (if TaskState t = OS_TASK_STATE_PEND_TIMEOUT then OS_TickListRemove p_tcb s else Some s);
          s \<leftarrow> OS_RdyListInsert p_tcb s;
          set_tcb p_tcb (\<lambda>t. t\<lparr>TaskState := OS_TASK_STATE_RDY\<rparr>) s
        } else if TaskState t \<in> {OS_TASK_STATE_PEND_SUSPENDED, OS_TASK_STATE_PEND_TIMEOUT_SUSPENDED}
        then set_tcb p_tcb (\<lambda>t. t\<lparr>TaskState := OS_TASK_STATE_SUSPENDED\<rparr>) s
        else Some s);
     OS_PendListRemove p_tcb s
   }"

text \<open>The loop of \<open>OSFlagPost\<close> over the waiting tasks; \<open>False\<close>: a task waits with an invalid mode.\<close>

partial_function (option) flag_post_loop ::
  "ptr \<Rightarrow> ptr \<Rightarrow> u32 \<Rightarrow> kernel \<Rightarrow> (bool \<times> kernel) option" where
  "flag_post_loop p_grp p_tcb ts s =
     (if p_tcb \<noteq> None then do {
        t \<leftarrow> tcb s p_tcb;
        g \<leftarrow> flag_grp s p_grp;
        let p_tcb_next = PendNextPtr t;
        let mode = FlagsOpt t AND OS_OPT_PEND_FLAG_MASK;
        (case flags_ready mode (Flags g) (FlagsPend t) of
           None \<Rightarrow> Some (False, s)
         | Some (flags_rdy, ok) \<Rightarrow> do {
             s \<leftarrow> (if ok then OS_FlagTaskRdy p_tcb flags_rdy ts s else Some s);
             flag_post_loop p_grp p_tcb_next ts s
           })
      } else Some (True, s))"

definition OSFlagPost :: "ptr \<Rightarrow> u32 \<Rightarrow> OS_OPT \<Rightarrow> u32 \<Rightarrow> kernel \<Rightarrow> (u32 \<times> OS_ERR \<times> kernel) option" where
  "OSFlagPost p_grp flags opt ts s =
     (if OSRunning s \<noteq> OS_STATE_OS_RUNNING then Some (0, OS_ERR_OS_NOT_RUNNING, s)
      else if p_grp = None then Some (0, OS_ERR_OBJ_PTR_NULL, s)
      else do {
        b \<leftarrow> obj s p_grp;
        if Type b \<noteq> OS_OBJ_TYPE_FLAG then Some (0, OS_ERR_OBJ_TYPE, s)
        else if opt \<notin> {OS_OPT_POST_FLAG_SET, OS_OPT_POST_FLAG_SET OR OS_OPT_POST_NO_SCHED,
            OS_OPT_POST_FLAG_CLR, OS_OPT_POST_FLAG_CLR OR OS_OPT_POST_NO_SCHED}
        then Some (0, OS_ERR_OPT_INVALID, s)
        else do {
          s \<leftarrow> (if opt \<in> {OS_OPT_POST_FLAG_SET, OS_OPT_POST_FLAG_SET OR OS_OPT_POST_NO_SCHED}
               then set_flag_grp p_grp (\<lambda>g. g\<lparr>Flags := Flags g OR flags\<rparr>) s
               else set_flag_grp p_grp (\<lambda>g. g\<lparr>Flags := Flags g AND NOT flags\<rparr>) s);
          s \<leftarrow> set_flag_grp p_grp (\<lambda>g. g\<lparr>Flag_TS := ts\<rparr>) s;
          l \<leftarrow> pend_list s p_grp;
          g \<leftarrow> flag_grp s p_grp;
          if PL_HeadPtr l = None then Some (Flags g, OS_ERR_NONE, s)
          else do {
            (ok, s) \<leftarrow> flag_post_loop p_grp (PL_HeadPtr l) ts s;
            if \<not> ok then Some (0, OS_ERR_FLAG_PEND_OPT, s)
            else do {
              s \<leftarrow> (if opt AND OS_OPT_POST_NO_SCHED = 0 then OSSched s else Some s);
              g \<leftarrow> flag_grp s p_grp;
              Some (Flags g, OS_ERR_NONE, s)
            }
          }
        }
      })"

section \<open>The debug list\<close>

interpretation flag_dbg: dbg_list OSFlagDbgListPtr "\<lambda>p s. s\<lparr>OSFlagDbgListPtr := p\<rparr>"
proof unfold_locales
  fix p :: ptr and s :: kernel and A R W T
  show "kinv (s\<lparr>OSFlagDbgListPtr := p\<rparr>) A R W T \<longleftrightarrow> kinv s A R W T"
    by (rule kinv_cong; (rule rdy_rel_cong pend_lists_cong tick_lists_cong)?; simp)
qed (simp_all add: put_obj_def)

section \<open>What a post does to the waiting tasks\<close>

definition flagged_tcb :: "u32 \<Rightarrow> u32 \<Rightarrow> OS_TCB \<Rightarrow> OS_TCB" where
  "flagged_tcb flags_rdy ts t = t\<lparr>FlagsRdy := flags_rdy, PendStatus := OS_STATUS_PEND_OK,
     PendOn := OS_TASK_PEND_ON_NOTHING, Tcb_TS := ts, TaskState := unpend_state (TaskState t),
     PendObjPtr := None\<rparr>"

lemma OS_FlagTaskRdy_spec:
  assumes K: "kinv s A R W T" and a: "a \<in> A" and pd: "pending (TaskState (OSTCBs s a))"
    and ns: "TaskState (OSTCBs s a) \<noteq> OS_TASK_STATE_PEND_TIMEOUT_SUSPENDED"
  shows "\<exists>s'. OS_FlagTaskRdy (Some a) flags_rdy ts s = Some s' \<and>
    becomes a (flagged_tcb flags_rdy ts (OSTCBs s a)) s s' A (readied s a R) (without a W) (remove1 a T)"
proof -
  let ?t = "OSTCBs s a"
  let ?v = "put a (Tcb_TS_update (\<lambda>_. ts)) (put a (PendOn_update (\<lambda>_. OS_TASK_PEND_ON_NOTHING))
    (put a (PendStatus_update (\<lambda>_. OS_STATUS_PEND_OK)) (put a (FlagsRdy_update (\<lambda>_. flags_rdy)) s)))"
  let ?u = "?t\<lparr>FlagsRdy := flags_rdy, PendStatus := OS_STATUS_PEND_OK, PendOn := OS_TASK_PEND_ON_NOTHING,
    Tcb_TS := ts\<rparr>"
  note ok = task_okD [OF K a]
  have nR: "a \<notin> set (R p)" for p
    using not_ready_anywhere [OF K a] pd by (auto simp: pending_def)
  have S0: "stage a s ?u ?v R W T (trem s)"
    using stage_put [OF stage_put [OF stage_put [OF stage_put [OF stage_init [OF K, of a],
      of "FlagsRdy_update (\<lambda>_. flags_rdy)"], of "PendStatus_update (\<lambda>_. OS_STATUS_PEND_OK)"],
      of "PendOn_update (\<lambda>_. OS_TASK_PEND_ON_NOTHING)"], of "Tcb_TS_update (\<lambda>_. ts)"] by simp
  obtain s1 r where s1: "(if timed (TaskState ?t) then OS_TickListRemove (Some a) ?v else Some ?v) = Some s1"
    and S1: "stage a s ?u s1 R W (remove1 a T) r" by (rule stage_tick_leave [OF S0 ok(3)])
  obtain s2 where s2: "(if runs (TaskState ?t) then OS_RdyListInsert (Some a) s1 else Some s1) = Some s2"
    and S2: "stage a s ?u s2 (if runs (TaskState ?t) then rdy_ins s a R else R) W (remove1 a T) r"
    by (rule stage_make_ready [OF K a S1]) (simp_all add: nR)
  let ?s3 = "put a (TaskState_update (\<lambda>_. unpend_state (TaskState ?t))) s2"
  have S3: "stage a s (?u\<lparr>TaskState := unpend_state (TaskState ?t)\<rparr>) ?s3
      (if runs (TaskState ?t) then rdy_ins s a R else R) W (remove1 a T) r"
    using stage_put [OF S2, of "TaskState_update (\<lambda>_. unpend_state (TaskState ?t))"] by simp
  obtain s4 where s4: "OS_PendListRemove (Some a) ?s3 = Some s4"
    and S4: "stage a s (flagged_tcb flags_rdy ts ?t) s4
      (if runs (TaskState ?t) then rdy_ins s a R else R) (without a W) (remove1 a T) r"
    by (rule stage_pend_leave [OF S3]) (use ok(4) in \<open>auto simp: flagged_tcb_def\<close>)
  have "OS_FlagTaskRdy (Some a) flags_rdy ts s = Some s4"
    using pd ns s1 s2 s4
    by (auto simp: OS_FlagTaskRdy_def set_tcb_put pending_cases timed_def runs_def unpend_state_def split: if_splits)
  with stage_unpended [OF K a pd S4] show ?thesis by (auto simp: flagged_tcb_def readied_def)
qed

text \<open>Whether the flags \<open>F\<close> end the wait of a task, and the flags it gets.\<close>

definition wakes :: "u32 \<Rightarrow> OS_TCB \<Rightarrow> bool" where
  "wakes F t = (case flags_ready (FlagsOpt t AND OS_OPT_PEND_FLAG_MASK) F (FlagsPend t) of
     None \<Rightarrow> False | Some (_, ok) \<Rightarrow> ok)"

definition got_flags :: "u32 \<Rightarrow> OS_TCB \<Rightarrow> u32" where
  "got_flags F t = (case flags_ready (FlagsOpt t AND OS_OPT_PEND_FLAG_MASK) F (FlagsPend t) of
     None \<Rightarrow> 0 | Some (r, _) \<Rightarrow> r)"

definition valid_wait :: "OS_TCB \<Rightarrow> bool" where
  "valid_wait t \<longleftrightarrow> FlagsOpt t AND OS_OPT_PEND_FLAG_MASK \<in> flag_modes"

lemma flags_ready_valid:
  "valid_wait t \<Longrightarrow> flags_ready (FlagsOpt t AND OS_OPT_PEND_FLAG_MASK) F (FlagsPend t) = Some (got_flags F t, wakes F t)"
  by (auto simp: valid_wait_def flag_modes_def wakes_def got_flags_def flags_ready_def Let_def)

definition woken_tcb :: "u32 \<Rightarrow> u32 \<Rightarrow> OS_TCB \<Rightarrow> OS_TCB" where
  "woken_tcb F ts t = flagged_tcb (got_flags F t) ts t"

lemma core_woken: "core t = core t' \<Longrightarrow> core (woken_tcb F ts t) = core (woken_tcb F ts t')"
proof -
  have "core (woken_tcb F ts t) = woken_tcb F ts (core t)" for t
    by (simp add: woken_tcb_def flagged_tcb_def got_flags_def core_def)
  then show "core t = core t' \<Longrightarrow> core (woken_tcb F ts t) = core (woken_tcb F ts t')" by simp
qed

lemma wait_core:
  assumes "core t = core t'"
  shows "wakes F t = wakes F t'" and "valid_wait t = valid_wait t'"
  using core_eqI(12,13) [OF assms] by (simp_all add: wakes_def valid_wait_def)

lemma pend_next_at:
  assumes "kinv s A R W T" and "W b = ds @ a # E"
  shows "PendNextPtr (OSTCBs s a) = hdo E"
  using pend_listsD(1) [OF kinvD(2) [OF assms(1)], of b] assms(2)
    dll_split(1) [of "pnxt s" "pprv s" _ _ ds a E] by (simp add: pnxt_def)

lemma flag_post_loop_spec:
  "kinv s A R W T \<Longrightarrow> W b = ds @ E \<Longrightarrow> Flags (OSFlagGrps s b) = F \<Longrightarrow>
   (\<And>a. a \<in> set E \<Longrightarrow> valid_wait (OSTCBs s a)) \<Longrightarrow>
   (\<And>a. a \<in> set E \<Longrightarrow> wakes F (OSTCBs s a) \<Longrightarrow> TaskState (OSTCBs s a) \<noteq> OS_TASK_STATE_PEND_TIMEOUT_SUSPENDED) \<Longrightarrow>
   \<exists>s'. flag_post_loop (Some b) (hdo E) ts s = Some (True, s') \<and>
     released (woken_tcb F ts) s s' A R W T (filter (\<lambda>a. wakes F (OSTCBs s a)) E)"
proof (induction E arbitrary: s R W T ds)
  case Nil
  then show ?case by (subst flag_post_loop.simps) (simp add: released_Nil)
next
  case (Cons a E)
  note K = Cons.prems(1)
  have aW: "a \<in> set (W b)" using Cons.prems(2) by simp
  have d: "distinct (W b)" by (rule kinv_distinct(2) [OF K])
  have fr: "flags_ready (FlagsOpt (OSTCBs s a) AND OS_OPT_PEND_FLAG_MASK) F (FlagsPend (OSTCBs s a)) =
      Some (got_flags F (OSTCBs s a), wakes F (OSTCBs s a))"
    using flags_ready_valid Cons.prems(4) by simp
  note nx = pend_next_at [OF K Cons.prems(2)]
  show ?case
  proof (cases "wakes F (OSTCBs s a)")
    case False
    have "W b = (ds @ [a]) @ E" using Cons.prems(2) by simp
    from Cons.IH [OF K this Cons.prems(3)] Cons.prems(4,5) obtain s' where
      "flag_post_loop (Some b) (hdo E) ts s = Some (True, s')"
      "released (woken_tcb F ts) s s' A R W T (filter (\<lambda>a. wakes F (OSTCBs s a)) E)" by auto
    then show ?thesis using fr nx False Cons.prems(3)
      by (intro exI [of _ s'], subst flag_post_loop.simps) (simp add: Let_def)
  next
    case True
    from OS_FlagTaskRdy_spec [OF K waiterD(1,2) [OF K aW] Cons.prems(5) [OF _ True], of "got_flags F (OSTCBs s a)" ts]
    obtain s2 where s2: "OS_FlagTaskRdy (Some a) (got_flags F (OSTCBs s a)) ts s = Some s2"
      "becomes a (woken_tcb F ts (OSTCBs s a)) s s2 A (readied s a R) (without a W) (remove1 a T)"
      by (auto simp: woken_tcb_def)
    note B = becomesD [OF s2(2)]
    have aE: "a \<notin> set E" using d Cons.prems(2) by simp
    have "without a W b = ds @ E" using d Cons.prems(2) by (simp add: without_def remove1_append)
    moreover have "Flags (OSFlagGrps s2 b) = F" using Cons.prems(3) moved_sel(4) [OF B(1)] by simp
    moreover have same: "core (OSTCBs s2 x) = core (OSTCBs s x)" if "x \<in> set E" for x
      using that aE moved_sel(17) [OF B(1), of x] by auto
    moreover have "valid_wait (OSTCBs s2 x)" if "x \<in> set E" for x
      using Cons.prems(4) [of x] that wait_core(2) [OF same [OF that]] by simp
    moreover have "TaskState (OSTCBs s2 x) \<noteq> OS_TASK_STATE_PEND_TIMEOUT_SUSPENDED"
      if "x \<in> set E" "wakes F (OSTCBs s2 x)" for x
      using Cons.prems(5) [of x] that wait_core(1) [OF same [OF that(1)], of F] core_eqI(1) [OF same [OF that(1)]] by simp
    ultimately obtain s' where s': "flag_post_loop (Some b) (hdo E) ts s2 = Some (True, s')"
      "released (woken_tcb F ts) s2 s' A (readied s a R) (without a W) (remove1 a T)
        (filter (\<lambda>a. wakes F (OSTCBs s2 a)) E)"
      using Cons.IH [OF B(3)] by blast
    have e: "filter (\<lambda>a. wakes F (OSTCBs s2 a)) E = filter (\<lambda>a. wakes F (OSTCBs s a)) E"
      by (rule filter_cong [OF refl]) (use wait_core(1) [OF same, of _ F] in simp)
    have "flag_post_loop (Some b) (hdo (a # E)) ts s = Some (True, s')"
      using fr nx True Cons.prems(3) s2(1) s'(1) by (subst flag_post_loop.simps) (simp add: Let_def)
    moreover have "released (woken_tcb F ts) s s' A R W T (a # filter (\<lambda>a. wakes F (OSTCBs s a)) E)"
      by (rule released_Cons [OF s2(2) s'(2) [unfolded e] _ core_woken]) (use aE in simp_all)
    ultimately show ?thesis using True by simp
  qed
qed

text \<open>The tasks that are not released keep their order.\<close>

lemma fold_remove1_distinct: "distinct xs \<Longrightarrow> fold remove1 es xs = filter (\<lambda>x. x \<notin> set es) xs"
proof (induction es arbitrary: xs)
  case (Cons e es)
  have "remove1 e xs = filter (\<lambda>x. x \<noteq> e) xs"
    using Cons.prems by (simp add: distinct_remove1_removeAll removeAll_filter_not_eq eq_commute)
  with Cons.IH [of "remove1 e xs"] Cons.prems show ?case
    by (simp add: conj_commute)
qed simp

lemma fold_without_filter:
  assumes K: "kinv s A R W T"
  shows "fold without (filter P (W b)) W = W(b := filter (\<lambda>a. \<not> P a) (W b))"
proof
  fix c
  show "fold without (filter P (W b)) W c = (W(b := filter (\<lambda>a. \<not> P a) (W b))) c"
  proof (cases "c = b")
    case True
    have "filter (\<lambda>x. x \<notin> set (filter P (W b))) (W b) = filter (\<lambda>a. \<not> P a) (W b)"
      by (rule filter_cong) auto
    then show ?thesis using True fold_remove1_distinct [OF kinv_distinct(2) [OF K, of b]]
      by (simp add: fold_without)
  next
    case False
    have "set (filter P (W b)) \<inter> set (W c) = {}"
      using waiterD(3) [OF K, of _ b] waiterD(3) [OF K, of _ c] False by fastforce
    then show ?thesis using False by (simp add: fold_without fold_remove1_disjoint)
  qed
qed

end
