(* ===== verification/Flag_Props.thy ===== *)
theory Flag_Props
  imports Os_Flag Demo_System
begin

text \<open>
  The properties of the event flag groups: a post releases exactly the tasks whose condition
  holds, a pend returns at once exactly if its condition holds, and what \<open>OS_FlagTaskRdy\<close> leaves
  behind when the task has been suspended during a wait with a time-out.
\<close>

section \<open>The invariant of a group\<close>

text \<open>Every task on the list of the group waits in one of the four modes, for a condition that
  does not hold yet.\<close>

definition waits_ok :: "kernel \<Rightarrow> (nat \<Rightarrow> nat list) \<Rightarrow> nat \<Rightarrow> bool" where
  "waits_ok s W b \<longleftrightarrow> Type (OSObjs s b) = OS_OBJ_TYPE_FLAG \<and> (\<forall>a\<in>set (W b). valid_wait (OSTCBs s a))"

definition flag_inv :: "kernel \<Rightarrow> (nat \<Rightarrow> nat list) \<Rightarrow> nat \<Rightarrow> bool" where
  "flag_inv s W b \<longleftrightarrow> waits_ok s W b \<and> (\<forall>a\<in>set (W b). \<not> wakes (Flags (OSFlagGrps s b)) (OSTCBs s a))"

definition flag_post_opts :: "OS_OPT set" where
  "flag_post_opts = {OS_OPT_POST_FLAG_SET, OS_OPT_POST_FLAG_SET OR OS_OPT_POST_NO_SCHED,
     OS_OPT_POST_FLAG_CLR, OS_OPT_POST_FLAG_CLR OR OS_OPT_POST_NO_SCHED}"

definition posted_flags :: "OS_OPT \<Rightarrow> u32 \<Rightarrow> u32 \<Rightarrow> u32" where
  "posted_flags opt flags F = (if opt AND OS_OPT_POST_FLAG_CLR = 0 then F OR flags else F AND NOT flags)"

lemma posted_flags:
  assumes "opt \<in> flag_post_opts"
  shows "posted_flags opt flags F = (if opt \<in> {OS_OPT_POST_FLAG_SET, OS_OPT_POST_FLAG_SET OR OS_OPT_POST_NO_SCHED}
    then F OR flags else F AND NOT flags)"
  using assms by (auto simp: flag_post_opts_def posted_flags_def opts)

lemma kinv_OSFlagGrps: "kinv (s\<lparr>OSFlagGrps := g\<rparr>) A R W T \<longleftrightarrow> kinv s A R W T"
  by (rule kinv_cong; (rule rdy_rel_cong pend_lists_cong tick_lists_cong)?; simp)

lemma kinv_OSTCBCurPtr: "kinv (s\<lparr>OSTCBCurPtr := c\<rparr>) A R W T \<longleftrightarrow> kinv s A R W T"
  by (rule kinv_cong; (rule rdy_rel_cong pend_lists_cong tick_lists_cong)?; simp)

lemma switched_flags:
  assumes "switched s s'"
  shows "FlagsRdy (OSTCBs s' c) = FlagsRdy (OSTCBs s c)" "FlagsPend (OSTCBs s' c) = FlagsPend (OSTCBs s c)"
    "FlagsOpt (OSTCBs s' c) = FlagsOpt (OSTCBs s c)"
  using assms by (auto simp: switched_def)

lemma switched_waits:
  assumes "switched s s'"
  shows "wakes F (OSTCBs s' c) = wakes F (OSTCBs s c)" "valid_wait (OSTCBs s' c) = valid_wait (OSTCBs s c)"
  using switched_flags [OF assms, of c] by (simp_all add: wakes_def valid_wait_def)

text \<open>The resumed call of a task that a post has released.\<close>

lemma OSFlagPend_resume_ok:
  assumes "OSTCBCurPtr s = Some c" and "PendStatus (OSTCBs s c) = OS_STATUS_PEND_OK"
    and "opt AND OS_OPT_PEND_FLAG_MASK \<in> flag_modes"
  shows "OSFlagPend_resume (Some b) opt s = Some ((FlagsRdy (OSTCBs s c), Some (Tcb_TS (OSTCBs s c)), OS_ERR_NONE),
    if opt AND OS_OPT_PEND_FLAG_CONSUME = 0 then s
    else s\<lparr>OSFlagGrps := (OSFlagGrps s)(b := (OSFlagGrps s b)\<lparr>Flags :=
      flags_consume (opt AND OS_OPT_PEND_FLAG_MASK) (FlagsRdy (OSTCBs s c)) (Flags (OSFlagGrps s b))\<rparr>)\<rparr>)"
  using assms by (simp add: OSFlagPend_resume_def set_flag_grp_def pend_err_def Let_def)

section \<open>Posting\<close>

lemma OSFlagPost_path:
  assumes K: "kinv s A R W T" and I: "waits_ok s W b" and r: "OSRunning s = OS_STATE_OS_RUNNING"
    and ne: "R q \<noteq> []" and o: "opt \<in> flag_post_opts" and F: "F = posted_flags opt flags (Flags (OSFlagGrps s b))"
    and ns: "\<And>a. a \<in> set (W b) \<Longrightarrow> TaskState (OSTCBs s a) \<noteq> OS_TASK_STATE_PEND_TIMEOUT_SUSPENDED"
  shows "\<exists>v s1 s'. OSFlagPost (Some b) flags opt ts s = Some (F, OS_ERR_NONE, s') \<and>
    v = s\<lparr>OSFlagGrps := (OSFlagGrps s)(b := (OSFlagGrps s b)\<lparr>Flags := F, Flag_TS := ts\<rparr>)\<rparr> \<and>
    released (woken_tcb F ts) v s1 A R W T (filter (\<lambda>a. wakes F (OSTCBs s a)) (W b)) \<and> switched s1 s' \<and>
    (if W b = [] then s' = v else sched_unless opt s1 = Some s')"
proof -
  define v where "v = s\<lparr>OSFlagGrps := (OSFlagGrps s)(b := (OSFlagGrps s b)\<lparr>Flags := F, Flag_TS := ts\<rparr>)\<rparr>"
  have K1: "kinv v A R W T" using K by (simp add: v_def kinv_OSFlagGrps)
  have F1: "Flags (OSFlagGrps v b) = F" by (simp add: v_def)
  have "\<exists>s1. flag_post_loop (Some b) (hdo (W b)) ts v = Some (True, s1) \<and>
      released (woken_tcb F ts) v s1 A R W T (filter (\<lambda>a. wakes F (OSTCBs v a)) (W b))"
    using flag_post_loop_spec [OF K1 _ F1, of "[]" "W b" ts] I ns by (auto simp: v_def waits_ok_def)
  then obtain s1 where s1: "flag_post_loop (Some b) (hdo (W b)) ts v = Some (True, s1)"
    "released (woken_tcb F ts) v s1 A R W T (filter (\<lambda>a. wakes F (OSTCBs s a)) (W b))"
    by (auto simp: v_def)
  have h: "PL_HeadPtr (PendList (OSObjs s b)) = hdo (W b)" using pend_head [OF K, of b] by simp
  have pf: "OSFlagGrps s b = g \<Longrightarrow> F = (if opt \<in> {OS_OPT_POST_FLAG_SET, OS_OPT_POST_FLAG_SET OR OS_OPT_POST_NO_SCHED}
      then Flags g OR flags else Flags g AND NOT flags)" for g
    using F posted_flags [OF o] by simp
  have o': "opt \<in> {OS_OPT_POST_FLAG_SET, OS_OPT_POST_FLAG_SET OR OS_OPT_POST_NO_SCHED,
      OS_OPT_POST_FLAG_CLR, OS_OPT_POST_FLAG_CLR OR OS_OPT_POST_NO_SCHED}" using o by (simp add: flag_post_opts_def)
  have e: "OSFlagPost (Some b) flags opt ts s = (if hdo (W b) = None then Some (F, OS_ERR_NONE, v) else do {
      (ok, s) \<leftarrow> flag_post_loop (Some b) (hdo (W b)) ts v;
      if \<not> ok then Some (0, OS_ERR_FLAG_PEND_OPT, s)
      else do {
        s \<leftarrow> sched_unless opt s;
        g \<leftarrow> flag_grp s (Some b);
        Some (Flags g, OS_ERR_NONE, s)
      }
    })"
    by (cases "opt \<in> {OS_OPT_POST_FLAG_SET, OS_OPT_POST_FLAG_SET OR OS_OPT_POST_NO_SCHED}")
      (use I r o' h pf [OF refl] in \<open>simp_all add: OSFlagPost_def set_flag_grp_def v_def waits_ok_def sched_unless_def cong: if_cong\<close>)
  show ?thesis
  proof (cases "W b")
    case Nil
    have "OSFlagPost (Some b) flags opt ts s = Some (F, OS_ERR_NONE, v)"
      unfolding e by (simp add: Nil)
    with s1 Nil show ?thesis
      by (intro exI [of _ v] exI [of _ v]) (simp add: v_def released_Nil [OF K1, unfolded v_def])
  next
    case (Cons a E)
    from sched_unless_spec [OF s1(2) ne] obtain s' where s': "sched_unless opt s1 = Some s'" "switched s1 s'"
      by (auto simp: woken_tcb_def flagged_tcb_def)
    have "Flags (OSFlagGrps s' b) = F" using released_objs(4) [OF s1(2) s'(2)] F1 by simp
    then have "OSFlagPost (Some b) flags opt ts s = Some (F, OS_ERR_NONE, s')"
      unfolding e using Cons s1(1) s'(1) by simp
    with s1(2) s' Cons show ?thesis by (auto simp: v_def)
  qed
qed

text \<open>C21: When no task that waits on the group is suspended and has a time-out, \<open>OSFlagPost\<close> sets or clears the flags
  and releases exactly the waiting tasks whose condition then holds; the others keep their places, and none of them waits
  for a condition that holds. Each released task is ready, or still suspended when it waited without a time-out, and its
  pending call returns the flags that ended its wait with the time stamp of the post and no error. (A suspended waiter
  with a time-out is excluded: \<open>OS_FlagTaskRdy\<close> leaves it on the tick list, so that its wait can end with
  \<open>OS_ERR_TIMEOUT\<close> later, see \<open>OS_FlagTaskRdy_keeps_timeout\<close>.)\<close>

theorem OSFlagPost_refines:
  assumes K: "kinv s A R W T" and I: "waits_ok s W b" and r: "OSRunning s = OS_STATE_OS_RUNNING"
    and ne: "R q \<noteq> []" and o: "opt \<in> flag_post_opts"
    and ns: "\<And>a. a \<in> set (W b) \<Longrightarrow> TaskState (OSTCBs s a) \<noteq> OS_TASK_STATE_PEND_TIMEOUT_SUSPENDED"
    and F: "F = posted_flags opt flags (Flags (OSFlagGrps s b))"
  shows "\<exists>s' R' T'. OSFlagPost (Some b) flags opt ts s = Some (F, OS_ERR_NONE, s') \<and>
    kinv s' A R' (W(b := filter (\<lambda>a. \<not> wakes F (OSTCBs s a)) (W b))) T' \<and>
    flag_inv s' (W(b := filter (\<lambda>a. \<not> wakes F (OSTCBs s a)) (W b))) b \<and>
    (\<forall>a\<in>set (W b). wakes F (OSTCBs s a) \<longrightarrow> TaskState (OSTCBs s' a) = unpend_state (TaskState (OSTCBs s a)) \<and>
       fst (the (OSFlagPend_resume (Some b) (FlagsOpt (OSTCBs s a)) (s'\<lparr>OSTCBCurPtr := Some a\<rparr>))) =
         (got_flags F (OSTCBs s a), Some ts, OS_ERR_NONE))"
proof -
  let ?E = "filter (\<lambda>a. wakes F (OSTCBs s a)) (W b)" and ?W = "W(b := filter (\<lambda>a. \<not> wakes F (OSTCBs s a)) (W b))"
  from OSFlagPost_path [OF K I r ne o F ns, of ts] obtain v s1 s' where
    p: "OSFlagPost (Some b) flags opt ts s = Some (F, OS_ERR_NONE, s')"
    "v = s\<lparr>OSFlagGrps := (OSFlagGrps s)(b := (OSFlagGrps s b)\<lparr>Flags := F, Flag_TS := ts\<rparr>)\<rparr>"
    "released (woken_tcb F ts) v s1 A R W T ?E" "switched s1 s'" by (auto simp: F)
  note L = releasedD [OF p(3)] and O = released_objs [OF p(3,4)]
  have v: "OSTCBs v = OSTCBs s" "Flags (OSFlagGrps v b) = F" by (simp_all add: p(2))
  have f: "fold without ?E W = ?W" using fold_without_filter [OF K, of "\<lambda>a. wakes F (OSTCBs s a)" b] by simp
  have K': "kinv s' A (fold (readied v) ?E R) ?W (fold remove1 ?E T)" using O(8) unfolding f .
  have same: "core (OSTCBs s1 a) = core (OSTCBs s a)" if "a \<notin> set ?E" for a
    using moved_set_sel(7) [OF L(1) that] v by simp
  have st: "valid_wait (OSTCBs s' a) \<and> \<not> wakes F (OSTCBs s' a)" if "a \<in> set (W b)" "\<not> wakes F (OSTCBs s a)" for a
    using that I wait_core [OF same] switched_waits [OF p(4)] by (auto simp: waits_ok_def)
  have "flag_inv s' ?W b"
    using st O(4,7) v(2) I by (auto simp: flag_inv_def waits_ok_def p(2))
  moreover have "TaskState (OSTCBs s' a) = unpend_state (TaskState (OSTCBs s a)) \<and>
      fst (the (OSFlagPend_resume (Some b) (FlagsOpt (OSTCBs s a)) (s'\<lparr>OSTCBCurPtr := Some a\<rparr>))) =
         (got_flags F (OSTCBs s a), Some ts, OS_ERR_NONE)"
    if a: "a \<in> set (W b)" "wakes F (OSTCBs s a)" for a
  proof -
    have aE: "a \<in> set ?E" using a by simp
    note S = released_sel [OF p(3,4) aE] and C = L(3) [OF aE]
    have "FlagsRdy (OSTCBs s' a) = got_flags F (OSTCBs s a)"
      using core_eqI(14) [OF C] switched_flags(1) [OF p(4)] v by (simp add: woken_tcb_def flagged_tcb_def)
    moreover have "PendStatus (OSTCBs s' a) = OS_STATUS_PEND_OK" "Tcb_TS (OSTCBs s' a) = ts"
      "TaskState (OSTCBs s' a) = unpend_state (TaskState (OSTCBs s a))"
      using S v by (simp_all add: woken_tcb_def flagged_tcb_def)
    moreover have "FlagsOpt (OSTCBs s a) AND OS_OPT_PEND_FLAG_MASK \<in> flag_modes"
      using I a by (simp add: waits_ok_def valid_wait_def)
    ultimately show ?thesis
      using OSFlagPend_resume_ok [of "s'\<lparr>OSTCBCurPtr := Some a\<rparr>" a "FlagsOpt (OSTCBs s a)" b] by simp
  qed
  ultimately show ?thesis using p(1) K' by blast
qed

lemma demo_flags:
  "flag_inv demo demo_W 40" "waits_ok demo demo_W 40" "OSRunning demo = OS_STATE_OS_RUNNING" "demo_R 5 \<noteq> []"
  "OS_OPT_POST_FLAG_SET \<in> flag_post_opts" "demo_W 40 = [8]" "Flags (OSFlagGrps demo 40) = 1"
  "posted_flags OS_OPT_POST_FLAG_SET 2 1 = 3" "wakes 3 (OSTCBs demo 8)" "got_flags 3 (OSTCBs demo 8) = 3"
  by (simp_all add: flag_inv_def waits_ok_def demo_def demo_tcb_def blank_tcb_def demo_obj_def demo_R_def demo_W_def
      flag_post_opts_def posted_flags_def valid_wait_def wakes_def got_flags_def flags_ready_def flag_modes_def opts Let_def)

theorem OSFlagPost_refines_witness:
  "\<exists>s' W'. OSFlagPost (Some 40) 2 OS_OPT_POST_FLAG_SET 77 demo = Some (3, OS_ERR_NONE, s') \<and>
     flag_inv s' W' 40 \<and> W' 40 = [] \<and> TaskState (OSTCBs s' 8) = OS_TASK_STATE_RDY"
proof -
  have ns: "\<And>a. a \<in> set (demo_W 40) \<Longrightarrow> TaskState (OSTCBs demo a) \<noteq> OS_TASK_STATE_PEND_TIMEOUT_SUSPENDED"
    "TaskState (OSTCBs demo 8) = OS_TASK_STATE_PEND"
    by (simp_all add: demo_flags) (simp_all add: demo_def demo_tcb_def blank_tcb_def)
  have F: "3 = posted_flags OS_OPT_POST_FLAG_SET 2 (Flags (OSFlagGrps demo 40))" by (simp add: demo_flags)
  have W: "demo_W(40 := filter (\<lambda>a. \<not> wakes 3 (OSTCBs demo a)) (demo_W 40)) = demo_W(40 := [])"
    by (simp add: demo_flags)
  from OSFlagPost_refines [OF demo_kinv demo_flags(2-5) ns(1) F, of 77, unfolded W]
  obtain s' where "OSFlagPost (Some 40) 2 OS_OPT_POST_FLAG_SET 77 demo = Some (3, OS_ERR_NONE, s')"
    "flag_inv s' (demo_W(40 := [])) 40" "TaskState (OSTCBs s' 8) = unpend_state (TaskState (OSTCBs demo 8))"
    by (auto simp: demo_flags)
  then show ?thesis
    by (intro exI [of _ s'] exI [of _ "demo_W(40 := [])"]) (auto simp: demo_flags ns(2) unpend_state_def runs_def)
qed

section \<open>Pending\<close>

definition blocking_opts :: "OS_OPT set" where
  "blocking_opts = flag_modes \<union> (\<lambda>m. m OR OS_OPT_PEND_FLAG_CONSUME) ` flag_modes"

lemma blocking_opts:
  assumes "opt \<in> blocking_opts"
  shows "opt \<in> flag_modes \<union> (\<lambda>m. m OR OS_OPT_PEND_FLAG_CONSUME) ` flag_modes
      \<union> (\<lambda>m. m OR OS_OPT_PEND_NON_BLOCKING) ` flag_modes
      \<union> (\<lambda>m. m OR (OS_OPT_PEND_FLAG_CONSUME OR OS_OPT_PEND_NON_BLOCKING)) ` flag_modes"
    "opt AND OS_OPT_PEND_NON_BLOCKING = 0" "opt AND OS_OPT_PEND_FLAG_MASK \<in> flag_modes"
  using assms by (auto simp: blocking_opts_def flag_modes_def opts)

text \<open>The fields \<open>OS_FlagBlock\<close> writes before the task is queued.\<close>

definition wait_tcb :: "u32 \<Rightarrow> OS_OPT \<Rightarrow> OS_TCB \<Rightarrow> OS_TCB" where
  "wait_tcb flags opt t = t\<lparr>FlagsPend := flags, FlagsOpt := opt, FlagsRdy := 0\<rparr>"

lemma OS_FlagBlock_put:
  "OSTCBCurPtr s = Some c \<Longrightarrow> OS_FlagBlock (Some b) flags opt timeout s =
     OS_Pend (Some b) (Some c) OS_TASK_PEND_ON_FLAG timeout (put c (wait_tcb flags opt) s)"
  by (simp add: OS_FlagBlock_def set_tcb_Some put_def wait_tcb_def)

lemma pended_waits:
  "wakes F (pended_tcb s (Some b) OS_TASK_PEND_ON_FLAG timeout (wait_tcb flags opt t)) =
    (case flags_ready (opt AND OS_OPT_PEND_FLAG_MASK) F flags of None \<Rightarrow> False | Some (_, ok) \<Rightarrow> ok)"
  "valid_wait (pended_tcb s (Some b) OS_TASK_PEND_ON_FLAG timeout (wait_tcb flags opt t)) \<longleftrightarrow>
    opt AND OS_OPT_PEND_FLAG_MASK \<in> flag_modes"
  by (simp_all add: wakes_def valid_wait_def pended_tcb_def wait_tcb_def)

lemma OSFlagPend_block:
  assumes K: "kinv s A R W T" and I: "waits_ok s W b" and c: "c \<in> A" and l: "task_level s c"
    and ne: "rdy_del s c R q \<noteq> []" and o: "opt \<in> blocking_opts"
    and fr: "flags_ready (opt AND OS_OPT_PEND_FLAG_MASK) (Flags (OSFlagGrps s b)) flags = Some (r, False)"
  shows "\<exists>s1 s' x T'. OSFlagPend (Some b) flags timeout opt s = Some (Blocked, s') \<and>
    becomes c (pended_tcb s (Some b) OS_TASK_PEND_ON_FLAG timeout (wait_tcb flags opt (OSTCBs s c)))
      (put c (wait_tcb flags opt) s) s1 A (rdy_del s c R) (W(b := pend_ins (prios s) c (W b))) T' \<and>
    switched s1 s' \<and> OSTCBCurPtr s' = Some x \<and> x \<noteq> c \<and> running s' x \<and>
    most_urgent (put c (wait_tcb flags opt) s) (rdy_del s c R) x \<and>
    (if timeout > 0 then tick_inserted (put c (wait_tcb flags opt) s) T c (unat timeout) (trem s1) T' else T' = T)"
proof -
  let ?v = "put c (wait_tcb flags opt) s"
  have K1: "kinv ?v A R W T" using K by (simp add: kinv_put wait_tcb_def)
  have l1: "task_level ?v c" using l by (simp add: task_level_def wait_tcb_def put_def)
  have po: "on_object OS_TASK_PEND_ON_FLAG" by (simp add: on_object_def)
  have pr: "prios ?v = prios s" "rdy_del ?v c R = rdy_del s c R"
    by (auto simp: rdy_del_def wait_tcb_def fun_eq_iff)
  have pt: "pended_tcb ?v = pended_tcb s" by (intro ext) (simp add: pended_tcb_def pend_name_def split: option.split)
  from block_spec [OF K1 c l1 po, unfolded pr pt, OF ne, of b timeout] obtain s1 s' x T' where
    x: "OS_Pend (Some b) (OSTCBCurPtr ?v) OS_TASK_PEND_ON_FLAG timeout ?v = Some s1" "OSSched s1 = Some s'"
    "becomes c (pended_tcb s (Some b) OS_TASK_PEND_ON_FLAG timeout (OSTCBs ?v c)) ?v s1 A (rdy_del s c R)
      (W(b := pend_ins (prios s) c (W b))) T'"
    "switched s1 s'" "OSTCBCurPtr s' = Some x" "x \<noteq> c" "running s' x" "most_urgent ?v (rdy_del s c R) x"
    "if timeout > 0 then tick_inserted ?v T c (unat timeout) (trem s1) T' else T' = T" by blast
  have cur: "OSTCBCurPtr s = Some c" "OSIntNestingCtr s = 0" "OSSchedLockNestingCtr s = 0"
    "OSRunning s = OS_STATE_OS_RUNNING" using l by (simp_all add: task_level_def)
  have "OSFlagPend (Some b) flags timeout opt s = Some (Blocked, s')"
    using I fr blocking_opts [OF o] x(1,2) cur
    by (simp add: OSFlagPend_def waits_ok_def OS_FlagBlock_put Let_def)
  moreover have "OSTCBs ?v c = wait_tcb flags opt (OSTCBs s c)" by simp
  ultimately show ?thesis using x(3-) by (metis (no_types, lifting))
qed

text \<open>C29: \<open>OSFlagPend\<close> returns at once exactly if its condition holds: then it reports the flags that
  make it hold, with the time stamp of the last post, and takes them out of the group if it is
  asked to consume them. Otherwise the calling task is queued by priority and another task gets
  the CPU. No waiting task is left behind whose condition holds, unless flags were consumed.\<close>

theorem OSFlagPend_refines:
  assumes K: "kinv s A R W T" and I: "flag_inv s W b" and c: "c \<in> A" and l: "task_level s c"
    and ne: "rdy_del s c R q \<noteq> []" and o: "opt \<in> blocking_opts"
    and fr: "flags_ready (opt AND OS_OPT_PEND_FLAG_MASK) (Flags (OSFlagGrps s b)) flags = Some (r, ok)"
  shows "\<exists>out s' R' W' T'. OSFlagPend (Some b) flags timeout opt s = Some (out, s') \<and>
    kinv s' A R' W' T' \<and> waits_ok s' W' b \<and> (\<not> ok \<or> opt AND OS_OPT_PEND_FLAG_CONSUME = 0 \<longrightarrow> flag_inv s' W' b) \<and>
    Flags (OSFlagGrps s' b) = (if ok \<and> opt AND OS_OPT_PEND_FLAG_CONSUME \<noteq> 0
      then flags_consume (opt AND OS_OPT_PEND_FLAG_MASK) r (Flags (OSFlagGrps s b)) else Flags (OSFlagGrps s b)) \<and>
    (if ok then out = Done (r, Some (Flag_TS (OSFlagGrps s b)), OS_ERR_NONE) \<and> W' = W \<and> OSTCBCurPtr s' = Some c
     else out = Blocked \<and> W' = W(b := pend_ins (prios s) c (W b)) \<and> OSTCBCurPtr s' \<noteq> Some c)"
proof (cases ok)
  case True
  define v where "v = (if opt AND OS_OPT_PEND_FLAG_CONSUME = 0 then s else s\<lparr>OSFlagGrps := (OSFlagGrps s)(b :=
    (OSFlagGrps s b)\<lparr>Flags := flags_consume (opt AND OS_OPT_PEND_FLAG_MASK) r (Flags (OSFlagGrps s b))\<rparr>)\<rparr>)"
  let ?s = "put c (FlagsRdy_update (\<lambda>_. r)) v"
  have cur: "OSTCBCurPtr s = Some c" "OSIntNestingCtr s = 0" "OSRunning s = OS_STATE_OS_RUNNING"
    using l by (simp_all add: task_level_def)
  have v: "OSTCBs v = OSTCBs s" "OSObjs v = OSObjs s" "OSTCBCurPtr v = Some c" "Flags (OSFlagGrps v b) =
      (if opt AND OS_OPT_PEND_FLAG_CONSUME = 0 then Flags (OSFlagGrps s b)
       else flags_consume (opt AND OS_OPT_PEND_FLAG_MASK) r (Flags (OSFlagGrps s b)))"
    using cur by (simp_all add: v_def)
  have e: "OSFlagPend (Some b) flags timeout opt s =
      Some (Done (r, Some (Flag_TS (OSFlagGrps s b)), OS_ERR_NONE), ?s)"
    using I fr True blocking_opts [OF o] cur
    by (simp add: OSFlagPend_def flag_inv_def waits_ok_def set_flag_grp_def set_tcb_put Let_def v_def)
  have "kinv v A R W T" using K by (simp add: kinv_OSFlagGrps v_def)
  then have k: "kinv ?s A R W T" by (subst kinv_put) simp_all
  have w: "wakes F (OSTCBs ?s a) = wakes F (OSTCBs s a)" "valid_wait (OSTCBs ?s a) = valid_wait (OSTCBs s a)" for F a
    by (simp_all add: wakes_def valid_wait_def v)
  have g: "Flags (OSFlagGrps ?s b) = Flags (OSFlagGrps v b)" "OSTCBCurPtr ?s = Some c" using v by simp_all
  have wo: "waits_ok ?s W b" using I unfolding waits_ok_def flag_inv_def w by (simp add: v)
  have "opt AND OS_OPT_PEND_FLAG_CONSUME = 0 \<longrightarrow> flag_inv ?s W b"
    using I wo unfolding flag_inv_def w g(1) v(4) by simp
  with e True k wo show ?thesis unfolding g(1) [symmetric] v(4) [symmetric]
    by (intro exI [of _ "Done (r, Some (Flag_TS (OSFlagGrps s b)), OS_ERR_NONE)"] exI [of _ ?s] exI [of _ R]
        exI [of _ W] exI [of _ T]) (simp add: v)
next
  case False
  have fr': "flags_ready (opt AND OS_OPT_PEND_FLAG_MASK) (Flags (OSFlagGrps s b)) flags = Some (r, False)"
    using fr False by simp
  have I': "waits_ok s W b" using I by (simp add: flag_inv_def)
  from OSFlagPend_block [OF K I' c l ne o fr', of timeout] obtain s1 s' x T' where
    p: "OSFlagPend (Some b) flags timeout opt s = Some (Blocked, s')"
    "becomes c (pended_tcb s (Some b) OS_TASK_PEND_ON_FLAG timeout (wait_tcb flags opt (OSTCBs s c)))
      (put c (wait_tcb flags opt) s) s1 A (rdy_del s c R) (W(b := pend_ins (prios s) c (W b))) T'"
    "switched s1 s'" "OSTCBCurPtr s' = Some x" "x \<noteq> c" by blast
  note B = becomesD [OF p(2)]
  let ?W = "W(b := pend_ins (prios s) c (W b))"
  have g: "OSFlagGrps s' = OSFlagGrps s" using switched_sel(8) [OF p(3)] moved_sel(4) [OF B(1)] by simp
  have cs: "core (OSTCBs s1 a) = core (if a = c then pended_tcb s (Some b) OS_TASK_PEND_ON_FLAG timeout
      (wait_tcb flags opt (OSTCBs s c)) else OSTCBs s a)" for a
    using B(2) moved_sel(17) [OF B(1), of a] by auto
  have w: "valid_wait (OSTCBs s' a) \<and> \<not> wakes (Flags (OSFlagGrps s b)) (OSTCBs s' a)"
    if "a \<in> insert c (set (W b))" for a
    using that I wait_core [OF cs [of a]] switched_waits [OF p(3)] pended_waits fr False blocking_opts(3) [OF o]
    by (auto simp: flag_inv_def waits_ok_def)
  then have "flag_inv s' ?W b" using I g moved_sel(19) [OF B(1), of b] switched_sel(6) [OF p(3)]
    by (simp add: flag_inv_def waits_ok_def)
  then show ?thesis using p(1,4,5) False g switched_kinv [OF p(3)] B(3)
    by (intro exI [of _ Blocked] exI [of _ s'] exI [of _ "rdy_del s c R"] exI [of _ ?W] exI [of _ T'])
      (simp add: flag_inv_def)
qed

theorem OSFlagPend_refines_witness:
  "(\<exists>s' W'. OSFlagPend (Some 40) 1 5 (OS_OPT_PEND_FLAG_SET_ALL OR OS_OPT_PEND_FLAG_CONSUME) demo =
      Some (Done (1, Some 0, OS_ERR_NONE), s') \<and> Flags (OSFlagGrps s' 40) = 0) \<and>
   (\<exists>s'. OSFlagPend (Some 40) 2 5 OS_OPT_PEND_FLAG_SET_ALL demo = Some (Blocked, s') \<and> flag_inv s' (demo_W(40 := [1, 8])) 40)"
proof
  have o: "OS_OPT_PEND_FLAG_SET_ALL OR OS_OPT_PEND_FLAG_CONSUME \<in> blocking_opts" "OS_OPT_PEND_FLAG_SET_ALL \<in> blocking_opts"
    by (simp_all add: blocking_opts_def flag_modes_def)
  let ?o = "OS_OPT_PEND_FLAG_SET_ALL OR OS_OPT_PEND_FLAG_CONSUME"
  have f: "flags_ready (?o AND OS_OPT_PEND_FLAG_MASK) (Flags (OSFlagGrps demo 40)) 1 = Some (1, True)"
    "flags_ready (OS_OPT_PEND_FLAG_SET_ALL AND OS_OPT_PEND_FLAG_MASK) (Flags (OSFlagGrps demo 40)) 2 = Some (0, False)"
    "flags_consume (?o AND OS_OPT_PEND_FLAG_MASK) 1 (Flags (OSFlagGrps demo 40)) = 0"
    "?o AND OS_OPT_PEND_FLAG_CONSUME \<noteq> 0" "Flag_TS (OSFlagGrps demo 40) = 0"
    by (simp_all add: demo_flags) (simp_all add: flags_ready_def flags_consume_def opts demo_def)
  have W: "demo_W(40 := pend_ins (prios demo) 1 (demo_W 40)) = demo_W(40 := [1, 8])"
    by (simp add: demo_defs pend_ins_def fun_eq_iff)
  show "\<exists>s' W'. OSFlagPend (Some 40) 1 5 ?o demo =
      Some (Done (1, Some 0, OS_ERR_NONE), s') \<and> Flags (OSFlagGrps s' 40) = 0"
    using OSFlagPend_refines [OF demo_kinv demo_flags(1) demo_level(2,1,3) o(1) f(1), of 5] f(3-5) by auto
  show "\<exists>s'. OSFlagPend (Some 40) 2 5 OS_OPT_PEND_FLAG_SET_ALL demo = Some (Blocked, s') \<and> flag_inv s' (demo_W(40 := [1, 8])) 40"
    using OSFlagPend_refines [OF demo_kinv demo_flags(1) demo_level(2,1,3) o(2) f(2), of 5, unfolded W] by auto
qed

section \<open>A suspended task that waits with a time-out\<close>

text \<open>A fault of \<open>OS_FlagTaskRdy\<close>: a task that has been suspended while it waits with a time-out
  becomes SUSPENDED but stays on the tick list. When the time-out runs out the tick handler takes
  it for a pending task and overwrites its status, so that the wait that was satisfied is
  reported as timed out.\<close>

theorem OS_FlagTaskRdy_keeps_timeout:
  assumes K: "kinv s A R W T" and a: "a \<in> A" and st: "TaskState (OSTCBs s a) = OS_TASK_STATE_PEND_TIMEOUT_SUSPENDED"
  shows "\<exists>s1 s2. OS_FlagTaskRdy (Some a) flags_rdy ts s = Some s1 \<and>
    TaskState (OSTCBs s1 a) = OS_TASK_STATE_SUSPENDED \<and> PendStatus (OSTCBs s1 a) = OS_STATUS_PEND_OK \<and>
    tick_lists s1 T \<and> a \<in> set T \<and>
    tick_expire (Some a) ts' s1 = Some s2 \<and>
    OSFlagPend_resume (Some b) opt (s2\<lparr>OSTCBCurPtr := Some a\<rparr>) =
      Some ((0, Some 0, OS_ERR_TIMEOUT), s2\<lparr>OSTCBCurPtr := Some a\<rparr>)"
proof -
  let ?t = "OSTCBs s a"
  let ?v = "put a (TaskState_update (\<lambda>_. OS_TASK_STATE_SUSPENDED)) (put a (Tcb_TS_update (\<lambda>_. ts))
    (put a (PendOn_update (\<lambda>_. OS_TASK_PEND_ON_NOTHING)) (put a (PendStatus_update (\<lambda>_. OS_STATUS_PEND_OK))
    (put a (FlagsRdy_update (\<lambda>_. flags_rdy)) s))))"
  let ?u = "?t\<lparr>FlagsRdy := flags_rdy, PendStatus := OS_STATUS_PEND_OK, PendOn := OS_TASK_PEND_ON_NOTHING,
    Tcb_TS := ts, TaskState := OS_TASK_STATE_SUSPENDED\<rparr>"
  note ok = task_okD [OF K a]
  have S0: "stage a s ?u ?v R W T (trem s)"
    using stage_put [OF stage_put [OF stage_put [OF stage_put [OF stage_put [OF stage_init [OF K, of a],
      of "FlagsRdy_update (\<lambda>_. flags_rdy)"], of "PendStatus_update (\<lambda>_. OS_STATUS_PEND_OK)"],
      of "PendOn_update (\<lambda>_. OS_TASK_PEND_ON_NOTHING)"], of "Tcb_TS_update (\<lambda>_. ts)"],
      of "TaskState_update (\<lambda>_. OS_TASK_STATE_SUSPENDED)"] by simp
  obtain s1 where s1: "OS_PendListRemove (Some a) ?v = Some s1"
    and S1: "stage a s (?u\<lparr>PendObjPtr := None\<rparr>) s1 R (without a W) T (trem s)"
    by (rule stage_pend_leave [OF S0]) (use ok(4) in auto)
  have e1: "OS_FlagTaskRdy (Some a) flags_rdy ts s = Some s1"
    using st s1 by (simp add: OS_FlagTaskRdy_def set_tcb_put)
  note D = stageD [OF S1]
  have t1: "TaskState (OSTCBs s1 a) = OS_TASK_STATE_SUSPENDED" "PendStatus (OSTCBs s1 a) = OS_STATUS_PEND_OK"
    "PendOn (OSTCBs s1 a) = OS_TASK_PEND_ON_NOTHING" "PendObjPtr (OSTCBs s1 a) = None"
    using core_eqI(1,2,3,6) [OF D(2)] by simp_all
  let ?w = "put a (Tcb_TS_update (\<lambda>_. ts')) (put a (MsgSize_update (\<lambda>_. 0)) (put a (MsgPtr_update (\<lambda>_. None)) s1))"
  let ?s2 = "put a (PendOn_update (\<lambda>_. OS_TASK_PEND_ON_NOTHING)) (put a (PendStatus_update (\<lambda>_. OS_STATUS_PEND_TIMEOUT)) ?w)"
  have "OS_PendListRemove (Some a) ?w = Some ?w" using t1 by (simp add: OS_PendListRemove_def)
  then have "tick_expire (Some a) ts' s1 = Some ?s2"
    using t1 by (simp add: tick_expire_def set_tcb_put)
  moreover have "OSFlagPend_resume (Some b) opt (?s2\<lparr>OSTCBCurPtr := Some a\<rparr>) =
      Some ((0, Some 0, OS_ERR_TIMEOUT), ?s2\<lparr>OSTCBCurPtr := Some a\<rparr>)"
    by (simp add: OSFlagPend_resume_def pend_err_def)
  ultimately show ?thesis using e1 t1(1,2) D(5) ok(3) st by (auto simp: timed_def)
qed

text \<open>Task 3, which waits with a time-out, is suspended.\<close>

theorem OS_FlagTaskRdy_keeps_timeout_witness:
  "\<exists>s1 s2. OS_FlagTaskRdy (Some 3) 1 5 (put 3 (TaskState_update (\<lambda>_. OS_TASK_STATE_PEND_TIMEOUT_SUSPENDED)) demo) = Some s1 \<and>
     tick_expire (Some 3) 9 s1 = Some s2 \<and>
     OSFlagPend_resume (Some 40) OS_OPT_PEND_FLAG_SET_ALL (s2\<lparr>OSTCBCurPtr := Some 3\<rparr>) =
       Some ((0, Some 0, OS_ERR_TIMEOUT), s2\<lparr>OSTCBCurPtr := Some 3\<rparr>)"
proof -
  let ?s = "put 3 (TaskState_update (\<lambda>_. OS_TASK_STATE_PEND_TIMEOUT_SUSPENDED)) demo"
  have "TaskState (OSTCBs demo 3) = OS_TASK_STATE_PEND_TIMEOUT" by (simp add: demo_def demo_tcb_def blank_tcb_def)
  then have K: "kinv ?s demo_A demo_R demo_W demo_T"
    by (intro kinv_state [OF demo_kinv]) (simp_all add: timed_def pending_def)
  have a: "3 \<in> demo_A" "TaskState (OSTCBs ?s 3) = OS_TASK_STATE_PEND_TIMEOUT_SUSPENDED" by (simp_all add: demo_A_def)
  show ?thesis
    using OS_FlagTaskRdy_keeps_timeout [OF K a, of 1 5 9 40 OS_OPT_PEND_FLAG_SET_ALL] by blast
qed

end
