(* ===== verification/Os_Stk.thy ===== *)
theory Os_Stk
  imports Os_Block
begin

text \<open>
  The stacks of the tasks: the initial frame of a task (\<open>os_cpu_c.c\<close>), the saving and restoring
  of the CPU context (\<open>os_cpu_a.asm\<close>, with the hook of \<open>os_cpu_c.c\<close>), the red zone and the stack
  check (\<open>os_task.c\<close>). A stack is a range of words of \<open>OSStkMem\<close>; \<open>CPU_STK\<close> has four bytes. The
  port is built with the floating-point unit (\<open>OS_CPU_ARM_FP_EN\<close>).
\<close>

type_synonym mem = "u32 \<Rightarrow> u32"

section \<open>The initial frame\<close>

text \<open>\<open>*(--p_stk) = v\<close>\<close>

fun stk_push :: "u32 \<Rightarrow> u32 \<times> mem \<Rightarrow> u32 \<times> mem" where
  "stk_push v (p_stk, m) = (p_stk - 4, m(p_stk - 4 := v))"

text \<open>The registers the processor restores at an exception return, in the order they are pushed;
  \<open>task_return\<close> is the address of \<open>OS_TaskReturn\<close>.\<close>

definition auto_saved_regs :: "u32 \<Rightarrow> u32 \<Rightarrow> u32 \<Rightarrow> u32 \<Rightarrow> u32 list" where
  "auto_saved_regs task_return p_task p_arg p_stk_limit =
     [0x02000000, 0x41700000, 0x41600000, 0x41500000, 0x41400000, 0x41300000, 0x41200000, 0x41100000,
      0x41000000, 0x40E00000, 0x40C00000, 0x40A00000, 0x40800000, 0x40400000, 0x40000000, 0x3F800000,
      0x00000000,
      0x01000000, p_task, task_return, 0x12121212, 0x03030303, 0x02020202, p_stk_limit, p_arg]"

text \<open>The registers the port restores: EXC_RETURN, R11 to R4, S31 to S16.\<close>

definition port_saved_regs :: "u32 list" where
  "port_saved_regs =
     [0xFFFFFFED, 0x11111111, 0x10101010, 0x09090909, 0x08080808, 0x07070707, 0x06060606, 0x05050505, 0x04040404,
      0x41F80000, 0x41F00000, 0x41E80000, 0x41E00000, 0x41D80000, 0x41D00000, 0x41C80000, 0x41C00000,
      0x41B80000, 0x41B00000, 0x41A80000, 0x41A00000, 0x41980000, 0x41900000, 0x41880000, 0x41800000]"

text \<open>The word skipped by the first \<open>--p_stk\<close> is the reserved word of the frame.\<close>

definition OSTaskStkInit ::
  "u32 \<Rightarrow> u32 \<Rightarrow> u32 \<Rightarrow> u32 \<Rightarrow> u32 \<Rightarrow> u32 \<Rightarrow> mem \<Rightarrow> u32 \<times> mem" where
  "OSTaskStkInit task_return p_task p_arg p_stk_base p_stk_limit stk_size m =
     (let p_stk = p_stk_base + 4 * stk_size;
          p_stk = p_stk AND 0xFFFFFFF8;
          p_stk = p_stk - 4
      in fold stk_push port_saved_regs
           (fold stk_push (auto_saved_regs task_return p_task p_arg p_stk_limit) (p_stk, m)))"

section \<open>Saving and restoring the context\<close>

text \<open>The registers the port saves by itself, lowest number first, and the process stack pointer.\<close>

record cpu =
  PSP :: u32
  R4_R11 :: "u32 list"
  R14 :: u32
  S16_S31 :: "u32 list"

text \<open>\<open>STMFD\<close>/\<open>VSTMDB\<close>: the registers go to falling addresses, the highest first; \<open>LDMFD\<close>/\<open>VLDMIA\<close>
  read \<open>n\<close> words from rising addresses.\<close>

definition push_regs :: "u32 list \<Rightarrow> u32 \<times> mem \<Rightarrow> u32 \<times> mem" where
  "push_regs vs st = fold stk_push (rev vs) st"

fun pop_regs :: "nat \<Rightarrow> u32 \<Rightarrow> mem \<Rightarrow> u32 list \<times> u32" where
  "pop_regs 0 p m = ([], p)"
| "pop_regs (Suc n) p m = (let (vs, p') = pop_regs n (p + 4) m in (m p # vs, p'))"

text \<open>\<open>OS_CPU_FP_Reg_Push\<close> and \<open>OS_CPU_FP_Reg_Pop\<close>: the new value of \<open>StkPtr\<close> is part of the result.\<close>

definition OS_CPU_FP_Reg_Push :: "cpu \<Rightarrow> u32 \<Rightarrow> mem \<Rightarrow> u32 \<times> mem" where
  "OS_CPU_FP_Reg_Push c stk_ptr m = (if PSP c = 0 then (stk_ptr, m) else push_regs (S16_S31 c) (stk_ptr, m))"

definition OS_CPU_FP_Reg_Pop :: "u32 \<Rightarrow> mem \<Rightarrow> u32 list \<times> u32" where
  "OS_CPU_FP_Reg_Pop stk_ptr m = pop_regs 16 stk_ptr m"

text \<open>The two halves of \<open>OS_CPU_PendSVHandler\<close>: the context of the task that is left goes to its
  stack, and the context of the task that is entered comes from its stack.\<close>

definition PendSV_save :: "cpu \<Rightarrow> mem \<Rightarrow> u32 \<times> mem" where
  "PendSV_save c m = (let (stk_ptr, m) = push_regs (R4_R11 c @ [R14 c]) (PSP c, m) in OS_CPU_FP_Reg_Push c stk_ptr m)"

definition PendSV_restore :: "u32 \<Rightarrow> mem \<Rightarrow> cpu" where
  "PendSV_restore stk_ptr m =
     (let (s, stk_ptr) = OS_CPU_FP_Reg_Pop stk_ptr m; (r, psp) = pop_regs 9 stk_ptr m
      in \<lparr>PSP = psp, R4_R11 = butlast r, R14 = last r, S16_S31 = s\<rparr>)"

section \<open>Red zone and stack check\<close>

definition OS_CFG_TASK_STK_REDZONE_DEPTH :: nat where "OS_CFG_TASK_STK_REDZONE_DEPTH = 8"
definition OS_STACK_CHECK_VAL :: u32 where "OS_STACK_CHECK_VAL = 0xABCD2345"

definition OS_TaskStkRedzoneInit :: "u32 \<Rightarrow> mem \<Rightarrow> mem" where
  "OS_TaskStkRedzoneInit p_base m =
     fold (\<lambda>i m. m(p_base + 4 * of_nat i := OS_STACK_CHECK_VAL)) [0..<OS_CFG_TASK_STK_REDZONE_DEPTH] m"

fun redzone_loop :: "nat \<Rightarrow> u32 \<Rightarrow> mem \<Rightarrow> bool" where
  "redzone_loop 0 p_base m = True"
| "redzone_loop (Suc n) p_base m = (if m p_base \<noteq> OS_STACK_CHECK_VAL then False else redzone_loop n (p_base + 4) m)"

definition OS_TaskStkRedzoneChk :: "u32 \<Rightarrow> mem \<Rightarrow> bool" where
  "OS_TaskStkRedzoneChk p_base m = redzone_loop OS_CFG_TASK_STK_REDZONE_DEPTH p_base m"

definition OSTaskStkRedzoneChk :: "ptr \<Rightarrow> kernel \<Rightarrow> bool option" where
  "OSTaskStkRedzoneChk p_tcb s = do {
     t \<leftarrow> tcb s (if p_tcb = None then OSTCBCurPtr s else p_tcb);
     if StkPtr t < StkBasePtr t \<or> StkPtr t \<ge> StkBasePtr t + 4 * StkSize t then Some False
     else Some (OS_TaskStkRedzoneChk (StkBasePtr t) (OSStkMem s))
   }"

text \<open>The zero words from \<open>p_stk\<close> on, at most \<open>n\<close>.\<close>

fun free_loop :: "nat \<Rightarrow> u32 \<Rightarrow> u32 \<Rightarrow> mem \<Rightarrow> u32" where
  "free_loop 0 free_stk p_stk m = free_stk"
| "free_loop (Suc n) free_stk p_stk m = (if m p_stk = 0 then free_loop n (free_stk + 1) (p_stk + 4) m else free_stk)"

text \<open>The results are \<open>*p_free\<close>, \<open>*p_used\<close> (\<open>None\<close>: not written) and the error; \<open>free\<close>, \<open>used\<close>: the
  caller gave an address for them.\<close>

definition OSTaskStkChk :: "ptr \<Rightarrow> bool \<Rightarrow> bool \<Rightarrow> kernel \<Rightarrow> ((u32 \<times> u32) option \<times> OS_ERR) option" where
  "OSTaskStkChk p_tcb free used s =
     (if OSIntNestingCtr s > 0 then Some (None, OS_ERR_TASK_STK_CHK_ISR)
      else if \<not> free then Some (None, OS_ERR_PTR_INVALID)
      else if \<not> used then Some (None, OS_ERR_PTR_INVALID)
      else do {
        t \<leftarrow> tcb s (if p_tcb = None then OSTCBCurPtr s else p_tcb);
        if StkPtr t = 0 then Some (Some (0, 0), OS_ERR_TASK_NOT_EXIST)
        else if Tcb_Opt t AND OS_OPT_TASK_STK_CHK = 0 then Some (Some (0, 0), OS_ERR_TASK_OPT)
        else do {
          let p_stk = StkBasePtr t + 4 * of_nat OS_CFG_TASK_STK_REDZONE_DEPTH;
          let free_stk = free_loop (unat (StkSize t)) 0 p_stk (OSStkMem s);
          Some (Some (free_stk, StkSize t - free_stk), OS_ERR_NONE)
        }
      })"

section \<open>Pushing and popping\<close>

lemma push_regs_Nil [simp]: "push_regs [] st = st"
  and push_regs_Cons: "push_regs (v # vs) st = stk_push v (push_regs vs st)"
  and push_regs_append: "push_regs (us @ vs) st = push_regs us (push_regs vs st)"
  by (simp_all add: push_regs_def)

lemma fst_stk_push: "fst (stk_push v st) = fst st - 4" "snd (stk_push v st) = (snd st)(fst st - 4 := v)"
  by (cases st; simp)+

lemma fst_push_regs: "fst (push_regs vs st) = fst st - 4 * of_nat (length vs)"
  by (induction vs) (simp_all add: push_regs_Cons fst_stk_push)

text \<open>Only the words of the pushed registers are written.\<close>

lemma push_regs_writes:
  "snd (push_regs vs st) x \<noteq> snd st x \<Longrightarrow> \<exists>k. 1 \<le> k \<and> k \<le> length vs \<and> x = fst st - 4 * of_nat k"
proof (induction vs)
  case (Cons v vs)
  show ?case
  proof (cases "snd (push_regs vs st) x = snd st x")
    case True
    then have "x = fst (push_regs vs st) - 4"
      using Cons.prems by (simp add: push_regs_Cons fst_stk_push split: if_splits)
    then show ?thesis by (intro exI [of _ "Suc (length vs)"]) (simp add: fst_push_regs)
  next
    case False
    with Cons.IH show ?thesis by force
  qed
qed simp

lemma pop_regs_cong:
  "(\<And>k. k < n \<Longrightarrow> m (p + 4 * of_nat k) = m' (p + 4 * of_nat k)) \<Longrightarrow> pop_regs n p m = pop_regs n p m'"
proof (induction n arbitrary: p)
  case (Suc n)
  have "pop_regs n (p + 4) m = pop_regs n (p + 4) m'"
    by (rule Suc.IH) (use Suc.prems [of "Suc k" for k] in \<open>simp add: algebra_simps\<close>)
  with Suc.prems [of 0] show ?case by simp
qed simp

lemma pop_regs_add:
  "pop_regs (a + b) p m = (let (us, q) = pop_regs a p m; (vs, r) = pop_regs b q m in (us @ vs, r))"
  by (induction a arbitrary: p) (auto simp: split_def Let_def)

lemma four_times_zero:
  fixes k :: nat
  assumes "4 * of_nat k = (0 :: u32)" and "k < 2 ^ 30" shows "k = 0"
proof -
  have "(of_nat (4 * k) :: u32) = 0" using assms(1) by simp
  then have "unat (of_nat (4 * k) :: u32) = 0" by simp
  moreover have "unat (of_nat (4 * k) :: u32) = 4 * k" unfolding unat_of_nat using assms(2) by simp
  ultimately show ?thesis by simp
qed

lemma pop_push:
  "length vs < 2 ^ 30 \<Longrightarrow> pop_regs (length vs) (fst (push_regs vs st)) (snd (push_regs vs st)) = (vs, fst st)"
proof (induction vs)
  case (Cons v vs)
  let ?q = "fst (push_regs vs st)" and ?m = "snd (push_regs vs st)"
  have "pop_regs (length vs) ?q (?m(?q - 4 := v)) = pop_regs (length vs) ?q ?m"
  proof (rule pop_regs_cong)
    fix k assume k: "k < length vs"
    have "?q + 4 * of_nat k \<noteq> ?q - 4"
    proof
      assume "?q + 4 * of_nat k = ?q - 4"
      then have "4 * of_nat (Suc k) = (0 :: u32)" by (simp add: algebra_simps)
      with k Cons.prems four_times_zero [of "Suc k"] show False by simp
    qed
    then show "(?m(?q - 4 := v)) (?q + 4 * of_nat k) = ?m (?q + 4 * of_nat k)" by simp
  qed
  with Cons show ?case by (simp add: push_regs_Cons fst_stk_push del: fun_upd_apply) simp
qed simp

section \<open>The frame of a new task\<close>

lemma OSTaskStkInit_push:
  "OSTaskStkInit task_return p_task p_arg p_stk_base p_stk_limit stk_size m =
    push_regs (rev port_saved_regs) (push_regs (rev (auto_saved_regs task_return p_task p_arg p_stk_limit))
      (((p_stk_base + 4 * stk_size) AND 0xFFFFFFF8) - 4, m))"
  by (simp add: OSTaskStkInit_def push_regs_def)

lemma regs_length [simp]: "length (auto_saved_regs a b c d) = 25" "length port_saved_regs = 25"
  by (simp_all add: auto_saved_regs_def port_saved_regs_def)

lemma OSTaskStkInit_sp:
  "fst (OSTaskStkInit task_return p_task p_arg p_stk_base p_stk_limit stk_size m) =
    ((p_stk_base + 4 * stk_size) AND 0xFFFFFFF8) - 204"
  by (simp add: OSTaskStkInit_push fst_push_regs)

text \<open>What the port and then the exception return take from the frame.\<close>

lemma OSTaskStkInit_pops:
  assumes "OSTaskStkInit task_return p_task p_arg p_stk_base p_stk_limit stk_size m = (sp, m')"
  shows "pop_regs 50 sp m' = (rev port_saved_regs @ rev (auto_saved_regs task_return p_task p_arg p_stk_limit), sp + 200)"
proof -
  let ?vs = "rev port_saved_regs @ rev (auto_saved_regs task_return p_task p_arg p_stk_limit)"
  have e: "push_regs ?vs (((p_stk_base + 4 * stk_size) AND 0xFFFFFFF8) - 4, m) = (sp, m')"
    using assms by (simp add: OSTaskStkInit_push push_regs_append)
  have "sp = ((p_stk_base + 4 * stk_size) AND 0xFFFFFFF8) - 204"
    using fst_push_regs [of ?vs "(((p_stk_base + 4 * stk_size) AND 0xFFFFFFF8) - 4, m)"] unfolding e by simp
  with pop_push [of ?vs "(((p_stk_base + 4 * stk_size) AND 0xFFFFFFF8) - 4, m)"] show ?thesis
    unfolding e by simp
qed

lemma pop_regs_split:
  assumes "pop_regs (a + b) p m = (us @ vs, r)" and "length us = a"
  shows "pop_regs a p m = (us, p + 4 * of_nat a)" "pop_regs b (p + 4 * of_nat a) m = (vs, r)"
proof -
  have l: "length (fst (pop_regs n p m)) = n \<and> snd (pop_regs n p m) = p + 4 * of_nat n" for n p
    by (induction n arbitrary: p) (auto simp: split_def Let_def)
  show "pop_regs a p m = (us, p + 4 * of_nat a)" "pop_regs b (p + 4 * of_nat a) m = (vs, r)"
    using assms l [of a p] by (auto simp: pop_regs_add split_def Let_def prod_eq_iff)
qed

lemma align8: "(w :: u32) AND 0xFFFFFFF8 = push_bit 3 (drop_bit 3 w)"
  by (simp add: bit_eq_iff bit_simps) (auto simp: bit_numeral_rec less_Suc_eq numeral_eq_Suc)

lemma aligned_minus: "(((w :: u32) AND 0xFFFFFFF8) - 104) AND 7 = 0"
proof -
  have "push_bit 3 (drop_bit 3 w) - 104 = push_bit 3 (drop_bit 3 w - 13)" by (simp add: push_bit_eq_mult algebra_simps)
  moreover have "v AND 7 = take_bit 3 v" for v :: u32 by (simp add: take_bit_eq_mask mask_numeral)
  ultimately show ?thesis unfolding align8 by (simp add: take_bit_push_bit)
qed

lemma unat_align8: "unat ((w :: u32) AND 0xFFFFFFF8) = unat w div 8 * 8"
proof -
  have "w AND 0xFFFFFFF8 = w div 8 * 8" unfolding align8 by (simp add: push_bit_eq_mult drop_bit_eq_div)
  moreover have "unat w < 2 ^ LENGTH(32)" by (rule unsigned_less)
  then have "unat w div 8 * 8 < 2 ^ 32" using div_times_less_eq_dividend [of "unat w" 8] by simp
  ultimately show ?thesis by (simp add: unat_word_ariths unat_div)
qed

section \<open>Properties\<close>

text \<open>C30: The context a task is left with is the context it gets back: if the 25 words saved on its
  stack are unchanged, \<open>OS_CPU_PendSVHandler\<close> restores exactly the stack pointer, R4 to R11, the
  return code and S16 to S31 it saved.\<close>

theorem PendSV_restores_saved:
  assumes "length (R4_R11 c) = 8" and "length (S16_S31 c) = 16" and "PSP c \<noteq> 0"
    and save: "PendSV_save c m = (sp, m')" and same: "\<And>k. k < 25 \<Longrightarrow> m'' (sp + 4 * of_nat k) = m' (sp + 4 * of_nat k)"
  shows "PendSV_restore sp m'' = c"
proof -
  let ?vs = "S16_S31 c @ R4_R11 c @ [R14 c]"
  have e: "push_regs ?vs (PSP c, m) = (sp, m')"
    using save assms(3) by (simp add: PendSV_save_def OS_CPU_FP_Reg_Push_def push_regs_append split_def)
  have l: "length ?vs = 25" using assms(1,2) by simp
  have "pop_regs 25 sp m' = (?vs, PSP c)"
    using pop_push [of ?vs "(PSP c, m)"] unfolding e l by simp
  then have p: "pop_regs (16 + 9) sp m'' = (?vs, PSP c)"
    using pop_regs_cong [of 25 m'' sp m'] same by simp
  show ?thesis
    using pop_regs_split [OF p assms(2)] by (simp add: PendSV_restore_def OS_CPU_FP_Reg_Pop_def)
qed

theorem PendSV_restores_saved_witness:
  "PendSV_restore (0x20000000 - 100) (snd (PendSV_save \<lparr>PSP = 0x20000000, R4_R11 = [4, 5, 6, 7, 8, 9, 10, 11],
      R14 = 0xFFFFFFED, S16_S31 = replicate 16 3\<rparr> (\<lambda>_. 0))) =
    \<lparr>PSP = 0x20000000, R4_R11 = [4, 5, 6, 7, 8, 9, 10, 11], R14 = 0xFFFFFFED, S16_S31 = replicate 16 3\<rparr>"
proof -
  let ?c = "\<lparr>PSP = 0x20000000, R4_R11 = [4, 5, 6, 7, 8, 9, 10, 11], R14 = 0xFFFFFFED, S16_S31 = replicate 16 3\<rparr> :: cpu"
  have "fst (PendSV_save ?c (\<lambda>_. 0)) = 0x20000000 - 100"
    by (simp add: PendSV_save_def OS_CPU_FP_Reg_Push_def split_def fst_push_regs)
  then have e: "PendSV_save ?c (\<lambda>_. 0) = (0x20000000 - 100, snd (PendSV_save ?c (\<lambda>_. 0)))" by (metis prod.collapse)
  show ?thesis using PendSV_restores_saved [OF _ _ _ e] by simp
qed

text \<open>A task starts as it was created: the context restored from the frame of \<open>OSTaskStkInit\<close>
  has the return code for thread mode with floating-point state and a stack pointer aligned to
  eight bytes, and the exception return takes the argument into R0, the entry point into the
  program counter and \<open>OS_TaskReturn\<close> into the link register.\<close>

lemma OSTaskStkInit_starts_task:
  assumes i: "OSTaskStkInit task_return p_task p_arg p_stk_base p_stk_limit stk_size m = (sp, m')"
  shows "R14 (PendSV_restore sp m') = 0xFFFFFFED \<and> PSP (PendSV_restore sp m') = sp + 100 \<and> (sp + 100) AND 7 = 0 \<and>
    R4_R11 (PendSV_restore sp m') = [0x04040404, 0x05050505, 0x06060606, 0x07070707, 0x08080808, 0x09090909,
      0x10101010, 0x11111111] \<and>
    fst (pop_regs 8 (sp + 100) m') =
      [p_arg, p_stk_limit, 0x02020202, 0x03030303, 0x12121212, task_return, p_task, 0x01000000]"
proof -
  let ?S = "take 16 (rev port_saved_regs)" and ?R = "drop 16 (rev port_saved_regs)"
    and ?A = "take 8 (rev (auto_saved_regs task_return p_task p_arg p_stk_limit))"
    and ?B = "drop 8 (rev (auto_saved_regs task_return p_task p_arg p_stk_limit))"
  have "pop_regs (16 + 34) sp m' = (?S @ (?R @ ?A @ ?B), sp + 200)"
    using OSTaskStkInit_pops [OF i] by simp
  note s1 = pop_regs_split [OF this]
  have "pop_regs (9 + 25) (sp + 4 * of_nat 16) m' = (?R @ (?A @ ?B), sp + 200)" using s1(2) by simp
  note s2 = pop_regs_split [OF this]
  have "pop_regs (8 + 17) (sp + 100) m' = (?A @ ?B, sp + 200)" using s2(2) by (simp add: add.commute)
  note s3 = pop_regs_split [OF this]
  have "PendSV_restore sp m' = \<lparr>PSP = sp + 100, R4_R11 = butlast ?R, R14 = last ?R, S16_S31 = ?S\<rparr>"
    using s1(1) s2(1) by (simp add: PendSV_restore_def OS_CPU_FP_Reg_Pop_def)
  moreover have sp: "sp + 100 = ((p_stk_base + 4 * stk_size) AND 0xFFFFFFF8) - 104"
    using OSTaskStkInit_sp [of task_return p_task p_arg p_stk_base p_stk_limit stk_size m] i by simp
  moreover have "(sp + 100) AND 7 = 0" unfolding sp by (rule aligned_minus)
  ultimately show ?thesis using s3(1) by (simp add: port_saved_regs_def auto_saved_regs_def)
qed

text \<open>The initial frame stays inside the stack: with a stack of at least \<open>OSCfg_StkSizeMin\<close> words
  \<open>OSTaskStkInit\<close> writes only between the stack pointer it returns and the end of the stack, and
  that pointer lies above the red zone; so the check of \<open>OSTaskCreate\<close> for an overflow never fires
  and the red zone written afterwards does not touch the frame.\<close>

lemma OSTaskStkInit_in_bounds:
  assumes size: "64 \<le> stk_size" and wrap: "unat p_stk_base + 4 * unat stk_size < 2 ^ 32"
    and i: "OSTaskStkInit task_return p_task p_arg p_stk_base p_stk_limit stk_size m = (sp, m')"
  shows "unat p_stk_base + 4 * OS_CFG_TASK_STK_REDZONE_DEPTH \<le> unat sp \<and> unat sp + 200 < unat p_stk_base + 4 * unat stk_size \<and>
    (\<forall>x. m' x \<noteq> m x \<longrightarrow> unat sp \<le> unat x \<and> unat x < unat p_stk_base + 4 * unat stk_size)"
proof -
  let ?e = "p_stk_base + 4 * stk_size" and ?B = "unat p_stk_base" and ?S = "unat stk_size"
  let ?a = "?e AND 0xFFFFFFF8" and ?vs = "rev port_saved_regs @ rev (auto_saved_regs task_return p_task p_arg p_stk_limit)"
  have S: "64 \<le> ?S" using size by (simp add: word_le_nat_alt)
  have e: "unat ?e = ?B + 4 * ?S" using wrap by (simp add: unat_word_ariths)
  then have a: "unat ?a \<le> ?B + 4 * ?S" "?B + 4 * ?S < unat ?a + 8" unfolding unat_align8 by presburger+
  have below: "unat (?a - of_nat n) = unat ?a - n" if "n \<le> 204" for n
  proof -
    have "(of_nat n :: u32) \<le> ?a" "unat (of_nat n :: u32) = n" using that a S by (simp_all add: word_le_nat_alt unat_of_nat)
    then show ?thesis by (simp add: unat_sub)
  qed
  have sp: "sp = ?a - of_nat 204" using OSTaskStkInit_sp [of task_return p_task p_arg p_stk_base p_stk_limit stk_size m] i by simp
  have us: "unat sp = unat ?a - 204" unfolding sp using below [of 204] by simp
  have p: "push_regs ?vs (?a - 4, m) = (sp, m')" using i by (simp add: OSTaskStkInit_push push_regs_append)
  have w: "unat sp \<le> unat x \<and> unat x < ?B + 4 * ?S" if mx: "m' x \<noteq> m x" for x
  proof -
    obtain k where k: "1 \<le> k" "k \<le> 50" "x = ?a - 4 - 4 * of_nat k"
      using push_regs_writes [of ?vs "(?a - 4, m)" x] mx unfolding p by auto
    then have "x = ?a - of_nat (4 + 4 * k)" by (simp add: algebra_simps)
    then have "unat x = unat ?a - (4 + 4 * k)" using below [of "4 + 4 * k"] k(2) by simp
    then show ?thesis using us a k S by linarith
  qed
  have "?B + 4 * 8 \<le> unat sp" "unat sp + 200 < ?B + 4 * ?S" using us a S by linarith+
  with w show ?thesis by (simp add: OS_CFG_TASK_STK_REDZONE_DEPTH_def)
qed

section \<open>The red zone\<close>

lemma redzone_fold:
  "fold (\<lambda>i m. m(b + 4 * of_nat i := v)) [0..<n] m x = (if \<exists>i<n. x = b + 4 * of_nat i then v else (m x :: u32))"
  by (induction n arbitrary: m) (auto simp: less_Suc_eq)

lemma redzone_init:
  "OS_TaskStkRedzoneInit b m x = (if \<exists>i<8. x = b + 4 * of_nat i then OS_STACK_CHECK_VAL else m x)"
  using redzone_fold [of b OS_STACK_CHECK_VAL 8 m x]
  by (simp add: OS_TaskStkRedzoneInit_def OS_CFG_TASK_STK_REDZONE_DEPTH_def)

lemma redzone_loop_iff: "redzone_loop n p m \<longleftrightarrow> (\<forall>i<n. m (p + 4 * of_nat i) = OS_STACK_CHECK_VAL)"
  by (induction n arbitrary: p) (auto simp: All_less_Suc2 algebra_simps)

lemma redzone_ok: "OS_TaskStkRedzoneChk b (OS_TaskStkRedzoneInit b m)"
  by (auto simp: OS_TaskStkRedzoneChk_def redzone_loop_iff redzone_init OS_CFG_TASK_STK_REDZONE_DEPTH_def)

text \<open>The red zone leaves the frame alone.\<close>

lemma redzone_keeps_frame:
  assumes "unat b + 32 \<le> unat sp" and "unat sp + 4 * n < 2 ^ 32"
  shows "pop_regs n sp (OS_TaskStkRedzoneInit b m) = pop_regs n sp m"
proof (rule pop_regs_cong)
  fix k assume k: "k < n"
  have "sp + 4 * of_nat k \<noteq> b + 4 * of_nat i" if "i < 8" for i
  proof
    assume e: "sp + 4 * of_nat k = b + 4 * of_nat i"
    have "unat (of_nat (4 * k) :: u32) = 4 * k" "unat (of_nat (4 * i) :: u32) = 4 * i"
      unfolding unat_of_nat using k assms that by simp_all
    then have "unat (sp + 4 * of_nat k) = unat sp + 4 * k" "unat (b + 4 * of_nat i) = unat b + 4 * i"
      using k assms that by (simp_all add: unat_word_ariths)
    with e assms that show False by simp
  qed
  then show "OS_TaskStkRedzoneInit b m (sp + 4 * of_nat k) = m (sp + 4 * of_nat k)" by (auto simp: redzone_init)
qed

end
