(* ===== verification/Os_Task.thy ===== *)
theory Os_Task
  imports Os_Obj Os_Mutex Os_Msg Os_Stk
begin

text \<open>
  Tasks (\<open>os_task.c\<close>): creation and deletion, suspension, priorities, and the semaphore and the
  message queue each task has. \<open>ts\<close> is the value of \<open>OS_TS_GET()\<close>. The hooks of the application
  are not modelled. A null \<open>p_tcb\<close> stands for the calling task where the code takes it so.
\<close>

definition self_or :: "ptr \<Rightarrow> kernel \<Rightarrow> ptr" where
  "self_or p_tcb s = (if p_tcb = None then OSTCBCurPtr s else p_tcb)"

section \<open>Priorities\<close>

definition OSTaskChangePrio :: "ptr \<Rightarrow> u8 \<Rightarrow> kernel \<Rightarrow> (OS_ERR \<times> kernel) option" where
  "OSTaskChangePrio p_tcb prio_new s =
     (if p_tcb \<noteq> None \<and> map_option TaskState (tcb s p_tcb) = Some OS_TASK_STATE_DEL
      then Some (OS_ERR_STATE_INVALID, s)
      else if OSIntNestingCtr s > 0 then Some (OS_ERR_TASK_CHANGE_PRIO_ISR, s)
      else if prio_new \<ge> of_nat (OS_CFG_PRIO_MAX - 1) then Some (OS_ERR_PRIO_INVALID, s)
      else if p_tcb = None \<and> OSRunning s \<noteq> OS_STATE_OS_RUNNING then Some (OS_ERR_OS_NOT_RUNNING, s)
      else do {
        let p_tcb = self_or p_tcb s;
        s \<leftarrow> set_tcb p_tcb (\<lambda>t. t\<lparr>BasePrio := prio_new\<rparr>) s;
        t \<leftarrow> tcb s p_tcb;
        prio_new \<leftarrow>
          (if MutexGrpHeadPtr t \<noteq> None \<and> prio_new > Prio t then do {
             prio_high \<leftarrow> OS_MutexGrpPrioFindHighest p_tcb s;
             Some (if prio_new > prio_high then prio_high else prio_new)
           } else Some prio_new);
        s \<leftarrow> OS_TaskChangePrio p_tcb prio_new s;
        s \<leftarrow> (if OSRunning s = OS_STATE_OS_RUNNING then OSSched s else Some s);
        Some (OS_ERR_NONE, s)
      })"

definition OSTaskTimeQuantaSet :: "ptr \<Rightarrow> u32 \<Rightarrow> kernel \<Rightarrow> (OS_ERR \<times> kernel) option" where
  "OSTaskTimeQuantaSet p_tcb time_quanta s =
     (if OSIntNestingCtr s > 0 then Some (OS_ERR_SET_ISR, s)
      else do {
        let p_tcb = self_or p_tcb s;
        s \<leftarrow> set_tcb p_tcb (\<lambda>t. t\<lparr>TimeQuanta :=
               (if time_quanta = 0 then OSSchedRoundRobinDfltTimeQuanta s else time_quanta)\<rparr>) s;
        s \<leftarrow> set_tcb p_tcb (\<lambda>t. if TimeQuanta t > TimeQuantaCtr t then t\<lparr>TimeQuantaCtr := TimeQuanta t\<rparr> else t) s;
        Some (OS_ERR_NONE, s)
      })"

section \<open>Suspension\<close>

definition OSTaskSuspend :: "ptr \<Rightarrow> kernel \<Rightarrow> (OS_ERR \<times> kernel) option" where
  "OSTaskSuspend p_tcb s =
     (if OSIntNestingCtr s > 0 then Some (OS_ERR_TASK_SUSPEND_ISR, s)
      else if p_tcb = Some OSIdleTaskTCB then Some (OS_ERR_TASK_SUSPEND_IDLE, s)
      else if p_tcb = None \<and> OSRunning s \<noteq> OS_STATE_OS_RUNNING then Some (OS_ERR_OS_NOT_RUNNING, s)
      else do {
        let p_tcb = self_or p_tcb s;
        if p_tcb = OSTCBCurPtr s \<and> OSSchedLockNestingCtr s > 0 then Some (OS_ERR_SCHED_LOCKED, s)
        else do {
          t \<leftarrow> tcb s p_tcb;
          let suspend = (\<lambda>st s. do {
                s \<leftarrow> set_tcb p_tcb (\<lambda>t. t\<lparr>TaskState := st\<rparr>) s;
                set_tcb p_tcb (\<lambda>t. t\<lparr>SuspendCtr := 1\<rparr>) s });
          (err, s) \<leftarrow>
            (case TaskState t of
               OS_TASK_STATE_RDY \<Rightarrow> do {
                 s \<leftarrow> suspend OS_TASK_STATE_SUSPENDED s;
                 s \<leftarrow> OS_RdyListRemove p_tcb s;
                 Some (OS_ERR_NONE, s)
               }
             | OS_TASK_STATE_DLY \<Rightarrow> do { s \<leftarrow> suspend OS_TASK_STATE_DLY_SUSPENDED s; Some (OS_ERR_NONE, s) }
             | OS_TASK_STATE_PEND \<Rightarrow> do { s \<leftarrow> suspend OS_TASK_STATE_PEND_SUSPENDED s; Some (OS_ERR_NONE, s) }
             | OS_TASK_STATE_PEND_TIMEOUT \<Rightarrow>
                 do { s \<leftarrow> suspend OS_TASK_STATE_PEND_TIMEOUT_SUSPENDED s; Some (OS_ERR_NONE, s) }
             | OS_TASK_STATE_DEL \<Rightarrow> Some (OS_ERR_STATE_INVALID, s)
             | _ \<Rightarrow>
                 if SuspendCtr t = -1 then Some (OS_ERR_TASK_SUSPEND_CTR_OVF, s)
                 else do { s \<leftarrow> set_tcb p_tcb (\<lambda>t. t\<lparr>SuspendCtr := SuspendCtr t + 1\<rparr>) s; Some (OS_ERR_NONE, s) });
          if err \<noteq> OS_ERR_NONE then Some (err, s)
          else do {
            s \<leftarrow> (if OSRunning s = OS_STATE_OS_RUNNING then OSSched s else Some s);
            Some (OS_ERR_NONE, s)
          }
        }
      })"

definition OSTaskResume :: "ptr \<Rightarrow> kernel \<Rightarrow> (OS_ERR \<times> kernel) option" where
  "OSTaskResume p_tcb s =
     (if OSIntNestingCtr s > 0 then Some (OS_ERR_TASK_RESUME_ISR, s)
      else if OSRunning s \<noteq> OS_STATE_OS_RUNNING then Some (OS_ERR_OS_NOT_RUNNING, s)
      else if p_tcb = None \<or> p_tcb = OSTCBCurPtr s then Some (OS_ERR_TASK_RESUME_SELF, s)
      else do {
        t \<leftarrow> tcb s p_tcb;
        let resume = (\<lambda>st. do {
              s \<leftarrow> set_tcb p_tcb (\<lambda>t. t\<lparr>SuspendCtr := SuspendCtr t - 1\<rparr>) s;
              t \<leftarrow> tcb s p_tcb;
              if SuspendCtr t = 0 then do {
                s \<leftarrow> set_tcb p_tcb (\<lambda>t. t\<lparr>TaskState := st\<rparr>) s;
                if st = OS_TASK_STATE_RDY then OS_RdyListInsert p_tcb s else Some s
              } else Some s });
        (err, s) \<leftarrow>
          (case TaskState t of
             OS_TASK_STATE_SUSPENDED \<Rightarrow> do { s \<leftarrow> resume OS_TASK_STATE_RDY; Some (OS_ERR_NONE, s) }
           | OS_TASK_STATE_DLY_SUSPENDED \<Rightarrow> do { s \<leftarrow> resume OS_TASK_STATE_DLY; Some (OS_ERR_NONE, s) }
           | OS_TASK_STATE_PEND_SUSPENDED \<Rightarrow> do { s \<leftarrow> resume OS_TASK_STATE_PEND; Some (OS_ERR_NONE, s) }
           | OS_TASK_STATE_PEND_TIMEOUT_SUSPENDED \<Rightarrow>
               do { s \<leftarrow> resume OS_TASK_STATE_PEND_TIMEOUT; Some (OS_ERR_NONE, s) }
           | OS_TASK_STATE_DEL \<Rightarrow> Some (OS_ERR_STATE_INVALID, s)
           | _ \<Rightarrow> Some (OS_ERR_TASK_NOT_SUSPENDED, s));
        if err \<noteq> OS_ERR_NONE then Some (err, s)
        else do { s \<leftarrow> OSSched s; Some (OS_ERR_NONE, s) }
      })"

section \<open>The semaphore of a task\<close>

type_synonym task_sem_result = "u32 \<times> u32 option \<times> OS_ERR"

definition OSTaskSemPend :: "u32 \<Rightarrow> OS_OPT \<Rightarrow> kernel \<Rightarrow> (task_sem_result pend_outcome \<times> kernel) option" where
  "OSTaskSemPend timeout opt s =
     (if OSIntNestingCtr s > 0 then Some (Done (0, None, OS_ERR_PEND_ISR), s)
      else if OSRunning s \<noteq> OS_STATE_OS_RUNNING then Some (Done (0, None, OS_ERR_OS_NOT_RUNNING), s)
      else if opt \<notin> {OS_OPT_PEND_BLOCKING, OS_OPT_PEND_NON_BLOCKING}
      then Some (Done (0, None, OS_ERR_OPT_INVALID), s)
      else do {
        t \<leftarrow> tcb s (OSTCBCurPtr s);
        if SemCtr t > 0 then do {
          s \<leftarrow> set_tcb (OSTCBCurPtr s) (\<lambda>t. t\<lparr>SemCtr := SemCtr t - 1\<rparr>) s;
          t \<leftarrow> tcb s (OSTCBCurPtr s);
          Some (Done (SemCtr t, Some (Tcb_TS t), OS_ERR_NONE), s)
        } else if opt AND OS_OPT_PEND_NON_BLOCKING \<noteq> 0
        then Some (Done (0, Some 0, OS_ERR_PEND_WOULD_BLOCK), s)
        else if OSSchedLockNestingCtr s > 0 then Some (Done (0, Some 0, OS_ERR_SCHED_LOCKED), s)
        else do {
          s \<leftarrow> OS_Pend None (OSTCBCurPtr s) OS_TASK_PEND_ON_TASK_SEM timeout s;
          s \<leftarrow> OSSched s;
          Some (Blocked, s)
        }
      })"

definition OSTaskSemPend_resume :: "kernel \<Rightarrow> task_sem_result option" where
  "OSTaskSemPend_resume s = do {
     t \<leftarrow> tcb s (OSTCBCurPtr s);
     Some (case PendStatus t of
        OS_STATUS_PEND_OK \<Rightarrow> (SemCtr t, Some (Tcb_TS t), OS_ERR_NONE)
      | OS_STATUS_PEND_ABORT \<Rightarrow> (SemCtr t, Some (Tcb_TS t), OS_ERR_PEND_ABORT)
      | OS_STATUS_PEND_TIMEOUT \<Rightarrow> (SemCtr t, Some 0, OS_ERR_TIMEOUT)
      | OS_STATUS_PEND_DEL \<Rightarrow> (SemCtr t, None, OS_ERR_STATUS_INVALID))
   }"

definition task_pend_abort :: "pend_on \<Rightarrow> ptr \<Rightarrow> OS_OPT \<Rightarrow> u32 \<Rightarrow> kernel \<Rightarrow> (bool \<times> OS_ERR \<times> kernel) option" where
  "task_pend_abort po p_tcb opt ts s =
     (if OSIntNestingCtr s > 0 then Some (False, OS_ERR_PEND_ABORT_ISR, s)
      else if OSRunning s \<noteq> OS_STATE_OS_RUNNING then Some (False, OS_ERR_OS_NOT_RUNNING, s)
      else if opt \<notin> {OS_OPT_POST_NONE, OS_OPT_POST_NO_SCHED} then Some (False, OS_ERR_OPT_INVALID, s)
      else if p_tcb = None \<or> p_tcb = OSTCBCurPtr s then Some (False, OS_ERR_PEND_ABORT_SELF, s)
      else do {
        t \<leftarrow> tcb s p_tcb;
        if PendOn t \<noteq> po then Some (False, OS_ERR_PEND_ABORT_NONE, s)
        else do {
          s \<leftarrow> OS_PendAbort p_tcb ts OS_STATUS_PEND_ABORT s;
          s \<leftarrow> (if opt AND OS_OPT_POST_NO_SCHED = 0 then OSSched s else Some s);
          Some (True, OS_ERR_NONE, s)
        }
      })"

definition OSTaskSemPendAbort :: "ptr \<Rightarrow> OS_OPT \<Rightarrow> u32 \<Rightarrow> kernel \<Rightarrow> (bool \<times> OS_ERR \<times> kernel) option" where
  "OSTaskSemPendAbort = task_pend_abort OS_TASK_PEND_ON_TASK_SEM"

text \<open>The counter of a task goes up by one, unless it is full.\<close>

definition task_sem_up :: "ptr \<Rightarrow> kernel \<Rightarrow> (u32 \<times> OS_ERR \<times> kernel) option" where
  "task_sem_up p_tcb s = do {
     t \<leftarrow> tcb s p_tcb;
     if SemCtr t = -1 then Some (0, OS_ERR_SEM_OVF, s)
     else do {
       s \<leftarrow> set_tcb p_tcb (\<lambda>t. t\<lparr>SemCtr := SemCtr t + 1\<rparr>) s;
       t \<leftarrow> tcb s p_tcb;
       Some (SemCtr t, OS_ERR_NONE, s)
     }
   }"

definition OSTaskSemPost :: "ptr \<Rightarrow> OS_OPT \<Rightarrow> u32 \<Rightarrow> kernel \<Rightarrow> (u32 \<times> OS_ERR \<times> kernel) option" where
  "OSTaskSemPost p_tcb opt ts s =
     (if OSRunning s \<noteq> OS_STATE_OS_RUNNING then Some (0, OS_ERR_OS_NOT_RUNNING, s)
      else if opt \<notin> {OS_OPT_POST_NONE, OS_OPT_POST_NO_SCHED} then Some (0, OS_ERR_OPT_INVALID, s)
      else do {
        let p_tcb = self_or p_tcb s;
        s \<leftarrow> set_tcb p_tcb (\<lambda>t. t\<lparr>Tcb_TS := ts\<rparr>) s;
        t \<leftarrow> tcb s p_tcb;
        if TaskState t = OS_TASK_STATE_DEL then Some (0, OS_ERR_STATE_INVALID, s)
        else if TaskState t \<in> {OS_TASK_STATE_PEND, OS_TASK_STATE_PEND_TIMEOUT, OS_TASK_STATE_PEND_SUSPENDED,
            OS_TASK_STATE_PEND_TIMEOUT_SUSPENDED} \<and> PendOn t = OS_TASK_PEND_ON_TASK_SEM
        then do {
          s \<leftarrow> OS_Post None p_tcb None 0 ts s;
          t \<leftarrow> tcb s p_tcb;
          let ctr = SemCtr t;
          s \<leftarrow> (if opt AND OS_OPT_POST_NO_SCHED = 0 then OSSched s else Some s);
          Some (ctr, OS_ERR_NONE, s)
        } else task_sem_up p_tcb s
      })"

definition OSTaskSemSet :: "ptr \<Rightarrow> u32 \<Rightarrow> kernel \<Rightarrow> (u32 \<times> OS_ERR \<times> kernel) option" where
  "OSTaskSemSet p_tcb cnt s =
     (if OSIntNestingCtr s > 0 then Some (0, OS_ERR_SET_ISR, s)
      else do {
        let p_tcb = self_or p_tcb s;
        t \<leftarrow> tcb s p_tcb;
        if TaskState t \<in> {OS_TASK_STATE_PEND, OS_TASK_STATE_PEND_TIMEOUT, OS_TASK_STATE_PEND_SUSPENDED,
            OS_TASK_STATE_PEND_TIMEOUT_SUSPENDED} \<and> PendOn t = OS_TASK_PEND_ON_TASK_SEM
        then Some (0, OS_ERR_TASK_WAITING, s)
        else do {
          s \<leftarrow> set_tcb p_tcb (\<lambda>t. t\<lparr>SemCtr := cnt\<rparr>) s;
          Some (SemCtr t, OS_ERR_NONE, s)
        }
      })"

section \<open>The message queue of a task\<close>

type_synonym task_q_result = "ptr \<times> u16 option \<times> u32 option \<times> OS_ERR"

definition OSTaskQFlush :: "ptr \<Rightarrow> kernel \<Rightarrow> (u16 \<times> OS_ERR \<times> kernel) option" where
  "OSTaskQFlush p_tcb s =
     (if OSIntNestingCtr s > 0 then Some (0, OS_ERR_FLUSH_ISR, s)
      else if OSRunning s \<noteq> OS_STATE_OS_RUNNING then Some (0, OS_ERR_OS_NOT_RUNNING, s)
      else do {
        let p_tcb = self_or p_tcb s;
        t \<leftarrow> tcb s p_tcb;
        (entries, q, s) \<leftarrow> OS_MsgQFreeAll (MsgQ t) s;
        s \<leftarrow> set_tcb p_tcb (\<lambda>t. t\<lparr>MsgQ := q\<rparr>) s;
        Some (entries, OS_ERR_NONE, s)
      })"

definition OSTaskQPend :: "u32 \<Rightarrow> OS_OPT \<Rightarrow> ptr \<Rightarrow> kernel \<Rightarrow> (task_q_result pend_outcome \<times> kernel) option" where
  "OSTaskQPend timeout opt p_msg_size s =
     (if OSIntNestingCtr s > 0 then Some (Done (None, None, None, OS_ERR_PEND_ISR), s)
      else if OSRunning s \<noteq> OS_STATE_OS_RUNNING then Some (Done (None, None, None, OS_ERR_OS_NOT_RUNNING), s)
      else if p_msg_size = None then Some (Done (None, None, None, OS_ERR_PTR_INVALID), s)
      else if opt \<notin> {OS_OPT_PEND_BLOCKING, OS_OPT_PEND_NON_BLOCKING}
      then Some (Done (None, None, None, OS_ERR_OPT_INVALID), s)
      else do {
        t \<leftarrow> tcb s (OSTCBCurPtr s);
        (err, (p_void, msg_size, p_ts), q, s) \<leftarrow> OS_MsgQGet (MsgQ t) s;
        s \<leftarrow> set_tcb (OSTCBCurPtr s) (\<lambda>t. t\<lparr>MsgQ := q\<rparr>) s;
        if err = OS_ERR_NONE then Some (Done (p_void, Some msg_size, Some p_ts, OS_ERR_NONE), s)
        else if opt AND OS_OPT_PEND_NON_BLOCKING \<noteq> 0
        then Some (Done (None, Some msg_size, Some p_ts, OS_ERR_PEND_WOULD_BLOCK), s)
        else if OSSchedLockNestingCtr s > 0
        then Some (Done (None, Some msg_size, Some p_ts, OS_ERR_SCHED_LOCKED), s)
        else do {
          s \<leftarrow> OS_Pend None (OSTCBCurPtr s) OS_TASK_PEND_ON_TASK_Q timeout s;
          s \<leftarrow> OSSched s;
          Some (Blocked, s)
        }
      })"

text \<open>A wait that ends with any other status than OK or ABORT is reported as timed out.\<close>

definition OSTaskQPend_resume :: "kernel \<Rightarrow> task_q_result option" where
  "OSTaskQPend_resume s = do {
     t \<leftarrow> tcb s (OSTCBCurPtr s);
     Some (case PendStatus t of
        OS_STATUS_PEND_OK \<Rightarrow> (MsgPtr t, Some (MsgSize t), Some (Tcb_TS t), OS_ERR_NONE)
      | OS_STATUS_PEND_ABORT \<Rightarrow> (None, Some 0, Some 0, OS_ERR_PEND_ABORT)
      | _ \<Rightarrow> (None, Some 0, Some (Tcb_TS t), OS_ERR_TIMEOUT))
   }"

definition OSTaskQPendAbort :: "ptr \<Rightarrow> OS_OPT \<Rightarrow> u32 \<Rightarrow> kernel \<Rightarrow> (bool \<times> OS_ERR \<times> kernel) option" where
  "OSTaskQPendAbort = task_pend_abort OS_TASK_PEND_ON_TASK_Q"

definition OSTaskQPost :: "ptr \<Rightarrow> ptr \<Rightarrow> u16 \<Rightarrow> OS_OPT \<Rightarrow> u32 \<Rightarrow> kernel \<Rightarrow> (OS_ERR \<times> kernel) option" where
  "OSTaskQPost p_tcb p_void msg_size opt ts s =
     (if OSRunning s \<noteq> OS_STATE_OS_RUNNING then Some (OS_ERR_OS_NOT_RUNNING, s)
      else if opt \<notin> {OS_OPT_POST_FIFO, OS_OPT_POST_LIFO, OS_OPT_POST_FIFO OR OS_OPT_POST_NO_SCHED,
          OS_OPT_POST_LIFO OR OS_OPT_POST_NO_SCHED} then Some (OS_ERR_OPT_INVALID, s)
      else do {
        let p_tcb = self_or p_tcb s;
        t \<leftarrow> tcb s p_tcb;
        if TaskState t = OS_TASK_STATE_DEL then Some (OS_ERR_STATE_INVALID, s)
        else if TaskState t \<in> {OS_TASK_STATE_PEND, OS_TASK_STATE_PEND_TIMEOUT, OS_TASK_STATE_PEND_SUSPENDED,
            OS_TASK_STATE_PEND_TIMEOUT_SUSPENDED} \<and> PendOn t = OS_TASK_PEND_ON_TASK_Q
        then do {
          s \<leftarrow> OS_Post None p_tcb p_void msg_size ts s;
          s \<leftarrow> (if opt AND OS_OPT_POST_NO_SCHED = 0 then OSSched s else Some s);
          Some (OS_ERR_NONE, s)
        } else do {
          (err, q, s) \<leftarrow> OS_MsgQPut (MsgQ t) p_void msg_size opt ts s;
          s \<leftarrow> set_tcb p_tcb (\<lambda>t. t\<lparr>MsgQ := q\<rparr>) s;
          Some (err, s)
        }
      })"

section \<open>Task registers\<close>

definition OS_CFG_TASK_REG_TBL_SIZE :: u8 where "OS_CFG_TASK_REG_TBL_SIZE = 1"

definition OSTaskRegGet :: "ptr \<Rightarrow> u8 \<Rightarrow> kernel \<Rightarrow> (u32 \<times> OS_ERR) option" where
  "OSTaskRegGet p_tcb rid s =
     (if rid \<ge> OS_CFG_TASK_REG_TBL_SIZE then Some (0, OS_ERR_REG_ID_INVALID)
      else do {
        t \<leftarrow> tcb s (self_or p_tcb s);
        if unat rid < length (RegTbl t) then Some (RegTbl t ! unat rid, OS_ERR_NONE) else None
      })"

definition OSTaskRegGetID :: "kernel \<Rightarrow> u8 \<times> OS_ERR \<times> kernel" where
  "OSTaskRegGetID s =
     (if OSTaskRegNextAvailID s \<ge> OS_CFG_TASK_REG_TBL_SIZE
      then (OS_CFG_TASK_REG_TBL_SIZE, OS_ERR_NO_MORE_ID_AVAIL, s)
      else (OSTaskRegNextAvailID s, OS_ERR_NONE, s\<lparr>OSTaskRegNextAvailID := OSTaskRegNextAvailID s + 1\<rparr>))"

definition OSTaskRegSet :: "ptr \<Rightarrow> u8 \<Rightarrow> u32 \<Rightarrow> kernel \<Rightarrow> (OS_ERR \<times> kernel) option" where
  "OSTaskRegSet p_tcb rid value s =
     (if rid \<ge> OS_CFG_TASK_REG_TBL_SIZE then Some (OS_ERR_REG_ID_INVALID, s)
      else do {
        t \<leftarrow> tcb s (self_or p_tcb s);
        if unat rid < length (RegTbl t) then do {
          s \<leftarrow> set_tcb (self_or p_tcb s) (\<lambda>t. t\<lparr>RegTbl := (RegTbl t)[unat rid := value]\<rparr>) s;
          Some (OS_ERR_NONE, s)
        } else None
      })"
section \<open>Creation\<close>

definition OS_TaskDbgListAdd :: "ptr \<Rightarrow> kernel \<Rightarrow> kernel option" where
  "OS_TaskDbgListAdd p_tcb s = do {
     s \<leftarrow> set_tcb p_tcb (\<lambda>t. t\<lparr>Tcb_DbgPrevPtr := None\<rparr>) s;
     s \<leftarrow>
       (if OSTaskDbgListPtr s = None then set_tcb p_tcb (\<lambda>t. t\<lparr>Tcb_DbgNextPtr := None\<rparr>) s
        else do {
          s \<leftarrow> set_tcb p_tcb (\<lambda>t. t\<lparr>Tcb_DbgNextPtr := OSTaskDbgListPtr s\<rparr>) s;
          set_tcb (OSTaskDbgListPtr s) (\<lambda>t. t\<lparr>Tcb_DbgPrevPtr := p_tcb\<rparr>) s
        });
     Some (s\<lparr>OSTaskDbgListPtr := p_tcb\<rparr>)
   }"

definition OS_TaskDbgListRemove :: "ptr \<Rightarrow> kernel \<Rightarrow> kernel option" where
  "OS_TaskDbgListRemove p_tcb s = do {
     t \<leftarrow> tcb s p_tcb;
     let p_tcb_prev = Tcb_DbgPrevPtr t;
     let p_tcb_next = Tcb_DbgNextPtr t;
     if p_tcb_prev = None then do {
       let s = s\<lparr>OSTaskDbgListPtr := p_tcb_next\<rparr>;
       s \<leftarrow> (if p_tcb_next \<noteq> None then set_tcb p_tcb_next (\<lambda>t. t\<lparr>Tcb_DbgPrevPtr := None\<rparr>) s else Some s);
       set_tcb p_tcb (\<lambda>t. t\<lparr>Tcb_DbgNextPtr := None\<rparr>) s
     } else if p_tcb_next = None then do {
       s \<leftarrow> set_tcb p_tcb_prev (\<lambda>t. t\<lparr>Tcb_DbgNextPtr := None\<rparr>) s;
       set_tcb p_tcb (\<lambda>t. t\<lparr>Tcb_DbgPrevPtr := None\<rparr>) s
     } else do {
       s \<leftarrow> set_tcb p_tcb_prev (\<lambda>t. t\<lparr>Tcb_DbgNextPtr := p_tcb_next\<rparr>) s;
       s \<leftarrow> set_tcb p_tcb_next (\<lambda>t. t\<lparr>Tcb_DbgPrevPtr := p_tcb_prev\<rparr>) s;
       s \<leftarrow> set_tcb p_tcb (\<lambda>t. t\<lparr>Tcb_DbgNextPtr := None\<rparr>) s;
       set_tcb p_tcb (\<lambda>t. t\<lparr>Tcb_DbgPrevPtr := None\<rparr>) s
     }
   }"

definition OS_TaskInit :: "kernel \<Rightarrow> OS_ERR \<times> kernel" where
  "OS_TaskInit s = (OS_ERR_NONE, s\<lparr>OSTaskDbgListPtr := None, OSTaskQty := 0, OSTaskCtxSwCtr := 0\<rparr>)"

text \<open>All fields of the control block get their first values.\<close>

definition init_tcb :: "OS_TCB \<Rightarrow> OS_TCB" where
  "init_tcb t = t\<lparr>StkPtr := 0, StkLimitPtr := 0, ExtPtr := None, NextPtr := None, PrevPtr := None,
     TickNextPtr := None, TickPrevPtr := None, NamePtr := ''?Task'', StkBasePtr := 0, TaskEntryAddr := 0,
     TaskEntryArg := 0, Tcb_TS := 0, MsgPtr := None, MsgSize := 0, MsgQ := OS_MsgQInit 0 (MsgQ t),
     FlagsPend := 0, FlagsOpt := 0, FlagsRdy := 0, RegTbl := replicate (unat OS_CFG_TASK_REG_TBL_SIZE) 0,
     SemCtr := 0, StkSize := 0, SuspendCtr := 0, Tcb_Opt := 0, TickRemain := 0, TickCtrPrev := 0,
     TimeQuanta := 0, TimeQuantaCtr := 0, CtxSwCtr := 0, PendNextPtr := None, PendPrevPtr := None,
     PendObjPtr := None, PendOn := OS_TASK_PEND_ON_NOTHING, PendStatus := OS_STATUS_PEND_OK,
     TaskState := OS_TASK_STATE_RDY, Prio := OS_PRIO_INIT, BasePrio := OS_PRIO_INIT, MutexGrpHeadPtr := None,
     Tcb_DbgPrevPtr := None, Tcb_DbgNextPtr := None, Tcb_DbgNamePtr := '' ''\<rparr>"

definition OS_TaskInitTCB :: "ptr \<Rightarrow> kernel \<Rightarrow> kernel option" where
  "OS_TaskInitTCB p_tcb s = set_tcb p_tcb init_tcb s"

text \<open>The arguments of \<open>OSTaskCreate\<close>; addresses of code and stack are words, zero is the null pointer.\<close>

record task_args =
  ta_name :: string
  ta_task :: u32
  ta_arg :: u32
  ta_prio :: u8
  ta_stk_base :: u32
  ta_stk_limit :: u32
  ta_stk_size :: u32
  ta_q_size :: u16
  ta_time_quanta :: u32
  ta_ext :: ptr
  ta_opt :: OS_OPT

definition OSCfg_StkSizeMin :: u32 where "OSCfg_StkSizeMin = 64"

definition clear_stack :: "u32 \<Rightarrow> u32 \<Rightarrow> mem \<Rightarrow> mem" where
  "clear_stack p_stk_base stk_size m = fold (\<lambda>i m. m(p_stk_base + 4 * of_nat i := 0)) [0..<unat stk_size] m"

text \<open>The values the new task gets in its control block.\<close>

definition create_tcb :: "task_args \<Rightarrow> u32 \<Rightarrow> u32 \<Rightarrow> OS_TCB \<Rightarrow> OS_TCB" where
  "create_tcb x p_sp dflt_quanta t = t\<lparr>TaskEntryAddr := ta_task x, TaskEntryArg := ta_arg x, NamePtr := ta_name x,
     Prio := ta_prio x, BasePrio := ta_prio x, StkPtr := p_sp, StkLimitPtr := ta_stk_base x + 4 * ta_stk_limit x,
     TimeQuanta := ta_time_quanta x,
     TimeQuantaCtr := (if ta_time_quanta x = 0 then dflt_quanta else ta_time_quanta x),
     ExtPtr := ta_ext x, StkBasePtr := ta_stk_base x, StkSize := ta_stk_size x, Tcb_Opt := ta_opt x,
     RegTbl := replicate (unat OS_CFG_TASK_REG_TBL_SIZE) 0, MsgQ := OS_MsgQInit (ta_q_size x) (MsgQ t)\<rparr>"

definition OSTaskCreate :: "u32 \<Rightarrow> ptr \<Rightarrow> task_args \<Rightarrow> kernel \<Rightarrow> (OS_ERR \<times> kernel) option" where
  "OSTaskCreate task_return p_tcb x s =
     (if OSIntNestingCtr s > 0 then Some (OS_ERR_TASK_CREATE_ISR, s)
      else if p_tcb = None then Some (OS_ERR_TCB_INVALID, s)
      else if ta_task x = 0 then Some (OS_ERR_TASK_INVALID, s)
      else if ta_stk_base x = 0 then Some (OS_ERR_STK_INVALID, s)
      else if ta_stk_size x < OSCfg_StkSizeMin then Some (OS_ERR_STK_SIZE_INVALID, s)
      else if ta_stk_limit x \<ge> ta_stk_size x then Some (OS_ERR_STK_LIMIT_INVALID, s)
      else if ta_prio x > of_nat (OS_CFG_PRIO_MAX - 2) \<and> ta_prio x \<noteq> of_nat (OS_CFG_PRIO_MAX - 1)
      then Some (OS_ERR_PRIO_INVALID, s)
      else if ta_prio x = of_nat (OS_CFG_PRIO_MAX - 1) \<and> p_tcb \<noteq> Some OSIdleTaskTCB
      then Some (OS_ERR_PRIO_INVALID, s)
      else do {
        s \<leftarrow> OS_TaskInitTCB p_tcb s;
        let m = (if ta_opt x AND OS_OPT_TASK_STK_CHK \<noteq> 0 \<or> ta_opt x AND OS_OPT_TASK_STK_CLR \<noteq> 0
                 then (if ta_opt x AND OS_OPT_TASK_STK_CLR \<noteq> 0
                       then clear_stack (ta_stk_base x) (ta_stk_size x) (OSStkMem s) else OSStkMem s)
                 else OSStkMem s);
        let (p_sp, m) = OSTaskStkInit task_return (ta_task x) (ta_arg x) (ta_stk_base x)
              (ta_stk_base x + 4 * ta_stk_limit x) (ta_stk_size x) m;
        let s = s\<lparr>OSStkMem := m\<rparr>;
        if p_sp < ta_stk_base x then Some (OS_ERR_STK_OVF, s)
        else do {
          let s = s\<lparr>OSStkMem := OS_TaskStkRedzoneInit (ta_stk_base x) (OSStkMem s)\<rparr>;
          s \<leftarrow> set_tcb p_tcb (create_tcb x p_sp (OSSchedRoundRobinDfltTimeQuanta s)) s;
          s \<leftarrow> OS_PrioInsert (ta_prio x) s;
          s \<leftarrow> OS_RdyListInsertTail p_tcb s;
          s \<leftarrow> OS_TaskDbgListAdd p_tcb s;
          let s = s\<lparr>OSTaskQty := OSTaskQty s + 1\<rparr>;
          if OSRunning s \<noteq> OS_STATE_OS_RUNNING then Some (OS_ERR_NONE, s)
          else do { s \<leftarrow> OSSched s; Some (OS_ERR_NONE, s) }
        }
      })"

section \<open>Deletion\<close>

text \<open>The task leaves the object it waits for; the priority it has lent to the owner of a mutex is
  taken back.\<close>

definition del_unpend :: "ptr \<Rightarrow> kernel \<Rightarrow> kernel option" where
  "del_unpend p_tcb s = do {
     t \<leftarrow> tcb s p_tcb;
     if PendOn t \<in> {OS_TASK_PEND_ON_FLAG, OS_TASK_PEND_ON_Q, OS_TASK_PEND_ON_SEM} then OS_PendListRemove p_tcb s
     else if PendOn t = OS_TASK_PEND_ON_MUTEX then do {
       m \<leftarrow> mutex s (PendObjPtr t);
       let p_tcb_owner = OwnerTCBPtr m;
       owner \<leftarrow> tcb s p_tcb_owner;
       s \<leftarrow> OS_PendListRemove p_tcb s;
       prio_new \<leftarrow>
         (if Prio owner \<noteq> BasePrio owner \<and> Prio owner = Prio t then do {
            hp \<leftarrow> OS_MutexGrpPrioFindHighest p_tcb_owner s;
            Some (if hp > BasePrio owner then BasePrio owner else hp)
          } else Some (Prio owner));
       s \<leftarrow> set_tcb p_tcb (\<lambda>t. t\<lparr>PendOn := OS_TASK_PEND_ON_NOTHING\<rparr>) s;
       if prio_new \<noteq> Prio owner then OS_TaskChangePrio p_tcb_owner prio_new s else Some s
     } else Some s
   }"

definition OSTaskDel :: "ptr \<Rightarrow> (nat \<Rightarrow> u32) \<Rightarrow> kernel \<Rightarrow> (OS_ERR \<times> kernel) option" where
  "OSTaskDel p_tcb ts s =
     (if OSIntNestingCtr s > 0 then Some (OS_ERR_TASK_DEL_ISR, s)
      else if OSRunning s \<noteq> OS_STATE_OS_RUNNING then Some (OS_ERR_OS_NOT_RUNNING, s)
      else if p_tcb = Some OSIdleTaskTCB then Some (OS_ERR_TASK_DEL_IDLE, s)
      else do {
        let p_tcb = self_or p_tcb s;
        t \<leftarrow> tcb s p_tcb;
        if TaskState t = OS_TASK_STATE_DEL then Some (OS_ERR_STATE_INVALID, s)
        else do {
          s \<leftarrow>
            (case TaskState t of
               OS_TASK_STATE_RDY \<Rightarrow> OS_RdyListRemove p_tcb s
             | OS_TASK_STATE_SUSPENDED \<Rightarrow> Some s
             | OS_TASK_STATE_DLY \<Rightarrow> OS_TickListRemove p_tcb s
             | OS_TASK_STATE_DLY_SUSPENDED \<Rightarrow> OS_TickListRemove p_tcb s
             | _ \<Rightarrow> do {
                 s \<leftarrow> del_unpend p_tcb s;
                 t \<leftarrow> tcb s p_tcb;
                 if TaskState t = OS_TASK_STATE_PEND_TIMEOUT \<or> TaskState t = OS_TASK_STATE_PEND_TIMEOUT_SUSPENDED
                 then OS_TickListRemove p_tcb s else Some s
               });
          t \<leftarrow> tcb s p_tcb;
          s \<leftarrow> (if MutexGrpHeadPtr t \<noteq> None then OS_MutexGrpPostAll p_tcb ts s else Some s);
          t \<leftarrow> tcb s p_tcb;
          (_, q, s) \<leftarrow> OS_MsgQFreeAll (MsgQ t) s;
          s \<leftarrow> set_tcb p_tcb (\<lambda>t. t\<lparr>MsgQ := q\<rparr>) s;
          s \<leftarrow> OS_TaskDbgListRemove p_tcb s;
          let s = s\<lparr>OSTaskQty := OSTaskQty s - 1\<rparr>;
          s \<leftarrow> set_tcb p_tcb (\<lambda>t. t\<lparr>TaskState := OS_TASK_STATE_DEL\<rparr>) s;
          s \<leftarrow> OSSched s;
          Some (OS_ERR_NONE, s)
        }
      })"

definition OS_TaskReturn :: "(nat \<Rightarrow> u32) \<Rightarrow> kernel \<Rightarrow> (OS_ERR \<times> kernel) option" where
  "OS_TaskReturn ts s = OSTaskDel None ts s"

end
