(* ===== verification/Task_Props.thy ===== *)
theory Task_Props
  imports Os_Task Prio_Inherit Demo_System
begin

text \<open>
  The properties of the task services: nested suspension, the task semaphore, the change of a
  priority, the creation and the deletion of tasks.
\<close>

section \<open>Suspension\<close>

text \<open>A suspension adds the SUSPENDED bit to the state and counts; the state underneath stays.\<close>

definition suspended :: "task_state \<Rightarrow> bool" where
  "suspended st \<longleftrightarrow> st \<in> {OS_TASK_STATE_SUSPENDED, OS_TASK_STATE_DLY_SUSPENDED, OS_TASK_STATE_PEND_SUSPENDED,
     OS_TASK_STATE_PEND_TIMEOUT_SUSPENDED}"

fun suspend_state :: "task_state \<Rightarrow> task_state" where
  "suspend_state OS_TASK_STATE_RDY = OS_TASK_STATE_SUSPENDED"
| "suspend_state OS_TASK_STATE_DLY = OS_TASK_STATE_DLY_SUSPENDED"
| "suspend_state OS_TASK_STATE_PEND = OS_TASK_STATE_PEND_SUSPENDED"
| "suspend_state OS_TASK_STATE_PEND_TIMEOUT = OS_TASK_STATE_PEND_TIMEOUT_SUSPENDED"
| "suspend_state st = st"

fun resume_state :: "task_state \<Rightarrow> task_state" where
  "resume_state OS_TASK_STATE_SUSPENDED = OS_TASK_STATE_RDY"
| "resume_state OS_TASK_STATE_DLY_SUSPENDED = OS_TASK_STATE_DLY"
| "resume_state OS_TASK_STATE_PEND_SUSPENDED = OS_TASK_STATE_PEND"
| "resume_state OS_TASK_STATE_PEND_TIMEOUT_SUSPENDED = OS_TASK_STATE_PEND_TIMEOUT"
| "resume_state st = st"

definition susp_count :: "OS_TCB \<Rightarrow> nat" where
  "susp_count t = (if suspended (TaskState t) then unat (SuspendCtr t) else 0)"

lemma suspend_state_props:
  "st \<noteq> OS_TASK_STATE_DEL \<Longrightarrow> suspended (suspend_state st)" "resume_state (suspend_state st) = resume_state st"
  "timed (suspend_state st) = timed st" "pending (suspend_state st) = pending st"
  "timed (resume_state st) = timed st" "pending (resume_state st) = pending st"
  "suspended st \<Longrightarrow> suspend_state st = st" "\<not> suspended (resume_state st)" "resume_state (resume_state st) = resume_state st"
  by (cases st; simp add: suspended_def timed_def pending_def)+

definition suspend_tcb :: "OS_TCB \<Rightarrow> OS_TCB" where
  "suspend_tcb t = t\<lparr>TaskState := suspend_state (TaskState t),
     SuspendCtr := (if suspended (TaskState t) then SuspendCtr t + 1 else 1)\<rparr>"

lemma suspend_stage:
  assumes K: "kinv s A R W T" and a: "a \<in> A"
    and nf: "suspended (TaskState (OSTCBs s a)) \<Longrightarrow> SuspendCtr (OSTCBs s a) \<noteq> -1"
  shows "\<exists>s1 s2. becomes a (suspend_tcb (OSTCBs s a)) s s2 A
      (if TaskState (OSTCBs s a) = OS_TASK_STATE_RDY then rdy_del s a R else R) W T \<and>
    s1 = put a suspend_tcb s \<and>
    (if TaskState (OSTCBs s a) = OS_TASK_STATE_RDY then OS_RdyListRemove (Some a) s1 else Some s1) = Some s2"
proof -
  let ?t = "OSTCBs s a" and ?q = "Prio (OSTCBs s a)"
  let ?c = "if suspended (TaskState ?t) then SuspendCtr ?t + 1 else 1"
  note ok = task_okD [OF K a]
  have D: "TaskState ?t \<noteq> OS_TASK_STATE_DEL" using kinvD(5) [OF K a] by (simp add: task_ok_def)
  have e: "put a suspend_tcb s = put a (SuspendCtr_update (\<lambda>_. ?c)) (put a (TaskState_update (\<lambda>_. suspend_state (TaskState ?t))) s)"
    by (simp add: put_def suspend_tcb_def)
  have S: "stage a s (suspend_tcb ?t) (put a suspend_tcb s) R W T (trem s)"
    unfolding e using stage_put [OF stage_put [OF stage_init [OF K, of a],
      of "TaskState_update (\<lambda>_. suspend_state (TaskState ?t))"], of "SuspendCtr_update (\<lambda>_. ?c)"]
    by (simp add: suspend_tcb_def)
  show ?thesis
  proof (cases "TaskState ?t = OS_TASK_STATE_RDY")
    case True
    then have "a \<in> set (R ?q)" using ok by simp
    from stage_rdy_rem [OF S this] obtain s2 where s2: "OS_RdyListRemove (Some a) (put a suspend_tcb s) = Some s2"
      "stage a s (suspend_tcb ?t) s2 (R(?q := remove1 a (R ?q))) W T (trem s)" .
    have del: "R(?q := remove1 a (R ?q)) = rdy_del s a R" by (simp add: rdy_del_def Let_def)
    have "becomes a (suspend_tcb ?t) s s2 A (R(?q := remove1 a (R ?q))) W T"
      by (rule stage_becomes [OF K a s2(2)])
        (use True ok D kinvD(3) [OF K] kinv_distinct(1) [OF K] in
          \<open>auto simp: suspend_tcb_def set_remove1_minus timed_def pending_def\<close>)
    with True s2(1) del show ?thesis by auto
  next
    case False
    then have nr: "suspend_state (TaskState ?t) \<noteq> OS_TASK_STATE_RDY" "suspend_state (TaskState ?t) \<noteq> OS_TASK_STATE_DEL"
      using D by (cases "TaskState ?t"; simp)+
    have "becomes a (suspend_tcb ?t) s (put a suspend_tcb s) A R W T"
      by (rule stage_becomes [OF K a S])
        (use False ok D kinvD(3) [OF K] nr in \<open>auto simp: suspend_tcb_def suspend_state_props\<close>)
    with False show ?thesis by auto
  qed
qed

lemma OSTaskSuspend_path:
  assumes K: "kinv s A R W T" and a: "a \<in> A" and idle: "a \<noteq> OSIdleTaskTCB"
    and nf: "suspended (TaskState (OSTCBs s a)) \<Longrightarrow> SuspendCtr (OSTCBs s a) \<noteq> -1"
    and g: "OSIntNestingCtr s = 0" "OSRunning s = OS_STATE_OS_RUNNING"
    and l: "OSTCBCurPtr s = Some a \<Longrightarrow> OSSchedLockNestingCtr s = 0"
  shows "\<exists>s2. becomes a (suspend_tcb (OSTCBs s a)) s s2 A
      (if TaskState (OSTCBs s a) = OS_TASK_STATE_RDY then rdy_del s a R else R) W T \<and>
    OSTaskSuspend (Some a) s = do { s' \<leftarrow> OSSched s2; Some (OS_ERR_NONE, s') }"
proof -
  from suspend_stage [OF K a nf] obtain s2 where s2: "becomes a (suspend_tcb (OSTCBs s a)) s s2 A
      (if TaskState (OSTCBs s a) = OS_TASK_STATE_RDY then rdy_del s a R else R) W T"
    "(if TaskState (OSTCBs s a) = OS_TASK_STATE_RDY then OS_RdyListRemove (Some a) (put a suspend_tcb s)
      else Some (put a suspend_tcb s)) = Some s2" by blast
  have r: "OSRunning s2 = OS_STATE_OS_RUNNING" using moved_sel(12) [OF becomesD(1) [OF s2(1)]] g by simp
  have D: "TaskState (OSTCBs s a) \<noteq> OS_TASK_STATE_DEL" using kinvD(5) [OF K a] by (simp add: task_ok_def)
  have e: "put a (SuspendCtr_update (\<lambda>_. 1)) (put a (TaskState_update (\<lambda>_. suspend_state (TaskState (OSTCBs s a)))) s)
      = put a suspend_tcb s" if "\<not> suspended (TaskState (OSTCBs s a))"
    using that by (simp add: put_def suspend_tcb_def)
  have e': "put a (\<lambda>t. t\<lparr>SuspendCtr := SuspendCtr t + 1\<rparr>) s = put a suspend_tcb s" if "suspended (TaskState (OSTCBs s a))"
    using that suspend_state_props(7) [OF that] by (simp add: put_def suspend_tcb_def)
  have hl: "\<not> (Some a = OSTCBCurPtr s \<and> 0 < OSSchedLockNestingCtr s)" using l by auto
  have "OSTaskSuspend (Some a) s = do { s' \<leftarrow> OSSched s2; Some (OS_ERR_NONE, s') }"
    using g idle D s2(2) hl r nf e e'
    by (cases "TaskState (OSTCBs s a)")
      (simp_all add: OSTaskSuspend_def self_or_def set_tcb_put suspended_def Let_def, blast+)
  with s2(1) show ?thesis by blast
qed

text \<open>\<open>OSTaskSuspend\<close> implements a nested suspension: the count of suspensions of the task goes up
  by one whatever the task was doing, what it waits for stays as it is, it is on no ready list,
  and it is not the task that runs when the scheduler is not locked.\<close>

theorem OSTaskSuspend_refines:
  assumes K: "kinv s A R W T" and a: "a \<in> A" and idle: "a \<noteq> OSIdleTaskTCB"
    and nf: "suspended (TaskState (OSTCBs s a)) \<Longrightarrow> SuspendCtr (OSTCBs s a) \<noteq> -1"
    and g: "OSIntNestingCtr s = 0" "OSRunning s = OS_STATE_OS_RUNNING"
    and l: "OSSchedLockNestingCtr s = 0" and ne: "rdy_del s a R q \<noteq> []"
  shows "\<exists>s' R'. OSTaskSuspend (Some a) s = Some (OS_ERR_NONE, s') \<and> kinv s' A R' W T \<and> (\<forall>p. a \<notin> set (R' p)) \<and>
    OSTCBCurPtr s' \<noteq> Some a \<and> suspended (TaskState (OSTCBs s' a)) \<and>
    resume_state (TaskState (OSTCBs s' a)) = resume_state (TaskState (OSTCBs s a)) \<and>
    susp_count (OSTCBs s' a) = Suc (susp_count (OSTCBs s a))"
proof -
  let ?R = "if TaskState (OSTCBs s a) = OS_TASK_STATE_RDY then rdy_del s a R else R"
  have D: "TaskState (OSTCBs s a) \<noteq> OS_TASK_STATE_DEL" using kinvD(5) [OF K a] by (simp add: task_ok_def)
  from OSTaskSuspend_path [OF K a idle nf g l] obtain s2 where
    s2: "becomes a (suspend_tcb (OSTCBs s a)) s s2 A ?R W T"
    "OSTaskSuspend (Some a) s = do { s' \<leftarrow> OSSched s2; Some (OS_ERR_NONE, s') }" by blast
  note B = becomesD [OF s2(1)] and M = moved_sel [OF becomesD(1) [OF s2(1)]]
  have "?R q \<noteq> []" using ne by (auto simp: rdy_del_def Let_def split: if_splits)
  from OSSched_spec [OF B(3) this] M(12-14) g l obtain s' x where
    x: "OSSched s2 = Some s'" "switched s2 s'" "most_urgent s2 ?R x" "OSTCBCurPtr s' = Some x" by auto
  have st: "TaskState (OSTCBs s2 a) = suspend_state (TaskState (OSTCBs s a))"
    "SuspendCtr (OSTCBs s2 a) = (if suspended (TaskState (OSTCBs s a)) then SuspendCtr (OSTCBs s a) + 1 else 1)"
    using core_eqI(1,16) [OF B(2)] by (simp_all add: suspend_tcb_def)
  have nr: "TaskState (OSTCBs s2 a) \<noteq> OS_TASK_STATE_RDY" using D st by (cases "TaskState (OSTCBs s a)") auto
  have nR: "a \<notin> set (?R p)" for p by (rule not_ready_anywhere [OF B(3) a nr])
  then have "x \<noteq> a" using x(3) by (auto simp: most_urgent_def) (metis list.set_intros(1))+
  moreover have "unat (SuspendCtr (OSTCBs s a) + 1) = Suc (unat (SuspendCtr (OSTCBs s a)))"
    if "suspended (TaskState (OSTCBs s a))" using nf [OF that] by (rule unat_succ)
  moreover have "SuspendCtr (OSTCBs s' a) = SuspendCtr (OSTCBs s2 a)" using x(2) by (auto simp: switched_def)
  ultimately show ?thesis
    using s2(2) x(1,4) st nR switched_kinv [OF x(2)] B(3) switched_sel(15) [OF x(2), of a] D
    by (intro exI [of _ s'] exI [of _ ?R]) (auto simp: suspend_state_props susp_count_def)
qed

theorem OSTaskSuspend_refines_witness:
  "\<exists>s' R'. OSTaskSuspend (Some 3) demo = Some (OS_ERR_NONE, s') \<and> kinv s' demo_A R' demo_W demo_T \<and>
     susp_count (OSTCBs s' 3) = 1"
proof -
  have d: "3 \<in> demo_A" "3 \<noteq> OSIdleTaskTCB" "OSIntNestingCtr demo = 0" "OSRunning demo = OS_STATE_OS_RUNNING"
    "OSSchedLockNestingCtr demo = 0" "rdy_del demo 3 demo_R 5 \<noteq> []" "susp_count (OSTCBs demo 3) = 0"
    "\<not> suspended (TaskState (OSTCBs demo 3))"
    by (simp_all add: demo_defs OSIdleTaskTCB_def rdy_del_def susp_count_def suspended_def Let_def)
  from OSTaskSuspend_refines [OF demo_kinv d(1,2) _ d(3-6)] d(7,8) show ?thesis by auto
qed

definition resume_tcb :: "OS_TCB \<Rightarrow> OS_TCB" where
  "resume_tcb t = t\<lparr>TaskState := (if SuspendCtr t = 1 then resume_state (TaskState t) else TaskState t),
     SuspendCtr := SuspendCtr t - 1\<rparr>"

definition resumed_ready :: "OS_TCB \<Rightarrow> bool" where
  "resumed_ready t \<longleftrightarrow> TaskState t = OS_TASK_STATE_SUSPENDED \<and> SuspendCtr t = 1"

lemma resume_stage:
  assumes K: "kinv s A R W T" and a: "a \<in> A" and su: "suspended (TaskState (OSTCBs s a))"
  shows "\<exists>s2. becomes a (resume_tcb (OSTCBs s a)) s s2 A (if resumed_ready (OSTCBs s a) then rdy_ins s a R else R) W T \<and>
    (if resumed_ready (OSTCBs s a) then OS_RdyListInsert (Some a) (put a resume_tcb s) else Some (put a resume_tcb s)) = Some s2"
proof -
  let ?t = "OSTCBs s a"
  let ?st = "if SuspendCtr ?t = 1 then resume_state (TaskState ?t) else TaskState ?t"
  note ok = task_okD [OF K a]
  have nr: "TaskState ?t \<noteq> OS_TASK_STATE_RDY" using su by (auto simp: suspended_def)
  have nR: "a \<notin> set (R p)" for p by (rule not_ready_anywhere [OF K a nr])
  have e: "put a resume_tcb s = put a (SuspendCtr_update (\<lambda>_. SuspendCtr ?t - 1)) (put a (TaskState_update (\<lambda>_. ?st)) s)"
    by (simp add: put_def resume_tcb_def)
  have S: "stage a s (resume_tcb ?t) (put a resume_tcb s) R W T (trem s)"
    unfolding e using stage_put [OF stage_put [OF stage_init [OF K, of a],
      of "TaskState_update (\<lambda>_. ?st)"], of "SuspendCtr_update (\<lambda>_. SuspendCtr ?t - 1)"]
    by (simp add: resume_tcb_def)
  obtain s2 where s2: "(if resumed_ready ?t then OS_RdyListInsert (Some a) (put a resume_tcb s) else Some (put a resume_tcb s)) = Some s2"
    and S2: "stage a s (resume_tcb ?t) s2 (if resumed_ready ?t then rdy_ins s a R else R) W T (trem s)"
    by (rule stage_make_ready [OF K a S _ nR]) (simp add: resume_tcb_def)
  have st: "?st \<noteq> OS_TASK_STATE_DEL" "timed ?st = timed (TaskState ?t)" "pending ?st = pending (TaskState ?t)"
    "?st = OS_TASK_STATE_RDY \<longleftrightarrow> resumed_ready ?t"
    using su by (auto simp: suspended_def resumed_ready_def suspend_state_props)
  have pr: "Prio (resume_tcb ?t) = Prio ?t" "PendObjPtr (resume_tcb ?t) = PendObjPtr ?t" "PendOn (resume_tcb ?t) = PendOn ?t"
    "TaskState (resume_tcb ?t) = ?st" by (simp_all add: resume_tcb_def)
  have "becomes a (resume_tcb ?t) s s2 A (if resumed_ready ?t then rdy_ins s a R else R) W T"
    by (rule stage_becomes [OF K a S2], unfold pr st)
      (use ok st(1) kinvD(3) [OF K] nR in_rdy_ins [of a s R] in \<open>auto simp: set_rdy_ins\<close>)
  with s2 show ?thesis by blast
qed

lemma OSTaskResume_path:
  assumes K: "kinv s A R W T" and a: "a \<in> A" and su: "suspended (TaskState (OSTCBs s a))"
    and ctr: "SuspendCtr (OSTCBs s a) > 0" and c: "OSTCBCurPtr s \<noteq> Some a"
    and g: "OSIntNestingCtr s = 0" "OSRunning s = OS_STATE_OS_RUNNING" and ne: "R q \<noteq> []"
  shows "\<exists>s2. becomes a (resume_tcb (OSTCBs s a)) s s2 A (if resumed_ready (OSTCBs s a) then rdy_ins s a R else R) W T \<and>
    OSTaskResume (Some a) s = do { s' \<leftarrow> OSSched s2; Some (OS_ERR_NONE, s') }"
proof -
  let ?t = "OSTCBs s a" and ?R = "if resumed_ready (OSTCBs s a) then rdy_ins s a R else R"
  from resume_stage [OF K a su] obtain s2 where s2: "becomes a (resume_tcb ?t) s s2 A ?R W T"
    "(if resumed_ready ?t then OS_RdyListInsert (Some a) (put a resume_tcb s) else Some (put a resume_tcb s)) = Some s2"
    by blast
  note B = becomesD [OF s2(1)]
  have z: "SuspendCtr ?t - 1 = 0 \<longleftrightarrow> SuspendCtr ?t = 1" by simp
  have e: "put a (TaskState_update (\<lambda>_. resume_state (TaskState ?t)))
      (put a (\<lambda>t. t\<lparr>SuspendCtr := SuspendCtr t - 1\<rparr>) s) = put a resume_tcb s" if "SuspendCtr ?t = 1"
    using that by (cases ?t) (simp add: put_def resume_tcb_def)
  have e': "put a (\<lambda>t. t\<lparr>SuspendCtr := SuspendCtr t - 1\<rparr>) s = put a resume_tcb s" if "SuspendCtr ?t \<noteq> 1"
    using that by (simp add: put_def resume_tcb_def)
  have "?R q \<noteq> []" using ne by (simp add: rdy_ins_def Let_def)
  from OSSched_returns [OF B(3) this] obtain s' where s': "OSSched s2 = Some s'" "switched s2 s'" by blast
  have z2: "SuspendCtr ?t \<noteq> 1 \<Longrightarrow> SuspendCtr (OSTCBs s2 a) \<noteq> 0"
    using core_eqI(16) [OF B(2)] z by (simp add: resume_tcb_def)
  have "OSTaskResume (Some a) s = Some (OS_ERR_NONE, s')"
    using su g c s2(2) s'(1) e e' z ctr z2
    by (cases "SuspendCtr ?t = 1"; cases "TaskState ?t")
      (simp_all add: OSTaskResume_def set_tcb_put suspended_def resumed_ready_def Let_def)
  with s'(1) s2(1) show ?thesis by auto
qed

text \<open>\<open>OSTaskResume\<close> implements the resumption of an abstract nested suspension: the count goes
  down by one, what the task waits for stays as it is, and the last resumption gives back the
  state the task had underneath (which on the way may have become ready).\<close>

theorem OSTaskResume_refines:
  assumes K: "kinv s A R W T" and a: "a \<in> A" and su: "suspended (TaskState (OSTCBs s a))"
    and ctr: "SuspendCtr (OSTCBs s a) > 0" and c: "OSTCBCurPtr s \<noteq> Some a"
    and g: "OSIntNestingCtr s = 0" "OSRunning s = OS_STATE_OS_RUNNING" and ne: "R q \<noteq> []"
  shows "\<exists>s' R'. OSTaskResume (Some a) s = Some (OS_ERR_NONE, s') \<and> kinv s' A R' W T \<and>
    Suc (susp_count (OSTCBs s' a)) = susp_count (OSTCBs s a) \<and>
    TaskState (OSTCBs s' a) = (if susp_count (OSTCBs s a) = 1 then resume_state (TaskState (OSTCBs s a))
      else TaskState (OSTCBs s a)) \<and>
    (a \<in> set (R' (Prio (OSTCBs s' a))) \<longleftrightarrow> TaskState (OSTCBs s' a) = OS_TASK_STATE_RDY)"
proof -
  let ?t = "OSTCBs s a" and ?R = "if resumed_ready (OSTCBs s a) then rdy_ins s a R else R"
  from OSTaskResume_path [where q = q, OF K a su ctr c g ne] obtain s2 where
    s2: "becomes a (resume_tcb ?t) s s2 A ?R W T" "OSTaskResume (Some a) s = do { s' \<leftarrow> OSSched s2; Some (OS_ERR_NONE, s') }"
    by blast
  note B = becomesD [OF s2(1)]
  obtain n where n: "unat (SuspendCtr ?t) = Suc n" using ctr by (metis not0_implies_Suc unat_eq_0 word_gt_0)
  note n1 = unat_pred [OF n]
  have z: "SuspendCtr ?t = 1 \<longleftrightarrow> n = 0" using n n1 by (auto simp: unat_eq_0 word_unat_eq_iff)
  have "?R q \<noteq> []" using ne by (simp add: rdy_ins_def Let_def)
  from OSSched_returns [OF B(3) this] obtain s' where s': "OSSched s2 = Some s'" "switched s2 s'" by blast
  moreover have st: "TaskState (OSTCBs s' a) = (if SuspendCtr ?t = 1 then resume_state (TaskState ?t) else TaskState ?t)"
    using core_eqI(1) [OF B(2)] switched_sel(15) [OF s'(2), of a] by (simp add: resume_tcb_def)
  moreover have "SuspendCtr (OSTCBs s' a) = SuspendCtr ?t - 1"
    using core_eqI(16) [OF B(2)] s'(2) by (auto simp: resume_tcb_def switched_def)
  moreover have K': "kinv s' A ?R W T" using switched_kinv [OF s'(2)] B(3) by simp
  ultimately show ?thesis using s2(2) su n n1 z task_okD(2) [OF K' a]
    by (intro exI [of _ s'] exI [of _ ?R]) (auto simp: susp_count_def suspend_state_props)
qed

text \<open>Task 5, which is delayed, has been suspended once.\<close>

theorem OSTaskResume_refines_witness:
  "\<exists>s'. OSTaskResume (Some 5) (put 5 (SuspendCtr_update (\<lambda>_. 1))
      (put 5 (TaskState_update (\<lambda>_. OS_TASK_STATE_DLY_SUSPENDED)) demo)) = Some (OS_ERR_NONE, s') \<and>
     TaskState (OSTCBs s' 5) = OS_TASK_STATE_DLY"
proof -
  let ?v = "put 5 (TaskState_update (\<lambda>_. OS_TASK_STATE_DLY_SUSPENDED)) demo"
  let ?s = "put 5 (SuspendCtr_update (\<lambda>_. 1)) ?v"
  have "TaskState (OSTCBs demo 5) = OS_TASK_STATE_DLY" by (simp add: demo_def demo_tcb_def blank_tcb_def)
  then have "kinv ?v demo_A demo_R demo_W demo_T"
    by (intro kinv_state [OF demo_kinv]) (simp_all add: timed_def pending_def)
  then have K: "kinv ?s demo_A demo_R demo_W demo_T" by (subst kinv_put) simp_all
  have d: "5 \<in> demo_A" "suspended (TaskState (OSTCBs ?s 5))" "SuspendCtr (OSTCBs ?s 5) > 0" "OSTCBCurPtr ?s \<noteq> Some 5"
    "OSIntNestingCtr ?s = 0" "OSRunning ?s = OS_STATE_OS_RUNNING" "demo_R 5 \<noteq> []" "susp_count (OSTCBs ?s 5) = 1"
    "TaskState (OSTCBs ?s 5) = OS_TASK_STATE_DLY_SUSPENDED"
    by (simp_all add: demo_A_def demo_R_def suspended_def susp_count_def) (simp_all add: demo_def)
  from OSTaskResume_refines [OF K d(1-7)] d(8,9) show ?thesis by auto
qed

section \<open>Priorities\<close>

text \<open>A fault of \<open>OSTaskChangePrio\<close>: when the running task raises its own priority and stays
  the most urgent task, \<open>OSPrioCur\<close> keeps its old priority. The next task that becomes ready with
  the same priority as the running one is then put before it on the ready list, not behind it, so
  it preempts a task of equal priority.\<close>

theorem OSTaskChangePrio_stale_OSPrioCur:
  assumes K: "kinv s A R W T" and c: "c \<in> A" and l: "task_level s c" and run: "running s c"
    and h: "MutexGrpHeadPtr (OSTCBs s c) = None" and p: "p < Prio (OSTCBs s c)"
    and top: "\<And>q. R q \<noteq> [] \<Longrightarrow> p < q"
  shows "\<exists>s' R'. OSTaskChangePrio None p s = Some (OS_ERR_NONE, s') \<and> kinv s' A R' W T \<and>
    OSTCBCurPtr s' = Some c \<and> Prio (OSTCBs s' c) = p \<and> R' p = [c] \<and> OSPrioCur s' = Prio (OSTCBs s c) \<and>
    \<not> running s' c \<and> (\<forall>x. Prio (OSTCBs s' x) = p \<longrightarrow> rdy_ins s' x R' p = [x, c])"
proof -
  let ?v = "put c (BasePrio_update (\<lambda>_. p)) s"
  have g: "OSRunning s = OS_STATE_OS_RUNNING" "OSIntNestingCtr s = 0" "OSSchedLockNestingCtr s = 0"
    "OSTCBCurPtr s = Some c" "TaskState (OSTCBs s c) = OS_TASK_STATE_RDY" using l by (simp_all add: task_level_def)
  have pc: "OSPrioCur s = Prio (OSTCBs s c)" using run by (simp add: running_def)
  have m: "unat (Prio (OSTCBs s c)) < OS_CFG_PRIO_MAX" "unat p < unat (Prio (OSTCBs s c))"
    using task_okD(1) [OF K c] p by (simp_all add: word_less_nat_alt)
  have K1: "kinv ?v A R W T" using K by (simp add: kinv_put)
  have rd: "TaskState (OSTCBs ?v c) = OS_TASK_STATE_RDY" "unat p < OS_CFG_PRIO_MAX" using g(5) m by simp_all
  from change_prio_ready [OF K1 c rd] obtain s1 where
    s1: "change_prio_round (Some c) p ?v = Some (None, p, s1)" "reprio c p ?v s1" "kinv s1 A (rdy_move ?v c p R) W T"
    by blast
  have e1: "OS_TaskChangePrio (Some c) p ?v = Some s1" using s1(1) by (subst OS_TaskChangePrio.simps) simp
  note rs = reprio_sel [OF s1(2)]
  have cp: "c \<in> set (R (Prio (OSTCBs s c)))" using task_okD(2) [OF K c] g(5) by simp
  have Rp: "R p = []" using top [of p] by auto
  let ?R = "rdy_move ?v c p R"
  have R': "?R p = [c]" using g(4) Rp p by (auto simp: rdy_move_def rdy_del_def Let_def)
  have mu: "most_urgent s1 ?R c"
  proof -
    have "p \<le> q" if "?R q \<noteq> []" for q
      using that top [of q] g(4) p by (auto simp: rdy_move_def rdy_del_def Let_def split: if_splits)
    then show ?thesis using R' rs(1) by (simp add: most_urgent_def)
  qed
  have "?R p \<noteq> []" using R' by simp
  from sched_select_urgent [OF kinvD(1) [OF s1(3)] this] obtain x where
    x: "sched_select s1 = Some (Prio (OSTCBs s1 x), Some x)" "most_urgent s1 ?R x" .
  have xc: "x = c" using most_urgent_unique [OF x(2) mu] .
  let ?s = "s1\<lparr>OSPrioHighRdy := p, OSTCBHighRdyPtr := Some c\<rparr>"
  note M = moved_sel [OF s1(2) [unfolded reprio_def, THEN conjunct1]]
  have "OSSched s1 = Some ?s"
    using x(1) M(8,12-14) g rs(1) by (simp add: OSSched_def sched_switch_def xc)
  moreover have "p < of_nat (OS_CFG_PRIO_MAX - 1)" using m by (simp add: word_less_nat_alt OS_CFG_PRIO_MAX_def)
  ultimately have "OSTaskChangePrio None p s = Some (OS_ERR_NONE, ?s)"
    using g h e1 M(12) by (simp add: OSTaskChangePrio_def self_or_def set_tcb_put not_le)
  moreover have "kinv ?s A ?R W T"
    using s1(3) by (subst kinv_cong [of ?s s1]) (simp_all, (rule rdy_rel_cong pend_lists_cong tick_lists_cong; simp)+)
  moreover have "OSPrioCur ?s = Prio (OSTCBs s c)" using M(9) pc by simp
  ultimately show ?thesis using R' rs(1,8) g(4) p
    by (intro exI [of _ ?s] exI [of _ ?R]) (auto simp: running_def rdy_ins_def Let_def)
qed

theorem OSTaskChangePrio_stale_OSPrioCur_witness:
  "\<exists>s' R'. OSTaskChangePrio None 3 (put 1 (MutexGrpHeadPtr_update (\<lambda>_. None)) demo) = Some (OS_ERR_NONE, s') \<and>
     OSTCBCurPtr s' = Some 1 \<and> Prio (OSTCBs s' 1) = 3 \<and> OSPrioCur s' = 5 \<and> R' 3 = [1] \<and> kinv s' demo_A R' demo_W demo_T"
proof -
  let ?s = "put 1 (MutexGrpHeadPtr_update (\<lambda>_. None)) demo"
  have K: "kinv ?s demo_A demo_R demo_W demo_T" using demo_kinv by (simp add: kinv_put)
  have d: "1 \<in> demo_A" "task_level ?s 1" "running ?s 1" "MutexGrpHeadPtr (OSTCBs ?s 1) = None" "Prio (OSTCBs ?s 1) = 5"
    "(3 :: u8) < Prio (OSTCBs ?s 1)" by (simp_all add: task_level_def running_def demo_defs put_def)
  have t: "\<And>q. demo_R q \<noteq> [] \<Longrightarrow> 3 < q" by (auto simp: demo_R_def split: if_splits)
  from OSTaskChangePrio_stale_OSPrioCur [OF K d(1-4,6) t] d(5) show ?thesis by auto
qed

section \<open>Creation\<close>

text \<open>A control block that no list reaches may be overwritten.\<close>

lemma fresh_put:
  assumes K: "kinv s A R W T" and a: "a \<notin> A"
  shows "kinv (put a f s) A R W T"
proof -
  let ?v = "put a f s"
  have nR: "a \<notin> set (R p)" and nW: "a \<notin> set (W b)" and nT: "a \<notin> set T" for p b
    using kinvD(6-8) [OF K] a by blast+
  have o: "c \<noteq> a \<Longrightarrow> OSTCBs ?v c = OSTCBs s c" for c by simp
  have n: "nxt ?v = (nxt s)(a := NextPtr (f (OSTCBs s a)))" "prv ?v = (prv s)(a := PrevPtr (f (OSTCBs s a)))"
    "pnxt ?v = (pnxt s)(a := PendNextPtr (f (OSTCBs s a)))" "pprv ?v = (pprv s)(a := PendPrevPtr (f (OSTCBs s a)))"
    "tnxt ?v = (tnxt s)(a := TickNextPtr (f (OSTCBs s a)))" "tprv ?v = (tprv s)(a := TickPrevPtr (f (OSTCBs s a)))"
    "trem ?v = (trem s)(a := TickRemain (f (OSTCBs s a)))" "plist ?v = plist s"
    by (auto simp: nxt_def prv_def pnxt_def pprv_def tnxt_def tprv_def trem_def plist_def fun_eq_iff)
  have "rdy_rel ?v R"
    using kinvD(1) [OF K] nR unfolding rdy_rel_def rdy_lists_def n ready_prios_def prio_tbl_ok_def
    by (auto simp: dll_upd_other)
  moreover have "pend_lists ?v W"
    using kinvD(2) [OF K] nW unfolding pend_lists_def n by (auto simp: dll_upd_other pobj_def)
  moreover have "map (prios ?v) (W b) = map (prios s) (W b)" for b using nW [of b] by (auto intro: map_cong)
  then have "pend_sorted ?v W" using kinvD(3) [OF K] by (simp only: pend_sorted_def simp_thms)
  moreover have "span ((trem s)(a := w)) T = span (trem s) T" for w using nT by (induction T) auto
  then have "tick_lists ?v T"
    using kinvD(4) [OF K] nT unfolding tick_lists_def n by (simp add: dll_upd_other)
  moreover have "\<forall>c\<in>A. task_ok ?v R W T c" using kinvD(5) [OF K] a by (auto simp: task_ok_def)
  ultimately show ?thesis using kinvD(6-8) [OF K] by (simp add: kinv_def)
qed

lemma kinv_OSTaskQty: "kinv (s\<lparr>OSTaskQty := n\<rparr>) A R W T \<longleftrightarrow> kinv s A R W T"
  and kinv_OSStkMem: "kinv (s\<lparr>OSStkMem := m\<rparr>) A R W T \<longleftrightarrow> kinv s A R W T"
  and kinv_OSTaskDbgListPtr: "kinv (s\<lparr>OSTaskDbgListPtr := p\<rparr>) A R W T \<longleftrightarrow> kinv s A R W T"
  by (rule kinv_cong; (rule rdy_rel_cong pend_lists_cong tick_lists_cong)?; simp)+

text \<open>The debug list touches no other field.\<close>

definition dbg_only :: "kernel \<Rightarrow> kernel \<Rightarrow> bool" where
  "dbg_only s s' \<longleftrightarrow> (\<exists>f g p. s' = s\<lparr>OSTCBs := (\<lambda>c. (OSTCBs s c)\<lparr>Tcb_DbgPrevPtr := f c, Tcb_DbgNextPtr := g c\<rparr>),
     OSTaskDbgListPtr := p\<rparr>)"

lemma dbg_only_sel:
  assumes "dbg_only s s'"
  shows "kinv s' A R W T \<longleftrightarrow> kinv s A R W T" "OSRunning s' = OSRunning s" "OSIntNestingCtr s' = OSIntNestingCtr s"
    "OSSchedLockNestingCtr s' = OSSchedLockNestingCtr s" "OSStkMem s' = OSStkMem s" "OSTCBCurPtr s' = OSTCBCurPtr s"
    "Prio (OSTCBs s' c) = Prio (OSTCBs s c)" "BasePrio (OSTCBs s' c) = BasePrio (OSTCBs s c)"
    "StkPtr (OSTCBs s' c) = StkPtr (OSTCBs s c)" "TaskState (OSTCBs s' c) = TaskState (OSTCBs s c)"
    "MutexGrpHeadPtr (OSTCBs s' c) = MutexGrpHeadPtr (OSTCBs s c)" "MsgQ (OSTCBs s' c) = MsgQ (OSTCBs s c)"
    "OSTaskQty s' = OSTaskQty s" "OSInitialized s' = OSInitialized s" "OSObjs s' = OSObjs s" "OSSems s' = OSSems s"
    "PendOn (OSTCBs s' c) = PendOn (OSTCBs s c)" "OSMutexes s' = OSMutexes s" "OSMsgs s' = OSMsgs s"
    "OSMsgPool s' = OSMsgPool s"
proof -
  show "kinv s' A R W T \<longleftrightarrow> kinv s A R W T"
    using assms unfolding dbg_only_def
    by (elim exE) (simp, rule kinv_cong; (rule rdy_rel_cong pend_lists_cong tick_lists_cong)?; simp)
qed (use assms in \<open>auto simp: dbg_only_def\<close>)

lemma dbg_only_refl: "dbg_only s s"
  unfolding dbg_only_def
  by (intro exI [of _ "\<lambda>c. Tcb_DbgPrevPtr (OSTCBs s c)"] exI [of _ "\<lambda>c. Tcb_DbgNextPtr (OSTCBs s c)"]
      exI [of _ "OSTaskDbgListPtr s"]) simp

lemma dbg_only_put:
  assumes "dbg_only s s'"
  shows "dbg_only s (put a (Tcb_DbgPrevPtr_update (\<lambda>_. p)) s')" "dbg_only s (put a (Tcb_DbgNextPtr_update (\<lambda>_. p)) s')"
    "dbg_only s (s'\<lparr>OSTaskDbgListPtr := p\<rparr>)"
proof -
  obtain f g q where s': "s' = s\<lparr>OSTCBs := (\<lambda>c. (OSTCBs s c)\<lparr>Tcb_DbgPrevPtr := f c, Tcb_DbgNextPtr := g c\<rparr>),
     OSTaskDbgListPtr := q\<rparr>" using assms by (auto simp: dbg_only_def)
  show "dbg_only s (put a (Tcb_DbgPrevPtr_update (\<lambda>_. p)) s')" unfolding dbg_only_def
    by (intro exI [of _ "f(a := p)"] exI [of _ g] exI [of _ q]) (auto simp: s' put_def fun_eq_iff)
  show "dbg_only s (put a (Tcb_DbgNextPtr_update (\<lambda>_. p)) s')" unfolding dbg_only_def
    by (intro exI [of _ f] exI [of _ "g(a := p)"] exI [of _ q]) (auto simp: s' put_def fun_eq_iff)
  show "dbg_only s (s'\<lparr>OSTaskDbgListPtr := p\<rparr>)" unfolding dbg_only_def
    by (intro exI [of _ f] exI [of _ g] exI [of _ p]) (simp add: s')
qed

lemma put_OSTaskDbgListPtr [simp]: "OSTaskDbgListPtr (put a f s) = OSTaskDbgListPtr s"
  by (simp add: put_def)

lemma OS_TaskDbgListAdd_dbg: "\<exists>s'. OS_TaskDbgListAdd (Some a) s = Some s' \<and> dbg_only s s'"
  by (cases "OSTaskDbgListPtr s") (auto simp: OS_TaskDbgListAdd_def set_tcb_put intro!: dbg_only_put dbg_only_refl)

lemma OS_TaskDbgListRemove_dbg: "\<exists>s'. OS_TaskDbgListRemove (Some a) s = Some s' \<and> dbg_only s s'"
  by (cases "Tcb_DbgPrevPtr (OSTCBs s a)"; cases "Tcb_DbgNextPtr (OSTCBs s a)")
    (auto simp: OS_TaskDbgListRemove_def set_tcb_put Let_def intro!: dbg_only_put dbg_only_refl)

text \<open>The ready task with the links of \<open>a\<close> and the lists of the kernel makes a larger system.\<close>

lemma new_ready_task:
  assumes K: "kinv v A R W T" and a: "a \<notin> A" and q: "unat (Prio (OSTCBs v a)) < OS_CFG_PRIO_MAX"
    and t: "TaskState (OSTCBs v a) = OS_TASK_STATE_RDY" "PendOn (OSTCBs v a) = OS_TASK_PEND_ON_NOTHING"
      "PendObjPtr (OSTCBs v a) = None"
  shows "\<exists>s1 n p rl tbl. Option.bind (OS_PrioInsert (Prio (OSTCBs v a)) v) (OS_RdyListInsertTail (Some a)) = Some s1 \<and>
    s1 = upd_rdy n p rl tbl v \<and>
    kinv s1 (insert a A) (R(Prio (OSTCBs v a) := R (Prio (OSTCBs v a)) @ [a])) W T"
proof -
  let ?q = "Prio (OSTCBs v a)"
  let ?R = "R(?q := R ?q @ [a])"
  have nR: "a \<notin> set (R p)" and nW: "a \<notin> set (W b)" and nT: "a \<notin> set T" for p b
    using kinvD(6-8) [OF K] a by blast+
  from rdy_link_ok(1) [OF kinvD(1) [OF K] refl q nR] obtain n p rl tbl where
    s1: "Option.bind (OS_PrioInsert ?q v) (OS_RdyListInsertTail (Some a)) = Some (upd_rdy n p rl tbl v)"
    "rdy_rel (upd_rdy n p rl tbl v) ?R" by (elim rdy_okE)
  have "task_ok (upd_rdy n p rl tbl v) ?R W T c" if "c \<in> insert a A" for c
  proof (cases "c = a")
    case True
    then show ?thesis using q t nW nT by (auto simp: task_ok_def timed_def pending_def on_object_def)
  next
    case False
    then show ?thesis using that kinvD(5) [OF K, of c] by (auto simp: task_ok_def)
  qed
  moreover have "set (?R r) \<subseteq> insert a A" "set (W b) \<subseteq> insert a A" "set T \<subseteq> insert a A" for r b
    using kinvD(6-8) [OF K] by (auto split: if_splits)
  ultimately have "kinv (upd_rdy n p rl tbl v) (insert a A) ?R W T"
    using s1(2) kinvD(2-4) [OF K] by (simp add: kinv_def pend_sorted_def)
  with s1(1) show ?thesis by blast
qed

text \<open>The arguments \<open>OSTaskCreate\<close> accepts for a task other than the idle task, with a stack that does
  not wrap around the address space.\<close>

definition valid_args :: "task_args \<Rightarrow> bool" where
  "valid_args x \<longleftrightarrow> ta_task x \<noteq> 0 \<and> ta_stk_base x \<noteq> 0 \<and> 64 \<le> ta_stk_size x \<and> ta_stk_limit x < ta_stk_size x \<and>
     unat (ta_prio x) < OS_CFG_PRIO_MAX - 1 \<and> unat (ta_stk_base x) + 4 * unat (ta_stk_size x) < 2 ^ 32"

text \<open>The arguments it accepts for the task \<open>a\<close>: the lowest priority belongs to the idle task.\<close>

definition create_ok :: "nat \<Rightarrow> task_args \<Rightarrow> bool" where
  "create_ok a x \<longleftrightarrow> ta_task x \<noteq> 0 \<and> ta_stk_base x \<noteq> 0 \<and> 64 \<le> ta_stk_size x \<and> ta_stk_limit x < ta_stk_size x \<and>
     (unat (ta_prio x) < OS_CFG_PRIO_MAX - 1 \<or> ta_prio x = of_nat (OS_CFG_PRIO_MAX - 1) \<and> a = OSIdleTaskTCB) \<and>
     unat (ta_stk_base x) + 4 * unat (ta_stk_size x) < 2 ^ 32"

lemma valid_args_create_ok: "valid_args x \<Longrightarrow> create_ok a x"
  by (simp add: valid_args_def create_ok_def)

lemma OSTaskCreate_run:
  assumes K: "kinv s A R W T" and a: "a \<notin> A" and x: "create_ok a x" and i: "OSIntNestingCtr s = 0"
    and f: "OSTaskStkInit tr (ta_task x) (ta_arg x) (ta_stk_base x) (ta_stk_base x + 4 * ta_stk_limit x) (ta_stk_size x)
      (if ta_opt x AND OS_OPT_TASK_STK_CLR \<noteq> 0 then clear_stack (ta_stk_base x) (ta_stk_size x) (OSStkMem s)
       else OSStkMem s) = (sp, m)"
  shows "\<exists>s3. OSTaskCreate tr (Some a) x s = (if OSRunning s \<noteq> OS_STATE_OS_RUNNING then Some (OS_ERR_NONE, s3)
      else do { s \<leftarrow> OSSched s3; Some (OS_ERR_NONE, s) }) \<and>
    kinv s3 (insert a A) (R(ta_prio x := R (ta_prio x) @ [a])) W T \<and>
    OSRunning s3 = OSRunning s \<and> OSIntNestingCtr s3 = 0 \<and> OSSchedLockNestingCtr s3 = OSSchedLockNestingCtr s \<and>
    OSStkMem s3 = OS_TaskStkRedzoneInit (ta_stk_base x) m \<and> StkPtr (OSTCBs s3 a) = sp \<and> Prio (OSTCBs s3 a) = ta_prio x \<and>
    BasePrio (OSTCBs s3 a) = ta_prio x \<and> TaskState (OSTCBs s3 a) = OS_TASK_STATE_RDY \<and>
    OSTaskQty s3 = OSTaskQty s + 1 \<and> OSInitialized s3 = OSInitialized s \<and> OSObjs s3 = OSObjs s \<and> OSSems s3 = OSSems s \<and>
    OSMutexes s3 = OSMutexes s \<and> OSMsgs s3 = OSMsgs s \<and> OSMsgPool s3 = OSMsgPool s \<and> PendOn (OSTCBs s3 a) = OS_TASK_PEND_ON_NOTHING \<and> MutexGrpHeadPtr (OSTCBs s3 a) = None \<and>
    (\<forall>c. c \<noteq> a \<longrightarrow> Prio (OSTCBs s3 c) = Prio (OSTCBs s c) \<and> BasePrio (OSTCBs s3 c) = BasePrio (OSTCBs s c) \<and>
      PendOn (OSTCBs s3 c) = PendOn (OSTCBs s c) \<and> MutexGrpHeadPtr (OSTCBs s3 c) = MutexGrpHeadPtr (OSTCBs s c))"
proof -
  let ?m = "OS_TaskStkRedzoneInit (ta_stk_base x) m"
  let ?f = "create_tcb x sp (OSSchedRoundRobinDfltTimeQuanta s)"
  define v where "v = put a ?f ((put a init_tcb s)\<lparr>OSStkMem := ?m\<rparr>)"
  have bounds: "unat (ta_stk_base x) + 32 \<le> unat sp"
    using OSTaskStkInit_in_bounds [OF _ _ f] x by (simp add: create_ok_def OS_CFG_TASK_STK_REDZONE_DEPTH_def)
  have vs: "OSTCBs v a = ?f (init_tcb (OSTCBs s a))" "OSRunning v = OSRunning s" "OSIntNestingCtr v = OSIntNestingCtr s"
    "OSSchedLockNestingCtr v = OSSchedLockNestingCtr s" "OSStkMem v = ?m" "OSTaskQty v = OSTaskQty s"
    "OSInitialized v = OSInitialized s" "OSObjs v = OSObjs s" "OSSems v = OSSems s" "OSMutexes v = OSMutexes s"
    "OSMsgs v = OSMsgs s" "OSMsgPool v = OSMsgPool s"
    by (simp_all add: v_def put_def)
  have K1: "kinv v A R W T" unfolding v_def
    by (intro fresh_put [OF _ a]) (simp add: kinv_OSStkMem fresh_put [OF K a])
  have q: "Prio (OSTCBs v a) = ta_prio x" "unat (Prio (OSTCBs v a)) < OS_CFG_PRIO_MAX"
    using x by (auto simp: vs create_tcb_def create_ok_def OS_CFG_PRIO_MAX_def)
  have t: "TaskState (OSTCBs v a) = OS_TASK_STATE_RDY" "PendOn (OSTCBs v a) = OS_TASK_PEND_ON_NOTHING"
    "PendObjPtr (OSTCBs v a) = None" by (simp_all add: vs create_tcb_def init_tcb_def)
  from new_ready_task [OF K1 a q(2) t] obtain s1 n p rl tbl where
    s1: "Option.bind (OS_PrioInsert (ta_prio x) v) (OS_RdyListInsertTail (Some a)) = Some s1"
    "s1 = upd_rdy n p rl tbl v" "kinv s1 (insert a A) (R(ta_prio x := R (ta_prio x) @ [a])) W T"
    unfolding q(1) by blast
  from OS_TaskDbgListAdd_dbg obtain s2 where s2: "OS_TaskDbgListAdd (Some a) s1 = Some s2" "dbg_only s1 s2" by blast
  note D = dbg_only_sel [OF s2(2)]
  let ?s3 = "s2\<lparr>OSTaskQty := OSTaskQty s2 + 1\<rparr>"
  have pr: "\<not> (ta_prio x > of_nat (OS_CFG_PRIO_MAX - 2) \<and> ta_prio x \<noteq> of_nat (OS_CFG_PRIO_MAX - 1))"
    "\<not> (ta_prio x = of_nat (OS_CFG_PRIO_MAX - 1) \<and> Some a \<noteq> Some OSIdleTaskTCB)"
    using x by (auto simp: create_ok_def OS_CFG_PRIO_MAX_def word_less_nat_alt)
  have x': "ta_task x \<noteq> 0" "ta_stk_base x \<noteq> 0" "64 \<le> ta_stk_size x" "ta_stk_limit x < ta_stk_size x"
    using x by (simp_all add: create_ok_def)
  have sp: "\<not> sp < ta_stk_base x" using bounds by (simp add: word_less_nat_alt)
  obtain u where u: "OS_PrioInsert (ta_prio x) v = Some u" "OS_RdyListInsertTail (Some a) u = Some s1"
    using s1(1) by (auto simp: bind_eq_Some_conv)
  have v': "set_tcb (Some a) ?f ((put a init_tcb s)\<lparr>OSStkMem := ?m\<rparr>) = Some v"
    by (simp add: v_def set_tcb_put)
  have e: "put a init_tcb s\<lparr>OSStkMem := m, OSStkMem := ?m\<rparr> = put a init_tcb s\<lparr>OSStkMem := ?m\<rparr>" by simp
  have q': "OSSchedRoundRobinDfltTimeQuanta (put a init_tcb s) = OSSchedRoundRobinDfltTimeQuanta s" "OSSchedRoundRobinDfltTimeQuanta (put a init_tcb s\<lparr>OSStkMem := w\<rparr>) = OSSchedRoundRobinDfltTimeQuanta s"
    "OSStkMem (put a init_tcb s) = OSStkMem s" for w by (simp_all add: put_def)
  have "OSTaskCreate tr (Some a) x s = (if OSRunning ?s3 \<noteq> OS_STATE_OS_RUNNING then Some (OS_ERR_NONE, ?s3)
      else do { s \<leftarrow> OSSched ?s3; Some (OS_ERR_NONE, s) })"
    using i x' pr sp f u s2(1) v'
    by (cases "ta_opt x AND OS_OPT_TASK_STK_CLR = 0")
      ((simp_all add: OSTaskCreate_def OS_TaskInitTCB_def set_tcb_put OSCfg_StkSizeMin_def q' Let_def
        not_less [symmetric] cong: if_cong), blast+)
  moreover have "OSRunning ?s3 = OSRunning s" "OSIntNestingCtr ?s3 = 0" "OSSchedLockNestingCtr ?s3 = OSSchedLockNestingCtr s"
    "OSStkMem ?s3 = ?m" "StkPtr (OSTCBs ?s3 a) = sp" "Prio (OSTCBs ?s3 a) = ta_prio x" "BasePrio (OSTCBs ?s3 a) = ta_prio x"
    "TaskState (OSTCBs ?s3 a) = OS_TASK_STATE_RDY" "OSTaskQty ?s3 = OSTaskQty s + 1" "OSInitialized ?s3 = OSInitialized s"
    "OSObjs ?s3 = OSObjs s" "OSSems ?s3 = OSSems s" "OSMutexes ?s3 = OSMutexes s"
    "OSMsgs ?s3 = OSMsgs s" "OSMsgPool ?s3 = OSMsgPool s"
    "PendOn (OSTCBs ?s3 a) = OS_TASK_PEND_ON_NOTHING" "MutexGrpHeadPtr (OSTCBs ?s3 a) = None"
    using D vs i by (simp_all add: s1(2) create_tcb_def init_tcb_def upd_rdy_def)
  moreover have "kinv ?s3 (insert a A) (R(ta_prio x := R (ta_prio x) @ [a])) W T"
    using s1(3) D(1) by (simp add: kinv_OSTaskQty)
  moreover have "\<forall>c. c \<noteq> a \<longrightarrow> Prio (OSTCBs ?s3 c) = Prio (OSTCBs s c) \<and> BasePrio (OSTCBs ?s3 c) = BasePrio (OSTCBs s c) \<and>
      PendOn (OSTCBs ?s3 c) = PendOn (OSTCBs s c) \<and> MutexGrpHeadPtr (OSTCBs ?s3 c) = MutexGrpHeadPtr (OSTCBs s c)"
    using D(7,8,11,17) by (simp add: s1(2) upd_rdy_def v_def put_def)
  ultimately show ?thesis by (intro exI [of _ ?s3]) simp
qed

text \<open>C17: \<open>OSTaskCreate\<close> adds a task to the system: the invariant of the kernel holds for the larger set
  of tasks, with the new one ready behind the tasks of its priority; the most urgent task runs; and
  the stack of the new task is set up so that its red zone is intact and its first exception return
  enters the task with its argument and \<open>OS_TaskReturn\<close> as the return address.\<close>

theorem OSTaskCreate_adds_task:
  assumes K: "kinv s A R W T" and a: "a \<notin> A" and x: "valid_args x"
    and g: "OSIntNestingCtr s = 0" "OSRunning s = OS_STATE_OS_RUNNING" "OSSchedLockNestingCtr s = 0"
  shows "\<exists>s' y. OSTaskCreate task_return (Some a) x s = Some (OS_ERR_NONE, s') \<and>
    kinv s' (insert a A) (R(ta_prio x := R (ta_prio x) @ [a])) W T \<and>
    Prio (OSTCBs s' a) = ta_prio x \<and> TaskState (OSTCBs s' a) = OS_TASK_STATE_RDY \<and>
    OSTCBCurPtr s' = Some y \<and> most_urgent s' (R(ta_prio x := R (ta_prio x) @ [a])) y \<and>
    OS_TaskStkRedzoneChk (ta_stk_base x) (OSStkMem s') \<and>
    fst (pop_regs 8 (StkPtr (OSTCBs s' a) + 100) (OSStkMem s')) =
      [ta_arg x, ta_stk_base x + 4 * ta_stk_limit x, 0x02020202, 0x03030303, 0x12121212, task_return, ta_task x, 0x01000000]"
proof -
  let ?R = "R(ta_prio x := R (ta_prio x) @ [a])"
  obtain sp m where f: "OSTaskStkInit task_return (ta_task x) (ta_arg x) (ta_stk_base x)
      (ta_stk_base x + 4 * ta_stk_limit x) (ta_stk_size x) (if ta_opt x AND OS_OPT_TASK_STK_CLR \<noteq> 0
       then clear_stack (ta_stk_base x) (ta_stk_size x) (OSStkMem s) else OSStkMem s) = (sp, m)" by fastforce
  from OSTaskCreate_run [OF K a valid_args_create_ok [OF x] g(1) f] g obtain s3 where
    s3: "OSTaskCreate task_return (Some a) x s = do { s \<leftarrow> OSSched s3; Some (OS_ERR_NONE, s) }" "kinv s3 (insert a A) ?R W T"
    "OSRunning s3 = OS_STATE_OS_RUNNING" "OSIntNestingCtr s3 = 0" "OSSchedLockNestingCtr s3 = 0"
    "OSStkMem s3 = OS_TaskStkRedzoneInit (ta_stk_base x) m" "StkPtr (OSTCBs s3 a) = sp" "Prio (OSTCBs s3 a) = ta_prio x"
    "TaskState (OSTCBs s3 a) = OS_TASK_STATE_RDY" by auto
  have ne: "?R (ta_prio x) \<noteq> []" by simp
  from OSSched_spec [OF s3(2) ne s3(3-5)] obtain s' y where
    y: "OSSched s3 = Some s'" "switched s3 s'" "most_urgent s3 ?R y" "OSTCBCurPtr s' = Some y" by blast
  have mu: "most_urgent s' ?R y" using y(3) switched_sel(14) [OF y(2)] by (simp add: most_urgent_def)
  have sw: "OSStkMem s' = OSStkMem s3" "StkPtr (OSTCBs s' a) = StkPtr (OSTCBs s3 a)" using y(2) by (auto simp: switched_def)
  have b: "unat (ta_stk_base x) + 32 \<le> unat sp" "unat sp + 200 < 2 ^ 32"
    using OSTaskStkInit_in_bounds [OF _ _ f] x by (auto simp: valid_args_def OS_CFG_TASK_STK_REDZONE_DEPTH_def)
  then have "unat (sp + 100) = unat sp + 100" by (simp add: unat_word_ariths)
  then have "pop_regs 8 (sp + 100) (OSStkMem s') = pop_regs 8 (sp + 100) m"
    unfolding sw s3(6) by (intro redzone_keeps_frame) (use b in simp_all)
  with OSTaskStkInit_starts_task [OF f] have "fst (pop_regs 8 (StkPtr (OSTCBs s' a) + 100) (OSStkMem s')) =
      [ta_arg x, ta_stk_base x + 4 * ta_stk_limit x, 0x02020202, 0x03030303, 0x12121212, task_return, ta_task x, 0x01000000]"
    by (simp add: sw s3(7))
  moreover have "OS_TaskStkRedzoneChk (ta_stk_base x) (OSStkMem s')" unfolding sw s3(6) by (rule redzone_ok)
  ultimately show ?thesis using s3(1,8,9) y(1,4) mu switched_kinv [OF y(2)] s3(2) switched_sel(14,15) [OF y(2)]
    by (intro exI [of _ s'] exI [of _ y]) simp
qed

text \<open>A task of priority 3, above all others.\<close>

theorem OSTaskCreate_adds_task_witness:
  "\<exists>s' y. OSTaskCreate 0x08001001 (Some 9) \<lparr>ta_name = ''new'', ta_task = 0x08002001, ta_arg = 42, ta_prio = 3,
      ta_stk_base = 0x20000000, ta_stk_limit = 10, ta_stk_size = 128, ta_q_size = 4, ta_time_quanta = 0, ta_ext = None,
      ta_opt = 3\<rparr> demo = Some (OS_ERR_NONE, s') \<and> OSTCBCurPtr s' = Some y \<and> Prio (OSTCBs s' 9) = 3 \<and>
     OS_TaskStkRedzoneChk 0x20000000 (OSStkMem s')"
proof -
  let ?x = "\<lparr>ta_name = ''new'', ta_task = 0x08002001, ta_arg = 42, ta_prio = 3,
      ta_stk_base = 0x20000000, ta_stk_limit = 10, ta_stk_size = 128, ta_q_size = 4, ta_time_quanta = 0, ta_ext = None,
      ta_opt = 3\<rparr> :: task_args"
  have d: "9 \<notin> demo_A" "valid_args ?x" "OSIntNestingCtr demo = 0" "OSRunning demo = OS_STATE_OS_RUNNING"
    "OSSchedLockNestingCtr demo = 0"
    by (simp_all add: demo_A_def valid_args_def OS_CFG_PRIO_MAX_def) (simp_all add: demo_def)
  from OSTaskCreate_adds_task [where task_return = "0x08001001", OF demo_kinv d] obtain s' y where
    "OSTaskCreate 0x08001001 (Some 9) ?x demo = Some (OS_ERR_NONE, s')" "Prio (OSTCBs s' 9) = 3" "OSTCBCurPtr s' = Some y"
    "OS_TaskStkRedzoneChk 0x20000000 (OSStkMem s')" by auto
  then show ?thesis by blast
qed

end
