(* ===== verification/Os_Mem.thy ===== *)
theory Os_Mem
  imports Os_Stk
begin

text \<open>
  Memory partitions (\<open>os_mem.c\<close>): a pool of blocks of equal size in an array of the application. The
  free blocks are chained through their first words, so that the free list lies in the blocks
  themselves (\<open>OSStkMem\<close>). A partition is a record of \<open>OSMems\<close>.
\<close>

section \<open>Operations\<close>

definition mem_blk :: "kernel \<Rightarrow> ptr \<Rightarrow> OS_MEM option" where
  [kdefs]: "mem_blk s p = map_option (OSMems s) p"

definition set_mem :: "ptr \<Rightarrow> (OS_MEM \<Rightarrow> OS_MEM) \<Rightarrow> kernel \<Rightarrow> kernel option" where
  [kdefs]: "set_mem p f s = map_option (\<lambda>a. s\<lparr>OSMems := (OSMems s)(a := f (OSMems s a))\<rparr>) p"

text \<open>The loop of \<open>OSMemCreate\<close> and the null pointer it ends with.\<close>

fun mem_link_loop :: "nat \<Rightarrow> u32 \<Rightarrow> u32 \<Rightarrow> u32 \<Rightarrow> mem \<Rightarrow> mem" where
  "mem_link_loop 0 p_link p_blk blk_size m = m(p_link := 0)"
| "mem_link_loop (Suc n) p_link p_blk blk_size m =
     (let p_blk = p_blk + blk_size; m = m(p_link := p_blk) in mem_link_loop n p_blk p_blk blk_size m)"

definition OS_MemDbgListAdd :: "ptr \<Rightarrow> kernel \<Rightarrow> kernel option" where
  "OS_MemDbgListAdd p_mem s = do {
     s \<leftarrow> set_mem p_mem (\<lambda>b. b\<lparr>Mem_DbgPrevPtr := None\<rparr>) s;
     s \<leftarrow>
       (if OSMemDbgListPtr s = None then set_mem p_mem (\<lambda>b. b\<lparr>Mem_DbgNextPtr := None\<rparr>) s
        else do {
          s \<leftarrow> set_mem p_mem (\<lambda>b. b\<lparr>Mem_DbgNextPtr := OSMemDbgListPtr s\<rparr>) s;
          set_mem (OSMemDbgListPtr s) (\<lambda>b. b\<lparr>Mem_DbgPrevPtr := p_mem\<rparr>) s
        });
     Some (s\<lparr>OSMemDbgListPtr := p_mem\<rparr>)
   }"

text \<open>A pointer has four bytes.\<close>

definition OSMemCreate :: "ptr \<Rightarrow> string \<Rightarrow> u32 \<Rightarrow> u16 \<Rightarrow> u16 \<Rightarrow> kernel \<Rightarrow> (OS_ERR \<times> kernel) option" where
  "OSMemCreate p_mem p_name p_addr n_blks blk_size s =
     (if OSIntNestingCtr s > 0 then Some (OS_ERR_MEM_CREATE_ISR, s)
      else if p_addr = 0 then Some (OS_ERR_MEM_INVALID_P_ADDR, s)
      else if n_blks < 2 then Some (OS_ERR_MEM_INVALID_BLKS, s)
      else if blk_size < 4 then Some (OS_ERR_MEM_INVALID_SIZE, s)
      else if p_addr AND 3 \<noteq> 0 then Some (OS_ERR_MEM_INVALID_P_ADDR, s)
      else if blk_size AND 3 \<noteq> 0 then Some (OS_ERR_MEM_INVALID_SIZE, s)
      else do {
        let loops = n_blks - 1;
        let s = s\<lparr>OSStkMem := mem_link_loop (unat loops) p_addr p_addr (ucast blk_size) (OSStkMem s)\<rparr>;
        b \<leftarrow> mem_blk s p_mem;
        if Mem_Type b = OS_OBJ_TYPE_MEM then Some (OS_ERR_OBJ_CREATED, s)
        else do {
          s \<leftarrow> set_mem p_mem (\<lambda>b. b\<lparr>Mem_Type := OS_OBJ_TYPE_MEM, Mem_NamePtr := p_name, AddrPtr := p_addr,
            FreeListPtr := p_addr, NbrFree := n_blks, NbrMax := n_blks, BlkSize := blk_size\<rparr>) s;
          s \<leftarrow> OS_MemDbgListAdd p_mem s;
          Some (OS_ERR_NONE, s\<lparr>OSMemQty := OSMemQty s + 1\<rparr>)
        }
      })"

text \<open>The block is the address \<open>OSMemGet\<close> returns, zero for none.\<close>

definition OSMemGet :: "ptr \<Rightarrow> kernel \<Rightarrow> (u32 \<times> OS_ERR \<times> kernel) option" where
  "OSMemGet p_mem s =
     (if p_mem = None then Some (0, OS_ERR_MEM_INVALID_P_MEM, s)
      else do {
        b \<leftarrow> mem_blk s p_mem;
        if Mem_Type b \<noteq> OS_OBJ_TYPE_MEM then Some (0, OS_ERR_OBJ_TYPE, s)
        else if NbrFree b = 0 then Some (0, OS_ERR_MEM_NO_FREE_BLKS, s)
        else do {
          let p_blk = FreeListPtr b;
          s \<leftarrow> set_mem p_mem (\<lambda>b. b\<lparr>FreeListPtr := OSStkMem s p_blk\<rparr>) s;
          s \<leftarrow> set_mem p_mem (\<lambda>b. b\<lparr>NbrFree := NbrFree b - 1\<rparr>) s;
          Some (p_blk, OS_ERR_NONE, s)
        }
      })"

definition OSMemPut :: "ptr \<Rightarrow> u32 \<Rightarrow> kernel \<Rightarrow> (OS_ERR \<times> kernel) option" where
  "OSMemPut p_mem p_blk s =
     (if p_mem = None then Some (OS_ERR_MEM_INVALID_P_MEM, s)
      else if p_blk = 0 then Some (OS_ERR_MEM_INVALID_P_BLK, s)
      else do {
        b \<leftarrow> mem_blk s p_mem;
        if Mem_Type b \<noteq> OS_OBJ_TYPE_MEM then Some (OS_ERR_OBJ_TYPE, s)
        else if NbrFree b \<ge> NbrMax b then Some (OS_ERR_MEM_FULL, s)
        else do {
          let s = s\<lparr>OSStkMem := (OSStkMem s)(p_blk := FreeListPtr b)\<rparr>;
          s \<leftarrow> set_mem p_mem (\<lambda>b. b\<lparr>FreeListPtr := p_blk\<rparr>) s;
          s \<leftarrow> set_mem p_mem (\<lambda>b. b\<lparr>NbrFree := NbrFree b + 1\<rparr>) s;
          Some (OS_ERR_NONE, s)
        }
      })"

definition OS_MemInit :: "kernel \<Rightarrow> OS_ERR \<times> kernel" where
  "OS_MemInit s = (OS_ERR_NONE, s\<lparr>OSMemDbgListPtr := None, OSMemQty := 0\<rparr>)"

section \<open>The free list\<close>

text \<open>\<open>chain m p bs\<close>: from \<open>p\<close> on the blocks \<open>bs\<close> are linked, the last one to the null pointer.\<close>

primrec chain :: "mem \<Rightarrow> u32 \<Rightarrow> u32 list \<Rightarrow> bool" where
  "chain m p [] \<longleftrightarrow> p = 0"
| "chain m p (b # bs) \<longleftrightarrow> p = b \<and> b \<noteq> 0 \<and> chain m (m b) bs"

text \<open>The blocks of an area of \<open>n\<close> blocks.\<close>

definition blocks :: "u32 \<Rightarrow> u32 \<Rightarrow> nat \<Rightarrow> u32 list" where
  "blocks p_addr z n = map (\<lambda>i. p_addr + of_nat i * z) [0..<n]"

text \<open>A partition with the free blocks \<open>bs\<close>.\<close>

definition mem_inv :: "kernel \<Rightarrow> nat \<Rightarrow> u32 list \<Rightarrow> bool" where
  "mem_inv s a bs \<longleftrightarrow> (let b = OSMems s a; all = blocks (AddrPtr b) (ucast (BlkSize b)) (unat (NbrMax b)) in
     Mem_Type b = OS_OBJ_TYPE_MEM \<and> chain (OSStkMem s) (FreeListPtr b) bs \<and> distinct bs \<and> set bs \<subseteq> set all \<and>
     distinct all \<and> 0 \<notin> set all \<and> NbrFree b = of_nat (length bs))"

lemma chain_upd [simp]: "x \<notin> set bs \<Longrightarrow> chain (m(x := v)) p bs \<longleftrightarrow> chain m p bs"
  by (induction bs arbitrary: p) auto

lemma chain_nonzero: "chain m p bs \<Longrightarrow> 0 \<notin> set bs"
  by (induction bs arbitrary: p) auto

lemma length_blocks [simp]: "length (blocks p z n) = n"
  by (simp add: blocks_def)

lemma mem_inv_length:
  assumes "mem_inv s a bs"
  shows "length bs \<le> unat (NbrMax (OSMems s a))"
proof -
  let ?all = "blocks (AddrPtr (OSMems s a)) (ucast (BlkSize (OSMems s a))) (unat (NbrMax (OSMems s a)))"
  have "length bs = card (set bs)" using assms by (simp add: mem_inv_def Let_def distinct_card)
  also have "\<dots> \<le> card (set ?all)" using assms by (intro card_mono) (auto simp: mem_inv_def Let_def)
  also have "\<dots> \<le> unat (NbrMax (OSMems s a))" using card_length [of ?all] by simp
  finally show ?thesis .
qed

lemma mem_inv_count:
  assumes "mem_inv s a bs"
  shows "unat (NbrFree (OSMems s a)) = length bs"
proof -
  have "unat (NbrMax (OSMems s a)) < 2 ^ LENGTH(16)" by (rule unsigned_less)
  with mem_inv_length [OF assms] have "length bs < 2 ^ 16" by simp
  with assms show ?thesis by (simp add: mem_inv_def Let_def unat_of_nat)
qed

text \<open>The loop links the blocks of the area in order and touches no other word.\<close>

lemma mem_link_loop_chain:
  assumes "distinct (blocks p z (Suc n))" and "0 \<notin> set (blocks p z (Suc n))"
  shows "chain (mem_link_loop n p p z m) p (blocks p z (Suc n)) \<and>
    (\<forall>x. x \<notin> set (blocks p z (Suc n)) \<longrightarrow> mem_link_loop n p p z m x = m x)"
  using assms
proof (induction n arbitrary: p m)
  case 0
  then show ?case by (simp add: blocks_def)
next
  case (Suc n)
  have s: "blocks p z (Suc k) = p # blocks (p + z) z k" for k
    by (simp add: blocks_def upt_conv_Cons map_Suc_upt [symmetric] algebra_simps del: upt_Suc)
  define m' where "m' = m(p := p + z)"
  have r: "mem_link_loop (Suc n) p p z m = mem_link_loop n (p + z) (p + z) z m'" by (simp add: Let_def m'_def)
  have p: "p \<notin> set (blocks (p + z) z (Suc n))" "p \<noteq> 0" using Suc.prems unfolding s [of "Suc n"] by auto
  have IH: "chain (mem_link_loop n (p + z) (p + z) z m') (p + z) (blocks (p + z) z (Suc n))"
    "\<forall>x. x \<notin> set (blocks (p + z) z (Suc n)) \<longrightarrow> mem_link_loop n (p + z) (p + z) z m' x = m' x"
    using Suc.IH [of "p + z" m'] Suc.prems unfolding s [of "Suc n"] by auto
  then have "mem_link_loop n (p + z) (p + z) z m' p = p + z" using p(1) by (simp add: m'_def)
  moreover have "m' x = m x" if "x \<noteq> p" for x using that by (simp add: m'_def)
  ultimately show ?case unfolding s [of "Suc n"] r using IH p(2) by auto
qed

end
