(* ===== verification/Mem_Props.thy ===== *)
theory Mem_Props
  imports Os_Mem Demo_System
begin

text \<open>
  The properties of memory partitions: the blocks of a new partition, the free list as a stack of
  blocks, and the distinctness of the blocks handed out.
\<close>

section \<open>The interface of a pool of blocks\<close>

primrec repeat_get :: "('s \<Rightarrow> ('b \<times> 'e \<times> 's) option) \<Rightarrow> nat \<Rightarrow> 's \<Rightarrow> ('b list \<times> 's) option" where
  "repeat_get get 0 s = Some ([], s)"
| "repeat_get get (Suc n) s = do { (b, _, s) \<leftarrow> get s; (bs, s) \<leftarrow> repeat_get get n s; Some (b # bs, s) }"

locale block_pool =
  fixes get_blk :: "'s \<Rightarrow> ('b \<times> 'e \<times> 's) option" and put_blk :: "'b \<Rightarrow> 's \<Rightarrow> ('e \<times> 's) option"
    and free :: "'s \<Rightarrow> 'b list \<Rightarrow> bool" and owned :: "'s \<Rightarrow> 'b set" and ok :: 'e
  assumes get_law: "free s (b # bs) \<Longrightarrow> \<exists>s'. get_blk s = Some (b, ok, s') \<and> free s' bs \<and> owned s' = owned s"
    and put_law: "free s bs \<Longrightarrow> b \<in> owned s - set bs \<Longrightarrow>
      \<exists>s'. put_blk b s = Some (ok, s') \<and> free s' (b # bs) \<and> owned s' = owned s"
    and distinct_law: "free s bs \<Longrightarrow> distinct bs \<and> set bs \<subseteq> owned s"
begin

lemma gets:
  "free s (xs @ bs) \<Longrightarrow> \<exists>s'. repeat_get get_blk (length xs) s = Some (xs, s') \<and> free s' bs \<and> owned s' = owned s"
proof (induction xs arbitrary: s)
  case Nil
  then show ?case by auto
next
  case (Cons x xs)
  from Cons.prems get_law [of s x "xs @ bs"] obtain s1 where
    s1: "get_blk s = Some (x, ok, s1)" "free s1 (xs @ bs)" "owned s1 = owned s" by auto
  from Cons.IH [OF s1(2)] s1 show ?case by auto
qed

lemma get_put:
  assumes "free s (b # bs)"
  shows "\<exists>s1 s2. get_blk s = Some (b, ok, s1) \<and> put_blk b s1 = Some (ok, s2) \<and> free s2 (b # bs)"
proof -
  from get_law [OF assms] obtain s1 where s1: "get_blk s = Some (b, ok, s1)" "free s1 bs" "owned s1 = owned s" by blast
  have "b \<in> owned s1 - set bs" using distinct_law [OF assms] s1(3) by auto
  from put_law [OF s1(2) this] s1(1) show ?thesis by blast
qed

end

section \<open>The partition as a pool of blocks\<close>

definition mem_blocks :: "nat \<Rightarrow> kernel \<Rightarrow> u32 set" where
  "mem_blocks a s = set (blocks (AddrPtr (OSMems s a)) (ucast (BlkSize (OSMems s a))) (unat (NbrMax (OSMems s a))))"

definition blk_taken :: "nat \<Rightarrow> u32 \<Rightarrow> kernel \<Rightarrow> kernel" where
  "blk_taken a b s = s\<lparr>OSMems := (OSMems s)(a := (OSMems s a)
     \<lparr>FreeListPtr := OSStkMem s b, NbrFree := NbrFree (OSMems s a) - 1\<rparr>)\<rparr>"

definition blk_given :: "nat \<Rightarrow> u32 \<Rightarrow> kernel \<Rightarrow> kernel" where
  "blk_given a b s = s\<lparr>OSStkMem := (OSStkMem s)(b := FreeListPtr (OSMems s a)),
     OSMems := (OSMems s)(a := (OSMems s a)\<lparr>FreeListPtr := b, NbrFree := NbrFree (OSMems s a) + 1\<rparr>)\<rparr>"

lemma mem_blocks_upd [simp]: "mem_blocks a (blk_taken a' b s) = mem_blocks a s" "mem_blocks a (blk_given a' b s) = mem_blocks a s"
  by (simp_all add: mem_blocks_def blk_taken_def blk_given_def)

lemma OSMemGet_run:
  assumes "mem_inv s a (b # bs)"
  shows "OSMemGet (Some a) s = Some (b, OS_ERR_NONE, blk_taken a b s)" and "mem_inv (blk_taken a b s) a bs"
proof -
  have "NbrFree (OSMems s a) \<noteq> 0" using mem_inv_count [OF assms] by auto
  with assms show "OSMemGet (Some a) s = Some (b, OS_ERR_NONE, blk_taken a b s)"
    by (simp add: OSMemGet_def kdefs mem_inv_def blk_taken_def Let_def)
  show "mem_inv (blk_taken a b s) a bs" using assms by (auto simp: mem_inv_def blk_taken_def Let_def)
qed

lemma OSMemPut_run:
  assumes I: "mem_inv s a bs" and b: "b \<in> mem_blocks a s - set bs"
  shows "OSMemPut (Some a) b s = Some (OS_ERR_NONE, blk_given a b s)" and "mem_inv (blk_given a b s) a (b # bs)"
proof -
  let ?all = "blocks (AddrPtr (OSMems s a)) (ucast (BlkSize (OSMems s a))) (unat (NbrMax (OSMems s a)))"
  have all: "distinct ?all" "0 \<notin> set ?all" "distinct bs" "set bs \<subseteq> set ?all" using I by (auto simp: mem_inv_def Let_def)
  have b0: "b \<noteq> 0" "b \<notin> set bs" "b \<in> set ?all" using b all(2) by (auto simp: mem_blocks_def)
  have "card (set bs) < card (set ?all)" using all b0 by (intro psubset_card_mono) auto
  then have "length bs < unat (NbrMax (OSMems s a))" using all(1,3) by (simp add: distinct_card)
  then have nf: "\<not> NbrMax (OSMems s a) \<le> NbrFree (OSMems s a)"
    using mem_inv_count [OF I] by (simp add: word_le_nat_alt)
  with I b0 show "OSMemPut (Some a) b s = Some (OS_ERR_NONE, blk_given a b s)"
    by (simp add: OSMemPut_def kdefs mem_inv_def blk_given_def Let_def)
  show "mem_inv (blk_given a b s) a (b # bs)" using I b0 by (auto simp: mem_inv_def blk_given_def Let_def)
qed

interpretation mem_pool: block_pool "OSMemGet (Some a)" "OSMemPut (Some a)" "\<lambda>s. mem_inv s a" "mem_blocks a" OS_ERR_NONE
  for a
proof unfold_locales
  fix s b bs assume I: "mem_inv s a (b # bs)"
  show "\<exists>s'. OSMemGet (Some a) s = Some (b, OS_ERR_NONE, s') \<and> mem_inv s' a bs \<and> mem_blocks a s' = mem_blocks a s"
    using OSMemGet_run [OF I] by simp
next
  fix s bs b assume A: "mem_inv s a bs" "b \<in> mem_blocks a s - set bs"
  show "\<exists>s'. OSMemPut (Some a) b s = Some (OS_ERR_NONE, s') \<and> mem_inv s' a (b # bs) \<and> mem_blocks a s' = mem_blocks a s"
    using OSMemPut_run [OF A] by simp
next
  fix s bs assume "mem_inv s a bs"
  then show "distinct bs \<and> set bs \<subseteq> mem_blocks a s" by (simp add: mem_inv_def mem_blocks_def Let_def)
qed

lemma unat_ucast_16_32: "unat (ucast (w :: u16) :: u32) = unat w"
proof -
  have "unat w < 2 ^ LENGTH(16)" by (rule unsigned_less)
  then show ?thesis by (simp add: unsigned_ucast_eq take_bit_nat_eq_self)
qed

lemma blk_size_nonzero: "4 \<le> (z :: u16) \<Longrightarrow> (ucast z :: u32) \<noteq> 0"
  using unat_ucast_16_32 [of z] by (auto simp: word_le_nat_alt)

text \<open>The blocks of an area that ends below \<open>2 ^ 32\<close> are distinct words.\<close>

lemma blocks_distinct:
  assumes z: "z \<noteq> 0" and fit: "unat p + n * unat z \<le> 2 ^ 32" and p: "p \<noteq> 0"
  shows "distinct (blocks p z n) \<and> 0 \<notin> set (blocks p z n)"
proof -
  have z0: "0 < unat z" using z by (simp add: unat_gt_0)
  have u: "unat (p + of_nat i * z) = unat p + i * unat z" if "i < n" for i
  proof -
    have "Suc i * unat z \<le> n * unat z" using that by (intro mult_right_mono) auto
    then have lt: "unat p + i * unat z < 2 ^ LENGTH(32)" using fit z0 by simp
    have "p + of_nat i * z = of_nat (unat p + i * unat z)" by simp
    then show ?thesis using lt by (simp only: unat_of_nat mod_less)
  qed
  have "inj_on (\<lambda>i. p + of_nat i * z) {..<n}"
  proof (rule inj_onI)
    fix i j assume ij: "i \<in> {..<n}" "j \<in> {..<n}" and e: "p + of_nat i * z = p + of_nat j * z"
    have "unat p + i * unat z = unat p + j * unat z"
      using arg_cong [OF e, of unat] ij by (simp only: u lessThan_iff)
    then have "i * unat z = j * unat z" by (rule add_left_imp_eq)
    then show "i = j" using z0 by (metis mult_cancel2 not_gr_zero)
  qed
  then have "distinct (blocks p z n)" by (simp add: blocks_def distinct_map atLeast0LessThan)
  moreover have "p + of_nat i * z \<noteq> 0" if "i < n" for i
    using u [OF that] p by (metis add_is_0 unat_eq_zero)
  ultimately show ?thesis by (auto simp: blocks_def)
qed

section \<open>Properties\<close>

text \<open>C36: A new partition owns the blocks of its area, all free, distinct and in order; nothing outside
  the area is written, and a partition with blocks outside the area keeps its free list.\<close>

theorem OSMemCreate_links_blocks:
  assumes i: "OSIntNestingCtr s = 0" and p: "p_addr \<noteq> 0" "p_addr AND 3 = 0" and n: "2 \<le> n_blks"
    and z: "4 \<le> blk_size" "blk_size AND 3 = 0" and fit: "unat p_addr + unat n_blks * unat blk_size \<le> 2 ^ 32"
    and new: "Mem_Type (OSMems s a) \<noteq> OS_OBJ_TYPE_MEM"
  shows "\<exists>s'. OSMemCreate (Some a) nm p_addr n_blks blk_size s = Some (OS_ERR_NONE, s') \<and>
    mem_inv s' a (blocks p_addr (ucast blk_size) (unat n_blks)) \<and>
    mem_blocks a s' = set (blocks p_addr (ucast blk_size) (unat n_blks)) \<and>
    (\<forall>x. x \<notin> mem_blocks a s' \<longrightarrow> OSStkMem s' x = OSStkMem s x) \<and>
    (\<forall>c bs. c \<noteq> a \<longrightarrow> mem_inv s c bs \<longrightarrow> mem_blocks c s \<inter> mem_blocks a s' = {} \<longrightarrow> mem_inv s' c bs)"
proof -
  let ?z = "ucast blk_size :: u32" and ?n = "unat n_blks"
  let ?m = "mem_link_loop (unat (n_blks - 1)) p_addr p_addr ?z (OSStkMem s)" and ?all = "blocks p_addr ?z ?n"
  let ?b = "(OSMems s a)\<lparr>Mem_Type := OS_OBJ_TYPE_MEM, Mem_NamePtr := nm, AddrPtr := p_addr, FreeListPtr := p_addr,
      NbrFree := n_blks, NbrMax := n_blks, BlkSize := blk_size\<rparr>"
  let ?s = "s\<lparr>OSStkMem := ?m, OSMems := (OSMems s)(a := ?b)\<rparr>"
  have uz: "unat ?z = unat blk_size" by (rule unat_ucast_16_32)
  have z0: "?z \<noteq> 0" by (rule blk_size_nonzero [OF z(1)])
  have d: "distinct ?all" "0 \<notin> set ?all" using blocks_distinct [OF z0 _ p(1)] fit uz by auto
  have n1: "?n = Suc (unat (n_blks - 1))" using n by (simp add: unat_sub word_le_nat_alt)
  have ch: "chain ?m p_addr ?all" "\<forall>x. x \<notin> set ?all \<longrightarrow> ?m x = OSStkMem s x"
    using mem_link_loop_chain [of p_addr ?z "unat (n_blks - 1)" "OSStkMem s"] d unfolding n1 by auto
  have "\<exists>f. OS_MemDbgListAdd (Some a) ?s = Some (?s\<lparr>OSMems := f, OSMemDbgListPtr := Some a\<rparr>) \<and>
      (\<forall>c. Mem_Type (f c) = Mem_Type (OSMems ?s c) \<and> FreeListPtr (f c) = FreeListPtr (OSMems ?s c) \<and>
        AddrPtr (f c) = AddrPtr (OSMems ?s c) \<and> BlkSize (f c) = BlkSize (OSMems ?s c) \<and>
        NbrMax (f c) = NbrMax (OSMems ?s c) \<and> NbrFree (f c) = NbrFree (OSMems ?s c))"
    by (cases "OSMemDbgListPtr s") (auto simp: OS_MemDbgListAdd_def kdefs)
  then obtain f where f: "OS_MemDbgListAdd (Some a) ?s = Some (?s\<lparr>OSMems := f, OSMemDbgListPtr := Some a\<rparr>)"
    "\<And>c. Mem_Type (f c) = Mem_Type (OSMems ?s c)" "\<And>c. FreeListPtr (f c) = FreeListPtr (OSMems ?s c)"
    "\<And>c. AddrPtr (f c) = AddrPtr (OSMems ?s c)" "\<And>c. BlkSize (f c) = BlkSize (OSMems ?s c)"
    "\<And>c. NbrMax (f c) = NbrMax (OSMems ?s c)" "\<And>c. NbrFree (f c) = NbrFree (OSMems ?s c)" by blast
  let ?s' = "?s\<lparr>OSMems := f, OSMemDbgListPtr := Some a, OSMemQty := OSMemQty s + 1\<rparr>"
  have c: "\<not> n_blks < 2" "\<not> blk_size < 4" using n z(1) by auto
  have run: "OSMemCreate (Some a) nm p_addr n_blks blk_size s = Some (OS_ERR_NONE, ?s')"
    using i p z(2) c new f(1) by (simp add: OSMemCreate_def Let_def kdefs)
  have I: "mem_inv ?s' a ?all" using ch(1) d by (simp add: mem_inv_def f Let_def)
  have B: "mem_blocks a ?s' = set ?all" by (simp add: mem_blocks_def f)
  have "mem_inv ?s' c bs" if "c \<noteq> a" "mem_inv s c bs" "mem_blocks c s \<inter> set ?all = {}" for c bs
  proof -
    have "x \<notin> set ?all" if "x \<in> set bs" for x
      using that \<open>mem_inv s c bs\<close> \<open>mem_blocks c s \<inter> set ?all = {}\<close> by (auto simp: mem_inv_def mem_blocks_def Let_def)
    then have "chain ?m q bs \<longleftrightarrow> chain (OSStkMem s) q bs" for q
    proof (induction bs arbitrary: q)
      case (Cons x xs)
      then show ?case using ch(2) by auto
    qed simp
    with that show ?thesis by (simp add: mem_inv_def f Let_def)
  qed
  with run I B ch(2) show ?thesis by (intro exI [of _ ?s']) auto
qed

lemma pool_args:
  "(0x20000000 :: u32) \<noteq> 0" "(0x20000000 :: u32) AND 3 = 0" "(2 :: u16) \<le> 3" "(4 :: u16) \<le> 16" "(16 :: u16) AND 3 = 0"
  "unat (0x20000000 :: u32) + unat (3 :: u16) * unat (16 :: u16) \<le> 2 ^ 32"
  by simp_all

theorem OSMemCreate_links_blocks_witness:
  "\<exists>s'. OSMemCreate (Some 7) ''pool'' 0x20000000 3 16 demo = Some (OS_ERR_NONE, s') \<and>
     mem_inv s' 7 [0x20000000, 0x20000010, 0x20000020]"
proof -
  have b: "blocks 0x20000000 (ucast (16 :: u16)) (unat (3 :: u16)) = [0x20000000, 0x20000010, 0x20000020]"
    by (simp add: blocks_def upt_rec)
  have d: "OSIntNestingCtr demo = 0" "Mem_Type (OSMems demo 7) \<noteq> OS_OBJ_TYPE_MEM" by (simp_all add: demo_def)
  from OSMemCreate_links_blocks [OF d(1) pool_args d(2), of "''pool''"] show ?thesis unfolding b by blast
qed

text \<open>C11: The blocks a partition hands out are distinct blocks of the partition and leave the free list, as long
  as there are any; then the error is \<open>OS_ERR_MEM_NO_FREE_BLKS\<close>.\<close>

theorem OSMemGet_distinct_blocks:
  assumes I: "mem_inv s a bs" and n: "n \<le> length bs"
  shows "\<exists>s'. repeat_get (OSMemGet (Some a)) n s = Some (take n bs, s') \<and> mem_inv s' a (drop n bs) \<and>
    distinct (take n bs) \<and> set (take n bs) \<subseteq> mem_blocks a s \<and>
    (n = length bs \<longrightarrow> OSMemGet (Some a) s' = Some (0, OS_ERR_MEM_NO_FREE_BLKS, s'))"
proof -
  have "mem_inv s a (take n bs @ drop n bs)" using I by simp
  from mem_pool.gets [OF this] n obtain s' where s': "repeat_get (OSMemGet (Some a)) n s = Some (take n bs, s')"
    "mem_inv s' a (drop n bs)" by auto
  moreover have "OSMemGet (Some a) s' = Some (0, OS_ERR_MEM_NO_FREE_BLKS, s')" if "n = length bs"
    using s'(2) mem_inv_count [OF s'(2)] that by (simp add: OSMemGet_def kdefs mem_inv_def Let_def)
  ultimately show ?thesis using mem_pool.distinct_law [OF I] by (auto dest: in_set_takeD)
qed

theorem OSMemGet_distinct_blocks_witness:
  "\<exists>s s'. repeat_get (OSMemGet (Some 7)) 2 s = Some ([0x20000000, 0x20000010], s') \<and> mem_inv s' 7 [0x20000020]"
proof -
  have b: "blocks 0x20000000 (ucast (16 :: u16)) (unat (3 :: u16)) = [0x20000000, 0x20000010, 0x20000020]"
    by (simp add: blocks_def upt_rec)
  let ?s = "demo\<lparr>OSMems := (OSMems demo)(7 := (OSMems demo 7)\<lparr>Mem_Type := OS_OBJ_TYPE_MEM, AddrPtr := 0x20000000,
    FreeListPtr := 0x20000000, BlkSize := 16, NbrMax := 3, NbrFree := 3\<rparr>),
    OSStkMem := (\<lambda>_. 0)(0x20000000 := 0x20000010, 0x20000010 := 0x20000020)\<rparr>"
  have "mem_inv ?s 7 [0x20000000, 0x20000010, 0x20000020]" by (simp add: mem_inv_def Let_def b [simplified])
  from OSMemGet_distinct_blocks [OF this, of 2] show ?thesis by auto
qed

text \<open>A block goes back where it came from: whatever its user wrote into it, or anywhere but into the free
  blocks, giving it back makes it the next block handed out, in front of the same free list.\<close>

theorem OSMemGet_Put_roundtrip:
  assumes I: "mem_inv s a (b # bs)" and m: "\<And>x. x \<in> set bs \<Longrightarrow> m x = OSStkMem s x"
  shows "\<exists>s1 s2. OSMemGet (Some a) s = Some (b, OS_ERR_NONE, s1) \<and>
    OSMemPut (Some a) b (s1\<lparr>OSStkMem := m\<rparr>) = Some (OS_ERR_NONE, s2) \<and> mem_inv s2 a (b # bs)"
proof -
  note G = OSMemGet_run [OF I]
  let ?s = "(blk_taken a b s)\<lparr>OSStkMem := m\<rparr>"
  have "chain m q bs \<longleftrightarrow> chain (OSStkMem s) q bs" for q using m by (induction bs arbitrary: q) auto
  then have I': "mem_inv ?s a bs" using G(2) by (simp add: mem_inv_def blk_taken_def Let_def)
  have "b \<in> mem_blocks a ?s - set bs" using mem_pool.distinct_law [OF I] by (auto simp: mem_blocks_def blk_taken_def)
  from mem_pool.put_law [OF I' this] G(1) show ?thesis by blast
qed

theorem OSMemGet_Put_roundtrip_witness:
  "\<exists>s s1 s2. OSMemGet (Some 7) s = Some (0x20000000, OS_ERR_NONE, s1) \<and>
     OSMemPut (Some 7) 0x20000000 (s1\<lparr>OSStkMem := (OSStkMem s)(0x20000000 := 99)\<rparr>) = Some (OS_ERR_NONE, s2) \<and>
     mem_inv s2 7 [0x20000000, 0x20000010]"
proof -
  have b: "blocks 0x20000000 (ucast (16 :: u16)) (unat (2 :: u16)) = [0x20000000, 0x20000010]"
    by (simp add: blocks_def upt_rec)
  let ?s = "demo\<lparr>OSMems := (OSMems demo)(7 := (OSMems demo 7)\<lparr>Mem_Type := OS_OBJ_TYPE_MEM, AddrPtr := 0x20000000,
    FreeListPtr := 0x20000000, BlkSize := 16, NbrMax := 2, NbrFree := 2\<rparr>),
    OSStkMem := (\<lambda>_. 0)(0x20000000 := 0x20000010)\<rparr>"
  have "mem_inv ?s 7 [0x20000000, 0x20000010]" by (simp add: mem_inv_def Let_def b [simplified])
  from OSMemGet_Put_roundtrip [OF this, of "(OSStkMem ?s)(0x20000000 := 99)"] obtain s1 s2 where
    "OSMemGet (Some 7) ?s = Some (0x20000000, OS_ERR_NONE, s1)"
    "OSMemPut (Some 7) 0x20000000 (s1\<lparr>OSStkMem := (OSStkMem ?s)(0x20000000 := 99)\<rparr>) = Some (OS_ERR_NONE, s2)"
    "mem_inv s2 7 [0x20000000, 0x20000010]" by auto
  then show ?thesis by blast
qed

text \<open>A fault of \<open>OSMemCreate\<close>: creating a partition that exists is refused with \<open>OS_ERR_OBJ_CREATED\<close>, but
  the links have been written before the test, so that the first words of blocks in use are lost.\<close>

theorem OSMemCreate_refused_overwrites:
  assumes i: "OSIntNestingCtr s = 0" and p: "p_addr \<noteq> 0" "p_addr AND 3 = 0" and n: "2 \<le> n_blks"
    and z: "4 \<le> blk_size" "blk_size AND 3 = 0" and fit: "unat p_addr + unat n_blks * unat blk_size \<le> 2 ^ 32"
    and old: "Mem_Type (OSMems s a) = OS_OBJ_TYPE_MEM"
  shows "\<exists>s'. OSMemCreate (Some a) nm p_addr n_blks blk_size s = Some (OS_ERR_OBJ_CREATED, s') \<and>
    OSStkMem s' p_addr = p_addr + ucast blk_size"
proof -
  let ?z = "ucast blk_size :: u32"
  have uz: "unat ?z = unat blk_size" by (rule unat_ucast_16_32)
  have z0: "?z \<noteq> 0" by (rule blk_size_nonzero [OF z(1)])
  have n1: "unat n_blks = Suc (unat (n_blks - 1))" "unat (n_blks - 1) \<noteq> 0"
    using n by (auto simp: unat_sub word_le_nat_alt)
  then obtain k where k: "unat n_blks = Suc (Suc k)" "unat (n_blks - 1) = Suc k" by (metis not0_implies_Suc)
  have "blocks p_addr ?z (Suc (Suc k)) = p_addr # (p_addr + ?z) # drop 2 (blocks p_addr ?z (Suc (Suc k)))"
    by (simp add: blocks_def upt_conv_Cons del: upt_Suc)
  moreover have "distinct (blocks p_addr ?z (Suc (Suc k)))" "0 \<notin> set (blocks p_addr ?z (Suc (Suc k)))"
    using blocks_distinct [OF z0 _ p(1), of "Suc (Suc k)"] fit uz k(1) by auto
  then have "chain (mem_link_loop (Suc k) p_addr p_addr ?z (OSStkMem s)) p_addr (blocks p_addr ?z (Suc (Suc k)))"
    using mem_link_loop_chain by blast
  ultimately have "mem_link_loop (Suc k) p_addr p_addr ?z (OSStkMem s) p_addr = p_addr + ?z"
    by (metis chain.simps(2))
  moreover have "\<not> n_blks < 2" "\<not> blk_size < 4" using n z(1) by auto
  ultimately show ?thesis using i p z(2) old by (simp add: OSMemCreate_def Let_def kdefs k(2))
qed

theorem OSMemCreate_refused_overwrites_witness:
  "\<exists>s s'. OSMemCreate (Some 7) ''pool'' 0x20000000 3 16 s = Some (OS_ERR_OBJ_CREATED, s') \<and>
     OSStkMem s 0x20000000 = 99 \<and> OSStkMem s' 0x20000000 = 0x20000010"
proof -
  let ?s = "demo\<lparr>OSMems := (OSMems demo)(7 := (OSMems demo 7)\<lparr>Mem_Type := OS_OBJ_TYPE_MEM\<rparr>),
    OSStkMem := (\<lambda>_. 99)\<rparr>"
  have "OSIntNestingCtr ?s = 0" "Mem_Type (OSMems ?s 7) = OS_OBJ_TYPE_MEM" by (simp_all add: demo_def)
  from OSMemCreate_refused_overwrites [OF this(1) pool_args this(2), of "''pool''"] obtain s' where
    "OSMemCreate (Some 7) ''pool'' 0x20000000 3 16 ?s = Some (OS_ERR_OBJ_CREATED, s')"
    "OSStkMem s' 0x20000000 = 0x20000000 + ucast (16 :: u16)" by blast
  moreover have "(0x20000000 :: u32) + ucast (16 :: u16) = 0x20000010" "OSStkMem ?s 0x20000000 = 99" by simp_all
  ultimately show ?thesis by metis
qed

end
