(* ===== verification/Os_Tmr.thy ===== *)
theory Os_Tmr
  imports Os_Task Os_Time
begin

text \<open>
  Software timers (\<open>os_tmr.c\<close>). The running timers are in a doubly linked list from \<open>OSTmrListPtr\<close>
  with the ticks between one expiry and the next in \<open>Remain\<close>, counted from \<open>OSTmrTaskTickBase\<close>. The
  timer task waits on \<open>OSTmrCond\<close> for the first expiry; \<open>OSTmrMutex\<close> protects the list. The callbacks
  belong to the application: \<open>cb f p_tmr p_arg s\<close> is the effect of calling the function at \<open>f\<close>. A
  call that has to wait for the mutex returns \<open>Blocked\<close> and is continued with the part after the lock
  (\<open>_locked\<close>) when the caller runs again. The measurement of the running time of the timer task is left out.
\<close>

section \<open>Objects of the timer module\<close>

definition OSTmrTaskTCB :: nat where "OSTmrTaskTCB = 1000"
definition OSTmrMutex :: nat where "OSTmrMutex = 1001"
definition OSTmrCond :: nat where "OSTmrCond = 1002"

definition OSCfg_TmrTaskPrio :: u8 where "OSCfg_TmrTaskPrio = 29"
definition OSCfg_TmrTaskRate_Hz :: u32 where "OSCfg_TmrTaskRate_Hz = 1000"
definition OSCfg_TmrTaskStkLimit :: u32 where "OSCfg_TmrTaskStkLimit = 12"
definition OSCfg_TmrTaskStkSize :: u32 where "OSCfg_TmrTaskStkSize = 128"

type_synonym callback = "u32 \<Rightarrow> ptr \<Rightarrow> ptr \<Rightarrow> kernel \<Rightarrow> kernel option"

definition tmr :: "kernel \<Rightarrow> ptr \<Rightarrow> OS_TMR option" where
  [kdefs]: "tmr s p = map_option (OSTmrs s) p"

definition set_tmr :: "ptr \<Rightarrow> (OS_TMR \<Rightarrow> OS_TMR) \<Rightarrow> kernel \<Rightarrow> kernel option" where
  [kdefs]: "set_tmr p f s = map_option (\<lambda>a. s\<lparr>OSTmrs := (OSTmrs s)(a := f (OSTmrs s a))\<rparr>) p"

section \<open>The lock and the condition\<close>

definition OS_TmrLock :: "kernel \<Rightarrow> ((u32 option \<times> OS_ERR) pend_outcome \<times> kernel) option" where
  "OS_TmrLock s = OSMutexPend (Some OSTmrMutex) 0 OS_OPT_PEND_BLOCKING s"

definition OS_TmrUnlock :: "u32 \<Rightarrow> kernel \<Rightarrow> kernel option" where
  "OS_TmrUnlock ts s = do { (_, s) \<leftarrow> OSMutexPost (Some OSTmrMutex) OS_OPT_POST_NONE ts s; Some s }"

definition OS_TmrCondCreate :: "kernel \<Rightarrow> kernel option" where
  "OS_TmrCondCreate s = do {
     s \<leftarrow> set_obj (Some OSTmrCond) (\<lambda>b. b\<lparr>Type := OS_OBJ_TYPE_COND\<rparr>) s;
     OS_PendListInit (Some OSTmrCond) s
   }"

text \<open>The wait of the timer task: it gives the mutex up, waits on the condition, and takes the mutex
  again (\<open>OS_TmrCondWait_resume\<close>), for which it may have to wait a second time.\<close>

definition OS_TmrCondWait :: "u32 \<Rightarrow> u32 \<Rightarrow> kernel \<Rightarrow> kernel option" where
  "OS_TmrCondWait timeout ts s = do {
     s \<leftarrow> set_mutex (Some OSTmrMutex) (\<lambda>m. m\<lparr>Mutex_TS := ts\<rparr>) s;
     s \<leftarrow> OS_MutexGrpRemove (Some OSTmrTaskTCB) (Some OSTmrMutex) s;
     t \<leftarrow> tcb s (Some OSTmrTaskTCB);
     s \<leftarrow> (if Prio t \<noteq> BasePrio t then do {
            s \<leftarrow> set_tcb (Some OSTmrTaskTCB) (\<lambda>t. t\<lparr>Prio := BasePrio t\<rparr>) s;
            Some (s\<lparr>OSPrioCur := BasePrio t\<rparr>)
          } else Some s);
     l \<leftarrow> pend_list s (Some OSTmrMutex);
     s \<leftarrow> (if PL_HeadPtr l = None then do {
            s \<leftarrow> set_mutex (Some OSTmrMutex) (\<lambda>m. m\<lparr>OwnerTCBPtr := None\<rparr>) s;
            set_mutex (Some OSTmrMutex) (\<lambda>m. m\<lparr>OwnerNestingCtr := 0\<rparr>) s
          } else do {
            let p_tcb = PL_HeadPtr l;
            s \<leftarrow> set_mutex (Some OSTmrMutex) (\<lambda>m. m\<lparr>OwnerTCBPtr := p_tcb\<rparr>) s;
            s \<leftarrow> set_mutex (Some OSTmrMutex) (\<lambda>m. m\<lparr>OwnerNestingCtr := 1\<rparr>) s;
            s \<leftarrow> OS_MutexGrpAdd p_tcb (Some OSTmrMutex) s;
            OS_Post (Some OSTmrMutex) p_tcb None 0 ts s
          });
     s \<leftarrow> OS_Pend (Some OSTmrCond) (Some OSTmrTaskTCB) OS_TASK_PEND_ON_COND timeout s;
     OSSched s
   }"

definition OS_TmrCondWait_resume :: "kernel \<Rightarrow> (unit pend_outcome \<times> kernel) option" where
  "OS_TmrCondWait_resume s = do {
     m \<leftarrow> mutex s (Some OSTmrMutex);
     if OwnerTCBPtr m = None then do {
       s \<leftarrow> OS_MutexGrpAdd (Some OSTmrTaskTCB) (Some OSTmrMutex) s;
       s \<leftarrow> set_mutex (Some OSTmrMutex) (\<lambda>m. m\<lparr>OwnerTCBPtr := Some OSTmrTaskTCB\<rparr>) s;
       s \<leftarrow> set_mutex (Some OSTmrMutex) (\<lambda>m. m\<lparr>OwnerNestingCtr := 1\<rparr>) s;
       Some (Done (), s)
     } else do {
       let p_tcb = OwnerTCBPtr m;
       owner \<leftarrow> tcb s p_tcb;
       t \<leftarrow> tcb s (Some OSTmrTaskTCB);
       s \<leftarrow> (if Prio owner > Prio t then OS_TaskChangePrio p_tcb (Prio t) s else Some s);
       s \<leftarrow> OS_Pend (Some OSTmrMutex) (Some OSTmrTaskTCB) OS_TASK_PEND_ON_MUTEX 0 s;
       s \<leftarrow> OSSched s;
       Some (Blocked, s)
     }
   }"

definition OS_TmrCondSignal :: "u32 \<Rightarrow> kernel \<Rightarrow> kernel option" where
  "OS_TmrCondSignal ts s = do {
     s \<leftarrow> set_mutex (Some OSTmrMutex) (\<lambda>m. m\<lparr>Mutex_TS := ts\<rparr>) s;
     l \<leftarrow> pend_list s (Some OSTmrCond);
     if PL_HeadPtr l = None then Some s
     else OS_Post (Some OSTmrCond) (Some OSTmrTaskTCB) None 0 ts s
   }"

section \<open>The list of running timers\<close>

text \<open>The loop of \<open>OS_TmrLink\<close>: the place behind the timers that expire not later.\<close>

partial_function (option) tmr_scan :: "u32 \<Rightarrow> ptr \<Rightarrow> ptr \<Rightarrow> kernel \<Rightarrow> (u32 \<times> ptr \<times> ptr) option" where
  "tmr_scan delta p_tmr1 p_tmr2 s =
     (case p_tmr2 of
        None \<Rightarrow> Some (delta, p_tmr1, None)
      | Some b \<Rightarrow>
          if delta \<ge> Remain (OSTmrs s b)
          then tmr_scan (delta - Remain (OSTmrs s b)) p_tmr2 (Tmr_NextPtr (OSTmrs s b)) s
          else Some (delta, p_tmr1, p_tmr2))"

definition OS_TmrLink :: "ptr \<Rightarrow> u32 \<Rightarrow> u32 \<Rightarrow> kernel \<Rightarrow> kernel option" where
  "OS_TmrLink p_tmr time ts s =
     (if OSTmrListPtr s = None then do {
        s \<leftarrow> set_tmr p_tmr (\<lambda>t. t\<lparr>Tmr_NextPtr := None\<rparr>) s;
        s \<leftarrow> set_tmr p_tmr (\<lambda>t. t\<lparr>Tmr_PrevPtr := None\<rparr>) s;
        let s = s\<lparr>OSTmrListPtr := p_tmr\<rparr>;
        let s = s\<lparr>OSTmrListEntries := 1\<rparr>;
        let s = s\<lparr>OSTmrTaskTickBase := time\<rparr>;
        OS_TmrCondSignal ts s
      } else do {
        let s = s\<lparr>OSTmrListEntries := OSTmrListEntries s + 1\<rparr>;
        t \<leftarrow> tmr s p_tmr;
        let delta = (time + Remain t) - OSTmrTaskTickBase s;
        let p_tmr2 = OSTmrListPtr s;
        t2 \<leftarrow> tmr s p_tmr2;
        let remain = Remain t2;
        if delta < remain \<and> Tmr_PrevPtr t2 = None then do {
          s \<leftarrow> set_tmr p_tmr2 (\<lambda>t. t\<lparr>Remain := remain - delta\<rparr>) s;
          s \<leftarrow> set_tmr p_tmr (\<lambda>t. t\<lparr>Tmr_PrevPtr := None\<rparr>) s;
          s \<leftarrow> set_tmr p_tmr (\<lambda>t. t\<lparr>Tmr_NextPtr := p_tmr2\<rparr>) s;
          s \<leftarrow> set_tmr p_tmr2 (\<lambda>t. t\<lparr>Tmr_PrevPtr := p_tmr\<rparr>) s;
          let s = s\<lparr>OSTmrListPtr := p_tmr\<rparr>;
          let s = s\<lparr>OSTmrTaskTickBase := time\<rparr>;
          OS_TmrCondSignal ts s
        } else do {
          (delta, p_tmr1, p_tmr2) \<leftarrow> tmr_scan (delta - remain) p_tmr2 (Tmr_NextPtr t2) s;
          if p_tmr2 \<noteq> None then do {
            t2 \<leftarrow> tmr s p_tmr2;
            let p_tmr1 = Tmr_PrevPtr t2;
            s \<leftarrow> set_tmr p_tmr (\<lambda>t. t\<lparr>Remain := delta\<rparr>) s;
            s \<leftarrow> set_tmr p_tmr (\<lambda>t. t\<lparr>Tmr_PrevPtr := p_tmr1\<rparr>) s;
            s \<leftarrow> set_tmr p_tmr (\<lambda>t. t\<lparr>Tmr_NextPtr := p_tmr2\<rparr>) s;
            s \<leftarrow> set_tmr p_tmr2 (\<lambda>t. t\<lparr>Remain := Remain t - delta\<rparr>) s;
            s \<leftarrow> set_tmr p_tmr2 (\<lambda>t. t\<lparr>Tmr_PrevPtr := p_tmr\<rparr>) s;
            set_tmr p_tmr1 (\<lambda>t. t\<lparr>Tmr_NextPtr := p_tmr\<rparr>) s
          } else do {
            s \<leftarrow> set_tmr p_tmr (\<lambda>t. t\<lparr>Remain := delta\<rparr>) s;
            s \<leftarrow> set_tmr p_tmr (\<lambda>t. t\<lparr>Tmr_PrevPtr := p_tmr1\<rparr>) s;
            s \<leftarrow> set_tmr p_tmr (\<lambda>t. t\<lparr>Tmr_NextPtr := None\<rparr>) s;
            set_tmr p_tmr1 (\<lambda>t. t\<lparr>Tmr_NextPtr := p_tmr\<rparr>) s
          }
        }
      })"

text \<open>The loop that takes elapsed ticks off the timers, in \<open>OS_TmrUnlink\<close> and \<open>OS_TmrTask\<close>.\<close>

partial_function (option) tmr_consume :: "u32 \<Rightarrow> ptr \<Rightarrow> kernel \<Rightarrow> kernel option" where
  "tmr_consume elapsed p_tmr s =
     (if elapsed > 0 \<and> p_tmr \<noteq> None then do {
        t \<leftarrow> tmr s p_tmr;
        (elapsed, s) \<leftarrow>
          (if elapsed > Remain t then do {
             s \<leftarrow> set_tmr p_tmr (\<lambda>t. t\<lparr>Remain := 0\<rparr>) s;
             Some (elapsed - Remain t, s)
           } else do {
             s \<leftarrow> set_tmr p_tmr (\<lambda>t. t\<lparr>Remain := Remain t - elapsed\<rparr>) s;
             Some (0, s)
           });
        tmr_consume elapsed (Tmr_NextPtr t) s
      } else Some s)"

definition OS_TmrUnlink :: "ptr \<Rightarrow> u32 \<Rightarrow> u32 \<Rightarrow> kernel \<Rightarrow> kernel option" where
  "OS_TmrUnlink p_tmr time ts s = do {
     t \<leftarrow> tmr s p_tmr;
     let p_tmr1 = Tmr_PrevPtr t;
     let p_tmr2 = Tmr_NextPtr t;
     if p_tmr1 = None then
       if p_tmr2 = None then do {
         let s = s\<lparr>OSTmrListPtr := None\<rparr>;
         let s = s\<lparr>OSTmrListEntries := 0\<rparr>;
         s \<leftarrow> set_tmr p_tmr (\<lambda>t. t\<lparr>Remain := 0\<rparr>) s;
         let s = s\<lparr>OSTmrTaskTickBase := time\<rparr>;
         OS_TmrCondSignal ts s
       } else do {
         let s = s\<lparr>OSTmrListEntries := OSTmrListEntries s - 1\<rparr>;
         let elapsed = time - OSTmrTaskTickBase s;
         s \<leftarrow> set_tmr p_tmr2 (\<lambda>t. t\<lparr>Tmr_PrevPtr := None\<rparr>) s;
         s \<leftarrow> set_tmr p_tmr2 (\<lambda>t2. t2\<lparr>Remain := Remain t2 + Remain t\<rparr>) s;
         let s = s\<lparr>OSTmrListPtr := p_tmr2\<rparr>;
         s \<leftarrow> tmr_consume elapsed p_tmr2 s;
         h \<leftarrow> tmr s (OSTmrListPtr s);
         t \<leftarrow> tmr s p_tmr;
         s \<leftarrow> (if Remain h \<noteq> Remain t \<or> Remain h = 0
              then OS_TmrCondSignal ts (s\<lparr>OSTmrTaskTickBase := time\<rparr>) else Some s);
         s \<leftarrow> set_tmr p_tmr (\<lambda>t. t\<lparr>Tmr_NextPtr := None\<rparr>) s;
         set_tmr p_tmr (\<lambda>t. t\<lparr>Remain := 0\<rparr>) s
       }
     else do {
       let s = s\<lparr>OSTmrListEntries := OSTmrListEntries s - 1\<rparr>;
       s \<leftarrow> set_tmr p_tmr1 (\<lambda>t. t\<lparr>Tmr_NextPtr := p_tmr2\<rparr>) s;
       s \<leftarrow> (if p_tmr2 \<noteq> None then do {
              s \<leftarrow> set_tmr p_tmr2 (\<lambda>t. t\<lparr>Tmr_PrevPtr := p_tmr1\<rparr>) s;
              set_tmr p_tmr2 (\<lambda>t2. t2\<lparr>Remain := Remain t2 + Remain t\<rparr>) s
            } else Some s);
       s \<leftarrow> set_tmr p_tmr (\<lambda>t. t\<lparr>Tmr_PrevPtr := None\<rparr>) s;
       s \<leftarrow> set_tmr p_tmr (\<lambda>t. t\<lparr>Tmr_NextPtr := None\<rparr>) s;
       set_tmr p_tmr (\<lambda>t. t\<lparr>Remain := 0\<rparr>) s
     }
   }"

definition OS_TmrClr :: "ptr \<Rightarrow> kernel \<Rightarrow> kernel option" where
  "OS_TmrClr p_tmr s = set_tmr p_tmr (\<lambda>t. t\<lparr>State := OS_TMR_STATE_UNUSED, Tmr_Type := OS_OBJ_TYPE_NONE,
     Tmr_NamePtr := ''?TMR'', Dly := 0, Remain := 0, Period := 0, Opt := 0, CallbackPtr := 0,
     CallbackPtrArg := None, Tmr_NextPtr := None, Tmr_PrevPtr := None\<rparr>) s"

definition OS_TmrDbgListAdd :: "ptr \<Rightarrow> kernel \<Rightarrow> kernel option" where
  "OS_TmrDbgListAdd p_tmr s = do {
     s \<leftarrow> set_tmr p_tmr (\<lambda>t. t\<lparr>Tmr_DbgPrevPtr := None\<rparr>) s;
     s \<leftarrow>
       (if OSTmrDbgListPtr s = None then set_tmr p_tmr (\<lambda>t. t\<lparr>Tmr_DbgNextPtr := None\<rparr>) s
        else do {
          s \<leftarrow> set_tmr p_tmr (\<lambda>t. t\<lparr>Tmr_DbgNextPtr := OSTmrDbgListPtr s\<rparr>) s;
          set_tmr (OSTmrDbgListPtr s) (\<lambda>t. t\<lparr>Tmr_DbgPrevPtr := p_tmr\<rparr>) s
        });
     Some (s\<lparr>OSTmrDbgListPtr := p_tmr\<rparr>)
   }"

definition OS_TmrDbgListRemove :: "ptr \<Rightarrow> kernel \<Rightarrow> kernel option" where
  "OS_TmrDbgListRemove p_tmr s = do {
     t \<leftarrow> tmr s p_tmr;
     let p_tmr_prev = Tmr_DbgPrevPtr t;
     let p_tmr_next = Tmr_DbgNextPtr t;
     if p_tmr_prev = None then do {
       let s = s\<lparr>OSTmrDbgListPtr := p_tmr_next\<rparr>;
       s \<leftarrow> (if p_tmr_next \<noteq> None then set_tmr p_tmr_next (\<lambda>t. t\<lparr>Tmr_DbgPrevPtr := None\<rparr>) s else Some s);
       set_tmr p_tmr (\<lambda>t. t\<lparr>Tmr_DbgNextPtr := None\<rparr>) s
     } else if p_tmr_next = None then do {
       s \<leftarrow> set_tmr p_tmr_prev (\<lambda>t. t\<lparr>Tmr_DbgNextPtr := None\<rparr>) s;
       set_tmr p_tmr (\<lambda>t. t\<lparr>Tmr_DbgPrevPtr := None\<rparr>) s
     } else do {
       s \<leftarrow> set_tmr p_tmr_prev (\<lambda>t. t\<lparr>Tmr_DbgNextPtr := p_tmr_next\<rparr>) s;
       s \<leftarrow> set_tmr p_tmr_next (\<lambda>t. t\<lparr>Tmr_DbgPrevPtr := p_tmr_prev\<rparr>) s;
       s \<leftarrow> set_tmr p_tmr (\<lambda>t. t\<lparr>Tmr_DbgNextPtr := None\<rparr>) s;
       set_tmr p_tmr (\<lambda>t. t\<lparr>Tmr_DbgPrevPtr := None\<rparr>) s
     }
   }"

section \<open>Services\<close>

text \<open>A call that takes the lock and goes on with \<open>f\<close>, unless it has to wait for the lock.\<close>

definition with_tmr_lock :: "(kernel \<Rightarrow> ('a \<times> kernel) option) \<Rightarrow> kernel \<Rightarrow> ('a pend_outcome \<times> kernel) option" where
  "with_tmr_lock f s = do {
     (r, s) \<leftarrow> OS_TmrLock s;
     case r of Blocked \<Rightarrow> Some (Blocked, s)
     | Done _ \<Rightarrow> do { (x, s) \<leftarrow> f s; Some (Done x, s) }
   }"

text \<open>The checks shared by the calls on an existing timer.\<close>

definition tmr_guard :: "ptr \<Rightarrow> kernel \<Rightarrow> OS_ERR option" where
  "tmr_guard p_tmr s =
     (if OSIntNestingCtr s > 0 then Some OS_ERR_TMR_ISR
      else if OSRunning s \<noteq> OS_STATE_OS_RUNNING then Some OS_ERR_OS_NOT_RUNNING
      else case p_tmr of None \<Rightarrow> Some OS_ERR_TMR_INVALID
      | Some a \<Rightarrow> if Tmr_Type (OSTmrs s a) \<noteq> OS_OBJ_TYPE_TMR then Some OS_ERR_OBJ_TYPE else None)"

definition tmr_time :: "kernel \<Rightarrow> u32" where
  "tmr_time s = (if OSTCBCurPtr s = Some OSTmrTaskTCB then OSTmrTaskTickBase s else OSTickCtr s)"

definition OSTmrCreate_locked ::
  "ptr \<Rightarrow> string \<Rightarrow> u32 \<Rightarrow> u32 \<Rightarrow> OS_OPT \<Rightarrow> u32 \<Rightarrow> ptr \<Rightarrow> u32 \<Rightarrow> kernel \<Rightarrow> (OS_ERR \<times> kernel) option" where
  "OSTmrCreate_locked p_tmr p_name dly period opt p_callback p_callback_arg ts s = do {
     s \<leftarrow> set_tmr p_tmr (\<lambda>t. t\<lparr>State := OS_TMR_STATE_STOPPED\<rparr>) s;
     t \<leftarrow> tmr s p_tmr;
     if Tmr_Type t = OS_OBJ_TYPE_TMR then do {
       s \<leftarrow> (if OSRunning s = OS_STATE_OS_RUNNING then OS_TmrUnlock ts s else Some s);
       Some (OS_ERR_OBJ_CREATED, s)
     } else do {
       s \<leftarrow> set_tmr p_tmr (\<lambda>t. t\<lparr>Tmr_Type := OS_OBJ_TYPE_TMR, Tmr_NamePtr := p_name,
         Dly := dly * OSTmrToTicksMult s, Remain := 0, Period := period * OSTmrToTicksMult s, Opt := opt,
         CallbackPtr := p_callback, CallbackPtrArg := p_callback_arg, Tmr_NextPtr := None, Tmr_PrevPtr := None\<rparr>) s;
       s \<leftarrow> OS_TmrDbgListAdd p_tmr s;
       let s = s\<lparr>OSTmrQty := OSTmrQty s + 1\<rparr>;
       s \<leftarrow> (if OSRunning s = OS_STATE_OS_RUNNING then OS_TmrUnlock ts s else Some s);
       Some (OS_ERR_NONE, s)
     }
   }"

text \<open>The checks on delay, period and callback in \<open>OSTmrCreate\<close> and \<open>OSTmrSet\<close>.\<close>

definition tmr_times_err :: "OS_OPT \<Rightarrow> u32 \<Rightarrow> u32 \<Rightarrow> u32 \<Rightarrow> OS_ERR \<Rightarrow> OS_ERR option" where
  "tmr_times_err opt dly period p_callback dflt =
     (if opt = OS_OPT_TMR_PERIODIC then
        if period = 0 then Some OS_ERR_TMR_INVALID_PERIOD
        else if p_callback = 0 then Some OS_ERR_TMR_INVALID_CALLBACK
        else None
      else if opt = OS_OPT_TMR_ONE_SHOT then
        if dly = 0 then Some OS_ERR_TMR_INVALID_DLY else None
      else Some dflt)"

definition OSTmrCreate ::
  "ptr \<Rightarrow> string \<Rightarrow> u32 \<Rightarrow> u32 \<Rightarrow> OS_OPT \<Rightarrow> u32 \<Rightarrow> ptr \<Rightarrow> u32 \<Rightarrow> kernel \<Rightarrow> (OS_ERR pend_outcome \<times> kernel) option" where
  "OSTmrCreate p_tmr p_name dly period opt p_callback p_callback_arg ts s =
     (if OSIntNestingCtr s > 0 then Some (Done OS_ERR_TMR_ISR, s)
      else if p_tmr = None then Some (Done OS_ERR_OBJ_PTR_NULL, s)
      else case tmr_times_err opt dly period p_callback OS_ERR_OPT_INVALID of Some err \<Rightarrow> Some (Done err, s)
      | None \<Rightarrow>
          if OSRunning s = OS_STATE_OS_RUNNING
          then with_tmr_lock (OSTmrCreate_locked p_tmr p_name dly period opt p_callback p_callback_arg ts) s
          else do {
            (err, s) \<leftarrow> OSTmrCreate_locked p_tmr p_name dly period opt p_callback p_callback_arg ts s;
            Some (Done err, s)
          })"

definition OSTmrDel_locked :: "ptr \<Rightarrow> u32 \<Rightarrow> kernel \<Rightarrow> ((bool \<times> OS_ERR) \<times> kernel) option" where
  "OSTmrDel_locked p_tmr ts s = do {
     let time = tmr_time s;
     s \<leftarrow> OS_TmrDbgListRemove p_tmr s;
     t \<leftarrow> tmr s p_tmr;
     (r, s) \<leftarrow>
       (case State t of
          OS_TMR_STATE_UNUSED \<Rightarrow> Some ((False, OS_ERR_TMR_INACTIVE), s)
        | st \<Rightarrow> do {
            s \<leftarrow> (if st \<in> {OS_TMR_STATE_RUNNING, OS_TMR_STATE_TIMEOUT} then OS_TmrUnlink p_tmr time ts s else Some s);
            s \<leftarrow> OS_TmrClr p_tmr s;
            Some ((True, OS_ERR_NONE), s\<lparr>OSTmrQty := OSTmrQty s - 1\<rparr>)
          });
     s \<leftarrow> OS_TmrUnlock ts s;
     Some (r, s)
   }"

definition OSTmrDel :: "ptr \<Rightarrow> u32 \<Rightarrow> kernel \<Rightarrow> ((bool \<times> OS_ERR) pend_outcome \<times> kernel) option" where
  "OSTmrDel p_tmr ts s =
     (case tmr_guard p_tmr s of Some err \<Rightarrow> Some (Done (False, err), s)
      | None \<Rightarrow> with_tmr_lock (OSTmrDel_locked p_tmr ts) s)"

text \<open>The sum of the differences up to \<open>p_tmr\<close>.\<close>

partial_function (option) tmr_remain_loop :: "ptr \<Rightarrow> ptr \<Rightarrow> u32 \<Rightarrow> kernel \<Rightarrow> u32 option" where
  "tmr_remain_loop p_tmr p_tmr1 remain s =
     (if p_tmr1 \<noteq> None then do {
        t \<leftarrow> tmr s p_tmr1;
        let remain = remain + Remain t;
        if p_tmr1 = p_tmr then Some remain
        else tmr_remain_loop p_tmr (Tmr_NextPtr t) remain s
      } else Some remain)"

definition OSTmrRemainGet_locked :: "ptr \<Rightarrow> u32 \<Rightarrow> kernel \<Rightarrow> ((u32 \<times> OS_ERR) \<times> kernel) option" where
  "OSTmrRemainGet_locked p_tmr ts s = do {
     t \<leftarrow> tmr s p_tmr;
     r \<leftarrow>
       (case State t of
          OS_TMR_STATE_RUNNING \<Rightarrow> do {
            remain \<leftarrow> tmr_remain_loop p_tmr (OSTmrListPtr s) 0 s;
            Some (remain div OSTmrToTicksMult s, OS_ERR_NONE)
          }
        | OS_TMR_STATE_STOPPED \<Rightarrow>
            Some (if Opt t = OS_OPT_TMR_PERIODIC then
                    if Dly t = 0 then Period t div OSTmrToTicksMult s else Dly t div OSTmrToTicksMult s
                  else Dly t div OSTmrToTicksMult s, OS_ERR_NONE)
        | OS_TMR_STATE_TIMEOUT \<Rightarrow> Some (0, OS_ERR_NONE)
        | OS_TMR_STATE_COMPLETED \<Rightarrow> Some (0, OS_ERR_NONE)
        | OS_TMR_STATE_UNUSED \<Rightarrow> Some (0, OS_ERR_TMR_INACTIVE));
     s \<leftarrow> OS_TmrUnlock ts s;
     Some (r, s)
   }"

definition OSTmrRemainGet :: "ptr \<Rightarrow> u32 \<Rightarrow> kernel \<Rightarrow> ((u32 \<times> OS_ERR) pend_outcome \<times> kernel) option" where
  "OSTmrRemainGet p_tmr ts s =
     (case tmr_guard p_tmr s of Some err \<Rightarrow> Some (Done (0, err), s)
      | None \<Rightarrow> with_tmr_lock (OSTmrRemainGet_locked p_tmr ts) s)"

definition OSTmrSet_locked :: "ptr \<Rightarrow> u32 \<Rightarrow> u32 \<Rightarrow> u32 \<Rightarrow> ptr \<Rightarrow> u32 \<Rightarrow> kernel \<Rightarrow> (OS_ERR \<times> kernel) option" where
  "OSTmrSet_locked p_tmr dly period p_callback p_callback_arg ts s = do {
     s \<leftarrow> set_tmr p_tmr (\<lambda>t. t\<lparr>Dly := dly * OSTmrToTicksMult s, Period := period * OSTmrToTicksMult s,
       CallbackPtr := p_callback, CallbackPtrArg := p_callback_arg\<rparr>) s;
     s \<leftarrow> OS_TmrUnlock ts s;
     Some (OS_ERR_NONE, s)
   }"

definition OSTmrSet :: "ptr \<Rightarrow> u32 \<Rightarrow> u32 \<Rightarrow> u32 \<Rightarrow> ptr \<Rightarrow> u32 \<Rightarrow> kernel \<Rightarrow> (OS_ERR pend_outcome \<times> kernel) option" where
  "OSTmrSet p_tmr dly period p_callback p_callback_arg ts s =
     (case tmr_guard p_tmr s of Some err \<Rightarrow> Some (Done err, s)
      | None \<Rightarrow> do {
          t \<leftarrow> tmr s p_tmr;
          case tmr_times_err (Opt t) dly period p_callback OS_ERR_TMR_INVALID of Some err \<Rightarrow> Some (Done err, s)
          | None \<Rightarrow> with_tmr_lock (OSTmrSet_locked p_tmr dly period p_callback p_callback_arg ts) s
        })"

definition OSTmrStart_locked :: "ptr \<Rightarrow> u32 \<Rightarrow> kernel \<Rightarrow> ((bool \<times> OS_ERR) \<times> kernel) option" where
  "OSTmrStart_locked p_tmr ts s = do {
     let time = tmr_time s;
     t \<leftarrow> tmr s p_tmr;
     (r, s) \<leftarrow>
       (case State t of
          OS_TMR_STATE_UNUSED \<Rightarrow> Some ((False, OS_ERR_TMR_INACTIVE), s)
        | st \<Rightarrow> do {
            s \<leftarrow> set_tmr p_tmr (\<lambda>t. t\<lparr>State := OS_TMR_STATE_RUNNING\<rparr>) s;
            s \<leftarrow> (if st \<in> {OS_TMR_STATE_RUNNING, OS_TMR_STATE_TIMEOUT} then OS_TmrUnlink p_tmr time ts s else Some s);
            s \<leftarrow> set_tmr p_tmr (\<lambda>t. t\<lparr>Remain := if Dly t = 0 then Period t else Dly t\<rparr>) s;
            s \<leftarrow> OS_TmrLink p_tmr time ts s;
            Some ((True, OS_ERR_NONE), s)
          });
     s \<leftarrow> OS_TmrUnlock ts s;
     Some (r, s)
   }"

definition OSTmrStart :: "ptr \<Rightarrow> u32 \<Rightarrow> kernel \<Rightarrow> ((bool \<times> OS_ERR) pend_outcome \<times> kernel) option" where
  "OSTmrStart p_tmr ts s =
     (case tmr_guard p_tmr s of Some err \<Rightarrow> Some (Done (False, err), s)
      | None \<Rightarrow> with_tmr_lock (OSTmrStart_locked p_tmr ts) s)"

definition OSTmrStateGet_locked :: "ptr \<Rightarrow> u32 \<Rightarrow> kernel \<Rightarrow> ((tmr_state \<times> OS_ERR) \<times> kernel) option" where
  "OSTmrStateGet_locked p_tmr ts s = do {
     t \<leftarrow> tmr s p_tmr;
     s \<leftarrow> OS_TmrUnlock ts s;
     Some ((State t, OS_ERR_NONE), s)
   }"

definition OSTmrStateGet :: "ptr \<Rightarrow> u32 \<Rightarrow> kernel \<Rightarrow> ((tmr_state \<times> OS_ERR) pend_outcome \<times> kernel) option" where
  "OSTmrStateGet p_tmr ts s =
     (case tmr_guard p_tmr s of Some err \<Rightarrow> Some (Done (OS_TMR_STATE_UNUSED, err), s)
      | None \<Rightarrow> with_tmr_lock (OSTmrStateGet_locked p_tmr ts) s)"

text \<open>The two branches of \<open>OSTmrStop\<close> that call the callback set \<open>OS_ERR_TMR_NO_CALLBACK\<close> and overwrite
  it with \<open>OS_ERR_NONE\<close> behind the inner switch.\<close>

definition OSTmrStop_locked ::
  "callback \<Rightarrow> ptr \<Rightarrow> OS_OPT \<Rightarrow> ptr \<Rightarrow> u32 \<Rightarrow> kernel \<Rightarrow> ((bool \<times> OS_ERR) \<times> kernel) option" where
  "OSTmrStop_locked cb p_tmr opt p_callback_arg ts s = do {
     let time = tmr_time s;
     t \<leftarrow> tmr s p_tmr;
     case State t of
       OS_TMR_STATE_UNUSED \<Rightarrow> do { s \<leftarrow> OS_TmrUnlock ts s; Some ((False, OS_ERR_TMR_INACTIVE), s) }
     | st \<Rightarrow> do {
         s \<leftarrow> set_tmr p_tmr (\<lambda>t. t\<lparr>State := OS_TMR_STATE_STOPPED\<rparr>) s;
         if st \<in> {OS_TMR_STATE_COMPLETED, OS_TMR_STATE_STOPPED}
         then do { s \<leftarrow> OS_TmrUnlock ts s; Some ((True, OS_ERR_TMR_STOPPED), s) }
         else if opt \<in> {OS_OPT_TMR_CALLBACK, OS_OPT_TMR_CALLBACK_ARG} then do {
           s \<leftarrow> OS_TmrUnlink p_tmr time ts s;
           t \<leftarrow> tmr s p_tmr;
           s \<leftarrow> (if CallbackPtr t \<noteq> 0
                then cb (CallbackPtr t) p_tmr (if opt = OS_OPT_TMR_CALLBACK then CallbackPtrArg t else p_callback_arg) s
                else Some s);
           s \<leftarrow> OS_TmrUnlock ts s;
           Some ((True, OS_ERR_NONE), s)
         } else if opt = OS_OPT_TMR_NONE then do {
           s \<leftarrow> OS_TmrUnlink p_tmr time ts s;
           s \<leftarrow> OS_TmrUnlock ts s;
           Some ((True, OS_ERR_NONE), s)
         } else do { s \<leftarrow> OS_TmrUnlock ts s; Some ((False, OS_ERR_OPT_INVALID), s) }
       }
   }"

definition OSTmrStop ::
  "callback \<Rightarrow> ptr \<Rightarrow> OS_OPT \<Rightarrow> ptr \<Rightarrow> u32 \<Rightarrow> kernel \<Rightarrow> ((bool \<times> OS_ERR) pend_outcome \<times> kernel) option" where
  "OSTmrStop cb p_tmr opt p_callback_arg ts s =
     (case tmr_guard p_tmr s of Some err \<Rightarrow> Some (Done (False, err), s)
      | None \<Rightarrow> with_tmr_lock (OSTmrStop_locked cb p_tmr opt p_callback_arg ts) s)"

section \<open>The timer task\<close>

text \<open>The second loop of \<open>OS_TmrTask\<close>: the timers with no ticks left, in order.\<close>

partial_function (option) tmr_expire_loop :: "callback \<Rightarrow> (nat \<Rightarrow> u32) \<Rightarrow> nat \<Rightarrow> kernel \<Rightarrow> kernel option" where
  "tmr_expire_loop cb ts n s =
     (case OSTmrListPtr s of
        None \<Rightarrow> Some s
      | Some a \<Rightarrow>
          if Remain (OSTmrs s a) \<noteq> 0 then Some s
          else do {
            s \<leftarrow> set_tmr (Some a) (\<lambda>t. t\<lparr>State := OS_TMR_STATE_TIMEOUT\<rparr>) s;
            t \<leftarrow> tmr s (Some a);
            s \<leftarrow> (if CallbackPtr t \<noteq> 0 then cb (CallbackPtr t) (Some a) (CallbackPtrArg t) s else Some s);
            t \<leftarrow> tmr s (Some a);
            s \<leftarrow>
              (if State t = OS_TMR_STATE_TIMEOUT then do {
                 s \<leftarrow> OS_TmrUnlink (Some a) (OSTmrTaskTickBase s) (ts n) s;
                 t \<leftarrow> tmr s (Some a);
                 if Opt t = OS_OPT_TMR_PERIODIC then do {
                   s \<leftarrow> set_tmr (Some a) (\<lambda>t. t\<lparr>State := OS_TMR_STATE_RUNNING\<rparr>) s;
                   s \<leftarrow> set_tmr (Some a) (\<lambda>t. t\<lparr>Remain := Period t\<rparr>) s;
                   OS_TmrLink (Some a) (OSTmrTaskTickBase s) (ts n) s
                 } else
                   set_tmr (Some a) (\<lambda>t. t\<lparr>Tmr_PrevPtr := None, Tmr_NextPtr := None, Remain := 0,
                     State := OS_TMR_STATE_COMPLETED\<rparr>) s
               } else Some s);
            tmr_expire_loop cb ts (Suc n) s
          })"

text \<open>One round of the timer task: up to the wait, and from the end of the wait to the next round.\<close>

definition OS_TmrTask_wait :: "u32 \<Rightarrow> kernel \<Rightarrow> kernel option" where
  "OS_TmrTask_wait ts s = do {
     timeout \<leftarrow> (if OSTmrListPtr s = None then Some 0 else map_option Remain (tmr s (OSTmrListPtr s)));
     OS_TmrCondWait timeout ts s
   }"

definition OS_TmrTask_expire :: "callback \<Rightarrow> (nat \<Rightarrow> u32) \<Rightarrow> kernel \<Rightarrow> kernel option" where
  "OS_TmrTask_expire cb ts s =
     (if OSTmrListPtr s = None then Some s
      else do {
        let time = OSTickCtr s;
        let elapsed = time - OSTmrTaskTickBase s;
        let s = s\<lparr>OSTmrTaskTickBase := time\<rparr>;
        s \<leftarrow> tmr_consume elapsed (OSTmrListPtr s) s;
        tmr_expire_loop cb ts 0 s
      })"

text \<open>The start of the module; \<open>task_return\<close>, \<open>task\<close> and \<open>stk\<close> are the addresses of \<open>OS_TaskReturn\<close>,
  \<open>OS_TmrTask\<close> and \<open>OSCfg_TmrTaskStk\<close>.\<close>

definition OS_TmrInit :: "u32 \<Rightarrow> u32 \<Rightarrow> u32 \<Rightarrow> kernel \<Rightarrow> (OS_ERR \<times> kernel) option" where
  "OS_TmrInit task_return task stk s = do {
     let s = s\<lparr>OSTmrQty := 0, OSTmrDbgListPtr := None, OSTmrListPtr := None, OSTmrListEntries := 0,
       OSTmrToTicksMult := OSCfg_TickRate_Hz div OSCfg_TmrTaskRate_Hz\<rparr>;
     (err, s) \<leftarrow> OSMutexCreate (Some OSTmrMutex) ''OS Tmr Mutex'' s;
     if err \<noteq> OS_ERR_NONE then Some (err, s)
     else do {
       s \<leftarrow> OS_TmrCondCreate s;
       if stk = 0 then Some (OS_ERR_TMR_STK_INVALID, s)
       else if OSCfg_TmrTaskStkSize < OSCfg_StkSizeMin then Some (OS_ERR_TMR_STK_SIZE_INVALID, s)
       else if OSCfg_TmrTaskPrio \<ge> of_nat (OS_CFG_PRIO_MAX - 1) then Some (OS_ERR_TMR_PRIO_INVALID, s)
       else OSTaskCreate task_return (Some OSTmrTaskTCB)
         \<lparr>ta_name = ''uC/OS-III Timer Task'', ta_task = task, ta_arg = 0, ta_prio = OSCfg_TmrTaskPrio,
          ta_stk_base = stk, ta_stk_limit = OSCfg_TmrTaskStkLimit, ta_stk_size = OSCfg_TmrTaskStkSize,
          ta_q_size = 0, ta_time_quanta = 0, ta_ext = None, ta_opt = 0x000B\<rparr> s
     }
   }"

end
