(* ===== verification/Tmr_List.thy ===== *)
theory Tmr_List
  imports Os_Tmr
begin

text \<open>
  The list of running timers of a state: the timers in order of expiry, linked in both directions,
  each with the ticks behind the expiry before it (a delta list as in \<open>Os_Tick\<close>), counted from
  \<open>OSTmrTaskTickBase\<close>. The operations on the list are specified by what they do to the absolute
  expiry of the timers.
\<close>

section \<open>The timers of a state\<close>

definition jnxt :: "kernel \<Rightarrow> nat \<Rightarrow> ptr" where "jnxt s = (\<lambda>a. Tmr_NextPtr (OSTmrs s a))"
definition jprv :: "kernel \<Rightarrow> nat \<Rightarrow> ptr" where "jprv s = (\<lambda>a. Tmr_PrevPtr (OSTmrs s a))"
definition jrem :: "kernel \<Rightarrow> nat \<Rightarrow> u32" where "jrem s = (\<lambda>a. Remain (OSTmrs s a))"

lemma tmr_folds:
  "Tmr_NextPtr (OSTmrs s a) = jnxt s a" "Tmr_PrevPtr (OSTmrs s a) = jprv s a" "Remain (OSTmrs s a) = jrem s a"
  by (simp_all add: jnxt_def jprv_def jrem_def)

text \<open>The part of the state the list operations write.\<close>

definition upd_tmr :: "(nat \<Rightarrow> ptr) \<Rightarrow> (nat \<Rightarrow> ptr) \<Rightarrow> (nat \<Rightarrow> u32) \<Rightarrow> ptr \<Rightarrow> u16 \<Rightarrow> u32 \<Rightarrow> kernel \<Rightarrow> kernel" where
  "upd_tmr n p r h e b s = s\<lparr>
     OSTmrs := (\<lambda>a. (OSTmrs s a)\<lparr>Tmr_NextPtr := n a, Tmr_PrevPtr := p a, Remain := r a\<rparr>),
     OSTmrListPtr := h, OSTmrListEntries := e, OSTmrTaskTickBase := b\<rparr>"

definition upd_now :: "(nat \<Rightarrow> ptr) \<Rightarrow> (nat \<Rightarrow> ptr) \<Rightarrow> (nat \<Rightarrow> u32) \<Rightarrow> kernel \<Rightarrow> kernel" where
  "upd_now n p r s = upd_tmr n p r (OSTmrListPtr s) (OSTmrListEntries s) (OSTmrTaskTickBase s) s"

lemma upd_tmr_sel [simp]:
  "OSTmrs (upd_tmr n p r h e b s) a = (OSTmrs s a)\<lparr>Tmr_NextPtr := n a, Tmr_PrevPtr := p a, Remain := r a\<rparr>"
  "OSTmrListPtr (upd_tmr n p r h e b s) = h" "OSTmrListEntries (upd_tmr n p r h e b s) = e"
  "OSTmrTaskTickBase (upd_tmr n p r h e b s) = b" "OSTickCtr (upd_tmr n p r h e b s) = OSTickCtr s"
  "OSTmrToTicksMult (upd_tmr n p r h e b s) = OSTmrToTicksMult s"
  "OSTCBCurPtr (upd_tmr n p r h e b s) = OSTCBCurPtr s"
  "OSTCBs (upd_tmr n p r h e b s) = OSTCBs s" "OSObjs (upd_tmr n p r h e b s) = OSObjs s"
  "OSMutexes (upd_tmr n p r h e b s) = OSMutexes s"
  "OSRdyList (upd_tmr n p r h e b s) = OSRdyList s" "OSPrioTbl (upd_tmr n p r h e b s) = OSPrioTbl s"
  "OSTickList (upd_tmr n p r h e b s) = OSTickList s"
  "jnxt (upd_tmr n p r h e b s) = n" "jprv (upd_tmr n p r h e b s) = p" "jrem (upd_tmr n p r h e b s) = r"
  by (simp_all add: upd_tmr_def jnxt_def jprv_def jrem_def)

lemma upd_tmr_upd_tmr [simp]: "upd_tmr n p r h e b (upd_tmr n' p' r' h' e' b' s) = upd_tmr n p r h e b s"
  by (simp add: upd_tmr_def)

lemma upd_tmr_id [simp]:
  "upd_tmr (jnxt s) (jprv s) (jrem s) (OSTmrListPtr s) (OSTmrListEntries s) (OSTmrTaskTickBase s) s = s"
  by (simp add: upd_tmr_def jnxt_def jprv_def jrem_def)

lemma set_tmr_links:
  "set_tmr (Some x) (Tmr_NextPtr_update (\<lambda>_. v)) s = Some (upd_now ((jnxt s)(x := v)) (jprv s) (jrem s) s)"
  "set_tmr (Some x) (Tmr_PrevPtr_update (\<lambda>_. v)) s = Some (upd_now (jnxt s) ((jprv s)(x := v)) (jrem s) s)"
  "set_tmr (Some x) (Remain_update (\<lambda>_. w)) s = Some (upd_now (jnxt s) (jprv s) ((jrem s)(x := w)) s)"
  by (auto simp: set_tmr_def upd_now_def upd_tmr_def jnxt_def jprv_def jrem_def fun_eq_iff)

lemma set_tmr_Remain: "set_tmr (Some x) (\<lambda>t. t\<lparr>Remain := f (Remain t)\<rparr>) s =
    Some (upd_now (jnxt s) (jprv s) ((jrem s)(x := f (jrem s x))) s)"
  by (auto simp: set_tmr_def upd_now_def upd_tmr_def jnxt_def jprv_def jrem_def fun_eq_iff)

lemma set_tmr_globals:
  "s\<lparr>OSTmrListPtr := h\<rparr> = upd_tmr (jnxt s) (jprv s) (jrem s) h (OSTmrListEntries s) (OSTmrTaskTickBase s) s"
  "s\<lparr>OSTmrListEntries := e\<rparr> = upd_tmr (jnxt s) (jprv s) (jrem s) (OSTmrListPtr s) e (OSTmrTaskTickBase s) s"
  "s\<lparr>OSTmrTaskTickBase := b\<rparr> = upd_tmr (jnxt s) (jprv s) (jrem s) (OSTmrListPtr s) (OSTmrListEntries s) b s"
  by (simp_all add: upd_tmr_def jnxt_def jprv_def jrem_def)

lemma tmr_Some [simp]: "tmr s (Some a) = Some (OSTmrs s a)" by (simp add: tmr_def)

lemmas tmr_upds = tmr_folds set_tmr_links set_tmr_Remain [where f = "\<lambda>v. v - d" for d]
  set_tmr_Remain [where f = "\<lambda>v. v + d" for d] set_tmr_globals upd_now_def

definition tmr_list :: "kernel \<Rightarrow> nat list \<Rightarrow> bool" where
  "tmr_list s Ts \<longleftrightarrow> dll (jnxt s) (jprv s) (OSTmrListPtr s) (hdo (rev Ts)) Ts \<and>
     OSTmrListEntries s = of_nat (length Ts) \<and> span (jrem s) Ts < 2 ^ 32"

lemma tmr_listD:
  assumes "tmr_list s Ts"
  shows "dll (jnxt s) (jprv s) (OSTmrListPtr s) (hdo (rev Ts)) Ts"
    "OSTmrListEntries s = of_nat (length Ts)" "span (jrem s) Ts < 2 ^ 32" "OSTmrListPtr s = hdo Ts" "distinct Ts"
  using assms by (auto simp: tmr_list_def dll_def)

text \<open>The tick at which a timer of the list expires.\<close>

definition expiry :: "kernel \<Rightarrow> nat list \<Rightarrow> nat \<Rightarrow> u32" where
  "expiry s Ts a = OSTmrTaskTickBase s + of_nat (due (jrem s) Ts a)"

section \<open>The signal to the timer task\<close>

text \<open>Nobody but the timer task waits on the condition. The signal readies it and leaves the timers alone.\<close>

definition cond_ok :: "kernel \<Rightarrow> bool" where
  "cond_ok s \<longleftrightarrow> (\<exists>A R W T. kinv s A R W T \<and> set (W OSTmrCond) \<subseteq> {OSTmrTaskTCB})"

definition tmr_same :: "kernel \<Rightarrow> kernel \<Rightarrow> bool" where
  "tmr_same s s' \<longleftrightarrow> OSTmrs s' = OSTmrs s \<and> OSTmrListPtr s' = OSTmrListPtr s \<and>
     OSTmrListEntries s' = OSTmrListEntries s \<and> OSTmrTaskTickBase s' = OSTmrTaskTickBase s \<and>
     OSTickCtr s' = OSTickCtr s \<and> OSTmrToTicksMult s' = OSTmrToTicksMult s"

text \<open>The data of the application's objects, which neither the list nor the signal touch.\<close>

definition app_part :: "kernel \<Rightarrow> (nat \<Rightarrow> OS_SEM) \<times> (nat \<Rightarrow> OS_MSG_Q) \<times> (nat \<Rightarrow> OS_FLAG_GRP) \<times> (nat \<Rightarrow> OS_MSG)" where
  "app_part s = (OSSems s, OSQs s, OSFlagGrps s, OSMsgs s)"

lemma app_part_upd_tmr [simp]: "app_part (upd_tmr n p r h e b s) = app_part s"
  by (simp add: app_part_def upd_tmr_def)

lemma moved_app: "moved a s s' \<Longrightarrow> app_part s' = app_part s"
  by (auto simp: moved_def app_part_def)

lemma tmr_same_refl [simp]: "tmr_same s s" by (simp add: tmr_same_def)

lemma tmr_same_trans: "tmr_same s s1 \<Longrightarrow> tmr_same s1 s2 \<Longrightarrow> tmr_same s s2" by (simp add: tmr_same_def)

lemma tmr_same_sel:
  assumes "tmr_same s s'"
  shows "OSTmrs s' = OSTmrs s" "OSTmrListPtr s' = OSTmrListPtr s" "OSTmrListEntries s' = OSTmrListEntries s"
    "OSTmrTaskTickBase s' = OSTmrTaskTickBase s" "OSTickCtr s' = OSTickCtr s" "OSTmrToTicksMult s' = OSTmrToTicksMult s"
    "jnxt s' = jnxt s" "jprv s' = jprv s" "jrem s' = jrem s"
    "tmr_list s' Ts \<longleftrightarrow> tmr_list s Ts" "expiry s' Ts a = expiry s Ts a"
  using assms by (auto simp: tmr_same_def tmr_list_def expiry_def jnxt_def jprv_def jrem_def)

lemma cond_ok_cong:
  assumes "OSTCBs s' = OSTCBs s" "OSObjs s' = OSObjs s" "OSRdyList s' = OSRdyList s" "OSPrioTbl s' = OSPrioTbl s"
    "OSTickList s' = OSTickList s"
  shows "cond_ok s' \<longleftrightarrow> cond_ok s"
proof -
  have "kinv s' A R W T \<longleftrightarrow> kinv s A R W T" for A R W T
    by (rule kinv_cong; (rule rdy_rel_cong pend_lists_cong tick_lists_cong)?; simp add: assms)
  then show ?thesis by (simp add: cond_ok_def)
qed

lemma cond_ok_upd_tmr [simp]: "cond_ok (upd_tmr n p r h e b s) \<longleftrightarrow> cond_ok s"
  by (rule cond_ok_cong) simp_all

lemma moved_same: "moved a s s' \<Longrightarrow> tmr_same s s'"
  by (auto simp: moved_def tmr_same_def)

lemma OS_TmrCondSignal_spec:
  assumes "cond_ok s"
  obtains s' where "OS_TmrCondSignal ts s = Some s'" "cond_ok s'" "tmr_same s s'" "app_part s' = app_part s"
proof -
  let ?s = "s\<lparr>OSMutexes := (OSMutexes s)(OSTmrMutex := (OSMutexes s OSTmrMutex)\<lparr>Mutex_TS := ts\<rparr>)\<rparr>"
  from assms obtain A R W T where K: "kinv s A R W T" and W: "set (W OSTmrCond) \<subseteq> {OSTmrTaskTCB}"
    by (auto simp: cond_ok_def)
  have K': "kinv ?s A R W T" using K by simp
  have h: "PL_HeadPtr (PendList (OSObjs ?s OSTmrCond)) = hdo (W OSTmrCond)" by (rule pend_head [OF K'])
  show ?thesis
  proof (cases "W OSTmrCond")
    case Nil
    then have "OS_TmrCondSignal ts s = Some ?s"
      using h by (simp add: OS_TmrCondSignal_def set_mutex_def pend_list_def)
    moreover have "cond_ok ?s" using K' W by (auto simp: cond_ok_def)
    moreover have "tmr_same s ?s" "app_part ?s = app_part s" by (simp_all add: tmr_same_def app_part_def)
    ultimately show ?thesis by (rule that)
  next
    case (Cons y ys)
    with W have y: "OSTmrTaskTCB \<in> set (W OSTmrCond)" by auto
    from waiterD [OF K' y] have a: "OSTmrTaskTCB \<in> A" "PendObjPtr (OSTCBs ?s OSTmrTaskTCB) = Some OSTmrCond"
        "pending (TaskState (OSTCBs ?s OSTmrTaskTCB))" by simp_all
    from OS_Post_spec [OF K' a(1,3,2), where ts = ts and p_void = None and msg_size = 0] obtain s' where
      p: "OS_Post (Some OSTmrCond) (Some OSTmrTaskTCB) None 0 ts ?s = Some s'" and
      b: "becomes OSTmrTaskTCB (posted_tcb None 0 ts (OSTCBs ?s OSTmrTaskTCB)) ?s s' A
        (if runs (TaskState (OSTCBs ?s OSTmrTaskTCB)) then rdy_ins ?s OSTmrTaskTCB R else R)
        (without OSTmrTaskTCB W) (remove1 OSTmrTaskTCB T)" by blast
    have "OS_TmrCondSignal ts s = Some s'"
      using h Cons p by (simp add: OS_TmrCondSignal_def set_mutex_def pend_list_def)
    moreover have "cond_ok s'"
      using becomesD(3) [OF b] W set_remove1_subset [of OSTmrTaskTCB "W OSTmrCond"]
      unfolding cond_ok_def without_def by blast
    moreover have "tmr_same ?s s'" by (rule moved_same [OF becomesD(1) [OF b]])
    then have "tmr_same s s'" by (simp add: tmr_same_def)
    moreover have "app_part s' = app_part s" using moved_app [OF becomesD(1) [OF b]] by (simp add: app_part_def)
    ultimately show ?thesis by (rule that)
  qed
qed

section \<open>Linking\<close>

lemma tmr_scan_spec:
  "lnk (jnxt s) ys None \<Longrightarrow>
   \<exists>as bs d'. ys = as @ bs \<and> tmr_scan d p (hdo ys) s = Some (d', (if as = [] then p else Some (last as)), hdo bs) \<and>
     unat d = span (jrem s) as + unat d' \<and> (bs \<noteq> [] \<longrightarrow> unat d' < unat (jrem s (hd bs)))"
proof (induction ys arbitrary: d p)
  case Nil
  then show ?case by (simp add: tmr_scan.simps)
next
  case (Cons y ys)
  from Cons.prems have y: "jnxt s y = hdo ys" "lnk (jnxt s) ys None" by (auto split: if_splits)
  show ?case
  proof (cases "jrem s y \<le> d")
    case True
    from Cons.IH [OF y(2), of "d - jrem s y" "Some y"] obtain as bs d' where
      IH: "ys = as @ bs" "tmr_scan (d - jrem s y) (Some y) (hdo ys) s =
         Some (d', (if as = [] then Some y else Some (last as)), hdo bs)"
        "unat (d - jrem s y) = span (jrem s) as + unat d'" "bs \<noteq> [] \<longrightarrow> unat d' < unat (jrem s (hd bs))" by blast
    have "tmr_scan d p (hdo (y # ys)) s = Some (d', Some (last (y # as)), hdo bs)"
      using True IH(2) y(1) by (simp add: tmr_scan.simps [of d p "Some y"] tmr_folds)
    moreover have "unat d = unat (jrem s y) + unat (d - jrem s y)"
      using True by (simp add: unat_sub word_le_nat_alt)
    ultimately show ?thesis using IH(1,3,4)
      by (intro exI [of _ "y # as"] exI [of _ bs] exI [of _ d']) auto
  next
    case False
    then show ?thesis
      by (intro exI [of _ "[]"] exI [of _ "y # ys"] exI [of _ d])
        (simp add: tmr_scan.simps [of d p "Some y"] tmr_folds word_le_nat_alt)
  qed
qed

text \<open>\<open>shifted g r T r' T'\<close>: the timers of \<open>T\<close> are as far apart in \<open>T'\<close>, and all times are \<open>g\<close> less.\<close>

definition shifted :: "nat \<Rightarrow> (nat \<Rightarrow> u32) \<Rightarrow> nat list \<Rightarrow> (nat \<Rightarrow> u32) \<Rightarrow> nat list \<Rightarrow> bool" where
  "shifted g r T r' T' \<longleftrightarrow> (\<forall>a\<in>set T. due r' T' a = due r T a - g)"

text \<open>A timer that is \<open>d\<close> ticks behind the base is placed behind the timers due not later.\<close>

lemma delta_place:
  assumes T: "T = as @ bs" and dist: "distinct T" and x: "x \<notin> set T"
    and d: "d = span r as + unat e" "bs \<noteq> [] \<Longrightarrow> unat e < unat (r (hd bs))"
  shows "due (delta_ins r x e bs) (as @ x # bs) x = d" "shifted 0 r T (delta_ins r x e bs) (as @ x # bs)"
    "\<forall>a\<in>set as. due r T a \<le> d" "\<forall>a\<in>set bs. d < due r T a"
proof -
  note S = delta_ins_spec [of as bs x e r]
  show "due (delta_ins r x e bs) (as @ x # bs) x = d" using S(1) dist x d T by simp
  show "shifted 0 r T (delta_ins r x e bs) (as @ x # bs)"
    using S(2) dist x d T by (simp add: shifted_def)
  show "\<forall>a\<in>set as. due r T a \<le> d" using due_le_span [of r as] d(1) T by (auto simp: due_append intro: trans_le_add1)
  show "\<forall>a\<in>set bs. d < due r T a"
  proof
    fix a assume a: "a \<in> set bs"
    then obtain b bs' where b: "bs = b # bs'" by (cases bs) auto
    from a dist T have "a \<notin> set as" by auto
    then show "d < due r T a" using d b T due_ge_head [of r b bs' a] by (simp add: due_append)
  qed
qed

lemma due_lower_head:
  assumes "x \<notin> set ys" and "unat v = unat (r x) - g" and "g \<le> unat (r x)"
  shows "due (r(x := v)) (x # ys) a = due r (x # ys) a - g"
  using assms by simp

lemma span_lower_head:
  assumes "x \<notin> set ys" and "unat v \<le> unat (r x)"
  shows "span (r(x := v)) (x # ys) \<le> span r (x # ys)"
  using assms by simp

definition tmr_moved :: "kernel \<Rightarrow> kernel \<Rightarrow> bool" where
  "tmr_moved s s' \<longleftrightarrow> (\<exists>n p r h e b. tmr_same (upd_tmr n p r h e b s) s') \<and> app_part s' = app_part s"

lemma tmr_movedI: "tmr_same (upd_tmr n p r h e b s) s' \<Longrightarrow> app_part s' = app_part s \<Longrightarrow> tmr_moved s s'"
  unfolding tmr_moved_def by blast

lemma tmr_moved_sel:
  assumes "tmr_moved s s'"
  shows "State (OSTmrs s' a) = State (OSTmrs s a)" "Opt (OSTmrs s' a) = Opt (OSTmrs s a)"
    "Period (OSTmrs s' a) = Period (OSTmrs s a)" "Dly (OSTmrs s' a) = Dly (OSTmrs s a)"
    "CallbackPtr (OSTmrs s' a) = CallbackPtr (OSTmrs s a)" "CallbackPtrArg (OSTmrs s' a) = CallbackPtrArg (OSTmrs s a)"
    "Tmr_Type (OSTmrs s' a) = Tmr_Type (OSTmrs s a)" "OSTickCtr s' = OSTickCtr s"
    "OSTmrToTicksMult s' = OSTmrToTicksMult s" "app_part s' = app_part s"
  using assms by (auto simp: tmr_moved_def tmr_same_def)

text \<open>The result of putting timer \<open>x\<close> into the list: it is due \<open>d\<close> ticks after the old base.\<close>

definition tmr_linked :: "kernel \<Rightarrow> nat list \<Rightarrow> nat \<Rightarrow> nat \<Rightarrow> u32 \<Rightarrow> kernel \<Rightarrow> nat list \<Rightarrow> bool" where
  "tmr_linked s Ts x d time s' Ts' \<longleftrightarrow> (\<exists>as bs. Ts = as @ bs \<and> Ts' = as @ x # bs \<and>
     (\<forall>a\<in>set as. due (jrem s) Ts a \<le> d) \<and> (\<forall>a\<in>set bs. d < due (jrem s) Ts a) \<and>
     OSTmrTaskTickBase s' = (if as = [] then time else OSTmrTaskTickBase s) \<and>
     (let g = (if as = [] then unat (time - OSTmrTaskTickBase s) else 0) in
      due (jrem s') Ts' x = d - g \<and> shifted g (jrem s) Ts (jrem s') Ts'))"

lemma tmr_linked_same:
  assumes "tmr_same s1 s'"
  shows "tmr_linked s Ts x d time s' Ts' \<longleftrightarrow> tmr_linked s Ts x d time s1 Ts'"
  by (simp add: tmr_linked_def tmr_same_sel(4,9) [OF assms])

lemma signal_linked:
  assumes c: "cond_ok s" and run: "f = OS_TmrCondSignal ts (upd_tmr n p r h e b s)"
    and P: "tmr_list (upd_tmr n p r h e b s) Ts'" "tmr_linked s Ts x d time (upd_tmr n p r h e b s) Ts'"
  shows "\<exists>s'. f = Some s' \<and> cond_ok s' \<and> tmr_moved s s' \<and> tmr_list s' Ts' \<and> tmr_linked s Ts x d time s' Ts'"
proof -
  have "cond_ok (upd_tmr n p r h e b s)" using c by simp
  from OS_TmrCondSignal_spec [OF this] obtain s' where
    s': "OS_TmrCondSignal ts (upd_tmr n p r h e b s) = Some s'" "cond_ok s'" "tmr_same (upd_tmr n p r h e b s) s'"
      "app_part s' = app_part (upd_tmr n p r h e b s)" .
  show ?thesis
    using s' P tmr_movedI [OF s'(3)] by (auto simp: run tmr_linked_same [OF s'(3)] tmr_same_sel(10) [OF s'(3)])
qed

lemma OS_TmrLink_head:
  assumes y: "OSTmrListPtr s = Some y" "jprv s y = None" and xy: "x \<noteq> y"
    and d: "time + jrem s x - OSTmrTaskTickBase s < jrem s y"
  shows "OS_TmrLink (Some x) time ts s = OS_TmrCondSignal ts (upd_tmr ((jnxt s)(x := Some y))
    ((jprv s)(x := None, y := Some x))
    ((jrem s)(y := jrem s y - (time + jrem s x - OSTmrTaskTickBase s)))
    (Some x) (OSTmrListEntries s + 1) time s)"
  using assms by (simp add: OS_TmrLink_def Let_def tmr_upds)

lemma OS_TmrLink_spec:
  assumes T: "tmr_list s Ts" and x: "x \<notin> set Ts" and c: "cond_ok s"
    and d: "d = unat (time - OSTmrTaskTickBase s) + unat (jrem s x)" "d < 2 ^ 32"
  shows "\<exists>s' Ts'. OS_TmrLink (Some x) time ts s = Some s' \<and> cond_ok s' \<and> tmr_moved s s' \<and> tmr_list s' Ts' \<and>
    tmr_linked s Ts x d time s' Ts'"
proof -
  note D = tmr_listD [OF T]
  let ?b = "OSTmrTaskTickBase s" and ?d = "time + jrem s x - OSTmrTaskTickBase s"
  let ?n = "jnxt s" and ?p = "jprv s" and ?r = "jrem s" and ?e = "OSTmrListEntries s"
  have e: "?d = (time - ?b) + jrem s x" by simp
  have ud: "unat ?d = d"
    unfolding e by (rule trans [OF unat_add_lem [THEN iffD1]]) (use d in simp_all)
  show ?thesis
  proof (cases Ts)
    case Nil
    have "tmr_list (upd_tmr (?n(x := None)) (?p(x := None)) ?r (Some x) 1 time s) [x]"
      using d by (simp add: tmr_list_def dll_def)
    moreover have "tmr_linked s Ts x d time (upd_tmr (?n(x := None)) (?p(x := None)) ?r (Some x) 1 time s) [x]"
      unfolding tmr_linked_def Nil using d(1) by (intro exI [of _ "[]"]) (simp add: shifted_def)
    moreover have "OS_TmrLink (Some x) time ts s =
        OS_TmrCondSignal ts (upd_tmr (?n(x := None)) (?p(x := None)) ?r (Some x) 1 time s)"
      using Nil D(4) by (simp add: OS_TmrLink_def Let_def tmr_upds)
    ultimately show ?thesis using signal_linked [OF c] by blast
  next
    case (Cons y ys)
    have y: "OSTmrListPtr s = Some y" "?p y = None" "?n y = hdo ys" "lnk ?n ys None" "x \<noteq> y" "x \<notin> set ys"
        "y \<notin> set ys"
      using D(1,4,5) x Cons by (auto simp: dll_def hdo_append split: if_splits)
    show ?thesis
    proof (cases "?d < ?r y")
      case True
      let ?r' = "?r(y := ?r y - ?d)"
      let ?s = "upd_tmr (?n(x := Some y)) (?p(x := None, y := Some x)) ?r' (Some x) (?e + 1) time s"
      let ?i = "delta_ins ?r x ?d Ts" and ?g = "unat (time - ?b)"
      have i: "?r' = ?i(x := ?r x)" using Cons y(5) by (auto simp: delta_ins_def)
      have ix: "?i x = ?d" using Cons y(5) by (simp add: delta_ins_def)
      have dl: "unat ?d < unat (?r (hd Ts))" using True Cons by (simp add: word_less_nat_alt)
      note P = delta_place [of Ts "[]" Ts x d ?r ?d, OF _ D(5) x _ dl]
      have low: "due ?r' (x # Ts) a = due ?i (x # Ts) a - ?g" for a
        unfolding i by (rule due_lower_head [OF x]) (simp_all add: ix ud d(1))
      have tl: "hdo (rev (x # Ts)) = hdo (rev Ts)" using Cons by (simp add: hdo_append)
      have "span ?r' (x # Ts) \<le> span ?i (x # Ts)"
        unfolding i by (rule span_lower_head [OF x]) (simp add: ix ud d(1))
      moreover have "span ?i (x # Ts) = span ?r Ts"
        using delta_ins_spec(3) [of "[]" Ts x ?d ?r] D(5) x dl Cons by simp
      moreover have "dll (?n(x := Some y)) (?p(x := None, y := Some x)) (Some x) (hdo (rev Ts)) (x # Ts)"
        using dll_insert_head [of ?n ?p y "hdo (rev Ts)" ys x] D(1) y(1) x Cons by simp
      ultimately have "tmr_list ?s (x # Ts)"
        using D(2,3) tl unfolding tmr_list_def by (simp del: span.simps rev.simps)
      moreover have "tmr_linked s Ts x d time ?s (x # Ts)"
        unfolding tmr_linked_def using P low ud
        by (intro exI [of _ "[]"] exI [of _ Ts]) (simp add: shifted_def del: due.simps)
      ultimately show ?thesis
        using signal_linked [OF c OS_TmrLink_head [OF y(1,2,5) True]] by blast
    next
      case False
      let ?s = "upd_tmr ?n ?p ?r (OSTmrListPtr s) (?e + 1) ?b s"
      from y(4) have "lnk (jnxt ?s) ys None" by simp
      from tmr_scan_spec [OF this, of "?d - ?r y" "Some y"] obtain as bs e where
        sc: "ys = as @ bs" "tmr_scan (?d - ?r y) (Some y) (hdo ys) ?s =
          Some (e, if as = [] then Some y else Some (last as), hdo bs)"
        "unat (?d - ?r y) = span ?r as + unat e" "bs \<noteq> [] \<longrightarrow> unat e < unat (?r (hd bs))" by auto
      have de: "d = span ?r (y # as) + unat e"
        using sc(3) False ud by (simp add: unat_sub word_le_nat_alt not_less)
      obtain as' a where as': "y # as = as' @ [a]" by (metis rev_exhaust list.distinct(1))
      then have a: "(if as = [] then Some y else Some (last as)) = Some a"
        by (cases as') (auto split: if_splits)
      have TT: "Ts = as' @ a # bs" "Ts = (y # as) @ bs"
        using Cons sc(1) as' by (metis append_Cons append_assoc append_Nil, simp)
      have ax: "a \<noteq> x" using x TT(1) by auto
      note P = delta_place [OF TT(2) D(5) x de mp [OF sc(4)]]
      have fin: ?thesis
        if run: "OS_TmrLink (Some x) time ts s = Some (upd_tmr n p (delta_ins ?r x e bs) (OSTmrListPtr s) (?e + 1) ?b s)"
          and dl: "dll n p (OSTmrListPtr s) (hdo (rev (as' @ a # x # bs))) (as' @ a # x # bs)" for n p
      proof -
        let ?s' = "upd_tmr n p (delta_ins ?r x e bs) (OSTmrListPtr s) (?e + 1) ?b s"
        have as'': "as' @ a # x # bs = (y # as) @ x # bs" using as' by simp
        have "span (delta_ins ?r x e bs) ((y # as) @ x # bs) = (if bs = [] then d else span ?r ((y # as) @ bs))"
          using delta_ins_spec(3) [of "y # as" bs x e ?r] D(5) x TT(2) sc(4) de by simp
        then have "tmr_list ?s' ((y # as) @ x # bs)"
          using D(2,3) TT(2) dl d(2) unfolding tmr_list_def as'' by simp
        moreover have "tmr_linked s Ts x d time ?s' ((y # as) @ x # bs)"
          unfolding tmr_linked_def using P TT(2) by (intro exI [of _ "y # as"] exI [of _ bs]) simp
        moreover have "tmr_moved s ?s'" by (rule tmr_movedI [OF tmr_same_refl]) simp
        ultimately show ?thesis using run c by (auto simp del: append_Cons)
      qed
      show ?thesis
      proof (cases bs)
        case Nil
        have "dll (?n(x := None, a := Some x)) (?p(x := Some a)) (OSTmrListPtr s) (Some x) (as' @ [a, x])"
          by (rule dll_insert_tail) (use D(1) TT Nil x in auto)
        then show ?thesis
          by (intro fin [where n = "?n(x := None, a := Some x)" and p = "?p(x := Some a)"])
            (use Nil y False sc a ax in \<open>simp_all add: OS_TmrLink_def Let_def tmr_upds delta_ins_def\<close>)
      next
        case (Cons b bs')
        have tT: "hdo (rev Ts) = hdo (rev (as' @ a # x # b # bs'))" using TT(1) Cons by (simp add: hdo_append)
        have "dll (?n(x := Some b, a := Some x)) (?p(x := Some a, b := Some x))
            (OSTmrListPtr s) (hdo (rev (as' @ a # x # b # bs'))) (as' @ a # x # b # bs')"
          unfolding tT [symmetric] by (rule dll_insert_between) (use D(1) TT Cons x in auto)
        moreover have "?p b = Some a" "b \<noteq> x"
          using dll_split(2) [of ?n ?p _ _ "as' @ [a]" b bs'] D(1) TT Cons x by auto
        ultimately show ?thesis
          by (intro fin [where n = "?n(x := Some b, a := Some x)" and p = "?p(x := Some a, b := Some x)"])
            (use Cons y False sc a ax in \<open>simp_all add: OS_TmrLink_def Let_def tmr_upds delta_ins_def\<close>)
      qed
    qed
  qed
qed

section \<open>Unlinking\<close>

lemma tmr_consume_spec:
  "lnk (jnxt s) ys None \<Longrightarrow> distinct ys \<Longrightarrow>
   \<exists>r'. tmr_consume g (hdo ys) s = Some (upd_now (jnxt s) (jprv s) r' s) \<and>
     shifted (unat g) (jrem s) ys r' ys \<and> span r' ys \<le> span (jrem s) ys \<and> (\<forall>a. a \<notin> set ys \<longrightarrow> r' a = jrem s a)"
proof (induction ys arbitrary: g s)
  case Nil
  then show ?case by (intro exI [of _ "jrem s"]) (simp add: tmr_consume.simps shifted_def upd_now_def)
next
  case (Cons y ys)
  from Cons.prems have y: "jnxt s y = hdo ys" "lnk (jnxt s) ys None" "y \<notin> set ys" "distinct ys"
    by (auto split: if_splits)
  let ?v = "if g > jrem s y then 0 else jrem s y - g" and ?g = "if g > jrem s y then g - jrem s y else 0"
  let ?s = "upd_now (jnxt s) (jprv s) ((jrem s)(y := ?v)) s"
  have uv: "unat ?v = unat (jrem s y) - unat g" "unat ?g = unat g - unat (jrem s y)"
    by (auto simp: unat_sub word_le_nat_alt word_less_nat_alt not_less)
  have "lnk (jnxt ?s) ys None" using y(2) by (simp add: upd_now_def)
  from Cons.IH [OF this y(4), of ?g] obtain r' where
    r': "tmr_consume ?g (hdo ys) ?s = Some (upd_now (jnxt ?s) (jprv ?s) r' ?s)"
      "shifted (unat ?g) (jrem ?s) ys r' ys" "span r' ys \<le> span (jrem ?s) ys" "\<forall>a. a \<notin> set ys \<longrightarrow> r' a = jrem ?s a"
    by blast
  have "tmr_consume g (hdo (y # ys)) s = Some (upd_now (jnxt s) (jprv s) r' s)"
  proof (cases "g > 0")
    case True
    then have "tmr_consume g (hdo (y # ys)) s = tmr_consume ?g (hdo ys) ?s"
      by (simp add: tmr_consume.simps [of g "Some y"] tmr_upds y(1))
    then show ?thesis using r'(1) by (simp add: upd_now_def)
  next
    case False
    then have g: "g = 0" by (simp add: word_gt_0)
    then have "?s = s" by (simp add: upd_now_def)
    then have "tmr_consume 0 (hdo ys) s = Some (upd_now (jnxt s) (jprv s) r' s)" using r'(1) g by simp
    then have "s = upd_now (jnxt s) (jprv s) r' s" by (simp add: tmr_consume.simps)
    then show ?thesis using g by (simp add: tmr_consume.simps)
  qed
  moreover have ry: "r' y = ?v" using r'(4) y(3) by (simp add: upd_now_def)
  moreover have "span r' (y # ys) \<le> span (jrem s) (y # ys)"
    using r'(3) y(3) uv(1) by (simp add: ry upd_now_def)
  moreover have "shifted (unat g) (jrem s) (y # ys) r' (y # ys)"
    unfolding shifted_def
  proof
    fix a assume a: "a \<in> set (y # ys)"
    show "due r' (y # ys) a = due (jrem s) (y # ys) a - unat g"
    proof (cases "a = y")
      case True
      then show ?thesis using ry uv(1) by simp
    next
      case False
      then have "due r' ys a = due (jrem s) ys a - unat ?g"
        using a r'(2) y(3) by (simp add: shifted_def upd_now_def)
      then show ?thesis using False ry uv by simp
    qed
  qed
  moreover have "\<forall>a. a \<notin> set (y # ys) \<longrightarrow> r' a = jrem s a" using r'(4) by (simp add: upd_now_def)
  ultimately show ?case by blast
qed

lemma tmr_same_upd: "tmr_same s s' \<Longrightarrow> tmr_same (upd_tmr n p r h e b s) (upd_tmr n p r h e b s')"
  by (simp add: tmr_same_def upd_tmr_def)

lemma tmr_same_sym: "tmr_same s s' \<Longrightarrow> tmr_same s' s"
  by (simp add: tmr_same_def)

lemma tmr_moved_trans: "tmr_moved s s1 \<Longrightarrow> tmr_moved s1 s2 \<Longrightarrow> tmr_moved s s2"
  unfolding tmr_moved_def using tmr_same_trans [OF tmr_same_upd] by (metis upd_tmr_upd_tmr)

lemma tmr_moved_refl: "tmr_moved s s"
  by (rule tmr_movedI [of "jnxt s" "jprv s" "jrem s" "OSTmrListPtr s" "OSTmrListEntries s" "OSTmrTaskTickBase s"]) simp_all

text \<open>When the head is removed and the timer behind it follows exactly after the ticks that have elapsed
  since the base, the base is not moved although the elapsed ticks have been taken off.\<close>

definition keeps_base :: "kernel \<Rightarrow> nat \<Rightarrow> nat list \<Rightarrow> u32 \<Rightarrow> bool" where
  "keeps_base s x bs time \<longleftrightarrow> bs \<noteq> [] \<and> jrem s (hd bs) = time - OSTmrTaskTickBase s \<and> jrem s x \<noteq> 0"

definition tmr_unlinked :: "kernel \<Rightarrow> nat list \<Rightarrow> nat \<Rightarrow> nat list \<Rightarrow> u32 \<Rightarrow> kernel \<Rightarrow> bool" where
  "tmr_unlinked s as x bs time s' \<longleftrightarrow> tmr_list s' (as @ bs) \<and>
     OSTmrTaskTickBase s' = (if as = [] \<and> \<not> keeps_base s x bs time then time else OSTmrTaskTickBase s) \<and>
     jnxt s' x = None \<and> jprv s' x = None \<and> jrem s' x = 0 \<and>
     (let g = (if as = [] then unat (time - OSTmrTaskTickBase s) else 0) in
      \<forall>a\<in>set (as @ bs). due (jrem s') (as @ bs) a = due (jrem s) (as @ x # bs) a - g)"

lemma tmr_unlinked_same:
  assumes "tmr_same s1 s'"
  shows "tmr_unlinked s as x bs time s' \<longleftrightarrow> tmr_unlinked s as x bs time s1"
  by (simp add: tmr_unlinked_def tmr_same_sel(4,7-10) [OF assms])

lemma delta_rem_x [simp]: "delta_rem r x bs x = 0"
  by (simp add: delta_rem_def split: list.splits)

text \<open>Removal behind the head: the ticks of the timer go to the one behind it.\<close>

lemma unlink_inner:
  assumes T: "tmr_list s (as @ x # bs)" and run: "f = Some (upd_tmr n p (delta_rem (jrem s) x bs) (OSTmrListPtr s)
      (OSTmrListEntries s - 1) (OSTmrTaskTickBase s) s)" and as: "as \<noteq> []"
    and dl: "dll n p (OSTmrListPtr s) (hdo (rev (as @ bs))) (as @ bs)" and nx: "n x = None" "p x = None"
    and c: "cond_ok s"
  shows "\<exists>s'. f = Some s' \<and> cond_ok s' \<and> tmr_moved s s' \<and> tmr_unlinked s as x bs time s'"
proof -
  note D = tmr_listD [OF T]
  note R = delta_rem_spec [OF D(5,3)]
  show ?thesis
    using run c D(2,3) R as dl nx
    by (auto simp: tmr_unlinked_def tmr_list_def intro!: tmr_movedI [OF tmr_same_refl])
qed

text \<open>Removal of the head: the list that is left takes over the elapsed ticks.\<close>

lemma unlink_head_times:
  assumes T: "tmr_list s (x # b # bs)" and r: "shifted g (delta_rem (jrem s) x (b # bs)) (b # bs) r' (b # bs)"
    and g: "g = unat (time - OSTmrTaskTickBase s)"
  shows "a \<in> set (b # bs) \<Longrightarrow> due r' (b # bs) a = due (jrem s) (x # b # bs) a - g"
    and "r' b \<noteq> jrem s x \<or> r' b = 0 \<longleftrightarrow> \<not> (jrem s b = time - OSTmrTaskTickBase s \<and> jrem s x \<noteq> 0)"
proof -
  note D = tmr_listD [OF T]
  have dist: "distinct ([] @ x # b # bs)" and sp: "span (jrem s) ([] @ x # b # bs) < 2 ^ 32" using D(3,5) by simp_all
  show *: "due r' (b # bs) a = due (jrem s) (x # b # bs) a - g" if "a \<in> set (b # bs)" for a
  proof -
    have "due r' (b # bs) a = due (delta_rem (jrem s) x (b # bs)) (b # bs) a - g"
      using r that unfolding shifted_def by blast
    also have "due (delta_rem (jrem s) x (b # bs)) (b # bs) a = due (jrem s) (x # b # bs) a"
      using delta_rem_spec(1) [OF dist sp, of a] that by (simp only: append_Nil)
    finally show ?thesis .
  qed
  from * [of b] D(5) have rb: "unat (r' b) = unat (jrem s x) + unat (jrem s b) - g" by auto
  show "r' b \<noteq> jrem s x \<or> r' b = 0 \<longleftrightarrow> \<not> (jrem s b = time - OSTmrTaskTickBase s \<and> jrem s x \<noteq> 0)"
    using rb g by (auto simp: word_unat_eq_iff unat_0 simp del: unat_eq_zero)
qed

lemma OS_TmrUnlink_spec:
  assumes T: "tmr_list s (as @ x # bs)" and c: "cond_ok s"
  shows "\<exists>s'. OS_TmrUnlink (Some x) time ts s = Some s' \<and> cond_ok s' \<and> tmr_moved s s' \<and> tmr_unlinked s as x bs time s'"
proof -
  note D = tmr_listD [OF T]
  note nb = dll_split(1,2) [OF D(1)]
  let ?b = "OSTmrTaskTickBase s" and ?n = "jnxt s" and ?p = "jprv s" and ?r = "jrem s" and ?e = "OSTmrListEntries s"
  note inner = unlink_inner [OF T _ _ _ _ _ c]
  consider (only) "as = []" "bs = []" | (head) y bs' where "as = []" "bs = y # bs'"
    | (tail) a as' where "as = as' @ [a]" "bs = []"
    | (mid) a as' y bs' where "as = as' @ [a]" "bs = y # bs'"
    by (cases as rule: rev_cases; cases bs) auto
  then show ?thesis
  proof cases
    case only
    then have n: "?n x = None" "?p x = None" using nb by simp_all
    let ?s = "upd_tmr ?n ?p (?r(x := 0)) None 0 time s"
    have "cond_ok ?s" using c by simp
    from OS_TmrCondSignal_spec [OF this] obtain s' where
      s': "OS_TmrCondSignal ts ?s = Some s'" "cond_ok s'" "tmr_same ?s s'" "app_part s' = app_part ?s" .
    have "OS_TmrUnlink (Some x) time ts s = Some s'"
      using only n s'(1) by (simp add: OS_TmrUnlink_def Let_def tmr_upds)
    moreover have "tmr_unlinked s as x bs time s'"
      unfolding tmr_unlinked_same [OF s'(3)] using only n by (simp add: tmr_unlinked_def tmr_list_def keeps_base_def)
    moreover have "tmr_moved s s'" using s'(4) by (intro tmr_movedI [OF s'(3)]) simp
    ultimately show ?thesis using s'(2) by blast
  next
    case tail
    then have n: "?n x = None" "?p x = Some a" "a \<noteq> x" using nb D(5) by auto
    have "dll (?n(a := None, x := None)) (?p(x := None)) (OSTmrListPtr s) (Some a) (as' @ [a])"
      by (rule dll_remove_tail) (use D(1) tail in simp)
    then show ?thesis
      by (intro inner [where n = "?n(a := None, x := None)" and p = "?p(x := None)"])
        (use tail n in \<open>simp_all add: OS_TmrUnlink_def Let_def tmr_upds delta_rem_def\<close>)
  next
    case mid
    then have n: "?n x = Some y" "?p x = Some a" "a \<noteq> x" "y \<noteq> x" "a \<noteq> y" using nb D(5) by auto
    have tT: "hdo (rev (as @ x # bs)) = hdo (rev (as' @ a # y # bs'))" using mid by (simp add: hdo_append)
    have "dll (?n(a := Some y, x := None)) (?p(y := Some a, x := None)) (OSTmrListPtr s)
        (hdo (rev (as' @ a # y # bs'))) (as' @ a # y # bs')"
      unfolding tT [symmetric] by (rule dll_remove_between) (use D(1) mid in simp)
    then show ?thesis
      by (intro inner [where n = "?n(a := Some y, x := None)" and p = "?p(y := Some a, x := None)"])
        (use mid n in \<open>simp_all add: OS_TmrUnlink_def Let_def tmr_upds delta_rem_def\<close>)
  next
    case head
    then have n: "?n x = Some y" "?p x = None" "y \<noteq> x" using nb D(5) by auto
    have T': "tmr_list s (x # y # bs')" using T head by simp
    have tT: "hdo (rev (x # y # bs')) = hdo (rev (y # bs'))" by (simp add: hdo_append)
    have "dll ?n ?p (OSTmrListPtr s) (hdo (rev (x # y # bs'))) (x # y # bs')" using D(1) head by (simp only: append_Nil)
    from dll_remove_head [OF this [unfolded tT]]
    have dl: "dll (?n(x := None)) (?p(y := None, x := None)) (Some y) (hdo (rev (y # bs'))) (y # bs')"
      .
    let ?g = "time - ?b"
    let ?s = "upd_tmr ?n (?p(y := None)) (?r(y := ?r y + ?r x)) (Some y) (?e - 1) ?b s"
    have "lnk (jnxt ?s) (y # bs') None" "distinct (y # bs')" using D(1,5) head by (simp_all add: dll_def split: if_splits)
    from tmr_consume_spec [OF this, of ?g] obtain r' where
      r': "tmr_consume ?g (Some y) ?s = Some (upd_tmr ?n (?p(y := None)) r' (Some y) (?e - 1) ?b s)"
        "shifted (unat ?g) (jrem ?s) (y # bs') r' (y # bs')" "span r' (y # bs') \<le> span (jrem ?s) (y # bs')"
        "r' x = ?r x" using D(5) head by (auto simp: upd_now_def)
    have dd: "due (jrem ?s) (y # bs') = due (delta_rem ?r x bs) (y # bs')"
      and ss: "span (jrem ?s) (y # bs') = span (delta_rem ?r x bs) (y # bs')"
      using D(5) head by (auto simp: delta_rem_def fun_eq_iff)
    have sh: "shifted (unat ?g) (delta_rem ?r x (y # bs')) (y # bs') r' (y # bs')"
      using r'(2) head(2) by (simp only: shifted_def dd)
    note tm = unlink_head_times [OF T' sh refl]
    have sp: "span r' (y # bs') < 2 ^ 32"
      using r'(3) delta_rem_spec(2) [OF D(5,3)] D(3) head unfolding ss by (simp only: append_Nil)
    let ?base = "if keeps_base s x bs time then ?b else time"
    have kb: "keeps_base s x bs time \<longleftrightarrow> \<not> (r' y \<noteq> ?r x \<or> r' y = 0)" using tm(2) head by (simp add: keeps_base_def)
    let ?s1 = "upd_tmr ?n (?p(y := None)) r' (Some y) (?e - 1) ?base s"
    have "cond_ok ?s1" using c by simp
    from OS_TmrCondSignal_spec [OF this] obtain s1 where
      s1: "OS_TmrCondSignal ts ?s1 = Some s1" "cond_ok s1" "tmr_same ?s1 s1" "app_part s1 = app_part ?s1" .
    obtain s2 where s2: "(if r' y \<noteq> ?r x \<or> r' y = 0 then OS_TmrCondSignal ts ?s1 else Some ?s1) = Some s2"
      "cond_ok s2" "tmr_same ?s1 s2" "app_part s2 = app_part ?s1"
      using s1 \<open>cond_ok ?s1\<close> by (cases "r' y \<noteq> ?r x \<or> r' y = 0") auto
    let ?s2 = "upd_tmr (?n(x := None)) (?p(y := None)) (r'(x := 0)) (Some y) (?e - 1) ?base s2"
    have g2: "jnxt s2 = ?n" "jprv s2 = ?p(y := None)" "jrem s2 = r'" "OSTmrListPtr s2 = Some y"
      "OSTmrListEntries s2 = ?e - 1" "OSTmrTaskTickBase s2 = ?base"
      using tmr_same_sel(2-4,7-9) [OF s2(3)] by simp_all
    have run: "OS_TmrUnlink (Some x) time ts s = Some ?s2"
      using s2(1) n r'(1,4) kb by (cases "keeps_base s x bs time") (auto simp: OS_TmrUnlink_def Let_def tmr_upds g2)
    have same: "tmr_same (upd_tmr (?n(x := None)) (?p(y := None)) (r'(x := 0)) (Some y) (?e - 1) ?base s) ?s2"
      using tmr_same_upd [OF s2(3)] by (metis upd_tmr_upd_tmr)
    have px: "?p(y := None, x := None) = ?p(y := None)" using n(2) by auto
    have xb: "x \<notin> set (y # bs')" using D(5) head by simp
    have "tmr_unlinked s as x bs time ?s2"
      unfolding tmr_unlinked_same [OF same]
      using tm(1) sp dl px n head D(2) span_upd [OF xb] due_upd [OF xb]
      by (simp add: tmr_unlinked_def tmr_list_def del: due.simps span.simps rev.simps)
    moreover have "tmr_moved s ?s2" using s2(4) by (intro tmr_movedI [OF same]) simp
    ultimately show ?thesis using run s2(2) by auto
  qed
qed

section \<open>The timers that are due\<close>

definition put_tmr :: "nat \<Rightarrow> (OS_TMR \<Rightarrow> OS_TMR) \<Rightarrow> kernel \<Rightarrow> kernel" where
  "put_tmr a f s = s\<lparr>OSTmrs := (OSTmrs s)(a := f (OSTmrs s a))\<rparr>"

lemma set_tmr_put: "set_tmr (Some a) f s = Some (put_tmr a f s)"
  by (simp add: set_tmr_def put_tmr_def)

lemma put_tmr_sel [simp]:
  "OSTmrs (put_tmr a f s) c = (if c = a then f (OSTmrs s a) else OSTmrs s c)"
  "OSTmrListPtr (put_tmr a f s) = OSTmrListPtr s" "OSTmrListEntries (put_tmr a f s) = OSTmrListEntries s"
  "OSTmrTaskTickBase (put_tmr a f s) = OSTmrTaskTickBase s" "OSTickCtr (put_tmr a f s) = OSTickCtr s"
  "OSTmrToTicksMult (put_tmr a f s) = OSTmrToTicksMult s" "OSTCBCurPtr (put_tmr a f s) = OSTCBCurPtr s"
  "app_part (put_tmr a f s) = app_part s" "cond_ok (put_tmr a f s) \<longleftrightarrow> cond_ok s"
  by (simp_all add: put_tmr_def app_part_def) (rule cond_ok_cong; simp)

lemma put_tmr_links [simp]:
  "jnxt (put_tmr a (State_update g) s) = jnxt s" "jprv (put_tmr a (State_update g) s) = jprv s"
  "jrem (put_tmr a (State_update g) s) = jrem s"
  by (auto simp: jnxt_def jprv_def jrem_def)

lemma put_tmr_list [simp]: "tmr_list (put_tmr a (State_update g) s) Ts \<longleftrightarrow> tmr_list s Ts"
  by (simp add: tmr_list_def)

lemma span_cong: "(\<And>a. a \<in> set xs \<Longrightarrow> r a = r' a) \<Longrightarrow> span r xs = span r' xs"
  by (induction xs) auto

lemma due_cong: "(\<And>a. a \<in> set xs \<Longrightarrow> r a = r' a) \<Longrightarrow> due r xs c = due r' xs c"
  by (induction xs) auto

lemma put_tmr_other:
  assumes "x \<notin> set Ts"
  shows "tmr_list (put_tmr x f s) Ts \<longleftrightarrow> tmr_list s Ts" "due (jrem (put_tmr x f s)) Ts = due (jrem s) Ts"
proof -
  have *: "jnxt (put_tmr x f s) a = jnxt s a" "jprv (put_tmr x f s) a = jprv s a" "jrem (put_tmr x f s) a = jrem s a"
    if "a \<in> set Ts" for a using that assms by (auto simp: jnxt_def jprv_def jrem_def)
  show "due (jrem (put_tmr x f s)) Ts = due (jrem s) Ts" using * by (intro ext due_cong) simp
  have "dll (jnxt (put_tmr x f s)) (jprv (put_tmr x f s)) (OSTmrListPtr s) (hdo (rev Ts)) Ts =
      dll (jnxt s) (jprv s) (OSTmrListPtr s) (hdo (rev Ts)) Ts" by (rule dll_cong) (use * in auto)
  then show "tmr_list (put_tmr x f s) Ts \<longleftrightarrow> tmr_list s Ts"
    using span_cong [of Ts, OF *(3)] by (simp add: tmr_list_def)
qed

text \<open>What is relied on of the callback of timer \<open>a\<close>: it returns, leaves the timers alone, and does its work,
  which is recorded in the application's data.\<close>

definition calls :: "callback \<Rightarrow> ((nat \<Rightarrow> OS_SEM) \<times> (nat \<Rightarrow> OS_MSG_Q) \<times> (nat \<Rightarrow> OS_FLAG_GRP) \<times> (nat \<Rightarrow> OS_MSG) \<Rightarrow> nat list) \<Rightarrow>
    nat \<Rightarrow> u32 \<Rightarrow> ptr \<Rightarrow> bool" where
  "calls cb L a f arg \<longleftrightarrow> (\<forall>s. cond_ok s \<longrightarrow> (\<exists>s'. cb f (Some a) arg s = Some s' \<and> cond_ok s' \<and> tmr_same s s' \<and>
     L (app_part s') = L (app_part s) @ [a]))"

definition periodic :: "kernel \<Rightarrow> nat \<Rightarrow> bool" where
  "periodic s a \<longleftrightarrow> Opt (OSTmrs s a) = OS_OPT_TMR_PERIODIC"

definition has_cb :: "kernel \<Rightarrow> nat \<Rightarrow> bool" where
  "has_cb s a \<longleftrightarrow> CallbackPtr (OSTmrs s a) \<noteq> 0"

definition fires :: "callback \<Rightarrow> ((nat \<Rightarrow> OS_SEM) \<times> (nat \<Rightarrow> OS_MSG_Q) \<times> (nat \<Rightarrow> OS_FLAG_GRP) \<times> (nat \<Rightarrow> OS_MSG) \<Rightarrow> nat list) \<Rightarrow>
    kernel \<Rightarrow> nat \<Rightarrow> bool" where
  "fires cb L s a \<longleftrightarrow> (has_cb s a \<longrightarrow> calls cb L a (CallbackPtr (OSTmrs s a)) (CallbackPtrArg (OSTmrs s a))) \<and>
     (periodic s a \<longrightarrow> Period (OSTmrs s a) \<noteq> 0)"

text \<open>The fields the timer task does not write.\<close>

definition tmr_static :: "kernel \<Rightarrow> kernel \<Rightarrow> bool" where
  "tmr_static s s' \<longleftrightarrow> (\<forall>a. Opt (OSTmrs s' a) = Opt (OSTmrs s a) \<and> Period (OSTmrs s' a) = Period (OSTmrs s a) \<and>
     CallbackPtr (OSTmrs s' a) = CallbackPtr (OSTmrs s a) \<and> CallbackPtrArg (OSTmrs s' a) = CallbackPtrArg (OSTmrs s a))"

lemma tmr_static_sel:
  assumes "tmr_static s s'"
  shows "periodic s' a = periodic s a" "has_cb s' a = has_cb s a" "fires cb L s' a = fires cb L s a"
    "Period (OSTmrs s' a) = Period (OSTmrs s a)"
  using assms by (simp_all add: tmr_static_def periodic_def has_cb_def fires_def)

lemma tmr_static_trans: "tmr_static s s1 \<Longrightarrow> tmr_static s1 s2 \<Longrightarrow> tmr_static s s2"
  by (simp add: tmr_static_def)

lemma tmr_static_moved: "tmr_moved s s' \<Longrightarrow> tmr_static s s'"
  by (simp add: tmr_static_def tmr_moved_sel)

lemma tmr_static_same: "tmr_same s s' \<Longrightarrow> tmr_static s s'"
  by (simp add: tmr_static_def tmr_same_def)

lemma tmr_static_put [simp]: "tmr_static s (put_tmr a (State_update f) s)" "tmr_static s (put_tmr a (Remain_update g) s)"
  by (simp_all add: tmr_static_def)

text \<open>The timers due within \<open>g\<close> ticks have been fired: periodic ones start again, the others are completed.\<close>

definition fired :: "nat \<Rightarrow> kernel \<Rightarrow> nat list \<Rightarrow> kernel \<Rightarrow> nat list \<Rightarrow> bool" where
  "fired g s Ts s' Ts' \<longleftrightarrow> tmr_list s' Ts' \<and> tmr_static s s' \<and>
     set Ts' = {a \<in> set Ts. due (jrem s) Ts a > g \<or> periodic s a} \<and>
     (\<forall>a\<in>set Ts. due (jrem s) Ts a > g \<longrightarrow> due (jrem s') Ts' a = due (jrem s) Ts a - g) \<and>
     (\<forall>a\<in>set Ts. due (jrem s) Ts a \<le> g \<and> periodic s a \<longrightarrow> due (jrem s') Ts' a = unat (Period (OSTmrs s a))) \<and>
     (\<forall>a. State (OSTmrs s' a) = (if a \<in> set Ts \<and> due (jrem s) Ts a \<le> g
        then if periodic s a then OS_TMR_STATE_RUNNING else OS_TMR_STATE_COMPLETED else State (OSTmrs s a)))"

lemma firedD:
  assumes "fired g s Ts s' Ts'"
  shows "tmr_list s' Ts'" "tmr_static s s'" "set Ts' = {a \<in> set Ts. due (jrem s) Ts a > g \<or> periodic s a}"
    "\<And>a. a \<in> set Ts \<Longrightarrow> due (jrem s) Ts a > g \<Longrightarrow> due (jrem s') Ts' a = due (jrem s) Ts a - g"
    "\<And>a. a \<in> set Ts \<Longrightarrow> due (jrem s) Ts a \<le> g \<Longrightarrow> periodic s a \<Longrightarrow> due (jrem s') Ts' a = unat (Period (OSTmrs s a))"
    "\<And>a. State (OSTmrs s' a) = (if a \<in> set Ts \<and> due (jrem s) Ts a \<le> g
        then if periodic s a then OS_TMR_STATE_RUNNING else OS_TMR_STATE_COMPLETED else State (OSTmrs s a))"
  using assms by (auto simp: fired_def)

text \<open>One round of the loop on a head with no ticks left.\<close>

definition fire_one :: "callback \<Rightarrow> nat \<Rightarrow> u32 \<Rightarrow> kernel \<Rightarrow> kernel option" where
  "fire_one cb a ts s = do {
     s \<leftarrow> set_tmr (Some a) (\<lambda>t. t\<lparr>State := OS_TMR_STATE_TIMEOUT\<rparr>) s;
     t \<leftarrow> tmr s (Some a);
     s \<leftarrow> (if CallbackPtr t \<noteq> 0 then cb (CallbackPtr t) (Some a) (CallbackPtrArg t) s else Some s);
     t \<leftarrow> tmr s (Some a);
     if State t = OS_TMR_STATE_TIMEOUT then do {
       s \<leftarrow> OS_TmrUnlink (Some a) (OSTmrTaskTickBase s) ts s;
       t \<leftarrow> tmr s (Some a);
       if Opt t = OS_OPT_TMR_PERIODIC then do {
         s \<leftarrow> set_tmr (Some a) (\<lambda>t. t\<lparr>State := OS_TMR_STATE_RUNNING\<rparr>) s;
         s \<leftarrow> set_tmr (Some a) (\<lambda>t. t\<lparr>Remain := Period t\<rparr>) s;
         OS_TmrLink (Some a) (OSTmrTaskTickBase s) ts s
       } else
         set_tmr (Some a) (\<lambda>t. t\<lparr>Tmr_PrevPtr := None, Tmr_NextPtr := None, Remain := 0,
           State := OS_TMR_STATE_COMPLETED\<rparr>) s
     } else Some s
   }"

lemma tmr_expire_loop_step:
  "OSTmrListPtr s = Some a \<Longrightarrow> jrem s a = 0 \<Longrightarrow>
   tmr_expire_loop cb ts n s = Option.bind (fire_one cb a (ts n) s) (tmr_expire_loop cb ts (Suc n))"
  by (subst tmr_expire_loop.simps) (simp add: fire_one_def jrem_def Option.bind_assoc)

lemma tmr_expire_loop_stop:
  "OSTmrListPtr s = None \<or> (\<exists>a. OSTmrListPtr s = Some a \<and> jrem s a \<noteq> 0) \<Longrightarrow> tmr_expire_loop cb ts n s = Some s"
  by (subst tmr_expire_loop.simps) (auto simp: jrem_def)

text \<open>The callback, and the removal of the timer from the list.\<close>

lemma fire_callback:
  assumes "cond_ok s" and "fires cb L s x"
  obtains s1 where "(if CallbackPtr (OSTmrs s x) \<noteq> 0 then cb (CallbackPtr (OSTmrs s x)) (Some x) (CallbackPtrArg (OSTmrs s x)) s
      else Some s) = Some s1" "cond_ok s1" "tmr_same s s1" "L (app_part s1) = L (app_part s) @ filter (has_cb s) [x]"
proof (cases "has_cb s x")
  case True
  with assms(2) have "calls cb L x (CallbackPtr (OSTmrs s x)) (CallbackPtrArg (OSTmrs s x))" by (simp add: fires_def)
  with assms(1) obtain s1 where "cb (CallbackPtr (OSTmrs s x)) (Some x) (CallbackPtrArg (OSTmrs s x)) s = Some s1"
    "cond_ok s1" "tmr_same s s1" "L (app_part s1) = L (app_part s) @ [x]" unfolding calls_def by blast
  then show ?thesis using True that by (simp add: has_cb_def)
next
  case False
  then show ?thesis using assms(1) that [of s] by (simp add: has_cb_def)
qed

lemma unlink_expired:
  assumes T: "tmr_list s (x # ys)" and r: "jrem s x = 0" and c: "cond_ok s"
  obtains s1 where "OS_TmrUnlink (Some x) (OSTmrTaskTickBase s) ts s = Some s1" "cond_ok s1" "tmr_moved s s1"
    "tmr_list s1 ys" "OSTmrTaskTickBase s1 = OSTmrTaskTickBase s" "jnxt s1 x = None" "jprv s1 x = None" "jrem s1 x = 0"
    "\<And>a. a \<in> set ys \<Longrightarrow> due (jrem s1) ys a = due (jrem s) (x # ys) a"
proof -
  from OS_TmrUnlink_spec [of s "[]" x ys "OSTmrTaskTickBase s" ts] T c obtain s1 where
    "OS_TmrUnlink (Some x) (OSTmrTaskTickBase s) ts s = Some s1" "cond_ok s1" "tmr_moved s s1"
    "tmr_unlinked s [] x ys (OSTmrTaskTickBase s) s1" by auto
  then show ?thesis using r by (intro that [of s1]) (auto simp: tmr_unlinked_def keeps_base_def)
qed

definition restarted :: "kernel \<Rightarrow> nat \<Rightarrow> nat list \<Rightarrow> kernel \<Rightarrow> nat list \<Rightarrow> bool" where
  "restarted s x ys s' Ts' \<longleftrightarrow>
     (if periodic s x then (\<exists>as bs. ys = as @ bs \<and> Ts' = as @ x # bs) \<and> due (jrem s') Ts' x = unat (Period (OSTmrs s x))
      else Ts' = ys) \<and>
     (\<forall>a\<in>set ys. due (jrem s') Ts' a = due (jrem s) (x # ys) a) \<and>
     (\<forall>a. State (OSTmrs s' a) = (if a = x then if periodic s x then OS_TMR_STATE_RUNNING else OS_TMR_STATE_COMPLETED
        else State (OSTmrs s a)))"

lemma fire_one_spec:
  assumes T: "tmr_list s (x # ys)" and r: "jrem s x = 0" and c: "cond_ok s" and f: "fires cb L s x"
  shows "\<exists>s' Ts'. fire_one cb x ts s = Some s' \<and> cond_ok s' \<and> tmr_list s' Ts' \<and> tmr_static s s' \<and>
    OSTmrTaskTickBase s' = OSTmrTaskTickBase s \<and> L (app_part s') = L (app_part s) @ filter (has_cb s) [x] \<and>
    restarted s x ys s' Ts'"
proof -
  let ?s0 = "put_tmr x (State_update (\<lambda>_. OS_TMR_STATE_TIMEOUT)) s"
  have f0: "fires cb L ?s0 x" using f by (simp add: tmr_static_sel(3) [OF tmr_static_put(1)])
  have c0: "cond_ok ?s0" using c by simp
  from fire_callback [OF c0 f0] obtain s1 where
    s1: "(if CallbackPtr (OSTmrs ?s0 x) \<noteq> 0 then cb (CallbackPtr (OSTmrs ?s0 x)) (Some x) (CallbackPtrArg (OSTmrs ?s0 x)) ?s0
      else Some ?s0) = Some s1" "cond_ok s1" "tmr_same ?s0 s1"
      "L (app_part s1) = L (app_part ?s0) @ filter (has_cb ?s0) [x]" .
  note m1 = tmr_same_sel [OF s1(3)]
  have "tmr_list s1 (x # ys)" "jrem s1 x = 0" using T r by (simp_all add: m1)
  from unlink_expired [OF this s1(2), of "ts"] obtain s2 where
    s2: "OS_TmrUnlink (Some x) (OSTmrTaskTickBase s1) ts s1 = Some s2" "cond_ok s2" "tmr_moved s1 s2"
    "tmr_list s2 ys" "OSTmrTaskTickBase s2 = OSTmrTaskTickBase s1" "jnxt s2 x = None" "jprv s2 x = None" "jrem s2 x = 0"
    "\<And>a. a \<in> set ys \<Longrightarrow> due (jrem s2) ys a = due (jrem s1) (x # ys) a" by blast
  have st: "tmr_static s s2"
    by (rule tmr_static_trans [OF tmr_static_put(1) tmr_static_trans [OF tmr_static_same [OF s1(3)] tmr_static_moved [OF s2(3)]]])
  have x: "x \<notin> set ys" using tmr_listD(5) [OF T] by simp
  have S1: "State (OSTmrs s1 x) = OS_TMR_STATE_TIMEOUT" using m1(1) by simp
  have S2: "State (OSTmrs s2 a) = State (OSTmrs s a)" if "a \<noteq> x" for a
    using that by (simp add: tmr_moved_sel(1) [OF s2(3)] m1(1))
  have due2: "due (jrem s2) ys a = due (jrem s) (x # ys) a" if "a \<in> set ys" for a
    using s2(9) [OF that] by (simp add: m1)
  have base: "OSTmrTaskTickBase s2 = OSTmrTaskTickBase s" using s2(5) by (simp add: m1)
  have hc: "has_cb ?s0 = has_cb s" by (rule ext) (simp add: has_cb_def)
  have app: "L (app_part s2) = L (app_part s) @ filter (has_cb s) [x]"
    using s1(4) tmr_moved_sel(10) [OF s2(3)] by (simp add: hc)
  have pre: "fire_one cb x ts s = (if periodic s x
      then OS_TmrLink (Some x) (OSTmrTaskTickBase s2) ts (put_tmr x (\<lambda>t. t\<lparr>Remain := Period t\<rparr>)
        (put_tmr x (State_update (\<lambda>_. OS_TMR_STATE_RUNNING)) s2))
      else Some (put_tmr x (\<lambda>t. t\<lparr>Tmr_PrevPtr := None, Tmr_NextPtr := None, Remain := 0,
           State := OS_TMR_STATE_COMPLETED\<rparr>) s2))"
    unfolding fire_one_def using s1(1) S1 s2(1) tmr_static_sel(1) [OF st, of x]
    by (simp add: set_tmr_put periodic_def)
  show ?thesis
  proof (cases "periodic s x")
    case False
    let ?s3 = "put_tmr x (\<lambda>t. t\<lparr>Tmr_PrevPtr := None, Tmr_NextPtr := None, Remain := 0,
           State := OS_TMR_STATE_COMPLETED\<rparr>) s2"
    have "tmr_static s2 ?s3" by (simp add: tmr_static_def)
    moreover have "restarted s x ys ?s3 ys"
      using False S2 due2 by (simp add: restarted_def put_tmr_other(2) [OF x])
    ultimately show ?thesis
      using pre False s2(2,4) base app tmr_static_trans [OF st]
      by (intro exI [of _ ?s3] exI [of _ ys]) (simp add: put_tmr_other(1) [OF x])
  next
    case True
    let ?s3 = "put_tmr x (\<lambda>t. t\<lparr>Remain := Period t\<rparr>) (put_tmr x (State_update (\<lambda>_. OS_TMR_STATE_RUNNING)) s2)"
    have T3: "tmr_list ?s3 ys" using s2(4) by (simp add: put_tmr_other(1) [OF x])
    have c3: "cond_ok ?s3" using s2(2) by simp
    have P: "Period (OSTmrs s2 x) = Period (OSTmrs s x)" "Period (OSTmrs s x) \<noteq> 0"
      using tmr_static_sel(4) [OF st] f True by (simp_all add: fires_def)
    have j3: "jrem ?s3 x = Period (OSTmrs s x)" using P by (simp add: jrem_def)
    let ?d = "unat (Period (OSTmrs s x))"
    have lt: "?d < 2 ^ 32" using unsigned_less [of "Period (OSTmrs s x)"] by simp
    have "\<exists>s' Ts'. OS_TmrLink (Some x) (OSTmrTaskTickBase s2) ts ?s3 = Some s' \<and> cond_ok s' \<and> tmr_moved ?s3 s' \<and>
        tmr_list s' Ts' \<and> tmr_linked ?s3 ys x ?d (OSTmrTaskTickBase s2) s' Ts'"
      by (rule OS_TmrLink_spec [OF T3 x c3 _ lt]) (simp add: j3)
    then obtain s' Ts' where s': "OS_TmrLink (Some x) (OSTmrTaskTickBase s2) ts ?s3 = Some s'" "cond_ok s'"
      "tmr_moved ?s3 s'" "tmr_list s' Ts'" "tmr_linked ?s3 ys x ?d (OSTmrTaskTickBase s2) s' Ts'" by blast
    have st': "tmr_static s s'"
      by (rule tmr_static_trans [OF st tmr_static_trans [OF _ tmr_static_moved [OF s'(3)]]]) (simp add: tmr_static_def)
    have due3: "due (jrem ?s3) ys = due (jrem s2) ys" by (simp add: put_tmr_other(2) [OF x])
    have "OSTmrTaskTickBase s' = OSTmrTaskTickBase s" using s'(5) base by (auto simp: tmr_linked_def)
    moreover have "L (app_part s') = L (app_part s) @ filter (has_cb s) [x]"
      using app tmr_moved_sel(10) [OF s'(3)] by simp
    moreover have "restarted s x ys s' Ts'"
      using s'(5) True due2 tmr_moved_sel(1) [OF s'(3)] S2
      by (auto simp: restarted_def tmr_linked_def shifted_def due3 Let_def split: if_splits)
    ultimately show ?thesis using pre True s'(1,2,4) st' by auto
  qed
qed

lemma restarted_set: "restarted s x ys s' Ts' \<Longrightarrow> set Ts' = (if periodic s x then insert x (set ys) else set ys)"
  by (auto simp: restarted_def split: if_splits)

lemma due_head_zero:
  assumes "tmr_list s Ts" and "filter (\<lambda>a. due (jrem s) Ts a = 0) Ts = z # zs"
  obtains ys where "Ts = z # ys" "jrem s z = 0" "filter (\<lambda>a. due (jrem s) Ts a = 0) ys = zs"
proof -
  from assms(2) have z: "z \<in> set Ts" "due (jrem s) Ts z = 0"
    by (metis (mono_tags, lifting) filter_eq_Cons_iff in_set_conv_decomp)+
  obtain y ys where Ts: "Ts = y # ys" using z(1) by (cases Ts) auto
  have "jrem s y = 0" using z(2) due_ge_head [of "jrem s" y ys z] by (simp add: Ts unat_eq_zero)
  then have "due (jrem s) (y # ys) y = 0" by simp
  moreover have "filter (\<lambda>a. due (jrem s) (y # ys) a = 0) (y # ys) = z # zs" using assms(2) by (simp only: Ts)
  ultimately have "y # filter (\<lambda>a. due (jrem s) (y # ys) a = 0) ys = z # zs" by (simp only: filter.simps simp_thms if_True)
  then have "y = z \<and> filter (\<lambda>a. due (jrem s) (y # ys) a = 0) ys = zs" by (rule list.inject [THEN iffD1])
  then show ?thesis using \<open>jrem s y = 0\<close> Ts that [of ys] by blast
qed

text \<open>The loop ends: every round takes one timer off the due ones, and a periodic timer comes back later.\<close>

lemma expire_loop_spec:
  assumes "tmr_list s Ts" and "cond_ok s" and "\<And>a. a \<in> set Ts \<Longrightarrow> due (jrem s) Ts a = 0 \<Longrightarrow> fires cb L s a"
  shows "\<exists>s' Ts'. tmr_expire_loop cb ts n s = Some s' \<and> cond_ok s' \<and> fired 0 s Ts s' Ts' \<and>
    OSTmrTaskTickBase s' = OSTmrTaskTickBase s \<and>
    L (app_part s') = L (app_part s) @ filter (has_cb s) (filter (\<lambda>a. due (jrem s) Ts a = 0) Ts)"
  using assms
proof (induction "filter (\<lambda>a. due (jrem s) Ts a = 0) Ts" arbitrary: s Ts n)
  case Nil
  have z: "due (jrem s) Ts a > 0" if "a \<in> set Ts" for a
    using Nil(1) [symmetric] that by (auto simp: filter_empty_conv)
  have "tmr_expire_loop cb ts n s = Some s"
  proof (rule tmr_expire_loop_stop, cases Ts)
    case (Cons y ys)
    then show "OSTmrListPtr s = None \<or> (\<exists>a. OSTmrListPtr s = Some a \<and> jrem s a \<noteq> 0)"
      using tmr_listD(4) [OF Nil(2)] z [of y] by (auto simp: unat_gt_0)
  qed (use tmr_listD(4) [OF Nil(2)] in simp)
  moreover have "fired 0 s Ts s Ts" using Nil(2) z by (auto simp: fired_def tmr_static_def dest: z)
  ultimately show ?case using Nil by (metis append_Nil2 filter.simps(1))
next
  case (Cons z zs)
  from due_head_zero [OF Cons.prems(1) Cons.hyps(2) [symmetric]] obtain ys where
    ys: "Ts = z # ys" "jrem s z = 0" "filter (\<lambda>a. due (jrem s) Ts a = 0) ys = zs" .
  have T: "tmr_list s (z # ys)" using Cons.prems(1) ys(1) by simp
  have fz: "fires cb L s z" using Cons.prems(3) ys by simp
  from fire_one_spec [OF T ys(2) Cons.prems(2) fz, of "ts n"] obtain s1 T1 where
    s1: "fire_one cb z (ts n) s = Some s1" "cond_ok s1" "tmr_list s1 T1" "tmr_static s s1"
    "OSTmrTaskTickBase s1 = OSTmrTaskTickBase s" "L (app_part s1) = L (app_part s) @ filter (has_cb s) [z]"
    "restarted s z ys s1 T1" by blast
  note st = tmr_static_sel [OF s1(4)]
  have hc: "has_cb s1 = has_cb s" by (rule ext) (rule st(2))
  have due1: "due (jrem s1) T1 a = due (jrem s) Ts a" if "a \<in> set ys" for a
    using s1(7) that ys(1) by (simp add: restarted_def)
  have z0: "due (jrem s) Ts z = 0" using ys by simp
  have zP: "periodic s z \<Longrightarrow> due (jrem s1) T1 z = unat (Period (OSTmrs s z)) \<and> unat (Period (OSTmrs s z)) \<noteq> 0"
    using s1(7) fz by (simp add: restarted_def fires_def unat_eq_zero)
  have zys: "z \<notin> set ys" using tmr_listD(5) [OF T] by simp
  note T1 = restarted_set [OF s1(7)]
  have zs: "zs = filter (\<lambda>a. due (jrem s1) T1 a = 0) T1"
  proof (cases "periodic s z")
    case True
    then obtain as bs where ab: "ys = as @ bs" "T1 = as @ z # bs" using s1(7) by (auto simp: restarted_def)
    have "filter (\<lambda>a. due (jrem s1) T1 a = 0) T1 = filter (\<lambda>a. due (jrem s1) T1 a = 0) ys"
      using zP [OF True] ab by simp
    also have "\<dots> = zs" unfolding ys(3) [symmetric] by (rule filter_cong) (simp_all add: due1)
    finally show ?thesis by simp
  next
    case False
    then have T1': "T1 = ys" using s1(7) by (simp add: restarted_def)
    show ?thesis unfolding T1' ys(3) [symmetric] by (rule filter_cong) (simp_all add: due1 [unfolded T1'])
  qed
  have fi: "fires cb L s1 a" if "a \<in> set T1" "due (jrem s1) T1 a = 0" for a
  proof -
    have "a \<in> set ys" using that T1 zP by (auto split: if_splits)
    then show ?thesis using Cons.prems(3) [of a] that(2) due1 ys(1) by (simp add: st(3))
  qed
  from Cons.hyps(1) [OF zs s1(3,2) fi, of "Suc n"] obtain s' Ts' where
    s': "tmr_expire_loop cb ts (Suc n) s1 = Some s'" "cond_ok s'" "fired 0 s1 T1 s' Ts'"
    "OSTmrTaskTickBase s' = OSTmrTaskTickBase s1" "L (app_part s') = L (app_part s1) @ filter (has_cb s1) zs"
    unfolding zs [symmetric] by blast
  note F = firedD [OF s'(3)]
  have h: "OSTmrListPtr s = Some z" using tmr_listD(4) [OF T] by simp
  have run: "tmr_expire_loop cb ts n s = Some s'"
    using s1(1) s'(1) by (simp add: tmr_expire_loop_step [OF h ys(2)])
  have St: "State (OSTmrs s1 a) = (if a = z then if periodic s z then OS_TMR_STATE_RUNNING else OS_TMR_STATE_COMPLETED
      else State (OSTmrs s a))" for a using s1(7) by (simp add: restarted_def)
  have "fired 0 s Ts s' Ts'"
    unfolding fired_def
  proof (intro conjI ballI allI impI)
    show "tmr_list s' Ts'" "tmr_static s s'" using F(1) tmr_static_trans [OF s1(4) F(2)] by simp_all
    show "set Ts' = {a \<in> set Ts. due (jrem s) Ts a > 0 \<or> periodic s a}"
      unfolding F(3) T1 using due1 z0 zP zys by (auto simp: ys(1) st(1) simp del: due.simps)
    show "due (jrem s') Ts' a = due (jrem s) Ts a - 0" if "a \<in> set Ts" "due (jrem s) Ts a > 0" for a
    proof -
      have "a \<in> set ys" using that z0 ys(1) by auto
      then show ?thesis using F(4) [of a] that(2) due1 T1 by auto
    qed
    show "due (jrem s') Ts' a = unat (Period (OSTmrs s a))" if "a \<in> set Ts" "due (jrem s) Ts a \<le> 0 \<and> periodic s a" for a
    proof (cases "a = z")
      case True
      then show ?thesis using F(4) [of z] that zP T1 by auto
    next
      case False
      then have "a \<in> set ys" using that ys(1) by auto
      then show ?thesis using F(5) [of a] that(2) due1 T1 by (auto simp: st)
    qed
    show "State (OSTmrs s' a) = (if a \<in> set Ts \<and> due (jrem s) Ts a \<le> 0
        then if periodic s a then OS_TMR_STATE_RUNNING else OS_TMR_STATE_COMPLETED else State (OSTmrs s a))" for a
    proof (cases "a = z")
      case True
      then show ?thesis using F(6) [of z] St z0 zP T1 ys(1) zys by (auto simp: st(1) simp del: due.simps)
    next
      case False
      then have "a \<in> set T1 \<longleftrightarrow> a \<in> set ys" "a \<in> set Ts \<longleftrightarrow> a \<in> set ys" using T1 ys(1) by auto
      then show ?thesis using F(6) [of a] St [of a] False due1 [of a] st(1) [of a] by (cases "a \<in> set ys") simp_all
    qed
  qed
  moreover have "L (app_part s') = L (app_part s) @ filter (has_cb s) (z # zs)" using s'(5) s1(6) hc by simp
  ultimately show ?case using run s'(2,4) s1(5) Cons.hyps(2) by metis
qed

lemma OS_TmrTask_expire_spec:
  assumes T: "tmr_list s Ts" and c: "cond_ok s" and g: "g = unat (OSTickCtr s - OSTmrTaskTickBase s)" and ne: "Ts \<noteq> []"
    and f: "\<And>a. a \<in> set Ts \<Longrightarrow> due (jrem s) Ts a \<le> g \<Longrightarrow> fires cb L s a"
  shows "\<exists>s' Ts'. OS_TmrTask_expire cb ts s = Some s' \<and> cond_ok s' \<and> fired g s Ts s' Ts' \<and>
    OSTmrTaskTickBase s' = OSTickCtr s \<and>
    L (app_part s') = L (app_part s) @ filter (has_cb s) (filter (\<lambda>a. due (jrem s) Ts a \<le> g) Ts)"
proof -
  note D = tmr_listD [OF T]
  let ?s0 = "upd_tmr (jnxt s) (jprv s) (jrem s) (OSTmrListPtr s) (OSTmrListEntries s) (OSTickCtr s) s"
  have "lnk (jnxt ?s0) Ts None" using D(1) by (simp add: dll_def)
  from tmr_consume_spec [OF this D(5), of "OSTickCtr s - OSTmrTaskTickBase s"] obtain r' where
    r': "tmr_consume (OSTickCtr s - OSTmrTaskTickBase s) (hdo Ts) ?s0 = Some (upd_now (jnxt s) (jprv s) r' ?s0)"
      "shifted g (jrem s) Ts r' Ts" "span r' Ts \<le> span (jrem s) Ts" using g by auto
  let ?s1 = "upd_now (jnxt s) (jprv s) r' ?s0"
  have T1: "tmr_list ?s1 Ts" using D r'(3) by (simp add: tmr_list_def upd_now_def)
  have c1: "cond_ok ?s1" using c by (simp add: upd_now_def)
  have due1: "due (jrem ?s1) Ts a = due (jrem s) Ts a - g" if "a \<in> set Ts" for a
    using r'(2) that by (simp add: shifted_def upd_now_def)
  have m: "tmr_moved s ?s1" by (simp add: upd_now_def tmr_movedI [OF tmr_same_refl])
  note st = tmr_static_moved [OF m]
  have f1: "fires cb L ?s1 a" if "a \<in> set Ts" "due (jrem ?s1) Ts a = 0" for a
    using f [OF that(1)] that due1 by (simp add: tmr_static_sel(3) [OF st])
  from expire_loop_spec [OF T1 c1 f1, where n = 0 and ts = ts] obtain s' Ts' where
    s': "tmr_expire_loop cb ts 0 ?s1 = Some s'" "cond_ok s'" "fired 0 ?s1 Ts s' Ts'"
    "OSTmrTaskTickBase s' = OSTmrTaskTickBase ?s1"
    "L (app_part s') = L (app_part ?s1) @ filter (has_cb ?s1) (filter (\<lambda>a. due (jrem ?s1) Ts a = 0) Ts)" by blast
  note F = firedD [OF s'(3)]
  have hd: "OSTmrListPtr s = hdo Ts" "hdo Ts \<noteq> None" using D(4) ne by (simp, cases Ts, simp_all)
  have run: "OS_TmrTask_expire cb ts s = Some s'"
    using r'(1) s'(1) hd by (simp add: OS_TmrTask_expire_def Let_def set_tmr_globals)
  have "fired g s Ts s' Ts'"
    unfolding fired_def
  proof (intro conjI ballI allI impI)
    show "tmr_list s' Ts'" "tmr_static s s'" using F(1) tmr_static_trans [OF st F(2)] by simp_all
    show "set Ts' = {a \<in> set Ts. due (jrem s) Ts a > g \<or> periodic s a}"
      unfolding F(3) using due1 by (auto simp: tmr_static_sel [OF st])
    show "due (jrem s') Ts' a = due (jrem s) Ts a - g" if "a \<in> set Ts" "due (jrem s) Ts a > g" for a
      using F(4) [OF that(1)] due1 [OF that(1)] that(2) by simp
    show "due (jrem s') Ts' a = unat (Period (OSTmrs s a))" if "a \<in> set Ts" "due (jrem s) Ts a \<le> g \<and> periodic s a" for a
      using F(5) [OF that(1)] due1 [OF that(1)] that(2) by (simp add: tmr_static_sel [OF st])
    show "State (OSTmrs s' a) = (if a \<in> set Ts \<and> due (jrem s) Ts a \<le> g
        then if periodic s a then OS_TMR_STATE_RUNNING else OS_TMR_STATE_COMPLETED else State (OSTmrs s a))" for a
      using F(6) [of a] due1 [of a] tmr_moved_sel(1) [OF m, of a] by (auto simp: tmr_static_sel [OF st])
  qed
  moreover have "filter (\<lambda>a. due (jrem ?s1) Ts a = 0) Ts = filter (\<lambda>a. due (jrem s) Ts a \<le> g) Ts"
    by (rule filter_cong) (simp_all add: due1)
  moreover have "has_cb ?s1 = has_cb s" by (rule ext) (rule tmr_static_sel(2) [OF st])
  moreover have "OSTmrTaskTickBase ?s1 = OSTickCtr s" by (simp add: upd_now_def)
  ultimately show ?thesis using run s'(2,4,5) tmr_moved_sel(10) [OF m] by auto
qed

end
