(* ===== verification/Tmr_Props.thy ===== *)
theory Tmr_Props
  imports Tmr_List Demo_System
begin

text \<open>
  The properties of the software timers: what the list operations do to the expiry of the timers, what
  the timer task does with the timers that are due, and three cases in which the code of \<open>os_tmr.c\<close>
  departs from its own comments.
\<close>

section \<open>Timers at which the theorems are applied\<close>

text \<open>Timer 1 (periodic) is due after 5 ticks, timer 2 (one-shot) 5 ticks later, timer 3 (periodic) 4 ticks
  after that; the base is 5 ticks back. Timer 4 is stopped.\<close>

definition demo_timer :: "nat \<Rightarrow> OS_TMR" where
  "demo_timer a = (OSTmrs demo a)\<lparr>Tmr_Type := OS_OBJ_TYPE_TMR, CallbackPtr := 7, Dly := 20,
     Tmr_NextPtr := (if a = 1 then Some 2 else if a = 2 then Some 3 else None),
     Tmr_PrevPtr := (if a = 2 then Some 1 else if a = 3 then Some 2 else None),
     Remain := (if a = 1 \<or> a = 2 then 5 else if a = 3 then 4 else 2),
     Period := (if a = 2 then 0 else 10), Opt := (if a = 2 then OS_OPT_TMR_ONE_SHOT else OS_OPT_TMR_PERIODIC),
     State := (if a \<in> {1, 2, 3} then OS_TMR_STATE_RUNNING else OS_TMR_STATE_STOPPED)\<rparr>"

definition tdemo :: kernel where
  "tdemo = demo\<lparr>OSTmrs := demo_timer, OSTmrListPtr := Some 1, OSTmrListEntries := 3, OSTmrTaskTickBase := 995\<rparr>"

lemma tdemo_list: "tmr_list tdemo [1, 2, 3]"
  by (simp add: tmr_list_def dll_def jnxt_def jprv_def jrem_def tdemo_def demo_timer_def)

lemma tdemo_cond: "cond_ok tdemo"
proof -
  have "set (demo_W OSTmrCond) \<subseteq> {OSTmrTaskTCB}" by (simp add: demo_W_def OSTmrCond_def)
  then have "cond_ok demo" unfolding cond_ok_def using demo_kinv by blast
  then show ?thesis by (subst cond_ok_cong [of _ demo]) (simp_all add: tdemo_def)
qed

section \<open>Starting and stopping a timer\<close>

text \<open>Linking a timer at the tick \<open>time\<close> puts it into the list so that it expires at \<open>time + Remain\<close>,
  behind every timer that expires not later; no other timer changes its expiry, whether or not the base of
  the list is moved.\<close>

lemma OS_TmrLink_times:
  assumes "tmr_list s Ts" and "x \<notin> set Ts" and "cond_ok s"
    and "unat (time - OSTmrTaskTickBase s) + unat (Remain (OSTmrs s x)) < 2 ^ 32"
  shows "\<exists>s' as bs. OS_TmrLink (Some x) time ts s = Some s' \<and> cond_ok s' \<and> tmr_moved s s' \<and> Ts = as @ bs \<and>
    tmr_list s' (as @ x # bs) \<and> expiry s' (as @ x # bs) x = time + Remain (OSTmrs s x) \<and>
    (\<forall>a\<in>set Ts. expiry s' (as @ x # bs) a = expiry s Ts a) \<and>
    (\<forall>a\<in>set as. due (jrem s) Ts a \<le> unat (time - OSTmrTaskTickBase s) + unat (Remain (OSTmrs s x))) \<and>
    (\<forall>a\<in>set bs. unat (time - OSTmrTaskTickBase s) + unat (Remain (OSTmrs s x)) < due (jrem s) Ts a)"
proof -
  let ?g = "unat (time - OSTmrTaskTickBase s)"
  let ?d = "?g + unat (jrem s x)"
  have d: "?d < 2 ^ 32" using assms(4) by (simp add: jrem_def)
  from OS_TmrLink_spec [OF assms(1-3) refl d] obtain s' Ts' where
    s': "OS_TmrLink (Some x) time ts s = Some s'" "cond_ok s'" "tmr_moved s s'" "tmr_list s' Ts'"
      "tmr_linked s Ts x ?d time s' Ts'" by blast
  from s'(5) obtain as bs where L: "Ts = as @ bs" "Ts' = as @ x # bs"
    "\<forall>a\<in>set as. due (jrem s) Ts a \<le> ?d" "\<forall>a\<in>set bs. ?d < due (jrem s) Ts a"
    "OSTmrTaskTickBase s' = (if as = [] then time else OSTmrTaskTickBase s)"
    "due (jrem s') Ts' x = ?d - (if as = [] then ?g else 0)"
    "\<forall>a\<in>set Ts. due (jrem s') Ts' a = due (jrem s) Ts a - (if as = [] then ?g else 0)"
    unfolding tmr_linked_def shifted_def Let_def by blast
  have "expiry s' Ts' x = time + jrem s x" by (simp add: expiry_def L(5,6))
  moreover have "expiry s' Ts' a = expiry s Ts a" if "a \<in> set Ts" for a
    using L(4) that L(1) bspec [OF L(7) that] L(5) by (cases "as = []") (auto simp: expiry_def)
  ultimately show ?thesis using s'(1-4) L(1-4) by (intro exI [of _ s'] exI [of _ as] exI [of _ bs]) (simp add: jrem_def)
qed

text \<open>Taking a timer out of the list keeps the expiry of every other timer; those that are already late
  are due at once. The exception is the case of \<open>keeps_base\<close>, in which the next timer follows the removed head
  by exactly the ticks that have elapsed.\<close>

lemma OS_TmrUnlink_times:
  assumes "tmr_list s (as @ x # bs)" and "cond_ok s" and "as = [] \<Longrightarrow> \<not> keeps_base s x bs time"
  shows "\<exists>s'. OS_TmrUnlink (Some x) time ts s = Some s' \<and> cond_ok s' \<and> tmr_moved s s' \<and>
    tmr_list s' (as @ bs) \<and> OSTmrTaskTickBase s' = (if as = [] then time else OSTmrTaskTickBase s) \<and>
    (\<forall>a\<in>set (as @ bs). expiry s' (as @ bs) a =
      (if as = [] \<and> due (jrem s) (as @ x # bs) a < unat (time - OSTmrTaskTickBase s) then time
       else expiry s (as @ x # bs) a))"
proof -
  from OS_TmrUnlink_spec [OF assms(1,2)] obtain s' where
    s': "OS_TmrUnlink (Some x) time ts s = Some s'" "cond_ok s'" "tmr_moved s s'" "tmr_unlinked s as x bs time s'" by blast
  note U = s'(4) [unfolded tmr_unlinked_def Let_def]
  have "expiry s' (as @ bs) a = (if as = [] \<and> due (jrem s) (as @ x # bs) a < unat (time - OSTmrTaskTickBase s) then time
       else expiry s (as @ x # bs) a)" if "a \<in> set (as @ bs)" for a
  proof -
    have "due (jrem s') (as @ bs) a =
        due (jrem s) (as @ x # bs) a - (if as = [] then unat (time - OSTmrTaskTickBase s) else 0)" using U that by blast
    then show ?thesis using U assms(3) by (auto simp: expiry_def simp del: due.simps append.simps)
  qed
  then show ?thesis using s'(1-3) U assms(3) by (intro exI [of _ s']) auto
qed

text \<open>In the exceptional case the elapsed ticks are taken off the remaining timers but the base is not
  moved to the present, so every one of them expires early by the ticks that had elapsed.\<close>

theorem OS_TmrUnlink_early:
  assumes "tmr_list s (x # bs)" and "cond_ok s" and "keeps_base s x bs time"
  shows "\<exists>s'. OS_TmrUnlink (Some x) time ts s = Some s' \<and> tmr_list s' bs \<and>
    (\<forall>a\<in>set bs. expiry s' bs a = expiry s (x # bs) a - (time - OSTmrTaskTickBase s))"
proof -
  from OS_TmrUnlink_spec [of s "[]" x bs time ts] assms(1,2) obtain s' where
    s': "OS_TmrUnlink (Some x) time ts s = Some s'" "tmr_unlinked s [] x bs time s'" by auto
  note U = s'(2) [unfolded tmr_unlinked_def Let_def]
  from assms(3) obtain b bs' where b: "bs = b # bs'" "jrem s b = time - OSTmrTaskTickBase s"
    by (cases bs) (auto simp: keeps_base_def)
  have "expiry s' bs a = expiry s (x # bs) a - (time - OSTmrTaskTickBase s)" if "a \<in> set bs" for a
  proof -
    have "a \<noteq> x" using tmr_listD(5) [OF assms(1)] that by auto
    then have "unat (time - OSTmrTaskTickBase s) \<le> due (jrem s) (x # bs) a"
      using due_ge_head [of "jrem s" b bs' a] by (simp add: b)
    moreover have "due (jrem s') bs a = due (jrem s) (x # bs) a - unat (time - OSTmrTaskTickBase s)" using U that by simp
    ultimately show ?thesis using U assms(3) by (simp add: expiry_def del: due.simps)
  qed
  then show ?thesis using s'(1) U by (intro exI [of _ s']) simp
qed

lemma OS_TmrUnlink_early_witness:
  "\<exists>s'. OS_TmrUnlink (Some 1) 1000 7 tdemo = Some s' \<and> expiry tdemo [1, 2, 3] 2 = 1005 \<and> expiry s' [2, 3] 2 = 1000"
proof -
  have k: "keeps_base tdemo 1 [2, 3] 1000" by (simp add: keeps_base_def jrem_def tdemo_def demo_timer_def)
  have e: "expiry tdemo [1, 2, 3] 2 = 1005" "1000 - OSTmrTaskTickBase tdemo = 5"
    by (simp_all add: expiry_def jrem_def tdemo_def demo_timer_def)
  have "(2 :: nat) \<in> set [2, 3]" by simp
  with OS_TmrUnlink_early [OF tdemo_list tdemo_cond k, of 7] obtain s' where
    s': "OS_TmrUnlink (Some 1) 1000 7 tdemo = Some s'" "expiry s' [2, 3] 2 = expiry tdemo [1, 2, 3] 2 - (1000 - OSTmrTaskTickBase tdemo)"
    by blast
  from s'(2) have "expiry s' [2, 3] 2 = 1000" unfolding e by simp
  with s'(1) e(1) show ?thesis by blast
qed

section \<open>The timers that are due\<close>

text \<open>C12: When the timer task wakes up, it returns from its loop after it has called the callback of every
  timer that is due, once and in order of expiry. A periodic timer is started again, to expire one period
  after the present tick; a one-shot timer leaves the list and is completed; a timer that is not due stays
  as it is with its expiry. The callbacks are relied on to return and to leave the timers alone.\<close>

theorem OS_TmrTask_expire_fires:
  assumes "tmr_list s Ts" and "Ts \<noteq> []" and "cond_ok s"
    and "\<And>a. a \<in> set Ts \<Longrightarrow> due (jrem s) Ts a \<le> unat (OSTickCtr s - OSTmrTaskTickBase s) \<Longrightarrow> fires cb L s a"
  shows "\<exists>s' Ts'. OS_TmrTask_expire cb ts s = Some s' \<and> tmr_list s' Ts' \<and>
    L (app_part s') = L (app_part s) @ filter (has_cb s)
      (filter (\<lambda>a. due (jrem s) Ts a \<le> unat (OSTickCtr s - OSTmrTaskTickBase s)) Ts) \<and>
    (\<forall>a\<in>set Ts.
      if due (jrem s) Ts a \<le> unat (OSTickCtr s - OSTmrTaskTickBase s)
      then if periodic s a
        then a \<in> set Ts' \<and> State (OSTmrs s' a) = OS_TMR_STATE_RUNNING \<and>
          expiry s' Ts' a = OSTickCtr s + Period (OSTmrs s a)
        else a \<notin> set Ts' \<and> State (OSTmrs s' a) = OS_TMR_STATE_COMPLETED
      else a \<in> set Ts' \<and> State (OSTmrs s' a) = State (OSTmrs s a) \<and> expiry s' Ts' a = expiry s Ts a)"
proof -
  let ?g = "unat (OSTickCtr s - OSTmrTaskTickBase s)"
  from OS_TmrTask_expire_spec [OF assms(1,3) refl assms(2,4)] obtain s' Ts' where
    s': "OS_TmrTask_expire cb ts s = Some s'" "fired ?g s Ts s' Ts'" "OSTmrTaskTickBase s' = OSTickCtr s"
    "L (app_part s') = L (app_part s) @ filter (has_cb s) (filter (\<lambda>a. due (jrem s) Ts a \<le> ?g) Ts)" by blast
  note F = firedD [OF s'(2)]
  have "if due (jrem s) Ts a \<le> ?g
      then if periodic s a
        then a \<in> set Ts' \<and> State (OSTmrs s' a) = OS_TMR_STATE_RUNNING \<and>
          expiry s' Ts' a = OSTickCtr s + Period (OSTmrs s a)
        else a \<notin> set Ts' \<and> State (OSTmrs s' a) = OS_TMR_STATE_COMPLETED
      else a \<in> set Ts' \<and> State (OSTmrs s' a) = State (OSTmrs s a) \<and> expiry s' Ts' a = expiry s Ts a"
    if "a \<in> set Ts" for a
    using that F(3) F(4,5) [OF that] F(6) [of a] s'(3)
    by (auto simp: expiry_def)
  then show ?thesis using s'(1,4) F(1) by (intro exI [of _ s'] exI [of _ Ts']) blast
qed

definition demo_count :: "(nat \<Rightarrow> OS_SEM) \<times> (nat \<Rightarrow> OS_MSG_Q) \<times> (nat \<Rightarrow> OS_FLAG_GRP) \<times> (nat \<Rightarrow> OS_MSG) \<Rightarrow> nat" where
  "demo_count x = (case x of (_, _, _, m) \<Rightarrow> (case Msg_MsgPtr (m 999) of None \<Rightarrow> 0 | Some n \<Rightarrow> n))"

definition demo_cb :: callback where
  "demo_cb f p arg s = Some (s\<lparr>OSMsgs := (OSMsgs s)(999 := (OSMsgs s 999)
     \<lparr>Msg_MsgPtr := Some (Suc (demo_count (app_part s)))\<rparr>)\<rparr>)"

lemma demo_calls: "calls demo_cb (\<lambda>x. replicate (demo_count x) 1) 1 f arg"
proof -
  have "cond_ok (s\<lparr>OSMsgs := m\<rparr>) \<longleftrightarrow> cond_ok s" for s m by (rule cond_ok_cong) simp_all
  then show ?thesis
    by (simp add: calls_def demo_cb_def tmr_same_def app_part_def demo_count_def replicate_append_same)
qed

lemma OS_TmrTask_expire_fires_witness:
  "\<exists>s' Ts'. OS_TmrTask_expire demo_cb (\<lambda>_. 0) tdemo = Some s' \<and> tmr_list s' Ts' \<and>
    replicate (demo_count (app_part s')) 1 = [1 :: nat] \<and> expiry s' Ts' 1 = 1010 \<and> expiry s' Ts' 2 = 1005"
proof -
  have g: "unat (OSTickCtr tdemo - OSTmrTaskTickBase tdemo) = 5" by (simp add: tdemo_def demo_def)
  have d: "due (jrem tdemo) [1, 2, 3] 1 = 5" "due (jrem tdemo) [1, 2, 3] 2 = 10" "due (jrem tdemo) [1, 2, 3] 3 = 14"
    by (simp_all add: jrem_def tdemo_def demo_timer_def)
  have f: "fires demo_cb (\<lambda>x. replicate (demo_count x) 1) tdemo a"
    if "a \<in> set [1, 2, 3]" "due (jrem tdemo) [1, 2, 3] a \<le> unat (OSTickCtr tdemo - OSTmrTaskTickBase tdemo)" for a
  proof -
    have "a = 1" using that d unfolding g by auto
    then show ?thesis using demo_calls by (simp add: fires_def tdemo_def demo_timer_def)
  qed
  from OS_TmrTask_expire_fires [OF tdemo_list _ tdemo_cond f, of "\<lambda>_. 0"] obtain s' Ts' where
    s': "OS_TmrTask_expire demo_cb (\<lambda>_. 0) tdemo = Some s'" "tmr_list s' Ts'"
    "replicate (demo_count (app_part s')) 1 = replicate (demo_count (app_part tdemo)) 1 @ filter (has_cb tdemo)
      (filter (\<lambda>a. due (jrem tdemo) [1, 2, 3] a \<le> 5) [1, 2, 3])"
    "\<forall>a\<in>set [1, 2, 3].
      if due (jrem tdemo) [1, 2, 3] a \<le> 5
      then if periodic tdemo a
        then a \<in> set Ts' \<and> State (OSTmrs s' a) = OS_TMR_STATE_RUNNING \<and>
          expiry s' Ts' a = OSTickCtr tdemo + Period (OSTmrs tdemo a)
        else a \<notin> set Ts' \<and> State (OSTmrs s' a) = OS_TMR_STATE_COMPLETED
      else a \<in> set Ts' \<and> State (OSTmrs s' a) = State (OSTmrs tdemo a) \<and> expiry s' Ts' a = expiry tdemo [1, 2, 3] a"
    unfolding g by blast
  have c0: "demo_count (app_part tdemo) = 0" by (simp add: demo_count_def app_part_def tdemo_def demo_def)
  have cb: "has_cb tdemo 1" "periodic tdemo 1" by (simp_all add: has_cb_def periodic_def tdemo_def demo_timer_def)
  have "expiry s' Ts' 1 = OSTickCtr tdemo + Period (OSTmrs tdemo 1)"
    using s'(4) d(1) cb(2) by (simp del: due.simps)
  moreover have "expiry s' Ts' 2 = expiry tdemo [1, 2, 3] 2" using s'(4) d(2) by (simp del: due.simps)
  moreover have "OSTickCtr tdemo + Period (OSTmrs tdemo 1) = 1010" "expiry tdemo [1, 2, 3] 2 = 1005"
    by (simp_all add: expiry_def jrem_def tdemo_def demo_timer_def demo_def)
  moreover have "replicate (demo_count (app_part s')) 1 = [1 :: nat]"
    using s'(3) c0 cb(1) d by (simp del: due.simps)
  ultimately show ?thesis using s'(1,2) by metis
qed

section \<open>The remaining time\<close>

text \<open>For a running timer \<open>OSTmrRemainGet\<close> ends and returns the ticks between the base of the list and the
  expiry of the timer. The clock is not read: the result does not count down while the timer task waits,
  although the ticks really left are the expiry minus \<open>OSTickCtr\<close>.\<close>

theorem OSTmrRemainGet_from_base:
  assumes "tmr_list s Ts" and "x \<in> set Ts" and "State (OSTmrs s x) = OS_TMR_STATE_RUNNING"
  shows "OSTmrRemainGet_locked (Some x) ts (s\<lparr>OSTickCtr := now\<rparr>) =
    map_option (Pair ((expiry s Ts x - OSTmrTaskTickBase s) div OSTmrToTicksMult s, OS_ERR_NONE))
      (OS_TmrUnlock ts (s\<lparr>OSTickCtr := now\<rparr>))"
proof -
  have loop: "tmr_remain_loop (Some x) (hdo ys) r s' = Some (r + of_nat (due (jrem s') ys x))"
    if "lnk (jnxt s') ys None" "x \<in> set ys" for ys r s'
    using that
  proof (induction ys arbitrary: r)
    case (Cons y ys)
    then have y: "jnxt s' y = hdo ys" "lnk (jnxt s') ys None" by (auto split: if_splits)
    show ?case
    proof (cases "y = x")
      case True
      then show ?thesis by (simp add: tmr_remain_loop.simps [of _ "Some x"] tmr_folds)
    next
      case False
      then show ?thesis using Cons.IH [OF y(2), of "r + jrem s' y"] Cons.prems(2) y(1)
        by (simp add: tmr_remain_loop.simps [of _ "Some y"] tmr_folds algebra_simps)
    qed
  qed simp
  let ?s = "s\<lparr>OSTickCtr := now\<rparr>"
  have j: "jnxt ?s = jnxt s" "jrem ?s = jrem s" by (simp_all add: jnxt_def jrem_def)
  have "lnk (jnxt ?s) Ts None" using tmr_listD(1) [OF assms(1)] by (simp add: dll_def j)
  from loop [OF this assms(2), of 0]
  have "tmr_remain_loop (Some x) (OSTmrListPtr ?s) 0 ?s = Some (expiry s Ts x - OSTmrTaskTickBase s)"
    using tmr_listD(4) [OF assms(1)] by (simp add: expiry_def j)
  then show ?thesis using assms(3)
    by (simp add: OSTmrRemainGet_locked_def map_option_case split: option.splits)
qed

lemma demo_unlock: "OS_TmrUnlock ts (tdemo\<lparr>OSTickCtr := now\<rparr>) = Some (tdemo\<lparr>OSTickCtr := now\<rparr>)"
  by (simp add: OS_TmrUnlock_def OSMutexPost_def tdemo_def demo_defs OSTmrMutex_def kdefs)

lemma OSTmrRemainGet_from_base_witness:
  "OSTmrRemainGet_locked (Some 2) 7 (tdemo\<lparr>OSTickCtr := 1004\<rparr>) = Some ((10, OS_ERR_NONE), tdemo\<lparr>OSTickCtr := 1004\<rparr>) \<and>
   expiry tdemo [1, 2, 3] 2 = 1005"
proof -
  have x: "(2 :: nat) \<in> set [1, 2, 3]" "State (OSTmrs tdemo 2) = OS_TMR_STATE_RUNNING"
    by (simp_all add: tdemo_def demo_timer_def)
  have e: "expiry tdemo [1, 2, 3] 2 = 1005" "OSTmrTaskTickBase tdemo = 995" "OSTmrToTicksMult tdemo = 1"
    by (simp_all add: expiry_def jrem_def tdemo_def demo_timer_def demo_def)
  from OSTmrRemainGet_from_base [OF tdemo_list x, of 7 1004] show ?thesis
    unfolding e demo_unlock by simp
qed

section \<open>Stopping with an invalid option\<close>

text \<open>A list whose only timer points to itself is never left by the loop that takes off elapsed ticks.\<close>

lemma tmr_consume_loops:
  assumes "tmr_consume g (Some x) s = Some y" and "jnxt s x = Some x" and "unat (jrem s x) < unat g"
  shows False
proof -
  let ?P = "\<lambda>g p s y. p = Some x \<longrightarrow> jnxt s x = Some x \<longrightarrow> \<not> unat (jrem s x) < unat g"
  have "?P g (Some x) s y"
  proof (rule tmr_consume.raw_induct [where P = ?P, OF _ assms(1)], intro impI notI)
    fix f g p s y
    assume IH: "\<And>p s b y. f p s b = Some y \<Longrightarrow> s = Some x \<longrightarrow> jnxt b x = Some x \<longrightarrow> \<not> unat (jrem b x) < unat p"
      and body: "(if 0 < g \<and> p \<noteq> None then tmr s p \<bind> (\<lambda>t. (if g > Remain t
          then set_tmr p (\<lambda>t. t\<lparr>Remain := 0\<rparr>) s \<bind> (\<lambda>s. Some (g - Remain t, s))
          else set_tmr p (\<lambda>t. t\<lparr>Remain := Remain t - g\<rparr>) s \<bind> (\<lambda>s. Some (0, s))) \<bind>
          (\<lambda>(g, s). f g (Tmr_NextPtr t) s)) else Some s) = Some y"
      and x: "p = Some x" and j: "jnxt s x = Some x" and lt: "unat (jrem s x) < unat g"
    let ?s = "upd_now (jnxt s) (jprv s) ((jrem s)(x := 0)) s"
    have "0 < g" "jrem s x < g" using lt by (auto simp: word_less_nat_alt)
    then have "f (g - jrem s x) (Some x) ?s = Some y" using body by (simp add: x tmr_upds j)
    from IH [OF this] have "\<not> 0 < unat (g - jrem s x)" using j by (simp add: upd_now_def)
    moreover have "unat (g - jrem s x) = unat g - unat (jrem s x)" using lt by (simp add: unat_sub word_le_nat_alt)
    ultimately show False using lt by simp
  qed
  with assms show False by simp
qed

text \<open>\<open>OSTmrStop\<close> with an invalid option reports \<open>OS_ERR_OPT_INVALID\<close>, but has already marked the timer as
  stopped, and leaves it in the list. When the timer is then started, it is linked a second time: it becomes
  its own successor, and the loop of the timer task that takes off the elapsed ticks does not end.\<close>

theorem OSTmrStop_invalid_opt_corrupts:
  assumes T: "tmr_list s [x]" and st: "State (OSTmrs s x) = OS_TMR_STATE_RUNNING"
    and opt: "opt \<notin> {OS_OPT_TMR_CALLBACK, OS_OPT_TMR_CALLBACK_ARG, OS_OPT_TMR_NONE}"
    and cur: "OSTCBCurPtr s1 \<noteq> Some OSTmrTaskTCB"
    and s1: "tmr_same (put_tmr x (\<lambda>t. t\<lparr>State := OS_TMR_STATE_STOPPED\<rparr>) s) s1"
    and ov: "unat (OSTickCtr s - OSTmrTaskTickBase s) +
      unat (if Dly (OSTmrs s x) = 0 then Period (OSTmrs s x) else Dly (OSTmrs s x)) < 2 ^ 32"
  shows "OSTmrStop_locked cb (Some x) opt arg ts s = map_option (Pair (False, OS_ERR_OPT_INVALID))
      (OS_TmrUnlock ts (put_tmr x (\<lambda>t. t\<lparr>State := OS_TMR_STATE_STOPPED\<rparr>) s)) \<and>
    (\<exists>s2. OSTmrStart_locked (Some x) ts s1 = map_option (Pair (True, OS_ERR_NONE)) (OS_TmrUnlock ts s2) \<and>
      OSTmrListPtr s2 = Some x \<and> Tmr_NextPtr (OSTmrs s2 x) = Some x \<and>
      (\<forall>g. Remain (OSTmrs s2 x) < g \<longrightarrow> tmr_consume g (Some x) s2 = None))"
proof
  show "OSTmrStop_locked cb (Some x) opt arg ts s = map_option (Pair (False, OS_ERR_OPT_INVALID))
      (OS_TmrUnlock ts (put_tmr x (\<lambda>t. t\<lparr>State := OS_TMR_STATE_STOPPED\<rparr>) s))"
    using st opt by (simp add: OSTmrStop_locked_def set_tmr_put Let_def map_option_case split: option.splits)
  let ?v = "if Dly (OSTmrs s x) = 0 then Period (OSTmrs s x) else Dly (OSTmrs s x)"
  let ?e = "OSTickCtr s - OSTmrTaskTickBase s"
  let ?s = "put_tmr x (\<lambda>t. t\<lparr>Remain := if Dly t = 0 then Period t else Dly t\<rparr>)
    (put_tmr x (\<lambda>t. t\<lparr>State := OS_TMR_STATE_RUNNING\<rparr>) s1)"
  note m = tmr_same_sel(1-5) [OF s1]
  have S0: "State (OSTmrs s1 x) = OS_TMR_STATE_STOPPED" "OSTickCtr s1 = OSTickCtr s" by (simp_all add: m)
  have d: "OSTickCtr s + ?v - OSTmrTaskTickBase s = ?e + ?v" by simp
  have ud: "unat (?e + ?v) = unat ?e + unat ?v" by (rule trans [OF unat_add_lem [THEN iffD1]]) (use ov in simp_all)
  then have nl: "\<not> OSTickCtr s + ?v - OSTmrTaskTickBase s < ?v" unfolding d by (simp add: word_less_nat_alt)
  have "OSTmrListPtr ?s = Some x" "jnxt ?s x = None"
    using tmr_listD(1,4) [OF T] by (auto simp: m dll_def jnxt_def)
  moreover have "jrem ?s x = ?v" "OSTmrTaskTickBase ?s = OSTmrTaskTickBase s" "OSTickCtr ?s = OSTickCtr s"
    by (simp_all add: m jrem_def)
  ultimately have lk: "OS_TmrLink (Some x) (OSTickCtr s) ts ?s =
      Some (upd_tmr ((jnxt ?s)(x := Some x)) ((jprv ?s)(x := Some x))
        ((jrem ?s)(x := OSTickCtr s + ?v - OSTmrTaskTickBase s - ?v)) (Some x) (OSTmrListEntries ?s + 1) (OSTmrTaskTickBase s) ?s)"
    (is "_ = Some ?s2")
    using nl by (simp add: OS_TmrLink_def Let_def tmr_upds tmr_scan.simps [of _ _ None] del: put_tmr_sel)
  have "OSTmrStart_locked (Some x) ts s1 = map_option (Pair (True, OS_ERR_NONE)) (OS_TmrUnlock ts ?s2)"
    using cur lk S0 by (simp add: OSTmrStart_locked_def set_tmr_put Let_def tmr_time_def map_option_case
        split: option.splits del: put_tmr_sel)
  moreover have "tmr_consume g (Some x) ?s2 = None" if "Remain (OSTmrs ?s2 x) < g" for g
  proof (cases "tmr_consume g (Some x) ?s2")
    case (Some y)
    then show ?thesis using tmr_consume_loops [OF Some] that by (simp add: word_less_nat_alt)
  qed
  ultimately show "\<exists>s2. OSTmrStart_locked (Some x) ts s1 = map_option (Pair (True, OS_ERR_NONE)) (OS_TmrUnlock ts s2) \<and>
      OSTmrListPtr s2 = Some x \<and> Tmr_NextPtr (OSTmrs s2 x) = Some x \<and>
      (\<forall>g. Remain (OSTmrs s2 x) < g \<longrightarrow> tmr_consume g (Some x) s2 = None)"
    by (intro exI [of _ ?s2]) simp
qed

definition tdemo1 :: kernel where
  "tdemo1 = tdemo\<lparr>OSTmrs := demo_timer(4 := (demo_timer 4)\<lparr>State := OS_TMR_STATE_RUNNING\<rparr>), OSTmrListPtr := Some 4,
     OSTmrListEntries := 1\<rparr>"

lemma OSTmrStop_invalid_opt_corrupts_witness:
  "\<exists>s2. OSTmrStart_locked (Some 4) 7 (put_tmr 4 (\<lambda>t. t\<lparr>State := OS_TMR_STATE_STOPPED\<rparr>) tdemo1) =
     map_option (Pair (True, OS_ERR_NONE)) (OS_TmrUnlock 7 s2) \<and> Tmr_NextPtr (OSTmrs s2 4) = Some 4"
proof -
  have "tmr_list tdemo1 [4]"
    by (simp add: tmr_list_def dll_def jnxt_def jprv_def jrem_def tdemo1_def demo_timer_def)
  moreover have "State (OSTmrs tdemo1 4) = OS_TMR_STATE_RUNNING" by (simp add: tdemo1_def)
  moreover have "(9 :: OS_OPT) \<notin> {OS_OPT_TMR_CALLBACK, OS_OPT_TMR_CALLBACK_ARG, OS_OPT_TMR_NONE}" by (simp add: opts)
  moreover have "OSTCBCurPtr (put_tmr 4 (\<lambda>t. t\<lparr>State := OS_TMR_STATE_STOPPED\<rparr>) tdemo1) \<noteq> Some OSTmrTaskTCB"
    by (simp add: tdemo1_def tdemo_def demo_def OSTmrTaskTCB_def)
  moreover have "unat (OSTickCtr tdemo1 - OSTmrTaskTickBase tdemo1) +
      unat (if Dly (OSTmrs tdemo1 4) = 0 then Period (OSTmrs tdemo1 4) else Dly (OSTmrs tdemo1 4)) < 2 ^ 32"
    by (simp add: tdemo1_def tdemo_def demo_def demo_timer_def)
  ultimately show ?thesis
    using OSTmrStop_invalid_opt_corrupts [OF _ _ _ _ tmr_same_refl, of tdemo1 4 9 "\<lambda>_ _ _. Some" None 7] by blast
qed

section \<open>Arguments\<close>

text \<open>No call of the module goes past its checks in an interrupt, before the kernel runs, or on anything but
  a timer: it returns the error of the first check that fails and changes nothing.\<close>

lemma tmr_calls_guarded:
  assumes "tmr_guard p s = Some err"
  shows "OSTmrStart p ts s = Some (Done (False, err), s)" "OSTmrStop cb p opt arg ts s = Some (Done (False, err), s)"
    "OSTmrDel p ts s = Some (Done (False, err), s)" "OSTmrRemainGet p ts s = Some (Done (0, err), s)"
    "OSTmrStateGet p ts s = Some (Done (OS_TMR_STATE_UNUSED, err), s)"
    "OSTmrSet p dly period f arg ts s = Some (Done err, s)"
    "err = (if OSIntNestingCtr s > 0 then OS_ERR_TMR_ISR else if OSRunning s \<noteq> OS_STATE_OS_RUNNING then OS_ERR_OS_NOT_RUNNING
       else if p = None then OS_ERR_TMR_INVALID else OS_ERR_OBJ_TYPE)"
  using assms
  by (simp_all add: OSTmrStart_def OSTmrStop_def OSTmrDel_def OSTmrRemainGet_def OSTmrStateGet_def OSTmrSet_def tmr_guard_def
      split: if_splits option.splits)

section \<open>The services on a well-formed set of timers\<close>

text \<open>The timers of the list are the running ones (and the one whose callback is being called).\<close>

definition tmr_wf :: "kernel \<Rightarrow> nat list \<Rightarrow> bool" where
  "tmr_wf s Ts \<longleftrightarrow> tmr_list s Ts \<and>
     (\<forall>a. a \<in> set Ts \<longleftrightarrow> State (OSTmrs s a) \<in> {OS_TMR_STATE_RUNNING, OS_TMR_STATE_TIMEOUT})"

definition reload :: "kernel \<Rightarrow> nat \<Rightarrow> u32" where
  "reload s x = (if Dly (OSTmrs s x) = 0 then Period (OSTmrs s x) else Dly (OSTmrs s x))"

text \<open>The ticks since the base of the list, and the exceptional case of \<open>OS_TmrUnlink\<close> for timer \<open>x\<close>.\<close>

definition since_base :: "kernel \<Rightarrow> nat" where
  "since_base s = unat (tmr_time s - OSTmrTaskTickBase s)"

definition early_unlink :: "kernel \<Rightarrow> nat list \<Rightarrow> nat \<Rightarrow> bool" where
  "early_unlink s Ts x \<longleftrightarrow> (\<exists>bs. Ts = x # bs \<and> keeps_base s x bs (tmr_time s))"

text \<open>By how many ticks the other timers then expire early.\<close>

definition early_by :: "kernel \<Rightarrow> nat list \<Rightarrow> nat \<Rightarrow> u32" where
  "early_by s Ts x = (if early_unlink s Ts x then tmr_time s - OSTmrTaskTickBase s else 0)"

text \<open>The common part of the services: the timer is taken out if it is in the list.\<close>

lemma unlink_listed:
  assumes wf: "tmr_wf s Ts" and c: "cond_ok s" and s0: "s0 = put_tmr x (State_update (\<lambda>_. st)) s"
  obtains s1 Us where "(if x \<in> set Ts then OS_TmrUnlink (Some x) (tmr_time s) ts s0 else Some s0) = Some s1"
    "cond_ok s1" "tmr_moved s0 s1" "tmr_list s1 Us" "set Us = set Ts - {x}"
    "unat (tmr_time s - OSTmrTaskTickBase s1) \<le> since_base s"
    "\<And>a. a \<in> set Us \<Longrightarrow> since_base s \<le> due (jrem s) Ts a \<Longrightarrow> expiry s1 Us a = expiry s Ts a - early_by s Ts x"
proof (cases "x \<in> set Ts")
  case False
  then have ne: "\<not> early_unlink s Ts x" by (auto simp: early_unlink_def)
  have "tmr_list s0 Ts" "cond_ok s0" using wf c by (simp_all add: tmr_wf_def s0)
  then show ?thesis using False ne by (intro that [of s0 Ts]) (auto simp: s0 since_base_def expiry_def tmr_moved_refl early_by_def)
next
  case True
  then obtain as bs where Ts: "Ts = as @ x # bs" by (metis split_list)
  have T: "tmr_list s0 (as @ x # bs)" and c0: "cond_ok s0" using wf c Ts by (simp_all add: tmr_wf_def s0)
  have set_Us: "set (as @ bs) = set Ts - {x}" using tmr_listD(5) [OF T] Ts by auto
  have e: "expiry s0 Ts a = expiry s Ts a" "jrem s0 = jrem s" "OSTmrTaskTickBase s0 = OSTmrTaskTickBase s" for a
    by (simp_all add: s0 expiry_def)
  show ?thesis
  proof (cases "early_unlink s Ts x")
    case True
    have x: "x \<notin> set bs" "x \<notin> set as" using tmr_listD(5) [OF T] by auto
    then have as: "as = []" and kb: "keeps_base s0 x bs (tmr_time s)" 
      using True Ts by (auto simp: early_unlink_def keeps_base_def s0 append_eq_Cons_conv)
    from OS_TmrUnlink_spec [of s0 as x bs "tmr_time s" ts] T c0 obtain s1 where
      s1: "OS_TmrUnlink (Some x) (tmr_time s) ts s0 = Some s1" "tmr_unlinked s0 as x bs (tmr_time s) s1" "cond_ok s1" "tmr_moved s0 s1" by auto
    note U = s1(2) [unfolded tmr_unlinked_def Let_def as]
    obtain b bs' where b: "bs = b # bs'" "jrem s b = tmr_time s - OSTmrTaskTickBase s"
      using kb e by (cases bs) (auto simp: keeps_base_def)
    have "expiry s1 bs a = expiry s Ts a - early_by s Ts x" if "a \<in> set bs" for a
    proof -
      have "a \<noteq> x" using x that by auto
      then have "unat (tmr_time s - OSTmrTaskTickBase s) \<le> due (jrem s) (x # bs) a"
        using due_ge_head [of "jrem s" b bs' a] by (simp add: b)
      moreover have "due (jrem s1) bs a = due (jrem s) (x # bs) a - unat (tmr_time s - OSTmrTaskTickBase s)" using U that e by simp
      ultimately show ?thesis using U kb True Ts as e by (simp add: expiry_def early_by_def del: due.simps)
    qed
    then show ?thesis using s1 U kb as set_Us e \<open>x \<in> set Ts\<close> by (intro that [of s1 bs]) (auto simp: since_base_def)
  next
    case False
    then have k: "as = [] \<Longrightarrow> \<not> keeps_base s0 x bs (tmr_time s)" using Ts by (auto simp: early_unlink_def keeps_base_def s0)
    from OS_TmrUnlink_times [OF T c0 k, of ts] obtain s1 where
      s1: "OS_TmrUnlink (Some x) (tmr_time s) ts s0 = Some s1" "cond_ok s1" "tmr_moved s0 s1" "tmr_list s1 (as @ bs)"
      "OSTmrTaskTickBase s1 = (if as = [] then tmr_time s else OSTmrTaskTickBase s)"
      "\<forall>a\<in>set (as @ bs). expiry s1 (as @ bs) a =
        (if as = [] \<and> due (jrem s) Ts a < since_base s then tmr_time s else expiry s Ts a)"
      unfolding e(2,3) Ts [symmetric] e(1) since_base_def by blast
    then show ?thesis using s1 False set_Us \<open>x \<in> set Ts\<close>
      by (intro that [of s1 "as @ bs"]) (auto simp: since_base_def early_by_def)
  qed
qed

text \<open>C22: Starting a timer that exists puts it into the list (again), to expire after its delay, or after its
  period when it has no delay, counted from now. The list keeps its form, the timers of the list are the running
  ones, and no other timer that is not overdue changes its expiry, with one exception: when the timer at the head of the
  list is restarted and the second one follows it by exactly the ticks that have elapsed since the time base
  (\<open>early_unlink\<close>), a fault of \<open>OS_TmrUnlink\<close> makes the other timers expire early by these ticks (\<open>early_by\<close>). The delay
  and the elapsed ticks together have to fit into 32 bits.\<close>

theorem OSTmrStart_schedules:
  assumes "tmr_wf s Ts" and "cond_ok s" and "State (OSTmrs s x) \<noteq> OS_TMR_STATE_UNUSED"
    and "since_base s + unat (reload s x) < 2 ^ 32"
  shows "\<exists>s' Ts'. OSTmrStart_locked (Some x) ts s = map_option (Pair (True, OS_ERR_NONE)) (OS_TmrUnlock ts s') \<and>
    tmr_wf s' Ts' \<and> cond_ok s' \<and> set Ts' = insert x (set Ts) \<and> State (OSTmrs s' x) = OS_TMR_STATE_RUNNING \<and>
    expiry s' Ts' x = tmr_time s + reload s x \<and>
    (\<forall>a\<in>set Ts - {x}. since_base s \<le> due (jrem s) Ts a \<longrightarrow> expiry s' Ts' a = expiry s Ts a - early_by s Ts x)"
proof -
  let ?s0 = "put_tmr x (State_update (\<lambda>_. OS_TMR_STATE_RUNNING)) s"
  from unlink_listed [OF assms(1,2) refl, where st = OS_TMR_STATE_RUNNING and ts = ts] obtain s1 Us where
    s1: "(if x \<in> set Ts then OS_TmrUnlink (Some x) (tmr_time s) ts ?s0 else Some ?s0) = Some s1"
    "cond_ok s1" "tmr_moved ?s0 s1" "tmr_list s1 Us" "set Us = set Ts - {x}"
    "unat (tmr_time s - OSTmrTaskTickBase s1) \<le> since_base s"
    "\<And>a. a \<in> set Us \<Longrightarrow> since_base s \<le> due (jrem s) Ts a \<Longrightarrow> expiry s1 Us a = expiry s Ts a - early_by s Ts x" by blast
  note m1 = tmr_moved_sel [OF s1(3)]
  let ?s2 = "put_tmr x (\<lambda>t. t\<lparr>Remain := if Dly t = 0 then Period t else Dly t\<rparr>) s1"
  have x: "x \<notin> set Us" using s1(5) by simp
  have r2: "Remain (OSTmrs ?s2 x) = reload s x" "OSTmrTaskTickBase ?s2 = OSTmrTaskTickBase s1"
    by (simp_all add: reload_def m1)
  have T2: "tmr_list ?s2 Us" and c2: "cond_ok ?s2" using s1(2,4) by (simp_all add: put_tmr_other(1) [OF x])
  have e2: "expiry ?s2 Us a = expiry s1 Us a" for a by (simp add: expiry_def put_tmr_other(2) [OF x])
  have lt: "unat (tmr_time s - OSTmrTaskTickBase ?s2) + unat (Remain (OSTmrs ?s2 x)) < 2 ^ 32"
    using s1(6) assms(4) unfolding r2 by simp
  from OS_TmrLink_times [OF T2 x c2 lt, of ts] obtain s' as bs where
    s': "OS_TmrLink (Some x) (tmr_time s) ts ?s2 = Some s'" "cond_ok s'" "tmr_moved ?s2 s'" "Us = as @ bs"
    "tmr_list s' (as @ x # bs)" "expiry s' (as @ x # bs) x = tmr_time s + Remain (OSTmrs ?s2 x)"
    "\<forall>a\<in>set Us. expiry s' (as @ x # bs) a = expiry ?s2 Us a" by blast
  have st: "State (OSTmrs s' a) = (if a = x then OS_TMR_STATE_RUNNING else State (OSTmrs s a))" for a
    by (simp add: tmr_moved_sel(1) [OF s'(3)] m1(1))
  have set': "set (as @ x # bs) = insert x (set Us)" using s'(4) by auto
  have wf: "x \<in> set Ts \<longleftrightarrow> State (OSTmrs s x) \<in> {OS_TMR_STATE_RUNNING, OS_TMR_STATE_TIMEOUT}"
    using assms(1) by (simp add: tmr_wf_def)
  have "OSTmrStart_locked (Some x) ts s = map_option (Pair (True, OS_ERR_NONE)) (OS_TmrUnlock ts s')"
    using s1(1) s'(1) assms(3) wf
    by (cases "State (OSTmrs s x)") (simp_all add: OSTmrStart_locked_def set_tmr_put Let_def map_option_case split: option.splits)
  moreover have "tmr_wf s' (as @ x # bs)" using assms(1) s'(5) unfolding tmr_wf_def set' st s1(5) by auto
  moreover have "\<forall>a\<in>set Ts - {x}. since_base s \<le> due (jrem s) Ts a \<longrightarrow> expiry s' (as @ x # bs) a = expiry s Ts a - early_by s Ts x"
    using s'(7) s1(5,7) e2 by auto
  ultimately show ?thesis using s'(2,6) set' s1(5) st r2(1)
    by (intro exI [of _ s'] exI [of _ "as @ x # bs"]) auto
qed

lemma tdemo_wf: "tmr_wf tdemo [1, 2, 3]"
  using tdemo_list by (auto simp: tmr_wf_def tdemo_def demo_timer_def)

lemma tdemo_now: "tmr_time tdemo = 1000" "since_base tdemo = 5"
  by (simp_all add: tmr_time_def since_base_def tdemo_def demo_def OSTmrTaskTCB_def)

lemma OSTmrStart_schedules_witness:
  "\<exists>s' Ts'. OSTmrStart_locked (Some 4) 7 tdemo = map_option (Pair (True, OS_ERR_NONE)) (OS_TmrUnlock 7 s') \<and>
    tmr_wf s' Ts' \<and> set Ts' = {4, 1, 2, 3} \<and> expiry s' Ts' 4 = 1020"
proof -
  have r: "reload tdemo 4 = 20" by (simp add: reload_def tdemo_def demo_timer_def)
  have "State (OSTmrs tdemo 4) \<noteq> OS_TMR_STATE_UNUSED" by (simp add: tdemo_def demo_timer_def)
  moreover have "since_base tdemo + unat (reload tdemo 4) < 2 ^ 32" by (simp add: r tdemo_now)
  ultimately have "\<exists>s' Ts'. OSTmrStart_locked (Some 4) 7 tdemo = map_option (Pair (True, OS_ERR_NONE)) (OS_TmrUnlock 7 s') \<and>
    tmr_wf s' Ts' \<and> set Ts' = insert 4 (set [1, 2, 3]) \<and> expiry s' Ts' 4 = tmr_time tdemo + reload tdemo 4"
    using OSTmrStart_schedules [OF tdemo_wf tdemo_cond, of 4 7] by blast
  then show ?thesis by (simp add: r tdemo_now)
qed

text \<open>C37: Stopping a running timer with a valid option takes it out of the list, marks it as stopped and calls its
  callback, once, when the option asks for it and there is one. The list keeps its form and no other timer that is
  not overdue changes its expiry, with one exception: when the timer is the head of the list and the second one follows it
  by exactly the ticks that have elapsed since the time base (\<open>early_unlink\<close>), a fault of \<open>OS_TmrUnlink\<close> makes the
  other timers expire early by these ticks (\<open>early_by\<close>). When the option asks for a callback that does not exist the
  code returns \<open>OS_ERR_NONE\<close>, not the documented \<open>OS_ERR_TMR_NO_CALLBACK\<close>, which it sets and overwrites.\<close>

theorem OSTmrStop_removes:
  assumes "tmr_wf s Ts" and "cond_ok s" and "x \<in> set Ts"
    and "opt \<in> {OS_OPT_TMR_NONE, OS_OPT_TMR_CALLBACK, OS_OPT_TMR_CALLBACK_ARG}"
    and "opt \<noteq> OS_OPT_TMR_NONE \<Longrightarrow> has_cb s x \<Longrightarrow> calls cb L x (CallbackPtr (OSTmrs s x))
      (if opt = OS_OPT_TMR_CALLBACK then CallbackPtrArg (OSTmrs s x) else arg)"
  shows "\<exists>s' Ts'. OSTmrStop_locked cb (Some x) opt arg ts s = map_option (Pair (True, OS_ERR_NONE)) (OS_TmrUnlock ts s') \<and>
    tmr_wf s' Ts' \<and> cond_ok s' \<and> set Ts' = set Ts - {x} \<and> State (OSTmrs s' x) = OS_TMR_STATE_STOPPED \<and>
    L (app_part s') = L (app_part s) @ (if opt \<noteq> OS_OPT_TMR_NONE \<and> has_cb s x then [x] else []) \<and>
    (\<forall>a\<in>set Ts - {x}. since_base s \<le> due (jrem s) Ts a \<longrightarrow> expiry s' Ts' a = expiry s Ts a - early_by s Ts x)"
proof -
  let ?s0 = "put_tmr x (State_update (\<lambda>_. OS_TMR_STATE_STOPPED)) s"
  from unlink_listed [OF assms(1,2) refl, where st = OS_TMR_STATE_STOPPED and ts = ts] obtain s1 Us where
    s1: "(if x \<in> set Ts then OS_TmrUnlink (Some x) (tmr_time s) ts ?s0 else Some ?s0) = Some s1"
    "cond_ok s1" "tmr_moved ?s0 s1" "tmr_list s1 Us" "set Us = set Ts - {x}"
    "unat (tmr_time s - OSTmrTaskTickBase s1) \<le> since_base s"
    "\<And>a. a \<in> set Us \<Longrightarrow> since_base s \<le> due (jrem s) Ts a \<Longrightarrow> expiry s1 Us a = expiry s Ts a - early_by s Ts x" by blast
  have un: "OS_TmrUnlink (Some x) (tmr_time s) ts ?s0 = Some s1" using s1(1) assms(3) by simp
  note m1 = tmr_moved_sel [OF s1(3)]
  have cb1: "CallbackPtr (OSTmrs s1 x) = CallbackPtr (OSTmrs s x)" "CallbackPtrArg (OSTmrs s1 x) = CallbackPtrArg (OSTmrs s x)"
    by (simp_all add: m1)
  let ?call = "opt \<noteq> OS_OPT_TMR_NONE \<and> has_cb s x"
  obtain s' where s': "(if ?call then cb (CallbackPtr (OSTmrs s x)) (Some x)
      (if opt = OS_OPT_TMR_CALLBACK then CallbackPtrArg (OSTmrs s x) else arg) s1 else Some s1) = Some s'"
    "cond_ok s'" "tmr_same s1 s'" "L (app_part s') = L (app_part s1) @ (if ?call then [x] else [])"
  proof (cases ?call)
    case True
    with assms(5) s1(2) obtain s' where "cb (CallbackPtr (OSTmrs s x)) (Some x)
      (if opt = OS_OPT_TMR_CALLBACK then CallbackPtrArg (OSTmrs s x) else arg) s1 = Some s'" "cond_ok s'" "tmr_same s1 s'"
      "L (app_part s') = L (app_part s1) @ [x]" unfolding calls_def by blast
    then show ?thesis using True that by simp
  next
    case False
    then show ?thesis using s1(2) that [of s1] by (simp only: if_False tmr_same_refl append_Nil2 simp_thms)
  qed
  note m' = tmr_same_sel [OF s'(3)]
  have st: "State (OSTmrs s' a) = (if a = x then OS_TMR_STATE_STOPPED else State (OSTmrs s a))" for a
    by (simp add: m'(1) m1(1))
  have run: "State (OSTmrs s x) \<in> {OS_TMR_STATE_RUNNING, OS_TMR_STATE_TIMEOUT}"
    using assms(1,3) by (simp add: tmr_wf_def)
  have o: "OS_OPT_TMR_NONE \<notin> {OS_OPT_TMR_CALLBACK, OS_OPT_TMR_CALLBACK_ARG}" by (simp add: opts)
  have "OSTmrStop_locked cb (Some x) opt arg ts s = map_option (Pair (True, OS_ERR_NONE)) (OS_TmrUnlock ts s')"
  proof (cases "opt = OS_OPT_TMR_NONE")
    case True
    then have "s' = s1" using s'(1) by simp
    then show ?thesis using True run o un
      by (auto simp: OSTmrStop_locked_def set_tmr_put Let_def map_option_case split: option.splits)
  next
    case False
    then have "opt \<in> {OS_OPT_TMR_CALLBACK, OS_OPT_TMR_CALLBACK_ARG}" using assms(4) by simp
    have call: "(if CallbackPtr (OSTmrs s1 x) \<noteq> 0 then cb (CallbackPtr (OSTmrs s1 x)) (Some x)
        (if opt = OS_OPT_TMR_CALLBACK then CallbackPtrArg (OSTmrs s1 x) else arg) s1 else Some s1) = Some s'"
      using s'(1) False unfolding cb1 by (simp add: has_cb_def split del: if_split)
    show ?thesis using run un call \<open>opt \<in> {OS_OPT_TMR_CALLBACK, OS_OPT_TMR_CALLBACK_ARG}\<close>
      by (elim insertE emptyE; cases "OS_TmrUnlock ts s'")
        (simp_all add: OSTmrStop_locked_def set_tmr_put Let_def opts split del: if_split cong: if_cong)
  qed
  moreover have "tmr_wf s' Us" using assms(1) s1(4) unfolding tmr_wf_def st s1(5) m'(10) by auto
  moreover have "\<forall>a\<in>set Ts - {x}. since_base s \<le> due (jrem s) Ts a \<longrightarrow> expiry s' Us a = expiry s Ts a - early_by s Ts x"
    using s1(5,7) m'(11) by simp
  moreover have "L (app_part s') = L (app_part s) @ (if ?call then [x] else [])" using s'(4) m1(10) by simp
  ultimately show ?thesis using s'(2) s1(5) st by (intro exI [of _ s'] exI [of _ Us]) simp
qed

lemma OSTmrStop_removes_witness:
  "\<exists>s' Ts'. OSTmrStop_locked demo_cb (Some 1) OS_OPT_TMR_CALLBACK None 7 (tdemo\<lparr>OSTickCtr := 998\<rparr>) =
      map_option (Pair (True, OS_ERR_NONE)) (OS_TmrUnlock 7 s') \<and>
    tmr_wf s' Ts' \<and> set Ts' = {2, 3} \<and> replicate (demo_count (app_part s')) 1 = [1 :: nat] \<and> expiry s' Ts' 2 = 1005"
proof -
  let ?s = "tdemo\<lparr>OSTickCtr := 998\<rparr>"
  have same: "OSTmrs ?s = OSTmrs tdemo" "jrem ?s = jrem tdemo" by (simp_all add: jrem_def)
  have wf: "tmr_wf ?s [1, 2, 3]"
    using tdemo_wf by (simp add: tmr_wf_def tmr_list_def jnxt_def jprv_def jrem_def)
  have c: "cond_ok ?s" using tdemo_cond by (subst cond_ok_cong [of _ tdemo]) simp_all
  have now: "tmr_time ?s = 998" "since_base ?s = 3"
    by (simp_all add: tmr_time_def since_base_def tdemo_def demo_def OSTmrTaskTCB_def)
  have x: "(1 :: nat) \<in> set [1, 2, 3]" by simp
  have early: "\<not> early_unlink ?s [1, 2, 3] 1"
    by (simp add: early_unlink_def keeps_base_def now) (simp add: jrem_def tdemo_def demo_timer_def)
  have h: "has_cb ?s 1" by (simp add: has_cb_def tdemo_def demo_timer_def)
  have d: "due (jrem ?s) [1, 2, 3] 2 = 10" "expiry ?s [1, 2, 3] 2 = 1005"
    by (simp_all add: expiry_def jrem_def tdemo_def demo_timer_def)
  have c0: "demo_count (app_part ?s) = 0" by (simp add: demo_count_def app_part_def tdemo_def demo_def)
  have o: "OS_OPT_TMR_CALLBACK \<in> {OS_OPT_TMR_NONE, OS_OPT_TMR_CALLBACK, OS_OPT_TMR_CALLBACK_ARG}"
    "OS_OPT_TMR_CALLBACK \<noteq> OS_OPT_TMR_NONE" by (simp_all add: opts)
  from OSTmrStop_removes [OF wf c x o(1) demo_calls, of None 7] obtain s' Ts' where
    s': "OSTmrStop_locked demo_cb (Some 1) OS_OPT_TMR_CALLBACK None 7 ?s = map_option (Pair (True, OS_ERR_NONE)) (OS_TmrUnlock 7 s')"
    "tmr_wf s' Ts'" "set Ts' = set [1, 2, 3] - {1}"
    "replicate (demo_count (app_part s')) 1 = replicate (demo_count (app_part ?s)) 1 @
      (if OS_OPT_TMR_CALLBACK \<noteq> OS_OPT_TMR_NONE \<and> has_cb ?s 1 then [1 :: nat] else [])"
    "\<forall>a\<in>set [1, 2, 3] - {1}. since_base ?s \<le> due (jrem ?s) [1, 2, 3] a \<longrightarrow>
      expiry s' Ts' a = expiry ?s [1, 2, 3] a - early_by ?s [1, 2, 3] 1"
    by blast
  have "expiry s' Ts' 2 = 1005" using s'(5) d now(2) early by (simp add: early_by_def del: due.simps)
  moreover have "replicate (demo_count (app_part s')) 1 = [1 :: nat]" using s'(4) h o(2) c0 by simp
  moreover have "set Ts' = {2, 3}" using s'(3) by simp
  ultimately show ?thesis using s'(1,2) by blast
qed

end
