(* ===== verification/Mutex_Frame.thy ===== *)
theory Mutex_Frame
  imports Mutex_Props Time_Props
begin

text \<open>
  The invariant of the mutexes as a part of the invariant of the system, and what an operation that is not about
  mutexes has to leave alone so that it still holds: the mutexes, the priorities, and which task waits for which mutex.
\<close>

definition mutexes :: "kernel \<Rightarrow> nat set" where
  "mutexes s = {b. Type (OSObjs s b) = OS_OBJ_TYPE_MUTEX}"

definition mutex_ok :: "nat set \<Rightarrow> kernel \<Rightarrow> (nat \<Rightarrow> nat list) \<Rightarrow> bool" where
  "mutex_ok A s W \<longleftrightarrow> (\<exists>own. mutex_inv s A (mutexes s) W own) \<and> inherits s A \<and> no_cond s A \<and> finite A \<and>
     (\<forall>t\<in>A. unat (BasePrio (OSTCBs s t)) < OS_CFG_PRIO_MAX)"

lemma mutex_okD:
  assumes "mutex_ok A s W"
  shows "\<exists>own. mutex_inv s A (mutexes s) W own" "inherits s A" "no_cond s A" "finite A"
    "t \<in> A \<Longrightarrow> unat (BasePrio (OSTCBs s t)) < OS_CFG_PRIO_MAX"
  using assms by (simp_all add: mutex_ok_def)

definition same_mutexes :: "nat set \<Rightarrow> kernel \<Rightarrow> kernel \<Rightarrow> bool" where
  "same_mutexes A s s' \<longleftrightarrow> OSMutexes s' = OSMutexes s \<and> (\<forall>b. Type (OSObjs s' b) = Type (OSObjs s b)) \<and>
     (\<forall>t. Prio (OSTCBs s' t) = Prio (OSTCBs s t) \<and> BasePrio (OSTCBs s' t) = BasePrio (OSTCBs s t) \<and>
       MutexGrpHeadPtr (OSTCBs s' t) = MutexGrpHeadPtr (OSTCBs s t)) \<and>
     (\<forall>t\<in>A. (PendOn (OSTCBs s' t) = OS_TASK_PEND_ON_MUTEX \<longleftrightarrow> PendOn (OSTCBs s t) = OS_TASK_PEND_ON_MUTEX) \<and>
       (PendOn (OSTCBs s t) = OS_TASK_PEND_ON_MUTEX \<longrightarrow> PendObjPtr (OSTCBs s' t) = PendObjPtr (OSTCBs s t)) \<and>
       PendOn (OSTCBs s' t) \<noteq> OS_TASK_PEND_ON_COND \<and>
       (\<forall>b. PendObjPtr (OSTCBs s' t) = Some b \<longrightarrow> Type (OSObjs s b) = OS_OBJ_TYPE_MUTEX \<longrightarrow>
         PendOn (OSTCBs s t) = OS_TASK_PEND_ON_MUTEX))"

lemma same_mutexesD:
  assumes "same_mutexes A s s'"
  shows "OSMutexes s' = OSMutexes s" "Type (OSObjs s' b) = Type (OSObjs s b)" "Prio (OSTCBs s' t) = Prio (OSTCBs s t)"
    "BasePrio (OSTCBs s' t) = BasePrio (OSTCBs s t)" "MutexGrpHeadPtr (OSTCBs s' t) = MutexGrpHeadPtr (OSTCBs s t)"
    "t \<in> A \<Longrightarrow> PendOn (OSTCBs s' t) = OS_TASK_PEND_ON_MUTEX \<longleftrightarrow> PendOn (OSTCBs s t) = OS_TASK_PEND_ON_MUTEX"
    "t \<in> A \<Longrightarrow> PendOn (OSTCBs s t) = OS_TASK_PEND_ON_MUTEX \<Longrightarrow> PendObjPtr (OSTCBs s' t) = PendObjPtr (OSTCBs s t)"
    "t \<in> A \<Longrightarrow> PendOn (OSTCBs s' t) \<noteq> OS_TASK_PEND_ON_COND"
    "t \<in> A \<Longrightarrow> PendObjPtr (OSTCBs s' t) = Some b \<Longrightarrow> Type (OSObjs s b) = OS_OBJ_TYPE_MUTEX \<Longrightarrow>
      PendOn (OSTCBs s t) = OS_TASK_PEND_ON_MUTEX"
  using assms unfolding same_mutexes_def by blast+

text \<open>A task on the pend list of a mutex waits for it.\<close>

lemma mutex_ok_waits:
  assumes "mutex_ok A s W" and "a \<in> set (W b)" and "Type (OSObjs s b) = OS_OBJ_TYPE_MUTEX"
  shows "PendOn (OSTCBs s a) = OS_TASK_PEND_ON_MUTEX"
  using mutex_okD(1) [OF assms(1)] mutex_invD(6) assms(2,3) by (fastforce simp: mutexes_def)

lemma mutex_ok_obj:
  assumes "mutex_ok A s W" and "a \<in> A" and "PendOn (OSTCBs s a) = OS_TASK_PEND_ON_MUTEX"
  shows "\<exists>b. PendObjPtr (OSTCBs s a) = Some b \<and> Type (OSObjs s b) = OS_OBJ_TYPE_MUTEX"
  using mutex_okD(1) [OF assms(1)] mutex_invD(7) assms(2,3) by (fastforce simp: mutexes_def)

lemma mutex_ok_pends:
  assumes "kinv s A R W T" and "mutex_ok A s W" and "a \<in> A" and "PendObjPtr (OSTCBs s a) = Some b"
    and "Type (OSObjs s b) = OS_OBJ_TYPE_MUTEX"
  shows "PendOn (OSTCBs s a) = OS_TASK_PEND_ON_MUTEX"
  using mutex_ok_waits [OF assms(2) _ assms(5)] task_okD(4) [OF assms(1,3)] assms(4) by blast

lemma mutex_ok_frame:
  assumes K: "kinv s A R W T" and K': "kinv s' A R' W' T'" and M: "mutex_ok A s W" and f: "same_mutexes A s s'"
  shows "mutex_ok A s' W'"
proof -
  note D = same_mutexesD [OF f]
  obtain own where I: "mutex_inv s A (mutexes s) W own" using mutex_okD(1) [OF M] ..
  have e: "mutexes s' = mutexes s" using D(2) by (simp add: mutexes_def)
  have wt: "PendOn (OSTCBs s a) = OS_TASK_PEND_ON_MUTEX \<and> a \<in> set (W b)" if "b \<in> mutexes s" "a \<in> set (W' b)" for a b
  proof -
    have a: "a \<in> A" "PendObjPtr (OSTCBs s' a) = Some b" using waiterD(1,3) [OF K' that(2)] by auto
    with that(1) have po: "PendOn (OSTCBs s a) = OS_TASK_PEND_ON_MUTEX" using D(9) by (simp add: mutexes_def)
    then show ?thesis using D(7) [OF a(1) po] a task_okD(4) [OF K a(1), of b] by simp
  qed
  have "mutex_inv s' A (mutexes s') W' own" unfolding e
  proof (rule mutex_inv_waiters [OF I D(1,5,2)])
    show "W' b = []" if "b \<in> mutexes s" "OwnerTCBPtr (OSMutexes s b) = None" for b
      using mutex_invD(4) [OF I that] wt [OF that(1)] by (cases "W' b") auto
    show "PendOn (OSTCBs s' a) = OS_TASK_PEND_ON_MUTEX" if "b \<in> mutexes s" "a \<in> set (W' b)" for b a
      using wt [OF that] waiterD(1) [OF K' that(2)] D(6) by simp
    show "\<exists>b\<in>mutexes s. PendObjPtr (OSTCBs s' a) = Some b" if "a \<in> A" "PendOn (OSTCBs s' a) = OS_TASK_PEND_ON_MUTEX" for a
      using that D(6,7) [OF that(1)] mutex_invD(7) [OF I that(1)] by simp
  qed
  moreover have "inherits s' A"
    using mutex_okD(2) [OF M] by (subst inherits_cong [of s' s A, OF D(3,4)]) (use D(1,6,7) in \<open>auto simp: waits_for_def\<close>)
  ultimately show ?thesis using D(4,8) mutex_okD(4,5) [OF M] by (auto simp: mutex_ok_def no_cond_def)
qed

lemma same_mutexes_switched:
  assumes "kinv s A R W T" and "mutex_ok A s W" and "switched s s'"
  shows "same_mutexes A s s'"
  using switched_sel(2,6,14) [OF assms(3)] switched_fields [OF assms(3)] mutex_ok_pends [OF assms(1,2)] mutex_okD(3) [OF assms(2)]
  by (simp add: same_mutexes_def no_cond_def)

text \<open>One task \<open>a\<close> changes: its priorities and its group stay, and it does not start or end to wait for a mutex.\<close>

lemma same_mutexes_becomes:
  assumes K: "kinv s A R W T" and M: "mutex_ok A s W" and b: "becomes a t s s1 A R1 W1 T1"
    and p: "Prio t = Prio (OSTCBs s a)" "BasePrio t = BasePrio (OSTCBs s a)" "MutexGrpHeadPtr t = MutexGrpHeadPtr (OSTCBs s a)"
    and po: "PendOn t = PendOn (OSTCBs s a) \<and> PendObjPtr t = PendObjPtr (OSTCBs s a) \<or>
      PendOn (OSTCBs s a) \<noteq> OS_TASK_PEND_ON_MUTEX \<and> PendOn t \<notin> {OS_TASK_PEND_ON_MUTEX, OS_TASK_PEND_ON_COND} \<and>
      (\<forall>b. PendObjPtr t = Some b \<longrightarrow> Type (OSObjs s b) \<noteq> OS_OBJ_TYPE_MUTEX)"
  shows "same_mutexes A s s1"
proof -
  note C = becomes_sel [OF b]
  note w = mutex_ok_pends [OF K M]
  show ?thesis unfolding same_mutexes_def
    using moved_sel(2,19) [OF becomesD(1) [OF b]] C p po w w [OF _ sym] mutex_okD(3) [OF M] by (auto simp: no_cond_def)
qed

text \<open>The tasks \<open>E\<close>, none of which waits for a mutex, end their waits.\<close>

definition ends_wait :: "(OS_TCB \<Rightarrow> OS_TCB) \<Rightarrow> bool" where
  "ends_wait f \<longleftrightarrow> (\<forall>t. Prio (f t) = Prio t \<and> BasePrio (f t) = BasePrio t \<and> MutexGrpHeadPtr (f t) = MutexGrpHeadPtr t \<and>
     FlagsPend (f t) = FlagsPend t \<and> FlagsOpt (f t) = FlagsOpt t \<and>
     PendOn (f t) = OS_TASK_PEND_ON_NOTHING \<and> PendObjPtr (f t) = None)"

lemma ends_wait_posted: "ends_wait (posted_tcb p z ts)"
  by (simp add: ends_wait_def posted_tcb_def)

lemma released_fields:
  assumes r: "released f s s1 A R W T E" and f: "ends_wait f"
  shows "Prio (OSTCBs s1 t) = Prio (OSTCBs s t)" "BasePrio (OSTCBs s1 t) = BasePrio (OSTCBs s t)"
    "MutexGrpHeadPtr (OSTCBs s1 t) = MutexGrpHeadPtr (OSTCBs s t)" "FlagsPend (OSTCBs s1 t) = FlagsPend (OSTCBs s t)"
    "FlagsOpt (OSTCBs s1 t) = FlagsOpt (OSTCBs s t)"
    "PendOn (OSTCBs s1 t) = (if t \<in> set E then OS_TASK_PEND_ON_NOTHING else PendOn (OSTCBs s t))"
    "PendObjPtr (OSTCBs s1 t) = (if t \<in> set E then None else PendObjPtr (OSTCBs s t))"
    "t \<notin> set E \<Longrightarrow> TaskState (OSTCBs s1 t) = TaskState (OSTCBs s t)"
proof -
  have c: "core (OSTCBs s1 t) = core (if t \<in> set E then f (OSTCBs s t) else OSTCBs s t)"
    using releasedD(3) [OF r, of t] moved_set_sel(7) [OF releasedD(1) [OF r], of t] by simp
  show "Prio (OSTCBs s1 t) = Prio (OSTCBs s t)" "BasePrio (OSTCBs s1 t) = BasePrio (OSTCBs s t)"
    "MutexGrpHeadPtr (OSTCBs s1 t) = MutexGrpHeadPtr (OSTCBs s t)" "FlagsPend (OSTCBs s1 t) = FlagsPend (OSTCBs s t)"
    "FlagsOpt (OSTCBs s1 t) = FlagsOpt (OSTCBs s t)"
    "PendOn (OSTCBs s1 t) = (if t \<in> set E then OS_TASK_PEND_ON_NOTHING else PendOn (OSTCBs s t))"
    "PendObjPtr (OSTCBs s1 t) = (if t \<in> set E then None else PendObjPtr (OSTCBs s t))"
    "t \<notin> set E \<Longrightarrow> TaskState (OSTCBs s1 t) = TaskState (OSTCBs s t)"
    using core_eqI(1-5,12,13,15) [OF c] f by (auto simp: ends_wait_def)
qed

lemma same_mutexes_released:
  assumes K: "kinv s A R W T" and M: "mutex_ok A s W" and r: "released f s s1 A R W T E" and f: "ends_wait f"
    and n: "\<And>a. a \<in> set E \<Longrightarrow> PendOn (OSTCBs s a) \<noteq> OS_TASK_PEND_ON_MUTEX"
  shows "same_mutexes A s s1"
  unfolding same_mutexes_def
  using released_fields [OF r f] moved_set_sel(1) [OF releasedD(1) [OF r]] moved_set_globals(7) [OF releasedD(1) [OF r]]
    n mutex_ok_pends [OF K M] mutex_okD(3) [OF M] by (auto simp: no_cond_def)

lemma same_mutexes_tick:
  assumes K: "kinv s A R W T" and M: "mutex_ok A s W" and o: "waits_over (set T) s s'"
    and nt: "\<forall>c\<in>set T. PendOn (OSTCBs s c) \<noteq> OS_TASK_PEND_ON_MUTEX" and ty: "\<forall>b. Type (OSObjs s' b) = Type (OSObjs s b)"
  shows "same_mutexes A s s'"
proof -
  note w = mutex_ok_pends [OF K M]
  show ?thesis unfolding same_mutexes_def
    using o nt ty w mutex_okD(3) [OF M] unfolding waits_over_def no_cond_def by (intro conjI allI ballI) (metis pend_on.distinct option.distinct(1))+
qed

text \<open>The bookkeeping of the mutexes does not touch what the scheduler looks at.\<close>

lemma mx_frame_globals:
  assumes "mx_frame s s'"
  shows "OSSems s' = OSSems s" "running s' c \<longleftrightarrow> running s c" "most_urgent s' R c \<longleftrightarrow> most_urgent s R c"
  using assms by (auto simp: mx_frame_def running_def most_urgent_def)

end
