(* ===== verification/Msg_Inv.thy ===== *)
theory Msg_Inv
  imports Os_Q
begin

text \<open>
  The messages of a system with several queues: the queues and the pool share the nodes and no node is in two lists.
  Storing and taking a message keep this.
\<close>

definition queues :: "kernel \<Rightarrow> nat set" where
  "queues s = {b. Type (OSObjs s b) = OS_OBJ_TYPE_Q}"

text \<open>\<open>X b\<close> are the nodes of queue \<open>b\<close>, \<open>fs\<close> those of the pool; all of them are among \<open>N\<close>.\<close>

definition msgs_rel :: "kernel \<Rightarrow> (nat \<Rightarrow> nat list) \<Rightarrow> nat list \<Rightarrow> nat set \<Rightarrow> bool" where
  "msgs_rel s X fs N \<longleftrightarrow> finite N \<and> card N < 2 ^ 16 \<and> pool_list s fs \<and> set fs \<subseteq> N \<and>
     (\<forall>b\<in>queues s. msgq_list s (OSQs s b) (X b) \<and> set (X b) \<subseteq> N \<and> set (X b) \<inter> set fs = {}) \<and>
     (\<forall>b\<in>queues s. \<forall>c\<in>queues s. b \<noteq> c \<longrightarrow> set (X b) \<inter> set (X c) = {})"

definition msgs_ok :: "kernel \<Rightarrow> bool" where
  "msgs_ok s \<longleftrightarrow> (\<exists>X fs N. msgs_rel s X fs N)"

lemma msgs_relD:
  assumes "msgs_rel s X fs N"
  shows "finite N" "card N < 2 ^ 16" "pool_list s fs" "set fs \<subseteq> N"
    "b \<in> queues s \<Longrightarrow> msgq_list s (OSQs s b) (X b)" "b \<in> queues s \<Longrightarrow> set (X b) \<subseteq> N"
    "b \<in> queues s \<Longrightarrow> set (X b) \<inter> set fs = {}"
    "b \<in> queues s \<Longrightarrow> c \<in> queues s \<Longrightarrow> b \<noteq> c \<Longrightarrow> set (X b) \<inter> set (X c) = {}"
  using assms by (auto simp: msgs_rel_def)

lemma msgs_ok_cong:
  assumes "OSMsgs s' = OSMsgs s" "OSMsgPool s' = OSMsgPool s" "OSQs s' = OSQs s"
    "\<And>b. Type (OSObjs s' b) = Type (OSObjs s b)"
  shows "msgs_ok s' \<longleftrightarrow> msgs_ok s"
proof -
  have "mnext s' = mnext s" using assms(1) by (simp add: mnext_def fun_eq_iff)
  then show ?thesis using assms(2-4) by (simp add: msgs_ok_def msgs_rel_def queues_def pool_list_def msgq_list_def)
qed

text \<open>What \<open>Os_Q\<close> says of one queue holds of each.\<close>

lemma msgs_q_inv:
  assumes r: "msgs_rel s X fs N" and b: "b \<in> queues s" and W: "MQ_NbrEntries (OSQs s b) > 0 \<Longrightarrow> W b = []"
  shows "q_inv s W b (map (payload s) (X b)) (length fs)" "X b = [] \<longleftrightarrow> MQ_NbrEntries (OSQs s b) = 0"
proof -
  note D = msgs_relD [OF r]
  have q: "msgq_list s (OSQs s b) (X b)" by (rule D(5) [OF b])
  have n: "unat (MQ_NbrEntries (OSQs s b)) = length (X b)" using q by (simp add: msgq_list_def)
  then show "X b = [] \<longleftrightarrow> MQ_NbrEntries (OSQs s b) = 0" by (simp add: word_len_pos)
  have "distinct (X b)" "distinct fs" using q D(3) by (simp_all add: msgq_list_def pool_list_def sll_def)
  then have "length (X b) + length fs = card (set (X b) \<union> set fs)"
    using D(7) [OF b] by (simp add: card_Un_disjoint distinct_card)
  also have "\<dots> \<le> card N" using D(1,4) D(6) [OF b] by (intro card_mono) auto
  finally have "length (X b) + length fs < 2 ^ 16" using D(2) by simp
  then have "mq_rel (OSQs s b, s) (map (payload s) (X b)) (length fs)"
    using q D(3) D(7) [OF b] unfolding mq_rel_def by (intro case_prodI exI [of _ "X b"] exI [of _ fs] conjI) auto
  moreover have "X b \<noteq> [] \<Longrightarrow> W b = []" using n W by (simp add: word_gt_0 word_len_pos)
  ultimately show "q_inv s W b (map (payload s) (X b)) (length fs)" using b by (simp add: q_inv_def queues_def)
qed

text \<open>One queue \<open>b\<close> and the pool have changed; \<open>Y\<close> are the nodes that were written.\<close>

lemma msgs_rel_update:
  assumes r: "msgs_rel s X fs N" and b: "b \<in> queues s" and f: "msg_frame Y s s1" and Y: "Y \<subseteq> set (X b) \<union> set fs"
    and q: "msgq_list s1 q' ys" "pool_list s1 fs'" and u: "set ys \<union> set fs' \<subseteq> set (X b) \<union> set fs" and d: "set ys \<inter> set fs' = {}"
  shows "msgs_rel (s1\<lparr>OSQs := (OSQs s1)(b := q')\<rparr>) (X(b := ys)) fs' N"
proof -
  note D = msgs_relD [OF r] and F = msg_frame_sel [OF f]
  let ?s = "s1\<lparr>OSQs := (OSQs s1)(b := q')\<rparr>"
  have n: "mnext (s1\<lparr>OSQs := x\<rparr>) = mnext s1" "queues ?s = queues s" for x by (simp_all add: mnext_def fun_eq_iff queues_def F)
  have oth: "set (X c) \<inter> (set (X b) \<union> set fs) = {}" if "c \<in> queues s" "c \<noteq> b" for c
    using D(8) [OF that(1) b that(2)] D(7) [OF that(1)] by blast
  have q2: "msgq_list ?s (OSQs ?s c) ((X(b := ys)) c)" if c: "c \<in> queues s" for c
  proof (cases "c = b")
    case True
    then show ?thesis using q(1) by (simp add: msgq_list_def n)
  next
    case False
    then have "set (X c) \<inter> Y = {}" using oth [OF c] Y by blast
    then have "msgq_list s1 (OSQs s c) (X c)" using msg_frame_other(1) [OF f] D(5) [OF c] by simp
    then show ?thesis using False by (simp add: msgq_list_def n F(3))
  qed
  have s2: "set ((X(b := ys)) c) \<subseteq> N \<and> set ((X(b := ys)) c) \<inter> set fs' = {}" if c: "c \<in> queues s" for c
    using D(4) D(6) [OF b] D(6) [OF c] oth [OF c] u d by (cases "c = b") auto
  have s3: "set ((X(b := ys)) c) \<inter> set ((X(b := ys)) e) = {}" if c: "c \<in> queues s" "e \<in> queues s" "c \<noteq> e" for c e
    using D(8) [OF c] oth [OF c(1)] oth [OF c(2)] u c(3) by (cases "c = b"; cases "e = b") auto
  have "pool_list ?s fs'" using q(2) by (simp add: pool_list_def n)
  moreover have "set fs' \<subseteq> N" using u D(4) D(6) [OF b] by blast
  ultimately show ?thesis unfolding msgs_rel_def n(2) using D(1,2) q2 s2 s3 by blast
qed

text \<open>Storing and taking.\<close>

lemma msgs_put:
  assumes M: "msgs_ok s" and b: "b \<in> queues s"
  shows "\<exists>err q' s1. OS_MsgQPut (OSQs s b) p z opt ts s = Some (err, q', s1) \<and> (\<exists>Y. msg_frame Y s s1) \<and>
    msgs_ok (s1\<lparr>OSQs := (OSQs s1)(b := q')\<rparr>)"
proof -
  obtain X fs N where r: "msgs_rel s X fs N" using M by (auto simp: msgs_ok_def)
  note D = msgs_relD [OF r]
  have q: "msgq_list s (OSQs s b) (X b)" by (rule D(5) [OF b])
  have same: "s\<lparr>OSQs := (OSQs s)(b := OSQs s b)\<rparr> = s" by simp
  have fl: "MQ_NbrEntriesSize (OSQs s b) \<le> MQ_NbrEntries (OSQs s b) \<longleftrightarrow> \<not> length (X b) < unat (MQ_NbrEntriesSize (OSQs s b))"
    using q by (auto simp: msgq_list_def word_le_nat_alt)
  consider (full) "MQ_NbrEntriesSize (OSQs s b) \<le> MQ_NbrEntries (OSQs s b)"
    | (pool) "\<not> MQ_NbrEntriesSize (OSQs s b) \<le> MQ_NbrEntries (OSQs s b)" "MP_NbrFree (OSMsgPool s) = 0"
    | (ok) "length (X b) < unat (MQ_NbrEntriesSize (OSQs s b))" "MP_NbrFree (OSMsgPool s) \<noteq> 0"
    using fl by blast
  then show ?thesis
  proof cases
    case full
    then show ?thesis using M msg_frame_refl by (auto simp: OS_MsgQPut_full same)
  next
    case pool
    then show ?thesis using M msg_frame_refl by (auto simp: OS_MsgQPut_empty_pool same)
  next
    case ok
    then obtain f fs1 where f: "fs = f # fs1" using D(3) by (cases fs) (auto simp: pool_list_def unat_eq_0)
    have dj: "set (X b) \<inter> set (f # fs1) = {}" using D(7) [OF b] f by simp
    from OS_MsgQPut_spec [OF q D(3) [unfolded f] dj ok(1), of p z opt ts] obtain q' s1 where
      i: "OS_MsgQPut (OSQs s b) p z opt ts s = Some (OS_ERR_NONE, q', s1)"
      "msgq_list s1 q' (if opt AND OS_OPT_POST_LIFO = OS_OPT_POST_FIFO then X b @ [f] else f # X b)" (is "msgq_list s1 q' ?ys")
      "pool_list s1 fs1" "msg_frame (insert f (set (X b))) s s1" by blast
    have "distinct fs" using D(3) by (simp add: pool_list_def sll_def)
    then have "msgs_rel (s1\<lparr>OSQs := (OSQs s1)(b := q')\<rparr>) (X(b := ?ys)) fs1 N"
      by (intro msgs_rel_update [OF r b i(4) _ i(2,3)]) (use dj f in \<open>auto split: if_splits\<close>)
    then show ?thesis using i(1,4) unfolding msgs_ok_def by blast
  qed
qed

lemma msgs_get:
  assumes M: "msgs_ok s" and b: "b \<in> queues s" and n: "MQ_NbrEntries (OSQs s b) > 0"
  shows "\<exists>m q' s1. OS_MsgQGet (OSQs s b) s = Some (OS_ERR_NONE, m, q', s1) \<and> (\<exists>Y. msg_frame Y s s1) \<and>
    msgs_ok (s1\<lparr>OSQs := (OSQs s1)(b := q')\<rparr>)"
proof -
  obtain X fs N where r: "msgs_rel s X fs N" using M by (auto simp: msgs_ok_def)
  note D = msgs_relD [OF r] and Q = msgs_q_inv [OF r b, of "\<lambda>_. []"]
  obtain x xs where x: "X b = x # xs" using Q(2) n by (cases "X b") auto
  have q: "msgq_list s (OSQs s b) (x # xs)" using D(5) [OF b] x by simp
  have dj: "set (x # xs) \<inter> set fs = {}" using D(7) [OF b] x by simp
  have "mq_rel (OSQs s b, s) (map (payload s) (X b)) (length fs)" using Q(1) by (simp add: q_inv_def)
  then have "length fs < 2 ^ 16 - 1" using x by (elim mq_relE) auto
  from OS_MsgQGet_spec [OF q D(3) dj this] obtain q' s1 where
    i: "OS_MsgQGet (OSQs s b) s = Some (OS_ERR_NONE, payload s x, q', s1)" "msgq_list s1 q' xs" "pool_list s1 (x # fs)"
    "msg_frame {x} s s1" by blast
  have "distinct (x # xs)" using q by (simp add: msgq_list_def sll_def)
  then have "msgs_rel (s1\<lparr>OSQs := (OSQs s1)(b := q')\<rparr>) (X(b := xs)) (x # fs) N"
    by (intro msgs_rel_update [OF r b i(4) _ i(2,3)]) (use dj x in auto)
  then show ?thesis using i(1,4) unfolding msgs_ok_def by blast
qed

lemma msgs_get_none:
  assumes M: "msgs_ok s" and b: "b \<in> queues s" and n: "MQ_NbrEntries (OSQs s b) = 0"
  shows "\<exists>k. q_inv s W b [] k"
proof -
  obtain X fs N where r: "msgs_rel s X fs N" using M by (auto simp: msgs_ok_def)
  have "q_inv s W b (map (payload s) (X b)) (length fs)" "X b = []"
    using msgs_q_inv [OF r b, of W] n by simp_all
  then show ?thesis by auto
qed

end
