(* ===== verification/Sys_Inv.thy ===== *)
theory Sys_Inv
  imports Os_Sem Task_Props Mutex_Frame Msg_Inv Q_Props Flag_Props
begin

text \<open>
  The invariant of the running system: the lists of the kernel, the mutexes and the priorities they give, the messages
  and the waiting tasks are in order, and the task that runs is the most urgent ready one. The lemmas say how an
  operation that changes one task, wakes some tasks, or calls the scheduler keeps it.
\<close>

section \<open>Objects\<close>

text \<open>An object has something to give, so that no task should wait for it.\<close>

definition avail :: "kernel \<Rightarrow> nat \<Rightarrow> bool" where
  "avail s b \<longleftrightarrow> Type (OSObjs s b) = OS_OBJ_TYPE_SEM \<and> Ctr (OSSems s b) > 0 \<or>
     Type (OSObjs s b) = OS_OBJ_TYPE_Q \<and> MQ_NbrEntries (OSQs s b) > 0"

text \<open>A task waits for the flags of a group with one of the four modes and for a condition that does not hold.\<close>

definition waits_on :: "kernel \<Rightarrow> nat \<Rightarrow> OS_TCB \<Rightarrow> bool" where
  "waits_on s b t \<longleftrightarrow> valid_wait t \<and> \<not> wakes (Flags (OSFlagGrps s b)) t"

definition flags_ok :: "kernel \<Rightarrow> (nat \<Rightarrow> nat list) \<Rightarrow> bool" where
  "flags_ok s W \<longleftrightarrow> (\<forall>b. Type (OSObjs s b) = OS_OBJ_TYPE_FLAG \<longrightarrow> (\<forall>a\<in>set (W b). waits_on s b (OSTCBs s a)))"

definition objs_ok :: "kernel \<Rightarrow> (nat \<Rightarrow> nat list) \<Rightarrow> bool" where
  "objs_ok s W \<longleftrightarrow> (\<forall>b. avail s b \<longrightarrow> W b = []) \<and> msgs_ok s \<and> flags_ok s W"

lemma objs_okD:
  assumes "objs_ok s W"
  shows "avail s b \<Longrightarrow> W b = []" "msgs_ok s" "flags_ok s W"
    "Type (OSObjs s b) = OS_OBJ_TYPE_FLAG \<Longrightarrow> a \<in> set (W b) \<Longrightarrow> waits_on s b (OSTCBs s a)"
  using assms by (auto simp: objs_ok_def flags_ok_def)

text \<open>The objects, the messages and the conditions of the tasks are the same.\<close>

definition same_objs :: "kernel \<Rightarrow> kernel \<Rightarrow> bool" where
  "same_objs s s' \<longleftrightarrow> OSSems s' = OSSems s \<and> OSQs s' = OSQs s \<and> OSMsgs s' = OSMsgs s \<and> OSMsgPool s' = OSMsgPool s \<and>
     OSFlagGrps s' = OSFlagGrps s \<and> (\<forall>b. Type (OSObjs s' b) = Type (OSObjs s b)) \<and>
     (\<forall>t. FlagsPend (OSTCBs s' t) = FlagsPend (OSTCBs s t) \<and> FlagsOpt (OSTCBs s' t) = FlagsOpt (OSTCBs s t))"

text \<open>A task joins a pend list only when the object has nothing to give.\<close>

lemma objs_ok_keep:
  assumes O: "objs_ok s W" and f: "same_objs s s'"
    and W: "\<And>b a. a \<in> set (W' b) \<Longrightarrow> a \<notin> set (W b) \<Longrightarrow>
      \<not> avail s b \<and> (Type (OSObjs s b) = OS_OBJ_TYPE_FLAG \<longrightarrow> waits_on s b (OSTCBs s a))"
  shows "objs_ok s' W'"
proof -
  have "W' b = []" if "avail s' b" for b
  proof -
    have "avail s b" using that f by (auto simp: avail_def same_objs_def)
    then have "W b = []" "\<And>a. a \<notin> set (W' b)" using objs_okD(1) [OF O] W by fastforce+
    then show ?thesis by (cases "W' b") auto
  qed
  moreover have "msgs_ok s'" using msgs_ok_cong [of s' s] f objs_okD(2) [OF O] by (simp add: same_objs_def)
  moreover have "waits_on s' b (OSTCBs s' a)" if "Type (OSObjs s' b) = OS_OBJ_TYPE_FLAG" "a \<in> set (W' b)" for a b
  proof -
    have "waits_on s b (OSTCBs s a)" using that f W [of a b] objs_okD(4) [OF O] by (auto simp: same_objs_def)
    then show ?thesis using f by (simp add: waits_on_def same_objs_def wakes_def valid_wait_def)
  qed
  ultimately show ?thesis by (simp add: objs_ok_def flags_ok_def)
qed

lemma same_objs_mx: "mx_keeps s s' \<Longrightarrow> same_objs s s'"
  by (simp add: same_objs_def mx_keeps_def)

lemma same_objs_switched: "switched s s' \<Longrightarrow> same_objs s s'"
  using switched_sel(1,3-6,8) [of s s'] switched_flags [of s s'] by (simp add: same_objs_def)

lemma same_objs_becomes:
  assumes "becomes a t s s1 A R W T" and "FlagsPend t = FlagsPend (OSTCBs s a)" "FlagsOpt t = FlagsOpt (OSTCBs s a)"
  shows "same_objs s s1"
  using moved_sel(1,3-6,19) [OF becomesD(1) [OF assms(1)]] becomes_flags [OF assms(1)] assms(2,3) by (simp add: same_objs_def)

lemma same_objs_released:
  assumes r: "released f s s1 A R W T E" and f: "ends_wait f"
  shows "same_objs s s1"
  using moved_set_sel(4,5) [OF releasedD(1) [OF r]] moved_set_globals(4-7) [OF releasedD(1) [OF r]]
    released_fields(4,5) [OF r f] by (simp add: same_objs_def)

section \<open>The invariant\<close>

text \<open>Waiting for a mutex or for flags with a time-out is left out.\<close>

definition untimed :: "kernel \<Rightarrow> nat list \<Rightarrow> bool" where
  "untimed s T \<longleftrightarrow> (\<forall>c\<in>set T. PendOn (OSTCBs s c) \<noteq> OS_TASK_PEND_ON_MUTEX \<and>
     (\<forall>b. PendObjPtr (OSTCBs s c) = Some b \<longrightarrow> Type (OSObjs s b) \<noteq> OS_OBJ_TYPE_FLAG))"

definition core_ok :: "nat set \<Rightarrow> kernel \<Rightarrow> (u8 \<Rightarrow> nat list) \<Rightarrow> (nat \<Rightarrow> nat list) \<Rightarrow> nat list \<Rightarrow> bool" where
  "core_ok A s R W T \<longleftrightarrow> kinv s A R W T \<and> untimed s T \<and> mutex_ok A s W \<and>
     OSRunning s = OS_STATE_OS_RUNNING \<and> OSIntNestingCtr s = 0 \<and> OSSchedLockNestingCtr s = 0 \<and>
     OSIdleTaskTCB \<in> A \<and> TaskState (OSTCBs s OSIdleTaskTCB) = OS_TASK_STATE_RDY"

definition sys_ok :: "nat set \<Rightarrow> kernel \<Rightarrow> bool" where
  "sys_ok A s \<longleftrightarrow> (\<exists>R W T c. core_ok A s R W T \<and> objs_ok s W \<and> running s c \<and> most_urgent s R c)"

lemma core_okD:
  assumes "core_ok A s R W T"
  shows "kinv s A R W T" "untimed s T" "mutex_ok A s W" "OSRunning s = OS_STATE_OS_RUNNING" "OSIntNestingCtr s = 0"
    "OSSchedLockNestingCtr s = 0" "OSIdleTaskTCB \<in> A" "TaskState (OSTCBs s OSIdleTaskTCB) = OS_TASK_STATE_RDY"
  using assms by (simp_all add: core_ok_def)

lemma core_ok_cong:
  assumes "kinv s' A R W T \<longleftrightarrow> kinv s A R W T" "OSMutexes s' = OSMutexes s" "\<And>b. Type (OSObjs s' b) = Type (OSObjs s b)"
    and "\<And>t. Prio (OSTCBs s' t) = Prio (OSTCBs s t)" "\<And>t. BasePrio (OSTCBs s' t) = BasePrio (OSTCBs s t)"
    "\<And>t. MutexGrpHeadPtr (OSTCBs s' t) = MutexGrpHeadPtr (OSTCBs s t)" "\<And>t. PendOn (OSTCBs s' t) = PendOn (OSTCBs s t)"
    "\<And>t. PendObjPtr (OSTCBs s' t) = PendObjPtr (OSTCBs s t)" "\<And>t. TaskState (OSTCBs s' t) = TaskState (OSTCBs s t)"
    and "OSRunning s' = OSRunning s" "OSIntNestingCtr s' = OSIntNestingCtr s"
    "OSSchedLockNestingCtr s' = OSSchedLockNestingCtr s"
  shows "core_ok A s' R W T \<longleftrightarrow> core_ok A s R W T"
proof -
  have "inherits s' A \<longleftrightarrow> inherits s A" by (rule inherits_cong) (simp_all add: assms waits_for_def)
  moreover have "mutex_inv s' A M W own \<longleftrightarrow> mutex_inv s A M W own" for M own by (rule mutex_inv_cong) (simp_all add: assms)
  ultimately have "mutex_ok A s' W \<longleftrightarrow> mutex_ok A s W" by (simp add: mutex_ok_def mutexes_def no_cond_def assms)
  then show ?thesis by (simp add: core_ok_def untimed_def assms)
qed

text \<open>The idle task is on its ready list.\<close>

lemma idle_ready:
  assumes "core_ok A s R W T" shows "OSIdleTaskTCB \<in> set (R (Prio (OSTCBs s OSIdleTaskTCB)))"
  using task_okD(2) [OF core_okD(1,7) [OF assms]] core_okD(8) [OF assms] by simp

lemma idle_nonempty: "core_ok A s R W T \<Longrightarrow> R (Prio (OSTCBs s OSIdleTaskTCB)) \<noteq> []"
  using idle_ready [of A s R W T] by auto

lemma urgent_ready:
  assumes B: "core_ok A s R W T" and r: "running s c" and u: "most_urgent s R c"
  shows "c \<in> A" "task_level s c" "c \<noteq> OSIdleTaskTCB \<Longrightarrow> \<exists>q. rdy_del s c R q \<noteq> []"
    "PendOn (OSTCBs s c) = OS_TASK_PEND_ON_NOTHING" "PendObjPtr (OSTCBs s c) = None"
proof -
  have c: "c \<in> set (R (Prio (OSTCBs s c)))" using u by (auto simp: most_urgent_def)
  then show cA: "c \<in> A" using kinvD(6) [OF core_okD(1) [OF B]] by blast
  then have rd: "TaskState (OSTCBs s c) = OS_TASK_STATE_RDY" using c task_okD(2) [OF core_okD(1) [OF B]] by simp
  then show "task_level s c" using core_okD(4-6) [OF B] r by (simp add: task_level_def running_def)
  show po: "PendOn (OSTCBs s c) = OS_TASK_PEND_ON_NOTHING" using task_okD(5) [OF core_okD(1) [OF B] cA] rd by (simp add: pending_def)
  then show "PendObjPtr (OSTCBs s c) = None"
    using task_okD(6) [OF core_okD(1) [OF B] cA] by (simp add: on_object_def)
  assume "c \<noteq> OSIdleTaskTCB"
  then have "OSIdleTaskTCB \<in> set (rdy_del s c R (Prio (OSTCBs s OSIdleTaskTCB)))"
    using idle_ready [OF B] by (auto simp: rdy_del_def Let_def)
  then show "\<exists>q. rdy_del s c R q \<noteq> []" by (metis list.set_cases list.discI)
qed

lemma most_urgent_prios: "(\<And>c. Prio (OSTCBs s' c) = Prio (OSTCBs s c)) \<Longrightarrow> most_urgent s' R x = most_urgent s R x"
  by (simp add: most_urgent_def)

lemma sys_okI: "core_ok A s R W T \<Longrightarrow> objs_ok s W \<Longrightarrow> running s c \<Longrightarrow> most_urgent s R c \<Longrightarrow> sys_ok A s"
  unfolding sys_ok_def by blast

lemma urgent_le:
  assumes "kinv s A R W T" and "most_urgent s R c" and "a \<in> A" "TaskState (OSTCBs s a) = OS_TASK_STATE_RDY"
  shows "Prio (OSTCBs s c) \<le> Prio (OSTCBs s a)"
proof -
  have "R (Prio (OSTCBs s a)) \<noteq> []" using task_okD(2) [OF assms(1,3)] assms(4) by auto
  then show ?thesis using assms(2) by (simp add: most_urgent_def)
qed

section \<open>The scheduler\<close>

lemma switched_sys:
  assumes B: "core_ok A s R W T" and O: "objs_ok s W" and w: "switched s s'" and x: "running s' x" "most_urgent s R x"
  shows "sys_ok A s'"
proof -
  have K: "kinv s' A R W T" using switched_kinv [OF w] core_okD(1) [OF B] by simp
  have "mutex_ok A s' W"
    by (rule mutex_ok_frame [OF core_okD(1) [OF B] K core_okD(3) [OF B] same_mutexes_switched [OF core_okD(1,3) [OF B] w]])
  then have "core_ok A s' R W T"
    using B K switched_sel(6,9-11,15) [OF w] switched_fields(3,4) [OF w] by (simp add: core_ok_def untimed_def)
  moreover have "objs_ok s' W" by (rule objs_ok_keep [OF O same_objs_switched [OF w]]) simp
  moreover have "most_urgent s' R x" using x(2) most_urgent_prios [OF switched_sel(14) [OF w]] by simp
  ultimately show ?thesis using x(1) sys_okI by blast
qed

text \<open>The scheduler restores the invariant.\<close>

lemma settle:
  assumes B: "core_ok A s R W T" and O: "objs_ok s W" and r: "running s c"
  shows "\<exists>s'. OSSched s = Some s' \<and> sys_ok A s'"
proof -
  from OSSched_spec [OF core_okD(1) [OF B] idle_nonempty [OF B] core_okD(4-6) [OF B]] obtain s' x where
    x: "OSSched s = Some s'" "switched s s'" "most_urgent s R x" "OSTCBCurPtr s \<noteq> Some x \<or> running s x \<longrightarrow> running s' x"
    by blast
  have "running s' x" using x(4) r by (auto simp: running_def)
  with switched_sys [OF B O x(2) _ x(3)] x(1) show ?thesis by blast
qed

section \<open>Operations that change one task\<close>

text \<open>\<open>t\<close> is what becomes of the task \<open>a\<close>.\<close>

lemma becomes_core:
  assumes B: "core_ok A s R W T" and b: "becomes a t s s1 A R1 W1 T1"
    and T: "set T1 \<subseteq> insert a (set T)" and p: "a \<in> set T1 \<Longrightarrow> PendOn t \<noteq> OS_TASK_PEND_ON_MUTEX \<and>
      (\<forall>b. PendObjPtr t = Some b \<longrightarrow> Type (OSObjs s b) \<noteq> OS_OBJ_TYPE_FLAG)"
    and m: "Prio t = Prio (OSTCBs s a)" "BasePrio t = BasePrio (OSTCBs s a)" "MutexGrpHeadPtr t = MutexGrpHeadPtr (OSTCBs s a)"
      "PendOn t = PendOn (OSTCBs s a) \<and> PendObjPtr t = PendObjPtr (OSTCBs s a) \<or>
       PendOn (OSTCBs s a) \<noteq> OS_TASK_PEND_ON_MUTEX \<and> PendOn t \<notin> {OS_TASK_PEND_ON_MUTEX, OS_TASK_PEND_ON_COND} \<and>
       (\<forall>b. PendObjPtr t = Some b \<longrightarrow> Type (OSObjs s b) \<noteq> OS_OBJ_TYPE_MUTEX)"
    and i: "a = OSIdleTaskTCB \<Longrightarrow> TaskState t = OS_TASK_STATE_RDY"
  shows "core_ok A s1 R1 W1 T1"
proof -
  note M = moved_sel [OF becomesD(1) [OF b]] and C = becomes_sel [OF b]
  have "untimed s1 T1" unfolding untimed_def
  proof
    fix c assume "c \<in> set T1"
    then show "PendOn (OSTCBs s1 c) \<noteq> OS_TASK_PEND_ON_MUTEX \<and>
        (\<forall>b. PendObjPtr (OSTCBs s1 c) = Some b \<longrightarrow> Type (OSObjs s1 b) \<noteq> OS_OBJ_TYPE_FLAG)"
      using T p core_okD(2) [OF B] C(4,5) [of c] M(19) unfolding untimed_def by (cases "c = a") auto
  qed
  moreover have "mutex_ok A s1 W1"
    by (rule mutex_ok_frame [OF core_okD(1) [OF B] becomesD(3) [OF b] core_okD(3) [OF B]
        same_mutexes_becomes [OF core_okD(1,3) [OF B] b m]])
  moreover have "TaskState (OSTCBs s1 OSIdleTaskTCB) = OS_TASK_STATE_RDY"
    using i C(6) core_okD(8) [OF B] by (cases "a = OSIdleTaskTCB") auto
  ultimately show ?thesis using becomesD(3) [OF b] M(12-14) core_okD(4-7) [OF B] by (simp add: core_ok_def)
qed

lemma becomes_prios:
  assumes b: "becomes a t s s1 A R1 W1 T1" and p: "Prio t = Prio (OSTCBs s a)"
  shows "Prio (OSTCBs s1 c) = Prio (OSTCBs s c)"
  using becomes_sel(1) [OF b, of c] p by simp

lemma becomes_running:
  assumes b: "becomes a t s s1 A R1 W1 T1" and p: "Prio t = Prio (OSTCBs s a)" and r: "running s c"
  shows "running s1 c"
  using becomes_prios [OF b p, of c] moved_sel(8,9) [OF becomesD(1) [OF b]] r by (simp add: running_def)

text \<open>The running task \<open>c\<close> waits for an object that has nothing to give.\<close>

lemma blocked_sys:
  assumes B: "core_ok A s R W T" and O: "objs_ok s W" and r: "running s c" and u: "most_urgent s R c" and ci: "c \<noteq> OSIdleTaskTCB"
    and b: "becomes c (pended_tcb s0 (Some b) po timeout (OSTCBs s c)) s s1 A (rdy_del s c R)
      (W(b := pend_ins (prios s) c (W b))) T'"
    and T: "if timeout > 0 then tick_inserted s T c (unat timeout) (trem s1) T' else T' = T"
    and w: "switched s1 s'" and x: "running s' x" "most_urgent s (rdy_del s c R) x"
    and ty: "Type (OSObjs s b) \<noteq> OS_OBJ_TYPE_MUTEX" "\<not> avail s b"
      "Type (OSObjs s b) = OS_OBJ_TYPE_FLAG \<Longrightarrow> waits_on s b (OSTCBs s c)"
    and po: "po \<notin> {OS_TASK_PEND_ON_MUTEX, OS_TASK_PEND_ON_COND}" and ft: "Type (OSObjs s b) = OS_OBJ_TYPE_FLAG \<Longrightarrow> timeout = 0"
  shows "sys_ok A s'"
proof -
  note U = urgent_ready [OF B r u]
  let ?W = "W(b := pend_ins (prios s) c (W b))"
  have "c \<notin> set T" using task_okD(3) [OF core_okD(1) [OF B] U(1)] U(2) by (simp add: task_level_def timed_def)
  then have ct: "c \<in> set T' \<Longrightarrow> timeout \<noteq> 0" using T by (auto split: if_splits)
  have C: "core_ok A s1 (rdy_del s c R) ?W T'"
  proof (rule becomes_core [OF B b])
    show "set T' \<subseteq> insert c (set T)" using T by (auto simp: tick_inserted_def split: if_splits)
    show "PendOn (pended_tcb s0 (Some b) po timeout (OSTCBs s c)) \<noteq> OS_TASK_PEND_ON_MUTEX \<and>
        (\<forall>m. PendObjPtr (pended_tcb s0 (Some b) po timeout (OSTCBs s c)) = Some m \<longrightarrow> Type (OSObjs s m) \<noteq> OS_OBJ_TYPE_FLAG)"
      if "c \<in> set T'" using ct [OF that] po ft by (auto simp: pended_tcb_def)
  qed (use ci ty(1) po(1) U(4) in \<open>auto simp: pended_tcb_def\<close>)
  have "objs_ok s1 ?W"
  proof (rule objs_ok_keep [OF O same_objs_becomes [OF b]])
    fix m a assume "a \<in> set (?W m)" "a \<notin> set (W m)"
    then have "m = b" "a = c" by (auto simp: set_pend_ins split: if_splits)
    then show "\<not> avail s m \<and> (Type (OSObjs s m) = OS_OBJ_TYPE_FLAG \<longrightarrow> waits_on s m (OSTCBs s a))" using ty by simp
  qed (simp_all add: pended_tcb_def)
  moreover have "most_urgent s1 (rdy_del s c R) x"
    using x(2) most_urgent_prios [of s1 s] becomes_prios [OF b] by (simp add: pended_tcb_def)
  ultimately show ?thesis using switched_sys [OF C _ w x(1)] by blast
qed

section \<open>Operations that wake tasks\<close>

lemma released_core:
  assumes B: "core_ok A s R W T" and r: "released f s s1 A R W T E" and f: "ends_wait f"
    and n: "\<And>a. a \<in> set E \<Longrightarrow> PendOn (OSTCBs s a) \<notin> {OS_TASK_PEND_ON_MUTEX, OS_TASK_PEND_ON_NOTHING}"
  shows "core_ok A s1 (fold (readied s) E R) (fold without E W) (fold remove1 E T)"
proof -
  note F = released_fields [OF r f] and K = releasedD(2) [OF r] and G = moved_set_globals [OF releasedD(1) [OF r]]
  have "mutex_ok A s1 (fold without E W)"
    by (rule mutex_ok_frame [OF core_okD(1) [OF B] K core_okD(3) [OF B]
        same_mutexes_released [OF core_okD(1,3) [OF B] r f]]) (use n in auto)
  moreover have "set (fold remove1 E T) \<subseteq> set T"
  proof (induction E arbitrary: T)
    case (Cons a E)
    from Cons.IH [of "remove1 a T"] show ?case using set_remove1_subset [of a T] by auto
  qed simp
  then have "untimed s1 (fold remove1 E T)" using core_okD(2) [OF B] F(6,7) G(7) by (auto simp: untimed_def)
  moreover have "OSIdleTaskTCB \<notin> set E"
    using n task_okD(5) [OF core_okD(1,7) [OF B]] core_okD(8) [OF B] by (auto simp: pending_def)
  ultimately show ?thesis using K F(8) G(1-3) core_okD(4-8) [OF B] by (simp add: core_ok_def)
qed

lemma released_running:
  assumes "released f s s1 A R W T E" and "ends_wait f" and "running s c"
  shows "running s1 c"
  using released_fields(1) [OF assms(1,2), of c] moved_set_sel(2,6) [OF releasedD(1) [OF assms(1)]] assms(3)
  by (simp add: running_def)

text \<open>Tasks that wait for \<open>b\<close>, not a mutex, are woken and the scheduler is called.\<close>

lemma waiters_wait:
  assumes B: "core_ok A s R W T" and b: "a \<in> set (W b)" "Type (OSObjs s b) \<noteq> OS_OBJ_TYPE_MUTEX"
  shows "PendOn (OSTCBs s a) \<notin> {OS_TASK_PEND_ON_MUTEX, OS_TASK_PEND_ON_NOTHING}"
proof -
  note K = core_okD(1) [OF B]
  have a: "a \<in> A" "PendObjPtr (OSTCBs s a) = Some b" using waiterD(1,3) [OF K b(1)] by auto
  then show ?thesis
    using mutex_ok_obj [OF core_okD(3) [OF B] a(1)] b(2) task_okD(6) [OF K a(1)] by (auto simp: on_object_def)
qed

lemma woken_sys:
  assumes B: "core_ok A s R W T" and O: "objs_ok s W" and r: "running s c" and f: "ends_wait f"
    and b: "set E \<subseteq> set (W b)" "Type (OSObjs s b) \<noteq> OS_OBJ_TYPE_MUTEX" and w: "released f s s1 A R W T E"
  shows "\<exists>s'. OSSched s1 = Some s' \<and> sys_ok A s'"
proof -
  have C: "core_ok A s1 (fold (readied s) E R) (fold without E W) (fold remove1 E T)"
    by (rule released_core [OF B w f]) (use waiters_wait [OF B _ b(2)] b(1) in blast)
  have "objs_ok s1 (fold without E W)"
    by (rule objs_ok_keep [OF O same_objs_released [OF w f]]) (use set_fold_without [of E W] in blast)
  from settle [OF C this released_running [OF w f r]] show ?thesis .
qed

end
