(* ===== verification/Sys_Ops.thy ===== *)
theory Sys_Ops
  imports Sys_Inv
begin

text \<open>
  One lemma per operation of the kernel: called by the running task in a state that satisfies the invariant of the
  system it returns, or passes the processor on, and the invariant holds again.
\<close>

section \<open>Semaphores\<close>

text \<open>The counters of the semaphores are not among what the rest of the invariant is about.\<close>

lemma core_ok_sems: "core_ok A (s\<lparr>OSSems := x\<rparr>) R W T \<longleftrightarrow> core_ok A s R W T"
  by (rule core_ok_cong) simp_all

lemma objs_ok_sem:
  assumes O: "objs_ok s W" and b: "W b = []"
  shows "objs_ok (s\<lparr>OSSems := (OSSems s)(b := x)\<rparr>) W"
proof -
  let ?s = "s\<lparr>OSSems := (OSSems s)(b := x)\<rparr>"
  have "W c = []" if "avail ?s c" for c
    using that objs_okD(1) [OF O, of c] b by (cases "c = b") (auto simp: avail_def)
  moreover have "msgs_ok ?s" using msgs_ok_cong [of ?s s] objs_okD(2) [OF O] by simp
  ultimately show ?thesis using objs_okD(3) [OF O] by (simp add: objs_ok_def flags_ok_def waits_on_def)
qed

lemma objs_sem_inv: "objs_ok s W \<Longrightarrow> Type (OSObjs s b) = OS_OBJ_TYPE_SEM \<Longrightarrow> sem_inv s W b"
  using objs_okD(1) [of s W b] by (simp add: sem_inv_def avail_def)

lemma sem_pend_ok:
  assumes I: "sys_ok A s" and i: "OSTCBCurPtr s \<noteq> Some OSIdleTaskTCB" and ty: "Type (OSObjs s b) = OS_OBJ_TYPE_SEM"
  shows "\<exists>r s'. OSSemPend (Some b) timeout OS_OPT_PEND_BLOCKING s = Some (r, s') \<and> sys_ok A s'"
proof -
  obtain R W T c where B: "core_ok A s R W T" and O: "objs_ok s W" and r: "running s c" and u: "most_urgent s R c"
    using I unfolding sys_ok_def by blast
  note U = urgent_ready [OF B r u] and S = objs_sem_inv [OF O ty]
  show ?thesis
  proof (cases "Ctr (OSSems s b) > 0")
    case True
    then have "W b = []" using S by (simp add: sem_inv_def)
    from objs_ok_sem [OF O this] B r u
    have "sys_ok A (s\<lparr>OSSems := (OSSems s)(b := (OSSems s b)\<lparr>Ctr := Ctr (OSSems s b) - 1\<rparr>)\<rparr>)"
      by (intro sys_okI [where c = c]) (simp_all add: core_ok_sems running_def most_urgent_def)
    then show ?thesis
      using OSSemPend_token [OF S core_okD(4) [OF B] _ True, of OS_OPT_PEND_BLOCKING timeout] core_okD(5) [OF B] by simp
  next
    case False
    then have z: "Ctr (OSSems s b) = 0" by (simp add: word_gt_0)
    have ci: "c \<noteq> OSIdleTaskTCB" using i r by (auto simp: running_def)
    then obtain q where q: "rdy_del s c R q \<noteq> []" using U(3) by blast
    from OSSemPend_block [OF core_okD(1) [OF B] S U(1,2) q z, of timeout] obtain s1 s' x T' where
      p: "OSSemPend (Some b) timeout OS_OPT_PEND_BLOCKING s = Some (Blocked, s')"
      "becomes c (pended_tcb s (Some b) OS_TASK_PEND_ON_SEM timeout (OSTCBs s c)) s s1 A (rdy_del s c R)
        (W(b := pend_ins (prios s) c (W b))) T'"
      "if timeout > 0 then tick_inserted s T c (unat timeout) (trem s1) T' else T' = T"
      "switched s1 s'" "most_urgent s (rdy_del s c R) x" "running s' x" by blast
    have "sys_ok A s'" by (rule blocked_sys [OF B O r u ci p(2-4,6,5)]) (use ty z in \<open>simp_all add: avail_def\<close>)
    with p(1) show ?thesis by blast
  qed
qed

lemma sem_post_ok:
  assumes I: "sys_ok A s" and ty: "Type (OSObjs s b) = OS_OBJ_TYPE_SEM" and o: "opt \<in> {OS_OPT_POST_1, OS_OPT_POST_ALL}"
  shows "\<exists>r s'. OSSemPost (Some b) opt ts s = Some (r, s') \<and> sys_ok A (snd s')"
proof -
  obtain R W T c where B: "core_ok A s R W T" and O: "objs_ok s W" and r: "running s c" and u: "most_urgent s R c"
    using I unfolding sys_ok_def by blast
  note S = objs_sem_inv [OF O ty]
  have o': "opt \<in> {OS_OPT_POST_1, OS_OPT_POST_ALL, OS_OPT_POST_1 OR OS_OPT_POST_NO_SCHED,
      OS_OPT_POST_ALL OR OS_OPT_POST_NO_SCHED}" "sched_unless opt = OSSched"
    using o by (auto simp: sched_unless_def opts fun_eq_iff)
  show ?thesis
  proof (cases "W b")
    case Nil
    from objs_ok_sem [OF O this] B r u
    have "sys_ok A (s\<lparr>OSSems := (OSSems s)(b := (OSSems s b)\<lparr>Ctr := Ctr (OSSems s b) + 1, Sem_TS := ts\<rparr>)\<rparr>)"
      by (intro sys_okI [where c = c]) (simp_all add: core_ok_sems running_def most_urgent_def)
    then show ?thesis using OSSemPost_token [OF core_okD(1) [OF B] S core_okD(4) [OF B] o'(1) Nil, of ts] I by simp
  next
    case (Cons a E)
    let ?E = "if opt AND OS_OPT_POST_ALL = 0 then [a] else a # E"
    from OSSemPost_wake [OF core_okD(1) [OF B] S core_okD(4) [OF B] o'(1) Cons idle_nonempty [OF B], of ts]
    obtain s1 s' where p: "OSSemPost (Some b) opt ts s = Some (0, OS_ERR_NONE, s')"
      "released (posted_tcb None 0 ts) s s1 A R W T ?E" "OSSched s1 = Some s'" unfolding o'(2) by blast
    from woken_sys [OF B O r ends_wait_posted _ _ p(2), of b] Cons ty p(1,3) show ?thesis by (auto split: if_splits)
  qed
qed

section \<open>Message queues\<close>

text \<open>A queue and the nodes of the messages change, the rest of the state does not.\<close>

lemma msg_frame_core:
  assumes "msg_frame Y s s1"
  shows "core_ok A (s1\<lparr>OSQs := x\<rparr>) R W T \<longleftrightarrow> core_ok A s R W T"
  using msg_frame_kinv [OF assms] by (intro core_ok_cong) (simp_all add: msg_frame_sel [OF assms])

lemma msg_frame_sys:
  assumes B: "core_ok A s R W T" and O: "objs_ok s W" and r: "running s c" and u: "most_urgent s R c"
    and f: "msg_frame Y s s1" and b: "W b = []" and M: "msgs_ok (s1\<lparr>OSQs := (OSQs s1)(b := q')\<rparr>)"
  shows "sys_ok A (s1\<lparr>OSQs := (OSQs s1)(b := q')\<rparr>)"
proof -
  let ?s = "s1\<lparr>OSQs := (OSQs s1)(b := q')\<rparr>"
  note F = msg_frame_sel [OF f]
  have g: "OSPrioCur s1 = OSPrioCur s" "OSFlagGrps s1 = OSFlagGrps s" using f by (auto simp: msg_frame_def)
  have "W m = []" if "avail ?s m" for m
    using that b objs_okD(1) [OF O, of m] by (cases "m = b") (auto simp: avail_def F)
  then have "objs_ok ?s W" using M objs_okD(3) [OF O] by (simp add: objs_ok_def flags_ok_def waits_on_def F g)
  moreover have "core_ok A ?s R W T" using B msg_frame_core [OF f] by simp
  ultimately show ?thesis using r u by (intro sys_okI [where c = c]) (simp_all add: running_def most_urgent_def F g)
qed

lemma q_pend_ok:
  assumes I: "sys_ok A s" and i: "OSTCBCurPtr s \<noteq> Some OSIdleTaskTCB" and ty: "Type (OSObjs s b) = OS_OBJ_TYPE_Q"
  shows "\<exists>r s'. OSQPend (Some b) timeout OS_OPT_PEND_BLOCKING (Some sz) s = Some (r, s') \<and> sys_ok A s'"
proof -
  obtain R W T c where B: "core_ok A s R W T" and O: "objs_ok s W" and r: "running s c" and u: "most_urgent s R c"
    using I unfolding sys_ok_def by blast
  note U = urgent_ready [OF B r u] and M = objs_okD(2) [OF O]
  have b: "b \<in> queues s" using ty by (simp add: queues_def)
  show ?thesis
  proof (cases "MQ_NbrEntries (OSQs s b) > 0")
    case True
    have W: "W b = []" using objs_okD(1) [OF O] True ty by (simp add: avail_def)
    from msgs_get [OF M b True] obtain m q' s1 Y where
      g: "OS_MsgQGet (OSQs s b) s = Some (OS_ERR_NONE, m, q', s1)" "msg_frame Y s s1" "msgs_ok (s1\<lparr>OSQs := (OSQs s1)(b := q')\<rparr>)"
      by blast
    obtain p z t where m: "m = (p, z, t)" by (cases m) auto
    have "OSQPend (Some b) timeout OS_OPT_PEND_BLOCKING (Some sz) s =
        Some (Done (p, Some z, Some t, OS_ERR_NONE), s1\<lparr>OSQs := (OSQs s1)(b := q')\<rparr>)"
      using g(1) m ty U(2) by (simp add: OSQPend_def task_level_def set_msg_q_def)
    with msg_frame_sys [OF B O r u g(2) W g(3)] show ?thesis by blast
  next
    case False
    then have z: "MQ_NbrEntries (OSQs s b) = 0" by (simp add: word_gt_0)
    obtain k where S: "q_inv s W b [] k" using msgs_get_none [OF M b z] by blast
    have ci: "c \<noteq> OSIdleTaskTCB" using i r by (auto simp: running_def)
    then obtain q where q: "rdy_del s c R q \<noteq> []" using U(3) by blast
    from OSQPend_block [OF core_okD(1) [OF B] S U(1,2) q, of timeout sz] obtain s1 s' x T' where
      p: "OSQPend (Some b) timeout OS_OPT_PEND_BLOCKING (Some sz) s = Some (Blocked, s')"
      "becomes c (pended_tcb s (Some b) OS_TASK_PEND_ON_Q timeout (OSTCBs s c)) s s1 A (rdy_del s c R)
        (W(b := pend_ins (prios s) c (W b))) T'"
      "if timeout > 0 then tick_inserted s T c (unat timeout) (trem s1) T' else T' = T"
      "switched s1 s'" "running s' x" "most_urgent s (rdy_del s c R) x" by blast
    have "sys_ok A s'" by (rule blocked_sys [OF B O r u ci p(2-6)]) (use ty z in \<open>simp_all add: avail_def\<close>)
    with p(1) show ?thesis by blast
  qed
qed

definition q_wake_opts :: "OS_OPT set" where
  "q_wake_opts = {OS_OPT_POST_FIFO, OS_OPT_POST_LIFO, OS_OPT_POST_FIFO OR OS_OPT_POST_ALL, OS_OPT_POST_LIFO OR OS_OPT_POST_ALL}"

lemma q_wake_opts: "opt \<in> q_wake_opts \<Longrightarrow> opt \<in> q_post_opts \<and> sched_unless opt = OSSched"
  by (auto simp: q_wake_opts_def q_post_opts_def sched_unless_def opts fun_eq_iff)

lemma q_post_ok:
  assumes I: "sys_ok A s" and ty: "Type (OSObjs s b) = OS_OBJ_TYPE_Q" and o: "opt \<in> q_wake_opts"
  shows "\<exists>r s'. OSQPost (Some b) p z opt ts s = Some (r, s') \<and> sys_ok A s'"
proof -
  obtain R W T c where B: "core_ok A s R W T" and O: "objs_ok s W" and r: "running s c" and u: "most_urgent s R c"
    using I unfolding sys_ok_def by blast
  note M = objs_okD(2) [OF O] and K = core_okD(1) [OF B] and o' = q_wake_opts [OF o]
  have b: "b \<in> queues s" using ty by (simp add: queues_def)
  obtain X fs N where X: "msgs_rel s X fs N" using M by (auto simp: msgs_ok_def)
  have "MQ_NbrEntries (OSQs s b) > 0 \<Longrightarrow> W b = []" using objs_okD(1) [OF O, of b] ty by (simp add: avail_def)
  from msgs_q_inv(1) [where W = W, OF X b this] have S: "q_inv s W b (map (payload s) (X b)) (length fs)" .
  show ?thesis
  proof (cases "W b")
    case Nil
    let ?o = "if opt AND OS_OPT_POST_LIFO = 0 then OS_OPT_POST_FIFO else OS_OPT_POST_LIFO"
    from msgs_put [OF M b, of p z ?o ts] obtain err q' s1 Y where
      g: "OS_MsgQPut (OSQs s b) p z ?o ts s = Some (err, q', s1)" "msg_frame Y s s1" "msgs_ok (s1\<lparr>OSQs := (OSQs s1)(b := q')\<rparr>)"
      by blast
    from msg_frame_sys [OF B O r u g(2) Nil g(3)] show ?thesis
      unfolding OSQPost_store [OF K S core_okD(4) [OF B] o'[THEN conjunct1] Nil] g(1) by simp
  next
    case (Cons a E)
    let ?E = "if opt AND OS_OPT_POST_ALL = 0 then [a] else a # E"
    from OSQPost_wake [OF K S core_okD(4) [OF B] o'[THEN conjunct1] Cons idle_nonempty [OF B], of p z ts] o'
    obtain s1 s' where p: "OSQPost (Some b) p z opt ts s = Some (OS_ERR_NONE, s')"
      "released (posted_tcb p z ts) s s1 A R W T ?E" "OSSched s1 = Some s'" by metis
    from woken_sys [OF B O r ends_wait_posted _ _ p(2), of b] Cons ty p(1,3) show ?thesis by (auto split: if_splits)
  qed
qed

section \<open>Event flags\<close>

lemma core_ok_flags: "core_ok A (s\<lparr>OSFlagGrps := g\<rparr>) R W T \<longleftrightarrow> core_ok A s R W T"
  by (rule core_ok_cong) (simp_all add: kinv_OSFlagGrps)

text \<open>Fields of the task control block of a task that waits for nothing.\<close>

lemma put_core:
  "core_ok A (put c (FlagsRdy_update (\<lambda>_. rf)) s) R W T \<longleftrightarrow> core_ok A s R W T"
  "core_ok A (put c (wait_tcb flags opt) s) R W T \<longleftrightarrow> core_ok A s R W T"
  by (rule core_ok_cong; simp add: kinv_put wait_tcb_def)+

text \<open>The state of the flags does not matter for a task on no pend list.\<close>

lemma put_objs:
  assumes O: "objs_ok s W" and c: "\<And>b. c \<notin> set (W b)"
  shows "objs_ok (put c f s) W"
proof -
  have "msgs_ok (put c f s)" using msgs_ok_cong [of "put c f s" s] objs_okD(2) [OF O] by (simp add: put_def)
  moreover have "avail (put c f s) = avail s" by (simp add: avail_def put_def fun_eq_iff)
  moreover have "waits_on (put c f s) b (OSTCBs (put c f s) a)"
    if "Type (OSObjs s b) = OS_OBJ_TYPE_FLAG" "a \<in> set (W b)" for a b
    using objs_okD(4) [OF O that] c [of b] that(2) by (auto simp: waits_on_def put_def)
  ultimately show ?thesis using objs_okD(1) [OF O] by (simp add: objs_ok_def flags_ok_def)
qed

lemma flag_pend_ok:
  assumes I: "sys_ok A s" and i: "OSTCBCurPtr s \<noteq> Some OSIdleTaskTCB" and ty: "Type (OSObjs s b) = OS_OBJ_TYPE_FLAG"
    and o: "opt \<in> flag_modes"
  shows "\<exists>r s'. OSFlagPend (Some b) flags 0 opt s = Some (r, s') \<and> sys_ok A s'"
proof -
  obtain R W T c where B: "core_ok A s R W T" and O: "objs_ok s W" and r: "running s c" and u: "most_urgent s R c"
    using I unfolding sys_ok_def by blast
  note U = urgent_ready [OF B r u] and K = core_okD(1) [OF B]
  have ci: "c \<noteq> OSIdleTaskTCB" using i r by (auto simp: running_def)
  then obtain q where q: "rdy_del s c R q \<noteq> []" using U(3) by blast
  have ob: "opt \<in> blocking_opts" "opt AND OS_OPT_PEND_FLAG_CONSUME = 0" "opt AND OS_OPT_PEND_FLAG_MASK = opt"
    using o by (auto simp: blocking_opts_def flag_modes_def opts)
  have wo: "waits_ok s W b" using objs_okD(4) [OF O ty] ty by (simp add: waits_ok_def waits_on_def)
  have cW: "c \<notin> set (W m)" for m using waiterD(3) [OF K, of c m] U(5) by auto
  obtain rf ok where fr: "flags_ready (opt AND OS_OPT_PEND_FLAG_MASK) (Flags (OSFlagGrps s b)) flags = Some (rf, ok)"
    using flags_ready_valid [of "wait_tcb flags opt (OSTCBs s c)"] o ob(3) by (auto simp: valid_wait_def wait_tcb_def)
  show ?thesis
  proof (cases ok)
    case True
    let ?s = "put c (FlagsRdy_update (\<lambda>_. rf)) s"
    have e: "OSFlagPend (Some b) flags 0 opt s = Some (Done (rf, Some (Flag_TS (OSFlagGrps s b)), OS_ERR_NONE), ?s)"
      using wo fr True blocking_opts [OF ob(1)] ob(2) U(2)
      by (simp add: OSFlagPend_def waits_ok_def set_tcb_put Let_def task_level_def)
    have "core_ok A ?s R W T" using B by (simp only: put_core)
    moreover have "objs_ok ?s W" by (rule put_objs [OF O cW])
    ultimately have "sys_ok A ?s" using r u
      by (intro sys_okI [where c = c]) (simp_all add: running_def most_urgent_def put_def)
    with e show ?thesis by blast
  next
    case False
    let ?v = "put c (wait_tcb flags opt) s"
    have Bv: "core_ok A ?v R W T" using B by (simp only: put_core)
    have Ov: "objs_ok ?v W" by (rule put_objs [OF O cW])
    have rv: "running ?v c" "most_urgent ?v R c" using r u by (simp_all add: running_def most_urgent_def put_def wait_tcb_def)
    have pr: "prios ?v = prios s" "rdy_del ?v c R = rdy_del s c R" by (auto simp: rdy_del_def wait_tcb_def fun_eq_iff)
    have fr': "flags_ready (opt AND OS_OPT_PEND_FLAG_MASK) (Flags (OSFlagGrps s b)) flags = Some (rf, False)"
      using fr False by simp
    from OSFlagPend_block [OF K wo U(1,2) q ob(1) fr', of 0] obtain s1 s' x T' where
      p: "OSFlagPend (Some b) flags 0 opt s = Some (Blocked, s')"
      "becomes c (pended_tcb s (Some b) OS_TASK_PEND_ON_FLAG 0 (wait_tcb flags opt (OSTCBs s c))) ?v s1 A (rdy_del s c R)
        (W(b := pend_ins (prios s) c (W b))) T'" "switched s1 s'" "running s' x" "most_urgent ?v (rdy_del s c R) x"
      "T' = T" by auto
    have b: "becomes c (pended_tcb s (Some b) OS_TASK_PEND_ON_FLAG 0 (OSTCBs ?v c)) ?v s1 A (rdy_del ?v c R)
        (W(b := pend_ins (prios ?v) c (W b))) T'" using p(2) unfolding pr by simp
    have tm: "if (0 :: u32) > 0 then tick_inserted ?v T c (unat (0 :: u32)) (trem s1) T' else T' = T" using p(6) by simp
    have w: "waits_on ?v b (OSTCBs ?v c)"
      using fr False blocking_opts(3) [OF ob(1)]
      by (simp add: waits_on_def valid_wait_def wakes_def wait_tcb_def)
    have "sys_ok A s'"
      by (rule blocked_sys [OF Bv Ov rv ci b tm p(3,4), unfolded pr, OF p(5)])
        (use ty w in \<open>simp_all add: avail_def put_def\<close>)
    with p(1) show ?thesis by blast
  qed
qed

lemma flag_post_ok:
  assumes I: "sys_ok A s" and ty: "Type (OSObjs s b) = OS_OBJ_TYPE_FLAG" and o: "opt \<in> {OS_OPT_POST_FLAG_SET, OS_OPT_POST_FLAG_CLR}"
  shows "\<exists>r s'. OSFlagPost (Some b) flags opt ts s = Some (r, s') \<and> sys_ok A (snd s')"
proof -
  obtain R W T c where B: "core_ok A s R W T" and O: "objs_ok s W" and r: "running s c" and u: "most_urgent s R c"
    using I unfolding sys_ok_def by blast
  note K = core_okD(1) [OF B]
  have wo: "waits_ok s W b" using objs_okD(4) [OF O ty] ty by (simp add: waits_ok_def waits_on_def)
  have op: "opt \<in> flag_post_opts" using o by (auto simp: flag_post_opts_def)
  have ns: "TaskState (OSTCBs s a) \<noteq> OS_TASK_STATE_PEND_TIMEOUT_SUSPENDED" if a: "a \<in> set (W b)" for a
  proof
    assume "TaskState (OSTCBs s a) = OS_TASK_STATE_PEND_TIMEOUT_SUSPENDED"
    then have "a \<in> set T" using task_okD(3) [OF K waiterD(1) [OF K a]] by (simp add: timed_def)
    then show False using core_okD(2) [OF B] waiterD(3) [OF K a] ty by (auto simp: untimed_def)
  qed
  define F where "F = posted_flags opt flags (Flags (OSFlagGrps s b))"
  let ?E = "filter (\<lambda>a. wakes F (OSTCBs s a)) (W b)" and ?W = "W(b := filter (\<lambda>a. \<not> wakes F (OSTCBs s a)) (W b))"
  from OSFlagPost_path [OF K wo core_okD(4) [OF B] idle_nonempty [OF B] op F_def ns, of ts] obtain v s1 s' where
    p: "OSFlagPost (Some b) flags opt ts s = Some (F, OS_ERR_NONE, s')"
    "v = s\<lparr>OSFlagGrps := (OSFlagGrps s)(b := (OSFlagGrps s b)\<lparr>Flags := F, Flag_TS := ts\<rparr>)\<rparr>"
    "released (woken_tcb F ts) v s1 A R W T ?E" "if W b = [] then s' = v else sched_unless opt s1 = Some s'" by blast
  have Bv: "core_ok A v R W T" using B by (simp add: p(2) core_ok_flags)
  have rv: "running v c" "most_urgent v R c" using r u by (simp_all add: p(2) running_def most_urgent_def)
  have Ov: "objs_ok v ?W"
  proof -
    have "msgs_ok v" using msgs_ok_cong [of v s] objs_okD(2) [OF O] by (simp add: p(2))
    moreover have "?W m = []" if "avail v m" for m
    proof -
      have "W m = []" using that objs_okD(1) [OF O, of m] by (simp add: avail_def p(2))
      then show ?thesis by (cases "m = b") simp_all
    qed
    moreover have "waits_on v m (OSTCBs v a)" if "Type (OSObjs v m) = OS_OBJ_TYPE_FLAG" "a \<in> set (?W m)" for m a
    proof -
      have "waits_on s m (OSTCBs s a)" using that objs_okD(4) [OF O, of m a] by (auto simp: p(2) split: if_splits)
      then show ?thesis using that(2) by (auto simp: waits_on_def p(2) split: if_splits)
    qed
    ultimately show ?thesis by (simp add: objs_ok_def flags_ok_def)
  qed
  show ?thesis
  proof (cases "W b")
    case Nil
    then have "?W = W" by auto
    then show ?thesis using p(1,4) Nil sys_okI [OF Bv _ rv] Ov by simp
  next
    case (Cons a E)
    have ew: "ends_wait (woken_tcb F ts)" by (simp add: ends_wait_def woken_tcb_def flagged_tcb_def)
    have f: "fold without ?E W = ?W" using fold_without_filter [OF K, of "\<lambda>a. wakes F (OSTCBs s a)" b] by simp
    have nm: "Type (OSObjs v b) \<noteq> OS_OBJ_TYPE_MUTEX" using ty by (simp add: p(2))
    have "core_ok A s1 (fold (readied v) ?E R) (fold without ?E W) (fold remove1 ?E T)"
      by (rule released_core [OF Bv p(3) ew]) (use waiters_wait [OF Bv _ nm] in auto)
    then have C: "core_ok A s1 (fold (readied v) ?E R) ?W (fold remove1 ?E T)" unfolding f .
    have "objs_ok s1 ?W" by (rule objs_ok_keep [OF Ov same_objs_released [OF p(3) ew]]) simp
    from settle [OF C this released_running [OF p(3) ew rv(1)]] p(1,4) o Cons show ?thesis
      by (auto simp: sched_unless_def opts)
  qed
qed

section \<open>Mutexes\<close>

lemma mx_keeps_mutex_ok:
  assumes "mutex_ok A s W" and "mx_keeps s s'" and "mutex_inv s' A (mutexes s) W' own" and "inherits s' A" and "no_cond s' A"
  shows "mutex_ok A s' W'"
proof -
  have "mutexes s' = mutexes s" using mx_keepsD(6) [OF assms(2)] by (simp add: mutexes_def)
  then show ?thesis using assms(3-5) mutex_okD(4,5) [OF assms(1)] mx_keepsD(7) [OF assms(2)] by (auto simp: mutex_ok_def)
qed

lemma mx_frame_sys:
  assumes B: "core_ok A s R W T" and O: "objs_ok s W" and r: "running s c" and u: "most_urgent s R c" and f: "mx_frame s s'"
    and I: "mutex_inv s' A (mutexes s) W own" and H: "inherits s' A"
  shows "sys_ok A s'"
proof -
  note F = mx_frame_sel [OF f]
  have "no_cond s' A" using mutex_okD(3) [OF core_okD(3) [OF B]] by (simp add: no_cond_def F(3))
  from mx_keeps_mutex_ok [OF core_okD(3) [OF B] mx_keeps_frame [OF f] I H this] have "mutex_ok A s' W" .
  then have C: "core_ok A s' R W T" using B mx_frame_kinv [OF f] by (simp add: core_ok_def untimed_def F)
  have "objs_ok s' W" by (rule objs_ok_keep [OF O same_objs_mx [OF mx_keeps_frame [OF f]]]) simp
  from sys_okI [OF C this] show ?thesis using r u mx_frame_globals(2,3) [OF f] by blast
qed

lemma mx_keeps_core:
  assumes B: "core_ok A s R W T" and k: "mx_keeps s s2" and K: "kinv s2 A R2 W2 T2" and M: "mutex_ok A s2 W2" and T: "untimed s2 T2"
    and i: "TaskState (OSTCBs s2 OSIdleTaskTCB) = OS_TASK_STATE_RDY"
  shows "core_ok A s2 R2 W2 T2"
  using core_okD(4-7) [OF B] mx_keepsD [OF k] K M T i by (simp add: core_ok_def)

lemma mutex_pend_ok:
  assumes I: "sys_ok A s" and i: "OSTCBCurPtr s \<noteq> Some OSIdleTaskTCB" and ty: "Type (OSObjs s b) = OS_OBJ_TYPE_MUTEX"
    and n: "OwnerNestingCtr (OSMutexes s b) \<noteq> -1"
  shows "\<exists>r s'. OSMutexPend (Some b) 0 OS_OPT_PEND_BLOCKING s = Some (r, s') \<and> sys_ok A s'"
proof -
  obtain R W T c where B: "core_ok A s R W T" and O: "objs_ok s W" and r: "running s c" and u: "most_urgent s R c"
    using I unfolding sys_ok_def by blast
  note U = urgent_ready [OF B r u] and K = core_okD(1) [OF B] and M = mutex_okD [OF core_okD(3) [OF B]]
  have ci: "c \<noteq> OSIdleTaskTCB" using i r by (auto simp: running_def)
  obtain own where mi: "mutex_inv s A (mutexes s) W own" using M(1) ..
  have b: "b \<in> mutexes s" using ty by (simp add: mutexes_def)
  have o: "OS_OPT_PEND_BLOCKING \<in> {OS_OPT_PEND_BLOCKING, OS_OPT_PEND_NON_BLOCKING}" by simp
  consider "OwnerTCBPtr (OSMutexes s b) = None" | "OwnerTCBPtr (OSMutexes s b) = Some c"
    | w where "OwnerTCBPtr (OSMutexes s b) = Some w" "w \<noteq> c" by (cases "OwnerTCBPtr (OSMutexes s b)") auto
  then show ?thesis
  proof cases
    case 1
    from pend_free [OF K mi b U(2,1) 1 M(2) o, of 0] obtain s' r' where
      s': "OSMutexPend (Some b) 0 OS_OPT_PEND_BLOCKING s = Some (r', s')" "mutex_inv s' A (mutexes s) W (own(c := b # own c))"
      "inherits s' A" "mx_frame s s'" by blast
    from mx_frame_sys [OF B O r u s'(4,2,3)] s'(1) show ?thesis by blast
  next
    case 2
    note P = pend_own [OF K mi b U(2,1) 2 n o]
    from mx_frame_sys [OF B O r u locked_sel(5) P(2) P(3) [OF M(2)]] P(1) [of 0] show ?thesis by blast
  next
    case (3 w)
    from OSMutexPend_stage [OF K mi M(2,4,3) U(1,2) b 3 core_okD(7) [OF B] ci [symmetric] core_okD(8) [OF B], of 0]
    obtain s2 R' W' T' where
      s2: "OSMutexPend (Some b) 0 OS_OPT_PEND_BLOCKING s = Option.bind (OSSched s2) (\<lambda>s'. Some (Blocked, s'))"
      "kinv s2 A R' W' T" "mutex_inv s2 A (mutexes s) W' own" "inherits s2 A" "mx_keeps s s2"
      "\<forall>m. set (W' m) = (if m = b then insert c (set (W b)) else set (W m))"
      "OSPrioCur s2 = OSPrioCur s" "Prio (OSTCBs s2 c) = Prio (OSTCBs s c)"
      "\<forall>t. PendOn (OSTCBs s2 t) = (if t = c then OS_TASK_PEND_ON_MUTEX else PendOn (OSTCBs s t))"
      "\<forall>t. t \<noteq> c \<longrightarrow> TaskState (OSTCBs s2 t) = TaskState (OSTCBs s t)"
      "\<forall>t. PendObjPtr (OSTCBs s2 t) = (if t = c then Some b else PendObjPtr (OSTCBs s t))" by blast
    have "no_cond s2 A" using M(3) s2(9) by (simp add: no_cond_def)
    from mx_keeps_mutex_ok [OF core_okD(3) [OF B] s2(5,3,4) this] have M2: "mutex_ok A s2 W'" .
    have "c \<notin> set T" using task_okD(3) [OF K U(1)] U(2) by (simp add: task_level_def timed_def)
    then have T2: "untimed s2 T" using core_okD(2) [OF B] s2(9,11) mx_keepsD(6) [OF s2(5)] by (auto simp: untimed_def)
    from mx_keeps_core [OF B s2(5,2) M2 T2] have B2: "core_ok A s2 R' W' T" using s2(10) core_okD(8) [OF B] ci by simp
    have O2: "objs_ok s2 W'"
      by (rule objs_ok_keep [OF O same_objs_mx [OF s2(5)]]) (use s2(6) ty in \<open>auto simp: avail_def split: if_splits\<close>)
    have "running s2 c" using r s2(7,8) mx_keepsD(5) [OF s2(5)] by (simp add: running_def)
    from settle [OF B2 O2 this] s2(1) show ?thesis by auto
  qed
qed

lemma mutex_post_ok:
  assumes I: "sys_ok A s" and ty: "Type (OSObjs s b) = OS_OBJ_TYPE_MUTEX"
  shows "\<exists>r s'. OSMutexPost (Some b) OS_OPT_POST_NONE ts s = Some (r, s') \<and> sys_ok A s'"
proof -
  obtain R W T c where B: "core_ok A s R W T" and O: "objs_ok s W" and r: "running s c" and u: "most_urgent s R c"
    using I unfolding sys_ok_def by blast
  note U = urgent_ready [OF B r u] and K = core_okD(1) [OF B] and M = mutex_okD [OF core_okD(3) [OF B]]
  obtain own where mi: "mutex_inv s A (mutexes s) W own" using M(1) ..
  have b: "b \<in> mutexes s" using ty by (simp add: mutexes_def)
  have o: "OS_OPT_POST_NONE \<in> {OS_OPT_POST_NONE, OS_OPT_POST_NO_SCHED}" by simp
  show ?thesis
  proof (cases "OwnerTCBPtr (OSMutexes s b) = Some c")
    case False
    then have "OSMutexPost (Some b) OS_OPT_POST_NONE ts s = Some (OS_ERR_MUTEX_NOT_OWNER, s)"
      using r ty core_okD(4,5) [OF B] by (auto simp: OSMutexPost_def running_def)
    then show ?thesis using I by blast
  next
    case w: True
    consider "OwnerNestingCtr (OSMutexes s b) > 1" | "OwnerNestingCtr (OSMutexes s b) = 1" "W b = []"
      | h E where "OwnerNestingCtr (OSMutexes s b) = 1" "W b = h # E"
      using nesting_cases [OF mi b w] by (cases "W b") auto
    then show ?thesis
    proof cases
      case 1
      note P = post_nested [OF K mi b U(2,1) w 1 o]
      from mx_frame_sys [OF B O r u unlocked_sel(6) P(2) P(3) [OF M(2)]] P(1) show ?thesis by blast
    next
      case 2
      from post_free [OF K mi b U(2,1) w 2 M(2) o, of ts] obtain s' where
        s': "OSMutexPost (Some b) OS_OPT_POST_NONE ts s = Some (OS_ERR_NONE, s')"
        "mutex_inv s' A (mutexes s) W (own(c := remove1 b (own c)))" "inherits s' A" "mx_frame s s'" by blast
      from mx_frame_sys [OF B O r u s'(4,2,3)] s'(1) show ?thesis by blast
    next
      case (3 h E)
      from post_contended_stage [OF K mi M(2,4) b U(2,1) w 3 M(5) [OF U(1)] o, of ts] obtain s6 R' T' own' where
        s6: "OSMutexPost (Some b) OS_OPT_POST_NONE ts s =
          Option.bind (sched_unless OS_OPT_POST_NONE s6) (\<lambda>s'. Some (OS_ERR_NONE, s'))"
        "kinv s6 A R' (W(b := E)) T'" "mutex_inv s6 A (mutexes s) (W(b := E)) own'" "inherits s6 A" "mx_keeps s s6"
        "set T' \<subseteq> set T" "OSPrioCur s = Prio (OSTCBs s c) \<longrightarrow> OSPrioCur s6 = Prio (OSTCBs s6 c)"
        "\<forall>t. PendOn (OSTCBs s6 t) = (if t = h then OS_TASK_PEND_ON_NOTHING else PendOn (OSTCBs s t))"
        "\<forall>t. t \<noteq> h \<longrightarrow> TaskState (OSTCBs s6 t) = TaskState (OSTCBs s t)" "h \<in> A"
        "\<forall>t. PendObjPtr (OSTCBs s6 t) = (if t = h then None else PendObjPtr (OSTCBs s t))" by blast
      have "no_cond s6 A" using M(3) s6(8) by (simp add: no_cond_def)
      from mx_keeps_mutex_ok [OF core_okD(3) [OF B] s6(5,3,4) this] have M6: "mutex_ok A s6 (W(b := E))" .
      have T6: "untimed s6 T'" using core_okD(2) [OF B] s6(6,8,11) mx_keepsD(6) [OF s6(5)] by (auto simp: untimed_def)
      have "PendOn (OSTCBs s h) = OS_TASK_PEND_ON_MUTEX" using mutex_ok_waits [OF core_okD(3) [OF B] _ ty, of h] 3(2) by simp
      then have "h \<noteq> OSIdleTaskTCB"
        using task_okD(5) [OF K s6(10)] core_okD(8) [OF B] by (auto simp: pending_def)
      then have B6: "core_ok A s6 R' (W(b := E)) T'"
        using mx_keeps_core [OF B s6(5,2) M6 T6] s6(9) core_okD(8) [OF B] by simp
      have O6: "objs_ok s6 (W(b := E))"
        by (rule objs_ok_keep [OF O same_objs_mx [OF s6(5)]]) (use 3(2) in \<open>auto split: if_splits\<close>)
      have "running s6 c" using r s6(7) mx_keepsD(5) [OF s6(5)] by (simp add: running_def)
      moreover have "sched_unless OS_OPT_POST_NONE s6 = OSSched s6" by (simp add: sched_unless_def opts)
      ultimately show ?thesis using settle [OF B6 O6] s6(1) by fastforce
    qed
  qed
qed

section \<open>Tasks and time\<close>

text \<open>An operation that ends with a call of the scheduler.\<close>

lemma becomes_settle:
  assumes B: "core_ok A s R W T" and O: "objs_ok s W" and r: "running s c" and b: "becomes a t s s1 A R1 W T"
    and p: "Prio t = Prio (OSTCBs s a)" "PendOn t = PendOn (OSTCBs s a)" "BasePrio t = BasePrio (OSTCBs s a)"
      "MutexGrpHeadPtr t = MutexGrpHeadPtr (OSTCBs s a)" "PendObjPtr t = PendObjPtr (OSTCBs s a)"
      "FlagsPend t = FlagsPend (OSTCBs s a)" "FlagsOpt t = FlagsOpt (OSTCBs s a)" and i: "a \<noteq> OSIdleTaskTCB"
  shows "\<exists>s'. OSSched s1 = Some s' \<and> sys_ok A s'"
proof -
  have C: "core_ok A s1 R1 W T"
    by (rule becomes_core [OF B b]) (use core_okD(2) [OF B] p i in \<open>auto simp: untimed_def\<close>)
  have "objs_ok s1 W" by (rule objs_ok_keep [OF O same_objs_becomes [OF b p(6,7)]]) simp
  from settle [OF C this becomes_running [OF b p(1) r]] show ?thesis .
qed

lemma suspend_ok:
  assumes I: "sys_ok A s" and a: "a \<in> A" "a \<noteq> OSIdleTaskTCB" and n: "SuspendCtr (OSTCBs s a) \<noteq> -1"
  shows "\<exists>s'. OSTaskSuspend (Some a) s = Some (OS_ERR_NONE, s') \<and> sys_ok A s'"
proof -
  obtain R W T c where B: "core_ok A s R W T" and O: "objs_ok s W" and r: "running s c" using I unfolding sys_ok_def by blast
  from OSTaskSuspend_path [OF core_okD(1) [OF B] a n core_okD(5,4,6) [OF B]] obtain s2 where
    s2: "becomes a (suspend_tcb (OSTCBs s a)) s s2 A
      (if TaskState (OSTCBs s a) = OS_TASK_STATE_RDY then rdy_del s a R else R) W T"
    "OSTaskSuspend (Some a) s = do { s' \<leftarrow> OSSched s2; Some (OS_ERR_NONE, s') }" by blast
  from becomes_settle [OF B O r s2(1) _ _ _ _ _ _ _ a(2)] s2(2) show ?thesis by (auto simp: suspend_tcb_def)
qed

lemma resume_ok:
  assumes I: "sys_ok A s" and a: "a \<in> A" and su: "suspended (TaskState (OSTCBs s a))" and n: "SuspendCtr (OSTCBs s a) > 0"
  shows "\<exists>s'. OSTaskResume (Some a) s = Some (OS_ERR_NONE, s') \<and> sys_ok A s'"
proof -
  obtain R W T c where B: "core_ok A s R W T" and O: "objs_ok s W" and r: "running s c" and u: "most_urgent s R c"
    using I unfolding sys_ok_def by blast
  have i: "a \<noteq> OSIdleTaskTCB" using su core_okD(8) [OF B] by (auto simp: suspended_def)
  have "a \<noteq> c" using su urgent_ready(2) [OF B r u] by (auto simp: task_level_def suspended_def)
  then have na: "OSTCBCurPtr s \<noteq> Some a" using r by (simp add: running_def)
  have ne: "R (Prio (OSTCBs s OSIdleTaskTCB)) \<noteq> []" using idle_ready [OF B] by auto
  from OSTaskResume_path [OF core_okD(1) [OF B] a su n na core_okD(5,4) [OF B] ne] obtain s2 where
    s2: "becomes a (resume_tcb (OSTCBs s a)) s s2 A (if resumed_ready (OSTCBs s a) then rdy_ins s a R else R) W T"
    "OSTaskResume (Some a) s = do { s' \<leftarrow> OSSched s2; Some (OS_ERR_NONE, s') }" by blast
  from becomes_settle [OF B O r s2(1) _ _ _ _ _ _ _ i] s2(2) show ?thesis by (auto simp: resume_tcb_def)
qed

lemma delay_ok:
  assumes I: "sys_ok A s" and i: "OSTCBCurPtr s \<noteq> Some OSIdleTaskTCB" and d: "dly \<noteq> 0"
  shows "\<exists>s'. OSTimeDly dly OS_OPT_TIME_DLY s = Some (OS_ERR_NONE, s') \<and> sys_ok A s'"
proof -
  obtain R W T c where B: "core_ok A s R W T" and O: "objs_ok s W" and r: "running s c" and u: "most_urgent s R c"
    using I unfolding sys_ok_def by blast
  note U = urgent_ready [OF B r u]
  have ci: "c \<noteq> OSIdleTaskTCB" using i r by (auto simp: running_def)
  then obtain q where q: "rdy_del s c R q \<noteq> []" using U(3) by blast
  have w: "dly_wait OS_OPT_TIME_DLY dly s c \<noteq> 0" using d by (simp add: dly_wait_relative)
  from OSTimeDly_path [OF core_okD(1) [OF B] U(1,2) q _ _ w] obtain s1 s2 x T' where
    x: "becomes c (dlyed_tcb OS_OPT_TIME_DLY dly s c (OSTCBs s c)) s s1 A (rdy_del s c R) W T'"
    "tick_inserted s T c (unat (dly_wait OS_OPT_TIME_DLY dly s c)) (trem s1) T'"
    "OSTimeDly dly OS_OPT_TIME_DLY s = Some (OS_ERR_NONE, s2)" "switched s1 s2" "running s2 x"
    "most_urgent s1 (rdy_del s c R) x" using d by auto
  have C: "core_ok A s1 (rdy_del s c R) W T'"
    by (rule becomes_core [OF B x(1)]) (use x(2) U(4,5) ci in \<open>auto simp: tick_inserted_def dlyed_tcb_def\<close>)
  have "objs_ok s1 W" by (rule objs_ok_keep [OF O same_objs_becomes [OF x(1)]]) (simp_all add: dlyed_tcb_def)
  from switched_sys [OF C this x(4-6)] x(3) show ?thesis by blast
qed

lemma tick_ok:
  assumes I: "sys_ok A s"
  shows "\<exists>s'. OS_CPU_SysTickHandler ts s = Some s' \<and> sys_ok A s'"
proof -
  obtain R W T c where B: "core_ok A s R W T" and O: "objs_ok s W" and r: "running s c" and u: "most_urgent s R c"
    using I unfolding sys_ok_def by blast
  have "R (Prio (OSTCBs s OSIdleTaskTCB)) \<noteq> []" using idle_ready [OF B] by auto
  then have tr: "tick_ready s A R W T"
    using core_okD [OF B] r urgent_ready(1) [OF B r u] by (auto simp: tick_ready_def untimed_def)
  let ?T = "filter (\<lambda>c. 1 < due (trem s) T c) T"
  from SysTick_round [OF tr, of ts] obtain s' R' W' where s': "OS_CPU_SysTickHandler ts s = Some s'"
    "tick_ready s' A R' W' ?T" "\<forall>c. TaskState (OSTCBs s' c) =
      (if c \<in> set T \<and> due (trem s) T c \<le> 1 then wake (TaskState (OSTCBs s c)) else TaskState (OSTCBs s c))"
    "OSSems s' = OSSems s" "\<forall>b. Type (OSObjs s' b) = Type (OSObjs s b)"
    "OSSchedLockNestingCtr s' = OSSchedLockNestingCtr s" "\<forall>b. set (W' b) \<subseteq> set (W b)"
    "OSSchedLockNestingCtr s = 0 \<longrightarrow> (\<exists>x. running s' x \<and> most_urgent s' R' x)" "waits_over (set T) s s'" by blast
  have "\<forall>c\<in>set T. PendOn (OSTCBs s c) \<noteq> OS_TASK_PEND_ON_MUTEX" using core_okD(2) [OF B] by (simp add: untimed_def)
  then have sm: "same_mutexes A s s'" by (rule same_mutexes_tick [OF core_okD(1,3) [OF B] s'(9) _ s'(5)])
  have K': "kinv s' A R' W' ?T" using s'(2) by (simp add: tick_ready_def)
  have mok: "mutex_ok A s' W'" by (rule mutex_ok_frame [OF core_okD(1) [OF B] K' core_okD(3) [OF B] sm])
  have "untimed s' ?T" unfolding untimed_def
  proof
    fix a assume "a \<in> set ?T"
    then have "a \<in> set T" by simp
    then have "PendOn (OSTCBs s a) \<noteq> OS_TASK_PEND_ON_MUTEX"
      "\<And>b. PendObjPtr (OSTCBs s a) = Some b \<Longrightarrow> Type (OSObjs s b) \<noteq> OS_OBJ_TYPE_FLAG"
      using core_okD(2) [OF B] by (auto simp: untimed_def)
    then show "PendOn (OSTCBs s' a) \<noteq> OS_TASK_PEND_ON_MUTEX \<and>
        (\<forall>b. PendObjPtr (OSTCBs s' a) = Some b \<longrightarrow> Type (OSObjs s' b) \<noteq> OS_OBJ_TYPE_FLAG)"
      using s'(5) s'(9) [unfolded waits_over_def, THEN conjunct2, THEN conjunct2, THEN conjunct2, THEN conjunct2,
        THEN conjunct2, rule_format, of a] by auto
  qed
  moreover have "OSIdleTaskTCB \<notin> set T"
    using task_okD(3) [OF core_okD(1,7) [OF B]] core_okD(8) [OF B] by (simp add: timed_def)
  ultimately have C: "core_ok A s' R' W' ?T" using s'(2,3,6) core_okD(6-8) [OF B] mok K'
    by (auto simp: core_ok_def tick_ready_def)
  have so: "same_objs s s'" using s'(4,5,9) by (simp add: same_objs_def waits_over_def)
  have "objs_ok s' W'" by (rule objs_ok_keep [OF O so]) (use s'(7) in blast)
  then show ?thesis using s'(1,8) core_okD(6) [OF B] sys_okI [OF C] by blast
qed

section \<open>Aborting waits\<close>

lemma ends_wait_aborted: "ends_wait (aborted_tcb r ts)"
  by (simp add: ends_wait_def aborted_tcb_def)

definition abort_opts :: "OS_OPT set" where
  "abort_opts = {OS_OPT_PEND_ABORT_1, OS_OPT_PEND_ABORT_ALL}"

lemma abort_opts: "opt \<in> abort_opts \<Longrightarrow> opt AND OS_OPT_POST_NO_SCHED = 0"
  by (auto simp: abort_opts_def opts)

lemma abort_sys:
  assumes B: "core_ok A s R W T" and O: "objs_ok s W" and r: "running s c"
    and b: "W b = a # E" "Type (OSObjs s b) \<noteq> OS_OBJ_TYPE_MUTEX"
  shows "\<exists>n s1 s'. abort_loop (Some b) opt ts 0 s = Some (n, s1) \<and> OSSched s1 = Some s' \<and> sys_ok A s'"
proof -
  have "\<exists>n s1 F. abort_loop (Some b) opt ts 0 s = Some (n, s1) \<and> set F \<subseteq> set (W b) \<and>
      released (aborted_tcb OS_STATUS_PEND_ABORT ts) s s1 A R W T F"
  proof (cases "opt = OS_OPT_PEND_ABORT_ALL")
    case True
    from abort_loop_all [OF core_okD(1) [OF B] b(1), of ts 0] True show ?thesis unfolding b(1) by blast
  next
    case False
    have "set [a] \<subseteq> set (W b)" using b(1) by simp
    with abort_loop_one [OF core_okD(1) [OF B] b(1) False, of ts 0] show ?thesis by blast
  qed
  then obtain n s1 F where p: "abort_loop (Some b) opt ts 0 s = Some (n, s1)" "set F \<subseteq> set (W b)"
    "released (aborted_tcb OS_STATUS_PEND_ABORT ts) s s1 A R W T F" by blast
  from woken_sys [OF B O r ends_wait_aborted p(2) b(2) p(3)] p(1) show ?thesis by blast
qed

lemma pend_abort_ok:
  assumes I: "sys_ok A s" and o: "opt \<in> abort_opts"
  shows "Type (OSObjs s b) = OS_OBJ_TYPE_SEM \<Longrightarrow> \<exists>n err s'. OSSemPendAbort (Some b) opt ts s = Some (n, err, s') \<and> sys_ok A s'"
    "Type (OSObjs s b) = OS_OBJ_TYPE_Q \<Longrightarrow> \<exists>n err s'. OSQPendAbort (Some b) opt ts s = Some (n, err, s') \<and> sys_ok A s'"
    "Type (OSObjs s b) = OS_OBJ_TYPE_FLAG \<Longrightarrow> \<exists>n err s'. OSFlagPendAbort (Some b) opt ts s = Some (n, err, s') \<and> sys_ok A s'"
proof -
  obtain R W T c where B: "core_ok A s R W T" and O: "objs_ok s W" and r: "running s c"
    using I unfolding sys_ok_def by blast
  have g: "OSRunning s = OS_STATE_OS_RUNNING" "OSIntNestingCtr s = 0" by (rule core_okD [OF B])+
  have h: "PL_HeadPtr (PendList (OSObjs s b)) = hdo (W b)" by (rule pend_head [OF core_okD(1) [OF B]])
  have op: "opt \<in> {OS_OPT_PEND_ABORT_1, OS_OPT_PEND_ABORT_ALL, OS_OPT_PEND_ABORT_1 OR OS_OPT_POST_NO_SCHED,
      OS_OPT_PEND_ABORT_ALL OR OS_OPT_POST_NO_SCHED}" "opt AND OS_OPT_POST_NO_SCHED = 0"
    using o abort_opts [OF o] by (auto simp: abort_opts_def)
  have a: "W b = [] \<or> (\<exists>n s1 s'. hdo (W b) \<noteq> None \<and> abort_loop (Some b) opt ts 0 s = Some (n, s1) \<and>
      OSSched s1 = Some s' \<and> sys_ok A s')" if "Type (OSObjs s b) \<noteq> OS_OBJ_TYPE_MUTEX"
    using abort_sys [OF B O r _ that, of _ _ opt ts] by (cases "W b") auto
  show "\<exists>n err s'. OSSemPendAbort (Some b) opt ts s = Some (n, err, s') \<and> sys_ok A s'" if ty: "Type (OSObjs s b) = OS_OBJ_TYPE_SEM"
    using a ty I g h op by (auto simp: OSSemPendAbort_def)
  show "\<exists>n err s'. OSQPendAbort (Some b) opt ts s = Some (n, err, s') \<and> sys_ok A s'" if ty: "Type (OSObjs s b) = OS_OBJ_TYPE_Q"
    using a ty I g h op by (auto simp: OSQPendAbort_def)
  show "\<exists>n err s'. OSFlagPendAbort (Some b) opt ts s = Some (n, err, s') \<and> sys_ok A s'" if ty: "Type (OSObjs s b) = OS_OBJ_TYPE_FLAG"
    using a ty I g h op by (auto simp: OSFlagPendAbort_def)
qed

end
