(* ===== verification/Kernel_Steps.thy ===== *)
theory Kernel_Steps
  imports Sys_Ops
begin

text \<open>
  The kernel as a transition system: the running task waits for, posts or aborts the waits for semaphores, message
  queues and event flags, locks and unlocks mutexes, delays itself, suspends and resumes tasks, and the tick interrupt
  comes at any time. The scheduler is not locked and no interrupt nests. By rule induction every reachable state
  satisfies the invariant of \<open>Sys_Inv\<close>.
\<close>

section \<open>Steps\<close>

datatype event =
    SemPend nat u32 | SemPost nat OS_OPT u32 | SemPendAbort nat OS_OPT u32
  | MutexPend nat | MutexPost nat u32
  | QPend nat u32 nat | QPost nat ptr u16 OS_OPT u32 | QPendAbort nat OS_OPT u32
  | FlagPend nat u32 OS_OPT | FlagPost nat u32 OS_OPT u32 | FlagPendAbort nat OS_OPT u32
  | TimeDly u32 | TaskSuspend nat | TaskResume nat | Tick "nat \<Rightarrow> u32"

text \<open>The calls that may be made in a state: the idle task does not block and is not suspended, no task waits for a mutex
  or for flags with a time-out, the waiting for flags does not consume them, waits for mutexes are not aborted, and
  posts and aborts reschedule (no \<open>OS_OPT_POST_NO_SCHED\<close>). No task changes a priority, and no task or object is created
  or deleted.\<close>

fun allowed :: "nat set \<Rightarrow> event \<Rightarrow> kernel \<Rightarrow> bool" where
  "allowed A (SemPend b timeout) s \<longleftrightarrow> OSTCBCurPtr s \<noteq> Some OSIdleTaskTCB \<and> Type (OSObjs s b) = OS_OBJ_TYPE_SEM"
| "allowed A (SemPost b opt ts) s \<longleftrightarrow> Type (OSObjs s b) = OS_OBJ_TYPE_SEM \<and> opt \<in> {OS_OPT_POST_1, OS_OPT_POST_ALL}"
| "allowed A (SemPendAbort b opt ts) s \<longleftrightarrow> Type (OSObjs s b) = OS_OBJ_TYPE_SEM \<and> opt \<in> abort_opts"
| "allowed A (MutexPend b) s \<longleftrightarrow> OSTCBCurPtr s \<noteq> Some OSIdleTaskTCB \<and> Type (OSObjs s b) = OS_OBJ_TYPE_MUTEX \<and>
    OwnerNestingCtr (OSMutexes s b) \<noteq> -1"
| "allowed A (MutexPost b ts) s \<longleftrightarrow> Type (OSObjs s b) = OS_OBJ_TYPE_MUTEX"
| "allowed A (QPend b timeout sz) s \<longleftrightarrow> OSTCBCurPtr s \<noteq> Some OSIdleTaskTCB \<and> Type (OSObjs s b) = OS_OBJ_TYPE_Q"
| "allowed A (QPost b p z opt ts) s \<longleftrightarrow> Type (OSObjs s b) = OS_OBJ_TYPE_Q \<and> opt \<in> q_wake_opts"
| "allowed A (QPendAbort b opt ts) s \<longleftrightarrow> Type (OSObjs s b) = OS_OBJ_TYPE_Q \<and> opt \<in> abort_opts"
| "allowed A (FlagPend b flags opt) s \<longleftrightarrow> OSTCBCurPtr s \<noteq> Some OSIdleTaskTCB \<and> Type (OSObjs s b) = OS_OBJ_TYPE_FLAG \<and>
    opt \<in> flag_modes"
| "allowed A (FlagPost b flags opt ts) s \<longleftrightarrow> Type (OSObjs s b) = OS_OBJ_TYPE_FLAG \<and>
    opt \<in> {OS_OPT_POST_FLAG_SET, OS_OPT_POST_FLAG_CLR}"
| "allowed A (FlagPendAbort b opt ts) s \<longleftrightarrow> Type (OSObjs s b) = OS_OBJ_TYPE_FLAG \<and> opt \<in> abort_opts"
| "allowed A (TimeDly dly) s \<longleftrightarrow> OSTCBCurPtr s \<noteq> Some OSIdleTaskTCB \<and> dly \<noteq> 0"
| "allowed A (TaskSuspend a) s \<longleftrightarrow> a \<in> A \<and> a \<noteq> OSIdleTaskTCB \<and> SuspendCtr (OSTCBs s a) \<noteq> -1"
| "allowed A (TaskResume a) s \<longleftrightarrow> a \<in> A \<and> suspended (TaskState (OSTCBs s a)) \<and> SuspendCtr (OSTCBs s a) > 0"
| "allowed A (Tick ts) s \<longleftrightarrow> True"

text \<open>What the call or the interrupt does, without the value it returns.\<close>

fun perform :: "event \<Rightarrow> kernel \<Rightarrow> kernel option" where
  "perform (SemPend b timeout) s = do { (_, s) \<leftarrow> OSSemPend (Some b) timeout OS_OPT_PEND_BLOCKING s; Some s }"
| "perform (SemPost b opt ts) s = do { (_, _, s) \<leftarrow> OSSemPost (Some b) opt ts s; Some s }"
| "perform (SemPendAbort b opt ts) s = do { (_, _, s) \<leftarrow> OSSemPendAbort (Some b) opt ts s; Some s }"
| "perform (MutexPend b) s = do { (_, s) \<leftarrow> OSMutexPend (Some b) 0 OS_OPT_PEND_BLOCKING s; Some s }"
| "perform (MutexPost b ts) s = do { (_, s) \<leftarrow> OSMutexPost (Some b) OS_OPT_POST_NONE ts s; Some s }"
| "perform (QPend b timeout sz) s = do { (_, s) \<leftarrow> OSQPend (Some b) timeout OS_OPT_PEND_BLOCKING (Some sz) s; Some s }"
| "perform (QPost b p z opt ts) s = do { (_, s) \<leftarrow> OSQPost (Some b) p z opt ts s; Some s }"
| "perform (QPendAbort b opt ts) s = do { (_, _, s) \<leftarrow> OSQPendAbort (Some b) opt ts s; Some s }"
| "perform (FlagPend b flags opt) s = do { (_, s) \<leftarrow> OSFlagPend (Some b) flags 0 opt s; Some s }"
| "perform (FlagPost b flags opt ts) s = do { (_, _, s) \<leftarrow> OSFlagPost (Some b) flags opt ts s; Some s }"
| "perform (FlagPendAbort b opt ts) s = do { (_, _, s) \<leftarrow> OSFlagPendAbort (Some b) opt ts s; Some s }"
| "perform (TimeDly dly) s = do { (_, s) \<leftarrow> OSTimeDly dly OS_OPT_TIME_DLY s; Some s }"
| "perform (TaskSuspend a) s = do { (_, s) \<leftarrow> OSTaskSuspend (Some a) s; Some s }"
| "perform (TaskResume a) s = do { (_, s) \<leftarrow> OSTaskResume (Some a) s; Some s }"
| "perform (Tick ts) s = OS_CPU_SysTickHandler ts s"

inductive kstep :: "nat set \<Rightarrow> kernel \<Rightarrow> event \<Rightarrow> kernel \<Rightarrow> bool" for A where
  kstepI: "allowed A ev s \<Longrightarrow> perform ev s = Some s' \<Longrightarrow> kstep A s ev s'"

inductive_cases kstep_cases: "kstep A s ev s'"

text \<open>The states that a run from \<open>s0\<close> reaches.\<close>

inductive reach :: "nat set \<Rightarrow> kernel \<Rightarrow> kernel \<Rightarrow> bool" for A s0 where
  start: "reach A s0 s0"
| more: "reach A s0 s \<Longrightarrow> kstep A s ev s' \<Longrightarrow> reach A s0 s'"

section \<open>Reachable states\<close>

lemma perform_ok:
  assumes I: "sys_ok A s" and a: "allowed A ev s"
  shows "\<exists>s'. perform ev s = Some s' \<and> sys_ok A s'"
proof (cases ev)
  case (SemPend b timeout)
  then show ?thesis using sem_pend_ok [OF I, of b timeout] a by auto
next
  case (SemPost b opt ts)
  then show ?thesis using sem_post_ok [OF I, of b opt ts] a by fastforce
next
  case (SemPendAbort b opt ts)
  then show ?thesis using pend_abort_ok(1) [OF I, of opt b ts] a by fastforce
next
  case (MutexPend b)
  then show ?thesis using mutex_pend_ok [OF I, of b] a by auto
next
  case (MutexPost b ts)
  then show ?thesis using mutex_post_ok [OF I, of b ts] a by auto
next
  case (QPend b timeout sz)
  then show ?thesis using q_pend_ok [OF I, of b timeout sz] a by auto
next
  case (QPost b p z opt ts)
  then show ?thesis using q_post_ok [OF I, of b opt p z ts] a by auto
next
  case (QPendAbort b opt ts)
  then show ?thesis using pend_abort_ok(2) [OF I, of opt b ts] a by fastforce
next
  case (FlagPend b flags opt)
  then show ?thesis using flag_pend_ok [OF I, of b opt flags] a by auto
next
  case (FlagPost b flags opt ts)
  then show ?thesis using flag_post_ok [OF I, of b opt flags ts] a by fastforce
next
  case (FlagPendAbort b opt ts)
  then show ?thesis using pend_abort_ok(3) [OF I, of opt b ts] a by fastforce
next
  case (TimeDly d)
  then show ?thesis using delay_ok [OF I, of d] a by auto
next
  case (TaskSuspend a')
  then show ?thesis using suspend_ok [OF I, of a'] a by auto
next
  case (TaskResume a')
  then show ?thesis using resume_ok [OF I, of a'] a by auto
next
  case (Tick ts)
  then show ?thesis using tick_ok [OF I, of ts] by auto
qed

lemma kstep_total: "sys_ok A s \<Longrightarrow> allowed A ev s \<Longrightarrow> \<exists>s'. kstep A s ev s'"
  using perform_ok kstepI by blast

lemma kstep_keeps: "kstep A s ev s' \<Longrightarrow> sys_ok A s \<Longrightarrow> sys_ok A s'"
  by (erule kstep_cases) (use perform_ok in fastforce)

lemma reach_ok: "reach A s0 s \<Longrightarrow> sys_ok A s0 \<Longrightarrow> sys_ok A s"
  by (induction rule: reach.induct) (auto intro: kstep_keeps)

section \<open>Properties\<close>

text \<open>C3: In every state that the system reaches by calls of the running tasks and tick interrupts, in any order,
  the task that runs is ready and no ready task is more urgent, and the ready, pend and tick lists agree with the task
  control blocks. (The calls are those of the type \<open>event\<close> under the conditions of \<open>allowed\<close>; posts and aborts
  reschedule, as they do without \<open>OS_OPT_POST_NO_SCHED\<close>, and the scheduler is not locked.)\<close>

theorem reachable_runs_most_urgent:
  assumes "sys_ok A s0" and "reach A s0 s"
  shows "\<exists>R W T c. kinv s A R W T \<and> OSTCBCurPtr s = Some c \<and> c \<in> A \<and> TaskState (OSTCBs s c) = OS_TASK_STATE_RDY \<and>
    (\<forall>a\<in>A. TaskState (OSTCBs s a) = OS_TASK_STATE_RDY \<longrightarrow> Prio (OSTCBs s c) \<le> Prio (OSTCBs s a))"
proof -
  obtain R W T c where B: "core_ok A s R W T" and r: "running s c" and u: "most_urgent s R c"
    using reach_ok [OF assms(2,1)] unfolding sys_ok_def by blast
  note U = urgent_ready [OF B r u] and K = core_okD(1) [OF B]
  have "Prio (OSTCBs s c) \<le> Prio (OSTCBs s a)" if "a \<in> A" "TaskState (OSTCBs s a) = OS_TASK_STATE_RDY" for a
    by (rule urgent_le [OF K u that])
  then show ?thesis using K U(1,2) by (auto simp: task_level_def)
qed

lemma demo_msgs: "msgs_ok demo"
proof -
  have q: "queues demo = {30, 31}" by (auto simp: queues_def demo_def demo_obj_def Let_def)
  have "mq_rel (OSQs demo 31, demo) [] 4" by (rule demo_mq)
  then obtain fs where fs: "pool_list demo fs" "length fs = 4" by (auto elim!: mq_relE)
  have "msgq_list demo (OSQs demo b) []" for b by (simp add: msgq_list_def demo_def)
  then have "msgs_rel demo (\<lambda>_. []) fs (set fs)"
    using fs card_length [of fs] by (simp add: msgs_rel_def)
  then show ?thesis unfolding msgs_ok_def by blast
qed

lemma demo_sys_ok: "sys_ok demo_A demo"
proof -
  have "mutexes demo = {20, 21}" by (auto simp: mutexes_def demo_def demo_obj_def Let_def)
  then have "mutex_ok demo_A demo demo_W"
    using demo_mutex demo_inherits demo_finite demo_no_cond(1) unfolding mutex_ok_def
    by (intro conjI) (auto simp: demo_A_def demo_def demo_tcb_def blank_tcb_def OS_CFG_PRIO_MAX_def)
  moreover have "untimed demo demo_T" by (auto simp: untimed_def demo_defs)
  moreover have "OSIdleTaskTCB \<in> demo_A" "TaskState (OSTCBs demo OSIdleTaskTCB) = OS_TASK_STATE_RDY"
    by (simp_all add: demo_A_def OSIdleTaskTCB_def demo_defs)
  ultimately have C: "core_ok demo_A demo demo_R demo_W demo_T"
    using demo_kinv by (simp add: core_ok_def) (simp add: demo_def)
  have "flags_ok demo demo_W" using demo_flags(1) unfolding flags_ok_def
    by (auto simp: flag_inv_def waits_ok_def waits_on_def demo_def demo_obj_def Let_def split: if_splits)
  then have "objs_ok demo demo_W" using demo_msgs by (auto simp: objs_ok_def avail_def demo_def demo_W_def demo_obj_def Let_def)
  moreover have "most_urgent demo demo_R 1" by (auto simp: most_urgent_def demo_defs split: if_splits)
  ultimately show ?thesis using sys_okI [OF C] demo_running by blast
qed

lemma demo_post: "\<exists>s. reach demo_A demo s \<and> kstep demo_A demo (SemPost 10 OS_OPT_POST_1 7) s"
proof -
  have "allowed demo_A (SemPost 10 OS_OPT_POST_1 7) demo" by (simp add: demo_def demo_obj_def)
  from kstep_total [OF demo_sys_ok this] show ?thesis by (blast intro: reach.intros)
qed

lemma reachable_runs_most_urgent_witness:
  "\<exists>s c. kstep demo_A demo (SemPost 10 OS_OPT_POST_1 7) s \<and> OSTCBCurPtr s = Some c \<and>
    TaskState (OSTCBs s c) = OS_TASK_STATE_RDY"
  using demo_post reachable_runs_most_urgent [OF demo_sys_ok] by blast



text \<open>C7: In the runs of \<open>Kernel_Steps\<close> no wake-up is lost: in every reachable state no task waits for a semaphore that
  has a token, for a queue that has a message, for a mutex that has no owner, or for event flags that are there. The
  runs mix the waits, posts and aborts for semaphores, queues and flags, locks and unlocks of mutexes, delays,
  suspensions and tick interrupts in any order, with time-outs for semaphores and queues. They leave out waits that
  consume flags (to consume cleared flags is to set them, which wakes no task that waits for them to be set), waits
  for flags and mutexes with a time-out, the abort of waits for mutexes, posts with \<open>OS_OPT_POST_NO_SCHED\<close>, the change
  of priorities by a task, and the creation and deletion of tasks and objects.\<close>

theorem reachable_no_lost_wakeup:
  assumes "sys_ok A s0" and "reach A s0 s" and "a \<in> A" and "PendObjPtr (OSTCBs s a) = Some b"
  shows "(Type (OSObjs s b) = OS_OBJ_TYPE_SEM \<longrightarrow> Ctr (OSSems s b) = 0) \<and>
    (Type (OSObjs s b) = OS_OBJ_TYPE_Q \<longrightarrow> MQ_NbrEntries (OSQs s b) = 0) \<and>
    (Type (OSObjs s b) = OS_OBJ_TYPE_MUTEX \<longrightarrow> (\<exists>t\<in>A. OwnerTCBPtr (OSMutexes s b) = Some t)) \<and>
    (Type (OSObjs s b) = OS_OBJ_TYPE_FLAG \<longrightarrow> \<not> wakes (Flags (OSFlagGrps s b)) (OSTCBs s a))"
proof -
  obtain R W T where B: "core_ok A s R W T" and O: "objs_ok s W" using reach_ok [OF assms(2,1)] unfolding sys_ok_def by blast
  note K = core_okD(1) [OF B]
  have a: "a \<in> set (W b)" using task_okD(4) [OF K assms(3)] assms(4) by simp
  then have "\<not> avail s b" using objs_okD(1) [OF O, of b] by auto
  moreover have "waits_on s b (OSTCBs s a)" if "Type (OSObjs s b) = OS_OBJ_TYPE_FLAG" by (rule objs_okD(4) [OF O that a])
  moreover have "\<exists>t\<in>A. OwnerTCBPtr (OSMutexes s b) = Some t" if ty: "Type (OSObjs s b) = OS_OBJ_TYPE_MUTEX"
  proof -
    obtain own where own: "mutex_inv s A (mutexes s) W own" using mutex_okD(1) [OF core_okD(3) [OF B]] ..
    have "PendOn (OSTCBs s a) = OS_TASK_PEND_ON_MUTEX" by (rule mutex_ok_waits [OF core_okD(3) [OF B] a ty])
    then show ?thesis using mutex_inv_owned [OF K own] assms(3,4) by (auto simp: owned_def)
  qed
  ultimately show ?thesis by (auto simp: avail_def waits_on_def word_gt_0)
qed

lemma reachable_no_lost_wakeup_witness: "Ctr (OSSems demo 10) = 0 \<and> (\<exists>t\<in>demo_A. OwnerTCBPtr (OSMutexes demo 20) = Some t)"
proof -
  have "(3 :: nat) \<in> demo_A" "PendObjPtr (OSTCBs demo 3) = Some 10" "(6 :: nat) \<in> demo_A" "PendObjPtr (OSTCBs demo 6) = Some 20"
    "Type (OSObjs demo 10) = OS_OBJ_TYPE_SEM" "Type (OSObjs demo 20) = OS_OBJ_TYPE_MUTEX"
    by (simp_all add: demo_A_def demo_def demo_tcb_def blank_tcb_def demo_obj_def Let_def)
  then show ?thesis
    using reachable_no_lost_wakeup [OF demo_sys_ok reach.start, of 3 10] reachable_no_lost_wakeup [OF demo_sys_ok reach.start, of 6 20]
    by simp
qed

text \<open>C6: In the runs of \<open>Kernel_Steps\<close> priority inheritance is exact in every reachable state: each task has the
  highest of its base priority and of the priorities of the tasks that wait for a mutex it owns, however locks were
  taken, given back, nested or handed over and mixed with waits for other objects, delays, suspensions and tick
  interrupts. The runs leave out waits for mutexes with a time-out, the abort of waits for mutexes, the change of
  priorities by a task and the deletion of tasks and mutexes: there \<open>OS_TaskChangePrio\<close> can lower the priority of an
  owner that had inherited nothing (\<open>OS_TaskChangePrio_lowers_owner\<close>).\<close>

theorem reachable_inherits_exactly:
  assumes "sys_ok A s0" and "reach A s0 s" and "t \<in> A"
  shows "Prio (OSTCBs s t) =
    Min (insert (BasePrio (OSTCBs s t)) {p. \<exists>a\<in>A. waits_for s a t \<and> p = Prio (OSTCBs s a)})"
proof -
  obtain R W T where "core_ok A s R W T" using reach_ok [OF assms(2,1)] unfolding sys_ok_def by blast
  from mutex_okD(2) [OF core_okD(3) [OF this]] assms(3) show ?thesis unfolding inherits_def by (rule bspec)
qed

lemma demo_lock: "\<exists>s. reach demo_A demo s \<and> kstep demo_A demo (MutexPost 20 7) s"
proof -
  have "allowed demo_A (MutexPost 20 7) demo" by (simp add: demo_def demo_obj_def)
  from kstep_total [OF demo_sys_ok this] show ?thesis by (blast intro: reach.intros)
qed

lemma reachable_inherits_exactly_witness:
  "\<exists>s. kstep demo_A demo (MutexPost 20 7) s \<and> Prio (OSTCBs s 6) =
    Min (insert (BasePrio (OSTCBs s 6)) {p. \<exists>a\<in>demo_A. waits_for s a 6 \<and> p = Prio (OSTCBs s a)})"
proof -
  have "(6 :: nat) \<in> demo_A" by (simp add: demo_A_def)
  with demo_lock reachable_inherits_exactly [OF demo_sys_ok] show ?thesis by blast
qed

text \<open>C5: In the runs of \<open>Kernel_Steps\<close> there is no unbounded priority inversion: if a task waits for a mutex, the
  owner of which waits for a mutex, and so on up to a task that is ready, then no task of a lower priority than the first
  one runs. In these runs the waits for mutexes have no time-out and are not aborted, no task changes a priority, no
  task or mutex is created or deleted, posts and aborts reschedule, and the scheduler is not locked. Without these restrictions the code does not guarantee it: a time-out lowers the priority of
  an owner, and \<open>OS_TaskChangePrio\<close> then lowers that of the next, more urgent one
  (\<open>OS_TaskChangePrio_lowers_owner\<close>).\<close>

theorem reachable_bounded_inversion:
  assumes "sys_ok A s0" and "reach A s0 s" and "(a, t) \<in> {(x, y). x \<in> A \<and> waits_for s x y}\<^sup>+"
    and "TaskState (OSTCBs s t) = OS_TASK_STATE_RDY"
  shows "\<exists>c. OSTCBCurPtr s = Some c \<and> Prio (OSTCBs s c) \<le> Prio (OSTCBs s a)"
proof -
  obtain R W T c where B: "core_ok A s R W T" and r: "running s c" and u: "most_urgent s R c"
    using reach_ok [OF assms(2,1)] unfolding sys_ok_def by blast
  note K = core_okD(1) [OF B] and M = mutex_okD [OF core_okD(3) [OF B]]
  obtain own where "mutex_inv s A (mutexes s) W own" using M(1) ..
  from mutex_inv_owned [OF K this] have ow: "owned s A" .
  have un: "uninverted s A" by (rule inherits_uninverted [OF M(4,2) waits_for_A [OF ow]])
  have "t \<in> A \<and> Prio (OSTCBs s t) \<le> Prio (OSTCBs s a)" using assms(3)
  proof induction
    case (base y)
    then show ?case using un waits_for_A [OF ow] by (auto simp: uninverted_def)
  next
    case (step y z)
    then show ?case using un waits_for_A [OF ow] by (fastforce simp: uninverted_def)
  qed
  then show ?thesis using urgent_le [OF K u _ assms(4)] r by (force simp: running_def)
qed

lemma reachable_bounded_inversion_witness: "\<exists>c. OSTCBCurPtr demo = Some c \<and> Prio (OSTCBs demo c) \<le> Prio (OSTCBs demo 6)"
proof -
  have "waits_for demo 6 1" "(6 :: nat) \<in> demo_A" "TaskState (OSTCBs demo 1) = OS_TASK_STATE_RDY"
    by (simp_all add: demo_waits demo_A_def) (simp add: demo_def demo_tcb_def blank_tcb_def)
  then show ?thesis by (intro reachable_bounded_inversion [OF demo_sys_ok reach.start, of 6 1]) auto
qed

end
