(* ===== verification/Os_Init.thy ===== *)
theory Os_Init
  imports Os_Tmr Os_Mem
begin

text \<open>
  The start of the kernel: \<open>OSInit\<close> of \<open>os_core.c\<close> with the idle task (\<open>OS_IdleTaskInit\<close>) and the statistics
  task (\<open>OS_StatTaskInit\<close> of \<open>os_stat.c\<close>) at the sizes and priorities of \<open>os_cfg_app.c\<close>, and \<open>App_Start\<close> of
  \<open>app.c\<close>, which initialises the kernel, creates the start task and starts multitasking. The hook pointers,
  which stay null, the port's \<open>OSInitHook\<close> and the counters of the statistics task are not part of the state.
\<close>

section \<open>Configuration\<close>

abbreviation OS_ERR_STAT_PRIO_INVALID :: OS_ERR where "OS_ERR_STAT_PRIO_INVALID \<equiv> Os_Err 28202"
abbreviation OS_ERR_STAT_STK_INVALID :: OS_ERR where "OS_ERR_STAT_STK_INVALID \<equiv> Os_Err 28203"
abbreviation OS_ERR_STAT_STK_SIZE_INVALID :: OS_ERR where "OS_ERR_STAT_STK_SIZE_INVALID \<equiv> Os_Err 28204"
definition OS_OPT_TASK_NO_TLS :: OS_OPT where [opts]: "OS_OPT_TASK_NO_TLS = 0x0008"

definition OSStatTaskTCB :: nat where "OSStatTaskTCB = 1010"
definition App_StartTaskTCB :: nat where "App_StartTaskTCB = 1020"

definition OS_CFG_TASK_STK_LIMIT_PCT_EMPTY :: u32 where "OS_CFG_TASK_STK_LIMIT_PCT_EMPTY = 10"
definition OSCfg_ISRStkSize :: u32 where "OSCfg_ISRStkSize = 512"
definition OSCfg_MsgPoolSize :: u16 where "OSCfg_MsgPoolSize = 32"
definition OSCfg_IdleTaskStkSize :: u32 where "OSCfg_IdleTaskStkSize = 128"
definition OSCfg_IdleTaskStkLimit :: u32 where
  "OSCfg_IdleTaskStkLimit = OSCfg_IdleTaskStkSize * OS_CFG_TASK_STK_LIMIT_PCT_EMPTY div 100"
definition OSCfg_StatTaskPrio :: u8 where "OSCfg_StatTaskPrio = of_nat (OS_CFG_PRIO_MAX - 2)"
definition OSCfg_StatTaskStkSize :: u32 where "OSCfg_StatTaskStkSize = 256"
definition OSCfg_StatTaskStkLimit :: u32 where
  "OSCfg_StatTaskStkLimit = OSCfg_StatTaskStkSize * OS_CFG_TASK_STK_LIMIT_PCT_EMPTY div 100"
definition APP_CFG_TASK_START_PRIO :: u8 where "APP_CFG_TASK_START_PRIO = of_nat (OS_CFG_PRIO_MAX - 4)"
definition APP_CFG_TASK_START_STK_SIZE :: u32 where "APP_CFG_TASK_START_STK_SIZE = 512"

text \<open>The addresses the linker gives to the functions and arrays of the kernel and the application.\<close>

record os_image =
  img_OS_TaskReturn :: u32
  img_OS_IdleTask :: u32
  img_OS_StatTask :: u32
  img_OS_TmrTask :: u32
  img_App_StartTask :: u32
  OSCfg_ISRStk :: u32
  OSCfg_IdleTaskStk :: u32
  OSCfg_StatTaskStk :: u32
  OSCfg_TmrTaskStk :: u32
  App_StartTaskStk :: u32
  OSCfg_MsgPool :: nat

section \<open>The tasks of the kernel\<close>

definition idle_args :: "os_image \<Rightarrow> task_args" where
  "idle_args im = \<lparr>ta_name = ''uC/OS-III Idle Task'', ta_task = img_OS_IdleTask im, ta_arg = 0,
     ta_prio = of_nat (OS_CFG_PRIO_MAX - 1), ta_stk_base = OSCfg_IdleTaskStk im, ta_stk_limit = OSCfg_IdleTaskStkLimit,
     ta_stk_size = OSCfg_IdleTaskStkSize, ta_q_size = 0, ta_time_quanta = 0, ta_ext = None,
     ta_opt = OS_OPT_TASK_STK_CHK OR (OS_OPT_TASK_STK_CLR OR OS_OPT_TASK_NO_TLS)\<rparr>"

definition OS_IdleTaskInit :: "os_image \<Rightarrow> kernel \<Rightarrow> (OS_ERR \<times> kernel) option" where
  "OS_IdleTaskInit im s = OSTaskCreate (img_OS_TaskReturn im) (Some OSIdleTaskTCB) (idle_args im) s"

definition stat_args :: "os_image \<Rightarrow> task_args" where
  "stat_args im = \<lparr>ta_name = ''uC/OS-III Stat Task'', ta_task = img_OS_StatTask im, ta_arg = 0,
     ta_prio = OSCfg_StatTaskPrio, ta_stk_base = OSCfg_StatTaskStk im, ta_stk_limit = OSCfg_StatTaskStkLimit,
     ta_stk_size = OSCfg_StatTaskStkSize, ta_q_size = 0, ta_time_quanta = 0, ta_ext = None,
     ta_opt = OS_OPT_TASK_STK_CHK OR OS_OPT_TASK_STK_CLR\<rparr>"

definition OS_StatTaskInit :: "os_image \<Rightarrow> kernel \<Rightarrow> (OS_ERR \<times> kernel) option" where
  "OS_StatTaskInit im s =
     (if OSCfg_StatTaskStk im = 0 then Some (OS_ERR_STAT_STK_INVALID, s)
      else if OSCfg_StatTaskStkSize < OSCfg_StkSizeMin then Some (OS_ERR_STAT_STK_SIZE_INVALID, s)
      else if OSCfg_StatTaskPrio \<ge> of_nat (OS_CFG_PRIO_MAX - 1) then Some (OS_ERR_STAT_PRIO_INVALID, s)
      else OSTaskCreate (img_OS_TaskReturn im) (Some OSStatTaskTCB) (stat_args im) s)"

section \<open>Initialisation\<close>

text \<open>The globals and the stack of the interrupts.\<close>

definition init_globals :: "os_image \<Rightarrow> kernel \<Rightarrow> kernel" where
  "init_globals im s = (let
     s = s\<lparr>OSIntNestingCtr := 0, OSRunning := OS_STATE_OS_STOPPED, OSSchedLockNestingCtr := 0, OSTCBCurPtr := None,
       OSTCBHighRdyPtr := None, OSPrioCur := 0, OSPrioHighRdy := 0, OSSchedLockTimeBegin := 0,
       OSSchedLockTimeMax := 0, OSSchedLockTimeMaxCur := 0, OSSchedRoundRobinEn := False,
       OSSchedRoundRobinDfltTimeQuanta := OSCfg_TickRate_Hz div 10\<rparr>;
     s = (if OSCfg_ISRStk im \<noteq> 0
          then s\<lparr>OSStkMem := clear_stack (OSCfg_ISRStk im) OSCfg_ISRStkSize (OSStkMem s)\<rparr> else s);
     s = s\<lparr>OSStkMem := OS_TaskStkRedzoneInit (OSCfg_ISRStk im) (OSStkMem s)\<rparr>
   in s\<lparr>OSTaskRegNextAvailID := 0\<rparr>)"

text \<open>Each step that reports an error ends the initialisation.\<close>

definition OSInit :: "os_image \<Rightarrow> kernel \<Rightarrow> (OS_ERR \<times> kernel) option" where
  "OSInit im s = do {
     let s = init_globals im s;
     let s = OS_PrioInit s;
     let s = OS_RdyListInit s;
     let s = s\<lparr>OSFlagDbgListPtr := None, OSFlagQty := 0\<rparr>;
     let (err, s) = OS_MemInit s;
     if err \<noteq> OS_ERR_NONE then Some (err, s) else do {
     let (err, s) = OS_MsgPoolInit (Some (OSCfg_MsgPool im)) OSCfg_MsgPoolSize s;
     if err \<noteq> OS_ERR_NONE then Some (err, s) else do {
     let s = s\<lparr>OSMutexDbgListPtr := None, OSMutexQty := 0\<rparr>;
     let s = s\<lparr>OSQDbgListPtr := None, OSQQty := 0\<rparr>;
     let s = s\<lparr>OSSemDbgListPtr := None, OSSemQty := 0\<rparr>;
     let (err, s) = OS_TaskInit s;
     if err \<noteq> OS_ERR_NONE then Some (err, s) else do {
     (err, s) \<leftarrow> OS_IdleTaskInit im s;
     if err \<noteq> OS_ERR_NONE then Some (err, s) else do {
     let s = OS_TickInit s;
     (err, s) \<leftarrow> OS_StatTaskInit im s;
     if err \<noteq> OS_ERR_NONE then Some (err, s) else do {
     (err, s) \<leftarrow> OS_TmrInit (img_OS_TaskReturn im) (img_OS_TmrTask im) (OSCfg_TmrTaskStk im) s;
     if err \<noteq> OS_ERR_NONE then Some (err, s)
     else Some (OS_ERR_NONE, s\<lparr>OSInitialized := True\<rparr>)
     }}}}}}"

section \<open>The application\<close>

definition start_args :: "os_image \<Rightarrow> task_args" where
  "start_args im = \<lparr>ta_name = ''App Task Start'', ta_task = img_App_StartTask im, ta_arg = 0,
     ta_prio = APP_CFG_TASK_START_PRIO, ta_stk_base = App_StartTaskStk im,
     ta_stk_limit = APP_CFG_TASK_START_STK_SIZE div 10, ta_stk_size = APP_CFG_TASK_START_STK_SIZE,
     ta_q_size = 0, ta_time_quanta = 0, ta_ext = None, ta_opt = OS_OPT_TASK_STK_CHK OR OS_OPT_TASK_STK_CLR\<rparr>"

text \<open>The tick timer is configured and left disabled before; the errors of the calls are not looked at.\<close>

definition App_Start :: "os_image \<Rightarrow> kernel \<Rightarrow> (OS_ERR \<times> kernel) option" where
  "App_Start im s = do {
     (_, s) \<leftarrow> OSInit im s;
     (_, s) \<leftarrow> OSTaskCreate (img_OS_TaskReturn im) (Some App_StartTaskTCB) (start_args im) s;
     OSStart s
   }"

end
