(* ===== verification/Boot_Props.thy ===== *)
theory Boot_Props
  imports Os_Init Sys_Ops
begin

text \<open>
  From reset to the first task: \<open>App_Start\<close> returns, the lists of the kernel are in order, the kernel's own tasks
  and the start task are ready and the start task, the most urgent one, runs. The state it ends in satisfies the
  invariant of \<open>Sys_Inv\<close>. What the tasks do from there, the creation of further tasks and objects by the start task
  and the wait of the timer task for its condition, is not a run of the transition system of \<open>Kernel_Steps\<close>.
\<close>

section \<open>The state at reset\<close>

text \<open>Static storage is zeroed before \<open>main\<close>; the addresses the linker assigns are not null and no stack lies
  across the end of the address space.\<close>

definition at_reset :: "kernel \<Rightarrow> bool" where
  "at_reset s \<longleftrightarrow> (\<forall>b. PendList (OSObjs s b) = \<lparr>PL_HeadPtr = None, PL_TailPtr = None, PL_NbrEntries = 0\<rparr> \<and>
       Type (OSObjs s b) = OS_OBJ_TYPE_NONE) \<and>
     TL_TCB_Ptr (OSTickList s) = None \<and> TL_NbrEntries (OSTickList s) = 0"

definition image_ok :: "os_image \<Rightarrow> bool" where
  "image_ok im \<longleftrightarrow>
     (\<forall>f\<in>{img_OS_IdleTask im, img_OS_StatTask im, img_OS_TmrTask im, img_App_StartTask im}. f \<noteq> 0) \<and>
     (\<forall>(b, n)\<in>{(OSCfg_IdleTaskStk im, OSCfg_IdleTaskStkSize), (OSCfg_StatTaskStk im, OSCfg_StatTaskStkSize),
        (OSCfg_TmrTaskStk im, OSCfg_TmrTaskStkSize), (App_StartTaskStk im, APP_CFG_TASK_START_STK_SIZE)}.
        b \<noteq> 0 \<and> unat b + 4 * unat n < 2 ^ 32)"

lemmas cfg_defs = OSCfg_IdleTaskStkSize_def OSCfg_IdleTaskStkLimit_def OSCfg_StatTaskStkSize_def
  OSCfg_StatTaskStkLimit_def OSCfg_TmrTaskStkSize_def OSCfg_TmrTaskStkLimit_def APP_CFG_TASK_START_STK_SIZE_def
  OS_CFG_TASK_STK_LIMIT_PCT_EMPTY_def OSCfg_StatTaskPrio_def OSCfg_TmrTaskPrio_def APP_CFG_TASK_START_PRIO_def
  OS_CFG_PRIO_MAX_def

definition tmr_args :: "os_image \<Rightarrow> task_args" where
  "tmr_args im = \<lparr>ta_name = ''uC/OS-III Timer Task'', ta_task = img_OS_TmrTask im, ta_arg = 0, ta_prio = OSCfg_TmrTaskPrio,
     ta_stk_base = OSCfg_TmrTaskStk im, ta_stk_limit = OSCfg_TmrTaskStkLimit, ta_stk_size = OSCfg_TmrTaskStkSize,
     ta_q_size = 0, ta_time_quanta = 0, ta_ext = None, ta_opt = 0x000B\<rparr>"

lemma boot_args_ok:
  assumes "image_ok im"
  shows "create_ok OSIdleTaskTCB (idle_args im)" "create_ok OSStatTaskTCB (stat_args im)"
    "create_ok OSTmrTaskTCB (tmr_args im)" "create_ok App_StartTaskTCB (start_args im)"
  using assms by (simp_all add: create_ok_def image_ok_def idle_args_def stat_args_def tmr_args_def start_args_def cfg_defs)

section \<open>The steps of the start\<close>

text \<open>No task owns or waits for anything, no mutex is owned, there is no queue, and all messages are in the pool.\<close>

definition boot_objs :: "nat set \<Rightarrow> kernel \<Rightarrow> bool" where
  "boot_objs A s \<longleftrightarrow> (\<forall>t\<in>A. MutexGrpHeadPtr (OSTCBs s t) = None \<and> PendOn (OSTCBs s t) = OS_TASK_PEND_ON_NOTHING \<and>
       BasePrio (OSTCBs s t) = Prio (OSTCBs s t)) \<and>
     (\<forall>b. Type (OSObjs s b) = OS_OBJ_TYPE_MUTEX \<longrightarrow> OwnerTCBPtr (OSMutexes s b) = None \<and> OwnerNestingCtr (OSMutexes s b) = 0) \<and>
     (\<forall>b. Type (OSObjs s b) \<noteq> OS_OBJ_TYPE_Q) \<and> (\<exists>fs. pool_list s fs)"

lemma pool_list_cong: "OSMsgs s' = OSMsgs s \<Longrightarrow> OSMsgPool s' = OSMsgPool s \<Longrightarrow> pool_list s' fs = pool_list s fs"
  by (simp add: pool_list_def mnext_def)

lemma boot_objs_keep:
  assumes "boot_objs A s" and "OSMsgs s' = OSMsgs s" "OSMsgPool s' = OSMsgPool s"
    and "\<And>t. t \<in> A' \<Longrightarrow> t \<in> A \<and> Prio (OSTCBs s' t) = Prio (OSTCBs s t) \<and> BasePrio (OSTCBs s' t) = BasePrio (OSTCBs s t) \<and>
        PendOn (OSTCBs s' t) = PendOn (OSTCBs s t) \<and> MutexGrpHeadPtr (OSTCBs s' t) = MutexGrpHeadPtr (OSTCBs s t) \<or>
      MutexGrpHeadPtr (OSTCBs s' t) = None \<and> PendOn (OSTCBs s' t) = OS_TASK_PEND_ON_NOTHING \<and>
        BasePrio (OSTCBs s' t) = Prio (OSTCBs s' t)"
    and "\<And>b. Type (OSObjs s' b) = Type (OSObjs s b) \<and> OSMutexes s' b = OSMutexes s b \<or> Type (OSObjs s' b) = OS_OBJ_TYPE_COND \<or>
      Type (OSObjs s' b) = OS_OBJ_TYPE_MUTEX \<and> OwnerTCBPtr (OSMutexes s' b) = None \<and> OwnerNestingCtr (OSMutexes s' b) = 0"
  shows "boot_objs A' s'"
proof -
  have "\<exists>fs. pool_list s' fs" using assms(1-3) pool_list_cong [of s' s] by (auto simp: boot_objs_def)
  moreover have "Type (OSObjs s' b) \<noteq> OS_OBJ_TYPE_Q" for b using assms(1) assms(5) [of b] by (auto simp: boot_objs_def)
  moreover have "OwnerTCBPtr (OSMutexes s' b) = None \<and> OwnerNestingCtr (OSMutexes s' b) = 0"
    if "Type (OSObjs s' b) = OS_OBJ_TYPE_MUTEX" for b using that assms(1) assms(5) [of b] by (auto simp: boot_objs_def)
  moreover have "MutexGrpHeadPtr (OSTCBs s' t) = None \<and> PendOn (OSTCBs s' t) = OS_TASK_PEND_ON_NOTHING \<and>
      BasePrio (OSTCBs s' t) = Prio (OSTCBs s' t)" if "t \<in> A'" for t
    using assms(4) [OF that] assms(1) by (auto simp: boot_objs_def)
  ultimately show ?thesis by (simp add: boot_objs_def)
qed

lemma boot_objs_ok:
  assumes K: "kinv s A R (\<lambda>_. []) T" and B: "boot_objs A s" and f: "finite A"
  shows "mutex_ok A s (\<lambda>_. [])" "objs_ok s (\<lambda>_. [])"
proof -
  have n: "\<not> waits_for s a t" if "a \<in> A" for a t using B that by (auto simp: boot_objs_def waits_for_def)
  have "mutex_inv s A (mutexes s) (\<lambda>_. []) (\<lambda>_. [])"
    using B by (auto simp: mutex_inv_def groups_def boot_objs_def mutexes_def sll_def)
  moreover have "inherits s A" unfolding inherits_iff [OF f] using B n by (auto simp: boot_objs_def)
  moreover have "no_cond s A" using B by (simp add: no_cond_def boot_objs_def)
  moreover have "unat (BasePrio (OSTCBs s t)) < OS_CFG_PRIO_MAX" if "t \<in> A" for t
    using task_okD(1) [OF K that] B that by (simp add: boot_objs_def)
  ultimately show "mutex_ok A s (\<lambda>_. [])" using f unfolding mutex_ok_def by blast
  have "queues s = {}" using B by (auto simp: boot_objs_def queues_def)
  moreover obtain fs where fs: "pool_list s fs" using B by (auto simp: boot_objs_def)
  then have "length fs < 2 ^ 16" using unsigned_less [of "MP_NbrFree (OSMsgPool s)", where 'a = nat] by (simp add: pool_list_def)
  ultimately have "msgs_rel s (\<lambda>_. []) fs (set fs)"
    using fs card_length [of fs] by (simp add: msgs_rel_def)
  then show "objs_ok s (\<lambda>_. [])" by (auto simp: objs_ok_def flags_ok_def msgs_ok_def)
qed

text \<open>Before multitasking a created task is ready at the end of its list and no other changes.\<close>

abbreviation idle_sys :: "kernel \<Rightarrow> bool" where
  "idle_sys s \<equiv> OSRunning s = OS_STATE_OS_STOPPED \<and> OSIntNestingCtr s = 0 \<and> OSSchedLockNestingCtr s = 0"

lemma create_stopped:
  assumes K: "kinv s A R W T" and a: "a \<notin> A" and x: "create_ok a x" and i: "idle_sys s"
  shows "\<exists>s'. OSTaskCreate tr (Some a) x s = Some (OS_ERR_NONE, s') \<and>
    kinv s' (insert a A) (R(ta_prio x := R (ta_prio x) @ [a])) W T \<and> idle_sys s' \<and>
    OSTaskQty s' = OSTaskQty s + 1 \<and> OSInitialized s' = OSInitialized s \<and> OSObjs s' = OSObjs s \<and> (boot_objs A s \<longrightarrow> boot_objs (insert a A) s')"
proof -
  obtain sp m where f: "OSTaskStkInit tr (ta_task x) (ta_arg x) (ta_stk_base x) (ta_stk_base x + 4 * ta_stk_limit x)
      (ta_stk_size x) (if ta_opt x AND OS_OPT_TASK_STK_CLR \<noteq> 0 then clear_stack (ta_stk_base x) (ta_stk_size x) (OSStkMem s)
       else OSStkMem s) = (sp, m)" by fastforce
  from OSTaskCreate_run [OF K a x _ f] i obtain s' where
    s': "OSTaskCreate tr (Some a) x s = Some (OS_ERR_NONE, s')"
      "kinv s' (insert a A) (R(ta_prio x := R (ta_prio x) @ [a])) W T" "idle_sys s'" "OSTaskQty s' = OSTaskQty s + 1"
      "OSInitialized s' = OSInitialized s" "OSObjs s' = OSObjs s" "OSMutexes s' = OSMutexes s" "OSMsgs s' = OSMsgs s"
      "OSMsgPool s' = OSMsgPool s" "PendOn (OSTCBs s' a) = OS_TASK_PEND_ON_NOTHING" "MutexGrpHeadPtr (OSTCBs s' a) = None"
      "BasePrio (OSTCBs s' a) = Prio (OSTCBs s' a)"
      "\<forall>c. c \<noteq> a \<longrightarrow> Prio (OSTCBs s' c) = Prio (OSTCBs s c) \<and> BasePrio (OSTCBs s' c) = BasePrio (OSTCBs s c) \<and>
        PendOn (OSTCBs s' c) = PendOn (OSTCBs s c) \<and> MutexGrpHeadPtr (OSTCBs s' c) = MutexGrpHeadPtr (OSTCBs s c)"
    by fastforce
  have "boot_objs (insert a A) s'" if "boot_objs A s"
  proof (rule boot_objs_keep [OF that s'(8,9)])
    fix t assume "t \<in> insert a A"
    then show "t \<in> A \<and> Prio (OSTCBs s' t) = Prio (OSTCBs s t) \<and> BasePrio (OSTCBs s' t) = BasePrio (OSTCBs s t) \<and>
        PendOn (OSTCBs s' t) = PendOn (OSTCBs s t) \<and> MutexGrpHeadPtr (OSTCBs s' t) = MutexGrpHeadPtr (OSTCBs s t) \<or>
      MutexGrpHeadPtr (OSTCBs s' t) = None \<and> PendOn (OSTCBs s' t) = OS_TASK_PEND_ON_NOTHING \<and>
        BasePrio (OSTCBs s' t) = Prio (OSTCBs s' t)"
      using s'(10-13) by (cases "t = a") auto
  qed (use s'(6,7) in simp)
  with s' show ?thesis by blast
qed

lemma kinv_boot_globals:
  "kinv (s\<lparr>OSMutexQty := n\<rparr>) A R W T \<longleftrightarrow> kinv s A R W T"
  "kinv (s\<lparr>OSInitialized := i\<rparr>) A R W T \<longleftrightarrow> kinv s A R W T"
  "kinv (s\<lparr>OSRunning := r\<rparr>) A R W T \<longleftrightarrow> kinv s A R W T"
  "kinv (s\<lparr>OSTmrQty := n, OSTmrDbgListPtr := p, OSTmrListPtr := q, OSTmrListEntries := k, OSTmrToTicksMult := m\<rparr>) A R W T
     \<longleftrightarrow> kinv s A R W T"
  by (rule kinv_cong; (rule rdy_rel_cong pend_lists_cong tick_lists_cong)?; simp)+

lemma PendListInit_id:
  assumes l: "PendList (OSObjs s b) = \<lparr>PL_HeadPtr = None, PL_TailPtr = None, PL_NbrEntries = 0\<rparr>"
  shows "OS_PendListInit (Some b) s = Some s"
proof -
  have e: "PendList_update (\<lambda>_. \<lparr>PL_HeadPtr = None, PL_TailPtr = None, PL_NbrEntries = 0\<rparr>) (OSObjs s b) = OSObjs s b"
    by (simp add: l [symmetric])
  have "OS_PendListInit (Some b) s = Some (put_obj b (PendList_update
      (\<lambda>_. \<lparr>PL_HeadPtr = None, PL_TailPtr = None, PL_NbrEntries = 0\<rparr>)) s)"
    by (simp add: OS_PendListInit_def set_pend_list_def) (simp add: put_obj_def l)
  then show ?thesis unfolding put_obj_def e by simp
qed

lemma OSMutexCreate_stopped:
  assumes K: "kinv s A R W T" and W: "W b = []" and i: "idle_sys s" and t: "Type (OSObjs s b) \<noteq> OS_OBJ_TYPE_MUTEX"
  shows "\<exists>s'. OSMutexCreate (Some b) n s = Some (OS_ERR_NONE, s') \<and> kinv s' A R W T \<and> idle_sys s' \<and>
    OSTaskQty s' = OSTaskQty s \<and> OSInitialized s' = OSInitialized s \<and> (boot_objs A s \<longrightarrow> boot_objs A s')"
proof -
  let ?s = "(put_obj b (Obj_NamePtr_update (\<lambda>_. n)) (put_obj b (Type_update (\<lambda>_. OS_OBJ_TYPE_MUTEX)) s))
    \<lparr>OSMutexes := (OSMutexes s)(b := (OSMutexes s b)\<lparr>MutexGrpNextPtr := None, OwnerTCBPtr := None, OwnerNestingCtr := 0,
       Mutex_TS := 0\<rparr>)\<rparr>"
  have K1: "kinv ?s A R W T" using K by (simp add: kinv_put_obj)
  have p: "OS_PendListInit (Some b) ?s = Some ?s"
    using pend_listsD(1,2) [OF kinvD(2) [OF K1], of b] W by (intro PendListInit_id) (simp add: plist_def)
  from mutex_dbg.add_touched [of b ?s] obtain s2 where
    s2: "OS_MutexDbgListAdd (Some b) ?s = Some s2" "mutex_dbg.touched ?s s2"
    by (auto simp: OS_MutexDbgListAdd_def)
  have "OSMutexCreate (Some b) n s = Some (OS_ERR_NONE, s2\<lparr>OSMutexQty := OSMutexQty s2 + 1\<rparr>)"
    using p s2(1) i t by (simp add: OSMutexCreate_def obj_def set_mutex_def)
  moreover have "kinv (s2\<lparr>OSMutexQty := OSMutexQty s2 + 1\<rparr>) A R W T"
    using K1 mutex_dbg.touched_kinv [OF s2(2)] by (simp add: kinv_boot_globals)
  moreover have "OSRunning s2 = OSRunning s \<and> OSIntNestingCtr s2 = OSIntNestingCtr s \<and>
      OSSchedLockNestingCtr s2 = OSSchedLockNestingCtr s \<and> OSTaskQty s2 = OSTaskQty s \<and> OSInitialized s2 = OSInitialized s"
    using s2(2) by (auto simp: mutex_dbg.touched_def put_obj_def)
  moreover have "boot_objs A (s2\<lparr>OSMutexQty := OSMutexQty s2 + 1\<rparr>)" if B: "boot_objs A s"
  proof -
    obtain ob p where "s2 = ?s\<lparr>OSObjs := ob, OSMutexDbgListPtr := p\<rparr>" "\<forall>c. obj_body (ob c) = obj_body (OSObjs ?s c)"
      using s2(2) by (auto simp: mutex_dbg.touched_def put_obj_def)
    moreover from this(2) have "Type (ob c) = Type (OSObjs ?s c)" for c by (metis obj_body_sel(1))
    ultimately show ?thesis
      by (intro boot_objs_keep [OF B]) (auto simp: put_obj_def)
  qed
  ultimately show ?thesis using i by (intro exI [of _ "s2\<lparr>OSMutexQty := OSMutexQty s2 + 1\<rparr>"]) simp
qed

text \<open>With every list empty the invariant of the kernel holds of no task.\<close>

lemma kinv_empty:
  assumes r: "\<And>p. unat p < OS_CFG_PRIO_MAX \<Longrightarrow> RL_HeadPtr (OSRdyList s p) = None \<and> RL_TailPtr (OSRdyList s p) = None \<and>
      RL_NbrEntries (OSRdyList s p) = 0"
    and t: "prio_tbl_ok s" "ready_prios s = {}"
    and l: "\<And>b. PendList (OSObjs s b) = \<lparr>PL_HeadPtr = None, PL_TailPtr = None, PL_NbrEntries = 0\<rparr>"
    and k: "TL_TCB_Ptr (OSTickList s) = None" "TL_NbrEntries (OSTickList s) = 0"
  shows "kinv s {} (\<lambda>_. []) (\<lambda>_. []) []"
  using assms by (auto simp: kinv_def rdy_rel_def rdy_lists_def pend_lists_def pend_sorted_def tick_lists_def plist_def dll_def)

lemma OS_MsgPoolInit_frame:
  "\<exists>mm mp. OS_MsgPoolInit (Some base) OSCfg_MsgPoolSize s = (OS_ERR_NONE, s\<lparr>OSMsgs := mm, OSMsgPool := mp\<rparr>) \<and>
    (\<exists>fs. pool_list (s\<lparr>OSMsgs := mm, OSMsgPool := mp\<rparr>) fs)"
proof -
  have p: "\<exists>fs. pool_list (snd (OS_MsgPoolInit (Some base) OSCfg_MsgPoolSize s)) fs"
    using OS_MsgPoolInit_spec [of OSCfg_MsgPoolSize base s] by (fastforce simp: OSCfg_MsgPoolSize_def)
  obtain p' mm where "msg_pool_loop (unat (OSCfg_MsgPoolSize - 1)) base s = (p', s\<lparr>OSMsgs := mm\<rparr>)"
    using msg_pool_loop_spec by blast
  then show ?thesis using p by (auto simp: OS_MsgPoolInit_def OSCfg_MsgPoolSize_def)
qed

text \<open>The part of \<open>OSInit\<close> before the first task.\<close>

lemma early_kinv:
  fixes im :: os_image and s :: kernel
  assumes z: "at_reset s"
  defines "u \<equiv> OS_RdyListInit (OS_PrioInit (init_globals im s))"
  shows "kinv (u\<lparr>OSFlagDbgListPtr := fp, OSFlagQty := fq, OSMemDbgListPtr := mp, OSMemQty := m, OSMsgs := mm, OSMsgPool := pool,
    OSMutexDbgListPtr := xp, OSMutexQty := xq, OSQDbgListPtr := qp, OSQQty := qq, OSSemDbgListPtr := sp, OSSemQty := sq,
    OSTaskDbgListPtr := tp, OSTaskQty := 0, OSTaskCtxSwCtr := 0\<rparr>) {} (\<lambda>_. []) (\<lambda>_. []) []" (is "kinv ?v _ _ _ _")
    "idle_sys u" "OSInitialized u = OSInitialized s" "OSObjs u = OSObjs s"
proof -
  show "idle_sys u" "OSInitialized u = OSInitialized s" and o: "OSObjs u = OSObjs s"
    by (simp_all add: u_def OS_RdyListInit_def OS_PrioInit_def init_globals_def Let_def)
  have "OSTickList u = OSTickList s" by (simp add: u_def OS_RdyListInit_def OS_PrioInit_def init_globals_def Let_def)
  with z o have "PendList (OSObjs ?v b) = \<lparr>PL_HeadPtr = None, PL_TailPtr = None, PL_NbrEntries = 0\<rparr>"
      "TL_TCB_Ptr (OSTickList ?v) = None" "TL_NbrEntries (OSTickList ?v) = 0" for b
    by (simp_all add: at_reset_def)
  moreover have "OSPrioTbl ?v = OSPrioTbl (OS_PrioInit (init_globals im s))" by (simp add: u_def OS_RdyListInit_def)
  then have "prio_tbl_ok ?v \<and> ready_prios ?v = {}"
    using OS_PrioInit_spec [of "init_globals im s"] by (simp add: prio_tbl_ok_def ready_prios_def)
  ultimately show "kinv ?v {} (\<lambda>_. []) (\<lambda>_. []) []"
    by (intro kinv_empty) (simp_all add: u_def OS_RdyListInit_def)
qed

lemma OS_TickInit_kinv:
  assumes "kinv s A R W []" and "idle_sys s"
  shows "kinv (OS_TickInit s) A R W []" "idle_sys (OS_TickInit s)" "OSTaskQty (OS_TickInit s) = OSTaskQty s"
    "OSObjs (OS_TickInit s) = OSObjs s" "boot_objs B s \<Longrightarrow> boot_objs B (OS_TickInit s)"
proof -
  have "rdy_rel (OS_TickInit s) R = rdy_rel s R" "pend_lists (OS_TickInit s) W = pend_lists s W"
    by (intro rdy_rel_cong pend_lists_cong; simp add: OS_TickInit_def)+
  then show "kinv (OS_TickInit s) A R W []"
    using kinvD(4) [OF assms(1)] assms(1)
    by (simp add: kinv_def tick_lists_def pend_sorted_def task_ok_def OS_TickInit_def)
next
  assume "boot_objs B s"
  then show "boot_objs B (OS_TickInit s)" by (rule boot_objs_keep) (simp_all add: OS_TickInit_def)
qed (use assms(2) in \<open>simp_all add: OS_TickInit_def\<close>)

text \<open>The timer module.\<close>

lemma OS_TmrInit_spec:
  assumes K: "kinv s A R W T" and a: "OSTmrTaskTCB \<notin> A" and x: "create_ok OSTmrTaskTCB (tmr_args im)" and i: "idle_sys s"
    and W: "W OSTmrMutex = []" "W OSTmrCond = []" and t: "Type (OSObjs s OSTmrMutex) \<noteq> OS_OBJ_TYPE_MUTEX"
  shows "\<exists>s'. OS_TmrInit tr (img_OS_TmrTask im) (OSCfg_TmrTaskStk im) s = Some (OS_ERR_NONE, s') \<and>
    kinv s' (insert OSTmrTaskTCB A) (R(OSCfg_TmrTaskPrio := R OSCfg_TmrTaskPrio @ [OSTmrTaskTCB])) W T \<and> idle_sys s' \<and>
    OSTaskQty s' = OSTaskQty s + 1 \<and> (boot_objs A s \<longrightarrow> boot_objs (insert OSTmrTaskTCB A) s')"
proof -
  let ?s = "s\<lparr>OSTmrQty := 0, OSTmrDbgListPtr := None, OSTmrListPtr := None, OSTmrListEntries := 0,
    OSTmrToTicksMult := OSCfg_TickRate_Hz div OSCfg_TmrTaskRate_Hz\<rparr>"
  from OSMutexCreate_stopped [of ?s A R W T OSTmrMutex "''OS Tmr Mutex''"] W(1) K i t obtain s1 where
    s1: "OSMutexCreate (Some OSTmrMutex) ''OS Tmr Mutex'' ?s = Some (OS_ERR_NONE, s1)" "kinv s1 A R W T" "idle_sys s1"
    "OSTaskQty s1 = OSTaskQty s" "boot_objs A ?s \<longrightarrow> boot_objs A s1" by (auto simp: kinv_boot_globals)
  let ?s2 = "put_obj OSTmrCond (Type_update (\<lambda>_. OS_OBJ_TYPE_COND)) s1"
  have K2: "kinv ?s2 A R W T" using s1(2) by (simp add: kinv_put_obj)
  have i2: "idle_sys ?s2" "OSTaskQty ?s2 = OSTaskQty s" using s1(3,4) by (simp_all add: put_obj_def)
  have c: "OS_TmrCondCreate s1 = Some ?s2"
    using pend_listsD(1,2) [OF kinvD(2) [OF K2], of OSTmrCond] W(2)
    by (simp add: OS_TmrCondCreate_def) (intro PendListInit_id, simp add: plist_def)
  have b2: "boot_objs A ?s2" if "boot_objs A s"
  proof -
    have "boot_objs A ?s" by (rule boot_objs_keep [OF that]) auto
    then have "boot_objs A s1" using s1(5) by simp
    then show ?thesis by (rule boot_objs_keep) (auto simp: put_obj_def)
  qed
  from create_stopped [OF K2 a x i2(1)] obtain s3 where
    s3: "OSTaskCreate tr (Some OSTmrTaskTCB) (tmr_args im) ?s2 = Some (OS_ERR_NONE, s3)"
    "kinv s3 (insert OSTmrTaskTCB A) (R(ta_prio (tmr_args im) := R (ta_prio (tmr_args im)) @ [OSTmrTaskTCB])) W T"
    "idle_sys s3" "OSTaskQty s3 = OSTaskQty s + 1" "boot_objs A ?s2 \<longrightarrow> boot_objs (insert OSTmrTaskTCB A) s3"
    using i2(2) by metis
  have "OSCfg_TmrTaskStk im \<noteq> 0" using x by (simp add: create_ok_def tmr_args_def)
  then have "OS_TmrInit tr (img_OS_TmrTask im) (OSCfg_TmrTaskStk im) s = Some (OS_ERR_NONE, s3)"
    using s1(1) c s3(1) unfolding tmr_args_def
    by (simp add: OS_TmrInit_def Let_def cfg_defs OSCfg_StkSizeMin_def)
  with s3(2-5) b2 show ?thesis by (intro exI [of _ s3]) (simp add: tmr_args_def)
qed

text \<open>The kernel is initialised with its three tasks ready.\<close>

abbreviation boot_rdy :: "u8 \<Rightarrow> nat list" where
  "boot_rdy \<equiv> (\<lambda>_. [])(31 := [OSIdleTaskTCB], 30 := [OSStatTaskTCB], 29 := [OSTmrTaskTCB])"

lemma OSInit_spec:
  assumes z: "at_reset s" and m: "image_ok im"
  shows "\<exists>s'. OSInit im s = Some (OS_ERR_NONE, s') \<and> kinv s' {OSTmrTaskTCB, OSStatTaskTCB, OSIdleTaskTCB} boot_rdy (\<lambda>_. []) [] \<and>
    idle_sys s' \<and> OSTaskQty s' = 3 \<and> OSInitialized s' \<and> boot_objs {OSTmrTaskTCB, OSStatTaskTCB, OSIdleTaskTCB} s'"
proof -
  define u where "u = OS_RdyListInit (OS_PrioInit (init_globals im s))"
  let ?u1 = "u\<lparr>OSFlagDbgListPtr := None, OSFlagQty := 0, OSMemDbgListPtr := None, OSMemQty := 0\<rparr>"
  obtain mm mp where pool: "OS_MsgPoolInit (Some (OSCfg_MsgPool im)) OSCfg_MsgPoolSize ?u1 =
      (OS_ERR_NONE, ?u1\<lparr>OSMsgs := mm, OSMsgPool := mp\<rparr>)"
    and fs: "\<exists>fs. pool_list (?u1\<lparr>OSMsgs := mm, OSMsgPool := mp\<rparr>) fs" using OS_MsgPoolInit_frame by blast
  let ?u2 = "?u1\<lparr>OSMsgs := mm, OSMsgPool := mp, OSMutexDbgListPtr := None, OSMutexQty := 0, OSQDbgListPtr := None, OSQQty := 0,
    OSSemDbgListPtr := None, OSSemQty := 0, OSTaskDbgListPtr := None, OSTaskQty := 0, OSTaskCtxSwCtr := 0\<rparr>"
  have K: "kinv ?u2 {} (\<lambda>_. []) (\<lambda>_. []) []" and i: "idle_sys ?u2" and o: "OSObjs ?u2 = OSObjs s"
    using early_kinv [OF z, where im = im] by (simp_all add: u_def)
  have "\<exists>fs. pool_list ?u2 fs" using fs by (elim ex_forward) (simp add: pool_list_def mnext_def)
  then have b: "boot_objs {} ?u2" using z o by (simp add: boot_objs_def at_reset_def)
  from create_stopped [where tr = "img_OS_TaskReturn im", OF K _ boot_args_ok(1) [OF m] i] obtain s3 where
    s3: "OS_IdleTaskInit im ?u2 = Some (OS_ERR_NONE, s3)" "kinv s3 {OSIdleTaskTCB} ((\<lambda>_. [])(31 := [OSIdleTaskTCB])) (\<lambda>_. []) []"
      "idle_sys s3" "OSTaskQty s3 = 1" "OSObjs s3 = OSObjs s" "boot_objs {OSIdleTaskTCB} s3"
    using o b by (auto simp: OS_IdleTaskInit_def idle_args_def OS_CFG_PRIO_MAX_def)
  note t = OS_TickInit_kinv [OF s3(2,3)]
  have "OSStatTaskTCB \<notin> {OSIdleTaskTCB}" by (simp add: OSStatTaskTCB_def OSIdleTaskTCB_def)
  from create_stopped [where tr = "img_OS_TaskReturn im", OF t(1) this boot_args_ok(2) [OF m] t(2)] obtain s4 where
    s4: "OSTaskCreate (img_OS_TaskReturn im) (Some OSStatTaskTCB) (stat_args im) (OS_TickInit s3) = Some (OS_ERR_NONE, s4)"
      "kinv s4 {OSStatTaskTCB, OSIdleTaskTCB} ((\<lambda>_. [])(31 := [OSIdleTaskTCB], 30 := [OSStatTaskTCB])) (\<lambda>_. []) []"
      "idle_sys s4" "OSTaskQty s4 = 2" "OSObjs s4 = OSObjs s" "boot_objs {OSStatTaskTCB, OSIdleTaskTCB} s4"
    using s3(4,5) t(3,4) t(5) [OF s3(6)] by (auto simp: stat_args_def cfg_defs)
  have st: "OS_StatTaskInit im (OS_TickInit s3) = Some (OS_ERR_NONE, s4)"
    using s4(1) m by (simp add: OS_StatTaskInit_def image_ok_def cfg_defs OSCfg_StkSizeMin_def)
  have "OSTmrTaskTCB \<notin> {OSStatTaskTCB, OSIdleTaskTCB}" by (simp add: OSStatTaskTCB_def OSIdleTaskTCB_def OSTmrTaskTCB_def)
  from OS_TmrInit_spec [where tr = "img_OS_TaskReturn im", OF s4(2) this boot_args_ok(3) [OF m] s4(3)] z s4(4-6) obtain s5 where
    s5: "OS_TmrInit (img_OS_TaskReturn im) (img_OS_TmrTask im) (OSCfg_TmrTaskStk im) s4 = Some (OS_ERR_NONE, s5)"
      "kinv s5 {OSTmrTaskTCB, OSStatTaskTCB, OSIdleTaskTCB} boot_rdy (\<lambda>_. []) []" "idle_sys s5" "OSTaskQty s5 = 3"
      "boot_objs {OSTmrTaskTCB, OSStatTaskTCB, OSIdleTaskTCB} s5"
    by (auto simp: at_reset_def OSCfg_TmrTaskPrio_def)
  have "OSInit im s = Some (OS_ERR_NONE, s5\<lparr>OSInitialized := True\<rparr>)"
    using pool s3(1) st s5(1)
    by (simp add: OSInit_def u_def [symmetric] Let_def OS_MemInit_def OS_TaskInit_def)
  moreover have "boot_objs {OSTmrTaskTCB, OSStatTaskTCB, OSIdleTaskTCB} (s5\<lparr>OSInitialized := True\<rparr>)"
    by (rule boot_objs_keep [OF s5(5)]) simp_all
  ultimately show ?thesis using s5(2-4)
    by (intro exI [of _ "s5\<lparr>OSInitialized := True\<rparr>"]) (simp add: kinv_boot_globals)
qed

section \<open>Properties\<close>

lemma OSStart_ok:
  assumes K: "kinv s A R W T" and i: "OSInitialized s" "OSRunning s = OS_STATE_OS_STOPPED" "OSTaskQty s > 3"
    and g: "OSIntNestingCtr s = 0" "OSSchedLockNestingCtr s = 0" and ne: "R q \<noteq> []"
  shows "\<exists>s' x. OSStart s = Some (OS_ERR_FATAL_RETURN, s') \<and> kinv s' A R W T \<and> running s' x \<and> most_urgent s' R x \<and>
    OSRunning s' = OS_STATE_OS_RUNNING \<and> OSIntNestingCtr s' = 0 \<and> OSSchedLockNestingCtr s' = 0 \<and> OSTCBs s' = OSTCBs s \<and>
    (boot_objs A s \<longrightarrow> boot_objs A s')"
proof -
  from sched_select_urgent [OF kinvD(1) [OF K] ne] obtain x where
    x: "sched_select s = Some (Prio (OSTCBs s x), Some x)" "most_urgent s R x" .
  let ?s = "s\<lparr>OSPrioHighRdy := Prio (OSTCBs s x), OSPrioCur := Prio (OSTCBs s x), OSTCBHighRdyPtr := Some x,
    OSTCBCurPtr := Some x, OSRunning := OS_STATE_OS_RUNNING\<rparr>"
  have q: "\<not> OSTaskQty s \<le> 3" using i(3) by simp
  have "OSStart s = Some (OS_ERR_FATAL_RETURN, OS_CPU_PendSVHandler ?s)"
    using x(1) i(1,2) q by (simp add: OSStart_def)
  moreover have "kinv (OS_CPU_PendSVHandler ?s) A R W T"
    using K by (simp add: OS_CPU_PendSVHandler_def kinv_boot_globals)
  moreover have "running (OS_CPU_PendSVHandler ?s) x" "most_urgent (OS_CPU_PendSVHandler ?s) R x"
    using x(2) by (simp_all add: running_def most_urgent_def OS_CPU_PendSVHandler_def)
  moreover have "boot_objs A (OS_CPU_PendSVHandler ?s)" if "boot_objs A s"
    by (rule boot_objs_keep [OF that]) (simp_all add: OS_CPU_PendSVHandler_def)
  ultimately show ?thesis using g
    by (intro exI [of _ "OS_CPU_PendSVHandler ?s"] exI [of _ x]) (simp add: OS_CPU_PendSVHandler_def)
qed

abbreviation boot_tasks :: "nat set" where
  "boot_tasks \<equiv> {App_StartTaskTCB, OSTmrTaskTCB, OSStatTaskTCB, OSIdleTaskTCB}"

lemma App_Start_ok:
  assumes z: "at_reset s" and m: "image_ok im"
  shows "\<exists>s'. App_Start im s = Some (OS_ERR_FATAL_RETURN, s') \<and> sys_ok boot_tasks s' \<and>
    OSTCBCurPtr s' = Some App_StartTaskTCB \<and> OSRunning s' = OS_STATE_OS_RUNNING \<and> OSIntNestingCtr s' = 0 \<and>
    OSSchedLockNestingCtr s' = 0 \<and> kinv s' boot_tasks (boot_rdy(28 := [App_StartTaskTCB])) (\<lambda>_. []) [] \<and>
    (\<forall>a\<in>boot_tasks. TaskState (OSTCBs s' a) = OS_TASK_STATE_RDY)"
proof -
  from OSInit_spec [OF z m] obtain s1 where
    s1: "OSInit im s = Some (OS_ERR_NONE, s1)" "kinv s1 {OSTmrTaskTCB, OSStatTaskTCB, OSIdleTaskTCB} boot_rdy (\<lambda>_. []) []"
      "idle_sys s1" "OSTaskQty s1 = 3" "OSInitialized s1" "boot_objs {OSTmrTaskTCB, OSStatTaskTCB, OSIdleTaskTCB} s1" by blast
  have "App_StartTaskTCB \<notin> {OSTmrTaskTCB, OSStatTaskTCB, OSIdleTaskTCB}"
    by (simp add: App_StartTaskTCB_def OSTmrTaskTCB_def OSStatTaskTCB_def OSIdleTaskTCB_def)
  from create_stopped [where tr = "img_OS_TaskReturn im", OF s1(2) this boot_args_ok(4) [OF m] s1(3)] s1(4-6) obtain s2 where
    s2: "OSTaskCreate (img_OS_TaskReturn im) (Some App_StartTaskTCB) (start_args im) s1 = Some (OS_ERR_NONE, s2)"
      "kinv s2 boot_tasks (boot_rdy(28 := [App_StartTaskTCB])) (\<lambda>_. []) []" "idle_sys s2" "OSTaskQty s2 = 4" "OSInitialized s2"
      "boot_objs boot_tasks s2"
    by (auto simp: start_args_def APP_CFG_TASK_START_PRIO_def OS_CFG_PRIO_MAX_def)
  let ?R = "boot_rdy(28 := [App_StartTaskTCB])"
  have ne: "?R 28 \<noteq> []" by simp
  have q: "OSTaskQty s2 > 3" using s2(4) by simp
  from OSStart_ok [OF s2(2,5) _ q _ _ ne] s2(3,6) obtain s3 x where
    s3: "OSStart s2 = Some (OS_ERR_FATAL_RETURN, s3)" "kinv s3 boot_tasks ?R (\<lambda>_. []) []" "running s3 x" "most_urgent s3 ?R x"
      "OSRunning s3 = OS_STATE_OS_RUNNING" "OSIntNestingCtr s3 = 0" "OSSchedLockNestingCtr s3 = 0"
      "boot_objs boot_tasks s3" by blast
  have p: "Prio (OSTCBs s3 a) = r" if "a \<in> set (?R r)" for a r
    using rdy_lists_prio [of s3 ?R a r] kinvD(1) [OF s3(2)] that by (simp add: rdy_rel_def)
  have idle: "Prio (OSTCBs s3 OSIdleTaskTCB) = 31" and st: "Prio (OSTCBs s3 App_StartTaskTCB) = 28"
    using p [of OSIdleTaskTCB 31] p [of App_StartTaskTCB 28] by simp_all
  have pr: "Prio (OSTCBs s3 OSStatTaskTCB) = 30" "Prio (OSTCBs s3 OSTmrTaskTCB) = 29"
    using p [of OSStatTaskTCB 30] p [of OSTmrTaskTCB 29] by simp_all
  have rdy: "\<forall>a\<in>boot_tasks. TaskState (OSTCBs s3 a) = OS_TASK_STATE_RDY"
  proof
    fix a
    assume a: "a \<in> boot_tasks"
    then have "a \<in> set (?R (Prio (OSTCBs s3 a)))" using idle st pr by auto
    then show "TaskState (OSTCBs s3 a) = OS_TASK_STATE_RDY" using task_okD(2) [OF s3(2) a] by blast
  qed
  then have "core_ok boot_tasks s3 ?R (\<lambda>_. []) []"
    using s3(2,5-7) boot_objs_ok(1) [OF s3(2,8)] by (simp add: core_ok_def untimed_def)
  then have "sys_ok boot_tasks s3" using boot_objs_ok(2) [OF s3(2,8)] s3(3,4) by (intro sys_okI) simp_all
  moreover have "x = App_StartTaskTCB"
  proof -
    have "Prio (OSTCBs s3 x) \<le> 28" using s3(4) ne unfolding most_urgent_def by blast
    moreover obtain xs where "?R (Prio (OSTCBs s3 x)) = x # xs" using s3(4) by (auto simp: most_urgent_def)
    ultimately show ?thesis by (auto split: if_splits)
  qed
  ultimately show ?thesis
    using s1(1) s2(1) s3(1-3,5-7) rdy by (intro exI [of _ s3]) (simp add: App_Start_def running_def)
qed

text \<open>C1: From the zeroed memory at reset \<open>App_Start\<close> brings the system up: the kernel is initialised, its tasks and
  the start task are created without an error, and \<open>OSStart\<close> gives the processor to the start task (the error is the
  one that it reports if its switch to the first task ever returned). In the state in which the start task begins the
  four tasks are ready, each alone on the list of its priority, 28 for the start task, 29 for the timer task, 30 for the
  statistics task and 31 for the idle task, no task is on a pend list or the tick list, and the invariant of the system
  holds. What the tasks do from there on is not part of the statement.\<close>

theorem App_Start_runs_system:
  assumes z: "at_reset s" and m: "image_ok im"
  shows "\<exists>s0. App_Start im s = Some (OS_ERR_FATAL_RETURN, s0) \<and> OSTCBCurPtr s0 = Some App_StartTaskTCB \<and>
    OSRunning s0 = OS_STATE_OS_RUNNING \<and> OSIntNestingCtr s0 = 0 \<and> OSSchedLockNestingCtr s0 = 0 \<and>
    kinv s0 {App_StartTaskTCB, OSTmrTaskTCB, OSStatTaskTCB, OSIdleTaskTCB}
      ((\<lambda>_. [])(31 := [OSIdleTaskTCB], 30 := [OSStatTaskTCB], 29 := [OSTmrTaskTCB], 28 := [App_StartTaskTCB])) (\<lambda>_. []) [] \<and>
    (\<forall>a\<in>boot_tasks. TaskState (OSTCBs s0 a) = OS_TASK_STATE_RDY) \<and> sys_ok boot_tasks s0"
  using App_Start_ok [OF z m] by blast

definition demo_image :: os_image where
  "demo_image = \<lparr>img_OS_TaskReturn = 0x08001001, img_OS_IdleTask = 0x08001101, img_OS_StatTask = 0x08001201,
     img_OS_TmrTask = 0x08001301, img_App_StartTask = 0x08001401, OSCfg_ISRStk = 0x20000000, OSCfg_IdleTaskStk = 0x20001000,
     OSCfg_StatTaskStk = 0x20002000, OSCfg_TmrTaskStk = 0x20003000, App_StartTaskStk = 0x20004000, OSCfg_MsgPool = 0\<rparr>"

theorem App_Start_runs_system_witness:
  "\<exists>s s0. App_Start demo_image s = Some (OS_ERR_FATAL_RETURN, s0) \<and> OSTCBCurPtr s0 = Some App_StartTaskTCB"
proof -
  let ?s = "demo\<lparr>OSObjs := (\<lambda>_. demo_obj 0), OSTickList := (OSTickList demo)\<lparr>TL_TCB_Ptr := None, TL_NbrEntries := 0\<rparr>\<rparr>"
  have "at_reset ?s" by (simp add: at_reset_def demo_obj_def)
  moreover have "image_ok demo_image" by (simp add: image_ok_def demo_image_def cfg_defs)
  ultimately show ?thesis using App_Start_runs_system by blast
qed

end
