(* ===== verification/Os_Stat.thy ===== *)
theory Os_Stat
  imports Os_Init Demo_System
begin

text \<open>
  Statistics of the processor usage (\<open>os_stat.c\<close>), with the counters of the idle task (\<open>os_core.c\<close>) and the
  accounting of cycles at a context switch (\<open>OSTaskSwHook\<close> of \<open>os_cpu_c.c\<close>). The measurements are kept beside the
  state of the kernel, in the record \<open>stat\<close>; \<open>task_stat\<close> has the fields of \<open>OS_TCB\<close> that only the statistics use.
  \<open>dis\<close> is the value of \<open>CPU_IntDisMeasMaxGet\<close>, and \<open>OSStatTaskHook\<close> is left out.
\<close>

section \<open>State\<close>

record task_stat =
  CPUUsage :: u16
  CPUUsageMax :: u16
  CyclesDelta :: u32
  CyclesStart :: u32
  CyclesTotal :: u32
  CyclesTotalPrev :: u32
  SemPendTimeMax :: u32
  MsgQPendTimeMax :: u32
  IntDisTimeMax :: u32
  SchedLockTimeMax :: u32
  StkFree :: u32
  StkUsed :: u32

record stat =
  OSIdleTaskCtr :: u32
  OSStatTaskCtr :: u32
  OSStatTaskCtrRun :: u32
  OSStatTaskCtrMax :: u32
  OSStatTaskCPUUsage :: u16
  OSStatTaskCPUUsageMax :: u16
  OSStatTaskRdy :: bool
  OSStatResetFlag :: bool
  OSStatTaskTime :: u32
  OSStatTaskTimeMax :: u32
  OSTickTime :: u32
  OSTickTimeMax :: u32
  OSTmrTaskTime :: u32
  OSTmrTaskTimeMax :: u32
  OSIntDisTimeMax :: u32
  OSISRStkFree :: u32
  OSISRStkUsed :: u32
  task_stats :: "nat \<Rightarrow> task_stat"

definition OSCfg_StatTaskRate_Hz :: u32 where "OSCfg_StatTaskRate_Hz = 10"

definition set_task_stat :: "nat \<Rightarrow> (task_stat \<Rightarrow> task_stat) \<Rightarrow> stat \<Rightarrow> stat" where
  "set_task_stat a f st = st\<lparr>task_stats := (task_stats st)(a := f (task_stats st a))\<rparr>"

section \<open>Counting\<close>

text \<open>One round of the idle task.\<close>

definition OS_IdleTask_round :: "stat \<Rightarrow> stat" where
  "OS_IdleTask_round st = st\<lparr>OSIdleTaskCtr := OSIdleTaskCtr st + 1, OSStatTaskCtr := OSStatTaskCtr st + 1\<rparr>"

text \<open>The measurements at a switch from \<open>cur\<close> to \<open>hi\<close> at the time \<open>ts\<close>; \<open>dis\<close> and \<open>lock\<close> are the longest times with
  interrupts disabled and with the scheduler locked (\<open>OSSchedLockTimeMaxCur\<close>, which the hook then clears).\<close>

definition sw_profile :: "u32 \<Rightarrow> u32 \<Rightarrow> u32 \<Rightarrow> nat \<Rightarrow> nat \<Rightarrow> stat \<Rightarrow> stat" where
  "sw_profile ts dis lock cur hi st = (let
     st = (if cur \<noteq> hi then
             (let st = set_task_stat cur (\<lambda>t. t\<lparr>CyclesDelta := ts - CyclesStart t\<rparr>) st
              in set_task_stat cur (\<lambda>t. t\<lparr>CyclesTotal := CyclesTotal t + CyclesDelta t\<rparr>) st)
           else st);
     st = set_task_stat hi (\<lambda>t. t\<lparr>CyclesStart := ts\<rparr>) st;
     st = set_task_stat cur (\<lambda>t. if IntDisTimeMax t < dis then t\<lparr>IntDisTimeMax := dis\<rparr> else t) st
   in set_task_stat cur (\<lambda>t. if SchedLockTimeMax t < lock then t\<lparr>SchedLockTimeMax := lock\<rparr> else t) st)"

section \<open>Reset\<close>

text \<open>The loops over the tasks and over the message queues that were created.\<close>

definition reset_task :: "u32 \<Rightarrow> nat \<Rightarrow> kernel \<times> stat \<Rightarrow> kernel \<times> stat" where
  "reset_task ts a ks = (let (k, st) = ks in
     (k\<lparr>OSTCBs := (OSTCBs k)(a := (OSTCBs k a)\<lparr>CtxSwCtr := 0, MsgQ := (MsgQ (OSTCBs k a))\<lparr>MQ_NbrEntriesMax := 0\<rparr>\<rparr>)\<rparr>,
      set_task_stat a (\<lambda>t. t\<lparr>IntDisTimeMax := 0, SchedLockTimeMax := 0, MsgQPendTimeMax := 0, SemPendTimeMax := 0,
        CPUUsage := 0, CPUUsageMax := 0, CyclesTotal := 0, CyclesTotalPrev := 0, CyclesStart := ts\<rparr>) st))"

partial_function (option) reset_tasks :: "(nat \<Rightarrow> u32) \<Rightarrow> nat \<Rightarrow> ptr \<Rightarrow> kernel \<times> stat \<Rightarrow> (kernel \<times> stat) option" where
  "reset_tasks ts n p_tcb ks =
     (case p_tcb of
        None \<Rightarrow> Some ks
      | Some a \<Rightarrow> (let ks = reset_task (ts n) a ks
                   in reset_tasks ts (Suc n) (Tcb_DbgNextPtr (OSTCBs (fst ks) a)) ks))"

partial_function (option) reset_queues :: "ptr \<Rightarrow> kernel \<Rightarrow> kernel option" where
  "reset_queues p_q k =
     (case p_q of
        None \<Rightarrow> Some k
      | Some b \<Rightarrow> (let k = k\<lparr>OSQs := (OSQs k)(b := (OSQs k b)\<lparr>MQ_NbrEntriesMax := 0\<rparr>)\<rparr>
                   in reset_queues (Obj_DbgNextPtr (OSObjs k b)) k))"

definition OSStatReset :: "(nat \<Rightarrow> u32) \<Rightarrow> kernel \<times> stat \<Rightarrow> (OS_ERR \<times> kernel \<times> stat) option" where
  "OSStatReset ts ks = do {
     let (k, st) = ks;
     let st = st\<lparr>OSStatTaskCPUUsageMax := 0, OSStatTaskTimeMax := 0, OSTickTime := 0, OSTickTimeMax := 0,
       OSTmrTaskTime := 0, OSTmrTaskTimeMax := 0, OSIntDisTimeMax := 0\<rparr>;
     let k = k\<lparr>OSSchedLockTimeMax := 0, OSMsgPool := (OSMsgPool k)\<lparr>MP_NbrUsedMax := 0\<rparr>\<rparr>;
     (k, st) \<leftarrow> reset_tasks ts 0 (OSTaskDbgListPtr k) (k, st);
     k \<leftarrow> reset_queues (OSQDbgListPtr k) k;
     Some (OS_ERR_NONE, k, st)
   }"

section \<open>The capacity of the processor\<close>

text \<open>The ticks of one period of the statistics task.\<close>

definition stat_dly :: u32 where
  "stat_dly = (let dly = (if OSCfg_TickRate_Hz > OSCfg_StatTaskRate_Hz then OSCfg_TickRate_Hz div OSCfg_StatTaskRate_Hz
     else 0) in if dly = 0 then OSCfg_TickRate_Hz div 10 else dly)"

text \<open>\<open>OSStatTaskCPUUsageInit\<close> gives the processor up twice: at the delay that synchronises it with the tick and at
  the delay during which only the idle task runs. The three parts return the error if the function ends there.\<close>

definition OSStatTaskCPUUsageInit :: "kernel \<Rightarrow> (OS_ERR option \<times> kernel) option" where
  "OSStatTaskCPUUsageInit k =
     (if OSRunning k \<noteq> OS_STATE_OS_RUNNING then Some (Some OS_ERR_OS_NOT_RUNNING, k)
      else do {
        (err, k) \<leftarrow> OSTaskSuspend (Some OSTmrTaskTCB) k;
        if err \<noteq> OS_ERR_NONE then Some (Some err, k)
        else do {
          (err, k) \<leftarrow> OSTimeDly 2 OS_OPT_TIME_DLY k;
          Some (if err \<noteq> OS_ERR_NONE then Some err else None, k)
        }
      })"

definition OSStatTaskCPUUsageInit_count :: "kernel \<times> stat \<Rightarrow> (kernel \<times> stat) option" where
  "OSStatTaskCPUUsageInit_count ks = do {
     let (k, st) = ks;
     let st = st\<lparr>OSStatTaskCtr := 0\<rparr>;
     (_, k) \<leftarrow> OSTimeDly stat_dly OS_OPT_TIME_DLY k;
     Some (k, st)
   }"

definition OSStatTaskCPUUsageInit_end :: "kernel \<times> stat \<Rightarrow> (OS_ERR \<times> kernel \<times> stat) option" where
  "OSStatTaskCPUUsageInit_end ks = do {
     let (k, st) = ks;
     (err, k) \<leftarrow> OSTaskResume (Some OSTmrTaskTCB) k;
     if err \<noteq> OS_ERR_NONE then Some (err, k, st)
     else Some (OS_ERR_NONE, k, st\<lparr>OSStatTaskTimeMax := 0, OSStatTaskCtrMax := OSStatTaskCtr st, OSStatTaskRdy := True\<rparr>)
   }"

section \<open>The statistics task\<close>

text \<open>The factor and the divisor that keep the product of a part of \<open>cycles\<close> and 10000 within 32 bits.\<close>

definition usage_scale :: "u32 \<Rightarrow> u32 \<times> u32" where
  "usage_scale cycles =
     (if cycles < 400000 then (10000, 1)
      else if cycles < 4000000 then (1000, 10)
      else if cycles < 40000000 then (100, 100)
      else if cycles < 400000000 then (10, 1000)
      else (1, 10000))"

text \<open>The usage in units of 0.01 percent.\<close>

definition cpu_usage :: "u32 \<Rightarrow> u32 \<Rightarrow> u16" where
  "cpu_usage ctr_max run =
     (let (ctr_mult, ctr_div) = usage_scale ctr_max; ctr_max = ctr_max div ctr_div
      in ucast (10000 - ctr_mult * run div ctr_max))"

definition stat_overall :: "stat \<Rightarrow> stat" where
  "stat_overall st = (let
     st = st\<lparr>OSStatTaskCtrRun := OSStatTaskCtr st\<rparr>;
     st = st\<lparr>OSStatTaskCtr := 0\<rparr>
   in if OSStatTaskCtrMax st > OSStatTaskCtrRun st then
        (let st = st\<lparr>OSStatTaskCPUUsage := cpu_usage (OSStatTaskCtrMax st) (OSStatTaskCtrRun st)\<rparr>
         in if OSStatTaskCPUUsageMax st < OSStatTaskCPUUsage st
            then st\<lparr>OSStatTaskCPUUsageMax := OSStatTaskCPUUsage st\<rparr> else st)
      else st\<lparr>OSStatTaskCPUUsage := 0\<rparr>)"

text \<open>The sum of the cycles of all tasks; the count of each starts again.\<close>

partial_function (option) cycles_loop :: "ptr \<Rightarrow> u32 \<Rightarrow> kernel \<Rightarrow> stat \<Rightarrow> (u32 \<times> stat) option" where
  "cycles_loop p_tcb cycles_total k st =
     (case p_tcb of
        None \<Rightarrow> Some (cycles_total, st)
      | Some a \<Rightarrow> (let
            st = set_task_stat a (\<lambda>t. t\<lparr>CyclesTotalPrev := CyclesTotal t, CyclesTotal := 0\<rparr>) st
          in cycles_loop (Tcb_DbgNextPtr (OSTCBs k a)) (cycles_total + CyclesTotalPrev (task_stats st a)) k st))"

definition task_usage :: "u32 \<Rightarrow> u32 \<Rightarrow> u32 \<Rightarrow> u16" where
  "task_usage cycles_mult cycles_max cycles =
     (let usage = (ucast (cycles_mult * cycles div cycles_max) :: u16) in if usage > 10000 then 10000 else usage)"

partial_function (option) usage_loop :: "ptr \<Rightarrow> u32 \<Rightarrow> u32 \<Rightarrow> kernel \<Rightarrow> stat \<Rightarrow> stat option" where
  "usage_loop p_tcb cycles_mult cycles_max k st =
     (case p_tcb of
        None \<Rightarrow> Some st
      | Some a \<Rightarrow> do {
          let usage = task_usage cycles_mult cycles_max (CyclesTotalPrev (task_stats st a));
          let st = set_task_stat a (\<lambda>t. t\<lparr>CPUUsage := usage,
            CPUUsageMax := if CPUUsageMax t < usage then usage else CPUUsageMax t\<rparr>) st;
          (stk, _) \<leftarrow> OSTaskStkChk (Some a) True True k;
          let st = set_task_stat a (\<lambda>t. case stk of None \<Rightarrow> t
            | Some (stk_free, stk_used) \<Rightarrow> t\<lparr>StkFree := stk_free, StkUsed := stk_used\<rparr>) st;
          usage_loop (Tcb_DbgNextPtr (OSTCBs k a)) cycles_mult cycles_max k st
        })"

definition stat_tasks :: "kernel \<Rightarrow> stat \<Rightarrow> stat option" where
  "stat_tasks k st = do {
     (cycles_total, st) \<leftarrow> cycles_loop (OSTaskDbgListPtr k) 0 k st;
     let (cycles_mult, cycles_max) =
       (if cycles_total > 0
        then (let (cycles_mult, cycles_div) = usage_scale cycles_total in (cycles_mult, cycles_total div cycles_div))
        else (0, 1));
     usage_loop (OSTaskDbgListPtr k) cycles_mult cycles_max k st
   }"

definition stat_isr_stk :: "os_image \<Rightarrow> kernel \<Rightarrow> stat \<Rightarrow> stat" where
  "stat_isr_stk im k st = (let
     p_stk = OSCfg_ISRStk im + 4 * of_nat OS_CFG_TASK_STK_REDZONE_DEPTH;
     size_stk = OSCfg_ISRStkSize - of_nat OS_CFG_TASK_STK_REDZONE_DEPTH;
     free_stk = free_loop (unat size_stk) 0 p_stk (OSStkMem k)
   in st\<lparr>OSISRStkFree := free_stk, OSISRStkUsed := OSCfg_ISRStkSize - free_stk\<rparr>)"

text \<open>One round of the task: from its start at \<open>ts_start\<close> to its end at \<open>ts_end\<close>, where it delays itself.\<close>

definition OS_StatTask_round ::
  "os_image \<Rightarrow> u32 \<Rightarrow> u32 \<Rightarrow> (nat \<Rightarrow> u32) \<Rightarrow> u32 \<Rightarrow> kernel \<times> stat \<Rightarrow> (kernel \<times> stat) option" where
  "OS_StatTask_round im dis ts_start ts ts_end ks = do {
     let (k, st) = ks;
     let st = stat_overall (st\<lparr>OSIntDisTimeMax := dis\<rparr>);
     st \<leftarrow> stat_tasks k st;
     let st = stat_isr_stk im k st;
     (k, st) \<leftarrow>
       (if OSStatResetFlag st then do {
          (_, k, st) \<leftarrow> OSStatReset ts (k, st\<lparr>OSStatResetFlag := False\<rparr>);
          Some (k, st)
        } else Some (k, st));
     let st = st\<lparr>OSStatTaskTime := ts_end - ts_start\<rparr>;
     let st = (if OSStatTaskTimeMax st < OSStatTaskTime st then st\<lparr>OSStatTaskTimeMax := OSStatTaskTime st\<rparr> else st);
     (_, k) \<leftarrow> OSTimeDly stat_dly OS_OPT_TIME_DLY k;
     Some (k, st)
   }"

section \<open>Scaling\<close>

text \<open>The scaled product fits into 32 bits and the quotient is the part of the whole in units of 0.01 percent, at
  most a quarter of a unit too large before it is rounded down.\<close>

lemma scale_bounds:
  assumes n: "0 < unat n" and sc: "usage_scale n = (mu, d)"
  defines "q \<equiv> unat n div unat d"
  shows "unat mu * unat n < 2 ^ 32" "0 < q" "unat mu * unat d = 10000" "unat n \<le> unat d * q + (unat d - 1)"
    "0 < unat d" "1 < unat d \<Longrightarrow> 40000 \<le> q" "unat d * q \<le> unat n"
proof -
  have c: "unat n < 400000 \<and> mu = 10000 \<and> d = 1 \<or>
     400000 \<le> unat n \<and> unat n < 4000000 \<and> mu = 1000 \<and> d = 10 \<or>
     4000000 \<le> unat n \<and> unat n < 40000000 \<and> mu = 100 \<and> d = 100 \<or>
     40000000 \<le> unat n \<and> unat n < 400000000 \<and> mu = 10 \<and> d = 1000 \<or>
     400000000 \<le> unat n \<and> mu = 1 \<and> d = 10000"
    using sc by (auto simp: usage_scale_def word_less_nat_alt split: if_splits)
  have b: "unat n < 4294967296" using unsigned_less [where ?'a = nat, of n] by simp
  show "unat mu * unat n < 2 ^ 32" using c b by auto
  show q: "unat mu * unat d = 10000" "0 < unat d" using c by auto
  have "unat n = unat d * q + unat n mod unat d" by (simp add: q_def)
  moreover have "unat n mod unat d < unat d" using q(2) by simp
  ultimately show "unat n \<le> unat d * q + (unat d - 1)" "unat d * q \<le> unat n" by linarith+
  show "1 < unat d \<Longrightarrow> 40000 \<le> q" using c by (auto simp: q_def)
  show "0 < q" using c n by (auto simp: q_def div_greater_zero_iff)
qed

text \<open>A part \<open>r\<close> of \<open>n\<close>.\<close>

lemma scaled_part:
  assumes n: "0 < unat n" and sc: "usage_scale n = (mu, d)" and r: "unat r \<le> unat n"
  shows "unat (mu * r div (n div d)) = unat mu * unat r div (unat n div unat d)"
    "unat mu * unat r div (unat n div unat d) \<le> 10000"
proof -
  note S = scale_bounds [OF n sc]
  let ?q = "unat n div unat d"
  have "unat mu * unat r \<le> unat mu * unat n" using r by simp
  then have lt: "unat mu * unat r < 2 ^ 32" using S(1) by linarith
  then have "unat (mu * r) = unat mu * unat r" by (simp add: unat_word_ariths)
  then show "unat (mu * r div (n div d)) = unat mu * unat r div ?q" by (simp add: unat_div)
  have "unat mu * unat r \<le> unat mu * (unat d * ?q + (unat d - 1))"
    using r S(4) by (meson le_trans mult_le_mono2)
  also have "\<dots> = 10000 * ?q + unat mu * (unat d - 1)" using S(3) by (simp add: distrib_left mult.assoc [symmetric])
  also have "\<dots> < 10000 * ?q + ?q"
  proof (cases "1 < unat d")
    case True
    have "unat mu * (unat d - 1) \<le> unat mu * unat d" by simp
    then show ?thesis using S(3) S(6) [OF True] by linarith
  next
    case False
    then show ?thesis using S(2) S(5) by simp
  qed
  finally have "unat mu * unat r < ?q * Suc 10000" by simp
  then show "unat mu * unat r div ?q \<le> 10000" using S(2) by (simp add: div_less_iff_less_mult mult.commute less_Suc_eq_le [symmetric])
qed

text \<open>The rounded quotient is right up to one unit below and a quarter of a unit above.\<close>

lemma scaled_error:
  fixes r :: u32
  assumes n: "0 < unat n" and sc: "usage_scale n = (mu, d)" and r: "unat r \<le> unat n"
    and v: "v = unat mu * unat r div (unat n div unat d)"
  shows "10000 * unat r \<le> (v + 1) * unat n" "4 * (v * unat n) \<le> 40000 * unat r + unat n"
proof -
  note S = scale_bounds [OF n sc]
  let ?q = "unat n div unat d"
  have m: "unat mu * unat r = v * ?q + unat mu * unat r mod ?q"
    unfolding v by (rule div_mult_mod_eq [symmetric])
  moreover have "unat mu * unat r mod ?q < ?q" using S(2) by simp
  ultimately have lt: "unat mu * unat r \<le> (v + 1) * ?q" by simp
  have e: "10000 * unat r = unat d * (unat mu * unat r)" using S(3) by (simp add: mult_ac)
  also have "\<dots> \<le> unat d * ((v + 1) * ?q)" using lt by (rule mult_le_mono2)
  also have "\<dots> = (v + 1) * (unat d * ?q)" by (simp add: algebra_simps)
  also have "\<dots> \<le> (v + 1) * unat n" using S(7) by (rule mult_le_mono2)
  finally show "10000 * unat r \<le> (v + 1) * unat n" .
  have "v * unat n \<le> v * (unat d * ?q + (unat d - 1))" using S(4) by (rule mult_le_mono2)
  also have "\<dots> = unat d * (v * ?q) + v * (unat d - 1)" by (simp add: algebra_simps)
  also have "\<dots> \<le> unat d * (unat mu * unat r) + v * (unat d - 1)" using m by simp
  finally have a: "v * unat n \<le> 10000 * unat r + v * (unat d - 1)" unfolding e .
  have "4 * (v * (unat d - 1)) \<le> unat n"
  proof (cases "1 < unat d")
    case True
    have "v \<le> 10000" using scaled_part(2) [OF n sc r] v by simp
    then have "4 * v * (unat d - 1) \<le> 40000 * unat d" by (intro mult_le_mono) simp_all
    also have "\<dots> \<le> ?q * unat d" using S(6) [OF True] by simp
    finally have "4 * (v * (unat d - 1)) \<le> unat d * ?q" by (simp add: mult_ac)
    then show ?thesis using S(7) by (rule order_trans)
  qed (use S(5) in simp)
  then show "4 * (v * unat n) \<le> 40000 * unat r + unat n" using a by linarith
qed

lemma cpu_usage_spec:
  assumes "unat run < unat ctr_max"
  obtains v where "unat (cpu_usage ctr_max run) = 10000 - v" "v \<le> 10000" "10000 * unat run \<le> (v + 1) * unat ctr_max"
    "4 * (v * unat ctr_max) \<le> 40000 * unat run + unat ctr_max"
proof -
  obtain mu d where sc: "usage_scale ctr_max = (mu, d)" by fastforce
  have n: "0 < unat ctr_max" and r: "unat run \<le> unat ctr_max" using assms by simp_all
  let ?v = "unat mu * unat run div (unat ctr_max div unat d)"
  note P = scaled_part [OF n sc r]
  let ?w = "mu * run div (ctr_max div d)"
  have "?w \<le> 10000" using P by (simp add: word_le_nat_alt)
  then have "unat (10000 - ?w) = 10000 - ?v" using P by (simp add: unat_sub)
  then have "unat (cpu_usage ctr_max run) = 10000 - ?v"
    using P(2) by (simp add: cpu_usage_def sc unsigned_ucast_eq take_bit_nat_eq_self)
  then show thesis using P(2) scaled_error [OF n sc r refl] by (intro that)
qed

section \<open>Lists of tasks\<close>

text \<open>The created tasks are linked through their debug pointers.\<close>

abbreviation dbg_tasks :: "kernel \<Rightarrow> ptr \<Rightarrow> nat list \<Rightarrow> bool" where
  "dbg_tasks k \<equiv> sll (\<lambda>a. Tcb_DbgNextPtr (OSTCBs k a))"

lemma set_task_stat_sel [simp]:
  "task_stats (set_task_stat a f st) c = (if c = a then f (task_stats st a) else task_stats st c)"
  by (simp add: set_task_stat_def)

lemma cycles_loop_spec:
  assumes "dbg_tasks k p xs"
  shows "\<exists>st'. cycles_loop p w k st = Some (w + (\<Sum>a\<leftarrow>xs. CyclesTotal (task_stats st a)), st') \<and>
    (\<forall>a. task_stats st' a = (if a \<in> set xs then (task_stats st a)\<lparr>CyclesTotalPrev := CyclesTotal (task_stats st a),
       CyclesTotal := 0\<rparr> else task_stats st a))"
  using assms
proof (induction xs arbitrary: p w st)
  case Nil
  then show ?case by (subst cycles_loop.simps) simp
next
  case (Cons x xs)
  let ?st = "set_task_stat x (\<lambda>t. t\<lparr>CyclesTotalPrev := CyclesTotal t, CyclesTotal := 0\<rparr>) st"
  have x: "p = Some x" "x \<notin> set xs" "dbg_tasks k (Tcb_DbgNextPtr (OSTCBs k x)) xs"
    using Cons.prems by (auto simp: sll_Cons)
  have o: "task_stats ?st a = task_stats st a" if "a \<in> set xs" for a using that x(2) by auto
  have e: "map (\<lambda>a. CyclesTotal (task_stats ?st a)) xs = map (\<lambda>a. CyclesTotal (task_stats st a)) xs"
    by (rule map_cong [OF refl]) (simp only: o)
  have s: "cycles_loop p w k st = cycles_loop (Tcb_DbgNextPtr (OSTCBs k x)) (w + CyclesTotal (task_stats st x)) k ?st"
    using x(1) by (subst cycles_loop.simps) (simp add: Let_def)
  from Cons.IH [OF x(3), of "w + CyclesTotal (task_stats st x)" ?st] obtain st' where
    st': "cycles_loop (Tcb_DbgNextPtr (OSTCBs k x)) (w + CyclesTotal (task_stats st x)) k ?st =
      Some (w + CyclesTotal (task_stats st x) + (\<Sum>a\<leftarrow>xs. CyclesTotal (task_stats ?st a)), st')"
    "\<And>a. task_stats st' a = (if a \<in> set xs then (task_stats ?st a)\<lparr>CyclesTotalPrev := CyclesTotal (task_stats ?st a),
       CyclesTotal := 0\<rparr> else task_stats ?st a)" by blast
  have "task_stats st' a = (if a \<in> set (x # xs) then (task_stats st a)\<lparr>CyclesTotalPrev := CyclesTotal (task_stats st a),
       CyclesTotal := 0\<rparr> else task_stats st a)" for a
    unfolding st'(2) using x(2) o [of a] by (cases "a = x"; cases "a \<in> set xs") auto
  moreover have "cycles_loop p w k st = Some (w + (\<Sum>a\<leftarrow>x # xs. CyclesTotal (task_stats st a)), st')"
    unfolding s st'(1) e by (simp add: add.assoc)
  ultimately show ?case by blast
qed

lemma OSTaskStkChk_returns: "\<exists>r e. OSTaskStkChk (Some a) True True k = Some (r, e)"
  by (auto simp: OSTaskStkChk_def tcb_def Let_def)

lemma usage_loop_spec:
  assumes "dbg_tasks k p xs"
  shows "\<exists>st'. usage_loop p mu q k st = Some st' \<and>
    (\<forall>a\<in>set xs. CPUUsage (task_stats st' a) = task_usage mu q (CyclesTotalPrev (task_stats st a)) \<and>
       CPUUsageMax (task_stats st' a) = max (CPUUsageMax (task_stats st a)) (CPUUsage (task_stats st' a)) \<and>
       CyclesTotal (task_stats st' a) = CyclesTotal (task_stats st a) \<and>
       CyclesTotalPrev (task_stats st' a) = CyclesTotalPrev (task_stats st a)) \<and>
    (\<forall>a. a \<notin> set xs \<longrightarrow> task_stats st' a = task_stats st a)"
  using assms
proof (induction xs arbitrary: p st)
  case Nil
  then show ?case by (subst usage_loop.simps) simp
next
  case (Cons x xs)
  have x: "p = Some x" "x \<notin> set xs" "dbg_tasks k (Tcb_DbgNextPtr (OSTCBs k x)) xs"
    using Cons.prems by (auto simp: sll_Cons)
  obtain r e where r: "OSTaskStkChk (Some x) True True k = Some (r, e)"
    using OSTaskStkChk_returns by blast
  let ?u = "task_usage mu q (CyclesTotalPrev (task_stats st x))"
  let ?f = "\<lambda>t. case r of None \<Rightarrow> t | Some (stk_free, stk_used) \<Rightarrow> t\<lparr>StkFree := stk_free, StkUsed := stk_used\<rparr>"
  let ?st = "set_task_stat x ?f (set_task_stat x (\<lambda>t. t\<lparr>CPUUsage := ?u,
    CPUUsageMax := if CPUUsageMax t < ?u then ?u else CPUUsageMax t\<rparr>) st)"
  have f: "CPUUsage (?f t) = CPUUsage t" "CPUUsageMax (?f t) = CPUUsageMax t" "CyclesTotal (?f t) = CyclesTotal t"
    "CyclesTotalPrev (?f t) = CyclesTotalPrev t" for t by (simp_all split: option.split)
  have s: "usage_loop p mu q k st = usage_loop (Tcb_DbgNextPtr (OSTCBs k x)) mu q k ?st"
    using x(1) r by (subst usage_loop.simps) (simp add: Let_def)
  from Cons.IH [OF x(3), of ?st] obtain st' where
    st': "usage_loop (Tcb_DbgNextPtr (OSTCBs k x)) mu q k ?st = Some st'"
    "\<forall>a\<in>set xs. CPUUsage (task_stats st' a) = task_usage mu q (CyclesTotalPrev (task_stats ?st a)) \<and>
       CPUUsageMax (task_stats st' a) = max (CPUUsageMax (task_stats ?st a)) (CPUUsage (task_stats st' a)) \<and>
       CyclesTotal (task_stats st' a) = CyclesTotal (task_stats ?st a) \<and>
       CyclesTotalPrev (task_stats st' a) = CyclesTotalPrev (task_stats ?st a)"
    "\<forall>a. a \<notin> set xs \<longrightarrow> task_stats st' a = task_stats ?st a" by blast
  have "task_stats st' x = task_stats ?st x" using st'(3) x(2) by blast
  then have "CPUUsage (task_stats st' x) = ?u" "CPUUsageMax (task_stats st' x) = max (CPUUsageMax (task_stats st x)) ?u"
    "CyclesTotal (task_stats st' x) = CyclesTotal (task_stats st x)"
    "CyclesTotalPrev (task_stats st' x) = CyclesTotalPrev (task_stats st x)" by (auto simp: f max_def not_less)
  moreover have o: "task_stats ?st a = task_stats st a" if "a \<noteq> x" for a using that by simp
  have "CPUUsage (task_stats st' a) = task_usage mu q (CyclesTotalPrev (task_stats st a)) \<and>
       CPUUsageMax (task_stats st' a) = max (CPUUsageMax (task_stats st a)) (CPUUsage (task_stats st' a)) \<and>
       CyclesTotal (task_stats st' a) = CyclesTotal (task_stats st a) \<and>
       CyclesTotalPrev (task_stats st' a) = CyclesTotalPrev (task_stats st a)" if "a \<in> set xs" for a
  proof -
    have "a \<noteq> x" using that x(2) by blast
    from st'(2) [rule_format, OF that] show ?thesis unfolding o [OF \<open>a \<noteq> x\<close>] .
  qed
  moreover have "task_stats st' a = task_stats st a" if "a \<notin> set (x # xs)" for a
  proof -
    have a: "a \<notin> set xs" "a \<noteq> x" using that by simp_all
    show ?thesis using st'(3) [rule_format, OF a(1)] unfolding o [OF a(2)] .
  qed
  ultimately show ?case using s st'(1) by (intro exI [of _ st'] conjI ballI allI impI) auto
qed

section \<open>Properties\<close>

lemma stat_overall_sel:
  "OSStatTaskCtr (stat_overall st) = 0" "OSStatTaskCtrRun (stat_overall st) = OSStatTaskCtr st"
  "OSStatTaskCPUUsageMax (stat_overall st) = max (OSStatTaskCPUUsageMax st) (OSStatTaskCPUUsage (stat_overall st))"
  "OSStatTaskCPUUsage (stat_overall st) = (if OSStatTaskCtr st < OSStatTaskCtrMax st
     then cpu_usage (OSStatTaskCtrMax st) (OSStatTaskCtr st) else 0)"
  by (auto simp: stat_overall_def Let_def max_def)

lemma usage_from_idle:
  fixes u v run mx :: nat
  assumes "v \<le> 10000" "u = 10000 - v" "10000 * run \<le> (v + 1) * mx" "4 * (v * mx) \<le> 40000 * run + mx" "run < mx"
  shows "10000 * (mx - run) \<le> u * mx + mx div 4" "u * mx \<le> 10000 * (mx - run) + mx"
proof -
  have "u * mx = 10000 * mx - v * mx" by (simp add: assms(2) diff_mult_distrib)
  moreover have "v * mx \<le> 10000 * mx" using assms(1) by simp
  moreover have "10000 * (mx - run) = 10000 * mx - 10000 * run" by (simp add: diff_mult_distrib2)
  moreover have "10000 * run \<le> 10000 * mx" using assms(5) by simp
  moreover have "10000 * run \<le> v * mx + mx" using assms(3) by simp
  ultimately show "10000 * (mx - run) \<le> u * mx + mx div 4" "u * mx \<le> 10000 * (mx - run) + mx"
    using assms(4) by linarith+
qed

text \<open>C32: The usage of the processor that the statistics task computes lies between 0 and 10000, it differs by at
  most one unit (0.01 percent) from \<open>10000 * (mx - run) / mx\<close> for every pair of counts, up to the full range of 32
  bits, so that no intermediate product overflows; the peak is kept and the counter starts again.\<close>

theorem stat_overall_exact:
  "let st' = stat_overall st; run = unat (OSStatTaskCtr st); mx = unat (OSStatTaskCtrMax st); u = unat (OSStatTaskCPUUsage st') in
   u \<le> 10000 \<and>
   (if run < mx then 10000 * (mx - run) \<le> u * mx + mx div 4 \<and> u * mx \<le> 10000 * (mx - run) + mx else u = 0) \<and>
   OSStatTaskCtr st' = 0 \<and> OSStatTaskCtrRun st' = OSStatTaskCtr st \<and>
   OSStatTaskCPUUsageMax st' = max (OSStatTaskCPUUsageMax st) (OSStatTaskCPUUsage st')"
proof (cases "unat (OSStatTaskCtr st) < unat (OSStatTaskCtrMax st)")
  case True
  then have lt: "OSStatTaskCtr st < OSStatTaskCtrMax st" by (simp add: word_less_nat_alt)
  obtain v where v: "unat (cpu_usage (OSStatTaskCtrMax st) (OSStatTaskCtr st)) = 10000 - v" "v \<le> 10000"
      "10000 * unat (OSStatTaskCtr st) \<le> (v + 1) * unat (OSStatTaskCtrMax st)"
      "4 * (v * unat (OSStatTaskCtrMax st)) \<le> 40000 * unat (OSStatTaskCtr st) + unat (OSStatTaskCtrMax st)"
    using cpu_usage_spec [OF True] by blast
  note E = usage_from_idle [OF v(2,1,3,4) True]
  show ?thesis unfolding Let_def stat_overall_sel(1-3) if_P [OF True] stat_overall_sel(4) if_P [OF lt]
    using E v(1) by (intro conjI refl) simp_all
next
  case False
  then have "\<not> OSStatTaskCtr st < OSStatTaskCtrMax st" by (simp add: word_less_nat_alt)
  then show ?thesis using False by (simp add: stat_overall_sel)
qed

lemma unat_sum_list:
  fixes ws :: "u32 list"
  shows "(\<Sum>w\<leftarrow>ws. unat w) < 2 ^ 32 \<Longrightarrow> unat (sum_list ws) = (\<Sum>w\<leftarrow>ws. unat w)"
  by (induction ws) (simp_all add: unat_word_ariths)

lemma sum_list_div_le: "(\<Sum>x\<leftarrow>xs. f x div q) \<le> (\<Sum>x\<leftarrow>xs. f x) div (q :: nat)"
proof (induction xs)
  case (Cons x xs)
  have "f x div q + (\<Sum>x\<leftarrow>xs. f x) div q \<le> (f x + (\<Sum>x\<leftarrow>xs. f x)) div q" by (subst div_add1_eq) simp
  with Cons show ?case by simp
qed simp

lemma task_usage_scaled:
  assumes n: "0 < unat n" and sc: "usage_scale n = (mu, d)" and c: "unat c \<le> unat n"
  shows "unat (task_usage mu (n div d) c) = unat mu * unat c div (unat n div unat d)"
proof -
  note P = scaled_part [OF n sc c]
  have u: "unat (ucast (mu * c div (n div d)) :: u16) = unat mu * unat c div (unat n div unat d)"
    using P by (simp add: unsigned_ucast_eq take_bit_nat_eq_self)
  then have "\<not> (ucast (mu * c div (n div d)) :: u16) > 10000" using P(2) by (simp add: word_less_nat_alt not_less)
  then show ?thesis using u by (simp add: task_usage_def)
qed

text \<open>C33: As long as the cycles counted since the last round fit into 32 bits, the usages of the tasks are right up
  to one unit of 0.01 percent and together they are at most 100 percent; the round ends for every list of tasks and the
  counts of all tasks start again.\<close>

theorem stat_tasks_usages:
  assumes l: "dbg_tasks k (OSTaskDbgListPtr k) xs"
    and b: "(\<Sum>a\<leftarrow>xs. unat (CyclesTotal (task_stats st a))) < 2 ^ 32"
  shows "\<exists>st'. stat_tasks k st = Some st' \<and> (\<Sum>a\<leftarrow>xs. unat (CPUUsage (task_stats st' a))) \<le> 10000 \<and>
    (\<forall>a\<in>set xs. CyclesTotal (task_stats st' a) = 0 \<and>
       10000 * unat (CyclesTotal (task_stats st a)) \<le>
         (unat (CPUUsage (task_stats st' a)) + 1) * (\<Sum>a\<leftarrow>xs. unat (CyclesTotal (task_stats st a))) \<and>
       4 * (unat (CPUUsage (task_stats st' a)) * (\<Sum>a\<leftarrow>xs. unat (CyclesTotal (task_stats st a)))) \<le>
         40000 * unat (CyclesTotal (task_stats st a)) + (\<Sum>a\<leftarrow>xs. unat (CyclesTotal (task_stats st a))))"
proof -
  let ?c = "\<lambda>a. CyclesTotal (task_stats st a)"
  let ?C = "\<Sum>a\<leftarrow>xs. unat (?c a)"
  define n where "n = (\<Sum>a\<leftarrow>xs. ?c a)"
  have n: "unat n = ?C" using unat_sum_list [of "map ?c xs"] b by (simp add: n_def o_def)
  from cycles_loop_spec [OF l, of 0 st] obtain st1 where
    s1: "cycles_loop (OSTaskDbgListPtr k) 0 k st = Some (n, st1)"
      "\<And>a. a \<in> set xs \<Longrightarrow> CyclesTotalPrev (task_stats st1 a) = ?c a \<and> CyclesTotal (task_stats st1 a) = 0"
    by (auto simp: n_def)
  obtain mu d where sc: "usage_scale n = (mu, d)" by fastforce
  define mq where "mq = (if n > 0 then (mu, n div d) else (0, 1))"
  from usage_loop_spec [OF l, of "fst mq" "snd mq" st1] obtain st2 where
    s2: "usage_loop (OSTaskDbgListPtr k) (fst mq) (snd mq) k st1 = Some st2"
      "\<And>a. a \<in> set xs \<Longrightarrow> CPUUsage (task_stats st2 a) = task_usage (fst mq) (snd mq) (CyclesTotalPrev (task_stats st1 a)) \<and>
         CyclesTotal (task_stats st2 a) = CyclesTotal (task_stats st1 a)" by blast
  have run: "stat_tasks k st = Some st2"
    using s1(1) s2(1) by (simp add: stat_tasks_def sc mq_def Let_def split: if_splits)
  have use: "CPUUsage (task_stats st2 a) = task_usage (fst mq) (snd mq) (?c a)" "CyclesTotal (task_stats st2 a) = 0"
    if "a \<in> set xs" for a using s1(2) [OF that] s2(2) [OF that] by simp_all
  have le: "unat (?c a) \<le> unat n" if "a \<in> set xs" for a
    unfolding n using that by (simp add: member_le_sum_list)
  show ?thesis
  proof (cases "0 < unat n")
    case True
    then have mq: "mq = (mu, n div d)" by (simp add: mq_def word_less_nat_alt)
    have u: "unat (CPUUsage (task_stats st2 a)) = unat mu * unat (?c a) div (unat n div unat d)" if "a \<in> set xs" for a
      using task_usage_scaled [OF True sc le [OF that]] use(1) [OF that] by (simp add: mq)
    have "(\<Sum>a\<leftarrow>xs. unat (CPUUsage (task_stats st2 a))) = (\<Sum>a\<leftarrow>xs. unat mu * unat (?c a) div (unat n div unat d))"
      using u by (metis (no_types, lifting) map_eq_conv)
    also have "\<dots> \<le> (\<Sum>a\<leftarrow>xs. unat mu * unat (?c a)) div (unat n div unat d)" by (rule sum_list_div_le)
    also have "(\<Sum>a\<leftarrow>xs. unat mu * unat (?c a)) = unat mu * unat n" by (simp add: n sum_list_const_mult)
    also have "unat mu * unat n div (unat n div unat d) \<le> 10000" by (rule scaled_part(2) [OF True sc le_refl])
    finally have "(\<Sum>a\<leftarrow>xs. unat (CPUUsage (task_stats st2 a))) \<le> 10000" .
    moreover note scaled_error [OF True sc le u]
    ultimately show ?thesis unfolding n using run use(2) by blast
  next
    case False
    then have "mq = (0, 1)" by (simp add: mq_def word_less_nat_alt)
    then have u: "CPUUsage (task_stats st2 a) = 0" if "a \<in> set xs" for a
      using use(1) [OF that] by (simp add: task_usage_def)
    then have e: "(\<Sum>a\<leftarrow>xs. unat (CPUUsage (task_stats st2 a))) = (\<Sum>a\<leftarrow>xs. 0 :: nat)"
      by (metis (no_types, lifting) map_eq_conv unsigned_0)
    have "(\<Sum>a\<leftarrow>xs. unat (CPUUsage (task_stats st2 a))) \<le> 10000" unfolding e by simp
    moreover have "unat (?c a) = 0" if "a \<in> set xs" for a using le [OF that] False by simp
    ultimately show ?thesis using run use(2) u by (intro exI [of _ st2] conjI ballI) simp_all
  qed
qed

text \<open>Three tasks, linked from the last created one, of which one used three quarters of the time.\<close>

definition demo_stat :: stat where
  "demo_stat = \<lparr>OSIdleTaskCtr = 0, OSStatTaskCtr = 0, OSStatTaskCtrRun = 0, OSStatTaskCtrMax = 0, OSStatTaskCPUUsage = 0,
     OSStatTaskCPUUsageMax = 0, OSStatTaskRdy = True, OSStatResetFlag = False, OSStatTaskTime = 0, OSStatTaskTimeMax = 0,
     OSTickTime = 0, OSTickTimeMax = 0, OSTmrTaskTime = 0, OSTmrTaskTimeMax = 0, OSIntDisTimeMax = 0, OSISRStkFree = 0,
     OSISRStkUsed = 0, task_stats = (\<lambda>a. \<lparr>CPUUsage = 0, CPUUsageMax = 0, CyclesDelta = 0, CyclesStart = 0,
       CyclesTotal = (if a = 1 then 3000000 else if a = 0 then 1000000 else 0), CyclesTotalPrev = 0, SemPendTimeMax = 0,
       MsgQPendTimeMax = 0, IntDisTimeMax = 0, SchedLockTimeMax = 0, StkFree = 0, StkUsed = 0\<rparr>)\<rparr>"

definition demo_dbg :: kernel where
  "demo_dbg = demo\<lparr>OSTaskDbgListPtr := Some 2, OSTCBs := (\<lambda>a. (OSTCBs demo a)\<lparr>Tcb_DbgNextPtr :=
     (if a = 2 then Some 1 else if a = 1 then Some 0 else None)\<rparr>)\<rparr>"

lemma demo_dbg_tasks: "dbg_tasks demo_dbg (OSTaskDbgListPtr demo_dbg) [2, 1, 0]"
  by (simp add: sll_Cons demo_dbg_def)

theorem stat_tasks_usages_witness:
  "\<exists>st'. stat_tasks demo_dbg demo_stat = Some st' \<and> 7499 \<le> unat (CPUUsage (task_stats st' 1)) \<and>
     unat (CPUUsage (task_stats st' 1)) \<le> 7500"
proof -
  have b: "(\<Sum>a\<leftarrow>[2, 1, 0]. unat (CyclesTotal (task_stats demo_stat a))) < 2 ^ 32" by (simp add: demo_stat_def)
  from stat_tasks_usages [OF demo_dbg_tasks b] obtain st' where
    st': "stat_tasks demo_dbg demo_stat = Some st'" "\<forall>a\<in>set [2, 1, 0]. CyclesTotal (task_stats st' a) = 0 \<and>
       10000 * unat (CyclesTotal (task_stats demo_stat a)) \<le>
         (unat (CPUUsage (task_stats st' a)) + 1) * (\<Sum>a\<leftarrow>[2, 1, 0]. unat (CyclesTotal (task_stats demo_stat a))) \<and>
       4 * (unat (CPUUsage (task_stats st' a)) * (\<Sum>a\<leftarrow>[2, 1, 0]. unat (CyclesTotal (task_stats demo_stat a)))) \<le>
         40000 * unat (CyclesTotal (task_stats demo_stat a)) + (\<Sum>a\<leftarrow>[2, 1, 0]. unat (CyclesTotal (task_stats demo_stat a)))"
    by blast
  have "(1 :: nat) \<in> set [2, 1, 0]" by simp
  from st'(2) [rule_format, OF this] st'(1) show ?thesis by (simp add: demo_stat_def)
qed

section \<open>Accounting at context switches\<close>

text \<open>A sequence of switches, each with its time stamp, its measurements and the next task.\<close>

fun sw_run :: "(u32 \<times> u32 \<times> u32 \<times> nat) list \<Rightarrow> nat \<Rightarrow> stat \<Rightarrow> nat \<times> stat" where
  "sw_run [] cur st = (cur, st)"
| "sw_run ((ts, dis, lock, hi) # sws) cur st = sw_run sws hi (sw_profile ts dis lock cur hi st)"

fun all_switch :: "(u32 \<times> u32 \<times> u32 \<times> nat) list \<Rightarrow> nat \<Rightarrow> bool" where
  "all_switch [] cur = True"
| "all_switch ((ts, dis, lock, hi) # sws) cur = (hi \<noteq> cur \<and> all_switch sws hi)"

text \<open>The cycles credited to the tasks \<open>xs\<close> less the time the running task has its start from.\<close>

definition account :: "nat list \<Rightarrow> nat \<Rightarrow> stat \<Rightarrow> u32" where
  "account xs cur st = (\<Sum>a\<leftarrow>xs. CyclesTotal (task_stats st a)) - CyclesStart (task_stats st cur)"

lemma sum_list_upd:
  "distinct xs \<Longrightarrow> x \<in> set xs \<Longrightarrow> (\<Sum>a\<leftarrow>xs. if a = x then f a + d else f a) = (\<Sum>a\<leftarrow>xs. f a) + (d :: u32)"
proof (induction xs)
  case (Cons y xs)
  show ?case
  proof (cases "x = y")
    case True
    then have m: "map (\<lambda>a. if a = x then f a + d else f a) xs = map f xs" using Cons.prems by auto
    have "(\<Sum>a\<leftarrow>xs. if a = x then f a + d else f a) = (\<Sum>a\<leftarrow>xs. f a)" unfolding m ..
    then show ?thesis using True by (simp add: add_ac)
  next
    case False
    then show ?thesis using Cons by (simp add: add_ac)
  qed
qed simp

lemma sw_profile_account:
  assumes "distinct xs" "cur \<in> set xs" "hi \<noteq> cur"
  shows "account xs hi (sw_profile ts dis lock cur hi st) = account xs cur st"
    "CyclesStart (task_stats (sw_profile ts dis lock cur hi st) hi) = ts"
proof -
  let ?st = "sw_profile ts dis lock cur hi st"
  have "CyclesTotal (task_stats ?st a) = (if a = cur then CyclesTotal (task_stats st a) +
      (ts - CyclesStart (task_stats st cur)) else CyclesTotal (task_stats st a))" for a
    using assms(3) by (simp add: sw_profile_def Let_def)
  then have "(\<Sum>a\<leftarrow>xs. CyclesTotal (task_stats ?st a)) =
      (\<Sum>a\<leftarrow>xs. CyclesTotal (task_stats st a)) + (ts - CyclesStart (task_stats st cur))"
    using sum_list_upd [OF assms(1,2)] by simp
  moreover show h: "CyclesStart (task_stats ?st hi) = ts" using assms(3) by (simp add: sw_profile_def Let_def)
  ultimately show "account xs hi ?st = account xs cur st" by (simp add: account_def)
qed

text \<open>C34: Every cycle is credited to exactly one task: after any sequence of switches between the tasks the sum of
  their cycle counts has grown by the time between the first and the last switch, modulo \<open>2 ^ 32\<close>, whatever the
  counts and time stamps are and however often they wrap around.\<close>

theorem sw_run_accounts_all_cycles:
  assumes "distinct xs" "cur \<in> set xs" "\<forall>(ts, dis, lock, hi)\<in>set sws. hi \<in> set xs" "all_switch sws cur"
    and "sw_run sws cur st = (cur', st')"
  shows "cur' \<in> set xs \<and>
    (\<Sum>a\<leftarrow>xs. CyclesTotal (task_stats st' a)) = (\<Sum>a\<leftarrow>xs. CyclesTotal (task_stats st a)) +
      (CyclesStart (task_stats st' cur') - CyclesStart (task_stats st cur)) \<and>
    (if sws = [] then st' = st else CyclesStart (task_stats st' cur') = fst (last sws))"
proof -
  have "cur' \<in> set xs \<and> account xs cur' st' = account xs cur st \<and>
      (if sws = [] then st' = st else CyclesStart (task_stats st' cur') = fst (last sws))"
    using assms(2-)
  proof (induction sws arbitrary: cur st)
    case (Cons sw sws)
    obtain ts dis lock hi where sw: "sw = (ts, dis, lock, hi)" by (cases sw)
    have p: "hi \<in> set xs" "hi \<noteq> cur" using Cons.prems(2,3) by (auto simp: sw)
    note A = sw_profile_account [OF assms(1) Cons.prems(1) p(2), of ts dis lock st]
    have "cur' \<in> set xs \<and> account xs cur' st' = account xs hi (sw_profile ts dis lock cur hi st) \<and>
      (if sws = [] then st' = sw_profile ts dis lock cur hi st else CyclesStart (task_stats st' cur') = fst (last sws))"
      by (rule Cons.IH [OF p(1)]) (use Cons.prems in \<open>auto simp: sw\<close>)
    moreover have "cur' = hi" if "sws = []" using that Cons.prems(4) by (simp add: sw)
    ultimately show ?case using A by (auto simp: sw split: if_splits)
  qed simp
  then show ?thesis by (auto simp: account_def diff_eq_eq algebra_simps)
qed

lemma sw_run_accounts_all_cycles_witness:
  "(\<Sum>a\<leftarrow>[0, 1, 2]. CyclesTotal (task_stats (snd (sw_run [(0xFFFFFFF0, 5, 6, 2), (16, 0, 0, 0)] 1 demo_stat)) a)) =
   (\<Sum>a\<leftarrow>[0, 1, 2]. CyclesTotal (task_stats demo_stat a)) + 16"
proof -
  obtain cur' st' where r: "sw_run [(0xFFFFFFF0, 5, 6, 2), (16, 0, 0, 0)] 1 demo_stat = (cur', st')" by fastforce
  have p: "distinct [0, 1, 2 :: nat]" "1 \<in> set [0, 1, 2 :: nat]" "all_switch [(0xFFFFFFF0, 5, 6, 2), (16, 0, 0, 0)] 1"
    "\<forall>(ts, dis, lock, hi)\<in>set [(0xFFFFFFF0, 5, 6, 2), (16, 0, 0, 0)]. (hi :: nat) \<in> set [0, 1, 2]" by simp_all
  have "CyclesStart (task_stats demo_stat 1) = 0" by (simp add: demo_stat_def)
  with sw_run_accounts_all_cycles [OF p(1,2,4,3) r] show ?thesis unfolding r by (simp del: sw_run.simps)
qed

section \<open>Reset of the statistics\<close>

lemma reset_task_sel:
  assumes "reset_task t a (k, st) = (k', st')"
  shows "Tcb_DbgNextPtr (OSTCBs k' c) = Tcb_DbgNextPtr (OSTCBs k c)" "kinv k' A R W T \<longleftrightarrow> kinv k A R W T"
    "OSObjs k' = OSObjs k" "OSQDbgListPtr k' = OSQDbgListPtr k"
    "task_stats st' c = (if c = a then (task_stats st a)\<lparr>IntDisTimeMax := 0, SchedLockTimeMax := 0, MsgQPendTimeMax := 0,
       SemPendTimeMax := 0, CPUUsage := 0, CPUUsageMax := 0, CyclesTotal := 0, CyclesTotalPrev := 0, CyclesStart := t\<rparr>
       else task_stats st c)"
proof -
  have k': "k' = k\<lparr>OSTCBs := (OSTCBs k)(a := (OSTCBs k a)\<lparr>CtxSwCtr := 0, MsgQ := (MsgQ (OSTCBs k a))\<lparr>MQ_NbrEntriesMax := 0\<rparr>\<rparr>)\<rparr>"
    using assms by (simp add: reset_task_def)
  show "Tcb_DbgNextPtr (OSTCBs k' c) = Tcb_DbgNextPtr (OSTCBs k c)" "OSObjs k' = OSObjs k" "OSQDbgListPtr k' = OSQDbgListPtr k"
    by (simp_all add: k')
  show "kinv k' A R W T \<longleftrightarrow> kinv k A R W T" unfolding k'
    by (rule kinv_cong; (rule rdy_rel_cong pend_lists_cong tick_lists_cong)?; simp)
  show "task_stats st' c = (if c = a then (task_stats st a)\<lparr>IntDisTimeMax := 0, SchedLockTimeMax := 0, MsgQPendTimeMax := 0,
       SemPendTimeMax := 0, CPUUsage := 0, CPUUsageMax := 0, CyclesTotal := 0, CyclesTotalPrev := 0, CyclesStart := t\<rparr>
       else task_stats st c)" using assms by (auto simp: reset_task_def)
qed

lemma reset_tasks_spec:
  assumes "dbg_tasks k p xs"
  shows "\<exists>k' st'. reset_tasks ts n p (k, st) = Some (k', st') \<and> (kinv k' A R W T \<longleftrightarrow> kinv k A R W T) \<and>
    OSObjs k' = OSObjs k \<and> OSQDbgListPtr k' = OSQDbgListPtr k \<and>
    (\<forall>a\<in>set xs. CPUUsage (task_stats st' a) = 0 \<and> CPUUsageMax (task_stats st' a) = 0 \<and> CyclesTotal (task_stats st' a) = 0) \<and>
    (\<forall>a. a \<notin> set xs \<longrightarrow> task_stats st' a = task_stats st a)"
  using assms
proof (induction xs arbitrary: p n k st)
  case Nil
  then show ?case by (subst reset_tasks.simps) simp
next
  case (Cons x xs)
  obtain k1 st1 where r: "reset_task (ts n) x (k, st) = (k1, st1)" by fastforce
  note S = reset_task_sel [OF r]
  have x: "p = Some x" "x \<notin> set xs" "dbg_tasks k1 (Tcb_DbgNextPtr (OSTCBs k1 x)) xs"
    using Cons.prems by (simp_all add: sll_Cons S(1))
  have s: "reset_tasks ts n p (k, st) = reset_tasks ts (Suc n) (Tcb_DbgNextPtr (OSTCBs k1 x)) (k1, st1)"
    using x(1) r by (subst reset_tasks.simps) (simp add: Let_def)
  from Cons.IH [OF x(3), of "Suc n" st1] obtain k' st' where
    k': "reset_tasks ts (Suc n) (Tcb_DbgNextPtr (OSTCBs k1 x)) (k1, st1) = Some (k', st')"
      "kinv k' A R W T \<longleftrightarrow> kinv k1 A R W T" "OSObjs k' = OSObjs k1" "OSQDbgListPtr k' = OSQDbgListPtr k1"
      "\<forall>a\<in>set xs. CPUUsage (task_stats st' a) = 0 \<and> CPUUsageMax (task_stats st' a) = 0 \<and> CyclesTotal (task_stats st' a) = 0"
      "\<forall>a. a \<notin> set xs \<longrightarrow> task_stats st' a = task_stats st1 a" by blast
  have "task_stats st' x = task_stats st1 x" using k'(6) x(2) by blast
  with S(5) [of x] have "CPUUsage (task_stats st' x) = 0 \<and> CPUUsageMax (task_stats st' x) = 0 \<and> CyclesTotal (task_stats st' x) = 0"
    by simp
  with k' show ?case unfolding s by (intro exI [of _ k'] exI [of _ st']) (simp add: S)
qed

lemma reset_queues_spec:
  assumes "sll (\<lambda>b. Obj_DbgNextPtr (OSObjs k b)) p qs"
  shows "\<exists>q. reset_queues p k = Some (k\<lparr>OSQs := q\<rparr>)"
  using assms
proof (induction qs arbitrary: p k)
  case Nil
  then show ?case by (subst reset_queues.simps) (auto intro!: exI [of _ "OSQs k"])
next
  case (Cons x qs)
  let ?k = "k\<lparr>OSQs := (OSQs k)(x := (OSQs k x)\<lparr>MQ_NbrEntriesMax := 0\<rparr>)\<rparr>"
  have "p = Some x" "sll (\<lambda>b. Obj_DbgNextPtr (OSObjs ?k b)) (Obj_DbgNextPtr (OSObjs ?k x)) qs"
    using Cons.prems by (simp_all add: sll_Cons)
  with Cons.IH [OF this(2)] show ?case by (subst reset_queues.simps) (auto simp: Let_def)
qed

text \<open>The reset ends, leaves the lists of the kernel alone and clears the usages of all tasks.\<close>

theorem OSStatReset_ends:
  assumes "dbg_tasks k (OSTaskDbgListPtr k) xs" "sll (\<lambda>b. Obj_DbgNextPtr (OSObjs k b)) (OSQDbgListPtr k) qs"
    and K: "kinv k A R W T"
  shows "\<exists>k' st'. OSStatReset ts (k, st) = Some (OS_ERR_NONE, k', st') \<and> kinv k' A R W T \<and>
    (\<forall>a\<in>set xs. CPUUsage (task_stats st' a) = 0 \<and> CPUUsageMax (task_stats st' a) = 0 \<and> CyclesTotal (task_stats st' a) = 0)"
proof -
  let ?st = "st\<lparr>OSStatTaskCPUUsageMax := 0, OSStatTaskTimeMax := 0, OSTickTime := 0, OSTickTimeMax := 0,
       OSTmrTaskTime := 0, OSTmrTaskTimeMax := 0, OSIntDisTimeMax := 0\<rparr>"
  let ?k = "k\<lparr>OSSchedLockTimeMax := 0, OSMsgPool := (OSMsgPool k)\<lparr>MP_NbrUsedMax := 0\<rparr>\<rparr>"
  have K1: "kinv ?k A R W T \<longleftrightarrow> kinv k A R W T"
    by (rule kinv_cong; (rule rdy_rel_cong pend_lists_cong tick_lists_cong)?; simp)
  have "dbg_tasks ?k (OSTaskDbgListPtr ?k) xs" using assms(1) by simp
  from reset_tasks_spec [OF this, of ts 0 ?st A R W T] obtain k1 st1 where
    s1: "reset_tasks ts 0 (OSTaskDbgListPtr ?k) (?k, ?st) = Some (k1, st1)" "kinv k1 A R W T \<longleftrightarrow> kinv ?k A R W T"
      "OSObjs k1 = OSObjs ?k" "OSQDbgListPtr k1 = OSQDbgListPtr ?k"
      "\<forall>a\<in>set xs. CPUUsage (task_stats st1 a) = 0 \<and> CPUUsageMax (task_stats st1 a) = 0 \<and> CyclesTotal (task_stats st1 a) = 0"
    by blast
  from reset_queues_spec [of k1 "OSQDbgListPtr k1" qs] s1(3,4) assms(2) obtain q where
    q: "reset_queues (OSQDbgListPtr k1) k1 = Some (k1\<lparr>OSQs := q\<rparr>)" by auto
  have "kinv (k1\<lparr>OSQs := q\<rparr>) A R W T \<longleftrightarrow> kinv k1 A R W T"
    by (rule kinv_cong; (rule rdy_rel_cong pend_lists_cong tick_lists_cong)?; simp)
  then show ?thesis using s1 q K K1
    by (intro exI [of _ "k1\<lparr>OSQs := q\<rparr>"] exI [of _ st1]) (simp add: OSStatReset_def)
qed

end
