(* ===== verification/Sys_Arch.thy ===== *)
theory Sys_Arch
  imports Os_Sem Os_Q Os_Task
begin

text \<open>
  The system layer of lwIP on the kernel (\<open>Lwip-2.1.2/arch/sys_arch.c\<close>): locks, semaphores, mailboxes and
  threads. A mailbox is a queue of messages and a semaphore that counts its free places. \<open>LWIP_ASSERT\<close> is
  switched off (\<open>LWIP_NOASSERT\<close> in \<open>arch/cc.h\<close>), as is \<open>LWIP_STATS\<close>. A call that has to wait returns \<open>Blocked\<close>;
  the rest of it is the definition with the suffix \<open>_resume\<close>. \<open>ts\<close> are the time stamps of the kernel calls.
\<close>

section \<open>Types\<close>

datatype err_t = ERR_OK | ERR_MEM

definition SYS_ARCH_TIMEOUT :: u32 where "SYS_ARCH_TIMEOUT = 0xFFFFFFFF"
definition SYS_MBOX_EMPTY :: u32 where "SYS_MBOX_EMPTY = SYS_ARCH_TIMEOUT"

record sys_mbox =
  msg_queen :: nat
  msg_sem :: nat

definition LwIP_Mutex_Arch :: nat where "LwIP_Mutex_Arch = 1010"
definition TCPIP_TaskTCB :: nat where "TCPIP_TaskTCB = 1011"

text \<open>The result of a wait that may go on later.\<close>

fun then_done :: "('a \<Rightarrow> kernel \<Rightarrow> ('b \<times> kernel) option) \<Rightarrow> 'a pend_outcome \<times> kernel \<Rightarrow>
    ('b pend_outcome \<times> kernel) option" where
  "then_done f (Blocked, s) = Some (Blocked, s)"
| "then_done f (Done x, s) = map_option (\<lambda>(y, s). (Done y, s)) (f x s)"

section \<open>Time, protection, mutexes\<close>

definition sys_init :: "kernel \<Rightarrow> kernel option" where
  "sys_init s = do { (_, s) \<leftarrow> OSMutexCreate (Some LwIP_Mutex_Arch) ''LwIP Mutex Arch'' s; Some s }"

definition sys_now :: "kernel \<Rightarrow> u32" where "sys_now s = OSTickCtr s"
definition sys_jiffies :: "kernel \<Rightarrow> u32" where "sys_jiffies s = OSTickCtr s"

definition sys_arch_protect :: "kernel \<Rightarrow> (u32 pend_outcome \<times> kernel) option" where
  "sys_arch_protect s = do {
     r \<leftarrow> OSMutexPend (Some LwIP_Mutex_Arch) 0 OS_OPT_PEND_BLOCKING s;
     then_done (\<lambda>_ s. Some (1, s)) r
   }"

definition sys_arch_unprotect :: "u32 \<Rightarrow> u32 \<Rightarrow> kernel \<Rightarrow> kernel option" where
  "sys_arch_unprotect pval ts s = do {
     (_, s) \<leftarrow> OSMutexPost (Some LwIP_Mutex_Arch) OS_OPT_POST_NONE ts s; Some s }"

definition sys_mutex_new :: "ptr \<Rightarrow> kernel \<Rightarrow> (err_t \<times> kernel) option" where
  "sys_mutex_new p_mutex s = do {
     (err, s) \<leftarrow> OSMutexCreate p_mutex ''LwIP Mutex'' s;
     Some (if err \<noteq> OS_ERR_NONE then ERR_MEM else ERR_OK, s)
   }"

definition sys_mutex_lock :: "ptr \<Rightarrow> kernel \<Rightarrow> (unit pend_outcome \<times> kernel) option" where
  "sys_mutex_lock p_mutex s = do {
     r \<leftarrow> OSMutexPend p_mutex 0 OS_OPT_PEND_BLOCKING s;
     then_done (\<lambda>_ s. Some ((), s)) r
   }"

definition sys_mutex_unlock :: "ptr \<Rightarrow> u32 \<Rightarrow> kernel \<Rightarrow> kernel option" where
  "sys_mutex_unlock p_mutex ts s = do { (_, s) \<leftarrow> OSMutexPost p_mutex OS_OPT_POST_NONE ts s; Some s }"

definition sys_mutex_free :: "ptr \<Rightarrow> u32 \<Rightarrow> kernel \<Rightarrow> kernel option" where
  "sys_mutex_free p_mutex ts s = do { (_, _, s) \<leftarrow> OSMutexDel p_mutex OS_OPT_DEL_NO_PEND ts s; Some s }"

section \<open>Semaphores\<close>

definition sys_sem_new :: "ptr \<Rightarrow> u8 \<Rightarrow> kernel \<Rightarrow> (err_t \<times> kernel) option" where
  "sys_sem_new p_sem initial_count s = do {
     (err, s) \<leftarrow> OSSemCreate p_sem ''LwIP SEM'' (ucast initial_count) s;
     Some (if err \<noteq> OS_ERR_NONE then ERR_MEM else ERR_OK, s)
   }"

definition sys_sem_signal :: "ptr \<Rightarrow> u32 \<Rightarrow> kernel \<Rightarrow> kernel option" where
  "sys_sem_signal p_sem ts s = do { (_, _, s) \<leftarrow> OSSemPost p_sem OS_OPT_POST_1 ts s; Some s }"

text \<open>The result of a wait that began at \<open>starttick\<close>.\<close>

definition sem_waited :: "u32 \<Rightarrow> OS_ERR \<Rightarrow> kernel \<Rightarrow> u32" where
  "sem_waited starttick err s = (if err \<noteq> OS_ERR_NONE then SYS_ARCH_TIMEOUT else OSTickCtr s - starttick)"

definition sys_arch_sem_wait :: "ptr \<Rightarrow> u32 \<Rightarrow> kernel \<Rightarrow> (u32 pend_outcome \<times> kernel) option" where
  "sys_arch_sem_wait p_sem timeout_ms s = do {
     let starttick = OSTickCtr s;
     r \<leftarrow> OSSemPend p_sem timeout_ms OS_OPT_PEND_BLOCKING s;
     then_done (\<lambda>(_, _, err) s. Some (sem_waited starttick err s, s)) r
   }"

definition sys_arch_sem_wait_resume :: "ptr \<Rightarrow> u32 \<Rightarrow> kernel \<Rightarrow> u32 option" where
  "sys_arch_sem_wait_resume p_sem starttick s = do {
     (_, _, err) \<leftarrow> OSSemPend_resume p_sem s;
     Some (sem_waited starttick err s)
   }"

definition sys_sem_free :: "ptr \<Rightarrow> u32 \<Rightarrow> kernel \<Rightarrow> kernel option" where
  "sys_sem_free p_sem ts s = do { (_, _, s) \<leftarrow> OSSemDel p_sem OS_OPT_DEL_NO_PEND ts s; Some s }"

definition sys_sem_valid :: "ptr \<Rightarrow> bool" where
  "sys_sem_valid p_sem \<longleftrightarrow> p_sem \<noteq> None"

text \<open>The assignment is to the parameter of the function.\<close>

definition sys_sem_set_invalid :: "ptr \<Rightarrow> kernel \<Rightarrow> kernel" where
  "sys_sem_set_invalid p_sem s = (let p_sem = (None :: ptr) in s)"

section \<open>Mailboxes\<close>

definition sys_mbox_new :: "sys_mbox \<Rightarrow> u32 \<Rightarrow> kernel \<Rightarrow> (err_t \<times> kernel) option" where
  "sys_mbox_new mbox sz s = do {
     (err0, s) \<leftarrow> OSQCreate (Some (msg_queen mbox)) ''LwIP MSQ'' (ucast sz) s;
     (err1, s) \<leftarrow> OSSemCreate (Some (msg_sem mbox)) ''LwIP MSQ_SEM'' sz s;
     Some (if err0 \<noteq> OS_ERR_NONE \<or> err1 \<noteq> OS_ERR_NONE then ERR_MEM else ERR_OK, s)
   }"

text \<open>The two halves of a post: the message is put into the queue, and a free place is taken.\<close>

definition mbox_put :: "sys_mbox \<Rightarrow> ptr \<Rightarrow> u32 \<Rightarrow> kernel \<Rightarrow> (OS_ERR \<times> kernel) option" where
  "mbox_put mbox p_msg ts s = OSQPost (Some (msg_queen mbox)) p_msg 4 OS_OPT_POST_FIFO ts s"

definition sys_mbox_post :: "sys_mbox \<Rightarrow> ptr \<Rightarrow> u32 \<Rightarrow> kernel \<Rightarrow> (unit pend_outcome \<times> kernel) option" where
  "sys_mbox_post mbox p_msg ts s = do {
     r \<leftarrow> OSSemPend (Some (msg_sem mbox)) 0 OS_OPT_PEND_BLOCKING s;
     then_done (\<lambda>(_, _, err) s. if err \<noteq> OS_ERR_NONE then Some ((), s)
       else do { (_, s) \<leftarrow> mbox_put mbox p_msg ts s; Some ((), s) }) r
   }"

definition sys_mbox_post_resume :: "sys_mbox \<Rightarrow> ptr \<Rightarrow> u32 \<Rightarrow> kernel \<Rightarrow> kernel option" where
  "sys_mbox_post_resume mbox p_msg ts s = do {
     (_, _, err) \<leftarrow> OSSemPend_resume (Some (msg_sem mbox)) s;
     if err \<noteq> OS_ERR_NONE then Some s
     else do { (_, s) \<leftarrow> mbox_put mbox p_msg ts s; Some s }
   }"

text \<open>A pend without waiting never blocks.\<close>

definition mbox_take_place :: "sys_mbox \<Rightarrow> kernel \<Rightarrow> (err_t \<times> kernel) option" where
  "mbox_take_place mbox s = do {
     (r, s) \<leftarrow> OSSemPend (Some (msg_sem mbox)) 0 OS_OPT_PEND_NON_BLOCKING s;
     case r of Blocked \<Rightarrow> None
     | Done (_, _, err) \<Rightarrow> Some (if err \<noteq> OS_ERR_NONE then ERR_MEM else ERR_OK, s)
   }"

definition sys_mbox_trypost :: "sys_mbox \<Rightarrow> ptr \<Rightarrow> u32 \<Rightarrow> kernel \<Rightarrow> (err_t \<times> kernel) option" where
  "sys_mbox_trypost mbox p_msg ts s = do {
     (err, s) \<leftarrow> mbox_put mbox p_msg ts s;
     if err \<noteq> OS_ERR_NONE then Some (ERR_MEM, s)
     else mbox_take_place mbox s
   }"

definition sys_mbox_trypost_fromisr :: "sys_mbox \<Rightarrow> ptr \<Rightarrow> u32 \<Rightarrow> kernel \<Rightarrow> (err_t \<times> kernel) option" where
  "sys_mbox_trypost_fromisr mbox p_msg ts s = do {
     (err, s) \<leftarrow> mbox_put mbox p_msg ts s;
     if err \<noteq> OS_ERR_NONE then Some (ERR_MEM, s)
     else mbox_take_place mbox s
   }"

text \<open>What a fetch does with the result of the queue; the second result is \<open>*msg\<close>.\<close>

definition mbox_fetched :: "sys_mbox \<Rightarrow> u32 \<Rightarrow> u32 \<Rightarrow> ptr \<times> u16 option \<times> u32 option \<times> OS_ERR \<Rightarrow> kernel \<Rightarrow>
    ((u32 \<times> ptr) \<times> kernel) option" where
  "mbox_fetched mbox starttick ts r s = (case r of (p, _, _, err) \<Rightarrow>
     (let elapsetick = OSTickCtr s - starttick in
      if err \<noteq> OS_ERR_NONE then Some ((SYS_ARCH_TIMEOUT, None), s)
      else do {
        (_, err, s) \<leftarrow> OSSemPost (Some (msg_sem mbox)) OS_OPT_POST_1 ts s;
        Some ((if err \<noteq> OS_ERR_NONE then SYS_ARCH_TIMEOUT else elapsetick, p), s)
      }))"

definition sys_arch_mbox_fetch :: "sys_mbox \<Rightarrow> u32 \<Rightarrow> u32 \<Rightarrow> kernel \<Rightarrow> ((u32 \<times> ptr) pend_outcome \<times> kernel) option" where
  "sys_arch_mbox_fetch mbox timeout_ms ts s = do {
     let starttick = OSTickCtr s;
     r \<leftarrow> OSQPend (Some (msg_queen mbox)) timeout_ms OS_OPT_PEND_BLOCKING (Some 0) s;
     then_done (mbox_fetched mbox starttick ts) r
   }"

definition sys_arch_mbox_fetch_resume :: "sys_mbox \<Rightarrow> u32 \<Rightarrow> u32 \<Rightarrow> kernel \<Rightarrow> ((u32 \<times> ptr) \<times> kernel) option" where
  "sys_arch_mbox_fetch_resume mbox starttick ts s = do {
     r \<leftarrow> OSQPend_resume s;
     mbox_fetched mbox starttick ts r s
   }"

definition sys_arch_mbox_tryfetch :: "sys_mbox \<Rightarrow> u32 \<Rightarrow> kernel \<Rightarrow> ((u32 \<times> ptr) \<times> kernel) option" where
  "sys_arch_mbox_tryfetch mbox ts s = do {
     (r, s) \<leftarrow> OSQPend (Some (msg_queen mbox)) 0 OS_OPT_PEND_NON_BLOCKING (Some 0) s;
     case r of Blocked \<Rightarrow> None
     | Done (p, _, _, err) \<Rightarrow>
         if err \<noteq> OS_ERR_NONE then Some ((SYS_MBOX_EMPTY, p), s)
         else do {
           (_, err, s) \<leftarrow> OSSemPost (Some (msg_sem mbox)) OS_OPT_POST_1 ts s;
           Some ((if err \<noteq> OS_ERR_NONE then SYS_MBOX_EMPTY else 0, p), s)
         }
   }"

definition sys_mbox_free :: "sys_mbox \<Rightarrow> u32 \<Rightarrow> u32 \<Rightarrow> kernel \<Rightarrow> kernel option" where
  "sys_mbox_free mbox ts ts' s = do {
     (_, _, s) \<leftarrow> OSSemDel (Some (msg_sem mbox)) OS_OPT_DEL_ALWAYS ts s;
     (_, _, s) \<leftarrow> OSQDel (Some (msg_queen mbox)) OS_OPT_DEL_ALWAYS ts' s;
     Some s
   }"

definition sys_mbox_valid :: "sys_mbox option \<Rightarrow> bool" where
  "sys_mbox_valid mbox \<longleftrightarrow> mbox \<noteq> None"

definition sys_mbox_set_invalid :: "sys_mbox option \<Rightarrow> kernel \<Rightarrow> kernel" where
  "sys_mbox_set_invalid mbox s = (let mbox = (None :: sys_mbox option) in s)"

section \<open>Threads\<close>

text \<open>Only the thread of the stack is created: the first five characters of the name are compared. \<open>stk\<close> is the
  address of \<open>TCPIP_TaskSTK\<close>, \<open>task_return\<close> the one of \<open>OS_TaskReturn\<close>.\<close>

definition sys_thread_new :: "u32 \<Rightarrow> u32 \<Rightarrow> string \<Rightarrow> u32 \<Rightarrow> u32 \<Rightarrow> u32 \<Rightarrow> u32 \<Rightarrow> kernel \<Rightarrow> kernel option" where
  "sys_thread_new task_return stk name thread arg stacksize prio s =
     (if take 5 name = take 5 ''tcpip_thread'' then do {
        (_, s) \<leftarrow> OSTaskCreate task_return (Some TCPIP_TaskTCB)
          \<lparr>ta_name = name, ta_task = thread, ta_arg = arg, ta_prio = ucast prio, ta_stk_base = stk,
           ta_stk_limit = stacksize div 10, ta_stk_size = stacksize, ta_q_size = 0,
           ta_time_quanta = 0, ta_ext = None, ta_opt = OS_OPT_TASK_STK_CHK OR OS_OPT_TASK_STK_CLR\<rparr> s;
        Some s
      } else Some s)"

end
