(* ===== verification/Sys_Props.thy ===== *)
theory Sys_Props
  imports Sys_Arch Demo_System
begin

text \<open>
  The properties of the mailboxes of the lwIP system layer: they are bounded queues whose semaphore counts
  the free places, as long as no post is cut in two by another.
\<close>

section \<open>The mailbox as a bounded queue\<close>

text \<open>A mailbox between calls: nobody waits, and every place is free or holds a message.\<close>

definition mbox_rel :: "sys_mbox \<times> kernel \<Rightarrow> ptr list \<Rightarrow> nat \<Rightarrow> bool" where
  "mbox_rel ms = (\<lambda>ps k. case ms of (mb, s) \<Rightarrow>
     OSRunning s = OS_STATE_OS_RUNNING \<and>
     Type (OSObjs s (msg_queen mb)) = OS_OBJ_TYPE_Q \<and> Type (OSObjs s (msg_sem mb)) = OS_OBJ_TYPE_SEM \<and>
     (\<exists>A R W T. kinv s A R W T \<and> W (msg_queen mb) = [] \<and> W (msg_sem mb) = []) \<and>
     (\<exists>xs. mq_rel (OSQs s (msg_queen mb), s) xs k \<and> map fst xs = ps) \<and>
     unat (Ctr (OSSems s (msg_sem mb))) + length ps = unat (MQ_NbrEntriesSize (OSQs s (msg_queen mb))))"

definition mbox_cap :: "sys_mbox \<times> kernel \<Rightarrow> nat" where
  "mbox_cap ms = unat (MQ_NbrEntriesSize (OSQs (snd ms) (msg_queen (fst ms))))"

lemma mbox_relE:
  assumes "mbox_rel (mb, s) ps k"
  obtains A R W T xs where "OSRunning s = OS_STATE_OS_RUNNING" "kinv s A R W T" "W (msg_queen mb) = []" "W (msg_sem mb) = []"
    "q_inv s W (msg_queen mb) xs k" "sem_inv s W (msg_sem mb)" "map fst xs = ps"
    "unat (Ctr (OSSems s (msg_sem mb))) + length xs = unat (MQ_NbrEntriesSize (OSQs s (msg_queen mb)))"
  using assms unfolding mbox_rel_def q_inv_def sem_inv_def by fastforce

lemma mbox_relI:
  assumes "OSRunning s = OS_STATE_OS_RUNNING" "kinv s A R W T" "W (msg_queen mb) = []" "W (msg_sem mb) = []"
    "q_inv s W (msg_queen mb) xs k" "sem_inv s W (msg_sem mb)"
    "unat (Ctr (OSSems s (msg_sem mb))) + length xs = unat (MQ_NbrEntriesSize (OSQs s (msg_queen mb)))"
  shows "mbox_rel (mb, s) (map fst xs) k"
  using assms unfolding mbox_rel_def q_inv_def sem_inv_def by fastforce

text \<open>The queue of a mailbox: a message is stored at the end, or refused without a change.\<close>

lemma fifo_opt: "OS_OPT_POST_FIFO \<in> q_post_opts" "OS_OPT_POST_FIFO AND OS_OPT_POST_LIFO = 0" "OS_OPT_POST_FIFO AND OS_OPT_POST_LIFO = OS_OPT_POST_FIFO"
  by (simp_all add: q_post_opts_def opts)

lemma mbox_put_stores:
  assumes K: "kinv s A R W T" and I: "q_inv s W (msg_queen mb) xs k" and W: "W (msg_queen mb) = []"
    and r: "OSRunning s = OS_STATE_OS_RUNNING"
    and room: "length xs < unat (MQ_NbrEntriesSize (OSQs s (msg_queen mb)))" and k: "0 < k"
  obtains s' where "mbox_put mb p ts s = Some (OS_ERR_NONE, s')" "kinv s' A R W T"
    "q_inv s' W (msg_queen mb) (xs @ [(p, 4, ts)]) (k - 1)" "OSObjs s' = OSObjs s" "OSSems s' = OSSems s"
    "OSRunning s' = OSRunning s" "OSIntNestingCtr s' = OSIntNestingCtr s"
    "MQ_NbrEntriesSize (OSQs s' (msg_queen mb)) = MQ_NbrEntriesSize (OSQs s (msg_queen mb))"
proof -
  let ?b = "msg_queen mb"
  have mq: "mq_rel (OSQs s ?b, s) xs k" and ty: "Type (OSObjs s ?b) = OS_OBJ_TYPE_Q" using I by (simp_all add: q_inv_def)
  obtain q' s1 where s1: "OS_MsgQPut (OSQs s ?b) p 4 OS_OPT_POST_FIFO ts s = Some (OS_ERR_NONE, q', s1)"
    "\<exists>X. msg_frame X s s1" "mq_rel (q', s1) (xs @ [(p, 4, ts)]) (k - 1)" "MQ_NbrEntriesSize q' = MQ_NbrEntriesSize (OSQs s ?b)"
    using MsgQPut_stores [OF mq room k, of p 4 OS_OPT_POST_FIFO ts thesis] fifo_opt(3) by simp
  then obtain X where fr: "msg_frame X s s1" by blast
  note F = msg_frame_sel [OF fr]
  let ?s = "s1\<lparr>OSQs := (OSQs s1)(?b := q')\<rparr>"
  have "mbox_put mb p ts s = Some (OS_ERR_NONE, ?s)"
    using OSQPost_store [OF K I r fifo_opt(1) W, of p 4 ts] s1(1) by (simp add: mbox_put_def fifo_opt)
  moreover have "mq_rel (q', ?s) (xs @ [(p, 4, ts)]) (k - 1)"
    using s1(3) mq_rel_cong [of ?s s1] by (simp add: fifo_opt)
  ultimately show ?thesis using that [of ?s] K ty W F s1(4) msg_frame_kinv [OF fr] by (simp add: q_inv_def)
qed

lemma mbox_put_refused:
  assumes K: "kinv s A R W T" and I: "q_inv s W (msg_queen mb) xs k" and W: "W (msg_queen mb) = []"
    and r: "OSRunning s = OS_STATE_OS_RUNNING"
    and full: "unat (MQ_NbrEntriesSize (OSQs s (msg_queen mb))) \<le> length xs \<or> k = 0"
  shows "mbox_put mb p ts s = Some (if unat (MQ_NbrEntriesSize (OSQs s (msg_queen mb))) \<le> length xs then OS_ERR_Q_MAX
    else OS_ERR_MSG_POOL_EMPTY, s)"
proof -
  let ?q = "OSQs s (msg_queen mb)"
  have "mq_rel (?q, s) xs k" using I by (simp add: q_inv_def)
  then obtain ys fs where y: "msgq_list s ?q ys" "pool_list s fs" "length xs = length ys" "k = length fs"
    by (rule mq_relE) auto
  then have "MQ_NbrEntriesSize ?q \<le> MQ_NbrEntries ?q \<longleftrightarrow> unat (MQ_NbrEntriesSize ?q) \<le> length xs"
    "MP_NbrFree (OSMsgPool s) = 0 \<longleftrightarrow> k = 0"
    by (auto simp: msgq_list_def pool_list_def word_le_nat_alt word_len_pos)
  then show ?thesis
    using OSQPost_store [OF K I r fifo_opt(1) W, of p 4 ts] full
      OS_MsgQPut_full [of ?q p 4 OS_OPT_POST_FIFO ts s] OS_MsgQPut_empty_pool [of ?q s p 4 OS_OPT_POST_FIFO ts]
    by (cases "MQ_NbrEntriesSize ?q \<le> MQ_NbrEntries ?q") (simp_all add: mbox_put_def fifo_opt)
qed

lemma OS_MsgQGet_size: "OS_MsgQGet q s = Some (err, m, q', s') \<Longrightarrow> MQ_NbrEntriesSize q' = MQ_NbrEntriesSize q"
  by (auto simp: OS_MsgQGet_def Let_def split: if_splits Option.bind_splits)

lemma OSQPend_poll:
  assumes I: "q_inv s W b ((p, z, ts) # ms) k" and r: "OSRunning s = OS_STATE_OS_RUNNING"
  shows "\<exists>s'. OSQPend (Some b) timeout OS_OPT_PEND_NON_BLOCKING (Some sz) s =
      Some (Done (p, Some z, Some ts, OS_ERR_NONE), s') \<and> q_inv s' W b ms (Suc k) \<and> OSObjs s' = OSObjs s \<and>
      OSSems s' = OSSems s \<and> OSRunning s' = OSRunning s \<and>
      MQ_NbrEntriesSize (OSQs s' b) = MQ_NbrEntriesSize (OSQs s b) \<and> (\<forall>A R W T. kinv s' A R W T \<longleftrightarrow> kinv s A R W T)"
proof -
  have r': "mq_rel (OSQs s b, s) ((p, z, ts) # ms) k" and ty: "Type (OSObjs s b) = OS_OBJ_TYPE_Q" and W: "W b = []"
    using I by (simp_all add: q_inv_def)
  obtain q' s1 where g: "OS_MsgQGet (OSQs s b) s = Some (OS_ERR_NONE, (p, z, ts), q', s1)" "\<exists>X. msg_frame X s s1"
    "mq_rel (q', s1) ms (Suc k)" by (rule MsgQGet_takes [OF r']) (rule that)
  then obtain X where fr: "msg_frame X s s1" by blast
  have sz: "MQ_NbrEntriesSize q' = MQ_NbrEntriesSize (OSQs s b)" using OS_MsgQGet_size [OF g(1)] .
  note F = msg_frame_sel [OF fr]
  let ?s = "s1\<lparr>OSQs := (OSQs s1)(b := q')\<rparr>"
  have "OSQPend (Some b) timeout OS_OPT_PEND_NON_BLOCKING (Some sz) s = Some (Done (p, Some z, Some ts, OS_ERR_NONE), ?s)"
    using g(1) ty r by (simp add: OSQPend_def set_msg_q_def)
  moreover have "q_inv ?s W b ms (Suc k)"
    using g(3) mq_rel_cong [of ?s s1] ty W F by (simp add: q_inv_def)
  ultimately show ?thesis using F sz msg_frame_kinv [OF fr] by auto
qed

text \<open>The four cases of a mailbox call.\<close>

lemma trypost_ok:
  assumes r: "mbox_rel (mb, s) ps k" and room: "length ps < mbox_cap (mb, s)" and k: "0 < k"
  obtains s' where "sys_mbox_trypost mb p ts s = Some (ERR_OK, s')" "mbox_rel (mb, s') (ps @ [p]) (k - 1)"
    "mbox_cap (mb, s') = mbox_cap (mb, s)"
proof -
  obtain A R W T xs where I: "OSRunning s = OS_STATE_OS_RUNNING" "kinv s A R W T" "W (msg_queen mb) = []"
    "W (msg_sem mb) = []" "q_inv s W (msg_queen mb) xs k" "sem_inv s W (msg_sem mb)" "map fst xs = ps"
    "unat (Ctr (OSSems s (msg_sem mb))) + length xs = unat (MQ_NbrEntriesSize (OSQs s (msg_queen mb)))"
    by (rule mbox_relE [OF r]) (rule that)
  have l: "length xs < unat (MQ_NbrEntriesSize (OSQs s (msg_queen mb)))" using room I(7) by (auto simp: mbox_cap_def)
  obtain s1 where s1: "mbox_put mb p ts s = Some (OS_ERR_NONE, s1)" "kinv s1 A R W T"
    "q_inv s1 W (msg_queen mb) (xs @ [(p, 4, ts)]) (k - 1)" "OSObjs s1 = OSObjs s" "OSSems s1 = OSSems s"
    "OSRunning s1 = OSRunning s" "OSIntNestingCtr s1 = OSIntNestingCtr s"
    "MQ_NbrEntriesSize (OSQs s1 (msg_queen mb)) = MQ_NbrEntriesSize (OSQs s (msg_queen mb))"
    by (rule mbox_put_stores [OF I(2,5,3,1) l k]) (rule that)
  have c: "0 < Ctr (OSSems s1 (msg_sem mb))" using I(8) l s1(5) by (auto simp: word_neq_0_conv [symmetric])
  have si: "sem_inv s1 W (msg_sem mb)" using I(6) s1 by (simp add: sem_inv_def)
  let ?s = "s1\<lparr>OSSems := (OSSems s1)(msg_sem mb := (OSSems s1 (msg_sem mb))\<lparr>Ctr := Ctr (OSSems s1 (msg_sem mb)) - 1\<rparr>)\<rparr>"
  have "mbox_take_place mb s1 = Some (ERR_OK, ?s)"
    using OSSemPend_token [OF si _ _ c, of OS_OPT_PEND_NON_BLOCKING 0] I(1) s1(6) by (simp add: mbox_take_place_def)
  moreover have "mbox_rel (mb, ?s) (map fst (xs @ [(p, 4, ts)])) (k - 1)"
  proof (rule mbox_relI [where A = A and R = R and W = W and T = T])
    show "q_inv ?s W (msg_queen mb) (xs @ [(p, 4, ts)]) (k - 1)"
      using s1(3) mq_rel_cong [of ?s s1] by (simp add: q_inv_def)
    show "unat (Ctr (OSSems ?s (msg_sem mb))) + length (xs @ [(p, 4, ts)]) =
        unat (MQ_NbrEntriesSize (OSQs ?s (msg_queen mb)))"
      using I(8) s1(5,8) c unat_gt_0 [of "Ctr (OSSems s1 (msg_sem mb))"] by (simp add: unat_minus_one word_neq_0_conv)
  qed (use I s1 in \<open>simp_all add: sem_inv_def\<close>)
  ultimately show ?thesis using that [of ?s] s1 I(7) by (simp add: sys_mbox_trypost_def mbox_cap_def)
qed

lemma trypost_full:
  assumes r: "mbox_rel (mb, s) ps k" and full: "mbox_cap (mb, s) \<le> length ps \<or> k = 0"
  shows "sys_mbox_trypost mb p ts s = Some (ERR_MEM, s)"
proof -
  obtain A R W T xs where I: "OSRunning s = OS_STATE_OS_RUNNING" "kinv s A R W T" "W (msg_queen mb) = []"
    "W (msg_sem mb) = []" "q_inv s W (msg_queen mb) xs k" "sem_inv s W (msg_sem mb)" "map fst xs = ps"
    "unat (Ctr (OSSems s (msg_sem mb))) + length xs = unat (MQ_NbrEntriesSize (OSQs s (msg_queen mb)))"
    by (rule mbox_relE [OF r]) (rule that)
  have f: "unat (MQ_NbrEntriesSize (OSQs s (msg_queen mb))) \<le> length xs \<or> k = 0" using full I(7) by (auto simp: mbox_cap_def)
  show ?thesis using mbox_put_refused [OF I(2,5,3,1) f, of p ts] by (auto simp: sys_mbox_trypost_def)
qed

lemma tryfetch_ok:
  assumes r: "mbox_rel (mb, s) (p # ps) k"
  obtains s' where "sys_arch_mbox_tryfetch mb ts s = Some ((0, p), s')" "mbox_rel (mb, s') ps (Suc k)"
    "mbox_cap (mb, s') = mbox_cap (mb, s)"
proof -
  obtain A R W T xs0 where I: "OSRunning s = OS_STATE_OS_RUNNING" "kinv s A R W T" "W (msg_queen mb) = []"
    "W (msg_sem mb) = []" "q_inv s W (msg_queen mb) xs0 k" "sem_inv s W (msg_sem mb)" "map fst xs0 = p # ps"
    "unat (Ctr (OSSems s (msg_sem mb))) + length xs0 = unat (MQ_NbrEntriesSize (OSQs s (msg_queen mb)))"
    by (rule mbox_relE [OF r]) (rule that)
  obtain z t xs where x: "xs0 = (p, z, t) # xs" "map fst xs = ps" using I(7) by (cases xs0) auto
  obtain s1 where s1: "OSQPend (Some (msg_queen mb)) 0 OS_OPT_PEND_NON_BLOCKING (Some 0) s =
      Some (Done (p, Some z, Some t, OS_ERR_NONE), s1)" "q_inv s1 W (msg_queen mb) xs (Suc k)" "OSObjs s1 = OSObjs s"
    "OSSems s1 = OSSems s" "OSRunning s1 = OSRunning s"
    "MQ_NbrEntriesSize (OSQs s1 (msg_queen mb)) = MQ_NbrEntriesSize (OSQs s (msg_queen mb))"
    "\<forall>A R W T. kinv s1 A R W T \<longleftrightarrow> kinv s A R W T"
    using OSQPend_poll [OF I(5) [unfolded x(1)] I(1), of 0 0] by auto
  have si: "sem_inv s1 W (msg_sem mb)" using I(6) s1 by (simp add: sem_inv_def)
  have K: "kinv s1 A R W T" using I(2) s1(7) by simp
  let ?c = "Ctr (OSSems s (msg_sem mb))"
  have b: "unat ?c < 2 ^ 16"
    using I(8) unsigned_less [where ?'a = nat, of "MQ_NbrEntriesSize (OSQs s (msg_queen mb))"] by simp
  have u: "unat (?c + 1) = Suc (unat ?c)"
    using b unat_add_lem [of ?c 1, THEN iffD1] by simp
  have nov: "?c \<noteq> -1" using u by auto
  let ?s = "s1\<lparr>OSSems := (OSSems s1)(msg_sem mb := (OSSems s1 (msg_sem mb))\<lparr>Ctr := ?c + 1, Sem_TS := ts\<rparr>)\<rparr>"
  have "OSSemPost (Some (msg_sem mb)) OS_OPT_POST_1 ts s1 = Some (?c + 1, OS_ERR_NONE, ?s)"
    using OSSemPost_token [OF K si, of OS_OPT_POST_1 ts] I(1,4) s1(4,5) nov by simp
  moreover have "mbox_rel (mb, ?s) (map fst xs) (Suc k)"
  proof (rule mbox_relI [where A = A and R = R and W = W and T = T])
    show "q_inv ?s W (msg_queen mb) xs (Suc k)" using s1(2) mq_rel_cong [of ?s s1] by (simp add: q_inv_def)
    show "unat (Ctr (OSSems ?s (msg_sem mb))) + length xs = unat (MQ_NbrEntriesSize (OSQs ?s (msg_queen mb)))"
      using I(8) x(1) s1(6) u by simp
  qed (use I K s1 in \<open>simp_all add: sem_inv_def\<close>)
  ultimately show ?thesis using that [of ?s] s1 x(2) by (simp add: sys_arch_mbox_tryfetch_def mbox_cap_def)
qed

lemma tryfetch_empty:
  assumes r: "mbox_rel (mb, s) [] k"
  shows "sys_arch_mbox_tryfetch mb ts s = Some ((SYS_MBOX_EMPTY, None), s)"
proof -
  obtain A R W T xs where I: "OSRunning s = OS_STATE_OS_RUNNING" "kinv s A R W T" "W (msg_queen mb) = []"
    "W (msg_sem mb) = []" "q_inv s W (msg_queen mb) xs k" "sem_inv s W (msg_sem mb)" "map fst xs = []"
    "unat (Ctr (OSSems s (msg_sem mb))) + length xs = unat (MQ_NbrEntriesSize (OSQs s (msg_queen mb)))"
    by (rule mbox_relE [OF r]) (rule that)
  have m: "mq_rel (OSQs s (msg_queen mb), s) [] k" using I(5,7) by (simp add: q_inv_def)
  show ?thesis using MsgQGet_none [OF m] I(1,5)
    by (simp add: sys_arch_mbox_tryfetch_def OSQPend_def q_inv_def set_msg_q_same)
qed

section \<open>The mailbox keeps the contract of a bounded queue\<close>

definition mbox_try :: "u32 \<Rightarrow> ptr \<Rightarrow> sys_mbox \<times> kernel \<Rightarrow> (sys_mbox \<times> kernel) option" where
  "mbox_try ts p ms = (case ms of (mb, s) \<Rightarrow>
     do { (err, s) \<leftarrow> sys_mbox_trypost mb p ts s; if err = ERR_OK then Some (mb, s) else None })"

definition mbox_tryget :: "u32 \<Rightarrow> sys_mbox \<times> kernel \<Rightarrow> (ptr \<times> sys_mbox \<times> kernel) option" where
  "mbox_tryget ts ms = (case ms of (mb, s) \<Rightarrow>
     do { ((r, p), s) \<leftarrow> sys_arch_mbox_tryfetch mb ts s; if r = SYS_MBOX_EMPTY then None else Some (p, mb, s) })"

interpretation mbox: bounded_queue "mbox_try ts" "mbox_tryget ts'" mbox_rel mbox_cap for ts ts'
proof unfold_locales
  fix ms :: "sys_mbox \<times> kernel" and ps k p
  obtain mb s where ms: "ms = (mb, s)" by (cases ms)
  { assume "mbox_rel ms ps k" "length ps < mbox_cap ms" "0 < k"
    then show "\<exists>ms'. mbox_try ts p ms = Some ms' \<and> mbox_rel ms' (ps @ [p]) (k - 1) \<and> mbox_cap ms' = mbox_cap ms"
      unfolding ms by (rule trypost_ok [where p = p and ts = ts]) (simp_all add: mbox_try_def) }
  { assume "mbox_rel ms ps k" "mbox_cap ms \<le> length ps \<or> k = 0"
    then show "mbox_try ts p ms = None"
      unfolding ms using trypost_full [of mb s ps k p ts] by (simp add: mbox_try_def) }
  { assume "mbox_rel ms (p # ps) k"
    then show "\<exists>ms'. mbox_tryget ts' ms = Some (p, ms') \<and> mbox_rel ms' ps (Suc k) \<and> mbox_cap ms' = mbox_cap ms"
      unfolding ms
      by (rule tryfetch_ok [where ts = ts']) (simp add: mbox_tryget_def SYS_MBOX_EMPTY_def SYS_ARCH_TIMEOUT_def) }
  { assume "mbox_rel ms [] k"
    then show "mbox_tryget ts' ms = None"
      unfolding ms using tryfetch_empty [of mb s k ts'] by (simp add: mbox_tryget_def) }
qed

text \<open>A mailbox of the example state: a queue of \<open>n\<close> places and a semaphore of the value \<open>n\<close>.\<close>

definition demo_box :: sys_mbox where "demo_box = \<lparr>msg_queen = 31, msg_sem = 11\<rparr>"

definition mdemo :: "u16 \<Rightarrow> kernel" where
  "mdemo n = demo\<lparr>OSQs := (OSQs demo)(31 := (OSQs demo 31)\<lparr>MQ_NbrEntriesSize := n\<rparr>),
     OSSems := (OSSems demo)(11 := \<lparr>Ctr = ucast n, Sem_TS = 0\<rparr>)\<rparr>"

lemma unat_ucast16: "unat (ucast (n :: u16) :: u32) = unat n"
  using unsigned_less [where ?'a = nat, of n] by (simp add: unsigned_ucast_eq take_bit_nat_eq_self)

lemma mdemo_rel: "mbox_rel (demo_box, mdemo n) [] 4"
proof -
  have "mq_rel (OSQs (mdemo n) 31, mdemo n) [] 4"
  proof -
    have "mq_rel (OSQs demo 31\<lparr>MQ_NbrEntriesSize := n\<rparr>, demo) [] 4"
      using demo_mq by (auto simp: mq_rel_def msgq_list_def)
    then show ?thesis using mq_rel_cong [of "mdemo n" demo] by (simp add: mdemo_def)
  qed
  then have mq: "\<exists>xs. mq_rel (OSQs (mdemo n) 31, mdemo n) xs 4 \<and> map fst xs = []" by blast
  have "kinv (mdemo n) demo_A demo_R demo_W demo_T" using demo_kinv by (simp add: mdemo_def)
  moreover have "demo_W 31 = [] \<and> demo_W 11 = []" by (simp add: demo_W_def)
  ultimately have "\<exists>A R W T. kinv (mdemo n) A R W T \<and> W 31 = [] \<and> W 11 = []" by blast
  with mq show ?thesis
    by (simp add: mbox_rel_def demo_box_def) (simp add: mdemo_def demo_def demo_obj_def unat_ucast16)
qed

lemma mdemo_cap: "mbox_cap (demo_box, mdemo n) = unat n"
  by (simp add: mbox_cap_def demo_box_def mdemo_def demo_def)

text \<open>C13: The mailboxes of \<open>sys_arch.c\<close> are fifo queues: messages that \<open>sys_mbox_trypost\<close> puts into an empty
  mailbox with room for them are all accepted, \<open>sys_arch_mbox_tryfetch\<close> gives them back in the same order, and the
  mailbox and the pool of messages are as empty and as full as before, with the count of free places restored.\<close>

theorem sys_mbox_fifo:
  assumes "mbox_rel (mb, s) [] k" and "length ps \<le> mbox_cap (mb, s)" and "length ps \<le> k"
  shows "\<exists>ms1 ms2. put_all (mbox_try ts) ps (mb, s) = Some ms1 \<and>
    get_many (mbox_tryget ts') (length ps) ms1 = Some (ps, ms2) \<and> mbox_rel ms2 [] k"
  by (rule mbox.fifo [OF assms])

lemma sys_mbox_fifo_witness:
  "\<exists>ms1 ms2. put_all (mbox_try 7) [Some 5, None] (demo_box, mdemo 2) = Some ms1 \<and>
    get_many (mbox_tryget 8) (Suc (Suc 0)) ms1 = Some ([Some 5, None], ms2) \<and> mbox_rel ms2 [] 4"
  using sys_mbox_fifo [OF mdemo_rel [of 2], of "[Some 5, None]" 7 8] by (simp add: mdemo_cap)

text \<open>C23: \<open>sys_mbox_trypost\<close> is the append of a bounded queue: it returns \<open>ERR_OK\<close> and the message is the last
  of the mailbox as long as the mailbox and the pool of messages have room, and it returns \<open>ERR_MEM\<close> without a change
  of the state when one of them has none.\<close>

theorem sys_mbox_trypost_refines:
  assumes "mbox_rel (mb, s) ps k"
  shows "\<exists>s'. sys_mbox_trypost mb p ts s =
      Some (if length ps < mbox_cap (mb, s) \<and> 0 < k then ERR_OK else ERR_MEM, s') \<and>
    (if length ps < mbox_cap (mb, s) \<and> 0 < k
     then mbox_rel (mb, s') (ps @ [p]) (k - 1) \<and> mbox_cap (mb, s') = mbox_cap (mb, s) else s' = s)"
proof (cases "length ps < mbox_cap (mb, s) \<and> 0 < k")
  case True
  show ?thesis by (rule trypost_ok [OF assms, of p ts]) (use True in simp_all)
next
  case False
  then show ?thesis using trypost_full [OF assms, of p ts] by (auto simp: not_less)
qed

lemma sys_mbox_trypost_refines_witness:
  "\<exists>s'. sys_mbox_trypost demo_box (Some 5) 7 (mdemo 2) = Some (ERR_OK, s') \<and> mbox_rel (demo_box, s') [Some 5] 3"
  using sys_mbox_trypost_refines [OF mdemo_rel [of 2], of "Some 5" 7] by (auto simp: mdemo_cap)

section \<open>A post that is interrupted\<close>

text \<open>The mailbox after the first half of a post.\<close>

definition place_taken :: "sys_mbox \<Rightarrow> kernel \<Rightarrow> kernel" where
  "place_taken mb s = s\<lparr>OSSems := (OSSems s)(msg_sem mb := (OSSems s (msg_sem mb))\<lparr>Ctr := Ctr (OSSems s (msg_sem mb)) - 1\<rparr>)\<rparr>"

lemma place_taken_sel [simp]:
  "OSRunning (place_taken mb s) = OSRunning s" "OSObjs (place_taken mb s) = OSObjs s" "OSQs (place_taken mb s) = OSQs s"
  "OSMsgs (place_taken mb s) = OSMsgs s" "OSMsgPool (place_taken mb s) = OSMsgPool s"
  "Ctr (OSSems (place_taken mb s) (msg_sem mb)) = Ctr (OSSems s (msg_sem mb)) - 1"
  "kinv (place_taken mb s) A R W T = kinv s A R W T"
  by (simp_all add: place_taken_def)

lemma unat_less_one: "0 < unat (c :: 'a :: len word) \<Longrightarrow> Suc (unat (c - 1)) = unat c"
  by (cases "c = 0") (simp_all add: unat_minus_one)

lemma mbox_places: "mbox_rel (mb, s) ps k \<Longrightarrow> length ps < mbox_cap (mb, s) \<Longrightarrow> 0 < unat (Ctr (OSSems s (msg_sem mb)))"
  by (auto simp: mbox_rel_def mbox_cap_def)

lemma post_takes:
  assumes r: "mbox_rel (mb, s) ps k" and room: "length ps < mbox_cap (mb, s)" and i: "OSIntNestingCtr s = 0"
  shows "\<exists>n t. OSSemPend (Some (msg_sem mb)) 0 OS_OPT_PEND_BLOCKING s = Some (Done (n, t, OS_ERR_NONE), place_taken mb s)"
proof -
  obtain A R W T xs where I: "OSRunning s = OS_STATE_OS_RUNNING" "kinv s A R W T" "W (msg_queen mb) = []"
    "W (msg_sem mb) = []" "q_inv s W (msg_queen mb) xs k" "sem_inv s W (msg_sem mb)" "map fst xs = ps"
    "unat (Ctr (OSSems s (msg_sem mb))) + length xs = unat (MQ_NbrEntriesSize (OSQs s (msg_queen mb)))"
    by (rule mbox_relE [OF r]) (rule that)
  have "0 < Ctr (OSSems s (msg_sem mb))"
    using mbox_places [OF r room] by (simp add: word_neq_0_conv [symmetric] unat_gt_0)
  then show "\<exists>n t. OSSemPend (Some (msg_sem mb)) 0 OS_OPT_PEND_BLOCKING s = Some (Done (n, t, OS_ERR_NONE), place_taken mb s)"
    using OSSemPend_token [OF I(6,1)] i by (simp add: place_taken_def)
qed

text \<open>The second half after the first, in a state \<open>s'\<close> that differs in the nesting counter of interrupts at most.\<close>

lemma post_puts:
  assumes r: "mbox_rel (mb, s) ps k" and room: "length ps < mbox_cap (mb, s)" and k: "0 < k"
    and s': "s' = place_taken mb s\<lparr>OSIntNestingCtr := i\<rparr>"
  obtains s1 where "mbox_put mb p ts s' = Some (OS_ERR_NONE, s1)" "mbox_rel (mb, s1) (ps @ [p]) (k - 1)"
    "OSSems s1 = OSSems s'" "OSObjs s1 = OSObjs s'" "mbox_cap (mb, s1) = mbox_cap (mb, s)"
proof -
  obtain A R W T xs where I: "OSRunning s = OS_STATE_OS_RUNNING" "kinv s A R W T" "W (msg_queen mb) = []"
    "W (msg_sem mb) = []" "q_inv s W (msg_queen mb) xs k" "sem_inv s W (msg_sem mb)" "map fst xs = ps"
    "unat (Ctr (OSSems s (msg_sem mb))) + length xs = unat (MQ_NbrEntriesSize (OSQs s (msg_queen mb)))"
    by (rule mbox_relE [OF r]) (rule that)
  have Q: "q_inv s' W (msg_queen mb) xs k" using I(5) mq_rel_cong [of s' s] s' by (simp add: q_inv_def)
  have K: "kinv s' A R W T" using I(2) s' by simp
  have run: "OSRunning s' = OS_STATE_OS_RUNNING" using I(1) s' by simp
  have l: "length xs < unat (MQ_NbrEntriesSize (OSQs s' (msg_queen mb)))" using room I(7) s' by (auto simp: mbox_cap_def)
  obtain s1 where s1: "mbox_put mb p ts s' = Some (OS_ERR_NONE, s1)" "kinv s1 A R W T"
    "q_inv s1 W (msg_queen mb) (xs @ [(p, 4, ts)]) (k - 1)" "OSObjs s1 = OSObjs s'" "OSSems s1 = OSSems s'"
    "OSRunning s1 = OSRunning s'" "OSIntNestingCtr s1 = OSIntNestingCtr s'"
    "MQ_NbrEntriesSize (OSQs s1 (msg_queen mb)) = MQ_NbrEntriesSize (OSQs s' (msg_queen mb))"
    by (rule mbox_put_stores [OF K Q I(3) run l k]) (rule that)
  have "mbox_rel (mb, s1) (map fst (xs @ [(p, 4, ts)])) (k - 1)"
  proof (rule mbox_relI [where A = A and R = R and W = W and T = T])
    show "unat (Ctr (OSSems s1 (msg_sem mb))) + length (xs @ [(p, 4, ts)]) =
        unat (MQ_NbrEntriesSize (OSQs s1 (msg_queen mb)))"
      using I(8) s1(5,8) s' unat_less_one [OF mbox_places [OF r room]] by simp
  qed (use I s1 s' in \<open>simp_all add: sem_inv_def\<close>)
  then show ?thesis using that s1 I(7) s' by (simp add: mbox_cap_def)
qed

lemma mbox_rel_nesting [simp]: "mbox_rel (mb, s\<lparr>OSIntNestingCtr := i\<rparr>) ps k = mbox_rel (mb, s) ps k"
proof -
  have "kinv (s\<lparr>OSIntNestingCtr := i\<rparr>) = kinv s" by (intro ext) simp
  then show ?thesis using mq_rel_cong [of "s\<lparr>OSIntNestingCtr := i\<rparr>" s] by (simp add: mbox_rel_def)
qed

lemma mbox_cap_nesting [simp]: "mbox_cap (mb, s\<lparr>OSIntNestingCtr := i\<rparr>) = mbox_cap (mb, s)"
  by (simp add: mbox_cap_def)

text \<open>A blocking post with room for its message returns at once and is the append of the queue: without an
  interruption it agrees with \<open>sys_mbox_trypost\<close> on the contents of the mailbox.\<close>

theorem sys_mbox_post_appends:
  assumes r: "mbox_rel (mb, s) ps k" and room: "length ps < mbox_cap (mb, s)" and i: "OSIntNestingCtr s = 0"
    and k: "0 < k"
  shows "\<exists>s'. sys_mbox_post mb p ts s = Some (Done (), s') \<and> mbox_rel (mb, s') (ps @ [p]) (k - 1)"
proof -
  obtain s1 where "mbox_put mb p ts (place_taken mb s\<lparr>OSIntNestingCtr := OSIntNestingCtr (place_taken mb s)\<rparr>) =
      Some (OS_ERR_NONE, s1)" "mbox_rel (mb, s1) (ps @ [p]) (k - 1)"
    by (rule post_puts [OF r room k refl]) (rule that)
  with post_takes [OF r room i] show ?thesis by (auto simp: sys_mbox_post_def)
qed

lemma sys_mbox_post_appends_witness:
  "\<exists>s'. sys_mbox_post demo_box (Some 5) 7 (mdemo 2) = Some (Done (), s') \<and> mbox_rel (demo_box, s') [Some 5] 3"
  using sys_mbox_post_appends [OF mdemo_rel [of 2], of "Some 5" 7] by (simp add: mdemo_cap) (simp add: mdemo_def demo_def)

lemma put_full_mbox:
  assumes r: "mbox_rel (mb, s) ps k" and full: "mbox_cap (mb, s) \<le> length ps"
  shows "mbox_put mb p ts s = Some (OS_ERR_Q_MAX, s)"
proof -
  obtain A R W T xs where I: "OSRunning s = OS_STATE_OS_RUNNING" "kinv s A R W T" "W (msg_queen mb) = []"
    "W (msg_sem mb) = []" "q_inv s W (msg_queen mb) xs k" "sem_inv s W (msg_sem mb)" "map fst xs = ps"
    "unat (Ctr (OSSems s (msg_sem mb))) + length xs = unat (MQ_NbrEntriesSize (OSQs s (msg_queen mb)))"
    by (rule mbox_relE [OF r]) (rule that)
  have f: "unat (MQ_NbrEntriesSize (OSQs s (msg_queen mb))) \<le> length xs" using full I(7) by (auto simp: mbox_cap_def)
  then show ?thesis using mbox_put_refused [OF I(2,5,3,1), of p ts] by simp
qed

text \<open>C38: \<open>sys_mbox_trypost\<close> puts its message before it takes a place, \<open>sys_mbox_post\<close> takes its place first.
  When an interrupt comes between the two halves of the post that takes the last place, a post from the interrupt
  returns \<open>ERR_MEM\<close> although its message is queued, and the queue refuses the message of the interrupted post with \<open>OS_ERR_Q_MAX\<close>, which
  \<open>sys_mbox_post\<close> ignores: the message that was to wait for a place is lost.\<close>

theorem sys_mbox_post_race:
  assumes r: "mbox_rel (mb, s) ps k" and last_place: "Suc (length ps) = mbox_cap (mb, s)" and k: "0 < k"
    and i: "OSIntNestingCtr s = 0"
  shows "(\<exists>x. OSSemPend (Some (msg_sem mb)) 0 OS_OPT_PEND_BLOCKING s = Some (Done x, place_taken mb s) \<and> snd (snd x) = OS_ERR_NONE) \<and>
    (\<exists>s1. sys_mbox_trypost_fromisr mb p' ts (place_taken mb s\<lparr>OSIntNestingCtr := 1\<rparr>) = Some (ERR_MEM, s1) \<and>
      mbox_rel (mb, s1\<lparr>OSIntNestingCtr := 0\<rparr>) (ps @ [p']) (k - 1) \<and>
      mbox_put mb p ts' (s1\<lparr>OSIntNestingCtr := 0\<rparr>) = Some (OS_ERR_Q_MAX, s1\<lparr>OSIntNestingCtr := 0\<rparr>))"
proof -
  have room: "length ps < mbox_cap (mb, s)" using last_place by simp
  let ?s = "place_taken mb s\<lparr>OSIntNestingCtr := 1\<rparr>"
  obtain s1 where s1: "mbox_put mb p' ts ?s = Some (OS_ERR_NONE, s1)" "mbox_rel (mb, s1) (ps @ [p']) (k - 1)"
    "OSSems s1 = OSSems ?s" "OSObjs s1 = OSObjs ?s" "mbox_cap (mb, s1) = mbox_cap (mb, s)"
    by (rule post_puts [OF r room k refl]) (rule that)
  have R: "mbox_rel (mb, s1\<lparr>OSIntNestingCtr := 0\<rparr>) (ps @ [p']) (k - 1)" using s1(2) by simp
  have "mbox_take_place mb s1 = Some (ERR_MEM, s1)"
    using s1(2,5) last_place by (auto simp: mbox_rel_def mbox_take_place_def OSSemPend_def mbox_cap_def unat_eq_zero)
  moreover have "mbox_put mb p ts' (s1\<lparr>OSIntNestingCtr := 0\<rparr>) = Some (OS_ERR_Q_MAX, s1\<lparr>OSIntNestingCtr := 0\<rparr>)"
    by (rule put_full_mbox [OF R]) (use s1(5) last_place in simp)
  ultimately show ?thesis
    using post_takes [OF r room i] s1(1,2) by (auto simp: sys_mbox_trypost_fromisr_def)
qed

lemma sys_mbox_post_race_witness:
  "\<exists>s1. sys_mbox_trypost_fromisr demo_box (Some 6) 7 (place_taken demo_box (mdemo 1)\<lparr>OSIntNestingCtr := 1\<rparr>) = Some (ERR_MEM, s1) \<and>
    mbox_rel (demo_box, s1\<lparr>OSIntNestingCtr := 0\<rparr>) [Some 6] 3 \<and>
    mbox_put demo_box (Some 5) 8 (s1\<lparr>OSIntNestingCtr := 0\<rparr>) = Some (OS_ERR_Q_MAX, s1\<lparr>OSIntNestingCtr := 0\<rparr>)"
proof -
  have "Suc (length ([] :: ptr list)) = mbox_cap (demo_box, mdemo 1)" "(0 :: nat) < 4" "OSIntNestingCtr (mdemo 1) = 0"
    by (simp_all add: mdemo_cap) (simp add: mdemo_def demo_def)
  from sys_mbox_post_race [OF mdemo_rel this, of "Some 6" 7 "Some 5" 8] show ?thesis by simp
qed

end
