(* ===== verification/Single_Float.thy ===== *)
theory Single_Float
  imports Spec_Prelude Complex_Main
begin

text \<open>
  The \<open>float\<close> of the application: IEEE 754 single precision with rounding to the nearest number, ties to even, as
  the compiler and the floating-point unit of the Cortex-M4 evaluate it (every operation is rounded by itself). A
  float is its 32-bit pattern. Rounding works on rational numbers; the upper end of the exponents is left out, because
  no operation of the program that is modelled gets there with a value whose conversion to \<open>int\<close> is defined.
\<close>

section \<open>The value of a pattern\<close>

definition single_expt :: "u32 \<Rightarrow> nat" where "single_expt x = unat (drop_bit 23 x) mod 256"

definition single_mant :: "u32 \<Rightarrow> nat" where "single_mant x = unat x mod 2 ^ 23"

text \<open>Infinities and not-a-numbers have the largest exponent.\<close>

definition single_finite :: "u32 \<Rightarrow> bool" where "single_finite x \<longleftrightarrow> single_expt x \<noteq> 255"

text \<open>A value is a multiple of the unit of its exponent; the number of units is the significand, which has the hidden
  bit unless the number is subnormal.\<close>

definition single_unit :: "nat \<Rightarrow> rat" where "single_unit k = 2 ^ k / 2 ^ 149"

definition single_val :: "u32 \<Rightarrow> rat" where
  "single_val x =
     (let m = if single_expt x = 0 then single_mant x else 2 ^ 23 + single_mant x;
          v = of_nat m * single_unit (single_expt x - 1)
      in if bit x 31 then - v else v)"

section \<open>Rounding\<close>

definition round_half_even :: "rat \<Rightarrow> int" where
  "round_half_even y =
     (let n = \<lfloor>y\<rfloor>; d = y - of_int n in
      if d < 1 / 2 then n else if 1 / 2 < d then n + 1 else if even n then n else n + 1)"

lemma single_unit_pos [simp]: "0 < single_unit k" by (simp add: single_unit_def)

lemma single_unit_nonneg [simp]: "0 \<le> single_unit k" "\<not> single_unit k \<le> 0"
  by (simp_all add: single_unit_def not_le)

lemma single_unit_nonzero [simp]: "single_unit k \<noteq> 0" by (simp add: single_unit_def)

lemma single_unit_Suc: "single_unit (Suc k) = 2 * single_unit k" by (simp add: single_unit_def)

lemma single_unit_add: "single_unit (j + k) = 2 ^ j * single_unit k" by (simp add: single_unit_def power_add)

lemma single_unit_mono: "j \<le> k \<Longrightarrow> single_unit j \<le> single_unit k"
  by (simp add: single_unit_def divide_right_mono)

lemma single_unit_less: "single_unit j < single_unit k \<Longrightarrow> j < k"
  using single_unit_mono [of k j] by (meson linorder_not_less)

lemma single_unit_unbounded: "\<exists>k. \<bar>x\<bar> < 2 ^ 24 * single_unit k"
proof -
  obtain n :: nat where n: "\<bar>x\<bar> * 2 ^ 149 < of_nat n" using reals_Archimedean2 by blast
  have "of_nat n < (2 :: rat) ^ n" using of_nat_less_two_power [where ?'a = rat] by blast
  then have "\<bar>x\<bar> * 2 ^ 149 < 2 ^ n" using n by linarith
  then have "\<bar>x\<bar> < single_unit n" by (simp add: single_unit_def pos_less_divide_eq)
  also have "single_unit n \<le> 2 ^ 24 * single_unit n" using single_unit_pos [of n] by simp
  finally show ?thesis by blast
qed

text \<open>The unit in the last place: the least one with which the significand fits into 24 bits.\<close>

function single_ulp :: "rat \<Rightarrow> nat \<Rightarrow> nat" where
  "single_ulp x k = (if \<bar>x\<bar> < 2 ^ 24 * single_unit k then k else single_ulp x (Suc k))"
  by pat_completeness auto
termination
proof (relation "measure (\<lambda>(x, k). (LEAST k. \<bar>x\<bar> < 2 ^ 24 * single_unit k) - k)", simp)
  fix x k
  assume n: "\<not> \<bar>x\<bar> < 2 ^ 24 * single_unit k"
  let ?l = "LEAST k. \<bar>x\<bar> < 2 ^ 24 * single_unit k"
  have "\<bar>x\<bar> < 2 ^ 24 * single_unit ?l" by (rule LeastI_ex [OF single_unit_unbounded])
  then have "2 ^ 24 * single_unit k < 2 ^ 24 * single_unit ?l" using n by linarith
  then have "k < ?l" by (intro single_unit_less) simp
  then show "((x, Suc k), (x, k)) \<in> measure (\<lambda>(x, k). (LEAST k. \<bar>x\<bar> < 2 ^ 24 * single_unit k) - k)" by auto
qed

declare single_ulp.simps [simp del]

definition round_single :: "rat \<Rightarrow> rat" where
  "round_single x = (let u = single_unit (single_ulp x 0) in of_int (round_half_even (x / u)) * u)"

section \<open>Rounding to an integer\<close>

lemma round_half_even_near: "\<bar>of_int (round_half_even y) - y\<bar> \<le> 1 / 2"
proof -
  have f: "of_int \<lfloor>y\<rfloor> \<le> y" "y < of_int \<lfloor>y\<rfloor> + 1" by (rule of_int_floor_le) (rule floor_correct [THEN conjunct2, simplified])
  show ?thesis
  proof (cases "y - of_int \<lfloor>y\<rfloor> < 1 / 2")
    case True
    then show ?thesis using f by (simp add: round_half_even_def Let_def abs_le_iff)
  next
    case False
    then show ?thesis using f by (auto simp: round_half_even_def Let_def abs_le_iff)
  qed
qed

lemma round_half_even_int [simp]: "round_half_even (of_int n) = n" by (simp add: round_half_even_def)

lemma round_half_even_ge: "of_int n \<le> y \<Longrightarrow> n \<le> round_half_even y"
proof -
  assume "of_int n \<le> y"
  then have "n \<le> \<lfloor>y\<rfloor>" by (simp add: le_floor_iff)
  moreover have "\<lfloor>y\<rfloor> \<le> round_half_even y" by (simp add: round_half_even_def Let_def)
  ultimately show ?thesis by simp
qed

lemma round_half_even_less:
  assumes "y < of_int n - 1 / 2"
  shows "round_half_even y < n"
proof -
  have "of_int (round_half_even y) \<le> y + 1 / 2" using round_half_even_near [of y] unfolding abs_le_iff by linarith
  then have "of_int (round_half_even y) < (of_int n :: rat)" using assms by linarith
  then show ?thesis by (simp only: of_int_less_iff)
qed

text \<open>Ties go to even, so that rounding commutes with the sign.\<close>

lemma round_half_even_minus: "round_half_even (- y) = - round_half_even y"
proof -
  obtain n :: int and d where y: "y = of_int n + d" "0 \<le> d" "d < 1"
    using floor_correct [of y] that [of "\<lfloor>y\<rfloor>" "y - of_int \<lfloor>y\<rfloor>"] by force
  have n: "\<lfloor>y\<rfloor> = n" using y by (simp add: floor_eq_iff)
  show ?thesis
  proof (cases "d = 0")
    case True
    then show ?thesis using y(1) round_half_even_int [of n] round_half_even_int [of "- n"] by simp
  next
    case False
    then have m: "\<lfloor>- y\<rfloor> = - n - 1" using y by (simp add: floor_eq_iff)
    show ?thesis using y(1) False unfolding round_half_even_def Let_def n m by auto
  qed
qed

section \<open>Rounding to single precision\<close>

lemma single_ulp_spec:
  assumes "k = 0 \<or> 2 ^ 23 * single_unit k \<le> \<bar>x\<bar>"
  shows "\<bar>x\<bar> < 2 ^ 24 * single_unit (single_ulp x k) \<and>
    (single_ulp x k = 0 \<or> 2 ^ 23 * single_unit (single_ulp x k) \<le> \<bar>x\<bar>)"
  using assms
proof (induction x k rule: single_ulp.induct)
  case (1 x k)
  show ?case
  proof (cases "\<bar>x\<bar> < 2 ^ 24 * single_unit k")
    case True
    then show ?thesis using 1(2) by (subst (1 2 3) single_ulp.simps) simp
  next
    case False
    then have "2 ^ 23 * single_unit (Suc k) \<le> \<bar>x\<bar>" by (simp add: single_unit_Suc)
    then show ?thesis using 1(1) [OF False] False by (subst (1 2 3) single_ulp.simps) simp
  qed
qed

lemmas single_ulp_fits = single_ulp_spec [of 0, simplified, THEN conjunct1]
lemmas single_ulp_least = single_ulp_spec [of 0, simplified, THEN conjunct2]

lemma single_ulp_unique:
  assumes "2 ^ 23 * single_unit k \<le> \<bar>x\<bar>" "\<bar>x\<bar> < 2 ^ 24 * single_unit k"
  shows "single_ulp x 0 = k"
proof -
  let ?j = "single_ulp x 0"
  have "2 ^ 23 * single_unit k < 2 ^ 23 * single_unit (Suc ?j)"
    using assms(1) single_ulp_fits [of x] by (simp add: single_unit_Suc)
  then have "k < Suc ?j" by (intro single_unit_less) simp
  moreover have "?j < Suc k"
  proof (cases "?j = 0")
    case False
    then have "2 ^ 23 * single_unit ?j < 2 ^ 23 * single_unit (Suc k)"
      using assms(2) single_ulp_least [of x] by (simp add: single_unit_Suc)
    then show ?thesis by (intro single_unit_less) simp
  qed simp
  ultimately show ?thesis by simp
qed

lemma single_ulp_minus: "single_ulp (- x) k = single_ulp x k"
proof (induction x k rule: single_ulp.induct)
  case (1 x k)
  then show ?case by (subst (1 2) single_ulp.simps) simp
qed

lemma round_single_minus: "round_single (- x) = - round_single x"
  by (simp add: round_single_def Let_def single_ulp_minus round_half_even_minus)

text \<open>The numbers with a significand of 24 bits are kept.\<close>

lemma round_single_exact:
  assumes x: "x = of_int m * single_unit k" and m: "\<bar>m\<bar> \<le> 2 ^ 24"
  shows "round_single x = x"
proof -
  define j where "j = single_ulp x 0"
  have "\<exists>i :: int. x / single_unit j = of_int i"
  proof (cases "j \<le> k")
    case True
    then have "single_unit k = 2 ^ (k - j) * single_unit j" using single_unit_add [of "k - j" j] by simp
    then have "x / single_unit j = of_int (m * 2 ^ (k - j))" using x single_unit_pos [of j] by (simp add: field_simps)
    then show ?thesis by blast
  next
    case False
    then have j: "Suc k \<le> j" by simp
    have a: "\<bar>x\<bar> = of_int \<bar>m\<bar> * single_unit k" using x single_unit_pos [of k] by (simp add: abs_mult)
    have "2 ^ 24 * single_unit k = 2 ^ 23 * single_unit (Suc k)" by (simp add: single_unit_Suc)
    also have "\<dots> \<le> 2 ^ 23 * single_unit j" using single_unit_mono [OF j] by simp
    also have "\<dots> \<le> of_int \<bar>m\<bar> * single_unit k" using False single_ulp_least [of x, folded j_def] a by simp
    finally have "2 ^ 24 * single_unit k \<le> of_int \<bar>m\<bar> * single_unit k" .
    then have "(2 ^ 24 :: rat) \<le> of_int \<bar>m\<bar>" by simp
    then have "2 ^ 24 \<le> \<bar>m\<bar>" by (metis of_int_le_iff of_int_numeral of_int_power)
    then have m': "\<bar>m\<bar> = 2 ^ 24" using m by simp
    have "single_ulp x 0 = Suc k" 
      by (rule single_ulp_unique) (use a m' in \<open>simp_all add: single_unit_Suc\<close>)
    moreover have "of_int m = (of_int (m div 2) :: rat) * 2"
    proof -
      have "m = 2 ^ 24 \<or> m = - (2 ^ 24)" using m' by arith
      then have "m = m div 2 * 2" by auto
      then show ?thesis by (metis of_int_mult of_int_numeral)
    qed
    ultimately have "x / single_unit j = of_int (m div 2)" using x by (simp add: j_def single_unit_Suc)
    then show ?thesis by blast
  qed
  then show ?thesis by (auto simp: round_single_def Let_def field_simps simp flip: j_def)
qed

section \<open>Numbers below two to the power of 24\<close>

lemma single_unit_one: "single_unit 149 = 1" by (simp add: single_unit_def)

lemma single_ulp_small:
  assumes "\<bar>x\<bar> < 2 ^ 24"
  shows "single_ulp x 0 \<le> 149" "single_unit (single_ulp x 0) \<le> 1"
proof -
  let ?j = "single_ulp x 0"
  have "?j < 150"
  proof (cases "?j = 0")
    case False
    then have "2 ^ 23 * single_unit ?j < 2 ^ 23 * single_unit 150"
      using assms single_ulp_least [of x] single_unit_Suc [of 149] by (simp add: single_unit_one)
    then show ?thesis by (intro single_unit_less) simp
  qed simp
  then show "?j \<le> 149" by simp
  then show "single_unit ?j \<le> 1" using single_unit_mono [of ?j 149] by (simp add: single_unit_one)
qed

text \<open>Every integer is a whole number of small units.\<close>

lemma int_units:
  assumes "j \<le> 149"
  obtains i :: int where "of_int z = of_int i * single_unit j"
proof
  have "(1 :: rat) = 2 ^ (149 - j) * single_unit j"
    using single_unit_add [of "149 - j" j] assms by (simp add: single_unit_one)
  then show "(of_int z :: rat) = of_int (z * 2 ^ (149 - j)) * single_unit j" by (simp add: mult.assoc)
qed

lemma round_single_near:
  assumes "\<bar>x\<bar> < 2 ^ 24"
  shows "\<bar>round_single x - x\<bar> \<le> 1 / 2"
proof -
  define u where "u = single_unit (single_ulp x 0)"
  have u: "0 < u" "u \<le> 1" using single_ulp_small(2) [OF assms] by (simp_all add: u_def)
  have "round_single x - x = (of_int (round_half_even (x / u)) - x / u) * u"
    using u(1) by (simp add: round_single_def Let_def u_def left_diff_distrib)
  then have "\<bar>round_single x - x\<bar> = \<bar>of_int (round_half_even (x / u)) - x / u\<bar> * u" using u(1) by (simp add: abs_mult)
  also have "\<dots> \<le> 1 / 2 * 1" by (intro mult_mono round_half_even_near) (use u in simp_all)
  finally show ?thesis by simp
qed

lemma round_single_ge_int:
  assumes "\<bar>x\<bar> < 2 ^ 24" "of_int z \<le> x"
  shows "of_int z \<le> round_single x"
proof -
  define j where "j = single_ulp x 0"
  obtain i :: int where i: "of_int z = of_int i * single_unit j"
    using int_units [OF single_ulp_small(1) [OF assms(1), folded j_def]] .
  then have "of_int i \<le> x / single_unit j" using assms(2) by (simp add: pos_le_divide_eq)
  then have "i \<le> round_half_even (x / single_unit j)" by (rule round_half_even_ge)
  then have "of_int i * single_unit j \<le> round_single x" by (simp add: round_single_def Let_def flip: j_def)
  then show ?thesis by (simp add: i)
qed

text \<open>The difference of a rounded number and an integer that is not larger is not rounded any more.\<close>

lemma round_single_diff:
  assumes "\<bar>x\<bar> < 2 ^ 24" "of_int z \<le> x" "0 \<le> z"
  shows "round_single (round_single x - of_int z) = round_single x - of_int z"
proof -
  define j where "j = single_ulp x 0"
  obtain i :: int where i: "of_int z = of_int i * single_unit j"
    using int_units [OF single_ulp_small(1) [OF assms(1), folded j_def]] .
  define r where "r = round_half_even (x / single_unit j)"
  have rs: "round_single x = of_int r * single_unit j" by (simp add: round_single_def Let_def r_def flip: j_def)
  have "of_int i * single_unit j \<le> of_int r * single_unit j" using round_single_ge_int [OF assms(1,2)] i rs by simp
  then have "i \<le> r" by simp
  moreover have "0 \<le> i" 
  proof -
    have "0 \<le> of_int i * single_unit j" using i assms(3) by (metis of_int_0_le_iff)
    then show ?thesis by (simp add: zero_le_mult_iff)
  qed
  moreover have "r \<le> 2 ^ 24"
  proof -
    have "x / single_unit j \<le> 2 ^ 24" using single_ulp_fits [of x] by (simp add: pos_divide_le_eq flip: j_def)
    then have "of_int r \<le> (2 ^ 24 :: rat) + 1 / 2"
      using round_half_even_near [of "x / single_unit j"] unfolding abs_le_iff r_def by linarith
    then have "of_int r < (of_int (2 ^ 24 + 1) :: rat)" by simp
    then show ?thesis by (simp only: of_int_less_iff)
  qed
  ultimately have "\<bar>r - i\<bar> \<le> 2 ^ 24" by simp
  moreover have "round_single x - of_int z = of_int (r - i) * single_unit j" using rs i by (simp add: left_diff_distrib)
  ultimately show ?thesis by (intro round_single_exact)
qed

text \<open>A product that lies below an integer multiple by more than half of its last place is not rounded up to it.\<close>

lemma round_single_below:
  assumes v: "v = of_nat m * single_unit k" "m < 2 ^ 24" "k \<le> 149" and c: "0 < c" and l: "v < of_int z"
    and x: "v * of_int c < 2 ^ 24"
  shows "round_single (v * of_int c) < of_int (z * c)"
proof -
  define x where "x = v * of_int c"
  define j where "j = single_ulp x 0"
  have v0: "0 \<le> v" using v(1) by simp
  then have x0: "0 \<le> x" using c by (simp add: x_def)
  then have xs: "\<bar>x\<bar> < 2 ^ 24" using x by (simp add: x_def)
  have "round_single x < of_int (z * c)"
  proof (cases "j = 0")
    case True
    have "0 < z" using v0 l by (metis le_less_trans of_int_0_less_iff)
    then have z: "1 \<le> z * c" using c by (simp add: int_one_le_iff_zero_less)
    have "x < 1 / 2" using True single_ulp_fits [of x] x0 by (simp add: single_unit_def flip: j_def)
    then have "round_single x < 1" using round_single_near [OF xs] unfolding abs_le_iff by linarith
    then show ?thesis using z by (meson less_le_trans of_int_1_le_iff)
  next
    case False
    obtain i :: int where i: "of_int (z * c) = of_int i * single_unit j"
      using int_units [OF single_ulp_small(1) [OF xs, folded j_def]] .
    obtain i' :: int where i': "of_int z = of_int i' * single_unit k" using int_units [OF v(3)] .
    have "of_nat m * single_unit k < of_int i' * single_unit k" using l v(1) i' by simp
    then have "of_int (int m) < (of_int i' :: rat)" by simp
    then have "int m + 1 \<le> i'" by (simp only: of_int_less_iff)
    then have "of_int (int m + 1) * single_unit k \<le> of_int i' * single_unit k" by (intro mult_right_mono) (simp_all only: of_int_le_iff single_unit_nonneg)
    then have d: "single_unit k \<le> of_int z - v" using v(1) i' by (simp add: distrib_right)
    have "2 ^ 23 * single_unit j \<le> x" using False single_ulp_least [of x] x0 by (simp add: j_def)
    also have "x < 2 ^ 24 * single_unit k * of_int c"
    proof -
      have "of_nat m * single_unit k < 2 ^ 24 * single_unit k" using v(2) by (metis mult_strict_right_mono of_nat_less_iff of_nat_numeral of_nat_power single_unit_pos)
      then show ?thesis using c v(1) by (simp add: x_def)
    qed
    finally have "single_unit j / 2 < single_unit k * of_int c" by (simp add: mult.commute mult.left_commute)
    also have "\<dots> \<le> (of_int z - v) * of_int c" using d c by (intro mult_right_mono) simp_all
    also have "\<dots> = of_int i * single_unit j - x" using i by (simp add: x_def left_diff_distrib)
    finally have "x < (of_int i - 1 / 2) * single_unit j" by (simp add: left_diff_distrib)
    then have "x / single_unit j < of_int i - 1 / 2" by (simp add: pos_divide_less_eq)
    then have "round_half_even (x / single_unit j) < i" by (rule round_half_even_less)
    then have "of_int (round_half_even (x / single_unit j)) * single_unit j < of_int i * single_unit j" by simp
    then show ?thesis using i by (simp add: round_single_def Let_def flip: j_def)
  qed
  then show ?thesis by (simp only: x_def)
qed

text \<open>A finite pattern as a significand and a unit.\<close>

lemma single_val_units:
  assumes "\<bar>single_val x\<bar> < 2 ^ 24"
  obtains m k where "\<bar>single_val x\<bar> = of_nat m * single_unit k" "m < 2 ^ 24" "k \<le> 149"
proof -
  define m where "m = (if single_expt x = 0 then single_mant x else 2 ^ 23 + single_mant x)"
  define k where "k = single_expt x - 1"
  have v: "\<bar>single_val x\<bar> = of_nat m * single_unit k"
    by (simp add: single_val_def Let_def abs_mult m_def k_def)
  have m: "m < 2 ^ 24" 
  proof -
    have "single_mant x < 2 ^ 23" by (simp add: single_mant_def)
    then show ?thesis by (simp add: m_def)
  qed
  have "k \<le> 149"
  proof (cases "single_expt x = 0")
    case False
    then have "(2 ^ 23 :: rat) \<le> of_nat m" by (simp add: m_def)
    then have "2 ^ 23 * single_unit k \<le> of_nat m * single_unit k" by (intro mult_right_mono) simp_all
    then have "2 ^ 23 * single_unit k < 2 ^ 24" using assms v by linarith
    then have "single_unit k < single_unit 150" using single_unit_Suc [of 149] by (simp add: single_unit_one)
    then have "k < 150" by (rule single_unit_less)
    then show ?thesis by simp
  qed (simp add: k_def)
  then show ?thesis using that v m by blast
qed

end
