(* ===== verification/System_Str.thy ===== *)
theory System_Str
  imports Single_Float "HOL-Library.Signed_Division"
begin

text \<open>
  The conversions of numbers to strings of the application (\<open>User/Src/system.c\<close>). A buffer is the list of the
  characters from the pointer to the end of the array; a read or write behind it, a division by zero and an index
  outside the table of digits have no result (\<open>None\<close>). The absolute value of the least integer and the
  product of two \<open>int\<close> wrap, as on the target. A \<open>float\<close> is its bit pattern, and every operation on floats rounds to
  single precision (\<open>Single_Float\<close>); the conversion to \<open>int\<close> of a number that does not fit has no result.
\<close>

section \<open>Buffers\<close>

definition rd :: "char list \<Rightarrow> nat \<Rightarrow> char option" where
  "rd buf i = (if i < length buf then Some (buf ! i) else None)"

definition wr :: "char list \<Rightarrow> nat \<Rightarrow> char \<Rightarrow> char list option" where
  "wr buf i c = (if i < length buf then Some (buf[i := c]) else None)"

definition NUL :: char where "NUL = CHR 0x00"

text \<open>The string that a buffer holds.\<close>

definition c_str :: "char list \<Rightarrow> string" where "c_str buf = takeWhile (\<lambda>c. c \<noteq> NUL) buf"

section \<open>The conversions\<close>

definition DIGIT2STRING_LENGTH_LIMIT :: nat where "DIGIT2STRING_LENGTH_LIMIT = 12"

text \<open>The table of digits with its terminator.\<close>

definition index_table :: "char list" where "index_table = ''0123456789ABCDEF'' @ [NUL]"

text \<open>The digits, the least significant first. The loop ends at the last but one place of the string.\<close>

function digit_loop :: "char list \<Rightarrow> nat \<Rightarrow> u32 \<Rightarrow> u32 \<Rightarrow> (char list \<times> nat) option" where
  "digit_loop buf i num radix =
     (if i = DIGIT2STRING_LENGTH_LIMIT - 1 then do {
        buf \<leftarrow> wr buf (i - 2) (CHR ''.'');
        buf \<leftarrow> wr buf (i - 1) (CHR ''.'');
        Some (buf, i)
      } else if radix = 0 then None
      else do {
        c \<leftarrow> rd index_table (unat (num mod radix));
        buf \<leftarrow> wr buf i c;
        let num = num div radix;
        if num \<noteq> 0 then digit_loop buf (i + 1) num radix else Some (buf, i + 1)
      })"
  by pat_completeness auto
termination
  by (relation "measure (\<lambda>(buf, i, _). length buf - i)") (auto simp: wr_def split: if_splits)

declare digit_loop.simps [simp del]

text \<open>The loop that reverses the characters from \<open>k\<close> to \<open>i - 1\<close>.\<close>

function swap_loop :: "char list \<Rightarrow> nat \<Rightarrow> nat \<Rightarrow> nat \<Rightarrow> char list option" where
  "swap_loop buf i k j =
     (if j \<le> (i - 1) div 2 then do {
        temp \<leftarrow> rd buf j;
        c \<leftarrow> rd buf (i - 1 + k - j);
        buf \<leftarrow> wr buf j c;
        buf \<leftarrow> wr buf (i - 1 + k - j) temp;
        swap_loop buf i k (j + 1)
      } else Some buf)"
  by pat_completeness auto
termination
  by (relation "measure (\<lambda>(_, i, _, j). Suc ((i - 1) div 2) - j)") auto

declare swap_loop.simps [simp del]

definition itoa :: "u32 \<Rightarrow> char list \<Rightarrow> u32 \<Rightarrow> char list option" where
  "itoa num string radix = do {
     (num_abs, string, i) \<leftarrow>
       (if radix = 10 \<and> num <s 0 then do { string \<leftarrow> wr string 0 (CHR ''-''); Some (- num, string, 1) }
        else Some (num, string, 0));
     (string, i) \<leftarrow> digit_loop string i num_abs radix;
     string \<leftarrow> wr string i NUL;
     c \<leftarrow> rd string 0;
     let k = (if c = CHR ''-'' then 1 else 0);
     swap_loop string i k k
   }"

definition uitoa :: "u32 \<Rightarrow> char list \<Rightarrow> u32 \<Rightarrow> char list option" where
  "uitoa num string radix = do {
     (string, i) \<leftarrow> digit_loop string 0 num radix;
     string \<leftarrow> wr string i NUL;
     swap_loop string i 0 0
   }"

text \<open>The exponent \<open>power\<close> is counted down to zero, also from a negative number.\<close>

function ipow_loop :: "u32 \<Rightarrow> u32 \<Rightarrow> u32 \<Rightarrow> u32" where
  "ipow_loop num pw result = (if pw \<noteq> 0 then ipow_loop num (pw - 1) (result * num) else result)"
  by pat_completeness auto
termination
  by (relation "measure (\<lambda>(_, pw, _). unat pw)") (auto simp: unat_minus_one unat_gt_0)

declare ipow_loop.simps [simp del]

definition ipow :: "u32 \<Rightarrow> u32 \<Rightarrow> u32" where "ipow num pw = ipow_loop num pw 1"

text \<open>The conversion of a float to an integer cuts the fraction off.\<close>

definition trunc :: "rat \<Rightarrow> u32 option" where
  "trunc x =
     (let i = if x < 0 then - \<lfloor>- x\<rfloor> else \<lfloor>x\<rfloor> in
      if - (2 ^ 31) \<le> i \<and> i < 2 ^ 31 then Some (word_of_int i) else None)"

lemma sdiv10: "x sdiv 10 = (if x < 0 then - (- x div 10) else x div 10)" for x :: int
  by (simp add: signed_divide_int_def sgn_if)

text \<open>The loop that counts the digits of the integer part; the division truncates.\<close>

function count_loop :: "int \<Rightarrow> nat \<Rightarrow> nat" where
  "count_loop int_part string_length =
     (let int_part = int_part sdiv 10; string_length = string_length + 1 in
      if int_part \<noteq> 0 then count_loop int_part string_length else string_length)"
  by pat_completeness auto
termination
  by (relation "measure (\<lambda>(x, _). nat (abs x))") (auto simp: sdiv10)

declare count_loop.simps [simp del]

text \<open>The fraction is printed behind the point into the rest of the buffer; \<open>float_int\<close> is the conversion of an
  \<open>int\<close> to \<open>float\<close> in the products of the two types.\<close>

definition float_int :: "u32 \<Rightarrow> rat" where "float_int i = round_single (of_int (sint i))"

definition ftoa :: "u32 \<Rightarrow> char list \<Rightarrow> u32 \<Rightarrow> char list option" where
  "ftoa num string precision = (if \<not> single_finite num then None else do {
     int_part \<leftarrow> trunc (single_val num);
     string \<leftarrow> itoa int_part string 10;
     let string_length = count_loop (sint int_part) 0;
     string \<leftarrow> wr string string_length (CHR ''.'');
     let string_length = string_length + 1;
     flo_part \<leftarrow> trunc (round_single (round_single (single_val num * float_int (ipow 10 precision)) -
       float_int (int_part * ipow 10 precision)));
     rest \<leftarrow> uitoa flo_part (drop string_length string) 10;
     Some (take string_length string @ rest)
   })"

section \<open>Reference definitions\<close>

definition dig :: "nat \<Rightarrow> char" where "dig d = index_table ! d"

text \<open>The digits of a number, and its notation to the base \<open>r\<close>.\<close>

fun ldigits :: "nat \<Rightarrow> nat \<Rightarrow> nat list" where
  "ldigits r n = (if n < r \<or> r < 2 then [n] else n mod r # ldigits r (n div r))"

declare ldigits.simps [simp del]

fun show_nat :: "nat \<Rightarrow> nat \<Rightarrow> string" where
  "show_nat r n = (if n < r \<or> r < 2 then [dig n] else show_nat r (n div r) @ [dig (n mod r)])"

declare show_nat.simps [simp del]

definition show_int :: "int \<Rightarrow> string" where
  "show_int x = (if x < 0 then CHR ''-'' # show_nat 10 (nat (- x)) else show_nat 10 (nat x))"

text \<open>Reading a number.\<close>

definition char_val :: "char \<Rightarrow> nat" where
  "char_val c = (if of_char c < (65 :: nat) then of_char c - 48 else of_char c - 55)"

definition read_nat :: "nat \<Rightarrow> string \<Rightarrow> nat" where
  "read_nat r cs = foldl (\<lambda>a c. a * r + char_val c) 0 cs"

definition read_int :: "string \<Rightarrow> int" where
  "read_int cs = (if hd cs = CHR ''-'' then - int (read_nat 10 (tl cs)) else int (read_nat 10 cs))"

lemma ldigits_show: "map dig (rev (ldigits r n)) = show_nat r n"
proof (induction r n rule: show_nat.induct)
  case (1 r n)
  then show ?case by (subst ldigits.simps, subst show_nat.simps) simp
qed

lemma ldigits_less: "2 \<le> r \<Longrightarrow> d \<in> set (ldigits r n) \<Longrightarrow> d < r"
proof (induction r n rule: ldigits.induct)
  case (1 r n)
  from 1(3) show ?case
    by (subst (asm) ldigits.simps) (use 1(1,2) in \<open>auto split: if_splits\<close>)
qed

lemma ldigits_nonempty [simp]: "ldigits r n \<noteq> []" by (subst ldigits.simps) simp

lemma ldigits_length: "2 \<le> r \<Longrightarrow> n < r ^ Suc k \<Longrightarrow> length (ldigits r n) \<le> Suc k"
proof (induction k arbitrary: n)
  case 0
  then show ?case by (subst ldigits.simps) simp
next
  case (Suc k)
  have "n div r < r ^ Suc k" using Suc.prems by (simp add: less_mult_imp_div_less mult.commute)
  then show ?case using Suc.IH [of "n div r"] Suc.prems(1) by (subst ldigits.simps) simp
qed

lemma dig_table: "\<forall>d \<in> set [0..<16]. dig d \<noteq> NUL \<and> dig d \<noteq> CHR ''-'' \<and> char_val (dig d) = d"
  by code_simp

lemma dig_sixteen:
  assumes "d < 16" shows "dig d \<noteq> NUL" "dig d \<noteq> CHR ''-''" "char_val (dig d) = d"
  using dig_table assms by simp_all

lemma show_nat_chars:
  assumes "2 \<le> r" "r \<le> 16" "c \<in> set (show_nat r n)" shows "c \<noteq> NUL" "c \<noteq> CHR ''-''"
proof -
  from assms(3) obtain d where "d \<in> set (ldigits r n)" "c = dig d" by (auto simp flip: ldigits_show)
  with ldigits_less [OF assms(1), of d n] assms(2) dig_sixteen [of d] show "c \<noteq> NUL" "c \<noteq> CHR ''-''" by auto
qed

lemma show_nat_nonempty [simp]: "show_nat r n \<noteq> []" by (subst show_nat.simps) simp

lemma read_show: "2 \<le> r \<Longrightarrow> r \<le> 16 \<Longrightarrow> read_nat r (show_nat r n) = n"
proof (induction r n rule: show_nat.induct)
  case (1 r n)
  show ?case
  proof (cases "n < r")
    case True
    then show ?thesis using 1(3) dig_sixteen(3) [of n] by (subst show_nat.simps) (simp add: read_nat_def)
  next
    case False
    have "n mod r < 16" using 1(2,3) by (meson dual_order.strict_trans1 mod_less_divisor pos2 order_less_le_trans)
    then show ?thesis using False 1 dig_sixteen(3) [of "n mod r"]
      by (subst show_nat.simps) (simp add: read_nat_def)
  qed
qed

lemma read_show_int: "read_int (show_int x) = x"
proof -
  have "hd (show_nat 10 n) \<noteq> CHR ''-''" for n using show_nat_chars(2) [of 10 _ n] hd_in_set by force
  then show ?thesis by (simp add: read_int_def show_int_def read_show)
qed

section \<open>The loops\<close>

lemma rd_at: "rd (xs @ c # ys) (length xs) = Some c" by (simp add: rd_def)

lemma wr_at: "wr (xs @ c # ys) (length xs) d = Some (xs @ d # ys)" by (simp add: wr_def)

lemma rd_dig: "d < 17 \<Longrightarrow> rd index_table d = Some (dig d)" by (simp add: rd_def dig_def index_table_def)

text \<open>The loop writes the digits behind what is there, as long as it does not reach the limit.\<close>

lemma digit_loop_spec:
  assumes "2 \<le> unat r" "unat r \<le> 16" and "length pre + length (ldigits (unat r) (unat n)) < 12"
    and "length (ldigits (unat r) (unat n)) = length mid"
  shows "digit_loop (pre @ mid @ post) (length pre) n r =
    Some (pre @ map dig (ldigits (unat r) (unat n)) @ post, length pre + length mid)"
  using assms(3,4)
proof (induction mid arbitrary: pre n)
  case (Cons c mid)
  let ?r = "unat r" and ?n = "unat n"
  have m: "unat (n mod r) < 16" using assms(1,2) by (simp add: unat_mod) (meson less_le_trans mod_less_divisor pos2)
  have r0: "r \<noteq> 0" using assms(1) by auto
  have i: "length pre \<noteq> 11" using Cons.prems by auto
  have step: "digit_loop (pre @ (c # mid) @ post) (length pre) n r =
    (if n div r \<noteq> 0 then digit_loop ((pre @ [dig (unat (n mod r))]) @ mid @ post) (length (pre @ [dig (unat (n mod r))])) (n div r) r
     else Some (pre @ dig (unat (n mod r)) # mid @ post, length pre + 1))"
    using m r0 i rd_dig [of "unat (n mod r)"]
    by (subst digit_loop.simps) (simp add: DIGIT2STRING_LENGTH_LIMIT_def wr_at)
  show ?case
  proof (cases "?n < ?r")
    case True
    then have "ldigits ?r ?n = [?n]" by (subst ldigits.simps) simp
    moreover have "n div r = 0" "n mod r = n" using True by (simp_all add: unat_eq_zero [symmetric] unat_div word_arith_nat_mod)
    ultimately show ?thesis using Cons.prems(2) step by simp
  next
    case False
    then have l: "ldigits ?r ?n = unat (n mod r) # ldigits ?r (unat (n div r))"
      using assms(1) by (subst ldigits.simps) (simp add: unat_div unat_mod)
    have "n div r \<noteq> 0" using False r0 by (simp add: unat_eq_zero [symmetric] unat_div div_eq_0_iff)
    then show ?thesis using step Cons.IH [of "pre @ [dig (unat (n mod r))]" "n div r"] Cons.prems l by simp
  qed
qed simp

text \<open>The loop stops at the limit and writes two points over the last digits.\<close>

lemma digit_loop_limit:
  assumes "2 \<le> unat r" "unat r \<le> 16" and "11 < length pre + length (ldigits (unat r) (unat n))"
    and "length pre + length mid = 11"
  shows "digit_loop (pre @ mid @ post) (length pre) n r =
    Some ((take 9 (pre @ map dig (ldigits (unat r) (unat n))) @ ''..'') @ post, 11)"
  using assms(3,4)
proof (induction mid arbitrary: pre n)
  case Nil
  have "pre = take 9 pre @ drop 9 pre" "drop 9 pre = pre ! 9 # drop 10 pre" "drop 10 pre = pre ! 10 # drop 11 pre"
    using Nil Cons_nth_drop_Suc [of 9 pre] Cons_nth_drop_Suc [of 10 pre] by simp_all
  then have "pre = take 9 pre @ [pre ! 9, pre ! 10]" using Nil by simp
  then obtain p a b where p: "pre = p @ [a, b]" "length p = 9"
    by (rule that [of "take 9 pre" "pre ! 9" "pre ! 10"]) (use Nil in simp)
  then have "digit_loop (pre @ [] @ post) (length pre) n r = Some (p @ CHR ''.'' # CHR ''.'' # post, 11)"
    using wr_at [of p a "b # post" "CHR ''.''"] wr_at [of "p @ [CHR ''.'']" b post "CHR ''.''"]
    by (subst digit_loop.simps) (simp add: DIGIT2STRING_LENGTH_LIMIT_def)
  with p show ?case by simp
next
  case (Cons c mid)
  let ?r = "unat r" and ?n = "unat n"
  have m: "unat (n mod r) < 16" using assms(1,2) by (simp add: unat_mod) (meson less_le_trans mod_less_divisor pos2)
  have r0: "r \<noteq> 0" using assms(1) by auto
  have i: "length pre \<noteq> 11" using Cons.prems by auto
  have False': "\<not> ?n < ?r"
  proof
    assume "?n < ?r"
    then have "ldigits ?r ?n = [?n]" by (subst ldigits.simps) simp
    then show False using Cons.prems by simp
  qed
  then have l: "ldigits ?r ?n = unat (n mod r) # ldigits ?r (unat (n div r))"
    using assms(1) by (subst ldigits.simps) (simp add: unat_div unat_mod)
  have "n div r \<noteq> 0" using False' r0 by (simp add: unat_eq_zero [symmetric] unat_div div_eq_0_iff)
  then have "digit_loop (pre @ (c # mid) @ post) (length pre) n r =
    digit_loop ((pre @ [dig (unat (n mod r))]) @ mid @ post) (length (pre @ [dig (unat (n mod r))])) (n div r) r"
    using m r0 i rd_dig [of "unat (n mod r)"]
    by (subst digit_loop.simps) (simp add: DIGIT2STRING_LENGTH_LIMIT_def wr_at)
  then show ?case using Cons.IH [of "pre @ [dig (unat (n mod r))]" "n div r"] Cons.prems l by simp
qed

text \<open>The second loop reverses the part of the buffer from \<open>k\<close> on.\<close>

lemma swap_loop_spec:
  assumes "i + k = 2 * length pre + length mid" "0 < i" "k \<le> 1"
  shows "swap_loop (pre @ mid @ post) i k (length pre) = Some (pre @ rev mid @ post)"
  using assms
proof (induction "length mid" arbitrary: pre mid post rule: less_induct)
  case less
  consider (none) "mid = []" | (one) x where "mid = [x]" | (more) x mid' y where "mid = x # mid' @ [y]"
    by (metis rev_exhaust list.exhaust append_Nil)
  then show ?case
  proof cases
    case none
    then have "\<not> length pre \<le> (i - 1) div 2" using less.prems by auto
    then show ?thesis using none by (subst swap_loop.simps) simp
  next
    case (one x)
    then have k: "i = 2 * length pre + 1 - k" using less.prems by simp
    show ?thesis
    proof (cases "k = 0")
      case True
      have s: "\<not> length (pre @ [x]) \<le> (i - 1) div 2" "i - 1 + k - length pre = length pre" using k True by auto
      then have "swap_loop (pre @ x # post) i k (length (pre @ [x])) = Some (pre @ x # post)"
        by (subst swap_loop.simps) simp
      then show ?thesis using one k True s by (subst swap_loop.simps) (simp add: rd_at wr_at)
    next
      case False
      then have "\<not> length pre \<le> (i - 1) div 2" using k less.prems by auto
      then show ?thesis using one by (subst swap_loop.simps) simp
    qed
  next
    case (more x mid' y)
    let ?l = "pre @ y # mid'"
    have j: "length pre \<le> (i - 1) div 2" "i - 1 + k - length pre = length ?l" using less.prems more by auto
    have w: "rd (pre @ x # mid' @ y # post) (length ?l) = Some y"
        "wr (pre @ y # mid' @ y # post) (length ?l) x = Some (pre @ y # mid' @ x # post)"
      using rd_at [of "pre @ x # mid'" y post] wr_at [of ?l y post x] by simp_all
    have "swap_loop ((pre @ [y]) @ mid' @ x # post) i k (length (pre @ [y])) = Some ((pre @ [y]) @ rev mid' @ x # post)"
      by (rule less.hyps) (use more less.prems in auto)
    then have "swap_loop (pre @ y # mid' @ x # post) i k (Suc (length pre)) = Some (pre @ y # rev mid' @ x # post)"
      by simp
    then show ?thesis using more j w
      by (subst swap_loop.simps) (simp add: rd_at wr_at del: length_append)
  qed
qed

lemma c_str_map: "(\<And>c. c \<in> set cs \<Longrightarrow> c \<noteq> NUL) \<Longrightarrow> c_str (cs @ NUL # rest) = cs"
  unfolding c_str_def by (induction cs) auto

lemma split_at: "k \<le> length buf \<Longrightarrow> \<exists>a b. buf = a @ b \<and> length a = k"
  by (rule exI [of _ "take k buf"], rule exI [of _ "drop k buf"]) simp

text \<open>The part of a buffer that a number of \<open>l\<close> characters needs, and what stands behind it.\<close>

lemma buffer_parts:
  assumes "l < length buf"
  obtains mid c post where "buf = mid @ c # post" "length mid = l"
  using assms id_take_nth_drop [of l buf] that [of "take l buf" "buf ! l" "drop (Suc l) buf"] by simp

lemma uint_of_sint:
  fixes n :: u32
  shows "sint n < 0 \<Longrightarrow> int (unat (- n)) = - sint n" and "0 \<le> sint n \<Longrightarrow> int (unat n) = sint n"
proof -
  have b: "- (2 ^ 31) \<le> sint n" "sint n < 2 ^ 31" using sint_greater_eq [of n] sint_less [of n] by simp_all
  assume "sint n < 0"
  then have "uint (word_of_int (- sint n) :: u32) = - sint n" using b by (simp only: uint_word_of_int) simp
  then show "int (unat (- n)) = - sint n" by simp
next
  have b: "sint n < 2 ^ 31" using sint_less [of n] by simp
  assume "0 \<le> sint n"
  then have "uint (word_of_int (sint n) :: u32) = sint n" using b by (simp only: uint_word_of_int) simp
  then show "int (unat n) = sint n" by simp
qed

lemma uitoa_spec:
  assumes r: "2 \<le> unat r" "unat r \<le> 16" and n: "unat n < unat r ^ 11" and b: "12 \<le> length buf"
  shows "uitoa n buf r = Some (show_nat (unat r) (unat n) @ NUL # drop (Suc (length (show_nat (unat r) (unat n)))) buf)"
proof -
  let ?d = "ldigits (unat r) (unat n)"
  have l: "length ?d \<le> 11" using ldigits_length [OF r(1), of "unat n" 10] n by simp
  have "length ?d < length buf" using l b by simp
  then obtain mid c post where p: "buf = mid @ c # post" "length mid = length ?d" by (rule buffer_parts)
  have "digit_loop buf 0 n r = Some (map dig ?d @ c # post, length mid)"
    using digit_loop_spec [OF r, of "[]" n mid "c # post"] p(1) p(2) [symmetric] l by simp
  moreover have "wr (map dig ?d @ c # post) (length mid) NUL = Some (map dig ?d @ NUL # post)"
    using wr_at [of "map dig ?d" c post NUL] p(2) by simp
  moreover have "swap_loop (map dig ?d @ NUL # post) (length mid) 0 0 = Some (rev (map dig ?d) @ NUL # post)"
    using swap_loop_spec [of "length mid" 0 "[]" "map dig ?d" "NUL # post"] p(2) by simp
  ultimately show ?thesis using p
    by (simp add: uitoa_def flip: ldigits_show) (simp add: rev_map)
qed

lemma itoa_spec:
  assumes b: "12 \<le> length buf"
  shows "itoa n buf 10 = Some (show_int (sint n) @ NUL # drop (Suc (length (show_int (sint n)))) buf)"
proof (cases "n <s 0")
  case True
  let ?n = "- n :: u32" and ?d = "ldigits 10 (unat (- n :: u32))"
  have neg: "sint n < 0" using True by (simp add: word_sless_alt)
  have u: "int (unat ?n) = - sint n" using uint_of_sint(1) [OF neg] .
  have "unat ?n < 10 ^ 10" using unsigned_less [where ?'a = nat, of ?n] by simp
  then have l: "length ?d \<le> 10" using ldigits_length [of 10 "unat ?n" 9] by simp
  have "Suc (length ?d) < length buf" using l b by simp
  then obtain mid c post where p: "buf = mid @ c # post" "length mid = Suc (length ?d)" by (rule buffer_parts)
  then obtain m0 mid' where m: "mid = m0 # mid'" "length mid' = length ?d" by (cases mid) auto
  have "digit_loop (CHR ''-'' # mid' @ c # post) 1 ?n 10 = Some (CHR ''-'' # map dig ?d @ c # post, length mid)"
    using digit_loop_spec [of 10 "[CHR ''-'']" ?n mid' "c # post"] m(1) m(2) [symmetric] l p(2) [symmetric] by simp
  moreover have "wr (CHR ''-'' # map dig ?d @ c # post) (length mid) NUL = Some (CHR ''-'' # map dig ?d @ NUL # post)"
    using wr_at [of "CHR ''-'' # map dig ?d" c post NUL] m by simp
  moreover have "swap_loop (CHR ''-'' # map dig ?d @ NUL # post) (length mid) 1 1 =
      Some (CHR ''-'' # rev (map dig ?d) @ NUL # post)"
    using swap_loop_spec [of "length mid" 1 "[CHR ''-'']" "map dig ?d" "NUL # post"] m by simp
  moreover have "show_int (sint n) = CHR ''-'' # rev (map dig ?d)"
    using neg u by (simp add: show_int_def rev_map flip: ldigits_show) (metis nat_int uint_nat)
  ultimately show ?thesis using p m True by (simp add: itoa_def wr_def rd_def)
next
  case False
  let ?d = "ldigits 10 (unat n)"
  have pos: "0 \<le> sint n" using False by (simp add: word_sless_alt)
  have u: "int (unat n) = sint n" using uint_of_sint(2) [OF pos] .
  have "unat n < 10 ^ 10" using unsigned_less [where ?'a = nat, of n] by simp
  then have l: "length ?d \<le> 10" using ldigits_length [of 10 "unat n" 9] by simp
  have "length ?d < length buf" using l b by simp
  then obtain mid c post where p: "buf = mid @ c # post" "length mid = length ?d" by (rule buffer_parts)
  have "digit_loop buf 0 n 10 = Some (map dig ?d @ c # post, length mid)"
    using digit_loop_spec [of 10 "[]" n mid "c # post"] p(1) p(2) [symmetric] l by simp
  moreover have "wr (map dig ?d @ c # post) (length mid) NUL = Some (map dig ?d @ NUL # post)"
    using wr_at [of "map dig ?d" c post NUL] p(2) by simp
  moreover have "swap_loop (map dig ?d @ NUL # post) (length mid) 0 0 = Some (rev (map dig ?d) @ NUL # post)"
    using swap_loop_spec [of "length mid" 0 "[]" "map dig ?d" "NUL # post"] p(2) by simp
  moreover have "\<exists>c0 cs. map dig ?d @ NUL # post = c0 # cs \<and> c0 \<noteq> CHR ''-''"
  proof -
    obtain d ds where d: "?d = d # ds" by (cases ?d) auto
    then have "d < 10" using ldigits_less [of 10 d "unat n"] by simp
    then show ?thesis using d dig_sixteen(2) [of d] by simp
  qed
  moreover have "show_int (sint n) = rev (map dig ?d)"
    using pos u [symmetric] by (simp only: show_int_def nat_int rev_map flip: ldigits_show) simp
  ultimately show ?thesis using p False by (auto simp: itoa_def rd_def)
qed

text \<open>A buffer with a short string at its beginning.\<close>

lemma printed:
  assumes "length cs \<le> 11" "12 \<le> length buf" "\<And>c. c \<in> set cs \<Longrightarrow> c \<noteq> NUL"
  shows "c_str (cs @ NUL # drop (Suc (length cs)) buf) = cs" "length (cs @ NUL # drop (Suc (length cs)) buf) = length buf"
    "drop 12 (cs @ NUL # drop (Suc (length cs)) buf) = drop 12 buf"
proof -
  obtain m where "11 = length cs + m" using assms(1) le_Suc_ex by blast
  then have "12 - length cs = Suc m" "m + Suc (length cs) = 12" by simp_all
  then show "drop 12 (cs @ NUL # drop (Suc (length cs)) buf) = drop 12 buf" by simp
qed (use assms c_str_map in auto)

lemma show_int_short: "length (show_int (sint (n :: u32))) \<le> 11" "c \<in> set (show_int (sint n)) \<Longrightarrow> c \<noteq> NUL"
proof -
  have b: "- (2 ^ 31) \<le> sint n" "sint n < 2 ^ 31" using sint_greater_eq [of n] sint_less [of n] by simp_all
  have "length (show_nat 10 (nat x)) \<le> 10" if "x \<le> 2 ^ 31" for x
    using ldigits_length [of 10 "nat x" 9] that by (simp flip: ldigits_show)
  from this [of "sint n"] this [of "- sint n"] b show "length (show_int (sint n)) \<le> 11"
    by (simp add: show_int_def)
  assume "c \<in> set (show_int (sint n))"
  then show "c \<noteq> NUL" using show_nat_chars(1) [of 10 c] by (auto simp: show_int_def NUL_def split: if_splits)
qed

section \<open>Properties\<close>

text \<open>C27: \<open>_uitoa\<close> writes the notation of the number to the base \<open>radix\<close>, from 2 to 16, and its terminator into
  the first places of the buffer and leaves the rest of it as it is, whenever the notation has at most eleven digits:
  the two loops (digits from the end, then the reversal) agree with the recursive definition of the notation.\<close>

theorem uitoa_is_show:
  assumes "2 \<le> unat radix" and "unat radix \<le> 16" and "unat num < unat radix ^ 11" and "12 \<le> length buf"
  shows "\<exists>buf'. uitoa num buf radix = Some buf' \<and> c_str buf' = show_nat (unat radix) (unat num) \<and>
    length buf' = length buf \<and> drop (Suc (length (c_str buf'))) buf' = drop (Suc (length (c_str buf'))) buf \<and>
    read_nat (unat radix) (c_str buf') = unat num"
proof -
  let ?s = "show_nat (unat radix) (unat num)"
  have l: "length ?s \<le> 11"
    using ldigits_length [OF assms(1), of "unat num" 10] assms(3) by (simp flip: ldigits_show)
  show ?thesis
    using uitoa_spec [OF assms] printed [OF l assms(4) show_nat_chars(1) [OF assms(1,2)]] read_show [OF assms(1,2)] by simp
qed

lemma uitoa_is_show_witness:
  "\<exists>buf'. uitoa 0xBEEF (replicate 12 CHR ''x'') 16 = Some buf' \<and> c_str buf' = ''BEEF''"
proof -
  have "show_nat (unat (16 :: u32)) (unat (0xBEEF :: u32)) = ''BEEF''" by (simp add: show_int_def show_nat.simps dig_def index_table_def)
  then show ?thesis using uitoa_is_show [of 16 "0xBEEF" "replicate 12 CHR ''x''"] by auto
qed

text \<open>C28: \<open>_itoa\<close> writes the decimal notation of every 32-bit integer, the least one included, into a buffer of
  twelve places without leaving it: reading the string gives the number back.\<close>

theorem itoa_roundtrip:
  assumes "12 \<le> length buf"
  shows "\<exists>buf'. itoa num buf 10 = Some buf' \<and> c_str buf' = show_int (sint num) \<and>
    read_int (c_str buf') = sint num \<and> length buf' = length buf \<and> drop 12 buf' = drop 12 buf"
  using itoa_spec [OF assms] printed [OF show_int_short(1) assms show_int_short(2)] read_show_int by simp

lemma itoa_roundtrip_witness:
  "\<exists>buf'. itoa 0x80000000 (replicate 12 CHR ''x'') 10 = Some buf' \<and> c_str buf' = ''-2147483648''"
proof -
  have "show_int (sint (0x80000000 :: u32)) = ''-2147483648''" by (simp add: show_int_def show_nat.simps dig_def index_table_def)
  then show ?thesis using itoa_roundtrip [of "replicate 12 CHR ''x''" "0x80000000"] by auto
qed

lemma ldigits_longer: "2 \<le> r \<Longrightarrow> r ^ k \<le> n \<Longrightarrow> k < length (ldigits r n)"
proof (induction k arbitrary: n)
  case (Suc k)
  have "r * r ^ k div r \<le> n div r" using Suc.prems(2) by (intro div_le_mono) simp
  then have l: "r ^ k \<le> n div r" using Suc.prems(1) by simp
  have "r \<le> r * r ^ k" using Suc.prems(1) by simp
  then have "r \<le> n" using Suc.prems(2) by (simp only: power_Suc)
  then show ?case using Suc.IH [OF Suc.prems(1) l] Suc.prems(1) by (subst ldigits.simps) simp
qed simp

text \<open>A notation of more than eleven digits does not fit: \<open>_uitoa\<close> then writes two points and the last nine
  digits, and stays within the twelve places.\<close>

theorem uitoa_truncates:
  assumes r: "2 \<le> unat radix" "unat radix \<le> 16" and n: "unat radix ^ 11 \<le> unat num" and b: "12 \<le> length buf"
  shows "\<exists>buf'. uitoa num buf radix = Some buf' \<and> length buf' = length buf \<and> drop 12 buf' = drop 12 buf \<and>
    (let s = show_nat (unat radix) (unat num) in c_str buf' = ''..'' @ drop (length s - 9) s)"
proof -
  let ?d = "map dig (ldigits (unat radix) (unat num))"
  have l: "11 < length (ldigits (unat radix) (unat num))" using ldigits_longer [OF r(1) n] .
  have "11 < length buf" using b by simp
  then obtain mid c post where p: "buf = mid @ c # post" "length mid = 11" by (rule buffer_parts)
  let ?s = "''..'' @ rev (take 9 ?d)"
  have "digit_loop buf 0 num radix = Some ((take 9 ?d @ ''..'') @ c # post, 11)"
    using digit_loop_limit [OF r, of "[]" num mid "c # post"] l p by simp
  moreover have "wr ((take 9 ?d @ ''..'') @ c # post) 11 NUL = Some ((take 9 ?d @ ''..'') @ NUL # post)"
    using wr_at [of "take 9 ?d @ ''..''" c post NUL] l by simp
  moreover have "swap_loop ((take 9 ?d @ ''..'') @ NUL # post) 11 0 0 = Some (?s @ NUL # post)"
    using swap_loop_spec [of 11 0 "[]" "take 9 ?d @ ''..''" "NUL # post"] l by simp
  ultimately have u: "uitoa num buf radix = Some (?s @ NUL # post)" by (simp add: uitoa_def)
  have "rev (take 9 ?d) = drop (length ?d - 9) (show_nat (unat radix) (unat num))"
    by (simp add: rev_take rev_map flip: ldigits_show)
  moreover have "c_str (?s @ NUL # post) = ?s"
  proof (rule c_str_map)
    fix c assume "c \<in> set ?s"
    then consider "c = CHR ''.''" | d where "d \<in> set (ldigits (unat radix) (unat num))" "c = dig d"
      by (auto dest!: in_set_takeD)
    then show "c \<noteq> NUL"
    proof cases
      case (2 d)
      then have "d < 16" using ldigits_less [OF r(1), of d "unat num"] r(2) by simp
      then show ?thesis using dig_sixteen(1) 2(2) by simp
    qed (simp add: NUL_def)
  qed
  ultimately show ?thesis using u p l by (simp flip: ldigits_show)
qed

lemma uitoa_truncates_witness:
  "\<exists>buf'. uitoa 0x80001000 (replicate 12 CHR ''x'') 2 = Some buf' \<and> c_str buf' = ''..000000000''"
proof -
  have "show_nat (unat (2 :: u32)) (unat (0x80001000 :: u32)) = ''10000000000000000001000000000000''"
    by (simp add: show_nat.simps dig_def index_table_def)
  then show ?thesis using uitoa_truncates [of 2 "0x80001000" "replicate 12 CHR ''x''"] by (simp add: Let_def) blast
qed

section \<open>Floats\<close>

lemma ipow_loop_spec: "k < 2 ^ 32 \<Longrightarrow> ipow_loop num (of_nat k) result = result * num ^ k"
proof (induction k arbitrary: result)
  case (Suc k)
  have "unat (of_nat (Suc k) :: u32) = Suc k" using Suc.prems by (simp only: unat_of_nat) simp
  then have "of_nat (Suc k) \<noteq> (0 :: u32)" by (metis nat.distinct(1) unat_0)
  then show ?case using Suc by (subst ipow_loop.simps) (simp add: mult.assoc)
qed (subst ipow_loop.simps, simp)

lemma sint_small: "- (2 ^ 31) \<le> x \<Longrightarrow> x < 2 ^ 31 \<Longrightarrow> sint (word_of_int x :: u32) = x"
  using signed_take_bit_int_eq_self [of 31 x] by (simp add: signed_of_int)

lemma sint_small_sign:
  assumes "s = 1 \<or> s = - 1" "0 \<le> i" "i < 2 ^ 24"
  shows "sint (word_of_int (s * i) :: u32) = s * i"
  by (rule sint_small) (use assms in auto)

lemma ipow_ten: "p \<le> 7 \<Longrightarrow> ipow 10 (of_nat p) = word_of_int (10 ^ p)"
  using ipow_loop_spec [of p 10 1] by (simp add: ipow_def word_of_int_power_hom)

lemma ten_power_le: "p \<le> 7 \<Longrightarrow> (10 :: int) ^ p \<le> 10 ^ 7" by (rule power_increasing) simp_all

lemma count_loop_spec: "count_loop (int m) k = k + length (ldigits 10 m)"
proof (induction "10 :: nat" m arbitrary: k rule: ldigits.induct)
  case (1 m)
  have "int m sdiv 10 = int (m div 10)" by (simp add: sdiv10 zdiv_int)
  then show ?case using 1 by (subst count_loop.simps, subst ldigits.simps) (auto simp: Let_def div_eq_0_iff)
qed

lemma count_loop_neg: "count_loop (- int m) k = count_loop (int m) k"
proof (induction "10 :: nat" m arbitrary: k rule: ldigits.induct)
  case (1 m)
  have d: "int m sdiv 10 = int (m div 10)" "- int m sdiv 10 = - int (m div 10)" by (auto simp: sdiv10 zdiv_int)
  show ?case
  proof (cases "m div 10 = 0")
    case True
    then show ?thesis using d by (subst (1 2) count_loop.simps) simp
  next
    case False
    then have "\<not> (m < 10 \<or> (10 :: nat) < 2)" by simp
    then show ?thesis using 1 d False by (subst (1 2) count_loop.simps) (simp add: Let_def)
  qed
qed

lemma trunc_pos: "0 \<le> x \<Longrightarrow> x < 2 ^ 31 \<Longrightarrow> trunc x = Some (word_of_int \<lfloor>x\<rfloor>)"
  by (simp add: trunc_def Let_def le_floor_iff floor_less_iff not_less)

lemma trunc_neg: "0 \<le> x \<Longrightarrow> x < 2 ^ 31 \<Longrightarrow> trunc (- x) = Some (word_of_int (- \<lfloor>x\<rfloor>))"
proof (cases "x = 0")
  case False
  assume "0 \<le> x" "x < 2 ^ 31"
  with False have "- x < 0" "0 \<le> \<lfloor>x\<rfloor>" "\<lfloor>x\<rfloor> < 2 ^ 31" by (simp_all add: floor_less_iff)
  moreover from this have "- (2 ^ 31) \<le> - \<lfloor>x\<rfloor>" "- \<lfloor>x\<rfloor> < 2 ^ 31" by linarith+
  ultimately show ?thesis by (simp add: trunc_def Let_def)
qed (simp add: trunc_def Let_def)

lemma float_int_small:
  assumes "\<bar>i\<bar> \<le> 2 ^ 24"
  shows "float_int (word_of_int i) = of_int i"
proof -
  have "sint (word_of_int i :: u32) = i" by (rule sint_small) (use assms in auto)
  moreover have "round_single (of_int i) = of_int i" 
    by (rule round_single_exact [of _ i 149]) (use assms in \<open>simp_all add: single_unit_one\<close>)
  ultimately show ?thesis by (simp add: float_int_def)
qed

text \<open>The two parts of a number \<open>y\<close>: the integer, and the places behind the point that are printed.\<close>

definition places :: "rat \<Rightarrow> nat \<Rightarrow> nat" where
  "places y p = nat (\<lfloor>round_single (y * 10 ^ p)\<rfloor> - \<lfloor>y\<rfloor> * 10 ^ p)"

lemma places_spec:
  assumes y: "y = \<bar>single_val x\<bar>" and s: "y * 10 ^ p < 2 ^ 24"
  shows "places y p < 10 ^ p" "\<bar>of_nat (places y p) - (y - of_int \<lfloor>y\<rfloor>) * 10 ^ p\<bar> < 3 / 2"
    "int (places y p) = \<lfloor>round_single (y * 10 ^ p)\<rfloor> - \<lfloor>y\<rfloor> * 10 ^ p"
    "round_single (round_single (y * 10 ^ p) - of_int (\<lfloor>y\<rfloor> * 10 ^ p)) = round_single (y * 10 ^ p) - of_int (\<lfloor>y\<rfloor> * 10 ^ p)"
    "\<lfloor>y\<rfloor> * 10 ^ p < 2 ^ 24" "0 \<le> y" "y < 2 ^ 24"
proof -
  let ?a = "round_single (y * 10 ^ p)" and ?z = "\<lfloor>y\<rfloor> * 10 ^ p"
  show y0: "0 \<le> y" using y by simp
  then have s': "\<bar>y * 10 ^ p\<bar> < 2 ^ 24" using s by simp
  have "y * 1 \<le> y * 10 ^ p" using y0 by (intro mult_left_mono) simp_all
  then show ys: "y < 2 ^ 24" using s by simp
  have zy: "of_int ?z \<le> y * 10 ^ p" by simp
  then show "?z < 2 ^ 24" using s by (metis le_less_trans of_int_less_numeral_power_cancel_iff)
  have z0: "0 \<le> ?z" using y0 by simp
  show "round_single (?a - of_int ?z) = ?a - of_int ?z" by (rule round_single_diff [OF s' zy z0])
  have ge: "of_int ?z \<le> ?a" by (rule round_single_ge_int [OF s' zy])
  then have "?z \<le> \<lfloor>?a\<rfloor>" by (simp only: le_floor_iff)
  then show i: "int (places y p) = \<lfloor>?a\<rfloor> - ?z" by (simp add: places_def)
  obtain m k where u: "y = of_nat m * single_unit k" "m < 2 ^ 24" "k \<le> 149"
    using single_val_units [of x] ys unfolding y .
  have "?a < of_int ((\<lfloor>y\<rfloor> + 1) * 10 ^ p)"
    using round_single_below [OF u, of "10 ^ p" "\<lfloor>y\<rfloor> + 1"] s floor_correct [of y] by simp
  then have "\<lfloor>?a\<rfloor> < (\<lfloor>y\<rfloor> + 1) * 10 ^ p" by (simp only: floor_less_iff)
  then have "int (places y p) < 10 ^ p" using i by (simp add: distrib_right)
  then show "places y p < 10 ^ p" by (metis of_nat_less_iff of_nat_numeral of_nat_power)
  have "of_nat (places y p) = (of_int \<lfloor>?a\<rfloor> - of_int ?z :: rat)" using i by (metis of_int_diff of_int_of_nat_eq)
  moreover have "of_int \<lfloor>?a\<rfloor> \<le> ?a" "?a < of_int \<lfloor>?a\<rfloor> + 1" using floor_correct [of ?a] by simp_all
  moreover have "?a - y * 10 ^ p \<le> 1 / 2" "y * 10 ^ p - ?a \<le> 1 / 2" using round_single_near [OF s'] unfolding abs_le_iff by linarith+
  moreover have "(y - of_int \<lfloor>y\<rfloor>) * 10 ^ p = y * 10 ^ p - of_int ?z" by (simp add: left_diff_distrib)
  ultimately show "\<bar>of_nat (places y p) - (y - of_int \<lfloor>y\<rfloor>) * 10 ^ p\<bar> < 3 / 2" unfolding abs_less_iff by linarith
qed

text \<open>The string of a float: what \<open>_itoa\<close> wrote up to the place of the point, the point, and the second number.\<close>

lemma ftoa_spec:
  assumes fin: "single_finite num" and t: "trunc (single_val num) = Some i" and b: "24 \<le> length buf"
    and l: "l = count_loop (sint i) 0" "l \<le> length (show_int (sint i))"
    and f: "trunc (round_single (round_single (single_val num * float_int (ipow 10 prec)) - float_int (i * ipow 10 prec))) = Some y"
  shows "\<exists>buf'. ftoa num buf prec = Some buf' \<and> length buf' = length buf \<and>
    c_str buf' = take l (show_int (sint i)) @ ''.'' @ show_nat 10 (unat y)"
proof -
  let ?s = "show_int (sint i)" and ?y = "show_nat 10 (unat y)"
  note sh = show_int_short(1) [of i] show_int_short(2) [of _ i]
  let ?b = "?s @ NUL # drop (Suc (length ?s)) buf"
  have i: "itoa i buf 10 = Some ?b" by (rule itoa_spec) (use b in simp)
  have lb: "length ?b = length buf" using sh(1) b by simp
  have "l < length ?b" using l(2) by simp
  then have w: "wr ?b l (CHR ''.'') = Some (take l ?s @ CHR ''.'' # drop (Suc l) ?b)"
    using l(2) by (simp add: wr_def upd_conv_take_nth_drop)
  let ?r = "drop (Suc l) ?b"
  have r: "12 \<le> length ?r" using lb b l(2) sh(1) by simp
  have y: "unat y < unat (10 :: u32) ^ 11" using unsigned_less [where ?'a = nat, of y] by simp
  have u: "uitoa y ?r 10 = Some (?y @ NUL # drop (Suc (length ?y)) ?r)" using uitoa_spec [of 10 y ?r] r y by simp
  have ly: "length ?y \<le> 11" using ldigits_length [of 10 "unat y" 10] y by (simp flip: ldigits_show)
  let ?o = "(take l ?s @ ''.'' @ ?y) @ NUL # drop (Suc (length ?y)) ?r"
  have "ftoa num buf prec = Some ?o"
    using fin t i w u f l by (simp add: ftoa_def Let_def)
  moreover have "c_str ?o = take l ?s @ ''.'' @ ?y"
    by (rule c_str_map) (use sh(2) show_nat_chars(1) [of 10] in \<open>auto dest: in_set_takeD simp: NUL_def\<close>)
  moreover have "length ?o = length buf" using lb r ly l(2) by simp
  ultimately show ?thesis by blast
qed

text \<open>The arguments of the two conversions for a number of either sign \<open>s\<close>.\<close>

lemma float_parts:
  assumes s: "s = 1 \<or> s = - 1" and x: "single_val x = of_int s * y" "0 \<le> y" and p: "p \<le> 7" and m: "y * 10 ^ p < 2 ^ 24"
  shows "trunc (single_val x) = Some (word_of_int (s * \<lfloor>y\<rfloor>))" "sint (word_of_int (s * \<lfloor>y\<rfloor>) :: u32) = s * \<lfloor>y\<rfloor>"
    "trunc (round_single (round_single (single_val x * float_int (ipow 10 (of_nat p))) -
       float_int (word_of_int (s * \<lfloor>y\<rfloor>) * ipow 10 (of_nat p)))) = Some (word_of_int (s * int (places y p)))"
proof -
  have y: "y = \<bar>single_val x\<bar>" using s x by auto
  note pl = places_spec [OF y m]
  let ?n = "\<lfloor>y\<rfloor>" and ?a = "round_single (y * 10 ^ p)"
  have n: "0 \<le> ?n" "?n < 2 ^ 24" using pl(6,7) by (simp_all add: floor_less_iff)
  have tr: "trunc (of_int s * z) = Some (word_of_int (s * \<lfloor>z\<rfloor>))" if "0 \<le> z" "z < 2 ^ 31" for z :: rat
    using s trunc_pos [OF that] trunc_neg [OF that] by auto
  show "trunc (single_val x) = Some (word_of_int (s * ?n))" unfolding x(1) using pl(6,7) by (intro tr) simp_all
  show "sint (word_of_int (s * ?n) :: u32) = s * ?n" by (rule sint_small_sign [OF s n])
  have P: "float_int (ipow 10 (of_nat p)) = 10 ^ p"
    unfolding ipow_ten [OF p] using ten_power_le [OF p] by (subst float_int_small) simp_all
  have I: "float_int (word_of_int (s * ?n) * ipow 10 (of_nat p)) = of_int s * of_int (?n * 10 ^ p)"
  proof -
    have "word_of_int (s * ?n) * ipow 10 (of_nat p) = (word_of_int (s * (?n * 10 ^ p)) :: u32)"
      unfolding ipow_ten [OF p] by (simp add: mult.assoc)
    moreover have "\<bar>s * (?n * 10 ^ p)\<bar> \<le> 2 ^ 24" using s n(1) pl(5) by (auto simp: abs_mult)
    ultimately have "float_int (word_of_int (s * ?n) * ipow 10 (of_nat p)) = of_int (s * (?n * 10 ^ p))"
      using float_int_small [of "s * (?n * 10 ^ p)"] by (simp only:)
    then show ?thesis by (simp only: of_int_mult)
  qed
  have "round_single (of_int s * z) = of_int s * round_single z" for z using s round_single_minus by auto
  then have e: "round_single (round_single (single_val x * 10 ^ p) - of_int s * of_int (?n * 10 ^ p)) = of_int s * (?a - of_int (?n * 10 ^ p))"
    unfolding x(1) mult.assoc by (simp only: pl(4) flip: right_diff_distrib)
  have f: "\<lfloor>?a - of_int (?n * 10 ^ p)\<rfloor> = int (places y p)" unfolding pl(3) by (simp only: floor_diff_of_int)
  have "10 ^ p \<le> (10 ^ 7 :: nat)" using p by (intro power_increasing) simp_all
  then have "int (places y p) < 10 ^ 7" using pl(1) by simp
  then have "\<lfloor>?a - of_int (?n * 10 ^ p)\<rfloor> < 2 ^ 31" "0 \<le> \<lfloor>?a - of_int (?n * 10 ^ p)\<rfloor>" unfolding f by simp_all
  then have "?a - of_int (?n * 10 ^ p) < of_int (2 ^ 31)" "0 \<le> ?a - of_int (?n * 10 ^ p)" 
    by (simp_all only: floor_less_iff zero_le_floor)
  then have "0 \<le> ?a - of_int (?n * 10 ^ p)" "?a - of_int (?n * 10 ^ p) < 2 ^ 31" by simp_all
  then show "trunc (round_single (round_single (single_val x * float_int (ipow 10 (of_nat p))) -
       float_int (word_of_int (s * ?n) * ipow 10 (of_nat p)))) = Some (word_of_int (s * int (places y p)))"
    unfolding P I e by (subst tr) (simp_all only: f)
qed

text \<open>C39: For a non-negative float \<open>v\<close> and up to seven places \<open>p\<close>, with \<open>v * 10^p < 2^24\<close>, \<open>_ftoa\<close> prints the
  integer part of \<open>v\<close>, the point and a number \<open>f < 10^p\<close> without its leading zeros. \<open>f\<close> is the fraction cut off behind
  the product \<open>v * 10^p\<close> rounded to single precision, less than one and a half units of the last place away from the
  fraction of \<open>v\<close>. So the zeros behind the point are lost: the float that the literal 1.05f denotes is printed as 1.4.\<close>

theorem ftoa_prints:
  assumes "single_finite x" "0 \<le> single_val x" "p \<le> 7" "single_val x * 10 ^ p < 2 ^ 24" "24 \<le> length buf"
  shows "\<exists>buf' f. ftoa x buf (of_nat p) = Some buf' \<and> length buf' = length buf \<and>
    c_str buf' = show_nat 10 (nat \<lfloor>single_val x\<rfloor>) @ ''.'' @ show_nat 10 f \<and> f < 10 ^ p \<and>
    int f = \<lfloor>round_single (single_val x * 10 ^ p)\<rfloor> - \<lfloor>single_val x\<rfloor> * 10 ^ p \<and>
    \<bar>of_nat f - (single_val x - of_int \<lfloor>single_val x\<rfloor>) * 10 ^ p\<bar> < 3 / 2"
proof -
  let ?v = "single_val x"
  define n where "n = nat \<lfloor>?v\<rfloor>"
  have n: "\<lfloor>?v\<rfloor> = int n" using assms(2) by (simp add: n_def)
  note pl = places_spec [of ?v x p, OF _ assms(4)]
  have v: "?v = \<bar>?v\<bar>" using assms(2) by simp
  note fp = float_parts [of 1 x ?v p, OF _ _ assms(2-4), simplified, unfolded n]
  have "10 ^ p \<le> (10 ^ 7 :: nat)" using assms(3) by (intro power_increasing) simp_all
  then have u: "unat (word_of_int (int (places ?v p)) :: u32) = places ?v p" using pl(1) [OF v] by (simp add: unat_of_nat)
  have c: "count_loop (int n) 0 = length (show_nat 10 n)" using count_loop_spec [of n 0] by (simp flip: ldigits_show)
  have "\<exists>buf'. ftoa x buf (of_nat p) = Some buf' \<and> length buf' = length buf \<and>
    c_str buf' = show_nat 10 n @ ''.'' @ show_nat 10 (places ?v p)"
    using ftoa_spec [OF assms(1) fp(1) assms(5) refl _ fp(3)] u unfolding fp(2) c by (simp add: show_int_def)
  then show ?thesis using pl(1-3) [OF v] by (auto simp: n_def)
qed

text \<open>For a negative number \<open>_ftoa\<close> counts the digits without the sign, so that the point replaces the last digit
  of the integer part, and prints the negative fraction as an unsigned number: -3.5 is printed as \<open>-.4294967291\<close>.\<close>

theorem ftoa_negative:
  assumes "single_finite x" "single_val x \<le> - 1" "p \<le> 7" "- single_val x * 10 ^ p < 2 ^ 24" "24 \<le> length buf"
    and f: "f = places (- single_val x) p" "0 < f"
  shows "\<exists>buf'. ftoa x buf (of_nat p) = Some buf' \<and>
    c_str buf' = ''-'' @ butlast (show_nat 10 (nat \<lfloor>- single_val x\<rfloor>)) @ ''.'' @ show_nat 10 (2 ^ 32 - f)"
proof -
  let ?y = "- single_val x"
  define n where "n = nat \<lfloor>?y\<rfloor>"
  have y0: "0 \<le> ?y" using assms(2) by simp
  have n: "\<lfloor>?y\<rfloor> = int n" "0 < n" using assms(2) by (simp_all add: n_def)
  have y: "?y = \<bar>single_val x\<bar>" using assms(2) by simp
  note pl = places_spec [of ?y x p, OF y assms(4)]
  have v: "single_val x = of_int (- 1) * ?y" by simp
  note fp = float_parts [OF disjI2 [OF refl] v y0 assms(3,4), unfolded n(1) f(1) [symmetric]]
  have "10 ^ p \<le> (10 ^ 7 :: nat)" using assms(3) by (intro power_increasing) simp_all
  then have fb: "f < 10 ^ 7" using pl(1) f by simp
  have u: "unat (word_of_int (- 1 * int f) :: u32) = 2 ^ 32 - f"
  proof -
    have "uint (word_of_int (- 1 * int f) :: u32) = (- int f) mod 2 ^ 32" by (simp only: uint_word_of_int) simp
    also have "\<dots> = 2 ^ 32 - int f" using fb f(2) by (simp add: zmod_zminus1_eq_if)
    finally show ?thesis using fb by (simp add: unat_eq_nat_uint nat_diff_distrib)
  qed
  have c: "count_loop (- 1 * int n) 0 = length (show_nat 10 n)"
    using count_loop_spec [of n 0] by (simp add: count_loop_neg flip: ldigits_show)
  have s: "show_int (- 1 * int n) = CHR ''-'' # show_nat 10 n" using n(2) by (simp add: show_int_def)
  have t: "take (length (show_nat 10 n)) (CHR ''-'' # show_nat 10 n) = CHR ''-'' # butlast (show_nat 10 n)"
    by (cases "show_nat 10 n" rule: rev_cases) auto
  show ?thesis
    using ftoa_spec [OF assms(1) fp(1) assms(5) refl _ fp(3)] u unfolding fp(2) c s t by (auto simp flip: n_def)
qed

lemma ftoa_prints_witness:
  "\<exists>buf'. ftoa 0x3F866666 (replicate 24 CHR ''x'') 2 = Some buf' \<and> c_str buf' = ''1.4''"
proof -
  have v: "single_val 0x3F866666 = 8808038 / 2 ^ 23"
    by (simp add: single_val_def single_expt_def single_mant_def single_unit_def Let_def)
  have f: "\<lfloor>single_val 0x3F866666\<rfloor> = 1" unfolding v by (simp add: floor_eq_iff)
  have u: "single_ulp (single_val 0x3F866666 * 10 ^ 2) 0 = 132"
    unfolding v by (rule single_ulp_unique) (simp_all add: single_unit_def)
  have q: "single_val 0x3F866666 * 10 ^ 2 / single_unit 132 = 110100475 / 8" by (simp add: v single_unit_def)
  have "\<lfloor>110100475 / 8 :: rat\<rfloor> = 13762559" by (simp add: floor_eq_iff)
  then have "round_half_even (110100475 / 8) = 13762559" by (simp add: round_half_even_def)
  then have r: "\<lfloor>round_single (single_val 0x3F866666 * 10 ^ 2)\<rfloor> = 104"
    unfolding round_single_def Let_def u q by (simp add: single_unit_def floor_eq_iff)
  have "single_finite 0x3F866666" by (simp add: single_finite_def single_expt_def)
  moreover have "0 \<le> single_val 0x3F866666" "single_val 0x3F866666 * 10 ^ 2 < 2 ^ 24" unfolding v by simp_all
  ultimately obtain buf' fr where "ftoa 0x3F866666 (replicate 24 CHR ''x'') (of_nat 2) = Some buf'"
      "c_str buf' = show_nat 10 (nat \<lfloor>single_val 0x3F866666\<rfloor>) @ ''.'' @ show_nat 10 fr"
      "int fr = \<lfloor>round_single (single_val 0x3F866666 * 10 ^ 2)\<rfloor> - \<lfloor>single_val 0x3F866666\<rfloor> * 10 ^ 2"
    using ftoa_prints [of "0x3F866666" 2 "replicate 24 CHR ''x''"] by auto
  moreover from this(3) have "fr = 4" unfolding r f by simp
  ultimately show ?thesis unfolding f by (simp add: show_nat.simps dig_def index_table_def)
qed

lemma ftoa_negative_witness:
  "\<exists>buf'. ftoa 0xC0600000 (replicate 24 CHR ''x'') 1 = Some buf' \<and> c_str buf' = ''-.4294967291''"
proof -
  have v: "single_val 0xC0600000 = - (7 / 2)"
    by (simp add: single_val_def single_expt_def single_mant_def single_unit_def Let_def)
  have "round_single (35 :: rat) = 35" by (rule round_single_exact [of _ 35 149]) (simp_all add: single_unit_one)
  moreover have f: "\<lfloor>7 / 2 :: rat\<rfloor> = 3" by (simp add: floor_eq_iff)
  ultimately have p: "5 = places (- single_val 0xC0600000) 1" by (simp add: places_def v)
  have n: "\<lfloor>- single_val 0xC0600000\<rfloor> = 3" unfolding v by (simp add: f)
  have "single_finite 0xC0600000" by (simp add: single_finite_def single_expt_def)
  moreover have "single_val 0xC0600000 \<le> - 1" "- single_val 0xC0600000 * 10 ^ 1 < 2 ^ 24" unfolding v by simp_all
  ultimately obtain buf' where "ftoa 0xC0600000 (replicate 24 CHR ''x'') (of_nat 1) = Some buf'"
      "c_str buf' = ''-'' @ butlast (show_nat 10 (nat \<lfloor>- single_val 0xC0600000\<rfloor>)) @ ''.'' @ show_nat 10 (2 ^ 32 - 5)"
    using ftoa_negative [of "0xC0600000" 1 "replicate 24 CHR ''x''", OF _ _ _ _ _ p] by auto
  then show ?thesis unfolding n by (simp add: show_nat.simps dig_def index_table_def)
qed

end
