(* ===== verification/App_Lcd.thy ===== *)
theory App_Lcd
  imports Os_Mutex
begin

text \<open>
  The lock of the display (\<open>User/Src/app_lcd.c\<close>): a mutex of the kernel behind three functions that return its
  errors. \<open>App_LCDPend\<close> waits in the kernel; \<open>App_LCDPend_resume\<close> is the rest of the call.
\<close>

definition App_LCDMutex :: nat where "App_LCDMutex = 1020"

definition App_LCDObjectInit :: "kernel \<Rightarrow> (OS_ERR \<times> kernel) option" where
  "App_LCDObjectInit s = OSMutexCreate (Some App_LCDMutex) ''LCDMutex'' s"

definition App_LCDPend :: "u32 \<Rightarrow> kernel \<Rightarrow> (OS_ERR pend_outcome \<times> kernel) option" where
  "App_LCDPend timeout s = do {
     (r, s) \<leftarrow> OSMutexPend (Some App_LCDMutex) timeout OS_OPT_PEND_BLOCKING s;
     Some (case r of Blocked \<Rightarrow> Blocked | Done (_, err) \<Rightarrow> Done err, s)
   }"

definition App_LCDPend_resume :: "kernel \<Rightarrow> OS_ERR option" where
  "App_LCDPend_resume s = do { (_, err) \<leftarrow> OSMutexPend_resume s; Some err }"

definition App_LCDPost :: "u32 \<Rightarrow> kernel \<Rightarrow> (OS_ERR \<times> kernel) option" where
  "App_LCDPost ts s = OSMutexPost (Some App_LCDMutex) OS_OPT_POST_NONE ts s"

end
