(* ===== verification/Spec2Isabelle.thy ===== *)
theory Spec2Isabelle
  imports Kernel_Props Sem_Props Mutex_Props Q_Props Flag_Props Task_Props Time_Props Mem_Props Tmr_Props
    Kernel_Steps Boot_Props Os_Stat Sys_Props System_Str App_Lcd
begin

text \<open>
  A verification development for the firmware of an STM32F407 board: the real-time kernel uC/OS-III
  (\<open>src/uCOS-III/uCOS-III/Source\<close>, \<open>U\<close> below, with its Cortex-M port), which schedules the tasks of the
  application and of the lwIP stack, and the parts of the application that rest on it. The kernel is
  modelled function by function at the configuration of \<open>Cfg/os_cfg.h\<close> (32 priorities, round robin, tick
  interrupt of 1000 Hz, static tick, mutexes, semaphores, queues, flags, timers, memory partitions, task
  semaphores and queues, debug lists, stack checks).

  \<^bold>\<open>How the code is modelled.\<close> The state of the kernel is the record \<open>kernel\<close> (the \<open>OS_EXT\<close> globals of
  \<open>os.h\<close>) together with stores that map addresses to structures (\<open>OSTCBs\<close>, \<open>OSObjs\<close>, \<open>OSSems\<close>, \<open>OSMutexes\<close>,
  \<open>OSQs\<close>, \<open>OSFlagGrps\<close>, \<open>OSMsgs\<close>, \<open>OSMems\<close>, \<open>OSTmrs\<close>); the structures are records with the fields of the C
  structures, machine integers are words, a pointer is \<open>nat option\<close> with \<open>None\<close> for null. A function of C is a
  definition of the same name that takes the state and returns the state and the results (\<open>*p_err\<close> is one
  of them). Everything is in the \<open>option\<close> monad: \<open>None\<close> is the access through a null pointer, or, for the
  loops (\<open>partial_function\<close>), that the loop does not end; in \<open>System_Str\<close> it is an access outside a buffer.
  Every property that says what an operation does
  says that it returns. No fuel is used. \<open>ts\<close> arguments are the values of \<open>OS_TS_GET\<close>.

  A call that blocks ends at \<open>OSSched\<close>, which gives the CPU to another task: it returns \<open>Blocked\<close> (see
  \<open>Os_Obj\<close>), and the rest of the function, which runs when the task is running again, is the definition with
  the suffix \<open>_resume\<close> (\<open>_locked\<close> for the calls of \<open>os_tmr.c\<close> that wait for the lock of the timers). A value
  read after \<open>OSSched\<close> in a call that does not block is read in the same state. A context switch is taken
  where \<open>OSSched\<close> or \<open>OSIntExit\<close> requests it. The critical sections, during which interrupts are disabled, make
  each operation one step; an interrupt is a step between them.

  \<^bold>\<open>Theories.\<close>
  \<^item> \<open>Spec_Prelude\<close>, \<open>Dll\<close>: shared lemmas; doubly linked lists in a store (\<open>dll\<close>) and what insertion and
    removal of a node do to them.
  \<^item> \<open>Kernel_Types\<close>: the data of \<open>U/os.h\<close>, the error codes and options, the state, reading and writing of the
    stores (\<open>tcb\<close>, \<open>set_tcb\<close>, ...).
  \<^item> \<open>Os_Prio\<close> (\<open>U/os_prio.c\<close>, \<open>uC-CPU/cpu_core.c\<close>): the bitmap of ready priorities; it represents a set, its
    search returns the least element; the count of leading zeros by table agrees with the CLZ instruction.
  \<^item> \<open>Os_Rdy\<close>, \<open>Os_PendList\<close> (\<open>U/os_core.c\<close>), \<open>Os_Tick\<close> (\<open>U/os_tick.c\<close>): the three kinds of lists a task can be
    on, each refined to lists of tasks (\<open>rdy_rel\<close>, \<open>pend_lists\<close>, \<open>tick_lists\<close>; \<open>due\<close> is the time to expiry
    in the delta list). The interfaces the other components use are locales with interpretations here.
  \<^item> \<open>Kernel_Inv\<close>: the invariant \<open>kinv\<close>: the lists of a state represent lists of tasks, and every task is on
    exactly the lists its state and its pend object say. \<open>stage\<close> and \<open>becomes\<close> carry the proofs about
    operations that move one task through several lists.
  \<^item> \<open>Os_Block\<close> (\<open>U/os_core.c\<close>, parts of \<open>os_mutex.c\<close>, \<open>os_task.c\<close>, \<open>os_tick.c\<close>): \<open>OS_Pend\<close>, \<open>OS_Post\<close>,
    \<open>OS_PendAbort\<close>, the change of a priority with inheritance, and the tick update.
  \<^item> \<open>Os_Core\<close>: scheduler, interrupt nesting, scheduler lock, start (\<open>U/os_core.c\<close>, \<open>os_cpu_a.asm\<close>).
  \<^item> \<open>Os_Obj\<close>: what the kernel objects share, with the debug lists as a locale (\<open>dbg_list\<close>); \<open>Os_Msg\<close>
    (\<open>U/os_msg.c\<close>): message pool and queues, refined to lists of messages.
  \<^item> \<open>Os_Sem\<close>, \<open>Os_Q\<close>, \<open>Os_Mutex\<close>, \<open>Os_Flag\<close>, \<open>Os_Task\<close>, \<open>Os_Time\<close>, \<open>Os_Mem\<close>, \<open>Os_Tmr\<close>: the services of the
    files of these names in \<open>U\<close>; \<open>Os_Stk\<close>: initial stack frame, context save and restore of the port
    (\<open>os_cpu_c.c\<close>, \<open>os_cpu_a.asm\<close>) and the stack checks of \<open>os_task.c\<close>.
  \<^item> \<open>Mutex_Grp\<close>, \<open>Prio_Inherit\<close>, \<open>Tmr_List\<close>: the lemmas about mutex groups, priority inheritance and the list
    of running timers.
  \<^item> \<open>Demo_System\<close>: a concrete state at which the theorems are applied in their witnesses.
  \<^item> \<open>Kernel_Props\<close>, \<open>Sem_Props\<close>, \<open>Mutex_Props\<close>, \<open>Q_Props\<close>, \<open>Flag_Props\<close>, \<open>Task_Props\<close>, \<open>Time_Props\<close>,
    \<open>Mem_Props\<close>, \<open>Tmr_Props\<close>: the properties, each with a witness where it has hypotheses.
  \<^item> \<open>Mutex_Frame\<close>, \<open>Msg_Inv\<close>, \<open>Sys_Inv\<close>: the invariant of the running system (\<open>sys_ok\<close>), which joins \<open>kinv\<close>, the
    invariant of the mutexes and the inherited priorities, the messages of all queues and of the pool, and the
    conditions of the waiting tasks, with lemmas about what leaves its parts alone; \<open>Sys_Ops\<close>: each operation
    keeps it, one lemma per operation.
  \<^item> \<open>Kernel_Steps\<close>: the kernel as a transition system: the calls of the running tasks (waits, posts and aborts for
    semaphores, queues and event flags, locks and unlocks of mutexes, delays, suspensions) and the tick
    interrupt in any order; every reachable state satisfies \<open>sys_ok\<close>.
  \<^item> \<open>Os_Init\<close>, \<open>Boot_Props\<close>: \<open>OSInit\<close> with the tasks of the kernel and \<open>App_Start\<close> of \<open>User/Src/app.c\<close>; from the
    state at reset the start task begins in a state with that invariant. What follows, the creation of tasks and
    objects by the start task and the condition wait of the timer task, is not a run of \<open>Kernel_Steps\<close>.
  \<^item> \<open>Os_Stat\<close> (\<open>U/os_stat.c\<close>): the usage of the processor by the tasks, from the counter of the idle task and the
    cycles credited at each switch, with its rounding and overflow bounds.
  \<^item> \<open>Sys_Arch\<close>, \<open>Sys_Props\<close> (\<open>Lwip-2.1.2/arch/sys_arch.c\<close>): locks, semaphores, mailboxes and threads of lwIP on
    the kernel; a mailbox is a bounded queue (the locale of \<open>Os_Msg\<close> again) whose semaphore counts free places.
  \<^item> \<open>Single_Float\<close>: IEEE single precision, its values and its rounding, for \<open>_ftoa\<close>;
    \<open>System_Str\<close> (\<open>User/Src/system.c\<close>): numbers as strings; \<open>App_Lcd\<close> (\<open>User/Src/app_lcd.c\<close>): the lock of
    the display.
  \<^bold>\<open>What the theorems show.\<close> The scheduler runs the head of the list of the highest ready priority. Blocking
  and readying keep the invariant and move a task between exactly the lists they should. Semaphores, queues,
  mutexes and flag groups refine abstract objects (a count with waiting tasks, a bounded FIFO, a recursive
  lock, a condition on bits), hand what is posted to the first waiting task, and report time-outs, aborts and
  deletions as documented. Locking and unlocking a mutex keep the priority of each task at the highest of its
  base priority and those of the tasks waiting for it. A delay or a time-out of \<open>n\<close> ticks is over at the
  \<open>n\<close>-th tick interrupt when the tasks make no call meanwhile. The blocks of a
  partition that are handed out are distinct. A timer is fired when it is due, and starting or stopping one
  leaves the expiry of the others alone, except for a fault of \<open>OS_TmrUnlink\<close> that the statements spell out. In every reachable state of the transition system the most urgent ready
  task runs, no call gets stuck, no task waits for something that is there, each task has the priority that its
  base priority and the tasks it keeps waiting give it, and no task runs that is less urgent than one that waits
  for the mutexes of a ready task. The mailboxes of lwIP are
  fifo queues as long as no post is interrupted between its two halves. The printed integers are the notations
  of the integers; of a float the integer part is printed right, and the places behind the point without their
  leading zeros. Some theorems show cases in which the code departs from its own
  documentation; they are named as such.

  \<^bold>\<open>Not modelled.\<close> The hooks of the application, tracing, thread-local storage, the measurement of the longest
  pend times and of the running times of the tick and the timer task; the processor's own exception entry and the set-up of timers and interrupt controller; third-party code (lwIP,
  STM32 HAL, CMSIS, uC-LIB); the Ethernet, LCD and board drivers, which write device registers; the tasks of the
  application, which call third-party code and draw on the LCD. The steps of \<open>Kernel_Steps\<close> leave out
  what is proved operation by operation only: posts and aborts that do not reschedule (\<open>OS_OPT_POST_NO_SCHED\<close>), waits for mutexes and flags with a time-out, waits that consume
  flags, the abort of waits for mutexes, the creation and deletion of tasks and objects, the change of priorities by
  a task, the semaphore and the queue of a task, timers, and a locked scheduler.
\<close>

end
